(* ===== verification/Prelude.thy ===== *)
theory Prelude
  imports Main "HOL-Library.Multiset"
begin

text \<open>
  The prelude of the SimpleOrm development: the error values every fallible operation returns,
  the loop combinators that stand for Go's \<open>for\<close> loops with an early \<open>return err\<close>, and the
  generic lemmas on lists, strings and optional values the component theories share.

  Errors are values (\<open>internal/core/errors.go\<close>): a fallible Go function returning \<open>(T, error)\<close>
  is a HOL function into \<open>'a res\<close>, \<open>Inl\<close> carrying the error. An error keeps the stable code and
  the target it names; the prose of the message is not modelled, because callers and tests
  assert codes, never message text. A run-time panic of the Go program (an index out of range, a
  failed type assertion) is the error \<open>GoPanic\<close>, which propagates like any other. \<open>OutOfFuel\<close> is no
  behaviour of the program: a recursion over the object graph is given a depth bound, and reaching
  it is this value, which the theorems about that recursion show cannot happen.
\<close>

section \<open>Errors\<close>

datatype go_error =
    OrmError (errCode: string) (errTarget: string)
  | ConcurrencyError (errTarget: string)
  | PlainError string
  | GoPanic
  | OutOfFuel

type_synonym 'a res = "go_error + 'a"

definition ConcurrencyErrorCode :: string where
  "ConcurrencyErrorCode = ''CRUD-010''"

text \<open>The stable code an error carries; the empty text for an error that is not the library's own.\<close>

fun CodeOf :: "go_error \<Rightarrow> string" where
  "CodeOf (OrmError c t) = c"
| "CodeOf (ConcurrencyError t) = ConcurrencyErrorCode"
| "CodeOf (PlainError m) = []"
| "CodeOf GoPanic = []"
| "CodeOf OutOfFuel = []"

fun HasCode :: "go_error \<Rightarrow> string \<Rightarrow> bool" where
  "HasCode (OrmError c t) code = (c = code)"
| "HasCode (ConcurrencyError t) code = (code = ConcurrencyErrorCode)"
| "HasCode (PlainError m) code = False"
| "HasCode GoPanic code = False"
| "HasCode OutOfFuel code = False"

text \<open>Whether a result is a success, and the error of a failure.\<close>

fun is_ok :: "'a res \<Rightarrow> bool" where
  "is_ok (Inl e) = False"
| "is_ok (Inr x) = True"

lemma is_ok_iff: "is_ok r \<longleftrightarrow> (\<exists>x. r = Inr x)"
  by (cases r) auto

text \<open>Sequencing: \<open>x, err := m; if err != nil { return err }; f(x)\<close>.\<close>

definition bindR :: "'a res \<Rightarrow> ('a \<Rightarrow> 'b res) \<Rightarrow> 'b res" where
  "bindR m f = (case m of Inl e \<Rightarrow> Inl e | Inr x \<Rightarrow> f x)"

lemma bindR_simps [simp]: "bindR (Inl e) f = Inl e" "bindR (Inr x) f = f x"
  by (simp_all add: bindR_def)

lemma bindR_Inr_iff: "bindR m f = Inr y \<longleftrightarrow> (\<exists>x. m = Inr x \<and> f x = Inr y)"
  by (cases m) auto

lemma bindR_Inl_iff: "bindR m f = Inl e \<longleftrightarrow> m = Inl e \<or> (\<exists>x. m = Inr x \<and> f x = Inl e)"
  by (cases m) auto

lemma bindR_ok_iff: "is_ok (bindR m f) \<longleftrightarrow> (\<exists>x. m = Inr x \<and> is_ok (f x))"
  by (cases m) auto

lemma bindR_cong [fundef_cong]:
  "m = m' \<Longrightarrow> (\<And>x. m' = Inr x \<Longrightarrow> f x = g x) \<Longrightarrow> bindR m f = bindR m' g"
  by (cases m') auto

section \<open>Loops with an early return\<close>

text \<open>
  \<open>res_map f xs\<close> is \<open>for i, x := range xs { y, err := f(x); if err != nil { return err }; out[i] = y }\<close>.
\<close>

fun res_map :: "('a \<Rightarrow> 'b res) \<Rightarrow> 'a list \<Rightarrow> 'b list res" where
  "res_map f [] = Inr []"
| "res_map f (x # xs) =
     (case f x of
        Inl e \<Rightarrow> Inl e
      | Inr y \<Rightarrow> (case res_map f xs of Inl e \<Rightarrow> Inl e | Inr ys \<Rightarrow> Inr (y # ys)))"

lemma res_map_cong [fundef_cong]:
  assumes "xs = ys" and "\<And>x. x \<in> set ys \<Longrightarrow> f x = g x"
  shows "res_map f xs = res_map g ys"
  using assms by (induction ys arbitrary: xs) (auto split: sum.splits)

lemma res_map_Inr_iff:
  "res_map f xs = Inr ys \<longleftrightarrow> list_all2 (\<lambda>x y. f x = Inr y) xs ys"
proof (induction xs arbitrary: ys)
  case (Cons x xs)
  have "res_map f (x # xs) = Inr ys \<longleftrightarrow> (\<exists>y ys'. ys = y # ys' \<and> f x = Inr y \<and> res_map f xs = Inr ys')"
    by (auto split: sum.splits)
  then show ?case
    by (auto simp: Cons.IH list_all2_Cons1)
qed auto

lemma res_map_ok_iff: "is_ok (res_map f xs) \<longleftrightarrow> (\<forall>x \<in> set xs. is_ok (f x))"
  by (induction xs) (auto split: sum.splits)

lemma res_map_length: "res_map f xs = Inr ys \<Longrightarrow> length ys = length xs"
  by (auto simp: res_map_Inr_iff dest: list_all2_lengthD)

lemma res_map_Inl:
  "res_map f xs = Inl e \<Longrightarrow> \<exists>x \<in> set xs. f x = Inl e"
  by (induction xs) (auto split: sum.splits)

text \<open>A loop that threads a state and stops at the first error.\<close>

fun res_fold :: "('a \<Rightarrow> 's \<Rightarrow> 's res) \<Rightarrow> 'a list \<Rightarrow> 's \<Rightarrow> 's res" where
  "res_fold f [] s = Inr s"
| "res_fold f (x # xs) s = (case f x s of Inl e \<Rightarrow> Inl e | Inr s' \<Rightarrow> res_fold f xs s')"

lemma res_fold_cong [fundef_cong]:
  assumes "xs = ys" and "s = t" and "\<And>x u. x \<in> set ys \<Longrightarrow> f x u = g x u"
  shows "res_fold f xs s = res_fold g ys t"
  using assms by (induction ys arbitrary: xs s t) (auto split: sum.splits)

lemma res_fold_invariant:
  assumes "res_fold f xs s = Inr t" and "P s"
    and "\<And>x u v. x \<in> set xs \<Longrightarrow> P u \<Longrightarrow> f x u = Inr v \<Longrightarrow> P v"
  shows "P t"
  using assms
proof (induction xs arbitrary: s)
  case (Cons x xs)
  from Cons.prems(1) obtain s' where "f x s = Inr s'" and "res_fold f xs s' = Inr t"
    by (auto split: sum.splits)
  with Cons.prems(2,3) show ?case
    by (auto intro: Cons.IH [of s'])
qed simp

text \<open>
  A loop over operations that change a state in place and may fail: what was changed before the
  failure stays changed, so the state is returned with the error.
\<close>

type_synonym 's outcome = "'s \<times> go_error option"

fun run_all :: "('a \<Rightarrow> 's \<Rightarrow> 's outcome) \<Rightarrow> 'a list \<Rightarrow> 's \<Rightarrow> 's outcome" where
  "run_all f [] s = (s, None)"
| "run_all f (x # xs) s = (case f x s of (s', Some e) \<Rightarrow> (s', Some e) | (s', None) \<Rightarrow> run_all f xs s')"

lemma run_all_cong [fundef_cong]:
  assumes "xs = ys" and "s = t" and "\<And>x u. x \<in> set ys \<Longrightarrow> f x u = g x u"
  shows "run_all f xs s = run_all g ys t"
  using assms by (induction ys arbitrary: xs s t) (auto split: prod.splits option.splits)

lemma run_all_invariant:
  assumes "run_all f xs s = (t, r)" and "P s"
    and "\<And>x u v o'. x \<in> set xs \<Longrightarrow> P u \<Longrightarrow> f x u = (v, o') \<Longrightarrow> P v"
  shows "P t"
  using assms
proof (induction xs arbitrary: s)
  case (Cons x xs)
  obtain u o' where f: "f x s = (u, o')"
    by fastforce
  then have u: "P u"
    using Cons.prems(2) Cons.prems(3) [of x s u o'] by simp
  show ?case
  proof (cases o')
    case None
    then have "run_all f xs u = (t, r)"
      using Cons.prems(1) f by simp
    then show ?thesis
      by (rule Cons.IH [OF _ u]) (rule Cons.prems(3), simp_all)
  next
    case (Some e)
    then show ?thesis
      using Cons.prems(1) f u by simp
  qed
qed simp

lemma run_all_append:
  "run_all f (xs @ ys) s = (case run_all f xs s of (s', Some e) \<Rightarrow> (s', Some e) | (s', None) \<Rightarrow> run_all f ys s')"
  by (induction xs arbitrary: s) (auto split: prod.splits option.splits)

lemma run_all_concat: "run_all f (concat xss) s = run_all (run_all f) xss s"
  by (induction xss arbitrary: s) (auto simp: run_all_append split: prod.splits option.splits)

lemma run_all_map: "run_all f (map g xs) s = run_all (\<lambda>x. f (g x)) xs s"
  by (induction xs arbitrary: s) (auto split: prod.splits option.splits)

text \<open>The loop's error is one of its steps' errors.\<close>

lemma run_all_error:
  assumes "run_all f xs s = (t, Some e)" and "P s"
    and "\<And>x u v o'. x \<in> set xs \<Longrightarrow> P u \<Longrightarrow> f x u = (v, o') \<Longrightarrow> P v"
  shows "\<exists>x u v. x \<in> set xs \<and> P u \<and> f x u = (v, Some e)"
  using assms
proof (induction xs arbitrary: s)
  case (Cons x xs)
  obtain u o' where f: "f x s = (u, o')"
    by fastforce
  show ?case
  proof (cases o')
    case None
    then have "run_all f xs u = (t, Some e)" "P u"
      using Cons.prems(1,2) Cons.prems(3) [of x s u o'] f by auto
    then obtain y w v where "y \<in> set xs" "P w" "f y w = (v, Some e)"
      using Cons.IH [of u] Cons.prems(3) by (metis list.set_intros(2))
    then show ?thesis
      by auto
  next
    case (Some e')
    then show ?thesis
      using Cons.prems(1,2) f by auto
  qed
qed simp

section \<open>Lists\<close>

text \<open>The values of a list without repetitions, in first-seen order: a loop that appends what a \<open>seen\<close> map lacks.\<close>

fun first_seen :: "'a list \<Rightarrow> 'a list \<Rightarrow> 'a list" where
  "first_seen acc [] = acc"
| "first_seen acc (x # xs) = (if x \<in> set acc then first_seen acc xs else first_seen (acc @ [x]) xs)"

lemma set_first_seen [simp]: "set (first_seen acc xs) = set acc \<union> set xs"
  by (induction xs arbitrary: acc) auto

lemma distinct_first_seen: "distinct acc \<Longrightarrow> distinct (first_seen acc xs)"
  by (induction xs arbitrary: acc) auto

lemma mset_swap_nth:
  assumes "i < length xs" and "j < length xs"
  shows "mset (xs[i := xs ! j, j := xs ! i]) = mset xs"
  using assms by (simp add: mset_swap)

lemma butlast_last_mset: "xs \<noteq> [] \<Longrightarrow> mset xs = add_mset (last xs) (mset (butlast xs))"
  by (metis append_butlast_last_id mset_append mset.simps add.commute add_mset_add_single)

lemma set_take_Suc: "n < length xs \<Longrightarrow> set (take (Suc n) xs) = insert (xs ! n) (set (take n xs))"
  by (simp add: take_Suc_conv_app_nth)

lemma set_take_drop_split: "set xs = set (take i xs) \<union> set (drop i xs)"
  by (metis append_take_drop_id set_append)

lemma take_drop_filter:
  assumes "distinct xs" and "i < length xs"
  shows "take i xs @ drop (Suc i) xs = filter (\<lambda>x. x \<noteq> xs ! i) xs"
proof -
  define ys zs where "ys = take i xs" and "zs = drop (Suc i) xs"
  have xs: "xs = ys @ xs ! i # zs"
    using id_take_nth_drop [OF assms(2)] by (simp add: ys_def zs_def)
  then have "xs ! i \<notin> set ys" "xs ! i \<notin> set zs"
    using assms(1) by (metis distinct_append distinct.simps(2) disjoint_iff list.set_intros(1))+
  then have "filter (\<lambda>x. x \<noteq> xs ! i) ys = ys" "filter (\<lambda>x. x \<noteq> xs ! i) zs = zs"
    by (auto simp: filter_id_conv)
  then have "filter (\<lambda>x. x \<noteq> xs ! i) (ys @ xs ! i # zs) = ys @ zs"
    by simp
  then have "filter (\<lambda>x. x \<noteq> xs ! i) xs = ys @ zs"
    using xs by metis
  then show ?thesis
    by (simp add: ys_def zs_def)
qed

section \<open>Numbers as text\<close>

text \<open>\<open>strconv.Itoa\<close> and the \<open>%d\<close> verb: the decimal digits, most significant first.\<close>

definition digit_char :: "nat \<Rightarrow> char" where
  "digit_char d = char_of (48 + d)"

fun show_nat :: "nat \<Rightarrow> string" where
  "show_nat n = (if n < 10 then [digit_char n] else show_nat (n div 10) @ [digit_char (n mod 10)])"

declare show_nat.simps [simp del]

definition show_int :: "int \<Rightarrow> string" where
  "show_int i = (if i < 0 then ''-'' @ show_nat (nat (- i)) else show_nat (nat i))"

text \<open>The value of a digit string.\<close>

definition digit_value :: "char \<Rightarrow> nat" where
  "digit_value c = of_char c - 48"

definition digits_value :: "string \<Rightarrow> nat" where
  "digits_value = foldl (\<lambda>acc c. 10 * acc + digit_value c) 0"

lemma digit_value_char [simp]: "d < 10 \<Longrightarrow> digit_value (digit_char d) = d"
  by (simp add: digit_value_def digit_char_def)

lemma digits_value_show_nat [simp]: "digits_value (show_nat n) = n"
  by (induction n rule: show_nat.induct) (subst show_nat.simps, simp add: digits_value_def)

lemma show_nat_inject [simp]: "show_nat m = show_nat n \<longleftrightarrow> m = n"
  by (metis digits_value_show_nat)

section \<open>Strings\<close>

text \<open>\<open>strings.Join\<close>.\<close>

fun join :: "string \<Rightarrow> string list \<Rightarrow> string" where
  "join sep [] = []"
| "join sep [x] = x"
| "join sep (x # y # xs) = x @ sep @ join sep (y # xs)"

text \<open>\<open>strings.Split\<close> by a one-character separator and \<open>strings.TrimSpace\<close> on ASCII text.\<close>

fun Split :: "char \<Rightarrow> string \<Rightarrow> string list" where
  "Split sep [] = [[]]"
| "Split sep (c # cs) =
     (if c = sep then [] # Split sep cs
      else case Split sep cs of [] \<Rightarrow> [[c]] | w # ws \<Rightarrow> (c # w) # ws)"

definition is_space :: "char \<Rightarrow> bool" where
  "is_space c \<longleftrightarrow> (of_char c :: nat) \<in> {9, 10, 11, 12, 13, 32}"

definition TrimSpace :: "string \<Rightarrow> string" where
  "TrimSpace s = rev (dropWhile is_space (rev (dropWhile is_space s)))"

lemma Split_nonempty: "Split sep s \<noteq> []"
  by (induction s) (auto split: list.splits)

lemma join_Split: "join [sep] (Split sep s) = s"
proof (induction s)
  case (Cons c s)
  obtain w ws where "Split sep s = w # ws"
    using Split_nonempty [of sep s] by (cases "Split sep s") auto
  then show ?case
    using Cons by (cases ws) auto
qed simp

text \<open>\<open>strings.TrimRight\<close> and \<open>strings.Trim\<close> by a set of characters.\<close>

definition TrimRight :: "string \<Rightarrow> string \<Rightarrow> string" where
  "TrimRight s cutset = rev (dropWhile (\<lambda>c. c \<in> set cutset) (rev s))"

definition Trim :: "string \<Rightarrow> string \<Rightarrow> string" where
  "Trim s cutset = TrimRight (dropWhile (\<lambda>c. c \<in> set cutset) s) cutset"

lemma TrimRight_split: "\<exists>cut. s = TrimRight s cutset @ cut \<and> set cut \<subseteq> set cutset"
proof -
  let ?P = "\<lambda>c. c \<in> set cutset"
  have "s = rev (dropWhile ?P (rev s)) @ rev (takeWhile ?P (rev s))"
    by (metis rev_append rev_rev_ident takeWhile_dropWhile_id)
  moreover have "set (rev (takeWhile ?P (rev s))) \<subseteq> set cutset"
    by (auto dest: set_takeWhileD)
  ultimately show ?thesis
    unfolding TrimRight_def by blast
qed

lemma TrimRight_last:
  assumes "TrimRight s cutset \<noteq> []"
  shows "last (TrimRight s cutset) \<notin> set cutset"
proof -
  have "dropWhile (\<lambda>c. c \<in> set cutset) (rev s) \<noteq> []"
    using assms unfolding TrimRight_def rev_is_Nil_conv .
  then have "hd (dropWhile (\<lambda>c. c \<in> set cutset) (rev s)) \<notin> set cutset"
    using hd_dropWhile [of "\<lambda>c. c \<in> set cutset" "rev s"] by blast
  then show ?thesis
    by (simp add: TrimRight_def last_rev)
qed

text \<open>Trimming stops at a character that is not cut.\<close>

lemma TrimRight_stop: "x \<notin> set cutset \<Longrightarrow> TrimRight (p @ x # s) cutset = p @ x # TrimRight s cutset"
  by (simp add: TrimRight_def dropWhile_append)

lemma TrimRight_id: "s = [] \<or> last s \<notin> set cutset \<Longrightarrow> TrimRight s cutset = s"
  by (cases s rule: rev_cases) (auto simp: TrimRight_def)

lemma TrimRight_snoc: "c \<in> set cutset \<Longrightarrow> TrimRight (s @ [c]) cutset = TrimRight s cutset"
  by (simp add: TrimRight_def)

text \<open>
  \<open>strings.ToLower\<close>, \<open>strings.ToUpper\<close> and \<open>strings.EqualFold\<close> on the ASCII letters, the alphabet of
  Go and SQL identifiers; every other byte is left as it is.
\<close>

definition lower_char :: "char \<Rightarrow> char" where
  "lower_char c =
     (let n = (of_char c :: nat) in if 65 \<le> n \<and> n \<le> 90 then char_of (n + 32) else c)"

definition to_lower :: "string \<Rightarrow> string" where
  "to_lower = map lower_char"

definition EqualFold :: "string \<Rightarrow> string \<Rightarrow> bool" where
  "EqualFold a b \<longleftrightarrow> to_lower a = to_lower b"

lemma lower_char_idem [simp]: "lower_char (lower_char c) = lower_char c"
  by (auto simp: lower_char_def Let_def of_char_of)

lemma to_lower_idem [simp]: "to_lower (to_lower s) = to_lower s"
  by (simp add: to_lower_def)

lemma EqualFold_refl [simp]: "EqualFold s s"
  by (simp add: EqualFold_def)

lemma EqualFold_to_lower [simp]: "EqualFold (to_lower s) t = EqualFold s t" "EqualFold s (to_lower t) = EqualFold s t"
  by (simp_all add: EqualFold_def)

text \<open>\<open>strings.Compare\<close> and \<open>bytes.Compare\<close>: lexicographic by byte, -1, 0 or 1.\<close>

fun bytes_compare :: "string \<Rightarrow> string \<Rightarrow> int" where
  "bytes_compare [] [] = 0"
| "bytes_compare [] (y # ys) = -1"
| "bytes_compare (x # xs) [] = 1"
| "bytes_compare (x # xs) (y # ys) =
     (if (of_char x :: nat) < of_char y then -1
      else if (of_char y :: nat) < of_char x then 1
      else bytes_compare xs ys)"

lemma bytes_compare_zero [simp]: "bytes_compare a b = 0 \<longleftrightarrow> a = b"
  by (induction a b rule: bytes_compare.induct) auto

lemma bytes_compare_flip: "bytes_compare b a = - bytes_compare a b"
  by (induction a b rule: bytes_compare.induct) auto

lemma bytes_compare_range: "bytes_compare a b \<in> {-1, 0, 1}"
  by (induction a b rule: bytes_compare.induct) auto

lemma bytes_compare_trans:
  "bytes_compare a b \<le> 0 \<Longrightarrow> bytes_compare b c \<le> 0 \<Longrightarrow> bytes_compare a c \<le> 0"
proof (induction a b arbitrary: c rule: bytes_compare.induct)
  case 1
  then show ?case by (cases c) auto
next
  case (2 y ys)
  show ?case by (cases c) auto
next
  case (4 x xs y ys)
  from 4(3) obtain z zs where c: "c = z # zs"
    by (cases c) auto
  have xy: "(of_char x :: nat) < of_char y \<or> (of_char x :: nat) = of_char y \<and> bytes_compare xs ys \<le> 0"
    using 4(2) by (simp split: if_splits)
  have yz: "(of_char y :: nat) < of_char z \<or> (of_char y :: nat) = of_char z \<and> bytes_compare ys zs \<le> 0"
    using 4(3) unfolding c by (simp split: if_splits)
  show ?case
  proof (cases "(of_char x :: nat) < of_char z")
    case False
    then have "(of_char x :: nat) = of_char y" "(of_char y :: nat) = of_char z"
      using xy yz by linarith+
    then show ?thesis
      using xy yz 4(1) [of zs] unfolding c by simp
  qed (simp add: c)
qed simp

end
