(* ===== verification/Metadata.thy ===== *)
theory Metadata
  imports Complex_Main Prelude
begin

text \<open>
  The metadata model every subsystem reads (\<open>internal/core/metadata.go\<close>, \<open>cascade.go\<close>) and the
  memory the session works on: the values fields hold, the property, relationship and entity maps,
  and a store that gives each instance (a pointer) its field values and navigations. Reflection is
  replaced by that store: \<open>PropertyMap.Get\<close>/\<open>Set\<close> read and write it by property name, a
  navigation is read by \<open>navigationTargets\<close>.
\<close>

section \<open>Values\<close>

text \<open>
  The Go values a mapped field can hold, one constructor per case of the type switches in
  \<open>compare_values.go\<close> and \<open>tracker.go\<close>: the builtin integer types keep their width as a tag,
  a floating-point number is NaN, an infinity or a rational, a time is its instant with its zone
  offset, a GUID its sixteen bytes, a decimal its canonical text.
\<close>

datatype int_type = IntWord | Int8 | Int16 | Int32 | Int64

datatype uint_type = Uint | Uint8 | Uint16 | Uint32 | Uint64

datatype float_type = Float32 | Float64

datatype go_float = NaN | NegInf | Fin rat | PosInf

datatype gvalue =
    VNil
  | VInt int_type int
  | VUint uint_type nat
  | VFloat float_type go_float
  | VString string
  | VBool bool
  | VTime int int
  | VGUID string
  | VDecimal string
  | VBytes string

text \<open>The dynamic type of a non-nil value.\<close>

datatype go_kind =
  KNil | KInt int_type | KUint uint_type | KFloat float_type | KString | KBool | KTime | KGUID | KDecimal | KBytes

fun kind_of :: "gvalue \<Rightarrow> go_kind" where
  "kind_of VNil = KNil"
| "kind_of (VInt t i) = KInt t"
| "kind_of (VUint t n) = KUint t"
| "kind_of (VFloat t f) = KFloat t"
| "kind_of (VString s) = KString"
| "kind_of (VBool b) = KBool"
| "kind_of (VTime i z) = KTime"
| "kind_of (VGUID g) = KGUID"
| "kind_of (VDecimal d) = KDecimal"
| "kind_of (VBytes b) = KBytes"

section \<open>Maps\<close>

text \<open>A \<open>reflect.Type\<close> of an entity is named by its type name.\<close>

type_synonym gotype = string

datatype RelationKind =
  RelationTable | RelationView | RelationMaterializedView | RelationStatement | RelationProcedure

datatype KeyStrategy = KeyNone | KeyDatabaseGenerated | KeyClientGuid | KeyNatural

datatype RelationshipKind =
  RelationshipManyToOne | RelationshipOneToMany | RelationshipManyToMany | RelationshipOneToOne

datatype AuditRole = AuditNone | AuditCreatedAt | AuditUpdatedAt

text \<open>The operations a navigation cascades: a set of two flags.\<close>

datatype CascadeOperation = CascadePersist | CascadeRemove

type_synonym CascadeOperations = "CascadeOperation set"

definition Cascade_Has :: "CascadeOperations \<Rightarrow> CascadeOperation \<Rightarrow> bool" where
  "Cascade_Has c op \<longleftrightarrow> op \<in> c"

record PropertyMap =
  DeclaringType :: "gotype option"
  PropertyName :: string
  ColumnName :: string
  ColumnType :: string
  IsNullable :: bool
  IsKey :: bool
  IsGenerated :: bool
  IsVersion :: bool
  Audit :: AuditRole
  IsSoftDelete :: bool
  Owner :: "string option"
  ValueType :: go_kind
  RenamedFrom :: "string option"
  Length :: int
  Precision :: int
  Scale :: int

text \<open>A declared index: its columns in order, each by property and column name with its direction.\<close>

record IndexColumn =
  ic_PropertyName :: string
  ic_ColumnName :: string
  ic_Descending :: bool

record EntityIndex =
  ei_Name :: string
  ei_Columns :: "IndexColumn list"
  ei_Unique :: bool

text \<open>
  A declared trigger (\<open>internal/core/trigger.go\<close>): when it fires, on which events (a set of flags), the
  update-of columns and the neutral body.
\<close>

datatype TriggerTiming = TimingNone | TimingBefore | TimingAfter | TimingInsteadOf

datatype TriggerEvent = EventInsert | EventUpdate | EventDelete

record TriggerDefinition =
  trg_Name :: string
  trg_Timing :: TriggerTiming
  trg_Events :: "TriggerEvent set"
  trg_UpdateOf :: "string list"
  trg_SQL :: string

record EntityTrigger =
  et_Type :: gotype
  et_Definition :: TriggerDefinition

record RelationshipMap =
  RelName :: string
  RelKind :: RelationshipKind
  TargetType :: gotype
  ForeignKeyProperties :: "string list"
  LinkType :: gotype
  LinkForeignKeysToOwner :: "string list"
  LinkForeignKeysToTarget :: "string list"
  Cascade :: CascadeOperations

record EntityMap =
  Type :: gotype
  Kind :: RelationKind
  RelationName :: string
  Properties :: "PropertyMap list"
  Strategy :: KeyStrategy
  Relationships :: "RelationshipMap list"
  DefiningSQL :: string
  Indexes :: "EntityIndex list"
  Triggers :: "EntityTrigger list"

definition EntityName :: "EntityMap \<Rightarrow> string" where
  "EntityName m = Type m"

text \<open>The derived parts \<open>NewEntityMap\<close> collects: the key in declaration order, the first property of each role.\<close>

definition KeyProperties :: "EntityMap \<Rightarrow> PropertyMap list" where
  "KeyProperties m = filter IsKey (Properties m)"

definition VersionProperty :: "EntityMap \<Rightarrow> PropertyMap option" where
  "VersionProperty m = find IsVersion (Properties m)"

definition CreatedAtProperty :: "EntityMap \<Rightarrow> PropertyMap option" where
  "CreatedAtProperty m = find (\<lambda>p. Audit p = AuditCreatedAt) (Properties m)"

definition UpdatedAtProperty :: "EntityMap \<Rightarrow> PropertyMap option" where
  "UpdatedAtProperty m = find (\<lambda>p. Audit p = AuditUpdatedAt) (Properties m)"

definition SoftDeleteProperty :: "EntityMap \<Rightarrow> PropertyMap option" where
  "SoftDeleteProperty m = find IsSoftDelete (Properties m)"

text \<open>\<open>EntityMap.Property\<close>: the first mapped property with exactly this name.\<close>

definition Property :: "EntityMap \<Rightarrow> string \<Rightarrow> PropertyMap option" where
  "Property m name = find (\<lambda>p. PropertyName p = name) (Properties m)"

section \<open>Instances in memory\<close>

type_synonym ptr = nat

text \<open>
  What a navigation field can be: absent from the struct, a pointer (nil or not), a slice (nil, or
  its elements, each nil or the address of an instance), or a field of another kind.
\<close>

datatype nav_field = NoField | PointerField "ptr option" | SliceField "ptr option list option" | OtherField

text \<open>The store: the allocated instances are the pointers below \<open>hsize\<close>.\<close>

record memory =
  fvals :: "ptr \<Rightarrow> string \<Rightarrow> gvalue"
  navs :: "ptr \<Rightarrow> string \<Rightarrow> nav_field"
  hsize :: nat

definition Get :: "memory \<Rightarrow> PropertyMap \<Rightarrow> ptr \<Rightarrow> gvalue" where
  "Get mem p e = fvals mem e (PropertyName p)"

definition Set_field :: "memory \<Rightarrow> PropertyMap \<Rightarrow> ptr \<Rightarrow> gvalue \<Rightarrow> memory" where
  "Set_field mem p e v = mem\<lparr>fvals := (fvals mem)(e := (fvals mem e)(PropertyName p := v))\<rparr>"

text \<open>
  \<open>PropertyMap.Set\<close>: the value must be of the field's value type, anything else is MAP-030; nil writes the
  field's zero value, which is nil for a nullable (pointer) field only.
\<close>

definition Target :: "PropertyMap \<Rightarrow> string" where
  "Target p = (case DeclaringType p of Some t \<Rightarrow> t @ ''.'' @ PropertyName p | None \<Rightarrow> PropertyName p)"

fun zero_of_kind :: "go_kind \<Rightarrow> gvalue" where
  "zero_of_kind KNil = VNil"
| "zero_of_kind (KInt t) = VInt t 0"
| "zero_of_kind (KUint t) = VUint t 0"
| "zero_of_kind (KFloat t) = VFloat t (Fin 0)"
| "zero_of_kind KString = VString []"
| "zero_of_kind KBool = VBool False"
| "zero_of_kind KTime = VTime 0 0"
| "zero_of_kind KGUID = VGUID (replicate 16 (char_of (0 :: nat)))"
| "zero_of_kind KDecimal = VDecimal []"
| "zero_of_kind KBytes = VBytes []"

definition zero_value :: "PropertyMap \<Rightarrow> gvalue" where
  "zero_value p = (if IsNullable p then VNil else zero_of_kind (ValueType p))"

definition PropertyMap_Set :: "memory \<Rightarrow> PropertyMap \<Rightarrow> ptr \<Rightarrow> gvalue \<Rightarrow> memory res" where
  "PropertyMap_Set mem p e v =
     (if v = VNil then Inr (Set_field mem p e (zero_value p))
      else if kind_of v = ValueType p then Inr (Set_field mem p e v)
      else Inl (OrmError ''MAP-030'' (Target p)))"

text \<open>
  \<open>navigationTargets\<close> (\<open>unit_of_work.go\<close>): the current targets of a navigation, and whether it is
  initialized; nothing is loaded to answer, a nil element of a collection is skipped.
\<close>

definition navigationTargets :: "memory \<Rightarrow> ptr \<Rightarrow> RelationshipMap \<Rightarrow> ptr list \<times> bool" where
  "navigationTargets mem e r =
     (case navs mem e (RelName r) of
        NoField \<Rightarrow> ([], False)
      | PointerField None \<Rightarrow> ([], False)
      | PointerField (Some p) \<Rightarrow> ([p], True)
      | SliceField None \<Rightarrow> ([], False)
      | SliceField (Some es) \<Rightarrow> (List.map_filter id es, True)
      | OtherField \<Rightarrow> ([], False))"

lemma Get_Set_same [simp]: "Get (Set_field mem p e v) p e = v"
  by (simp add: Get_def Set_field_def)

text \<open>A field holds a value of its type; nil only where it is a pointer. Such a value assigns back.\<close>

definition field_typed :: "PropertyMap \<Rightarrow> gvalue \<Rightarrow> bool" where
  "field_typed p v \<longleftrightarrow> (if v = VNil then IsNullable p else kind_of v = ValueType p)"

lemma PropertyMap_Set_typed: "field_typed p v \<Longrightarrow> PropertyMap_Set mem p e v = Inr (Set_field mem p e v)"
  by (auto simp: PropertyMap_Set_def field_typed_def zero_value_def split: if_splits)

lemma kind_of_VNil [simp]: "kind_of v = KNil \<longleftrightarrow> v = VNil"
  by (cases v) auto

lemma kind_of_zero [simp]: "kind_of (zero_of_kind k) = k"
  by (cases k) auto

lemma PropertyMap_Set_field: "PropertyMap_Set mem p e v = Inr mem' \<Longrightarrow> \<exists>v'. mem' = Set_field mem p e v'"
  by (auto simp: PropertyMap_Set_def split: if_splits)

lemma Get_Set_other: "e \<noteq> e' \<or> PropertyName p \<noteq> PropertyName q \<Longrightarrow> Get (Set_field mem p e v) q e' = Get mem q e'"
  by (auto simp: Get_def Set_field_def)

lemma navs_Set [simp]: "navs (Set_field mem p e v) = navs mem"
  by (simp add: Set_field_def)

lemma navigationTargets_Set [simp]: "navigationTargets (Set_field mem p e v) = navigationTargets mem"
  by (simp add: fun_eq_iff navigationTargets_def)

text \<open>No dangling pointers: the targets of an allocated instance are allocated.\<close>

definition wf_memory :: "memory \<Rightarrow> bool" where
  "wf_memory mem \<longleftrightarrow> (\<forall>p < hsize mem. \<forall>r. \<forall>q \<in> set (fst (navigationTargets mem p r)). q < hsize mem)"

lemma hsize_Set [simp]: "hsize (Set_field mem p e v) = hsize mem"
  by (simp add: Set_field_def)

text \<open>A navigation that is not initialized has no targets.\<close>

lemma navigationTargets_uninitialized: "\<not> snd (navigationTargets mem e r) \<Longrightarrow> fst (navigationTargets mem e r) = []"
  by (auto simp: navigationTargets_def split: nav_field.splits option.splits)

section \<open>Identity\<close>

text \<open>\<open>EntityMap.KeyValues\<close>: the key values of an instance in key order; a keyless entity is CRUD-002.\<close>

definition KeyValues :: "memory \<Rightarrow> EntityMap \<Rightarrow> ptr \<Rightarrow> gvalue list res" where
  "KeyValues mem m e =
     (if KeyProperties m = [] then Inl (OrmError ''CRUD-002'' (EntityName m))
      else Inr (map (\<lambda>p. Get mem p e) (KeyProperties m)))"

definition HasNull :: "gvalue list \<Rightarrow> bool" where
  "HasNull t \<longleftrightarrow> VNil \<in> set t"

text \<open>\<open>keyOf\<close> (\<open>tracking.go\<close>): an instance's identity, and whether every part is non-null.\<close>

definition keyOf :: "memory \<Rightarrow> EntityMap \<Rightarrow> ptr \<Rightarrow> gvalue list \<times> bool" where
  "keyOf mem m e = (let tuple = map (\<lambda>p. Get mem p e) (KeyProperties m) in (tuple, \<not> HasNull tuple))"

section \<open>A small entity for the concrete examples\<close>

definition sample_property :: "string \<Rightarrow> bool \<Rightarrow> PropertyMap" where
  "sample_property name key = \<lparr>DeclaringType = None, PropertyName = name, ColumnName = to_lower name, ColumnType = ''int64'', IsNullable = False,
     IsKey = key, IsGenerated = False, IsVersion = False, Audit = AuditNone, IsSoftDelete = False, Owner = None, ValueType = KInt Int64, RenamedFrom = None, Length = 0, Precision = 0, Scale = 0\<rparr>"

definition sample_map :: EntityMap where
  "sample_map = \<lparr>Type = ''Order'', Kind = RelationTable, RelationName = ''orders'',
     Properties = [sample_property ''Id'' True, sample_property ''Total'' False],
     Strategy = KeyNatural, Relationships = [], DefiningSQL = [], Indexes = [], Triggers = []\<rparr>"

text \<open>A memory in which instance \<open>p\<close> has key \<open>p\<close> and the given total.\<close>

definition sample_memory :: "int \<Rightarrow> memory" where
  "sample_memory amount = \<lparr>fvals = (\<lambda>p f. if f = ''Id'' then VInt Int64 (int p) else VInt Int64 amount),
     navs = (\<lambda>_ _. NoField), hsize = 10\<rparr>"

lemmas sample_defs = sample_property_def sample_map_def sample_memory_def

end
