(* ===== verification/Keys.thy ===== *)
theory Keys
  imports Metadata
begin

text \<open>
  The value order behind entity identity (\<open>internal/core/compare_values.go\<close>, \<open>key_tuple.go\<close>,
  \<open>decimal.go\<close>): \<open>CompareValues\<close> over the fixed table of Go types, \<open>KeyTuple.Compare\<close> and
  \<open>KeyTuple.Equal\<close>. A type assertion that fails panics, and so does the model.

  \<open>key_compare\<close> is what the identity map needs of a comparator; the interpretation at the end
  shows that \<open>KeyTuple.Compare\<close> provides it on the keys of one entity type.
\<close>

section \<open>Decimals\<close>

text \<open>
  \<open>Decimal.String\<close>: the zero value is \<open>0\<close>. \<open>Decimal.Compare\<close> reads both texts as exact rationals
  (\<open>big.Rat.SetString\<close>): an optional sign, digits, an optional fraction.
\<close>

definition Decimal_String :: "string \<Rightarrow> string" where
  "Decimal_String d = (if d = [] then ''0'' else d)"

definition rat_of_decimal :: "string \<Rightarrow> rat" where
  "rat_of_decimal s =
     (let neg = (s \<noteq> [] \<and> hd s = CHR ''-'');
          body = (if neg then tl s else s);
          whole = takeWhile (\<lambda>c. c \<noteq> CHR ''.'') body;
          frac = drop (Suc (length whole)) body;
          v = of_nat (digits_value (whole @ frac)) / 10 ^ length frac
      in if neg then - v else v)"

definition compareOrdered :: "'a::linorder \<Rightarrow> 'a \<Rightarrow> int" where
  "compareOrdered a b = (if a < b then -1 else if a > b then 1 else 0)"

definition Decimal_Compare :: "string \<Rightarrow> string \<Rightarrow> int" where
  "Decimal_Compare d other = compareOrdered (rat_of_decimal (Decimal_String d)) (rat_of_decimal (Decimal_String other))"

section \<open>Comparing values\<close>

text \<open>\<open><\<close> on floating-point numbers: every comparison with NaN is false.\<close>

fun float_less :: "go_float \<Rightarrow> go_float \<Rightarrow> bool" where
  "float_less NaN b = False"
| "float_less a NaN = False"
| "float_less NegInf NegInf = False"
| "float_less NegInf b = True"
| "float_less (Fin x) NegInf = False"
| "float_less (Fin x) (Fin y) = (x < y)"
| "float_less (Fin x) PosInf = True"
| "float_less PosInf b = False"

definition compareFloats :: "go_float \<Rightarrow> go_float \<Rightarrow> int" where
  "compareFloats a b = (if float_less a b then -1 else if float_less b a then 1 else 0)"

text \<open>\<open>fmt.Sprint\<close> of a byte slice, the rendering the default case compares.\<close>

definition Sprint_bytes :: "string \<Rightarrow> string" where
  "Sprint_bytes b = ''['' @ join '' '' (map (\<lambda>c. show_nat (of_char c)) b) @ '']''"

text \<open>
  \<open>CompareValues\<close>: the type switch on the first value. Every case but \<open>nil\<close> and the default asserts
  the second value to be of the same type and panics when it is not. Of the types the default
  case serves, a byte slice is the modelled one; it is compared with another byte slice or with nil (the code
  compares it with a value of another kind by their formatted texts, here that is a panic; a nil slice
  and an empty one are one value).
\<close>

fun CompareValues :: "gvalue \<Rightarrow> gvalue \<Rightarrow> int res" where
  "CompareValues VNil b = Inr (if b = VNil then 0 else -1)"
| "CompareValues (VInt t a) b =
     (case b of VInt u c \<Rightarrow> if t = u then Inr (compareOrdered a c) else Inl GoPanic | _ \<Rightarrow> Inl GoPanic)"
| "CompareValues (VUint t a) b =
     (case b of VUint u c \<Rightarrow> if t = u then Inr (compareOrdered a c) else Inl GoPanic | _ \<Rightarrow> Inl GoPanic)"
| "CompareValues (VFloat t a) b =
     (case b of VFloat u c \<Rightarrow> if t = u then Inr (compareFloats a c) else Inl GoPanic | _ \<Rightarrow> Inl GoPanic)"
| "CompareValues (VString a) b = (case b of VString c \<Rightarrow> Inr (bytes_compare a c) | _ \<Rightarrow> Inl GoPanic)"
| "CompareValues (VBool a) b =
     (case b of VBool c \<Rightarrow> Inr (if a = c then 0 else if \<not> a then -1 else 1) | _ \<Rightarrow> Inl GoPanic)"
| "CompareValues (VTime a za) b = (case b of VTime c zc \<Rightarrow> Inr (compareOrdered a c) | _ \<Rightarrow> Inl GoPanic)"
| "CompareValues (VGUID a) b = (case b of VGUID c \<Rightarrow> Inr (bytes_compare a c) | _ \<Rightarrow> Inl GoPanic)"
| "CompareValues (VDecimal a) b = (case b of VDecimal c \<Rightarrow> Inr (Decimal_Compare a c) | _ \<Rightarrow> Inl GoPanic)"
| "CompareValues (VBytes a) b =
     (case b of
        VNil \<Rightarrow> Inr 1
      | VBytes c \<Rightarrow> Inr (bytes_compare (Sprint_bytes a) (Sprint_bytes c))
      | _ \<Rightarrow> Inl GoPanic)"

section \<open>Key tuples\<close>

type_synonym KeyTuple = "gvalue list"

text \<open>\<open>KeyTuple.Compare\<close>: element-wise, \<open>other[i]\<close> panicking when it is too short.\<close>

fun KeyTuple_Compare :: "KeyTuple \<Rightarrow> KeyTuple \<Rightarrow> int res" where
  "KeyTuple_Compare [] other = Inr 0"
| "KeyTuple_Compare (a # t) [] = Inl GoPanic"
| "KeyTuple_Compare (a # t) (b # other) =
     bindR (CompareValues a b) (\<lambda>c. if c \<noteq> 0 then Inr c else KeyTuple_Compare t other)"

text \<open>\<open>KeyTuple.Equal\<close>: same length and deep equality position by position.\<close>

text \<open>\<open>reflect.DeepEqual\<close> on these values: structural, except that a NaN is never equal to itself.\<close>

definition DeepEqual :: "gvalue \<Rightarrow> gvalue \<Rightarrow> bool" where
  "DeepEqual a b \<longleftrightarrow> a = b \<and> (case a of VFloat t f \<Rightarrow> f \<noteq> NaN | _ \<Rightarrow> True)"

definition KeyTuple_Equal :: "KeyTuple \<Rightarrow> KeyTuple \<Rightarrow> bool" where
  "KeyTuple_Equal t other \<longleftrightarrow> length t = length other \<and> list_all2 DeepEqual t other"

section \<open>The order on one type's values\<close>

lemma compareOrdered_simps:
  "compareOrdered a b = 0 \<longleftrightarrow> a = b" "compareOrdered a b \<le> 0 \<longleftrightarrow> a \<le> b"
  by (auto simp: compareOrdered_def)

lemma compareOrdered_flip: "compareOrdered b a = - compareOrdered a b"
  by (auto simp: compareOrdered_def)

fun float_rank :: "go_float \<Rightarrow> int \<times> rat" where
  "float_rank NaN = (3, 0)"
| "float_rank NegInf = (0, 0)"
| "float_rank (Fin x) = (1, x)"
| "float_rank PosInf = (2, 0)"

lemma float_less_rank:
  "a \<noteq> NaN \<Longrightarrow> b \<noteq> NaN \<Longrightarrow>
   float_less a b \<longleftrightarrow> fst (float_rank a) < fst (float_rank b) \<or>
     fst (float_rank a) = fst (float_rank b) \<and> snd (float_rank a) < snd (float_rank b)"
  by (cases a; cases b) auto

text \<open>The values that have a place in an order: not nil and not NaN.\<close>

fun ordered_value :: "gvalue \<Rightarrow> bool" where
  "ordered_value VNil = False"
| "ordered_value (VFloat t f) = (f \<noteq> NaN)"
| "ordered_value v = True"

lemma CompareValues_total:
  assumes "kind_of a = kind_of b" and "ordered_value a" and "ordered_value b"
  shows "\<exists>c. CompareValues a b = Inr c"
  using assms by (cases a; cases b) auto

lemma compareFloats_flip: "compareFloats b a = - compareFloats a b"
  by (cases a; cases b) (auto simp: compareFloats_def)

lemma Decimal_Compare_flip: "Decimal_Compare b a = - Decimal_Compare a b"
  unfolding Decimal_Compare_def by (rule compareOrdered_flip)

lemmas compare_flips = compareOrdered_flip compareFloats_flip bytes_compare_flip Decimal_Compare_flip

lemma CompareValues_flip:
  assumes "CompareValues a b = Inr c" and "kind_of a = kind_of b"
  shows "CompareValues b a = Inr (- c)"
  using assms by (cases a; cases b) (auto intro: compare_flips split: if_splits)

lemma compareFloats_le_iff:
  assumes "a \<noteq> NaN" "b \<noteq> NaN"
  shows "compareFloats a b \<le> 0 \<longleftrightarrow> \<not> float_less b a"
  using assms by (auto simp: compareFloats_def float_less_rank)

lemma compareFloats_trans:
  assumes "a \<noteq> NaN" "b \<noteq> NaN" "c \<noteq> NaN" "compareFloats a b \<le> 0" "compareFloats b c \<le> 0"
  shows "compareFloats a c \<le> 0"
  using assms by (auto simp: compareFloats_le_iff float_less_rank)

lemma Decimal_Compare_trans:
  "Decimal_Compare a b \<le> 0 \<Longrightarrow> Decimal_Compare b c \<le> 0 \<Longrightarrow> Decimal_Compare a c \<le> 0"
  by (auto simp: Decimal_Compare_def compareOrdered_simps)

lemma CompareValues_trans:
  assumes "kind_of a = kind_of b" "kind_of b = kind_of c"
    and "ordered_value a" "ordered_value b" "ordered_value c"
    and "CompareValues a b = Inr x" "x \<le> 0" "CompareValues b c = Inr y" "y \<le> 0"
    and "CompareValues a c = Inr z"
  shows "z \<le> 0"
  using assms
proof (cases a)
  case (VFloat t f)
  then show ?thesis
    using assms by (cases b; simp split: if_splits; cases c; auto intro: compareFloats_trans split: if_splits)
next
  case (VBool p)
  then show ?thesis
    using assms by (cases b; simp split: if_splits; cases c; auto split: if_splits)
qed (cases b; simp; cases c;
     auto simp: compareOrdered_simps intro: bytes_compare_trans Decimal_Compare_trans split: if_splits)+

text \<open>The keys of one entity type: every part of the declared kind and with a place in the order.\<close>

definition key_typed :: "go_kind list \<Rightarrow> KeyTuple \<Rightarrow> bool" where
  "key_typed ks t \<longleftrightarrow> map kind_of t = ks \<and> (\<forall>v \<in> set t. ordered_value v)"

section \<open>What an identity map needs of a key comparison\<close>

locale key_compare =
  fixes ok :: "'k \<Rightarrow> bool" and cmp :: "'k \<Rightarrow> 'k \<Rightarrow> int res"
  assumes cmp_total: "ok a \<Longrightarrow> ok b \<Longrightarrow> \<exists>x. cmp a b = Inr x"
    and cmp_flip: "ok a \<Longrightarrow> ok b \<Longrightarrow> cmp a b = Inr x \<Longrightarrow> cmp b a = Inr (- x)"
    and cmp_trans: "ok a \<Longrightarrow> ok b \<Longrightarrow> ok c \<Longrightarrow> cmp a b = Inr x \<Longrightarrow> x \<le> 0 \<Longrightarrow> cmp b c = Inr y \<Longrightarrow> y \<le> 0 \<Longrightarrow>
      \<exists>z \<le> 0. cmp a c = Inr z"
begin

lemma cmp_refl: "ok a \<Longrightarrow> cmp a a = Inr 0"
  using cmp_total [of a a] cmp_flip [of a a] by fastforce

lemma cmp_sym_zero: "ok a \<Longrightarrow> ok b \<Longrightarrow> cmp a b = Inr 0 \<Longrightarrow> cmp b a = Inr 0"
  using cmp_flip [of a b 0] by simp

text \<open>A strict step makes the composition strict.\<close>

lemma cmp_trans_strict:
  assumes ok: "ok a" "ok b" "ok c" and ab: "cmp a b = Inr x" "x \<le> 0" and bc: "cmp b c = Inr y" "y \<le> 0"
    and strict: "x < 0 \<or> y < 0"
  shows "\<exists>z < 0. cmp a c = Inr z"
proof -
  obtain z where z: "cmp a c = Inr z" "z \<le> 0"
    using cmp_trans [OF ok ab bc] by blast
  have "z \<noteq> 0"
  proof
    assume "z = 0"
    then have ca: "cmp c a = Inr 0"
      using cmp_sym_zero z(1) ok by simp
    have "\<exists>w \<le> 0. cmp b a = Inr w"
      using cmp_trans [OF ok(2,3,1) bc ca] by simp
    moreover have "\<exists>w \<le> 0. cmp c b = Inr w"
      using cmp_trans [OF ok(3,1,2) ca _ ab] by simp
    ultimately show False
      using strict cmp_flip [OF ok(1,2) ab(1)] cmp_flip [OF ok(2,3) bc(1)] by auto
  qed
  with z show ?thesis
    by (intro exI [of _ z]) simp
qed

lemma cmp_zero_trans:
  assumes "ok a" "ok b" "ok c" "cmp a b = Inr 0" "cmp b c = Inr 0"
  shows "cmp a c = Inr 0"
proof -
  obtain z where "cmp a c = Inr z" "z \<le> 0"
    using cmp_trans [of a b c 0 0] assms by auto
  moreover obtain w where "cmp c a = Inr w" "w \<le> 0"
    using cmp_trans [of c b a 0 0] assms cmp_sym_zero by blast
  ultimately show ?thesis
    using cmp_flip [of a c z] assms by auto
qed

end

lemma KeyTuple_Compare_total:
  "map kind_of a = map kind_of b \<Longrightarrow> \<forall>v \<in> set a. ordered_value v \<Longrightarrow> \<forall>v \<in> set b. ordered_value v \<Longrightarrow>
   \<exists>c. KeyTuple_Compare a b = Inr c"
proof (induction a b rule: KeyTuple_Compare.induct)
  case (3 a t b other)
  then obtain c where "CompareValues a b = Inr c"
    using CompareValues_total [of a b] by auto
  then show ?case
    using 3 by (cases "c = 0") auto
qed auto

lemma KeyTuple_Compare_flip:
  "map kind_of a = map kind_of b \<Longrightarrow> KeyTuple_Compare a b = Inr c \<Longrightarrow> KeyTuple_Compare b a = Inr (- c)"
proof (induction a b rule: KeyTuple_Compare.induct)
  case (3 a t b other)
  then show ?case
    using CompareValues_flip [of a b] by (auto simp: bindR_Inr_iff split: if_splits)
qed auto

text \<open>The values of one kind are ordered by \<open>CompareValues\<close>.\<close>

interpretation cv: key_compare "\<lambda>v. kind_of v = k \<and> ordered_value v" CompareValues for k
proof unfold_locales
  fix a b c x y
  assume abc: "kind_of a = k \<and> ordered_value a" "kind_of b = k \<and> ordered_value b" "kind_of c = k \<and> ordered_value c"
    and le: "CompareValues a b = Inr x" "x \<le> 0" "CompareValues b c = Inr y" "y \<le> 0"
  then obtain z where "CompareValues a c = Inr z"
    using CompareValues_total [of a c] by auto
  then show "\<exists>z \<le> 0. CompareValues a c = Inr z"
    using CompareValues_trans [of a b c x y z] abc le by auto
qed (auto intro: CompareValues_total CompareValues_flip)

lemma KeyTuple_Compare_trans:
  assumes "key_typed ks a" "key_typed ks b" "key_typed ks c"
    and "KeyTuple_Compare a b = Inr x" "x \<le> 0" "KeyTuple_Compare b c = Inr y" "y \<le> 0"
  shows "\<exists>z \<le> 0. KeyTuple_Compare a c = Inr z"
  using assms
proof (induction a arbitrary: ks b c)
  case (Cons u us)
  from Cons.prems(1-3) obtain k ks' v vs w ws where
    eqs: "ks = k # ks'" "b = v # vs" "c = w # ws"
    and ok: "kind_of u = k \<and> ordered_value u" "kind_of v = k \<and> ordered_value v" "kind_of w = k \<and> ordered_value w"
    and rest: "key_typed ks' us" "key_typed ks' vs" "key_typed ks' ws"
    by (auto simp: key_typed_def Cons_eq_map_conv)
  from Cons.prems(4) obtain p where p: "CompareValues u v = Inr p" "p \<noteq> 0 \<Longrightarrow> x = p" "p = 0 \<Longrightarrow> KeyTuple_Compare us vs = Inr x"
    by (auto simp: eqs bindR_Inr_iff split: if_splits)
  from Cons.prems(6) obtain q where q: "CompareValues v w = Inr q" "q \<noteq> 0 \<Longrightarrow> y = q" "q = 0 \<Longrightarrow> KeyTuple_Compare vs ws = Inr y"
    by (auto simp: eqs bindR_Inr_iff split: if_splits)
  have le: "p \<le> 0" "q \<le> 0"
    using p q Cons.prems(5,7) by (cases "p = 0"; cases "q = 0"; auto)+
  show ?case
  proof (cases "p = 0 \<and> q = 0")
    case True
    then have "CompareValues u w = Inr 0"
      using cv.cmp_zero_trans [OF ok] p q by simp
    then show ?thesis
      using Cons.IH [OF rest] Cons.prems(5,7) p q True by (simp add: eqs)
  next
    case False
    then obtain z where "z < 0" "CompareValues u w = Inr z"
      using cv.cmp_trans_strict [OF ok p(1) le(1) q(1) le(2)] le by auto
    then show ?thesis
      by (auto simp: eqs)
  qed
qed simp

interpretation kt: key_compare "key_typed ks" KeyTuple_Compare for ks
proof unfold_locales
  fix a b c :: KeyTuple and x y
  show "key_typed ks a \<Longrightarrow> key_typed ks b \<Longrightarrow> \<exists>x. KeyTuple_Compare a b = Inr x"
    by (auto simp: key_typed_def intro: KeyTuple_Compare_total)
  show "key_typed ks a \<Longrightarrow> key_typed ks b \<Longrightarrow> KeyTuple_Compare a b = Inr x \<Longrightarrow> KeyTuple_Compare b a = Inr (- x)"
    by (auto simp: key_typed_def intro: KeyTuple_Compare_flip)
qed (rule KeyTuple_Compare_trans)

text \<open>
  Two keys equal by structure compare equal; the converse holds for every kind but decimals, whose
  texts may differ, and times, whose zones may.
\<close>

lemma KeyTuple_Equal_Compare: "key_typed ks a \<Longrightarrow> KeyTuple_Equal a b \<Longrightarrow> KeyTuple_Compare a b = Inr 0"
proof -
  assume "key_typed ks a" and "KeyTuple_Equal a b"
  moreover have "a = b"
    using \<open>KeyTuple_Equal a b\<close> by (auto simp: KeyTuple_Equal_def DeepEqual_def list_all2_conv_all_nth list_eq_iff_nth_eq)
  ultimately show ?thesis
    using kt.cmp_refl [of ks a] by simp
qed

text \<open>
  C14: the keys of an entity type are totally preordered. On keys whose parts have the type's kinds
  (no nil part, no NaN), \<open>KeyTuple.Compare\<close> never panics, is antisymmetric in sign and transitive,
  and answers 0 on keys that \<open>KeyTuple.Equal\<close> holds equal - what the binary search of the identity
  map rests on.
\<close>

theorem KeyTuple_Compare_order:
  assumes "key_typed ks a" and "key_typed ks b" and "key_typed ks c"
  shows "\<exists>x y z. KeyTuple_Compare a b = Inr x \<and> KeyTuple_Compare b a = Inr (- x) \<and> KeyTuple_Compare b c = Inr y \<and>
    KeyTuple_Compare a c = Inr z \<and> (x \<le> 0 \<longrightarrow> y \<le> 0 \<longrightarrow> z \<le> 0 \<and> (z = 0 \<longrightarrow> x = 0 \<and> y = 0)) \<and> (KeyTuple_Equal a b \<longrightarrow> x = 0)"
proof -
  obtain x y z where c: "KeyTuple_Compare a b = Inr x" "KeyTuple_Compare b c = Inr y" "KeyTuple_Compare a c = Inr z"
    using kt.cmp_total assms by metis
  have "z \<le> 0 \<and> (z = 0 \<longrightarrow> x = 0 \<and> y = 0)" if "x \<le> 0" "y \<le> 0"
    using kt.cmp_trans [OF assms c(1) that(1) c(2) that(2)] kt.cmp_trans_strict [OF assms c(1) that(1) c(2) that(2)] c(3) that by force
  then show ?thesis
    using c kt.cmp_flip [OF assms(1,2) c(1)] KeyTuple_Equal_Compare [OF assms(1), of b] by auto
qed

theorem KeyTuple_Compare_order_witness:
  "\<exists>x y z. KeyTuple_Compare [VDecimal ''19.90'', VString ''a''] [VDecimal ''19.9'', VString ''b''] = Inr x \<and>
     KeyTuple_Compare [VDecimal ''19.9'', VString ''b''] [VDecimal ''100'', VString ''a''] = Inr y \<and>
     KeyTuple_Compare [VDecimal ''19.90'', VString ''a''] [VDecimal ''100'', VString ''a''] = Inr z"
  using KeyTuple_Compare_order [of "[KDecimal, KString]" "[VDecimal ''19.90'', VString ''a'']" "[VDecimal ''19.9'', VString ''b'']" "[VDecimal ''100'', VString ''a'']"]
  by (auto simp: key_typed_def)

end
