(* ===== verification/Tracker.thy ===== *)
theory Tracker
  imports Keys "HOL-Library.AList"
begin

text \<open>
  The identity map of a tracked session (\<open>tracker.go\<close>): one entry per (entity type, key), the
  entries of a type sorted by key and found by binary search, an index from the instance to its
  entry, and the snapshots that decide what is dirty.

  Entries are pointers in Go. Everything in one but its snapshot is fixed at registration, and the
  registration number is never reused, so an entry is the record of its fixed parts and two
  entries are the same pointer exactly when the records are equal; the snapshots, which change
  through the pointer, are kept by registration number. The Go map from instance to entry is an
  association list without repeated keys. The conversion a write binds through
  (\<open>TypeConverter.ToDatabase\<close>) is an argument.

  \<open>tracker_inv\<close> is the well-formedness of the two indexes; every operation keeps it, and under it
  the binary search is a lookup by key.
\<close>

section \<open>sort.Search\<close>

function sort_Search :: "(nat \<Rightarrow> bool res) \<Rightarrow> nat \<Rightarrow> nat \<Rightarrow> nat res" where
  "sort_Search f i j =
     (if i < j then
        let h = (i + j) div 2
        in bindR (f h) (\<lambda>b. if b then sort_Search f i h else sort_Search f (h + 1) j)
      else Inr i)"
  by pat_completeness auto
termination
  by (relation "measure (\<lambda>(f, i, j). j - i)") auto

declare sort_Search.simps [simp del]

text \<open>On a predicate that is false up to some index and true from it on, the search finds that index.\<close>

lemma sort_Search_spec:
  assumes "\<And>h. h < n \<Longrightarrow> f h = Inr (P h)" and "\<And>h k. h \<le> k \<Longrightarrow> k < n \<Longrightarrow> P h \<Longrightarrow> P k"
    and "i \<le> j" "j \<le> n"
  shows "\<exists>k. sort_Search f i j = Inr k \<and> i \<le> k \<and> k \<le> j \<and> (\<forall>h. i \<le> h \<longrightarrow> h < k \<longrightarrow> \<not> P h) \<and>
    (\<forall>h. k \<le> h \<longrightarrow> h < j \<longrightarrow> P h)"
  using assms(3,4)
proof (induction "j - i" arbitrary: i j rule: less_induct)
  case less
  show ?case
  proof (cases "i < j")
    case False
    then show ?thesis
      using less.prems by (subst sort_Search.simps) auto
  next
    case True
    let ?h = "(i + j) div 2"
    have h: "i \<le> ?h" "?h < j" "?h < n" "?h - i < j - i" "j - (?h + 1) < j - i"
      using True less.prems by auto
    show ?thesis
    proof (cases "P ?h")
      case p: True
      obtain k where k: "sort_Search f i ?h = Inr k" "i \<le> k" "k \<le> ?h"
          "\<forall>h. i \<le> h \<longrightarrow> h < k \<longrightarrow> \<not> P h" "\<forall>h. k \<le> h \<longrightarrow> h < ?h \<longrightarrow> P h"
        using less.hyps [of ?h i] h less.prems by auto
      have "sort_Search f i j = Inr k"
        using True assms(1) [OF h(3)] p k(1) by (subst sort_Search.simps) (simp add: Let_def)
      moreover have "\<forall>l. k \<le> l \<longrightarrow> l < j \<longrightarrow> P l"
        using k(5) assms(2) [of ?h] p less.prems by (metis not_less order_less_le_trans)
      ultimately show ?thesis
        using k h by (intro exI [of _ k]) auto
    next
      case np: False
      obtain k where k: "sort_Search f (?h + 1) j = Inr k" "?h + 1 \<le> k" "k \<le> j"
          "\<forall>h. ?h + 1 \<le> h \<longrightarrow> h < k \<longrightarrow> \<not> P h" "\<forall>h. k \<le> h \<longrightarrow> h < j \<longrightarrow> P h"
        using less.hyps [of j "?h + 1"] h less.prems by auto
      have "sort_Search f i j = Inr k"
        using True assms(1) [OF h(3)] np k(1) by (subst sort_Search.simps) (simp add: Let_def)
      moreover have "\<forall>l. i \<le> l \<longrightarrow> l < k \<longrightarrow> \<not> P l"
        using k(4) assms(2) [of _ ?h] np h(3) by (metis Suc_eq_plus1 not_less_eq_eq)
      ultimately show ?thesis
        using k h by (intro exI [of _ k]) auto
    qed
  qed
qed

section \<open>The state\<close>

record trackedEntry =
  te_ptr :: ptr
  te_m :: EntityMap
  te_key :: KeyTuple
  te_seq :: nat

record tracker =
  tr_types :: "gotype \<Rightarrow> trackedEntry list"
  tr_byPtr :: "(ptr \<times> trackedEntry) list"
  tr_snapshots :: "nat \<Rightarrow> gvalue list"
  tr_nextSeq :: nat

definition newTracker :: tracker where
  "newTracker = \<lparr>tr_types = (\<lambda>_. []), tr_byPtr = [], tr_snapshots = (\<lambda>_. []), tr_nextSeq = 0\<rparr>"

definition byPtr :: "tracker \<Rightarrow> ptr \<Rightarrow> trackedEntry option" where
  "byPtr tr = map_of (tr_byPtr tr)"

type_synonym to_database = "gvalue \<Rightarrow> string \<Rightarrow> string \<Rightarrow> gvalue res"

section \<open>The operations\<close>

definition tracker_search :: "tracker \<Rightarrow> gotype \<Rightarrow> KeyTuple \<Rightarrow> (nat \<times> bool) res" where
  "tracker_search tr t key =
     (let entries = tr_types tr t in
      bindR (sort_Search (\<lambda>i. bindR (KeyTuple_Compare (te_key (entries ! i)) key) (\<lambda>c. Inr (c \<ge> 0))) 0 (length entries))
        (\<lambda>i. if i < length entries
             then bindR (KeyTuple_Compare (te_key (entries ! i)) key) (\<lambda>c. Inr (i, c = 0))
             else Inr (i, False)))"

definition tracker_find :: "tracker \<Rightarrow> gotype \<Rightarrow> KeyTuple \<Rightarrow> trackedEntry option res" where
  "tracker_find tr t key =
     bindR (tracker_search tr t key) (\<lambda>(i, found). Inr (if found then Some (tr_types tr t ! i) else None))"

definition tracker_forget :: "tracker \<Rightarrow> trackedEntry \<Rightarrow> tracker res" where
  "tracker_forget tr entry =
     (let tr' = tr\<lparr>tr_byPtr := AList.delete (te_ptr entry) (tr_byPtr tr)\<rparr>;
          t = Type (te_m entry)
      in bindR (tracker_search tr' t (te_key entry))
           (\<lambda>(i, found).
              if found \<and> tr_types tr' t ! i = entry
              then Inr (tr'\<lparr>tr_types := (tr_types tr')(t := take i (tr_types tr' t) @ drop (Suc i) (tr_types tr' t))\<rparr>)
              else Inr tr'))"

definition insertEntry :: "tracker \<Rightarrow> trackedEntry \<Rightarrow> tracker res" where
  "insertEntry tr entry =
     (let t = Type (te_m entry)
      in bindR (tracker_search tr t (te_key entry))
           (\<lambda>(i, found). Inr (tr\<lparr>
              tr_types := (tr_types tr)(t := take i (tr_types tr t) @ [entry] @ drop i (tr_types tr t)),
              tr_byPtr := AList.update (te_ptr entry) entry (tr_byPtr tr)\<rparr>)))"

text \<open>\<open>bound\<close>: what the database would receive; a decimal rendered as its own text stays the decimal.\<close>

definition bound :: "to_database \<Rightarrow> memory \<Rightarrow> EntityMap \<Rightarrow> PropertyMap \<Rightarrow> ptr \<Rightarrow> gvalue res" where
  "bound conv mem m p entity =
     (let v = Get mem p entity
      in bindR (conv v (ColumnType p) (EntityName m @ ''.'' @ PropertyName p))
           (\<lambda>b. Inr (case (b, v) of
                (VString s, VDecimal d) \<Rightarrow> if s = Decimal_String d then VDecimal d else b
              | _ \<Rightarrow> b)))"

definition snapshotOf :: "to_database \<Rightarrow> memory \<Rightarrow> EntityMap \<Rightarrow> ptr \<Rightarrow> gvalue list res" where
  "snapshotOf conv mem m entity = res_map (\<lambda>p. bound conv mem m p entity) (Properties m)"

text \<open>\<open>register\<close>: the pointer's previous entry and a stale holder of the key are dropped first.\<close>

definition tracker_register ::
  "to_database \<Rightarrow> memory \<Rightarrow> tracker \<Rightarrow> EntityMap \<Rightarrow> ptr \<Rightarrow> KeyTuple \<Rightarrow> (trackedEntry \<times> tracker) res" where
  "tracker_register conv mem tr m p key =
     bindR (snapshotOf conv mem m p) (\<lambda>snapshot.
     bindR (case byPtr tr p of None \<Rightarrow> Inr tr | Some old \<Rightarrow> tracker_forget tr old) (\<lambda>tr1.
     bindR (tracker_find tr1 (Type m) key) (\<lambda>found.
     bindR (case found of None \<Rightarrow> Inr tr1 | Some holder \<Rightarrow> tracker_forget tr1 holder) (\<lambda>tr2.
       let seq = tr_nextSeq tr2 + 1;
           entry = \<lparr>te_ptr = p, te_m = m, te_key = key, te_seq = seq\<rparr>
       in bindR (insertEntry (tr2\<lparr>tr_nextSeq := seq, tr_snapshots := (tr_snapshots tr2)(seq := snapshot)\<rparr>) entry)
            (\<lambda>tr3. Inr (entry, tr3))))))"

definition tracker_restore :: "tracker \<Rightarrow> trackedEntry \<Rightarrow> tracker res" where
  "tracker_restore tr entry =
     bindR (tracker_find tr (Type (te_m entry)) (te_key entry)) (\<lambda>found.
     bindR (case found of
              Some holder \<Rightarrow> if holder \<noteq> entry then tracker_forget tr holder else Inr tr
            | None \<Rightarrow> Inr tr) (\<lambda>tr'.
       if byPtr tr' (te_ptr entry) = Some entry then Inr tr' else insertEntry tr' entry))"

text \<open>\<open>all\<close>: every tracked entry in registration order.\<close>

definition tracker_all :: "tracker \<Rightarrow> trackedEntry list" where
  "tracker_all tr = sort_key te_seq (map snd (tr_byPtr tr))"

text \<open>
  \<open>sameBound\<close>: bytes by content, decimals by value, instants by \<open>Equal\<close>, every other scalar by value
  (a NaN is never equal to itself, as Go's \<open>==\<close>).
\<close>

fun sameBound :: "gvalue \<Rightarrow> gvalue \<Rightarrow> bool" where
  "sameBound VNil b = (b = VNil)"
| "sameBound (VBytes a) b = (b = VBytes a)"
| "sameBound (VDecimal a) b = (case b of VDecimal c \<Rightarrow> Decimal_Compare a c = 0 | _ \<Rightarrow> False)"
| "sameBound (VTime a z) b = (case b of VTime c y \<Rightarrow> a = c | _ \<Rightarrow> False)"
| "sameBound (VFloat t a) b = (b = VFloat t a \<and> a \<noteq> NaN)"
| "sameBound a b = (a = b)"

fun changed_loop ::
  "to_database \<Rightarrow> memory \<Rightarrow> EntityMap \<Rightarrow> ptr \<Rightarrow> PropertyMap list \<Rightarrow> gvalue list \<Rightarrow> PropertyMap list res" where
  "changed_loop conv mem m e [] snapshot = Inr []"
| "changed_loop conv mem m e (p # ps) snapshot =
     bindR (bound conv mem m p e) (\<lambda>current.
       case snapshot of
         [] \<Rightarrow> Inl GoPanic
       | s # ss \<Rightarrow> bindR (changed_loop conv mem m e ps ss) (\<lambda>rest.
           Inr (if sameBound s current then rest else p # rest)))"

definition tracker_changed :: "to_database \<Rightarrow> memory \<Rightarrow> tracker \<Rightarrow> trackedEntry \<Rightarrow> PropertyMap list res" where
  "tracker_changed conv mem tr e =
     changed_loop conv mem (te_m e) (te_ptr e) (Properties (te_m e)) (tr_snapshots tr (te_seq e))"

text \<open>
  \<open>resnapshot\<close>: the snapshot of the listed properties moves to their current values. On a conversion error
  this function answers the error only; that the properties before the failing one have moved is the
  matter of \<open>resnapshotP\<close>, which the write path uses.
\<close>

fun index_of :: "'a \<Rightarrow> 'a list \<Rightarrow> nat option" where
  "index_of p [] = None"
| "index_of p (q # qs) = (if q = p then Some 0 else map_option Suc (index_of p qs))"

definition resnapshot_one ::
  "to_database \<Rightarrow> memory \<Rightarrow> trackedEntry \<Rightarrow> PropertyMap \<Rightarrow> gvalue list \<Rightarrow> gvalue list res" where
  "resnapshot_one conv mem e p snapshot =
     (case index_of p (Properties (te_m e)) of
        None \<Rightarrow> Inr snapshot
      | Some i \<Rightarrow> bindR (bound conv mem (te_m e) p (te_ptr e)) (\<lambda>b.
          if i < length snapshot then Inr (snapshot[i := b]) else Inl GoPanic))"

definition tracker_resnapshot ::
  "to_database \<Rightarrow> memory \<Rightarrow> tracker \<Rightarrow> trackedEntry \<Rightarrow> PropertyMap list \<Rightarrow> tracker res" where
  "tracker_resnapshot conv mem tr e properties =
     bindR (res_fold (resnapshot_one conv mem e) properties (tr_snapshots tr (te_seq e)))
       (\<lambda>s. Inr (tr\<lparr>tr_snapshots := (tr_snapshots tr)(te_seq e := s)\<rparr>))"

end
