(* ===== verification/Identity_Map.thy ===== *)
theory Identity_Map
  imports Tracker
begin

text \<open>
  The contract of the identity map (\<open>tracker.go\<close>): the invariant tying the two indexes together,
  the binary search as a lookup by key, and what registering, forgetting and restoring do to the
  set of tracked entries. The locale \<open>identity_map\<close> states the contract the session relies on; its
  interpretation at the end discharges it for the tracker.
\<close>

section \<open>The invariant\<close>

definition key_lt :: "trackedEntry \<Rightarrow> trackedEntry \<Rightarrow> bool" where
  "key_lt e f \<longleftrightarrow> (\<exists>c < 0. KeyTuple_Compare (te_key e) (te_key f) = Inr c)"

definition same_key :: "KeyTuple \<Rightarrow> trackedEntry \<Rightarrow> bool" where
  "same_key key e \<longleftrightarrow> KeyTuple_Compare (te_key e) key = Inr 0"

text \<open>The entries of a type: sorted by key, every key of the type's key kinds.\<close>

definition sorted_entries :: "go_kind list \<Rightarrow> trackedEntry list \<Rightarrow> bool" where
  "sorted_entries ks es \<longleftrightarrow> sorted_wrt key_lt es \<and> (\<forall>e \<in> set es. key_typed ks (te_key e))"

text \<open>The tracked entries.\<close>

definition tracked :: "tracker \<Rightarrow> trackedEntry set" where
  "tracked tr = {e. byPtr tr (te_ptr e) = Some e}"

definition tracker_inv :: "(gotype \<Rightarrow> go_kind list) \<Rightarrow> tracker \<Rightarrow> bool" where
  "tracker_inv kinds tr \<longleftrightarrow>
     (\<forall>t. sorted_entries (kinds t) (tr_types tr t)) \<and>
     (\<forall>t. set (tr_types tr t) = {e \<in> tracked tr. Type (te_m e) = t}) \<and>
     (\<forall>p e. byPtr tr p = Some e \<longrightarrow> te_ptr e = p) \<and>
     inj_on te_seq (tracked tr) \<and>
     (\<forall>e \<in> tracked tr. te_seq e \<le> tr_nextSeq tr) \<and>
     distinct (map fst (tr_byPtr tr))"

lemma tracker_inv_new: "tracker_inv kinds newTracker"
  by (simp add: tracker_inv_def tracked_def newTracker_def byPtr_def sorted_entries_def)

lemma tracked_new: "tracked newTracker = {}"
  by (simp add: tracked_def newTracker_def byPtr_def)

lemma nextSeq_new: "tr_nextSeq newTracker = 0"
  by (simp add: newTracker_def)

lemma byPtr_tracked: "tracker_inv kinds tr \<Longrightarrow> byPtr tr p = Some e \<longleftrightarrow> e \<in> tracked tr \<and> te_ptr e = p"
  by (auto simp: tracker_inv_def tracked_def)

lemma tracked_key_typed: "tracker_inv kinds tr \<Longrightarrow> e \<in> tracked tr \<Longrightarrow> key_typed (kinds (Type (te_m e))) (te_key e)"
  by (auto simp: tracker_inv_def sorted_entries_def)

section \<open>The binary search\<close>

lemma key_lt_above:
  assumes "key_typed ks (te_key e)" "key_typed ks (te_key f)" "key_typed ks key" and "key_lt e f"
    and "KeyTuple_Compare (te_key e) key = Inr c" "0 \<le> c"
  shows "\<exists>d > 0. KeyTuple_Compare (te_key f) key = Inr d"
proof -
  obtain b where b: "KeyTuple_Compare (te_key e) (te_key f) = Inr b" "b < 0"
    using assms(4) by (auto simp: key_lt_def)
  have "KeyTuple_Compare key (te_key e) = Inr (- c)"
    using kt.cmp_flip assms by blast
  then obtain d where "KeyTuple_Compare key (te_key f) = Inr d" "d < 0"
    using kt.cmp_trans_strict [OF assms(3,1,2) _ _ b(1)] b assms(6) by auto
  then show ?thesis
    using kt.cmp_flip [OF assms(3,2)] by fastforce
qed

lemma key_lt_below:
  assumes "key_typed ks (te_key e)" "key_typed ks (te_key f)" "key_typed ks key" and "key_lt e f"
    and "KeyTuple_Compare (te_key f) key = Inr c" "c \<le> 0"
  shows "\<exists>d < 0. KeyTuple_Compare (te_key e) key = Inr d"
proof -
  obtain b where "KeyTuple_Compare (te_key e) (te_key f) = Inr b" "b < 0"
    using assms(4) by (auto simp: key_lt_def)
  then show ?thesis
    using kt.cmp_trans_strict [OF assms(1,2,3) _ _ assms(5)] assms(6) by auto
qed

text \<open>At most one entry of a sorted list has a given key.\<close>

lemma same_key_unique:
  assumes "sorted_entries ks es" "key_typed ks key" "e \<in> set es" "f \<in> set es" "same_key key e" "same_key key f"
  shows "e = f"
proof -
  obtain i j where ij: "i < length es" "e = es ! i" "j < length es" "f = es ! j"
    using assms(3,4) by (metis in_set_conv_nth)
  have "\<not> key_lt e f" "\<not> key_lt f e"
    using key_lt_above [of ks e f key 0] key_lt_above [of ks f e key 0] assms
    by (auto simp: sorted_entries_def same_key_def)
  then show ?thesis
    using assms(1) ij sorted_wrt_nth_less [of key_lt es] by (metis linorder_neqE_nat sorted_entries_def)
qed

lemma sorted_entries_distinct: "sorted_entries ks es \<Longrightarrow> distinct es"
proof -
  assume es: "sorted_entries ks es"
  have "\<not> key_lt e e" if "e \<in> set es" for e
    using kt.cmp_refl [of ks "te_key e"] es that by (simp add: key_lt_def sorted_entries_def)
  then show ?thesis
    using es sorted_wrt_nth_less [of key_lt es] by (metis distinct_conv_nth linorder_neqE_nat nth_mem sorted_entries_def)
qed

lemma tracker_search_spec:
  assumes es: "sorted_entries ks es" "tr_types tr t = es" and key: "key_typed ks key"
  shows "\<exists>i found. tracker_search tr t key = Inr (i, found) \<and> i \<le> length es \<and>
    (\<forall>e \<in> set (take i es). \<exists>c < 0. KeyTuple_Compare (te_key e) key = Inr c) \<and>
    (found \<longrightarrow> i < length es \<and> same_key key (es ! i)) \<and>
    (\<not> found \<longrightarrow> (\<forall>e \<in> set (drop i es). \<exists>c > 0. KeyTuple_Compare (te_key e) key = Inr c))"
proof -
  let ?P = "\<lambda>h. \<exists>c \<ge> 0. KeyTuple_Compare (te_key (es ! h)) key = Inr c"
  let ?f = "\<lambda>i. bindR (KeyTuple_Compare (te_key (es ! i)) key) (\<lambda>c. Inr (c \<ge> 0))"
  have typed: "key_typed ks (te_key (es ! h))" if "h < length es" for h
    using es that by (simp add: sorted_entries_def)
  then have total: "\<exists>c. KeyTuple_Compare (te_key (es ! h)) key = Inr c" if "h < length es" for h
    using kt.cmp_total [OF _ key] that by blast
  have "?f h = Inr (?P h)" if "h < length es" for h
    using total [OF that] by auto
  moreover have "?P k" if "h \<le> k" "k < length es" "?P h" for h k
  proof (cases "h = k")
    case False
    then have "key_lt (es ! h) (es ! k)"
      using es that by (auto simp: sorted_entries_def intro: sorted_wrt_nth_less)
    then show ?thesis
      using key_lt_above [OF typed typed key] that False by (meson le_less less_trans)
  qed (use that in simp)
  ultimately obtain i where i: "sort_Search ?f 0 (length es) = Inr i" "i \<le> length es"
      "\<And>h. h < i \<Longrightarrow> \<not> ?P h" "\<And>h. i \<le> h \<Longrightarrow> h < length es \<Longrightarrow> ?P h"
    using sort_Search_spec [of "length es" ?f ?P 0 "length es"] by auto
  have below: "\<forall>e \<in> set (take i es). \<exists>c < 0. KeyTuple_Compare (te_key e) key = Inr c"
  proof
    fix e assume "e \<in> set (take i es)"
    then obtain h where h: "h < i" "h < length es" "e = es ! h"
      using i(2) by (auto simp: in_set_conv_nth)
    then show "\<exists>c < 0. KeyTuple_Compare (te_key e) key = Inr c"
      using i(3) [OF h(1)] total [OF h(2)] by (metis not_le)
  qed
  show ?thesis
  proof (cases "i < length es")
    case False
    then have "tracker_search tr t key = Inr (i, False)"
      using i(1) es(2) by (simp add: tracker_search_def)
    then show ?thesis
      using False i(2) below by auto
  next
    case True
    then obtain c where c: "KeyTuple_Compare (te_key (es ! i)) key = Inr c" "0 \<le> c"
      using i(4) by blast
    have "\<exists>d > 0. KeyTuple_Compare (te_key e) key = Inr d" if "c \<noteq> 0" "e \<in> set (drop i es)" for e
    proof -
      obtain k where k: "i \<le> k" "k < length es" "e = es ! k"
        using \<open>e \<in> set (drop i es)\<close> by (auto simp: in_set_conv_nth) (metis add.commute le_add1 less_diff_conv)
      show ?thesis
      proof (cases "k = i")
        case False
        then have "key_lt (es ! i) e"
          using es k by (auto simp: sorted_entries_def intro: sorted_wrt_nth_less)
        then show ?thesis
          using key_lt_above [OF typed [OF True] _ key _ c] typed [OF k(2)] k(3) by blast
      qed (use c k that in auto)
    qed
    moreover have "tracker_search tr t key = Inr (i, c = 0)"
      using True i(1) es(2) c by (simp add: tracker_search_def)
    ultimately show ?thesis
      using True below c by (auto simp: same_key_def)
  qed
qed

text \<open>The binary search finds what a scan of the type's entries would.\<close>

lemma tracker_find_scan:
  assumes es: "sorted_entries ks (tr_types tr t)" and key: "key_typed ks key"
  shows "tracker_find tr t key = Inr (List.find (same_key key) (tr_types tr t))"
proof -
  let ?es = "tr_types tr t"
  obtain i found where s: "tracker_search tr t key = Inr (i, found)" "i \<le> length ?es"
      "\<forall>e \<in> set (take i ?es). \<exists>c < 0. KeyTuple_Compare (te_key e) key = Inr c"
      "found \<longrightarrow> i < length ?es \<and> same_key key (?es ! i)"
      "\<not> found \<longrightarrow> (\<forall>e \<in> set (drop i ?es). \<exists>c > 0. KeyTuple_Compare (te_key e) key = Inr c)"
    using tracker_search_spec [OF es refl key] by blast
  have "\<not> same_key key e" if "e \<in> set (take i ?es)" for e
    using s(3) that by (auto simp: same_key_def)
  then have skip: "\<not> same_key key (?es ! j)" if "j < i" for j
    using that s(2) nth_mem [of j "take i ?es"] by simp
  show ?thesis
  proof (cases found)
    case True
    then have "List.find (same_key key) ?es = Some (?es ! i)"
      using s(4) skip by (auto simp: find_Some_iff)
    then show ?thesis
      using True s(1) by (simp add: tracker_find_def)
  next
    case False
    then have "\<not> same_key key e" if "e \<in> set ?es" for e
      using s(3,5) that set_take_drop_split [of ?es i] by (force simp: same_key_def)
    then have "List.find (same_key key) ?es = None"
      by (auto simp: find_None_iff)
    then show ?thesis
      using False s(1) by (simp add: tracker_find_def)
  qed
qed

section \<open>What the operations do\<close>

lemma sorted_entries_filter: "sorted_entries ks es \<Longrightarrow> sorted_entries ks (filter P es)"
  by (simp add: sorted_entries_def sorted_wrt_filter)

text \<open>Forgetting a tracked entry removes it from both indexes and changes nothing else.\<close>

lemma tracker_forget_ok:
  assumes inv: "tracker_inv kinds tr" and e: "e \<in> tracked tr"
  shows "\<exists>tr'. tracker_forget tr e = Inr tr' \<and> tracker_inv kinds tr' \<and> tracked tr' = tracked tr - {e} \<and>
    tr_snapshots tr' = tr_snapshots tr \<and> tr_nextSeq tr' = tr_nextSeq tr"
proof -
  let ?t = "Type (te_m e)"
  let ?es = "tr_types tr ?t"
  let ?d = "tr\<lparr>tr_byPtr := AList.delete (te_ptr e) (tr_byPtr tr)\<rparr>"
  let ?tr = "?d\<lparr>tr_types := (tr_types tr)(?t := filter (\<lambda>f. f \<noteq> e) ?es)\<rparr>"
  have es: "sorted_entries (kinds ?t) ?es" and mem: "e \<in> set ?es" and key: "key_typed (kinds ?t) (te_key e)"
    using inv e tracked_key_typed [OF inv e] by (auto simp: tracker_inv_def)
  have self: "same_key (te_key e) e"
    using kt.cmp_refl [OF key] by (simp add: same_key_def)
  obtain i found where s: "tracker_search ?d ?t (te_key e) = Inr (i, found)"
      "\<forall>f \<in> set (take i ?es). \<exists>c < 0. KeyTuple_Compare (te_key f) (te_key e) = Inr c"
      "found \<longrightarrow> i < length ?es \<and> same_key (te_key e) (?es ! i)"
      "\<not> found \<longrightarrow> (\<forall>f \<in> set (drop i ?es). \<exists>c > 0. KeyTuple_Compare (te_key f) (te_key e) = Inr c)"
    using tracker_search_spec [OF es, of ?d ?t "te_key e"] key by auto
  have found
    using s(2,4) mem self set_take_drop_split [of ?es i] by (fastforce simp: same_key_def)
  then have i: "i < length ?es" "?es ! i = e"
    using s(3) same_key_unique [OF es key _ mem _ self] by auto
  then have "tracker_forget tr e = Inr ?tr"
    using s(1) \<open>found\<close> take_drop_filter [OF sorted_entries_distinct [OF es] i(1)]
    by (simp add: tracker_forget_def Let_def)
  moreover have "byPtr ?tr = (byPtr tr)(te_ptr e := None)"
    by (simp add: byPtr_def delete_conv')
  moreover then have tracked: "tracked ?tr = tracked tr - {e}"
    using e by (auto simp: tracked_def)
  ultimately show ?thesis
    using inv es
    by (intro exI [of _ ?tr])
       (auto simp: tracker_inv_def sorted_entries_filter distinct_delete split: if_splits intro: inj_on_diff)
qed

text \<open>Inserting an entry whose pointer, key and registration number are free adds it to both indexes.\<close>

lemma insertEntry_ok:
  assumes inv: "tracker_inv kinds tr" and key: "key_typed (kinds (Type (te_m e))) (te_key e)"
    and seq: "te_seq e \<le> tr_nextSeq tr"
    and fresh: "\<And>f. f \<in> tracked tr \<Longrightarrow> te_ptr f \<noteq> te_ptr e \<and> te_seq f \<noteq> te_seq e \<and>
      \<not> (Type (te_m f) = Type (te_m e) \<and> same_key (te_key e) f)"
  shows "\<exists>tr'. insertEntry tr e = Inr tr' \<and> tracker_inv kinds tr' \<and> tracked tr' = insert e (tracked tr) \<and>
    tr_snapshots tr' = tr_snapshots tr \<and> tr_nextSeq tr' = tr_nextSeq tr"
proof -
  let ?t = "Type (te_m e)"
  let ?es = "tr_types tr ?t"
  have es: "sorted_entries (kinds ?t) ?es" and mem: "\<And>f. f \<in> set ?es \<longleftrightarrow> f \<in> tracked tr \<and> Type (te_m f) = ?t"
    using inv by (auto simp: tracker_inv_def)
  obtain i found where s: "tracker_search tr ?t (te_key e) = Inr (i, found)" "i \<le> length ?es"
      "\<forall>f \<in> set (take i ?es). \<exists>c < 0. KeyTuple_Compare (te_key f) (te_key e) = Inr c"
      "found \<longrightarrow> i < length ?es \<and> same_key (te_key e) (?es ! i)"
      "\<not> found \<longrightarrow> (\<forall>f \<in> set (drop i ?es). \<exists>c > 0. KeyTuple_Compare (te_key f) (te_key e) = Inr c)"
    using tracker_search_spec [OF es refl key] by blast
  have "\<not> found"
    using s(4) fresh mem by (metis nth_mem)
  let ?new = "take i ?es @ e # drop i ?es"
  let ?tr = "tr\<lparr>tr_types := (tr_types tr)(?t := ?new), tr_byPtr := AList.update (te_ptr e) e (tr_byPtr tr)\<rparr>"
  have run: "insertEntry tr e = Inr ?tr"
    using s(1) by (simp add: insertEntry_def Let_def)
  have set: "set ?new = insert e (set ?es)"
    using set_take_drop_split [of ?es i] by auto
  have sorted: "sorted_entries (kinds ?t) ?new"
  proof -
    have "key_lt e f" if "f \<in> set (drop i ?es)" for f
    proof -
      from s(5) \<open>\<not> found\<close> that obtain c where "c > 0" "KeyTuple_Compare (te_key f) (te_key e) = Inr c"
        by auto
      moreover have "key_typed (kinds ?t) (te_key f)"
        using es in_set_dropD [OF that] by (simp add: sorted_entries_def)
      ultimately show ?thesis
        using kt.cmp_flip [OF _ key] by (fastforce simp: key_lt_def)
    qed
    moreover have "key_lt f e" if "f \<in> set (take i ?es)" for f
      using s(3) that by (simp add: key_lt_def)
    moreover have "sorted_wrt key_lt (take i ?es @ drop i ?es)"
      using es by (simp only: append_take_drop_id sorted_entries_def)
    ultimately have "sorted_wrt key_lt ?new"
      unfolding sorted_wrt_append by simp
    then show ?thesis
      using es key by (auto simp: sorted_entries_def dest: in_set_takeD in_set_dropD)
  qed
  have "byPtr ?tr = (byPtr tr)(te_ptr e \<mapsto> e)"
    by (simp add: byPtr_def update_conv')
  moreover then have tracked: "tracked ?tr = insert e (tracked tr)"
    using fresh by (auto simp: tracked_def)
  moreover have "inj_on te_seq (insert e (tracked tr))"
    using inv fresh by (force simp: tracker_inv_def)
  ultimately have "tracker_inv kinds ?tr"
    using inv sorted set seq mem
    by (auto simp: tracker_inv_def distinct_update split: if_splits)
  then show ?thesis
    using run tracked by (intro exI [of _ ?tr]) simp
qed

text \<open>\<open>find\<close> answers with the tracked instance of the key, when there is one, and never fails on a key of the type's kinds.\<close>

lemma tracker_find_tracked:
  assumes inv: "tracker_inv kinds tr" and key: "key_typed (kinds t) key"
  shows "\<exists>r. tracker_find tr t key = Inr r \<and>
    (\<forall>e. r = Some e \<longleftrightarrow> e \<in> tracked tr \<and> Type (te_m e) = t \<and> same_key key e)"
proof -
  have es: "sorted_entries (kinds t) (tr_types tr t)"
    and mem: "\<And>f. f \<in> set (tr_types tr t) \<longleftrightarrow> f \<in> tracked tr \<and> Type (te_m f) = t"
    using inv by (auto simp: tracker_inv_def)
  have "List.find (same_key key) (tr_types tr t) = Some e \<longleftrightarrow> e \<in> set (tr_types tr t) \<and> same_key key e" for e
  proof
    assume "List.find (same_key key) (tr_types tr t) = Some e"
    then show "e \<in> set (tr_types tr t) \<and> same_key key e"
      by (auto simp: find_Some_iff)
  next
    assume e: "e \<in> set (tr_types tr t) \<and> same_key key e"
    then obtain f where f: "List.find (same_key key) (tr_types tr t) = Some f"
      by (metis find_None_iff option.exhaust)
    then have "f \<in> set (tr_types tr t)" "same_key key f"
      by (auto simp: find_Some_iff)
    then show "List.find (same_key key) (tr_types tr t) = Some e"
      using f e same_key_unique [OF es key] by blast
  qed
  then show ?thesis
    using tracker_find_scan [OF es key] mem by auto
qed

lemma tracked_same_key_unique:
  assumes inv: "tracker_inv kinds tr" and e: "e \<in> tracked tr" "f \<in> tracked tr"
    and "Type (te_m e) = Type (te_m f)" and "same_key key e" "same_key key f" "key_typed (kinds (Type (te_m e))) key"
  shows "e = f"
  using same_key_unique [of "kinds (Type (te_m e))" "tr_types tr (Type (te_m e))" key e f] assms
  by (auto simp: tracker_inv_def)

text \<open>
  Registering: afterwards the pointer is tracked under the key with a fresh registration number and
  the snapshot just taken; the pointer's previous entry and a stale holder of the key are gone;
  every other entry is as before.
\<close>

definition displaced :: "EntityMap \<Rightarrow> ptr \<Rightarrow> KeyTuple \<Rightarrow> trackedEntry \<Rightarrow> bool" where
  "displaced m p key f \<longleftrightarrow> te_ptr f = p \<or> Type (te_m f) = Type m \<and> same_key key f"

lemma forget_option_ok:
  assumes inv: "tracker_inv kinds tr" and r: "\<And>e. r = Some e \<Longrightarrow> e \<in> tracked tr"
  shows "\<exists>tr'. (case r of None \<Rightarrow> Inr tr | Some old \<Rightarrow> tracker_forget tr old) = Inr tr' \<and> tracker_inv kinds tr' \<and>
    tracked tr' = tracked tr - set_option r \<and> tr_snapshots tr' = tr_snapshots tr \<and> tr_nextSeq tr' = tr_nextSeq tr"
proof (cases r)
  case (Some e)
  then show ?thesis
    using tracker_forget_ok [OF inv r [OF Some]] by auto
qed (use inv in auto)

lemma tracker_inv_next:
  "tracker_inv kinds tr \<Longrightarrow> tr_nextSeq tr \<le> n \<Longrightarrow> tracker_inv kinds (tr\<lparr>tr_nextSeq := n, tr_snapshots := s\<rparr>)"
  by (auto simp: tracker_inv_def tracked_def byPtr_def intro: order_trans)

lemma tracked_next [simp]: "tracked (tr\<lparr>tr_nextSeq := n, tr_snapshots := s\<rparr>) = tracked tr"
  by (simp add: tracked_def byPtr_def)

lemma tracker_register_ok:
  assumes inv: "tracker_inv kinds tr" and key: "key_typed (kinds (Type m)) key"
    and snap: "snapshotOf conv mem m p = Inr s"
  shows "\<exists>e tr'. tracker_register conv mem tr m p key = Inr (e, tr') \<and> tracker_inv kinds tr' \<and>
    e = \<lparr>te_ptr = p, te_m = m, te_key = key, te_seq = tr_nextSeq tr + 1\<rparr> \<and>
    tracked tr' = insert e {f \<in> tracked tr. \<not> displaced m p key f} \<and>
    tr_snapshots tr' = (tr_snapshots tr)(te_seq e := s) \<and> tr_nextSeq tr' = tr_nextSeq tr + 1"
proof -
  let ?e = "\<lparr>te_ptr = p, te_m = m, te_key = key, te_seq = tr_nextSeq tr + 1\<rparr>"
  obtain tr1 where f1: "(case byPtr tr p of None \<Rightarrow> Inr tr | Some old \<Rightarrow> tracker_forget tr old) = Inr tr1"
      "tracker_inv kinds tr1" "tracked tr1 = tracked tr - set_option (byPtr tr p)"
      "tr_snapshots tr1 = tr_snapshots tr" "tr_nextSeq tr1 = tr_nextSeq tr"
    using forget_option_ok [OF inv, of "byPtr tr p"] byPtr_tracked [OF inv] by auto
  obtain r where r: "tracker_find tr1 (Type m) key = Inr r"
      "\<And>e. r = Some e \<longleftrightarrow> e \<in> tracked tr1 \<and> Type (te_m e) = Type m \<and> same_key key e"
    using tracker_find_tracked [OF f1(2) key] by auto
  obtain tr2 where f2: "(case r of None \<Rightarrow> Inr tr1 | Some old \<Rightarrow> tracker_forget tr1 old) = Inr tr2"
      "tracker_inv kinds tr2" "tracked tr2 = tracked tr1 - set_option r"
      "tr_snapshots tr2 = tr_snapshots tr" "tr_nextSeq tr2 = tr_nextSeq tr"
    using forget_option_ok [OF f1(2), of r] r(2) f1(4,5) by auto
  have left: "tracked tr2 = {f \<in> tracked tr. \<not> displaced m p key f}"
    using byPtr_tracked [OF inv, of p] r(2)
    by (auto simp: f2(3) f1(3) displaced_def)
  let ?tr = "tr2\<lparr>tr_nextSeq := tr_nextSeq tr + 1, tr_snapshots := (tr_snapshots tr)(tr_nextSeq tr + 1 := s)\<rparr>"
  have inv': "tracker_inv kinds ?tr"
    using f2(2,5) by (intro tracker_inv_next) simp_all
  have "te_seq f \<noteq> te_seq ?e" if "f \<in> tracked tr2" for f
    using that inv by (auto simp: left tracker_inv_def)
  then obtain tr3 where f3: "insertEntry ?tr ?e = Inr tr3" "tracker_inv kinds tr3" "tracked tr3 = insert ?e (tracked tr2)"
      "tr_snapshots tr3 = (tr_snapshots tr)(te_seq ?e := s)" "tr_nextSeq tr3 = tr_nextSeq tr + 1"
    using insertEntry_ok [OF inv', of ?e] key by (auto simp: left displaced_def)
  then show ?thesis
    using f1(1) r(1) f2(1,4,5) snap left by (simp add: tracker_register_def Let_def)
qed

text \<open>
  A snapshot that cannot be taken refuses the registration with the converter's error.
\<close>

lemma tracker_register_error:
  "snapshotOf conv mem m p = Inl err \<Longrightarrow> tracker_register conv mem tr m p key = Inl err"
  by (simp add: tracker_register_def)

text \<open>Restoring an entry whose pointer was not given another identity since: it is tracked as it was, a stale holder of its key is gone.\<close>

lemma tracker_restore_ok:
  assumes inv: "tracker_inv kinds tr" and key: "key_typed (kinds (Type (te_m e))) (te_key e)"
    and seq: "te_seq e \<le> tr_nextSeq tr" "\<And>f. f \<in> tracked tr \<Longrightarrow> te_seq f = te_seq e \<Longrightarrow> f = e"
    and ptr: "\<And>f. f \<in> tracked tr \<Longrightarrow> te_ptr f = te_ptr e \<Longrightarrow> f = e"
  shows "\<exists>tr'. tracker_restore tr e = Inr tr' \<and> tracker_inv kinds tr' \<and>
    tracked tr' = insert e {f \<in> tracked tr. \<not> (Type (te_m f) = Type (te_m e) \<and> same_key (te_key e) f)} \<and>
    tr_snapshots tr' = tr_snapshots tr \<and> tr_nextSeq tr' = tr_nextSeq tr"
proof -
  have self: "same_key (te_key e) e"
    using kt.cmp_refl [OF key] by (simp add: same_key_def)
  obtain r where r: "tracker_find tr (Type (te_m e)) (te_key e) = Inr r"
      "\<And>f. r = Some f \<longleftrightarrow> f \<in> tracked tr \<and> Type (te_m f) = Type (te_m e) \<and> same_key (te_key e) f"
    using tracker_find_tracked [OF inv key] by auto
  show ?thesis
  proof (cases "e \<in> tracked tr")
    case True
    then have "r = Some e"
      using r(2) self by simp
    moreover have "f = e" if "f \<in> tracked tr" "Type (te_m f) = Type (te_m e)" "same_key (te_key e) f" for f
      using tracked_same_key_unique [OF inv that(1) True that(2) that(3) self] key that(2) by simp
    ultimately show ?thesis
      using r(1) True inv byPtr_tracked [OF inv] by (auto simp: tracker_restore_def)
  next
    case False
    let ?left = "{f \<in> tracked tr. \<not> (Type (te_m f) = Type (te_m e) \<and> same_key (te_key e) f)}"
    obtain tr1 where f1: "(case r of None \<Rightarrow> Inr tr | Some old \<Rightarrow> tracker_forget tr old) = Inr tr1"
        "tracker_inv kinds tr1" "tracked tr1 = tracked tr - set_option r"
        "tr_snapshots tr1 = tr_snapshots tr" "tr_nextSeq tr1 = tr_nextSeq tr"
      using forget_option_ok [OF inv, of r] r(2) by auto
    have left: "tracked tr1 = ?left"
      using r(2) by (auto simp: f1(3))
    obtain tr2 where f2: "insertEntry tr1 e = Inr tr2" "tracker_inv kinds tr2" "tracked tr2 = insert e (tracked tr1)"
        "tr_snapshots tr2 = tr_snapshots tr1" "tr_nextSeq tr2 = tr_nextSeq tr1"
      using insertEntry_ok [OF f1(2), of e] key seq ptr False f1(5) left by auto
    have "byPtr tr1 (te_ptr e) \<noteq> Some e" "r \<noteq> Some e"
      using False byPtr_tracked [OF f1(2)] left r(2) by blast+
    then have "tracker_restore tr e = Inr tr2"
      unfolding tracker_restore_def using r(1) f1(1) f2(1) by (cases r) simp_all
    then show ?thesis
      using f1(4,5) f2 left by simp
  qed
qed

text \<open>\<open>all\<close> lists every tracked entry once, in registration order.\<close>

lemma byPtr_ran:
  assumes "tracker_inv kinds tr"
  shows "snd ` set (tr_byPtr tr) = tracked tr" "inj_on snd (set (tr_byPtr tr))" "distinct (tr_byPtr tr)"
proof -
  have d: "distinct (map fst (tr_byPtr tr))" and ptr: "\<And>p e. byPtr tr p = Some e \<Longrightarrow> te_ptr e = p"
    using assms by (auto simp: tracker_inv_def)
  have mem: "(p, e) \<in> set (tr_byPtr tr) \<longleftrightarrow> e \<in> tracked tr \<and> te_ptr e = p" for p e
    using byPtr_tracked [OF assms, of p e] d by (simp add: byPtr_def map_of_eq_Some_iff)
  then show "snd ` set (tr_byPtr tr) = tracked tr" "inj_on snd (set (tr_byPtr tr))"
    by (force simp: inj_on_def)+
  show "distinct (tr_byPtr tr)"
    using d by (simp add: distinct_map)
qed

lemma tracker_all_sorted:
  assumes "tracker_inv kinds tr"
  shows "set (tracker_all tr) = tracked tr" "distinct (tracker_all tr)" "sorted_wrt (\<lambda>e f. te_seq e < te_seq f) (tracker_all tr)"
proof -
  show set: "set (tracker_all tr) = tracked tr"
    using byPtr_ran(1) [OF assms] by (simp add: tracker_all_def)
  show d: "distinct (tracker_all tr)"
    using byPtr_ran [OF assms] by (simp add: tracker_all_def distinct_map)
  have "inj_on te_seq (set (tracker_all tr))"
    using assms set by (simp add: tracker_inv_def)
  then have "distinct (map te_seq (tracker_all tr))"
    using d by (simp add: distinct_map)
  moreover have "sorted (map te_seq (tracker_all tr))"
    by (simp add: tracker_all_def)
  ultimately have "sorted_wrt (<) (map te_seq (tracker_all tr))"
    by (simp add: strict_sorted_iff)
  then show "sorted_wrt (\<lambda>e f. te_seq e < te_seq f) (tracker_all tr)"
    by (simp add: sorted_wrt_map)
qed

lemma tracker_all_last:
  assumes inv: "tracker_inv kinds tr" and e: "e \<in> tracked tr" "\<And>f. f \<in> tracked tr \<Longrightarrow> te_seq f \<le> te_seq e"
  shows "last (tracker_all tr) = e"
proof -
  note all = tracker_all_sorted [OF inv]
  then obtain i where i: "i < length (tracker_all tr)" "tracker_all tr ! i = e"
    using e(1) by (metis in_set_conv_nth)
  have "\<not> i < length (tracker_all tr) - 1"
  proof
    let ?l = "length (tracker_all tr) - 1"
    assume "i < ?l"
    then have "te_seq e < te_seq (tracker_all tr ! ?l)"
      using sorted_wrt_nth_less [OF all(3), of i ?l] i by simp
    then show False
      using e(2) [of "tracker_all tr ! ?l"] all(1) i(1) by (metis diff_less less_nat_zero_code not_le nth_mem zero_less_one nat_neq_iff)
  qed
  then have "i = length (tracker_all tr) - 1"
    using i(1) by linarith
  then show ?thesis
    using i last_conv_nth [of "tracker_all tr"] by (metis less_nat_zero_code list.size(3))
qed

lemma tracker_all_determined:
  assumes "tracker_inv kinds tr" "tracker_inv kinds' tr'" "tracked tr = tracked tr'"
  shows "tracker_all tr = tracker_all tr'"
proof (rule map_sorted_distinct_set_unique [where f = te_seq])
  note t = tracker_all_sorted [OF assms(1)] and t' = tracker_all_sorted [OF assms(2)]
  show "inj_on te_seq (set (tracker_all tr) \<union> set (tracker_all tr'))"
    using t(1) t'(1) assms by (simp add: tracker_inv_def)
  show "sorted (map te_seq (tracker_all tr))" "sorted (map te_seq (tracker_all tr'))"
    by (simp_all add: tracker_all_def)
  show "distinct (map te_seq (tracker_all tr))" "distinct (map te_seq (tracker_all tr'))"
    using t t' assms by (simp_all add: distinct_map tracker_inv_def)
  show "set (tracker_all tr) = set (tracker_all tr')"
    using t(1) t'(1) assms(3) by simp
qed

section \<open>The contract\<close>

text \<open>
  What the session relies on: a lookup by key over the content, and what registering, forgetting
  and restoring do to the content.
\<close>

locale identity_map =
  fixes inv :: "'s \<Rightarrow> bool" and content :: "'s \<Rightarrow> trackedEntry set" and typed :: "gotype \<Rightarrow> KeyTuple \<Rightarrow> bool"
    and lookup :: "'s \<Rightarrow> gotype \<Rightarrow> KeyTuple \<Rightarrow> trackedEntry option res"
    and register :: "'s \<Rightarrow> EntityMap \<Rightarrow> ptr \<Rightarrow> KeyTuple \<Rightarrow> (trackedEntry \<times> 's) res"
    and forget :: "'s \<Rightarrow> trackedEntry \<Rightarrow> 's res"
    and restore :: "'s \<Rightarrow> trackedEntry \<Rightarrow> 's res"
  assumes lookup_law: "inv s \<Longrightarrow> typed t key \<Longrightarrow> \<exists>r. lookup s t key = Inr r \<and>
      (\<forall>e. r = Some e \<longleftrightarrow> e \<in> content s \<and> Type (te_m e) = t \<and> same_key key e)"
    and typed_law: "inv s \<Longrightarrow> e \<in> content s \<Longrightarrow> typed (Type (te_m e)) (te_key e) \<and> same_key (te_key e) e"
    and register_law: "inv s \<Longrightarrow> typed (Type m) key \<Longrightarrow> register s m p key = Inr (e, s') \<Longrightarrow>
      inv s' \<and> te_ptr e = p \<and> te_m e = m \<and> te_key e = key \<and> content s' = insert e {f \<in> content s. \<not> displaced m p key f}"
    and forget_law: "inv s \<Longrightarrow> e \<in> content s \<Longrightarrow> \<exists>s'. forget s e = Inr s' \<and> inv s' \<and> content s' = content s - {e}"
    and restore_law: "inv s \<Longrightarrow> e \<in> content s \<Longrightarrow> forget s e = Inr s' \<Longrightarrow>
      \<exists>s''. restore s' e = Inr s'' \<and> inv s'' \<and> content s'' = insert e {f \<in> content s'. \<not> (Type (te_m f) = Type (te_m e) \<and> same_key (te_key e) f)}"
begin

lemma lookup_tracked: "inv s \<Longrightarrow> e \<in> content s \<Longrightarrow> lookup s (Type (te_m e)) (te_key e) = Inr (Some e)"
  using lookup_law typed_law by metis

lemma content_unique:
  "inv s \<Longrightarrow> e \<in> content s \<Longrightarrow> f \<in> content s \<Longrightarrow> Type (te_m f) = Type (te_m e) \<Longrightarrow> same_key (te_key e) f \<Longrightarrow> f = e"
  using lookup_law [of s "Type (te_m e)" "te_key e"] typed_law [of s e] by (metis option.inject)

lemma lookup_registered:
  assumes "inv s" "typed (Type m) key" "register s m p key = Inr (e, s')"
  shows "lookup s' (Type m) key = Inr (Some e)"
  using register_law [OF assms] lookup_tracked [of s' e] by auto

lemma lookup_other_registered:
  assumes "inv s" "typed (Type m) key" "register s m p key = Inr (e, s')"
    and f: "f \<in> content s" "te_ptr f \<noteq> p" "\<not> (Type (te_m f) = Type m \<and> same_key key f)"
  shows "lookup s' (Type (te_m f)) (te_key f) = Inr (Some f)"
  using register_law [OF assms(1-3)] lookup_tracked [of s' f] f by (auto simp: displaced_def)

lemma lookup_forgotten:
  assumes "inv s" "e \<in> content s" "forget s e = Inr s'"
  shows "lookup s' (Type (te_m e)) (te_key e) = Inr None"
proof -
  have s': "inv s'" "content s' = content s - {e}"
    using forget_law [OF assms(1,2)] assms(3) by auto
  obtain r where r: "lookup s' (Type (te_m e)) (te_key e) = Inr r"
      "\<And>f. r = Some f \<longleftrightarrow> f \<in> content s' \<and> Type (te_m f) = Type (te_m e) \<and> same_key (te_key e) f"
    using lookup_law [OF s'(1)] typed_law [OF assms(1,2)] by blast
  have "r \<noteq> Some f" for f
    using r(2) [of f] content_unique [OF assms(1,2), of f] s'(2) by auto
  then show ?thesis
    using r(1) by (cases r) auto
qed

lemma forget_restore:
  assumes "inv s" "e \<in> content s"
  shows "\<exists>s' s''. forget s e = Inr s' \<and> restore s' e = Inr s'' \<and> inv s'' \<and> content s'' = content s"
proof -
  obtain s' where s': "forget s e = Inr s'" "content s' = content s - {e}"
    using forget_law [OF assms] by auto
  then obtain s'' where "restore s' e = Inr s''" "inv s''"
      "content s'' = insert e {f \<in> content s'. \<not> (Type (te_m f) = Type (te_m e) \<and> same_key (te_key e) f)}"
    using restore_law [OF assms s'(1)] by auto
  moreover have "insert e {f \<in> content s'. \<not> (Type (te_m f) = Type (te_m e) \<and> same_key (te_key e) f)} = content s"
    using s'(2) assms(2) content_unique [OF assms] by auto
  ultimately show ?thesis
    using s'(1) by auto
qed

end

interpretation im: identity_map "tracker_inv kinds" tracked "\<lambda>t. key_typed (kinds t)" tracker_find
    "tracker_register conv mem" tracker_forget tracker_restore for kinds conv mem
proof (unfold_locales, goal_cases)
  case (1 s t key)
  then show ?case by (rule tracker_find_tracked)
next
  case (2 s e)
  then show ?case
    using tracked_key_typed [OF 2] kt.cmp_refl by (auto simp: same_key_def)
next
  case (3 s m key p e s')
  then obtain snap where "snapshotOf conv mem m p = Inr snap"
    by (auto simp: tracker_register_def bindR_Inr_iff)
  then show ?case
    using tracker_register_ok [OF 3(1,2)] 3(3) by fastforce
next
  case (4 s e)
  then show ?case
    using tracker_forget_ok by blast
next
  case (5 s e s')
  then have s': "tracker_inv kinds s'" "tracked s' = tracked s - {e}" "tr_nextSeq s' = tr_nextSeq s"
    using tracker_forget_ok [OF 5(1,2)] by auto
  have same: "f = e" if "f \<in> tracked s'" "te_ptr f = te_ptr e \<or> te_seq f = te_seq e" for f
  proof -
    have f: "f \<in> tracked s" "inj_on te_seq (tracked s)"
      using that(1) s'(2) 5(1) by (auto simp: tracker_inv_def)
    have "byPtr s (te_ptr f) = Some f" "byPtr s (te_ptr e) = Some e"
      using f(1) 5(2) by (simp_all add: tracked_def)
    then show ?thesis
      using that(2) f 5(2) by (metis inj_onD option.inject)
  qed
  have "te_seq e \<le> tr_nextSeq s'"
    using 5(1,2) s'(3) by (simp add: tracker_inv_def)
  from tracker_restore_ok [OF s'(1) tracked_key_typed [OF 5(1,2)] this] same show ?case
    by blast
qed

section \<open>Dirty detection\<close>

lemma changed_loop_filter:
  assumes "\<And>p. p \<in> set ps \<Longrightarrow> bound conv mem m p e = Inr (b p)"
  shows "changed_loop conv mem m e ps (map s ps) = Inr (filter (\<lambda>p. \<not> sameBound (s p) (b p)) ps)"
  using assms by (induction ps) auto

lemma snapshotOf_map:
  assumes "\<And>p. p \<in> set (Properties m) \<Longrightarrow> bound conv mem m p e = Inr (b p)"
  shows "snapshotOf conv mem m e = Inr (map b (Properties m))"
  using assms by (auto simp: snapshotOf_def res_map_Inr_iff list_all2_map2 list_all2_same)

lemma index_of_nth: "index_of p ps = Some i \<Longrightarrow> i < length ps \<and> ps ! i = p"
  by (induction ps arbitrary: i) (auto split: if_splits)

lemma index_of_None: "index_of p ps = None \<longleftrightarrow> p \<notin> set ps"
  by (induction ps) auto

lemma map_update_index:
  assumes "distinct ps" "index_of p ps = Some i"
  shows "(map s ps)[i := v] = map (s(p := v)) ps"
  using assms index_of_nth [OF assms(2)]
  by (auto simp: list_eq_iff_nth_eq nth_list_update nth_eq_iff_index_eq)

lemma resnapshot_fold:
  assumes "distinct (Properties (te_m e))"
    and "\<And>p. p \<in> set (Properties (te_m e)) \<Longrightarrow> bound conv mem (te_m e) p (te_ptr e) = Inr (b p)"
  shows "res_fold (resnapshot_one conv mem e) ps (map s (Properties (te_m e))) =
    Inr (map (\<lambda>p. if p \<in> set ps then b p else s p) (Properties (te_m e)))"
proof (induction ps arbitrary: s)
  case (Cons p ps)
  show ?case
  proof (cases "index_of p (Properties (te_m e))")
    case None
    then have "(if q \<in> set ps then b q else s q) = (if q \<in> set (p # ps) then b q else s q)"
      if "q \<in> set (Properties (te_m e))" for q
      using that by (auto simp: index_of_None)
    then show ?thesis
      using None Cons.IH [of s] by (auto simp: resnapshot_one_def cong: map_cong)
  next
    case (Some i)
    then have "p \<in> set (Properties (te_m e))" "i < length (Properties (te_m e))"
      using index_of_nth [OF Some] by auto
    then have "resnapshot_one conv mem e p (map s (Properties (te_m e))) = Inr (map (s(p := b p)) (Properties (te_m e)))"
      using Some assms map_update_index [OF assms(1) Some] by (simp add: resnapshot_one_def)
    moreover have "(\<lambda>q. if q \<in> set ps then b q else (s(p := b p)) q) = (\<lambda>q. if q \<in> set (p # ps) then b q else s q)"
      by auto
    ultimately show ?thesis
      using Cons.IH [of "s(p := b p)"] by (simp only: res_fold.simps sum.case)
  qed
qed simp

lemma tracker_changed_resnapshot:
  assumes "distinct (Properties (te_m e))" "tr_snapshots tr (te_seq e) = map s (Properties (te_m e))"
    and b: "\<And>p. p \<in> set (Properties (te_m e)) \<Longrightarrow> bound conv mem (te_m e) p (te_ptr e) = Inr (b p)"
  shows "\<exists>tr'. tracker_resnapshot conv mem tr e ps = Inr tr' \<and> tracked tr' = tracked tr \<and>
    tr_snapshots tr' (te_seq e) = map (\<lambda>p. if p \<in> set ps then b p else s p) (Properties (te_m e))"
  using resnapshot_fold [OF assms(1) b, of ps s] assms(2)
  by (simp add: tracker_resnapshot_def tracked_def byPtr_def)

section \<open>Properties\<close>

text \<open>
  C9: the identity map is a lookup by key. Under the invariant, for a key of the type's kinds,
  \<open>find\<close> never fails and answers with an entry exactly when that entry is tracked for the type
  under an equal key; there is at most one.
\<close>

theorem tracker_find_correct:
  assumes "tracker_inv kinds tr" and "key_typed (kinds t) key"
  shows "(\<exists>r. tracker_find tr t key = Inr r \<and>
      (\<forall>e. r = Some e \<longleftrightarrow> e \<in> tracked tr \<and> Type (te_m e) = t \<and> KeyTuple_Compare (te_key e) key = Inr 0)) \<and>
    (\<forall>e f. e \<in> tracked tr \<longrightarrow> f \<in> tracked tr \<longrightarrow> Type (te_m e) = t \<longrightarrow> Type (te_m f) = t \<longrightarrow>
      KeyTuple_Compare (te_key e) key = Inr 0 \<longrightarrow> KeyTuple_Compare (te_key f) key = Inr 0 \<longrightarrow> e = f)"
  using im.lookup_law [OF assms] tracked_same_key_unique [OF assms(1)] assms(2)
  unfolding same_key_def by metis

definition sample_conv :: to_database where
  "sample_conv v t target = Inr v"

definition sample_kinds :: "gotype \<Rightarrow> go_kind list" where
  "sample_kinds t = [KInt Int64]"

lemma sample_snapshot:
  "snapshotOf sample_conv (sample_memory amount) sample_map p = Inr [VInt Int64 (int p), VInt Int64 amount]"
  by (simp add: snapshotOf_def bound_def sample_conv_def sample_defs Get_def)

lemma sample_key_typed: "key_typed (sample_kinds t) [VInt Int64 k]"
  by (simp add: sample_kinds_def key_typed_def)

lemma sample_registered:
  "\<exists>e tr. tracker_register sample_conv (sample_memory 5) newTracker sample_map 7 [VInt Int64 7] = Inr (e, tr) \<and>
     tracker_inv sample_kinds tr \<and> tracked tr = {e} \<and> e = \<lparr>te_ptr = 7, te_m = sample_map, te_key = [VInt Int64 7], te_seq = 1\<rparr>"
  using tracker_register_ok [where m = sample_map, OF tracker_inv_new [of sample_kinds] sample_key_typed [of _ 7] sample_snapshot [of 5 7]]
  by (simp add: tracked_new nextSeq_new) blast

theorem tracker_find_correct_witness:
  "\<exists>e tr. tracker_register sample_conv (sample_memory 5) newTracker sample_map 7 [VInt Int64 7] = Inr (e, tr) \<and>
     tracker_find tr ''Order'' [VInt Int64 7] = Inr (Some e) \<and> tracker_find tr ''Order'' [VInt Int64 8] = Inr None"
proof -
  obtain e tr where tr: "tracker_register sample_conv (sample_memory 5) newTracker sample_map 7 [VInt Int64 7] = Inr (e, tr)"
      "tracker_inv sample_kinds tr" "tracked tr = {e}" "e = \<lparr>te_ptr = 7, te_m = sample_map, te_key = [VInt Int64 7], te_seq = 1\<rparr>"
    using sample_registered by auto
  have eq: "KeyTuple_Compare [VInt Int64 7] [VInt Int64 7] = Inr 0" "KeyTuple_Compare [VInt Int64 7] [VInt Int64 8] \<noteq> Inr 0"
    by code_simp+
  have e: "Type (te_m e) = ''Order''" "te_key e = [VInt Int64 7]"
    using tr(4) by (simp_all add: sample_map_def)
  have find: "\<exists>r. tracker_find tr ''Order'' [VInt Int64 k] = Inr r \<and>
      (\<forall>f. r = Some f \<longleftrightarrow> f = e \<and> KeyTuple_Compare [VInt Int64 7] [VInt Int64 k] = Inr 0)" for k
    using tracker_find_correct [OF tr(2) sample_key_typed [of "''Order''" k]] tr(3) e by (metis singleton_iff)
  have "tracker_find tr ''Order'' [VInt Int64 7] = Inr (Some e)"
    using find [of 7] eq(1) by auto
  moreover have "tracker_find tr ''Order'' [VInt Int64 8] = Inr None"
    using find [of 8] eq(2) by (metis option.exhaust)
  ultimately show ?thesis
    using tr(1) by blast
qed

text \<open>
  C8: registering an instance. When its values convert, \<open>register\<close> succeeds, keeps the invariant,
  gives the instance the next registration number, and leaves exactly the new entry and the old
  ones that hold neither its pointer nor its key: a pointer has one identity and a key one
  instance. Looking the key up afterwards answers with the new entry, and \<open>all\<close> lists it last.
\<close>

theorem tracker_register_correct:
  assumes "tracker_inv kinds tr" and "key_typed (kinds (Type m)) key" and "snapshotOf conv mem m p = Inr s"
  shows "\<exists>e tr'. tracker_register conv mem tr m p key = Inr (e, tr') \<and> tracker_inv kinds tr' \<and>
    e = \<lparr>te_ptr = p, te_m = m, te_key = key, te_seq = tr_nextSeq tr + 1\<rparr> \<and>
    tracked tr' = insert e {f \<in> tracked tr. \<not> (te_ptr f = p \<or> Type (te_m f) = Type m \<and> KeyTuple_Compare (te_key f) key = Inr 0)} \<and>
    tracker_find tr' (Type m) key = Inr (Some e) \<and> byPtr tr' p = Some e \<and> last (tracker_all tr') = e \<and>
    tr_snapshots tr' = (tr_snapshots tr)(te_seq e := s)"
proof -
  let ?e = "\<lparr>te_ptr = p, te_m = m, te_key = key, te_seq = tr_nextSeq tr + 1\<rparr>"
  obtain e tr' where r: "tracker_register conv mem tr m p key = Inr (e, tr')" "tracker_inv kinds tr'" "e = ?e"
      "tracked tr' = insert e {f \<in> tracked tr. \<not> displaced m p key f}"
      "tr_snapshots tr' = (tr_snapshots tr)(te_seq e := s)"
    using tracker_register_ok [OF assms] by blast
  have "tracker_find tr' (Type m) key = Inr (Some e)"
    using im.lookup_registered [OF assms(1,2) r(1)] .
  moreover have "byPtr tr' p = Some e"
    using byPtr_tracked [OF r(2)] r(3,4) by simp
  moreover have "last (tracker_all tr') = e"
  proof (rule tracker_all_last [OF r(2)])
    fix f assume "f \<in> tracked tr'"
    then have "f = e \<or> f \<in> tracked tr"
      by (simp add: r(4)) blast
    then show "te_seq f \<le> te_seq e"
      using assms(1) by (auto simp: r(3) tracker_inv_def)
  qed (simp add: r(4))
  ultimately show ?thesis
    using r by (intro exI [of _ e] exI [of _ tr']) (simp add: displaced_def same_key_def)
qed

theorem tracker_register_correct_witness:
  "\<exists>e tr. tracker_register sample_conv (sample_memory 5) newTracker sample_map 7 [VInt Int64 7] = Inr (e, tr) \<and>
     tracker_find tr ''Order'' [VInt Int64 7] = Inr (Some e) \<and> tracked tr = {e}"
  using tracker_register_correct [where m = sample_map, OF tracker_inv_new [of sample_kinds] sample_key_typed [of _ 7] sample_snapshot [of 5 7]]
  by (auto simp: tracked_new sample_map_def)

text \<open>
  The undo of a flush. Forgetting a tracked entry succeeds and makes its key unknown; restoring
  the entry afterwards gives back exactly the tracked entries, snapshots and lookups there were.
\<close>

theorem tracker_forget_restore:
  assumes "tracker_inv kinds tr" and "e \<in> tracked tr"
  shows "\<exists>tr' tr''. tracker_forget tr e = Inr tr' \<and> tracker_inv kinds tr' \<and>
    tracker_find tr' (Type (te_m e)) (te_key e) = Inr None \<and> byPtr tr' (te_ptr e) = None \<and>
    tracker_restore tr' e = Inr tr'' \<and> tracker_inv kinds tr'' \<and> tracked tr'' = tracked tr \<and>
    tracker_all tr'' = tracker_all tr \<and> tracker_find tr'' (Type (te_m e)) (te_key e) = Inr (Some e)"
proof -
  obtain tr' tr'' where r: "tracker_forget tr e = Inr tr'" "tracker_restore tr' e = Inr tr''" "tracker_inv kinds tr''"
      "tracked tr'' = tracked tr"
    using im.forget_restore [OF assms] by blast
  have f: "tracker_inv kinds tr'" "tracked tr' = tracked tr - {e}"
    using im.forget_law [OF assms] r(1) by auto
  have "byPtr tr' (te_ptr e) = None"
  proof (rule ccontr)
    assume "byPtr tr' (te_ptr e) \<noteq> None"
    then obtain f where "byPtr tr' (te_ptr e) = Some f"
      by blast
    then have "f \<in> tracked tr" "te_ptr f = te_ptr e" "f \<noteq> e"
      using byPtr_tracked [OF f(1)] f(2) by auto
    then show False
      using assms(2) by (simp add: tracked_def)
  qed
  then show ?thesis
    using r f im.lookup_forgotten [OF assms r(1)] im.lookup_tracked [OF r(3)] assms(2)
      tracker_all_determined [OF r(3) assms(1) r(4)] by auto
qed

theorem tracker_forget_restore_witness:
  "\<exists>e tr tr' tr''. tracker_register sample_conv (sample_memory 5) newTracker sample_map 7 [VInt Int64 7] = Inr (e, tr) \<and>
     tracker_forget tr e = Inr tr' \<and> tracker_find tr' ''Order'' [VInt Int64 7] = Inr None \<and>
     tracker_restore tr' e = Inr tr'' \<and> tracker_find tr'' ''Order'' [VInt Int64 7] = Inr (Some e)"
proof -
  obtain e tr where "tracker_register sample_conv (sample_memory 5) newTracker sample_map 7 [VInt Int64 7] = Inr (e, tr)"
      "tracker_inv sample_kinds tr" "tracked tr = {e}" "e = \<lparr>te_ptr = 7, te_m = sample_map, te_key = [VInt Int64 7], te_seq = 1\<rparr>"
    using sample_registered by auto
  then show ?thesis
    using tracker_forget_restore [of sample_kinds tr e] by (auto simp: sample_map_def)
qed

text \<open>
  C13: dirty means the database would receive a different value. After an instance is registered in
  one memory and edited into another, \<open>changed\<close> lists, in map order, exactly the properties whose
  bound value is no longer the same; \<open>resnapshot\<close> of some properties makes those clean and leaves
  the others as dirty as they were.
\<close>

theorem tracker_changed_correct:
  assumes inv: "tracker_inv kinds tr" and key: "key_typed (kinds (Type m)) key" and d: "distinct (Properties m)"
    and b0: "\<And>q. q \<in> set (Properties m) \<Longrightarrow> bound conv mem0 m q p = Inr (b0 q)"
    and b1: "\<And>q. q \<in> set (Properties m) \<Longrightarrow> bound conv mem1 m q p = Inr (b1 q)"
    and refl: "\<And>q. q \<in> set (Properties m) \<Longrightarrow> sameBound (b1 q) (b1 q)"
  shows "\<exists>e tr1 tr2. tracker_register conv mem0 tr m p key = Inr (e, tr1) \<and>
    tracker_changed conv mem1 tr1 e = Inr (filter (\<lambda>q. \<not> sameBound (b0 q) (b1 q)) (Properties m)) \<and>
    tracker_resnapshot conv mem1 tr1 e ps = Inr tr2 \<and>
    tracker_changed conv mem1 tr2 e = Inr (filter (\<lambda>q. q \<notin> set ps \<and> \<not> sameBound (b0 q) (b1 q)) (Properties m))"
proof -
  obtain e tr1 where r: "tracker_register conv mem0 tr m p key = Inr (e, tr1)" "te_m e = m" "te_ptr e = p"
      "tr_snapshots tr1 (te_seq e) = map b0 (Properties m)"
    using tracker_register_ok [OF inv key snapshotOf_map [OF b0]] by auto
  obtain tr2 where "tracker_resnapshot conv mem1 tr1 e ps = Inr tr2"
      "tr_snapshots tr2 (te_seq e) = map (\<lambda>q. if q \<in> set ps then b1 q else b0 q) (Properties m)"
    using tracker_changed_resnapshot [of e tr1 b0 conv mem1 b1 ps] d r b1 by auto
  moreover have "(\<not> sameBound (if q \<in> set ps then b1 q else b0 q) (b1 q)) = (q \<notin> set ps \<and> \<not> sameBound (b0 q) (b1 q))"
    if "q \<in> set (Properties m)" for q
    using refl that by simp
  then have "filter (\<lambda>q. \<not> sameBound (if q \<in> set ps then b1 q else b0 q) (b1 q)) (Properties m) =
      filter (\<lambda>q. q \<notin> set ps \<and> \<not> sameBound (b0 q) (b1 q)) (Properties m)"
    by (rule filter_cong [OF HOL.refl])
  ultimately show ?thesis
    using r b1 changed_loop_filter [of "Properties m" conv mem1 m p b1]
    by (intro exI [of _ e] exI [of _ tr1] exI [of _ tr2]) (simp add: tracker_changed_def)
qed

theorem tracker_changed_correct_witness:
  "\<exists>e tr1 tr2. tracker_register sample_conv (sample_memory 5) newTracker sample_map 7 [VInt Int64 7] = Inr (e, tr1) \<and>
     tracker_changed sample_conv (sample_memory 9) tr1 e = Inr [sample_property ''Total'' False] \<and>
     tracker_resnapshot sample_conv (sample_memory 9) tr1 e [sample_property ''Total'' False] = Inr tr2 \<and>
     tracker_changed sample_conv (sample_memory 9) tr2 e = Inr []"
  using tracker_changed_correct [where m = sample_map, OF tracker_inv_new [of sample_kinds] sample_key_typed [of _ 7],
      where conv = sample_conv and ?mem0.0 = "sample_memory 5" and ?mem1.0 = "sample_memory 9" and p = 7
        and ?b0.0 = "\<lambda>q. if PropertyName q = ''Id'' then VInt Int64 7 else VInt Int64 5"
        and ?b1.0 = "\<lambda>q. if PropertyName q = ''Id'' then VInt Int64 7 else VInt Int64 9"
        and ps = "[sample_property ''Total'' False]"]
  by (auto simp: sample_defs bound_def sample_conv_def Get_def)

end
