(* ===== verification/Key_Validation.thy ===== *)
theory Key_Validation
  imports Metadata
begin

text \<open>
  The validation of a key argument (\<open>db_crud.go\<close>: \<open>validateKey\<close>, \<open>coerceKeyPart\<close>): arity, then each part
  of exactly the key property's type or an integer converted to it without loss. Integers keep
  their width: a builtin integer type is its number of bits, \<open>int\<close> and \<open>uint\<close> being 64 bits wide.
\<close>

fun int_bits :: "int_type \<Rightarrow> nat" where
  "int_bits IntWord = 64"
| "int_bits Int8 = 8"
| "int_bits Int16 = 16"
| "int_bits Int32 = 32"
| "int_bits Int64 = 64"

fun uint_bits :: "uint_type \<Rightarrow> nat" where
  "uint_bits Uint = 64"
| "uint_bits Uint8 = 8"
| "uint_bits Uint16 = 16"
| "uint_bits Uint32 = 32"
| "uint_bits Uint64 = 64"

text \<open>\<open>reflect.Value.OverflowInt\<close> and \<open>OverflowUint\<close>.\<close>

definition OverflowInt :: "int_type \<Rightarrow> int \<Rightarrow> bool" where
  "OverflowInt t x \<longleftrightarrow> \<not> (- (2 ^ (int_bits t - 1)) \<le> x \<and> x < 2 ^ (int_bits t - 1))"

definition OverflowUint :: "uint_type \<Rightarrow> nat \<Rightarrow> bool" where
  "OverflowUint t x \<longleftrightarrow> \<not> x < 2 ^ uint_bits t"

definition MaxInt64 :: int where
  "MaxInt64 = 2 ^ 63 - 1"

text \<open>A value inside the range of its own type.\<close>

fun in_range :: "gvalue \<Rightarrow> bool" where
  "in_range (VInt t i) = (\<not> OverflowInt t i)"
| "in_range (VUint t n) = (\<not> OverflowUint t n)"
| "in_range v = True"

fun integerKinds :: "go_kind \<Rightarrow> bool" where
  "integerKinds (KInt t) = True"
| "integerKinds (KUint t) = True"
| "integerKinds k = False"

definition keyPartError :: "string \<Rightarrow> go_error" where
  "keyPartError target = OrmError ''CRUD-002'' target"

text \<open>The two halves of \<open>coerceKeyPart\<close>: the integer as an \<open>int64\<close>, and an \<open>int64\<close> as the expected type.\<close>

fun signed_of :: "gvalue \<Rightarrow> int option" where
  "signed_of (VUint t n) = (if int n > MaxInt64 then None else Some (int n))"
| "signed_of (VInt t i) = Some i"
| "signed_of v = None"

fun store_signed :: "go_kind \<Rightarrow> int \<Rightarrow> gvalue option" where
  "store_signed (KUint t) i =
     (if i < 0 then None else if OverflowUint t (nat i) then None else Some (VUint t (nat i)))"
| "store_signed (KInt t) i = (if OverflowInt t i then None else Some (VInt t i))"
| "store_signed k i = None"

definition coerceKeyPart :: "gvalue \<Rightarrow> PropertyMap \<Rightarrow> string \<Rightarrow> gvalue res" where
  "coerceKeyPart value keyProperty target =
     (let expected = ValueType keyProperty in
      if value = VNil then Inl (keyPartError target)
      else if kind_of value = expected then Inr value
      else if \<not> integerKinds expected \<or> \<not> integerKinds (kind_of value) then Inl (keyPartError target)
      else case signed_of value of
             None \<Rightarrow> Inl (keyPartError target)
           | Some signed \<Rightarrow> (case store_signed expected signed of
                 None \<Rightarrow> Inl (keyPartError target)
               | Some result \<Rightarrow> Inr result))"

definition validateKey :: "EntityMap \<Rightarrow> gvalue list \<Rightarrow> gvalue list res" where
  "validateKey m provided =
     (if KeyProperties m = [] then Inl (OrmError ''CRUD-002'' (EntityName m))
      else if length provided \<noteq> length (KeyProperties m) then Inl (OrmError ''CRUD-002'' (EntityName m))
      else res_map (\<lambda>(value, p). coerceKeyPart value p (EntityName m)) (zip provided (KeyProperties m)))"

text \<open>The number an integer value stands for.\<close>

fun int_value :: "gvalue \<Rightarrow> int" where
  "int_value (VInt t i) = i"
| "int_value (VUint t n) = int n"
| "int_value v = 0"

lemma OverflowInt64: "\<not> OverflowInt t i \<Longrightarrow> - (2 ^ 63) \<le> i \<and> i \<le> MaxInt64"
  by (cases t) (auto simp: OverflowInt_def MaxInt64_def)

lemma store_signed_Some:
  "store_signed k i = Some v \<longleftrightarrow>
     (case k of KInt t \<Rightarrow> v = VInt t i \<and> \<not> OverflowInt t i
              | KUint t \<Rightarrow> v = VUint t (nat i) \<and> 0 \<le> i \<and> \<not> OverflowUint t (nat i)
              | _ \<Rightarrow> False)"
  by (cases k) auto

lemma coerced_part:
  assumes "coerceKeyPart value p target = Inr v"
  shows "kind_of v = ValueType p \<and> v \<noteq> VNil \<and> (in_range value \<longrightarrow> in_range v) \<and>
    (v = value \<or> integerKinds (kind_of v) \<and> integerKinds (kind_of value) \<and> int_value v = int_value value)"
proof (cases "kind_of value = ValueType p \<or> value = VNil")
  case True
  then show ?thesis
    using assms by (auto simp: coerceKeyPart_def Let_def split: if_splits)
next
  case False
  then obtain signed where "integerKinds (ValueType p)" "integerKinds (kind_of value)"
      "signed_of value = Some signed" "store_signed (ValueType p) signed = Some v"
    using assms by (auto simp: coerceKeyPart_def Let_def split: if_splits option.splits)
  then show ?thesis
    by (cases "value") (auto simp: store_signed_Some split: go_kind.splits if_splits)
qed

text \<open>
  C15: a validated key is the key that was given, in the types the entity declares. When \<open>validateKey\<close>
  succeeds it returns one part per key property, each of exactly that property's type, within its
  range, and the same value as the part provided (the same integer when its type was converted).
\<close>

theorem validateKey_sound:
  assumes "validateKey m provided = Inr coerced" and "list_all in_range provided"
  shows "map kind_of coerced = map ValueType (KeyProperties m) \<and> list_all in_range coerced \<and>
    list_all2 (\<lambda>v given. v = given \<or> integerKinds (kind_of v) \<and> integerKinds (kind_of given) \<and> int_value v = int_value given)
      coerced provided"
proof -
  let ?ks = "KeyProperties m"
  have len: "length provided = length ?ks"
    and r: "res_map (\<lambda>(value, p). coerceKeyPart value p (EntityName m)) (zip provided ?ks) = Inr coerced"
    using assms(1) by (auto simp: validateKey_def split: if_splits)
  have lc: "length coerced = length ?ks"
    using res_map_length [OF r] len by simp
  have part: "coerceKeyPart (provided ! i) (?ks ! i) (EntityName m) = Inr (coerced ! i)" if "i < length ?ks" for i
    using r that len lc by (auto simp: res_map_Inr_iff list_all2_conv_all_nth)
  have "in_range (provided ! i)" if "i < length ?ks" for i
    using assms(2) that len by (simp add: list_all_length)
  then show ?thesis
    using coerced_part [OF part] len lc
    unfolding list_eq_iff_nth_eq list_all_length list_all2_conv_all_nth length_map by (metis nth_map)
qed

theorem validateKey_sound_witness:
  "validateKey sample_map [VUint Uint8 7] = Inr [VInt Int64 7] \<and> map kind_of [VInt Int64 7] = map ValueType (KeyProperties sample_map)"
proof -
  have v: "validateKey sample_map [VUint Uint8 7] = Inr [VInt Int64 7]"
    by code_simp
  moreover have "list_all in_range [VUint Uint8 7]"
    by code_simp
  ultimately show ?thesis
    using validateKey_sound by blast
qed

text \<open>Whether the range of an integer kind holds a number.\<close>

fun kind_holds :: "go_kind \<Rightarrow> int \<Rightarrow> bool" where
  "kind_holds (KInt t) i \<longleftrightarrow> - (2 ^ (int_bits t - 1)) \<le> i \<and> i < 2 ^ (int_bits t - 1)"
| "kind_holds (KUint t) i \<longleftrightarrow> 0 \<le> i \<and> i < 2 ^ uint_bits t"
| "kind_holds k i \<longleftrightarrow> False"

lemma store_signed_holds: "integerKinds k \<Longrightarrow> (\<exists>v. store_signed k i = Some v) \<longleftrightarrow> kind_holds k i"
proof (cases k)
  case (KUint t)
  have "\<not> OverflowUint t (nat i) \<longleftrightarrow> i < 2 ^ uint_bits t" if "0 \<le> i"
    using that by (simp add: OverflowUint_def nat_less_iff)
  then show ?thesis
    using KUint by (cases "i < 0") auto
qed (auto simp: OverflowInt_def)

lemma in_range_holds: "integerKinds (kind_of value) \<Longrightarrow> in_range value \<Longrightarrow> kind_holds (kind_of value) (int_value value)"
  by (cases "value") (auto simp: OverflowInt_def OverflowUint_def)

lemma coerceKeyPart_other:
  assumes "integerKinds (ValueType p)" and "integerKinds (kind_of value)" and "kind_of value \<noteq> ValueType p" and "in_range value"
  shows "(\<exists>v. coerceKeyPart value p target = Inr v) \<longleftrightarrow> int_value value \<le> MaxInt64 \<and> kind_holds (ValueType p) (int_value value)"
proof -
  have "value \<noteq> VNil"
    using assms(2) by auto
  then have c: "coerceKeyPart value p target =
      (case signed_of value of None \<Rightarrow> Inl (keyPartError target)
       | Some signed \<Rightarrow> (case store_signed (ValueType p) signed of None \<Rightarrow> Inl (keyPartError target) | Some r \<Rightarrow> Inr r))"
    using assms(1-3) by (simp add: coerceKeyPart_def Let_def)
  have "signed_of value = (if int_value value \<le> MaxInt64 then Some (int_value value) else None)"
    using assms(2,4) OverflowInt64 by (cases "value") auto
  then show ?thesis
    using store_signed_holds [OF assms(1), of "int_value value"] by (auto simp: c split: option.splits)
qed

lemma coerceKeyPart_refused: "coerceKeyPart value p target = Inl e \<Longrightarrow> e = keyPartError target"
  by (auto simp: coerceKeyPart_def Let_def split: if_splits option.splits)

text \<open>
  C16: An integer argument for an integer key part is accepted exactly when the number is in the range of the key's
  type - an argument of that very type as it is -, and then the part is that number in the key's type; every
  refusal is CRUD-002. One case is left out: a number above the largest \<open>int64\<close>, of one of the two unsigned types 64
  bits wide, for a key of the other.
\<close>

theorem coerceKeyPart_integer:
  assumes "integerKinds (ValueType p)" and "integerKinds (kind_of value)" and "in_range value"
    and "int_value value \<le> MaxInt64 \<or> kind_of value = ValueType p \<or> ValueType p \<notin> {KUint Uint, KUint Uint64}"
  shows "case coerceKeyPart value p target of
      Inr v \<Rightarrow> kind_holds (ValueType p) (int_value value) \<and> kind_of v = ValueType p \<and> int_value v = int_value value
    | Inl e \<Rightarrow> \<not> kind_holds (ValueType p) (int_value value) \<and> CodeOf e = ''CRUD-002''"
proof (cases "kind_of value = ValueType p")
  case True
  then have "coerceKeyPart value p target = Inr value"
    using assms(2) by (auto simp: coerceKeyPart_def Let_def)
  then show ?thesis
    using in_range_holds [OF assms(2,3)] True by simp
next
  case False
  have "kind_holds (ValueType p) (int_value value) \<longrightarrow> int_value value \<le> MaxInt64" if "ValueType p \<notin> {KUint Uint, KUint Uint64}"
  proof (cases "ValueType p")
    case (KInt t)
    then show ?thesis
      by (cases t) (auto simp: MaxInt64_def)
  next
    case (KUint t)
    then show ?thesis
      using that by (cases t) (auto simp: MaxInt64_def)
  qed simp_all
  then have "(\<exists>v. coerceKeyPart value p target = Inr v) \<longleftrightarrow> kind_holds (ValueType p) (int_value value)"
    using coerceKeyPart_other [OF assms(1,2) False assms(3)] assms(4) False by blast
  then show ?thesis
    using coerced_part [of "value" p target] coerceKeyPart_refused [of "value" p target]
    by (cases "coerceKeyPart value p target") (auto simp: keyPartError_def)
qed

theorem coerceKeyPart_integer_witness:
  "coerceKeyPart (VInt IntWord 7) (sample_property ''Id'' True) ''Order'' = Inr (VInt Int64 7) \<and>
   (\<exists>e. coerceKeyPart (VUint Uint 9223372036854775808) (sample_property ''Id'' True) ''Order'' = Inl e \<and> CodeOf e = ''CRUD-002'')"
proof -
  have "coerceKeyPart (VInt IntWord 7) (sample_property ''Id'' True) ''Order'' = Inr (VInt Int64 7)"
    by code_simp
  moreover have "\<not> kind_holds (KInt Int64) 9223372036854775808" "ValueType (sample_property ''Id'' True) = KInt Int64"
    by (simp_all add: sample_property_def)
  ultimately show ?thesis
    using coerceKeyPart_integer [of "sample_property ''Id'' True" "VUint Uint 9223372036854775808" "''Order''"]
    by (auto simp: OverflowUint_def split: sum.splits)
qed

text \<open>The case left out: the number goes through an \<open>int64\<close>, so one above its range is refused although it would fit.\<close>

lemma wide_unsigned_refused:
  "ValueType p = KUint Uint64 \<Longrightarrow> coerceKeyPart (VUint Uint (2 ^ 63)) p target = Inl (keyPartError target)"
  by (simp add: coerceKeyPart_def MaxInt64_def)

end
