(* ===== verification/Session.thy ===== *)
theory Session
  imports Identity_Map Key_Validation
begin

text \<open>
  The session's side of tracking (\<open>tracking.go\<close>, \<open>db_detach_merge.go\<close>): the schedule's data
  (\<open>unit_of_work.go\<close>), the session record, the identity gates every read and write goes through
  (\<open>resolveRow\<close>, \<open>writeIdentity\<close>), change queries, refresh and merge.

  The session is a record: the tracker (none for an untracked session), the schedule (created on
  first use), the loaded maps and the converter. A row read from the database is an argument: the
  function from the map and the key to the row's values. A materialized row is a fresh instance
  allocated at the end of the store.
\<close>

section \<open>The schedule's data\<close>

record cascadeLink =
  cl_owner :: ptr
  cl_ownerMap :: EntityMap
  cl_relationship :: RelationshipMap

record scheduledInsert =
  si_ptr :: ptr
  si_m :: EntityMap
  si_direct :: bool
  si_links :: "cascadeLink list"
  si_order :: nat

record scheduledRemove =
  sr_ptr :: ptr
  sr_m :: EntityMap
  sr_order :: nat

text \<open>
  The schedule. \<open>insertOf\<close> and \<open>removeOf\<close> are Go maps from an instance to its scheduled insert or
  removal, changed together with the two lists; here they are lookups in the lists.
\<close>

record unitOfWork =
  uw_inserts :: "scheduledInsert list"
  uw_removes :: "scheduledRemove list"
  uw_counter :: nat

definition newUnitOfWork :: unitOfWork where
  "newUnitOfWork = \<lparr>uw_inserts = [], uw_removes = [], uw_counter = 0\<rparr>"

definition insertOf :: "unitOfWork \<Rightarrow> ptr \<Rightarrow> scheduledInsert option" where
  "insertOf u p = find (\<lambda>s. si_ptr s = p) (uw_inserts u)"

definition removeOf :: "unitOfWork \<Rightarrow> ptr \<Rightarrow> scheduledRemove option" where
  "removeOf u p = find (\<lambda>s. sr_ptr s = p) (uw_removes u)"

section \<open>The session\<close>

record Db =
  db_tracker :: "tracker option"
  db_uow :: "unitOfWork option"
  db_maps :: "gotype \<Rightarrow> EntityMap res"
  db_conv :: to_database

text \<open>\<open>schedule\<close>: the session's unit of work, created on first use.\<close>

definition schedule :: "Db \<Rightarrow> unitOfWork" where
  "schedule db = (case db_uow db of None \<Rightarrow> newUnitOfWork | Some u \<Rightarrow> u)"

definition requireUnitOfWork :: "Db \<Rightarrow> unit res" where
  "requireUnitOfWork db = (if db_tracker db = None then Inl (OrmError ''UOW-003'' ''session'') else Inr ())"

definition HasPendingWork :: "Db \<Rightarrow> bool" where
  "HasPendingWork db = (case db_uow db of None \<Rightarrow> False | Some u \<Rightarrow> uw_inserts u \<noteq> [] \<or> uw_removes u \<noteq> [])"

text \<open>\<open>entryOf\<close>: \<open>None\<close> stands for nil or a value that is no pointer.\<close>

definition entryOf :: "Db \<Rightarrow> ptr option \<Rightarrow> trackedEntry option" where
  "entryOf db entity =
     (case (db_tracker db, entity) of (Some tr, Some p) \<Rightarrow> byPtr tr p | _ \<Rightarrow> None)"

definition IsTracking :: "Db \<Rightarrow> bool" where
  "IsTracking db \<longleftrightarrow> db_tracker db \<noteq> None"

definition IsTracked :: "Db \<Rightarrow> ptr option \<Rightarrow> bool" where
  "IsTracked db entity \<longleftrightarrow> entryOf db entity \<noteq> None"

definition requireTracked :: "Db \<Rightarrow> ptr option \<Rightarrow> gotype \<Rightarrow> trackedEntry res" where
  "requireTracked db entity entityType =
     (if db_tracker db = None then Inl (OrmError ''UOW-001'' entityType)
      else case entryOf db entity of
             Some entry \<Rightarrow> Inr entry
           | None \<Rightarrow> Inl (OrmError ''UOW-001'' entityType))"

text \<open>The tracker of a tracked session; asking an untracked one would be a nil dereference.\<close>

definition the_tracker :: "Db \<Rightarrow> tracker res" where
  "the_tracker db = (case db_tracker db of None \<Rightarrow> Inl GoPanic | Some tr \<Rightarrow> Inr tr)"

definition ChangesOf :: "memory \<Rightarrow> Db \<Rightarrow> gotype \<Rightarrow> ptr option \<Rightarrow> string list res" where
  "ChangesOf mem db entityType entity =
     bindR (requireTracked db entity entityType) (\<lambda>entry.
     bindR (the_tracker db) (\<lambda>tr.
     bindR (tracker_changed (db_conv db) mem tr entry) (\<lambda>changed.
       Inr (map PropertyName changed))))"

definition IsDirty :: "memory \<Rightarrow> Db \<Rightarrow> gotype \<Rightarrow> ptr option \<Rightarrow> bool res" where
  "IsDirty mem db entityType entity =
     bindR (requireTracked db entity entityType) (\<lambda>entry.
     bindR (the_tracker db) (\<lambda>tr.
     bindR (tracker_changed (db_conv db) mem tr entry) (\<lambda>changed. Inr (length changed > 0))))"

text \<open>\<open>tracking\<close>: reads of a keyed entity are tracked in a tracked session.\<close>

definition tracking :: "Db \<Rightarrow> EntityMap \<Rightarrow> bool" where
  "tracking db m \<longleftrightarrow> db_tracker db \<noteq> None \<and> KeyProperties m \<noteq> []"

text \<open>
  \<open>resolveRow\<close>: the identity resolution of a materialized row. \<open>fresh\<close> is the new instance,
  \<open>isPointer\<close> whether the caller's result is pointer-shaped; the answer is the instance whose
  pointer (or, value-shaped, whose state) the caller receives.
\<close>

definition resolveRow :: "memory \<Rightarrow> Db \<Rightarrow> EntityMap \<Rightarrow> bool \<Rightarrow> ptr \<Rightarrow> (ptr \<times> Db) res" where
  "resolveRow mem db m isPointer fresh =
     (let (key, ok) = keyOf mem m fresh in
      if \<not> ok then Inr (fresh, db)
      else bindR (the_tracker db) (\<lambda>tr.
           bindR (tracker_find tr (Type m) key) (\<lambda>found.
             case found of
               Some entry \<Rightarrow> Inr (te_ptr entry, db)
             | None \<Rightarrow>
                 if isPointer
                 then bindR (tracker_register (db_conv db) mem tr m fresh key) (\<lambda>(entry, tr').
                        Inr (fresh, db\<lparr>db_tracker := Some tr'\<rparr>))
                 else Inr (fresh, db))))"

text \<open>\<open>writeIdentity\<close>: the UOW-002 gate of every write from an entity.\<close>

definition writeIdentity :: "memory \<Rightarrow> Db \<Rightarrow> EntityMap \<Rightarrow> ptr \<Rightarrow> trackedEntry option res" where
  "writeIdentity mem db m entity =
     (case db_tracker db of
        None \<Rightarrow> Inr None
      | Some tr \<Rightarrow>
          (let (current, hasKey) = keyOf mem m entity in
           case entryOf db (Some entity) of
             Some entry \<Rightarrow>
               if \<not> hasKey then Inl (OrmError ''UOW-002'' (EntityName m))
               else bindR (KeyTuple_Compare (te_key entry) current) (\<lambda>c.
                      if c \<noteq> 0 then Inl (OrmError ''UOW-002'' (EntityName m)) else Inr (Some entry))
           | None \<Rightarrow>
               if \<not> hasKey then Inr None
               else bindR (tracker_find tr (Type m) current) (\<lambda>holder.
                      if holder \<noteq> None then Inl (OrmError ''UOW-002'' (EntityName m)) else Inr None)))"

definition track :: "memory \<Rightarrow> Db \<Rightarrow> EntityMap \<Rightarrow> ptr \<Rightarrow> Db res" where
  "track mem db m entity =
     (if \<not> tracking db m then Inr db
      else let (key, ok) = keyOf mem m entity in
        if ok
        then bindR (the_tracker db) (\<lambda>tr.
             bindR (tracker_register (db_conv db) mem tr m entity key) (\<lambda>(entry, tr').
               Inr (db\<lparr>db_tracker := Some tr'\<rparr>)))
        else Inr db)"

definition forgetKey :: "Db \<Rightarrow> EntityMap \<Rightarrow> KeyTuple \<Rightarrow> Db res" where
  "forgetKey db m key =
     (case db_tracker db of
        None \<Rightarrow> Inr db
      | Some tr \<Rightarrow>
          bindR (tracker_find tr (Type m) key) (\<lambda>found.
            case found of
              None \<Rightarrow> Inr db
            | Some entry \<Rightarrow> bindR (tracker_forget tr entry) (\<lambda>tr'. Inr (db\<lparr>db_tracker := Some tr'\<rparr>))))"

section \<open>Refresh and merge\<close>

text \<open>The parameter that stands for the database: the row of a key, if there is one.\<close>

type_synonym read_row = "EntityMap \<Rightarrow> gvalue list \<Rightarrow> (string \<Rightarrow> gvalue) option res"

definition materialize :: "memory \<Rightarrow> (string \<Rightarrow> gvalue) \<Rightarrow> ptr \<times> memory" where
  "materialize mem row =
     (hsize mem, mem\<lparr>fvals := (fvals mem)(hsize mem := row), navs := (navs mem)(hsize mem := (\<lambda>_. NoField)), hsize := Suc (hsize mem)\<rparr>)"

definition requireNamedRelation :: "EntityMap \<Rightarrow> gotype \<Rightarrow> unit res" where
  "requireNamedRelation m entityType =
     (if Kind m = RelationStatement \<or> Kind m = RelationProcedure then Inl (OrmError ''QRY-005'' entityType) else Inr ())"

definition requireWritableKeyedType :: "Db \<Rightarrow> gotype \<Rightarrow> EntityMap res" where
  "requireWritableKeyedType db entityType =
     bindR (db_maps db entityType) (\<lambda>m.
       if Kind m \<noteq> RelationTable then Inl (OrmError ''CRUD-003'' entityType)
       else if KeyProperties m = [] then Inl (OrmError ''CRUD-002'' entityType)
       else Inr m)"

text \<open>
  Copying an owned navigation whole copies its members, the properties that have an owner; then
  the caller's own properties follow. \<open>applyRow\<close> writes them all, \<open>mergeValues\<close> all but the key.
\<close>

definition copy_properties :: "PropertyMap list \<Rightarrow> ptr \<Rightarrow> ptr \<Rightarrow> memory \<Rightarrow> memory" where
  "copy_properties ps target source mem = foldl (\<lambda>mem' p. Set_field mem' p target (Get mem p source)) mem ps"

definition applyRow :: "EntityMap \<Rightarrow> ptr \<Rightarrow> ptr \<Rightarrow> memory \<Rightarrow> memory" where
  "applyRow m entity fresh mem =
     copy_properties (filter (\<lambda>p. Owner p = None) (Properties m)) entity fresh
       (copy_properties (filter (\<lambda>p. Owner p \<noteq> None) (Properties m)) entity fresh mem)"

definition mergeValues :: "EntityMap \<Rightarrow> ptr \<Rightarrow> ptr \<Rightarrow> memory \<Rightarrow> memory" where
  "mergeValues m target source mem =
     copy_properties (filter (\<lambda>p. Owner p = None \<and> \<not> IsKey p) (Properties m)) target source
       (copy_properties (filter (\<lambda>p. Owner p \<noteq> None) (Properties m)) target source mem)"

text \<open>\<open>reflect.Value.IsZero\<close> of a non-nil value.\<close>

fun IsZero :: "gvalue \<Rightarrow> bool" where
  "IsZero VNil = True"
| "IsZero (VInt t i) = (i = 0)"
| "IsZero (VUint t n) = (n = 0)"
| "IsZero (VFloat t f) = (f = Fin 0)"
| "IsZero (VString s) = (s = [])"
| "IsZero (VBool b) = (\<not> b)"
| "IsZero (VTime i z) = (i = 0 \<and> z = 0)"
| "IsZero (VGUID g) = (\<forall>c \<in> set g. of_char c = (0 :: nat))"
| "IsZero (VDecimal d) = (d = [])"
| "IsZero (VBytes b) = False"

definition unsetKeyPart :: "EntityMap \<Rightarrow> gvalue \<Rightarrow> bool" where
  "unsetKeyPart m value \<longleftrightarrow> value = VNil \<or> Strategy m \<noteq> KeyNatural \<and> IsZero value"

definition completeKey :: "memory \<Rightarrow> EntityMap \<Rightarrow> ptr \<Rightarrow> gvalue list res" where
  "completeKey mem m entity =
     bindR (KeyValues mem m entity) (\<lambda>values.
       if \<exists>v \<in> set values. unsetKeyPart m v then Inl (OrmError ''CRUD-002'' (EntityName m))
       else validateKey m values)"

text \<open>\<open>Refresh\<close>: the explicit overwrite from the row.\<close>

definition Refresh ::
  "read_row \<Rightarrow> memory \<Rightarrow> Db \<Rightarrow> gotype \<Rightarrow> ptr \<Rightarrow> (memory \<times> Db) res" where
  "Refresh readRowByKey mem db entityType entity =
     bindR (db_maps db entityType) (\<lambda>m.
     bindR (requireNamedRelation m entityType) (\<lambda>_.
     bindR (writeIdentity mem db m entity) (\<lambda>entry.
     bindR (KeyValues mem m entity) (\<lambda>key.
     bindR (validateKey m key) (\<lambda>keyValues.
     bindR (readRowByKey m keyValues) (\<lambda>row.
       case row of
         None \<Rightarrow> Inl (OrmError ''CRUD-001'' entityType)
       | Some values \<Rightarrow>
           let (fresh, mem1) = materialize mem values;
               mem2 = applyRow m entity fresh mem1
           in case entry of
                None \<Rightarrow> Inr (mem2, db)
              | Some e \<Rightarrow>
                  bindR (the_tracker db) (\<lambda>tr.
                  bindR (snapshotOf (db_conv db) mem2 m entity) (\<lambda>snapshot.
                    Inr (mem2, db\<lparr>db_tracker := Some (tr\<lparr>tr_snapshots := (tr_snapshots tr)(te_seq e := snapshot)\<rparr>)\<rparr>)))))))))"

definition mergeTarget ::
  "read_row \<Rightarrow> memory \<Rightarrow> Db \<Rightarrow> EntityMap \<Rightarrow> gotype \<Rightarrow> gvalue list \<Rightarrow> (ptr \<times> memory \<times> Db) res" where
  "mergeTarget readRowByKey mem db m entityType keyValues =
     bindR (the_tracker db) (\<lambda>tr.
     bindR (tracker_find tr (Type m) keyValues) (\<lambda>found.
       case found of
         Some entry \<Rightarrow> Inr (te_ptr entry, mem, db)
       | None \<Rightarrow>
           bindR (readRowByKey m keyValues) (\<lambda>row.
             case row of
               None \<Rightarrow> Inl (OrmError ''CRUD-001'' entityType)
             | Some values \<Rightarrow>
                 let (fresh, mem1) = materialize mem values
                 in bindR (tracker_register (db_conv db) mem1 tr m fresh keyValues) (\<lambda>(entry, tr').
                      Inr (fresh, mem1, db\<lparr>db_tracker := Some tr'\<rparr>)))))"

definition Merge ::
  "read_row \<Rightarrow> memory \<Rightarrow> Db \<Rightarrow> gotype \<Rightarrow> ptr option \<Rightarrow> (ptr \<times> memory \<times> Db) res" where
  "Merge readRowByKey mem db entityType entity =
     bindR (requireUnitOfWork db) (\<lambda>_.
       case entity of
         None \<Rightarrow> Inl (OrmError ''CRUD-002'' entityType)
       | Some e \<Rightarrow>
           if entryOf db (Some e) \<noteq> None then Inr (e, mem, db)
           else bindR (requireWritableKeyedType db entityType) (\<lambda>m.
                bindR (completeKey mem m e) (\<lambda>keyValues.
                bindR (mergeTarget readRowByKey mem db m entityType keyValues) (\<lambda>(target, mem1, db1).
                  Inr (target, mergeValues m target e mem1, db1)))))"

section \<open>Lemmas\<close>

text \<open>A tracked session whose tracker is well-formed.\<close>

definition tracked_session :: "(gotype \<Rightarrow> go_kind list) \<Rightarrow> Db \<Rightarrow> tracker \<Rightarrow> bool" where
  "tracked_session kinds db tr \<longleftrightarrow> db_tracker db = Some tr \<and> tracker_inv kinds tr"

lemma the_tracker_Some [simp]: "db_tracker db = Some tr \<Longrightarrow> the_tracker db = Inr tr"
  by (simp add: the_tracker_def)

lemma entryOf_Some [simp]: "db_tracker db = Some tr \<Longrightarrow> entryOf db (Some p) = byPtr tr p"
  by (simp add: entryOf_def)

lemma Get_copy_properties:
  "Get (copy_properties ps target source mem) q e =
     (if e = target \<and> (\<exists>p \<in> set ps. PropertyName p = PropertyName q) then Get mem q source else Get mem q e)"
proof -
  have "Get (foldl (\<lambda>mem' p. Set_field mem' p target (Get mem p source)) acc ps) q e =
      (if e = target \<and> (\<exists>p \<in> set ps. PropertyName p = PropertyName q) then Get mem q source else Get acc q e)" for acc
    by (induction ps arbitrary: acc) (auto simp: Get_def Set_field_def)
  then show ?thesis
    by (simp add: copy_properties_def)
qed

lemma navs_copy_properties [simp]: "navs (copy_properties ps target source mem) = navs mem"
proof -
  have "navs (foldl (\<lambda>mem' p. Set_field mem' p target (Get mem p source)) acc ps) = navs acc" for acc
    by (induction ps arbitrary: acc) auto
  then show ?thesis
    by (simp add: copy_properties_def)
qed

lemma Get_copy_filtered:
  assumes "p \<in> set (Properties m)" "inj_on PropertyName (set (Properties m))"
  shows "Get (copy_properties (filter P (Properties m)) target source mem) p e =
    (if e = target \<and> P p then Get mem p source else Get mem p e)"
proof -
  have "(\<exists>q \<in> set (filter P (Properties m)). PropertyName q = PropertyName p) \<longleftrightarrow> P p"
    using assms by (auto simp: inj_on_def)
  then show ?thesis
    by (simp only: Get_copy_properties)
qed

text \<open>\<open>mergeValues\<close> copies every mapped value that is not the key, and touches nothing else.\<close>

lemma Get_mergeValues:
  assumes "p \<in> set (Properties m)" "inj_on PropertyName (set (Properties m))" "\<And>p. p \<in> set (Properties m) \<Longrightarrow> IsKey p \<Longrightarrow> Owner p = None"
  shows "Get (mergeValues m target source mem) p e = (if e = target \<and> \<not> IsKey p then Get mem p source else Get mem p e)"
  using assms(3) [OF assms(1)] by (auto simp: mergeValues_def Get_copy_filtered [OF assms(1,2)])

lemma Get_mergeValues_other: "e \<noteq> target \<Longrightarrow> Get (mergeValues m target source mem) p e = Get mem p e"
  by (simp add: mergeValues_def Get_copy_properties)

lemma Get_applyRow:
  assumes "p \<in> set (Properties m)" "inj_on PropertyName (set (Properties m))"
  shows "Get (applyRow m entity fresh mem) p entity = Get mem p fresh"
  by (auto simp: applyRow_def Get_copy_filtered [OF assms])

lemma Get_materialize:
  "materialize mem row = (fresh, mem1) \<Longrightarrow> Get mem1 p e = (if e = fresh then row (PropertyName p) else Get mem p e)"
  by (auto simp: materialize_def Get_def)

lemma mergeTarget_fresh:
  assumes "db_tracker db = Some tr" "tracker_find tr (Type m) key = Inr None"
    and "mergeTarget readRow mem db m t key = Inr (target, mem1, db')"
  shows "\<exists>row entry tr'. materialize mem row = (target, mem1) \<and>
    tracker_register (db_conv db) mem1 tr m target key = Inr (entry, tr') \<and> db' = db\<lparr>db_tracker := Some tr'\<rparr>"
proof -
  obtain row fresh mem2 where row: "readRow m key = Inr (Some row)" "materialize mem row = (fresh, mem2)"
    using assms by (auto simp: mergeTarget_def bindR_Inr_iff split: option.splits) (metis surj_pair)
  then have "bindR (tracker_register (db_conv db) mem2 tr m fresh key)
      (\<lambda>(entry, tr'). Inr (fresh, mem2, db\<lparr>db_tracker := Some tr'\<rparr>)) = Inr (target, mem1, db')"
    using assms by (simp add: mergeTarget_def)
  then show ?thesis
    using row(2) by (auto simp: bindR_Inr_iff)
qed

lemma validateKey_kinds: "validateKey m provided = Inr coerced \<Longrightarrow> map kind_of coerced = map ValueType (KeyProperties m)"
proof -
  assume v: "validateKey m provided = Inr coerced"
  then have "res_map (\<lambda>(value, p). coerceKeyPart value p (EntityName m)) (zip provided (KeyProperties m)) = Inr coerced"
      "length provided = length (KeyProperties m)"
    by (auto simp: validateKey_def split: if_splits)
  then show ?thesis
    using coerced_part by (auto simp: res_map_Inr_iff list_all2_conv_all_nth list_eq_iff_nth_eq)
qed

section \<open>A session for the concrete examples\<close>

definition sample_db :: Db where
  "sample_db = \<lparr>db_tracker = Some newTracker, db_uow = None, db_maps = (\<lambda>_. Inr sample_map), db_conv = sample_conv\<rparr>"

lemma sample_session: "tracked_session sample_kinds sample_db newTracker"
  by (simp add: tracked_session_def sample_db_def tracker_inv_new)

lemma sample_keyOf: "keyOf (sample_memory amount) sample_map p = ([VInt Int64 (int p)], True)"
  by (simp add: keyOf_def KeyProperties_def HasNull_def sample_defs Get_def)

section \<open>Properties\<close>

text \<open>
  C10: one instance per row. In a tracked session, once a pointer-shaped read of a row with a
  complete key has answered with an instance, every later read of a row with an equal key answers
  with that same instance, whatever values the row now holds, and leaves the session as it is.
\<close>

theorem resolveRow_identity:
  assumes s: "tracked_session kinds db tr"
    and key: "keyOf mem m fresh = (key, True)" "key_typed (kinds (Type m)) key"
    and r: "resolveRow mem db m True fresh = Inr (p, db')"
    and key': "keyOf mem' m fresh' = (key', True)" "key_typed (kinds (Type m)) key'" "KeyTuple_Compare key key' = Inr 0"
  shows "(\<exists>tr' e. tracked_session kinds db' tr' \<and> tracker_find tr' (Type m) key = Inr (Some e) \<and> te_ptr e = p) \<and>
    resolveRow mem' db' m isPointer fresh' = Inr (p, db')"
proof -
  have tr: "db_tracker db = Some tr" "tracker_inv kinds tr"
    using s by (simp_all add: tracked_session_def)
  have "\<exists>tr' e. tracked_session kinds db' tr' \<and> tracker_find tr' (Type m) key = Inr (Some e) \<and> te_ptr e = p"
  proof (cases "tracker_find tr (Type m) key")
    case (Inr found)
    show ?thesis
    proof (cases found)
      case (Some e)
      then show ?thesis
        using Inr r key tr s by (auto simp: resolveRow_def)
    next
      case None
      then obtain e tr' where "tracker_register (db_conv db) mem tr m fresh key = Inr (e, tr')"
          "p = fresh" "db' = db\<lparr>db_tracker := Some tr'\<rparr>"
        using Inr r key tr by (auto simp: resolveRow_def bindR_Inr_iff)
      then show ?thesis
        using im.register_law [OF tr(2) key(2)] im.lookup_registered [OF tr(2) key(2)]
        by (auto simp: tracked_session_def)
    qed
  qed (use r key tr in \<open>simp add: resolveRow_def\<close>)
  then obtain tr' e where t: "tracked_session kinds db' tr'" "tracker_find tr' (Type m) key = Inr (Some e)" "te_ptr e = p"
    by auto
  then have inv: "tracker_inv kinds tr'"
    by (simp add: tracked_session_def)
  have e: "e \<in> tracked tr'" "Type (te_m e) = Type m" "same_key key e"
    using im.lookup_law [OF inv key(2)] t(2) by auto
  then have "same_key key' e"
    using kt.cmp_zero_trans [OF _ key(2) key'(2)] tracked_key_typed [OF inv e(1)] key'(3) by (simp add: same_key_def)
  then have "tracker_find tr' (Type m) key' = Inr (Some e)"
    using im.lookup_law [OF inv key'(2)] e by auto
  then show ?thesis
    using t key'(1) by (auto simp: resolveRow_def tracked_session_def)
qed

theorem resolveRow_identity_witness:
  "\<exists>db'. resolveRow (sample_memory 5) sample_db sample_map True 7 = Inr (7, db') \<and>
     resolveRow ((sample_memory 9)\<lparr>fvals := (\<lambda>p f. VInt Int64 7)\<rparr>) db' sample_map False 8 = Inr (7, db')"
proof -
  obtain e tr where reg: "tracker_register sample_conv (sample_memory 5) newTracker sample_map 7 [VInt Int64 7] = Inr (e, tr)"
    using sample_registered by auto
  let ?db = "sample_db\<lparr>db_tracker := Some tr\<rparr>"
  have find: "tracker_find newTracker t key = Inr None" for t key
    by (simp add: tracker_find_def tracker_search_def newTracker_def sort_Search.simps)
  then have r: "resolveRow (sample_memory 5) sample_db sample_map True 7 = Inr (7, ?db)"
    using reg by (simp add: resolveRow_def sample_keyOf the_tracker_def sample_db_def)
  have k: "keyOf ((sample_memory 9)\<lparr>fvals := (\<lambda>p f. VInt Int64 7)\<rparr>) sample_map 8 = ([VInt Int64 7], True)"
    by (simp add: keyOf_def KeyProperties_def HasNull_def sample_defs Get_def)
  have "KeyTuple_Compare [VInt Int64 7] [VInt Int64 7] = Inr 0"
    by code_simp
  then show ?thesis
    using resolveRow_identity [OF sample_session sample_keyOf _ r k] r sample_key_typed by auto
qed

text \<open>
  C11: the UOW-002 gate. In a tracked session, for an instance tracked under its own type or not
  tracked at all, \<open>writeIdentity\<close> answers with the instance's entry exactly when the instance is
  tracked and its key fields still are the key it was registered with; with nothing exactly when
  it is untracked and no tracked instance holds its (complete) key; and is UOW-002 otherwise.
\<close>

theorem writeIdentity_gate:
  assumes s: "tracked_session kinds db tr" and k: "keyOf mem m p = (key, hasKey)"
    and key: "hasKey \<Longrightarrow> key_typed (kinds (Type m)) key"
    and own: "\<And>e. byPtr tr p = Some e \<Longrightarrow> Type (te_m e) = Type m"
  shows "writeIdentity mem db m p =
    (case byPtr tr p of
       Some e \<Rightarrow> if hasKey \<and> KeyTuple_Compare (te_key e) key = Inr 0 then Inr (Some e) else Inl (OrmError ''UOW-002'' (EntityName m))
     | None \<Rightarrow> if hasKey \<and> (\<exists>f \<in> tracked tr. Type (te_m f) = Type m \<and> KeyTuple_Compare (te_key f) key = Inr 0)
               then Inl (OrmError ''UOW-002'' (EntityName m)) else Inr None)"
proof (cases "byPtr tr p")
  have tr: "db_tracker db = Some tr" "tracker_inv kinds tr"
    using s by (simp_all add: tracked_session_def)
  case (Some e)
  have "\<exists>c. KeyTuple_Compare (te_key e) key = Inr c" if hasKey
    using kt.cmp_total [OF _ key [OF that]] tracked_key_typed [OF tr(2), of e] byPtr_tracked [OF tr(2)] Some own by auto
  then show ?thesis
    using Some tr(1) k by (auto simp: writeIdentity_def)
next
  have tr: "db_tracker db = Some tr" "tracker_inv kinds tr"
    using s by (simp_all add: tracked_session_def)
  case None
  show ?thesis
  proof (cases hasKey)
    case True
    then obtain r where r: "tracker_find tr (Type m) key = Inr r"
        "\<And>e. r = Some e \<longleftrightarrow> e \<in> tracked tr \<and> Type (te_m e) = Type m \<and> same_key key e"
      using im.lookup_law [OF tr(2) key] by blast
    then have "r \<noteq> None \<longleftrightarrow> (\<exists>f \<in> tracked tr. Type (te_m f) = Type m \<and> KeyTuple_Compare (te_key f) key = Inr 0)"
      by (auto simp: same_key_def)
    then show ?thesis
      using True None tr(1) k r(1) by (simp add: writeIdentity_def)
  qed (use None tr(1) k in \<open>simp add: writeIdentity_def\<close>)
qed

theorem writeIdentity_gate_witness:
  "writeIdentity (sample_memory 5) sample_db sample_map 7 = Inr None"
  using writeIdentity_gate [OF sample_session sample_keyOf [of 5 7]] sample_key_typed
  by (simp add: byPtr_def newTracker_def tracked_def)

text \<open>
  C12: merging a detached copy. A successful \<open>Merge\<close> of an instance the session does not track
  answers with the session's instance for the copy's key (tracked before, or read and registered
  now), which then holds the copy's value in every mapped property that is not part of the key;
  the copy itself keeps its values and stays untracked.
\<close>

theorem Merge_correct:
  assumes s: "tracked_session kinds db tr" and e: "byPtr tr e = None" "e < hsize mem"
    and kinds: "kinds (Type m) = map ValueType (KeyProperties m)"
    and m: "db_maps db t = Inr m" "inj_on PropertyName (set (Properties m))"
      "\<And>p. p \<in> set (Properties m) \<Longrightarrow> IsKey p \<Longrightarrow> Owner p = None"
    and ordered: "\<And>keyValues. completeKey mem m e = Inr keyValues \<Longrightarrow> \<forall>v \<in> set keyValues. ordered_value v"
    and r: "Merge readRow mem db t (Some e) = Inr (target, mem', db')"
  shows "\<exists>tr' keyValues entry. tracked_session kinds db' tr' \<and> completeKey mem m e = Inr keyValues \<and>
    tracker_find tr' (Type m) keyValues = Inr (Some entry) \<and> te_ptr entry = target \<and> byPtr tr' e = None \<and>
    (\<forall>p \<in> set (Properties m). \<not> IsKey p \<longrightarrow> Get mem' p target = Get mem p e) \<and>
    (\<forall>p. Get mem' p e = Get mem p e)"
proof -
  have tr: "db_tracker db = Some tr" "tracker_inv kinds tr"
    using s by (simp_all add: tracked_session_def)
  obtain keyValues mem1 where c: "completeKey mem m e = Inr keyValues"
      "mergeTarget readRow mem db m t keyValues = Inr (target, mem1, db')" "mem' = mergeValues m target e mem1"
    using r tr e m(1)
    by (auto simp: Merge_def requireUnitOfWork_def requireWritableKeyedType_def bindR_Inr_iff split: if_splits prod.splits)
  have "map kind_of keyValues = map ValueType (KeyProperties m)"
    using c(1) validateKey_kinds by (auto simp: completeKey_def bindR_Inr_iff split: if_splits)
  then have key: "key_typed (kinds (Type m)) keyValues"
    using kinds ordered [OF c(1)] by (simp add: key_typed_def)
  have target: "\<exists>tr' entry. tracked_session kinds db' tr' \<and> tracker_find tr' (Type m) keyValues = Inr (Some entry) \<and>
      te_ptr entry = target \<and> byPtr tr' e = None \<and> (\<forall>p. Get mem1 p e = Get mem p e)"
  proof (cases "tracker_find tr (Type m) keyValues")
    case (Inr found)
    show ?thesis
    proof (cases found)
      case (Some entry)
      then show ?thesis
        using Inr c(2) tr s e(1) by (auto simp: mergeTarget_def)
    next
      case None
      then obtain row entry tr' where f: "materialize mem row = (target, mem1)"
          "tracker_register (db_conv db) mem1 tr m target keyValues = Inr (entry, tr')" "db' = db\<lparr>db_tracker := Some tr'\<rparr>"
        using mergeTarget_fresh [OF tr(1) _ c(2)] Inr by auto
      have ne: "e \<noteq> target"
        using f(1) e(2) by (auto simp: materialize_def)
      note reg = im.register_law [OF tr(2) key f(2)]
      have "byPtr tr' e = None"
      proof (rule ccontr)
        assume "byPtr tr' e \<noteq> None"
        then obtain g where "g \<in> tracked tr'" "te_ptr g = e"
          using byPtr_tracked [of kinds tr'] reg by auto
        then have "g \<in> tracked tr"
          using reg ne by auto
        then show False
          using e(1) \<open>te_ptr g = e\<close> by (simp add: tracked_def)
      qed
      then show ?thesis
        using reg f im.lookup_registered [OF tr(2) key f(2)] ne Get_materialize [OF f(1)]
        by (auto simp: tracked_session_def)
    qed
  qed (use c(2) tr in \<open>simp add: mergeTarget_def\<close>)
  then obtain tr' entry where t: "tracked_session kinds db' tr'" "tracker_find tr' (Type m) keyValues = Inr (Some entry)"
      "te_ptr entry = target" "byPtr tr' e = None" "\<forall>p. Get mem1 p e = Get mem p e"
    by auto
  then have "entry \<in> tracked tr'"
    using im.lookup_law [of kinds tr' "Type m" keyValues] key by (auto simp: tracked_session_def)
  then have "e \<noteq> target"
    using t(3,4) by (auto simp: tracked_def)
  then show ?thesis
    using t c(1,3) Get_mergeValues [OF _ m(2,3)] Get_mergeValues_other by auto
qed

theorem Merge_correct_witness:
  "\<exists>mem' db'. Merge (\<lambda>m key. Inr (Some (\<lambda>f. if f = ''Id'' then VInt Int64 7 else VInt Int64 1))) (sample_memory 5) sample_db ''Order'' (Some 7) =
       Inr (10, mem', db') \<and>
     Get mem' (sample_property ''Total'' False) 10 = VInt Int64 5"
proof -
  let ?row = "\<lambda>f. if f = ''Id'' then VInt Int64 7 else VInt Int64 1"
  let ?read = "\<lambda>m key. Inr (Some ?row)"
  have c: "completeKey (sample_memory 5) sample_map 7 = Inr [VInt Int64 7]"
    by code_simp
  obtain mem1 where mem1: "materialize (sample_memory 5) ?row = (10, mem1)" "Get mem1 p 10 = ?row (PropertyName p)" for p
    by (simp add: materialize_def sample_memory_def Get_def)
  have "snapshotOf sample_conv mem1 sample_map 10 = Inr [VInt Int64 7, VInt Int64 1]"
    by (simp add: snapshotOf_def bound_def sample_conv_def sample_map_def mem1(2)) (simp add: sample_property_def)
  then obtain e tr where reg: "tracker_register sample_conv mem1 newTracker sample_map 10 [VInt Int64 7] = Inr (e, tr)"
    using tracker_register_ok [where m = sample_map, OF tracker_inv_new [of sample_kinds] sample_key_typed [of _ 7]] by blast
  have find: "tracker_find newTracker t key = Inr None" for t key
    by (simp add: tracker_find_def tracker_search_def newTracker_def sort_Search.simps)
  have r: "Merge ?read (sample_memory 5) sample_db ''Order'' (Some 7) =
      Inr (10, mergeValues sample_map 10 7 mem1, sample_db\<lparr>db_tracker := Some tr\<rparr>)"
    using c mem1(1) reg find
    by (simp add: Merge_def requireUnitOfWork_def requireWritableKeyedType_def mergeTarget_def the_tracker_def sample_db_def
        entryOf_def byPtr_def newTracker_def) (simp add: sample_map_def KeyProperties_def sample_property_def)
  have "Get (mergeValues sample_map 10 7 mem1) (sample_property ''Total'' False) 10 = Get (sample_memory 5) (sample_property ''Total'' False) 7"
  proof -
    have h: "byPtr newTracker 7 = None" "7 < hsize (sample_memory 5)"
        "sample_kinds (Type sample_map) = map ValueType (KeyProperties sample_map)" "db_maps sample_db ''Order'' = Inr sample_map"
        "inj_on PropertyName (set (Properties sample_map))"
      by (simp_all add: byPtr_def newTracker_def sample_db_def sample_kinds_def KeyProperties_def sample_defs)
    have "Owner p = None" if "p \<in> set (Properties sample_map)" for p
      using that by (auto simp: sample_map_def sample_property_def)
    then obtain tr' keyValues entry where "\<forall>p \<in> set (Properties sample_map). \<not> IsKey p \<longrightarrow>
        Get (mergeValues sample_map 10 7 mem1) p 10 = Get (sample_memory 5) p 7"
      using Merge_correct [OF sample_session h _ _ r] c by auto
    then show ?thesis
      by (simp add: sample_map_def) (simp add: sample_property_def)
  qed
  then show ?thesis
    using r by (simp add: sample_defs Get_def)
qed

end
