(* ===== verification/Program.thy ===== *)
theory Program
  imports Prelude
begin

text \<open>
  Programs over a state that may fail: what was changed before the failure stays changed, as in Go,
  where an operation mutates in place and then returns an error. \<open>bindP\<close> is
  \<open>x, err := m(); if err != nil { return err }; f(x)\<close>. \<open>valid\<close> is the triple the write path is
  proved with: what a normal return and what an error guarantee of the state.
\<close>

type_synonym ('s, 'a) prog = "'s \<Rightarrow> 'a res \<times> 's"

definition retP :: "'a \<Rightarrow> ('s, 'a) prog" where
  "retP x s = (Inr x, s)"

definition failP :: "go_error \<Rightarrow> ('s, 'a) prog" where
  "failP e s = (Inl e, s)"

definition liftR :: "'a res \<Rightarrow> ('s, 'a) prog" where
  "liftR r s = (r, s)"

definition getP :: "('s \<Rightarrow> 'a) \<Rightarrow> ('s, 'a) prog" where
  "getP f s = (Inr (f s), s)"

definition modifyP :: "('s \<Rightarrow> 's) \<Rightarrow> ('s, unit) prog" where
  "modifyP f s = (Inr (), f s)"

definition bindP :: "('s, 'a) prog \<Rightarrow> ('a \<Rightarrow> ('s, 'b) prog) \<Rightarrow> ('s, 'b) prog" where
  "bindP m f s = (case m s of (Inl e, s') \<Rightarrow> (Inl e, s') | (Inr x, s') \<Rightarrow> f x s')"

text \<open>Cleanup on failure: \<open>if err != nil { cleanup(); return err }\<close>.\<close>

definition on_error :: "('s, 'a) prog \<Rightarrow> ('s \<Rightarrow> 's) \<Rightarrow> ('s, 'a) prog" where
  "on_error m cleanup s = (case m s of (Inl e, s') \<Rightarrow> (Inl e, if e = GoPanic then s' else cleanup s') | r \<Rightarrow> r)"

text \<open>\<open>for _, x := range xs { if err := f(x); err != nil { return err } }\<close>.\<close>

fun eachP :: "('a \<Rightarrow> ('s, unit) prog) \<Rightarrow> 'a list \<Rightarrow> ('s, unit) prog" where
  "eachP f [] = retP ()"
| "eachP f (x # xs) = bindP (f x) (\<lambda>_. eachP f xs)"

lemmas prog_defs = retP_def failP_def liftR_def getP_def modifyP_def

lemma bindP_simps [simp]:
  "bindP (retP x) f = f x" "bindP (failP e) f = failP e" "bindP (liftR (Inr x)) f = f x" "bindP (liftR (Inl e)) f = failP e"
  by (simp_all add: fun_eq_iff bindP_def prog_defs)

lemma bindP_Inr_iff: "bindP m f s = (Inr y, t) \<longleftrightarrow> (\<exists>x u. m s = (Inr x, u) \<and> f x u = (Inr y, t))"
  by (auto simp: bindP_def split: prod.splits sum.splits)

lemma bindP_Inl_iff:
  "bindP m f s = (Inl e, t) \<longleftrightarrow> m s = (Inl e, t) \<or> (\<exists>x u. m s = (Inr x, u) \<and> f x u = (Inl e, t))"
  by (auto simp: bindP_def split: prod.splits sum.splits)

section \<open>Reasoning\<close>

text \<open>A Hoare triple: from a state in \<open>P\<close>, a normal return satisfies \<open>Q\<close>, an error leaves a state in \<open>E\<close>.\<close>

definition valid :: "('s \<Rightarrow> bool) \<Rightarrow> ('s, 'a) prog \<Rightarrow> ('a \<Rightarrow> 's \<Rightarrow> bool) \<Rightarrow> (go_error \<Rightarrow> 's \<Rightarrow> bool) \<Rightarrow> bool" where
  "valid P m Q E \<longleftrightarrow> (\<forall>s. P s \<longrightarrow> (case m s of (Inr x, t) \<Rightarrow> Q x t | (Inl e, t) \<Rightarrow> E e t))"

lemma validD_Inr: "valid P m Q E \<Longrightarrow> P s \<Longrightarrow> m s = (Inr x, t) \<Longrightarrow> Q x t"
  by (fastforce simp: valid_def)

lemma validD_Inl: "valid P m Q E \<Longrightarrow> P s \<Longrightarrow> m s = (Inl e, t) \<Longrightarrow> E e t"
  by (fastforce simp: valid_def)

lemma validI:
  "(\<And>s x t. P s \<Longrightarrow> m s = (Inr x, t) \<Longrightarrow> Q x t) \<Longrightarrow> (\<And>s e t. P s \<Longrightarrow> m s = (Inl e, t) \<Longrightarrow> E e t) \<Longrightarrow> valid P m Q E"
  by (auto simp: valid_def split: prod.splits sum.splits)

lemma valid_ret: "(\<And>s. P s \<Longrightarrow> Q x s) \<Longrightarrow> valid P (retP x) Q E"
  by (simp add: valid_def retP_def)

lemma valid_fail: "(\<And>s. P s \<Longrightarrow> E e s) \<Longrightarrow> valid P (failP e) Q E"
  by (simp add: valid_def failP_def)

lemma valid_lift: "(\<And>s x. P s \<Longrightarrow> r = Inr x \<Longrightarrow> Q x s) \<Longrightarrow> (\<And>s e. P s \<Longrightarrow> r = Inl e \<Longrightarrow> E e s) \<Longrightarrow> valid P (liftR r) Q E"
  by (auto simp: valid_def liftR_def split: sum.splits)

lemma valid_get: "(\<And>s. P s \<Longrightarrow> Q (f s) s) \<Longrightarrow> valid P (getP f) Q E"
  by (simp add: valid_def getP_def)

lemma valid_modify: "(\<And>s. P s \<Longrightarrow> Q () (f s)) \<Longrightarrow> valid P (modifyP f) Q E"
  by (simp add: valid_def modifyP_def)

lemma valid_bind: "valid P m Q E \<Longrightarrow> (\<And>x. valid (Q x) (f x) R E) \<Longrightarrow> valid P (bindP m f) R E"
  by (rule validI) (auto simp: bindP_Inr_iff bindP_Inl_iff dest: validD_Inr validD_Inl)

lemma valid_on_error:
  "valid P m Q F \<Longrightarrow> (\<And>e s. F e s \<Longrightarrow> E e (if e = GoPanic then s else cleanup s)) \<Longrightarrow> valid P (on_error m cleanup) Q E"
  unfolding valid_def on_error_def by (fastforce split: prod.splits sum.splits)

lemma valid_each:
  "(\<And>x. x \<in> set xs \<Longrightarrow> valid I (f x) (\<lambda>_. I) E) \<Longrightarrow> valid I (eachP f xs) (\<lambda>_. I) E"
proof (induction xs)
  case (Cons x xs)
  have "valid I (f x) (\<lambda>_. I) E" "valid I (eachP f xs) (\<lambda>_. I) E"
    using Cons by auto
  then show ?case
    by (auto intro: valid_bind)
qed (auto intro: valid_ret)

lemma valid_weaken:
  "valid P m Q E \<Longrightarrow> (\<And>s. P' s \<Longrightarrow> P s) \<Longrightarrow> (\<And>x s. Q x s \<Longrightarrow> Q' x s) \<Longrightarrow> (\<And>e s. E e s \<Longrightarrow> E' e s) \<Longrightarrow> valid P' m Q' E'"
  unfolding valid_def by (fastforce split: prod.splits sum.splits)

lemma valid_case: "(\<And>s. P s \<Longrightarrow> valid ((=) s) m Q E) \<Longrightarrow> valid P m Q E"
  by (auto simp: valid_def)

section \<open>What a normal return guarantees of the result\<close>

definition returns :: "('a \<Rightarrow> bool) \<Rightarrow> ('s, 'a) prog \<Rightarrow> bool" where
  "returns Q m \<longleftrightarrow> (\<forall>s x t. m s = (Inr x, t) \<longrightarrow> Q x)"

lemma returnsD: "returns Q m \<Longrightarrow> m s = (Inr x, t) \<Longrightarrow> Q x"
  by (auto simp: returns_def)

lemma returns_bind: "returns P m \<Longrightarrow> (\<And>x. P x \<Longrightarrow> returns Q (f x)) \<Longrightarrow> returns Q (bindP m f)"
  by (fastforce simp: returns_def bindP_Inr_iff)

lemma returns_last: "(\<And>x. returns Q (f x)) \<Longrightarrow> returns Q (bindP m f)"
  by (fastforce simp: returns_def bindP_Inr_iff)

lemma returns_ret [simp]: "returns Q (retP x) \<longleftrightarrow> Q x"
  by (simp add: returns_def retP_def)

lemma returns_fail [simp]: "returns Q (failP e)"
  by (simp add: returns_def failP_def)

lemma returns_if: "(b \<Longrightarrow> returns Q m) \<Longrightarrow> (\<not> b \<Longrightarrow> returns Q m') \<Longrightarrow> returns Q (if b then m else m')"
  by simp

lemma returns_option: "(x = None \<Longrightarrow> returns Q m) \<Longrightarrow> (\<And>y. x = Some y \<Longrightarrow> returns Q (f y)) \<Longrightarrow> returns Q (case x of None \<Rightarrow> m | Some y \<Rightarrow> f y)"
  by (cases x) auto

lemma returns_prod: "(\<And>a b. p = (a, b) \<Longrightarrow> returns Q (f a b)) \<Longrightarrow> returns Q (case p of (a, b) \<Rightarrow> f a b)"
  by (cases p) auto

text \<open>To be applied after the rules for the programs whose result matters.\<close>

lemmas returns_intros = returns_last returns_if returns_option returns_prod returns_fail

lemma returns_on_error: "returns Q m \<Longrightarrow> returns Q (on_error m cleanup)"
  by (auto simp: returns_def on_error_def split: prod.splits sum.splits)

section \<open>Programs that keep an invariant\<close>

lemma valid_run: "valid P m Q E \<Longrightarrow> P s \<Longrightarrow> m s = (r, t) \<Longrightarrow> (case r of Inl e \<Rightarrow> E e t | Inr x \<Rightarrow> Q x t)"
  unfolding valid_def by (cases r) fastforce+

definition keeps :: "('s \<Rightarrow> bool) \<Rightarrow> ('s, 'a) prog \<Rightarrow> bool" where
  "keeps I m \<longleftrightarrow> valid I m (\<lambda>_. I) (\<lambda>_. I)"

lemma keeps_ret: "keeps I (retP x)" and keeps_fail: "keeps I (failP e)" and keeps_lift: "keeps I (liftR r)" and keeps_get: "keeps I (getP f)"
  by (simp_all add: keeps_def valid_def prog_defs split: sum.splits)

lemma keeps_bind: "keeps I m \<Longrightarrow> (\<And>x. keeps I (f x)) \<Longrightarrow> keeps I (bindP m f)"
  unfolding keeps_def by (rule valid_bind)

lemma keeps_each: "(\<And>x. x \<in> set xs \<Longrightarrow> keeps I (f x)) \<Longrightarrow> keeps I (eachP f xs)"
  unfolding keeps_def by (rule valid_each)

lemma keeps_if: "(b \<Longrightarrow> keeps I m) \<Longrightarrow> (\<not> b \<Longrightarrow> keeps I m') \<Longrightarrow> keeps I (if b then m else m')"
  by simp

lemma keeps_option: "(x = None \<Longrightarrow> keeps I m) \<Longrightarrow> (\<And>y. x = Some y \<Longrightarrow> keeps I (f y)) \<Longrightarrow> keeps I (case x of None \<Rightarrow> m | Some y \<Rightarrow> f y)"
  by (cases x) auto

lemma keeps_list: "(x = [] \<Longrightarrow> keeps I m) \<Longrightarrow> (\<And>y ys. x = y # ys \<Longrightarrow> keeps I (f y ys)) \<Longrightarrow> keeps I (case x of [] \<Rightarrow> m | y # ys \<Rightarrow> f y ys)"
  by (cases x) auto

lemma keeps_prod: "(\<And>a b. x = (a, b) \<Longrightarrow> keeps I (f a b)) \<Longrightarrow> keeps I (case x of (a, b) \<Rightarrow> f a b)"
  by (cases x) auto

lemma keeps_lift_bind: "(\<And>x. r = Inr x \<Longrightarrow> keeps I (f x)) \<Longrightarrow> keeps I (bindP (liftR r) f)"
  by (cases r) (auto intro: keeps_fail)

lemmas keeps_intros = keeps_ret keeps_fail keeps_lift keeps_get keeps_each keeps_if keeps_option keeps_list keeps_prod

text \<open>A result that satisfies \<open>R\<close> besides.\<close>

definition yields :: "('s \<Rightarrow> bool) \<Rightarrow> ('s, 'a) prog \<Rightarrow> ('a \<Rightarrow> bool) \<Rightarrow> bool" where
  "yields I m R \<longleftrightarrow> valid I m (\<lambda>x s. I s \<and> R x) (\<lambda>_. I)"

lemma yields_keeps: "yields I m (\<lambda>_. True) \<longleftrightarrow> keeps I m"
  by (simp add: yields_def keeps_def)

lemma yieldsI: "keeps I m \<Longrightarrow> returns R m \<Longrightarrow> yields I m R"
  unfolding keeps_def yields_def by (rule validI) (auto dest: validD_Inr validD_Inl returnsD)

lemma yields_bind: "yields I m R \<Longrightarrow> (\<And>x. R x \<Longrightarrow> yields I (f x) R') \<Longrightarrow> yields I (bindP m f) R'"
  unfolding yields_def by (rule valid_bind, assumption) (rule validI; blast dest: validD_Inr validD_Inl)

lemma yields_ret: "R x \<Longrightarrow> yields I (retP x) R"
  by (simp add: yields_def valid_def prog_defs)

lemma yields_fail: "yields I (failP e) R"
  by (simp add: yields_def valid_def prog_defs)

lemma yields_keep_bind: "keeps I m \<Longrightarrow> (\<And>x. yields I (f x) R) \<Longrightarrow> yields I (bindP m f) R"
  unfolding yields_keeps [symmetric] by (rule yields_bind)

lemma yields_lift_bind: "(\<And>x. r = Inr x \<Longrightarrow> yields I (f x) R) \<Longrightarrow> yields I (bindP (liftR r) f) R"
  by (cases r) (auto intro: yields_fail)

lemma keeps_yields_bind: "yields I m R \<Longrightarrow> (\<And>x. R x \<Longrightarrow> keeps I (f x)) \<Longrightarrow> keeps I (bindP m f)"
  unfolding yields_keeps [symmetric] by (rule yields_bind)

lemma yields_on_error: "yields I m R \<Longrightarrow> (\<And>s. I s \<Longrightarrow> I (cleanup s)) \<Longrightarrow> yields I (on_error m cleanup) R"
  unfolding yields_def by (rule valid_on_error, assumption) auto

lemma yields_weaken: "yields I m R \<Longrightarrow> (\<And>x. R x \<Longrightarrow> R' x) \<Longrightarrow> yields I m R'"
  unfolding yields_def valid_def by (fastforce split: prod.splits sum.splits)

lemma yields_option: "(x = None \<Longrightarrow> yields I m R) \<Longrightarrow> (\<And>y. x = Some y \<Longrightarrow> yields I (f y) R) \<Longrightarrow> yields I (case x of None \<Rightarrow> m | Some y \<Rightarrow> f y) R"
  by (cases x) auto

lemma yields_get_bind: "(\<And>s. I s \<Longrightarrow> yields I (f (g s)) R) \<Longrightarrow> yields I (bindP (getP g) f) R"
  unfolding yields_def valid_def by (simp add: bindP_def getP_def)

lemma keeps_get_bind: "(\<And>s. I s \<Longrightarrow> keeps I (f (g s))) \<Longrightarrow> keeps I (bindP (getP g) f)"
  unfolding yields_keeps [symmetric] by (rule yields_get_bind)

lemma keeps_then:
  "keeps I m \<Longrightarrow> (\<And>x. valid I (f x) Q E) \<Longrightarrow> (\<And>e s. I s \<Longrightarrow> E e s) \<Longrightarrow> valid I (bindP m f) Q E"
  unfolding keeps_def by (rule valid_bind [where Q = "\<lambda>_. I"]) (auto intro: valid_weaken)

lemma valid_exists: "(\<And>x. valid (P x) m Q E) \<Longrightarrow> valid (\<lambda>s. \<exists>x. P x s) m Q E"
  by (rule validI) (blast dest: validD_Inr validD_Inl)+

lemma valid_drop_result: "valid P (bindP m (\<lambda>_. retP x)) (\<lambda>_. Q) E \<Longrightarrow> valid P m (\<lambda>_. Q) E"
  unfolding valid_def bindP_def retP_def by (fastforce split: prod.splits sum.splits)

lemma valid_get_yields:
  "(\<And>s. P s \<Longrightarrow> I s \<and> yields I (f (g s)) R) \<Longrightarrow> valid P (bindP (getP g) f) (\<lambda>x s. I s \<and> R x) (\<lambda>_. I)"
  unfolding yields_def valid_def by (simp add: bindP_def getP_def)

end
