(* ===== verification/Write_Path.thy ===== *)
theory Write_Path
  imports Session Program
begin

text \<open>
  The write path every generated statement goes through (\<open>db_crud.go\<close>, \<open>db_write.go\<close>, \<open>db_hooks.go\<close>,
  the text functions of \<open>generated_sql.go\<close>): an operation is prepared (checks, identity gate, hooks,
  bound values), executed, and completed (its result judged and applied to the instance and the
  session). The immediate operations run the three steps back to back; the flush and the explicit
  batch run them through the batching plan.

  The world is the store, the session, whether a transaction is open, the undo journal of the call
  in progress (none for an immediate call) and the rest of the outside, a value of type \<open>'d\<close>. What is
  not this program is a field of \<open>env\<close> that reads and changes only the outside: the clocks, the GUID
  source, the dialect's statement texts, the converter, the driver and the context. Go closures
  stored in a prepared write (\<open>finish\<close>, \<open>undoPrepare\<close>) and in the journal are HOL functions.
\<close>

section \<open>The outside\<close>

datatype StatementResult = ResultNone | ResultKey | ResultReportedCount | ResultDriverCount

type_synonym args = "(string \<times> gvalue) list"

record writeResult =
  wr_key :: gvalue
  wr_affected :: int

text \<open>What a query hands to \<open>readScalar\<close>: the first column of the first row if there is one, the error \<open>Scan\<close> would give, and \<open>rows.Err()\<close>.\<close>

record resultRows =
  rr_first :: "gvalue option"
  rr_scan :: "go_error option"
  rr_err :: "go_error option"

record MessageStatement =
  mst_sql :: string
  mst_args :: args
  mst_result :: StatementResult

record 'd env =
  Clock :: "('d \<Rightarrow> (int \<times> int) \<times> 'd) option"
  wallClock :: "'d \<Rightarrow> int \<times> 'd"
  NewGUID :: "'d \<Rightarrow> string \<times> 'd"
  InsertSQL :: "EntityMap \<Rightarrow> string"
  UpdateSQL :: "EntityMap \<Rightarrow> string"
  UpdateOnlySQL :: "EntityMap \<Rightarrow> PropertyMap list \<Rightarrow> string"
  DeleteSQL :: "EntityMap \<Rightarrow> bool \<Rightarrow> string"
  ReportsAffectedRowsBySelect :: bool
  MaxParametersPerMessage :: nat
  ToParameter :: "gvalue \<Rightarrow> string \<Rightarrow> string \<Rightarrow> gvalue res"
  FromDatabase :: "gvalue \<Rightarrow> PropertyMap \<Rightarrow> string \<Rightarrow> gvalue res"
  BatchingAuto :: bool
  maxStatements :: nat
  ExecContext :: "string \<Rightarrow> args \<Rightarrow> 'd \<Rightarrow> int res res \<times> 'd"
  QueryContext :: "string \<Rightarrow> args \<Rightarrow> 'd \<Rightarrow> resultRows res \<times> 'd"
  PrepareContext :: "string \<Rightarrow> 'd \<Rightarrow> unit res \<times> 'd"
  SendMessage :: "(MessageStatement list \<Rightarrow> 'd \<Rightarrow> writeResult list res \<times> 'd) option"
  BeginTx :: "'d \<Rightarrow> unit res \<times> 'd"
  CommitTx :: "'d \<Rightarrow> unit res \<times> 'd"
  RollbackTx :: "'d \<Rightarrow> unit res \<times> 'd"
  ctx_Err :: "'d \<Rightarrow> go_error option"

type_synonym undo = "memory \<times> Db \<Rightarrow> (memory \<times> Db) res"

record 'd world =
  w_mem :: memory
  w_db :: Db
  w_tx :: bool
  w_journal :: "undo list option"
  w_ext :: 'd

text \<open>Running a part of the outside.\<close>

definition outside :: "('d \<Rightarrow> 'a res \<times> 'd) \<Rightarrow> ('d world, 'a) prog" where
  "outside f w = (let (r, d) = f (w_ext w) in (r, w\<lparr>w_ext := d\<rparr>))"

text \<open>\<open>if err := ctx.Err(); err != nil { return err }\<close>.\<close>

definition check_ctx :: "'d env \<Rightarrow> ('d world, unit) prog" where
  "check_ctx env w = (case ctx_Err env (w_ext w) of Some e \<Rightarrow> (Inl e, w) | None \<Rightarrow> (Inr (), w))"

section \<open>Writing fields\<close>

definition setP :: "PropertyMap \<Rightarrow> ptr \<Rightarrow> gvalue \<Rightarrow> ('d world, unit) prog" where
  "setP p e v w = (case PropertyMap_Set (w_mem w) p e v of Inl err \<Rightarrow> (Inl err, w) | Inr mem \<Rightarrow> (Inr (), w\<lparr>w_mem := mem\<rparr>))"

text \<open>\<open>_ = property.Set(entity, prior)\<close>: an error would be dropped.\<close>

definition set_quiet :: "PropertyMap \<Rightarrow> ptr \<Rightarrow> gvalue \<Rightarrow> memory \<Rightarrow> memory" where
  "set_quiet p e v mem = (case PropertyMap_Set mem p e v of Inl err \<Rightarrow> mem | Inr mem' \<Rightarrow> mem')"

definition on_mem :: "(memory \<Rightarrow> memory) \<Rightarrow> 'd world \<Rightarrow> 'd world" where
  "on_mem f w = w\<lparr>w_mem := f (w_mem w)\<rparr>"

section \<open>Hooks\<close>

text \<open>\<open>now\<close>: the session clock; an instant whose zone offset is not zero is VAL-020.\<close>

definition now :: "'d env \<Rightarrow> ('d world, gvalue) prog" where
  "now env =
     (case Clock env of
        None \<Rightarrow> outside (\<lambda>d. let (i, d') = wallClock env d in (Inr (VTime i 0), d'))
      | Some clock \<Rightarrow> outside (\<lambda>d. let ((i, zone), d') = clock d in
            (if zone \<noteq> 0 then Inl (OrmError ''VAL-020'' ''Options.Clock'') else Inr (VTime i 0), d')))"

fun isUnsetInstant :: "gvalue \<Rightarrow> bool" where
  "isUnsetInstant VNil = True"
| "isUnsetInstant (VTime i z) = (i = 0)"
| "isUnsetInstant v = False"

text \<open>\<open>fillCreatedAt\<close>: an unset created-at takes the clock; the result puts the previous value back.\<close>

definition fillCreatedAt :: "'d env \<Rightarrow> EntityMap \<Rightarrow> ptr \<Rightarrow> ('d world, memory \<Rightarrow> memory) prog" where
  "fillCreatedAt env m entity =
     (case CreatedAtProperty m of
        None \<Rightarrow> retP id
      | Some property \<Rightarrow>
          bindP (getP (\<lambda>w. Get (w_mem w) property entity)) (\<lambda>prior.
            if \<not> isUnsetInstant prior then retP id
            else bindP (now env) (\<lambda>instant.
                 bindP (setP property entity instant) (\<lambda>_.
                   retP (set_quiet property entity prior)))))"

text \<open>\<open>stampSet\<close>: the updated-at column takes the clock and joins the set once.\<close>

definition stampSet ::
  "'d env \<Rightarrow> EntityMap \<Rightarrow> ptr \<Rightarrow> PropertyMap list \<Rightarrow> ('d world, PropertyMap list \<times> (memory \<Rightarrow> memory)) prog" where
  "stampSet env m entity cols =
     (case UpdatedAtProperty m of
        None \<Rightarrow> retP (cols, id)
      | Some property \<Rightarrow>
          bindP (now env) (\<lambda>instant.
          bindP (getP (\<lambda>w. Get (w_mem w) property entity)) (\<lambda>prior.
          bindP (setP property entity instant) (\<lambda>_.
            retP (if property \<in> set cols then cols else cols @ [property], set_quiet property entity prior)))))"

definition isWritableChange :: "PropertyMap \<Rightarrow> bool" where
  "isWritableChange p \<longleftrightarrow> \<not> IsKey p \<and> \<not> IsVersion p \<and> \<not> IsGenerated p \<and> Audit p \<noteq> AuditUpdatedAt"

section \<open>Generated statements\<close>

text \<open>
  A statement's text and the properties it binds, in statement order. The session caches these by
  map; a rendering is a pure function of its arguments, so the cached text is the text. The label
  of a bind is \<open>Entity.Property\<close>.
\<close>

record boundText =
  bt_sql :: string
  bt_bound :: "PropertyMap list"

definition insertText :: "'d env \<Rightarrow> EntityMap \<Rightarrow> boundText" where
  "insertText env m = \<lparr>bt_sql = InsertSQL env m, bt_bound = filter (\<lambda>p. \<not> IsGenerated p) (Properties m)\<rparr>"

definition updateText :: "'d env \<Rightarrow> EntityMap \<Rightarrow> boundText" where
  "updateText env m = \<lparr>bt_sql = UpdateSQL env m,
     bt_bound = filter (\<lambda>p. IsKey p \<or> IsVersion p \<or> \<not> IsGenerated p) (Properties m)\<rparr>"

definition versionOf :: "EntityMap \<Rightarrow> PropertyMap list" where
  "versionOf m = (case VersionProperty m of None \<Rightarrow> [] | Some p \<Rightarrow> [p])"

definition updateOnlyBindings :: "EntityMap \<Rightarrow> PropertyMap list \<Rightarrow> PropertyMap list" where
  "updateOnlyBindings m cols =
     (let ps = cols @ KeyProperties m
      in case VersionProperty m of None \<Rightarrow> ps | Some p \<Rightarrow> ps @ [p])"

definition updateOnlyText :: "'d env \<Rightarrow> EntityMap \<Rightarrow> PropertyMap list \<Rightarrow> boundText" where
  "updateOnlyText env m cols = \<lparr>bt_sql = UpdateOnlySQL env m cols, bt_bound = updateOnlyBindings m cols\<rparr>"

definition deleteEntityText :: "'d env \<Rightarrow> EntityMap \<Rightarrow> bool \<Rightarrow> boundText" where
  "deleteEntityText env m checkVersion =
     \<lparr>bt_sql = DeleteSQL env m checkVersion,
      bt_bound = KeyProperties m @ (if checkVersion then versionOf m else [])\<rparr>"

definition bind_args :: "'d env \<Rightarrow> gotype \<Rightarrow> memory \<Rightarrow> ptr \<Rightarrow> PropertyMap list \<Rightarrow> args res" where
  "bind_args env entityType mem entity ps =
     res_map (\<lambda>p. bindR (ToParameter env (Get mem p entity) (ColumnType p) (entityType @ ''.'' @ PropertyName p))
                    (\<lambda>converted. Inr (ColumnName p, converted))) ps"

section \<open>Prepared writes\<close>

text \<open>\<open>pw_id\<close> stands for the pointer to the write, through which its count is read back.\<close>

record 'd preparedWrite =
  pw_sql :: string
  pw_args :: args
  pw_kind :: StatementResult
  pw_instance :: "ptr option"
  pw_generatesKey :: bool
  pw_command :: bool
  pw_noRow :: string
  pw_finish :: "(writeResult \<Rightarrow> ('d world, unit) prog) option"
  pw_undoPrepare :: "memory \<Rightarrow> memory"
  pw_affected :: int
  pw_id :: nat

definition readsResult :: "'d preparedWrite \<Rightarrow> bool" where
  "readsResult w \<longleftrightarrow> pw_kind w = ResultKey \<or> pw_kind w = ResultReportedCount"

definition countKind :: "'d env \<Rightarrow> StatementResult" where
  "countKind env = (if ReportsAffectedRowsBySelect env then ResultReportedCount else ResultDriverCount)"

definition countedWrite :: "'d env \<Rightarrow> gotype \<Rightarrow> ptr \<Rightarrow> boundText \<Rightarrow> ('d world, 'd preparedWrite) prog" where
  "countedWrite env entityType entity text =
     bindP (getP w_mem) (\<lambda>mem.
     bindP (liftR (bind_args env entityType mem entity (bt_bound text))) (\<lambda>args.
       retP \<lparr>pw_sql = bt_sql text, pw_args = args, pw_kind = countKind env, pw_instance = Some entity,
             pw_generatesKey = False, pw_command = False, pw_noRow = [], pw_finish = None,
             pw_undoPrepare = id, pw_affected = 0, pw_id = 0\<rparr>))"

section \<open>The undo journal\<close>

definition journal_add :: "undo \<Rightarrow> ('d world, unit) prog" where
  "journal_add undo = modifyP (\<lambda>w. w\<lparr>w_journal := map_option (\<lambda>j. j @ [undo]) (w_journal w)\<rparr>)"

text \<open>\<open>rollback\<close>: the closures run last-in first-out; a journal that is not there does nothing.\<close>

definition rollback :: "('d world, unit) prog" where
  "rollback w =
     (case w_journal w of
        None \<Rightarrow> (Inr (), w)
      | Some undos \<Rightarrow>
          (case res_fold (\<lambda>undo s. undo s) (rev undos) (w_mem w, w_db w) of
             Inl e \<Rightarrow> (Inl e, w)
           | Inr (mem, db) \<Rightarrow> (Inr (), w\<lparr>w_mem := mem, w_db := db, w_journal := Some []\<rparr>)))"

text \<open>The properties \<open>recordWrite\<close> captures, in its order.\<close>

definition captured :: "EntityMap \<Rightarrow> PropertyMap list" where
  "captured m = KeyProperties m @ List.map_filter id
     [VersionProperty m, CreatedAtProperty m, UpdatedAtProperty m, SoftDeleteProperty m]"

text \<open>Go's \<open>copy(dst, src)\<close>.\<close>

definition slice_copy :: "'a list \<Rightarrow> 'a list \<Rightarrow> 'a list" where
  "slice_copy dst src = take (length dst) src @ drop (length src) dst"

text \<open>
  The closure \<open>recordWrite\<close> registers: the values go back; an entry registered since is forgotten; the
  entry there was comes back with its snapshot, and so does the instance that held the key.
\<close>

definition undo_write ::
  "ptr \<Rightarrow> (PropertyMap \<times> gvalue) list \<Rightarrow> trackedEntry option \<Rightarrow> gvalue list \<Rightarrow> trackedEntry option \<Rightarrow> undo" where
  "undo_write p values entry snapshot holder = (\<lambda>(mem, db).
     let mem' = foldl (\<lambda>mem (property, prior). set_quiet property p prior mem) mem values in
     case db_tracker db of
       None \<Rightarrow> Inr (mem', db)
     | Some tr \<Rightarrow>
         bindR (case byPtr tr p of
                  Some current \<Rightarrow> if Some current \<noteq> entry then tracker_forget tr current else Inr tr
                | None \<Rightarrow> Inr tr) (\<lambda>tr1.
         bindR (case entry of
                  None \<Rightarrow> Inr tr1
                | Some e \<Rightarrow> tracker_restore
                    (tr1\<lparr>tr_snapshots := (tr_snapshots tr1)(te_seq e := slice_copy (tr_snapshots tr1 (te_seq e)) snapshot)\<rparr>) e)
           (\<lambda>tr2.
         bindR (case holder of
                  None \<Rightarrow> Inr tr2
                | Some h \<Rightarrow> if Some h \<noteq> entry then tracker_restore tr2 h else Inr tr2) (\<lambda>tr3.
           Inr (mem', db\<lparr>db_tracker := Some tr3\<rparr>)))))"

definition recordWrite :: "EntityMap \<Rightarrow> ptr \<Rightarrow> ('d world, unit) prog" where
  "recordWrite m p w =
     (case w_journal w of
        None \<Rightarrow> (Inr (), w)
      | Some _ \<Rightarrow>
          let values = map (\<lambda>property. (property, Get (w_mem w) property p)) (captured m);
              entry = entryOf (w_db w) (Some p);
              snapshot = (case (db_tracker (w_db w), entry) of (Some tr, Some e) \<Rightarrow> tr_snapshots tr (te_seq e) | _ \<Rightarrow> []);
              found = (case db_tracker (w_db w) of
                  None \<Rightarrow> Inr None
                | Some tr \<Rightarrow> let (key, ok) = keyOf (w_mem w) m p in if ok then tracker_find tr (Type m) key else Inr None)
          in bindP (liftR found) (\<lambda>holder. journal_add (undo_write p values entry snapshot holder)) w)"

text \<open>The closure that puts a forgotten or displaced entry back.\<close>

definition undo_restore :: "trackedEntry \<Rightarrow> undo" where
  "undo_restore e = (\<lambda>(mem, db).
     case db_tracker db of
       None \<Rightarrow> Inl GoPanic
     | Some tr \<Rightarrow> bindR (tracker_restore tr e) (\<lambda>tr'. Inr (mem, db\<lparr>db_tracker := Some tr'\<rparr>)))"

definition set_tracker :: "tracker \<Rightarrow> ('d world, unit) prog" where
  "set_tracker tr = modifyP (\<lambda>w. w\<lparr>w_db := (w_db w)\<lparr>db_tracker := Some tr\<rparr>\<rparr>)"

text \<open>The session's \<open>track\<close> as a program: an error leaves the tracker as it is.\<close>

definition trackP :: "EntityMap \<Rightarrow> ptr \<Rightarrow> ('d world, unit) prog" where
  "trackP m entity w =
     (case track (w_mem w) (w_db w) m entity of Inl e \<Rightarrow> (Inl e, w) | Inr db \<Rightarrow> (Inr (), w\<lparr>w_db := db\<rparr>))"

definition trackJournaled :: "EntityMap \<Rightarrow> ptr \<Rightarrow> ('d world, unit) prog" where
  "trackJournaled m entity =
     bindP (getP id) (\<lambda>w.
       if \<not> tracking (w_db w) m then retP ()
       else bindP
         (if w_journal w = None then retP ()
          else let (key, ok) = keyOf (w_mem w) m entity in
            if \<not> ok then retP ()
            else bindP (liftR (the_tracker (w_db w))) (\<lambda>tr.
                 bindP (liftR (tracker_find tr (Type m) key)) (\<lambda>found.
                   case found of
                     Some holder \<Rightarrow> if te_ptr holder \<noteq> entity then journal_add (undo_restore holder) else retP ()
                   | None \<Rightarrow> retP ())))
         (\<lambda>_. trackP m entity))"

definition forgetKeyJournaled :: "EntityMap \<Rightarrow> KeyTuple \<Rightarrow> ('d world, unit) prog" where
  "forgetKeyJournaled m key =
     bindP (getP (\<lambda>w. db_tracker (w_db w))) (\<lambda>t.
       case t of
         None \<Rightarrow> retP ()
       | Some tr \<Rightarrow>
           bindP (liftR (tracker_find tr (Type m) key)) (\<lambda>found.
             case found of
               None \<Rightarrow> retP ()
             | Some entry \<Rightarrow>
                 bindP (journal_add (undo_restore entry)) (\<lambda>_.
                 bindP (liftR (tracker_forget tr entry)) set_tracker)))"

definition forgetEntryJournaled :: "trackedEntry option \<Rightarrow> ('d world, unit) prog" where
  "forgetEntryJournaled entry =
     (case entry of
        None \<Rightarrow> retP ()
      | Some e \<Rightarrow>
          bindP (journal_add (undo_restore e)) (\<lambda>_.
          bindP (getP w_db) (\<lambda>db.
          bindP (liftR (the_tracker db)) (\<lambda>tr.
          bindP (liftR (tracker_forget tr e)) set_tracker))))"

section \<open>Judging a result\<close>

text \<open>\<open>toInt64\<close> and \<open>fromInt64\<close>: the conversions between integer types wrap; \<open>reflect.ValueOf(nil).Type()\<close> panics.\<close>

definition wrap_signed :: "nat \<Rightarrow> int \<Rightarrow> int" where
  "wrap_signed bits i = (i + 2 ^ (bits - 1)) mod 2 ^ bits - 2 ^ (bits - 1)"

fun toInt64 :: "gvalue \<Rightarrow> int res" where
  "toInt64 (VInt t i) = Inr i"
| "toInt64 (VUint t n) = Inr (wrap_signed 64 (int n))"
| "toInt64 VNil = Inl GoPanic"
| "toInt64 v = Inl (PlainError ''version property is not an integer type'')"

fun fromInt64 :: "int \<Rightarrow> go_kind \<Rightarrow> gvalue res" where
  "fromInt64 i (KInt t) = Inr (VInt t (wrap_signed (int_bits t) i))"
| "fromInt64 i (KUint t) = Inr (VUint t (nat (i mod 2 ^ uint_bits t)))"
| "fromInt64 i k = Inl (PlainError ''version property is not an integer type'')"

definition updateJudge :: "gotype \<Rightarrow> EntityMap \<Rightarrow> ptr \<Rightarrow> int \<Rightarrow> ('d world, unit) prog" where
  "updateJudge entityType m entity affected =
     (if affected = 0
      then failP (if VersionProperty m \<noteq> None then ConcurrencyError entityType else OrmError ''CRUD-001'' entityType)
      else case VersionProperty m of
             None \<Rightarrow> retP ()
           | Some version \<Rightarrow>
               bindP (getP (\<lambda>w. Get (w_mem w) version entity)) (\<lambda>value.
               bindP (liftR (toInt64 value)) (\<lambda>current.
               bindP (liftR (fromInt64 (wrap_signed 64 (current + 1)) (ValueType version))) (\<lambda>bumped.
                 setP version entity bumped))))"

text \<open>\<open>resnapshot\<close> in place: the properties before one whose conversion fails have moved.\<close>

definition resnapshotP :: "trackedEntry \<Rightarrow> PropertyMap list \<Rightarrow> ('d world, unit) prog" where
  "resnapshotP entry = eachP (\<lambda>p.
     bindP (getP id) (\<lambda>w.
     bindP (liftR (the_tracker (w_db w))) (\<lambda>tr.
     bindP (liftR (tracker_resnapshot (db_conv (w_db w)) (w_mem w) tr entry [p])) set_tracker)))"

section \<open>Checks before a write\<close>

text \<open>\<open>reflect.DeepEqual\<close> of two field values: a NaN equals nothing.\<close>

definition DeepEqual :: "gvalue \<Rightarrow> gvalue \<Rightarrow> bool" where
  "DeepEqual a b \<longleftrightarrow> a = b \<and> (case a of VFloat t f \<Rightarrow> f \<noteq> NaN | _ \<Rightarrow> True)"

definition check_key_part ::
  "memory \<Rightarrow> EntityMap \<Rightarrow> ptr \<Rightarrow> RelationshipMap \<Rightarrow> ptr \<Rightarrow> string list option \<Rightarrow> PropertyMap \<times> string \<Rightarrow> unit res" where
  "check_key_part mem m entity r navigation written = (\<lambda>(targetKey, foreignKey).
     if (case written of Some names \<Rightarrow> foreignKey \<notin> set names | None \<Rightarrow> False) then Inr ()
     else case Property m foreignKey of
            None \<Rightarrow> Inl GoPanic
          | Some fkProperty \<Rightarrow>
              if DeepEqual (Get mem targetKey navigation) (Get mem fkProperty entity) then Inr ()
              else Inl (OrmError ''CRUD-004'' (EntityName m @ ''.'' @ RelName r)))"

definition check_relationship ::
  "memory \<Rightarrow> Db \<Rightarrow> EntityMap \<Rightarrow> ptr \<Rightarrow> string list option \<Rightarrow> RelationshipMap \<Rightarrow> unit res" where
  "check_relationship mem db m entity written r =
     (if RelKind r \<noteq> RelationshipManyToOne then Inr ()
      else case navs mem entity (RelName r) of
             PointerField (Some navigation) \<Rightarrow>
               bindR (db_maps db (TargetType r)) (\<lambda>targetMap.
                 if length (KeyProperties targetMap) \<noteq> length (ForeignKeyProperties r) then Inr ()
                 else bindR (res_map (check_key_part mem m entity r navigation written)
                        (zip (KeyProperties targetMap) (ForeignKeyProperties r))) (\<lambda>_. Inr ()))
           | _ \<Rightarrow> Inr ())"

definition checkNavigationConsistency ::
  "memory \<Rightarrow> Db \<Rightarrow> EntityMap \<Rightarrow> ptr \<Rightarrow> string list option \<Rightarrow> unit res" where
  "checkNavigationConsistency mem db m entity written =
     bindR (res_map (check_relationship mem db m entity written) (Relationships m)) (\<lambda>_. Inr ())"

text \<open>The members of an owned navigation, by the navigation's field name.\<close>

definition ownedNavigation :: "EntityMap \<Rightarrow> string \<Rightarrow> PropertyMap list option" where
  "ownedNavigation m name =
     (let members = filter (\<lambda>p. Owner p = Some name) (Properties m) in if members = [] then None else Some members)"

fun resolve_members :: "EntityMap \<Rightarrow> PropertyMap list \<Rightarrow> string list \<times> PropertyMap list \<Rightarrow> (string list \<times> PropertyMap list) res" where
  "resolve_members m [] acc = Inr acc"
| "resolve_members m (p # ps) (seen, resolved) =
     (if PropertyName p \<in> set seen then Inl (OrmError ''CRUD-007'' (EntityName m @ ''.'' @ PropertyName p))
      else resolve_members m ps (PropertyName p # seen, resolved @ [p]))"

definition resolve_one :: "EntityMap \<Rightarrow> string \<Rightarrow> string list \<times> PropertyMap list \<Rightarrow> (string list \<times> PropertyMap list) res" where
  "resolve_one m propertyName acc =
     (let target = EntityName m @ ''.'' @ propertyName; (seen, resolved) = acc in
      case Property m propertyName of
        None \<Rightarrow> (case ownedNavigation m propertyName of
            Some members \<Rightarrow> resolve_members m members acc
          | None \<Rightarrow> Inl (OrmError ''CRUD-005'' target))
      | Some p \<Rightarrow>
          if IsKey p \<or> IsVersion p \<or> IsGenerated p then Inl (OrmError ''CRUD-006'' target)
          else if propertyName \<in> set seen then Inl (OrmError ''CRUD-007'' target)
          else Inr (propertyName # seen, resolved @ [p]))"

definition resolveUpdateList :: "EntityMap \<Rightarrow> string list \<Rightarrow> PropertyMap list res" where
  "resolveUpdateList m properties =
     (if properties = [] then Inl (OrmError ''CRUD-007'' (EntityName m))
      else bindR (res_fold (resolve_one m) properties ([], [])) (\<lambda>(seen, resolved). Inr resolved))"

section \<open>Preparing an insert\<close>

text \<open>Completing an insert: a generated key is read back onto the instance, which is then tracked.\<close>

definition finish_insert :: "'d env \<Rightarrow> gotype \<Rightarrow> EntityMap \<Rightarrow> ptr \<Rightarrow> writeResult \<Rightarrow> ('d world, unit) prog" where
  "finish_insert env entityType m entity result =
     bindP (if Strategy m = KeyDatabaseGenerated
            then case KeyProperties m of
                   [] \<Rightarrow> failP GoPanic
                 | keyProperty # _ \<Rightarrow>
                     bindP (liftR (FromDatabase env (wr_key result) keyProperty (entityType @ ''.'' @ PropertyName keyProperty)))
                       (setP keyProperty entity)
            else retP ())
       (\<lambda>_. trackJournaled m entity)"

definition insertStatement :: "'d env \<Rightarrow> gotype \<Rightarrow> EntityMap \<Rightarrow> ptr \<Rightarrow> ('d world, 'd preparedWrite) prog" where
  "insertStatement env entityType m entity =
     bindP (getP w_mem) (\<lambda>mem.
     bindP (liftR (bind_args env entityType mem entity (bt_bound (insertText env m)))) (\<lambda>args.
       let generated = (Strategy m = KeyDatabaseGenerated) in
       retP \<lparr>pw_sql = bt_sql (insertText env m), pw_args = args,
             pw_kind = (if generated then ResultKey else ResultNone), pw_instance = Some entity,
             pw_generatesKey = generated, pw_command = False,
             pw_noRow = (if generated then ''insert into '' @ RelationName m @ '': RETURNING produced no row'' else []),
             pw_finish = Some (finish_insert env entityType m entity),
             pw_undoPrepare = id, pw_affected = 1, pw_id = 0\<rparr>))"

text \<open>An empty client-generated GUID key is assigned first.\<close>

definition assign_guid :: "'d env \<Rightarrow> EntityMap \<Rightarrow> ptr \<Rightarrow> ('d world, unit) prog" where
  "assign_guid env m entity =
     (if Strategy m \<noteq> KeyClientGuid then retP ()
      else case KeyProperties m of
             [] \<Rightarrow> failP GoPanic
           | keyProperty # _ \<Rightarrow>
               bindP (getP (\<lambda>w. Get (w_mem w) keyProperty entity)) (\<lambda>value.
                 case value of
                   VGUID g \<Rightarrow> if IsZero (VGUID g)
                     then bindP (outside (\<lambda>d. let (g', d') = NewGUID env d in (Inr (VGUID g'), d'))) (setP keyProperty entity)
                     else retP ()
                 | _ \<Rightarrow> retP ()))"

definition prepareInsert :: "'d env \<Rightarrow> gotype \<Rightarrow> ptr \<Rightarrow> ('d world, 'd preparedWrite) prog" where
  "prepareInsert env entityType entity =
     bindP (getP w_db) (\<lambda>db.
     bindP (liftR (db_maps db entityType)) (\<lambda>m.
       if Kind m \<noteq> RelationTable then failP (OrmError ''CRUD-003'' entityType)
       else
         bindP (getP w_mem) (\<lambda>mem.
         bindP (liftR (checkNavigationConsistency mem db m entity None)) (\<lambda>_.
         bindP (assign_guid env m entity) (\<lambda>_.
         bindP (if Strategy m \<noteq> KeyDatabaseGenerated
                then bindP (getP w_mem) (\<lambda>mem. liftR (writeIdentity mem db m entity)) else retP None) (\<lambda>_.
         bindP (fillCreatedAt env m entity) (\<lambda>restoreCreatedAt.
         bindP (on_error (insertStatement env entityType m entity) (on_mem restoreCreatedAt)) (\<lambda>write.
           retP (write\<lparr>pw_undoPrepare := restoreCreatedAt\<rparr>)))))))))"

section \<open>Preparing an update\<close>

definition prepareTrackedUpdate ::
  "'d env \<Rightarrow> EntityMap \<Rightarrow> trackedEntry \<Rightarrow> ptr \<Rightarrow> ('d world, 'd preparedWrite option) prog" where
  "prepareTrackedUpdate env m entry entity =
     bindP (getP id) (\<lambda>w.
     bindP (liftR (the_tracker (w_db w))) (\<lambda>tr.
     bindP (liftR (tracker_changed (db_conv (w_db w)) (w_mem w) tr entry)) (\<lambda>changed.
       let cols = filter isWritableChange changed in
       if cols = [] then retP None
       else
         bindP (stampSet env m entity cols) (\<lambda>(cols', restoreStamp).
         bindP (on_error (countedWrite env (Type m) entity (updateOnlyText env m cols')) (on_mem restoreStamp)) (\<lambda>write.
           retP (Some (write\<lparr>pw_undoPrepare := restoreStamp,
             pw_finish := Some (\<lambda>result. bindP (updateJudge (Type m) m entity (wr_affected result)) (\<lambda>_.
               resnapshotP entry (cols' @ versionOf m)))\<rparr>)))))))"

definition prepareUpdate :: "'d env \<Rightarrow> gotype \<Rightarrow> ptr \<Rightarrow> ('d world, 'd preparedWrite option) prog" where
  "prepareUpdate env entityType entity =
     bindP (getP id) (\<lambda>w.
     bindP (liftR (requireWritableKeyedType (w_db w) entityType)) (\<lambda>m.
     bindP (liftR (checkNavigationConsistency (w_mem w) (w_db w) m entity None)) (\<lambda>_.
     bindP (liftR (writeIdentity (w_mem w) (w_db w) m entity)) (\<lambda>entry.
       case entry of
         Some e \<Rightarrow> prepareTrackedUpdate env m e entity
       | None \<Rightarrow>
           bindP (stampSet env m entity []) (\<lambda>(_, restoreStamp).
           bindP (on_error (countedWrite env entityType entity (updateText env m)) (on_mem restoreStamp)) (\<lambda>write.
             retP (Some (write\<lparr>pw_undoPrepare := restoreStamp,
               pw_finish := Some (\<lambda>result. bindP (updateJudge entityType m entity (wr_affected result)) (\<lambda>_.
                 trackJournaled m entity))\<rparr>))))))))"

definition prepareUpdateOnly :: "'d env \<Rightarrow> gotype \<Rightarrow> ptr \<Rightarrow> string list \<Rightarrow> ('d world, 'd preparedWrite) prog" where
  "prepareUpdateOnly env entityType entity properties =
     bindP (getP id) (\<lambda>w.
     bindP (liftR (requireWritableKeyedType (w_db w) entityType)) (\<lambda>m.
     bindP (liftR (resolveUpdateList m properties)) (\<lambda>cols.
     bindP (liftR (checkNavigationConsistency (w_mem w) (w_db w) m entity (Some (map PropertyName cols)))) (\<lambda>_.
     bindP (liftR (writeIdentity (w_mem w) (w_db w) m entity)) (\<lambda>entry.
     bindP (stampSet env m entity cols) (\<lambda>(cols', restoreStamp).
     bindP (on_error (countedWrite env entityType entity (updateOnlyText env m cols')) (on_mem restoreStamp)) (\<lambda>write.
       retP (write\<lparr>pw_undoPrepare := restoreStamp,
         pw_finish := Some (\<lambda>result. bindP (updateJudge entityType m entity (wr_affected result)) (\<lambda>_.
           case entry of Some e \<Rightarrow> resnapshotP e (cols' @ versionOf m) | None \<Rightarrow> retP ()))\<rparr>))))))))"

section \<open>Preparing a delete\<close>

definition soft_delete_flag :: "EntityMap \<Rightarrow> PropertyMap res" where
  "soft_delete_flag m = (case SoftDeleteProperty m of None \<Rightarrow> Inl GoPanic | Some flag \<Rightarrow> Inr flag)"

definition prepareSoftDeleteEntity :: "'d env \<Rightarrow> gotype \<Rightarrow> EntityMap \<Rightarrow> ptr \<Rightarrow> ('d world, 'd preparedWrite) prog" where
  "prepareSoftDeleteEntity env entityType m entity =
     bindP (liftR (soft_delete_flag m)) (\<lambda>flag.
     bindP (getP (\<lambda>w. Get (w_mem w) flag entity)) (\<lambda>priorFlag.
     bindP (setP flag entity (VBool True)) (\<lambda>_.
     bindP (on_error (stampSet env m entity [flag]) (on_mem (set_quiet flag entity priorFlag))) (\<lambda>(cols, restoreStamp).
     let undo = restoreStamp \<circ> set_quiet flag entity priorFlag in
     bindP (on_error (countedWrite env entityType entity (updateOnlyText env m cols)) (on_mem undo)) (\<lambda>write.
       retP (write\<lparr>pw_undoPrepare := undo,
         pw_finish := Some (\<lambda>result. updateJudge entityType m entity (wr_affected result))\<rparr>))))))"

text \<open>\<open>reflect.New\<close>: a fresh instance with every field at its zero value.\<close>

definition reflect_New :: "EntityMap \<Rightarrow> ('d world, ptr) prog" where
  "reflect_New m w =
     (let (p, mem) = materialize (w_mem w) (\<lambda>f. case Property m f of Some q \<Rightarrow> zero_value q | None \<Rightarrow> VNil)
      in (Inr p, w\<lparr>w_mem := mem\<rparr>))"

definition prepareSoftDeleteByKey ::
  "'d env \<Rightarrow> gotype \<Rightarrow> EntityMap \<Rightarrow> gvalue list \<Rightarrow> ('d world, 'd preparedWrite) prog" where
  "prepareSoftDeleteByKey env entityType m keyValues =
     bindP (reflect_New m) (\<lambda>scratch.
     bindP (eachP (\<lambda>(key, v). setP key scratch v) (zip (KeyProperties m) keyValues)) (\<lambda>_.
     bindP (liftR (soft_delete_flag m)) (\<lambda>flag.
     bindP (setP flag scratch (VBool True)) (\<lambda>_.
     bindP (stampSet env m scratch [flag]) (\<lambda>(cols, _).
     bindP (countedWrite env entityType scratch (updateOnlyText env m cols)) (\<lambda>write.
       retP (write\<lparr>pw_instance := None,
         pw_finish := Some (\<lambda>result. updateJudge entityType m scratch (wr_affected result))\<rparr>)))))))"

text \<open>\<open>update := write.finish\<close>, then a further step.\<close>

definition finish_then :: "('d world, unit) prog \<Rightarrow> 'd preparedWrite \<Rightarrow> 'd preparedWrite" where
  "finish_then follow write =
     write\<lparr>pw_finish := map_option (\<lambda>update result. bindP (update result) (\<lambda>_. follow)) (pw_finish write)\<rparr>"

definition key_args :: "'d env \<Rightarrow> gotype \<Rightarrow> EntityMap \<Rightarrow> gvalue list \<Rightarrow> args res" where
  "key_args env entityType m keyValues =
     res_map (\<lambda>(i, key, v). bindR (ToParameter env v [] (entityType @ '' key['' @ show_nat i @ '']'')) (\<lambda>converted.
         Inr (ColumnName key, converted)))
       (zip [0..<length keyValues] (zip (KeyProperties m) keyValues))"

definition prepareDeleteByKey :: "'d env \<Rightarrow> gotype \<Rightarrow> gvalue list \<Rightarrow> ('d world, 'd preparedWrite) prog" where
  "prepareDeleteByKey env entityType key =
     bindP (getP w_db) (\<lambda>db.
     bindP (liftR (requireWritableKeyedType db entityType)) (\<lambda>m.
       if SoftDeleteProperty m \<noteq> None \<and> VersionProperty m \<noteq> None then failP (OrmError ''CRUD-012'' entityType)
       else
         bindP (liftR (validateKey m key)) (\<lambda>keyValues.
           if SoftDeleteProperty m \<noteq> None
           then bindP (prepareSoftDeleteByKey env entityType m keyValues) (\<lambda>write.
                  retP (finish_then (forgetKeyJournaled m keyValues) write))
           else
             bindP (liftR (key_args env entityType m keyValues)) (\<lambda>args.
               retP \<lparr>pw_sql = DeleteSQL env m False, pw_args = args, pw_kind = countKind env, pw_instance = None,
                     pw_generatesKey = False, pw_command = False, pw_noRow = [],
                     pw_finish = Some (\<lambda>result.
                       if wr_affected result = 0 then failP (OrmError ''CRUD-001'' entityType)
                       else forgetKeyJournaled m keyValues),
                     pw_undoPrepare = id, pw_affected = 0, pw_id = 0\<rparr>))))"

definition prepareDeleteEntity :: "'d env \<Rightarrow> gotype \<Rightarrow> ptr \<Rightarrow> ('d world, 'd preparedWrite) prog" where
  "prepareDeleteEntity env entityType entity =
     bindP (getP id) (\<lambda>w.
     bindP (liftR (requireWritableKeyedType (w_db w) entityType)) (\<lambda>m.
     bindP (liftR (writeIdentity (w_mem w) (w_db w) m entity)) (\<lambda>entry.
       if SoftDeleteProperty m \<noteq> None
       then bindP (prepareSoftDeleteEntity env entityType m entity) (\<lambda>write.
              retP (finish_then (forgetEntryJournaled entry) write))
       else
         let checkVersion = (VersionProperty m \<noteq> None) in
         bindP (countedWrite env entityType entity (deleteEntityText env m checkVersion)) (\<lambda>write.
           retP (write\<lparr>pw_finish := Some (\<lambda>result.
             if wr_affected result = 0
             then failP (if checkVersion then ConcurrencyError entityType else OrmError ''CRUD-001'' entityType)
             else forgetEntryJournaled entry)\<rparr>)))))"

section \<open>Running a statement\<close>

text \<open>
  A runner: \<open>None\<close> runs each statement directly, \<open>Some texts\<close> prepares each distinct statement text once
  and reuses it. It is threaded beside the world.
\<close>

type_synonym runner = "string list option"

definition on_world :: "('w, 'a) prog \<Rightarrow> ('w \<times> 'c, 'a) prog" where
  "on_world m = (\<lambda>(w, c). case m w of (r, w') \<Rightarrow> (r, w', c))"

definition runner_statement :: "'d env \<Rightarrow> string \<Rightarrow> ('d world \<times> runner, unit) prog" where
  "runner_statement env sql = (\<lambda>(w, runner).
     case runner of
       None \<Rightarrow> (Inr (), w, runner)
     | Some texts \<Rightarrow>
         if sql \<in> set texts then (Inr (), w, runner)
         else case outside (PrepareContext env sql) w of
                (Inl e, w') \<Rightarrow> (Inl e, w', runner)
              | (Inr _, w') \<Rightarrow> (Inr (), w', Some (sql # texts)))"

definition runner_exec :: "'d env \<Rightarrow> string \<Rightarrow> args \<Rightarrow> ('d world \<times> runner, int res) prog" where
  "runner_exec env sql args =
     bindP (runner_statement env sql) (\<lambda>_. on_world (outside (ExecContext env sql args)))"

definition runner_query :: "'d env \<Rightarrow> string \<Rightarrow> args \<Rightarrow> ('d world \<times> runner, resultRows) prog" where
  "runner_query env sql args =
     bindP (runner_statement env sql) (\<lambda>_. on_world (outside (QueryContext env sql args)))"

text \<open>\<open>readScalar\<close>: \<open>None\<close> is the sentinel \<open>errNoRow\<close>.\<close>

definition readScalar :: "'d env \<Rightarrow> 'd preparedWrite \<Rightarrow> ('d world \<times> runner, gvalue option) prog" where
  "readScalar env write =
     bindP (runner_query env (pw_sql write) (pw_args write)) (\<lambda>rows.
       case rr_first rows of
         None \<Rightarrow> (case rr_err rows of Some e \<Rightarrow> failP e | None \<Rightarrow> retP None)
       | Some v \<Rightarrow> (case rr_scan rows of
             Some e \<Rightarrow> failP e
           | None \<Rightarrow> (case rr_err rows of Some e \<Rightarrow> failP e | None \<Rightarrow> retP (Some v))))"

text \<open>\<open>strconv.ParseInt(text, 10, 64)\<close>: an optional sign, then digits, in the range of an \<open>int64\<close>.\<close>

definition is_digit :: "char \<Rightarrow> bool" where
  "is_digit c \<longleftrightarrow> 48 \<le> (of_char c :: nat) \<and> (of_char c :: nat) \<le> 57"

definition count_error :: go_error where
  "count_error = PlainError ''the statement's reported affected-row count is not an integer''"

definition parseCount :: "string \<Rightarrow> int res" where
  "parseCount text =
     (let (neg, digits) = (case text of
            c # cs \<Rightarrow> if c = CHR ''-'' then (True, cs) else if c = CHR ''+'' then (False, cs) else (False, text)
          | [] \<Rightarrow> (False, []));
          v = (if neg then - int (digits_value digits) else int (digits_value digits))
      in if digits = [] \<or> \<not> list_all is_digit digits \<or> v < - (2 ^ 63) \<or> v \<ge> 2 ^ 63 then Inl count_error else Inr v)"

fun scalarCount :: "gvalue \<Rightarrow> int res" where
  "scalarCount (VBytes b) = parseCount b"
| "scalarCount (VString s) = parseCount s"
| "scalarCount VNil = Inl (PlainError ''the statement's reported affected-row count is NULL'')"
| "scalarCount v = (case toInt64 v of Inl e \<Rightarrow> Inl count_error | Inr n \<Rightarrow> Inr n)"

definition runWrite :: "'d env \<Rightarrow> 'd preparedWrite \<Rightarrow> ('d world \<times> runner, writeResult) prog" where
  "runWrite env write =
     (case pw_kind write of
        ResultNone \<Rightarrow>
          bindP (runner_exec env (pw_sql write) (pw_args write)) (\<lambda>_. retP \<lparr>wr_key = VNil, wr_affected = 0\<rparr>)
      | ResultKey \<Rightarrow>
          bindP (readScalar env write) (\<lambda>v.
            case v of None \<Rightarrow> failP (PlainError (pw_noRow write)) | Some key \<Rightarrow> retP \<lparr>wr_key = key, wr_affected = 0\<rparr>)
      | ResultReportedCount \<Rightarrow>
          bindP (readScalar env write) (\<lambda>v.
            case v of
              None \<Rightarrow> failP (PlainError ''sql: no rows in result set'')
            | Some value \<Rightarrow> bindP (liftR (scalarCount value)) (\<lambda>count. retP \<lparr>wr_key = VNil, wr_affected = count\<rparr>))
      | ResultDriverCount \<Rightarrow>
          bindP (runner_exec env (pw_sql write) (pw_args write)) (\<lambda>result.
          bindP (liftR result) (\<lambda>affected. retP \<lparr>wr_key = VNil, wr_affected = affected\<rparr>)))"

definition run_direct :: "('d world \<times> runner, 'a) prog \<Rightarrow> ('d world, 'a) prog" where
  "run_direct m w = (case m (w, None) of (r, w', _) \<Rightarrow> (r, w'))"

definition finishP :: "'d preparedWrite \<Rightarrow> writeResult \<Rightarrow> ('d world, unit) prog" where
  "finishP write result = (case pw_finish write of None \<Rightarrow> retP () | Some finish \<Rightarrow> finish result)"

definition runImmediate :: "'d env \<Rightarrow> 'd preparedWrite option \<Rightarrow> ('d world, unit) prog" where
  "runImmediate env w =
     (case w of
        None \<Rightarrow> retP ()
      | Some write \<Rightarrow>
          on_error (bindP (run_direct (runWrite env write)) (finishP write)) (on_mem (pw_undoPrepare write)))"

section \<open>The immediate operations\<close>

definition Insert :: "'d env \<Rightarrow> gotype \<Rightarrow> ptr \<Rightarrow> ('d world, unit) prog" where
  "Insert env entityType entity = bindP (prepareInsert env entityType entity) (\<lambda>write. runImmediate env (Some write))"

definition Update :: "'d env \<Rightarrow> gotype \<Rightarrow> ptr \<Rightarrow> ('d world, unit) prog" where
  "Update env entityType entity = bindP (prepareUpdate env entityType entity) (runImmediate env)"

definition UpdateOnly :: "'d env \<Rightarrow> gotype \<Rightarrow> ptr \<Rightarrow> string list \<Rightarrow> ('d world, unit) prog" where
  "UpdateOnly env entityType entity properties =
     bindP (prepareUpdateOnly env entityType entity properties) (\<lambda>write. runImmediate env (Some write))"

definition Delete :: "'d env \<Rightarrow> gotype \<Rightarrow> gvalue list \<Rightarrow> ('d world, unit) prog" where
  "Delete env entityType key = bindP (prepareDeleteByKey env entityType key) (\<lambda>write. runImmediate env (Some write))"

definition DeleteEntity :: "'d env \<Rightarrow> gotype \<Rightarrow> ptr \<Rightarrow> ('d world, unit) prog" where
  "DeleteEntity env entityType entity =
     bindP (prepareDeleteEntity env entityType entity) (\<lambda>write. runImmediate env (Some write))"

section \<open>Transactions\<close>

definition Begin :: "'d env \<Rightarrow> ('d world, unit) prog" where
  "Begin env =
     bindP (getP w_tx) (\<lambda>active.
       if active then failP (OrmError ''TX-001'' ''session'')
       else bindP (check_ctx env) (\<lambda>_.
            bindP (outside (BeginTx env)) (\<lambda>_. modifyP (\<lambda>w. w\<lparr>w_tx := True\<rparr>))))"

text \<open>\<open>Tx.Commit\<close> and \<open>Tx.Rollback\<close> of a scope that is not done: the session has no transaction afterwards, whatever the driver answers.\<close>

definition Commit :: "'d env \<Rightarrow> ('d world, unit) prog" where
  "Commit env w = (case outside (CommitTx env) w of (r, w') \<Rightarrow> (r, w'\<lparr>w_tx := False\<rparr>))"

definition Rollback :: "'d env \<Rightarrow> ('d world, unit) prog" where
  "Rollback env w = (case outside (RollbackTx env) w of (r, w') \<Rightarrow> (r, w'\<lparr>w_tx := False\<rparr>))"

end
