(* ===== verification/Batch_Plan.thy ===== *)
theory Batch_Plan
  imports Write_Path
begin

text \<open>
  The batching plan (\<open>batching.go\<close>) and the explicit batch (\<open>batch.go\<close>): the statements of one call are
  formed into messages by three rules, and a message is sent in one round trip or statement by
  statement. The state of a call in progress is the world and the \<open>batchCall\<close> record beside it.

  The properties: every message respects the rules (\<open>message_ok\<close>), and the sets \<open>instances\<close> and
  \<open>generated\<close> and the counters the rules read are those of the statements in the message.
\<close>

section \<open>The data\<close>

record 'd message =
  ms_writes :: "'d preparedWrite list"
  ms_instances :: "ptr list"
  ms_keys :: "(gotype \<times> KeyTuple) list"
  ms_generated :: "ptr list"
  ms_hasCommand :: bool
  ms_parameters :: nat

definition newMessage :: "'d message" where
  "newMessage = \<lparr>ms_writes = [], ms_instances = [], ms_keys = [], ms_generated = [], ms_hasCommand = False, ms_parameters = 0\<rparr>"

text \<open>
  \<open>bc_affected\<close> holds the count read back through a write's pointer; \<open>bc_sent\<close> keeps the messages sent, of which the
  message observer is given the number of statements.
\<close>

record 'd batchCall =
  bc_current :: "'d message"
  bc_messages :: nat
  bc_runner :: runner
  bc_affected :: "nat \<rightharpoonup> int"
  bc_sent :: "'d message list"

type_synonym 'd calls = "'d world \<times> 'd batchCall"

text \<open>\<open>newCall\<close>, with \<open>statementRunner\<close>'s choice: prepared commands under Auto, direct under Off.\<close>

definition newCall :: "'d env \<Rightarrow> 'd batchCall" where
  "newCall env = \<lparr>bc_current = newMessage, bc_messages = 0, bc_runner = (if BatchingAuto env then Some [] else None),
     bc_affected = Map.empty, bc_sent = []\<rparr>"

record subject =
  su_m :: "EntityMap option"
  su_instance :: "ptr option"
  su_depends :: "ptr list"
  su_key :: "KeyTuple option"

definition setKey :: "EntityMap \<Rightarrow> gvalue list \<Rightarrow> KeyTuple option" where
  "setKey m values =
     (if values = [] then None
      else if \<exists>v \<in> set values. unsetKeyPart m v then None
      else Some values)"

definition keyNow :: "memory \<Rightarrow> subject \<Rightarrow> KeyTuple option" where
  "keyNow mem s =
     (case su_m s of
        None \<Rightarrow> None
      | Some m \<Rightarrow>
          (case su_instance s of
             None \<Rightarrow> su_key s
           | Some p \<Rightarrow> (case KeyValues mem m p of Inl _ \<Rightarrow> None | Inr values \<Rightarrow> setKey m values)))"

section \<open>Sending\<close>

definition on_call :: "('d batchCall \<Rightarrow> 'd batchCall) \<Rightarrow> ('d calls, unit) prog" where
  "on_call f = modifyP (\<lambda>(w, c). (w, f c))"

definition with_runner :: "('d world \<times> runner, 'a) prog \<Rightarrow> ('d calls, 'a) prog" where
  "with_runner m = (\<lambda>(w, c). case m (w, bc_runner c) of (r, w', runner) \<Rightarrow> (r, w', c\<lparr>bc_runner := runner\<rparr>))"

definition complete :: "'d preparedWrite \<Rightarrow> writeResult \<Rightarrow> ('d calls, unit) prog" where
  "complete write result =
     bindP (on_world (finishP write result)) (\<lambda>_.
       if pw_kind write = ResultReportedCount \<or> pw_kind write = ResultDriverCount
       then on_call (\<lambda>c. c\<lparr>bc_affected := (bc_affected c)(pw_id write \<mapsto> wr_affected result)\<rparr>)
       else retP ())"

text \<open>The results of a message sent in one round trip; fewer results than statements would be an index out of range.\<close>

fun complete_all :: "'d preparedWrite list \<Rightarrow> writeResult list \<Rightarrow> ('d calls, unit) prog" where
  "complete_all [] results = retP ()"
| "complete_all (write # writes) [] = failP GoPanic"
| "complete_all (write # writes) (result # results) = bindP (complete write result) (\<lambda>_. complete_all writes results)"

definition message_statement :: "'d preparedWrite \<Rightarrow> MessageStatement" where
  "message_statement write = \<lparr>mst_sql = pw_sql write, mst_args = pw_args write, mst_result = pw_kind write\<rparr>"

definition send :: "'d env \<Rightarrow> ('d calls, unit) prog" where
  "send env =
     bindP (getP (\<lambda>(w, c). bc_current c)) (\<lambda>current.
     bindP (on_call (\<lambda>c. c\<lparr>bc_current := newMessage\<rparr>)) (\<lambda>_.
       let writes = ms_writes current in
       if writes = [] then retP ()
       else
         bindP (on_call (\<lambda>c. c\<lparr>bc_messages := bc_messages c + 1, bc_sent := bc_sent c @ [current]\<rparr>)) (\<lambda>_.
         bindP (on_world (check_ctx env)) (\<lambda>_.
           case SendMessage env of
             Some batcher \<Rightarrow>
               bindP (on_world (outside (batcher (map message_statement writes)))) (complete_all writes)
           | None \<Rightarrow>
               eachP (\<lambda>write. bindP (with_runner (runWrite env write)) (complete write)) writes))))"

section \<open>The rules\<close>

text \<open>Rule 1a's key clause: a held key of the type that compares as equal.\<close>

fun holds_key :: "gotype \<Rightarrow> KeyTuple \<Rightarrow> (gotype \<times> KeyTuple) list \<Rightarrow> bool res" where
  "holds_key t key [] = Inr False"
| "holds_key t key ((t', held) # keys) =
     (if t' = t
      then bindR (KeyTuple_Compare held key) (\<lambda>c. if c = 0 then Inr True else holds_key t key keys)
      else holds_key t key keys)"

definition before_cut :: "memory \<Rightarrow> 'd message \<Rightarrow> subject \<Rightarrow> bool res" where
  "before_cut mem cur s =
     (if (case su_instance s of Some p \<Rightarrow> p \<in> set (ms_instances cur) | None \<Rightarrow> False) \<or> (\<exists>p \<in> set (su_depends s). p \<in> set (ms_generated cur))
      then Inr True
      else case (keyNow mem s, su_m s) of
             (Some key, Some m) \<Rightarrow> holds_key (Type m) key (ms_keys cur)
           | _ \<Rightarrow> Inr False)"

definition before :: "'d env \<Rightarrow> subject \<Rightarrow> ('d calls, unit) prog" where
  "before env s =
     bindP (getP id) (\<lambda>(w, c).
       if ms_writes (bc_current c) = [] then retP ()
       else bindP (liftR (before_cut (w_mem w) (bc_current c) s)) (\<lambda>cut.
              if cut then send env else retP ()))"

definition add_cut :: "'d env \<Rightarrow> 'd message \<Rightarrow> 'd preparedWrite \<Rightarrow> bool" where
  "add_cut env cur write \<longleftrightarrow>
     ms_writes cur \<noteq> [] \<and>
     (MaxParametersPerMessage env > 0 \<and> ms_parameters cur + length (pw_args write) > MaxParametersPerMessage env \<or>
      readsResult write \<and> ms_hasCommand cur)"

definition add_write :: "memory \<Rightarrow> 'd preparedWrite \<Rightarrow> subject \<Rightarrow> 'd message \<Rightarrow> 'd message" where
  "add_write mem write s cur =
     cur\<lparr>ms_writes := ms_writes cur @ [write],
         ms_parameters := ms_parameters cur + length (pw_args write),
         ms_instances := (case pw_instance write of Some p \<Rightarrow> p # ms_instances cur | None \<Rightarrow> ms_instances cur),
         ms_generated := (case pw_instance write of
             Some p \<Rightarrow> if pw_generatesKey write then p # ms_generated cur else ms_generated cur
           | None \<Rightarrow> ms_generated cur),
         ms_hasCommand := ms_hasCommand cur \<or> pw_command write,
         ms_keys := (case (keyNow mem s, su_m s) of
             (Some key, Some m) \<Rightarrow> ms_keys cur @ [(Type m, key)]
           | _ \<Rightarrow> ms_keys cur)\<rparr>"

definition add :: "'d env \<Rightarrow> 'd preparedWrite \<Rightarrow> subject \<Rightarrow> ('d calls, unit) prog" where
  "add env write s =
     bindP (getP (\<lambda>(w, c). add_cut env (bc_current c) write)) (\<lambda>cut.
     bindP (if cut then send env else retP ()) (\<lambda>_.
     bindP (modifyP (\<lambda>(w, c). (w, c\<lparr>bc_current := add_write (w_mem w) write s (bc_current c)\<rparr>))) (\<lambda>_.
     bindP (getP (\<lambda>(w, c). length (ms_writes (bc_current c)))) (\<lambda>n.
       if \<not> BatchingAuto env \<or> n \<ge> maxStatements env then send env else retP ()))))"

definition finish :: "'d env \<Rightarrow> ('d calls, unit) prog" where
  "finish env = send env"

section \<open>One call in one transaction\<close>

text \<open>
  The frame \<open>Flush\<close> and \<open>Batch.Send\<close> share: the session's transaction when one is active, else one that is
  begun here, committed after the body and rolled back on failure; a failure rolls the journal
  back. A panic unwinds through the deferred rollback of the transaction only.
\<close>

definition in_transaction :: "'d env \<Rightarrow> ('d world, 'a) prog \<Rightarrow> ('d world, 'a) prog" where
  "in_transaction env body =
     bindP (getP w_tx) (\<lambda>active.
     bindP (if active then retP () else Begin env) (\<lambda>_ w.
       let (r, w1) = body (w\<lparr>w_journal := Some []\<rparr>);
           (r', w2, finished) = (case r of
               Inl e \<Rightarrow> (Inl e, w1, active)
             | Inr x \<Rightarrow> if active then (Inr x, w1, True)
                 else case Commit env w1 of
                        (Inl e, w2) \<Rightarrow> (Inl e, w2, True)
                      | (Inr _, w2) \<Rightarrow> (Inr x, w2, True))
       in case r' of
            Inr x \<Rightarrow> (Inr x, w2\<lparr>w_journal := None\<rparr>)
          | Inl e \<Rightarrow>
              let (r3, w3) = (if e = GoPanic then (Inr (), w2) else rollback w2);
                  w4 = (if finished then w3 else snd (Rollback env w3))
              in (case r3 of Inl e' \<Rightarrow> Inl e' | Inr _ \<Rightarrow> Inl e, w4\<lparr>w_journal := None\<rparr>)))"

text \<open>A call runs beside the world and is gone with it.\<close>

definition run_call :: "'d env \<Rightarrow> ('d calls, 'a) prog \<Rightarrow> ('d world, 'a \<times> 'd batchCall) prog" where
  "run_call env body w = (case body (w, newCall env) of (Inl e, w', c) \<Rightarrow> (Inl e, w') | (Inr x, w', c) \<Rightarrow> (Inr (x, c), w'))"

section \<open>The explicit batch\<close>

record 'd batchOperation =
  bo_entityType :: "gotype option"
  bo_instance :: "ptr option"
  bo_key :: "gvalue list option"
  bo_prepare :: "('d world, 'd preparedWrite option) prog"

record 'd Batch =
  ba_ops :: "'d batchOperation list"
  ba_spent :: bool

record BatchResult =
  Affected :: "int list"
  Messages :: nat

definition newBatch :: "'d Batch" where
  "newBatch = \<lparr>ba_ops = [], ba_spent = False\<rparr>"

definition Discard :: "'d Batch \<Rightarrow> 'd Batch" where
  "Discard b = \<lparr>ba_ops = [], ba_spent = True\<rparr>"

definition spentError :: go_error where
  "spentError = OrmError ''TX-003'' ''batch''"

definition queue :: "'d batchOperation \<Rightarrow> ('d Batch, unit) prog" where
  "queue operation b = (if ba_spent b then (Inl spentError, b) else (Inr (), b\<lparr>ba_ops := ba_ops b @ [operation]\<rparr>))"

definition entity_operation ::
  "gotype \<Rightarrow> ptr \<Rightarrow> ('d world, 'd preparedWrite option) prog \<Rightarrow> 'd batchOperation" where
  "entity_operation entityType entity prepare =
     \<lparr>bo_entityType = Some entityType, bo_instance = Some entity, bo_key = None, bo_prepare = prepare\<rparr>"

definition BatchInsert :: "'d env \<Rightarrow> gotype \<Rightarrow> ptr option \<Rightarrow> ('d Batch, unit) prog" where
  "BatchInsert env entityType entity =
     (case entity of
        None \<Rightarrow> failP (PlainError ''orm.BatchInsert: entity is nil'')
      | Some p \<Rightarrow> queue (entity_operation entityType p (bindP (prepareInsert env entityType p) (\<lambda>write. retP (Some write)))))"

definition BatchUpdate :: "'d env \<Rightarrow> gotype \<Rightarrow> ptr option \<Rightarrow> ('d Batch, unit) prog" where
  "BatchUpdate env entityType entity =
     (case entity of
        None \<Rightarrow> failP (PlainError ''orm.BatchUpdate: entity is nil'')
      | Some p \<Rightarrow> queue (entity_operation entityType p (prepareUpdate env entityType p)))"

definition BatchUpdateOnly :: "'d env \<Rightarrow> gotype \<Rightarrow> ptr option \<Rightarrow> string list \<Rightarrow> ('d Batch, unit) prog" where
  "BatchUpdateOnly env entityType entity properties =
     (case entity of
        None \<Rightarrow> failP (PlainError ''orm.BatchUpdateOnly: entity is nil'')
      | Some p \<Rightarrow> queue (entity_operation entityType p
          (bindP (prepareUpdateOnly env entityType p properties) (\<lambda>write. retP (Some write)))))"

definition BatchDelete :: "'d env \<Rightarrow> gotype \<Rightarrow> gvalue list \<Rightarrow> ('d Batch, unit) prog" where
  "BatchDelete env entityType key =
     queue \<lparr>bo_entityType = Some entityType, bo_instance = None, bo_key = Some key,
            bo_prepare = bindP (prepareDeleteByKey env entityType key) (\<lambda>write. retP (Some write))\<rparr>"

definition BatchDeleteEntity :: "'d env \<Rightarrow> gotype \<Rightarrow> ptr option \<Rightarrow> ('d Batch, unit) prog" where
  "BatchDeleteEntity env entityType entity =
     (case entity of
        None \<Rightarrow> failP (PlainError ''orm.BatchDeleteEntity: entity is nil'')
      | Some p \<Rightarrow> queue (entity_operation entityType p
          (bindP (prepareDeleteEntity env entityType p) (\<lambda>write. retP (Some write)))))"

text \<open>A registry command: its text and bound arguments, or the error resolving or binding them gives.\<close>

definition BatchExecute :: "(string \<times> args) res \<Rightarrow> ('d Batch, unit) prog" where
  "BatchExecute command =
     queue \<lparr>bo_entityType = None, bo_instance = None, bo_key = None,
            bo_prepare = bindP (liftR command) (\<lambda>(sql, args). retP (Some
              \<lparr>pw_sql = sql, pw_args = args, pw_kind = ResultDriverCount, pw_instance = None, pw_generatesKey = False,
               pw_command = True, pw_noRow = [], pw_finish = None, pw_undoPrepare = id, pw_affected = 0, pw_id = 0\<rparr>))\<rparr>"

text \<open>\<open>m2oTargets\<close> (\<open>db_write.go\<close>).\<close>

definition m2oTargets :: "memory \<Rightarrow> EntityMap \<Rightarrow> ptr \<Rightarrow> ptr list" where
  "m2oTargets mem m p =
     concat (map (\<lambda>r. fst (navigationTargets mem p r)) (filter (\<lambda>r. RelKind r = RelationshipManyToOne) (Relationships m)))"

definition operation_subject :: "memory \<Rightarrow> Db \<Rightarrow> 'd batchOperation \<Rightarrow> subject res" where
  "operation_subject mem db operation =
     (case bo_entityType operation of
        None \<Rightarrow> Inr \<lparr>su_m = None, su_instance = bo_instance operation, su_depends = [], su_key = None\<rparr>
      | Some t \<Rightarrow>
          bindR (db_maps db t) (\<lambda>m. Inr
            (case (bo_instance operation, bo_key operation) of
               (Some p, _) \<Rightarrow> \<lparr>su_m = Some m, su_instance = Some p, su_depends = m2oTargets mem m p, su_key = None\<rparr>
             | (None, Some key) \<Rightarrow> \<lparr>su_m = Some m, su_instance = None, su_depends = [],
                 su_key = (case validateKey m key of Inl _ \<Rightarrow> None | Inr values \<Rightarrow> setKey m values)\<rparr>
             | (None, None) \<Rightarrow> \<lparr>su_m = Some m, su_instance = None, su_depends = [], su_key = None\<rparr>)))"

text \<open>One queued operation; the answer is its write, if it issued a statement.\<close>

definition run_operation :: "'d env \<Rightarrow> nat \<Rightarrow> 'd batchOperation \<Rightarrow> ('d calls, 'd preparedWrite option) prog" where
  "run_operation env i operation =
     bindP (getP fst) (\<lambda>w.
     bindP (liftR (operation_subject (w_mem w) (w_db w) operation)) (\<lambda>s.
     bindP (before env s) (\<lambda>_.
     bindP (case (bo_instance operation, su_m s) of
              (Some p, Some m) \<Rightarrow> on_world (recordWrite m p)
            | (Some p, None) \<Rightarrow> failP GoPanic
            | (None, _) \<Rightarrow> retP ()) (\<lambda>_.
     bindP (on_world (bo_prepare operation)) (\<lambda>prepared.
       case prepared of
         None \<Rightarrow> retP None
       | Some write \<Rightarrow>
           bindP (add env (write\<lparr>pw_id := i\<rparr>) s) (\<lambda>_. retP (Some (write\<lparr>pw_id := i\<rparr>))))))))"

fun run_operations :: "'d env \<Rightarrow> nat \<Rightarrow> 'd batchOperation list \<Rightarrow> ('d calls, 'd preparedWrite option list) prog" where
  "run_operations env i [] = bindP (finish env) (\<lambda>_. retP [])"
| "run_operations env i (operation # operations) =
     bindP (run_operation env i operation) (\<lambda>write.
     bindP (run_operations env (Suc i) operations) (\<lambda>writes. retP (write # writes)))"

definition affected_of :: "'d batchCall \<Rightarrow> 'd preparedWrite option \<Rightarrow> int" where
  "affected_of c write =
     (case write of
        None \<Rightarrow> 0
      | Some w \<Rightarrow> (case bc_affected c (pw_id w) of Some n \<Rightarrow> n | None \<Rightarrow> pw_affected w))"

definition Send :: "'d env \<Rightarrow> ('d world \<times> 'd Batch, BatchResult) prog" where
  "Send env = (\<lambda>(w, b).
     if ba_spent b then (Inl spentError, w, b)
     else
       let b' = \<lparr>ba_ops = [], ba_spent = True\<rparr> in
       if ba_ops b = [] then (Inr \<lparr>Affected = [], Messages = 0\<rparr>, w, b')
       else
         case bindP (check_ctx env) (\<lambda>_. in_transaction env (run_call env (run_operations env 0 (ba_ops b)))) w of
           (Inl e, w') \<Rightarrow> (Inl e, w', b')
         | (Inr (writes, c), w') \<Rightarrow> (Inr \<lparr>Affected = map (affected_of c) writes, Messages = bc_messages c\<rparr>, w', b'))"

end
