(* ===== verification/Undo.thy ===== *)
theory Undo
  imports Batch_Plan
begin

text \<open>
  The undo journal (\<open>db_write.go\<close>: \<open>undoJournal\<close>) puts the session back. The journal's closures are named
  by \<open>undo_item\<close>s, newest first. What makes rolling back work although statements of one message are
  recorded first and completed later is an invariant closed under everything a recorded statement
  may still do: \<open>journal_inv\<close> says that rolling back restores the starting state not only from the
  present state but from every state that \<open>agree\<close>s with it, that is, differs from it only in what the
  journal's items say about each instance (\<open>claim\<close>), in the snapshots of recorded entries, in the
  captured fields, and in a fixed set \<open>X\<close> of fields the undo is not responsible for.
\<close>

section \<open>The journal's items\<close>

datatype undo_item =
    RW ptr "(PropertyMap \<times> gvalue) list" "trackedEntry option" "gvalue list" "trackedEntry option"
  | RS trackedEntry

fun undo_of :: "undo_item \<Rightarrow> undo" where
  "undo_of (RW p values entry snapshot holder) = undo_write p values entry snapshot holder"
| "undo_of (RS e) = undo_restore e"

fun mentions :: "undo_item \<Rightarrow> trackedEntry set" where
  "mentions (RW p values entry snapshot holder) = set_option entry \<union> set_option holder"
| "mentions (RS e) = {e}"

fun recorded_entry :: "undo_item \<Rightarrow> trackedEntry set" where
  "recorded_entry (RW p values entry snapshot holder) = set_option entry"
| "recorded_entry (RS e) = {}"

fun captures :: "undo_item \<Rightarrow> (ptr \<times> string) set" where
  "captures (RW p values entry snapshot holder) = (\<lambda>(property, v). (p, PropertyName property)) ` set values"
| "captures (RS e) = {}"

fun item_typed :: "undo_item \<Rightarrow> bool" where
  "item_typed (RW p values entry snapshot holder) = (\<forall>(property, v) \<in> set values. field_typed property v)"
| "item_typed (RS e) = True"

definition mentioned :: "undo_item list \<Rightarrow> trackedEntry set" where
  "mentioned items = (\<Union>i \<in> set items. mentions i)"

definition recorded :: "undo_item list \<Rightarrow> trackedEntry set" where
  "recorded items = (\<Union>i \<in> set items. recorded_entry i)"

definition cap :: "undo_item list \<Rightarrow> (ptr \<times> string) set" where
  "cap items = (\<Union>i \<in> set items. captures i)"

lemma items_simps [simp]:
  "mentioned [] = {}" "mentioned (i # items) = mentions i \<union> mentioned items"
  "recorded [] = {}" "recorded (i # items) = recorded_entry i \<union> recorded items"
  "cap [] = {}" "cap (i # items) = captures i \<union> cap items"
  by (simp_all add: mentioned_def recorded_def cap_def)

text \<open>What the journal says of an instance: nothing, that its entry is this one or gone, or that it was not tracked when recorded.\<close>

datatype claim_of = Free | Fixed trackedEntry | Any

fun claim :: "undo_item list \<Rightarrow> ptr \<Rightarrow> claim_of" where
  "claim [] p = Free"
| "claim (RS h # items) p = (if te_ptr h = p then Fixed h else claim items p)"
| "claim (RW q values entry snapshot holder # items) p =
     (if q = p then (case entry of None \<Rightarrow> Any | Some e \<Rightarrow> Fixed e)
      else case holder of
             None \<Rightarrow> claim items p
           | Some h \<Rightarrow> if te_ptr h = p then Fixed h else claim items p)"

lemma claim_Fixed: "claim items p = Fixed e \<Longrightarrow> e \<in> mentioned items"
  by (induction items p rule: claim.induct) (auto split: if_splits option.splits)

section \<open>States\<close>

type_synonym view = "memory \<times> tracker"

definition tracker_ok :: "(gotype \<Rightarrow> go_kind list) \<Rightarrow> undo_item list \<Rightarrow> tracker \<Rightarrow> bool" where
  "tracker_ok kinds items tr \<longleftrightarrow> tracker_inv kinds tr \<and>
     (\<forall>e \<in> mentioned items. key_typed (kinds (Type (te_m e))) (te_key e) \<and> te_seq e \<le> tr_nextSeq tr) \<and>
     inj_on te_seq (tracked tr \<union> mentioned items)"

definition entry_agrees :: "claim_of \<Rightarrow> trackedEntry option \<Rightarrow> trackedEntry option \<Rightarrow> bool" where
  "entry_agrees c here there =
     (case c of Free \<Rightarrow> there = here | Fixed e \<Rightarrow> there = None \<or> there = Some e | Any \<Rightarrow> True)"

definition entries_agree :: "undo_item list \<Rightarrow> tracker \<Rightarrow> tracker \<Rightarrow> bool" where
  "entries_agree items tr tr' \<longleftrightarrow> (\<forall>p. entry_agrees (claim items p) (byPtr tr p) (byPtr tr' p))"

text \<open>The entries whose snapshots the journal knows, or must leave alone.\<close>

definition watched :: "undo_item list \<Rightarrow> tracker \<Rightarrow> trackedEntry set" where
  "watched items tr = mentioned items \<union> {e \<in> tracked tr. claim items (te_ptr e) = Free}"

definition snapshot_agrees :: "undo_item list \<Rightarrow> tracker \<Rightarrow> tracker \<Rightarrow> trackedEntry \<Rightarrow> bool" where
  "snapshot_agrees items tr tr' e =
     (if e \<in> recorded items then length (tr_snapshots tr' (te_seq e)) = length (tr_snapshots tr (te_seq e))
      else tr_snapshots tr' (te_seq e) = tr_snapshots tr (te_seq e))"

definition fields_agree :: "(ptr \<times> string) set \<Rightarrow> memory \<Rightarrow> memory \<Rightarrow> bool" where
  "fields_agree X mem mem' \<longleftrightarrow> (\<forall>p f. (p, f) \<notin> X \<longrightarrow> fvals mem' p f = fvals mem p f) \<and> navs mem' = navs mem \<and> hsize mem' = hsize mem"

definition agree :: "(ptr \<times> string) set \<Rightarrow> undo_item list \<Rightarrow> view \<Rightarrow> view \<Rightarrow> bool" where
  "agree X items s t \<longleftrightarrow> entries_agree items (snd s) (snd t) \<and>
     (\<forall>e \<in> watched items (snd s). snapshot_agrees items (snd s) (snd t) e) \<and>
     fields_agree (cap items \<union> X) (fst s) (fst t)"

text \<open>The state is within its own claims; nothing the journal does not know holds a key the journal would restore.\<close>

definition claims_hold :: "undo_item list \<Rightarrow> tracker \<Rightarrow> bool" where
  "claims_hold items tr \<longleftrightarrow> (\<forall>p e. claim items p = Fixed e \<longrightarrow> byPtr tr p = None \<or> byPtr tr p = Some e)"

definition conflicts :: "trackedEntry \<Rightarrow> trackedEntry \<Rightarrow> bool" where
  "conflicts h f \<longleftrightarrow> Type (te_m f) = Type (te_m h) \<and> same_key (te_key h) f \<and> f \<noteq> h"

definition conflicts_known :: "undo_item list \<Rightarrow> tracker \<Rightarrow> bool" where
  "conflicts_known items tr \<longleftrightarrow>
     (\<forall>h \<in> mentioned items. \<forall>f \<in> tracked tr. conflicts h f \<longrightarrow> claim items (te_ptr f) \<noteq> Free)"

text \<open>The state the undo must give back, up to the fields in \<open>X\<close>.\<close>

definition restored :: "(gotype \<Rightarrow> go_kind list) \<Rightarrow> (ptr \<times> string) set \<Rightarrow> view \<Rightarrow> view \<Rightarrow> bool" where
  "restored kinds X s t \<longleftrightarrow> tracker_inv kinds (snd t) \<and> tracked (snd t) = tracked (snd s) \<and>
     (\<forall>e \<in> tracked (snd s). tr_snapshots (snd t) (te_seq e) = tr_snapshots (snd s) (te_seq e)) \<and>
     fields_agree X (fst s) (fst t)"

definition rolls_back :: "(gotype \<Rightarrow> go_kind list) \<Rightarrow> (ptr \<times> string) set \<Rightarrow> view \<Rightarrow> undo_item list \<Rightarrow> view \<Rightarrow> bool" where
  "rolls_back kinds X s0 items t \<longleftrightarrow>
     (\<forall>db. db_tracker db = Some (snd t) \<longrightarrow>
        (\<exists>mem' tr'. res_fold (\<lambda>undo s. undo s) (map undo_of items) (fst t, db) = Inr (mem', db\<lparr>db_tracker := Some tr'\<rparr>) \<and>
           restored kinds X s0 (mem', tr')))"

definition journal_inv :: "(gotype \<Rightarrow> go_kind list) \<Rightarrow> (ptr \<times> string) set \<Rightarrow> view \<Rightarrow> undo_item list \<Rightarrow> view \<Rightarrow> bool" where
  "journal_inv kinds X s0 items s \<longleftrightarrow>
     tracker_ok kinds items (snd s) \<and> claims_hold items (snd s) \<and> conflicts_known items (snd s) \<and>
     (\<forall>i \<in> set items. item_typed i) \<and>
     (\<forall>t. tracker_ok kinds items (snd t) \<longrightarrow> agree X items s t \<longrightarrow> rolls_back kinds X s0 items t)"

section \<open>Agreement\<close>

lemma fields_agree_refl [simp]: "fields_agree X mem mem"
  by (simp add: fields_agree_def)

lemma fields_agree_trans: "fields_agree X a b \<Longrightarrow> fields_agree X b c \<Longrightarrow> fields_agree X a c"
  by (simp add: fields_agree_def)

lemma snapshot_agrees_trans: "snapshot_agrees items a b e \<Longrightarrow> snapshot_agrees items b c e \<Longrightarrow> snapshot_agrees items a c e"
  by (simp add: snapshot_agrees_def split: if_splits)

lemma agree_refl: "claims_hold items (snd s) \<Longrightarrow> agree X items s s"
  by (auto simp: agree_def claims_hold_def entries_agree_def entry_agrees_def snapshot_agrees_def split: claim_of.splits)

lemma entry_agrees_trans: "entry_agrees c a b \<Longrightarrow> entry_agrees c b d \<Longrightarrow> entry_agrees c a d"
  by (auto simp: entry_agrees_def split: claim_of.splits)

lemma entries_agree_Free: "entries_agree items tr tr' \<Longrightarrow> claim items p = Free \<Longrightarrow> byPtr tr' p = byPtr tr p"
  by (auto simp: entries_agree_def entry_agrees_def dest!: spec [of _ p])

lemma entries_agree_Fixed: "entries_agree items tr tr' \<Longrightarrow> claim items p = Fixed e \<Longrightarrow> byPtr tr' p = None \<or> byPtr tr' p = Some e"
  by (auto simp: entries_agree_def entry_agrees_def dest!: spec [of _ p])

lemma watched_agree: "entries_agree items tr tr' \<Longrightarrow> watched items tr \<subseteq> watched items tr'"
  using entries_agree_Free by (fastforce simp: watched_def tracked_def)

lemma agree_trans:
  assumes "agree X items s t" and "agree X items t u"
  shows "agree X items s u"
proof -
  have "entries_agree items (snd s) (snd u)"
    using assms entry_agrees_trans unfolding agree_def entries_agree_def by blast
  moreover have "snapshot_agrees items (snd s) (snd u) e" if "e \<in> watched items (snd s)" for e
  proof -
    have "e \<in> watched items (snd t)"
      using that watched_agree [of items "snd s" "snd t"] assms(1) by (auto simp: agree_def)
    then show ?thesis
      using assms that snapshot_agrees_trans unfolding agree_def by blast
  qed
  moreover have "fields_agree (cap items \<union> X) (fst s) (fst u)"
    using assms fields_agree_trans unfolding agree_def by blast
  ultimately show ?thesis
    by (simp add: agree_def)
qed

lemma db_tracker_id: "db_tracker db = Some tr \<Longrightarrow> db\<lparr>db_tracker := Some tr\<rparr> = db"
  by (cases db) simp

lemma rolls_back_start:
  assumes "tracker_inv kinds (snd t)" and "agree X [] s t"
  shows "rolls_back kinds X s [] t"
proof -
  have e: "entries_agree [] (snd s) (snd t)" and f: "fields_agree X (fst s) (fst t)"
    and n: "\<And>e. e \<in> tracked (snd s) \<Longrightarrow> tr_snapshots (snd t) (te_seq e) = tr_snapshots (snd s) (te_seq e)"
    using assms(2) by (auto simp: agree_def watched_def snapshot_agrees_def)
  have "byPtr (snd t) p = byPtr (snd s) p" for p
    using entries_agree_Free [OF e] by simp
  then have "tracked (snd t) = tracked (snd s)"
    by (simp add: tracked_def)
  then have "restored kinds X s t"
    using assms(1) f n by (simp add: restored_def)
  then show ?thesis
    using db_tracker_id unfolding rolls_back_def by (intro allI impI exI [of _ "fst t"] exI [of _ "snd t"]) simp
qed

lemma journal_inv_start:
  assumes "tracker_inv kinds (snd s)"
  shows "journal_inv kinds X s [] s"
proof -
  have "rolls_back kinds X s [] t" if "tracker_ok kinds [] (snd t)" "agree X [] s t" for t
    using rolls_back_start that by (simp add: tracker_ok_def)
  then show ?thesis
    using assms unfolding journal_inv_def by (simp add: tracker_ok_def claims_hold_def conflicts_known_def) (simp add: tracker_inv_def)
qed

text \<open>Whatever keeps to the journal's claims keeps the invariant.\<close>

lemma journal_inv_agree:
  assumes inv: "journal_inv kinds X s0 items s" and s': "agree X items s s'" "tracker_ok kinds items (snd s')"
    "claims_hold items (snd s')" "conflicts_known items (snd s')"
  shows "journal_inv kinds X s0 items s'"
proof -
  have "rolls_back kinds X s0 items t" if "tracker_ok kinds items (snd t)" "agree X items s' t" for t
  proof -
    have "agree X items s t"
      using agree_trans [OF s'(1) that(2)] .
    then show ?thesis
      using inv that(1) unfolding journal_inv_def by blast
  qed
  then show ?thesis
    using inv s' unfolding journal_inv_def by blast
qed

section \<open>Single undo steps on the tracker\<close>

lemma option_eqI: "(\<And>y. a = Some y \<longleftrightarrow> b = Some y) \<Longrightarrow> a = b"
  by (metis not_None_eq)

definition unless_conflict :: "trackedEntry \<Rightarrow> trackedEntry option \<Rightarrow> trackedEntry option" where
  "unless_conflict h x = (case x of None \<Rightarrow> None | Some f \<Rightarrow> if conflicts h f then None else Some f)"

lemma unless_conflict_cases: "unless_conflict h x = None \<or> unless_conflict h x = x"
  by (auto simp: unless_conflict_def split: option.splits)

lemma unless_conflict_known: "(\<And>f. x = Some f \<Longrightarrow> \<not> conflicts h f) \<Longrightarrow> unless_conflict h x = x"
  by (auto simp: unless_conflict_def split: option.splits)

lemma no_conflict_tracked:
  assumes "tracker_inv kinds tr" "h \<in> tracked tr" "byPtr tr q = Some f"
  shows "\<not> conflicts h f"
  using im.content_unique [OF assms(1,2), of f] byPtr_tracked [OF assms(1), of q f] assms(3) by (auto simp: conflicts_def)

lemma restore_step:
  assumes inv: "tracker_inv kinds tr" and key: "key_typed (kinds (Type (te_m h))) (te_key h)" and seq: "te_seq h \<le> tr_nextSeq tr"
    and inj: "inj_on te_seq (insert h (tracked tr))" and p: "byPtr tr (te_ptr h) = None \<or> byPtr tr (te_ptr h) = Some h"
  shows "\<exists>tr'. tracker_restore tr h = Inr tr' \<and> tracker_inv kinds tr' \<and> tr_snapshots tr' = tr_snapshots tr \<and>
    tr_nextSeq tr' = tr_nextSeq tr \<and> tracked tr' \<subseteq> insert h (tracked tr) \<and>
    (\<forall>p. byPtr tr' p = (if p = te_ptr h then Some h else unless_conflict h (byPtr tr p)))"
proof -
  have 1: "f = h" if "f \<in> tracked tr" "te_seq f = te_seq h" for f
    using inj_onD [OF inj that(2)] that(1) by simp
  have 2: "f = h" if "f \<in> tracked tr" "te_ptr f = te_ptr h" for f
    using p byPtr_tracked [OF inv, of "te_ptr h" f] that by auto
  obtain tr' where tr': "tracker_restore tr h = Inr tr'" "tracker_inv kinds tr'"
      "tracked tr' = insert h {f \<in> tracked tr. \<not> (Type (te_m f) = Type (te_m h) \<and> same_key (te_key h) f)}"
      "tr_snapshots tr' = tr_snapshots tr" "tr_nextSeq tr' = tr_nextSeq tr"
    using tracker_restore_ok [OF inv key seq 1 2] by blast
  have mem: "byPtr tr' q = Some f \<longleftrightarrow> te_ptr f = q \<and> (f = h \<or> f \<in> tracked tr \<and> \<not> conflicts h f)" for q f
    unfolding byPtr_tracked [OF tr'(2)] tr'(3) by (auto simp: conflicts_def)
  have "byPtr tr' q = (if q = te_ptr h then Some h else unless_conflict h (byPtr tr q))" for q
  proof (cases "q = te_ptr h")
    case True
    then show ?thesis
      using mem by simp
  next
    case False
    have "unless_conflict h (byPtr tr q) = Some f \<longleftrightarrow> byPtr tr q = Some f \<and> \<not> conflicts h f" for f
      by (auto simp: unless_conflict_def split: option.splits)
    then have "byPtr tr' q = Some f \<longleftrightarrow> unless_conflict h (byPtr tr q) = Some f" for f
      using mem [of q f] byPtr_tracked [OF inv, of q f] False by auto
    then show ?thesis
      using option_eqI False by (metis (no_types, lifting))
  qed
  then show ?thesis
    using tr' by auto
qed

lemma forget_step:
  assumes "tracker_inv kinds tr" and "byPtr tr p = Some e"
  shows "\<exists>tr'. tracker_forget tr e = Inr tr' \<and> tracker_inv kinds tr' \<and> tr_snapshots tr' = tr_snapshots tr \<and>
    tr_nextSeq tr' = tr_nextSeq tr \<and> tracked tr' = tracked tr - {e} \<and> byPtr tr' = (byPtr tr)(p := None)"
proof -
  have e: "e \<in> tracked tr" "te_ptr e = p"
    using byPtr_tracked [OF assms(1)] assms(2) by auto
  then obtain tr' where tr': "tracker_forget tr e = Inr tr'" "tracker_inv kinds tr'" "tracked tr' = tracked tr - {e}"
      "tr_snapshots tr' = tr_snapshots tr" "tr_nextSeq tr' = tr_nextSeq tr"
    using tracker_forget_ok [OF assms(1)] by auto
  have "byPtr tr' q = ((byPtr tr)(p := None)) q" for q
  proof -
    have "byPtr tr' q = Some f \<longleftrightarrow> ((byPtr tr)(p := None)) q = Some f" for f
      using byPtr_tracked [OF tr'(2), of q f] byPtr_tracked [OF assms(1), of q f] tr'(3) e assms(2)
        byPtr_tracked [OF assms(1), of p f] by auto
    then show ?thesis
      by (rule option_eqI)
  qed
  then show ?thesis
    using tr' by auto
qed

text \<open>Forgetting an entry that is gone, its instance untracked, changes nothing.\<close>

lemma forget_absent:
  assumes inv: "tracker_inv kinds tr" and "byPtr tr (te_ptr e) = None" and key: "key_typed (kinds (Type (te_m e))) (te_key e)"
  shows "tracker_forget tr e = Inr tr"
proof -
  have "AList.delete (te_ptr e) (tr_byPtr tr) = tr_byPtr tr"
    using assms(2) by (simp add: byPtr_def delete_conv map_of_eq_None_iff delete_id)
  then have del: "tr\<lparr>tr_byPtr := AList.delete (te_ptr e) (tr_byPtr tr)\<rparr> = tr"
    by simp
  have sorted: "sorted_entries (kinds (Type (te_m e))) (tr_types tr (Type (te_m e)))"
    using inv by (simp add: tracker_inv_def)
  obtain i found where s: "tracker_search tr (Type (te_m e)) (te_key e) = Inr (i, found)"
      "found \<longrightarrow> i < length (tr_types tr (Type (te_m e)))"
    using tracker_search_spec [OF sorted refl key] by auto
  have "e \<notin> set (tr_types tr (Type (te_m e)))"
    using inv assms(2) by (auto simp: tracker_inv_def tracked_def)
  then have "\<not> (found \<and> tr_types tr (Type (te_m e)) ! i = e)"
    using s(2) nth_mem by metis
  then show ?thesis
    using s(1) unfolding tracker_forget_def Let_def del by auto
qed

section \<open>Adding to the journal\<close>

lemma tracker_snapshots_only:
  "byPtr (tr\<lparr>tr_snapshots := f\<rparr>) = byPtr tr" "tracked (tr\<lparr>tr_snapshots := f\<rparr>) = tracked tr"
  "tracker_inv kinds (tr\<lparr>tr_snapshots := f\<rparr>) = tracker_inv kinds tr"
  by (simp_all add: tracker_inv_def tracked_def byPtr_def)

lemma claim_RS_Free: "claim (RS h # items) p = Free \<Longrightarrow> claim items p = Free \<and> p \<noteq> te_ptr h"
  by (auto split: if_splits)

lemma rolls_back_Cons:
  assumes "\<And>db :: Db. db_tracker db = Some (snd t) \<Longrightarrow> undo_of i (fst t, db) = Inr (fst u, db\<lparr>db_tracker := Some (snd u)\<rparr>)"
    and "rolls_back kinds X s0 items u"
  shows "rolls_back kinds X s0 (i # items) t"
  unfolding rolls_back_def
proof (intro allI impI)
  fix db :: Db
  assume db: "db_tracker db = Some (snd t)"
  let ?db = "db\<lparr>db_tracker := Some (snd u)\<rparr>"
  obtain mem' tr' where "res_fold (\<lambda>undo s. undo s) (map undo_of items) (fst u, ?db) = Inr (mem', ?db\<lparr>db_tracker := Some tr'\<rparr>)"
      "restored kinds X s0 (mem', tr')"
    using assms(2) [unfolded rolls_back_def, THEN spec, of ?db] by auto
  then show "\<exists>mem' tr'. res_fold (\<lambda>undo s. undo s) (map undo_of (i # items)) (fst t, db) = Inr (mem', db\<lparr>db_tracker := Some tr'\<rparr>) \<and>
      restored kinds X s0 (mem', tr')"
    using assms(1) [OF db] by auto
qed

lemma tracker_ok_step:
  assumes "tracker_ok kinds items tr" "tracker_inv kinds tr'" "tr_nextSeq tr \<le> tr_nextSeq tr'"
    and "mentioned items' \<subseteq> mentioned items" "tracked tr' \<subseteq> tracked tr \<union> mentioned items"
  shows "tracker_ok kinds items' tr'"
proof -
  have "inj_on te_seq (tracked tr' \<union> mentioned items')"
    using assms by (auto simp: tracker_ok_def intro: inj_on_subset [of te_seq "tracked tr \<union> mentioned items"])
  then show ?thesis
    using assms by (fastforce simp: tracker_ok_def)
qed

text \<open>An entry that is tracked, or already spoken for, may be put on the journal.\<close>

lemma journal_inv_restore:
  assumes inv: "journal_inv kinds X s0 items s"
    and h: "h \<in> tracked (snd s) \<or> claim items (te_ptr h) = Fixed h"
  shows "journal_inv kinds X s0 (RS h # items) s"
proof -
  let ?items = "RS h # items" and ?tr = "snd s"
  have ok: "tracker_ok kinds items ?tr" and claims: "claims_hold items ?tr" and conf: "conflicts_known items ?tr"
    and typed: "\<forall>i \<in> set items. item_typed i"
    and roll: "\<And>t. tracker_ok kinds items (snd t) \<Longrightarrow> agree X items s t \<Longrightarrow> rolls_back kinds X s0 items t"
    using inv unfolding journal_inv_def by blast+
  have tinv: "tracker_inv kinds ?tr"
    using ok by (simp add: tracker_ok_def)
  have men: "h \<in> tracked ?tr \<or> h \<in> mentioned items"
    using h claim_Fixed by blast
  have ok': "tracker_ok kinds ?items ?tr"
    using ok men tracked_key_typed [OF tinv, of h] tinv unfolding tracker_ok_def
    by (auto simp: insert_absorb tracker_inv_def)
  have own: "byPtr ?tr (te_ptr h) = None \<or> byPtr ?tr (te_ptr h) = Some h"
    using h claims by (auto simp: claims_hold_def tracked_def)
  have claims': "claims_hold ?items ?tr"
    using claims own by (simp add: claims_hold_def)
  have noconf: "\<not> conflicts h f" if "byPtr ?tr q = Some f" "claim items q = Free" for q f
  proof (cases "h \<in> tracked ?tr")
    case True
    then show ?thesis
      using no_conflict_tracked [OF tinv True that(1)] by simp
  next
    case False
    then have "f \<in> tracked ?tr" "te_ptr f = q" "h \<in> mentioned items"
      using that(1) byPtr_tracked [OF tinv] men by auto
    then show ?thesis
      using conf that(2) by (auto simp: conflicts_known_def)
  qed
  have conf': "conflicts_known ?items ?tr"
    unfolding conflicts_known_def
  proof (intro ballI impI notI)
    fix g f
    assume g: "g \<in> mentioned ?items" "f \<in> tracked ?tr" "conflicts g f" "claim ?items (te_ptr f) = Free"
    have free: "claim items (te_ptr f) = Free" "byPtr ?tr (te_ptr f) = Some f"
      using claim_RS_Free [OF g(4)] g(2) by (simp_all add: tracked_def)
    show False
    proof (cases "g = h")
      case True
      then show ?thesis
        using noconf [OF free(2,1)] g(3) by simp
    next
      case False
      then show ?thesis
        using conf g(1-3) free(1) by (simp add: conflicts_known_def)
    qed
  qed
  have "rolls_back kinds X s0 ?items t" if t: "tracker_ok kinds ?items (snd t)" "agree X ?items s t" for t
  proof -
    have e: "entries_agree ?items ?tr (snd t)" and w: "\<And>e. e \<in> watched ?items ?tr \<Longrightarrow> snapshot_agrees ?items ?tr (snd t) e"
      and f: "fields_agree (cap items \<union> X) (fst s) (fst t)"
      using t(2) by (auto simp: agree_def)
    have "byPtr (snd t) (te_ptr h) = None \<or> byPtr (snd t) (te_ptr h) = Some h"
      using entries_agree_Fixed [OF e] by simp
    then obtain tr' where tr': "tracker_restore (snd t) h = Inr tr'" "tracker_inv kinds tr'" "tr_snapshots tr' = tr_snapshots (snd t)"
        "tr_nextSeq tr' = tr_nextSeq (snd t)" "tracked tr' \<subseteq> insert h (tracked (snd t))"
        "\<And>p. byPtr tr' p = (if p = te_ptr h then Some h else unless_conflict h (byPtr (snd t) p))"
      using restore_step [of kinds "snd t" h] t(1) unfolding tracker_ok_def by (auto intro: inj_on_subset)
    let ?t = "(fst t, tr')"
    have "tracker_ok kinds items (snd ?t)"
      using tracker_ok_step [OF t(1), of tr' items] tr'(2,4,5) by auto
    moreover have "agree X items s ?t"
    proof -
      have "entry_agrees (claim items p) (byPtr ?tr p) (byPtr tr' p)" for p
      proof (cases "p = te_ptr h")
        case True
        then show ?thesis
          using tr'(6) [of p] h claims [unfolded claims_hold_def, rule_format, of p]
          by (cases "claim items p") (auto simp: entry_agrees_def tracked_def)
      next
        case False
        then have c: "claim ?items p = claim items p"
          by simp
        show ?thesis
        proof (cases "claim items p")
          case Free
          then have "byPtr (snd t) p = byPtr ?tr p"
            using entries_agree_Free [OF e] c by simp
          then show ?thesis
            using Free False tr'(6) [of p] unless_conflict_known [of "byPtr ?tr p" h] noconf [of p]
            by (simp add: entry_agrees_def)
        next
          case (Fixed g)
          then show ?thesis
            using entries_agree_Fixed [OF e, of p g] c False tr'(6) [of p] unless_conflict_cases [of h "byPtr (snd t) p"]
            by (auto simp: entry_agrees_def)
        qed (simp add: entry_agrees_def)
      qed
      moreover have "snapshot_agrees items ?tr tr' g" if "g \<in> watched items ?tr" for g
      proof -
        have same: "g = h" if "g \<in> tracked ?tr" "claim items (te_ptr g) = Free" "te_ptr g = te_ptr h"
        proof -
          have "byPtr ?tr (te_ptr g) = Some g" "byPtr ?tr (te_ptr h) = Some h"
            using that h by (simp_all add: tracked_def)
          then show ?thesis
            by (metis that(3) option.inject)
        qed
        have "g \<in> watched ?items ?tr"
        proof (cases "g \<in> mentioned ?items")
          case False
          then have g: "g \<in> tracked ?tr" "claim items (te_ptr g) = Free" "g \<noteq> h"
            using that by (simp_all add: watched_def)
          then have "te_ptr g \<noteq> te_ptr h"
            using same by blast
          then show ?thesis
            using g by (simp add: watched_def)
        qed (auto simp: watched_def)
        then show ?thesis
          using w [of g] tr'(3) by (simp add: snapshot_agrees_def)
      qed
      ultimately show ?thesis
        using f by (simp add: agree_def entries_agree_def)
    qed
    ultimately have "rolls_back kinds X s0 items ?t"
      by (rule roll)
    then show ?thesis
      using tr'(1) by (intro rolls_back_Cons [of t _ ?t]) (auto simp: undo_restore_def)
  qed
  then show ?thesis
    using ok' claims' conf' typed unfolding journal_inv_def by simp
qed


text \<open>Putting captured values back.\<close>

definition put_values :: "ptr \<Rightarrow> (PropertyMap \<times> gvalue) list \<Rightarrow> memory \<Rightarrow> memory" where
  "put_values p vals mem = foldl (\<lambda>mem (property, prior). set_quiet property p prior mem) mem vals"

lemma put_values_fields:
  assumes "\<forall>(property, v) \<in> set vals. field_typed property v \<and> v = g (PropertyName property)"
  shows "fvals (put_values p vals mem) q f =
      (if q = p \<and> f \<in> (PropertyName \<circ> fst) ` set vals then g f else fvals mem q f) \<and>
    navs (put_values p vals mem) = navs mem \<and> hsize (put_values p vals mem) = hsize mem"
  using assms
proof (induction vals arbitrary: mem)
  case (Cons x xs)
  obtain property v where x: "x = (property, v)"
    by (cases x) auto
  have "field_typed property v" "v = g (PropertyName property)"
    using Cons.prems x by auto
  then have "put_values p (x # xs) mem = put_values p xs (Set_field mem property p v)"
    by (simp add: put_values_def x set_quiet_def PropertyMap_Set_typed)
  moreover have "fvals (put_values p xs (Set_field mem property p v)) q f =
      (if q = p \<and> f \<in> (PropertyName \<circ> fst) ` set xs then g f else fvals (Set_field mem property p v) q f) \<and>
      navs (put_values p xs (Set_field mem property p v)) = navs mem \<and> hsize (put_values p xs (Set_field mem property p v)) = hsize mem"
    using Cons.IH [of "Set_field mem property p v"] Cons.prems by simp
  ultimately show ?case
    using \<open>v = g (PropertyName property)\<close> by (auto simp: x Set_field_def)
qed (simp add: put_values_def)

text \<open>The tracker's part of \<open>undo_write\<close>, on a state that agrees with the one recorded.\<close>

lemma undo_write_tracker:
  assumes s: "tracker_inv kinds sr" "byPtr sr p = entry" and h: "\<And>h. holder = Some h \<Longrightarrow> h \<in> tracked sr"
    and ok: "tracker_ok kinds (RW p vals entry snapshot holder # items) tr"
    and agree: "entries_agree (RW p vals entry snapshot holder # items) sr tr"
  shows "\<exists>tr'. (\<forall>db :: Db. db_tracker db = Some tr \<longrightarrow> undo_write p vals entry snapshot holder (mem, db) = Inr (put_values p vals mem, db\<lparr>db_tracker := Some tr'\<rparr>)) \<and>
    tracker_inv kinds tr' \<and> tr_nextSeq tr' = tr_nextSeq tr \<and> tracked tr' \<subseteq> tracked tr \<union> set_option entry \<union> set_option holder \<and>
    tr_snapshots tr' = (case entry of None \<Rightarrow> tr_snapshots tr
      | Some e \<Rightarrow> (tr_snapshots tr)(te_seq e := slice_copy (tr_snapshots tr (te_seq e)) snapshot)) \<and>
    (\<forall>q. byPtr tr' q = byPtr sr q \<or>
       (q \<noteq> p \<and> (\<forall>h. holder = Some h \<longrightarrow> te_ptr h \<noteq> q) \<and> (byPtr tr' q = byPtr tr q \<or> byPtr tr' q = None \<and> byPtr tr q \<noteq> byPtr sr q)))"
proof -
  let ?items = "RW p vals entry snapshot holder # items"
  have tinv: "tracker_inv kinds tr" and men: "\<And>e. e \<in> mentioned ?items \<Longrightarrow> key_typed (kinds (Type (te_m e))) (te_key e) \<and> te_seq e \<le> tr_nextSeq tr"
    and inj: "inj_on te_seq (tracked tr \<union> mentioned ?items)"
    using ok by (auto simp: tracker_ok_def)
  have own: "claim ?items p = (case entry of None \<Rightarrow> Any | Some e \<Rightarrow> Fixed e)"
    by simp
  obtain tr1 where f1: "(case byPtr tr p of Some current \<Rightarrow> if Some current \<noteq> entry then tracker_forget tr current else Inr tr | None \<Rightarrow> Inr tr) = Inr tr1"
      "tracker_inv kinds tr1" "tr_snapshots tr1 = tr_snapshots tr" "tr_nextSeq tr1 = tr_nextSeq tr" "tracked tr1 \<subseteq> tracked tr"
      "\<And>q. byPtr tr1 q = (if q = p \<and> entry = None then None else byPtr tr q)"
  proof (cases entry)
    case None
    show ?thesis
    proof (cases "byPtr tr p")
      case (Some e)
      then obtain tr1 where "tracker_forget tr e = Inr tr1" "tracker_inv kinds tr1" "tr_snapshots tr1 = tr_snapshots tr"
          "tr_nextSeq tr1 = tr_nextSeq tr" "tracked tr1 = tracked tr - {e}" "byPtr tr1 = (byPtr tr)(p := None)"
        using forget_step [OF tinv Some] by blast
      then show ?thesis
        using None Some that [of tr1] by auto
    qed (use that [of tr] tinv None in auto)
  next
    case (Some e)
    then have "byPtr tr p = None \<or> byPtr tr p = Some e"
      using entries_agree_Fixed [OF agree, of p e] own by simp
    then show ?thesis
      using that [of tr] tinv Some by auto
  qed
  let ?snap = "\<lambda>e. tr1\<lparr>tr_snapshots := (tr_snapshots tr1)(te_seq e := slice_copy (tr_snapshots tr1 (te_seq e)) snapshot)\<rparr>"
  have snap_inv: "tracker_inv kinds (?snap e)" "byPtr (?snap e) = byPtr tr1" "tracked (?snap e) = tracked tr1" for e
    using f1(2) by (simp_all add: tracker_snapshots_only)
  obtain tr2 where f2: "(case entry of None \<Rightarrow> Inr tr1 | Some e \<Rightarrow> tracker_restore (?snap e) e) = Inr tr2"
      "tracker_inv kinds tr2" "tr_snapshots tr2 = (case entry of None \<Rightarrow> tr_snapshots tr
      | Some e \<Rightarrow> (tr_snapshots tr)(te_seq e := slice_copy (tr_snapshots tr (te_seq e)) snapshot))"
      "tr_nextSeq tr2 = tr_nextSeq tr" "tracked tr2 \<subseteq> tracked tr \<union> set_option entry"
      "\<And>q. byPtr tr2 q = (if q = p then entry else case entry of None \<Rightarrow> byPtr tr q | Some e \<Rightarrow> unless_conflict e (byPtr tr q))"
  proof (cases entry)
    case None
    then show ?thesis
      using that [of tr1] f1 by auto
  next
    case (Some e)
    have p: "te_ptr e = p"
      using s Some byPtr_tracked [OF s(1), of p e] by auto
    have b: "byPtr (?snap e) (te_ptr e) = None \<or> byPtr (?snap e) (te_ptr e) = Some e"
      using entries_agree_Fixed [OF agree, of p e] own Some f1(6) [of p] p by (simp add: tracker_snapshots_only)
    have i: "inj_on te_seq (insert e (tracked (?snap e)))"
      using f1(5) Some snap_inv(3) by (intro inj_on_subset [OF inj]) auto
    have k: "key_typed (kinds (Type (te_m e))) (te_key e)" "te_seq e \<le> tr_nextSeq (?snap e)"
      using men [of e] Some f1(4) by auto
    obtain tr2 where "tracker_restore (?snap e) e = Inr tr2" "tracker_inv kinds tr2" "tr_snapshots tr2 = tr_snapshots (?snap e)"
        "tr_nextSeq tr2 = tr_nextSeq (?snap e)" "tracked tr2 \<subseteq> insert e (tracked (?snap e))"
        "\<forall>q. byPtr tr2 q = (if q = te_ptr e then Some e else unless_conflict e (byPtr (?snap e) q))"
      using restore_step [OF snap_inv(1) k i b] by blast
    note r = this
    have "byPtr tr2 q = (if q = p then Some e else unless_conflict e (byPtr tr q))" for q
      using r(6) p f1(6) Some by (simp add: tracker_snapshots_only)
    moreover have "tracked tr2 \<subseteq> tracked tr \<union> {e}"
      using r(5) snap_inv(3) f1(5) by auto
    moreover have "tr_snapshots tr2 = (tr_snapshots tr)(te_seq e := slice_copy (tr_snapshots tr (te_seq e)) snapshot)" "tr_nextSeq tr2 = tr_nextSeq tr"
      using r(3,4) f1(3,4) by simp_all
    ultimately show ?thesis
      using that [of tr2] r(1,2) Some by simp
  qed
  have sub: "byPtr tr2 q = None \<or> byPtr tr2 q = byPtr tr q" if "q \<noteq> p" for q
    using f2(6) [of q] that unless_conflict_cases [of _ "byPtr tr q"] by (auto split: option.splits)
  have lost: "byPtr tr q \<noteq> byPtr sr q" if ne: "q \<noteq> p" "byPtr tr2 q \<noteq> byPtr tr q" for q
  proof -
    obtain e where "entry = Some e" "unless_conflict e (byPtr tr q) \<noteq> byPtr tr q"
      using ne f2(6) [of q] by (auto split: option.splits)
    moreover then obtain f where "byPtr tr q = Some f" "conflicts e f"
      using unless_conflict_known [of "byPtr tr q" e] by blast
    moreover have "e \<in> tracked sr" if "entry = Some e"
      using s that byPtr_tracked [OF s(1), of p e] by simp
    ultimately show ?thesis
      using no_conflict_tracked [OF s(1), of e q f] by auto
  qed
  show ?thesis
  proof (cases "holder = None \<or> holder = entry")
    case True
    then have "(case holder of None \<Rightarrow> Inr tr2 | Some h \<Rightarrow> if Some h \<noteq> entry then tracker_restore tr2 h else Inr tr2) = Inr tr2"
      by (auto split: option.splits)
    then have "undo_write p vals entry snapshot holder (mem, db) = Inr (put_values p vals mem, db\<lparr>db_tracker := Some tr2\<rparr>)" if "db_tracker db = Some tr" for db :: Db
      using f1(1) f2(1) that by (simp add: undo_write_def put_values_def)
    moreover have "te_ptr h \<noteq> q" if "q \<noteq> p" "holder = Some h" for q h
      using True that s byPtr_tracked [OF s(1), of p h] by auto
    moreover have "tracked tr2 \<subseteq> tracked tr \<union> set_option entry \<union> set_option holder"
      using f2(5) by blast
    ultimately show ?thesis
      using f2(2-4) f2(6) [of p] s(2) sub lost by (intro exI [of _ tr2]) metis
  next
    case False
    then obtain h where hh: "holder = Some h" "entry \<noteq> Some h"
      by auto
    have ht: "h \<in> tracked sr" "byPtr sr (te_ptr h) = Some h"
      using h [OF hh(1)] by (simp_all add: tracked_def)
    have hp: "te_ptr h \<noteq> p"
      using ht(2) s(2) hh(2) by auto
    have "claim ?items (te_ptr h) = Fixed h"
      using hp hh(1) by simp
    then have b: "byPtr tr2 (te_ptr h) = None \<or> byPtr tr2 (te_ptr h) = Some h"
      using entries_agree_Fixed [OF agree] sub [OF hp] by metis
    have i: "inj_on te_seq (insert h (tracked tr2))"
      using f2(5) hh(1) by (intro inj_on_subset [OF inj]) auto
    have k: "key_typed (kinds (Type (te_m h))) (te_key h)" "te_seq h \<le> tr_nextSeq tr2"
      using men [of h] hh(1) f2(4) by auto
    obtain tr3 where r: "tracker_restore tr2 h = Inr tr3" "tracker_inv kinds tr3" "tr_snapshots tr3 = tr_snapshots tr2"
        "tr_nextSeq tr3 = tr_nextSeq tr2" "tracked tr3 \<subseteq> insert h (tracked tr2)"
        "\<forall>q. byPtr tr3 q = (if q = te_ptr h then Some h else unless_conflict h (byPtr tr2 q))"
      using restore_step [OF f2(2) k i b] by blast
    have "undo_write p vals entry snapshot holder (mem, db) = Inr (put_values p vals mem, db\<lparr>db_tracker := Some tr3\<rparr>)" if "db_tracker db = Some tr" for db :: Db
      using f1(1) f2(1) r(1) hh that by (simp add: undo_write_def put_values_def)
    moreover have "byPtr tr3 q = byPtr sr q \<or>
        q \<noteq> p \<and> (\<forall>h. holder = Some h \<longrightarrow> te_ptr h \<noteq> q) \<and> (byPtr tr3 q = byPtr tr q \<or> byPtr tr3 q = None \<and> byPtr tr q \<noteq> byPtr sr q)" for q
    proof (cases "q = te_ptr h")
      case True
      then show ?thesis
        using r(6) ht(2) by simp
    next
      case q: False
      show ?thesis
      proof (cases "q = p")
        case True
        have "unless_conflict h (byPtr sr p) = byPtr sr p"
          using no_conflict_tracked [OF s(1) ht(1)] by (rule unless_conflict_known)
        then show ?thesis
          using True r(6) hp f2(6) [of p] s(2) by simp
      next
        case False
        have "byPtr tr3 q = None \<or> byPtr tr3 q = byPtr tr q"
          using r(6) q unless_conflict_cases [of h "byPtr tr2 q"] sub [OF False] by auto
        moreover have "byPtr tr q \<noteq> byPtr sr q" if ne: "byPtr tr3 q \<noteq> byPtr tr q"
        proof (cases "byPtr tr2 q = byPtr tr q")
          case True
          have "unless_conflict h (byPtr tr q) \<noteq> byPtr tr q"
            using ne r(6) q True by simp
          then obtain f where "byPtr tr q = Some f" "conflicts h f"
            using unless_conflict_known [of "byPtr tr q" h] by blast
          then show ?thesis
            using no_conflict_tracked [OF s(1) ht(1), of q f] by auto
        qed (use lost False in blast)
        ultimately show ?thesis
          using False q hh(1) by auto
      qed
    qed
    moreover have "tracked tr3 \<subseteq> tracked tr \<union> set_option entry \<union> set_option holder"
      using r(5) f2(5) hh(1) by auto
    ultimately show ?thesis
      using r(2-4) f2(3,4) by (intro exI [of _ tr3]) simp
  qed
qed


text \<open>Recording a write: what the closure captures are the present values, entry, snapshot and holder.\<close>

lemma claim_RW_other:
  "q \<noteq> p \<Longrightarrow> (\<And>h. holder = Some h \<Longrightarrow> te_ptr h \<noteq> q) \<Longrightarrow> claim (RW p vals entry snapshot holder # items) q = claim items q"
  by (auto split: option.splits)

lemma slice_copy_same: "length dst = length src \<Longrightarrow> slice_copy dst src = src"
  by (simp add: slice_copy_def)

lemma journal_inv_record:
  assumes inv: "journal_inv kinds X s0 items s"
    and vals: "\<forall>(property, v) \<in> set vals. field_typed property v \<and> v = fvals (fst s) p (PropertyName property)"
    and entry: "byPtr (snd s) p = entry" and snapshot: "\<And>e. entry = Some e \<Longrightarrow> snapshot = tr_snapshots (snd s) (te_seq e)"
    and holder: "\<And>h. holder = Some h \<Longrightarrow> h \<in> tracked (snd s)"
  shows "journal_inv kinds X s0 (RW p vals entry snapshot holder # items) s"
proof -
  let ?i = "RW p vals entry snapshot holder" and ?tr = "snd s"
  let ?items = "?i # items"
  have ok: "tracker_ok kinds items ?tr" and claims: "claims_hold items ?tr" and conf: "conflicts_known items ?tr"
    and typed: "\<forall>i \<in> set items. item_typed i"
    and roll: "\<And>t. tracker_ok kinds items (snd t) \<Longrightarrow> agree X items s t \<Longrightarrow> rolls_back kinds X s0 items t"
    using inv unfolding journal_inv_def by blast+
  have tinv: "tracker_inv kinds ?tr"
    using ok by (simp add: tracker_ok_def)
  have e: "e \<in> tracked ?tr" "te_ptr e = p" if "entry = Some e" for e
    using byPtr_tracked [OF tinv, of p e] entry that by auto
  have new: "set_option entry \<union> set_option holder \<subseteq> tracked ?tr"
    using e(1) holder by auto
  have ok': "tracker_ok kinds ?items ?tr"
  proof -
    have "tracked ?tr \<union> mentioned ?items = tracked ?tr \<union> mentioned items"
      using new by auto
    moreover have "key_typed (kinds (Type (te_m g))) (te_key g) \<and> te_seq g \<le> tr_nextSeq ?tr" if "g \<in> tracked ?tr" for g
      using tracked_key_typed [OF tinv that] tinv that by (simp add: tracker_inv_def)
    ultimately show ?thesis
      using ok new unfolding tracker_ok_def by auto
  qed
  have claims': "claims_hold ?items ?tr"
    unfolding claims_hold_def
  proof (intro allI impI)
    fix q g
    assume g: "claim ?items q = Fixed g"
    show "byPtr ?tr q = None \<or> byPtr ?tr q = Some g"
    proof (cases "q = p \<or> (\<exists>h. holder = Some h \<and> te_ptr h = q)")
      case True
      then show ?thesis
        using g entry holder by (auto simp: tracked_def split: option.splits if_splits)
    next
      case False
      then show ?thesis
        using g claims claim_RW_other [of q p holder vals entry snapshot items] by (simp add: claims_hold_def)
    qed
  qed
  have free: "claim items q = Free" if "claim ?items q = Free" for q
    using that by (auto split: if_splits option.splits)
  have conf': "conflicts_known ?items ?tr"
    unfolding conflicts_known_def
  proof (intro ballI impI notI)
    fix g f
    assume g: "g \<in> mentioned ?items" "f \<in> tracked ?tr" "conflicts g f" "claim ?items (te_ptr f) = Free"
    show False
    proof (cases "g \<in> mentioned items")
      case True
      then show ?thesis
        using conf g(2,3) free [OF g(4)] by (simp add: conflicts_known_def)
    next
      case False
      then have "g \<in> tracked ?tr"
        using g(1) new by auto
      moreover have "byPtr ?tr (te_ptr f) = Some f"
        using g(2) by (simp add: tracked_def)
      ultimately show ?thesis
        using no_conflict_tracked [OF tinv] g(3) by blast
    qed
  qed
  have "rolls_back kinds X s0 ?items t" if t: "tracker_ok kinds ?items (snd t)" "agree X ?items s t" for t
  proof -
    have ea: "entries_agree ?items ?tr (snd t)" and w: "\<And>e. e \<in> watched ?items ?tr \<Longrightarrow> snapshot_agrees ?items ?tr (snd t) e"
      and f: "fields_agree (cap ?items \<union> X) (fst s) (fst t)"
      using t(2) unfolding agree_def by blast+
    let ?sn = "case entry of None \<Rightarrow> tr_snapshots (snd t)
      | Some e \<Rightarrow> (tr_snapshots (snd t))(te_seq e := slice_copy (tr_snapshots (snd t) (te_seq e)) snapshot)"
    obtain tr' where tr': "\<And>db. db_tracker db = Some (snd t) \<Longrightarrow> undo_write p vals entry snapshot holder (fst t, db) = Inr (put_values p vals (fst t), db\<lparr>db_tracker := Some tr'\<rparr>)"
        "tracker_inv kinds tr'" "tr_nextSeq tr' = tr_nextSeq (snd t)" "tracked tr' \<subseteq> tracked (snd t) \<union> set_option entry \<union> set_option holder"
        "tr_snapshots tr' = ?sn"
        "\<And>q. byPtr tr' q = byPtr ?tr q \<or> (q \<noteq> p \<and> (\<forall>h. holder = Some h \<longrightarrow> te_ptr h \<noteq> q) \<and>
          (byPtr tr' q = byPtr (snd t) q \<or> byPtr tr' q = None \<and> byPtr (snd t) q \<noteq> byPtr ?tr q))"
      using undo_write_tracker [OF tinv entry holder t(1) ea, of "fst t"] by blast
    let ?t = "(put_values p vals (fst t), tr')"
    have "tracker_ok kinds items (snd ?t)"
      using tracker_ok_step [OF t(1), of tr' items] tr'(2-4) by auto
    moreover have "agree X items s ?t"
    proof -
      have "entry_agrees (claim items q) (byPtr ?tr q) (byPtr tr' q)" for q
      proof (cases "byPtr tr' q = byPtr ?tr q")
        case True
        then show ?thesis
          using claims [unfolded claims_hold_def, rule_format, of q] by (cases "claim items q") (auto simp: entry_agrees_def)
      next
        case False
        then have q: "claim ?items q = claim items q" "byPtr tr' q = byPtr (snd t) q \<or> byPtr tr' q = None \<and> byPtr (snd t) q \<noteq> byPtr ?tr q"
          using tr'(6) [of q] claim_RW_other [of q p holder vals entry snapshot items] by blast+
        show ?thesis
        proof (cases "claim items q")
          case Free
          then show ?thesis
            using False q entries_agree_Free [OF ea, of q] by simp
        next
          case (Fixed g)
          then show ?thesis
            using q entries_agree_Fixed [OF ea, of q g] by (auto simp: entry_agrees_def)
        qed (simp add: entry_agrees_def)
      qed
      moreover have "snapshot_agrees items ?tr tr' g" if g: "g \<in> watched items ?tr" for g
      proof -
        have gw: "g \<in> watched ?items ?tr"
        proof (cases "g \<in> mentioned ?items")
          case False
          then have g': "g \<in> tracked ?tr" "claim items (te_ptr g) = Free" "entry \<noteq> Some g" "holder \<noteq> Some g"
            using g by (auto simp: watched_def)
          have gp: "byPtr ?tr (te_ptr g) = Some g"
            using g'(1) by (simp add: tracked_def)
          have "te_ptr g \<noteq> p"
            using gp g'(3) entry by auto
          moreover have "te_ptr h \<noteq> te_ptr g" if "holder = Some h" for h
          proof
            assume "te_ptr h = te_ptr g"
            moreover have "byPtr ?tr (te_ptr h) = Some h"
              using holder [OF that] by (simp add: tracked_def)
            ultimately show False
              using gp g'(4) that by metis
          qed
          ultimately have "claim ?items (te_ptr g) = Free"
            using claim_RW_other [of "te_ptr g" p holder vals entry snapshot items] g'(2) by simp
          then show ?thesis
            using g'(1) unfolding watched_def by blast
        qed (simp add: watched_def)
        show ?thesis
        proof (cases "entry = Some g")
          case True
          then have "length (tr_snapshots (snd t) (te_seq g)) = length snapshot"
            using w [OF gw] snapshot by (simp add: snapshot_agrees_def)
          then show ?thesis
            using True tr'(5) snapshot by (simp add: snapshot_agrees_def slice_copy_same)
        next
          case False
          have "tr_snapshots tr' (te_seq g) = tr_snapshots (snd t) (te_seq g)"
          proof (cases entry)
            case (Some e')
            have "inj_on te_seq (tracked ?tr \<union> mentioned ?items)"
              using ok' by (simp add: tracker_ok_def)
            moreover have "g \<in> tracked ?tr \<union> mentioned ?items" "e' \<in> tracked ?tr \<union> mentioned ?items"
              using gw Some by (auto simp: watched_def)
            ultimately have "te_seq g \<noteq> te_seq e'"
              using False Some by (metis inj_onD)
            then show ?thesis
              using tr'(5) Some by simp
          qed (use tr'(5) in simp)
          moreover have "g \<in> recorded ?items \<longleftrightarrow> g \<in> recorded items"
            using False by auto
          ultimately show ?thesis
            using w [OF gw] unfolding snapshot_agrees_def by simp
        qed
      qed
      moreover have "fields_agree (cap items \<union> X) (fst s) (put_values p vals (fst t))"
        unfolding fields_agree_def
      proof (intro conjI allI impI)
        fix q f'
        assume q: "(q, f') \<notin> cap items \<union> X"
        note put = put_values_fields [OF vals, where p = p and mem = "fst t" and q = q and f = f']
        show "fvals (put_values p vals (fst t)) q f' = fvals (fst s) q f'"
        proof (cases "q = p \<and> f' \<in> (PropertyName \<circ> fst) ` set vals")
          case True
          then show ?thesis
            using put by simp
        next
          case False
          then have "(q, f') \<notin> cap ?items \<union> X"
            using q by force
          then show ?thesis
            using f put False by (simp add: fields_agree_def)
        qed
      qed (use put_values_fields [OF vals, where p = p and mem = "fst t"] f in \<open>simp_all add: fields_agree_def\<close>)
      ultimately show ?thesis
        by (simp add: agree_def entries_agree_def)
    qed
    ultimately have "rolls_back kinds X s0 items ?t"
      by (rule roll)
    then show ?thesis
      using tr'(1) by (intro rolls_back_Cons [of t _ ?t]) auto
  qed
  moreover have "item_typed ?i"
    using vals by auto
  ultimately show ?thesis
    using ok' claims' conf' typed unfolding journal_inv_def by simp
qed

section \<open>What recorded statements may do\<close>

lemma recorded_mentioned: "recorded items \<subseteq> mentioned items"
proof (induction items)
  case (Cons i items)
  then show ?case
    by (cases i) auto
qed simp

lemma journal_invD:
  assumes "journal_inv kinds X s0 items s"
  shows "tracker_ok kinds items (snd s)" "claims_hold items (snd s)" "conflicts_known items (snd s)" "tracker_inv kinds (snd s)"
  using assms unfolding journal_inv_def tracker_ok_def by blast+

text \<open>Registering an instance that was not tracked when recorded; a displaced holder is already spoken for.\<close>

lemma journal_inv_register:
  assumes inv: "journal_inv kinds X s0 items (mem, tr)" and p: "claim items p = Any"
    and key: "key_typed (kinds (Type m)) key" and reg: "tracker_register conv mem tr m p key = Inr (e, tr')"
    and holder: "\<And>h. h \<in> tracked tr \<Longrightarrow> displaced m p key h \<Longrightarrow> te_ptr h \<noteq> p \<Longrightarrow> claim items (te_ptr h) \<noteq> Free"
  shows "journal_inv kinds X s0 items (mem, tr')"
    and "\<And>q. q \<noteq> p \<Longrightarrow> byPtr tr' q = None \<or> byPtr tr' q = byPtr tr q"
proof -
  note D = journal_invD [OF inv, simplified]
  obtain snap where snap: "snapshotOf conv mem m p = Inr snap"
    using reg by (auto simp: tracker_register_def bindR_Inr_iff)
  have r: "tracker_inv kinds tr'" "e = \<lparr>te_ptr = p, te_m = m, te_key = key, te_seq = tr_nextSeq tr + 1\<rparr>"
      "tracked tr' = insert e {f \<in> tracked tr. \<not> displaced m p key f}"
      "tr_snapshots tr' = (tr_snapshots tr)(te_seq e := snap)" "tr_nextSeq tr' = tr_nextSeq tr + 1"
    using tracker_register_ok [OF D(4) key snap] reg by auto
  have old: "byPtr tr' q = Some f \<longleftrightarrow> byPtr tr q = Some f \<and> \<not> displaced m p key f" if "q \<noteq> p" for q f
    using byPtr_tracked [OF r(1), of q f] byPtr_tracked [OF D(4), of q f] that unfolding r(3) by (auto simp: r(2))
  then show other: "byPtr tr' q = None \<or> byPtr tr' q = byPtr tr q" if "q \<noteq> p" for q
    using that by (cases "byPtr tr' q") auto
  have seq: "te_seq g \<noteq> te_seq e" if "g \<in> tracked tr \<union> mentioned items" for g
    using that D(1) by (auto simp: r(2) tracker_ok_def tracker_inv_def)
  have ok: "tracker_ok kinds items tr'"
  proof -
    have "inj_on te_seq (tracked tr \<union> mentioned items)"
      using D(1) by (simp add: tracker_ok_def)
    moreover have "te_seq e \<notin> te_seq ` (tracked tr \<union> mentioned items - {e})"
    proof
      assume "te_seq e \<in> te_seq ` (tracked tr \<union> mentioned items - {e})"
      then obtain g where g: "te_seq e = te_seq g" "g \<in> tracked tr \<union> mentioned items - {e}"
        by (rule imageE)
      from g(2) have "g \<in> tracked tr \<union> mentioned items"
        by (rule DiffD1)
      from seq [OF this] g(1) show False
        by (rule notE [OF _ sym])
    qed
    ultimately have "inj_on te_seq (insert e (tracked tr \<union> mentioned items))"
      by (subst inj_on_insert) (rule conjI)
    then have "inj_on te_seq (tracked tr' \<union> mentioned items)"
      by (rule inj_on_subset) (auto simp: r(3))
    then show ?thesis
      using D(1) r(1,5) by (auto simp: tracker_ok_def)
  qed
  have entries: "entry_agrees (claim items q) (byPtr tr q) (byPtr tr' q)" for q
  proof (cases "q = p")
    case False
    show ?thesis
    proof (cases "claim items q")
      case Free
      have "byPtr tr q = Some f \<longrightarrow> \<not> displaced m p key f" for f
        using holder [of f] byPtr_tracked [OF D(4), of q f] False Free by auto
      then have "byPtr tr' q = byPtr tr q"
        using old [OF False] by (intro option_eqI) blast
      then show ?thesis
        using Free by (simp add: entry_agrees_def)
    next
      case (Fixed g)
      then have "byPtr tr q = None \<or> byPtr tr q = Some g"
        using D(2) by (simp add: claims_hold_def)
      then have "byPtr tr' q = None \<or> byPtr tr' q = Some g"
        using other [OF False] by (metis (no_types))
      then show ?thesis
        by (simp add: entry_agrees_def Fixed)
    qed (simp add: entry_agrees_def)
  qed (simp add: p entry_agrees_def)
  have "tr_snapshots tr' (te_seq g) = tr_snapshots tr (te_seq g)" if "g \<in> watched items tr" for g
    using seq [of g] that unfolding r(4) by (auto simp: watched_def)
  then have agree: "agree X items (mem, tr) (mem, tr')"
    using entries by (simp add: agree_def entries_agree_def snapshot_agrees_def)
  have "claims_hold items tr'"
    unfolding claims_hold_def
  proof (intro allI impI)
    fix q g
    assume g: "claim items q = Fixed g"
    then show "byPtr tr' q = None \<or> byPtr tr' q = Some g"
      using entries [of q] by (simp add: entry_agrees_def)
  qed
  moreover have "conflicts_known items tr'"
    using D(3) p unfolding conflicts_known_def r(3) by (auto simp: r(2))
  ultimately show "journal_inv kinds X s0 items (mem, tr')"
    using journal_inv_agree [OF inv agree] ok by simp
qed

lemma journal_inv_forget:
  assumes inv: "journal_inv kinds X s0 items (mem, tr)" and e: "claim items (te_ptr e) = Fixed e"
  shows "\<exists>tr'. tracker_forget tr e = Inr tr' \<and> journal_inv kinds X s0 items (mem, tr') \<and>
    (\<forall>q. byPtr tr' q = None \<or> byPtr tr' q = byPtr tr q)"
proof -
  note D = journal_invD [OF inv, simplified]
  have "byPtr tr (te_ptr e) = None \<or> byPtr tr (te_ptr e) = Some e"
    using D(2) e by (simp add: claims_hold_def)
  then show ?thesis
  proof
    assume "byPtr tr (te_ptr e) = None"
    moreover have "key_typed (kinds (Type (te_m e))) (te_key e)"
      using D(1) claim_Fixed [OF e] by (simp add: tracker_ok_def)
    ultimately show ?thesis
      using forget_absent [OF D(4)] inv by blast
  next
    assume "byPtr tr (te_ptr e) = Some e"
    then obtain tr' where r: "tracker_forget tr e = Inr tr'" "tracker_inv kinds tr'" "tr_snapshots tr' = tr_snapshots tr"
        "tr_nextSeq tr' = tr_nextSeq tr" "tracked tr' = tracked tr - {e}" "byPtr tr' = (byPtr tr)(te_ptr e := None)"
      using forget_step [OF D(4)] by blast
    have "tracker_ok kinds items tr'"
      using tracker_ok_step [OF D(1) r(2)] r(4,5) by auto
    moreover have "agree X items (mem, tr) (mem, tr')"
      using e r(3,6) agree_refl [of items "(mem, tr)" X] D(2)
      by (auto simp: agree_def entries_agree_def snapshot_agrees_def entry_agrees_def)
    moreover have "claims_hold items tr'" "conflicts_known items tr'"
      using D(2,3) r(5,6) by (auto simp: claims_hold_def conflicts_known_def)
    ultimately have "journal_inv kinds X s0 items (mem, tr')"
      using journal_inv_agree [OF inv] by simp
    then show ?thesis
      using r(1,6) by auto
  qed
qed

lemma journal_inv_snapshot:
  assumes inv: "journal_inv kinds X s0 items (mem, tr)" and e: "e \<in> recorded items" "length snap = length (tr_snapshots tr (te_seq e))"
  shows "journal_inv kinds X s0 items (mem, tr\<lparr>tr_snapshots := (tr_snapshots tr)(te_seq e := snap)\<rparr>)"
proof -
  let ?tr = "tr\<lparr>tr_snapshots := (tr_snapshots tr)(te_seq e := snap)\<rparr>"
  note D = journal_invD [OF inv, simplified]
  have men: "e \<in> mentioned items"
    using e(1) recorded_mentioned by blast
  have "g = e" if "g \<in> watched items tr" "te_seq g = te_seq e" for g
  proof -
    have "inj_on te_seq (tracked tr \<union> mentioned items)" "g \<in> tracked tr \<union> mentioned items"
      using D(1) that(1) by (auto simp: tracker_ok_def watched_def)
    then show ?thesis
      using that(2) men by (auto dest: inj_onD)
  qed
  then have "snapshot_agrees items tr ?tr g" if "g \<in> watched items tr" for g
    using that e by (auto simp: snapshot_agrees_def)
  then have "agree X items (mem, tr) (mem, ?tr)"
    using agree_refl [of items "(mem, tr)" X] D(2) by (simp add: agree_def entries_agree_def tracker_snapshots_only)
  then show ?thesis
    using journal_inv_agree [OF inv] D
    by (simp add: tracker_ok_def claims_hold_def conflicts_known_def tracker_snapshots_only)
qed

lemma journal_inv_fields:
  assumes inv: "journal_inv kinds X s0 items (mem, tr)" and "fields_agree (cap items \<union> X) mem mem'"
  shows "journal_inv kinds X s0 items (mem', tr)"
proof -
  note D = journal_invD [OF inv, simplified]
  have "agree X items (mem, tr) (mem', tr)"
    using agree_refl [of items "(mem, tr)" X] D(2) assms(2) by (simp add: agree_def)
  then show ?thesis
    using journal_inv_agree [OF inv] D by simp
qed

end
