(* ===== verification/Undo_Programs.thy ===== *)
theory Undo_Programs
  imports Undo Program
begin

text \<open>
  The journal's invariant carried through every program of the write path (\<open>db_write.go\<close>,
  \<open>db_crud.go\<close>, \<open>db_hooks.go\<close>) that runs while a journal is open. \<open>undoable\<close> says of a world that its
  journal undoes it, and which instances have a recorded statement whose completion is still to
  come: an instance that was not tracked when recorded (\<open>Open\<close>) may yet be registered, the entry of
  one that was (\<open>Held\<close>) may yet be snapshotted again or forgotten. A prepared write is \<open>write_safe\<close> when
  its completion stays within that.
\<close>

section \<open>The frame\<close>

text \<open>
  What stays fixed during a flush: the key types, the map of each instance's type, the fields the
  undo is not responsible for, the state at the start, the session but for its tracker, and whether
  a transaction is open.
\<close>

record rollback_frame =
  fr_kinds :: "gotype \<Rightarrow> go_kind list"
  fr_map :: "ptr \<Rightarrow> EntityMap"
  fr_free :: "(ptr \<times> string) set"
  fr_start :: view
  fr_db :: Db
  fr_tx :: bool

text \<open>A map with distinct property names and comparable keys, as \<open>NewEntityMap\<close> and the loaders build them.\<close>

definition sound_map :: "(gotype \<Rightarrow> go_kind list) \<Rightarrow> EntityMap \<Rightarrow> bool" where
  "sound_map kinds m \<longleftrightarrow> kinds (Type m) = map ValueType (KeyProperties m) \<and> distinct (map PropertyName (Properties m)) \<and>
     (\<forall>p \<in> set (Properties m). ValueType p \<noteq> KNil) \<and> (\<forall>p \<in> set (KeyProperties m). \<forall>t. ValueType p \<noteq> KFloat t)"

definition typed_store :: "(ptr \<Rightarrow> EntityMap) \<Rightarrow> memory \<Rightarrow> bool" where
  "typed_store mp mem \<longleftrightarrow> (\<forall>p. \<forall>q \<in> set (Properties (mp p)). field_typed q (fvals mem p (PropertyName q)))"

definition frame_ok :: "rollback_frame \<Rightarrow> bool" where
  "frame_ok F \<longleftrightarrow> (\<forall>p. sound_map (fr_kinds F) (fr_map F p) \<and> db_maps (fr_db F) (Type (fr_map F p)) = Inr (fr_map F p))"

definition journaled :: "rollback_frame \<Rightarrow> undo_item list \<Rightarrow> tracker \<Rightarrow> 'd world \<Rightarrow> bool" where
  "journaled F items tr w \<longleftrightarrow>
     w_journal w = Some (map undo_of (rev items)) \<and> w_tx w = fr_tx F \<and> w_db w = (fr_db F)\<lparr>db_tracker := Some tr\<rparr> \<and>
     journal_inv (fr_kinds F) (fr_free F) (fr_start F) items (w_mem w, tr) \<and>
     typed_store (fr_map F) (w_mem w) \<and> (\<forall>e \<in> tracked tr. te_m e = fr_map F (te_ptr e))"

datatype status = Open ptr | Held trackedEntry

fun status_ptr :: "status \<Rightarrow> ptr" where
  "status_ptr (Open p) = p"
| "status_ptr (Held e) = te_ptr e"

definition covered :: "rollback_frame \<Rightarrow> undo_item list \<Rightarrow> ptr \<Rightarrow> bool" where
  "covered F items p \<longleftrightarrow> (\<forall>q \<in> set (captured (fr_map F p)). (p, PropertyName q) \<in> cap items)"

fun status_holds :: "rollback_frame \<Rightarrow> undo_item list \<Rightarrow> tracker \<Rightarrow> status \<Rightarrow> bool" where
  "status_holds F items tr (Open p) \<longleftrightarrow> claim items p = Any \<and> byPtr tr p = None \<and> covered F items p"
| "status_holds F items tr (Held e) \<longleftrightarrow> claim items (te_ptr e) = Fixed e \<and> e \<in> recorded items \<and> covered F items (te_ptr e)"

definition undoable :: "rollback_frame \<Rightarrow> status set \<Rightarrow> ptr set \<Rightarrow> 'd world \<Rightarrow> bool" where
  "undoable F S U w \<longleftrightarrow>
     (\<exists>items tr. journaled F items tr w \<and> (\<forall>st \<in> S. status_holds F items tr st) \<and> (\<forall>p \<in> U. byPtr tr p = None))"

lemma undoable_mono: "undoable F S U w \<Longrightarrow> S' \<subseteq> S \<Longrightarrow> U' \<subseteq> U \<Longrightarrow> undoable F S' U' w"
  unfolding undoable_def by blast

lemma undoable_ext [simp]: "undoable F S U (w\<lparr>w_ext := d\<rparr>) = undoable F S U w"
  by (simp add: undoable_def journaled_def)

text \<open>What a step on one instance leaves of the others.\<close>

definition keeps_others :: "ptr set \<Rightarrow> undo_item list \<Rightarrow> tracker \<Rightarrow> undo_item list \<Rightarrow> tracker \<Rightarrow> bool" where
  "keeps_others P items tr items' tr' \<longleftrightarrow>
     (\<forall>q. q \<notin> P \<longrightarrow> (byPtr tr' q = None \<or> byPtr tr' q = byPtr tr q) \<and>
        (claim items' q = claim items q \<or> (\<exists>h. byPtr tr q = Some h \<and> claim items' q = Fixed h))) \<and>
     recorded items \<subseteq> recorded items' \<and> cap items \<subseteq> cap items'"

lemma status_kept:
  assumes "keeps_others P items tr items' tr'" and "claims_hold items tr" and "status_holds F items tr st" and "status_ptr st \<notin> P"
  shows "status_holds F items' tr' st"
proof -
  let ?q = "status_ptr st"
  have k: "byPtr tr' ?q = None \<or> byPtr tr' ?q = byPtr tr ?q" "claim items' ?q = claim items ?q \<or> (\<exists>h. byPtr tr ?q = Some h \<and> claim items' ?q = Fixed h)"
      "recorded items \<subseteq> recorded items'"
    using assms(1,4) unfolding keeps_others_def by blast+
  have c: "covered F items' ?q" if "covered F items ?q"
    using assms(1) that unfolding keeps_others_def covered_def by blast
  show ?thesis
  proof (cases st)
    case (Open p)
    then show ?thesis
      using k c assms(3) by auto
  next
    case (Held e)
    have "byPtr tr ?q = None \<or> byPtr tr ?q = Some e"
      using assms(2,3) Held by (simp add: claims_hold_def)
    then have "claim items' ?q = Fixed e"
      using k(2) assms(3) Held by fastforce
    then show ?thesis
      using k(3) c assms(3) Held by auto
  qed
qed

lemma journaledD:
  assumes "journaled F items tr w"
  shows "tracker_inv (fr_kinds F) tr" "claims_hold items tr" "db_tracker (w_db w) = Some tr" "db_maps (w_db w) = db_maps (fr_db F)"
    "db_conv (w_db w) = db_conv (fr_db F)" "typed_store (fr_map F) (w_mem w)"
    "journal_inv (fr_kinds F) (fr_free F) (fr_start F) items (w_mem w, tr)" "w_journal w = Some (map undo_of (rev items))"
    "\<And>e. e \<in> tracked tr \<Longrightarrow> te_m e = fr_map F (te_ptr e)"
  using assms journal_invD [of "fr_kinds F" "fr_free F" "fr_start F" items "(w_mem w, tr)"] unfolding journaled_def by simp_all

text \<open>A step on the instances in \<open>P\<close> that leads to another journaled world.\<close>

lemma undoable_step:
  assumes "journaled F items tr w" and "\<forall>st \<in> S. status_holds F items tr st" and "\<forall>p \<in> U. byPtr tr p = None"
    and "journaled F items' tr' w'" and "keeps_others P items tr items' tr'"
    and "\<forall>st \<in> S'. status_ptr st \<in> P \<longrightarrow> status_holds F items' tr' st" and "\<forall>st \<in> S'. status_ptr st \<notin> P \<longrightarrow> st \<in> S"
    and "U' \<subseteq> U" "U' \<inter> P = {}"
  shows "undoable F S' U' w'"
proof -
  have "status_holds F items' tr' st" if "st \<in> S'" for st
    using that assms(2,6,7) status_kept [OF assms(5) journaledD(2) [OF assms(1)], of F st] by blast
  moreover have "byPtr tr' p = None" if "p \<in> U'" for p
    using that assms(3,5,8,9) unfolding keeps_others_def by fastforce
  ultimately show ?thesis
    unfolding undoable_def using assms(4) by blast
qed

section \<open>Typed fields\<close>

lemma sound_field:
  assumes "sound_map kinds m" "q \<in> set (Properties m)" "q' \<in> set (Properties m)" "PropertyName q = PropertyName q'"
  shows "q = q'"
  using assms unfolding sound_map_def distinct_map inj_on_def by blast

lemma PropertyMap_Set_typed_value:
  assumes "PropertyMap_Set mem q p v = Inr mem'" and "ValueType q \<noteq> KNil"
  shows "\<exists>v'. mem' = Set_field mem q p v' \<and> field_typed q v'"
proof (cases "v = VNil")
  case True
  then have "mem' = Set_field mem q p (zero_value q)"
    using assms by (simp add: PropertyMap_Set_def)
  moreover have "zero_of_kind (ValueType q) \<noteq> VNil"
    using assms(2) by (metis kind_of_zero kind_of_VNil)
  then have "field_typed q (zero_value q)"
    by (auto simp: field_typed_def zero_value_def)
  ultimately show ?thesis
    by blast
next
  case False
  then show ?thesis
    using assms by (auto simp: PropertyMap_Set_def field_typed_def split: if_splits)
qed

lemma typed_key:
  assumes "sound_map kinds m" and "typed_store mp mem" and "mp p = m" and "keyOf mem m p = (key, True)"
  shows "key_typed (kinds (Type m)) key"
proof -
  have key: "key = map (\<lambda>q. Get mem q p) (KeyProperties m)" "VNil \<notin> set key"
    using assms(4) by (auto simp: keyOf_def HasNull_def)
  have part: "kind_of (Get mem q p) = ValueType q \<and> ordered_value (Get mem q p)" if q: "q \<in> set (KeyProperties m)" for q
  proof -
    have "field_typed q (Get mem q p)"
      using assms(2,3) q by (auto simp: typed_store_def KeyProperties_def Get_def)
    moreover have "Get mem q p \<noteq> VNil"
      using key q by force
    ultimately have k: "kind_of (Get mem q p) = ValueType q"
      by (simp add: field_typed_def)
    moreover have "\<forall>t. ValueType q \<noteq> KFloat t"
      using assms(1) q by (auto simp: sound_map_def)
    ultimately have "\<forall>t. kind_of (Get mem q p) \<noteq> KFloat t"
      by simp
    then show ?thesis
      using k \<open>Get mem q p \<noteq> VNil\<close> by (cases "Get mem q p") simp_all
  qed
  then show ?thesis
    using assms(1) key(1) by (simp add: key_typed_def sound_map_def)
qed

lemma captured_properties: "set (captured m) \<subseteq> set (Properties m)"
proof -
  have *: "find P xs = Some x \<Longrightarrow> x \<in> set xs" for P and xs :: "PropertyMap list" and x
    by (auto simp: find_Some_iff)
  show ?thesis
    by (auto simp: captured_def KeyProperties_def VersionProperty_def CreatedAtProperty_def UpdatedAtProperty_def
        SoftDeleteProperty_def map_filter_simps dest: * split: option.splits)
qed

definition writable :: "rollback_frame \<Rightarrow> status set \<Rightarrow> ptr \<Rightarrow> PropertyMap \<Rightarrow> bool" where
  "writable F S p q \<longleftrightarrow> q \<in> set (Properties (fr_map F p)) \<and>
     ((p, PropertyName q) \<in> fr_free F \<or> (\<exists>st \<in> S. status_ptr st = p) \<and> q \<in> set (captured (fr_map F p)))"

lemma undoable_set:
  assumes F: "frame_ok F" and w: "undoable F S U w" and q: "writable F S p q"
    and run: "PropertyMap_Set (w_mem w) q p v = Inr mem'"
  shows "undoable F S U (w\<lparr>w_mem := mem'\<rparr>)"
proof -
  obtain items tr where j: "journaled F items tr w" "\<forall>st \<in> S. status_holds F items tr st" "\<forall>p \<in> U. byPtr tr p = None"
    using w unfolding undoable_def by blast
  obtain v' where v': "mem' = Set_field (w_mem w) q p v'" "field_typed q v'"
    using PropertyMap_Set_typed_value [OF run] F q by (auto simp: frame_ok_def sound_map_def writable_def)
  have "(p, PropertyName q) \<in> cap items \<union> fr_free F"
  proof (cases "(p, PropertyName q) \<in> fr_free F")
    case False
    then obtain st where "st \<in> S" "status_ptr st = p" "q \<in> set (captured (fr_map F p))"
      using q unfolding writable_def by blast
    then have "covered F items p"
      using j(2) by (cases st) auto
    then show ?thesis
      using \<open>q \<in> set (captured (fr_map F p))\<close> by (simp add: covered_def)
  qed simp
  then have "fields_agree (cap items \<union> fr_free F) (w_mem w) mem'"
    by (auto simp: fields_agree_def v'(1) Set_field_def)
  then have "journal_inv (fr_kinds F) (fr_free F) (fr_start F) items (mem', tr)"
    using journal_inv_fields journaledD(7) [OF j(1)] by blast
  moreover have "typed_store (fr_map F) mem'"
    unfolding typed_store_def
  proof (intro allI ballI)
    fix r q'
    assume q': "q' \<in> set (Properties (fr_map F r))"
    have "q' = q" if "r = p" "PropertyName q' = PropertyName q"
      using sound_field [of "fr_kinds F" "fr_map F p" q' q] F q q' that by (simp add: frame_ok_def writable_def)
    then show "field_typed q' (fvals mem' r (PropertyName q'))"
      using q' v' journaledD(6) [OF j(1)] by (auto simp: typed_store_def Set_field_def)
  qed
  ultimately have "journaled F items tr (w\<lparr>w_mem := mem'\<rparr>)"
    using j(1) by (simp add: journaled_def)
  then show ?thesis
    unfolding undoable_def using j(2,3) by blast
qed


section \<open>The programs of the write path\<close>

definition quiet :: "('d world \<Rightarrow> bool) \<Rightarrow> (memory \<Rightarrow> memory) \<Rightarrow> bool" where
  "quiet I f \<longleftrightarrow> (\<forall>w. I w \<longrightarrow> I (on_mem f w))"

lemma quiet_id: "quiet I id"
  by (simp add: quiet_def on_mem_def)

lemma on_mem_comp: "on_mem (f \<circ> g) w = on_mem f (on_mem g w)"
  by (simp add: on_mem_def)

lemma quiet_comp: "quiet I f \<Longrightarrow> quiet I g \<Longrightarrow> quiet I (f \<circ> g)"
  by (simp add: quiet_def on_mem_comp)

lemma outside_keeps: "keeps (undoable F S U) (outside f)"
  by (auto simp: keeps_def valid_def outside_def Let_def split: prod.splits sum.splits)

lemma check_ctx_keeps: "keeps I (check_ctx env)"
  by (auto simp: keeps_def valid_def check_ctx_def split: option.splits)

lemma setP_keeps: "frame_ok F \<Longrightarrow> writable F S p q \<Longrightarrow> keeps (undoable F S U) (setP q p v)"
  by (auto simp: keeps_def valid_def setP_def intro: undoable_set split: sum.splits)

lemma set_quiet_quiet:
  assumes "frame_ok F" "writable F S p q"
  shows "quiet (undoable F S U) (set_quiet q p v)"
  unfolding quiet_def
proof (intro allI impI)
  fix w :: "'a world"
  assume w: "undoable F S U w"
  show "undoable F S U (on_mem (set_quiet q p v) w)"
    using undoable_set [OF assms(1) w assms(2), of v] w
    by (cases "PropertyMap_Set (w_mem w) q p v") (auto simp: on_mem_def set_quiet_def)
qed

text \<open>The properties the write path sets on an instance whose statement is recorded.\<close>

lemma writable_captured: "st \<in> S \<Longrightarrow> q \<in> set (captured (fr_map F (status_ptr st))) \<Longrightarrow> writable F S (status_ptr st) q"
  using captured_properties by (auto simp: writable_def)

lemma captured_roles:
  "q \<in> set (KeyProperties m) \<Longrightarrow> q \<in> set (captured m)" "VersionProperty m = Some q \<Longrightarrow> q \<in> set (captured m)"
  "CreatedAtProperty m = Some q \<Longrightarrow> q \<in> set (captured m)" "UpdatedAtProperty m = Some q \<Longrightarrow> q \<in> set (captured m)"
  "SoftDeleteProperty m = Some q \<Longrightarrow> q \<in> set (captured m)"
  by (auto simp: captured_def map_filter_def)

lemma now_keeps: "keeps (undoable F S U) (now env)"
  unfolding now_def by (rule keeps_option; rule outside_keeps)

lemma fillCreatedAt_yields:
  assumes F: "frame_ok F" and st: "st \<in> S"
  shows "yields (undoable F S U) (fillCreatedAt (env :: 'd env) (fr_map F (status_ptr st)) (status_ptr st)) (quiet (undoable F S U :: 'd world \<Rightarrow> bool))"
proof -
  have w: "writable F S (status_ptr st) q" if "CreatedAtProperty (fr_map F (status_ptr st)) = Some q" for q
    using writable_captured [OF st captured_roles(3) [OF that]] .
  show ?thesis
    unfolding fillCreatedAt_def
    by (intro yields_option yields_keep_bind keeps_get)
      (auto intro!: yields_ret quiet_id yields_keep_bind now_keeps setP_keeps F w set_quiet_quiet)
qed

lemma stampSet_yields:
  assumes F: "frame_ok F" and st: "st \<in> S"
  shows "yields (undoable F S U) (stampSet (env :: 'd env) (fr_map F (status_ptr st)) (status_ptr st) cols)
    (\<lambda>(cols, f). quiet (undoable F S U :: 'd world \<Rightarrow> bool) f)"
proof -
  have w: "writable F S (status_ptr st) q" if "UpdatedAtProperty (fr_map F (status_ptr st)) = Some q" for q
    using writable_captured [OF st captured_roles(4) [OF that]] .
  show ?thesis
    unfolding stampSet_def
    by (intro yields_option yields_keep_bind keeps_get now_keeps setP_keeps F)
      (auto intro!: yields_ret quiet_id F w set_quiet_quiet)
qed

lemma countedWrite_keeps: "keeps I (countedWrite env t p bt)"
  unfolding countedWrite_def by (intro keeps_bind keeps_intros)

lemma assign_guid_keeps:
  assumes F: "frame_ok F" and st: "st \<in> S"
  shows "keeps (undoable F S U) (assign_guid env (fr_map F (status_ptr st)) (status_ptr st))"
proof -
  have w: "writable F S (status_ptr st) q" if "KeyProperties (fr_map F (status_ptr st)) = q # qs" for q qs
    using writable_captured [OF st captured_roles(1)] that by simp
  show ?thesis
    unfolding assign_guid_def
    by (intro keeps_if keeps_ret keeps_list keeps_fail keeps_bind keeps_get)
      (auto intro!: keeps_ret keeps_bind outside_keeps setP_keeps F w split: gvalue.split)
qed

lemma updateJudge_keeps:
  assumes F: "frame_ok F" and st: "st \<in> S"
  shows "keeps (undoable F S U) (updateJudge t (fr_map F (status_ptr st)) (status_ptr st) n)"
proof -
  have w: "writable F S (status_ptr st) q" if "VersionProperty (fr_map F (status_ptr st)) = Some q" for q
    using writable_captured [OF st captured_roles(2) [OF that]] .
  show ?thesis
    unfolding updateJudge_def by (intro keeps_if keeps_fail keeps_option keeps_ret keeps_bind keeps_get keeps_lift setP_keeps F w)
qed

lemma soft_delete_flag_writable: "st \<in> S \<Longrightarrow> soft_delete_flag (fr_map F (status_ptr st)) = Inr q \<Longrightarrow> writable F S (status_ptr st) q"
  using writable_captured [OF _ captured_roles(5)] by (auto simp: soft_delete_flag_def split: option.splits)


section \<open>The journaled steps on the tracker\<close>

lemma journal_add_run: "journal_add u w = (Inr (), w\<lparr>w_journal := map_option (\<lambda>j. j @ [u]) (w_journal w)\<rparr>)"
  by (simp add: journal_add_def modifyP_def)

lemma keeps_others_refl: "keeps_others P items tr items tr"
  by (simp add: keeps_others_def)

text \<open>Journaling an entry that is there, or that the journal already speaks for.\<close>

lemma journal_restore:
  assumes j: "journaled F items tr w" and h: "h \<in> tracked tr \<or> claim items (te_ptr h) = Fixed h"
  shows "journaled F (RS h # items) tr (w\<lparr>w_journal := map_option (\<lambda>j. j @ [undo_restore h]) (w_journal w)\<rparr>)"
  using j journal_inv_restore [OF journaledD(7) [OF j], of h] h by (simp add: journaled_def)

lemma trackJournaled_finish:
  assumes F: "frame_ok F" and S: "Open p \<in> S" "inj_on status_ptr S" "p \<notin> U"
  shows "valid (undoable F S U) (trackJournaled (fr_map F p) p) (\<lambda>_. undoable F (S - {Open p}) U) (\<lambda>_. undoable F {} {})"
proof (rule valid_case)
  fix w :: "'a world"
  assume w: "undoable F S U w"
  let ?m = "fr_map F p"
  obtain items tr where j: "journaled F items tr w" and st: "\<forall>st \<in> S. status_holds F items tr st" and u: "\<forall>p \<in> U. byPtr tr p = None"
    using w unfolding undoable_def by blast
  have others: "\<forall>st \<in> S - {Open p}. status_ptr st \<noteq> p"
    using S(1,2) by (metis DiffE inj_onD singletonI status_ptr.simps(1))
  have weak: "undoable F (S - {Open p}) U w" "undoable F {} {} w"
    by (rule undoable_mono [OF w]; blast)+
  obtain key ok where k: "keyOf (w_mem w) ?m p = (key, ok)"
    by (metis surj_pair)
  show "valid ((=) w) (trackJournaled ?m p) (\<lambda>_. undoable F (S - {Open p}) U) (\<lambda>_. undoable F {} {})"
  proof (cases "tracking (w_db w) ?m \<and> ok")
    case False
    then show ?thesis
      using weak k journaledD(8) [OF j]
      by (auto simp: valid_def trackJournaled_def bindP_def prog_defs trackP_def track_def)
  next
    case True
    have map: "sound_map (fr_kinds F) ?m"
      using F by (simp add: frame_ok_def)
    have key: "key_typed (fr_kinds F (Type ?m)) key"
      using typed_key [OF map journaledD(6) [OF j]] k True by simp
    obtain found where found: "tracker_find tr (Type ?m) key = Inr found"
        "\<And>e. found = Some e \<longleftrightarrow> e \<in> tracked tr \<and> Type (te_m e) = Type ?m \<and> same_key key e"
      using tracker_find_tracked [OF journaledD(1) [OF j] key] by blast
    define items' where "items' = (case found of Some h \<Rightarrow> if te_ptr h \<noteq> p then RS h # items else items | None \<Rightarrow> items)"
    define w' where "w' = w\<lparr>w_journal := Some (map undo_of (rev items'))\<rparr>"
    have same: "w\<lparr>w_journal := Some (map undo_of (rev items))\<rparr> = w"
      using journaledD(8) [OF j] by (cases w) simp
    have run: "trackJournaled ?m p w = trackP ?m p w'"
      using True k found(1) journaledD(3,8) [OF j]
      by (auto simp: trackJournaled_def bindP_def prog_defs journal_add_run the_tracker_def w'_def items'_def same split: option.splits)
    have j': "journaled F items' tr w'"
    proof (cases "\<exists>h. found = Some h \<and> te_ptr h \<noteq> p")
      case True
      then obtain h where h: "found = Some h" "te_ptr h \<noteq> p"
        by blast
      then have "journaled F (RS h # items) tr (w\<lparr>w_journal := map_option (\<lambda>j. j @ [undo_restore h]) (w_journal w)\<rparr>)"
        using journal_restore [OF j, of h] found(2) by blast
      then show ?thesis
        using h journaledD(8) [OF j] by (simp add: items'_def w'_def)
    next
      case False
      then have "items' = items"
        by (auto simp: items'_def split: option.splits)
      then show ?thesis
        using j by (auto simp: w'_def journaled_def)
    qed
    have claims': "claim items' q = claim items q \<or> (\<exists>h. byPtr tr q = Some h \<and> claim items' q = Fixed h)" if "q \<noteq> p" for q
      using found(2) by (auto simp: items'_def tracked_def split: option.splits)
    have p_any: "claim items' p = Any"
      using st S(1) by (auto simp: items'_def split: option.splits)
    have grows: "recorded items \<subseteq> recorded items'" "cap items \<subseteq> cap items'"
      by (auto simp: items'_def split: option.splits)
    have k1: "keeps_others {p} items tr items' tr"
      using claims' grows by (simp add: keeps_others_def)
    have err: "undoable F {} {} w'"
      unfolding undoable_def using j' by blast
    show ?thesis
    proof (cases "tracker_register (db_conv (w_db w)) (w_mem w) tr ?m p key")
      case (Inl e)
      then have "trackP ?m p w' = (Inl e, w')"
        using True k journaledD(3) [OF j] by (simp add: trackP_def track_def the_tracker_def w'_def)
      then show ?thesis
        using run err by (simp add: valid_def)
    next
      case (Inr r)
      obtain e tr' where r: "r = (e, tr')"
        by (cases r)
      let ?w = "w'\<lparr>w_db := (w_db w')\<lparr>db_tracker := Some tr'\<rparr>\<rparr>"
      have run2: "trackP ?m p w' = (Inr (), ?w)"
        using Inr r True k journaledD(3) [OF j] by (simp add: trackP_def track_def the_tracker_def w'_def)
      have reg: "tracker_register (db_conv (w_db w)) (w_mem w') tr ?m p key = Inr (e, tr')"
        using Inr r by (simp add: w'_def)
      have holder: "claim items' (te_ptr h) \<noteq> Free" if "h \<in> tracked tr" "displaced ?m p key h" "te_ptr h \<noteq> p" for h
      proof -
        have "found = Some h"
          using found(2) that by (simp add: displaced_def)
        then show ?thesis
          using that(3) by (simp add: items'_def)
      qed
      note j2 = journal_inv_register [OF journaledD(7) [OF j'] p_any key reg holder]
      obtain snap where "snapshotOf (db_conv (w_db w)) (w_mem w') ?m p = Inr snap"
        using reg by (auto simp: tracker_register_def bindR_Inr_iff)
      then have new: "te_m e = ?m" "te_ptr e = p" "tracked tr' \<subseteq> insert e (tracked tr)"
        using tracker_register_ok [OF journaledD(1) [OF j] key, of "db_conv (w_db w)" "w_mem w'" p snap] reg by auto
      have "journaled F items' tr' ?w"
        using j' j2(1) new journaledD(9) [OF j] unfolding journaled_def by auto
      moreover have "keeps_others {p} items tr items' tr'"
        using k1 j2(2) unfolding keeps_others_def by blast
      ultimately have "undoable F (S - {Open p}) U ?w"
        using undoable_step [OF j st u, of items' tr' ?w "{p}" "S - {Open p}" U] others S(3) by blast
      then show ?thesis
        using run run2 by (simp add: valid_def)
    qed
  qed
qed


lemma resnapshot_keeps:
  assumes "Held e \<in> S"
  shows "keeps (undoable F S U) (resnapshotP e ps :: ('d world, unit) prog)"
  unfolding resnapshotP_def
proof (rule keeps_each)
  fix q
  show "keeps (undoable F S U) (bindP (getP id) (\<lambda>w :: 'd world. bindP (liftR (the_tracker (w_db w)))
      (\<lambda>tr. bindP (liftR (tracker_resnapshot (db_conv (w_db w)) (w_mem w) tr e [q])) set_tracker)))" (is "keeps _ ?m")
    unfolding keeps_def
  proof (rule valid_case)
    fix w :: "'d world"
    assume w: "undoable F S U w"
    then obtain items tr where j: "journaled F items tr w" "\<forall>st \<in> S. status_holds F items tr st" "\<forall>p \<in> U. byPtr tr p = None"
      unfolding undoable_def by blast
    show "valid ((=) w) ?m (\<lambda>_. undoable F S U) (\<lambda>_. undoable F S U)"
    proof (cases "resnapshot_one (db_conv (w_db w)) (w_mem w) e q (tr_snapshots tr (te_seq e))")
      case (Inl err)
      then show ?thesis
        using w journaledD(3) [OF j(1)] by (simp add: valid_def bindP_def prog_defs the_tracker_def tracker_resnapshot_def)
    next
      case (Inr snap)
      let ?tr = "tr\<lparr>tr_snapshots := (tr_snapshots tr)(te_seq e := snap)\<rparr>"
      let ?w = "w\<lparr>w_db := (w_db w)\<lparr>db_tracker := Some ?tr\<rparr>\<rparr>"
      have "length snap = length (tr_snapshots tr (te_seq e))"
        using Inr by (auto simp: resnapshot_one_def bindR_Inr_iff split: option.splits if_splits)
      moreover have "e \<in> recorded items"
        using j(2) assms by auto
      ultimately have "journaled F items ?tr ?w"
        using journal_inv_snapshot [OF journaledD(7) [OF j(1)], of e snap] j(1) by (simp add: journaled_def tracker_snapshots_only)
      moreover have "keeps_others {} items tr items ?tr"
        by (simp add: keeps_others_def tracker_snapshots_only)
      ultimately have "undoable F S U ?w"
        using undoable_step [OF j, of items ?tr ?w "{}" S U] by simp
      moreover have "?m w = (Inr (), ?w)"
        using Inr journaledD(3) [OF j(1)] by (simp add: bindP_def prog_defs the_tracker_def tracker_resnapshot_def set_tracker_def)
      ultimately show ?thesis
        by (simp add: valid_def)
    qed
  qed
qed

lemma forgetEntryJournaled_keeps:
  assumes "\<And>e. entry = Some e \<Longrightarrow> Held e \<in> S"
  shows "keeps (undoable F S U) (forgetEntryJournaled entry :: ('d world, unit) prog)"
proof (cases entry)
  case None
  then show ?thesis
    by (simp add: forgetEntryJournaled_def keeps_ret)
next
  case (Some e)
  show ?thesis
    unfolding keeps_def
  proof (rule valid_case)
    fix w :: "'d world"
    assume "undoable F S U w"
    then obtain items tr where j: "journaled F items tr w" "\<forall>st \<in> S. status_holds F items tr st" "\<forall>p \<in> U. byPtr tr p = None"
      unfolding undoable_def by blast
    have e: "claim items (te_ptr e) = Fixed e"
      using j(2) assms [OF Some] by auto
    let ?items = "RS e # items" and ?w = "w\<lparr>w_journal := map_option (\<lambda>j. j @ [undo_restore e]) (w_journal w)\<rparr>"
    have j': "journaled F ?items tr ?w"
      using journal_restore [OF j(1), of e] e by simp
    have "claim ?items (te_ptr e) = Fixed e"
      by simp
    then obtain tr' where tr': "tracker_forget tr e = Inr tr'"
        "journal_inv (fr_kinds F) (fr_free F) (fr_start F) ?items (w_mem ?w, tr')" "\<And>q. byPtr tr' q = None \<or> byPtr tr' q = byPtr tr q"
      using journal_inv_forget [OF journaledD(7) [OF j']] by blast
    let ?w' = "?w\<lparr>w_db := (w_db w)\<lparr>db_tracker := Some tr'\<rparr>\<rparr>"
    have "tracked tr' \<subseteq> tracked tr"
    proof
      fix f
      assume "f \<in> tracked tr'"
      then have "byPtr tr' (te_ptr f) = Some f"
        by (simp add: tracked_def)
      then have "byPtr tr (te_ptr f) = Some f"
        using tr'(3) [of "te_ptr f"] by (metis option.distinct(1))
      then show "f \<in> tracked tr"
        by (simp add: tracked_def)
    qed
    then have "journaled F ?items tr' ?w'"
      using j' tr'(2) unfolding journaled_def by auto
    moreover have "keeps_others {} items tr ?items tr'"
      using tr'(3) e by (auto simp: keeps_others_def)
    ultimately have "undoable F S U ?w'"
      using undoable_step [OF j, of ?items tr' ?w' "{}" S U] by simp
    moreover have "forgetEntryJournaled entry w = (Inr (), ?w')"
      using Some journaledD(3) [OF j(1)] tr'(1)
      by (simp add: forgetEntryJournaled_def bindP_def prog_defs journal_add_run the_tracker_def set_tracker_def)
    ultimately show "valid ((=) w) (forgetEntryJournaled entry) (\<lambda>_. undoable F S U) (\<lambda>_. undoable F S U)"
      by (simp add: valid_def)
  qed
qed

text \<open>Recording an instance gives it a status.\<close>

definition entry_status :: "ptr \<Rightarrow> trackedEntry option \<Rightarrow> status" where
  "entry_status p entry = (case entry of None \<Rightarrow> Open p | Some e \<Rightarrow> Held e)"

lemma recordWrite_records:
  assumes F: "frame_ok F" and w: "undoable F S U w" and S: "p \<notin> status_ptr ` S"
    and run: "recordWrite (fr_map F p) p w = (r, w')"
  shows "w_db w' = w_db w \<and> (case r of
      Inl e \<Rightarrow> undoable F {} {} w'
    | Inr _ \<Rightarrow> undoable F (insert (entry_status p (byPtr (the (db_tracker (w_db w))) p)) S) (U - {p}) w')"
proof -
  let ?m = "fr_map F p"
  obtain items tr where j: "journaled F items tr w" and st: "\<forall>st \<in> S. status_holds F items tr st" and u: "\<forall>p \<in> U. byPtr tr p = None"
    using w unfolding undoable_def by blast
  define vals where "vals = map (\<lambda>property. (property, Get (w_mem w) property p)) (captured ?m)"
  define entry where "entry = byPtr tr p"
  define snapshot where "snapshot = (case entry of Some e \<Rightarrow> tr_snapshots tr (te_seq e) | None \<Rightarrow> [])"
  define found where "found = (let (key, ok) = keyOf (w_mem w) ?m p in if ok then tracker_find tr (Type ?m) key else Inr None)"
  have rec: "recordWrite ?m p w = bindP (liftR found) (\<lambda>holder. journal_add (undo_write p vals entry snapshot holder)) w"
    using journaledD(3,8) [OF j]
    by (simp add: recordWrite_def entryOf_def vals_def entry_def snapshot_def found_def split: option.splits)
  show ?thesis
  proof (cases found)
    case (Inl e)
    then show ?thesis
      using rec run undoable_mono [OF w] by (auto simp: failP_def)
  next
    case (Inr holder)
    let ?i = "RW p vals entry snapshot holder"
    let ?w = "w\<lparr>w_journal := map_option (\<lambda>j. j @ [undo_of ?i]) (w_journal w)\<rparr>"
    have r: "r = Inr ()" "w' = ?w"
      using run rec Inr by (simp_all add: journal_add_run)
    have holder: "h \<in> tracked tr" if h: "holder = Some h" for h
    proof -
      obtain key where key: "keyOf (w_mem w) ?m p = (key, True)" "tracker_find tr (Type ?m) key = Inr (Some h)"
        using Inr h by (auto simp: found_def split: prod.splits if_splits)
      have "key_typed (fr_kinds F (Type ?m)) key"
        using typed_key [OF _ journaledD(6) [OF j] refl key(1)] F by (simp add: frame_ok_def)
      then show ?thesis
        using tracker_find_tracked [OF journaledD(1) [OF j]] key(2) by fastforce
    qed
    have "journal_inv (fr_kinds F) (fr_free F) (fr_start F) (?i # items) (w_mem w, tr)"
    proof (rule journal_inv_record [OF journaledD(7) [OF j]])
      show "\<forall>(property, v) \<in> set vals. field_typed property v \<and> v = fvals (fst (w_mem w, tr)) p (PropertyName property)"
        using journaledD(6) [OF j] captured_properties [of ?m] by (auto simp: vals_def typed_store_def Get_def)
    qed (use holder in \<open>auto simp: entry_def snapshot_def\<close>)
    then have j': "journaled F (?i # items) tr ?w"
      using j by (simp add: journaled_def)
    have own: "status_holds F (?i # items) tr (entry_status p (byPtr tr p))" "status_ptr (entry_status p (byPtr tr p)) = p"
    proof -
      have "covered F (?i # items) p"
        by (auto simp: covered_def vals_def image_image intro!: image_eqI)
      moreover have "te_ptr e = p" if "byPtr tr p = Some e" for e
        using byPtr_tracked [OF journaledD(1) [OF j]] that by blast
      ultimately show "status_holds F (?i # items) tr (entry_status p (byPtr tr p))" "status_ptr (entry_status p (byPtr tr p)) = p"
        by (auto simp: entry_status_def entry_def split: option.splits)
    qed
    have "claim (?i # items) q = claim items q \<or> (\<exists>h. byPtr tr q = Some h \<and> claim (?i # items) q = Fixed h)" if "q \<noteq> p" for q
      using that holder by (auto simp: tracked_def split: option.splits)
    then have "keeps_others {p} items tr (?i # items) tr"
      by (auto simp: keeps_others_def)
    then have "undoable F (insert (entry_status p (byPtr tr p)) S) (U - {p}) ?w"
      using undoable_step [OF j st u j', of "{p}" "insert (entry_status p (byPtr tr p)) S" "U - {p}"] own S by auto
    then show ?thesis
      using r journaledD(3) [OF j] by simp
  qed
qed


section \<open>Prepared writes complete within the journal\<close>

definition write_safe :: "rollback_frame \<Rightarrow> status \<Rightarrow> 'd preparedWrite \<Rightarrow> bool" where
  "write_safe F st write \<longleftrightarrow> (\<forall>result S U. st \<in> S \<longrightarrow> inj_on status_ptr S \<longrightarrow> status_ptr st \<notin> U \<longrightarrow>
     valid (undoable F S U) (finishP write result) (\<lambda>_. undoable F (S - {st}) U) (\<lambda>_. undoable F {} {}))"

lemma undoable_less: "undoable F S U w \<Longrightarrow> undoable F (S - A) U w" and undoable_none: "undoable F S U w \<Longrightarrow> undoable F {} {} w"
  by (auto elim: undoable_mono)

lemma keeps_completes: "keeps (undoable F S U) m \<Longrightarrow> valid (undoable F S U) m (\<lambda>_. undoable F (S - {st}) U) (\<lambda>_. undoable F {} {})"
  unfolding keeps_def by (erule valid_weaken) (auto intro: undoable_less undoable_none)

lemma write_safe_cong: "pw_finish write' = pw_finish write \<Longrightarrow> write_safe F st write \<Longrightarrow> write_safe F st write'"
  by (simp add: write_safe_def finishP_def)

lemma finish_insert_safe:
  assumes F: "frame_ok F" and finish: "pw_finish write = Some (finish_insert env t (fr_map F p) p)"
  shows "write_safe F (Open p) write"
  unfolding write_safe_def finishP_def finish option.case finish_insert_def
proof (intro allI impI)
  fix result S U
  assume S: "Open p \<in> S" "inj_on status_ptr S" "status_ptr (Open p) \<notin> U"
  have key: "writable F S p q" if "KeyProperties (fr_map F p) = q # qs" for q qs
    using writable_captured [OF S(1), of q F] captured_roles(1) that by simp
  show "valid (undoable F S U) (bindP (if Strategy (fr_map F p) = KeyDatabaseGenerated
         then case KeyProperties (fr_map F p) of [] \<Rightarrow> failP GoPanic
           | keyProperty # _ \<Rightarrow> bindP (liftR (FromDatabase env (wr_key result) keyProperty (t @ ''.'' @ PropertyName keyProperty)))
                (setP keyProperty p)
         else retP ()) (\<lambda>_. trackJournaled (fr_map F p) p)) (\<lambda>_. undoable F (S - {Open p}) U) (\<lambda>_. undoable F {} {})"
  proof (rule keeps_then)
    show "valid (undoable F S U) (trackJournaled (fr_map F p) p) (\<lambda>_. undoable F (S - {Open p}) U) (\<lambda>_. undoable F {} {})"
      using trackJournaled_finish [OF F S(1,2)] S(3) by simp
  qed (auto intro!: keeps_intros keeps_bind setP_keeps F key intro: undoable_none)
qed

lemma finishP_update: "finishP (write\<lparr>pw_undoPrepare := f, pw_finish := Some g\<rparr>) result = g result"
  by (simp add: finishP_def)

text \<open>Completing an update: of a tracked instance, and of one that was not.\<close>

lemma finish_tracked_safe:
  assumes F: "frame_ok F"
  shows "write_safe F (Held e) (write\<lparr>pw_undoPrepare := f, pw_finish := Some (\<lambda>result. bindP (updateJudge t (fr_map F (te_ptr e)) (te_ptr e) (wr_affected result))
    (\<lambda>_. resnapshotP e ps))\<rparr>)"
  unfolding write_safe_def finishP_update
  by (intro allI impI keeps_completes keeps_bind resnapshot_keeps updateJudge_keeps [OF F, where st = "Held e", simplified])

lemma finish_untracked_safe:
  assumes F: "frame_ok F"
  shows "write_safe F (Open p) (write\<lparr>pw_undoPrepare := f, pw_finish := Some (\<lambda>result. bindP (updateJudge t (fr_map F p) p (wr_affected result))
    (\<lambda>_. trackJournaled (fr_map F p) p))\<rparr>)"
  unfolding write_safe_def finishP_update
proof (intro allI impI)
  fix result S U
  assume S: "Open p \<in> S" "inj_on status_ptr S" "status_ptr (Open p) \<notin> U"
  show "valid (undoable F S U) (bindP (updateJudge t (fr_map F p) p (wr_affected result)) (\<lambda>_. trackJournaled (fr_map F p) p))
      (\<lambda>_. undoable F (S - {Open p}) U) (\<lambda>_. undoable F {} {})"
    using S by (intro keeps_then updateJudge_keeps [OF F S(1), simplified] trackJournaled_finish [OF F S(1,2)])
      (auto intro: undoable_none)
qed

lemma forget_entry_keeps: "entry_status p entry \<in> S \<Longrightarrow> keeps (undoable F S U) (forgetEntryJournaled entry)"
  by (rule forgetEntryJournaled_keeps) (simp add: entry_status_def)

lemma finish_delete_safe:
  assumes finish: "pw_finish write = Some (\<lambda>result. if wr_affected result = 0 then failP err else forgetEntryJournaled entry)"
  shows "write_safe F (entry_status p entry) write"
  unfolding write_safe_def finishP_def finish option.case
  by (intro allI impI keeps_completes keeps_if keeps_fail forget_entry_keeps)

lemma finish_soft_delete_safe:
  assumes F: "frame_ok F" and p: "status_ptr (entry_status p entry) = p"
    and finish: "pw_finish write = Some (\<lambda>result. bindP (updateJudge t (fr_map F p) p (wr_affected result)) (\<lambda>_. forgetEntryJournaled entry))"
  shows "write_safe F (entry_status p entry) write"
  unfolding write_safe_def finishP_def finish option.case
  by (intro allI impI keeps_completes keeps_bind forget_entry_keeps updateJudge_keeps [OF F, where st = "entry_status p entry", unfolded p])

section \<open>Preparing within the journal\<close>

lemma undoable_maps:
  assumes "frame_ok F" "undoable F S U w"
  shows "db_maps (w_db w) (Type (fr_map F p)) = Inr (fr_map F p)"
proof -
  obtain items tr where "journaled F items tr w"
    using assms(2) unfolding undoable_def by blast
  then show ?thesis
    using journaledD(4) [of F items tr w] assms(1) by (simp add: frame_ok_def)
qed

lemma undoable_tracker: "undoable F S U w \<Longrightarrow> \<exists>tr. db_tracker (w_db w) = Some tr \<and> tracker_inv (fr_kinds F) tr"
  unfolding undoable_def using journaledD(1,3) by blast

lemma writeIdentity_entry: "writeIdentity mem db m p = Inr entry \<Longrightarrow> db_tracker db = Some tr \<Longrightarrow> entry = byPtr tr p"
  by (auto simp: writeIdentity_def entryOf_def bindR_Inr_iff split: option.splits prod.splits if_splits)

lemma requireWritable_map: "requireWritableKeyedType db t = Inr m \<Longrightarrow> db_maps db t = Inr m' \<Longrightarrow> m = m'"
  by (auto simp: requireWritableKeyedType_def bindR_Inr_iff split: if_splits)

lemma insertStatement_yields: "yields I (insertStatement env t m p) (\<lambda>write. pw_finish write = Some (finish_insert env t m p))"
  unfolding insertStatement_def Let_def by (rule yieldsI) (auto intro!: keeps_bind keeps_intros returns_last)

lemma prepareInsert_safe:
  assumes F: "frame_ok F" and S: "Open p \<in> S"
  shows "yields (undoable F S U) (prepareInsert env (Type (fr_map F p)) p) (write_safe F (Open p))"
  unfolding prepareInsert_def
proof (rule yields_get_bind, rule yields_lift_bind)
  fix w :: "'a world" and m
  assume "undoable F S U w" "db_maps (w_db w) (Type (fr_map F p)) = Inr m"
  then have m: "m = fr_map F p"
    using undoable_maps [OF F] by fastforce
  note fill = fillCreatedAt_yields [OF F S, simplified] and guid = assign_guid_keeps [OF F S, simplified]
  show "yields (undoable F S U) (if Kind m \<noteq> RelationTable then failP (OrmError ''CRUD-003'' (Type (fr_map F p)))
       else bindP (getP w_mem) (\<lambda>mem.
         bindP (liftR (checkNavigationConsistency mem (w_db w) m p None)) (\<lambda>_.
         bindP (assign_guid env m p) (\<lambda>_.
         bindP (if Strategy m \<noteq> KeyDatabaseGenerated
                then bindP (getP w_mem) (\<lambda>mem. liftR (writeIdentity mem (w_db w) m p)) else retP None) (\<lambda>_.
         bindP (fillCreatedAt env m p) (\<lambda>restoreCreatedAt.
         bindP (on_error (insertStatement env (Type (fr_map F p)) m p) (on_mem restoreCreatedAt)) (\<lambda>write.
           retP (write\<lparr>pw_undoPrepare := restoreCreatedAt\<rparr>)))))))) (write_safe F (Open p))"
    unfolding m
    by (auto intro!: yields_fail yields_keep_bind keeps_intros keeps_bind guid yields_bind [OF fill]
        yields_bind [OF yields_on_error [OF insertStatement_yields]] yields_ret finish_insert_safe [OF F] simp: quiet_def)
qed


text \<open>The world after an instance was recorded, and its status.\<close>

definition recorded_as :: "rollback_frame \<Rightarrow> status set \<Rightarrow> ptr set \<Rightarrow> ptr \<Rightarrow> status \<Rightarrow> 'd world \<Rightarrow> bool" where
  "recorded_as F S U p st w \<longleftrightarrow> undoable F S U w \<and> st \<in> S \<and> entry_status p (byPtr (the (db_tracker (w_db w))) p) = st"

lemma recorded_identity:
  assumes "recorded_as F S U p st w" and "writeIdentity mem (w_db w) m p = Inr entry"
  shows "entry_status p entry = st" "status_ptr st = p"
proof -
  obtain tr where tr: "db_tracker (w_db w) = Some tr" "tracker_inv (fr_kinds F) tr"
    using assms(1) undoable_tracker [of F S U w] by (auto simp: recorded_as_def)
  then have entry: "entry = byPtr tr p"
    using writeIdentity_entry [OF assms(2)] by simp
  then show "entry_status p entry = st"
    using assms(1) tr(1) by (simp add: recorded_as_def)
  then show "status_ptr st = p"
    using byPtr_tracked [OF tr(2), THEN iffD1, OF entry [symmetric, THEN trans]] by (auto simp: entry_status_def split: option.splits)
qed

lemma prepareTrackedUpdate_safe:
  assumes F: "frame_ok F" and S: "Held e \<in> S"
  shows "yields (undoable F S U) (prepareTrackedUpdate env (fr_map F (te_ptr e)) e (te_ptr e)) (\<lambda>x. \<forall>write. x = Some write \<longrightarrow> write_safe F (Held e) write)"
proof -
  note stamp = stampSet_yields [OF F S, simplified]
  show ?thesis
    unfolding prepareTrackedUpdate_def Let_def
    by (auto intro!: yields_keep_bind keeps_intros yields_ret yields_bind [OF stamp] finish_tracked_safe [OF F]
        yields_bind [OF yields_on_error [OF countedWrite_keeps [unfolded yields_keeps [symmetric]]]] simp: quiet_def)
qed

lemma prepareUpdate_safe:
  assumes F: "frame_ok F"
  shows "valid (recorded_as F S U p st) (prepareUpdate env (Type (fr_map F p)) p)
    (\<lambda>x w. undoable F S U w \<and> (\<forall>write. x = Some write \<longrightarrow> write_safe F st write)) (\<lambda>_. undoable F S U)"
  unfolding prepareUpdate_def
proof (rule valid_get_yields, intro conjI yields_lift_bind)
  fix w :: "'a world" and m entry u
  assume w: "recorded_as F S U p st w"
  then show "undoable F S U w"
    by (simp add: recorded_as_def)
  assume m: "requireWritableKeyedType (w_db (id w)) (Type (fr_map F p)) = Inr m"
    and entry: "writeIdentity (w_mem (id w)) (w_db (id w)) m p = Inr entry"
  have m: "m = fr_map F p"
    using requireWritable_map [OF m] undoable_maps [OF F, of S U w p] w by (simp add: recorded_as_def)
  have st: "entry_status p entry = st" "status_ptr st = p" "st \<in> S"
    using recorded_identity [OF w, of "w_mem w" m entry] entry w by (simp_all add: recorded_as_def)
  show "yields (undoable F S U) (case entry of
         Some e \<Rightarrow> prepareTrackedUpdate env m e p
       | None \<Rightarrow>
           bindP (stampSet env m p []) (\<lambda>(_, restoreStamp).
           bindP (on_error (countedWrite env (Type (fr_map F p)) p (updateText env m)) (on_mem restoreStamp)) (\<lambda>write.
             retP (Some (write\<lparr>pw_undoPrepare := restoreStamp,
               pw_finish := Some (\<lambda>result. bindP (updateJudge (Type (fr_map F p)) m p (wr_affected result)) (\<lambda>_.
                 trackJournaled m p))\<rparr>))))) (\<lambda>x. \<forall>write. x = Some write \<longrightarrow> write_safe F st write)"
  proof (cases entry)
    case None
    then have p: "st = Open p"
      using st by (simp add: entry_status_def)
    note stamp = stampSet_yields [OF F st(3), unfolded st(2)]
    show ?thesis
      unfolding m None option.case p
      by (auto intro!: yields_ret yields_bind [OF stamp] finish_untracked_safe [OF F]
          yields_bind [OF yields_on_error [OF countedWrite_keeps [unfolded yields_keeps [symmetric]]]] simp: quiet_def)
  next
    case (Some e)
    then have "st = Held e" "te_ptr e = p"
      using st by (auto simp: entry_status_def)
    then show ?thesis
      using prepareTrackedUpdate_safe [OF F, of e S U env] st(3) by (simp add: m Some)
  qed
qed

lemma prepareSoftDeleteEntity_safe:
  assumes F: "frame_ok F" and S: "st \<in> S" "status_ptr st = p"
  shows "yields (undoable F S U) (prepareSoftDeleteEntity (env :: 'a env) t (fr_map F p) p)
    (\<lambda>write. pw_finish write = Some (\<lambda>result. updateJudge t (fr_map F p) p (wr_affected result)))"
proof -
  note stamp = stampSet_yields [OF F S(1), unfolded S(2)]
  have flag: "writable F S p q" if "soft_delete_flag (fr_map F p) = Inr q" for q
    using soft_delete_flag_writable [OF S(1)] that S(2) by blast
  have set: "undoable F S U (on_mem (set_quiet q p v) w)" if "soft_delete_flag (fr_map F p) = Inr q" "undoable F S U w" for q v and w :: "'a world"
  proof -
    have "quiet (undoable F S U :: 'a world \<Rightarrow> bool) (set_quiet q p v)"
      by (rule set_quiet_quiet [OF F flag [OF that(1)]])
    then show ?thesis
      using that(2) by (simp add: quiet_def)
  qed
  show ?thesis
    unfolding prepareSoftDeleteEntity_def Let_def
    by (auto intro!: yields_lift_bind yields_keep_bind keeps_get setP_keeps F flag yields_bind [OF yields_on_error [OF stamp]] yields_ret
        yields_bind [OF yields_on_error [OF countedWrite_keeps [unfolded yields_keeps [symmetric]]]] simp: quiet_def on_mem_comp set)
qed


lemma prepareDeleteEntity_safe:
  assumes F: "frame_ok F"
  shows "valid (recorded_as F S U p st) (prepareDeleteEntity env (Type (fr_map F p)) p)
    (\<lambda>write w. undoable F S U w \<and> write_safe F st write) (\<lambda>_. undoable F S U)"
  unfolding prepareDeleteEntity_def
proof (rule valid_get_yields, intro conjI yields_lift_bind)
  fix w :: "'a world" and m entry
  assume w: "recorded_as F S U p st w"
  then show "undoable F S U w"
    by (simp add: recorded_as_def)
  assume m: "requireWritableKeyedType (w_db (id w)) (Type (fr_map F p)) = Inr m"
    and entry: "writeIdentity (w_mem (id w)) (w_db (id w)) m p = Inr entry"
  have m: "m = fr_map F p"
    using requireWritable_map [OF m] undoable_maps [OF F, of S U w p] w by (simp add: recorded_as_def)
  have st: "entry_status p entry = st" "status_ptr st = p" "st \<in> S"
    using recorded_identity [OF w, of "w_mem w" m entry] entry w by (simp_all add: recorded_as_def)
  note soft = prepareSoftDeleteEntity_safe [OF F st(3,2)]
  have soft_safe: "write_safe F st (finish_then (forgetEntryJournaled entry) pw)"
    if "pw_finish pw = Some (\<lambda>result. updateJudge t (fr_map F p) p (wr_affected result))" for pw :: "'a preparedWrite" and t
    unfolding st(1) [symmetric] using st(1,2) that by (intro finish_soft_delete_safe [OF F, where t = t]) (auto simp: finish_then_def)
  have hard_safe: "write_safe F st (pw\<lparr>pw_finish := Some (\<lambda>result. if wr_affected result = 0 then failP err else forgetEntryJournaled entry)\<rparr>)"
    for pw :: "'a preparedWrite" and err
    unfolding st(1) [symmetric] by (rule finish_delete_safe [where err = err]) simp
  show "yields (undoable F S U) (if SoftDeleteProperty m \<noteq> None
       then bindP (prepareSoftDeleteEntity env (Type (fr_map F p)) m p) (\<lambda>write.
              retP (finish_then (forgetEntryJournaled entry) write))
       else
         let checkVersion = (VersionProperty m \<noteq> None) in
         bindP (countedWrite env (Type (fr_map F p)) p (deleteEntityText env m checkVersion)) (\<lambda>write.
           retP (write\<lparr>pw_finish := Some (\<lambda>result.
             if wr_affected result = 0
             then failP (if checkVersion then ConcurrencyError (Type (fr_map F p)) else OrmError ''CRUD-001'' (Type (fr_map F p)))
             else forgetEntryJournaled entry)\<rparr>))) (write_safe F st)"
    unfolding m Let_def
    by (auto intro!: yields_bind [OF soft] yields_ret soft_safe yields_keep_bind [OF countedWrite_keeps] hard_safe)
qed

end
