(* ===== verification/Go_Heap.thy ===== *)
theory Go_Heap
  imports Prelude
begin

text \<open>
  The priority queue the unit of work orders its statements with: Go's \<open>container/heap\<close> over
  \<open>readyHeap\<close> (\<open>flush.go\<close>), a slice of node numbers with a comparison function. The sift loops
  \<open>up\<close> and \<open>down\<close> of the standard library are modelled as written, so the result of a pop is the
  one the program computes even among equal elements.

  \<open>ready_queue\<close> is the interface the ordering relies on (push and pop against a multiset of
  waiting nodes, a pop returning a least node); \<open>strict_weak\<close> says what a comparison must satisfy
  for the binary heap to provide it, and the \<open>sublocale\<close> at the end discharges the interface for
  every such comparison.
\<close>

section \<open>The heap operations\<close>

text \<open>\<open>readyHeap.Swap\<close> (an index out of range cannot occur: the callers pass indices below \<open>Len\<close>).\<close>

definition readyHeap_Swap :: "nat list \<Rightarrow> nat \<Rightarrow> nat \<Rightarrow> nat list" where
  "readyHeap_Swap h i j = h[i := h ! j, j := h ! i]"

text \<open>The parent of a slot, \<open>(j - 1) / 2\<close>; Go's division truncates, so the root is its own parent.\<close>

definition heap_parent :: "nat \<Rightarrow> nat" where
  "heap_parent j = (j - 1) div 2"

lemma heap_parent_less [simp]: "0 < j \<Longrightarrow> heap_parent j < j"
  by (auto simp: heap_parent_def)

lemma heap_parent_le [simp]: "heap_parent j \<le> j"
  by (simp add: heap_parent_def)

lemma heap_parent_less_bound [simp]: "j < n \<Longrightarrow> heap_parent j < n"
  by (rule le_less_trans [OF heap_parent_le])

lemma heap_parent_self [simp]: "heap_parent j = j \<longleftrightarrow> j = 0" "j = heap_parent j \<longleftrightarrow> j = 0"
  by (cases "j = 0"; auto simp: heap_parent_def)+

lemma heap_parent_child: "0 < k \<Longrightarrow> heap_parent k = i \<longleftrightarrow> k = 2 * i + 1 \<or> k = 2 * i + 2"
  by (auto simp: heap_parent_def)

text \<open>\<open>heap.up\<close>: the element at \<open>j\<close> moves towards the root while it is less than its parent.\<close>

function heap_up :: "(nat \<Rightarrow> nat \<Rightarrow> bool) \<Rightarrow> nat list \<Rightarrow> nat \<Rightarrow> nat list" where
  "heap_up lt h j =
     (let i = heap_parent j in
      if i = j \<or> \<not> lt (h ! j) (h ! i) then h
      else heap_up lt (readyHeap_Swap h i j) i)"
  by pat_completeness auto
termination
  by (relation "measure (\<lambda>(lt, h, j). j)") auto

text \<open>\<open>heap.down\<close>: the element at \<open>i\<close> moves towards the leaves while a child below \<open>n\<close> is less than it.\<close>

function heap_down :: "(nat \<Rightarrow> nat \<Rightarrow> bool) \<Rightarrow> nat list \<Rightarrow> nat \<Rightarrow> nat \<Rightarrow> nat list" where
  "heap_down lt h i n =
     (let j1 = 2 * i + 1 in
      if j1 \<ge> n then h
      else let j = (if j1 + 1 < n \<and> lt (h ! (j1 + 1)) (h ! j1) then j1 + 1 else j1) in
        if \<not> lt (h ! j) (h ! i) then h
        else heap_down lt (readyHeap_Swap h i j) j n)"
  by pat_completeness auto
termination
  by (relation "measure (\<lambda>(lt, h, i, n). n - i)") (auto simp: Let_def split: if_splits)

declare heap_up.simps [simp del] heap_down.simps [simp del]

definition heap_Push :: "(nat \<Rightarrow> nat \<Rightarrow> bool) \<Rightarrow> nat list \<Rightarrow> nat \<Rightarrow> nat list" where
  "heap_Push lt h x = heap_up lt (h @ [x]) (length h)"

text \<open>\<open>heap.Pop\<close>: the root and the last element swap, the new root sinks, the last element is taken off.\<close>

definition heap_Pop :: "(nat \<Rightarrow> nat \<Rightarrow> bool) \<Rightarrow> nat list \<Rightarrow> nat \<times> nat list" where
  "heap_Pop lt h =
     (let n = length h - 1;
          h' = heap_down lt (readyHeap_Swap h 0 n) 0 n
      in (last h', butlast h'))"

section \<open>Facts that need no order\<close>

lemma length_Swap [simp]: "length (readyHeap_Swap h i j) = length h"
  by (simp add: readyHeap_Swap_def)

lemma nth_Swap:
  "i < length h \<Longrightarrow> j < length h \<Longrightarrow> k < length h \<Longrightarrow>
   readyHeap_Swap h i j ! k = (if k = i then h ! j else if k = j then h ! i else h ! k)"
  by (auto simp: readyHeap_Swap_def nth_list_update)

lemma mset_Swap: "i < length h \<Longrightarrow> j < length h \<Longrightarrow> mset (readyHeap_Swap h i j) = mset h"
  by (simp add: readyHeap_Swap_def mset_swap)

lemma heap_up_mset: "j < length h \<Longrightarrow> mset (heap_up lt h j) = mset h"
proof (induction lt h j rule: heap_up.induct)
  case (1 lt h j)
  show ?case
    using 1 by (subst heap_up.simps) (auto simp: Let_def mset_Swap)
qed

lemma heap_down_mset: "n \<le> length h \<Longrightarrow> mset (heap_down lt h i n) = mset h"
proof (induction lt h i n rule: heap_down.induct)
  case (1 lt h i n)
  show ?case
    using 1 by (subst heap_down.simps) (auto simp: Let_def mset_Swap)
qed

lemma heap_down_length: "n \<le> length h \<Longrightarrow> length (heap_down lt h i n) = length h"
  by (metis heap_down_mset size_mset)

text \<open>\<open>down\<close> with bound \<open>n\<close> leaves everything from \<open>n\<close> on in place.\<close>

lemma heap_down_frame:
  "n \<le> length h \<Longrightarrow> n \<le> k \<Longrightarrow> k < length h \<Longrightarrow> heap_down lt h i n ! k = h ! k"
proof (induction lt h i n rule: heap_down.induct)
  case (1 lt h i n)
  show ?case
    using 1 by (subst heap_down.simps) (auto simp: Let_def nth_Swap)
qed

lemma heap_Push_mset: "mset (heap_Push lt h x) = add_mset x (mset h)"
  by (simp add: heap_Push_def heap_up_mset)

lemma heap_Push_length [simp]: "length (heap_Push lt h x) = Suc (length h)"
  by (metis heap_Push_mset size_add_mset size_mset)

lemma heap_Pop_mset:
  assumes "h \<noteq> []"
  shows "add_mset (fst (heap_Pop lt h)) (mset (snd (heap_Pop lt h))) = mset h"
proof -
  let ?h = "heap_down lt (readyHeap_Swap h 0 (length h - 1)) 0 (length h - 1)"
  have len: "length ?h = length h"
    by (simp add: heap_down_length)
  have "mset ?h = mset h"
    using assms by (simp add: heap_down_mset mset_Swap)
  moreover have "?h \<noteq> []"
    using len assms by auto
  ultimately show ?thesis
    by (metis butlast_last_mset fst_conv heap_Pop_def snd_conv)
qed

text \<open>A pop returns what stood at the root.\<close>

lemma heap_Pop_root:
  assumes "h \<noteq> []"
  shows "fst (heap_Pop lt h) = h ! 0"
proof -
  let ?n = "length h - 1"
  let ?h = "heap_down lt (readyHeap_Swap h 0 ?n) 0 ?n"
  have len: "length ?h = length h"
    by (simp add: heap_down_length)
  have "last ?h = ?h ! ?n"
    using assms len by (metis last_conv_nth length_0_conv)
  also have "\<dots> = readyHeap_Swap h 0 ?n ! ?n"
    using assms by (intro heap_down_frame) auto
  also have "\<dots> = h ! 0"
    using assms by (simp add: nth_Swap)
  finally show ?thesis
    by (simp add: heap_Pop_def Let_def)
qed

lemma heap_Pop_length:
  "h \<noteq> [] \<Longrightarrow> length (snd (heap_Pop lt h)) = length h - 1"
  by (metis add_diff_cancel_left' heap_Pop_mset plus_1_eq_Suc size_add_mset size_mset)

section \<open>The interface the orderings rely on\<close>

locale ready_queue =
  fixes lt :: "nat \<Rightarrow> nat \<Rightarrow> bool"
    and push :: "nat list \<Rightarrow> nat \<Rightarrow> nat list"
    and pop :: "nat list \<Rightarrow> nat \<times> nat list"
    and invar :: "nat list \<Rightarrow> bool"
  assumes invar_empty: "invar []"
    and invar_push: "invar h \<Longrightarrow> invar (push h x)"
    and mset_push: "mset (push h x) = add_mset x (mset h)"
    and invar_pop: "invar h \<Longrightarrow> h \<noteq> [] \<Longrightarrow> invar (snd (pop h))"
    and mset_pop: "h \<noteq> [] \<Longrightarrow> add_mset (fst (pop h)) (mset (snd (pop h))) = mset h"
    and pop_least: "invar h \<Longrightarrow> h \<noteq> [] \<Longrightarrow> y \<in> set h \<Longrightarrow> \<not> lt y (fst (pop h))"
begin

lemma set_push: "set (push h x) = insert x (set h)"
  by (metis mset_push set_mset_add_mset_insert set_mset_mset)

lemma set_pop: "h \<noteq> [] \<Longrightarrow> set h = insert (fst (pop h)) (set (snd (pop h)))"
  by (metis mset_pop set_mset_add_mset_insert set_mset_mset)

lemma distinct_push: "distinct h \<Longrightarrow> x \<notin> set h \<Longrightarrow> distinct (push h x)"
  by (metis distinct.simps(2) mset.simps(2) mset_eq_imp_distinct_iff mset_push)

lemma distinct_pop:
  "h \<noteq> [] \<Longrightarrow> distinct h \<Longrightarrow> distinct (snd (pop h)) \<and> fst (pop h) \<notin> set (snd (pop h))"
  by (metis distinct.simps(2) mset.simps(2) mset_eq_imp_distinct_iff mset_pop)

end

section \<open>Strict weak orders\<close>

locale strict_weak =
  fixes lt :: "nat \<Rightarrow> nat \<Rightarrow> bool"
  assumes less_asym: "lt a b \<Longrightarrow> \<not> lt b a"
    and less_negtrans: "\<not> lt b a \<Longrightarrow> \<not> lt c b \<Longrightarrow> \<not> lt c a"
begin

lemma less_irrefl: "\<not> lt a a"
  using less_asym by blast

lemma less_trans_weak: "lt a b \<Longrightarrow> \<not> lt c b \<Longrightarrow> lt a c"
  using less_negtrans by blast

end

text \<open>The heap property of a slice, every element against its parent.\<close>

definition heap_ordered :: "(nat \<Rightarrow> nat \<Rightarrow> bool) \<Rightarrow> nat list \<Rightarrow> bool" where
  "heap_ordered lt h \<longleftrightarrow> (\<forall>k < length h. 0 < k \<longrightarrow> \<not> lt (h ! k) (h ! (heap_parent k)))"

text \<open>The property but for the element at \<open>j\<close>, which may be less than its parent (\<open>up\<close>).\<close>

definition up_hole :: "(nat \<Rightarrow> nat \<Rightarrow> bool) \<Rightarrow> nat list \<Rightarrow> nat \<Rightarrow> bool" where
  "up_hole lt h j \<longleftrightarrow>
     (\<forall>k < length h. 0 < k \<longrightarrow> k \<noteq> j \<longrightarrow> \<not> lt (h ! k) (h ! (heap_parent k))) \<and>
     (\<forall>k < length h. 0 < k \<longrightarrow> 0 < j \<longrightarrow> heap_parent k = j \<longrightarrow> \<not> lt (h ! k) (h ! (heap_parent j)))"

text \<open>The property below \<open>n\<close> but for the element at \<open>i\<close>, which may be greater than its children (\<open>down\<close>).\<close>

definition down_hole :: "(nat \<Rightarrow> nat \<Rightarrow> bool) \<Rightarrow> nat list \<Rightarrow> nat \<Rightarrow> nat \<Rightarrow> bool" where
  "down_hole lt h i n \<longleftrightarrow>
     (\<forall>k < n. 0 < k \<longrightarrow> heap_parent k \<noteq> i \<longrightarrow> \<not> lt (h ! k) (h ! (heap_parent k))) \<and>
     (\<forall>k < n. 0 < k \<longrightarrow> 0 < i \<longrightarrow> heap_parent k = i \<longrightarrow> \<not> lt (h ! k) (h ! (heap_parent i)))"

context strict_weak
begin

lemma up_hole_step:
  assumes j: "j < length h" "0 < j" and lt: "lt (h ! j) (h ! heap_parent j)" and hole: "up_hole lt h j"
  shows "up_hole lt (readyHeap_Swap h (heap_parent j) j) (heap_parent j)"
proof -
  let ?i = "heap_parent j"
  let ?h = "readyHeap_Swap h ?i j"
  have i: "?i < j" "?i < length h"
    using j heap_parent_less [of j] by linarith+
  note nth = nth_Swap [OF i(2) j(1)]
  have old: "\<not> lt (h ! k) (h ! heap_parent k)" if "k < length h" "0 < k" "k \<noteq> j" for k
    using hole that by (auto simp: up_hole_def)
  have child: "\<not> lt (h ! k) (h ! ?i)" if "k < length h" "0 < k" "heap_parent k = j" for k
    using hole that j(2) by (auto simp: up_hole_def)
  have "\<not> lt (?h ! k) (?h ! heap_parent k)" if k: "k < length h" "0 < k" "k \<noteq> ?i" for k
  proof (cases "k = j")
    case True
    then show ?thesis
      using i j less_asym [OF lt] by (auto simp: nth)
  next
    case False
    have p: "heap_parent k < length h"
      using k heap_parent_less [of k] by linarith
    consider "heap_parent k = ?i" | "heap_parent k = j" | "heap_parent k \<noteq> ?i" "heap_parent k \<noteq> j"
      by blast
    then show ?thesis
    proof cases
      case 1
      then show ?thesis
        using old [OF k(1,2) False] less_negtrans [OF less_asym [OF lt]] False k i by (simp add: nth)
    next
      case 2
      then show ?thesis
        using child [OF k(1,2) 2] False k i j p by (simp add: nth)
    next
      case 3
      then show ?thesis
        using old [OF k(1,2) False] False k p by (simp add: nth)
    qed
  qed
  moreover have "\<not> lt (?h ! k) (?h ! heap_parent ?i)"
    if k: "k < length h" "0 < k" "0 < ?i" "heap_parent k = ?i" for k
  proof -
    have pi: "heap_parent ?i < ?i" "heap_parent ?i \<noteq> j"
      using k(3) i(1) heap_parent_less [of ?i] by linarith+
    have up: "\<not> lt (h ! ?i) (h ! heap_parent ?i)"
      using old [of ?i] i k by simp
    have "\<not> lt (h ! k) (h ! heap_parent ?i)" if "k \<noteq> j"
      using less_negtrans [OF up] old [OF k(1,2) that] k by simp
    moreover have "k \<noteq> ?i"
      using k heap_parent_less [of k] by auto
    ultimately show ?thesis
      using up pi i j k by (simp add: nth)
  qed
  ultimately show ?thesis
    by (auto simp: up_hole_def)
qed

lemma up_hole_stop:
  assumes "j = 0 \<or> \<not> lt (h ! j) (h ! heap_parent j)" and "up_hole lt h j"
  shows "heap_ordered lt h"
  using assms by (auto simp: up_hole_def heap_ordered_def)

lemma heap_up_ordered: "j < length h \<Longrightarrow> up_hole lt h j \<Longrightarrow> heap_ordered lt (heap_up lt h j)"
proof (induction j arbitrary: h rule: less_induct)
  case (less j)
  show ?case
  proof (cases "j = 0 \<or> \<not> lt (h ! j) (h ! heap_parent j)")
    case True
    then have "heap_up lt h j = h"
      by (subst heap_up.simps) auto
    then show ?thesis
      using up_hole_stop [OF True less.prems(2)] by simp
  next
    case False
    then have "heap_up lt h j = heap_up lt (readyHeap_Swap h (heap_parent j) j) (heap_parent j)"
      by (subst heap_up.simps) (auto simp: Let_def)
    moreover have "heap_parent j < j"
      using False by simp
    ultimately show ?thesis
      using False less.IH [of "heap_parent j" "readyHeap_Swap h (heap_parent j) j"] up_hole_step [of j h] less.prems
      by simp
  qed
qed

lemma up_hole_append: "heap_ordered lt h \<Longrightarrow> up_hole lt (h @ [x]) (length h)"
  by (auto simp: heap_ordered_def up_hole_def nth_append heap_parent_child not_less_eq
      dest: heap_parent_less)

lemma heap_Push_ordered: "heap_ordered lt h \<Longrightarrow> heap_ordered lt (heap_Push lt h x)"
  unfolding heap_Push_def by (intro heap_up_ordered up_hole_append) simp_all

lemma down_hole_step:
  assumes n: "n \<le> length h" and j: "j < n" "heap_parent j = i" "0 < j"
    and lt: "lt (h ! j) (h ! i)" and hole: "down_hole lt h i n"
    and least: "\<And>k. k < n \<Longrightarrow> 0 < k \<Longrightarrow> heap_parent k = i \<Longrightarrow> \<not> lt (h ! k) (h ! j)"
  shows "down_hole lt (readyHeap_Swap h i j) j n"
proof -
  let ?h = "readyHeap_Swap h i j"
  have i: "i < j" "i < length h" "j < length h"
    using j n heap_parent_less [of j] by auto
  note nth = nth_Swap [OF i(2,3)]
  have old: "\<not> lt (h ! k) (h ! heap_parent k)" if "k < n" "0 < k" "heap_parent k \<noteq> i" for k
    using hole that by (auto simp: down_hole_def)
  have "\<not> lt (?h ! k) (?h ! heap_parent k)" if k: "k < n" "0 < k" "heap_parent k \<noteq> j" for k
  proof -
    have p: "heap_parent k < length h" "heap_parent k < k"
      using k n heap_parent_less [of k] by linarith+
    consider "k = j" | "k = i" | "k \<noteq> j" "k \<noteq> i" "heap_parent k = i" | "k \<noteq> j" "k \<noteq> i" "heap_parent k \<noteq> i"
      by blast
    then show ?thesis
    proof cases
      case 1
      then show ?thesis
        using j i lt less_asym by (simp add: nth)
    next
      case 2
      have "\<not> lt (h ! j) (h ! heap_parent i)"
        using hole j 2 k by (auto simp: down_hole_def)
      then show ?thesis
        using 2 i p k by (simp add: nth)
    next
      case 3
      then show ?thesis
        using least [OF k(1,2)] i k n by (simp add: nth)
    next
      case 4
      then show ?thesis
        using old [OF k(1,2)] k p n by (simp add: nth)
    qed
  qed
  moreover have "\<not> lt (?h ! k) (?h ! heap_parent j)" if k: "k < n" "0 < k" "heap_parent k = j" for k
  proof -
    have "k \<noteq> j" "k \<noteq> i"
      using k i heap_parent_less [of k] by auto
    then show ?thesis
      using old [of k] k j i n by (simp add: nth)
  qed
  ultimately show ?thesis
    by (auto simp: down_hole_def)
qed

lemma down_hole_stop:
  assumes "\<And>k. k < n \<Longrightarrow> 0 < k \<Longrightarrow> heap_parent k = i \<Longrightarrow> \<not> lt (h ! k) (h ! i)" and "down_hole lt h i n"
    and "k < n" "0 < k"
  shows "\<not> lt (h ! k) (h ! heap_parent k)"
  using assms by (cases "heap_parent k = i") (auto simp: down_hole_def)

text \<open>The child \<open>down\<close> chooses is a least child.\<close>

lemma down_child_least:
  assumes "2 * i + 1 < n"
    and "j = (if 2 * i + 1 + 1 < n \<and> lt (h ! (2 * i + 1 + 1)) (h ! (2 * i + 1)) then 2 * i + 1 + 1 else 2 * i + 1)"
    and "k < n" "0 < k" "heap_parent k = i"
  shows "\<not> lt (h ! k) (h ! j)"
  using assms less_asym less_irrefl by (auto simp: heap_parent_child split: if_splits)

lemma heap_down_ordered:
  "n \<le> length h \<Longrightarrow> down_hole lt h i n \<Longrightarrow> k < n \<Longrightarrow> 0 < k \<Longrightarrow>
   \<not> lt (heap_down lt h i n ! k) (heap_down lt h i n ! heap_parent k)"
proof (induction "n - i" arbitrary: h i rule: less_induct)
  case less
  define j where
    "j = (if 2 * i + 1 + 1 < n \<and> lt (h ! (2 * i + 1 + 1)) (h ! (2 * i + 1)) then 2 * i + 1 + 1 else 2 * i + 1)"
  show ?case
  proof (cases "2 * i + 1 < n")
    case False
    then have "heap_down lt h i n = h"
      by (subst heap_down.simps) auto
    then show ?thesis
      using down_hole_stop [OF _ less.prems(2-4)] False by (auto simp: heap_parent_child)
  next
    case True
    note least = down_child_least [OF True j_def]
    have j: "j < n" "0 < j" "heap_parent j = i" "i < j"
      using True by (auto simp: j_def heap_parent_child)
    show ?thesis
    proof (cases "lt (h ! j) (h ! i)")
      case False
      then have "heap_down lt h i n = h"
        using True by (subst heap_down.simps) (auto simp: Let_def j_def split: if_splits)
      then show ?thesis
        using down_hole_stop [OF _ less.prems(2-4)] least less_negtrans False by metis
    next
      case sw: True
      then have "heap_down lt h i n = heap_down lt (readyHeap_Swap h i j) j n"
        using True by (subst heap_down.simps) (auto simp: Let_def j_def split: if_splits)
      moreover have "down_hole lt (readyHeap_Swap h i j) j n"
        using less.prems(1) j(1,3,2) sw less.prems(2) least by (rule down_hole_step)
      ultimately show ?thesis
        using less.hyps [of j "readyHeap_Swap h i j"] less.prems j by auto
    qed
  qed
qed

lemma heap_ordered_root:
  "heap_ordered lt h \<Longrightarrow> k < length h \<Longrightarrow> \<not> lt (h ! k) (h ! 0)"
proof (induction k rule: less_induct)
  case (less k)
  show ?case
  proof (cases "k = 0")
    case False
    then have "\<not> lt (h ! heap_parent k) (h ! 0)"
      using less by simp
    moreover have "\<not> lt (h ! k) (h ! heap_parent k)"
      using less.prems False by (simp add: heap_ordered_def)
    ultimately show ?thesis
      by (rule less_negtrans)
  qed (simp add: less_irrefl)
qed

lemma heap_Pop_ordered:
  assumes ord: "heap_ordered lt h" and ne: "h \<noteq> []"
  shows "heap_ordered lt (snd (heap_Pop lt h))"
proof -
  let ?n = "length h - 1"
  let ?s = "readyHeap_Swap h 0 ?n"
  have "\<not> lt (?s ! k) (?s ! heap_parent k)" if "k < ?n" "0 < k" "heap_parent k \<noteq> 0" for k
  proof -
    have "heap_parent k \<noteq> ?n" "heap_parent k < length h"
      using heap_parent_less_bound [OF that(1)] by linarith+
    then have "?s ! heap_parent k = h ! heap_parent k" "?s ! k = h ! k"
      using that ne by (auto simp: nth_Swap)
    then show ?thesis
      using ord that by (simp add: heap_ordered_def)
  qed
  then have "down_hole lt ?s 0 ?n"
    by (simp add: down_hole_def)
  then have "\<not> lt (heap_down lt ?s 0 ?n ! k) (heap_down lt ?s 0 ?n ! heap_parent k)" if "k < ?n" "0 < k" for k
    using heap_down_ordered [of ?n ?s 0 k] that by simp
  moreover have "length (heap_down lt ?s 0 ?n) = length h"
    by (simp add: heap_down_length)
  ultimately show ?thesis
    by (auto simp: heap_Pop_def Let_def heap_ordered_def nth_butlast)
qed

lemma heap_Pop_least:
  assumes "heap_ordered lt h" and "h \<noteq> []" and "y \<in> set h"
  shows "\<not> lt y (fst (heap_Pop lt h))"
  using assms heap_ordered_root by (auto simp: heap_Pop_root in_set_conv_nth)

end

text \<open>Every strict weak order makes the binary heap a ready queue.\<close>

sublocale strict_weak \<subseteq> rq: ready_queue lt "heap_Push lt" "heap_Pop lt" "heap_ordered lt"
proof unfold_locales
  show "heap_ordered lt []"
    by (simp add: heap_ordered_def)
qed (auto simp: heap_Push_ordered heap_Push_mset heap_Pop_ordered heap_Pop_mset heap_Pop_least)

end
