(* ===== verification/Dependency_Order.thy ===== *)
theory Dependency_Order
  imports Go_Heap
begin

text \<open>
  \<open>dependencyOrder\<close> (\<open>flush.go\<close>), the one ordering both write phases of a flush use: the nodes
  \<open>0..n-1\<close> in an order in which the dependencies of a node precede it, the least ready node under
  \<open>less\<close> taken at each step, and whether every node was ordered.

  The model keeps the code's three parts: the scan that counts what each node waits for and lists
  its dependents, the initial pushes, and the loop that pops a node and releases its dependents.
  Counters are integers, indices out of range panic. The loop's termination is proved: a pop
  shortens the queue and a push is paid for by a counter that reaches zero.
\<close>

section \<open>The model\<close>

text \<open>One node's dependency list: the node itself and repetitions are skipped.\<close>

fun dep_scan :: "nat \<Rightarrow> nat list \<Rightarrow> nat list \<Rightarrow> int list \<times> nat list list \<Rightarrow> (int list \<times> nat list list) res" where
  "dep_scan i [] seen s = Inr s"
| "dep_scan i (d # ds) seen (waiting, dependents) =
     (if d = i \<or> d \<in> set seen then dep_scan i ds seen (waiting, dependents)
      else if i < length waiting \<and> d < length dependents then
        dep_scan i ds (d # seen) (waiting[i := waiting ! i + 1], dependents[d := dependents ! d @ [i]])
      else Inl GoPanic)"

text \<open>\<open>for i, list := range dependencies\<close>.\<close>

fun dep_build :: "nat \<Rightarrow> nat list list \<Rightarrow> int list \<times> nat list list \<Rightarrow> (int list \<times> nat list list) res" where
  "dep_build i [] s = Inr s"
| "dep_build i (ds # dss) s = bindR (dep_scan i ds [] s) (dep_build (Suc i) dss)"

text \<open>The initial pushes: every node that waits for nothing.\<close>

definition initial_ready :: "(nat \<Rightarrow> nat \<Rightarrow> bool) \<Rightarrow> nat \<Rightarrow> int list \<Rightarrow> nat list" where
  "initial_ready lt n waiting =
     foldl (\<lambda>h i. if waiting ! i = 0 then heap_Push lt h i else h) [] [0..<n]"

text \<open>\<open>for _, dependent := range dependents[node]\<close>: count down, push at zero.\<close>

fun release :: "(nat \<Rightarrow> nat \<Rightarrow> bool) \<Rightarrow> nat list \<Rightarrow> int list \<Rightarrow> nat list \<Rightarrow> (int list \<times> nat list) res" where
  "release lt [] waiting h = Inr (waiting, h)"
| "release lt (d # ds) waiting h =
     (if d < length waiting then
        let waiting' = waiting[d := waiting ! d - 1]
        in release lt ds waiting' (if waiting' ! d = 0 then heap_Push lt h d else h)
      else Inl GoPanic)"

text \<open>How many counters are positive: with the queue's length, what the loop uses up.\<close>

definition positives :: "int list \<Rightarrow> nat" where
  "positives w = size (filter_mset (\<lambda>c. 0 < c) (mset w))"

lemma positives_decrement:
  assumes "d < length w"
  shows "positives (w[d := w ! d - 1]) + (if w ! d - 1 = 0 then 1 else 0) = positives w"
proof -
  obtain M where M: "mset w = add_mset (w ! d) M"
    using assms by (metis insert_DiffM nth_mem_mset)
  then have "positives w = size (filter_mset (\<lambda>c. 0 < c) M) + (if 0 < w ! d then 1 else 0)"
    by (simp add: positives_def)
  moreover have "positives (w[d := w ! d - 1]) =
    size (filter_mset (\<lambda>c. 0 < c) M) + (if 0 < w ! d - 1 then 1 else 0)"
    using assms M by (simp add: positives_def mset_update)
  ultimately show ?thesis
    by auto
qed

lemma release_cost:
  "release lt ds w h = Inr (w', h') \<Longrightarrow> length h' + positives w' = length h + positives w"
proof (induction ds arbitrary: w h)
  case (Cons d ds)
  then have d: "d < length w"
    by (auto split: if_splits)
  have "length h' + positives w' =
      length (if w ! d - 1 = 0 then heap_Push lt h d else h) + positives (w[d := w ! d - 1])"
    using Cons.IH Cons.prems d by (simp add: Let_def)
  then show ?case
    using positives_decrement [OF d] by (auto split: if_splits)
qed simp

text \<open>\<open>for ready.Len() > 0\<close>.\<close>

function order_loop ::
  "(nat \<Rightarrow> nat \<Rightarrow> bool) \<Rightarrow> nat list list \<Rightarrow> int list \<Rightarrow> nat list \<Rightarrow> nat list \<Rightarrow> nat list res" where
  "order_loop lt dependents waiting ready order =
     (if ready = [] then Inr order
      else let node = fst (heap_Pop lt ready); ready' = snd (heap_Pop lt ready) in
        if node < length dependents then
          (case release lt (dependents ! node) waiting ready' of
             Inl e \<Rightarrow> Inl e
           | Inr (waiting', ready'') \<Rightarrow> order_loop lt dependents waiting' ready'' (order @ [node]))
        else Inl GoPanic)"
  by pat_completeness auto
termination
proof (relation "measure (\<lambda>(lt, dependents, w, h, order). length h + positives w)", goal_cases)
  case (2 lt dependents w h order node h' p w' h'')
  then have "length h'' + positives w' = length h' + positives w" and "length h' = length h - 1" and "h \<noteq> []"
    using release_cost [of lt "dependents ! node" w h'] by (auto simp: heap_Pop_length)
  then show ?case
    by (cases h) auto
qed simp

declare order_loop.simps [simp del]

definition dependencyOrder :: "nat \<Rightarrow> nat list list \<Rightarrow> (nat \<Rightarrow> nat \<Rightarrow> bool) \<Rightarrow> (nat list \<times> bool) res" where
  "dependencyOrder n dependencies lt =
     bindR (dep_build 0 dependencies (replicate n 0, replicate n []))
       (\<lambda>(waiting, dependents).
          bindR (order_loop lt dependents waiting (initial_ready lt n waiting) [])
            (\<lambda>order. Inr (order, length order = n)))"

section \<open>The specification\<close>

text \<open>A dependency table for \<open>n\<close> nodes: one list per node, naming nodes.\<close>

definition wf_deps :: "nat \<Rightarrow> nat list list \<Rightarrow> bool" where
  "wf_deps n deps \<longleftrightarrow> length deps = n \<and> (\<forall>ds \<in> set deps. \<forall>d \<in> set ds. d < n)"

text \<open>What must precede node \<open>i\<close>: its dependencies other than itself.\<close>

definition preds :: "nat list list \<Rightarrow> nat \<Rightarrow> nat set" where
  "preds deps i = set (deps ! i) - {i}"

definition dep_rel :: "nat \<Rightarrow> nat list list \<Rightarrow> (nat \<times> nat) set" where
  "dep_rel n deps = {(d, i). i < n \<and> d \<in> preds deps i}"

text \<open>An order in which every node comes after what it depends on, and is a least ready node when it is taken.\<close>

definition topological :: "nat list list \<Rightarrow> nat list \<Rightarrow> bool" where
  "topological deps order \<longleftrightarrow> (\<forall>k < length order. preds deps (order ! k) \<subseteq> set (take k order))"

definition greedy :: "(nat \<Rightarrow> nat \<Rightarrow> bool) \<Rightarrow> nat \<Rightarrow> nat list list \<Rightarrow> nat list \<Rightarrow> bool" where
  "greedy lt n deps order \<longleftrightarrow>
     (\<forall>k < length order. \<forall>z < n. z \<notin> set (take k order) \<longrightarrow> preds deps z \<subseteq> set (take k order) \<longrightarrow>
        \<not> lt z (order ! k))"

section \<open>The counters\<close>

text \<open>The state of the tables once the dependencies in \<open>done\<close> (pairs of dependency and node) are entered.\<close>

definition tables :: "nat \<Rightarrow> (nat \<times> nat) set \<Rightarrow> int list \<times> nat list list \<Rightarrow> bool" where
  "tables n E s \<longleftrightarrow> length (fst s) = n \<and> length (snd s) = n \<and>
     (\<forall>i < n. fst s ! i = int (card {d. (d, i) \<in> E})) \<and>
     (\<forall>d < n. distinct (snd s ! d) \<and> set (snd s ! d) = {i. (d, i) \<in> E}) \<and> E \<subseteq> {..<n} \<times> {..<n}"

lemma tables_insert:
  assumes t: "tables n E (w, deps)" and i: "i < n" and d: "d < n" and new: "(d, i) \<notin> E"
  shows "tables n (insert (d, i) E) (w[i := w ! i + 1], deps[d := deps ! d @ [i]])"
proof -
  have fin: "finite {d. (d, j) \<in> E}" for j
    by (rule finite_subset [of _ "{..<n}"]) (use t in \<open>auto simp: tables_def\<close>)
  have "card {e. (e, i) \<in> insert (d, i) E} = Suc (card {e. (e, i) \<in> E})"
  proof -
    have "{e. (e, i) \<in> insert (d, i) E} = insert d {e. (e, i) \<in> E}"
      by auto
    then show ?thesis
      using fin [of i] new by simp
  qed
  moreover have "{e. (e, j) \<in> insert (d, i) E} = {e. (e, j) \<in> E}" if "j \<noteq> i" for j
    using that by auto
  ultimately show ?thesis
    using t i d new by (auto simp: tables_def nth_list_update)
qed

lemma dep_scan_tables:
  assumes "tables n (E \<union> {(d, i) |d. d \<in> set seen}) s" and "i < n" and "\<forall>d \<in> set ds. d < n"
    and "\<forall>d. (d, i) \<notin> E" and "i \<notin> set seen"
  shows "\<exists>s'. dep_scan i ds seen s = Inr s' \<and> tables n (E \<union> {(d, i) |d. d \<in> set seen \<union> set ds - {i}}) s'"
  using assms
proof (induction ds arbitrary: seen s)
  case Nil
  then show ?case
    by (auto simp: Diff_triv)
next
  case (Cons d ds)
  obtain w deps where s: "s = (w, deps)"
    by (cases s)
  show ?case
  proof (cases "d = i \<or> d \<in> set seen")
    case True
    have "{(e, i) |e. e \<in> set seen \<union> set (d # ds) - {i}} = {(e, i) |e. e \<in> set seen \<union> set ds - {i}}"
      using True by auto
    then show ?thesis
      using Cons.IH [of seen s] Cons.prems True by (simp add: s)
  next
    case False
    have len: "length w = n" "length deps = n"
      using Cons.prems(1) by (simp_all add: tables_def s)
    have "tables n (E \<union> {(e, i) |e. e \<in> set (d # seen)}) (w[i := w ! i + 1], deps[d := deps ! d @ [i]])"
    proof -
      have "E \<union> {(e, i) |e. e \<in> set (d # seen)} = insert (d, i) (E \<union> {(e, i) |e. e \<in> set seen})"
        by auto
      then show ?thesis
        using tables_insert [of n _ w deps i d] Cons.prems False by (simp add: s)
    qed
    moreover have "set (d # seen) \<union> set ds - {i} = set seen \<union> set (d # ds) - {i}"
      by auto
    ultimately show ?thesis
      using Cons.IH [of "d # seen"] Cons.prems False len by (simp add: s)
  qed
qed

lemma dep_build_tables:
  assumes "tables n E s" and "i + length dss = n" and "\<forall>ds \<in> set dss. \<forall>d \<in> set ds. d < n"
    and "\<forall>(d, j) \<in> E. j < i"
  shows "\<exists>s'. dep_build i dss s = Inr s' \<and>
    tables n (E \<union> {(d, j). i \<le> j \<and> j < n \<and> d \<in> set (dss ! (j - i)) - {j}}) s'"
  using assms
proof (induction dss arbitrary: i s E)
  case Nil
  then have none: "{(d, j). i \<le> j \<and> j < n \<and> d \<in> set ([] ! (j - i)) - {j}} = {}"
    by auto
  show ?case
    unfolding none using Nil by simp
next
  case (Cons ds dss)
  let ?E = "E \<union> {(d, i) |d. d \<in> set ds - {i}}"
  have fresh: "\<forall>d. (d, i) \<notin> E" and "i < n"
    using Cons.prems by auto
  then obtain s' where s': "dep_scan i ds [] s = Inr s'" "tables n ?E s'"
    using dep_scan_tables [of n E i "[]" s ds] Cons.prems by auto
  have "\<forall>(d, j) \<in> ?E. j < Suc i"
    using Cons.prems(4) by auto
  then obtain s'' where s'': "dep_build (Suc i) dss s' = Inr s''"
    "tables n (?E \<union> {(d, j). Suc i \<le> j \<and> j < n \<and> d \<in> set (dss ! (j - Suc i)) - {j}}) s''"
    using Cons.IH [OF s'(2)] Cons.prems by auto
  have "?E \<union> {(d, j). Suc i \<le> j \<and> j < n \<and> d \<in> set (dss ! (j - Suc i)) - {j}} =
      E \<union> {(d, j). i \<le> j \<and> j < n \<and> d \<in> set ((ds # dss) ! (j - i)) - {j}}"
    using \<open>i < n\<close> by (auto simp: nth_Cons' le_less_Suc_eq not_less_eq_eq Suc_le_eq)
  then show ?case
    using s' s'' by simp
qed

lemma dep_build_rel:
  assumes "wf_deps n deps"
  shows "\<exists>s. dep_build 0 deps (replicate n 0, replicate n []) = Inr s \<and> tables n (dep_rel n deps) s"
proof -
  have "tables n {} (replicate n 0, replicate n [])"
    by (simp add: tables_def)
  then show ?thesis
    using dep_build_tables [of n "{}" _ 0 deps] assms
    by (auto simp: wf_deps_def dep_rel_def preds_def)
qed

section \<open>The loop\<close>

text \<open>While the dependents \<open>ds\<close> of the popped node are still to be counted down; \<open>P\<close> holds what is ordered.\<close>

definition release_inv ::
  "(nat \<Rightarrow> nat \<Rightarrow> bool) \<Rightarrow> nat \<Rightarrow> nat list list \<Rightarrow> nat set \<Rightarrow> nat list \<Rightarrow> int list \<Rightarrow> nat list \<Rightarrow> bool" where
  "release_inv lt n deps P ds w h \<longleftrightarrow>
     length w = n \<and> heap_ordered lt h \<and> distinct h \<and> set h \<subseteq> {..<n} - P \<and>
     (\<forall>i < n. w ! i = int (card (preds deps i - P)) + (if i \<in> set ds then 1 else 0)) \<and>
     (\<forall>i < n. i \<in> P \<union> set h \<longleftrightarrow> w ! i = 0)"

definition loop_inv ::
  "(nat \<Rightarrow> nat \<Rightarrow> bool) \<Rightarrow> nat \<Rightarrow> nat list list \<Rightarrow> int list \<Rightarrow> nat list \<Rightarrow> nat list \<Rightarrow> bool" where
  "loop_inv lt n deps w h order \<longleftrightarrow>
     release_inv lt n deps (set order) [] w h \<and> distinct order \<and> set order \<subseteq> {..<n} \<and>
     topological deps order \<and> greedy lt n deps order"

lemma finite_preds [simp]: "finite (preds deps i)"
  by (simp add: preds_def)

lemma topological_snoc:
  "topological deps (order @ [x]) \<longleftrightarrow> topological deps order \<and> preds deps x \<subseteq> set order"
  by (auto simp: topological_def nth_append less_Suc_eq)

lemma greedy_snoc:
  "greedy lt n deps (order @ [x]) \<longleftrightarrow>
   greedy lt n deps order \<and> (\<forall>z < n. z \<notin> set order \<longrightarrow> preds deps z \<subseteq> set order \<longrightarrow> \<not> lt z x)"
  by (auto simp: greedy_def nth_append less_Suc_eq)

context strict_weak
begin

lemma release_step:
  assumes inv: "release_inv lt n deps P (d # ds) w h" and d: "d < n" "d \<notin> set ds"
  shows "release_inv lt n deps P ds (w[d := w ! d - 1]) (if w ! d - 1 = 0 then heap_Push lt h d else h)"
proof -
  have wd: "w ! d = int (card (preds deps d - P)) + 1"
    using inv d by (simp add: release_inv_def)
  then have "d \<notin> P \<union> set h"
    using inv d by (auto simp: release_inv_def)
  then show ?thesis
    using inv d wd
    by (auto simp: release_inv_def nth_list_update heap_Push_ordered rq.distinct_push rq.set_push)
qed

lemma release_ok:
  assumes "release_inv lt n deps P ds w h" and "distinct ds" and "set ds \<subseteq> {..<n}"
  shows "\<exists>w' h'. release lt ds w h = Inr (w', h') \<and> release_inv lt n deps P [] w' h'"
  using assms
proof (induction ds arbitrary: w h)
  case (Cons d ds)
  moreover have "d < length w"
    using Cons.prems by (simp add: release_inv_def)
  ultimately show ?case
    using release_step [of n deps P d ds w h] by (simp add: Let_def)
qed simp

lemma loop_step:
  assumes inv: "loop_inv lt n deps w h order" and ne: "h \<noteq> []"
    and tab: "tables n (dep_rel n deps) (w0, dependents)"
  shows "fst (heap_Pop lt h) < n"
    and "\<exists>w' h'. release lt (dependents ! fst (heap_Pop lt h)) w (snd (heap_Pop lt h)) = Inr (w', h') \<and>
           loop_inv lt n deps w' h' (order @ [fst (heap_Pop lt h)])"
proof -
  obtain x h1 where pop: "heap_Pop lt h = (x, h1)"
    by (cases "heap_Pop lt h")
  have seth: "set h = insert x (set h1)" and h1: "distinct h1" "x \<notin> set h1" "heap_ordered lt h1"
    and least: "\<And>y. y \<in> set h \<Longrightarrow> \<not> lt y x"
    using rq.set_pop [OF ne] rq.distinct_pop [OF ne] rq.invar_pop [OF _ ne] rq.pop_least [OF _ ne] inv pop
    by (auto simp: loop_inv_def release_inv_def)
  have rel: "release_inv lt n deps (set order) [] w h"
    using inv by (simp add: loop_inv_def)
  then have iff: "z \<in> set order \<union> set h \<longleftrightarrow> preds deps z \<subseteq> set order" if "z < n" for z
    using that by (auto simp: release_inv_def)
  have x: "x < n" "x \<notin> set order"
    using rel seth by (auto simp: release_inv_def)
  then have px: "preds deps x \<subseteq> set order"
    using iff [of x] seth by simp
  show "fst (heap_Pop lt h) < n"
    using x pop by simp
  have ds: "distinct (dependents ! x)" "set (dependents ! x) = {i. i < n \<and> x \<in> preds deps i}"
    using tab x by (auto simp: tables_def dep_rel_def)
  have card: "int (card (preds deps i - set order)) =
      int (card (preds deps i - insert x (set order))) + (if x \<in> preds deps i then 1 else 0)" for i
  proof (cases "x \<in> preds deps i")
    case True
    then have "x \<in> preds deps i - set order"
      using x by simp
    then have "card (preds deps i - set order) = Suc (card (preds deps i - set order - {x}))"
      by (intro card.remove) auto
    then show ?thesis
      using True by (simp add: Diff_insert [of _ x "set order"])
  next
    case False
    then have "preds deps i - set order = preds deps i - insert x (set order)"
      by auto
    then show ?thesis
      using False by simp
  qed
  have "w ! i = int (card (preds deps i - insert x (set order))) + (if i \<in> set (dependents ! x) then 1 else 0)"
    if "i < n" for i
    using rel that card [of i] ds(2) by (simp add: release_inv_def)
  moreover have "i \<in> insert x (set order) \<union> set h1 \<longleftrightarrow> w ! i = 0" if "i < n" for i
    using rel that seth by (auto simp: release_inv_def)
  moreover have "set h1 \<subseteq> {..<n} - insert x (set order)" "length w = n"
    using rel seth h1 by (auto simp: release_inv_def)
  ultimately have "release_inv lt n deps (insert x (set order)) (dependents ! x) w h1"
    using h1 unfolding release_inv_def by blast
  then obtain w' h' where r: "release lt (dependents ! x) w h1 = Inr (w', h')"
    "release_inv lt n deps (insert x (set order)) [] w' h'"
    using release_ok ds by blast
  then have "loop_inv lt n deps w' h' (order @ [x])"
    using inv x px iff least by (auto simp: loop_inv_def topological_snoc greedy_snoc)
  then show "\<exists>w' h'. release lt (dependents ! fst (heap_Pop lt h)) w (snd (heap_Pop lt h)) = Inr (w', h') \<and>
           loop_inv lt n deps w' h' (order @ [fst (heap_Pop lt h)])"
    using r pop by simp
qed

lemma order_loop_ok:
  assumes "loop_inv lt n deps w h order" and "tables n (dep_rel n deps) (w0, dependents)"
  shows "\<exists>w' result. order_loop lt dependents w h order = Inr result \<and> loop_inv lt n deps w' [] result"
  using assms(1)
proof (induction "length h + positives w" arbitrary: w h order rule: less_induct)
  case less
  show ?case
  proof (cases "h = []")
    case True
    then show ?thesis
      using less.prems by (auto simp: order_loop.simps)
  next
    case False
    let ?x = "fst (heap_Pop lt h)"
    obtain w' h' where step: "release lt (dependents ! ?x) w (snd (heap_Pop lt h)) = Inr (w', h')"
        "loop_inv lt n deps w' h' (order @ [?x])"
      using loop_step(2) [OF less.prems False assms(2)] by blast
    have "?x < length dependents"
      using loop_step(1) [OF less.prems False assms(2)] assms(2) by (simp add: tables_def)
    then have "order_loop lt dependents w h order = order_loop lt dependents w' h' (order @ [?x])"
      using False step(1) by (subst order_loop.simps) (simp add: Let_def)
    moreover have "length h' + positives w' < length h + positives w"
      using release_cost [OF step(1)] heap_Pop_length [OF False, of lt] False by (cases h) auto
    ultimately show ?thesis
      using less.hyps step(2) by simp
  qed
qed

lemma initial_loop_inv:
  assumes "tables n (dep_rel n deps) (w, dependents)"
  shows "loop_inv lt n deps w (initial_ready lt n w) []"
proof -
  let ?push = "\<lambda>h i. if w ! i = 0 then heap_Push lt h i else h"
  have "heap_ordered lt (foldl ?push [] [0..<m]) \<and> distinct (foldl ?push [] [0..<m]) \<and>
      set (foldl ?push [] [0..<m]) = {i. i < m \<and> w ! i = 0}" for m
  proof (induction m)
    case 0
    show ?case by (simp add: rq.invar_empty)
  next
    case (Suc m)
    then show ?case
      by (auto simp: heap_Push_ordered rq.distinct_push rq.set_push less_Suc_eq)
  qed
  moreover have "w ! i = int (card (preds deps i))" if "i < n" for i
    using assms that by (simp add: tables_def dep_rel_def)
  ultimately show ?thesis
    using assms
    by (auto simp: loop_inv_def release_inv_def initial_ready_def tables_def topological_def greedy_def)
qed

text \<open>Without a wait left, the nodes outside the order are exactly those behind a cycle.\<close>

lemma complete_iff_acyclic:
  assumes wf: "wf_deps n deps" and inv: "loop_inv lt n deps w [] order"
  shows "length order = n \<longleftrightarrow> acyclic (dep_rel n deps)"
proof
  have o: "distinct order" "set order \<subseteq> {..<n}" "topological deps order"
    using inv by (auto simp: loop_inv_def)
  assume len: "length order = n"
  then have all: "set order = {..<n}"
    using o by (simp add: card_subset_eq distinct_card)
  have "\<exists>j k. j < k \<and> k < length order \<and> order ! j = d \<and> order ! k = i" if "(d, i) \<in> (dep_rel n deps)\<^sup>+" for d i
    using that
  proof (induction rule: trancl_induct)
    case (base y)
    then have "y \<in> set order"
      by (simp add: all dep_rel_def)
    then obtain k where k: "k < length order" "order ! k = y"
      by (auto simp: in_set_conv_nth)
    then have "d \<in> set (take k order)"
      using o(3) base by (auto simp: topological_def dep_rel_def)
    then obtain j where "j < k" "order ! j = d"
      using k by (auto simp: in_set_conv_nth)
    then show ?case
      using k by blast
  next
    case (step y z)
    then obtain j k where jk: "j < k" "k < length order" "order ! j = d" "order ! k = y"
      by blast
    have "z \<in> set order"
      using step by (simp add: all dep_rel_def)
    then obtain m where m: "m < length order" "order ! m = z"
      by (auto simp: in_set_conv_nth)
    then have "y \<in> set (take m order)"
      using o(3) step by (auto simp: topological_def dep_rel_def)
    then obtain l where "l < m" "order ! l = y"
      using m by (auto simp: in_set_conv_nth)
    then have "l = k"
      using jk m o(1) by (auto simp: nth_eq_iff_index_eq)
    then show ?case
      using jk m \<open>l < m\<close> by (intro exI [of _ j] exI [of _ m]) simp
  qed
  then show "acyclic (dep_rel n deps)"
    using o(1) by (fastforce simp: acyclic_def nth_eq_iff_index_eq)
next
  assume "acyclic (dep_rel n deps)"
  have less: "d < n" if "i < n" "d \<in> preds deps i" for d i
  proof -
    have "deps ! i \<in> set deps"
      using wf that by (simp add: wf_deps_def)
    then show ?thesis
      using wf that by (auto simp: wf_deps_def preds_def)
  qed
  then have "dep_rel n deps \<subseteq> {..<n} \<times> {..<n}"
    by (auto simp: dep_rel_def)
  then have "finite (dep_rel n deps)"
    by (rule finite_subset) simp
  then have "wf (dep_rel n deps)"
    using \<open>acyclic (dep_rel n deps)\<close> by (rule finite_acyclic_wf)
  have o: "distinct order" "set order \<subseteq> {..<n}"
    and ready: "\<And>i. i < n \<Longrightarrow> preds deps i \<subseteq> set order \<Longrightarrow> i \<in> set order"
    using inv by (auto simp: loop_inv_def release_inv_def)
  have "{..<n} - set order = {}"
  proof (rule ccontr)
    assume "{..<n} - set order \<noteq> {}"
    then obtain z where z: "z \<in> {..<n} - set order" "\<And>y. (y, z) \<in> dep_rel n deps \<Longrightarrow> y \<notin> {..<n} - set order"
      using wfE_min' [OF \<open>wf (dep_rel n deps)\<close>] by metis
    then have "preds deps z \<subseteq> set order"
      using less by (auto simp: dep_rel_def)
    then show False
      using ready z by auto
  qed
  then have "set order = {..<n}"
    using o by auto
  then show "length order = n"
    using distinct_card [OF o(1)] by simp
qed

lemma dependencyOrder_spec:
  assumes "wf_deps n deps"
  shows "\<exists>order. dependencyOrder n deps lt = Inr (order, acyclic (dep_rel n deps)) \<and> distinct order \<and>
    set order \<subseteq> {..<n} \<and> topological deps order \<and> greedy lt n deps order \<and>
    (acyclic (dep_rel n deps) \<longrightarrow> set order = {..<n}) \<and>
    (\<forall>i < n. preds deps i \<subseteq> set order \<longrightarrow> i \<in> set order)"
proof -
  obtain w dependents where tab: "dep_build 0 deps (replicate n 0, replicate n []) = Inr (w, dependents)"
      "tables n (dep_rel n deps) (w, dependents)"
    using dep_build_rel [OF assms] by (metis surj_pair)
  obtain w' order where loop: "order_loop lt dependents w (initial_ready lt n w) [] = Inr order"
      "loop_inv lt n deps w' [] order"
    using order_loop_ok [OF initial_loop_inv [OF tab(2)] tab(2)] by blast
  have "dependencyOrder n deps lt = Inr (order, acyclic (dep_rel n deps))"
    using tab loop complete_iff_acyclic [OF assms loop(2)] by (simp add: dependencyOrder_def)
  moreover have "acyclic (dep_rel n deps) \<longrightarrow> set order = {..<n}"
    using complete_iff_acyclic [OF assms loop(2)] loop(2)
    by (auto simp: loop_inv_def card_subset_eq distinct_card)
  ultimately show ?thesis
    using loop(2) by (auto simp: loop_inv_def release_inv_def)
qed

end

section \<open>The ordering, for every comparison\<close>

text \<open>C2: for a dependency table over n nodes and any strict weak comparison, dependencyOrder returns
  (the loop ends, no index is out of range) an order of distinct nodes in which every node comes
  after its dependencies and was a least ready node when it was taken, it leaves out no node whose
  dependencies are all ordered, and its second result says exactly whether the dependencies have
  no cycle, in which case every node is ordered.\<close>
theorem dependencyOrder_correct:
  assumes "strict_weak lt" and "wf_deps n deps"
  shows "\<exists>order. dependencyOrder n deps lt = Inr (order, acyclic (dep_rel n deps)) \<and> distinct order \<and>
    set order \<subseteq> {..<n} \<and> topological deps order \<and> greedy lt n deps order \<and>
    (acyclic (dep_rel n deps) \<longrightarrow> set order = {..<n}) \<and>
    (\<forall>i < n. preds deps i \<subseteq> set order \<longrightarrow> i \<in> set order)"
  using strict_weak.dependencyOrder_spec [OF assms] .

text \<open>Applied to four nodes, where node 1 waits for 0 and 2 and node 3 depends on itself only.\<close>
theorem dependencyOrder_correct_witness:
  "strict_weak (\<lambda>a b. b < a) \<and> wf_deps 4 [[], [0, 2, 0], [], [3]] \<and>
   dependencyOrder 4 [[], [0, 2, 0], [], [3]] (\<lambda>a b. b < a) = Inr ([3, 2, 0, 1], True) \<and>
   topological [[], [0, 2, 0], [], [3]] [3, 2, 0, 1] \<and> acyclic (dep_rel 4 [[], [0, 2, 0], [], [3]])"
proof -
  have sw: "strict_weak (\<lambda>a b :: nat. b < a)"
    by unfold_locales auto
  have wf: "wf_deps 4 [[], [0, 2, 0], [], [3]]"
    by (simp add: wf_deps_def)
  have run: "dependencyOrder 4 [[], [0, 2, 0], [], [3]] (\<lambda>a b. b < a) = Inr ([3, 2, 0, 1], True)"
    by code_simp
  show ?thesis
    using dependencyOrder_correct [OF sw wf] sw wf run by simp
qed

end
