(* ===== verification/Type_Rank.thy ===== *)
theory Type_Rank
  imports Metadata
begin

text \<open>
  The foreign-key rank of entity types (\<open>flush.go\<close>: \<open>rankTypes\<close>): the types reachable from the seeds
  through relationships are discovered depth first with their dependencies, Tarjan's algorithm
  groups them into strongly connected components, and a component ranks one above the highest
  component it depends on.

  The closures \<open>discover\<close> and \<open>connect\<close> of the source become functions over the variables they
  capture. Both recurse over a graph, so both have a depth bound; \<open>discover\<close> takes it as an
  argument (the number of mapped types plus one is enough), \<open>connect\<close> gets one more than the number of
  discovered types. The maps of the source are functions with a default where the source only reads
  keys it has written (\<open>lowLink\<close>, \<open>component\<close>) or relies on the zero value (\<open>dependsOn\<close>, \<open>onStack\<close>),
  and partial where it tests presence (\<open>index\<close>).
\<close>

section \<open>Discovery\<close>

record discovery =
  dependsOn :: "gotype \<Rightarrow> gotype list"
  discovered :: "gotype list"

definition add_dependency :: "gotype \<Rightarrow> gotype \<Rightarrow> discovery \<Rightarrow> discovery" where
  "add_dependency t d s = s\<lparr>dependsOn := (dependsOn s)(t := dependsOn s t @ [d])\<rparr>"

text \<open>One relationship of \<open>t\<close>: the dependency it declares, and the type to go on to (none for many-to-many).\<close>

definition relationship_dependency :: "gotype \<Rightarrow> RelationshipMap \<Rightarrow> discovery \<Rightarrow> discovery option" where
  "relationship_dependency t r s =
     (case RelKind r of
        RelationshipManyToOne \<Rightarrow> Some (add_dependency t (TargetType r) s)
      | RelationshipOneToMany \<Rightarrow> Some (add_dependency (TargetType r) t s)
      | RelationshipOneToOne \<Rightarrow> Some (add_dependency (TargetType r) t s)
      | RelationshipManyToMany \<Rightarrow> None)"

fun discover :: "(gotype \<Rightarrow> EntityMap res) \<Rightarrow> nat \<Rightarrow> gotype \<Rightarrow> discovery \<Rightarrow> discovery res" where
  "discover maps 0 t s = Inl OutOfFuel"
| "discover maps (Suc depth) t s =
     (if t \<in> set (discovered s) then Inr s
      else bindR (maps t) (\<lambda>m.
        res_fold (\<lambda>r s'. case relationship_dependency t r s' of
                     None \<Rightarrow> Inr s'
                   | Some s'' \<Rightarrow> discover maps depth (TargetType r) s'')
          (Relationships m) (s\<lparr>discovered := discovered s @ [t]\<rparr>)))"

definition discover_all :: "(gotype \<Rightarrow> EntityMap res) \<Rightarrow> nat \<Rightarrow> gotype list \<Rightarrow> discovery res" where
  "discover_all maps depth seeds = res_fold (discover maps depth) seeds \<lparr>dependsOn = (\<lambda>_. []), discovered = []\<rparr>"

section \<open>Strongly connected components\<close>

text \<open>The variables \<open>connect\<close> captures; the last element of the Go slice \<open>stack\<close> is the first of the list here.\<close>

record tarjan =
  tj_index :: "gotype \<rightharpoonup> nat"
  tj_lowLink :: "gotype \<Rightarrow> nat"
  tj_onStack :: "gotype \<Rightarrow> bool"
  tj_component :: "gotype \<Rightarrow> nat"
  tj_stack :: "gotype list"
  tj_components :: "gotype list list"
  tj_next :: nat

definition tarjan_start :: tarjan where
  "tarjan_start = \<lparr>tj_index = Map.empty, tj_lowLink = (\<lambda>_. 0), tj_onStack = (\<lambda>_. False), tj_component = (\<lambda>_. 0),
     tj_stack = [], tj_components = [], tj_next = 0\<rparr>"

definition connect_enter :: "gotype \<Rightarrow> tarjan \<Rightarrow> tarjan" where
  "connect_enter t s = s\<lparr>tj_index := (tj_index s)(t \<mapsto> tj_next s), tj_lowLink := (tj_lowLink s)(t := tj_next s),
     tj_next := Suc (tj_next s), tj_stack := t # tj_stack s, tj_onStack := (tj_onStack s)(t := True)\<rparr>"

definition lower_link :: "gotype \<Rightarrow> nat \<Rightarrow> tarjan \<Rightarrow> tarjan" where
  "lower_link t l s = s\<lparr>tj_lowLink := (tj_lowLink s)(t := min (tj_lowLink s t) l)\<rparr>"

text \<open>The loop that pops a component off the stack, \<open>t\<close> last; popping an empty stack would be an index out of range.\<close>

fun pop_members ::
  "gotype \<Rightarrow> nat \<Rightarrow> gotype list \<Rightarrow> (gotype \<Rightarrow> bool) \<Rightarrow> (gotype \<Rightarrow> nat) \<Rightarrow> gotype list \<Rightarrow>
   (gotype list \<times> (gotype \<Rightarrow> bool) \<times> (gotype \<Rightarrow> nat) \<times> gotype list) res" where
  "pop_members t c [] onStack component members = Inl GoPanic"
| "pop_members t c (node # stack) onStack component members =
     (if node = t then Inr (stack, onStack(node := False), component(node := c), members @ [node])
      else pop_members t c stack (onStack(node := False)) (component(node := c)) (members @ [node]))"

definition connect_exit :: "gotype \<Rightarrow> tarjan \<Rightarrow> tarjan res" where
  "connect_exit t s =
     (if tj_index s t = Some (tj_lowLink s t)
      then bindR (pop_members t (length (tj_components s)) (tj_stack s) (tj_onStack s) (tj_component s) [])
             (\<lambda>(stack, onStack, component, members).
                Inr (s\<lparr>tj_stack := stack, tj_onStack := onStack, tj_component := component,
                       tj_components := tj_components s @ [members]\<rparr>))
      else Inr s)"

fun connect :: "(gotype \<Rightarrow> gotype list) \<Rightarrow> nat \<Rightarrow> gotype \<Rightarrow> tarjan \<Rightarrow> tarjan res" where
  "connect deps 0 t s = Inl OutOfFuel"
| "connect deps (Suc depth) t s =
     bindR (res_fold (\<lambda>d s'.
         case tj_index s' d of
           None \<Rightarrow> bindR (connect deps depth d s') (\<lambda>s''. Inr (lower_link t (tj_lowLink s'' d) s''))
         | Some i \<Rightarrow> Inr (if tj_onStack s' d then lower_link t i s' else s'))
       (deps t) (connect_enter t s)) (connect_exit t)"

definition connect_all :: "(gotype \<Rightarrow> gotype list) \<Rightarrow> gotype list \<Rightarrow> tarjan res" where
  "connect_all deps ts =
     res_fold (\<lambda>t s. if tj_index s t = None then connect deps (Suc (length ts)) t s else Inr s) ts tarjan_start"

section \<open>Ranks\<close>

type_synonym typeRanks = "gotype \<Rightarrow> nat"

text \<open>The rank of component \<open>i\<close> from the ranks of the components before it.\<close>

definition component_rank :: "(gotype \<Rightarrow> gotype list) \<Rightarrow> (gotype \<Rightarrow> nat) \<Rightarrow> nat list \<Rightarrow> nat \<Rightarrow> gotype list \<Rightarrow> nat res" where
  "component_rank deps component ranked i members =
     res_fold (\<lambda>d rank.
         if component d \<noteq> i
         then if component d < length ranked then Inr (max rank (ranked ! component d + 1)) else Inl GoPanic
         else Inr rank)
       (concat (map deps members)) 0"

text \<open>
  \<open>componentRank\<close> has the length of \<open>components\<close> and starts with zeros; component \<open>i\<close> is read before it
  is written only if it comes later.
\<close>

fun rank_components ::
  "(gotype \<Rightarrow> gotype list) \<Rightarrow> (gotype \<Rightarrow> nat) \<Rightarrow> nat \<Rightarrow> gotype list list \<Rightarrow> nat list \<Rightarrow> typeRanks \<Rightarrow> typeRanks res" where
  "rank_components deps component i [] componentRank ranks = Inr ranks"
| "rank_components deps component i (members # rest) componentRank ranks =
     bindR (component_rank deps component componentRank i members) (\<lambda>rank.
       rank_components deps component (Suc i) rest (componentRank[i := rank])
         (foldl (\<lambda>ranks' member. ranks'(member := rank)) ranks members))"

definition rankTypes :: "(gotype \<Rightarrow> EntityMap res) \<Rightarrow> nat \<Rightarrow> gotype list \<Rightarrow> typeRanks res" where
  "rankTypes maps depth seeds =
     bindR (discover_all maps depth seeds) (\<lambda>found.
     bindR (connect_all (dependsOn found) (discovered found)) (\<lambda>s.
       rank_components (dependsOn found) (tj_component s) 0 (tj_components s)
         (replicate (length (tj_components s)) 0) (\<lambda>_. 0)))"

end
