(* ===== verification/Cascade_Walk.thy ===== *)
theory Cascade_Walk
  imports Metadata
begin

text \<open>
  The walk both cascades of the unit of work make (\<open>unit_of_work.go\<close>: \<open>persistPlan.visit\<close>,
  \<open>removePlan.visit\<close>): depth first over the instances in memory, each instance entered once, a
  refusal anywhere stopping the walk. The locale \<open>cascade_walk\<close> states what such a walk is - its
  entering step, the items it goes on to, the guard of each instance - and its lemmas show, once
  for both cascades, that the walk ends within a depth of the number of instances, that a
  successful walk has entered exactly the instances the cascade reaches, and that it is refused
  exactly when one of those is.
\<close>

text \<open>What follows an entered instance: a child to visit, or a refusal met on the way.\<close>

datatype 'n item = Child 'n | Refuse go_error

locale cascade_walk =
  fixes good :: "'n \<Rightarrow> bool" and ptr_of :: "'n \<Rightarrow> ptr" and seen :: "'s \<Rightarrow> ptr set"
    and again :: "'n \<Rightarrow> 's \<Rightarrow> 's" and enter :: "'n \<Rightarrow> 's \<Rightarrow> 's outcome" and items :: "'n \<Rightarrow> 'n item list"
    and visit :: "nat \<Rightarrow> 'n \<Rightarrow> 's \<Rightarrow> 's outcome" and okp :: "ptr \<Rightarrow> bool" and nexts :: "ptr \<Rightarrow> ptr set"
  assumes visit_0: "visit 0 n s = (s, Some OutOfFuel)"
    and visit_Suc: "good n \<Longrightarrow> visit (Suc f) n s =
      (if ptr_of n \<in> seen s then (again n s, None)
       else case enter n s of
              (s', Some e) \<Rightarrow> (s', Some e)
            | (s', None) \<Rightarrow> run_all (\<lambda>i u. case i of Child c \<Rightarrow> visit f c u | Refuse e \<Rightarrow> (u, Some e)) (items n) s')"
    and seen_again: "seen (again n s) = seen s"
    and seen_enter: "good n \<Longrightarrow> enter n s = (s', r) \<Longrightarrow> seen s' = insert (ptr_of n) (seen s)"
    and enter_refuses: "good n \<Longrightarrow> enter n s = (s', Some e) \<Longrightarrow> e \<noteq> OutOfFuel"
    and items_good: "good n \<Longrightarrow> Child c \<in> set (items n) \<Longrightarrow> good c"
    and items_refuse: "good n \<Longrightarrow> Refuse e \<in> set (items n) \<Longrightarrow> e \<noteq> OutOfFuel"
    and okp_iff: "good n \<Longrightarrow> ptr_of n \<notin> seen s \<Longrightarrow>
      okp (ptr_of n) \<longleftrightarrow> snd (enter n s) = None \<and> (\<forall>e. Refuse e \<notin> set (items n))"
    and nexts_items: "good n \<Longrightarrow> okp (ptr_of n) \<Longrightarrow> nexts (ptr_of n) = {ptr_of c | c. Child c \<in> set (items n)}"
begin

definition edge :: "(ptr \<times> ptr) set" where
  "edge = {(p, q). okp p \<and> q \<in> nexts p}"

definition reach :: "ptr \<Rightarrow> ptr set" where
  "reach p = {q. (p, q) \<in> edge\<^sup>*}"

lemma reach_refl: "p \<in> reach p"
  by (simp add: reach_def)

lemma reach_step: "okp p \<Longrightarrow> q \<in> nexts p \<Longrightarrow> reach q \<subseteq> reach p"
  by (auto simp: reach_def edge_def intro: converse_rtrancl_into_rtrancl)

abbreviation step :: "nat \<Rightarrow> 'n item \<Rightarrow> 's \<Rightarrow> 's outcome" where
  "step f i u \<equiv> (case i of Child c \<Rightarrow> visit f c u | Refuse e \<Rightarrow> (u, Some e))"

lemma visit_cases:
  assumes "good n" and "visit (Suc f) n s = (s', r)"
  obtains (seen) "ptr_of n \<in> seen s" "s' = again n s" "r = None"
  | (refused) e where "ptr_of n \<notin> seen s" "enter n s = (s', Some e)" "r = Some e"
  | (entered) s1 where "ptr_of n \<notin> seen s" "enter n s = (s1, None)" "run_all (step f) (items n) s1 = (s', r)"
proof -
  obtain s1 r1 where e: "enter n s = (s1, r1)"
    by fastforce
  show thesis
    using assms(2) e by (cases r1) (auto simp: visit_Suc [OF assms(1)] intro: that split: if_splits)
qed

text \<open>A successful walk: what it has entered is closed, allowed, and reachable.\<close>

definition explored :: "ptr set \<Rightarrow> 's \<Rightarrow> 's \<Rightarrow> bool" where
  "explored R s s' \<longleftrightarrow> seen s \<subseteq> seen s' \<and> seen s' - seen s \<subseteq> R \<and>
     (\<forall>p \<in> seen s' - seen s. okp p \<and> nexts p \<subseteq> seen s')"

lemma explored_trans:
  assumes "explored R s u" "explored R u v"
  shows "explored R s v"
proof -
  have "okp p \<and> nexts p \<subseteq> seen v" if "p \<in> seen v - seen s" for p
  proof (cases "p \<in> seen u")
    case True
    then have "okp p" "nexts p \<subseteq> seen u" "seen u \<subseteq> seen v"
      using assms that by (simp_all add: explored_def)
    then show ?thesis
      by simp
  qed (use assms that in \<open>simp add: explored_def\<close>)
  then show ?thesis
    using assms by (auto simp: explored_def)
qed

lemma explored_mono: "explored R s u \<Longrightarrow> R \<subseteq> R' \<Longrightarrow> explored R' s u"
  unfolding explored_def by blast

lemma run_explored:
  assumes "run_all (step f) is s = (s', None)" and "\<And>c. Child c \<in> set is \<Longrightarrow> good c \<and> reach (ptr_of c) \<subseteq> R"
    and "\<And>c u v. Child c \<in> set is \<Longrightarrow> visit f c u = (v, None) \<Longrightarrow> explored (reach (ptr_of c)) u v \<and> ptr_of c \<in> seen v"
  shows "explored R s s' \<and> (\<forall>c. Child c \<in> set is \<longrightarrow> ptr_of c \<in> seen s')"
  using assms
proof (induction "is" arbitrary: s)
  case (Cons i "is")
  obtain c u where i: "i = Child c" "visit f c s = (u, None)" "run_all (step f) is u = (s', None)"
    using Cons.prems(1) by (auto split: prod.splits option.splits item.splits)
  have head: "explored R s u" "ptr_of c \<in> seen u"
    using Cons.prems(2) [of c] Cons.prems(3) [of c s u] i(1,2) by (auto intro: explored_mono)
  have tail: "explored R u s' \<and> (\<forall>c. Child c \<in> set is \<longrightarrow> ptr_of c \<in> seen s')"
    by (rule Cons.IH [OF i(3)]) (rule Cons.prems, simp, rule Cons.prems, simp_all)
  then have "explored R s s'"
    using explored_trans [OF head(1)] by blast
  moreover have "ptr_of c \<in> seen s'"
    using tail head(2) by (auto simp: explored_def)
  ultimately show ?case
    using tail i(1) by auto
qed (auto simp: explored_def)

lemma visit_explored:
  "good n \<Longrightarrow> visit f n s = (s', None) \<Longrightarrow> explored (reach (ptr_of n)) s s' \<and> ptr_of n \<in> seen s'"
proof (induction f arbitrary: n s s')
  case (Suc f)
  from Suc.prems(1,2) show ?case
  proof (cases rule: visit_cases)
    case (entered s1)
    have "\<forall>e. Refuse e \<notin> set (items n)"
    proof (rule ccontr)
      assume "\<not> ?thesis"
      then obtain e where "Refuse e \<in> set (items n)"
        by blast
      then have "\<exists>xs ys. items n = xs @ Refuse e # ys"
        by (simp add: in_set_conv_decomp)
      then show False
        using entered(3) by (auto simp: run_all_append split: prod.splits option.splits)
    qed
    then have ok: "okp (ptr_of n)"
      using okp_iff [OF Suc.prems(1) entered(1)] entered(2) by simp
    have next': "Child c \<in> set (items n) \<Longrightarrow> good c \<and> reach (ptr_of c) \<subseteq> reach (ptr_of n)" for c
      using items_good [OF Suc.prems(1)] reach_step [OF ok, of "ptr_of c"] nexts_items [OF Suc.prems(1) ok] by blast
    have r: "explored (reach (ptr_of n)) s1 s' \<and> (\<forall>c. Child c \<in> set (items n) \<longrightarrow> ptr_of c \<in> seen s')"
    proof (rule run_explored [OF entered(3) next'])
      fix c u v
      assume "Child c \<in> set (items n)" "visit f c u = (v, None)"
      then show "explored (reach (ptr_of c)) u v \<and> ptr_of c \<in> seen v"
        using Suc.IH [of c u v] next' by simp
    qed
    have s1: "seen s1 = insert (ptr_of n) (seen s)"
      using seen_enter [OF Suc.prems(1) entered(2)] .
    have "nexts (ptr_of n) \<subseteq> seen s'"
      using r nexts_items [OF Suc.prems(1) ok] by auto
    then have "nexts p \<subseteq> seen s' \<and> okp p" if "p \<in> seen s' - seen s" for p
      using r ok s1 that by (cases "p = ptr_of n") (simp_all add: explored_def)
    then show ?thesis
      using s1 r ok nexts_items [OF Suc.prems(1) ok] reach_refl [of "ptr_of n"] by (auto simp: explored_def)
  qed (auto simp: explored_def seen_again)
qed (simp add: visit_0)

theorem walk_reach:
  assumes "good n" "visit f n s = (s', None)" "seen s = {}"
  shows "seen s' = reach (ptr_of n)" "\<And>p. p \<in> reach (ptr_of n) \<Longrightarrow> okp p"
proof -
  have x: "explored (reach (ptr_of n)) s s'" "ptr_of n \<in> seen s'"
    using visit_explored [OF assms(1,2)] by auto
  have "q \<in> seen s'" if "(ptr_of n, q) \<in> edge\<^sup>*" for q
    using that x assms(3) by (induction rule: rtrancl_induct) (auto simp: explored_def edge_def)
  then show "seen s' = reach (ptr_of n)"
    using x(1) assms(3) by (auto simp: reach_def explored_def)
  then show "okp p" if "p \<in> reach (ptr_of n)" for p
    using x(1) assms(3) that by (auto simp: explored_def)
qed

text \<open>Visiting only adds to what is seen, and stays within a closed set.\<close>

lemma visit_seen_mono: "good n \<Longrightarrow> visit f n s = (s', r) \<Longrightarrow> seen s \<subseteq> seen s'"
proof (induction f arbitrary: n s s' r)
  case (Suc f)
  from Suc.prems(1,2) show ?case
  proof (cases rule: visit_cases)
    case (entered s1)
    have "seen s1 \<subseteq> seen s'"
    proof (rule run_all_invariant [OF entered(3), where P = "\<lambda>u. seen s1 \<subseteq> seen u"])
      fix i u v o'
      assume i: "i \<in> set (items n)" "seen s1 \<subseteq> seen u" "step f i u = (v, o')"
      show "seen s1 \<subseteq> seen v"
      proof (cases i)
        case (Child c)
        then show ?thesis
          using i Suc.IH items_good [OF Suc.prems(1), of c] by fastforce
      qed (use i in auto)
    qed simp
    then show ?thesis
      using seen_enter [OF Suc.prems(1) entered(2)] by auto
  qed (auto simp: seen_again dest: seen_enter [OF Suc.prems(1)])
qed (simp add: visit_0)

lemma walk_depth:
  assumes "finite U" and closed: "\<And>n c. good n \<Longrightarrow> ptr_of n \<in> U \<Longrightarrow> Child c \<in> set (items n) \<Longrightarrow> ptr_of c \<in> U"
  shows "good n \<Longrightarrow> ptr_of n \<in> U \<Longrightarrow> card (U - seen s) < f \<Longrightarrow> visit f n s = (s', r) \<Longrightarrow> r \<noteq> Some OutOfFuel"
proof (induction f arbitrary: n s s' r)
  case (Suc f)
  from Suc.prems(1,4) show ?case
  proof (cases rule: visit_cases)
    case (entered s1)
    have s1: "seen s1 = insert (ptr_of n) (seen s)"
      using seen_enter [OF Suc.prems(1) entered(2)] .
    then have "U - seen s1 \<subset> U - seen s"
      using Suc.prems(2) entered(1) by auto
    then have card: "card (U - seen s1) < f"
      using Suc.prems(3) psubset_card_mono [of "U - seen s" "U - seen s1"] assms(1) by simp
    show ?thesis
    proof
      assume "r = Some OutOfFuel"
      then have "run_all (step f) (items n) s1 = (s', Some OutOfFuel)"
        using entered by simp
      then obtain i u v where i: "i \<in> set (items n)" "seen s1 \<subseteq> seen u" "step f i u = (v, Some OutOfFuel)"
      proof (rule run_all_error [where P = "\<lambda>u. seen s1 \<subseteq> seen u", THEN exE])
        fix i u v o'
        assume i: "i \<in> set (items n)" "seen s1 \<subseteq> seen u" "step f i u = (v, o')"
        show "seen s1 \<subseteq> seen v"
        proof (cases i)
          case (Child c)
          then show ?thesis
            using i visit_seen_mono [of c f u v o'] items_good [OF Suc.prems(1), of c] by auto
        qed (use i in auto)
      qed auto
      show False
      proof (cases i)
        case (Child c)
        have "card (U - seen u) \<le> card (U - seen s1)"
          using i(2) assms(1) by (intro card_mono) auto
        then show ?thesis
          using Child i Suc.IH [of c u v] card items_good [OF Suc.prems(1), of c] closed [OF Suc.prems(1,2), of c] by auto
      next
        case (Refuse e)
        then show ?thesis
          using i items_refuse [OF Suc.prems(1), of e] by auto
      qed
    qed
  qed (auto dest: enter_refuses [OF Suc.prems(1)])
qed simp

text \<open>A refused walk: an instance it reaches is refused.\<close>

lemma walk_refused:
  "good n \<Longrightarrow> visit f n s = (s', Some e) \<Longrightarrow> e \<noteq> OutOfFuel \<Longrightarrow> \<exists>p \<in> reach (ptr_of n). \<not> okp p"
proof (induction f arbitrary: n s s')
  case (Suc f)
  from Suc.prems(1,2) show ?case
  proof (cases rule: visit_cases)
    case (refused e')
    then show ?thesis
      using okp_iff [OF Suc.prems(1) refused(1)] reach_refl [of "ptr_of n"] by auto
  next
    case (entered s1)
    show ?thesis
    proof (cases "okp (ptr_of n)")
      case True
      then have no: "Refuse e' \<notin> set (items n)" for e'
        using okp_iff [OF Suc.prems(1) entered(1)] by blast
      obtain i u v where i: "i \<in> set (items n)" "step f i u = (v, Some e)"
        using run_all_error [OF entered(3), where P = "\<lambda>_. True"] by auto
      then obtain c where c: "i = Child c" "Child c \<in> set (items n)"
        using no by (metis item.exhaust)
      then have "\<exists>p \<in> reach (ptr_of c). \<not> okp p"
        using Suc.IH [of c u v] i items_good [OF Suc.prems(1)] Suc.prems(3) by auto
      then show ?thesis
        using reach_step [OF True, of "ptr_of c"] nexts_items [OF Suc.prems(1) True] c(2) by blast
    qed (use reach_refl in blast)
  qed auto
qed (simp add: visit_0)

lemma run_keeps:
  assumes "\<And>c u v. Child c \<in> set is \<Longrightarrow> P u \<Longrightarrow> visit f c u = (v, None) \<Longrightarrow> P v"
  shows "run_all (step f) is u = (v, None) \<Longrightarrow> P u \<Longrightarrow> P v"
  using assms
proof (induction "is" arbitrary: u)
  case (Cons i "is")
  obtain c w where i: "i = Child c" "visit f c u = (w, None)" "run_all (step f) is w = (v, None)"
    using Cons.prems(1) by (auto split: prod.splits option.splits item.splits)
  then have "P w"
    using Cons.prems(2,3) by (metis list.set_intros(1))
  then show ?case
    using Cons.IH [OF i(3)] Cons.prems(3) by (metis list.set_intros(2))
qed simp

text \<open>What entering and seeing again keep, a successful walk keeps.\<close>

lemma visit_invariant:
  assumes again: "\<And>n s. good n \<Longrightarrow> ptr_of n \<in> seen s \<Longrightarrow> P s \<Longrightarrow> P (again n s)"
    and enter: "\<And>n s s'. good n \<Longrightarrow> ptr_of n \<notin> seen s \<Longrightarrow> P s \<Longrightarrow> enter n s = (s', None) \<Longrightarrow> P s'"
  shows "good n \<Longrightarrow> P s \<Longrightarrow> visit f n s = (s', None) \<Longrightarrow> P s'"
proof (induction f arbitrary: n s s')
  case (Suc f)
  from Suc.prems(1,3) show ?case
  proof (cases rule: visit_cases)
    case seen
    then show ?thesis
      using again [OF Suc.prems(1)] Suc.prems(2) by simp
  next
    case (entered s1)
    have "P s1"
      using enter [OF Suc.prems(1) entered(1) Suc.prems(2) entered(2)] .
    then show ?thesis
    proof (rule run_keeps [where P = P, OF _ entered(3), rotated])
      fix c u v
      assume "Child c \<in> set (items n)" "P u" "visit f c u = (v, None)"
      then show "P v"
        using Suc.IH [of c u v] items_good [OF Suc.prems(1)] by blast
    qed
  qed simp
qed (simp add: visit_0)

text \<open>What the first entering step establishes and the walk keeps holds at the end.\<close>

lemma visit_established:
  assumes "good n" "visit (Suc f) n s = (s', None)" "ptr_of n \<notin> seen s"
    and first: "\<And>s1. enter n s = (s1, None) \<Longrightarrow> P s1"
    and again: "\<And>n s. good n \<Longrightarrow> ptr_of n \<in> seen s \<Longrightarrow> P s \<Longrightarrow> P (again n s)"
    and enter: "\<And>n s s'. good n \<Longrightarrow> ptr_of n \<notin> seen s \<Longrightarrow> P s \<Longrightarrow> enter n s = (s', None) \<Longrightarrow> P s'"
  shows "P s'"
  using assms(1,2)
proof (cases rule: visit_cases)
  case (entered s1)
  have "P v" if "Child c \<in> set (items n)" "P u" "visit f c u = (v, None)" for c u v
    using visit_invariant [where P = P, OF again enter items_good [OF assms(1) that(1)] that(2,3)] .
  then show ?thesis
    by (rule run_keeps [where P = P, OF _ entered(3) first [OF entered(2)]])
qed (use assms(3) in auto)

text \<open>The error of a refused walk comes from one of the instances met on the way: entering it, or a refusal among its items.\<close>

definition linked :: "(ptr \<times> ptr) set" where
  "linked = {(ptr_of n, ptr_of c) | n c. good n \<and> Child c \<in> set (items n)}"

lemma walk_error:
  "good n \<Longrightarrow> visit f n s = (s', Some e) \<Longrightarrow> e \<noteq> OutOfFuel \<Longrightarrow>
   \<exists>m u. good m \<and> (ptr_of n, ptr_of m) \<in> linked\<^sup>* \<and> (snd (enter m u) = Some e \<or> snd (enter m u) = None \<and> Refuse e \<in> set (items m))"
proof (induction f arbitrary: n s s')
  case (Suc f)
  from Suc.prems(1,2) show ?case
  proof (cases rule: visit_cases)
    case (refused e')
    then show ?thesis
      using Suc.prems(1) by (intro exI [of _ n] exI [of _ s]) simp
  next
    case (entered s1)
    obtain i u v where i: "i \<in> set (items n)" "step f i u = (v, Some e)"
      using run_all_error [OF entered(3), where P = "\<lambda>_. True"] by auto
    show ?thesis
    proof (cases i)
      case (Refuse e')
      then show ?thesis
        using i entered(2) Suc.prems(1) by (intro exI [of _ n] exI [of _ s]) auto
    next
      case (Child c)
      then have c: "good c" "visit f c u = (v, Some e)" "(ptr_of n, ptr_of c) \<in> linked"
        using i items_good [OF Suc.prems(1), of c] Suc.prems(1) by (auto simp: linked_def)
      show ?thesis
        using Suc.IH [OF c(1,2) Suc.prems(3)] c(3) by (blast intro: converse_rtrancl_into_rtrancl)
    qed
  qed simp
qed (simp add: visit_0)

end

end
