(* ===== verification/Unit_Of_Work.thy ===== *)
theory Unit_Of_Work
  imports Session Cascade_Walk
begin

text \<open>
  The unit of work (\<open>unit_of_work.go\<close>, \<open>db_detach_merge.go\<close>: \<open>Detach\<close>, \<open>dropRemove\<close>): \<open>Persist\<close> and \<open>Remove\<close>
  plan a walk over the declared cascades first and commit after, \<open>cancel\<close> drops scheduled inserts
  with what only their cascade had scheduled.

  A plan is a record, its \<open>added\<close> map a lookup in \<open>adds\<close>; a scheduled insert is named by its
  instance, which is unique in the schedule. The schedule's counter moves during the walk, so the
  plan carries it and a refused call still keeps its new value. The walk over the object graph has
  a depth bound, one more than the number of allocated instances; the properties show it is never
  reached.
\<close>

section \<open>Persist\<close>

record persistPlan =
  pp_visited :: "ptr list"
  pp_adds :: "scheduledInsert list"
  pp_links :: "(ptr \<times> cascadeLink) list"
  pp_directs :: "ptr list"
  pp_counter :: nat

definition added :: "persistPlan \<Rightarrow> ptr \<Rightarrow> scheduledInsert option" where
  "added pl p = find (\<lambda>s. si_ptr s = p) (pp_adds pl)"

text \<open>\<open>note\<close>: a link when a cascade reached a scheduled child, the direct flag when the caller persisted it.\<close>

definition persist_note :: "ptr \<Rightarrow> scheduledInsert option \<Rightarrow> cascadeLink option \<Rightarrow> persistPlan \<Rightarrow> persistPlan" where
  "persist_note p scheduled via pl =
     (case scheduled of
        None \<Rightarrow> pl
      | Some _ \<Rightarrow> (case via of
            None \<Rightarrow> pl\<lparr>pp_directs := pp_directs pl @ [p]\<rparr>
          | Some link \<Rightarrow> pl\<lparr>pp_links := pp_links pl @ [(p, link)]\<rparr>))"

definition persist_scheduled :: "Db \<Rightarrow> ptr \<Rightarrow> persistPlan \<Rightarrow> scheduledInsert option" where
  "persist_scheduled db p pl =
     (case insertOf (schedule db) p of Some s \<Rightarrow> Some s | None \<Rightarrow> added pl p)"

text \<open>The part of \<open>visit\<close> before its loop: mark, refuse, schedule, note.\<close>

definition persist_enter ::
  "Db \<Rightarrow> gotype \<Rightarrow> ptr \<Rightarrow> cascadeLink option \<Rightarrow> persistPlan \<Rightarrow> persistPlan outcome" where
  "persist_enter db t p via pl =
     (let scheduled = persist_scheduled db p pl;
          pl1 = pl\<lparr>pp_visited := p # pp_visited pl\<rparr>
      in case requireWritableKeyedType db t of
           Inl e \<Rightarrow> (pl1, Some e)
         | Inr m \<Rightarrow>
             if removeOf (schedule db) p \<noteq> None then (pl1, Some (OrmError ''UOW-006'' (EntityName m)))
             else if scheduled = None \<and> entryOf db (Some p) = None
             then let order = pp_counter pl1 + 1;
                      s = \<lparr>si_ptr = p, si_m = m, si_direct = False, si_links = [], si_order = order\<rparr>
                  in (persist_note p (Some s) via (pl1\<lparr>pp_counter := order, pp_adds := pp_adds pl1 @ [s]\<rparr>), None)
             else (persist_note p scheduled via pl1, None))"

fun persist_visit ::
  "nat \<Rightarrow> memory \<Rightarrow> Db \<Rightarrow> gotype \<Rightarrow> ptr \<Rightarrow> cascadeLink option \<Rightarrow> persistPlan \<Rightarrow> persistPlan outcome" where
  "persist_visit 0 mem db t p via pl = (pl, Some OutOfFuel)"
| "persist_visit (Suc fuel) mem db t p via pl =
     (if p \<in> set (pp_visited pl) then (persist_note p (persist_scheduled db p pl) via pl, None)
      else case persist_enter db t p via pl of
        (pl1, Some e) \<Rightarrow> (pl1, Some e)
      | (pl1, None) \<Rightarrow>
          (case requireWritableKeyedType db t of
             Inl e \<Rightarrow> (pl1, Some e)
           | Inr m \<Rightarrow>
               run_all (\<lambda>r u.
                   if \<not> Cascade_Has (Cascade r) CascadePersist then (u, None)
                   else run_all (\<lambda>q. persist_visit fuel mem db (TargetType r) q
                            (Some \<lparr>cl_owner = p, cl_ownerMap = m, cl_relationship = r\<rparr>))
                          (fst (navigationTargets mem p r)) u)
                 (Relationships m) pl1))"

text \<open>\<open>commit\<close>: the new inserts, the direct flags, the links (a link recorded before is not repeated).\<close>

definition set_direct :: "ptr \<Rightarrow> scheduledInsert list \<Rightarrow> scheduledInsert list" where
  "set_direct p = map (\<lambda>s. if si_ptr s = p then s\<lparr>si_direct := True\<rparr> else s)"

definition duplicate_link :: "cascadeLink \<Rightarrow> scheduledInsert \<Rightarrow> bool" where
  "duplicate_link link s \<longleftrightarrow>
     (\<exists>l \<in> set (si_links s). cl_owner l = cl_owner link \<and> cl_relationship l = cl_relationship link)"

definition add_link :: "ptr \<times> cascadeLink \<Rightarrow> scheduledInsert list \<Rightarrow> scheduledInsert list" where
  "add_link planned =
     map (\<lambda>s. if si_ptr s = fst planned \<and> \<not> duplicate_link (snd planned) s
              then s\<lparr>si_links := si_links s @ [snd planned]\<rparr> else s)"

definition persist_commit :: "persistPlan \<Rightarrow> unitOfWork \<Rightarrow> unitOfWork" where
  "persist_commit pl u =
     u\<lparr>uw_inserts := fold add_link (pp_links pl) (fold set_direct (pp_directs pl) (uw_inserts u @ pp_adds pl)),
       uw_counter := pp_counter pl\<rparr>"

definition persist_plan0 :: "Db \<Rightarrow> persistPlan" where
  "persist_plan0 db = \<lparr>pp_visited = [], pp_adds = [], pp_links = [], pp_directs = [], pp_counter = uw_counter (schedule db)\<rparr>"

definition Persist :: "memory \<Rightarrow> Db \<Rightarrow> gotype \<Rightarrow> ptr option \<Rightarrow> Db outcome" where
  "Persist mem db t entity =
     (case requireUnitOfWork db of
        Inl e \<Rightarrow> (db, Some e)
      | Inr _ \<Rightarrow>
          (case entity of
             None \<Rightarrow> (db, Some (PlainError ''orm.Persist: entity is nil''))
           | Some p \<Rightarrow>
               (case persist_visit (Suc (hsize mem)) mem db t p None (persist_plan0 db) of
                  (pl, Some e) \<Rightarrow> (db\<lparr>db_uow := Some ((schedule db)\<lparr>uw_counter := pp_counter pl\<rparr>)\<rparr>, Some e)
                | (pl, None) \<Rightarrow> (db\<lparr>db_uow := Some (persist_commit pl (schedule db))\<rparr>, None))))"

section \<open>Cancelling scheduled inserts\<close>

text \<open>
  One pass of \<open>cancel\<close>'s loop over the schedule: the links whose owner is cancelled are dropped, and
  an insert that lost its last link and was not persisted directly is cancelled too.
\<close>

fun cancel_pass :: "unitOfWork \<Rightarrow> ptr list \<Rightarrow> scheduledInsert list \<Rightarrow> ptr list \<times> scheduledInsert list" where
  "cancel_pass u cancelled [] = (cancelled, [])"
| "cancel_pass u cancelled (s # ss) =
     (if si_ptr s \<in> set cancelled
      then let (c, rest) = cancel_pass u cancelled ss in (c, s # rest)
      else let kept = filter (\<lambda>l. \<not> (insertOf u (cl_owner l) \<noteq> None \<and> cl_owner l \<in> set cancelled)) (si_links s);
               dropped = length kept \<noteq> length (si_links s);
               cancelled' = (if dropped \<and> \<not> si_direct s \<and> length kept = 0 then si_ptr s # cancelled else cancelled);
               (c, rest) = cancel_pass u cancelled' ss
           in (c, s\<lparr>si_links := kept\<rparr> # rest))"

lemma cancel_pass_grows:
  "cancel_pass u c ss = (c', ss') \<Longrightarrow>
     map si_ptr ss' = map si_ptr ss \<and> (\<exists>new. c' = new @ c \<and> set new \<subseteq> si_ptr ` set ss - set c)"
proof (induction u c ss arbitrary: c' ss' rule: cancel_pass.induct)
  case (2 u c s ss)
  show ?case
  proof (cases "si_ptr s \<in> set c")
    case True
    then show ?thesis
      using 2 by (fastforce split: prod.splits)
  next
    case False
    let ?kept = "filter (\<lambda>l. \<not> (insertOf u (cl_owner l) \<noteq> None \<and> cl_owner l \<in> set c)) (si_links s)"
    let ?c1 = "if length ?kept \<noteq> length (si_links s) \<and> \<not> si_direct s \<and> length ?kept = 0 then si_ptr s # c else c"
    obtain rest where r: "cancel_pass u ?c1 ss = (c', rest)" "ss' = s\<lparr>si_links := ?kept\<rparr> # rest"
      using 2(3) False by (auto simp: Let_def split: prod.splits)
    obtain new where new: "map si_ptr rest = map si_ptr ss" "c' = new @ ?c1" "set new \<subseteq> si_ptr ` set ss - set ?c1"
      using 2(2) [OF False refl refl refl r(1)] by auto
    define new' where "new' = (if ?c1 = c then new else new @ [si_ptr s])"
    have "c' = new' @ c" "set new' \<subseteq> si_ptr ` set (s # ss) - set c"
      using new(2,3) False by (auto simp: new'_def split: if_splits)
    then show ?thesis
      using new(1) r(2) by auto
  qed
qed simp

function cancel_loop :: "unitOfWork \<Rightarrow> ptr list \<Rightarrow> scheduledInsert list \<Rightarrow> ptr list \<times> scheduledInsert list" where
  "cancel_loop u cancelled ss =
     (let (c, ss') = cancel_pass u cancelled ss
      in if length c = length cancelled then (c, ss') else cancel_loop u c ss')"
  by pat_completeness auto
termination
proof (relation "measure (\<lambda>(u, c, ss). length (filter (\<lambda>s. si_ptr s \<notin> set c) ss))", goal_cases)
  case (2 u cancelled ss x c ss')
  then have p: "cancel_pass u cancelled ss = (c, ss')"
    by simp
  obtain new where new: "map si_ptr ss' = map si_ptr ss" "c = new @ cancelled" "set new \<subseteq> si_ptr ` set ss - set cancelled"
    using cancel_pass_grows [OF p] by auto
  then obtain q where q: "q \<in> set new" "q \<in> si_ptr ` set ss" "q \<notin> set cancelled"
    using 2(3) by (cases new) auto
  have count: "length (filter (\<lambda>s. si_ptr s \<notin> C) xs) = length (filter (\<lambda>p. p \<notin> C) (map si_ptr xs))" for C and xs :: "scheduledInsert list"
    by (induction xs) auto
  have "length (filter (\<lambda>p. p \<notin> set c) ps) < length (filter (\<lambda>p. p \<notin> set cancelled) ps)" if "q \<in> set ps" for ps
  proof -
    have "filter (\<lambda>p. p \<notin> set c) ps = filter (\<lambda>p. p \<notin> set c) (filter (\<lambda>p. p \<notin> set cancelled) ps)"
      using new(2) by (auto intro: filter_cong)
    moreover have "q \<in> set (filter (\<lambda>p. p \<notin> set cancelled) ps)" "\<not> q \<notin> set c"
      using that q new(2) by auto
    ultimately show ?thesis
      by (metis length_filter_less)
  qed
  from this [of "map si_ptr ss"] q(2) show ?case
    by (simp only: in_measure prod.case count new(1) set_map simp_thms)
qed simp

declare cancel_loop.simps [simp del]

definition cancel :: "ptr list \<Rightarrow> unitOfWork \<Rightarrow> unitOfWork" where
  "cancel initial u =
     (let (cancelled, inserts) = (if initial = [] then ([], uw_inserts u) else cancel_loop u initial (uw_inserts u))
      in u\<lparr>uw_inserts := filter (\<lambda>s. si_ptr s \<notin> set cancelled) inserts\<rparr>)"

section \<open>Remove\<close>

record removePlan =
  rp_visited :: "ptr list"
  rp_adds :: "scheduledRemove list"
  rp_cancels :: "ptr list"
  rp_counter :: nat

text \<open>The part of \<open>visit\<close> before its loop; the flag says whether the loop follows.\<close>

definition remove_enter :: "Db \<Rightarrow> gotype \<Rightarrow> ptr \<Rightarrow> removePlan \<Rightarrow> removePlan outcome" where
  "remove_enter db t p pl =
     (let pl1 = pl\<lparr>rp_visited := p # rp_visited pl\<rparr>; uow = schedule db
      in if insertOf uow p \<noteq> None then (pl1\<lparr>rp_cancels := rp_cancels pl1 @ [p]\<rparr>, None)
         else if removeOf uow p \<noteq> None then (pl1, None)
         else case requireWritableKeyedType db t of
                Inl e \<Rightarrow> (pl1, Some e)
              | Inr m \<Rightarrow>
                  if entryOf db (Some p) = None then (pl1, Some (OrmError ''UOW-001'' (EntityName m)))
                  else let order = rp_counter pl1 + 1
                       in (pl1\<lparr>rp_counter := order,
                              rp_adds := rp_adds pl1 @ [\<lparr>sr_ptr = p, sr_m = m, sr_order = order\<rparr>]\<rparr>, None))"

definition remove_walks :: "Db \<Rightarrow> ptr \<Rightarrow> bool" where
  "remove_walks db p \<longleftrightarrow> insertOf (schedule db) p = None \<and> removeOf (schedule db) p = None"

fun remove_visit :: "nat \<Rightarrow> memory \<Rightarrow> Db \<Rightarrow> gotype \<Rightarrow> ptr \<Rightarrow> removePlan \<Rightarrow> removePlan outcome" where
  "remove_visit 0 mem db t p pl = (pl, Some OutOfFuel)"
| "remove_visit (Suc fuel) mem db t p pl =
     (if p \<in> set (rp_visited pl) then (pl, None)
      else case remove_enter db t p pl of
        (pl1, Some e) \<Rightarrow> (pl1, Some e)
      | (pl1, None) \<Rightarrow>
          if \<not> remove_walks db p then (pl1, None)
          else (case requireWritableKeyedType db t of
             Inl e \<Rightarrow> (pl1, Some e)
           | Inr m \<Rightarrow>
               run_all (\<lambda>r u.
                   if \<not> Cascade_Has (Cascade r) CascadeRemove then (u, None)
                   else if \<not> snd (navigationTargets mem p r) \<and> RelKind r = RelationshipOneToMany
                   then (u, Some (OrmError ''UOW-005'' (EntityName m @ ''.'' @ RelName r)))
                   else run_all (\<lambda>q. remove_visit fuel mem db (TargetType r) q) (fst (navigationTargets mem p r)) u)
                 (Relationships m) pl1))"

definition remove_commit :: "removePlan \<Rightarrow> unitOfWork \<Rightarrow> unitOfWork" where
  "remove_commit pl u =
     cancel (rp_cancels pl) (u\<lparr>uw_removes := uw_removes u @ rp_adds pl, uw_counter := rp_counter pl\<rparr>)"

definition remove_plan0 :: "Db \<Rightarrow> removePlan" where
  "remove_plan0 db = \<lparr>rp_visited = [], rp_adds = [], rp_cancels = [], rp_counter = uw_counter (schedule db)\<rparr>"

definition Remove :: "memory \<Rightarrow> Db \<Rightarrow> gotype \<Rightarrow> ptr option \<Rightarrow> Db outcome" where
  "Remove mem db t entity =
     (case requireUnitOfWork db of
        Inl e \<Rightarrow> (db, Some e)
      | Inr _ \<Rightarrow>
          (case entity of
             None \<Rightarrow> (db, Some (PlainError ''orm.Remove: entity is nil''))
           | Some p \<Rightarrow>
               (case remove_visit (Suc (hsize mem)) mem db t p (remove_plan0 db) of
                  (pl, Some e) \<Rightarrow> (db\<lparr>db_uow := Some ((schedule db)\<lparr>uw_counter := rp_counter pl\<rparr>)\<rparr>, Some e)
                | (pl, None) \<Rightarrow> (db\<lparr>db_uow := Some (remove_commit pl (schedule db))\<rparr>, None))))"

section \<open>Clear and detach\<close>

definition uow_clear :: "unitOfWork \<Rightarrow> unitOfWork" where
  "uow_clear u = u\<lparr>uw_inserts := [], uw_removes := []\<rparr>"

definition dropRemove :: "scheduledRemove \<Rightarrow> unitOfWork \<Rightarrow> unitOfWork" where
  "dropRemove scheduled u = u\<lparr>uw_removes := filter (\<lambda>candidate. candidate \<noteq> scheduled) (uw_removes u)\<rparr>"

definition Detach :: "Db \<Rightarrow> gotype \<Rightarrow> ptr option \<Rightarrow> Db res" where
  "Detach db t entity =
     bindR (requireUnitOfWork db) (\<lambda>_.
       case entity of
         None \<Rightarrow> Inl (OrmError ''UOW-001'' t)
       | Some p \<Rightarrow>
           let uow = schedule db; entry = entryOf db (Some p); ins = insertOf uow p; rem = removeOf uow p
           in if entry = None \<and> ins = None \<and> rem = None then Inl (OrmError ''UOW-001'' t)
              else let uow1 = (if ins \<noteq> None then cancel [p] uow else uow);
                       uow2 = (case rem of None \<Rightarrow> uow1 | Some s \<Rightarrow> dropRemove s uow1);
                       db1 = db\<lparr>db_uow := Some uow2\<rparr>
                   in case entry of
                        None \<Rightarrow> Inr db1
                      | Some e \<Rightarrow> bindR (the_tracker db) (\<lambda>tr.
                                  bindR (tracker_forget tr e) (\<lambda>tr'. Inr (db1\<lparr>db_tracker := Some tr'\<rparr>))))"

end
