(* ===== verification/Flush.thy ===== *)
theory Flush
  imports Dependency_Order Type_Rank Unit_Of_Work Batch_Plan
begin

text \<open>
  Flushing the unit of work (\<open>flush.go\<close>): the plan (what is still pending, what is dirty, and the
  order of each phase) and its execution, statement by statement through the batching plan inside
  one transaction. \<open>depth\<close> bounds the discovery of types (\<open>rankTypes\<close>).
\<close>

section \<open>What is there to write\<close>

definition pendingWork :: "Db \<Rightarrow> scheduledInsert list \<times> scheduledRemove list" where
  "pendingWork db =
     (filter (\<lambda>s. entryOf db (Some (si_ptr s)) = None) (uw_inserts (schedule db)),
      filter (\<lambda>s. entryOf db (Some (sr_ptr s)) \<noteq> None) (uw_removes (schedule db)))"

definition hasWritableColumn :: "PropertyMap list \<Rightarrow> bool" where
  "hasWritableColumn changed \<longleftrightarrow> (\<exists>p \<in> set changed. isWritableChange p)"

fun dirty_loop :: "memory \<Rightarrow> Db \<Rightarrow> tracker \<Rightarrow> trackedEntry list \<Rightarrow> trackedEntry list res" where
  "dirty_loop mem db tr [] = Inr []"
| "dirty_loop mem db tr (entry # entries) =
     (if removeOf (schedule db) (te_ptr entry) \<noteq> None then dirty_loop mem db tr entries
      else bindR (tracker_changed (db_conv db) mem tr entry) (\<lambda>changed.
           bindR (dirty_loop mem db tr entries) (\<lambda>rest.
             Inr (if hasWritableColumn changed then entry # rest else rest))))"

definition dirtyEntries :: "memory \<Rightarrow> Db \<Rightarrow> trackedEntry list res" where
  "dirtyEntries mem db = bindR (the_tracker db) (\<lambda>tr. dirty_loop mem db tr (tracker_all tr))"

section \<open>The order of the phases\<close>

text \<open>\<open>position\<close>: the index of an instance in a phase (the last one, were it listed twice).\<close>

fun position_from :: "nat \<Rightarrow> ptr list \<Rightarrow> ptr \<Rightarrow> nat option" where
  "position_from i [] p = None"
| "position_from i (q # qs) p =
     (case position_from (Suc i) qs p of Some k \<Rightarrow> Some k | None \<Rightarrow> if q = p then Some i else None)"

definition position :: "ptr list \<Rightarrow> ptr \<Rightarrow> nat option" where
  "position = position_from 0"

text \<open>The parents an insert waits for: its many-to-one targets, and the owners that cascaded to it.\<close>

definition insert_dependencies :: "memory \<Rightarrow> ptr list \<Rightarrow> scheduledInsert \<Rightarrow> nat list" where
  "insert_dependencies mem ptrs s =
     List.map_filter (position ptrs)
       (concat (map (\<lambda>r. if RelKind r \<noteq> RelationshipManyToOne then [] else fst (navigationTargets mem (si_ptr s) r))
          (Relationships (si_m s)))) @
     List.map_filter (\<lambda>link. if RelKind (cl_relationship link) = RelationshipManyToOne then None else position ptrs (cl_owner link))
       (si_links s)"

definition insert_less :: "typeRanks \<Rightarrow> scheduledInsert list \<Rightarrow> nat \<Rightarrow> nat \<Rightarrow> bool" where
  "insert_less ranks inserts a b =
     (let ra = ranks (Type (si_m (inserts ! a))); rb = ranks (Type (si_m (inserts ! b)))
      in if ra \<noteq> rb then ra < rb else si_order (inserts ! a) < si_order (inserts ! b))"

text \<open>\<open>sort.Strings\<close> and the removal of adjacent repetitions.\<close>

fun unique_adjacent :: "string list \<Rightarrow> string list \<Rightarrow> string list" where
  "unique_adjacent acc [] = acc"
| "unique_adjacent acc (n # ns) = (if acc = [] \<or> last acc \<noteq> n then unique_adjacent (acc @ [n]) ns else unique_adjacent acc ns)"

fun insert_string :: "string \<Rightarrow> string list \<Rightarrow> string list" where
  "insert_string s [] = [s]"
| "insert_string s (t # ts) = (if bytes_compare s t \<le> 0 then s # t # ts else t # insert_string s ts)"

definition sort_strings :: "string list \<Rightarrow> string list" where
  "sort_strings ns = foldr insert_string ns []"

definition uniqueSorted :: "string list \<Rightarrow> string list" where
  "uniqueSorted names = unique_adjacent [] (sort_strings names)"

definition insertTypes :: "scheduledInsert list \<Rightarrow> nat list \<Rightarrow> string list" where
  "insertTypes inserts ordered =
     uniqueSorted (map (\<lambda>i. EntityName (si_m (inserts ! i))) (filter (\<lambda>i. i \<notin> set ordered) [0..<length inserts]))"

definition cycleError :: "string list \<Rightarrow> go_error" where
  "cycleError types = OrmError ''UOW-004'' (join '', '' types)"

definition orderInserts :: "memory \<Rightarrow> scheduledInsert list \<Rightarrow> typeRanks \<Rightarrow> scheduledInsert list res" where
  "orderInserts mem inserts ranks =
     bindR (dependencyOrder (length inserts) (map (insert_dependencies mem (map si_ptr inserts)) inserts) (insert_less ranks inserts))
       (\<lambda>(order, ok).
          if ok then Inr (map ((!) inserts) order) else Inl (cycleError (insertTypes inserts order)))"

text \<open>
  What one navigation of a removed instance adds to the dependency table: the child goes before
  the parent it references, the parent after the child it holds.
\<close>

definition append_at :: "nat \<Rightarrow> nat \<Rightarrow> nat list list \<Rightarrow> nat list list" where
  "append_at i d deps = deps[i := (deps ! i) @ [d]]"

definition delete_edge :: "nat \<Rightarrow> RelationshipMap \<Rightarrow> nat \<Rightarrow> nat list list \<Rightarrow> nat list list" where
  "delete_edge i r other deps =
     (case RelKind r of
        RelationshipManyToOne \<Rightarrow> append_at other i deps
      | RelationshipOneToMany \<Rightarrow> append_at i other deps
      | RelationshipOneToOne \<Rightarrow> append_at i other deps
      | RelationshipManyToMany \<Rightarrow> deps)"

definition delete_edges :: "memory \<Rightarrow> ptr list \<Rightarrow> nat \<times> scheduledRemove \<Rightarrow> (nat \<times> RelationshipMap \<times> nat) list" where
  "delete_edges mem ptrs = (\<lambda>(i, s).
     concat (map (\<lambda>r. map (\<lambda>other. (i, r, other)) (List.map_filter (position ptrs) (fst (navigationTargets mem (sr_ptr s) r))))
       (Relationships (sr_m s))))"

definition delete_dependencies :: "memory \<Rightarrow> scheduledRemove list \<Rightarrow> nat list list" where
  "delete_dependencies mem removes =
     foldl (\<lambda>deps (i, r, other). delete_edge i r other deps) (replicate (length removes) [])
       (concat (map (delete_edges mem (map sr_ptr removes)) (zip [0..<length removes] removes)))"

definition delete_less :: "typeRanks \<Rightarrow> scheduledRemove list \<Rightarrow> nat \<Rightarrow> nat \<Rightarrow> bool" where
  "delete_less ranks removes a b =
     (let ra = ranks (Type (sr_m (removes ! a))); rb = ranks (Type (sr_m (removes ! b)))
      in if ra \<noteq> rb then ra > rb else sr_order (removes ! a) < sr_order (removes ! b))"

definition orderDeletes :: "memory \<Rightarrow> scheduledRemove list \<Rightarrow> typeRanks \<Rightarrow> scheduledRemove list res" where
  "orderDeletes mem removes ranks =
     bindR (dependencyOrder (length removes) (delete_dependencies mem removes) (delete_less ranks removes))
       (\<lambda>(order, ok).
          if ok then Inr (map ((!) removes) order)
          else Inl (cycleError (uniqueSorted (map (\<lambda>s. EntityName (sr_m s)) removes))))"

section \<open>The plan\<close>

record flushPlan =
  fp_inserts :: "scheduledInsert list"
  fp_dirty :: "trackedEntry list"
  fp_deletes :: "scheduledRemove list"

definition flushPlan_empty :: "flushPlan \<Rightarrow> bool" where
  "flushPlan_empty p \<longleftrightarrow> length (fp_inserts p) + length (fp_dirty p) + length (fp_deletes p) = 0"

text \<open>The update phase's stable sort: by type rank, then registration.\<close>

definition sort_dirty :: "typeRanks \<Rightarrow> trackedEntry list \<Rightarrow> trackedEntry list" where
  "sort_dirty ranks = sort_key (\<lambda>e. ranks (Type (te_m e))) \<circ> sort_key te_seq"

definition planFlush :: "nat \<Rightarrow> memory \<Rightarrow> Db \<Rightarrow> flushPlan res" where
  "planFlush depth mem db =
     (let (inserts, removes) = pendingWork db in
      bindR (dirtyEntries mem db) (\<lambda>dirty.
      bindR (rankTypes (db_maps db) depth
               (map (\<lambda>s. Type (si_m s)) inserts @ map (\<lambda>s. Type (sr_m s)) removes @ map (\<lambda>e. Type (te_m e)) dirty)) (\<lambda>ranks.
      bindR (orderInserts mem inserts ranks) (\<lambda>orderedInserts.
      bindR (orderDeletes mem removes ranks) (\<lambda>orderedDeletes.
        Inr \<lparr>fp_inserts = orderedInserts, fp_dirty = sort_dirty ranks dirty, fp_deletes = orderedDeletes\<rparr>)))))"

section \<open>Keys flow before each insert\<close>

definition copyKey :: "EntityMap \<Rightarrow> ptr \<Rightarrow> EntityMap \<Rightarrow> ptr \<Rightarrow> string list \<Rightarrow> ('d world, unit) prog" where
  "copyKey sourceMap source targetMap target foreignKeys =
     (if length (KeyProperties sourceMap) \<noteq> length foreignKeys then retP ()
      else eachP (\<lambda>(keyProperty, name).
             case Property targetMap name of
               None \<Rightarrow> failP (OrmError ''REL-003'' (EntityName targetMap @ ''.'' @ name))
             | Some foreignKey \<Rightarrow>
                 bindP (getP (\<lambda>w. Get (w_mem w) keyProperty source)) (setP foreignKey target))
           (zip (KeyProperties sourceMap) foreignKeys))"

definition flow_relationship :: "scheduledInsert \<Rightarrow> RelationshipMap \<Rightarrow> ('d world, unit) prog" where
  "flow_relationship s r =
     (if RelKind r \<noteq> RelationshipManyToOne then retP ()
      else bindP (getP id) (\<lambda>w.
             case fst (navigationTargets (w_mem w) (si_ptr s) r) of
               [] \<Rightarrow> retP ()
             | target # _ \<Rightarrow>
                 bindP (liftR (db_maps (w_db w) (TargetType r))) (\<lambda>targetMap.
                   copyKey targetMap target (si_m s) (si_ptr s) (ForeignKeyProperties r))))"

definition owner_link :: "cascadeLink \<Rightarrow> bool" where
  "owner_link link \<longleftrightarrow> RelKind (cl_relationship link) \<in> {RelationshipOneToMany, RelationshipOneToOne}"

definition flow_link :: "scheduledInsert \<Rightarrow> cascadeLink \<Rightarrow> ('d world, unit) prog" where
  "flow_link s link =
     (if \<not> owner_link link then retP ()
      else copyKey (cl_ownerMap link) (cl_owner link) (si_m s) (si_ptr s) (ForeignKeyProperties (cl_relationship link)))"

definition flowKeys :: "scheduledInsert \<Rightarrow> ('d world, unit) prog" where
  "flowKeys s = bindP (eachP (flow_relationship s) (Relationships (si_m s))) (\<lambda>_. eachP (flow_link s) (si_links s))"

definition cascadeOwners :: "scheduledInsert \<Rightarrow> ptr list" where
  "cascadeOwners s = map cl_owner (filter owner_link (si_links s))"

section \<open>Execution\<close>

record FlushSummary =
  Inserted :: nat
  Updated :: nat
  Deleted :: nat

definition flush_subject :: "EntityMap \<Rightarrow> ptr \<Rightarrow> ptr list \<Rightarrow> subject" where
  "flush_subject m p depends = \<lparr>su_m = Some m, su_instance = Some p, su_depends = depends, su_key = None\<rparr>"

definition flush_insert :: "'d env \<Rightarrow> scheduledInsert \<Rightarrow> ('d calls, unit) prog" where
  "flush_insert env s =
     bindP (getP (\<lambda>(w, c). flush_subject (si_m s) (si_ptr s) (m2oTargets (w_mem w) (si_m s) (si_ptr s) @ cascadeOwners s))) (\<lambda>operation.
     bindP (before env operation) (\<lambda>_.
     bindP (on_world (flowKeys s)) (\<lambda>_.
     bindP (on_world (recordWrite (si_m s) (si_ptr s))) (\<lambda>_.
     bindP (on_world (prepareInsert env (Type (si_m s)) (si_ptr s))) (\<lambda>write.
       add env write operation)))))"

text \<open>An update phase step answers whether it issued a statement.\<close>

definition flush_update :: "'d env \<Rightarrow> trackedEntry \<Rightarrow> ('d calls, bool) prog" where
  "flush_update env entry =
     bindP (getP (\<lambda>(w, c). flush_subject (te_m entry) (te_ptr entry) (m2oTargets (w_mem w) (te_m entry) (te_ptr entry)))) (\<lambda>operation.
     bindP (before env operation) (\<lambda>_.
     bindP (on_world (recordWrite (te_m entry) (te_ptr entry))) (\<lambda>_.
     bindP (on_world (prepareUpdate env (Type (te_m entry)) (te_ptr entry))) (\<lambda>prepared.
       case prepared of
         None \<Rightarrow> retP False
       | Some write \<Rightarrow> bindP (add env write operation) (\<lambda>_. retP True)))))"

definition flush_delete :: "'d env \<Rightarrow> scheduledRemove \<Rightarrow> ('d calls, unit) prog" where
  "flush_delete env s =
     bindP (getP (\<lambda>(w, c). flush_subject (sr_m s) (sr_ptr s) (m2oTargets (w_mem w) (sr_m s) (sr_ptr s)))) (\<lambda>operation.
     bindP (before env operation) (\<lambda>_.
     bindP (on_world (recordWrite (sr_m s) (sr_ptr s))) (\<lambda>_.
     bindP (on_world (prepareDeleteEntity env (Type (sr_m s)) (sr_ptr s))) (\<lambda>write.
       add env write operation))))"

fun count_each :: "('a \<Rightarrow> ('s, bool) prog) \<Rightarrow> 'a list \<Rightarrow> ('s, nat) prog" where
  "count_each f [] = retP 0"
| "count_each f (x # xs) =
     bindP (f x) (\<lambda>b. bindP (count_each f xs) (\<lambda>n. retP (if b then Suc n else n)))"

definition executeFlush :: "'d env \<Rightarrow> flushPlan \<Rightarrow> ('d calls, FlushSummary) prog" where
  "executeFlush env plan =
     bindP (eachP (flush_insert env) (fp_inserts plan)) (\<lambda>_.
     bindP (count_each (flush_update env) (fp_dirty plan)) (\<lambda>updated.
     bindP (eachP (flush_delete env) (fp_deletes plan)) (\<lambda>_.
     bindP (finish env) (\<lambda>_.
       retP \<lparr>Inserted = length (fp_inserts plan), Updated = updated, Deleted = length (fp_deletes plan)\<rparr>))))"

definition clear_schedule :: "('d world, unit) prog" where
  "clear_schedule = modifyP (\<lambda>w. w\<lparr>w_db := (w_db w)\<lparr>db_uow := Some (uow_clear (schedule (w_db w)))\<rparr>\<rparr>)"

definition Flush :: "'d env \<Rightarrow> nat \<Rightarrow> ('d world, FlushSummary) prog" where
  "Flush env depth =
     bindP (getP id) (\<lambda>w.
     bindP (liftR (requireUnitOfWork (w_db w))) (\<lambda>_.
     bindP (check_ctx env) (\<lambda>_.
     bindP (liftR (planFlush depth (w_mem w) (w_db w))) (\<lambda>plan.
       if flushPlan_empty plan
       then bindP clear_schedule (\<lambda>_. retP \<lparr>Inserted = 0, Updated = 0, Deleted = 0\<rparr>)
       else
         bindP (in_transaction env (run_call env (executeFlush env plan))) (\<lambda>(summary, c).
         bindP clear_schedule (\<lambda>_. retP summary))))))"

end
