(* ===== verification/Batch_Rules.thy ===== *)
theory Batch_Rules
  imports Flush
begin

text \<open>
  What the batching plan guarantees of its messages (\<open>batching.go\<close>): \<open>message_ok\<close> is the three rules as
  an invariant of the message in progress, \<open>sent_ok\<close> what holds of the messages sent. Both are kept by every
  step of a flush. Which keys a message holds is said where it is decided: after \<open>before\<close> none equal to the
  operation's.
\<close>

section \<open>Sending touches only what it says\<close>

text \<open>The parts of a call that running and completing a statement leave alone.\<close>

definition same_plan :: "'d batchCall \<Rightarrow> 'd batchCall \<Rightarrow> bool" where
  "same_plan c c' \<longleftrightarrow> bc_current c' = bc_current c \<and> bc_messages c' = bc_messages c \<and> bc_sent c' = bc_sent c"

definition plan_neutral :: "('d calls, 'a) prog \<Rightarrow> bool" where
  "plan_neutral m \<longleftrightarrow> (\<forall>w c. same_plan c (snd (snd (m (w, c)))))"

lemma neutral_ret [simp]: "plan_neutral (retP x)" and neutral_fail [simp]: "plan_neutral (failP e)"
  and neutral_lift [simp]: "plan_neutral (liftR r)"
  by (simp_all add: plan_neutral_def same_plan_def prog_defs)

lemma neutral_bind: "plan_neutral m \<Longrightarrow> (\<And>x. plan_neutral (f x)) \<Longrightarrow> plan_neutral (bindP m f)"
proof -
  assume m: "plan_neutral m" and f: "\<And>x. plan_neutral (f x)"
  have "same_plan c (snd (snd (bindP m f (w, c))))" for w c
  proof -
    obtain r w' c' where r: "m (w, c) = (r, w', c')"
      by (metis surj_pair)
    then have "same_plan c c'"
      using m by (metis plan_neutral_def snd_conv)
    moreover have "same_plan c' (snd (snd (f x (w', c'))))" for x
      using f by (simp add: plan_neutral_def)
    ultimately show ?thesis
      using r by (cases r) (auto simp: bindP_def same_plan_def)
  qed
  then show ?thesis
    by (simp add: plan_neutral_def)
qed

lemma neutral_each: "(\<And>x. plan_neutral (f x)) \<Longrightarrow> plan_neutral (eachP f xs)"
  by (induction xs) (auto intro: neutral_bind)

lemma neutral_world [simp]: "plan_neutral (on_world m)"
  by (auto simp: plan_neutral_def on_world_def same_plan_def split: prod.splits)

lemma neutral_runner [simp]: "plan_neutral (with_runner m)"
  by (auto simp: plan_neutral_def with_runner_def same_plan_def split: prod.splits)

lemma neutral_affected [simp]: "plan_neutral (on_call (\<lambda>c. c\<lparr>bc_affected := f c\<rparr>))"
  by (auto simp: plan_neutral_def on_call_def prog_defs same_plan_def)

lemma neutral_complete [simp]: "plan_neutral (complete write result)"
  unfolding complete_def by (intro neutral_bind neutral_world) simp

lemma neutral_complete_all [simp]: "plan_neutral (complete_all writes results)"
  by (induction writes results rule: complete_all.induct) (auto intro: neutral_bind)

lemma send_plan:
  assumes "send env (w, c) = (r, w', c')"
  shows "bc_current c' = newMessage \<and>
    (if ms_writes (bc_current c) = [] then bc_messages c' = bc_messages c \<and> bc_sent c' = bc_sent c
     else bc_messages c' = bc_messages c + 1 \<and> bc_sent c' = bc_sent c @ [bc_current c])"
proof (cases "ms_writes (bc_current c) = []")
  case True
  then show ?thesis
    using assms by (auto simp: send_def bindP_def prog_defs on_call_def Let_def)
next
  case False
  let ?writes = "ms_writes (bc_current c)"
  let ?c = "c\<lparr>bc_current := newMessage, bc_messages := bc_messages c + 1, bc_sent := bc_sent c @ [bc_current c]\<rparr>"
  let ?rest = "bindP (on_world (check_ctx env)) (\<lambda>_.
      case SendMessage env of
        Some batcher \<Rightarrow> bindP (on_world (outside (batcher (map message_statement ?writes)))) (complete_all ?writes)
      | None \<Rightarrow> eachP (\<lambda>write. bindP (with_runner (runWrite env write)) (complete write)) ?writes)"
  have "?rest (w, ?c) = (r, w', c')"
    using assms False by (simp add: send_def bindP_def prog_defs on_call_def Let_def)
  moreover have "plan_neutral ?rest"
    by (rule neutral_bind [OF neutral_world], cases "SendMessage env")
      (simp_all add: neutral_bind neutral_each)
  then have "same_plan ?c (snd (snd (?rest (w, ?c))))"
    unfolding plan_neutral_def by blast
  ultimately have "same_plan ?c c'"
    by simp
  then show ?thesis
    using False by (simp add: same_plan_def)
qed

section \<open>The rules as an invariant\<close>

definition message_ok :: "'d env \<Rightarrow> 'd message \<Rightarrow> bool" where
  "message_ok env msg \<longleftrightarrow>
     set (ms_instances msg) = {p. \<exists>write \<in> set (ms_writes msg). pw_instance write = Some p} \<and>
     set (ms_generated msg) = {p. \<exists>write \<in> set (ms_writes msg). pw_instance write = Some p \<and> pw_generatesKey write} \<and>
     sorted_wrt (\<lambda>a b. pw_instance a = None \<or> pw_instance a \<noteq> pw_instance b) (ms_writes msg) \<and>
     (ms_hasCommand msg \<longleftrightarrow> (\<exists>write \<in> set (ms_writes msg). pw_command write)) \<and>
     sorted_wrt (\<lambda>a b. pw_command a \<longrightarrow> \<not> readsResult b) (ms_writes msg) \<and>
     ms_parameters msg = (\<Sum>write \<leftarrow> ms_writes msg. length (pw_args write)) \<and>
     length (ms_keys msg) \<le> length (ms_writes msg) \<and>
     (length (ms_writes msg) > 1 \<longrightarrow> MaxParametersPerMessage env > 0 \<longrightarrow> ms_parameters msg \<le> MaxParametersPerMessage env)"

text \<open>A message in progress is not full; under Off nothing stays in progress.\<close>

definition not_full :: "'d env \<Rightarrow> 'd message \<Rightarrow> bool" where
  "not_full env msg \<longleftrightarrow> ms_writes msg = [] \<or> BatchingAuto env \<and> length (ms_writes msg) < maxStatements env"

lemma message_ok_new [simp]: "message_ok env newMessage" "not_full env newMessage"
  by (simp_all add: message_ok_def not_full_def newMessage_def)

lemma add_cut_new [simp]: "\<not> add_cut env newMessage write"
  by (simp add: add_cut_def newMessage_def)

lemma message_ok_add:
  assumes ok: "message_ok env msg" and cut: "\<not> add_cut env msg write"
    and fresh: "\<And>p. pw_instance write = Some p \<Longrightarrow> p \<notin> set (ms_instances msg)"
  shows "message_ok env (add_write mem write s msg)"
proof -
  have i: "pw_instance a = None \<or> pw_instance a \<noteq> pw_instance write" if "a \<in> set (ms_writes msg)" for a
  proof (cases "pw_instance a")
    case (Some q)
    then have "q \<in> set (ms_instances msg)"
      using ok that by (auto simp: message_ok_def)
    then show ?thesis
      using Some fresh [of q] by auto
  qed simp
  have c: "pw_command a \<longrightarrow> \<not> readsResult write" if "a \<in> set (ms_writes msg)" for a
    using ok cut that by (auto simp: message_ok_def add_cut_def)
  have p: "ms_writes msg \<noteq> [] \<Longrightarrow> MaxParametersPerMessage env > 0 \<Longrightarrow>
      ms_parameters msg + length (pw_args write) \<le> MaxParametersPerMessage env"
    using cut by (auto simp: add_cut_def)
  let ?new = "add_write mem write s msg"
  have w: "ms_writes ?new = ms_writes msg @ [write]"
    by (simp add: add_write_def)
  have "set (ms_instances ?new) = {p. \<exists>a \<in> set (ms_writes ?new). pw_instance a = Some p}"
      "set (ms_generated ?new) = {p. \<exists>a \<in> set (ms_writes ?new). pw_instance a = Some p \<and> pw_generatesKey a}"
    using ok by (auto simp: w add_write_def message_ok_def split: option.splits)
  moreover have "sorted_wrt (\<lambda>a b. pw_instance a = None \<or> pw_instance a \<noteq> pw_instance b) (ms_writes ?new)"
      "sorted_wrt (\<lambda>a b. pw_command a \<longrightarrow> \<not> readsResult b) (ms_writes ?new)"
    using ok i c by (auto simp: w sorted_wrt_append message_ok_def)
  moreover have "ms_hasCommand ?new \<longleftrightarrow> (\<exists>a \<in> set (ms_writes ?new). pw_command a)"
      "ms_parameters ?new = (\<Sum>a \<leftarrow> ms_writes ?new. length (pw_args a))"
    using ok by (auto simp: w add_write_def message_ok_def)
  moreover have "length (ms_writes ?new) > 1 \<longrightarrow> MaxParametersPerMessage env > 0 \<longrightarrow> ms_parameters ?new \<le> MaxParametersPerMessage env"
    using p by (auto simp: add_write_def)
  moreover have "length (ms_keys ?new) \<le> length (ms_writes ?new)"
    using ok by (auto simp: add_write_def message_ok_def split: option.splits)
  ultimately show ?thesis
    unfolding message_ok_def by blast
qed

text \<open>What \<open>before\<close> has ensured of the message an operation will join.\<close>

definition clear_of :: "'d message \<Rightarrow> subject \<Rightarrow> bool" where
  "clear_of msg s \<longleftrightarrow> (\<forall>p. su_instance s = Some p \<longrightarrow> p \<notin> set (ms_instances msg)) \<and>
     (\<forall>p \<in> set (su_depends s). p \<notin> set (ms_generated msg))"

lemma clear_of_new [simp]: "clear_of newMessage s"
  by (simp add: clear_of_def newMessage_def)

text \<open>Rule 1a's key clause: no key the message holds for the type equals the operation's key as it stands.\<close>

definition clear_key :: "memory \<Rightarrow> 'd message \<Rightarrow> subject \<Rightarrow> bool" where
  "clear_key mem msg s \<longleftrightarrow> (\<forall>m key held. su_m s = Some m \<and> keyNow mem s = Some key \<and> (Type m, held) \<in> set (ms_keys msg) \<longrightarrow>
     KeyTuple_Compare held key \<noteq> Inr 0)"

lemma clear_key_new [simp]: "clear_key mem newMessage s"
  by (simp add: clear_key_def newMessage_def)

lemma holds_key_False: "holds_key t key keys = Inr False \<Longrightarrow> (t, held) \<in> set keys \<Longrightarrow> KeyTuple_Compare held key \<noteq> Inr 0"
  by (induction t key keys rule: holds_key.induct) (auto simp: bindR_Inr_iff split: if_splits)

lemma before_cut_key: "before_cut mem msg s = Inr False \<Longrightarrow> clear_key mem msg s"
  using holds_key_False by (fastforce simp: before_cut_def clear_key_def split: if_splits)

lemma before_plan:
  assumes "before env s (w, c) = (r, w', c')" and "message_ok env (bc_current c)" "not_full env (bc_current c)"
  shows "message_ok env (bc_current c') \<and> not_full env (bc_current c') \<and> (is_ok r \<longrightarrow> clear_of (bc_current c') s \<and> clear_key (w_mem w') (bc_current c') s)"
proof (cases "ms_writes (bc_current c) = []")
  case True
  then have "set (ms_instances (bc_current c)) = {}" "set (ms_generated (bc_current c)) = {}" "ms_keys (bc_current c) = []"
    using assms(2) by (auto simp: message_ok_def)
  then show ?thesis
    using assms True by (auto simp: before_def bindP_def prog_defs clear_of_def clear_key_def)
next
  case False
  note run = assms(1) [unfolded before_def bindP_def, simplified, simplified prog_defs, simplified]
  show ?thesis
  proof (cases "before_cut (w_mem w) (bc_current c) s")
    case (Inr cut)
    show ?thesis
    proof (cases cut)
      case True
      then show ?thesis
        using run False Inr send_plan [of env w c r w' c'] by simp
    next
      case c: False
      then have "clear_key (w_mem w) (bc_current c) s"
        using Inr by (intro before_cut_key) simp
      moreover have "clear_of (bc_current c) s"
        using Inr c by (auto simp: before_cut_def clear_of_def split: if_splits)
      ultimately have "clear_of (bc_current c) s \<and> clear_key (w_mem w) (bc_current c) s"
        by simp
      then show ?thesis
        using run False Inr c assms(2,3) by (auto simp: prog_defs)
    qed
  qed (use run False assms(2,3) in auto)
qed

lemma add_plan:
  assumes run: "add env write s (w, c) = (r, w', c')" and ok: "message_ok env (bc_current c)"
    and clear: "clear_of (bc_current c) s" and i: "pw_instance write = None \<or> pw_instance write = su_instance s"
  shows "message_ok env (bc_current c') \<and> not_full env (bc_current c')"
proof -
  let ?cut = "add_cut env (bc_current c) write"
  obtain r1 w1 c1 where s1: "(if ?cut then send env else retP ()) (w, c) = (r1, w1, c1)"
    by (metis surj_pair)
  have c1: "message_ok env (bc_current c1)" "clear_of (bc_current c1) s" "\<not> add_cut env (bc_current c1) write"
    using s1 ok clear send_plan [of env w c r1 w1 c1]
    by (auto simp: prog_defs split: if_splits)
  show ?thesis
  proof (cases r1)
    case (Inl e)
    then have "?cut"
      using s1 by (auto simp: prog_defs split: if_splits)
    then show ?thesis
      using run s1 Inl send_plan [of env w c r1 w1 c1] by (simp add: add_def bindP_def prog_defs)
  next
    case (Inr u)
    let ?msg = "add_write (w_mem w1) write s (bc_current c1)"
    let ?full = "\<not> BatchingAuto env \<or> maxStatements env \<le> length (ms_writes ?msg)"
    have last: "(if ?full then send env else retP ()) (w1, c1\<lparr>bc_current := ?msg\<rparr>) = (r, w', c')"
      using run s1 Inr by (simp add: add_def bindP_def prog_defs)
    have ok': "message_ok env ?msg"
      using message_ok_add [OF c1(1,3)] c1(2) i by (auto simp: clear_of_def)
    show ?thesis
    proof (cases ?full)
      case True
      then have "bc_current c' = newMessage"
        using last send_plan [of env w1 "c1\<lparr>bc_current := ?msg\<rparr>" r w' c'] by simp
      then show ?thesis
        by simp
    next
      case False
      then have "bc_current c' = ?msg"
        using last by (auto simp: prog_defs)
      then show ?thesis
        using ok' False by (simp add: not_full_def)
    qed
  qed
qed

section \<open>Counting statements\<close>

definition message_limit :: "'d env \<Rightarrow> nat" where
  "message_limit env = (if BatchingAuto env then max 1 (maxStatements env) else 1)"

definition sent_ok :: "'d env \<Rightarrow> 'd batchCall \<Rightarrow> bool" where
  "sent_ok env c \<longleftrightarrow> bc_messages c = length (bc_sent c) \<and>
     (\<forall>msg \<in> set (bc_sent c). message_ok env msg \<and> 1 \<le> length (ms_writes msg) \<and> length (ms_writes msg) \<le> message_limit env)"

definition planned :: "'d batchCall \<Rightarrow> nat" where
  "planned c = (\<Sum>msg \<leftarrow> bc_sent c. length (ms_writes msg)) + length (ms_writes (bc_current c))"

definition call_inv :: "'d env \<Rightarrow> 'd batchCall \<Rightarrow> bool" where
  "call_inv env c \<longleftrightarrow> message_ok env (bc_current c) \<and> not_full env (bc_current c) \<and> sent_ok env c"

lemma call_inv_new: "call_inv env (newCall env)" "planned (newCall env) = 0"
  by (simp_all add: call_inv_def newCall_def sent_ok_def planned_def newMessage_def) (simp_all add: message_ok_def not_full_def)

lemma send_counts:
  assumes "send env (w, c) = (r, w', c')" and "sent_ok env c"
    and "length (ms_writes (bc_current c)) \<le> message_limit env" and "message_ok env (bc_current c)"
  shows "sent_ok env c' \<and> planned c' = planned c \<and> bc_current c' = newMessage"
  using send_plan [OF assms(1)] assms(2-4)
  by (cases "ms_writes (bc_current c) = []") (auto simp: sent_ok_def planned_def newMessage_def Suc_le_eq)

lemma not_full_size: "not_full env msg \<Longrightarrow> length (ms_writes msg) \<le> message_limit env"
  by (auto simp: not_full_def message_limit_def)

lemma before_counts:
  assumes "before env s (w, c) = (r, w', c')" and "call_inv env c"
  shows "call_inv env c' \<and> planned c' = planned c \<and> (is_ok r \<longrightarrow> clear_of (bc_current c') s \<and> clear_key (w_mem w') (bc_current c') s)"
proof -
  have "c' = c \<or> (\<exists>r. send env (w, c) = (r, w', c'))"
    using assms(1) unfolding before_def
    by (auto simp: bindP_def prog_defs split: if_splits sum.splits prod.splits)
  then have "sent_ok env c' \<and> planned c' = planned c"
    using assms(2) send_counts [of env w c _ w' c'] not_full_size [of env "bc_current c"] unfolding call_inv_def by blast
  then show ?thesis
    using before_plan [OF assms(1)] assms(2) unfolding call_inv_def by blast
qed

lemma add_counts:
  assumes run: "add env write s (w, c) = (r, w', c')" and inv: "call_inv env c"
    and clear: "clear_of (bc_current c) s" and i: "pw_instance write = None \<or> pw_instance write = su_instance s"
  shows "call_inv env c' \<and> (is_ok r \<longrightarrow> planned c' = planned c + 1)"
proof -
  let ?cut = "add_cut env (bc_current c) write"
  obtain r1 w1 c1 where s1: "(if ?cut then send env else retP ()) (w, c) = (r1, w1, c1)"
    by (metis surj_pair)
  have c1: "sent_ok env c1 \<and> planned c1 = planned c \<and> (bc_current c1 = newMessage \<or> \<not> ?cut \<and> bc_current c1 = bc_current c)"
  proof (cases ?cut)
    case True
    then show ?thesis
      using s1 send_counts [of env w c r1 w1 c1] inv not_full_size [of env "bc_current c"] by (simp add: call_inv_def)
  next
    case False
    then show ?thesis
      using s1 inv by (auto simp: prog_defs call_inv_def)
  qed
  have ok: "message_ok env (bc_current c') \<and> not_full env (bc_current c')"
    using add_plan [OF run _ clear i] inv by (simp add: call_inv_def)
  have counts: "sent_ok env c' \<and> (is_ok r \<longrightarrow> planned c' = planned c + 1)"
  proof (cases r1)
    case (Inl e)
    then have "c' = c1" "r = Inl e"
      using run s1 by (auto simp: add_def bindP_def prog_defs)
    then show ?thesis
      using c1 by simp
  next
    case (Inr u)
    let ?msg = "add_write (w_mem w1) write s (bc_current c1)"
    let ?c = "c1\<lparr>bc_current := ?msg\<rparr>"
    let ?full = "\<not> BatchingAuto env \<or> maxStatements env \<le> length (ms_writes ?msg)"
    have last: "(if ?full then send env else retP ()) (w1, ?c) = (r, w', c')"
      using run s1 Inr by (simp add: add_def bindP_def prog_defs)
    have "ms_writes newMessage = []"
      by (simp add: newMessage_def)
    then have len: "length (ms_writes ?msg) = Suc (length (ms_writes (bc_current c1)))" "not_full env (bc_current c1)"
      using c1 inv by (auto simp: add_write_def call_inv_def)
    then have c2: "sent_ok env ?c" "planned ?c = planned c + 1"
      using c1 by (simp_all add: sent_ok_def planned_def)
    have size: "length (ms_writes (bc_current ?c)) \<le> message_limit env"
      using len by (auto simp: not_full_def message_limit_def)
    have "message_ok env (bc_current c1) \<and> \<not> add_cut env (bc_current c1) write \<and> clear_of (bc_current c1) s"
      using c1 inv clear by (auto simp: call_inv_def)
    then have "message_ok env ?msg"
      using i by (intro message_ok_add) (auto simp: clear_of_def)
    then show ?thesis
      using last c2 size send_counts [of env w1 ?c r w' c'] by (cases ?full) (auto simp: prog_defs)
  qed
  then show ?thesis
    using ok by (simp add: call_inv_def)
qed

text \<open>A statement that was added is in the message in progress, its key as it stands recorded, unless that message is gone.\<close>

lemma add_joined:
  assumes "add env write s (w, c) = (Inr u, w', c')"
  shows "bc_current c' = newMessage \<or> (\<exists>prior \<in> {newMessage, bc_current c}.
    ms_writes (bc_current c') = ms_writes prior @ [write] \<and>
    ms_keys (bc_current c') = ms_keys prior @ (case (keyNow (w_mem w') s, su_m s) of (Some key, Some m) \<Rightarrow> [(Type m, key)] | _ \<Rightarrow> []))"
proof -
  let ?cut = "add_cut env (bc_current c) write"
  obtain r1 w1 c1 where s1: "(if ?cut then send env else retP ()) (w, c) = (r1, w1, c1)"
    by (metis surj_pair)
  then obtain v where v: "r1 = Inr v"
    using assms by (cases r1) (auto simp: add_def bindP_def prog_defs)
  have prior: "bc_current c1 \<in> {newMessage, bc_current c}"
    using s1 send_plan [of env w c r1 w1 c1] by (auto simp: prog_defs split: if_splits)
  let ?msg = "add_write (w_mem w1) write s (bc_current c1)"
  let ?full = "\<not> BatchingAuto env \<or> maxStatements env \<le> length (ms_writes ?msg)"
  have last: "(if ?full then send env else retP ()) (w1, c1\<lparr>bc_current := ?msg\<rparr>) = (Inr u, w', c')"
    using assms s1 v by (simp add: add_def bindP_def prog_defs)
  show ?thesis
  proof (cases ?full)
    case True
    then show ?thesis
      using last send_plan [of env w1 "c1\<lparr>bc_current := ?msg\<rparr>" "Inr u" w' c'] by simp
  next
    case False
    then have "bc_current c' = ?msg" "w' = w1"
      using last by (auto simp: prog_defs)
    then show ?thesis
      using prior by (intro disjI2 bexI [of _ "bc_current c1"]) (auto simp: add_write_def split: option.splits)
  qed
qed

section \<open>Whose statement a write is\<close>

lemma countedWrite_instance: "returns (\<lambda>write. pw_instance write = Some e) (countedWrite env t e text)"
  unfolding countedWrite_def by (intro returns_last) simp

lemma prepareInsert_instance: "returns (\<lambda>write. pw_instance write = Some e) (prepareInsert env t e)"
proof -
  have "returns (\<lambda>write. pw_instance write = Some e) (insertStatement env t m e)" for m
    unfolding insertStatement_def Let_def by (intro returns_last) simp
  then have c: "returns (\<lambda>write. pw_instance write = Some e) (on_error (insertStatement env t m e) f)" for m f
    by (rule returns_on_error)
  show ?thesis
    unfolding prepareInsert_def
    by (rule returns_bind [OF c] | rule returns_intros | simp)+
qed

lemma prepareUpdate_instance: "returns (\<lambda>w. \<forall>write. w = Some write \<longrightarrow> pw_instance write = Some e) (prepareUpdate env t e)"
proof -
  have c: "returns (\<lambda>write. pw_instance write = Some e) (on_error (countedWrite env t e bt) f)" for t bt f
    using countedWrite_instance by (rule returns_on_error)
  have tracked: "returns (\<lambda>w. \<forall>write. w = Some write \<longrightarrow> pw_instance write = Some e) (prepareTrackedUpdate env m entry e)" for m entry
    unfolding prepareTrackedUpdate_def Let_def
    by (rule returns_bind [OF c] | rule returns_intros | simp)+
  show ?thesis
    unfolding prepareUpdate_def
    by (rule returns_bind [OF c] | rule tracked | rule returns_intros | simp)+
qed

lemma prepareDeleteEntity_instance: "returns (\<lambda>write. pw_instance write = Some e) (prepareDeleteEntity env t e)"
proof -
  have c: "returns (\<lambda>write. pw_instance write = Some e) (on_error (countedWrite env t e bt) f)" for t bt f
    using countedWrite_instance by (rule returns_on_error)
  have soft: "returns (\<lambda>write. pw_instance write = Some e) (prepareSoftDeleteEntity env t m e)" for m
    unfolding prepareSoftDeleteEntity_def Let_def
    by (rule returns_bind [OF c] | rule returns_intros | simp)+
  show ?thesis
    unfolding prepareDeleteEntity_def Let_def
    by (rule returns_bind [OF soft] | rule returns_bind [OF countedWrite_instance] | rule returns_intros | simp add: finish_then_def)+
qed

section \<open>The steps of a flush\<close>

lemma on_world_call: "on_world m (w, c) = (r, w', c') \<Longrightarrow> c' = c \<and> m w = (r, w')"
  by (auto simp: on_world_def split: prod.splits)

text \<open>
  The shape of a step: rule 1, then a preparation that leaves the call alone, then the statement
  if there is one.
\<close>

definition plan_step :: "'d env \<Rightarrow> subject \<Rightarrow> ('d world, 'd preparedWrite option) prog \<Rightarrow> ('d calls, bool) prog" where
  "plan_step env s prepare =
     bindP (before env s) (\<lambda>_.
     bindP (on_world prepare) (\<lambda>prepared.
       case prepared of
         None \<Rightarrow> retP False
       | Some write \<Rightarrow> bindP (add env write s) (\<lambda>_. retP True)))"

lemma plan_step_counts:
  assumes run: "plan_step env s prepare (w, c) = (r, w', c')" and inv: "call_inv env c"
    and i: "returns (\<lambda>prepared. \<forall>write. prepared = Some write \<longrightarrow> pw_instance write = None \<or> pw_instance write = su_instance s) prepare"
  shows "call_inv env c' \<and> (\<forall>b. r = Inr b \<longrightarrow> planned c' = planned c + (if b then 1 else 0))"
proof -
  obtain r1 w1 c1 where b: "before env s (w, c) = (r1, w1, c1)"
    by (metis surj_pair)
  have c1: "call_inv env c1 \<and> planned c1 = planned c \<and> (is_ok r1 \<longrightarrow> clear_of (bc_current c1) s)"
    using before_counts [OF b inv] by blast
  obtain r2 w2 where p: "prepare w1 = (r2, w2)"
    by (metis surj_pair)
  show ?thesis
  proof (cases r1)
    case (Inl e)
    then show ?thesis
      using run b c1 by (auto simp: plan_step_def bindP_def)
  next
    case (Inr u)
    show ?thesis
    proof (cases r2)
      case (Inl e)
      then show ?thesis
        using run b c1 p Inr by (auto simp: plan_step_def bindP_def on_world_def)
    next
      case r2: (Inr prepared)
      show ?thesis
      proof (cases prepared)
        case None
        then show ?thesis
          using run b c1 p Inr r2 by (auto simp: plan_step_def bindP_def on_world_def prog_defs)
      next
        case (Some pw)
        obtain r3 w3 c3 where a: "add env pw s (w2, c1) = (r3, w3, c3)"
          by (metis surj_pair)
        have "pw_instance pw = None \<or> pw_instance pw = su_instance s"
          using returnsD [OF i] p r2 Some by blast
        then have "call_inv env c3 \<and> (is_ok r3 \<longrightarrow> planned c3 = planned c1 + 1)"
          using add_counts [OF a] c1 Inr by simp
        then show ?thesis
          using run b c1 p Inr r2 Some a by (cases r3) (auto simp: plan_step_def bindP_def on_world_def prog_defs)
      qed
    qed
  qed
qed

text \<open>The steps of the flush and of the explicit batch have that shape.\<close>

lemma flush_insert_step:
  "bindP (flush_insert env s) (\<lambda>_. retP True) (w, c) =
     plan_step env (flush_subject (si_m s) (si_ptr s) (m2oTargets (w_mem w) (si_m s) (si_ptr s) @ cascadeOwners s))
       (bindP (flowKeys s) (\<lambda>_. bindP (recordWrite (si_m s) (si_ptr s)) (\<lambda>_.
          bindP (prepareInsert env (Type (si_m s)) (si_ptr s)) (\<lambda>write. retP (Some write))))) (w, c)"
  by (simp add: flush_insert_def plan_step_def bindP_def on_world_def prog_defs split: prod.splits sum.splits)

lemma flush_update_step:
  "flush_update env e (w, c) =
     plan_step env (flush_subject (te_m e) (te_ptr e) (m2oTargets (w_mem w) (te_m e) (te_ptr e)))
       (bindP (recordWrite (te_m e) (te_ptr e)) (\<lambda>_. prepareUpdate env (Type (te_m e)) (te_ptr e))) (w, c)"
  by (simp add: flush_update_def plan_step_def bindP_def on_world_def prog_defs split: prod.splits sum.splits)

lemma flush_delete_step:
  "bindP (flush_delete env s) (\<lambda>_. retP True) (w, c) =
     plan_step env (flush_subject (sr_m s) (sr_ptr s) (m2oTargets (w_mem w) (sr_m s) (sr_ptr s)))
       (bindP (recordWrite (sr_m s) (sr_ptr s)) (\<lambda>_.
          bindP (prepareDeleteEntity env (Type (sr_m s)) (sr_ptr s)) (\<lambda>write. retP (Some write)))) (w, c)"
  by (simp add: flush_delete_def plan_step_def bindP_def on_world_def prog_defs split: prod.splits sum.splits)

lemma returns_Some: "returns Q m \<Longrightarrow> returns (\<lambda>x. \<forall>y. x = Some y \<longrightarrow> Q y) (bindP m (\<lambda>y. retP (Some y)))"
  by (auto simp: returns_def bindP_Inr_iff retP_def)

lemma returns_mono: "returns P m \<Longrightarrow> (\<And>x. P x \<Longrightarrow> Q x) \<Longrightarrow> returns Q m"
  by (auto simp: returns_def)

lemmas prepare_instances =
  returns_Some [OF prepareInsert_instance] prepareUpdate_instance returns_Some [OF prepareDeleteEntity_instance]

definition step_counts :: "'d env \<Rightarrow> ('d calls, bool) prog \<Rightarrow> bool" where
  "step_counts env m \<longleftrightarrow> (\<forall>w c r w' c'. m (w, c) = (r, w', c') \<longrightarrow> call_inv env c \<longrightarrow>
     call_inv env c' \<and> (\<forall>b. r = Inr b \<longrightarrow> planned c' = planned c + (if b then 1 else 0)))"

lemma flush_steps:
  "step_counts env (bindP (flush_insert env s) (\<lambda>_. retP True))" "step_counts env (flush_update env e)"
  "step_counts env (bindP (flush_delete env d) (\<lambda>_. retP True))"
proof -
  have own: "returns (\<lambda>prepared. \<forall>write. prepared = Some write \<longrightarrow> pw_instance write = None \<or> pw_instance write = su_instance (flush_subject m p ds)) prepare"
    if "returns (\<lambda>prepared. \<forall>write. prepared = Some write \<longrightarrow> pw_instance write = Some p) prepare" for prepare :: "('d world, 'd preparedWrite option) prog" and m p ds
    using that by (rule returns_mono) (simp add: flush_subject_def)
  show "step_counts env (bindP (flush_insert env s) (\<lambda>_. retP True))"
    unfolding step_counts_def flush_insert_step
    by (intro allI impI, rule plan_step_counts, assumption, assumption) (intro own returns_last prepare_instances)
  show "step_counts env (flush_update env e)"
    unfolding step_counts_def flush_update_step
    by (intro allI impI, rule plan_step_counts, assumption, assumption) (intro own returns_last prepare_instances)
  show "step_counts env (bindP (flush_delete env d) (\<lambda>_. retP True))"
    unfolding step_counts_def flush_delete_step
    by (intro allI impI, rule plan_step_counts, assumption, assumption) (intro own returns_last prepare_instances)
qed

lemma count_each_counts:
  assumes "\<And>x. x \<in> set xs \<Longrightarrow> step_counts env (f x)"
  shows "count_each f xs (w, c) = (r, w', c') \<Longrightarrow> call_inv env c \<Longrightarrow>
    call_inv env c' \<and> (\<forall>n. r = Inr n \<longrightarrow> planned c' = planned c + n)"
  using assms
proof (induction xs arbitrary: w c r)
  case (Cons x xs)
  obtain r1 w1 c1 where x: "f x (w, c) = (r1, w1, c1)"
    by (metis surj_pair)
  have c1: "call_inv env c1" "\<And>b. r1 = Inr b \<Longrightarrow> planned c1 = planned c + (if b then 1 else 0)"
    using Cons.prems(3) [of x] Cons.prems(2) x unfolding step_counts_def by auto
  show ?case
  proof (cases r1)
    case (Inl e)
    then show ?thesis
      using Cons.prems(1) x c1 by (auto simp: bindP_def)
  next
    case (Inr b)
    obtain r2 where rest: "count_each f xs (w1, c1) = (r2, w', c')" and r: "r = (case r2 of Inl e \<Rightarrow> Inl e | Inr n \<Rightarrow> Inr (if b then Suc n else n))"
      using Cons.prems(1) x Inr by (auto simp: bindP_def prog_defs split: prod.splits sum.splits)
    have "call_inv env c' \<and> (\<forall>n. r2 = Inr n \<longrightarrow> planned c' = planned c1 + n)"
      by (rule Cons.IH [OF rest c1(1)]) (simp add: Cons.prems(3))
    then show ?thesis
      using c1(2) [OF Inr] r by (auto split: sum.splits)
  qed
qed (simp add: prog_defs)

text \<open>A phase in which every step issues a statement.\<close>

lemma eachP_count: "bindP (eachP f xs) (\<lambda>_. retP (length xs)) = count_each (\<lambda>x. bindP (f x) (\<lambda>_. retP True)) xs"
proof (induction xs)
  case (Cons x xs)
  have "bindP (eachP f (x # xs)) (\<lambda>_. retP (length (x # xs))) = bindP (f x) (\<lambda>_. bindP (bindP (eachP f xs) (\<lambda>_. retP (length xs))) (\<lambda>n. retP (Suc n)))"
    by (rule ext) (auto simp: bindP_def prog_defs split: prod.splits sum.splits)
  also have "\<dots> = bindP (f x) (\<lambda>_. bindP (count_each (\<lambda>x. bindP (f x) (\<lambda>_. retP True)) xs) (\<lambda>n. retP (Suc n)))"
    by (simp add: Cons.IH)
  also have "\<dots> = count_each (\<lambda>x. bindP (f x) (\<lambda>_. retP True)) (x # xs)"
    by (rule ext) (auto simp: bindP_def prog_defs split: prod.splits sum.splits)
  finally show ?case .
qed simp

lemma executeFlush_counts:
  assumes "executeFlush env plan (w, c) = (r, w', c')" and "call_inv env c" "planned c = 0"
  shows "call_inv env c' \<and> (\<forall>summary. r = Inr summary \<longrightarrow>
    planned c' = Inserted summary + Updated summary + Deleted summary \<and> bc_current c' = newMessage)"
proof -
  let ?ins = "count_each (\<lambda>s. bindP (flush_insert env s) (\<lambda>_. retP True)) (fp_inserts plan)"
    and ?upd = "count_each (flush_update env) (fp_dirty plan)"
    and ?del = "count_each (\<lambda>s. bindP (flush_delete env s) (\<lambda>_. retP True)) (fp_deletes plan)"
  have "executeFlush env plan = bindP ?ins (\<lambda>i. bindP ?upd (\<lambda>u. bindP ?del (\<lambda>d. bindP (finish env) (\<lambda>_.
      retP \<lparr>Inserted = i, Updated = u, Deleted = d\<rparr>))))"
    unfolding executeFlush_def eachP_count [symmetric]
    by (rule ext) (auto simp: bindP_def prog_defs split: prod.splits sum.splits)
  then have run: "bindP ?ins (\<lambda>i. bindP ?upd (\<lambda>u. bindP ?del (\<lambda>d. bindP (finish env) (\<lambda>_.
      retP \<lparr>Inserted = i, Updated = u, Deleted = d\<rparr>)))) (w, c) = (r, w', c')"
    using assms(1) by simp
  obtain r1 w1 c1 where s1: "?ins (w, c) = (r1, w1, c1)"
    by (metis surj_pair)
  obtain r2 w2 c2 where s2: "?upd (w1, c1) = (r2, w2, c2)"
    by (metis surj_pair)
  obtain r3 w3 c3 where s3: "?del (w2, c2) = (r3, w3, c3)"
    by (metis surj_pair)
  obtain r4 w4 c4 where s4: "send env (w3, c3) = (r4, w4, c4)"
    by (metis surj_pair)
  have c1: "call_inv env c1 \<and> (\<forall>n. r1 = Inr n \<longrightarrow> planned c1 = planned c + n)"
    using count_each_counts [OF _ s1 assms(2)] flush_steps(1) by blast
  then have c2: "call_inv env c2 \<and> (\<forall>n. r2 = Inr n \<longrightarrow> planned c2 = planned c1 + n)"
    using count_each_counts [OF _ s2] flush_steps(2) by blast
  then have c3: "call_inv env c3 \<and> (\<forall>n. r3 = Inr n \<longrightarrow> planned c3 = planned c2 + n)"
    using count_each_counts [OF _ s3] flush_steps(3) by blast
  then have c4: "call_inv env c4 \<and> planned c4 = planned c3 \<and> bc_current c4 = newMessage"
    using send_counts [OF s4] not_full_size [of env "bc_current c3"] by (auto simp: call_inv_def)
  show ?thesis
    using run s1 s2 s3 s4 c1 c2 c3 c4 assms(3)
    by (cases r1; cases r2; cases r3; cases r4) (auto simp: bindP_def finish_def prog_defs)
qed

section \<open>An outside for the concrete examples\<close>

text \<open>It counts the statements it runs, answers one affected row and key 1, and never fails.\<close>

definition sample_env :: "bool \<Rightarrow> nat \<Rightarrow> nat env" where
  "sample_env auto limit = \<lparr>Clock = None, wallClock = (\<lambda>d. (1, d)), NewGUID = (\<lambda>d. (replicate 16 CHR ''A'', d)),
     InsertSQL = (\<lambda>m. ''insert into '' @ RelationName m), UpdateSQL = (\<lambda>m. ''update '' @ RelationName m),
     UpdateOnlySQL = (\<lambda>m ps. ''update '' @ RelationName m), DeleteSQL = (\<lambda>m v. ''delete from '' @ RelationName m),
     ReportsAffectedRowsBySelect = False, MaxParametersPerMessage = 0, ToParameter = (\<lambda>v c l. Inr v),
     FromDatabase = (\<lambda>v p l. Inr v), BatchingAuto = auto, maxStatements = limit,
     ExecContext = (\<lambda>sql args d. (Inr (Inr 1), Suc d)),
     QueryContext = (\<lambda>sql args d. (Inr \<lparr>rr_first = Some (VInt Int64 1), rr_scan = None, rr_err = None\<rparr>, Suc d)),
     PrepareContext = (\<lambda>sql d. (Inr (), d)), SendMessage = None, BeginTx = (\<lambda>d. (Inr (), d)), CommitTx = (\<lambda>d. (Inr (), d)),
     RollbackTx = (\<lambda>d. (Inr (), d)), ctx_Err = (\<lambda>d. None)\<rparr>"

definition sample_world :: "memory \<Rightarrow> Db \<Rightarrow> nat world" where
  "sample_world mem db = \<lparr>w_mem = mem, w_db = db, w_tx = False, w_journal = None, w_ext = 0\<rparr>"

definition sample_new_order :: scheduledInsert where
  "sample_new_order = \<lparr>si_ptr = 7, si_m = sample_map, si_direct = True, si_links = [], si_order = 1\<rparr>"

section \<open>Properties\<close>

text \<open>
  C18: The batching rules, step by step. As long as the message in progress and those sent respect the rules (no two of
  a message's statements on one instance; no statement that reads a result behind a registry command; more than one
  statement only within the dialect's parameter cap; the recorded instances, generated keys and parameters those of
  its statements) and the one in progress is not full, so it is after each step of a flush, whether the step succeeds
  or fails. And rule 1, which every step starts with: after \<open>before\<close> the message holds no statement on the operation's
  instance, no insert generating a key the operation depends on, and for the operation's type no key equal to the
  operation's as it stands; after \<open>add\<close> the statement is the message's last and the operation's key as it stands is
  recorded behind those the message held, unless the message went out.
\<close>

theorem flush_step_rules:
  assumes "call_inv env c"
  shows "call_inv env (snd (snd (flush_insert env s (w, c)))) \<and> call_inv env (snd (snd (flush_update env e (w, c)))) \<and>
    call_inv env (snd (snd (flush_delete env d (w, c)))) \<and>
    (case before env operation (w, c) of
       (Inl err, _) \<Rightarrow> True
     | (Inr _, w1, c1) \<Rightarrow> clear_of (bc_current c1) operation \<and> clear_key (w_mem w1) (bc_current c1) operation) \<and>
    (case add env write operation (w, c) of
       (Inl err, _) \<Rightarrow> True
     | (Inr _, w1, c1) \<Rightarrow> bc_current c1 = newMessage \<or> (\<exists>prior \<in> {newMessage, bc_current c}.
         ms_writes (bc_current c1) = ms_writes prior @ [write] \<and>
         ms_keys (bc_current c1) = ms_keys prior @ (case (keyNow (w_mem w1) operation, su_m operation) of
           (Some key, Some m) \<Rightarrow> [(Type m, key)] | _ \<Rightarrow> [])))"
proof -
  have run: "call_inv env (snd (snd (m (w, c))))" if "step_counts env m" for m
    using that assms unfolding step_counts_def by (metis surj_pair snd_conv)
  have same: "snd (snd (bindP m (\<lambda>_. retP True) (w, c))) = snd (snd (m (w, c)))" for m :: "('a calls, unit) prog"
    by (auto simp: bindP_def retP_def split: prod.splits sum.splits)
  have steps: "call_inv env (snd (snd (flush_insert env s (w, c))))" "call_inv env (snd (snd (flush_update env e (w, c))))"
    "call_inv env (snd (snd (flush_delete env d (w, c))))"
    using run [OF flush_steps(1)] run [OF flush_steps(2)] run [OF flush_steps(3)] unfolding same by blast+
  obtain r1 w1 c1 where b: "before env operation (w, c) = (r1, w1, c1)"
    by (metis surj_pair)
  obtain r2 w2 c2 where a: "add env write operation (w, c) = (r2, w2, c2)"
    by (metis surj_pair)
  have "is_ok r1 \<longrightarrow> clear_of (bc_current c1) operation \<and> clear_key (w_mem w1) (bc_current c1) operation"
    using before_counts [OF b assms] by blast
  moreover have "r2 = Inr u \<longrightarrow> bc_current c2 = newMessage \<or> (\<exists>prior \<in> {newMessage, bc_current c}.
      ms_writes (bc_current c2) = ms_writes prior @ [write] \<and>
      ms_keys (bc_current c2) = ms_keys prior @ (case (keyNow (w_mem w2) operation, su_m operation) of
        (Some key, Some m) \<Rightarrow> [(Type m, key)] | _ \<Rightarrow> []))" for u
    using add_joined a by blast
  ultimately show ?thesis
    unfolding b a using steps by (cases r1; cases r2) auto
qed

theorem flush_step_rules_witness:
  "call_inv (sample_env True 3) (snd (snd (flush_insert (sample_env True 3) sample_new_order
     (sample_world (sample_memory 5) sample_db, newCall (sample_env True 3)))))"
  using flush_step_rules [OF call_inv_new(1)] by blast

lemma message_rules: "message_ok env msg \<Longrightarrow>
    sorted_wrt (\<lambda>a b. pw_instance a = None \<or> pw_instance a \<noteq> pw_instance b) (ms_writes msg) \<and>
    sorted_wrt (\<lambda>a b. pw_command a \<longrightarrow> \<not> readsResult b) (ms_writes msg) \<and>
    (length (ms_writes msg) > 1 \<longrightarrow> MaxParametersPerMessage env > 0 \<longrightarrow>
      (\<Sum>write \<leftarrow> ms_writes msg. length (pw_args write)) \<le> MaxParametersPerMessage env)"
  by (simp add: message_ok_def) metis

text \<open>
  C17: The messages of a flush. Whatever the plan and the outside, every message a flush sends holds at least one
  statement and at most \<open>maxStatements\<close> of them (exactly one under Off), and respects the rules: no two statements on
  one instance, no statement that reads a result behind a registry command, and more than one statement only while
  their parameters together are within the dialect's cap; so does what is left unsent when the flush fails. Each
  message is counted once, and when the execution succeeds the messages together hold exactly the statements the
  summary counts and nothing is left unsent.
\<close>

theorem flush_messages:
  "case executeFlush env plan (w, newCall env) of (r, w', c) \<Rightarrow>
     bc_messages c = length (bc_sent c) \<and>
     (\<forall>msg \<in> set (bc_sent c). 1 \<le> length (ms_writes msg) \<and>
       length (ms_writes msg) \<le> (if BatchingAuto env then max 1 (maxStatements env) else 1)) \<and>
     (\<forall>msg \<in> insert (bc_current c) (set (bc_sent c)).
       sorted_wrt (\<lambda>a b. pw_instance a = None \<or> pw_instance a \<noteq> pw_instance b) (ms_writes msg) \<and>
       sorted_wrt (\<lambda>a b. pw_command a \<longrightarrow> \<not> readsResult b) (ms_writes msg) \<and>
       (length (ms_writes msg) > 1 \<longrightarrow> MaxParametersPerMessage env > 0 \<longrightarrow>
         (\<Sum>write \<leftarrow> ms_writes msg. length (pw_args write)) \<le> MaxParametersPerMessage env)) \<and>
     (case r of
        Inl e \<Rightarrow> True
      | Inr summary \<Rightarrow> (\<Sum>msg \<leftarrow> bc_sent c. length (ms_writes msg)) = Inserted summary + Updated summary + Deleted summary \<and>
          ms_writes (bc_current c) = [])"
proof -
  obtain r w' c where run: "executeFlush env plan (w, newCall env) = (r, w', c)"
    by (metis surj_pair)
  note inv = executeFlush_counts [OF run call_inv_new]
  have "ms_writes (newMessage :: 'a message) = []"
    by (simp add: newMessage_def)
  then have "case r of Inl e \<Rightarrow> True
      | Inr summary \<Rightarrow> (\<Sum>msg \<leftarrow> bc_sent c. length (ms_writes msg)) = Inserted summary + Updated summary + Deleted summary \<and>
          ms_writes (bc_current c) = []"
    using inv by (cases r) (auto simp: planned_def)
  moreover have "message_ok env msg" if "msg \<in> insert (bc_current c) (set (bc_sent c))" for msg
    using inv that by (auto simp: call_inv_def sent_ok_def)
  then have "\<forall>msg \<in> insert (bc_current c) (set (bc_sent c)).
       sorted_wrt (\<lambda>a b. pw_instance a = None \<or> pw_instance a \<noteq> pw_instance b) (ms_writes msg) \<and>
       sorted_wrt (\<lambda>a b. pw_command a \<longrightarrow> \<not> readsResult b) (ms_writes msg) \<and>
       (length (ms_writes msg) > 1 \<longrightarrow> MaxParametersPerMessage env > 0 \<longrightarrow>
         (\<Sum>write \<leftarrow> ms_writes msg. length (pw_args write)) \<le> MaxParametersPerMessage env)"
    using message_rules by blast
  ultimately show ?thesis
    using run inv by (simp add: call_inv_def sent_ok_def message_limit_def)
qed

text \<open>The flush of three inserts, at most two to a message: a full message and what is left.\<close>

definition sample_flush :: flushPlan where
  "sample_flush = \<lparr>fp_inserts = [sample_new_order, sample_new_order\<lparr>si_ptr := 8\<rparr>, sample_new_order\<lparr>si_ptr := 9\<rparr>], fp_dirty = [], fp_deletes = []\<rparr>"

theorem flush_messages_witness:
  "case executeFlush (sample_env True 2) sample_flush (sample_world (sample_memory 5) sample_db, newCall (sample_env True 2)) of (r, w', c) \<Rightarrow>
     is_ok r \<and> map (length \<circ> ms_writes) (bc_sent c) = [2, 1] \<and> (\<forall>msg \<in> set (bc_sent c). 1 \<le> length (ms_writes msg) \<and> length (ms_writes msg) \<le> 2)"
proof -
  obtain r w' c where run: "executeFlush (sample_env True 2) sample_flush (sample_world (sample_memory 5) sample_db, newCall (sample_env True 2)) = (r, w', c)"
    by (metis surj_pair)
  have "case executeFlush (sample_env True 2) sample_flush (sample_world (sample_memory 5) sample_db, newCall (sample_env True 2)) of (r, w', c) \<Rightarrow>
      is_ok r \<and> map (length \<circ> ms_writes) (bc_sent c) = [2, 1]"
    by code_simp
  moreover have "BatchingAuto (sample_env True 2)" "max 1 (maxStatements (sample_env True 2)) = 2"
    by (simp_all add: sample_env_def)
  ultimately show ?thesis
    using flush_messages [of "sample_env True 2" sample_flush "sample_world (sample_memory 5) sample_db"]
    unfolding run by (simp only: if_True prod.case) blast
qed

end
