(* ===== verification/Cancel_Inserts.thy ===== *)
theory Cancel_Inserts
  imports Unit_Of_Work
begin

text \<open>
  What \<open>unitOfWork.cancel\<close> (\<open>unit_of_work.go\<close>) computes: the least set of scheduled inserts that
  contains the ones asked for and every insert, not persisted directly, whose cascade owners are all
  cancelled. The loop is a fixpoint iteration; the property says it ends in that set.
\<close>

text \<open>The specification: an insert is cancelled because it was asked for, or because only cancelled owners reached it.\<close>

inductive cancelled_by :: "ptr set \<Rightarrow> unitOfWork \<Rightarrow> ptr \<Rightarrow> bool" for initial u where
  asked: "p \<in> initial \<Longrightarrow> cancelled_by initial u p"
| orphaned: "s \<in> set (uw_inserts u) \<Longrightarrow> \<not> si_direct s \<Longrightarrow> si_links s \<noteq> [] \<Longrightarrow>
    (\<And>l. l \<in> set (si_links s) \<Longrightarrow> cancelled_by initial u (cl_owner l)) \<Longrightarrow> cancelled_by initial u (si_ptr s)"

text \<open>An insert as the loop has it so far, against the insert as scheduled.\<close>

definition trimmed :: "ptr set \<Rightarrow> scheduledInsert \<Rightarrow> scheduledInsert \<Rightarrow> bool" where
  "trimmed c orig cur \<longleftrightarrow>
     (\<exists>L. cur = orig\<lparr>si_links := L\<rparr> \<and> set L \<subseteq> set (si_links orig) \<and>
       (si_ptr orig \<notin> c \<longrightarrow>
          filter (\<lambda>l. cl_owner l \<notin> c) L = filter (\<lambda>l. cl_owner l \<notin> c) (si_links orig) \<and>
          (\<not> si_direct orig \<and> si_links orig \<noteq> [] \<longrightarrow> L \<noteq> [])))"

lemma filter_subsumed: "c \<subseteq> d \<Longrightarrow> filter (\<lambda>l. f l \<notin> d) xs = filter (\<lambda>l. f l \<notin> d) (filter (\<lambda>l. f l \<notin> c) xs)"
  by (induction xs) auto

lemma trimmed_mono:
  assumes "trimmed c orig cur" "c \<subseteq> d"
  shows "trimmed d orig cur"
proof -
  obtain L where L: "cur = orig\<lparr>si_links := L\<rparr>" "set L \<subseteq> set (si_links orig)"
      "si_ptr orig \<notin> c \<Longrightarrow> filter (\<lambda>l. cl_owner l \<notin> c) L = filter (\<lambda>l. cl_owner l \<notin> c) (si_links orig)"
      "si_ptr orig \<notin> c \<Longrightarrow> \<not> si_direct orig \<and> si_links orig \<noteq> [] \<longrightarrow> L \<noteq> []"
    using assms(1) by (auto simp: trimmed_def)
  have "filter (\<lambda>l. cl_owner l \<notin> d) L = filter (\<lambda>l. cl_owner l \<notin> d) (si_links orig)" if "si_ptr orig \<notin> d"
  proof -
    have "si_ptr orig \<notin> c"
      using that assms(2) by blast
    then show ?thesis
      using L(3) filter_subsumed [OF assms(2), of cl_owner L] filter_subsumed [OF assms(2), of cl_owner "si_links orig"] by metis
  qed
  then show ?thesis
    using L(1,2,4) assms(2) by (auto simp: trimmed_def)
qed

lemma trimmed_ptr: "trimmed c orig cur \<Longrightarrow> si_ptr cur = si_ptr orig \<and> si_direct cur = si_direct orig"
  by (auto simp: trimmed_def)

lemma trimmed_links:
  assumes "trimmed c orig cur" "si_ptr orig \<notin> c"
  shows "\<exists>L. cur = orig\<lparr>si_links := L\<rparr> \<and> set L \<subseteq> set (si_links orig) \<and> (\<not> si_direct orig \<and> si_links orig \<noteq> [] \<longrightarrow> L \<noteq> [])"
  using assms unfolding trimmed_def by blast

text \<open>The links an uncancelled insert keeps in one step, given that cancelled instances are scheduled.\<close>

lemma kept_links:
  assumes "\<And>p. p \<in> set c \<Longrightarrow> insertOf u p \<noteq> None"
  shows "filter (\<lambda>l. \<not> (insertOf u (cl_owner l) \<noteq> None \<and> cl_owner l \<in> set c)) ls = filter (\<lambda>l. cl_owner l \<notin> set c) ls"
  using assms by (intro filter_cong) blast+

lemma insertOf_iff: "insertOf u p \<noteq> None \<longleftrightarrow> p \<in> si_ptr ` set (uw_inserts u)"
  by (auto simp: insertOf_def find_None_iff)

text \<open>One pass, element by element.\<close>

definition sound :: "ptr set \<Rightarrow> unitOfWork \<Rightarrow> ptr list \<Rightarrow> bool" where
  "sound initial u c \<longleftrightarrow> initial \<subseteq> set c \<and> (\<forall>p \<in> set c. cancelled_by initial u p \<and> insertOf u p \<noteq> None)"

lemma step_sound:
  assumes "sound initial u c" "orig \<in> set (uw_inserts u)" "trimmed (set c) orig s" "si_ptr s \<notin> set c"
    and "filter (\<lambda>l. cl_owner l \<notin> set c) (si_links s) = []" "\<not> si_direct s" "si_links s \<noteq> []"
  shows "sound initial u (si_ptr s # c)"
proof -
  have t: "si_ptr s = si_ptr orig" "si_direct s = si_direct orig"
    using trimmed_ptr [OF assms(3)] by auto
  have "filter (\<lambda>l. cl_owner l \<notin> set c) (si_links orig) = []" "si_links orig \<noteq> []"
    using assms(3-5,7) by (auto simp: trimmed_def)
  then have "cancelled_by initial u (si_ptr orig)"
    using assms(1,2,6) t by (intro orphaned) (auto simp: sound_def filter_empty_conv)
  moreover have "insertOf u (si_ptr orig) \<noteq> None"
    using assms(2) by (simp only: insertOf_iff image_eqI)
  ultimately show ?thesis
    using assms(1) t(1) by (auto simp: sound_def)
qed

lemma trimmed_step:
  assumes "trimmed (set c) orig s" "si_ptr s \<notin> set c"
    and d: "d = (if filter (\<lambda>l. cl_owner l \<notin> set c) (si_links s) = [] \<and> si_links s \<noteq> [] \<and> \<not> si_direct s then si_ptr s # c else c)"
  shows "trimmed (set d) orig (s\<lparr>si_links := filter (\<lambda>l. cl_owner l \<notin> set c) (si_links s)\<rparr>)"
proof -
  obtain L where L: "s = orig\<lparr>si_links := L\<rparr>" "set L \<subseteq> set (si_links orig)"
      "filter (\<lambda>l. cl_owner l \<notin> set c) L = filter (\<lambda>l. cl_owner l \<notin> set c) (si_links orig)"
      "\<not> si_direct orig \<and> si_links orig \<noteq> [] \<longrightarrow> L \<noteq> []"
    using assms(1,2) by (auto simp: trimmed_def)
  let ?K = "filter (\<lambda>l. cl_owner l \<notin> set c) L"
  show ?thesis
    unfolding trimmed_def
  proof (intro exI [of _ ?K] conjI impI)
    show "s\<lparr>si_links := filter (\<lambda>l. cl_owner l \<notin> set c) (si_links s)\<rparr> = orig\<lparr>si_links := ?K\<rparr>"
      using L(1) by simp
    show "set ?K \<subseteq> set (si_links orig)"
      using L(2) by auto
    assume p: "si_ptr orig \<notin> set d"
    then have "d = c"
      using L(1) d by (auto split: if_splits)
    then show "filter (\<lambda>l. cl_owner l \<notin> set d) ?K = filter (\<lambda>l. cl_owner l \<notin> set d) (si_links orig)"
      using L(3) by simp
    show "\<not> si_direct orig \<and> si_links orig \<noteq> [] \<Longrightarrow> ?K \<noteq> []"
      using p L(1,4) d by (auto split: if_splits)
  qed
qed

lemma cancel_pass_trimmed:
  assumes "list_all2 (trimmed (set c)) os ss" "sound initial u c" "set os \<subseteq> set (uw_inserts u)"
    and "cancel_pass u c ss = (c', ss')"
  shows "sound initial u c' \<and> list_all2 (trimmed (set c')) os ss' \<and>
    (c' = c \<longrightarrow> list_all2 (\<lambda>orig cur. si_ptr orig \<notin> set c \<longrightarrow> (\<forall>l \<in> set (si_links cur). cl_owner l \<notin> set c)) os ss')"
  using assms
proof (induction u c ss arbitrary: os c' ss' rule: cancel_pass.induct)
  case (2 u c s ss)
  obtain orig os' where os: "os = orig # os'" "trimmed (set c) orig s" "list_all2 (trimmed (set c)) os' ss"
    using 2(3) by (auto simp: list_all2_Cons2)
  have ptr: "si_ptr s = si_ptr orig" "si_direct s = si_direct orig"
    using trimmed_ptr [OF os(2)] by auto
  show ?case
  proof (cases "si_ptr s \<in> set c")
    case True
    obtain rest where r: "cancel_pass u c ss = (c', rest)" "ss' = s # rest"
      using 2(6) True by (auto split: prod.splits)
    have "set c \<subseteq> set c'"
      using cancel_pass_grows [OF r(1)] by auto
    moreover have "sound initial u c' \<and> list_all2 (trimmed (set c')) os' rest \<and>
        (c' = c \<longrightarrow> list_all2 (\<lambda>orig cur. si_ptr orig \<notin> set c \<longrightarrow> (\<forall>l \<in> set (si_links cur). cl_owner l \<notin> set c)) os' rest)"
      using 2(1) [OF True os(3) 2(4) _ r(1)] 2(5) os(1) by simp
    ultimately show ?thesis
      using os(1,2) r(2) True ptr trimmed_mono by auto
  next
    case False
    let ?K = "filter (\<lambda>l. cl_owner l \<notin> set c) (si_links s)"
    have kept: "filter (\<lambda>l. \<not> (insertOf u (cl_owner l) \<noteq> None \<and> cl_owner l \<in> set c)) (si_links s) = ?K"
      using 2(4) by (intro kept_links) (simp add: sound_def)
    define d where "d = (if ?K = [] \<and> si_links s \<noteq> [] \<and> \<not> si_direct s then si_ptr s # c else c)"
    have d: "(if length ?K \<noteq> length (si_links s) \<and> \<not> si_direct s \<and> length ?K = 0 then si_ptr s # c else c) = d"
      by (auto simp: d_def)
    obtain rest where r: "cancel_pass u d ss = (c', rest)" "ss' = s\<lparr>si_links := ?K\<rparr> # rest"
    proof -
      have "cancel_pass u c (s # ss) = (let (c1, rest) = cancel_pass u d ss in (c1, s\<lparr>si_links := ?K\<rparr> # rest))"
        unfolding cancel_pass.simps Let_def kept d using False by simp
      then show ?thesis
        using 2(6) that by (cases "cancel_pass u d ss") simp
    qed
    obtain new where new: "c' = new @ d"
      using cancel_pass_grows [OF r(1)] by auto
    then have grow: "set d \<subseteq> set c'"
      by simp
    have same: "d = c" if "c' = c"
      using new that by (cases "d = c") (auto simp: d_def split: if_splits)
    have "sound initial u d"
      using 2(4,5) step_sound [OF 2(4) _ os(2) False] os(1) by (auto simp: d_def)
    moreover have "list_all2 (trimmed (set d)) os' ss"
      using os(3) by (rule list_all2_mono) (auto simp: d_def intro: trimmed_mono)
    ultimately have ih: "sound initial u c' \<and> list_all2 (trimmed (set c')) os' rest \<and>
        (c' = d \<longrightarrow> list_all2 (\<lambda>orig cur. si_ptr orig \<notin> set d \<longrightarrow> (\<forall>l \<in> set (si_links cur). cl_owner l \<notin> set d)) os' rest)"
      using 2(2) [OF False refl refl refl, unfolded kept d, of os' c' rest] 2(5) os(1) r(1) by simp
    have "trimmed (set c') orig (s\<lparr>si_links := ?K\<rparr>)"
      using trimmed_mono [OF trimmed_step [OF os(2) False d_def] grow] .
    then show ?thesis
      using ih same os(1) r(2) by auto
  qed
qed auto

lemma cancel_loop_fixpoint:
  assumes "list_all2 (trimmed (set c)) (uw_inserts u) ss" "sound initial u c" "cancel_loop u c ss = (c', ss')"
  shows "sound initial u c' \<and> list_all2 (trimmed (set c')) (uw_inserts u) ss' \<and>
    list_all2 (\<lambda>orig cur. si_ptr orig \<notin> set c' \<longrightarrow> (\<forall>l \<in> set (si_links cur). cl_owner l \<notin> set c')) (uw_inserts u) ss'"
  using assms
proof (induction u c ss arbitrary: c' ss' rule: cancel_loop.induct)
  case (1 u c ss)
  obtain d ss1 where p: "cancel_pass u c ss = (d, ss1)"
    by fastforce
  note pass = cancel_pass_trimmed [OF 1(2,3) subset_refl p]
  show ?case
  proof (cases "length d = length c")
    case True
    then have "d = c"
      using cancel_pass_grows [OF p] by auto
    then show ?thesis
      using pass 1(4) p by (subst (asm) cancel_loop.simps) simp
  next
    case False
    then show ?thesis
      using 1(1) [OF p [symmetric] refl False] pass 1(4) p by (subst (asm) (2) cancel_loop.simps) simp
  qed
qed

text \<open>At the fixpoint everything the specification cancels is cancelled.\<close>

lemma fixpoint_complete:
  assumes c: "sound initial u c" "list_all2 (trimmed (set c)) (uw_inserts u) ss"
    and fp: "list_all2 (\<lambda>orig cur. si_ptr orig \<notin> set c \<longrightarrow> (\<forall>l \<in> set (si_links cur). cl_owner l \<notin> set c)) (uw_inserts u) ss"
  shows "cancelled_by initial u p \<Longrightarrow> p \<in> set c"
proof (induction rule: cancelled_by.induct)
  case (asked p)
  then show ?case
    using c(1) by (auto simp: sound_def)
next
  case (orphaned s)
  show ?case
  proof (rule ccontr)
    assume s: "si_ptr s \<notin> set c"
    obtain i where i: "i < length (uw_inserts u)" "uw_inserts u ! i = s"
      using orphaned(1) by (metis in_set_conv_nth)
    then have t: "trimmed (set c) s (ss ! i)"
      using c(2) by (auto simp: list_all2_conv_all_nth)
    have fp': "\<forall>l \<in> set (si_links (ss ! i)). cl_owner l \<notin> set c"
      using list_all2_nthD [OF fp i(1)] i(2) s by simp
    obtain L where L: "ss ! i = s\<lparr>si_links := L\<rparr>" "set L \<subseteq> set (si_links s)" "L \<noteq> []"
      using trimmed_links [OF t s] orphaned(2,3) by blast
    then have "hd L \<in> set L" "\<forall>l \<in> set L. cl_owner l \<notin> set c"
      using fp' by simp_all
    then have "hd L \<in> set (si_links s)" "cl_owner (hd L) \<notin> set c"
      using L(2) by auto
    then show False
      using orphaned.IH by blast
  qed
qed

text \<open>What a trimmed schedule looks like at the fixpoint.\<close>

lemma trimmed_fixpoint:
  assumes "list_all2 (trimmed c) os ss"
    and "list_all2 (\<lambda>orig cur. si_ptr orig \<notin> c \<longrightarrow> (\<forall>l \<in> set (si_links cur). cl_owner l \<notin> c)) os ss"
  shows "filter (\<lambda>s. si_ptr s \<notin> c) ss =
    map (\<lambda>s. s\<lparr>si_links := filter (\<lambda>l. cl_owner l \<notin> c) (si_links s)\<rparr>) (filter (\<lambda>s. si_ptr s \<notin> c) os)"
  using assms
proof (induction os ss rule: list_all2_induct)
  case (Cons orig os s ss)
  have "s = orig\<lparr>si_links := filter (\<lambda>l. cl_owner l \<notin> c) (si_links orig)\<rparr>" if p: "si_ptr orig \<notin> c"
  proof -
    obtain L where "s = orig\<lparr>si_links := L\<rparr>" "filter (\<lambda>l. cl_owner l \<notin> c) L = filter (\<lambda>l. cl_owner l \<notin> c) (si_links orig)"
      using Cons(1) p by (auto simp: trimmed_def)
    moreover have "filter (\<lambda>l. cl_owner l \<notin> c) L = L"
      using Cons(4) p calculation(1) by (simp add: filter_id_conv)
    ultimately show ?thesis
      by simp
  qed
  then show ?case
    using Cons trimmed_ptr [OF Cons(1)] by auto
qed simp

lemma cancel_fixpoint:
  assumes "set initial \<subseteq> si_ptr ` set (uw_inserts u)"
  shows "cancel initial u = u\<lparr>uw_inserts :=
    map (\<lambda>s. s\<lparr>si_links := filter (\<lambda>l. \<not> cancelled_by (set initial) u (cl_owner l)) (si_links s)\<rparr>)
      (filter (\<lambda>s. \<not> cancelled_by (set initial) u (si_ptr s)) (uw_inserts u))\<rparr>"
proof (cases "initial = []")
  case True
  have "\<not> cancelled_by {} u p" for p
  proof
    assume "cancelled_by {} u p"
    then show False
    proof (induction rule: cancelled_by.induct)
      case (orphaned s)
      then show ?case
        by (cases "si_links s") auto
    qed simp
  qed
  then show ?thesis
    using True by (simp add: cancel_def)
next
  case False
  obtain c ss where l: "cancel_loop u initial (uw_inserts u) = (c, ss)"
    by fastforce
  have "trimmed (set initial) s s" for s
    unfolding trimmed_def by (rule exI [of _ "si_links s"]) simp
  then have "list_all2 (trimmed (set initial)) (uw_inserts u) (uw_inserts u)"
    by (simp add: list_all2_same)
  moreover have "insertOf u p \<noteq> None" if "p \<in> set initial" for p
    using that assms by (simp only: insertOf_iff subset_eq)
  then have "sound (set initial) u initial"
    by (auto simp: sound_def intro: cancelled_by.asked)
  ultimately have f: "sound (set initial) u c" "list_all2 (trimmed (set c)) (uw_inserts u) ss"
      "list_all2 (\<lambda>orig cur. si_ptr orig \<notin> set c \<longrightarrow> (\<forall>l \<in> set (si_links cur). cl_owner l \<notin> set c)) (uw_inserts u) ss"
    using cancel_loop_fixpoint [OF _ _ l] by auto
  have "p \<in> set c \<longleftrightarrow> cancelled_by (set initial) u p" for p
    using fixpoint_complete [OF f] f(1) by (auto simp: sound_def)
  then show ?thesis
    using False l trimmed_fixpoint [OF f(2,3)] by (simp add: cancel_def)
qed

text \<open>
  C5: cancelling scheduled inserts. \<open>cancel\<close> ends, and what it leaves is exactly the scheduled
  inserts, in their order, that the least fixpoint does not cancel: an insert goes when it is asked
  for, or when it was not persisted directly and every owner whose cascade reached it goes; the
  inserts that stay keep their links to owners that stay, and nothing else changes.
\<close>

theorem cancel_correct:
  assumes "set initial \<subseteq> si_ptr ` set (uw_inserts u)"
  shows "cancel initial u = u\<lparr>uw_inserts :=
    map (\<lambda>s. s\<lparr>si_links := filter (\<lambda>l. \<not> cancelled_by (set initial) u (cl_owner l)) (si_links s)\<rparr>)
      (filter (\<lambda>s. \<not> cancelled_by (set initial) u (si_ptr s)) (uw_inserts u))\<rparr>"
  by (rule cancel_fixpoint [OF assms])

definition sample_insert :: "ptr \<Rightarrow> bool \<Rightarrow> ptr list \<Rightarrow> nat \<Rightarrow> scheduledInsert" where
  "sample_insert p direct owners order = \<lparr>si_ptr = p, si_m = sample_map, si_direct = direct,
     si_links = map (\<lambda>q. \<lparr>cl_owner = q, cl_ownerMap = sample_map, cl_relationship =
        \<lparr>RelName = ''Lines'', RelKind = RelationshipOneToMany, TargetType = ''Order'', ForeignKeyProperties = [], LinkType = [], LinkForeignKeysToOwner = [], LinkForeignKeysToTarget = [], Cascade = {CascadePersist}\<rparr>\<rparr>) owners,
     si_order = order\<rparr>"

theorem cancel_correct_witness:
  "map si_ptr (uw_inserts (cancel [4] (newUnitOfWork\<lparr>uw_inserts := [sample_insert 4 True [] 1, sample_insert 5 False [4] 2, sample_insert 6 True [5] 3]\<rparr>))) = [6]"
proof -
  define u where "u = newUnitOfWork\<lparr>uw_inserts := [sample_insert 4 True [] 1, sample_insert 5 False [4] 2, sample_insert 6 True [5] 3]\<rparr>"
  have inserts: "uw_inserts u = [sample_insert 4 True [] 1, sample_insert 5 False [4] 2, sample_insert 6 True [5] 3]"
    by (simp add: u_def)
  have one: "cancelled_by {4} u 4"
    by (rule cancelled_by.asked) simp
  have "cancelled_by {4} u (si_ptr (sample_insert 5 False [4] 2))"
    by (rule cancelled_by.orphaned) (auto simp: inserts sample_insert_def one)
  then have two: "cancelled_by {4} u 5"
    by (simp add: sample_insert_def)
  have three: "\<not> cancelled_by {4} u 6"
  proof
    assume "cancelled_by {4} u 6"
    then show False
      by cases (auto simp: inserts sample_insert_def)
  qed
  show ?thesis
    using cancel_correct [of "[4]" u] one two three unfolding u_def [symmetric] by (simp add: inserts sample_insert_def)
qed

end
