(* ===== verification/Scheduling.thy ===== *)
theory Scheduling
  imports Cancel_Inserts
begin

text \<open>
  The properties of \<open>Persist\<close> and \<open>Remove\<close> (\<open>unit_of_work.go\<close>): both walks are instances of
  \<open>cascade_walk\<close>, so each is refused exactly when an instance its cascade reaches is, schedules
  nothing when refused, and otherwise schedules exactly the reached instances; the schedule's
  invariant is kept.
\<close>

section \<open>The schedule's invariant\<close>

definition uow_inv :: "unitOfWork \<Rightarrow> bool" where
  "uow_inv u \<longleftrightarrow>
     distinct (map si_ptr (uw_inserts u)) \<and> distinct (map sr_ptr (uw_removes u)) \<and>
     si_ptr ` set (uw_inserts u) \<inter> sr_ptr ` set (uw_removes u) = {} \<and>
     sorted_wrt (<) (map si_order (uw_inserts u)) \<and> sorted_wrt (<) (map sr_order (uw_removes u)) \<and>
     (\<forall>s \<in> set (uw_inserts u). si_order s \<le> uw_counter u \<and> (si_direct s \<or> si_links s \<noteq> [])) \<and>
     (\<forall>s \<in> set (uw_removes u). sr_order s \<le> uw_counter u)"

lemma uow_inv_new: "uow_inv newUnitOfWork"
  by (simp add: uow_inv_def newUnitOfWork_def)

lemma removeOf_iff: "removeOf u p \<noteq> None \<longleftrightarrow> p \<in> sr_ptr ` set (uw_removes u)"
  by (auto simp: removeOf_def find_None_iff)

lemma added_iff: "added pl p \<noteq> None \<longleftrightarrow> p \<in> si_ptr ` set (pp_adds pl)"
  by (auto simp: added_def find_None_iff)

section \<open>The graph in memory\<close>

text \<open>
  Every instance has one Go type, a navigation's targets have the relationship's target type, and
  loading a map is no infinite recursion.
\<close>

definition typed_graph :: "memory \<Rightarrow> Db \<Rightarrow> (ptr \<Rightarrow> gotype) \<Rightarrow> bool" where
  "typed_graph mem db tyof \<longleftrightarrow>
     (\<forall>p m r q. db_maps db (tyof p) = Inr m \<longrightarrow> r \<in> set (Relationships m) \<longrightarrow>
        q \<in> set (fst (navigationTargets mem p r)) \<longrightarrow> tyof q = TargetType r) \<and>
     (\<forall>t. db_maps db t \<noteq> Inl OutOfFuel)"

lemma requireWritable_maps: "requireWritableKeyedType db t = Inr m \<Longrightarrow> db_maps db t = Inr m"
  by (auto simp: requireWritableKeyedType_def bindR_Inr_iff split: if_splits)

lemma requireWritable_no_fuel: "typed_graph mem db tyof \<Longrightarrow> requireWritableKeyedType db t \<noteq> Inl OutOfFuel"
  by (auto simp: requireWritableKeyedType_def bindR_Inl_iff typed_graph_def split: if_splits)

definition cascade_targets :: "CascadeOperation \<Rightarrow> memory \<Rightarrow> Db \<Rightarrow> (ptr \<Rightarrow> gotype) \<Rightarrow> ptr \<Rightarrow> ptr set" where
  "cascade_targets op mem db tyof p =
     {q. \<exists>m r. requireWritableKeyedType db (tyof p) = Inr m \<and> r \<in> set (Relationships m) \<and>
        Cascade_Has (Cascade r) op \<and> q \<in> set (fst (navigationTargets mem p r))}"

section \<open>A small graph for the concrete examples\<close>

definition sample_lines :: RelationshipMap where
  "sample_lines = \<lparr>RelName = ''Lines'', RelKind = RelationshipOneToMany, TargetType = ''Line'', ForeignKeyProperties = [''Total''],
     LinkType = [], LinkForeignKeysToOwner = [], LinkForeignKeysToTarget = [], Cascade = {CascadePersist, CascadeRemove}\<rparr>"

definition sample_graph_maps :: "gotype \<Rightarrow> EntityMap res" where
  "sample_graph_maps t = Inr (if t = ''Order'' then sample_map\<lparr>Relationships := [sample_lines]\<rparr> else sample_map\<lparr>Type := ''Line''\<rparr>)"

text \<open>Instance 6 is an order whose loaded lines are 7, a nil element, and 8.\<close>

definition sample_graph :: memory where
  "sample_graph = (sample_memory 5)\<lparr>navs := (\<lambda>p f. if p = 6 \<and> f = ''Lines'' then SliceField (Some [Some 7, None, Some 8]) else NoField)\<rparr>"

definition sample_tyof :: "ptr \<Rightarrow> gotype" where
  "sample_tyof p = (if p = 6 then ''Order'' else ''Line'')"

lemma sample_targets: "fst (navigationTargets sample_graph p r) = (if p = 6 \<and> RelName r = ''Lines'' then [7, 8] else [])"
  by (simp add: navigationTargets_def sample_graph_def map_filter_def)

lemma sample_hsize: "hsize sample_graph = 10"
  by (simp add: sample_graph_def sample_memory_def)

lemma sample_wf: "wf_memory sample_graph"
  by (auto simp: wf_memory_def sample_targets sample_hsize)

lemma sample_tyof_simps: "sample_tyof 6 = ''Order''" "sample_tyof 7 = ''Line''"
  by (simp_all add: sample_tyof_def)

lemma sample_fresh: "insertOf newUnitOfWork q = None" "removeOf newUnitOfWork q = None" "byPtr newTracker q = None"
    "uw_inserts newUnitOfWork = []" "uw_removes newUnitOfWork = []"
  by (simp_all add: insertOf_def removeOf_def newUnitOfWork_def byPtr_def newTracker_def)

lemma sample_typed: "db_maps db = sample_graph_maps \<Longrightarrow> typed_graph sample_graph db sample_tyof"
  by (auto simp: typed_graph_def sample_graph_maps_def sample_targets sample_tyof_def sample_lines_def split: if_splits)

lemma sample_writable:
  assumes "db_maps db = sample_graph_maps"
  shows "requireWritableKeyedType db t = Inr (if t = ''Order'' then sample_map\<lparr>Relationships := [sample_lines]\<rparr> else sample_map\<lparr>Type := ''Line''\<rparr>)"
  using assms by (simp add: requireWritableKeyedType_def sample_graph_maps_def KeyProperties_def sample_map_def sample_property_def)

lemma sample_cascade:
  assumes "db_maps db = sample_graph_maps"
  shows "cascade_targets op sample_graph db sample_tyof p = (if p = 6 then {7, 8} else {})"
  using sample_writable [OF assms]
  by (cases op) (auto simp: cascade_targets_def sample_targets sample_tyof_def sample_lines_def Cascade_Has_def sample_map_def split: if_splits)

section \<open>The persist walk\<close>

definition persist_ok :: "Db \<Rightarrow> (ptr \<Rightarrow> gotype) \<Rightarrow> ptr \<Rightarrow> bool" where
  "persist_ok db tyof p \<longleftrightarrow> (\<exists>m. requireWritableKeyedType db (tyof p) = Inr m) \<and> removeOf (schedule db) p = None"

text \<open>The instances a persist cascade reaches.\<close>

inductive persist_reaches :: "memory \<Rightarrow> Db \<Rightarrow> (ptr \<Rightarrow> gotype) \<Rightarrow> ptr \<Rightarrow> ptr \<Rightarrow> bool" for mem db tyof p where
  start: "persist_reaches mem db tyof p p"
| cascade: "persist_reaches mem db tyof p q \<Longrightarrow> persist_ok db tyof q \<Longrightarrow> r \<in> cascade_targets CascadePersist mem db tyof q \<Longrightarrow>
    persist_reaches mem db tyof p r"

type_synonym pnode = "gotype \<times> ptr \<times> cascadeLink option"

definition persist_good :: "memory \<Rightarrow> Db \<Rightarrow> (ptr \<Rightarrow> gotype) \<Rightarrow> pnode \<Rightarrow> bool" where
  "persist_good mem db tyof n \<longleftrightarrow> typed_graph mem db tyof \<and> fst n = tyof (fst (snd n))"

definition persist_items :: "memory \<Rightarrow> Db \<Rightarrow> pnode \<Rightarrow> pnode item list" where
  "persist_items mem db n =
     (case n of (t, p, via) \<Rightarrow>
        (case requireWritableKeyedType db t of
           Inl e \<Rightarrow> []
         | Inr m \<Rightarrow> concat (map (\<lambda>r.
             if \<not> Cascade_Has (Cascade r) CascadePersist then []
             else map (\<lambda>q. Child (TargetType r, q, Some \<lparr>cl_owner = p, cl_ownerMap = m, cl_relationship = r\<rparr>))
                    (fst (navigationTargets mem p r))) (Relationships m))))"

lemma persist_items_child:
  "Child c \<in> set (persist_items mem db (t, p, via)) \<longleftrightarrow>
     (\<exists>m r q. requireWritableKeyedType db t = Inr m \<and> r \<in> set (Relationships m) \<and> Cascade_Has (Cascade r) CascadePersist \<and>
        q \<in> set (fst (navigationTargets mem p r)) \<and>
        c = (TargetType r, q, Some \<lparr>cl_owner = p, cl_ownerMap = m, cl_relationship = r\<rparr>))"
  by (cases "requireWritableKeyedType db t") (auto simp: persist_items_def split: if_splits)

abbreviation pvisit :: "memory \<Rightarrow> Db \<Rightarrow> nat \<Rightarrow> pnode \<Rightarrow> persistPlan \<Rightarrow> persistPlan outcome" where
  "pvisit mem db f n \<equiv> persist_visit f mem db (fst n) (fst (snd n)) (snd (snd n))"

lemma visited_note [simp]: "pp_visited (persist_note p s via pl) = pp_visited pl"
  by (simp add: persist_note_def split: option.splits)

lemma persist_enter_visited: "persist_enter db t p via pl = (pl', r) \<Longrightarrow> set (pp_visited pl') = insert p (set (pp_visited pl))"
  by (auto simp: persist_enter_def Let_def split: sum.splits if_splits)

lemma persist_enter_ok:
  "snd (persist_enter db t p via pl) = None \<longleftrightarrow> (\<exists>m. requireWritableKeyedType db t = Inr m) \<and> removeOf (schedule db) p = None"
  by (auto simp: persist_enter_def Let_def split: sum.splits)

lemma run_all_flatten:
  "run_all (\<lambda>r u. if \<not> P r then (u, None) else run_all (\<lambda>q. g r q) (ts r) u) rs s =
     run_all (\<lambda>i u. case i of Child c \<Rightarrow> h c u | Refuse e \<Rightarrow> (u, Some e))
       (concat (map (\<lambda>r. if \<not> P r then [] else map (\<lambda>q. Child (k r q)) (ts r)) rs)) s"
  if "\<And>r q u. h (k r q) u = g r q u"
proof -
  have "(\<lambda>r u. if \<not> P r then (u, None) else run_all (\<lambda>q. g r q) (ts r) u) =
      (\<lambda>r. run_all (\<lambda>i u. case i of Child c \<Rightarrow> h c u | Refuse e \<Rightarrow> (u, Some e)) (if \<not> P r then [] else map (\<lambda>q. Child (k r q)) (ts r)))"
    by (intro ext) (simp add: run_all_map that)
  then show ?thesis
    by (simp add: run_all_concat run_all_map)
qed

interpretation pw: cascade_walk "persist_good mem db tyof" "\<lambda>n. fst (snd n)" "\<lambda>pl. set (pp_visited pl)"
    "\<lambda>n pl. persist_note (fst (snd n)) (persist_scheduled db (fst (snd n)) pl) (snd (snd n)) pl"
    "\<lambda>n. persist_enter db (fst n) (fst (snd n)) (snd (snd n))" "persist_items mem db" "pvisit mem db"
    "persist_ok db tyof" "cascade_targets CascadePersist mem db tyof" for mem db tyof
proof (unfold_locales, goal_cases)
  case (2 n f s)
  obtain t p via where n: "n = (t, p, via)"
    by (cases n) auto
  have flat: "run_all (\<lambda>r u. if \<not> Cascade_Has (Cascade r) CascadePersist then (u, None)
        else run_all (\<lambda>q. persist_visit f mem db (TargetType r) q (Some \<lparr>cl_owner = p, cl_ownerMap = m, cl_relationship = r\<rparr>))
          (fst (navigationTargets mem p r)) u) (Relationships m) u =
      run_all (\<lambda>i u. case i of Child c \<Rightarrow> pvisit mem db f c u | Refuse e \<Rightarrow> (u, Some e)) (persist_items mem db n) u"
    if "requireWritableKeyedType db t = Inr m" for m u
    using that by (subst run_all_flatten [where h = "pvisit mem db f"
          and k = "\<lambda>r q. (TargetType r, q, Some \<lparr>cl_owner = p, cl_ownerMap = m, cl_relationship = r\<rparr>)"])
      (simp_all add: n persist_items_def)
  have "requireWritableKeyedType db t = Inl e \<Longrightarrow> snd (persist_enter db t p via s) \<noteq> None" for e
    by (simp add: persist_enter_ok)
  then show ?case
    using flat by (auto simp: n split: prod.splits option.splits sum.splits)
next
  case (4 n s s' r)
  then show ?case
    using persist_enter_visited by auto
next
  case (5 n s s' e)
  then show ?case
    using requireWritable_no_fuel by (auto simp: persist_enter_def Let_def persist_good_def split: sum.splits if_splits)
next
  case (6 n c)
  then obtain m r q where "requireWritableKeyedType db (fst n) = Inr m" "r \<in> set (Relationships m)"
      "q \<in> set (fst (navigationTargets mem (fst (snd n)) r))" "fst c = TargetType r" "fst (snd c) = q"
    by (cases n) (auto simp: persist_items_child)
  then show ?case
    using 6(1) requireWritable_maps unfolding persist_good_def typed_graph_def by metis
next
  case (7 n e)
  then show ?case
    by (auto simp: persist_items_def split: prod.splits sum.splits if_splits)
next
  case (8 n s)
  have "Refuse e \<notin> set (persist_items mem db n)" for e
    by (auto simp: persist_items_def split: prod.splits sum.splits)
  then show ?case
    using 8 by (simp add: persist_ok_def persist_enter_ok persist_good_def)
next
  case (9 n)
  then show ?case
    by (cases n) (force simp: persist_items_child cascade_targets_def persist_good_def)
qed auto

lemma persist_reach_iff: "pw.reach db tyof mem p = {q. persist_reaches mem db tyof p q}"
proof -
  have "(p, q) \<in> (pw.edge db tyof mem)\<^sup>* \<longleftrightarrow> persist_reaches mem db tyof p q" for q
  proof
    show "(p, q) \<in> (pw.edge db tyof mem)\<^sup>* \<Longrightarrow> persist_reaches mem db tyof p q"
      by (induction rule: rtrancl_induct) (auto simp: pw.edge_def intro: persist_reaches.intros)
    show "persist_reaches mem db tyof p q \<Longrightarrow> (p, q) \<in> (pw.edge db tyof mem)\<^sup>*"
      by (induction rule: persist_reaches.induct) (auto simp: pw.edge_def intro: rtrancl_into_rtrancl)
  qed
  then show ?thesis
    by (simp add: pw.reach_def)
qed

section \<open>What a persist plan holds\<close>

definition plan_inv :: "Db \<Rightarrow> persistPlan \<Rightarrow> bool" where
  "plan_inv db pl \<longleftrightarrow>
     distinct (map si_ptr (pp_adds pl)) \<and>
     si_ptr ` set (pp_adds pl) = {q \<in> set (pp_visited pl). insertOf (schedule db) q = None \<and> entryOf db (Some q) = None} \<and>
     (\<forall>q \<in> set (pp_visited pl). removeOf (schedule db) q = None) \<and>
     sorted_wrt (<) (map si_order (pp_adds pl)) \<and>
     (\<forall>s \<in> set (pp_adds pl). uw_counter (schedule db) < si_order s \<and> si_order s \<le> pp_counter pl \<and>
        (si_ptr s \<in> set (pp_directs pl) \<or> si_ptr s \<in> fst ` set (pp_links pl))) \<and>
     uw_counter (schedule db) \<le> pp_counter pl"

lemma plan_inv_note: "plan_inv db pl \<Longrightarrow> plan_inv db (persist_note p s via pl)"
  by (auto simp: plan_inv_def persist_note_def split: option.splits)

lemma plan_inv_enter:
  assumes "plan_inv db pl" "p \<notin> set (pp_visited pl)" "persist_enter db t p via pl = (pl', None)"
  shows "plan_inv db pl'"
proof -
  obtain m where m: "requireWritableKeyedType db t = Inr m" "removeOf (schedule db) p = None"
    using assms(3) persist_enter_ok [of db t p via pl] by auto
  let ?pl1 = "pl\<lparr>pp_visited := p # pp_visited pl\<rparr>"
  show ?thesis
  proof (cases "persist_scheduled db p pl = None \<and> entryOf db (Some p) = None")
    case True
    let ?s = "\<lparr>si_ptr = p, si_m = m, si_direct = False, si_links = [], si_order = pp_counter pl + 1\<rparr>"
    let ?pl2 = "?pl1\<lparr>pp_counter := pp_counter pl + 1, pp_adds := pp_adds pl @ [?s]\<rparr>"
    have pl': "pl' = persist_note p (Some ?s) via ?pl2"
      using assms(3) m True by (simp add: persist_enter_def Let_def)
    have none: "insertOf (schedule db) p = None" "p \<notin> si_ptr ` set (pp_adds pl)"
      using True added_iff [of pl p] by (auto simp: persist_scheduled_def split: option.splits)
    have order: "\<forall>s \<in> set (pp_adds pl). si_order s < Suc (pp_counter pl)" "uw_counter (schedule db) < Suc (pp_counter pl)"
      using assms(1) by (auto simp: plan_inv_def less_Suc_eq_le)
    have new: "pp_visited pl' = p # pp_visited pl" "pp_adds pl' = pp_adds pl @ [?s]" "pp_counter pl' = Suc (pp_counter pl)"
        "set (pp_directs pl) \<subseteq> set (pp_directs pl')" "set (pp_links pl) \<subseteq> set (pp_links pl')"
        "p \<in> set (pp_directs pl') \<or> p \<in> fst ` set (pp_links pl')"
      by (simp_all add: pl' persist_note_def split: option.splits) (cases via, auto)
    have "\<forall>s \<in> set (pp_adds pl'). si_ptr s \<in> set (pp_directs pl') \<or> si_ptr s \<in> fst ` set (pp_links pl')"
    proof
      fix s assume "s \<in> set (pp_adds pl')"
      then have "si_ptr s = p \<or> si_ptr s \<in> set (pp_directs pl) \<or> si_ptr s \<in> fst ` set (pp_links pl)"
        using new(2) assms(1) by (auto simp: plan_inv_def)
      then show "si_ptr s \<in> set (pp_directs pl') \<or> si_ptr s \<in> fst ` set (pp_links pl')"
        using new(4-6) by (meson image_mono subsetD)
    qed
    then show ?thesis
      using assms(1) none True m(2) order new(1-3) by (auto simp: plan_inv_def sorted_wrt_append)
  next
    case False
    then have pl': "pl' = persist_note p (persist_scheduled db p pl) via ?pl1"
      using assms(3) m by (auto simp: persist_enter_def Let_def split: if_splits)
    have "p \<notin> si_ptr ` set (pp_adds pl)"
      using assms(1,2) by (auto simp: plan_inv_def)
    then have "insertOf (schedule db) p \<noteq> None \<or> entryOf db (Some p) \<noteq> None"
      using False added_iff [of pl p] by (auto simp: persist_scheduled_def split: option.splits)
    then have "plan_inv db ?pl1"
      using assms(1) m(2) by (auto simp: plan_inv_def)
    then show ?thesis
      using plan_inv_note pl' by simp
  qed
qed

lemma plan_inv_start: "plan_inv db (persist_plan0 db)"
  by (simp add: plan_inv_def persist_plan0_def)

text \<open>The caller's own instance is noted as direct when it is, or becomes, scheduled.\<close>

lemma persist_enter_direct:
  assumes "persist_enter db t p None (persist_plan0 db) = (pl, None)"
  shows "entryOf db (Some p) = None \<or> insertOf (schedule db) p \<noteq> None \<Longrightarrow> p \<in> set (pp_directs pl)"
  using assms by (auto simp: persist_enter_def Let_def persist_note_def persist_scheduled_def persist_plan0_def added_def
      split: sum.splits if_splits option.splits)

section \<open>Committing a persist plan\<close>

lemma fold_set_direct: "fold set_direct ps ss = map (\<lambda>s. if si_ptr s \<in> set ps then s\<lparr>si_direct := True\<rparr> else s) ss"
  by (induction ps arbitrary: ss) (auto simp: set_direct_def)

definition relinked :: "ptr set \<Rightarrow> (scheduledInsert \<Rightarrow> scheduledInsert) \<Rightarrow> bool" where
  "relinked ps g \<longleftrightarrow> (\<forall>s. si_ptr (g s) = si_ptr s \<and> si_order (g s) = si_order s \<and> si_direct (g s) = si_direct s \<and>
     set (si_links s) \<subseteq> set (si_links (g s)) \<and> (si_ptr s \<in> ps \<longrightarrow> si_links (g s) \<noteq> []))"

lemma add_link_relinked: "\<exists>g. relinked {fst l} g \<and> add_link l = map g"
proof -
  let ?g = "\<lambda>s. if si_ptr s = fst l \<and> \<not> duplicate_link (snd l) s then s\<lparr>si_links := si_links s @ [snd l]\<rparr> else s"
  have "relinked {fst l} ?g"
    by (auto simp: relinked_def duplicate_link_def)
  then show ?thesis
    by (intro exI [of _ ?g]) (simp add: add_link_def)
qed

lemma relinked_comp:
  assumes "relinked ps g" "relinked qs h"
  shows "relinked (ps \<union> qs) (\<lambda>s. h (g s))"
proof -
  have "si_links (h (g s)) \<noteq> []" if "si_ptr s \<in> ps \<union> qs" for s
  proof (cases "si_ptr s \<in> ps")
    case True
    then show ?thesis
      using assms by (metis relinked_def subset_empty set_empty)
  next
    case False
    then show ?thesis
      using assms that by (simp add: relinked_def)
  qed
  then show ?thesis
    using assms by (simp add: relinked_def) blast
qed

lemma fold_add_link: "\<exists>g. relinked (fst ` set ls) g \<and> fold add_link ls ss = map g ss"
proof (induction ls arbitrary: ss)
  case Nil
  show ?case
    by (intro exI [of _ id]) (simp add: relinked_def)
next
  case (Cons l ls)
  obtain g where g: "relinked {fst l} g" "add_link l = map g"
    using add_link_relinked by blast
  obtain h where h: "relinked (fst ` set ls) h" "fold add_link ls (map g ss) = map h (map g ss)"
    using Cons.IH [of "map g ss"] by blast
  show ?case
    using relinked_comp [OF g(1) h(1)] g(2) h(2) by (intro exI [of _ "\<lambda>s. h (g s)"]) (simp add: comp_def)
qed

lemma persist_commit_inserts:
  "\<exists>g. uw_inserts (persist_commit pl u) = map g (uw_inserts u @ pp_adds pl) \<and>
     (\<forall>s. si_ptr (g s) = si_ptr s \<and> si_order (g s) = si_order s \<and>
        (si_direct s \<or> si_ptr s \<in> set (pp_directs pl) \<longrightarrow> si_direct (g s)) \<and>
        (si_links s \<noteq> [] \<or> si_ptr s \<in> fst ` set (pp_links pl) \<longrightarrow> si_links (g s) \<noteq> []))"
proof -
  let ?d = "\<lambda>s. if si_ptr s \<in> set (pp_directs pl) then s\<lparr>si_direct := True\<rparr> else s"
  obtain h where h: "relinked (fst ` set (pp_links pl)) h"
      "fold add_link (pp_links pl) (map ?d (uw_inserts u @ pp_adds pl)) = map h (map ?d (uw_inserts u @ pp_adds pl))"
    using fold_add_link by blast
  have links: "si_links (h s) \<noteq> []" if "si_links s \<noteq> []" for s
    using h(1) that by (metis relinked_def subset_empty set_empty)
  have "uw_inserts (persist_commit pl u) = map (\<lambda>s. h (?d s)) (uw_inserts u @ pp_adds pl)"
    using h(2) by (simp add: persist_commit_def fold_set_direct comp_def)
  moreover have "si_ptr (h (?d s)) = si_ptr s \<and> si_order (h (?d s)) = si_order s \<and>
      (si_direct s \<or> si_ptr s \<in> set (pp_directs pl) \<longrightarrow> si_direct (h (?d s))) \<and>
      (si_links s \<noteq> [] \<or> si_ptr s \<in> fst ` set (pp_links pl) \<longrightarrow> si_links (h (?d s)) \<noteq> [])" for s
    using h(1) [unfolded relinked_def, rule_format, of "?d s"] links [of "?d s"] by (auto split: if_splits)
  ultimately show ?thesis
    by blast
qed

lemma uow_inv_commit:
  assumes u: "uow_inv (schedule db)" and pl: "plan_inv db pl"
  shows "uow_inv (persist_commit pl (schedule db))"
proof -
  let ?u = "schedule db"
  obtain g where g: "uw_inserts (persist_commit pl ?u) = map g (uw_inserts ?u @ pp_adds pl)"
      "\<And>s. si_ptr (g s) = si_ptr s" "\<And>s. si_order (g s) = si_order s"
      "\<And>s. si_direct s \<or> si_ptr s \<in> set (pp_directs pl) \<Longrightarrow> si_direct (g s)"
      "\<And>s. si_links s \<noteq> [] \<or> si_ptr s \<in> fst ` set (pp_links pl) \<Longrightarrow> si_links (g s) \<noteq> []"
    using persist_commit_inserts [of pl ?u] by blast
  have maps: "map si_ptr (uw_inserts (persist_commit pl ?u)) = map si_ptr (uw_inserts ?u) @ map si_ptr (pp_adds pl)"
      "map si_order (uw_inserts (persist_commit pl ?u)) = map si_order (uw_inserts ?u) @ map si_order (pp_adds pl)"
    using g(1-3) by simp_all
  have disj: "q \<notin> si_ptr ` set (uw_inserts ?u) \<and> q \<notin> sr_ptr ` set (uw_removes ?u)" if "q \<in> si_ptr ` set (pp_adds pl)" for q
    using that pl insertOf_iff [of ?u q] removeOf_iff [of ?u q] by (auto simp: plan_inv_def)
  have "distinct (map si_ptr (uw_inserts (persist_commit pl ?u)))"
    unfolding maps distinct_append using u pl disj by (auto simp: uow_inv_def plan_inv_def)
  moreover have "sorted_wrt (<) (map si_order (uw_inserts (persist_commit pl ?u)))"
    unfolding maps sorted_wrt_append using u pl by (force simp: uow_inv_def plan_inv_def)
  moreover have "si_ptr ` set (uw_inserts (persist_commit pl ?u)) \<inter> sr_ptr ` set (uw_removes ?u) = {}"
    using u disj arg_cong [OF maps(1), of set] by (auto simp: uow_inv_def)
  moreover have "\<forall>s \<in> set (uw_inserts (persist_commit pl ?u)). si_order s \<le> pp_counter pl \<and> (si_direct s \<or> si_links s \<noteq> [])"
  proof
    fix s' assume "s' \<in> set (uw_inserts (persist_commit pl ?u))"
    then obtain s where s: "s' = g s" "s \<in> set (uw_inserts ?u) \<or> s \<in> set (pp_adds pl)"
      using g(1) by auto
    then have "si_order s \<le> pp_counter pl \<and> (si_direct s \<or> si_links s \<noteq> [] \<or> si_ptr s \<in> set (pp_directs pl) \<or> si_ptr s \<in> fst ` set (pp_links pl))"
      using u pl by (force simp: uow_inv_def plan_inv_def)
    then show "si_order s' \<le> pp_counter pl \<and> (si_direct s' \<or> si_links s' \<noteq> [])"
      using s(1) g(3) [of s] g(4) [of s] g(5) [of s] by auto
  qed
  ultimately show ?thesis
    using u pl by (force simp: uow_inv_def plan_inv_def persist_commit_def)
qed

section \<open>Persist\<close>

text \<open>The persist walk from one instance: it ends within the depth bound.\<close>

lemma persist_walk:
  assumes "typed_graph mem db tyof" "wf_memory mem" "p < hsize mem"
    and "persist_visit (Suc (hsize mem)) mem db (tyof p) p None (persist_plan0 db) = (pl, r)"
  shows "r = None \<Longrightarrow> set (pp_visited pl) = {q. persist_reaches mem db tyof p q} \<and>
      (\<forall>q. persist_reaches mem db tyof p q \<longrightarrow> persist_ok db tyof q)"
    and "r = Some e \<Longrightarrow> e \<noteq> OutOfFuel \<and> (\<exists>q. persist_reaches mem db tyof p q \<and> \<not> persist_ok db tyof q)"
proof -
  let ?n = "(tyof p, p, None :: cascadeLink option)"
  have good: "persist_good mem db tyof ?n"
    using assms(1) by (simp add: persist_good_def)
  have run: "pvisit mem db (Suc (hsize mem)) ?n (persist_plan0 db) = (pl, r)"
    using assms(4) by simp
  have seen: "set (pp_visited (persist_plan0 db)) = {}"
    by (simp add: persist_plan0_def)
  have fuel: "r \<noteq> Some OutOfFuel"
  proof (rule pw.walk_depth [where U = "{..< hsize mem}", OF _ _ good _ _ run])
    fix n c
    assume "fst (snd n) \<in> {..< hsize mem}" "Child c \<in> set (persist_items mem db n)"
    then show "fst (snd c) \<in> {..< hsize mem}"
      using assms(2) by (cases n) (auto simp: persist_items_child wf_memory_def)
  qed (use assms(3) seen in auto)
  show "set (pp_visited pl) = {q. persist_reaches mem db tyof p q} \<and>
      (\<forall>q. persist_reaches mem db tyof p q \<longrightarrow> persist_ok db tyof q)" if "r = None"
  proof -
    have v: "pvisit mem db (Suc (hsize mem)) ?n (persist_plan0 db) = (pl, None)"
      using run that by simp
    have "set (pp_visited pl) = {q. persist_reaches mem db tyof p q}"
      using pw.walk_reach(1) [OF good v seen] by (simp add: persist_reach_iff)
    moreover have "persist_ok db tyof q" if "persist_reaches mem db tyof p q" for q
      using pw.walk_reach(2) [OF good v seen, of q] that by (simp add: persist_reach_iff)
    ultimately show ?thesis
      by blast
  qed
  show "e \<noteq> OutOfFuel \<and> (\<exists>q. persist_reaches mem db tyof p q \<and> \<not> persist_ok db tyof q)" if "r = Some e"
    using pw.walk_refused [OF good, of "Suc (hsize mem)" "persist_plan0 db" pl e] run fuel that by (auto simp: persist_reach_iff)
qed

lemma schedule_set [simp]: "schedule (db\<lparr>db_uow := Some u\<rparr>) = u"
  by (simp add: schedule_def)

lemma Persist_cases:
  assumes "db_tracker db = Some tr" "Persist mem db t (Some p) = (db', r)"
  obtains pl where "persist_visit (Suc (hsize mem)) mem db t p None (persist_plan0 db) = (pl, r)"
    "r = None \<Longrightarrow> schedule db' = persist_commit pl (schedule db)"
    "r \<noteq> None \<Longrightarrow> schedule db' = (schedule db)\<lparr>uw_counter := pp_counter pl\<rparr>"
  using assms by (auto simp: Persist_def requireUnitOfWork_def split: prod.splits option.splits)

lemma Persist_outcome:
  assumes "typed_graph mem db tyof" "wf_memory mem" "p < hsize mem" "db_tracker db = Some tr"
    and "Persist mem db (tyof p) (Some p) = (db', r)"
  shows "(r = None \<longleftrightarrow> (\<forall>q. persist_reaches mem db tyof p q \<longrightarrow> persist_ok db tyof q)) \<and> r \<noteq> Some OutOfFuel \<and>
    (r \<noteq> None \<longrightarrow> uw_inserts (schedule db') = uw_inserts (schedule db) \<and> uw_removes (schedule db') = uw_removes (schedule db))"
proof -
  obtain pl where pl: "persist_visit (Suc (hsize mem)) mem db (tyof p) p None (persist_plan0 db) = (pl, r)"
      "r \<noteq> None \<Longrightarrow> schedule db' = (schedule db)\<lparr>uw_counter := pp_counter pl\<rparr>"
    using Persist_cases [OF assms(4,5)] by metis
  show ?thesis
    using persist_walk [OF assms(1-3) pl(1)] pl(2) by (cases r) auto
qed

definition sample_graph_db :: Db where
  "sample_graph_db = sample_db\<lparr>db_maps := sample_graph_maps\<rparr>"

lemma sample_graph_db: "db_maps sample_graph_db = sample_graph_maps" "db_tracker sample_graph_db = Some newTracker"
    "schedule sample_graph_db = newUnitOfWork"
  by (simp_all add: sample_graph_db_def sample_db_def schedule_def)

lemma sample_persist_ok: "persist_ok sample_graph_db sample_tyof q"
  using sample_writable [OF sample_graph_db(1)] by (simp add: persist_ok_def sample_graph_db(3) removeOf_def newUnitOfWork_def)

lemma sample_persist_reaches: "{q. persist_reaches sample_graph sample_graph_db sample_tyof 6 q} = {6, 7, 8}"
proof -
  have "q \<in> {6, 7, 8}" if "persist_reaches sample_graph sample_graph_db sample_tyof 6 q" for q
    using that by induction (auto simp: sample_cascade [OF sample_graph_db(1)] split: if_splits)
  moreover have "persist_reaches sample_graph sample_graph_db sample_tyof 6 q" if "q \<in> {7, 8}" for q
    using that by (intro persist_reaches.cascade [OF persist_reaches.start sample_persist_ok])
      (simp add: sample_cascade [OF sample_graph_db(1)])
  ultimately show ?thesis
    using persist_reaches.start by blast
qed

text \<open>
  C4: a refused \<open>Persist\<close>. In a tracked session over a well-formed object graph, \<open>Persist\<close> always ends;
  it is refused exactly when an instance its cascade reaches is read-only, keyless, of a type whose
  map does not load, or scheduled for removal; and a refusal anywhere in the cascade schedules
  nothing.
\<close>

theorem Persist_refused:
  assumes "typed_graph mem db tyof" "wf_memory mem" "p < hsize mem" "db_tracker db = Some tr"
    and "Persist mem db (tyof p) (Some p) = (db', r)"
  shows "(r = None \<longleftrightarrow> (\<forall>q. persist_reaches mem db tyof p q \<longrightarrow> persist_ok db tyof q)) \<and> r \<noteq> Some OutOfFuel \<and>
    (r \<noteq> None \<longrightarrow> uw_inserts (schedule db') = uw_inserts (schedule db) \<and> uw_removes (schedule db') = uw_removes (schedule db))"
  using Persist_outcome [OF assms] .

theorem Persist_refused_witness:
  "snd (Persist sample_graph sample_graph_db ''Order'' (Some 6)) = None"
proof -
  obtain db' r where run: "Persist sample_graph sample_graph_db (sample_tyof 6) (Some 6) = (db', r)"
    by fastforce
  then show ?thesis
    using Persist_refused [OF sample_typed [OF sample_graph_db(1)] sample_wf _ sample_graph_db(2) run] sample_persist_ok
    by (simp add: sample_hsize sample_tyof_simps)
qed

text \<open>
  C3: a successful \<open>Persist\<close>. It appends to the scheduled inserts, in schedule order, exactly the
  instances the cascade reaches that are neither tracked nor scheduled already, each once; it
  changes no scheduled removal, marks the caller's own instance as persisted directly, and keeps
  the schedule's invariant: no instance is scheduled twice or for both an insert and a removal,
  positions increase, and every scheduled insert is direct or linked to an owner.
\<close>

theorem Persist_schedules:
  assumes "typed_graph mem db tyof" "wf_memory mem" "p < hsize mem" "db_tracker db = Some tr" "uow_inv (schedule db)"
    and "Persist mem db (tyof p) (Some p) = (db', None)"
  shows "uow_inv (schedule db') \<and> uw_removes (schedule db') = uw_removes (schedule db) \<and>
    (\<exists>new. map si_ptr (uw_inserts (schedule db')) = map si_ptr (uw_inserts (schedule db)) @ new \<and> distinct new \<and>
       set new = {q. persist_reaches mem db tyof p q \<and> insertOf (schedule db) q = None \<and> byPtr tr q = None}) \<and>
    (\<forall>s \<in> set (uw_inserts (schedule db')). si_ptr s = p \<longrightarrow> si_direct s)"
proof -
  obtain pl where pl: "persist_visit (Suc (hsize mem)) mem db (tyof p) p None (persist_plan0 db) = (pl, None)"
      "schedule db' = persist_commit pl (schedule db)"
    using Persist_cases [OF assms(4,6)] by metis
  let ?n = "(tyof p, p, None :: cascadeLink option)"
  have good: "persist_good mem db tyof ?n"
    using assms(1) by (simp add: persist_good_def)
  have run: "pvisit mem db (Suc (hsize mem)) ?n (persist_plan0 db) = (pl, None)"
    using pl(1) by simp
  have inv: "plan_inv db pl"
    by (rule pw.visit_invariant [where P = "plan_inv db", OF _ _ good plan_inv_start run])
       (auto intro: plan_inv_note plan_inv_enter)
  have visited: "set (pp_visited pl) = {q. persist_reaches mem db tyof p q}"
    using persist_walk(1) [OF assms(1-3) pl(1)] by simp
  have direct: "p \<in> set (pp_directs pl)" if "byPtr tr p = None \<or> insertOf (schedule db) p \<noteq> None"
  proof (rule pw.visit_established [where P = "\<lambda>u. p \<in> set (pp_directs u)", OF good run])
    show "fst (snd ?n) \<notin> set (pp_visited (persist_plan0 db))"
      by (simp add: persist_plan0_def)
    show "p \<in> set (pp_directs s1)" if "persist_enter db (fst ?n) (fst (snd ?n)) (snd (snd ?n)) (persist_plan0 db) = (s1, None)" for s1
      using persist_enter_direct [of db "tyof p" p s1] that \<open>byPtr tr p = None \<or> _\<close> assms(4) by simp
    show "p \<in> set (pp_directs (persist_note a b c u))" if "p \<in> set (pp_directs u)" for a b c u
      using that by (simp add: persist_note_def split: option.splits)
    show "p \<in> set (pp_directs u')" if "p \<in> set (pp_directs u)" "persist_enter db (fst n) (fst (snd n)) (snd (snd n)) u = (u', None)" for n u u'
      using that by (auto simp: persist_enter_def Let_def persist_note_def split: sum.splits if_splits option.splits)
  qed
  obtain g where g: "uw_inserts (persist_commit pl (schedule db)) = map g (uw_inserts (schedule db) @ pp_adds pl)"
      "\<And>s. si_ptr (g s) = si_ptr s" "\<And>s. si_ptr s \<in> set (pp_directs pl) \<Longrightarrow> si_direct (g s)"
    using persist_commit_inserts [of pl "schedule db"] by blast
  have "si_direct s" if s: "s \<in> set (uw_inserts (schedule db'))" "si_ptr s = p" for s
  proof -
    have "s \<in> g ` (set (uw_inserts (schedule db)) \<union> set (pp_adds pl))"
      using s(1) unfolding pl(2) g(1) by (simp add: image_Un)
    then obtain s0 where s0: "s = g s0" "s0 \<in> set (uw_inserts (schedule db)) \<union> set (pp_adds pl)"
      by (rule imageE)
    then have ptr: "si_ptr s0 = p"
      using s(2) g(2) [of s0] by simp
    then have "p \<in> si_ptr ` set (uw_inserts (schedule db)) \<or> p \<in> si_ptr ` set (pp_adds pl)"
      using s0(2) by blast
    then have "insertOf (schedule db) p \<noteq> None \<or> byPtr tr p = None"
      using insertOf_iff [of "schedule db" p] inv assms(4) by (auto simp: plan_inv_def)
    then show ?thesis
      using direct g(3) [of s0] s0(1) ptr by auto
  qed
  moreover have "map si_ptr (uw_inserts (schedule db')) = map si_ptr (uw_inserts (schedule db)) @ map si_ptr (pp_adds pl)"
    using pl(2) g(1,2) by simp
  moreover have "distinct (map si_ptr (pp_adds pl))"
      "set (map si_ptr (pp_adds pl)) = {q. persist_reaches mem db tyof p q \<and> insertOf (schedule db) q = None \<and> byPtr tr q = None}"
    using inv visited assms(4) by (auto simp: plan_inv_def)
  moreover have "uow_inv (schedule db')" "uw_removes (schedule db') = uw_removes (schedule db)"
    using uow_inv_commit [OF assms(5) inv] pl(2) by (simp_all add: persist_commit_def)
  ultimately show ?thesis
    by blast
qed

theorem Persist_schedules_witness:
  "\<exists>db'. Persist sample_graph sample_graph_db ''Order'' (Some 6) = (db', None) \<and>
     si_ptr ` set (uw_inserts (schedule db')) = {6, 7, 8}"
proof -
  obtain db' r where run: "Persist sample_graph sample_graph_db (sample_tyof 6) (Some 6) = (db', r)"
    by fastforce
  have "r = None"
    using Persist_outcome [OF sample_typed [OF sample_graph_db(1)] sample_wf _ sample_graph_db(2) run] sample_persist_ok
    by (simp add: sample_hsize)
  then obtain new where "map si_ptr (uw_inserts (schedule db')) = new"
      "set new = {q. persist_reaches sample_graph sample_graph_db sample_tyof 6 q}"
    using Persist_schedules [OF sample_typed [OF sample_graph_db(1)] sample_wf _ sample_graph_db(2), of 6 db'] run
    using \<open>r = None\<close> by (auto simp: sample_hsize sample_graph_db(3) uow_inv_new sample_fresh)
  then have "si_ptr ` set (uw_inserts (schedule db')) = {6, 7, 8}"
    by (metis list.set_map sample_persist_reaches)
  then show ?thesis
    using run \<open>r = None\<close> by (simp add: sample_tyof_simps)
qed

section \<open>The remove walk\<close>

definition remove_ok :: "memory \<Rightarrow> Db \<Rightarrow> (ptr \<Rightarrow> gotype) \<Rightarrow> ptr \<Rightarrow> bool" where
  "remove_ok mem db tyof p \<longleftrightarrow>
     (remove_walks db p \<longrightarrow>
        (\<exists>m. requireWritableKeyedType db (tyof p) = Inr m \<and> entryOf db (Some p) \<noteq> None \<and>
           (\<forall>r \<in> set (Relationships m). Cascade_Has (Cascade r) CascadeRemove \<longrightarrow> RelKind r = RelationshipOneToMany \<longrightarrow>
              snd (navigationTargets mem p r))))"

definition remove_targets :: "memory \<Rightarrow> Db \<Rightarrow> (ptr \<Rightarrow> gotype) \<Rightarrow> ptr \<Rightarrow> ptr set" where
  "remove_targets mem db tyof p = (if remove_walks db p then cascade_targets CascadeRemove mem db tyof p else {})"

text \<open>The instances a remove cascade reaches: it does not go past an instance that is scheduled already.\<close>

inductive remove_reaches :: "memory \<Rightarrow> Db \<Rightarrow> (ptr \<Rightarrow> gotype) \<Rightarrow> ptr \<Rightarrow> ptr \<Rightarrow> bool" for mem db tyof p where
  start: "remove_reaches mem db tyof p p"
| cascade: "remove_reaches mem db tyof p q \<Longrightarrow> remove_ok mem db tyof q \<Longrightarrow> r \<in> remove_targets mem db tyof q \<Longrightarrow>
    remove_reaches mem db tyof p r"

type_synonym rnode = "gotype \<times> ptr"

definition remove_good :: "memory \<Rightarrow> Db \<Rightarrow> (ptr \<Rightarrow> gotype) \<Rightarrow> rnode \<Rightarrow> bool" where
  "remove_good mem db tyof n \<longleftrightarrow> typed_graph mem db tyof \<and> fst n = tyof (snd n)"

definition remove_items_of :: "memory \<Rightarrow> EntityMap \<Rightarrow> ptr \<Rightarrow> RelationshipMap \<Rightarrow> rnode item list" where
  "remove_items_of mem m p r =
     (if \<not> Cascade_Has (Cascade r) CascadeRemove then []
      else if \<not> snd (navigationTargets mem p r) \<and> RelKind r = RelationshipOneToMany
      then [Refuse (OrmError ''UOW-005'' (EntityName m @ ''.'' @ RelName r))]
      else map (\<lambda>q. Child (TargetType r, q)) (fst (navigationTargets mem p r)))"

definition remove_items :: "memory \<Rightarrow> Db \<Rightarrow> rnode \<Rightarrow> rnode item list" where
  "remove_items mem db n =
     (if \<not> remove_walks db (snd n) then []
      else case requireWritableKeyedType db (fst n) of
             Inl e \<Rightarrow> []
           | Inr m \<Rightarrow> concat (map (remove_items_of mem m (snd n)) (Relationships m)))"

lemma remove_items_child:
  "Child c \<in> set (remove_items mem db (t, p)) \<longleftrightarrow>
     remove_walks db p \<and> (\<exists>m r q. requireWritableKeyedType db t = Inr m \<and> r \<in> set (Relationships m) \<and>
        Cascade_Has (Cascade r) CascadeRemove \<and> q \<in> set (fst (navigationTargets mem p r)) \<and> c = (TargetType r, q))"
  by (cases "requireWritableKeyedType db t")
     (auto simp: remove_items_def remove_items_of_def navigationTargets_uninitialized split: if_splits)

lemma remove_items_refuse:
  "(\<exists>e. Refuse e \<in> set (remove_items mem db (t, p))) \<longleftrightarrow>
     remove_walks db p \<and> (\<exists>m. requireWritableKeyedType db t = Inr m \<and> (\<exists>r \<in> set (Relationships m).
        Cascade_Has (Cascade r) CascadeRemove \<and> RelKind r = RelationshipOneToMany \<and> \<not> snd (navigationTargets mem p r)))"
  by (cases "requireWritableKeyedType db t") (auto simp: remove_items_def remove_items_of_def split: if_splits)

abbreviation rvisit :: "memory \<Rightarrow> Db \<Rightarrow> nat \<Rightarrow> rnode \<Rightarrow> removePlan \<Rightarrow> removePlan outcome" where
  "rvisit mem db f n \<equiv> remove_visit f mem db (fst n) (snd n)"

lemma remove_enter_visited: "remove_enter db t p pl = (pl', r) \<Longrightarrow> set (rp_visited pl') = insert p (set (rp_visited pl))"
  by (auto simp: remove_enter_def Let_def split: sum.splits if_splits)

lemma remove_enter_ok:
  "snd (remove_enter db t p pl) = None \<longleftrightarrow>
     (remove_walks db p \<longrightarrow> (\<exists>m. requireWritableKeyedType db t = Inr m) \<and> entryOf db (Some p) \<noteq> None)"
  by (auto simp: remove_enter_def remove_walks_def Let_def split: sum.splits)

lemma remove_loop:
  "run_all (\<lambda>r u.
       if \<not> Cascade_Has (Cascade r) CascadeRemove then (u, None)
       else if \<not> snd (navigationTargets mem p r) \<and> RelKind r = RelationshipOneToMany
       then (u, Some (OrmError ''UOW-005'' (EntityName m @ ''.'' @ RelName r)))
       else run_all (\<lambda>q. remove_visit f mem db (TargetType r) q) (fst (navigationTargets mem p r)) u) rs s =
   run_all (\<lambda>i u. case i of Child c \<Rightarrow> rvisit mem db f c u | Refuse e \<Rightarrow> (u, Some e)) (concat (map (remove_items_of mem m p) rs)) s"
proof -
  have "(\<lambda>r u.
       if \<not> Cascade_Has (Cascade r) CascadeRemove then (u, None)
       else if \<not> snd (navigationTargets mem p r) \<and> RelKind r = RelationshipOneToMany
       then (u, Some (OrmError ''UOW-005'' (EntityName m @ ''.'' @ RelName r)))
       else run_all (\<lambda>q. remove_visit f mem db (TargetType r) q) (fst (navigationTargets mem p r)) u) =
     (\<lambda>r. run_all (\<lambda>i u. case i of Child c \<Rightarrow> rvisit mem db f c u | Refuse e \<Rightarrow> (u, Some e)) (remove_items_of mem m p r))"
    by (intro ext) (simp add: remove_items_of_def run_all_map)
  then show ?thesis
    by (simp add: run_all_concat run_all_map)
qed

interpretation rw: cascade_walk "remove_good mem db tyof" snd "\<lambda>pl. set (rp_visited pl)" "\<lambda>n pl. pl"
    "\<lambda>n. remove_enter db (fst n) (snd n)" "remove_items mem db" "rvisit mem db"
    "remove_ok mem db tyof" "remove_targets mem db tyof" for mem db tyof
proof (unfold_locales, goal_cases)
  case (2 n f s)
  have "requireWritableKeyedType db (fst n) = Inl e \<Longrightarrow> remove_walks db (snd n) \<Longrightarrow> snd (remove_enter db (fst n) (snd n) s) \<noteq> None" for e
    by (simp add: remove_enter_ok)
  then show ?case
    by (auto simp: remove_items_def remove_loop split: prod.splits option.splits sum.splits)
next
  case (4 n s s' r)
  then show ?case
    using remove_enter_visited by auto
next
  case (5 n s s' e)
  then show ?case
    using requireWritable_no_fuel by (auto simp: remove_enter_def Let_def remove_good_def split: sum.splits if_splits)
next
  case (6 n c)
  then obtain m r where "requireWritableKeyedType db (fst n) = Inr m" "r \<in> set (Relationships m)"
      "snd c \<in> set (fst (navigationTargets mem (snd n) r))" "fst c = TargetType r"
    by (cases n) (auto simp: remove_items_child)
  then show ?case
    using 6(1) requireWritable_maps unfolding remove_good_def typed_graph_def by metis
next
  case (7 n e)
  then show ?case
    by (auto simp: remove_items_def remove_items_of_def split: sum.splits if_splits)
next
  case (8 n s)
  obtain t p where n: "n = (t, p)"
    by (cases n)
  then have "t = tyof p"
    using 8(1) by (simp add: remove_good_def)
  then show ?case
    using remove_items_refuse [of mem db t p] remove_enter_ok [of db t p s] unfolding n remove_ok_def by auto
next
  case (9 n)
  then show ?case
    by (cases n) (force simp: remove_items_child remove_targets_def cascade_targets_def remove_good_def)
qed auto

lemma remove_reach_iff: "rw.reach mem db tyof p = {q. remove_reaches mem db tyof p q}"
proof -
  have "(p, q) \<in> (rw.edge mem db tyof)\<^sup>* \<longleftrightarrow> remove_reaches mem db tyof p q" for q
  proof
    show "(p, q) \<in> (rw.edge mem db tyof)\<^sup>* \<Longrightarrow> remove_reaches mem db tyof p q"
      by (induction rule: rtrancl_induct) (auto simp: rw.edge_def intro: remove_reaches.intros)
    show "remove_reaches mem db tyof p q \<Longrightarrow> (p, q) \<in> (rw.edge mem db tyof)\<^sup>*"
      by (induction rule: remove_reaches.induct) (auto simp: rw.edge_def intro: rtrancl_into_rtrancl)
  qed
  then show ?thesis
    by (simp add: rw.reach_def)
qed

text \<open>
  The instances a refused cascade may have met: it goes on from every instance that is not scheduled. And why it is
  refused at one of them, in the order of the checks.
\<close>

inductive remove_meets :: "memory \<Rightarrow> Db \<Rightarrow> (ptr \<Rightarrow> gotype) \<Rightarrow> ptr \<Rightarrow> ptr \<Rightarrow> bool" for mem db tyof p where
  start: "remove_meets mem db tyof p p"
| cascade: "remove_meets mem db tyof p q \<Longrightarrow> r \<in> remove_targets mem db tyof q \<Longrightarrow> remove_meets mem db tyof p r"

definition unloaded_collection :: "memory \<Rightarrow> ptr \<Rightarrow> RelationshipMap \<Rightarrow> bool" where
  "unloaded_collection mem p r \<longleftrightarrow>
     Cascade_Has (Cascade r) CascadeRemove \<and> RelKind r = RelationshipOneToMany \<and> \<not> snd (navigationTargets mem p r)"

definition remove_refusal :: "memory \<Rightarrow> Db \<Rightarrow> gotype \<Rightarrow> ptr \<Rightarrow> go_error \<Rightarrow> bool" where
  "remove_refusal mem db t p e \<longleftrightarrow>
     insertOf (schedule db) p = None \<and> removeOf (schedule db) p = None \<and>
     (case db_maps db t of
        Inl e' \<Rightarrow> e = e'
      | Inr m \<Rightarrow>
          if Kind m \<noteq> RelationTable then e = OrmError ''CRUD-003'' t
          else if KeyProperties m = [] then e = OrmError ''CRUD-002'' t
          else if entryOf db (Some p) = None then e = OrmError ''UOW-001'' (EntityName m)
          else \<exists>r \<in> set (Relationships m). unloaded_collection mem p r \<and> e = OrmError ''UOW-005'' (EntityName m @ ''.'' @ RelName r))"

lemma remove_enter_refusal: "snd (remove_enter db t p pl) = Some e \<Longrightarrow> remove_refusal mem db t p e"
  by (auto simp: remove_enter_def remove_refusal_def Let_def requireWritableKeyedType_def bindR_Inl_iff bindR_Inr_iff split: sum.splits if_splits)

lemma remove_items_refusal:
  "snd (remove_enter db t p pl) = None \<Longrightarrow> Refuse e \<in> set (remove_items mem db (t, p)) \<Longrightarrow> remove_refusal mem db t p e"
  by (auto simp: remove_enter_ok remove_refusal_def remove_items_def remove_items_of_def remove_walks_def unloaded_collection_def
      requireWritableKeyedType_def bindR_Inl_iff bindR_Inr_iff split: sum.splits if_splits)

lemma remove_error:
  assumes "typed_graph mem db tyof" and "remove_visit f mem db (tyof p) p pl = (pl', Some e)" and "e \<noteq> OutOfFuel"
  shows "\<exists>q. remove_meets mem db tyof p q \<and> remove_refusal mem db (tyof q) q e"
proof -
  have good: "remove_good mem db tyof (tyof p, p)"
    using assms(1) by (simp add: remove_good_def)
  have run: "rvisit mem db f (tyof p, p) pl = (pl', Some e)"
    using assms(2) by simp
  obtain m u where m: "remove_good mem db tyof m" "(p, snd m) \<in> (rw.linked mem db tyof)\<^sup>*"
    and e: "snd (remove_enter db (fst m) (snd m) u) = Some e \<or>
      snd (remove_enter db (fst m) (snd m) u) = None \<and> Refuse e \<in> set (remove_items mem db m)"
    using rw.walk_error [OF good run assms(3)] unfolding snd_conv by blast
  have "remove_meets mem db tyof p q" if "(p, q) \<in> (rw.linked mem db tyof)\<^sup>*" for q
    using that
  proof (induction rule: rtrancl_induct)
    case (step q r)
    obtain n c where n: "remove_good mem db tyof n" "Child c \<in> set (remove_items mem db n)" "q = snd n" "r = snd c"
      using step.hyps(2) unfolding rw.linked_def by blast
    then have "r \<in> remove_targets mem db tyof q"
      by (cases n) (auto simp: remove_items_child remove_targets_def cascade_targets_def remove_good_def)
    then show ?case
      using step.IH by (rule remove_meets.cascade [rotated])
  qed (rule remove_meets.start)
  moreover have "remove_refusal mem db (fst m) (snd m) e"
    using e remove_enter_refusal remove_items_refusal [of db "fst m" "snd m" u e mem] by auto
  ultimately show ?thesis
    using m unfolding remove_good_def by auto
qed

section \<open>What a remove plan holds\<close>

definition rplan_inv :: "Db \<Rightarrow> removePlan \<Rightarrow> bool" where
  "rplan_inv db pl \<longleftrightarrow>
     distinct (map sr_ptr (rp_adds pl)) \<and>
     sr_ptr ` set (rp_adds pl) = {q \<in> set (rp_visited pl). remove_walks db q} \<and>
     set (rp_cancels pl) = {q \<in> set (rp_visited pl). insertOf (schedule db) q \<noteq> None} \<and>
     sorted_wrt (<) (map sr_order (rp_adds pl)) \<and>
     (\<forall>s \<in> set (rp_adds pl). uw_counter (schedule db) < sr_order s \<and> sr_order s \<le> rp_counter pl) \<and>
     uw_counter (schedule db) \<le> rp_counter pl"

lemma rplan_inv_start: "rplan_inv db (remove_plan0 db)"
  by (simp add: rplan_inv_def remove_plan0_def)

lemma rplan_inv_enter:
  assumes "rplan_inv db pl" "p \<notin> set (rp_visited pl)" "remove_enter db t p pl = (pl', None)"
  shows "rplan_inv db pl'"
proof (cases "remove_walks db p")
  case True
  then obtain m where m: "requireWritableKeyedType db t = Inr m" "entryOf db (Some p) \<noteq> None"
    using assms(3) remove_enter_ok [of db t p pl] by auto
  let ?s = "\<lparr>sr_ptr = p, sr_m = m, sr_order = Suc (rp_counter pl)\<rparr>"
  have pl': "pl' = pl\<lparr>rp_visited := p # rp_visited pl, rp_counter := Suc (rp_counter pl), rp_adds := rp_adds pl @ [?s]\<rparr>"
    using assms(3) m True by (auto simp: remove_enter_def remove_walks_def Let_def)
  have "p \<notin> sr_ptr ` set (rp_adds pl)"
    using assms(1,2) by (auto simp: rplan_inv_def)
  moreover have "\<forall>s \<in> set (rp_adds pl). sr_order s < Suc (rp_counter pl)" "uw_counter (schedule db) < Suc (rp_counter pl)"
    using assms(1) by (auto simp: rplan_inv_def less_Suc_eq_le)
  ultimately show ?thesis
    using assms(1) True by (auto simp: rplan_inv_def pl' sorted_wrt_append remove_walks_def)
next
  case False
  show ?thesis
  proof (cases "insertOf (schedule db) p")
    case None
    then have "pl' = pl\<lparr>rp_visited := p # rp_visited pl\<rparr>"
      using assms(3) False by (auto simp: remove_enter_def remove_walks_def Let_def)
    then show ?thesis
      using assms(1) False None by (auto simp: rplan_inv_def)
  next
    case (Some s)
    then have "pl' = pl\<lparr>rp_visited := p # rp_visited pl, rp_cancels := rp_cancels pl @ [p]\<rparr>"
      using assms(3) by (auto simp: remove_enter_def Let_def)
    then show ?thesis
      using assms(1) False Some by (auto simp: rplan_inv_def)
  qed
qed

lemma cancelled_by_cong:
  assumes "uw_inserts u = uw_inserts v"
  shows "cancelled_by i u p = cancelled_by i v p"
proof -
  have "cancelled_by i u p \<Longrightarrow> uw_inserts u = uw_inserts v \<Longrightarrow> cancelled_by i v p" for u v
    by (induction rule: cancelled_by.induct) (auto intro: cancelled_by.intros)
  then show ?thesis
    using assms by metis
qed

text \<open>Cancelling keeps the schedule's invariant: an insert that stays is direct or keeps a link.\<close>

lemma uow_inv_cancel:
  assumes u: "uow_inv u" and i: "set initial \<subseteq> si_ptr ` set (uw_inserts u)"
  shows "uow_inv (cancel initial u)"
proof -
  let ?c = "cancelled_by (set initial) u"
  let ?g = "\<lambda>s. s\<lparr>si_links := filter (\<lambda>l. \<not> ?c (cl_owner l)) (si_links s)\<rparr>"
  let ?left = "filter (\<lambda>s. \<not> ?c (si_ptr s)) (uw_inserts u)"
  have eq: "cancel initial u = u\<lparr>uw_inserts := map ?g ?left\<rparr>"
    using cancel_fixpoint [OF i] .
  have maps: "map si_ptr (map ?g ?left) = filter (\<lambda>p. \<not> ?c p) (map si_ptr (uw_inserts u))"
      "map si_order (map ?g ?left) = map si_order ?left"
    by (simp_all add: filter_map comp_def)
  have "sorted_wrt (<) (map si_order ?left)"
    using u by (simp add: uow_inv_def sorted_wrt_map sorted_wrt_filter)
  moreover have "si_direct s \<or> si_links (?g s) \<noteq> []" if "s \<in> set ?left" for s
  proof (rule ccontr)
    assume no: "\<not> (si_direct s \<or> si_links (?g s) \<noteq> [])"
    have "s \<in> set (uw_inserts u)" "\<not> ?c (si_ptr s)"
      using that by auto
    moreover have "si_links s \<noteq> []"
      using u no that by (auto simp: uow_inv_def)
    moreover have "?c (cl_owner l)" if "l \<in> set (si_links s)" for l
      using no that by (auto simp: filter_empty_conv)
    ultimately show False
      using cancelled_by.orphaned [of s u "set initial"] no by blast
  qed
  ultimately show ?thesis
    using u unfolding eq uow_inv_def by (auto simp: maps(1) simp del: map_map) (auto simp: comp_def)
qed

lemma uow_inv_removes:
  assumes u: "uow_inv u" and d: "distinct (map sr_ptr adds)" "sorted_wrt (<) (map sr_order adds)"
    and disj: "\<And>q. q \<in> sr_ptr ` set adds \<Longrightarrow> q \<notin> si_ptr ` set (uw_inserts u) \<and> q \<notin> sr_ptr ` set (uw_removes u)"
    and order: "\<And>s. s \<in> set adds \<Longrightarrow> uw_counter u < sr_order s \<and> sr_order s \<le> c" "uw_counter u \<le> c"
  shows "uow_inv (u\<lparr>uw_removes := uw_removes u @ adds, uw_counter := c\<rparr>)"
proof -
  have old: "si_order s \<le> c" if "s \<in> set (uw_inserts u)" for s
    using u order(2) that by (fastforce simp: uow_inv_def)
  have old': "sr_order s \<le> uw_counter u" if "s \<in> set (uw_removes u)" for s
    using u that by (simp add: uow_inv_def)
  have "sorted_wrt (<) (map sr_order (uw_removes u) @ map sr_order adds)"
    unfolding sorted_wrt_append using u d(2) order(1) old' by (fastforce simp: uow_inv_def)
  moreover have "distinct (map sr_ptr (uw_removes u) @ map sr_ptr adds)"
    unfolding distinct_append using u d(1) disj by (fastforce simp: uow_inv_def)
  moreover have "si_ptr ` set (uw_inserts u) \<inter> (sr_ptr ` set (uw_removes u) \<union> sr_ptr ` set adds) = {}"
    using u disj by (auto simp: uow_inv_def)
  moreover have "\<forall>s \<in> set (uw_removes u) \<union> set adds. sr_order s \<le> c"
    using old' order by (auto intro: order_trans)
  ultimately show ?thesis
    using u old by (simp add: uow_inv_def image_Un)
qed

section \<open>Remove\<close>

lemma remove_walk:
  assumes "typed_graph mem db tyof" "wf_memory mem" "p < hsize mem"
    and "remove_visit (Suc (hsize mem)) mem db (tyof p) p (remove_plan0 db) = (pl, r)"
  shows "r = None \<Longrightarrow> set (rp_visited pl) = {q. remove_reaches mem db tyof p q} \<and>
      (\<forall>q. remove_reaches mem db tyof p q \<longrightarrow> remove_ok mem db tyof q) \<and> rplan_inv db pl"
    and "r = Some e \<Longrightarrow> e \<noteq> OutOfFuel \<and> (\<exists>q. remove_reaches mem db tyof p q \<and> \<not> remove_ok mem db tyof q)"
proof -
  let ?n = "(tyof p, p)"
  have good: "remove_good mem db tyof ?n"
    using assms(1) by (simp add: remove_good_def)
  have run: "rvisit mem db (Suc (hsize mem)) ?n (remove_plan0 db) = (pl, r)"
    using assms(4) by simp
  have seen: "set (rp_visited (remove_plan0 db)) = {}"
    by (simp add: remove_plan0_def)
  have fuel: "r \<noteq> Some OutOfFuel"
  proof (rule rw.walk_depth [where U = "{..< hsize mem}", OF _ _ good _ _ run])
    fix n c
    assume "snd n \<in> {..< hsize mem}" "Child c \<in> set (remove_items mem db n)"
    then show "snd c \<in> {..< hsize mem}"
      using assms(2) by (cases n) (auto simp: remove_items_child wf_memory_def)
  qed (use assms(3) seen in auto)
  show "set (rp_visited pl) = {q. remove_reaches mem db tyof p q} \<and>
      (\<forall>q. remove_reaches mem db tyof p q \<longrightarrow> remove_ok mem db tyof q) \<and> rplan_inv db pl" if "r = None"
  proof -
    have v: "rvisit mem db (Suc (hsize mem)) ?n (remove_plan0 db) = (pl, None)"
      using run that by simp
    have "set (rp_visited pl) = {q. remove_reaches mem db tyof p q}"
      using rw.walk_reach(1) [OF good v seen] by (simp add: remove_reach_iff)
    moreover have "remove_ok mem db tyof q" if "remove_reaches mem db tyof p q" for q
      using rw.walk_reach(2) [OF good v seen, of q] that by (simp add: remove_reach_iff)
    moreover have "rplan_inv db pl"
      by (rule rw.visit_invariant [where P = "rplan_inv db", OF _ _ good rplan_inv_start v]) (auto intro: rplan_inv_enter)
    ultimately show ?thesis
      by blast
  qed
  show "e \<noteq> OutOfFuel \<and> (\<exists>q. remove_reaches mem db tyof p q \<and> \<not> remove_ok mem db tyof q)" if "r = Some e"
    using rw.walk_refused [OF good, of "Suc (hsize mem)" "remove_plan0 db" pl e] run fuel that by (auto simp: remove_reach_iff)
qed

lemma Remove_cases:
  assumes "db_tracker db = Some tr" "Remove mem db t (Some p) = (db', r)"
  obtains pl where "remove_visit (Suc (hsize mem)) mem db t p (remove_plan0 db) = (pl, r)"
    "r = None \<Longrightarrow> schedule db' = remove_commit pl (schedule db)"
    "r \<noteq> None \<Longrightarrow> db' = db\<lparr>db_uow := Some ((schedule db)\<lparr>uw_counter := rp_counter pl\<rparr>)\<rparr>"
  using assms by (auto simp: Remove_def requireUnitOfWork_def split: prod.splits option.splits)

lemma Remove_outcome:
  assumes "typed_graph mem db tyof" "wf_memory mem" "p < hsize mem" "db_tracker db = Some tr"
    and "Remove mem db (tyof p) (Some p) = (db', r)"
  shows "(r = None \<longleftrightarrow> (\<forall>q. remove_reaches mem db tyof p q \<longrightarrow> remove_ok mem db tyof q)) \<and> r \<noteq> Some OutOfFuel \<and>
    (\<forall>e. r = Some e \<longrightarrow> (\<exists>q. remove_meets mem db tyof p q \<and> remove_refusal mem db (tyof q) q e) \<and>
      (\<exists>counter. db' = db\<lparr>db_uow := Some ((schedule db)\<lparr>uw_counter := counter\<rparr>)\<rparr>))"
proof -
  obtain pl where pl: "remove_visit (Suc (hsize mem)) mem db (tyof p) p (remove_plan0 db) = (pl, r)"
      "r \<noteq> None \<Longrightarrow> db' = db\<lparr>db_uow := Some ((schedule db)\<lparr>uw_counter := rp_counter pl\<rparr>)\<rparr>"
    using Remove_cases [OF assms(4,5)] by metis
  note walk = remove_walk [OF assms(1-3) pl(1)]
  show ?thesis
  proof (cases r)
    case None
    then show ?thesis
      using walk(1) by simp
  next
    case (Some e)
    then have "e \<noteq> OutOfFuel \<and> (\<exists>q. remove_reaches mem db tyof p q \<and> \<not> remove_ok mem db tyof q)"
      using walk(2) by blast
    moreover from this have "\<exists>q. remove_meets mem db tyof p q \<and> remove_refusal mem db (tyof q) q e"
      using remove_error [OF assms(1)] pl(1) Some by blast
    ultimately show ?thesis
      using pl(2) Some by auto
  qed
qed

text \<open>A session that tracks the line 7 alone.\<close>

lemma sample_remove:
  assumes "db_maps db = sample_graph_maps" "db_tracker db = Some tr" "byPtr tr 7 \<noteq> None" "schedule db = newUnitOfWork"
  shows "remove_reaches sample_graph db sample_tyof 7 q \<longleftrightarrow> q = 7" "remove_ok sample_graph db sample_tyof 7"
proof -
  show "remove_reaches sample_graph db sample_tyof 7 q \<longleftrightarrow> q = 7"
  proof
    assume "remove_reaches sample_graph db sample_tyof 7 q"
    then show "q = 7"
      by induction (auto simp: remove_targets_def sample_cascade [OF assms(1)] split: if_splits)
  qed (auto intro: remove_reaches.start)
  show "remove_ok sample_graph db sample_tyof 7"
    using assms(2,3) by (simp add: remove_ok_def sample_writable [OF assms(1)] sample_tyof_def sample_map_def)
qed

text \<open>
  C7: A refused \<open>Remove\<close>. It always ends; it is refused exactly when an instance its cascade reaches, and that is not
  scheduled already, is not writable and keyed, is not tracked, or declares a remove cascade over a collection that
  was never loaded. The error is that of an instance the cascade met: the error of loading its map, CRUD-003 for a
  source that is no table, CRUD-002 without a key, UOW-001 when it is not tracked, UOW-005 naming the collection; and
  a refusal changes nothing of the session but the schedule's order counter.
\<close>

theorem Remove_refused:
  assumes "typed_graph mem db tyof" "wf_memory mem" "p < hsize mem" "db_tracker db = Some tr"
    and "Remove mem db (tyof p) (Some p) = (db', r)"
  shows "(r = None \<longleftrightarrow> (\<forall>q. remove_reaches mem db tyof p q \<longrightarrow> remove_ok mem db tyof q)) \<and> r \<noteq> Some OutOfFuel \<and>
    (\<forall>e. r = Some e \<longrightarrow> (\<exists>q. remove_meets mem db tyof p q \<and> remove_refusal mem db (tyof q) q e) \<and>
      (\<exists>counter. db' = db\<lparr>db_uow := Some ((schedule db)\<lparr>uw_counter := counter\<rparr>)\<rparr>))"
  using Remove_outcome [OF assms] .

theorem Remove_refused_witness:
  "\<exists>t. snd (Remove sample_graph sample_graph_db ''Order'' (Some 6)) = Some (OrmError ''UOW-001'' t)"
proof -
  obtain db' r where run: "Remove sample_graph sample_graph_db (sample_tyof 6) (Some 6) = (db', r)"
    by fastforce
  have "\<not> remove_ok sample_graph sample_graph_db sample_tyof 6"
    by (simp add: remove_ok_def remove_walks_def sample_graph_db sample_fresh)
  moreover note refused = Remove_refused [OF sample_typed [OF sample_graph_db(1)] sample_wf _ sample_graph_db(2) run]
  ultimately obtain e q where "r = Some e" and e: "remove_refusal sample_graph sample_graph_db (sample_tyof q) q e"
    using remove_reaches.start by (cases r) (auto simp: sample_hsize)
  moreover have "e = OrmError ''UOW-001'' (EntityName m)" if "sample_graph_maps (sample_tyof q) = Inr m" for m
    using e that by (auto simp: remove_refusal_def sample_graph_db sample_fresh sample_graph_maps_def KeyProperties_def sample_map_def sample_property_def
        split: if_splits)
  ultimately show ?thesis
    using run by (simp add: sample_tyof_simps sample_graph_maps_def)
qed

text \<open>
  C6: a successful \<open>Remove\<close>. The reached instances that were not scheduled are appended to the
  scheduled removals, each once, all of them tracked; the reached instances that were scheduled for
  insert have that insert cancelled, with what only their cascade had scheduled; the schedule's
  invariant is kept.
\<close>

theorem Remove_schedules:
  assumes "typed_graph mem db tyof" "wf_memory mem" "p < hsize mem" "db_tracker db = Some tr" "uow_inv (schedule db)"
    and "Remove mem db (tyof p) (Some p) = (db', None)"
  shows "uow_inv (schedule db') \<and>
    (\<exists>new. map sr_ptr (uw_removes (schedule db')) = map sr_ptr (uw_removes (schedule db)) @ new \<and> distinct new \<and>
       set new = {q. remove_reaches mem db tyof p q \<and> insertOf (schedule db) q = None \<and> removeOf (schedule db) q = None} \<and>
       (\<forall>q \<in> set new. byPtr tr q \<noteq> None)) \<and>
    map si_ptr (uw_inserts (schedule db')) =
      filter (\<lambda>q. \<not> cancelled_by {q. remove_reaches mem db tyof p q \<and> insertOf (schedule db) q \<noteq> None} (schedule db) q)
        (map si_ptr (uw_inserts (schedule db)))"
proof -
  let ?u = "schedule db"
  obtain pl where pl: "remove_visit (Suc (hsize mem)) mem db (tyof p) p (remove_plan0 db) = (pl, None)"
      "schedule db' = remove_commit pl ?u"
    using Remove_cases [OF assms(4,6)] by metis
  have w: "set (rp_visited pl) = {q. remove_reaches mem db tyof p q}"
      "\<And>q. remove_reaches mem db tyof p q \<Longrightarrow> remove_ok mem db tyof q" "rplan_inv db pl"
    using remove_walk(1) [OF assms(1-3) pl(1)] by auto
  let ?v = "?u\<lparr>uw_removes := uw_removes ?u @ rp_adds pl, uw_counter := rp_counter pl\<rparr>"
  have cancels: "set (rp_cancels pl) = {q. remove_reaches mem db tyof p q \<and> insertOf ?u q \<noteq> None}"
    using w(1,3) by (auto simp: rplan_inv_def)
  then have sub: "set (rp_cancels pl) \<subseteq> si_ptr ` set (uw_inserts ?v)"
    using insertOf_iff [of ?u] by auto
  have new: "set (map sr_ptr (rp_adds pl)) = {q. remove_reaches mem db tyof p q \<and> insertOf ?u q = None \<and> removeOf ?u q = None}"
    using w(1,3) by (auto simp: rplan_inv_def remove_walks_def)
  have disj: "q \<notin> si_ptr ` set (uw_inserts ?u) \<and> q \<notin> sr_ptr ` set (uw_removes ?u)" if "q \<in> sr_ptr ` set (rp_adds pl)" for q
    using that new insertOf_iff [of ?u q] removeOf_iff [of ?u q] by auto
  have "uow_inv ?v"
    by (rule uow_inv_removes [OF assms(5)]) (use w(3) disj in \<open>auto simp: rplan_inv_def\<close>)
  then have inv: "uow_inv (schedule db')"
    using uow_inv_cancel [OF _ sub] pl(2) by (simp add: remove_commit_def)
  have removes: "map sr_ptr (uw_removes (schedule db')) = map sr_ptr (uw_removes ?u) @ map sr_ptr (rp_adds pl)"
    using pl(2) cancel_fixpoint [OF sub] by (simp add: remove_commit_def)
  have tracked: "\<forall>q \<in> set (map sr_ptr (rp_adds pl)). byPtr tr q \<noteq> None"
    using new w(2) assms(4) by (auto simp: remove_ok_def remove_walks_def)
  have "cancelled_by (set (rp_cancels pl)) ?v = cancelled_by (set (rp_cancels pl)) ?u"
    by (intro ext cancelled_by_cong) simp
  then have inserts: "map si_ptr (uw_inserts (schedule db')) =
      filter (\<lambda>q. \<not> cancelled_by (set (rp_cancels pl)) ?u q) (map si_ptr (uw_inserts ?u))"
    using pl(2) cancel_fixpoint [OF sub] by (simp add: remove_commit_def filter_map comp_def)
  have "distinct (map sr_ptr (rp_adds pl))"
    using w(3) by (simp add: rplan_inv_def)
  then show ?thesis
    using inv removes tracked inserts new unfolding cancels by blast
qed

theorem Remove_schedules_witness:
  "\<exists>db db'. db_maps db = sample_graph_maps \<and> Remove sample_graph db ''Line'' (Some 7) = (db', None) \<and>
     map sr_ptr (uw_removes (schedule db')) = [7]"
proof -
  obtain e tr where tr: "tracker_inv sample_kinds tr" "tracked tr = {e}" "te_ptr e = 7"
    using sample_registered by fastforce
  define db where "db = sample_graph_db\<lparr>db_tracker := Some tr\<rparr>"
  have db: "db_maps db = sample_graph_maps" "db_tracker db = Some tr" "schedule db = newUnitOfWork"
    using sample_graph_db by (simp_all add: db_def schedule_def)
  have "byPtr tr 7 \<noteq> None"
    using byPtr_tracked [OF tr(1), of 7 e] tr by simp
  note rm = sample_remove [OF db(1,2) this db(3)]
  obtain db' r where run: "Remove sample_graph db (sample_tyof 7) (Some 7) = (db', r)"
    by fastforce
  have "r = None"
    using Remove_outcome [OF sample_typed [OF db(1)] sample_wf _ db(2) run] rm by (simp add: sample_hsize)
  then obtain new where new: "map sr_ptr (uw_removes (schedule db')) = map sr_ptr (uw_removes newUnitOfWork) @ new" "distinct new"
      "set new = {q. remove_reaches sample_graph db sample_tyof 7 q \<and> insertOf newUnitOfWork q = None \<and> removeOf newUnitOfWork q = None}"
    using Remove_schedules [OF sample_typed [OF db(1)] sample_wf _ db(2), of 7 db'] run uow_inv_new unfolding db(3) sample_hsize by auto
  then have seven: "set new = {7}"
    by (simp add: rm(1) sample_fresh)
  then have "length new = Suc 0"
    using distinct_card [OF new(2)] by simp
  then obtain x where x: "new = [x]"
    by (metis length_0_conv length_Suc_conv)
  then have "new = [7]"
    using seven by simp
  then show ?thesis
    using run \<open>r = None\<close> db(1) new(1) by (intro exI [of _ db] exI [of _ db']) (simp add: sample_tyof_simps sample_fresh)
qed

end
