(* ===== verification/Flush_Order.thy ===== *)
theory Flush_Order
  imports Flush Scheduling
begin

text \<open>
  The order of the flush's phases (\<open>flush.go\<close>: \<open>orderInserts\<close>, \<open>orderDeletes\<close>). A phase is ordered by
  \<open>dependencyOrder\<close> over positions; \<open>phase_order\<close> says the same of the scheduled items themselves, and
  \<open>phase_order_lift\<close> carries the result over once for both phases.
\<close>

section \<open>The specification\<close>

text \<open>\<open>B x y\<close>: \<open>y\<close> must be written before \<open>x\<close>.\<close>

definition before_rel :: "('a \<Rightarrow> 'a \<Rightarrow> bool) \<Rightarrow> 'a list \<Rightarrow> ('a \<times> 'a) set" where
  "before_rel B xs = {(y, x). x \<in> set xs \<and> y \<in> set xs \<and> x \<noteq> y \<and> B x y}"

definition ready_after :: "('a \<Rightarrow> 'a \<Rightarrow> bool) \<Rightarrow> 'a list \<Rightarrow> 'a set \<Rightarrow> 'a \<Rightarrow> bool" where
  "ready_after B xs written x \<longleftrightarrow> (\<forall>y \<in> set xs. y \<noteq> x \<longrightarrow> B x y \<longrightarrow> y \<in> written)"

text \<open>
  A phase in order: every item once, each ready when its turn comes, and no item that was ready
  then is smaller.
\<close>

definition phase_order :: "('a \<Rightarrow> 'a \<Rightarrow> bool) \<Rightarrow> ('a \<Rightarrow> 'a \<Rightarrow> bool) \<Rightarrow> 'a list \<Rightarrow> 'a list \<Rightarrow> bool" where
  "phase_order B lt xs ys \<longleftrightarrow> mset ys = mset xs \<and>
     (\<forall>k < length ys. ready_after B xs (set (take k ys)) (ys ! k)) \<and>
     (\<forall>k < length ys. \<forall>z \<in> set xs. z \<notin> set (take k ys) \<longrightarrow> ready_after B xs (set (take k ys)) z \<longrightarrow> \<not> lt z (ys ! k))"

section \<open>From positions to items\<close>

definition table_of :: "('a \<Rightarrow> 'a \<Rightarrow> bool) \<Rightarrow> 'a list \<Rightarrow> nat list list \<Rightarrow> bool" where
  "table_of B xs deps \<longleftrightarrow> wf_deps (length xs) deps \<and>
     (\<forall>i < length xs. \<forall>j < length xs. i \<noteq> j \<longrightarrow> (j \<in> set (deps ! i) \<longleftrightarrow> B (xs ! i) (xs ! j)))"

lemma table_preds:
  assumes "table_of B xs deps" "distinct xs" "i < length xs"
  shows "preds deps i = {j. j < length xs \<and> xs ! j \<noteq> xs ! i \<and> B (xs ! i) (xs ! j)}"
proof -
  have "j < length xs" if "j \<in> set (deps ! i)" for j
    using assms that by (auto simp: table_of_def wf_deps_def)
  moreover have "j \<in> set (deps ! i) \<longleftrightarrow> B (xs ! i) (xs ! j)" if "j < length xs" "j \<noteq> i" for j
    using assms(1,3) that by (simp add: table_of_def)
  moreover have "xs ! j \<noteq> xs ! i \<longleftrightarrow> j \<noteq> i" if "j < length xs" for j
    using assms(2,3) that by (simp add: nth_eq_iff_index_eq)
  ultimately show ?thesis
    unfolding preds_def by blast
qed

lemma table_ready:
  assumes "table_of B xs deps" "distinct xs" "i < length xs" "set o' \<subseteq> {..<length xs}"
  shows "preds deps i \<subseteq> set o' \<longleftrightarrow> ready_after B xs (set (map ((!) xs) o')) (xs ! i)"
proof -
  have mem: "xs ! j \<in> set (map ((!) xs) o') \<longleftrightarrow> j \<in> set o'" if "j < length xs" for j
    using assms(2,4) that by (auto simp: nth_eq_iff_index_eq subset_iff)
  show ?thesis
    unfolding table_preds [OF assms(1-3)] ready_after_def all_set_conv_all_nth
    using mem by auto
qed

lemma table_acyclic:
  assumes t: "table_of B xs deps" and d: "distinct xs"
  shows "acyclic (dep_rel (length xs) deps) \<longleftrightarrow> acyclic (before_rel B xs)"
proof -
  let ?D = "dep_rel (length xs) deps" and ?R = "before_rel B xs"
  define f where "f = inv_into {..<length xs} ((!) xs)"
  have inj: "inj_on ((!) xs) {..<length xs}"
    using d by (simp add: inj_on_nth)
  have f: "f (xs ! i) = i" if "i < length xs" for i
    using inv_into_f_f [OF inj, of i] that by (simp add: f_def)
  have D: "(j, i) \<in> ?D \<longleftrightarrow> i < length xs \<and> j < length xs \<and> xs ! j \<noteq> xs ! i \<and> B (xs ! i) (xs ! j)" for i j
    using table_preds [OF t d] by (auto simp: dep_rel_def)
  have "?D \<subseteq> inv_image ?R ((!) xs)"
    by (auto simp: D before_rel_def inv_image_def)
  moreover have "?R \<subseteq> inv_image ?D f"
  proof
    fix e
    assume "e \<in> ?R"
    then obtain i j where "e = (xs ! j, xs ! i)" "i < length xs" "j < length xs" "xs ! i \<noteq> xs ! j" "B (xs ! i) (xs ! j)"
      by (auto simp: before_rel_def in_set_conv_nth)
    then show "e \<in> inv_image ?D f"
      by (simp add: inv_image_def f D)
  qed
  moreover have "finite ?D"
    by (rule finite_subset [of _ "{..<length xs} \<times> {..<length xs}"]) (auto simp: D)
  moreover have "finite ?R"
    by (rule finite_subset [of _ "set xs \<times> set xs"]) (auto simp: before_rel_def)
  ultimately show ?thesis
    using wf_subset [OF wf_inv_image] wf_acyclic finite_acyclic_wf by meson
qed

lemma phase_order_lift:
  assumes t: "table_of B xs deps" and d: "distinct xs"
    and o: "distinct order" "set order = {..<length xs}" "topological deps order"
      "greedy (\<lambda>i j. lt (xs ! i) (xs ! j)) (length xs) deps order"
  shows "phase_order B lt xs (map ((!) xs) order)"
proof -
  let ?ys = "map ((!) xs) order"
  have bound: "order ! k < length xs" if "k < length order" for k
    using o(2) nth_mem [OF that] by auto
  have sub: "set (take k order) \<subseteq> {..<length xs}" for k
    using o(2) set_take_subset by fastforce
  have "mset order = mset [0..<length xs]"
    using set_eq_iff_mset_eq_distinct [of order "[0..<length xs]"] o(1,2) by (simp add: lessThan_atLeast0)
  then have "mset ?ys = mset (map ((!) xs) [0..<length xs])"
    by (metis mset_map)
  then have "mset ?ys = mset xs"
    by (simp add: map_nth)
  moreover have "ready_after B xs (set (take k ?ys)) (?ys ! k)" if "k < length ?ys" for k
    using table_ready [OF t d bound sub] o(3) that by (simp add: topological_def take_map)
  moreover have "\<not> lt z (?ys ! k)"
    if k: "k < length ?ys" and z: "z \<in> set xs" "z \<notin> set (take k ?ys)" "ready_after B xs (set (take k ?ys)) z" for k z
  proof -
    obtain i where i: "i < length xs" "z = xs ! i"
      using z(1) by (auto simp: in_set_conv_nth)
    have "preds deps i \<subseteq> set (take k order)" "i \<notin> set (take k order)"
      using table_ready [OF t d i(1) sub] z i(2) by (auto simp: take_map)
    then show ?thesis
      using o(4) k i by (simp add: greedy_def)
  qed
  ultimately show ?thesis
    unfolding phase_order_def by blast
qed

text \<open>A phase ordered by \<open>dependencyOrder\<close>: in order, or a cycle with an incomplete order.\<close>

lemma dependencyOrder_phase:
  assumes "table_of B xs deps" and "distinct xs" and "strict_weak (\<lambda>i j. lt (xs ! i) (xs ! j))"
  shows "\<exists>order. dependencyOrder (length xs) deps (\<lambda>i j. lt (xs ! i) (xs ! j)) = Inr (order, acyclic (before_rel B xs)) \<and>
    (acyclic (before_rel B xs) \<longrightarrow> phase_order B lt xs (map ((!) xs) order))"
proof -
  have wf: "wf_deps (length xs) deps"
    using assms(1) by (simp add: table_of_def)
  show ?thesis
    using strict_weak.dependencyOrder_spec [OF assms(3) wf] phase_order_lift [OF assms(1,2), of _ lt]
      table_acyclic [OF assms(1,2)] by auto
qed

section \<open>Comparisons and positions\<close>

definition insert_before :: "typeRanks \<Rightarrow> scheduledInsert \<Rightarrow> scheduledInsert \<Rightarrow> bool" where
  "insert_before ranks a b \<longleftrightarrow>
     (let ra = ranks (Type (si_m a)); rb = ranks (Type (si_m b)) in if ra \<noteq> rb then ra < rb else si_order a < si_order b)"

definition delete_before :: "typeRanks \<Rightarrow> scheduledRemove \<Rightarrow> scheduledRemove \<Rightarrow> bool" where
  "delete_before ranks a b \<longleftrightarrow>
     (let ra = ranks (Type (sr_m a)); rb = ranks (Type (sr_m b)) in if ra \<noteq> rb then ra > rb else sr_order a < sr_order b)"

lemma insert_less_items: "insert_less ranks inserts = (\<lambda>a b. insert_before ranks (inserts ! a) (inserts ! b))"
  by (simp add: fun_eq_iff insert_less_def insert_before_def Let_def)

lemma delete_less_items: "delete_less ranks removes = (\<lambda>a b. delete_before ranks (removes ! a) (removes ! b))"
  by (simp add: fun_eq_iff delete_less_def delete_before_def Let_def)

interpretation il: strict_weak "\<lambda>a b. insert_before ranks (inserts ! a) (inserts ! b)" for ranks inserts
  by unfold_locales (auto simp: insert_before_def Let_def split: if_splits)

interpretation dl: strict_weak "\<lambda>a b. delete_before ranks (removes ! a) (removes ! b)" for ranks removes
  by unfold_locales (auto simp: delete_before_def Let_def split: if_splits)

lemma position_from_Some:
  "distinct ps \<Longrightarrow> position_from i ps p = Some k \<longleftrightarrow> i \<le> k \<and> k < i + length ps \<and> ps ! (k - i) = p"
proof (induction ps arbitrary: i k)
  case (Cons q ps)
  have IH: "position_from (Suc i) ps p = Some k \<longleftrightarrow> Suc i \<le> k \<and> k < Suc i + length ps \<and> ps ! (k - Suc i) = p" for k
    using Cons.prems by (simp add: Cons.IH)
  show ?case
  proof (cases "position_from (Suc i) ps p")
    case None
    then have "ps ! j \<noteq> p" if "j < length ps" for j
      using IH [of "Suc i + j"] that by simp
    then have "p \<notin> set ps"
      by (auto simp: in_set_conv_nth)
    then show ?thesis
      using None Cons.prems by (cases "k = i") (auto simp: nth_Cons' in_set_conv_nth)
  next
    case (Some l)
    then have l: "Suc i \<le> l" "l < Suc i + length ps" "ps ! (l - Suc i) = p"
      using IH by auto
    then have "p \<in> set ps"
      by (metis add.commute less_diff_conv2 nth_mem)
    then have "q \<noteq> p"
      using Cons.prems by auto
    then show ?thesis
      using Some IH [of k] l(1) by (cases "k = i") (auto simp: nth_Cons')
  qed
qed simp

lemma position_Some: "distinct ps \<Longrightarrow> position ps p = Some k \<longleftrightarrow> k < length ps \<and> ps ! k = p"
  by (simp add: position_def position_from_Some)

lemma set_map_filter: "set (List.map_filter f xs) = {y. \<exists>x \<in> set xs. f x = Some y}"
  by (induction xs) (auto simp: List.map_filter_simps split: option.splits)

section \<open>What must be written before what\<close>

text \<open>An insert comes after the instances its many-to-one navigations reference and after the owners that cascaded to it.\<close>

definition insert_parents :: "memory \<Rightarrow> scheduledInsert \<Rightarrow> ptr set" where
  "insert_parents mem s =
     {q. \<exists>r \<in> set (Relationships (si_m s)). RelKind r = RelationshipManyToOne \<and> q \<in> set (fst (navigationTargets mem (si_ptr s) r))} \<union>
     {cl_owner l | l. l \<in> set (si_links s) \<and> RelKind (cl_relationship l) \<noteq> RelationshipManyToOne}"

definition insert_after :: "memory \<Rightarrow> scheduledInsert \<Rightarrow> scheduledInsert \<Rightarrow> bool" where
  "insert_after mem s t \<longleftrightarrow> si_ptr t \<in> insert_parents mem s"

text \<open>A parent is deleted after every child that references it and after every child it holds.\<close>

definition delete_after :: "memory \<Rightarrow> scheduledRemove \<Rightarrow> scheduledRemove \<Rightarrow> bool" where
  "delete_after mem parent child \<longleftrightarrow>
     (\<exists>r \<in> set (Relationships (sr_m child)). RelKind r = RelationshipManyToOne \<and>
        sr_ptr parent \<in> set (fst (navigationTargets mem (sr_ptr child) r))) \<or>
     (\<exists>r \<in> set (Relationships (sr_m parent)). RelKind r \<in> {RelationshipOneToMany, RelationshipOneToOne} \<and>
        sr_ptr child \<in> set (fst (navigationTargets mem (sr_ptr parent) r)))"

lemma insert_dependencies_set:
  assumes "distinct ptrs"
  shows "set (insert_dependencies mem ptrs s) = {j. j < length ptrs \<and> ptrs ! j \<in> insert_parents mem s}"
proof -
  let ?nav = "concat (map (\<lambda>r. if RelKind r \<noteq> RelationshipManyToOne then [] else fst (navigationTargets mem (si_ptr s) r))
      (Relationships (si_m s)))"
  let ?own = "\<lambda>link. if RelKind (cl_relationship link) = RelationshipManyToOne then None else position ptrs (cl_owner link)"
  have "set (List.map_filter (position ptrs) ?nav) = {j. j < length ptrs \<and> ptrs ! j \<in> set ?nav}"
    by (auto simp: set_map_filter position_Some [OF assms])
  moreover have "set (List.map_filter ?own (si_links s)) =
      {j. j < length ptrs \<and> (\<exists>l \<in> set (si_links s). RelKind (cl_relationship l) \<noteq> RelationshipManyToOne \<and> ptrs ! j = cl_owner l)}"
    by (auto simp: set_map_filter position_Some [OF assms] split: if_splits)
  moreover have "q \<in> set ?nav \<longleftrightarrow> (\<exists>r \<in> set (Relationships (si_m s)). RelKind r = RelationshipManyToOne \<and>
      q \<in> set (fst (navigationTargets mem (si_ptr s) r)))" for q
    by (auto split: if_splits)
  ultimately show ?thesis
    unfolding insert_dependencies_def insert_parents_def set_append by blast
qed

lemma insert_table:
  assumes "distinct (map si_ptr inserts)"
  shows "table_of (insert_after mem) inserts (map (insert_dependencies mem (map si_ptr inserts)) inserts)"
  using insert_dependencies_set [OF assms, of mem] by (auto simp: table_of_def wf_deps_def insert_after_def)

definition edge_into :: "nat \<Rightarrow> nat \<times> RelationshipMap \<times> nat \<Rightarrow> nat set" where
  "edge_into k = (\<lambda>(i, r, other).
     case RelKind r of
       RelationshipManyToOne \<Rightarrow> if other = k then {i} else {}
     | RelationshipOneToMany \<Rightarrow> if i = k then {other} else {}
     | RelationshipOneToOne \<Rightarrow> if i = k then {other} else {}
     | RelationshipManyToMany \<Rightarrow> {})"

lemma edge_into_iff: "j \<in> edge_into k (i, r, other) \<longleftrightarrow>
    RelKind r = RelationshipManyToOne \<and> other = k \<and> j = i \<or>
    RelKind r \<in> {RelationshipOneToMany, RelationshipOneToOne} \<and> i = k \<and> j = other"
  by (cases "RelKind r") (auto simp: edge_into_def)

lemma edges_into_iff: "j \<in> (\<Union>e \<in> E. edge_into k e) \<longleftrightarrow>
    (\<exists>r. (j, r, k) \<in> E \<and> RelKind r = RelationshipManyToOne) \<or>
    (\<exists>r. (k, r, j) \<in> E \<and> RelKind r \<in> {RelationshipOneToMany, RelationshipOneToOne})" (is "?l \<longleftrightarrow> ?r")
proof
  assume ?l
  then obtain i r other where "(i, r, other) \<in> E" "j \<in> edge_into k (i, r, other)"
    by (metis UN_iff prod_cases3)
  then show ?r
    unfolding edge_into_iff by auto
next
  assume ?r
  then show ?l
    using edge_into_iff UN_iff by (metis (no_types, lifting))
qed

lemma delete_edge_length [simp]: "length (delete_edge i r other deps) = length deps"
  by (auto simp: delete_edge_def append_at_def split: RelationshipKind.splits)

lemma delete_edge_set:
  assumes "i < length deps" "other < length deps" "k < length deps"
  shows "set (delete_edge i r other deps ! k) = set (deps ! k) \<union> edge_into k (i, r, other)"
  using assms by (auto simp: delete_edge_def append_at_def edge_into_def nth_list_update split: RelationshipKind.splits)

lemma delete_edges_fold:
  assumes "\<And>i r other. (i, r, other) \<in> set es \<Longrightarrow> i < length deps \<and> other < length deps" and "k < length deps"
  shows "length (foldl (\<lambda>deps (i, r, other). delete_edge i r other deps) deps es) = length deps \<and>
    set (foldl (\<lambda>deps (i, r, other). delete_edge i r other deps) deps es ! k) = set (deps ! k) \<union> (\<Union>e \<in> set es. edge_into k e)"
  using assms
proof (induction es arbitrary: deps)
  case (Cons e es)
  obtain i r other where e: "e = (i, r, other)"
    by (cases e) auto
  have le: "i < length deps" "other < length deps"
    using Cons.prems(1) [of i r other] e by auto
  let ?d = "delete_edge i r other deps"
  have "length (foldl (\<lambda>deps (i, r, other). delete_edge i r other deps) ?d es) = length ?d \<and>
      set (foldl (\<lambda>deps (i, r, other). delete_edge i r other deps) ?d es ! k) = set (?d ! k) \<union> (\<Union>e \<in> set es. edge_into k e)"
    using Cons.prems by (intro Cons.IH) auto
  then show ?case
    using delete_edge_set [OF le Cons.prems(2), of r] e by auto
qed simp

lemma delete_edges_set:
  assumes "distinct (map sr_ptr removes)"
  shows "set (concat (map (delete_edges mem (map sr_ptr removes)) (zip [0..<length removes] removes))) =
    {(i, r, other). i < length removes \<and> other < length removes \<and> r \<in> set (Relationships (sr_m (removes ! i))) \<and>
       sr_ptr (removes ! other) \<in> set (fst (navigationTargets mem (sr_ptr (removes ! i)) r))}"
proof -
  have "set (delete_edges mem (map sr_ptr removes) (i, s)) =
      {(i, r, other) | r other. other < length removes \<and> r \<in> set (Relationships (sr_m s)) \<and>
         sr_ptr (removes ! other) \<in> set (fst (navigationTargets mem (sr_ptr s) r))}" for i s
    by (auto simp: delete_edges_def set_map_filter position_Some [OF assms])
  moreover have "set (zip [0..<length removes] removes) = {(i, removes ! i) | i. i < length removes}"
    unfolding set_zip by (rule set_eqI) (auto intro!: exI)
  ultimately show ?thesis
    by auto
qed

lemma delete_dependencies_set:
  assumes "distinct (map sr_ptr removes)" and "k < length removes"
  shows "length (delete_dependencies mem removes) = length removes \<and>
    set (delete_dependencies mem removes ! k) = {j. j < length removes \<and> delete_after mem (removes ! k) (removes ! j)}"
proof -
  let ?es = "concat (map (delete_edges mem (map sr_ptr removes)) (zip [0..<length removes] removes))"
  have es: "(i, r, other) \<in> set ?es \<longleftrightarrow> i < length removes \<and> other < length removes \<and> r \<in> set (Relationships (sr_m (removes ! i))) \<and>
       sr_ptr (removes ! other) \<in> set (fst (navigationTargets mem (sr_ptr (removes ! i)) r))" for i r other
    unfolding delete_edges_set [OF assms(1)] by simp
  have fold: "length (delete_dependencies mem removes) = length removes"
      "set (delete_dependencies mem removes ! k) = (\<Union>e \<in> set ?es. edge_into k e)"
    using delete_edges_fold [of ?es "replicate (length removes) []" k] es assms(2)
    unfolding delete_dependencies_def by simp_all
  have "j \<in> (\<Union>e \<in> set ?es. edge_into k e) \<longleftrightarrow> j < length removes \<and> delete_after mem (removes ! k) (removes ! j)" for j
  proof -
    show ?thesis
      using assms(2) unfolding edges_into_iff es delete_after_def by auto
  qed
  then show ?thesis
    using fold by auto
qed

lemma delete_table:
  assumes "distinct (map sr_ptr removes)"
  shows "table_of (delete_after mem) removes (delete_dependencies mem removes)"
proof -
  have "length (delete_dependencies mem removes) = length removes"
  proof (cases "removes = []")
    case False
    then show ?thesis
      using delete_dependencies_set [OF assms, of 0 mem] by simp
  qed (simp add: delete_dependencies_def)
  then show ?thesis
    using delete_dependencies_set [OF assms, of _ mem] unfolding table_of_def wf_deps_def all_set_conv_all_nth [of "delete_dependencies mem removes"]
    by auto
qed

section \<open>Properties\<close>

text \<open>
  C19: the insert phase. For a schedule that lists no instance twice, \<open>orderInserts\<close> succeeds exactly
  when the inserts do not wait for each other in a cycle; then it lists every scheduled insert
  once, each after all its scheduled parents, and at every turn the insert taken is a smallest by
  type rank, then schedule order, of those whose parents are written. A cycle is UOW-004.
\<close>

theorem orderInserts_correct:
  assumes "distinct (map si_ptr inserts)"
  shows "if acyclic (before_rel (insert_after mem) inserts)
    then \<exists>ordered. orderInserts mem inserts ranks = Inr ordered \<and>
           phase_order (insert_after mem) (insert_before ranks) inserts ordered
    else \<exists>types. orderInserts mem inserts ranks = Inl (OrmError ''UOW-004'' types)"
proof -
  have "distinct inserts"
    using assms by (simp add: distinct_map)
  then obtain order where "dependencyOrder (length inserts) (map (insert_dependencies mem (map si_ptr inserts)) inserts)
        (insert_less ranks inserts) = Inr (order, acyclic (before_rel (insert_after mem) inserts))"
      "acyclic (before_rel (insert_after mem) inserts) \<longrightarrow>
         phase_order (insert_after mem) (insert_before ranks) inserts (map ((!) inserts) order)"
    using dependencyOrder_phase [OF insert_table [OF assms] _ il.strict_weak_axioms] unfolding insert_less_items by blast
  then show ?thesis
    by (simp add: orderInserts_def cycleError_def)
qed

text \<open>A line scheduled before the order that cascaded to it is inserted after it.\<close>

definition sample_line_insert :: scheduledInsert where
  "sample_line_insert = \<lparr>si_ptr = 7, si_m = sample_map\<lparr>Type := ''Line''\<rparr>, si_direct = False,
     si_links = [\<lparr>cl_owner = 6, cl_ownerMap = sample_map, cl_relationship = sample_lines\<rparr>], si_order = 1\<rparr>"

definition sample_order_insert :: scheduledInsert where
  "sample_order_insert = \<lparr>si_ptr = 6, si_m = sample_map, si_direct = True, si_links = [], si_order = 2\<rparr>"

lemma acyclic_measure: "R \<subseteq> measure f \<Longrightarrow> acyclic R"
  using wf_subset [OF wf_measure] wf_acyclic by blast

theorem orderInserts_correct_witness:
  "\<exists>ordered. orderInserts sample_graph [sample_line_insert, sample_order_insert] (\<lambda>_. 0) = Inr ordered \<and>
     phase_order (insert_after sample_graph) (insert_before (\<lambda>_. 0)) [sample_line_insert, sample_order_insert] ordered"
proof -
  let ?xs = "[sample_line_insert, sample_order_insert]"
  have "\<not> insert_after sample_graph sample_order_insert sample_line_insert"
    by (simp add: insert_after_def insert_parents_def sample_line_insert_def sample_order_insert_def sample_map_def)
  then have "before_rel (insert_after sample_graph) ?xs \<subseteq> measure (\<lambda>s. if s = sample_order_insert then 0 else 1)"
    by (auto simp: before_rel_def)
  then have "acyclic (before_rel (insert_after sample_graph) ?xs)"
    by (rule acyclic_measure)
  then show ?thesis
    using orderInserts_correct [of ?xs sample_graph "\<lambda>_. 0"]
    by (simp add: sample_line_insert_def sample_order_insert_def)
qed

text \<open>
  C20: the delete phase. For a schedule that lists no instance twice, \<open>orderDeletes\<close> succeeds exactly
  when the removals do not wait for each other in a cycle; then every scheduled removal is listed
  once, each after all the scheduled children that reference it or that it holds, and at every
  turn the one taken is a smallest by reversed type rank, then schedule order, of those whose
  children are gone. A cycle is UOW-004.
\<close>

theorem orderDeletes_correct:
  assumes "distinct (map sr_ptr removes)"
  shows "if acyclic (before_rel (delete_after mem) removes)
    then \<exists>ordered. orderDeletes mem removes ranks = Inr ordered \<and>
           phase_order (delete_after mem) (delete_before ranks) removes ordered
    else \<exists>types. orderDeletes mem removes ranks = Inl (OrmError ''UOW-004'' types)"
proof -
  have "distinct removes"
    using assms by (simp add: distinct_map)
  then obtain order where "dependencyOrder (length removes) (delete_dependencies mem removes)
        (delete_less ranks removes) = Inr (order, acyclic (before_rel (delete_after mem) removes))"
      "acyclic (before_rel (delete_after mem) removes) \<longrightarrow>
         phase_order (delete_after mem) (delete_before ranks) removes (map ((!) removes) order)"
    using dependencyOrder_phase [OF delete_table [OF assms] _ dl.strict_weak_axioms] unfolding delete_less_items by blast
  then show ?thesis
    by (simp add: orderDeletes_def cycleError_def)
qed

text \<open>An order scheduled for removal before a line it holds is deleted after it.\<close>

definition sample_order_remove :: scheduledRemove where
  "sample_order_remove = \<lparr>sr_ptr = 6, sr_m = sample_map\<lparr>Relationships := [sample_lines]\<rparr>, sr_order = 1\<rparr>"

definition sample_line_remove :: scheduledRemove where
  "sample_line_remove = \<lparr>sr_ptr = 7, sr_m = sample_map\<lparr>Type := ''Line''\<rparr>, sr_order = 2\<rparr>"

theorem orderDeletes_correct_witness:
  "\<exists>ordered. orderDeletes sample_graph [sample_order_remove, sample_line_remove] (\<lambda>_. 0) = Inr ordered \<and>
     phase_order (delete_after sample_graph) (delete_before (\<lambda>_. 0)) [sample_order_remove, sample_line_remove] ordered"
proof -
  let ?xs = "[sample_order_remove, sample_line_remove]"
  have "\<not> delete_after sample_graph sample_line_remove sample_order_remove"
    by (simp add: delete_after_def sample_line_remove_def sample_order_remove_def sample_map_def sample_lines_def)
  then have "before_rel (delete_after sample_graph) ?xs \<subseteq> measure (\<lambda>s. if s = sample_line_remove then 0 else 1)"
    by (auto simp: before_rel_def)
  then have "acyclic (before_rel (delete_after sample_graph) ?xs)"
    by (rule acyclic_measure)
  then show ?thesis
    using orderDeletes_correct [of ?xs sample_graph "\<lambda>_. 0"]
    by (simp add: sample_line_remove_def sample_order_remove_def)
qed

end
