(* ===== verification/Flush_Undo.thy ===== *)
theory Flush_Undo
  imports Undo_Programs Batch_Rules Flush_Order
begin

text \<open>
  A flush that fails puts the session back (\<open>flush.go\<close>, \<open>batching.go\<close>): the statements of a message
  wait with their statuses (\<open>waits\<close>), a step of the flush adds one, sending completes them in turn,
  and when anything fails the journal is rolled back.
\<close>

section \<open>Messages within the journal\<close>

definition broken :: "rollback_frame \<Rightarrow> go_error \<Rightarrow> 'd calls \<Rightarrow> bool" where
  "broken F e s \<longleftrightarrow> undoable F {} {} (fst s)"

lemma valid_on_world: "valid P m Q E \<Longrightarrow> valid (\<lambda>s. P (fst s)) (on_world m) (\<lambda>x s. Q x (fst s)) (\<lambda>e s. E e (fst s))"
  unfolding valid_def on_world_def by (auto split: prod.splits sum.splits)

lemma keeps_on_world: "keeps I m \<Longrightarrow> keeps (\<lambda>s. I (fst s)) (on_world m)"
  unfolding keeps_def by (rule valid_on_world)

lemma keeps_on_call: "keeps (\<lambda>s. I (fst s)) (on_call f)"
  by (auto simp: keeps_def valid_def on_call_def prog_defs)

lemma runner_statement_keeps: "keeps (\<lambda>s. undoable F S U (fst s)) (runner_statement env sql)"
  unfolding keeps_def valid_def
proof (intro allI impI)
  fix s :: "'a world \<times> runner"
  assume s: "undoable F S U (fst s)"
  have "undoable F S U (snd (outside (PrepareContext env sql) (fst s)))"
    using s by (auto simp: outside_def Let_def split: prod.splits)
  then show "case runner_statement env sql s of (Inl e, t) \<Rightarrow> undoable F S U (fst t) | (Inr x, t) \<Rightarrow> undoable F S U (fst t)"
    using s by (cases s) (auto simp: runner_statement_def split: option.splits sum.splits prod.splits)
qed

lemma runWrite_keeps: "keeps (\<lambda>s. undoable F S U (fst s)) (runWrite env write)"
proof -
  have query: "keeps (\<lambda>s. undoable F S U (fst s)) (readScalar env write)"
    unfolding readScalar_def runner_query_def
    by (intro keeps_bind runner_statement_keeps keeps_on_world outside_keeps keeps_option keeps_fail keeps_ret)
  have exec: "keeps (\<lambda>s. undoable F S U (fst s)) (runner_exec env (pw_sql write) (pw_args write))"
    unfolding runner_exec_def by (intro keeps_bind runner_statement_keeps keeps_on_world outside_keeps)
  show ?thesis
    unfolding runWrite_def
    by (cases "pw_kind write") (auto intro!: keeps_bind query exec keeps_intros)
qed

lemma with_runner_keeps: "keeps (\<lambda>s. I (fst s)) m \<Longrightarrow> keeps (\<lambda>s. I (fst s)) (with_runner m)"
  unfolding keeps_def valid_def with_runner_def by (fastforce split: prod.splits sum.splits)

lemma complete_valid:
  assumes "write_safe F st write" "st \<in> S" "inj_on status_ptr S" "status_ptr st \<notin> U"
  shows "valid (\<lambda>s. undoable F S U (fst s)) (complete write result) (\<lambda>_ s. undoable F (S - {st}) U (fst s)) (broken F)"
  unfolding complete_def
proof (rule valid_bind)
  have "valid (undoable F S U) (finishP write result) (\<lambda>_. undoable F (S - {st}) U) (\<lambda>_. undoable F {} {})"
    using assms by (simp add: write_safe_def)
  from valid_on_world [OF this]
  show "valid (\<lambda>s. undoable F S U (fst s)) (on_world (finishP write result)) (\<lambda>_ s. undoable F (S - {st}) U (fst s)) (broken F)"
    unfolding broken_def .
next
  fix u :: unit
  have "keeps (\<lambda>s :: 'a calls. undoable F (S - {st}) U (fst s)) (if pw_kind write = ResultReportedCount \<or> pw_kind write = ResultDriverCount
      then on_call (\<lambda>c. c\<lparr>bc_affected := (bc_affected c)(pw_id write \<mapsto> wr_affected result)\<rparr>) else retP ())"
    by (intro keeps_if keeps_on_call keeps_ret)
  then show "valid (\<lambda>s :: 'a calls. undoable F (S - {st}) U (fst s)) (if pw_kind write = ResultReportedCount \<or> pw_kind write = ResultDriverCount
      then on_call (\<lambda>c. c\<lparr>bc_affected := (bc_affected c)(pw_id write \<mapsto> wr_affected result)\<rparr>) else retP ())
      (\<lambda>_ s. undoable F (S - {st}) U (fst s)) (broken F)"
    unfolding keeps_def by (rule valid_weaken) (auto simp: broken_def intro: undoable_none)
qed

text \<open>Completing the statements of a message in turn.\<close>

definition message_statuses :: "rollback_frame \<Rightarrow> status set \<Rightarrow> ptr set \<Rightarrow> status list \<Rightarrow> bool" where
  "message_statuses F T U sts \<longleftrightarrow> distinct (map status_ptr sts) \<and> inj_on status_ptr T \<and>
     status_ptr ` set sts \<inter> status_ptr ` T = {} \<and> status_ptr ` (set sts \<union> T) \<inter> U = {}"

lemma message_statuses_Cons:
  assumes "message_statuses F T U (st # sts)"
  shows "inj_on status_ptr (set (st # sts) \<union> T)" "status_ptr st \<notin> U" "set (st # sts) \<union> T - {st} = set sts \<union> T" "message_statuses F T U sts"
proof -
  have "inj_on status_ptr (set (st # sts))" "status_ptr ` (set (st # sts)) \<inter> status_ptr ` T = {}" "inj_on status_ptr T"
    using assms by (auto simp: message_statuses_def distinct_map)
  then show "inj_on status_ptr (set (st # sts) \<union> T)"
    unfolding inj_on_Un by blast
  have "st \<notin> set sts" "st \<notin> T"
    using assms by (force simp: message_statuses_def)+
  then show "set (st # sts) \<union> T - {st} = set sts \<union> T"
    by auto
qed (use assms in \<open>auto simp: message_statuses_def\<close>)

lemma complete_all_valid:
  assumes "list_all2 (write_safe F) sts pws" and "message_statuses F T U sts"
  shows "valid (\<lambda>s. undoable F (set sts \<union> T) U (fst s)) (complete_all pws results) (\<lambda>_ s. undoable F T U (fst s)) (broken F)"
  using assms
proof (induction sts pws arbitrary: results rule: list_all2_induct)
  case Nil
  then show ?case
    by (auto intro: valid_ret)
next
  case (Cons st sts pw pws)
  note c = message_statuses_Cons [OF Cons.prems]
  have step: "valid (\<lambda>s. undoable F (set (st # sts) \<union> T) U (fst s)) (complete pw r) (\<lambda>_ s. undoable F (set sts \<union> T) U (fst s)) (broken F)" for r
    using complete_valid [OF Cons.hyps(1) _ c(1,2)] unfolding c(3) by simp
  show ?case
  proof (cases results)
    case Nil
    then show ?thesis
      by (auto intro!: valid_fail simp: broken_def intro: undoable_none)
  next
    case rs: (Cons r rs)
    show ?thesis
      unfolding rs complete_all.simps by (rule valid_bind [OF step Cons.IH [OF c(4)]])
  qed
qed

lemma run_each_valid:
  assumes "list_all2 (write_safe F) sts pws" and "message_statuses F T U sts"
  shows "valid (\<lambda>s. undoable F (set sts \<union> T) U (fst s)) (eachP (\<lambda>pw. bindP (with_runner (runWrite env pw)) (complete pw)) pws)
    (\<lambda>_ s. undoable F T U (fst s)) (broken F)"
  using assms
proof (induction sts pws rule: list_all2_induct)
  case Nil
  then show ?case
    by (auto intro: valid_ret)
next
  case (Cons st sts pw pws)
  note c = message_statuses_Cons [OF Cons.prems]
  have step: "valid (\<lambda>s. undoable F (set (st # sts) \<union> T) U (fst s)) (complete pw r) (\<lambda>_ s. undoable F (set sts \<union> T) U (fst s)) (broken F)" for r
    using complete_valid [OF Cons.hyps(1) _ c(1,2)] unfolding c(3) by simp
  have "valid (\<lambda>s. undoable F (set (st # sts) \<union> T) U (fst s)) (bindP (with_runner (runWrite env pw)) (complete pw))
      (\<lambda>_ s. undoable F (set sts \<union> T) U (fst s)) (broken F)"
    by (rule keeps_then [OF with_runner_keeps [OF runWrite_keeps] step]) (auto simp: broken_def intro: undoable_none)
  then show ?case
    using Cons.IH [OF c(4)] by (auto intro: valid_bind)
qed

definition waiting :: "rollback_frame \<Rightarrow> status set \<Rightarrow> ptr set \<Rightarrow> status list \<Rightarrow> 'd calls \<Rightarrow> bool" where
  "waiting F T U sts s \<longleftrightarrow> message_statuses F T U sts \<and> undoable F (set sts \<union> T) U (fst s) \<and>
     (let pws = ms_writes (bc_current (snd s)) in
        list_all2 (write_safe F) sts pws \<and> map (Some \<circ> status_ptr) sts = map pw_instance pws)"

definition waits :: "rollback_frame \<Rightarrow> status set \<Rightarrow> ptr set \<Rightarrow> 'd calls \<Rightarrow> bool" where
  "waits F T U s \<longleftrightarrow> (\<exists>sts. waiting F T U sts s)"

lemma send_undoable:
  assumes s: "waits F T U s" and run: "send env s = (r, s')"
  shows "case r of Inl e \<Rightarrow> broken F e s' | Inr _ \<Rightarrow> waits F T U s' \<and> ms_writes (bc_current (snd s')) = []"
proof -
  obtain w c where s0: "s = (w, c)"
    by (cases s)
  obtain sts where sts: "message_statuses F T U sts" "undoable F (set sts \<union> T) U w" "list_all2 (write_safe F) sts (ms_writes (bc_current c))"
    using s unfolding waits_def waiting_def s0 Let_def by auto
  let ?pws = "ms_writes (bc_current c)"
  have T: "message_statuses F T U []"
    using sts(1) by (auto simp: message_statuses_def)
  have new: "bc_current (snd s') = newMessage"
    using send_plan [of env w c r "fst s'" "snd s'"] run s0 by simp
  have empty: "waits F T U s'" if "undoable F T U (fst s')"
    unfolding waits_def waiting_def using T that new by (intro exI [of _ "[]"]) (simp add: newMessage_def)
  show ?thesis
  proof (cases "?pws = []")
    case True
    then have "r = Inr ()" "fst s' = w"
      using run s0 by (auto simp: send_def bindP_def prog_defs on_call_def Let_def)
    moreover have "undoable F T U w"
      using undoable_mono [OF sts(2), of T U] by blast
    ultimately show ?thesis
      using empty new by (simp add: newMessage_def)
  next
    case False
    let ?c = "c\<lparr>bc_current := newMessage, bc_messages := bc_messages c + 1, bc_sent := bc_sent c @ [bc_current c]\<rparr>"
    let ?rest = "bindP (on_world (check_ctx env)) (\<lambda>_.
        case SendMessage env of
          Some batcher \<Rightarrow> bindP (on_world (outside (batcher (map message_statement ?pws)))) (complete_all ?pws)
        | None \<Rightarrow> eachP (\<lambda>pw. bindP (with_runner (runWrite env pw)) (complete pw)) ?pws)"
    have rest: "?rest (w, ?c) = (r, s')"
      using run s0 False by (simp add: send_def bindP_def prog_defs on_call_def Let_def)
    let ?I = "\<lambda>s. undoable F (set sts \<union> T) U (fst s)"
    have broken: "broken F e s" if "?I s" for e s
      using that by (auto simp: broken_def intro: undoable_none)
    have "valid ?I ?rest (\<lambda>_ s. undoable F T U (fst s)) (broken F)"
    proof (rule keeps_then [OF keeps_on_world [OF check_ctx_keeps] _ broken])
      show "valid ?I (case SendMessage env of
          Some batcher \<Rightarrow> bindP (on_world (outside (batcher (map message_statement ?pws)))) (complete_all ?pws)
        | None \<Rightarrow> eachP (\<lambda>pw. bindP (with_runner (runWrite env pw)) (complete pw)) ?pws) (\<lambda>_ s. undoable F T U (fst s)) (broken F)"
        using run_each_valid [OF sts(3,1)] keeps_then [OF keeps_on_world [OF outside_keeps] complete_all_valid [OF sts(3,1)] broken]
        by (cases "SendMessage env") simp_all
    qed
    from validD_Inr [OF this, of "(w, ?c)"] validD_Inl [OF this, of "(w, ?c)"]
    have "case r of Inl e \<Rightarrow> broken F e s' | Inr _ \<Rightarrow> undoable F T U (fst s')"
      using sts(2) rest by (cases r) simp_all
    then show ?thesis
      using empty new by (cases r) (simp_all add: newMessage_def)
  qed
qed


lemma send_valid: "valid (waits F T U) (send env) (\<lambda>_ s. waits F T U s) (broken F)"
  by (rule validI) (use send_undoable in fastforce)+

lemma waits_broken: "waits F T U s \<Longrightarrow> broken F e s"
  unfolding waits_def waiting_def broken_def by (blast intro: undoable_none)

lemma before_valid: "valid (waits F T U) (before env subj) (\<lambda>_. waits F T U) (broken F)"
proof (rule valid_case)
  fix s :: "'a calls"
  assume s: "waits F T U s"
  have send: "valid ((=) s) (send env) (\<lambda>_. waits F T U) (broken F)"
    by (rule valid_weaken [OF send_valid]) (use s in auto)
  have stay: "valid ((=) s) (retP ()) (\<lambda>_. waits F T U) (broken F)" "valid ((=) s) (failP e) (\<lambda>_. waits F T U) (broken F)" for e
    using s by (auto intro!: valid_ret valid_fail waits_broken)
  obtain w c where sc: "s = (w, c)"
    by (cases s)
  have "valid ((=) s) (if ms_writes (bc_current c) = [] then retP () else bindP (liftR (before_cut (w_mem w) (bc_current c) subj))
      (\<lambda>cut. if cut then send env else retP ())) (\<lambda>_. waits F T U) (broken F)"
    using send stay by (cases "before_cut (w_mem w) (bc_current c) subj") auto
  then show "valid ((=) s) (before env subj) (\<lambda>_. waits F T U) (broken F)"
    using sc by (simp add: before_def valid_def bindP_def getP_def)
qed

text \<open>A statement joins the message in progress with its status.\<close>

lemma waits_append:
  assumes s: "waits F {st} U (w, c)" and pw: "write_safe F st pw" "pw_instance pw = Some (status_ptr st)"
  shows "waits F {} U (w, c\<lparr>bc_current := add_write mem pw subj (bc_current c)\<rparr>)"
proof -
  obtain sts where sts: "waiting F {st} U sts (w, c)"
    using s unfolding waits_def by blast
  have "ms_writes (add_write mem pw subj (bc_current c)) = ms_writes (bc_current c) @ [pw]"
    by (simp add: add_write_def)
  then have "waiting F {} U (sts @ [st]) (w, c\<lparr>bc_current := add_write mem pw subj (bc_current c)\<rparr>)"
    using sts pw by (auto simp: waiting_def message_statuses_def Let_def list_all2_appendI)
  then show ?thesis
    unfolding waits_def by blast
qed

lemma add_valid:
  assumes pw: "write_safe F st pw" "pw_instance pw = Some (status_ptr st)"
  shows "valid (waits F {st} U) (add env pw subj) (\<lambda>_. waits F {} U) (broken F)"
  unfolding add_def
proof (intro valid_bind)
  show "valid (waits F {st} U) (getP (\<lambda>(w, c). add_cut env (bc_current c) pw)) (\<lambda>_. waits F {st} U) (broken F)"
    by (auto intro: valid_get)
  show "valid (waits F {st} U) (if cut then send env else retP ()) (\<lambda>_. waits F {st} U) (broken F)" for cut
    using send_valid by (cases cut) (auto intro: valid_ret)
  show "valid (waits F {st} U) (modifyP (\<lambda>(w, c). (w, c\<lparr>bc_current := add_write (w_mem w) pw subj (bc_current c)\<rparr>))) (\<lambda>_. waits F {} U) (broken F)"
    using waits_append [OF _ pw] by (auto intro!: valid_modify)
  show "valid (waits F {} U) (getP (\<lambda>(w, c). length (ms_writes (bc_current c)))) (\<lambda>_. waits F {} U) (broken F)"
    by (auto intro: valid_get)
  show "valid (waits F {} U) (if \<not> BatchingAuto env \<or> n \<ge> maxStatements env then send env else retP ()) (\<lambda>_. waits F {} U) (broken F)" for n
    using send_valid by (auto intro: valid_ret)
qed

section \<open>The steps of a flush within the journal\<close>

definition prepares :: "rollback_frame \<Rightarrow> ptr set \<Rightarrow> ptr set \<Rightarrow> ptr \<Rightarrow> ('d world, 'd preparedWrite option) prog \<Rightarrow> bool" where
  "prepares F U U' p prepare \<longleftrightarrow> (\<forall>S. p \<notin> status_ptr ` S \<longrightarrow>
     valid (undoable F S U) prepare
       (\<lambda>x w. case x of None \<Rightarrow> undoable F S U' w
          | Some pw \<Rightarrow> \<exists>st. status_ptr st = p \<and> pw_instance pw = Some p \<and> write_safe F st pw \<and> undoable F (insert st S) U' w)
       (\<lambda>_. undoable F {} {}))"

lemma plan_step_undoable:
  assumes prep: "prepares F U U' p prepare" "U' \<subseteq> U" "p \<notin> U'" and subj: "su_instance subj = Some p"
    and s: "waits F {} U (w, c)" "call_inv env c" and run: "plan_step env subj prepare (w, c) = (r, s')"
  shows "case r of Inl e \<Rightarrow> broken F e s' | Inr _ \<Rightarrow> waits F {} U' s'"
proof -
  obtain r1 w1 c1 where b: "before env subj (w, c) = (r1, w1, c1)"
    by (metis surj_pair)
  have b1: "case r1 of Inl e \<Rightarrow> broken F e (w1, c1) | Inr _ \<Rightarrow> waits F {} U (w1, c1)"
    using valid_run [OF before_valid s(1) b] .
  show ?thesis
  proof (cases r1)
    case (Inl e)
    then show ?thesis
      using run b b1 by (auto simp: plan_step_def bindP_def)
  next
    case (Inr u)
    obtain sts where sts: "waiting F {} U sts (w1, c1)"
      using b1 Inr by (auto simp: waits_def)
    have "message_ok env (bc_current c1)" "clear_of (bc_current c1) subj"
      using before_counts [OF b s(2)] Inr by (auto simp: call_inv_def)
    then have "\<nexists>pw. pw \<in> set (ms_writes (bc_current c1)) \<and> pw_instance pw = Some p"
      using subj by (auto simp: message_ok_def clear_of_def)
    moreover have "(Some \<circ> status_ptr) ` set sts = pw_instance ` set (ms_writes (bc_current c1))"
      using sts unfolding waiting_def Let_def by (metis list.set_map snd_conv)
    ultimately have fresh: "p \<notin> status_ptr ` set sts"
      by (metis comp_apply imageE image_eqI)
    have mid: "message_statuses F {} U' sts" "list_all2 (write_safe F) sts (ms_writes (bc_current c1))"
        "map (Some \<circ> status_ptr) sts = map pw_instance (ms_writes (bc_current c1))" "undoable F (set sts) U w1"
      using sts prep(2) by (auto simp: waiting_def message_statuses_def Let_def)
    obtain r2 w2 where p: "prepare w1 = (r2, w2)"
      by (metis surj_pair)
    have p2: "case r2 of Inl e \<Rightarrow> undoable F {} {} w2 | Inr None \<Rightarrow> undoable F (set sts) U' w2
        | Inr (Some pw) \<Rightarrow> \<exists>st. status_ptr st = p \<and> pw_instance pw = Some p \<and> write_safe F st pw \<and> undoable F (insert st (set sts)) U' w2"
      using valid_run [OF prep(1) [unfolded prepares_def, rule_format, OF fresh] mid(4) p] by (auto split: sum.splits option.splits)
    show ?thesis
    proof (cases r2)
      case (Inl e)
      then show ?thesis
        using run b p p2 Inr by (auto simp: plan_step_def bindP_def on_world_def broken_def)
    next
      case r2: (Inr x)
      show ?thesis
      proof (cases x)
        case None
        then have "waiting F {} U' sts (w2, c1)"
          using p2 r2 mid by (simp add: waiting_def)
        then show ?thesis
          using run b p Inr r2 None by (auto simp: plan_step_def bindP_def on_world_def prog_defs waits_def)
      next
        case (Some pw)
        then obtain st where st: "status_ptr st = p" "pw_instance pw = Some p" "write_safe F st pw" "undoable F (insert st (set sts)) U' w2"
          using p2 r2 by auto
        have "waiting F {st} U' sts (w2, c1)"
          using st mid fresh prep(3) by (auto simp: waiting_def message_statuses_def)
        then have w2: "waits F {st} U' (w2, c1)"
          unfolding waits_def by blast
        obtain r3 s3 where a: "add env pw subj (w2, c1) = (r3, s3)"
          by (metis surj_pair)
        have "case r3 of Inl e \<Rightarrow> broken F e s3 | Inr _ \<Rightarrow> waits F {} U' s3"
          using valid_run [OF add_valid [OF st(3)] w2 a] st(1,2) by simp
        then show ?thesis
          using run b p Inr r2 Some a by (cases r3) (auto simp: plan_step_def bindP_def on_world_def prog_defs)
      qed
    qed
  qed
qed


text \<open>The fields \<open>flowKeys\<close> writes for a scheduled insert.\<close>

definition flow_fields :: "scheduledInsert \<Rightarrow> (ptr \<times> string) set" where
  "flow_fields s = {si_ptr s} \<times>
     ((\<Union>r \<in> {r \<in> set (Relationships (si_m s)). RelKind r = RelationshipManyToOne}. set (ForeignKeyProperties r)) \<union>
      (\<Union>link \<in> {link \<in> set (si_links s). owner_link link}. set (ForeignKeyProperties (cl_relationship link))))"

lemma copyKey_keeps:
  assumes F: "frame_ok F" and names: "{p} \<times> set names \<subseteq> fr_free F"
  shows "keeps (undoable F S U) (copyKey sourceMap source (fr_map F p) p names)"
proof -
  have "writable F S p q" if "name \<in> set names" "Property (fr_map F p) name = Some q" for name q
    using that names by (auto simp: writable_def Property_def find_Some_iff)
  then show ?thesis
    unfolding copyKey_def
    by (auto intro!: keeps_intros keeps_bind setP_keeps F dest!: set_zip_rightD split: option.splits)
qed

lemma flowKeys_keeps:
  assumes F: "frame_ok F" and s: "si_m s = fr_map F (si_ptr s)" and free: "flow_fields s \<subseteq> fr_free F"
  shows "keeps (undoable F S U) (flowKeys s)"
  unfolding flowKeys_def
proof (intro keeps_bind keeps_each)
  fix r
  assume "r \<in> set (Relationships (si_m s))"
  then have "{si_ptr s} \<times> set (ForeignKeyProperties r) \<subseteq> fr_free F" if "RelKind r = RelationshipManyToOne"
    using free that by (auto simp: flow_fields_def)
  then show "keeps (undoable F S U) (flow_relationship s r)"
    unfolding flow_relationship_def s
    by (auto intro!: keeps_intros keeps_bind copyKey_keeps F split: list.splits)
next
  fix link
  assume "link \<in> set (si_links s)"
  then have "{si_ptr s} \<times> set (ForeignKeyProperties (cl_relationship link)) \<subseteq> fr_free F" if "owner_link link"
    using free that by (auto simp: flow_fields_def)
  then show "keeps (undoable F S U) (flow_link s link)"
    unfolding flow_link_def s by (auto intro!: keeps_intros copyKey_keeps F)
qed

lemma recordWrite_valid:
  assumes F: "frame_ok F" and S: "p \<notin> status_ptr ` S"
  shows "valid (undoable F S U) (recordWrite (fr_map F p) p)
    (\<lambda>_ w. \<exists>st. recorded_as F (insert st S) (U - {p}) p st w \<and> status_ptr st = p \<and> (p \<in> U \<longrightarrow> st = Open p)) (\<lambda>_. undoable F {} {})"
proof (rule validI)
  fix w :: "'a world" and e w'
  assume "undoable F S U w" "recordWrite (fr_map F p) p w = (Inl e, w')"
  then show "undoable F {} {} w'"
    using recordWrite_records [OF F _ S] by fastforce
next
  fix w :: "'a world" and x w'
  assume w: "undoable F S U w" and run: "recordWrite (fr_map F p) p w = (Inr x, w')"
  obtain items tr where tr: "journaled F items tr w" "\<forall>p \<in> U. byPtr tr p = None"
    using w unfolding undoable_def by blast
  note tr' = journaledD(1,3) [OF tr(1)]
  let ?st = "entry_status p (byPtr tr p)"
  have "w_db w' = w_db w" "undoable F (insert ?st S) (U - {p}) w'"
    using recordWrite_records [OF F w S run] tr'(2) by simp_all
  then have "recorded_as F (insert ?st S) (U - {p}) p ?st w'"
    using tr'(2) by (simp add: recorded_as_def)
  moreover have "te_ptr e = p" if "byPtr tr p = Some e" for e
    using byPtr_tracked [OF tr'(1)] that by blast
  then have "status_ptr ?st = p"
    by (auto simp: entry_status_def split: option.splits)
  moreover have "p \<in> U \<longrightarrow> ?st = Open p"
    using tr(2) by (simp add: entry_status_def)
  ultimately show "\<exists>st. recorded_as F (insert st S) (U - {p}) p st w' \<and> status_ptr st = p \<and> (p \<in> U \<longrightarrow> st = Open p)"
    by blast
qed

lemma insert_prepares:
  assumes F: "frame_ok F" and s: "si_m s = fr_map F (si_ptr s)" "flow_fields s \<subseteq> fr_free F" and U: "si_ptr s \<in> U"
  shows "prepares F U (U - {si_ptr s}) (si_ptr s)
    (bindP (flowKeys s) (\<lambda>_. bindP (recordWrite (si_m s) (si_ptr s)) (\<lambda>_.
       bindP (prepareInsert env (Type (si_m s)) (si_ptr s)) (\<lambda>pw. retP (Some pw)))))"
  unfolding prepares_def s(1)
proof (intro allI impI)
  fix S
  assume S: "si_ptr s \<notin> status_ptr ` S"
  let ?p = "si_ptr s"
  let ?Q = "\<lambda>x w. case x of None \<Rightarrow> undoable F S (U - {?p}) w
      | Some pw \<Rightarrow> \<exists>st. status_ptr st = ?p \<and> pw_instance pw = Some ?p \<and> write_safe F st pw \<and> undoable F (insert st S) (U - {?p}) w"
  have prep: "valid (undoable F (insert (Open ?p) S) (U - {?p})) (bindP (prepareInsert env (Type (fr_map F ?p)) ?p) (\<lambda>pw. retP (Some pw))) ?Q
      (\<lambda>_. undoable F {} {})"
  proof (rule validI)
    fix w :: "'a world" and x w'
    assume w: "undoable F (insert (Open ?p) S) (U - {?p}) w"
      and run: "bindP (prepareInsert env (Type (fr_map F ?p)) ?p) (\<lambda>pw. retP (Some pw)) w = (Inr x, w')"
    then obtain pw where pw: "prepareInsert env (Type (fr_map F ?p)) ?p w = (Inr pw, w')" "x = Some pw"
      by (auto simp: bindP_Inr_iff retP_def)
    have "write_safe F (Open ?p) pw" "undoable F (insert (Open ?p) S) (U - {?p}) w'"
      using validD_Inr [OF prepareInsert_safe [OF F, unfolded yields_def] w pw(1)] by auto
    moreover have "pw_instance pw = Some ?p"
      using returnsD [OF prepareInsert_instance pw(1)] .
    ultimately show "?Q x w'"
      using pw(2) by (auto intro!: exI [of _ "Open ?p"])
  next
    fix w :: "'a world" and e w'
    assume w: "undoable F (insert (Open ?p) S) (U - {?p}) w"
      and run: "bindP (prepareInsert env (Type (fr_map F ?p)) ?p) (\<lambda>pw. retP (Some pw)) w = (Inl e, w')"
    then have "prepareInsert env (Type (fr_map F ?p)) ?p w = (Inl e, w')"
      by (auto simp: bindP_Inl_iff retP_def)
    then show "undoable F {} {} w'"
      using validD_Inl [OF prepareInsert_safe [OF F insertI1, unfolded yields_def] w] by (blast intro: undoable_none)
  qed
  have "valid (undoable F S U) (recordWrite (fr_map F ?p) ?p) (\<lambda>_. undoable F (insert (Open ?p) S) (U - {?p})) (\<lambda>_. undoable F {} {})"
    by (rule valid_weaken [OF recordWrite_valid [OF F S]]) (use U in \<open>auto simp: recorded_as_def\<close>)
  note rest = valid_bind [OF this prep]
  show "valid (undoable F S U) (bindP (flowKeys s) (\<lambda>_. bindP (recordWrite (fr_map F ?p) ?p) (\<lambda>_.
      bindP (prepareInsert env (Type (fr_map F ?p)) ?p) (\<lambda>pw. retP (Some pw))))) ?Q (\<lambda>_. undoable F {} {})"
    by (rule keeps_then [OF flowKeys_keeps [OF F s] rest]) (auto intro: undoable_none)
qed


lemma recorded_prepares:
  assumes F: "frame_ok F"
    and prep: "\<And>S st. valid (recorded_as F S {} p st) prepare
      (\<lambda>x w. undoable F S {} w \<and> (\<forall>pw. x = Some pw \<longrightarrow> write_safe F st pw)) (\<lambda>_. undoable F S {})"
    and own: "returns (\<lambda>x. \<forall>pw. x = Some pw \<longrightarrow> pw_instance pw = Some p) prepare"
  shows "prepares F {} {} p (bindP (recordWrite (fr_map F p) p) (\<lambda>_. prepare))"
  unfolding prepares_def
proof (intro allI impI, rule valid_bind [OF recordWrite_valid [OF F]], assumption, rule valid_exists)
  fix S st
  let ?Q = "\<lambda>x w. case x of None \<Rightarrow> undoable F S {} w
      | Some pw \<Rightarrow> \<exists>st. status_ptr st = p \<and> pw_instance pw = Some p \<and> write_safe F st pw \<and> undoable F (insert st S) {} w"
  show "valid (\<lambda>w. recorded_as F (insert st S) ({} - {p}) p st w \<and> status_ptr st = p \<and> (p \<in> {} \<longrightarrow> st = Open p)) prepare ?Q (\<lambda>_. undoable F {} {})"
  proof (rule validI)
    fix w :: "'a world" and x w'
    assume w: "recorded_as F (insert st S) ({} - {p}) p st w \<and> status_ptr st = p \<and> (p \<in> {} \<longrightarrow> st = Open p)"
      and run: "prepare w = (Inr x, w')"
    then have "undoable F (insert st S) {} w'" "\<forall>pw. x = Some pw \<longrightarrow> write_safe F st pw"
      using validD_Inr [OF prep, of "insert st S" st w x w'] by auto
    moreover have "undoable F S {} w'"
      by (rule undoable_mono [OF calculation(1)]) auto
    ultimately show "?Q x w'"
      using returnsD [OF own run] w by (auto split: option.splits)
  next
    fix w :: "'a world" and e w'
    assume "recorded_as F (insert st S) ({} - {p}) p st w \<and> status_ptr st = p \<and> (p \<in> {} \<longrightarrow> st = Open p)" "prepare w = (Inl e, w')"
    then show "undoable F {} {} w'"
      using validD_Inl [OF prep, of "insert st S" st w e w'] by (auto intro: undoable_none)
  qed
qed

lemma update_prepares:
  assumes "frame_ok F" and "te_m e = fr_map F (te_ptr e)"
  shows "prepares F {} {} (te_ptr e) (bindP (recordWrite (te_m e) (te_ptr e)) (\<lambda>_. prepareUpdate env (Type (te_m e)) (te_ptr e)))"
  unfolding assms(2) by (rule recorded_prepares [OF assms(1) prepareUpdate_safe [OF assms(1)] prepareUpdate_instance])

lemma delete_prepares:
  assumes F: "frame_ok F" and s: "sr_m s = fr_map F (sr_ptr s)"
  shows "prepares F {} {} (sr_ptr s) (bindP (recordWrite (sr_m s) (sr_ptr s)) (\<lambda>_.
    bindP (prepareDeleteEntity env (Type (sr_m s)) (sr_ptr s)) (\<lambda>pw. retP (Some pw))))"
  unfolding s
proof (rule recorded_prepares [OF F _ returns_Some [OF prepareDeleteEntity_instance]])
  fix S st
  show "valid (recorded_as F S {} (sr_ptr s) st) (bindP (prepareDeleteEntity env (Type (fr_map F (sr_ptr s))) (sr_ptr s)) (\<lambda>pw. retP (Some pw)))
      (\<lambda>x w. undoable F S {} w \<and> (\<forall>pw. x = Some pw \<longrightarrow> write_safe F st pw)) (\<lambda>_. undoable F S {})"
    by (rule valid_bind [OF prepareDeleteEntity_safe [OF F]]) (auto intro: valid_ret)
qed

text \<open>The invariant between the steps of a flush; \<open>U\<close> holds the instances still to be inserted.\<close>

definition between :: "rollback_frame \<Rightarrow> 'd env \<Rightarrow> ptr set \<Rightarrow> 'd calls \<Rightarrow> bool" where
  "between F env U s \<longleftrightarrow> waits F {} U s \<and> call_inv env (snd s)"

lemma plan_step_between:
  assumes step: "\<And>w c. m (w, c) = plan_step env (subj w) prepare (w, c)" and counts: "step_counts env m"
    and subj: "\<And>w. su_instance (subj w) = Some p" and prep: "prepares F U U' p prepare" "U' \<subseteq> U" "p \<notin> U'"
  shows "valid (between F env U) m (\<lambda>_. between F env U') (broken F)"
proof (rule validI)
  fix s x s'
  assume s: "between F env U s" and run: "m s = (Inr x, s')"
  have "waits F {} U' s'"
    using plan_step_undoable [OF prep subj, where w = "fst s" and c = "snd s" and env = env and r = "Inr x" and s' = s'] s run step [of "fst s" "snd s"]
    by (simp add: between_def)
  moreover have "call_inv env (snd s')"
    using counts s run unfolding step_counts_def between_def by (metis surjective_pairing)
  ultimately show "between F env U' s'"
    by (simp add: between_def)
next
  fix s e s'
  assume s: "between F env U s" and run: "m s = (Inl e, s')"
  then show "broken F e s'"
    using plan_step_undoable [OF prep subj, where w = "fst s" and c = "snd s" and env = env and r = "Inl e" and s' = s'] step [of "fst s" "snd s"]
    by (simp add: between_def)
qed

lemma flush_insert_valid:
  assumes "frame_ok F" "si_m s = fr_map F (si_ptr s)" "flow_fields s \<subseteq> fr_free F" "si_ptr s \<in> U"
  shows "valid (between F env U) (flush_insert env s) (\<lambda>_. between F env (U - {si_ptr s})) (broken F)"
  by (rule valid_drop_result, rule plan_step_between [OF flush_insert_step flush_steps(1) _ insert_prepares [OF assms]])
    (auto simp: flush_subject_def)

lemma flush_update_valid:
  assumes "frame_ok F" "te_m e = fr_map F (te_ptr e)"
  shows "valid (between F env {}) (flush_update env e) (\<lambda>_. between F env {}) (broken F)"
  by (rule plan_step_between [OF flush_update_step flush_steps(2) _ update_prepares [OF assms]]) (auto simp: flush_subject_def)

lemma flush_delete_valid:
  assumes "frame_ok F" "sr_m s = fr_map F (sr_ptr s)"
  shows "valid (between F env {}) (flush_delete env s) (\<lambda>_. between F env {}) (broken F)"
  by (rule valid_drop_result, rule plan_step_between [OF flush_delete_step flush_steps(3) _ delete_prepares [OF assms]])
    (auto simp: flush_subject_def)

lemma insert_phase_valid:
  assumes "frame_ok F" "distinct (map si_ptr ss)" "\<forall>s \<in> set ss. si_m s = fr_map F (si_ptr s) \<and> flow_fields s \<subseteq> fr_free F"
  shows "valid (between F env (si_ptr ` set ss)) (eachP (flush_insert env) ss) (\<lambda>_. between F env {}) (broken F)"
  using assms(2,3)
proof (induction ss)
  case (Cons s ss)
  then have "si_ptr ` set (s # ss) - {si_ptr s} = si_ptr ` set ss"
    by auto
  then have "valid (between F env (si_ptr ` set (s # ss))) (flush_insert env s) (\<lambda>_. between F env (si_ptr ` set ss)) (broken F)"
    using flush_insert_valid [OF assms(1), of s "si_ptr ` set (s # ss)" env] Cons.prems by simp
  then show ?case
    using Cons by (auto intro: valid_bind)
qed (auto intro: valid_ret)

lemma count_each_valid:
  "(\<And>x. x \<in> set xs \<Longrightarrow> valid I (f x) (\<lambda>_. I) E) \<Longrightarrow> valid I (count_each f xs) (\<lambda>_. I) E"
proof (induction xs)
  case (Cons x xs)
  have "valid I (bindP (count_each f xs) (\<lambda>n. retP (if b then Suc n else n))) (\<lambda>_. I) E" for b
    by (rule valid_bind [OF Cons.IH]) (auto intro: Cons.prems valid_ret)
  then show ?case
    using Cons.prems [of x] by (auto intro: valid_bind)
qed (auto intro: valid_ret)

lemma executeFlush_valid:
  assumes F: "frame_ok F" and ins: "distinct (map si_ptr (fp_inserts plan))"
      "\<forall>s \<in> set (fp_inserts plan). si_m s = fr_map F (si_ptr s) \<and> flow_fields s \<subseteq> fr_free F"
    and upd: "\<forall>e \<in> set (fp_dirty plan). te_m e = fr_map F (te_ptr e)" and del: "\<forall>s \<in> set (fp_deletes plan). sr_m s = fr_map F (sr_ptr s)"
  shows "valid (between F env (si_ptr ` set (fp_inserts plan))) (executeFlush env plan) (\<lambda>_. broken F e) (broken F)"
  unfolding executeFlush_def finish_def
proof (intro valid_bind)
  show "valid (between F env (si_ptr ` set (fp_inserts plan))) (eachP (flush_insert env) (fp_inserts plan)) (\<lambda>_. between F env {}) (broken F)"
    using insert_phase_valid [OF F ins] .
  show "valid (between F env {}) (count_each (flush_update env) (fp_dirty plan)) (\<lambda>_. between F env {}) (broken F)"
    using flush_update_valid [OF F] upd by (auto intro: count_each_valid)
  show "valid (between F env {}) (eachP (flush_delete env) (fp_deletes plan)) (\<lambda>_. between F env {}) (broken F)"
    using flush_delete_valid [OF F] del by (auto intro: valid_each)
  show "valid (between F env {}) (send env) (\<lambda>_. broken F e) (broken F)"
    by (rule valid_weaken [OF send_valid]) (auto simp: between_def intro: waits_broken)
qed (auto intro: valid_ret)


section \<open>A failed call\<close>

text \<open>What a call that fails must give back, up to the fields in \<open>X\<close>.\<close>

definition put_back :: "(gotype \<Rightarrow> go_kind list) \<Rightarrow> (ptr \<times> string) set \<Rightarrow> 'd world \<Rightarrow> 'd world \<Rightarrow> bool" where
  "put_back kinds X w w' \<longleftrightarrow> w_tx w' = w_tx w \<and>
     (\<exists>tr tr'. db_tracker (w_db w) = Some tr \<and> w_db w' = (w_db w)\<lparr>db_tracker := Some tr'\<rparr> \<and>
        restored kinds X (w_mem w, tr) (w_mem w', tr'))"

lemma put_back_refl:
  assumes "db_tracker (w_db w) = Some tr" "tracker_inv kinds tr" "w_mem w' = w_mem w" "w_db w' = w_db w" "w_tx w' = w_tx w"
  shows "put_back kinds X w w'"
  unfolding put_back_def
  by (intro conjI exI [of _ tr]) (use assms db_tracker_id [OF assms(1)] in \<open>simp_all add: restored_def\<close>)

lemma rollback_restores:
  assumes u: "undoable F {} {} w" and same: "w_mem w' = w_mem w" "w_db w' = w_db w" "w_journal w' = w_journal w"
  shows "\<exists>mem tr. rollback w' = (Inr (), w'\<lparr>w_mem := mem, w_db := (fr_db F)\<lparr>db_tracker := Some tr\<rparr>, w_journal := Some []\<rparr>) \<and>
    restored (fr_kinds F) (fr_free F) (fr_start F) (mem, tr)"
proof -
  obtain items tr where j: "journaled F items tr w"
    using u unfolding undoable_def by blast
  have inv: "journal_inv (fr_kinds F) (fr_free F) (fr_start F) items (w_mem w, tr)"
    using journaledD(7) [OF j] .
  then have "agree (fr_free F) items (w_mem w, tr) (w_mem w, tr)" "tracker_ok (fr_kinds F) items tr"
    using agree_refl journal_invD(1,2) [OF inv] by auto
  then have "rolls_back (fr_kinds F) (fr_free F) (fr_start F) items (w_mem w, tr)"
    using inv unfolding journal_inv_def by simp
  then obtain mem' tr' where "res_fold (\<lambda>undo s. undo s) (map undo_of items) (w_mem w, w_db w) = Inr (mem', (w_db w)\<lparr>db_tracker := Some tr'\<rparr>)"
      "restored (fr_kinds F) (fr_free F) (fr_start F) (mem', tr')"
    using journaledD(3) [OF j] unfolding rolls_back_def by auto
  then show ?thesis
    using j same by (auto simp: rollback_def journaled_def rev_map)
qed

lemma in_transaction_put_back:
  assumes F: "fr_tx F" "fr_kinds F = kinds" "fr_free F = X" "fr_start F = (w_mem w, tr)" "fr_db F = w_db w"
    and w: "db_tracker (w_db w) = Some tr" "tracker_inv kinds tr"
    and body: "\<And>d. case body (w\<lparr>w_ext := d, w_tx := True, w_journal := Some []\<rparr>) of (r, w1) \<Rightarrow> undoable F {} {} w1"
    and run: "in_transaction env body w = (Inl e, w')" "e \<noteq> GoPanic"
  shows "put_back kinds X w w'"
proof (cases "w_tx w")
  case True
  let ?w = "w\<lparr>w_journal := Some []\<rparr>"
  have start: "?w = w\<lparr>w_ext := w_ext w, w_tx := True, w_journal := Some []\<rparr>"
    using True by simp
  obtain r w1 where b: "body ?w = (r, w1)"
    by (metis surj_pair)
  have u: "undoable F {} {} w1"
    using body [of "w_ext w"] b unfolding start by simp
  then have tx: "w_tx w1"
    using F(1) unfolding undoable_def journaled_def by blast
  obtain e1 where r: "r = Inl e1"
    using run(1) b True by (cases r) (auto simp: in_transaction_def bindP_def prog_defs)
  obtain mem tr' where undone: "rollback w1 = (Inr (), w1\<lparr>w_mem := mem, w_db := (fr_db F)\<lparr>db_tracker := Some tr'\<rparr>, w_journal := Some []\<rparr>)"
      "restored (fr_kinds F) (fr_free F) (fr_start F) (mem, tr')"
    using rollback_restores [OF u refl refl refl] by blast
  have e: "e1 = e"
    using run b r True undone(1) by (auto simp: in_transaction_def bindP_def prog_defs split: if_splits)
  then show ?thesis
    using run b r True undone F w(1) tx by (auto simp: in_transaction_def bindP_def prog_defs put_back_def)
next
  case False
  show ?thesis
  proof (cases "Begin env w")
    case (Pair rb wb)
    have mem: "w_mem wb = w_mem w" "w_db wb = w_db w"
      using Pair False by (auto simp: Begin_def bindP_def prog_defs check_ctx_def outside_def split: option.splits prod.splits sum.splits)
    show ?thesis
    proof (cases rb)
      case (Inl eb)
      then have "w_tx wb = w_tx w" "w' = wb"
        using Pair run(1) False
        by (auto simp: Begin_def in_transaction_def bindP_def prog_defs check_ctx_def outside_def split: option.splits prod.splits sum.splits)
      then show ?thesis
        using put_back_refl [OF w] mem by simp
    next
      case (Inr u)
      have wb: "wb\<lparr>w_journal := Some []\<rparr> = w\<lparr>w_ext := w_ext wb, w_tx := True, w_journal := Some []\<rparr>"
        using Pair False Inr
        by (auto simp: Begin_def bindP_def prog_defs check_ctx_def outside_def split: option.splits prod.splits sum.splits)
      obtain r w1 where b: "body (wb\<lparr>w_journal := Some []\<rparr>) = (r, w1)"
        by (metis surj_pair)
      have un: "undoable F {} {} w1"
        using body [of "w_ext wb"] b unfolding wb by simp
      show ?thesis
      proof (cases r)
        case r: (Inl e1)
        obtain mem tr' where undone: "rollback w1 = (Inr (), w1\<lparr>w_mem := mem, w_db := (fr_db F)\<lparr>db_tracker := Some tr'\<rparr>, w_journal := Some []\<rparr>)"
            "restored (fr_kinds F) (fr_free F) (fr_start F) (mem, tr')"
          using rollback_restores [OF un refl refl refl] by blast
        have "e1 = e"
          using run Pair Inr False b r undone(1) by (auto simp: in_transaction_def bindP_def prog_defs Let_def split: if_splits)
        then show ?thesis
          using run Pair Inr False b r undone F w(1)
          by (auto simp: in_transaction_def bindP_def prog_defs Let_def put_back_def Rollback_def outside_def split: prod.splits)
      next
        case r: (Inr x)
        obtain rc wc where c: "Commit env w1 = (rc, wc)"
          by (metis surj_pair)
        have same: "w_mem wc = w_mem w1" "w_db wc = w_db w1" "w_journal wc = w_journal w1" "\<not> w_tx wc"
          using c by (auto simp: Commit_def outside_def split: prod.splits)
        obtain ec where rc: "rc = Inl ec"
          using run(1) Pair Inr False b r c by (cases rc) (auto simp: in_transaction_def bindP_def prog_defs Let_def)
        obtain mem tr' where undone: "rollback wc = (Inr (), wc\<lparr>w_mem := mem, w_db := (fr_db F)\<lparr>db_tracker := Some tr'\<rparr>, w_journal := Some []\<rparr>)"
            "restored (fr_kinds F) (fr_free F) (fr_start F) (mem, tr')"
          using rollback_restores [OF un same(1-3)] by blast
        have "ec = e"
          using run Pair Inr False b r c rc undone(1) by (auto simp: in_transaction_def bindP_def prog_defs Let_def split: if_splits)
        then show ?thesis
          using run Pair Inr False b r c rc undone F w(1) same(4)
          by (auto simp: in_transaction_def bindP_def prog_defs Let_def put_back_def)
      qed
    qed
  qed
qed


section \<open>A flush that fails\<close>

text \<open>
  A tracked session whose store and maps fit together: every instance has the map of its type, its
  fields hold values of their types, the tracker and the schedule know instances by these maps.
\<close>

definition session_fits :: "(gotype \<Rightarrow> go_kind list) \<Rightarrow> (ptr \<Rightarrow> EntityMap) \<Rightarrow> 'd world \<Rightarrow> bool" where
  "session_fits kinds mp w \<longleftrightarrow>
     (\<exists>tr. db_tracker (w_db w) = Some tr \<and> tracker_inv kinds tr \<and> (\<forall>e \<in> tracked tr. te_m e = mp (te_ptr e))) \<and>
     typed_store mp (w_mem w) \<and> (\<forall>p. sound_map kinds (mp p) \<and> db_maps (w_db w) (Type (mp p)) = Inr (mp p)) \<and>
     uow_inv (schedule (w_db w)) \<and>
     (\<forall>s \<in> set (uw_inserts (schedule (w_db w))). si_m s = mp (si_ptr s)) \<and>
     (\<forall>s \<in> set (uw_removes (schedule (w_db w))). sr_m s = mp (sr_ptr s))"

text \<open>The foreign keys that flow to the scheduled inserts stay as the flush left them.\<close>

definition scheduled_keys :: "unitOfWork \<Rightarrow> (ptr \<times> string) set" where
  "scheduled_keys u = (\<Union>s \<in> set (uw_inserts u). flow_fields s)"

lemma distinct_filter_map: "distinct (map f xs) \<Longrightarrow> distinct (map f (filter P xs))"
  by (simp add: distinct_map inj_on_def)

lemma dirty_loop_subset: "dirty_loop mem db tr entries = Inr dirty \<Longrightarrow> set dirty \<subseteq> set entries"
  by (induction entries arbitrary: dirty) (fastforce simp: bindR_Inr_iff split: if_splits)+

lemma phase_order_items: "phase_order B lt xs ys \<Longrightarrow> distinct (map f xs) \<Longrightarrow> set ys = set xs \<and> distinct (map f ys)"
proof -
  assume "phase_order B lt xs ys" and d: "distinct (map f xs)"
  then have "mset ys = mset xs"
    by (simp add: phase_order_def)
  then have "mset (map f ys) = mset (map f xs)" "set ys = set xs"
    by (simp, metis set_mset_mset)
  then show ?thesis
    using d by (metis mset_eq_imp_distinct_iff)
qed

lemma orderInserts_items:
  assumes "orderInserts mem inserts ranks = Inr ys" and d: "distinct (map si_ptr inserts)"
  shows "set ys = set inserts \<and> distinct (map si_ptr ys)"
proof -
  have "phase_order (insert_after mem) (insert_before ranks) inserts ys"
    using dependencyOrder_phase [OF insert_table [OF d] _ il.strict_weak_axioms, of mem ranks] assms distinct_map [THEN iffD1, OF d]
    by (auto simp: orderInserts_def insert_less_items split: if_splits)
  then show ?thesis
    using phase_order_items d by blast
qed

lemma orderDeletes_items:
  assumes "orderDeletes mem removes ranks = Inr ys" and d: "distinct (map sr_ptr removes)"
  shows "set ys = set removes"
proof -
  have "phase_order (delete_after mem) (delete_before ranks) removes ys"
    using dependencyOrder_phase [OF delete_table [OF d] _ dl.strict_weak_axioms, of mem ranks] assms distinct_map [THEN iffD1, OF d]
    by (auto simp: orderDeletes_def delete_less_items split: if_splits)
  then show ?thesis
    using phase_order_items d by blast
qed

lemma planFlush_items:
  assumes plan: "planFlush depth mem db = Inr plan" and u: "uow_inv (schedule db)" and tr: "db_tracker db = Some tr" "tracker_inv kinds tr"
  shows "distinct (map si_ptr (fp_inserts plan))" "\<forall>s \<in> set (fp_inserts plan). s \<in> set (uw_inserts (schedule db)) \<and> byPtr tr (si_ptr s) = None"
    "set (fp_dirty plan) \<subseteq> tracked tr" "set (fp_deletes plan) \<subseteq> set (uw_removes (schedule db))"
proof -
  obtain inserts removes where pw: "pendingWork db = (inserts, removes)"
    by (metis surj_pair)
  obtain dirty ranks oi od where p: "dirtyEntries mem db = Inr dirty" "orderInserts mem inserts ranks = Inr oi" "orderDeletes mem removes ranks = Inr od"
      "plan = \<lparr>fp_inserts = oi, fp_dirty = sort_dirty ranks dirty, fp_deletes = od\<rparr>"
    using plan pw by (auto simp: planFlush_def bindR_Inr_iff)
  have d: "distinct (map si_ptr inserts)" "distinct (map sr_ptr removes)"
      "set inserts = {s \<in> set (uw_inserts (schedule db)). byPtr tr (si_ptr s) = None}" "set removes \<subseteq> set (uw_removes (schedule db))"
    using u pw tr(1) by (auto simp: pendingWork_def uow_inv_def distinct_filter_map entryOf_def)
  show "distinct (map si_ptr (fp_inserts plan))" "\<forall>s \<in> set (fp_inserts plan). s \<in> set (uw_inserts (schedule db)) \<and> byPtr tr (si_ptr s) = None"
    using orderInserts_items [OF p(2) d(1)] d(3) p(4) by auto
  show "set (fp_deletes plan) \<subseteq> set (uw_removes (schedule db))"
    using orderDeletes_items [OF p(3) d(2)] d(4) p(4) by simp
  have "set dirty \<subseteq> tracked tr"
    using p(1) tr dirty_loop_subset [of mem db tr "tracker_all tr" dirty] tracker_all_sorted(1) [OF tr(2)]
    by (simp add: dirtyEntries_def the_tracker_def)
  then show "set (fp_dirty plan) \<subseteq> tracked tr"
    using p(4) by (simp add: sort_dirty_def)
qed

lemma flush_put_back:
  assumes fits: "session_fits kinds mp w" and plan: "planFlush depth (w_mem w) (w_db w) = Inr plan"
    and run: "in_transaction env (run_call env (executeFlush env plan)) w = (Inl e, w')" "e \<noteq> GoPanic"
  shows "put_back kinds (scheduled_keys (schedule (w_db w))) w w'"
proof -
  obtain tr where tr: "db_tracker (w_db w) = Some tr" "tracker_inv kinds tr" "\<forall>e \<in> tracked tr. te_m e = mp (te_ptr e)"
    using fits unfolding session_fits_def by blast
  have u: "uow_inv (schedule (w_db w))" and typed: "typed_store mp (w_mem w)"
    using fits by (simp_all add: session_fits_def)
  note items = planFlush_items [OF plan u tr(1,2)]
  let ?X = "scheduled_keys (schedule (w_db w))"
  let ?F = "\<lparr>fr_kinds = kinds, fr_map = mp, fr_free = ?X, fr_start = (w_mem w, tr), fr_db = w_db w, fr_tx = True\<rparr>"
  have F: "frame_ok ?F"
    using fits by (simp add: frame_ok_def session_fits_def)
  have ins: "\<forall>s \<in> set (fp_inserts plan). si_m s = fr_map ?F (si_ptr s) \<and> flow_fields s \<subseteq> fr_free ?F"
    using items(2) fits by (auto simp: session_fits_def scheduled_keys_def)
  have upd: "\<forall>e \<in> set (fp_dirty plan). te_m e = fr_map ?F (te_ptr e)" and del: "\<forall>s \<in> set (fp_deletes plan). sr_m s = fr_map ?F (sr_ptr s)"
    using items(3,4) tr(3) fits by (auto simp: session_fits_def)
  have body: "case run_call env (executeFlush env plan) (w\<lparr>w_ext := d, w_tx := True, w_journal := Some []\<rparr>) of (r, w1) \<Rightarrow> undoable ?F {} {} w1" for d
  proof -
    let ?w = "w\<lparr>w_ext := d, w_tx := True, w_journal := Some []\<rparr>" and ?U = "si_ptr ` set (fp_inserts plan)"
    have "journaled ?F [] tr ?w"
      using journal_inv_start [of kinds "(w_mem w, tr)" ?X] tr typed db_tracker_id [OF tr(1)] by (simp add: journaled_def)
    then have "undoable ?F {} ?U ?w"
      unfolding undoable_def using items(2) by (intro exI [of _ "[]"] exI [of _ tr]) auto
    then have "waits ?F {} ?U (?w, newCall env)"
      unfolding waits_def waiting_def by (intro exI [of _ "[]"]) (simp add: message_statuses_def newCall_def newMessage_def)
    then have start: "between ?F env ?U (?w, newCall env)"
      using call_inv_new(1) [of env] by (simp add: between_def)
    obtain r s' where "executeFlush env plan (?w, newCall env) = (r, s')"
      by (metis surj_pair)
    then show ?thesis
      using valid_run [OF executeFlush_valid [OF F items(1) ins upd del] start, of r s']
      by (cases r; cases s') (auto simp: run_call_def broken_def)
  qed
  show ?thesis
    by (rule in_transaction_put_back [OF _ _ _ _ _ tr(1,2) body run]) simp_all
qed

text \<open>Two scheduled inserts; the connection is lost at the second statement.\<close>

definition sample_failing :: "nat env" where
  "sample_failing = (sample_env False 1)\<lparr>ExecContext := \<lambda>sql args d. if d = 0 then (Inr (Inr 1), 1) else (Inl (PlainError ''connection lost''), d)\<rparr>"

definition sample_pending :: "nat world" where
  "sample_pending = sample_world (sample_memory 5) (sample_db\<lparr>db_uow := Some
     \<lparr>uw_inserts = [sample_new_order, sample_new_order\<lparr>si_ptr := 8, si_order := 2\<rparr>], uw_removes = [], uw_counter = 2\<rparr>\<rparr>)"

lemma sample_fits: "session_fits sample_kinds (\<lambda>_. sample_map) sample_pending"
proof -
  have m: "sound_map sample_kinds sample_map"
    by (simp add: sound_map_def sample_defs sample_kinds_def KeyProperties_def)
  have t: "typed_store (\<lambda>_. sample_map) (sample_memory 5)"
    by (simp add: typed_store_def field_typed_def sample_defs)
  have u: "uow_inv \<lparr>uw_inserts = [sample_new_order, sample_new_order\<lparr>si_ptr := 8, si_order := 2\<rparr>], uw_removes = [], uw_counter = 2\<rparr>"
    by (simp add: uow_inv_def sample_new_order_def)
  show ?thesis
    using m t u tracker_inv_new tracked_new
    by (simp add: session_fits_def sample_pending_def sample_world_def sample_db_def schedule_def sample_new_order_def)
qed

text \<open>
  C1: a flush that fails leaves the session as it was. When \<open>Flush\<close> of a tracked session returns an
  error, whichever statement, completion or commit failed and however the statements were
  batched, the tracker is again sound and tracks exactly the entries it tracked before with the
  snapshots they had, every field of every instance has its previous value except the foreign
  keys that flowed to scheduled inserts, no navigation changed, the schedule still holds the work,
  and a transaction is open exactly if one was.
\<close>

theorem Flush_failure_restores:
  assumes "session_fits kinds mp w" and "Flush env depth w = (Inl e, w')" and "e \<noteq> GoPanic"
  shows "put_back kinds (scheduled_keys (schedule (w_db w))) w w'"
proof -
  obtain tr where tr: "db_tracker (w_db w) = Some tr" "tracker_inv kinds tr"
    using assms(1) unfolding session_fits_def by blast
  have stay: ?thesis if "w' = w"
    using that put_back_refl [OF tr] by simp
  show ?thesis
  proof (cases "planFlush depth (w_mem w) (w_db w)")
    case (Inl e')
    then have "w' = w"
      using assms(2) tr(1) by (auto simp: Flush_def bindP_def prog_defs requireUnitOfWork_def check_ctx_def split: option.splits)
    then show ?thesis
      by (rule stay)
  next
    case (Inr plan)
    show ?thesis
    proof (cases "ctx_Err env (w_ext w)")
      case (Some e')
      then have "w' = w"
        using assms(2) tr(1) by (auto simp: Flush_def bindP_def prog_defs requireUnitOfWork_def check_ctx_def)
      then show ?thesis
        by (rule stay)
    next
      case None
      have "in_transaction env (run_call env (executeFlush env plan)) w = (Inl e, w')"
        using assms(2) None Inr tr(1)
        by (auto simp: Flush_def bindP_def prog_defs requireUnitOfWork_def check_ctx_def clear_schedule_def split: if_splits prod.splits sum.splits)
      then show ?thesis
        using flush_put_back [OF assms(1) Inr] assms(3) by blast
    qed
  qed
qed

theorem Flush_failure_restores_witness:
  "\<exists>w'. Flush sample_failing 3 sample_pending = (Inl (PlainError ''connection lost''), w') \<and> w_ext w' = 1 \<and>
     put_back sample_kinds {} sample_pending w'"
proof -
  have run: "(case Flush sample_failing 3 sample_pending of (r, w) \<Rightarrow> (r, w_ext w)) = (Inl (PlainError ''connection lost''), 1)"
    by code_simp
  then obtain w' where w': "Flush sample_failing 3 sample_pending = (Inl (PlainError ''connection lost''), w')" "w_ext w' = 1"
    by (auto split: prod.splits)
  have "scheduled_keys (schedule (w_db sample_pending)) = {}"
    by (simp add: scheduled_keys_def flow_fields_def sample_pending_def sample_world_def schedule_def sample_new_order_def sample_map_def)
  then show ?thesis
    using Flush_failure_restores [OF sample_fits w'(1)] w' by simp
qed

end
