(* ===== verification/Decimals.thy ===== *)
theory Decimals
  imports Keys
begin

text \<open>
  Decimal values (\<open>internal/core/decimal.go\<close>): the accepted literals, the canonical text, value
  equality by the normalized text and numeric comparison. A decimal is its text.
\<close>

definition is_digit :: "char \<Rightarrow> bool" where
  "is_digit c \<longleftrightarrow> (48 :: nat) \<le> of_char c \<and> of_char c \<le> (57 :: nat)"

text \<open>The literal pattern: an optional sign, digits, an optional fraction.\<close>

definition decimalLiteral :: "string \<Rightarrow> bool" where
  "decimalLiteral s =
     (let body = (case s of [] \<Rightarrow> [] | c # cs \<Rightarrow> if c = CHR ''-'' then cs else s);
          whole = takeWhile is_digit body;
          rest = dropWhile is_digit body
      in whole \<noteq> [] \<and> (rest = [] \<or> hd rest = CHR ''.'' \<and> tl rest \<noteq> [] \<and> list_all is_digit (tl rest)))"

text \<open>\<open>canonicalDecimal\<close>: no sign on zero.\<close>

definition canonicalDecimal :: "string \<Rightarrow> string" where
  "canonicalDecimal t =
     (case t of [] \<Rightarrow> t | c # cs \<Rightarrow> if c = CHR ''-'' \<and> Trim cs ''0.'' = [] then cs else t)"

definition ParseDecimal :: "string \<Rightarrow> string res" where
  "ParseDecimal t =
     (let trimmed = TrimSpace t
      in if \<not> decimalLiteral trimmed then Inl (OrmError ''MAP-031'' ''Decimal'') else Inr (canonicalDecimal trimmed))"

definition DecimalOf :: "int \<Rightarrow> string" where
  "DecimalOf i = show_int i"

definition Decimal_normalized :: "string \<Rightarrow> string" where
  "Decimal_normalized d =
     (let t = Decimal_String d;
          t' = (if CHR ''.'' \<in> set t then TrimRight (TrimRight t ''0'') ''.'' else t)
      in if t' = ''-0'' \<or> t' = [] then ''0'' else t')"

definition Decimal_IsZero :: "string \<Rightarrow> bool" where
  "Decimal_IsZero d \<longleftrightarrow> Decimal_normalized d = ''0''"

definition Decimal_Equal :: "string \<Rightarrow> string \<Rightarrow> bool" where
  "Decimal_Equal d other \<longleftrightarrow> Decimal_normalized d = Decimal_normalized other"

section \<open>The value of a literal\<close>

lemma digits_value_snoc: "digits_value (s @ [c]) = 10 * digits_value s + digit_value c"
  by (simp add: digits_value_def)

lemma digits_value_append: "digits_value (s @ t) = digits_value s * 10 ^ length t + digits_value t"
proof (induction t rule: rev_induct)
  case (snoc c t)
  then show ?case
    by (simp add: digits_value_snoc algebra_simps flip: append_assoc)
qed (simp add: digits_value_def)

lemma digits_value_zeros: "set t \<subseteq> {CHR ''0''} \<Longrightarrow> digits_value t = 0"
  by (induction t rule: rev_induct) (auto simp: digits_value_def digit_value_def)

text \<open>A literal is a sign, a whole part and perhaps a fraction, both of digits.\<close>

definition body_value :: "string \<Rightarrow> rat" where
  "body_value b =
     (let whole = takeWhile (\<lambda>c. c \<noteq> CHR ''.'') b; frac = drop (Suc (length whole)) b
      in of_nat (digits_value (whole @ frac)) / 10 ^ length frac)"

lemma rat_of_decimal_sign:
  "rat_of_decimal (CHR ''-'' # b) = - body_value b"
  "b = [] \<or> hd b \<noteq> CHR ''-'' \<Longrightarrow> rat_of_decimal b = body_value b"
  by (auto simp: rat_of_decimal_def body_value_def Let_def)

lemma body_value_whole: "CHR ''.'' \<notin> set w \<Longrightarrow> body_value w = of_nat (digits_value w)"
proof -
  assume "CHR ''.'' \<notin> set w"
  then have tw: "takeWhile (\<lambda>c. c \<noteq> CHR ''.'') w = w"
    by (auto simp: takeWhile_eq_all_conv)
  show ?thesis
    unfolding body_value_def Let_def tw by simp
qed

lemma body_value_fraction:
  "CHR ''.'' \<notin> set w \<Longrightarrow> body_value (w @ CHR ''.'' # f) = of_nat (digits_value (w @ f)) / 10 ^ length f"
proof -
  assume "CHR ''.'' \<notin> set w"
  then have "takeWhile (\<lambda>c. c \<noteq> CHR ''.'') (w @ CHR ''.'' # f) = w"
    by (subst takeWhile_append2) auto
  then show ?thesis
    by (simp add: body_value_def)
qed

text \<open>Zeros at the end of the fraction do not change the value.\<close>

lemma body_value_trailing:
  assumes "CHR ''.'' \<notin> set w" "set z \<subseteq> {CHR ''0''}"
  shows "body_value (w @ CHR ''.'' # f @ z) = body_value (w @ CHR ''.'' # f)"
proof -
  have "digits_value (w @ f @ z) = digits_value (w @ f) * 10 ^ length z"
    using digits_value_append [of "w @ f" z] digits_value_zeros [OF assms(2)] by simp
  then show ?thesis
    using assms(1) by (simp add: body_value_fraction power_add field_simps)
qed

lemma body_value_no_fraction: "CHR ''.'' \<notin> set w \<Longrightarrow> body_value (w @ ''.'') = body_value w"
  using body_value_fraction [of w "[]"] by (simp add: body_value_whole)

lemma digit_not: "is_digit c \<Longrightarrow> c \<noteq> CHR ''.'' \<and> c \<noteq> CHR ''-''"
  by (auto simp: is_digit_def)

lemma literal_cases:
  assumes "decimalLiteral t"
  obtains sg w f where "t = sg @ w @ f" "sg = [] \<or> sg = ''-''" "w \<noteq> []" "list_all is_digit w"
    "f = [] \<or> (\<exists>g. f = CHR ''.'' # g \<and> g \<noteq> [] \<and> list_all is_digit g)"
proof -
  define sg where "sg = (if t \<noteq> [] \<and> hd t = CHR ''-'' then ''-'' else [])"
  define b where "b = (if t \<noteq> [] \<and> hd t = CHR ''-'' then tl t else t)"
  have body: "(case t of [] \<Rightarrow> [] | c # cs \<Rightarrow> if c = CHR ''-'' then cs else t) = b"
    by (auto simp: b_def split: list.splits)
  have t: "t = sg @ b"
    by (cases t) (auto simp: sg_def b_def)
  have lit: "takeWhile is_digit b \<noteq> []"
      "dropWhile is_digit b = [] \<or> hd (dropWhile is_digit b) = CHR ''.'' \<and> tl (dropWhile is_digit b) \<noteq> [] \<and> list_all is_digit (tl (dropWhile is_digit b))"
    using assms unfolding decimalLiteral_def Let_def body by blast+
  show ?thesis
  proof (rule that [of sg "takeWhile is_digit b" "dropWhile is_digit b"])
    show "t = sg @ takeWhile is_digit b @ dropWhile is_digit b"
      using t by simp
    show "list_all is_digit (takeWhile is_digit b)"
      by (simp add: list_all_iff) (meson set_takeWhileD)
    show "dropWhile is_digit b = [] \<or> (\<exists>g. dropWhile is_digit b = CHR ''.'' # g \<and> g \<noteq> [] \<and> list_all is_digit g)"
      using lit(2) by (cases "dropWhile is_digit b") auto
  qed (use lit(1) in \<open>auto simp: sg_def\<close>)
qed

text \<open>The value of a signed body.\<close>

lemma rat_of_signed:
  assumes "sg = [] \<or> sg = ''-''" "w \<noteq> []" "list_all is_digit w"
  shows "rat_of_decimal (sg @ w @ f) = (if sg = [] then body_value (w @ f) else - body_value (w @ f))"
proof -
  have "hd (w @ f) \<noteq> CHR ''-''"
    using assms(2,3) digit_not by (cases w) auto
  then show ?thesis
    using assms(1,2) rat_of_decimal_sign(1) [of "w @ f"] rat_of_decimal_sign(2) [of "w @ f"] by auto
qed

text \<open>The normalized text of a literal, and its value.\<close>

lemma normalized_trim:
  assumes w: "w \<noteq> []" "list_all is_digit w" and g: "g \<noteq> []" "list_all is_digit g"
  shows "\<exists>f z. g = f @ z \<and> set z \<subseteq> {CHR ''0''} \<and> TrimRight (TrimRight (sg @ w @ CHR ''.'' # g) ''0'') ''.'' =
    (if f = [] then sg @ w else sg @ w @ CHR ''.'' # f)"
proof -
  let ?f = "TrimRight g ''0''"
  obtain z where z: "g = ?f @ z" "set z \<subseteq> {CHR ''0''}"
    using TrimRight_split [of g "''0''"] by auto
  have inner: "TrimRight (sg @ w @ CHR ''.'' # g) ''0'' = sg @ w @ CHR ''.'' # ?f"
    using TrimRight_stop [of "CHR ''.''" "''0''" "sg @ w" g] by simp
  have "last w \<noteq> CHR ''.''"
    using w digit_not by (simp add: list_all_iff)
  then have whole: "TrimRight (sg @ w @ ''.'') ''.'' = sg @ w"
    using w(1) TrimRight_snoc [of "CHR ''.''" "''.''" "sg @ w"] TrimRight_id [of "sg @ w" "''.''"] by simp
  have "last ?f \<noteq> CHR ''.''" if "?f \<noteq> []"
  proof -
    have "last ?f \<in> set g"
      using that z(1) by (metis Un_iff last_in_set set_append)
    then show ?thesis
      using g(2) digit_not by (auto simp: list_all_iff)
  qed
  then have "TrimRight (sg @ w @ CHR ''.'' # ?f) ''.'' = sg @ w @ CHR ''.'' # ?f" if "?f \<noteq> []"
    using that by (intro TrimRight_id) simp
  then show ?thesis
    using z inner whole by (intro exI [of _ ?f] exI [of _ z]) auto
qed

lemma normalized_value:
  assumes "decimalLiteral t"
  shows "rat_of_decimal (Decimal_normalized t) = rat_of_decimal (Decimal_String t)"
proof -
  obtain sg w f where t: "t = sg @ w @ f" "sg = [] \<or> sg = ''-''" "w \<noteq> []" "list_all is_digit w"
      "f = [] \<or> (\<exists>g. f = CHR ''.'' # g \<and> g \<noteq> [] \<and> list_all is_digit g)"
    using literal_cases [OF assms] .
  have nodot: "CHR ''.'' \<notin> set w"
    using t(4) digit_not by (auto simp: list_all_iff)
  have str: "Decimal_String t = t"
    using t(1,3) by (simp add: Decimal_String_def)
  have zero: "rat_of_decimal (if s = ''-0'' \<or> s = [] then ''0'' else s) = rat_of_decimal s" for s
    by (auto simp: rat_of_decimal_def digits_value_def digit_value_def)
  have value_w: "rat_of_decimal (sg @ w @ u) = (if sg = [] then body_value (w @ u) else - body_value (w @ u))" for u
    using rat_of_signed [OF t(2-4)] .
  define s where "s = (if CHR ''.'' \<in> set t then TrimRight (TrimRight t ''0'') ''.'' else t)"
  have "rat_of_decimal s = rat_of_decimal t"
  proof (cases "f = []")
    case True
    then have "CHR ''.'' \<notin> set t"
      using t(1,2) nodot by auto
    then show ?thesis
      by (simp add: s_def)
  next
    case False
    then obtain g where g: "f = CHR ''.'' # g" "g \<noteq> []" "list_all is_digit g"
      using t(5) by auto
    obtain f' z where z: "g = f' @ z" "set z \<subseteq> {CHR ''0''}"
        "TrimRight (TrimRight (sg @ w @ CHR ''.'' # g) ''0'') ''.'' = (if f' = [] then sg @ w else sg @ w @ CHR ''.'' # f')"
      using normalized_trim [OF t(3,4) g(2,3), of sg] by auto
    have s: "s = (if f' = [] then sg @ w @ [] else sg @ w @ CHR ''.'' # f')"
      using z(3) t(1) g(1) by (simp add: s_def)
    have "body_value (w @ CHR ''.'' # g) = body_value (w @ CHR ''.'' # f')"
      using body_value_trailing [OF nodot z(2)] z(1) by simp
    moreover have "body_value (w @ ''.'') = body_value w"
      using body_value_no_fraction [OF nodot] .
    ultimately show ?thesis
      using value_w [of "[]"] value_w [of "CHR ''.'' # f'"] value_w [of "CHR ''.'' # g"] s t(1) g(1) by auto
  qed
  then show ?thesis
    using zero [of s] unfolding Decimal_normalized_def Let_def str s_def by simp
qed

text \<open>
  Decimal equality agrees with the numeric order as far as it answers. Two accepted literals that
  \<open>Decimal.Equal\<close> holds equal compare as 0, and a decimal that \<open>IsZero\<close> holds zero has the value
  zero. The converse fails: leading zeros are accepted and kept, so 007 and 7 have the same value,
  and 00 is zero, while \<open>Equal\<close> and \<open>IsZero\<close> deny it.
\<close>

theorem Decimal_Equal_sound:
  assumes "decimalLiteral a" and "decimalLiteral b"
  shows "(Decimal_Equal a b \<longrightarrow> Decimal_Compare a b = 0) \<and> (Decimal_IsZero a \<longrightarrow> rat_of_decimal (Decimal_String a) = 0) \<and>
    (ParseDecimal ''007'' = Inr ''007'' \<and> ParseDecimal ''7'' = Inr ''7'' \<and> Decimal_Compare ''007'' ''7'' = 0 \<and> \<not> Decimal_Equal ''007'' ''7'' \<and>
     ParseDecimal ''00'' = Inr ''00'' \<and> rat_of_decimal ''00'' = 0 \<and> \<not> Decimal_IsZero ''00'')"
proof -
  have "Decimal_Compare a b = 0" if "Decimal_Equal a b"
    using normalized_value [OF assms(1)] normalized_value [OF assms(2)] that
    by (simp add: Decimal_Compare_def Decimal_Equal_def compareOrdered_def)
  moreover have "rat_of_decimal (Decimal_String a) = 0" if "Decimal_IsZero a"
    using normalized_value [OF assms(1)] that by (simp add: Decimal_IsZero_def) (simp add: rat_of_decimal_def digits_value_def digit_value_def)
  moreover have "ParseDecimal ''007'' = Inr ''007''" "ParseDecimal ''7'' = Inr ''7''" "Decimal_Compare ''007'' ''7'' = 0"
      "\<not> Decimal_Equal ''007'' ''7''" "ParseDecimal ''00'' = Inr ''00''" "rat_of_decimal ''00'' = 0" "\<not> Decimal_IsZero ''00''"
    by code_simp+
  ultimately show ?thesis
    by blast
qed

theorem Decimal_Equal_sound_witness:
  "Decimal_Equal ''19.90'' ''19.9'' \<and> Decimal_Compare ''19.90'' ''19.9'' = 0"
proof -
  have "decimalLiteral ''19.90''" "decimalLiteral ''19.9''" "Decimal_Equal ''19.90'' ''19.9''"
    by code_simp+
  then show ?thesis
    using Decimal_Equal_sound by blast
qed

end
