(* ===== verification/Cascade_Text.thy ===== *)
theory Cascade_Text
  imports Metadata
begin

text \<open>
  The text form of a cascade declaration (\<open>internal/core/cascade.go\<close>): the tokens of a set of
  operations, their joined form, and the parser of the struct tag.
\<close>

definition Cascade_Tokens :: "CascadeOperations \<Rightarrow> string list" where
  "Cascade_Tokens c =
     (if Cascade_Has c CascadePersist then [''persist''] else []) @ (if Cascade_Has c CascadeRemove then [''remove''] else [])"

definition Cascade_String :: "CascadeOperations \<Rightarrow> string" where
  "Cascade_String c = (if c = {} then ''none'' else join ''+'' (Cascade_Tokens c))"

definition parse_cascade_token :: "string \<Rightarrow> CascadeOperation option" where
  "parse_cascade_token token =
     (if TrimSpace token = ''persist'' then Some CascadePersist
      else if TrimSpace token = ''remove'' then Some CascadeRemove
      else None)"

fun parse_cascade_tokens :: "string list \<Rightarrow> CascadeOperations \<Rightarrow> CascadeOperations \<times> bool" where
  "parse_cascade_tokens [] operations = (operations, True)"
| "parse_cascade_tokens (token # tokens) operations =
     (case parse_cascade_token token of
        None \<Rightarrow> ({}, False)
      | Some op \<Rightarrow> parse_cascade_tokens tokens (insert op operations))"

definition ParseCascadeOperations :: "string \<Rightarrow> CascadeOperations \<times> bool" where
  "ParseCascadeOperations text' = parse_cascade_tokens (Split (CHR ''+'') text') {}"

lemma parse_tokens_ok:
  "snd (parse_cascade_tokens ts ops) \<longleftrightarrow> (\<forall>t \<in> set ts. parse_cascade_token t \<noteq> None)"
  by (induction ts arbitrary: ops) (auto split: option.splits)

lemma parse_tokens_value:
  "\<forall>t \<in> set ts. parse_cascade_token t \<noteq> None \<Longrightarrow>
     fst (parse_cascade_tokens ts ops) = ops \<union> {op. \<exists>t \<in> set ts. parse_cascade_token t = Some op}"
  by (induction ts arbitrary: ops) (auto split: option.splits)

lemma cascade_cases: "c = {} \<or> c = {CascadePersist} \<or> c = {CascadeRemove} \<or> c = {CascadePersist, CascadeRemove}"
proof -
  have "\<forall>op \<in> c. op = CascadePersist \<or> op = CascadeRemove"
    using CascadeOperation.exhaust by blast
  then show ?thesis
    by (cases "CascadePersist \<in> c"; cases "CascadeRemove \<in> c") auto
qed

text \<open>
  A cascade declaration round-trips. Parsing the text of a set of cascade operations gives that
  set back, the text of no cascade at all (\<open>none\<close>) is refused, and a text is accepted exactly when
  every token of it is one of the two operations, surrounding blanks aside, the result being the
  operations it names.
\<close>

theorem ParseCascadeOperations_roundtrip:
  "ParseCascadeOperations (Cascade_String c) = (c, c \<noteq> {}) \<and>
   (snd (ParseCascadeOperations s) \<longleftrightarrow> (\<forall>t \<in> set (Split (CHR ''+'') s). TrimSpace t \<in> {''persist'', ''remove''})) \<and>
   (snd (ParseCascadeOperations s) \<longrightarrow> join ''+'' (Split (CHR ''+'') s) = s \<and>
      (CascadePersist \<in> fst (ParseCascadeOperations s) \<longleftrightarrow> (\<exists>t \<in> set (Split (CHR ''+'') s). TrimSpace t = ''persist'')) \<and>
      (CascadeRemove \<in> fst (ParseCascadeOperations s) \<longleftrightarrow> (\<exists>t \<in> set (Split (CHR ''+'') s). TrimSpace t = ''remove'')))"
proof -
  have trip: "ParseCascadeOperations (Cascade_String {}) = ({}, False)"
      "ParseCascadeOperations (Cascade_String {CascadePersist}) = ({CascadePersist}, True)"
      "ParseCascadeOperations (Cascade_String {CascadeRemove}) = ({CascadeRemove}, True)"
      "ParseCascadeOperations (Cascade_String {CascadePersist, CascadeRemove}) = ({CascadePersist, CascadeRemove}, True)"
    by code_simp+
  then have "ParseCascadeOperations (Cascade_String c) = (c, c \<noteq> {})"
    using cascade_cases [of c] by auto
  moreover have tok: "parse_cascade_token t \<noteq> None \<longleftrightarrow> TrimSpace t \<in> {''persist'', ''remove''}"
      "parse_cascade_token t = Some CascadePersist \<longleftrightarrow> TrimSpace t = ''persist''"
      "parse_cascade_token t = Some CascadeRemove \<longleftrightarrow> TrimSpace t = ''remove''" for t
    by (auto simp: parse_cascade_token_def)
  moreover have ok: "snd (ParseCascadeOperations s) \<longleftrightarrow> (\<forall>t \<in> set (Split (CHR ''+'') s). parse_cascade_token t \<noteq> None)"
    by (simp add: ParseCascadeOperations_def parse_tokens_ok)
  moreover have "fst (ParseCascadeOperations s) = {op. \<exists>t \<in> set (Split (CHR ''+'') s). parse_cascade_token t = Some op}"
    if "snd (ParseCascadeOperations s)"
    using parse_tokens_value [of "Split (CHR ''+'') s" "{}"] that ok by (simp add: ParseCascadeOperations_def)
  ultimately show ?thesis
    using join_Split [of "CHR ''+''" s] by auto
qed

theorem ParseCascadeOperations_roundtrip_witness:
  "ParseCascadeOperations ''persist + remove'' = ({CascadePersist, CascadeRemove}, True) \<and>
   ParseCascadeOperations (Cascade_String {CascadeRemove}) = ({CascadeRemove}, True)"
proof -
  have "snd (ParseCascadeOperations ''persist + remove'')"
    by code_simp
  then have "CascadePersist \<in> fst (ParseCascadeOperations ''persist + remove'') \<longleftrightarrow> (\<exists>t \<in> set (Split (CHR ''+'') ''persist + remove''). TrimSpace t = ''persist'')"
    using ParseCascadeOperations_roundtrip [of "{}" "''persist + remove''"] by blast
  then show ?thesis
    using ParseCascadeOperations_roundtrip [of "{CascadeRemove}" "[]"] by (auto; code_simp)
qed

end
