(* ===== verification/Ddl_Text.thy ===== *)
theory Ddl_Text
  imports Prelude "HOL-Library.List_Lexorder" "HOL-Library.Char_ord"
begin

text \<open>
  The text of DDL statements as the migrations compare it (\<open>schema_snapshot.go\<close>,
  \<open>trigger_declaration.go\<close>): whitespace collapsed, the prefix of a view or trigger create brought to
  one spelling, everything else compared as written. Letters are folded and blanks recognised on
  ASCII text, as in the prelude. \<open>sort.Strings\<close> is the library's \<open>sort\<close> on the byte-wise
  lexicographic order.
\<close>

section \<open>Words\<close>

text \<open>\<open>strings.Fields\<close>: the maximal blank-free pieces.\<close>

function Fields :: "string \<Rightarrow> string list" where
  "Fields s =
     (case dropWhile is_space s of
        [] \<Rightarrow> []
      | c # cs \<Rightarrow> takeWhile (\<lambda>x. \<not> is_space x) (c # cs) # Fields (dropWhile (\<lambda>x. \<not> is_space x) (c # cs)))"
  by pat_completeness auto
termination
proof (relation "measure length")
  fix s :: string and c cs
  assume "dropWhile is_space s = c # cs"
  moreover have "length (dropWhile is_space s) \<le> length s"
    by (rule length_dropWhile_le)
  moreover have "\<not> is_space c"
    using hd_dropWhile [of is_space s] calculation(1) by simp
  then have "dropWhile (\<lambda>x. \<not> is_space x) (c # cs) = dropWhile (\<lambda>x. \<not> is_space x) cs"
    by simp
  moreover have "length (dropWhile (\<lambda>x. \<not> is_space x) cs) \<le> length cs"
    by (rule length_dropWhile_le)
  ultimately show "(dropWhile (\<lambda>x. \<not> is_space x) (c # cs), s) \<in> measure length"
    by simp
qed simp

declare Fields.simps [simp del]

definition collapse :: "string \<Rightarrow> string" where
  "collapse s = join '' '' (Fields s)"

definition is_word :: "string \<Rightarrow> bool" where
  "is_word w \<longleftrightarrow> w \<noteq> [] \<and> (\<forall>c \<in> set w. \<not> is_space c)"

lemma Fields_Nil [simp]: "Fields [] = []"
  by (simp add: Fields.simps)

lemma Fields_words: "\<forall>w \<in> set (Fields s). is_word w"
proof (induction s rule: Fields.induct)
  case (1 s)
  show ?case
  proof (cases "dropWhile is_space s")
    case (Cons c cs)
    have "\<not> is_space c"
      using hd_dropWhile [of is_space s] Cons by simp
    then have "is_word (takeWhile (\<lambda>x. \<not> is_space x) (c # cs))"
      by (auto simp: is_word_def dest: set_takeWhileD)
    then show ?thesis
      using 1 [OF Cons] Cons by (subst Fields.simps) simp
  next
    case Nil
    then have "Fields s = []"
      by (subst Fields.simps) (simp del: dropWhile_eq_Nil_conv)
    then show ?thesis
      by simp
  qed
qed

lemma Fields_space: "is_space b \<Longrightarrow> Fields (b # s) = Fields s"
  by (simp add: Fields.simps [of "b # s"] Fields.simps [of s])

lemma is_space_blank [simp]: "is_space CHR '' ''"
  by (simp add: is_space_def)

lemma Fields_word:
  assumes "is_word w"
  shows "Fields (w @ CHR '' '' # s) = w # Fields s" and "Fields w = [w]"
proof -
  obtain c cs where w: "w = c # cs" and c: "\<not> is_space c"
    using assms by (cases w) (auto simp: is_word_def)
  have all: "\<And>x. x \<in> set w \<Longrightarrow> \<not> is_space x"
    using assms by (simp add: is_word_def)
  have "takeWhile (\<lambda>x. \<not> is_space x) (w @ CHR '' '' # s) = w" "dropWhile (\<lambda>x. \<not> is_space x) (w @ CHR '' '' # s) = CHR '' '' # s"
    using all by (auto simp: takeWhile_append dropWhile_append)
  then show "Fields (w @ CHR '' '' # s) = w # Fields s"
    using c unfolding w by (subst Fields.simps) (simp add: Fields_space)
  have "takeWhile (\<lambda>x. \<not> is_space x) w = w" "dropWhile (\<lambda>x. \<not> is_space x) w = []"
    using all by (auto simp: takeWhile_eq_all_conv)
  then show "Fields w = [w]"
    using c unfolding w by (subst Fields.simps) (simp del: dropWhile_eq_Nil_conv)
qed

lemma Fields_join: "\<forall>w \<in> set ws. is_word w \<Longrightarrow> Fields (join '' '' ws) = ws"
  by (induction ws rule: induct_list012) (auto simp: Fields_word)

lemma Fields_collapse [simp]: "Fields (collapse s) = Fields s"
  by (simp add: collapse_def Fields_join Fields_words)

lemma collapse_idem [simp]: "collapse (collapse s) = collapse s"
  by (simp add: collapse_def [of "collapse s"]) (simp add: collapse_def)

lemma join_Cons: "xs \<noteq> [] \<Longrightarrow> join sep (x # xs) = x @ sep @ join sep xs"
  by (cases xs) auto

section \<open>View definitions\<close>

text \<open>
  The pattern \<open>create [or alter|or replace] [materialized] view [if not exists] <name> as <body>\<close>
  on collapsed text, where every \<open>\s+\<close> is one blank and \<open>\S+\<close> one word: the keywords are
  compared by folding, the optional ones are taken when they are there.
\<close>

definition strip :: "string list \<Rightarrow> string list \<Rightarrow> string list option" where
  "strip kws ws = (if map to_lower (take (length kws) ws) = kws then Some (drop (length kws) ws) else None)"

definition strip_optional :: "string list list \<Rightarrow> string list \<Rightarrow> bool \<times> string list" where
  "strip_optional alternatives ws =
     (case List.map_filter (\<lambda>kws. strip kws ws) alternatives of [] \<Rightarrow> (False, ws) | r # rs \<Rightarrow> (True, r))"

definition viewDDLPattern :: "string list \<Rightarrow> (bool \<times> string \<times> string list) option" where
  "viewDDLPattern ws =
     (case strip [''create''] ws of
        None \<Rightarrow> None
      | Some ws1 \<Rightarrow>
          (let (_, ws2) = strip_optional [[''or'', ''alter''], [''or'', ''replace'']] ws1;
               (materialized, ws3) = strip_optional [[''materialized'']] ws2
           in case strip [''view''] ws3 of
                None \<Rightarrow> None
              | Some ws4 \<Rightarrow>
                  (let (_, ws5) = strip_optional [[''if'', ''not'', ''exists'']] ws4
                   in case ws5 of
                        name # as' # b # body \<Rightarrow> if EqualFold as' ''as'' then Some (materialized, name, b # body) else None
                      | _ \<Rightarrow> None)))"

definition viewQuoting :: "string \<Rightarrow> string" where
  "viewQuoting = filter (\<lambda>c. c \<notin> set (char_of (34 :: nat) # ''[]`''))"

definition NormalizeDDL :: "string \<Rightarrow> string" where
  "NormalizeDDL sql =
     (case viewDDLPattern (Fields sql) of
        None \<Rightarrow> collapse sql
      | Some (materialized, name, body) \<Rightarrow>
          ''create '' @ (if materialized then ''materialized '' else []) @ ''view '' @ viewQuoting name @ '' as '' @ join '' '' body)"

text \<open>\<open>ViewParts\<close>: name, body and whether the view is materialized; nothing for text that is no view create.\<close>

definition ViewParts :: "string \<Rightarrow> (string \<times> string \<times> bool) option" where
  "ViewParts ddl =
     (case viewDDLPattern (Fields ddl) of
        None \<Rightarrow> None
      | Some (materialized, name, body) \<Rightarrow> Some (viewQuoting name, join '' '' body, materialized))"

text \<open>The keywords of a create before the name.\<close>

definition view_keywords :: "string list \<Rightarrow> bool \<Rightarrow> bool \<Rightarrow> string list" where
  "view_keywords or' materialized guarded =
     [''create''] @ or' @ (if materialized then [''materialized''] else []) @ [''view''] @ (if guarded then [''if'', ''not'', ''exists''] else [])"

lemma to_lower_as: "to_lower ''as'' = ''as''"
  by code_simp

lemma strip_append: "map to_lower ks = kws \<Longrightarrow> strip kws (ks @ ws) = Some ws"
  by (auto simp: strip_def dest: map_eq_imp_length_eq)

lemma strip_single: "strip [k] (w # ws) = (if to_lower w = k then Some ws else None)"
  by (simp add: strip_def)

lemma strip_optional_simps:
  "strip_optional [] ws = (False, ws)"
  "strip_optional (k # ks) ws = (case strip k ws of Some r \<Rightarrow> (True, r) | None \<Rightarrow> strip_optional ks ws)"
  by (simp_all add: strip_optional_def map_filter_simps split: option.splits)

lemma map_lower_split:
  assumes "map to_lower ks = xs @ ys"
  obtains k1 k2 where "ks = k1 @ k2" and "map to_lower k1 = xs" and "map to_lower k2 = ys"
  using assms by (auto simp: map_eq_append_conv)

lemma strip_head_differs: "to_lower w \<noteq> k \<Longrightarrow> strip (k # kws) (w # ws) = None"
  by (simp add: strip_def)

lemma pattern_of_words:
  assumes "or' \<in> {[], [''or'', ''alter''], [''or'', ''replace'']}" and "body \<noteq> []"
    and ks: "map to_lower ks = view_keywords or' materialized guarded" and "EqualFold as' ''as''"
  shows "viewDDLPattern (ks @ name # as' # body) = Some (materialized, name, body)"
proof -
  let ?as = "name # as' # body"
  obtain k1 k2 k3 k4 k5 where split: "ks = k1 @ k2 @ k3 @ k4 @ k5"
    and low: "map to_lower k1 = [''create'']" "map to_lower k2 = or'"
      "map to_lower k3 = (if materialized then [''materialized''] else [])" "map to_lower k4 = [''view'']"
      "map to_lower k5 = (if guarded then [''if'', ''not'', ''exists''] else [])"
  proof -
    note keys = ks [unfolded view_keywords_def]
    obtain k1 r1 where 1: "ks = k1 @ r1" "map to_lower k1 = [''create'']" and r1: "map to_lower r1 = or' @ (if materialized then [''materialized''] else []) @ [''view''] @ (if guarded then [''if'', ''not'', ''exists''] else [])"
      by (rule map_lower_split [OF keys])
    obtain k2 r2 where 2: "r1 = k2 @ r2" "map to_lower k2 = or'" and r2: "map to_lower r2 = (if materialized then [''materialized''] else []) @ [''view''] @ (if guarded then [''if'', ''not'', ''exists''] else [])"
      by (rule map_lower_split [OF r1])
    obtain k3 r3 where 3: "r2 = k3 @ r3" "map to_lower k3 = (if materialized then [''materialized''] else [])" and r3: "map to_lower r3 = [''view''] @ (if guarded then [''if'', ''not'', ''exists''] else [])"
      by (rule map_lower_split [OF r2])
    obtain k4 k5 where 4: "r3 = k4 @ k5" "map to_lower k4 = [''view'']" "map to_lower k5 = (if guarded then [''if'', ''not'', ''exists''] else [])"
      by (rule map_lower_split [OF r3])
    have "ks = k1 @ k2 @ k3 @ k4 @ k5"
      using 1(1) 2(1) 3(1) 4(1) by simp
    then show thesis
      using 1(2) 2(2) 3(2) 4(2,3) by (rule that)
  qed
  obtain v where v: "k4 = [v]" "to_lower v = ''view''"
    using low(4) by auto
  have 1: "strip [''create''] (ks @ ?as) = Some (k2 @ k3 @ k4 @ k5 @ ?as)"
    using strip_append [OF low(1)] unfolding split by simp
  have 2: "snd (strip_optional [[''or'', ''alter''], [''or'', ''replace'']] (k2 @ k3 @ k4 @ k5 @ ?as)) = k3 @ k4 @ k5 @ ?as"
  proof (cases "or' = []")
    case True
    then have "k2 = []"
      using low(2) by simp
    moreover have "strip (''or'' # kws) (k3 @ k4 @ k5 @ ?as) = None" for kws
      using low(3) v by (cases materialized) (auto simp: strip_head_differs)
    ultimately show ?thesis
      by (simp add: strip_optional_simps)
  next
    case False
    then have "or' = [''or'', ''alter''] \<or> or' = [''or'', ''replace'']"
      using assms(1) by blast
    then show ?thesis
      using low(2) strip_append [of k2 "[''or'', ''alter'']"] strip_append [of k2 "[''or'', ''replace'']"]
      by (auto simp: strip_optional_simps strip_def)
  qed
  have 3: "strip_optional [[''materialized'']] (k3 @ k4 @ k5 @ ?as) = (materialized, k4 @ k5 @ ?as)"
    using low(3) v by (cases materialized) (auto simp: strip_optional_simps strip_single)
  have 4: "strip [''view''] (k4 @ k5 @ ?as) = Some (k5 @ ?as)"
    using v by (simp add: strip_single)
  have 5: "snd (strip_optional [[''if'', ''not'', ''exists'']] (k5 @ ?as)) = ?as"
  proof (cases guarded)
    case True
    then show ?thesis
      using low(5) strip_append [of k5 "[''if'', ''not'', ''exists'']" ?as] by (simp add: strip_optional_simps)
  next
    case False
    moreover have "to_lower as' = ''as''"
      using assms(4) to_lower_as by (simp add: EqualFold_def)
    ultimately show ?thesis
      using low(5) by (auto simp: strip_optional_simps strip_def)
  qed
  show ?thesis
    unfolding viewDDLPattern_def 1 using 2 3 4 5 assms(2,4)
    by (auto simp: split_beta neq_Nil_conv)
qed

lemma strip_subset: "strip kws ws = Some r \<Longrightarrow> set r \<subseteq> set ws"
  by (auto simp: strip_def split: if_splits dest: in_set_dropD)

lemma strip_optional_subset: "set (snd (strip_optional alts ws)) \<subseteq> set ws"
  by (induction alts) (auto simp: strip_optional_simps split: option.splits dest: strip_subset)

lemma pattern_parts:
  assumes "viewDDLPattern ws = Some (materialized, name, body)"
  shows "name \<in> set ws" and "set body \<subseteq> set ws" and "body \<noteq> []"
proof -
  obtain ws1 where 1: "strip [''create''] ws = Some ws1"
    using assms by (auto simp: viewDDLPattern_def split: option.splits)
  define ws2 ws3 where "ws2 = snd (strip_optional [[''or'', ''alter''], [''or'', ''replace'']] ws1)"
    and "ws3 = snd (strip_optional [[''materialized'']] ws2)"
  obtain ws4 where 4: "strip [''view''] ws3 = Some ws4"
    using assms 1 by (auto simp: viewDDLPattern_def ws2_def ws3_def split_beta split: option.splits)
  define ws5 where "ws5 = snd (strip_optional [[''if'', ''not'', ''exists'']] ws4)"
  have sub: "set ws5 \<subseteq> set ws"
    using strip_subset [OF 1] strip_subset [OF 4] strip_optional_subset unfolding ws2_def ws3_def ws5_def by blast
  obtain as' b rest where "ws5 = name # as' # b # rest" "body = b # rest"
    using assms 1 4 unfolding viewDDLPattern_def
    by (auto simp: ws2_def [symmetric] ws3_def [symmetric] ws5_def [symmetric] split_beta split: list.splits if_splits)
  then show "name \<in> set ws" "set body \<subseteq> set ws" "body \<noteq> []"
    using sub by auto
qed

lemma viewQuoting_idem [simp]: "viewQuoting (viewQuoting s) = viewQuoting s"
  by (simp add: viewQuoting_def)

lemma viewQuoting_word: "is_word w \<Longrightarrow> viewQuoting w \<noteq> [] \<Longrightarrow> is_word (viewQuoting w)"
  by (auto simp: is_word_def viewQuoting_def)

text \<open>The canonical text is the collapsed text of the canonical words.\<close>

lemma canonical_words:
  assumes "body \<noteq> []"
  shows "''create '' @ (if materialized then ''materialized '' else []) @ ''view '' @ name @ '' as '' @ join '' '' body =
         join '' '' (view_keywords [] materialized False @ name # ''as'' # body)"
  using assms by (auto simp: view_keywords_def join_Cons)

lemma keyword_words: "\<forall>w \<in> set (view_keywords [] materialized False @ [''as'']). is_word w"
  by (auto simp: view_keywords_def is_word_def is_space_def)

text \<open>
  C21: \<open>NormalizeDDL\<close> is the comparable form of a definition. It depends on the words of the text
  only; every spelling of a view create's prefix (either replace form, \<open>materialized\<close>, \<open>if not
  exists\<close>, keywords in any case, the name in any quotes) gives one canonical text with the same name
  and body; normalizing twice changes nothing as long as the view has a name that is not only
  quotes; and \<open>ViewParts\<close> of the normal form are those of the original.
\<close>

theorem NormalizeDDL_canonical:
  "(Fields s = Fields t \<longrightarrow> NormalizeDDL s = NormalizeDDL t) \<and>
   (or' \<in> {[], [''or'', ''alter''], [''or'', ''replace'']} \<and> map to_lower ks = view_keywords or' materialized guarded \<and>
    to_lower as' = ''as'' \<and> list_all is_word (ks @ name # as' # body) \<and> body \<noteq> [] \<longrightarrow>
      NormalizeDDL (join '' '' (ks @ name # as' # body)) =
        join '' '' (view_keywords [] materialized False @ viewQuoting name # ''as'' # body) \<and>
      ViewParts (join '' '' (ks @ name # as' # body)) = Some (viewQuoting name, join '' '' body, materialized)) \<and>
   ((case ViewParts s of Some (view, b, m) \<Rightarrow> view \<noteq> [] | None \<Rightarrow> True) \<longrightarrow>
      NormalizeDDL (NormalizeDDL s) = NormalizeDDL s \<and> ViewParts (NormalizeDDL s) = ViewParts s)"
proof (intro conjI impI)
  assume "Fields s = Fields t"
  then show "NormalizeDDL s = NormalizeDDL t"
    by (simp add: NormalizeDDL_def collapse_def split: option.split)
next
  assume a: "or' \<in> {[], [''or'', ''alter''], [''or'', ''replace'']} \<and> map to_lower ks = view_keywords or' materialized guarded \<and>
    to_lower as' = ''as'' \<and> list_all is_word (ks @ name # as' # body) \<and> body \<noteq> []"
  then have "viewDDLPattern (Fields (join '' '' (ks @ name # as' # body))) = Some (materialized, name, body)"
    by (subst Fields_join) (auto simp: list_all_iff EqualFold_def to_lower_as intro!: pattern_of_words [where or' = or' and guarded = guarded])
  then show "NormalizeDDL (join '' '' (ks @ name # as' # body)) = join '' '' (view_keywords [] materialized False @ viewQuoting name # ''as'' # body)"
    "ViewParts (join '' '' (ks @ name # as' # body)) = Some (viewQuoting name, join '' '' body, materialized)"
    using a canonical_words [of body materialized "viewQuoting name"] by (simp_all add: NormalizeDDL_def ViewParts_def)
next
  assume a: "case ViewParts s of Some (view, b, m) \<Rightarrow> view \<noteq> [] | None \<Rightarrow> True"
  have "viewDDLPattern (Fields (NormalizeDDL s)) = map_option (\<lambda>(m, n, b). (m, viewQuoting n, b)) (viewDDLPattern (Fields s))"
  proof (cases "viewDDLPattern (Fields s)")
    case None
    then show ?thesis
      by (simp add: NormalizeDDL_def)
  next
    case (Some p)
    obtain m n b where p: "p = (m, n, b)"
      by (cases p)
    have parts: "n \<in> set (Fields s)" "set b \<subseteq> set (Fields s)" "b \<noteq> []"
      using pattern_parts [OF Some [unfolded p]] by auto
    then have words: "is_word n" "\<forall>w \<in> set b. is_word w"
      using Fields_words [of s] by auto
    have "viewQuoting n \<noteq> []"
      using a Some p by (simp add: ViewParts_def)
    then have all: "\<forall>w \<in> set (view_keywords [] m False @ viewQuoting n # ''as'' # b). is_word w"
      using viewQuoting_word [OF words(1)] words(2) keyword_words [of m] by auto
    have norm: "NormalizeDDL s = join '' '' (view_keywords [] m False @ viewQuoting n # ''as'' # b)"
      using Some p canonical_words [OF parts(3), of m "viewQuoting n"] by (simp add: NormalizeDDL_def)
    have low: "map to_lower (view_keywords [] m False) = view_keywords [] m False"
      by (auto simp: view_keywords_def to_lower_def lower_char_def)
    show ?thesis
      unfolding norm Fields_join [OF all] Some p
      using pattern_of_words [OF _ parts(3) low EqualFold_refl, of "viewQuoting n"] by (auto simp: to_lower_def lower_char_def)
  qed
  then show "NormalizeDDL (NormalizeDDL s) = NormalizeDDL s" "ViewParts (NormalizeDDL s) = ViewParts s"
    by (auto simp: NormalizeDDL_def [of "NormalizeDDL s"] ViewParts_def split: option.splits) (auto simp: NormalizeDDL_def split: option.splits)
qed

theorem NormalizeDDL_canonical_witness:
  "NormalizeDDL ''CREATE OR Replace View [v] AS select 1'' = ''create view v as select 1'' \<and>
   ViewParts ''CREATE OR Replace View [v] AS select 1'' = Some (''v'', ''select 1'', False) \<and>
   NormalizeDDL (NormalizeDDL ''create  view v as select 1'') = ''create view v as select 1''"
proof -
  let ?s = "''create  view v as select 1''"
  have hyps: "map to_lower [''CREATE'', ''OR'', ''Replace'', ''View''] = view_keywords [''or'', ''replace''] False False" "to_lower ''AS'' = ''as''"
    "list_all is_word ([''CREATE'', ''OR'', ''Replace'', ''View''] @ ''[v]'' # ''AS'' # [''select'', ''1''])"
    "case ViewParts ?s of Some (view, b, m) \<Rightarrow> view \<noteq> [] | None \<Rightarrow> True"
    by code_simp+
  have eqs: "join '' '' ([''CREATE'', ''OR'', ''Replace'', ''View''] @ ''[v]'' # ''AS'' # [''select'', ''1'']) = ''CREATE OR Replace View [v] AS select 1''"
    "join '' '' (view_keywords [] False False @ viewQuoting ''[v]'' # ''as'' # [''select'', ''1'']) = ''create view v as select 1''"
    "join '' '' (view_keywords [] False False @ [''v'', ''as'', ''select'', ''1'']) = ''create view v as select 1''"
    "viewQuoting ''[v]'' = ''v''" "join '' '' [''select'', ''1''] = ''select 1''" "NormalizeDDL ?s = ''create view v as select 1''"
    by code_simp+
  show ?thesis
    using NormalizeDDL_canonical [of ?s ?s "[''or'', ''replace'']" "[''CREATE'', ''OR'', ''Replace'', ''View'']" False False "''AS''" "''[v]''" "[''select'', ''1'']"] hyps
    unfolding eqs by simp
qed

section \<open>Trigger statements\<close>

text \<open>The pattern \<open>^create\s+(or\s+replace\s+)?(trigger|function)\b\<close> on collapsed text: the length of the prefix.\<close>

definition is_word_char :: "char \<Rightarrow> bool" where
  "is_word_char c \<longleftrightarrow>
     (let n = (of_char c :: nat) in 48 \<le> n \<and> n \<le> 57 \<or> 65 \<le> n \<and> n \<le> 90 \<or> n = 95 \<or> 97 \<le> n \<and> n \<le> 122)"

definition triggerCreatePrefix :: "string \<Rightarrow> nat option" where
  "triggerCreatePrefix s =
     map_option length
       (find (\<lambda>kw. to_lower (take (length kw) s) = kw \<and> (case drop (length kw) s of [] \<Rightarrow> True | c # cs \<Rightarrow> \<not> is_word_char c))
         [''create or replace trigger'', ''create or replace function'', ''create trigger'', ''create function''])"

definition NormalizeTriggerDDL :: "string \<Rightarrow> string" where
  "NormalizeTriggerDDL sql =
     (case triggerCreatePrefix (collapse sql) of
        None \<Rightarrow> collapse sql
      | Some n \<Rightarrow> to_lower (take n (collapse sql)) @ drop n (collapse sql))"

definition normalizedSet :: "string list \<Rightarrow> string list" where
  "normalizedSet statements = sort (map NormalizeTriggerDDL statements)"

definition TriggerStatementsMatch :: "string list \<Rightarrow> string list \<Rightarrow> bool" where
  "TriggerStatementsMatch live expected \<longleftrightarrow> normalizedSet live = normalizedSet expected"

text \<open>The comparison is by content: the same statements, as often, in any order.\<close>

lemma TriggerStatementsMatch_mset:
  "TriggerStatementsMatch live expected \<longleftrightarrow> mset (map NormalizeTriggerDDL live) = mset (map NormalizeTriggerDDL expected)"
proof
  assume "TriggerStatementsMatch live expected"
  then have "mset (sort (map NormalizeTriggerDDL live)) = mset (sort (map NormalizeTriggerDDL expected))"
    by (simp add: TriggerStatementsMatch_def normalizedSet_def)
  then show "mset (map NormalizeTriggerDDL live) = mset (map NormalizeTriggerDDL expected)"
    unfolding mset_sort .
next
  assume "mset (map NormalizeTriggerDDL live) = mset (map NormalizeTriggerDDL expected)"
  then have "sort (map NormalizeTriggerDDL live) = sort (map NormalizeTriggerDDL expected)"
    by (intro properties_for_sort) simp_all
  then show "TriggerStatementsMatch live expected"
    by (simp add: TriggerStatementsMatch_def normalizedSet_def)
qed

section \<open>Stamps and labels\<close>

text \<open>\<open>normalizeStamp\<close>: an absent stamp is SQLite's.\<close>

definition normalizeStamp :: "string \<Rightarrow> string" where
  "normalizeStamp stamp = (let s = to_lower (TrimSpace stamp) in if s = [] then ''sqlite'' else s)"

text \<open>The \<open>V%04d\<close> every message and version name uses: at least four characters, zero-padded after the sign.\<close>

definition version_label :: "int \<Rightarrow> string" where
  "version_label v =
     (let digits = show_nat (nat \<bar>v\<bar>); width = (if v < 0 then 3 else 4)
      in ''V'' @ (if v < 0 then ''-'' else []) @ replicate (width - length digits) (CHR ''0'') @ digits)"

end
