(* ===== verification/Schema.thy ===== *)
theory Schema
  imports Metadata Ddl_Text
begin

text \<open>
  What the migrations work on (\<open>internal/core/table_schema.go\<close>, \<open>schema_snapshot.go\<close>, \<open>snapshot_set.go\<close>, \<open>trigger_declaration.go\<close>,
  the statement types of \<open>migration.go\<close>): the shape of a table, its structural index signatures, the neutral
  declaration of a trigger, the snapshots of an object by version, the rendered statements, and the dialect. The
  dialect is a record of the functions the migrations call; the theorems hold for every dialect, \<open>Sqlite_Dialect\<close>
  is the one modelled in full.
\<close>

section \<open>Shapes\<close>

record TableColumn =
  tc_Name :: string
  tc_StorageType :: string
  tc_Nullable :: bool
  tc_Key :: bool
  tc_Generated :: bool

record IndexPart =
  ip_ColumnName :: string
  ip_Descending :: bool

record TableIndex =
  ti_Name :: string
  ti_Columns :: "IndexPart list"
  ti_Unique :: bool

record TableSchema =
  ts_Name :: string
  ts_Dialect :: string
  ts_Columns :: "TableColumn list"
  ts_Indexes :: "TableIndex list"

text \<open>The structural identity of an index: the unique flag and the ordered columns with their direction, never the name.\<close>

definition indexSignature :: "bool \<Rightarrow> (string \<times> bool) list \<Rightarrow> string" where
  "indexSignature unique cols =
     (if unique then ''unique|'' else ''plain|'') @
     join '','' (map (\<lambda>(column, descending). to_lower column @ (if descending then '' desc'' else [])) cols)"

definition IndexSignature :: "TableIndex \<Rightarrow> string" where
  "IndexSignature index = indexSignature (ti_Unique index) (map (\<lambda>c. (ip_ColumnName c, ip_Descending c)) (ti_Columns index))"

definition EntityIndexSignature :: "EntityIndex \<Rightarrow> string" where
  "EntityIndexSignature index = indexSignature (ei_Unique index) (map (\<lambda>c. (ic_ColumnName c, ic_Descending c)) (ei_Columns index))"

section \<open>Statements\<close>

record ColumnRename =
  cr_From :: string
  cr_To :: string

text \<open>A rendered statement: SQL to run, or with a guarded view or trigger the definition it must still have.\<close>

record MigrationStatement =
  ms_SQL :: string
  ms_Origin :: string
  ms_GuardView :: string
  ms_GuardTrigger :: string
  ms_Expected :: "string list"

definition plain_statement :: "string \<Rightarrow> string \<Rightarrow> MigrationStatement" where
  "plain_statement sql origin = \<lparr>ms_SQL = sql, ms_Origin = origin, ms_GuardView = [], ms_GuardTrigger = [], ms_Expected = []\<rparr>"

definition view_guard :: "string \<Rightarrow> string \<Rightarrow> string \<Rightarrow> MigrationStatement" where
  "view_guard sql origin view = (plain_statement sql origin)\<lparr>ms_GuardView := view\<rparr>"

lemma ms_SQL_plain [simp]: "ms_SQL (plain_statement sql origin) = sql"
  by (simp add: plain_statement_def)

section \<open>The dialect\<close>

record Dialect =
  DialectName :: string
  QuoteIdentifier :: "string \<Rightarrow> string"
  CreateTableSQL :: "EntityMap \<Rightarrow> string"
  CreateIndexSQL :: "EntityMap \<Rightarrow> string list"
  CreateViewSQL :: "EntityMap \<Rightarrow> string"
  CreateIndexFromSchemaSQL :: "string \<Rightarrow> TableIndex \<Rightarrow> string"
  CreateViewFromBodySQL :: "string \<Rightarrow> string \<Rightarrow> bool \<Rightarrow> string"
  DropViewSQL :: "string \<Rightarrow> bool \<Rightarrow> string"
  ViewDefinitionIsVerbatim :: bool
  SupportsMaterializedViews :: bool
  StorageType :: "EntityMap \<Rightarrow> PropertyMap \<Rightarrow> string"
  VersionTableSQL :: string
  RenameTableSQL :: "string \<Rightarrow> string \<Rightarrow> string"
  RenameColumnSQL :: "string \<Rightarrow> string \<Rightarrow> string \<Rightarrow> string"
  AddColumnSQL :: "string \<Rightarrow> string \<Rightarrow> string \<Rightarrow> bool \<Rightarrow> string \<Rightarrow> string"
  DropColumnSQL :: "string \<Rightarrow> string \<Rightarrow> string"
  DropTableSQL :: "string \<Rightarrow> string"
  DropIndexSQL :: "string \<Rightarrow> string \<Rightarrow> string"
  CreateTriggerSQL :: "string \<Rightarrow> bool \<Rightarrow> TriggerDefinition \<Rightarrow> string list res"
  DropTriggerSQL :: "string \<Rightarrow> string \<Rightarrow> string list"
  CreateTableFromSchemaSQL :: "TableSchema \<Rightarrow> string"
  ColumnsInfoSQL :: string
  ViewDefinitionSQL :: string
  TriggerDefinitionSQL :: string
  IndexesInfoSQL :: string
  LimitOffsetClause :: "string \<Rightarrow> string \<Rightarrow> string"
  PagingRequiresOrderBy :: bool
  SupportsRowValueIn :: bool

text \<open>\<open>FromMap\<close>: the current model as a shape.\<close>

definition FromMap :: "EntityMap \<Rightarrow> Dialect \<Rightarrow> TableSchema" where
  "FromMap m d =
     \<lparr>ts_Name = RelationName m, ts_Dialect = DialectName d,
      ts_Columns = map (\<lambda>p. \<lparr>tc_Name = ColumnName p, tc_StorageType = StorageType d m p, tc_Nullable = IsNullable p,
                              tc_Key = IsKey p, tc_Generated = IsGenerated p\<rparr>) (Properties m),
      ts_Indexes = map (\<lambda>i. \<lparr>ti_Name = ei_Name i,
                              ti_Columns = map (\<lambda>c. \<lparr>ip_ColumnName = ic_ColumnName c, ip_Descending = ic_Descending c\<rparr>) (ei_Columns i),
                              ti_Unique = ei_Unique i\<rparr>) (Indexes m)\<rparr>"

text \<open>The model's indexes keep their signatures in the shape.\<close>

lemma FromMap_signatures: "map IndexSignature (ts_Indexes (FromMap m d)) = map EntityIndexSignature (Indexes m)"
  by (simp add: FromMap_def IndexSignature_def EntityIndexSignature_def comp_def)

section \<open>Trigger declarations\<close>

text \<open>The neutral declaration a trigger snapshot holds; its dialect stamp is the document's.\<close>

record TriggerDeclaration =
  tg_Dialect :: string
  tg_Name :: string
  tg_Relation :: string
  tg_RelationKind :: string
  tg_Timing :: TriggerTiming
  tg_Events :: "TriggerEvent set"
  tg_UpdateOf :: "string list"
  tg_SQL :: string

definition RelationKindTable :: string where "RelationKindTable = ''table''"

definition RelationKindView :: string where "RelationKindView = ''view''"

definition OnView :: "TriggerDeclaration \<Rightarrow> bool" where
  "OnView d \<longleftrightarrow> tg_RelationKind d = RelationKindView"

definition Definition :: "TriggerDeclaration \<Rightarrow> TriggerDefinition" where
  "Definition d =
     \<lparr>trg_Name = tg_Name d, trg_Timing = tg_Timing d, trg_Events = tg_Events d, trg_UpdateOf = tg_UpdateOf d, trg_SQL = tg_SQL d\<rparr>"

text \<open>\<open>withName\<close>: the object names the trigger, the declaration's own name is ignored.\<close>

definition withName :: "TriggerDeclaration \<Rightarrow> string \<Rightarrow> TriggerDeclaration" where
  "withName declaration name = declaration\<lparr>tg_Name := name\<rparr>"

text \<open>\<open>triggerGuard\<close>: the rendered create statements, normalized and in one order, as the guard the runner checks.\<close>

definition triggerGuard :: "Dialect \<Rightarrow> string \<Rightarrow> bool \<Rightarrow> TriggerDefinition \<Rightarrow> string \<Rightarrow> MigrationStatement res" where
  "triggerGuard d relation onView definition' origin =
     bindR (CreateTriggerSQL d relation onView definition') (\<lambda>creates.
       let expected = sort (map NormalizeTriggerDDL creates)
       in Inr \<lparr>ms_SQL = join (char_of (10 :: nat) # '';'' @ [char_of (10 :: nat)]) expected, ms_Origin = origin, ms_GuardView = [],
               ms_GuardTrigger = trg_Name definition', ms_Expected = expected\<rparr>)"

section \<open>Snapshots\<close>

text \<open>One object at one version: a table's shape, a view's definition, or a trigger's declaration, with the document's stamp.\<close>

datatype snapshot_body = SnapTable TableSchema | SnapDDL string | SnapTrigger TriggerDeclaration

record SnapshotEntry =
  se_Body :: snapshot_body
  se_Dialect :: string

text \<open>
  The set of snapshots: for each lower-cased object name its entries by version, in the order they
  were read; a version appears once. Reading a document (JSON, and the choice of its kind) gives the
  object, the version and the entry.
\<close>

record SnapshotSet =
  byObject :: "string \<Rightarrow> (int \<times> SnapshotEntry) list"

definition newSnapshotSet :: SnapshotSet where
  "newSnapshotSet = \<lparr>byObject = (\<lambda>_. [])\<rparr>"

definition SnapshotSet_add :: "string \<Rightarrow> int \<Rightarrow> SnapshotEntry \<Rightarrow> SnapshotSet \<Rightarrow> SnapshotSet" where
  "SnapshotSet_add object' version entry s =
     (let key = to_lower object'
      in s\<lparr>byObject := (byObject s)(key := filter (\<lambda>e. fst e \<noteq> version) (byObject s key) @ [(version, entry)])\<rparr>)"

definition SnapshotSet_At :: "SnapshotSet \<Rightarrow> string \<Rightarrow> int \<Rightarrow> SnapshotEntry option" where
  "SnapshotSet_At s object' version = map_of (byObject s (to_lower object')) version"

fun latest_before :: "int \<Rightarrow> (int \<times> SnapshotEntry) list \<Rightarrow> (int \<times> SnapshotEntry) option \<Rightarrow> (int \<times> SnapshotEntry) option" where
  "latest_before version [] latest = latest"
| "latest_before version ((v, entry) # es) latest =
     (if v \<ge> version then latest_before version es latest
      else case latest of
             None \<Rightarrow> latest_before version es (Some (v, entry))
           | Some (w, e) \<Rightarrow> latest_before version es (if v > w then Some (v, entry) else latest))"

definition LatestBefore :: "SnapshotSet \<Rightarrow> string \<Rightarrow> int \<Rightarrow> SnapshotEntry option" where
  "LatestBefore s object' version = map_option snd (latest_before version (byObject s (to_lower object')) None)"

text \<open>\<open>CheckSnapshotDialect\<close>: a tree and its snapshots belong to one dialect (MIG-014).\<close>

definition CheckSnapshotDialect :: "string \<Rightarrow> Dialect \<Rightarrow> string \<Rightarrow> unit res" where
  "CheckSnapshotDialect stamp d object' =
     (if normalizeStamp stamp = DialectName d then Inr () else Inl (OrmError ''MIG-014'' object'))"

text \<open>The greatest version below the bound, whatever the order of the entries.\<close>

lemma latest_before_spec:
  "case latest_before version es latest of
     None \<Rightarrow> latest = None \<and> (\<forall>e \<in> set es. fst e \<ge> version)
   | Some (v, entry) \<Rightarrow> ((v, entry) \<in> set es \<and> v < version \<or> latest = Some (v, entry)) \<and>
       (\<forall>e \<in> set es. fst e < version \<longrightarrow> fst e \<le> v) \<and> (\<forall>e. latest = Some e \<longrightarrow> fst e \<le> v)"
proof (induction version es latest rule: latest_before.induct)
  case (2 version v entry es latest)
  show ?case
  proof (cases "v \<ge> version")
    case True
    then show ?thesis
      using 2(1) by (auto split: option.splits prod.splits)
  next
    case False
    show ?thesis
    proof (cases latest)
      case None
      then show ?thesis
        using 2(2) [OF False None] False by (auto split: option.splits prod.splits)
    next
      case (Some p)
      obtain w e where p: "p = (w, e)"
        by (cases p)
      show ?thesis
        using 2(3) [OF False Some p [symmetric]] False Some p by (auto split: option.splits prod.splits if_splits)
    qed
  qed
qed (simp split: option.split prod.split)

lemma LatestBefore_spec:
  assumes "distinct (map fst (byObject s (to_lower object')))"
  shows "LatestBefore s object' version = Some entry \<longleftrightarrow>
    (\<exists>v < version. SnapshotSet_At s object' v = Some entry \<and>
       (\<forall>w. v < w \<and> w < version \<longrightarrow> SnapshotSet_At s object' w = None))"
    and "LatestBefore s object' version = None \<longleftrightarrow> (\<forall>v < version. SnapshotSet_At s object' v = None)"
proof -
  let ?es = "byObject s (to_lower object')"
  have at: "SnapshotSet_At s object' v = Some e \<longleftrightarrow> (v, e) \<in> set ?es" for v e
    using assms by (simp add: SnapshotSet_At_def)
  have none: "SnapshotSet_At s object' v = None \<longleftrightarrow> v \<notin> fst ` set ?es" for v
    by (simp add: SnapshotSet_At_def map_of_eq_None_iff)
  have spec: "case latest_before version ?es None of
      None \<Rightarrow> \<forall>e \<in> set ?es. fst e \<ge> version
    | Some (v, entry) \<Rightarrow> (v, entry) \<in> set ?es \<and> v < version \<and> (\<forall>e \<in> set ?es. fst e < version \<longrightarrow> fst e \<le> v)"
    using latest_before_spec [where version = version and es = ?es and latest = None] by (auto split: option.splits)
  show "LatestBefore s object' version = None \<longleftrightarrow> (\<forall>v < version. SnapshotSet_At s object' v = None)"
  proof (cases "latest_before version ?es None")
    case None
    then show ?thesis
      using spec none by (force simp: LatestBefore_def)
  next
    case (Some p)
    then have "fst p < version \<and> fst p \<in> fst ` set ?es"
      using spec by (cases p) force
    then show ?thesis
      using Some none by (auto simp: LatestBefore_def)
  qed
  show "LatestBefore s object' version = Some entry \<longleftrightarrow>
    (\<exists>v < version. SnapshotSet_At s object' v = Some entry \<and>
       (\<forall>w. v < w \<and> w < version \<longrightarrow> SnapshotSet_At s object' w = None))"
  proof (cases "latest_before version ?es None")
    case None
    then have "\<forall>v < version. SnapshotSet_At s object' v = None"
      using spec none by force
    then show ?thesis
      using None by (auto simp: LatestBefore_def)
  next
    case (Some p)
    obtain v e where p: "p = (v, e)"
      by (cases p)
    have v: "(v, e) \<in> set ?es" "v < version" "\<And>x. x \<in> set ?es \<Longrightarrow> fst x < version \<Longrightarrow> fst x \<le> v"
      using spec Some p by auto
    have uniq: "w = v" if "w < version" "SnapshotSet_At s object' w = Some e'"
      "\<forall>u. w < u \<and> u < version \<longrightarrow> SnapshotSet_At s object' u = None" for w e'
    proof -
      have "w \<le> v"
        using v(3) [of "(w, e')"] that(1,2) at by auto
      moreover have "\<not> w < v"
      proof
        assume "w < v"
        then have "SnapshotSet_At s object' v = None"
          using that(3) v(2) by blast
        moreover have "SnapshotSet_At s object' v = Some e"
          using at v(1) by blast
        ultimately show False
          by simp
      qed
      ultimately show ?thesis
        by simp
    qed
    have between: "\<forall>u. v < u \<and> u < version \<longrightarrow> SnapshotSet_At s object' u = None"
      using none v(3) by force
    have "LatestBefore s object' version = Some e"
      using Some p by (simp add: LatestBefore_def)
    then show ?thesis
      using uniq between v(1,2) at by (metis option.inject)
  qed
qed

end
