(* ===== verification/Table_Actions.thy ===== *)
theory Table_Actions
  imports Schema
begin

text \<open>
  The actions of a migration step (\<open>migration.go\<close>, \<open>trigger_actions.go\<close>). A step's \<open>Action\<close> method calls the
  operations below on a collector; an operation returns the handle of the action it added, on which the
  author may hang SQL to run before and after it. The calls of a step are data here, each operation with its
  hooks; \<open>build\<close> renders the collected actions.
\<close>

section \<open>One action\<close>

record MigrationAction =
  ma_origin :: string
  ma_statements :: "string list"
  ma_guard :: "MigrationStatement option"
  ma_preSQL :: "string list"
  ma_postSQL :: "string list"

definition newAction :: "string \<Rightarrow> string list \<Rightarrow> MigrationAction" where
  "newAction origin statements = \<lparr>ma_origin = origin, ma_statements = statements, ma_guard = None, ma_preSQL = [], ma_postSQL = []\<rparr>"

definition action_Pre :: "string \<Rightarrow> MigrationAction \<Rightarrow> MigrationAction" where
  "action_Pre sql a = a\<lparr>ma_preSQL := ma_preSQL a @ [sql]\<rparr>"

definition action_Post :: "string \<Rightarrow> MigrationAction \<Rightarrow> MigrationAction" where
  "action_Post sql a = a\<lparr>ma_postSQL := ma_postSQL a @ [sql]\<rparr>"

definition action_render :: "MigrationAction \<Rightarrow> MigrationStatement list" where
  "action_render a =
     (case ma_guard a of Some g \<Rightarrow> [g] | None \<Rightarrow> []) @
     map (\<lambda>sql. plain_statement sql (ma_origin a @ '' pre'')) (ma_preSQL a) @
     map (\<lambda>sql. plain_statement sql (ma_origin a)) (ma_statements a) @
     map (\<lambda>sql. plain_statement sql (ma_origin a @ '' post'')) (ma_postSQL a)"

text \<open>The hooks an author chains on the returned action.\<close>

record 'op call =
  call_op :: 'op
  call_pre :: "string list"
  call_post :: "string list"

definition hooked :: "'op call \<Rightarrow> MigrationAction \<Rightarrow> MigrationAction" where
  "hooked c a = fold action_Post (call_post c) (fold action_Pre (call_pre c) a)"

definition bare :: "'op \<Rightarrow> 'op call" where
  "bare op' = \<lparr>call_op = op', call_pre = [], call_post = []\<rparr>"

text \<open>\<open>MigrationSQL\<close>: the data hooks around a rollback.\<close>

definition MigrationSQL_render :: "string \<Rightarrow> string list \<Rightarrow> MigrationStatement list" where
  "MigrationSQL_render origin statements = map (\<lambda>sql. plain_statement sql origin) statements"

section \<open>Table steps\<close>

datatype table_op =
    CreateTable
  | DropTable
  | RenameTable string
  | RenameColumn string string
  | AddColumn string string bool string
  | RemoveColumn string
  | CreateIndexes
  | DropIndex string
  | TableSQL string

text \<open>\<open>NotNull\<close> is the one option of \<open>AddColumn\<close>; without it a column is nullable and has no default.\<close>

definition AddNullable :: "string \<Rightarrow> string \<Rightarrow> table_op" where
  "AddNullable name storageType = AddColumn name storageType True []"

definition AddNotNull :: "string \<Rightarrow> string \<Rightarrow> string \<Rightarrow> table_op" where
  "AddNotNull name storageType defaultSQL = AddColumn name storageType False defaultSQL"

record TableActions =
  ta_table :: string
  ta_entityMap :: EntityMap
  ta_dialect :: Dialect
  ta_renames :: "MigrationAction list"
  ta_adds :: "MigrationAction list"
  ta_removes :: "MigrationAction list"
  ta_custom :: "MigrationAction list"
  ta_columnRenames :: "ColumnRename list"

definition newTableActions :: "EntityMap \<Rightarrow> Dialect \<Rightarrow> TableActions" where
  "newTableActions m d =
     \<lparr>ta_table = RelationName m, ta_entityMap = m, ta_dialect = d, ta_renames = [], ta_adds = [], ta_removes = [],
      ta_custom = [], ta_columnRenames = []\<rparr>"

definition table_action :: "EntityMap \<Rightarrow> Dialect \<Rightarrow> table_op \<Rightarrow> MigrationAction" where
  "table_action m d op' =
     (let table = RelationName m
      in case op' of
           CreateTable \<Rightarrow> newAction (''create '' @ table) (CreateTableSQL d m # CreateIndexSQL d m)
         | DropTable \<Rightarrow> newAction (''drop '' @ table) [DropTableSQL d table]
         | RenameTable from_name \<Rightarrow> newAction (''rename table '' @ from_name) [RenameTableSQL d from_name table]
         | RenameColumn from_name to_name \<Rightarrow> newAction (''rename '' @ table @ ''.'' @ from_name) [RenameColumnSQL d table from_name to_name]
         | AddColumn name storageType nullable defaultSQL \<Rightarrow>
             newAction (''add '' @ table @ ''.'' @ name) [AddColumnSQL d table name storageType nullable defaultSQL]
         | RemoveColumn name \<Rightarrow> newAction (''remove '' @ table @ ''.'' @ name) [DropColumnSQL d table name]
         | CreateIndexes \<Rightarrow> newAction (''indexes '' @ table) (CreateIndexSQL d m)
         | DropIndex name \<Rightarrow> newAction (''drop index '' @ name) [DropIndexSQL d table name]
         | TableSQL sql \<Rightarrow> newAction (''sql '' @ table) [sql])"

text \<open>Each operation tracks its action in one of the four groups; a column rename is also kept structurally.\<close>

definition table_call :: "table_op call \<Rightarrow> TableActions \<Rightarrow> TableActions" where
  "table_call c a =
     (let action = hooked c (table_action (ta_entityMap a) (ta_dialect a) (call_op c))
      in case call_op c of
           CreateTable \<Rightarrow> a\<lparr>ta_adds := ta_adds a @ [action]\<rparr>
         | DropTable \<Rightarrow> a\<lparr>ta_removes := ta_removes a @ [action]\<rparr>
         | RenameTable from_name \<Rightarrow> a\<lparr>ta_renames := ta_renames a @ [action]\<rparr>
         | RenameColumn from_name to_name \<Rightarrow>
             a\<lparr>ta_columnRenames := ta_columnRenames a @ [\<lparr>cr_From = from_name, cr_To = to_name\<rparr>], ta_renames := ta_renames a @ [action]\<rparr>
         | AddColumn name storageType nullable defaultSQL \<Rightarrow> a\<lparr>ta_adds := ta_adds a @ [action]\<rparr>
         | RemoveColumn name \<Rightarrow> a\<lparr>ta_removes := ta_removes a @ [action]\<rparr>
         | CreateIndexes \<Rightarrow> a\<lparr>ta_adds := ta_adds a @ [action]\<rparr>
         | DropIndex name \<Rightarrow> a\<lparr>ta_removes := ta_removes a @ [action]\<rparr>
         | TableSQL sql \<Rightarrow> a\<lparr>ta_custom := ta_custom a @ [action]\<rparr>)"

definition table_build :: "TableActions \<Rightarrow> MigrationStatement list" where
  "table_build a = concat (map action_render (ta_renames a @ ta_adds a @ ta_removes a @ ta_custom a))"

text \<open>A step's calls on a fresh collector.\<close>

definition table_actions :: "EntityMap \<Rightarrow> Dialect \<Rightarrow> table_op call list \<Rightarrow> TableActions" where
  "table_actions m d calls = fold table_call calls (newTableActions m d)"

section \<open>View steps\<close>

datatype view_op = CreateView | DropView | RecreateView | ViewSQL string | ViewExpectDefinition string

definition view_action :: "EntityMap \<Rightarrow> Dialect \<Rightarrow> view_op \<Rightarrow> MigrationAction" where
  "view_action m d op' =
     (let view = RelationName m
      in case op' of
           CreateView \<Rightarrow> newAction (''create '' @ view) (CreateViewSQL d m # CreateIndexSQL d m)
         | DropView \<Rightarrow> newAction (''drop '' @ view)
             [(if Kind m = RelationMaterializedView then ''drop materialized view '' else ''drop view '') @ QuoteIdentifier d view]
         | RecreateView \<Rightarrow> newAction (''recreate '' @ view)
             ([DropViewSQL d view (Kind m = RelationMaterializedView), CreateViewSQL d m] @ CreateIndexSQL d m)
         | ViewSQL sql \<Rightarrow> newAction (''sql '' @ view) [sql]
         | ViewExpectDefinition ddl \<Rightarrow>
             (newAction (''expect '' @ view) [])\<lparr>ma_guard := Some (view_guard (NormalizeDDL ddl) (''expect '' @ view) view)\<rparr>)"

definition view_build :: "EntityMap \<Rightarrow> Dialect \<Rightarrow> view_op call list \<Rightarrow> MigrationStatement list" where
  "view_build m d calls = concat (map (\<lambda>c. action_render (hooked c (view_action m d (call_op c)))) calls)"

section \<open>Trigger steps\<close>

datatype trigger_op =
    CreateTrigger
  | Recreate TriggerTiming "TriggerEvent set" string "string list"
  | TriggerExpectDefinition TriggerTiming "TriggerEvent set" string "string list"
  | DropTrigger

record TriggerActions =
  tra_name :: string
  tra_relation :: string
  tra_onView :: bool
  tra_entityMap :: EntityMap
  tra_linked :: "EntityTrigger option"
  tra_dialect :: Dialect
  tra_actions :: "MigrationAction list"
  tra_err :: "go_error option"
  tra_declared :: "TriggerDeclaration option"
  tra_dropped :: bool

definition newTriggerActions :: "EntityMap \<Rightarrow> EntityTrigger option \<Rightarrow> string \<Rightarrow> Dialect \<Rightarrow> TriggerActions" where
  "newTriggerActions m linked name d =
     \<lparr>tra_name = name, tra_relation = RelationName m, tra_onView = (Kind m = RelationView), tra_entityMap = m, tra_linked = linked,
      tra_dialect = d, tra_actions = [], tra_err = None, tra_declared = None, tra_dropped = False\<rparr>"

text \<open>The first error is kept.\<close>

definition tra_fail :: "go_error \<Rightarrow> TriggerActions \<Rightarrow> TriggerActions" where
  "tra_fail e a = (case tra_err a of None \<Rightarrow> a\<lparr>tra_err := Some e\<rparr> | Some e' \<Rightarrow> a)"

definition tra_track :: "MigrationAction \<Rightarrow> TriggerActions \<Rightarrow> TriggerActions" where
  "tra_track action a = a\<lparr>tra_actions := tra_actions a @ [action]\<rparr>"

definition tra_literal :: "TriggerActions \<Rightarrow> TriggerTiming \<Rightarrow> TriggerEvent set \<Rightarrow> string \<Rightarrow> string list \<Rightarrow> TriggerDefinition" where
  "tra_literal a timing events sql updateOf =
     \<lparr>trg_Name = tra_name a, trg_Timing = timing, trg_Events = events, trg_UpdateOf = updateOf, trg_SQL = sql\<rparr>"

definition declarationOf :: "TriggerActions \<Rightarrow> TriggerDefinition \<Rightarrow> TriggerDeclaration" where
  "declarationOf a d =
     \<lparr>tg_Dialect = [], tg_Name = trg_Name d, tg_Relation = tra_relation a,
      tg_RelationKind = (if tra_onView a then RelationKindView else RelationKindTable),
      tg_Timing = trg_Timing d, tg_Events = trg_Events d, tg_UpdateOf = trg_UpdateOf d, tg_SQL = trg_SQL d\<rparr>"

text \<open>Every create is a drop followed by the create statements, and leaves its declaration behind.\<close>

definition tra_recreate :: "'op call \<Rightarrow> string \<Rightarrow> TriggerDefinition \<Rightarrow> TriggerActions \<Rightarrow> TriggerActions" where
  "tra_recreate c origin definition' a =
     (case CreateTriggerSQL (tra_dialect a) (tra_relation a) (tra_onView a) definition' of
        Inl e \<Rightarrow> tra_track (hooked c (newAction origin [])) (tra_fail e a)
      | Inr creates \<Rightarrow>
          tra_track (hooked c (newAction origin (DropTriggerSQL (tra_dialect a) (tra_relation a) (tra_name a) @ creates)))
            (a\<lparr>tra_declared := Some (declarationOf a definition'), tra_dropped := False\<rparr>))"

definition trigger_call :: "trigger_op call \<Rightarrow> TriggerActions \<Rightarrow> TriggerActions" where
  "trigger_call c a =
     (case call_op c of
        CreateTrigger \<Rightarrow>
          (case tra_linked a of
             None \<Rightarrow> tra_track (hooked c (newAction (''create trigger '' @ tra_name a) []))
                       (tra_fail (OrmError ''DDL-001'' (EntityName (tra_entityMap a))) a)
           | Some linked \<Rightarrow> tra_recreate c (''create trigger '' @ tra_name a) (et_Definition linked) a)
      | Recreate timing events sql updateOf \<Rightarrow>
          tra_recreate c (''recreate trigger '' @ tra_name a) (tra_literal a timing events sql updateOf) a
      | TriggerExpectDefinition timing events sql updateOf \<Rightarrow>
          (let origin = ''expect trigger '' @ tra_name a
           in case triggerGuard (tra_dialect a) (tra_relation a) (tra_onView a) (tra_literal a timing events sql updateOf) origin of
                Inl e \<Rightarrow> tra_fail e (tra_track (hooked c (newAction origin [])) a)
              | Inr statement \<Rightarrow> tra_track (hooked c ((newAction origin [])\<lparr>ma_guard := Some statement\<rparr>)) a)
      | DropTrigger \<Rightarrow>
          tra_track (hooked c (newAction (''drop trigger '' @ tra_name a) (DropTriggerSQL (tra_dialect a) (tra_relation a) (tra_name a))))
            (a\<lparr>tra_declared := None, tra_dropped := True\<rparr>))"

definition trigger_build :: "TriggerActions \<Rightarrow> MigrationStatement list res" where
  "trigger_build a = (case tra_err a of Some e \<Rightarrow> Inl e | None \<Rightarrow> Inr (concat (map action_render (tra_actions a))))"

section \<open>The order of a table step\<close>

text \<open>The group an operation belongs to.\<close>

fun table_phase :: "table_op \<Rightarrow> nat" where
  "table_phase (RenameTable f) = 0"
| "table_phase (RenameColumn f t) = 0"
| "table_phase CreateTable = 1"
| "table_phase (AddColumn n s b d) = 1"
| "table_phase CreateIndexes = 1"
| "table_phase DropTable = 2"
| "table_phase (RemoveColumn n) = 2"
| "table_phase (DropIndex n) = 2"
| "table_phase (TableSQL s) = 3"

lemma table_phase_cases: "table_phase op' = 0 \<or> table_phase op' = 1 \<or> table_phase op' = 2 \<or> table_phase op' = 3"
  by (cases op') auto

abbreviation phase_calls :: "nat \<Rightarrow> table_op call list \<Rightarrow> table_op call list" where
  "phase_calls n \<equiv> filter (\<lambda>c. table_phase (call_op c) = n)"

definition call_action :: "EntityMap \<Rightarrow> Dialect \<Rightarrow> table_op call \<Rightarrow> MigrationAction" where
  "call_action m d c = hooked c (table_action m d (call_op c))"

text \<open>The column renames among the calls.\<close>

fun call_rename :: "table_op call \<Rightarrow> ColumnRename option" where
  "call_rename c = (case call_op c of RenameColumn f t \<Rightarrow> Some \<lparr>cr_From = f, cr_To = t\<rparr> | _ \<Rightarrow> None)"

lemma table_call_groups:
  "ta_entityMap (table_call c a) = ta_entityMap a"
  "ta_dialect (table_call c a) = ta_dialect a"
  "ta_renames (table_call c a) = ta_renames a @ map (call_action (ta_entityMap a) (ta_dialect a)) (phase_calls 0 [c])"
  "ta_adds (table_call c a) = ta_adds a @ map (call_action (ta_entityMap a) (ta_dialect a)) (phase_calls 1 [c])"
  "ta_removes (table_call c a) = ta_removes a @ map (call_action (ta_entityMap a) (ta_dialect a)) (phase_calls 2 [c])"
  "ta_custom (table_call c a) = ta_custom a @ map (call_action (ta_entityMap a) (ta_dialect a)) (phase_calls 3 [c])"
  "ta_columnRenames (table_call c a) = ta_columnRenames a @ List.map_filter call_rename [c]"
  by (cases "call_op c"; simp add: table_call_def call_action_def map_filter_simps Let_def)+

lemma table_calls_groups:
  "ta_entityMap (fold table_call calls a) = ta_entityMap a \<and>
   ta_dialect (fold table_call calls a) = ta_dialect a \<and>
   ta_renames (fold table_call calls a) = ta_renames a @ map (call_action (ta_entityMap a) (ta_dialect a)) (phase_calls 0 calls) \<and>
   ta_adds (fold table_call calls a) = ta_adds a @ map (call_action (ta_entityMap a) (ta_dialect a)) (phase_calls 1 calls) \<and>
   ta_removes (fold table_call calls a) = ta_removes a @ map (call_action (ta_entityMap a) (ta_dialect a)) (phase_calls 2 calls) \<and>
   ta_custom (fold table_call calls a) = ta_custom a @ map (call_action (ta_entityMap a) (ta_dialect a)) (phase_calls 3 calls) \<and>
   ta_columnRenames (fold table_call calls a) = ta_columnRenames a @ List.map_filter call_rename calls"
proof (induction calls arbitrary: a)
  case (Cons c calls)
  show ?case
    using Cons.IH [of "table_call c a"] by (auto simp: table_call_groups map_filter_simps split: option.splits)
qed (simp add: map_filter_simps)

lemma insort_phase:
  "insort_key (\<lambda>c. table_phase (call_op c)) c (phase_calls 0 cs @ phase_calls 1 cs @ phase_calls 2 cs @ phase_calls 3 cs) =
   phase_calls 0 (c # cs) @ phase_calls 1 (c # cs) @ phase_calls 2 (c # cs) @ phase_calls 3 (c # cs)"
proof -
  have skip: "insort_key f x (ys @ zs) = ys @ insort_key f x zs" if "\<forall>y \<in> set ys. f y < f x" for f :: "table_op call \<Rightarrow> nat" and x ys zs
    using that by (induction ys) auto
  have stop: "insort_key f x zs = x # zs" if "\<forall>z \<in> set zs. f x \<le> f z" for f :: "table_op call \<Rightarrow> nat" and x zs
    using that by (cases zs) auto
  let ?f = "\<lambda>c. table_phase (call_op c)"
  consider "?f c = 0" | "?f c = 1" | "?f c = 2" | "?f c = 3"
    using table_phase_cases [of "call_op c"] by auto
  then show ?thesis
  proof cases
    case 1
    then show ?thesis
      by (simp add: stop)
  next
    case 2
    have "insort_key ?f c (phase_calls 0 cs @ phase_calls 1 cs @ phase_calls 2 cs @ phase_calls 3 cs) =
        phase_calls 0 cs @ c # phase_calls 1 cs @ phase_calls 2 cs @ phase_calls 3 cs"
      by (subst skip, use 2 in simp, subst stop, use 2 in auto)
    then show ?thesis
      using 2 by simp
  next
    case 3
    have "insort_key ?f c ((phase_calls 0 cs @ phase_calls 1 cs) @ phase_calls 2 cs @ phase_calls 3 cs) =
        (phase_calls 0 cs @ phase_calls 1 cs) @ c # phase_calls 2 cs @ phase_calls 3 cs"
      by (subst skip, use 3 in auto) (subst stop, use 3 in auto)
    then show ?thesis
      using 3 by simp
  next
    case 4
    have "insort_key ?f c ((phase_calls 0 cs @ phase_calls 1 cs @ phase_calls 2 cs) @ phase_calls 3 cs) =
        (phase_calls 0 cs @ phase_calls 1 cs @ phase_calls 2 cs) @ c # phase_calls 3 cs"
      by (subst skip, use 4 in auto) (subst stop, use 4 in auto)
    then show ?thesis
      using 4 by simp
  qed
qed

lemma phases_sorted:
  "sort_key (\<lambda>c. table_phase (call_op c)) cs = phase_calls 0 cs @ phase_calls 1 cs @ phase_calls 2 cs @ phase_calls 3 cs"
proof (induction cs)
  case (Cons c cs)
  show ?case
    using insort_phase [of c cs] unfolding sort_key_simps Cons.IH by simp
qed simp

lemma table_build_phases:
  "table_build (table_actions m d calls) =
     concat (map (\<lambda>c. action_render (call_action m d c)) (phase_calls 0 calls @ phase_calls 1 calls @ phase_calls 2 calls @ phase_calls 3 calls))"
  unfolding table_build_def table_actions_def
  by (simp add: table_calls_groups newTableActions_def comp_def)

text \<open>
  Whatever order the author declares a table step's actions in, the statements run in the order rename,
  add, remove, raw SQL, in declaration order within each group, every action with its hooks around it: the
  built statements are the renderings of the declared calls sorted stably by group. The declared column
  renames are kept beside them, in declaration order.
\<close>

theorem table_build_order:
  "table_build (table_actions m d calls) =
     concat (map (\<lambda>c. action_render (call_action m d c)) (sort_key (\<lambda>c. table_phase (call_op c)) calls)) \<and>
   ta_columnRenames (table_actions m d calls) = List.map_filter call_rename calls"
  unfolding phases_sorted table_build_phases
  by (simp add: table_actions_def table_calls_groups newTableActions_def)

end
