(* ===== verification/Schema_Diff.thy ===== *)
theory Schema_Diff
  imports Table_Actions "HOL-Library.AList"
begin

text \<open>
  The diff of two shapes and the step it generates (\<open>migration_generator.go\<close>): \<open>DiffSchemas\<close> as the code's
  loops over its two maps and the order list, the actions \<open>EmitTableStep\<close> writes into the generated step,
  and what the generated statements do to a table. The database is a parameter with the laws \<open>engine_laws\<close>.
  The theorem says that a supported diff is a correct migration on every such database.
\<close>

section \<open>The diff\<close>

record ColumnSpec =
  cs_Name :: string
  cs_StorageType :: string
  cs_Nullable :: bool

text \<open>What the generator cannot express (DDL-004); the prose of the entries is not kept.\<close>

datatype unsupported =
    RenameNotInSnapshot string string
  | RenameNotMapped string string
  | NonNullableAddition string
  | ColumnChanged string

record TableDiff =
  td_IsNew :: bool
  td_Added :: "ColumnSpec list"
  td_Removed :: "ColumnSpec list"
  td_Renamed :: "ColumnRename list"
  td_AddedIndexes :: "TableIndex list"
  td_RemovedIndexNames :: "string list"
  td_Unsupported :: "unsupported list"

definition IndexSQL :: "TableDiff \<Rightarrow> string \<Rightarrow> Dialect \<Rightarrow> string list" where
  "IndexSQL diff table d = map (CreateIndexFromSchemaSQL d table) (td_AddedIndexes diff)"

definition HasChanges :: "TableDiff \<Rightarrow> bool" where
  "HasChanges diff \<longleftrightarrow> td_IsNew diff \<or> td_Added diff \<noteq> [] \<or> td_Removed diff \<noteq> [] \<or> td_Renamed diff \<noteq> [] \<or>
     td_AddedIndexes diff \<noteq> [] \<or> td_RemovedIndexNames diff \<noteq> []"

text \<open>A Go map from old to new column names, as its pairs; \<open>DeclaredRenames\<close> reads them off the model.\<close>

type_synonym renames = "(string \<times> string) list"

fun DeclaredRenames_loop :: "PropertyMap list \<Rightarrow> renames \<Rightarrow> renames" where
  "DeclaredRenames_loop [] declared = declared"
| "DeclaredRenames_loop (p # ps) declared =
     (case RenamedFrom p of
        None \<Rightarrow> DeclaredRenames_loop ps declared
      | Some old \<Rightarrow> DeclaredRenames_loop ps (AList.update old (ColumnName p) declared))"

definition DeclaredRenames :: "EntityMap \<Rightarrow> renames" where
  "DeclaredRenames m = DeclaredRenames_loop (Properties m) []"

definition sortedKeys :: "renames \<Rightarrow> string list" where
  "sortedKeys m = sort (map fst m)"

definition go_lookup :: "renames \<Rightarrow> string \<Rightarrow> string" where
  "go_lookup m k = (case map_of m k of Some v \<Rightarrow> v | None \<Rightarrow> [])"

definition spec_of :: "TableColumn \<Rightarrow> ColumnSpec" where
  "spec_of c = \<lparr>cs_Name = tc_Name c, cs_StorageType = tc_StorageType c, cs_Nullable = tc_Nullable c\<rparr>"

text \<open>A map by lower-cased name; of two columns with one key the later stays.\<close>

definition by_key :: "TableColumn list \<Rightarrow> string \<Rightarrow> ColumnSpec option" where
  "by_key cols = fold (\<lambda>c m. m(to_lower (tc_Name c) \<mapsto> spec_of c)) cols Map.empty"

definition zero_spec :: ColumnSpec where
  "zero_spec = \<lparr>cs_Name = [], cs_StorageType = [], cs_Nullable = False\<rparr>"

record diff_state =
  ds_oldOrder :: "string list"
  ds_oldByKey :: "string \<Rightarrow> ColumnSpec option"
  ds_renamed :: "ColumnRename list"
  ds_unsupported :: "unsupported list"

fun replace_first :: "'a \<Rightarrow> 'a \<Rightarrow> 'a list \<Rightarrow> 'a list" where
  "replace_first x y [] = []"
| "replace_first x y (z # zs) = (if z = x then y # zs else z # replace_first x y zs)"

definition applyRename :: "string \<Rightarrow> string \<Rightarrow> diff_state \<Rightarrow> diff_state" where
  "applyRename from_name to_name s =
     (let fromKey = to_lower from_name; toKey = to_lower to_name;
          oldColumn = (case ds_oldByKey s fromKey of Some c \<Rightarrow> c | None \<Rightarrow> zero_spec)
      in s\<lparr>ds_renamed := ds_renamed s @ [\<lparr>cr_From = from_name, cr_To = to_name\<rparr>],
           ds_oldByKey := ((ds_oldByKey s)(fromKey := None))
             (toKey \<mapsto> \<lparr>cs_Name = to_name, cs_StorageType = cs_StorageType oldColumn, cs_Nullable = cs_Nullable oldColumn\<rparr>),
           ds_oldOrder := replace_first fromKey toKey (ds_oldOrder s)\<rparr>)"

definition unsupport :: "unsupported \<Rightarrow> diff_state \<Rightarrow> diff_state" where
  "unsupport u s = s\<lparr>ds_unsupported := ds_unsupported s @ [u]\<rparr>"

text \<open>The explicit renames are strict, the declared ones apply only while they can.\<close>

definition explicit_rename :: "(string \<Rightarrow> ColumnSpec option) \<Rightarrow> renames \<Rightarrow> string \<Rightarrow> diff_state \<Rightarrow> diff_state" where
  "explicit_rename currentByKey renames from_name s =
     (let to_name = go_lookup renames from_name
      in if ds_oldByKey s (to_lower from_name) = None then unsupport (RenameNotInSnapshot from_name to_name) s
         else if currentByKey (to_lower to_name) = None then unsupport (RenameNotMapped from_name to_name) s
         else applyRename from_name to_name s)"

definition declared_rename :: "(string \<Rightarrow> ColumnSpec option) \<Rightarrow> renames \<Rightarrow> string \<Rightarrow> diff_state \<Rightarrow> diff_state" where
  "declared_rename currentByKey declared from_name s =
     (let to_name = go_lookup declared from_name; fromKey = to_lower from_name; toKey = to_lower to_name
      in if ds_oldByKey s fromKey = None \<or> ds_oldByKey s toKey \<noteq> None \<or> currentByKey fromKey \<noteq> None \<or> currentByKey toKey = None
         then s else applyRename from_name to_name s)"

definition rename_phase :: "TableSchema \<Rightarrow> TableSchema \<Rightarrow> renames \<Rightarrow> renames \<Rightarrow> diff_state" where
  "rename_phase current snapshot renames declared =
     (let currentByKey = by_key (ts_Columns current);
          s = \<lparr>ds_oldOrder = map (\<lambda>c. to_lower (tc_Name c)) (ts_Columns snapshot), ds_oldByKey = by_key (ts_Columns snapshot),
               ds_renamed = [], ds_unsupported = []\<rparr>
      in fold (declared_rename currentByKey declared) (sortedKeys declared)
           (fold (explicit_rename currentByKey renames) (sortedKeys renames) s))"

definition the_spec :: "(string \<Rightarrow> ColumnSpec option) \<Rightarrow> string \<Rightarrow> ColumnSpec" where
  "the_spec m k = (case m k of Some c \<Rightarrow> c | None \<Rightarrow> zero_spec)"

text \<open>The three loops over the columns, and the one over the indexes.\<close>

definition missing_columns :: "TableSchema \<Rightarrow> diff_state \<Rightarrow> ColumnSpec list" where
  "missing_columns current s =
     map (\<lambda>c. the_spec (by_key (ts_Columns current)) (to_lower (tc_Name c)))
       (filter (\<lambda>c. ds_oldByKey s (to_lower (tc_Name c)) = None) (ts_Columns current))"

definition changed_columns :: "TableSchema \<Rightarrow> diff_state \<Rightarrow> TableColumn list" where
  "changed_columns current s =
     filter (\<lambda>c. case ds_oldByKey s (to_lower (tc_Name c)) of
                   None \<Rightarrow> False
                 | Some before \<Rightarrow>
                     (let after = the_spec (by_key (ts_Columns current)) (to_lower (tc_Name c))
                      in \<not> EqualFold (cs_StorageType before) (cs_StorageType after) \<or> cs_Nullable before \<noteq> cs_Nullable after))
       (ts_Columns current)"

definition DiffSchemas :: "TableSchema \<Rightarrow> TableSchema option \<Rightarrow> renames \<Rightarrow> renames \<Rightarrow> TableDiff" where
  "DiffSchemas current snapshot_opt renames declared =
     (case snapshot_opt of
        None \<Rightarrow> \<lparr>td_IsNew = True, td_Added = [], td_Removed = [], td_Renamed = [], td_AddedIndexes = [], td_RemovedIndexNames = [],
                 td_Unsupported = []\<rparr>
      | Some snapshot \<Rightarrow>
          (let s = rename_phase current snapshot renames declared;
               missing = missing_columns current s;
               oldSignatures = map IndexSignature (ts_Indexes snapshot);
               currentSignatures = map IndexSignature (ts_Indexes current)
           in \<lparr>td_IsNew = False,
               td_Added = filter cs_Nullable missing,
               td_Removed = map (the_spec (ds_oldByKey s)) (filter (\<lambda>k. by_key (ts_Columns current) k = None) (ds_oldOrder s)),
               td_Renamed = ds_renamed s,
               td_AddedIndexes = filter (\<lambda>i. IndexSignature i \<notin> set oldSignatures) (ts_Indexes current),
               td_RemovedIndexNames = map ti_Name (filter (\<lambda>i. IndexSignature i \<notin> set currentSignatures) (ts_Indexes snapshot)),
               td_Unsupported = ds_unsupported s @
                 map (\<lambda>c. NonNullableAddition (cs_Name c)) (filter (\<lambda>c. \<not> cs_Nullable c) missing) @
                 map (\<lambda>c. ColumnChanged (tc_Name c)) (changed_columns current s)\<rparr>))"

definition Diff :: "EntityMap \<Rightarrow> Dialect \<Rightarrow> TableSchema option \<Rightarrow> renames \<Rightarrow> TableDiff" where
  "Diff m d snapshot renames = DiffSchemas (FromMap m d) snapshot renames (DeclaredRenames m)"

text \<open>The actions the generated step calls, in the order they are written.\<close>

definition EmitTableStep :: "EntityMap \<Rightarrow> Dialect \<Rightarrow> TableDiff \<Rightarrow> table_op call list" where
  "EmitTableStep m d diff =
     map bare
       (if td_IsNew diff then TableSQL (CreateTableSQL d m) # map TableSQL (CreateIndexSQL d m)
        else map (\<lambda>r. RenameColumn (cr_From r) (cr_To r)) (td_Renamed diff) @
             map (\<lambda>c. AddNullable (cs_Name c) (cs_StorageType c)) (td_Added diff) @
             map (\<lambda>c. RemoveColumn (cs_Name c)) (td_Removed diff) @
             map TableSQL (IndexSQL diff (RelationName m) d) @
             map DropIndex (td_RemovedIndexNames diff))"

section \<open>What the statements do to a table\<close>

text \<open>
  A table as the migrations see it: its columns by lower-cased name with storage type (in one case)
  and nullability, and its indexes.
\<close>

record table_state =
  tab_columns :: "string \<Rightarrow> (string \<times> bool) option"
  tab_indexes :: "TableIndex list"

datatype ddl =
    DdlRename string string
  | DdlAdd string string bool
  | DdlDrop string
  | DdlCreateIndex TableIndex
  | DdlDropIndex string

definition part_keys :: "TableIndex \<Rightarrow> string list" where
  "part_keys i = map (\<lambda>p. to_lower (ip_ColumnName p)) (ti_Columns i)"

definition rename_part :: "string \<Rightarrow> string \<Rightarrow> TableIndex \<Rightarrow> TableIndex" where
  "rename_part f t i = i\<lparr>ti_Columns := map (\<lambda>p. if EqualFold (ip_ColumnName p) f then p\<lparr>ip_ColumnName := t\<rparr> else p) (ti_Columns i)\<rparr>"

text \<open>
  What a statement does to a table by a strict reading: it fails on an unknown or already existing column, on
  dropping a column an index covers, on an unknown index, and on an index over a column that is not there or
  under a name in use. It is the calculation the database of the property is compared with, and no claim about a
  database: where it fails, one engine may still go on (PostgreSQL drops the indexes of a dropped column
  with it). What a database is relied on to do is \<open>engine_laws\<close>.
\<close>

fun run_ddl :: "ddl \<Rightarrow> table_state \<Rightarrow> table_state option" where
  "run_ddl (DdlRename f t) s =
     (case tab_columns s (to_lower f) of
        None \<Rightarrow> None
      | Some c \<Rightarrow>
          if to_lower t \<noteq> to_lower f \<and> tab_columns s (to_lower t) \<noteq> None then None
          else Some (s\<lparr>tab_columns := ((tab_columns s)(to_lower f := None))(to_lower t \<mapsto> c), tab_indexes := map (rename_part f t) (tab_indexes s)\<rparr>))"
| "run_ddl (DdlAdd n ty b) s =
     (if tab_columns s (to_lower n) \<noteq> None then None else Some (s\<lparr>tab_columns := (tab_columns s)(to_lower n \<mapsto> (to_lower ty, b))\<rparr>))"
| "run_ddl (DdlDrop n) s =
     (if tab_columns s (to_lower n) = None \<or> (\<exists>i \<in> set (tab_indexes s). to_lower n \<in> set (part_keys i)) then None
      else Some (s\<lparr>tab_columns := (tab_columns s)(to_lower n := None)\<rparr>))"
| "run_ddl (DdlCreateIndex i) s =
     (if (\<exists>k \<in> set (part_keys i). tab_columns s k = None) \<or> (\<exists>j \<in> set (tab_indexes s). ti_Name j = ti_Name i) then None
      else Some (s\<lparr>tab_indexes := tab_indexes s @ [i]\<rparr>))"
| "run_ddl (DdlDropIndex n) s =
     (if \<forall>j \<in> set (tab_indexes s). ti_Name j \<noteq> n then None
      else Some (s\<lparr>tab_indexes := filter (\<lambda>j. ti_Name j \<noteq> n) (tab_indexes s)\<rparr>))"

fun run_ddls :: "ddl list \<Rightarrow> table_state \<Rightarrow> table_state option" where
  "run_ddls [] s = Some s"
| "run_ddls (x # xs) s = (case run_ddl x s of None \<Rightarrow> None | Some s' \<Rightarrow> run_ddls xs s')"

lemma run_ddls_append: "run_ddls (xs @ ys) s = (case run_ddls xs s of None \<Rightarrow> None | Some s' \<Rightarrow> run_ddls ys s')"
  by (induction xs arbitrary: s) (auto split: option.splits)

text \<open>
  The database that runs the migrations is not part of the program: its execution of a statement is
  \<open>exec\<close>, the table it holds is read by \<open>shape\<close>, and \<open>free\<close> says of a statement that nothing outside that
  table stands in its way: the database reads its names as they are compared here, no key, constraint,
  view or trigger hangs on the column renamed or dropped, the name of a new index is free in its schema
  and the rows agree with it if it is unique. The laws are what the manuals of SQLite, PostgreSQL and SQL Server
  document of such a statement: a column is renamed to a name not in use, and the indexes follow it; a
  nullable column is added; a column under no index that is not the last one is dropped; an index is
  dropped; an index over existing columns is created under a new name. Nothing is said of a statement
  outside these conditions.
\<close>

definition engine_laws :: "(ddl \<Rightarrow> 'db \<Rightarrow> 'db option) \<Rightarrow> ('db \<Rightarrow> table_state) \<Rightarrow> (ddl \<Rightarrow> bool) \<Rightarrow> bool" where
  "engine_laws exec shape free \<longleftrightarrow>
     (\<forall>f t c db. free (DdlRename f t) \<longrightarrow> tab_columns (shape db) (to_lower f) = Some c \<longrightarrow>
        to_lower t = to_lower f \<or> tab_columns (shape db) (to_lower t) = None \<longrightarrow>
        (\<exists>db'. exec (DdlRename f t) db = Some db' \<and>
           shape db' = (shape db)\<lparr>tab_columns := ((tab_columns (shape db))(to_lower f := None))(to_lower t \<mapsto> c),
                                  tab_indexes := map (rename_part f t) (tab_indexes (shape db))\<rparr>)) \<and>
     (\<forall>n ty db. free (DdlAdd n ty True) \<longrightarrow> tab_columns (shape db) (to_lower n) = None \<longrightarrow>
        (\<exists>db'. exec (DdlAdd n ty True) db = Some db' \<and>
           shape db' = (shape db)\<lparr>tab_columns := (tab_columns (shape db))(to_lower n \<mapsto> (to_lower ty, True))\<rparr>)) \<and>
     (\<forall>n k db. free (DdlDrop n) \<longrightarrow> tab_columns (shape db) (to_lower n) \<noteq> None \<longrightarrow>
        (\<forall>i \<in> set (tab_indexes (shape db)). to_lower n \<notin> set (part_keys i)) \<longrightarrow>
        k \<noteq> to_lower n \<longrightarrow> tab_columns (shape db) k \<noteq> None \<longrightarrow>
        (\<exists>db'. exec (DdlDrop n) db = Some db' \<and> shape db' = (shape db)\<lparr>tab_columns := (tab_columns (shape db))(to_lower n := None)\<rparr>)) \<and>
     (\<forall>n db. free (DdlDropIndex n) \<longrightarrow> n \<in> ti_Name ` set (tab_indexes (shape db)) \<longrightarrow>
        (\<exists>db'. exec (DdlDropIndex n) db = Some db' \<and>
           shape db' = (shape db)\<lparr>tab_indexes := filter (\<lambda>j. ti_Name j \<noteq> n) (tab_indexes (shape db))\<rparr>)) \<and>
     (\<forall>i db. free (DdlCreateIndex i) \<longrightarrow> (\<forall>k \<in> set (part_keys i). tab_columns (shape db) k \<noteq> None) \<longrightarrow>
        ti_Name i \<notin> ti_Name ` set (tab_indexes (shape db)) \<longrightarrow>
        (\<exists>db'. exec (DdlCreateIndex i) db = Some db' \<and> shape db' = (shape db)\<lparr>tab_indexes := tab_indexes (shape db) @ [i]\<rparr>))"

fun exec_all :: "(ddl \<Rightarrow> 'db \<Rightarrow> 'db option) \<Rightarrow> ddl list \<Rightarrow> 'db \<Rightarrow> 'db option" where
  "exec_all exec [] db = Some db"
| "exec_all exec (x # xs) db = (case exec x db of None \<Rightarrow> None | Some db' \<Rightarrow> exec_all exec xs db')"

lemma exec_all_append:
  "exec_all exec (xs @ ys) db = (case exec_all exec xs db of None \<Rightarrow> None | Some db' \<Rightarrow> exec_all exec ys db')"
  by (induction xs arbitrary: db) (auto split: option.splits)

text \<open>The strict reading is itself such an engine.\<close>

lemma run_ddl_engine: "engine_laws run_ddl id (\<lambda>_. True)"
  unfolding engine_laws_def by (auto simp: image_iff) metis

fun harmless :: "ddl \<Rightarrow> bool" where
  "harmless (DdlAdd n ty b) = b"
| "harmless (DdlDrop n) = False"
| "harmless _ = True"

fun on_indexes :: "ddl \<Rightarrow> bool" where
  "on_indexes (DdlCreateIndex i) = True"
| "on_indexes (DdlDropIndex n) = True"
| "on_indexes _ = False"

lemma engine_step:
  assumes e: "engine_laws exec shape free" and "free x" and "harmless x" and r: "run_ddl x (shape db) = Some s"
  shows "\<exists>db'. exec x db = Some db' \<and> shape db' = s"
proof (cases x)
  case (DdlRename f t)
  obtain c where c: "tab_columns (shape db) (to_lower f) = Some c"
    using r DdlRename by (auto split: option.splits)
  then have "to_lower t = to_lower f \<or> tab_columns (shape db) (to_lower t) = None"
    and s: "s = (shape db)\<lparr>tab_columns := ((tab_columns (shape db))(to_lower f := None))(to_lower t \<mapsto> c), tab_indexes := map (rename_part f t) (tab_indexes (shape db))\<rparr>"
    using r DdlRename by (auto split: if_splits)
  then show ?thesis
    using conjunct1 [OF e [unfolded engine_laws_def], rule_format, of f t db c] c assms(2) DdlRename by simp
next
  case (DdlAdd n ty b)
  then have "tab_columns (shape db) (to_lower n) = None" "s = (shape db)\<lparr>tab_columns := (tab_columns (shape db))(to_lower n \<mapsto> (to_lower ty, True))\<rparr>" "b"
    using r assms(3) by (cases "tab_columns (shape db) (to_lower n)"; simp)+
  then show ?thesis
    using conjunct1 [OF conjunct2 [OF e [unfolded engine_laws_def]], rule_format, of n ty db] assms(2) DdlAdd by simp
next
  case (DdlCreateIndex i)
  then have "\<forall>k \<in> set (part_keys i). tab_columns (shape db) k \<noteq> None" "ti_Name i \<notin> ti_Name ` set (tab_indexes (shape db))"
    "s = (shape db)\<lparr>tab_indexes := tab_indexes (shape db) @ [i]\<rparr>"
    using r by (auto split: if_splits)
  then show ?thesis
    using e assms(2) DdlCreateIndex unfolding engine_laws_def by blast
next
  case (DdlDropIndex n)
  then have "n \<in> ti_Name ` set (tab_indexes (shape db))" "s = (shape db)\<lparr>tab_indexes := filter (\<lambda>j. ti_Name j \<noteq> n) (tab_indexes (shape db))\<rparr>"
    using r by (auto split: if_splits)
  then show ?thesis
    using e assms(2) DdlDropIndex unfolding engine_laws_def by blast
qed (use assms(3) in simp)

lemma engine_harmless:
  assumes e: "engine_laws exec shape free"
  shows "\<forall>x \<in> set xs. free x \<and> harmless x \<Longrightarrow> run_ddls xs (shape db) = Some t \<Longrightarrow> \<exists>db'. exec_all exec xs db = Some db' \<and> shape db' = t"
proof (induction xs arbitrary: db)
  case (Cons x xs)
  then obtain s where s: "run_ddl x (shape db) = Some s" "run_ddls xs s = Some t"
    by (auto split: option.splits)
  then obtain db' where "exec x db = Some db'" "shape db' = s"
    using engine_step [OF e, of x db s] Cons.prems(1) by auto
  then show ?case
    using Cons.IH [of db'] Cons.prems(1) s(2) by simp
qed simp

lemma run_drops_mono: "run_ddls (map DdlDrop ns) s = Some t \<Longrightarrow> tab_columns t \<subseteq>\<^sub>m tab_columns s"
proof (induction ns arbitrary: s)
  case (Cons n ns)
  then obtain s' where s': "run_ddl (DdlDrop n) s = Some s'" "run_ddls (map DdlDrop ns) s' = Some t"
    by (auto simp del: run_ddl.simps split: option.splits)
  then have "tab_columns s' = (tab_columns s)(to_lower n := None)"
    by (auto split: if_splits)
  then have "tab_columns s' \<subseteq>\<^sub>m tab_columns s"
    by (simp add: map_le_def)
  then show ?case
    using Cons.IH [OF s'(2)] map_le_trans by blast
qed simp

lemma engine_drops:
  assumes e: "engine_laws exec shape free"
  shows "\<forall>n \<in> set ns. free (DdlDrop n) \<Longrightarrow> run_ddls (map DdlDrop ns) (shape db) = Some t \<Longrightarrow> tab_columns t k \<noteq> None \<Longrightarrow>
    \<exists>db'. exec_all exec (map DdlDrop ns) db = Some db' \<and> shape db' = t"
proof (induction ns arbitrary: db)
  case (Cons n ns)
  then obtain s where s: "run_ddl (DdlDrop n) (shape db) = Some s" "run_ddls (map DdlDrop ns) s = Some t"
    by (auto simp del: run_ddl.simps split: option.splits)
  then have ok: "tab_columns (shape db) (to_lower n) \<noteq> None" "\<forall>i \<in> set (tab_indexes (shape db)). to_lower n \<notin> set (part_keys i)"
    and s': "s = (shape db)\<lparr>tab_columns := (tab_columns (shape db))(to_lower n := None)\<rparr>"
    by (auto split: if_splits)
  have "tab_columns s k \<noteq> None"
    using run_drops_mono [OF s(2)] Cons.prems(3) by (metis domIff map_le_implies_dom_le subsetD)
  then have "k \<noteq> to_lower n" "tab_columns (shape db) k \<noteq> None"
    by (auto simp: s' split: if_splits)
  then obtain db' where "exec (DdlDrop n) db = Some db'" "shape db' = s"
    using e ok Cons.prems(1) unfolding engine_laws_def s' by (meson list.set_intros(1))
  then show ?case
    using Cons.IH [of db'] Cons.prems(1,3) s(2) by simp
qed simp

lemma run_on_indexes: "\<forall>x \<in> set xs. on_indexes x \<Longrightarrow> run_ddls xs s = Some t \<Longrightarrow> tab_columns t = tab_columns s"
proof (induction xs arbitrary: s)
  case (Cons x xs)
  then obtain s' where s': "run_ddl x s = Some s'" "run_ddls xs s' = Some t"
    by (auto split: option.splits)
  then have "tab_columns s' = tab_columns s"
    using Cons.prems(1) by (cases x) (auto split: if_splits)
  then show ?case
    using Cons.IH [OF _ s'(2)] Cons.prems(1) by simp
qed simp

text \<open>What the strict reading accepts, every engine does, as long as a column is left.\<close>

lemma engine_runs:
  assumes e: "engine_laws exec shape free" and f: "\<forall>x \<in> set (xs @ map DdlDrop ns @ ys). free x"
    and r: "run_ddls (xs @ map DdlDrop ns @ ys) (shape db) = Some t" and k: "tab_columns t k \<noteq> None"
    and p: "\<forall>x \<in> set xs. harmless x" "\<forall>x \<in> set ys. on_indexes x"
  shows "\<exists>db'. exec_all exec (xs @ map DdlDrop ns @ ys) db = Some db' \<and> shape db' = t"
proof -
  obtain u v where u: "run_ddls xs (shape db) = Some u" and v: "run_ddls (map DdlDrop ns) u = Some v" and t: "run_ddls ys v = Some t"
    using r by (auto simp: run_ddls_append split: option.splits)
  obtain db1 where db1: "exec_all exec xs db = Some db1" "shape db1 = u"
    using engine_harmless [OF e _ u] f p(1) by auto
  have "tab_columns v k \<noteq> None"
    using run_on_indexes [OF p(2) t] k by simp
  then obtain db2 where db2: "exec_all exec (map DdlDrop ns) db1 = Some db2" "shape db2 = v"
    using engine_drops [OF e, of ns db1 v k] f v db1(2) by auto
  have "harmless x" if "on_indexes x" for x
    using that by (cases x) simp_all
  then obtain db3 where "exec_all exec ys db2 = Some db3" "shape db3 = t"
    using engine_harmless [OF e, of ys db2 t] f p(2) t db2(2) by auto
  then show ?thesis
    using db1(1) db2(1) by (simp add: exec_all_append)
qed

definition table_of :: "TableSchema \<Rightarrow> table_state" where
  "table_of schema =
     \<lparr>tab_columns = (\<lambda>k. map_option (\<lambda>c. (to_lower (cs_StorageType c), cs_Nullable c)) (by_key (ts_Columns schema) k)),
      tab_indexes = ts_Indexes schema\<rparr>"

text \<open>The text of an effect under a dialect.\<close>

fun render_ddl :: "Dialect \<Rightarrow> string \<Rightarrow> ddl \<Rightarrow> string" where
  "render_ddl d table (DdlRename f t) = RenameColumnSQL d table f t"
| "render_ddl d table (DdlAdd n ty b) = AddColumnSQL d table n ty b []"
| "render_ddl d table (DdlDrop n) = DropColumnSQL d table n"
| "render_ddl d table (DdlCreateIndex i) = CreateIndexFromSchemaSQL d table i"
| "render_ddl d table (DdlDropIndex n) = DropIndexSQL d table n"

text \<open>The effects of a generated step, in the order its statements run.\<close>

definition step_ddls :: "TableDiff \<Rightarrow> ddl list" where
  "step_ddls diff =
     map (\<lambda>r. DdlRename (cr_From r) (cr_To r)) (td_Renamed diff) @
     map (\<lambda>c. DdlAdd (cs_Name c) (cs_StorageType c) True) (td_Added diff) @
     map (\<lambda>c. DdlDrop (cs_Name c)) (td_Removed diff) @
     map DdlDropIndex (td_RemovedIndexNames diff) @
     map DdlCreateIndex (td_AddedIndexes diff)"

section \<open>The rendered step\<close>

lemma table_action_plain: "ma_guard (table_action m d op') = None" "ma_preSQL (table_action m d op') = []" "ma_postSQL (table_action m d op') = []"
  by (cases op'; simp add: table_action_def newAction_def Let_def)+

lemma plain_render: "map ms_SQL (action_render (call_action m d (bare op'))) = ma_statements (table_action m d op')"
  by (simp add: action_render_def call_action_def hooked_def bare_def table_action_plain comp_def)

lemma phase_of_emitted:
  "phase_calls n (map bare ops) = map bare (filter (\<lambda>op'. table_phase op' = n) ops)"
  by (simp add: filter_map comp_def bare_def)

lemma emitted_statements:
  assumes "\<not> td_IsNew diff"
  shows "map ms_SQL (table_build (table_actions m d (EmitTableStep m d diff))) = map (render_ddl d (RelationName m)) (step_ddls diff)"
proof -
  have sql: "map ms_SQL (concat (map (\<lambda>c. action_render (call_action m d c)) (map bare ops))) = concat (map (\<lambda>op'. ma_statements (table_action m d op')) ops)" for ops
    by (induction ops) (simp_all add: plain_render)
  define rs as' ds cs js where "rs = map (\<lambda>r. RenameColumn (cr_From r) (cr_To r)) (td_Renamed diff)"
    and "as' = map (\<lambda>c. AddNullable (cs_Name c) (cs_StorageType c)) (td_Added diff)"
    and "ds = map (\<lambda>c. RemoveColumn (cs_Name c)) (td_Removed diff)"
    and "cs = map TableSQL (IndexSQL diff (RelationName m) d)" and "js = map DropIndex (td_RemovedIndexNames diff)"
  have phases: "\<forall>op' \<in> set rs. table_phase op' = 0" "\<forall>op' \<in> set as'. table_phase op' = 1" "\<forall>op' \<in> set ds. table_phase op' = 2"
    "\<forall>op' \<in> set cs. table_phase op' = 3" "\<forall>op' \<in> set js. table_phase op' = 2"
    by (auto simp: rs_def as'_def ds_def cs_def js_def AddNullable_def)
  have emit: "EmitTableStep m d diff = map bare (rs @ as' @ ds @ cs @ js)"
    using assms by (simp add: EmitTableStep_def rs_def as'_def ds_def cs_def js_def)
  have "phase_calls 0 (EmitTableStep m d diff) = map bare rs" "phase_calls 1 (EmitTableStep m d diff) = map bare as'"
    "phase_calls 2 (EmitTableStep m d diff) = map bare (ds @ js)" "phase_calls 3 (EmitTableStep m d diff) = map bare cs"
    unfolding emit phase_of_emitted using phases by (auto intro!: arg_cong [where f = "map bare"] filter_True filter_False simp: filter_empty_conv)
  then have "map ms_SQL (table_build (table_actions m d (EmitTableStep m d diff))) = concat (map (\<lambda>op'. ma_statements (table_action m d op')) (rs @ as' @ (ds @ js) @ cs))"
    unfolding table_build_phases by (simp only: map_append [symmetric] sql)
  then show ?thesis
    by (simp add: Let_def step_ddls_def AddNullable_def table_action_def newAction_def IndexSQL_def comp_def rs_def as'_def ds_def cs_def js_def concat_map_singleton)
qed

section \<open>The columns by key\<close>

lemma by_key_snoc: "by_key (cs @ [c]) = (by_key cs)(to_lower (tc_Name c) \<mapsto> spec_of c)"
  by (simp add: by_key_def)

definition keys_of :: "TableColumn list \<Rightarrow> string list" where
  "keys_of cols = map (\<lambda>c. to_lower (tc_Name c)) cols"

lemma dom_by_key: "dom (by_key cs) = set (keys_of cs)"
  by (induction cs rule: rev_induct) (simp add: by_key_def keys_of_def, simp add: by_key_snoc keys_of_def del: fun_upd_apply)

lemma by_key_None: "by_key cs k = None \<longleftrightarrow> k \<notin> set (keys_of cs)"
  using dom_by_key [of cs] by auto

lemma by_key_Some:
  assumes "distinct (keys_of cs)" and "c \<in> set cs"
  shows "by_key cs (to_lower (tc_Name c)) = Some (spec_of c)"
  using assms
proof (induction cs rule: rev_induct)
  case (snoc x cs)
  show ?case
  proof (cases "c = x")
    case False
    then have "c \<in> set cs"
      using snoc.prems(2) by simp
    then have "to_lower (tc_Name c) \<in> set (keys_of cs)"
      by (simp add: keys_of_def)
    then have "to_lower (tc_Name c) \<noteq> to_lower (tc_Name x)"
      using snoc.prems(1) by (auto simp: keys_of_def)
    then show ?thesis
      using snoc False by (simp add: by_key_snoc keys_of_def)
  qed (simp add: by_key_snoc)
qed simp

definition wf_schema :: "TableSchema \<Rightarrow> bool" where
  "wf_schema s \<longleftrightarrow> distinct (keys_of (ts_Columns s)) \<and> distinct (map ti_Name (ts_Indexes s)) \<and>
     (\<forall>i \<in> set (ts_Indexes s). \<forall>k \<in> set (part_keys i). k \<in> set (keys_of (ts_Columns s)))"

section \<open>Renames\<close>

lemma replace_first_set:
  "distinct xs \<Longrightarrow> x \<in> set xs \<Longrightarrow> y \<notin> set xs \<Longrightarrow> distinct (replace_first x y xs) \<and> set (replace_first x y xs) = insert y (set xs - {x})"
  by (induction xs) auto

definition rename_ddl :: "ColumnRename \<Rightarrow> ddl" where
  "rename_ddl r = DdlRename (cr_From r) (cr_To r)"

definition abs_columns :: "(string \<Rightarrow> ColumnSpec option) \<Rightarrow> string \<Rightarrow> (string \<times> bool) option" where
  "abs_columns m k = map_option (\<lambda>c. (to_lower (cs_StorageType c), cs_Nullable c)) (m k)"

text \<open>No index of the snapshot names the renamed column.\<close>

definition uncovered :: "TableSchema \<Rightarrow> string \<Rightarrow> bool" where
  "uncovered snapshot name \<longleftrightarrow> (\<forall>i \<in> set (ts_Indexes snapshot). to_lower name \<notin> set (part_keys i))"

lemma rename_part_uncovered: "to_lower f \<notin> set (part_keys i) \<Longrightarrow> rename_part f t i = i"
proof -
  assume "to_lower f \<notin> set (part_keys i)"
  then have "map (\<lambda>p. if EqualFold (ip_ColumnName p) f then p\<lparr>ip_ColumnName := t\<rparr> else p) (ti_Columns i) = ti_Columns i"
    by (intro map_idI) (force simp: part_keys_def EqualFold_def)
  then show ?thesis
    by (simp add: rename_part_def)
qed

text \<open>What holds of the two maps and the order after any number of applied renames.\<close>

definition renamed_inv :: "TableSchema \<Rightarrow> diff_state \<Rightarrow> bool" where
  "renamed_inv snapshot s \<longleftrightarrow>
     distinct (ds_oldOrder s) \<and> set (ds_oldOrder s) = dom (ds_oldByKey s) \<and>
     (\<forall>k c. ds_oldByKey s k = Some c \<longrightarrow> to_lower (cs_Name c) = k) \<and>
     ((\<forall>r \<in> set (ds_renamed s). uncovered snapshot (cr_From r)) \<longrightarrow>
        run_ddls (map rename_ddl (ds_renamed s)) (table_of snapshot) =
          Some \<lparr>tab_columns = abs_columns (ds_oldByKey s), tab_indexes = ts_Indexes snapshot\<rparr>)"

lemma applyRename_inv:
  assumes "renamed_inv snapshot s" and "ds_oldByKey s (to_lower f) \<noteq> None" and "ds_oldByKey s (to_lower t) = None"
  shows "renamed_inv snapshot (applyRename f t s)"
proof -
  obtain c where c: "ds_oldByKey s (to_lower f) = Some c"
    using assms(2) by auto
  let ?s = "applyRename f t s"
  have order: "distinct (ds_oldOrder ?s)" "set (ds_oldOrder ?s) = dom (ds_oldByKey ?s)"
    using assms replace_first_set [of "ds_oldOrder s" "to_lower f" "to_lower t"]
    by (auto simp: renamed_inv_def applyRename_def Let_def domIff)
  have names: "\<forall>k c. ds_oldByKey ?s k = Some c \<longrightarrow> to_lower (cs_Name c) = k"
    using assms(1) by (auto simp: renamed_inv_def applyRename_def Let_def)
  have "run_ddls (map rename_ddl (ds_renamed ?s)) (table_of snapshot) =
      Some \<lparr>tab_columns = abs_columns (ds_oldByKey ?s), tab_indexes = ts_Indexes snapshot\<rparr>"
    if u: "\<forall>r \<in> set (ds_renamed ?s). uncovered snapshot (cr_From r)"
  proof -
    have "run_ddls (map rename_ddl (ds_renamed s)) (table_of snapshot) =
        Some \<lparr>tab_columns = abs_columns (ds_oldByKey s), tab_indexes = ts_Indexes snapshot\<rparr>"
      using assms(1) u by (auto simp: renamed_inv_def applyRename_def Let_def)
    moreover have "map (rename_part f t) (ts_Indexes snapshot) = ts_Indexes snapshot"
      using u by (intro map_idI rename_part_uncovered) (auto simp: applyRename_def Let_def uncovered_def)
    moreover have "abs_columns (ds_oldByKey ?s) = ((abs_columns (ds_oldByKey s))(to_lower f := None))(to_lower t \<mapsto> (to_lower (cs_StorageType c), cs_Nullable c))"
      using c by (auto simp: applyRename_def Let_def abs_columns_def fun_eq_iff)
    ultimately show ?thesis
      using assms(3) c by (simp add: applyRename_def Let_def run_ddls_append rename_ddl_def abs_columns_def)
  qed
  then show ?thesis
    using order names by (simp add: renamed_inv_def)
qed

text \<open>The explicit renames go to columns the snapshot does not have, no two to the same one.\<close>

definition fresh_targets :: "TableSchema \<Rightarrow> renames \<Rightarrow> bool" where
  "fresh_targets snapshot renames \<longleftrightarrow>
     distinct (map fst renames) \<and> distinct (map (\<lambda>r. to_lower (snd r)) renames) \<and>
     (\<forall>r \<in> set renames. to_lower (snd r) \<notin> set (keys_of (ts_Columns snapshot)))"

lemma explicit_inv:
  assumes "renamed_inv snapshot s" and "distinct ks"
    and "\<And>f. f \<in> set ks \<Longrightarrow> ds_oldByKey s (to_lower (go_lookup renames f)) = None"
    and "inj_on (\<lambda>f. to_lower (go_lookup renames f)) (set ks)"
  shows "renamed_inv snapshot (fold (explicit_rename currentByKey renames) ks s)"
  using assms
proof (induction ks arbitrary: s)
  case (Cons k ks)
  let ?s = "explicit_rename currentByKey renames k s"
  have skip: "renamed_inv snapshot (unsupport u s)" for u
    using Cons.prems(1) by (simp add: renamed_inv_def unsupport_def)
  have inv: "renamed_inv snapshot ?s"
    using applyRename_inv [OF Cons.prems(1)] Cons.prems(3) [of k] skip by (auto simp: explicit_rename_def Let_def)
  have "ds_oldByKey ?s (to_lower (go_lookup renames f)) = None" if f: "f \<in> set ks" for f
  proof -
    have "to_lower (go_lookup renames f) \<noteq> to_lower (go_lookup renames k)"
      using Cons.prems(2,4) f by (auto simp: inj_on_def)
    then show ?thesis
      using Cons.prems(3) [of f] f by (auto simp: explicit_rename_def Let_def unsupport_def applyRename_def)
  qed
  then show ?case
    using Cons.IH [OF inv] Cons.prems(2,4) by (auto simp: inj_on_def)
qed simp

lemma declared_inv:
  "renamed_inv snapshot s \<Longrightarrow> renamed_inv snapshot (fold (declared_rename currentByKey declared) ks s)"
proof (induction ks arbitrary: s)
  case (Cons k ks)
  have "renamed_inv snapshot (declared_rename currentByKey declared k s)"
    using applyRename_inv [OF Cons.prems] Cons.prems by (auto simp: declared_rename_def Let_def)
  then show ?case
    using Cons.IH by simp
qed simp

lemma rename_phase_inv:
  assumes "wf_schema snapshot" and "fresh_targets snapshot renames"
  shows "renamed_inv snapshot (rename_phase current snapshot renames declared)"
proof -
  let ?cols = "ts_Columns snapshot"
  let ?s = "\<lparr>ds_oldOrder = map (\<lambda>c. to_lower (tc_Name c)) ?cols, ds_oldByKey = by_key ?cols, ds_renamed = [], ds_unsupported = []\<rparr>"
  have d: "distinct (keys_of ?cols)"
    using assms(1) by (simp add: wf_schema_def)
  have "to_lower (cs_Name c) = k" if c: "by_key ?cols k = Some c" for k c
  proof -
    have "k \<in> set (keys_of ?cols)"
      using c dom_by_key [of ?cols] by (metis domI)
    then obtain x where "x \<in> set ?cols" "k = to_lower (tc_Name x)"
      by (auto simp: keys_of_def)
    then show ?thesis
      using by_key_Some [OF d] c by (auto simp: spec_of_def)
  qed
  then have inv: "renamed_inv snapshot ?s"
    using d dom_by_key [of ?cols] by (auto simp: renamed_inv_def keys_of_def table_of_def abs_columns_def fun_eq_iff)
  have keys: "distinct (sortedKeys renames)" "set (sortedKeys renames) = fst ` set renames"
    using assms(2) by (auto simp: sortedKeys_def fresh_targets_def)
  have pair: "(f, go_lookup renames f) \<in> set renames" if "f \<in> fst ` set renames" for f
    using that by (auto simp: go_lookup_def map_of_eq_None_iff split: option.splits dest: map_of_SomeD)
  have "by_key ?cols (to_lower (go_lookup renames f)) = None" if "f \<in> set (sortedKeys renames)" for f
    using pair [of f] that keys(2) assms(2) by (auto simp: by_key_None fresh_targets_def)
  moreover have "inj_on (\<lambda>f. to_lower (go_lookup renames f)) (set (sortedKeys renames))"
  proof (rule inj_onI)
    fix f g
    assume a: "f \<in> set (sortedKeys renames)" "g \<in> set (sortedKeys renames)" "to_lower (go_lookup renames f) = to_lower (go_lookup renames g)"
    have "(f, go_lookup renames f) \<in> set renames" "(g, go_lookup renames g) \<in> set renames"
      by (rule pair, use a(1) keys(2) in simp, rule pair, use a(2) keys(2) in simp)
    moreover have "inj_on (\<lambda>r. to_lower (snd r)) (set renames)"
      using assms(2) by (simp add: fresh_targets_def distinct_map)
    ultimately have "(f, go_lookup renames f) = (g, go_lookup renames g)"
      using a(3) by (intro inj_onD [of "\<lambda>r. to_lower (snd r)" "set renames"]) simp_all
    then show "f = g"
      by (rule Pair_inject)
  qed
  ultimately show ?thesis
    unfolding rename_phase_def Let_def by (intro declared_inv explicit_inv [OF inv keys(1)]) simp_all
qed

section \<open>The other phases\<close>

lemma run_adds:
  assumes "distinct (map (\<lambda>c. to_lower (cs_Name c)) cs)" and "\<forall>c \<in> set cs. tab_columns st (to_lower (cs_Name c)) = None"
  shows "run_ddls (map (\<lambda>c. DdlAdd (cs_Name c) (cs_StorageType c) True) cs) st =
    Some (st\<lparr>tab_columns := tab_columns st ++ map_of (map (\<lambda>c. (to_lower (cs_Name c), to_lower (cs_StorageType c), True)) cs)\<rparr>)"
  using assms
proof (induction cs arbitrary: st)
  case (Cons c cs)
  let ?st = "st\<lparr>tab_columns := (tab_columns st)(to_lower (cs_Name c) \<mapsto> (to_lower (cs_StorageType c), True))\<rparr>"
  have "run_ddls (map (\<lambda>c. DdlAdd (cs_Name c) (cs_StorageType c) True) cs) ?st =
      Some (?st\<lparr>tab_columns := tab_columns ?st ++ map_of (map (\<lambda>c. (to_lower (cs_Name c), to_lower (cs_StorageType c), True)) cs)\<rparr>)"
    using Cons.prems by (intro Cons.IH) (auto simp: image_iff)
  moreover have "(tab_columns st)(to_lower (cs_Name c) \<mapsto> v) ++ map_of (map (\<lambda>c. (to_lower (cs_Name c), to_lower (cs_StorageType c), True)) cs) =
      tab_columns st ++ (map_of (map (\<lambda>c. (to_lower (cs_Name c), to_lower (cs_StorageType c), True)) cs))(to_lower (cs_Name c) \<mapsto> v)" for v
    using Cons.prems(1) by (auto simp: map_add_def fun_eq_iff map_of_eq_None_iff image_iff split: option.splits dest!: map_of_SomeD)
  ultimately show ?case
    using Cons.prems(2) by (simp del: fun_upd_apply)
qed simp

lemma run_drops:
  assumes "distinct (map to_lower ns)" and "\<forall>n \<in> set ns. tab_columns st (to_lower n) \<noteq> None"
    and "\<forall>n \<in> set ns. \<forall>i \<in> set (tab_indexes st). to_lower n \<notin> set (part_keys i)"
  shows "run_ddls (map DdlDrop ns) st = Some (st\<lparr>tab_columns := tab_columns st |` (- set (map to_lower ns))\<rparr>)"
  using assms
proof (induction ns arbitrary: st)
  case (Cons n ns)
  let ?st = "st\<lparr>tab_columns := (tab_columns st)(to_lower n := None)\<rparr>"
  have "run_ddls (map DdlDrop ns) ?st = Some (?st\<lparr>tab_columns := tab_columns ?st |` (- set (map to_lower ns))\<rparr>)"
    using Cons.prems by (intro Cons.IH) (auto simp: image_iff)
  moreover have "((tab_columns st)(to_lower n := None)) |` (- set (map to_lower ns)) = tab_columns st |` (- set (map to_lower (n # ns)))"
    by (auto simp: restrict_map_def fun_eq_iff)
  ultimately show ?case
    using Cons.prems(2,3) by auto
qed (simp add: restrict_map_def)

lemma run_drop_indexes:
  assumes "distinct ns" and "set ns \<subseteq> ti_Name ` set (tab_indexes st)"
  shows "run_ddls (map DdlDropIndex ns) st = Some (st\<lparr>tab_indexes := filter (\<lambda>j. ti_Name j \<notin> set ns) (tab_indexes st)\<rparr>)"
  using assms
proof (induction ns arbitrary: st)
  case (Cons n ns)
  let ?st = "st\<lparr>tab_indexes := filter (\<lambda>j. ti_Name j \<noteq> n) (tab_indexes st)\<rparr>"
  have "run_ddls (map DdlDropIndex ns) ?st = Some (?st\<lparr>tab_indexes := filter (\<lambda>j. ti_Name j \<notin> set ns) (tab_indexes ?st)\<rparr>)"
  proof (rule Cons.IH)
    show "set ns \<subseteq> ti_Name ` set (tab_indexes ?st)"
    proof
      fix t
      assume "t \<in> set ns"
      then have "t \<noteq> n" "t \<in> ti_Name ` set (tab_indexes st)"
        using Cons.prems by auto
      then show "t \<in> ti_Name ` set (tab_indexes ?st)"
        by auto
    qed
  qed (use Cons.prems(1) in simp)
  moreover have "\<not> (\<forall>j \<in> set (tab_indexes st). ti_Name j \<noteq> n)"
    using Cons.prems(2) by auto
  moreover have "(\<lambda>j. ti_Name j \<notin> set ns \<and> ti_Name j \<noteq> n) = (\<lambda>j. ti_Name j \<notin> set (n # ns))"
    by auto
  ultimately show ?case
    by (simp add: conj_commute)
qed simp

lemma run_create_indexes:
  assumes "distinct (map ti_Name is')" and "\<forall>i \<in> set is'. \<forall>j \<in> set (tab_indexes st). ti_Name j \<noteq> ti_Name i"
    and "\<forall>i \<in> set is'. \<forall>k \<in> set (part_keys i). tab_columns st k \<noteq> None"
  shows "run_ddls (map DdlCreateIndex is') st = Some (st\<lparr>tab_indexes := tab_indexes st @ is'\<rparr>)"
  using assms
proof (induction is' arbitrary: st)
  case (Cons i is')
  let ?st = "st\<lparr>tab_indexes := tab_indexes st @ [i]\<rparr>"
  have "run_ddls (map DdlCreateIndex is') ?st = Some (?st\<lparr>tab_indexes := tab_indexes ?st @ is'\<rparr>)"
    using Cons.prems by (intro Cons.IH) auto
  then show ?case
    using Cons.prems(2,3) by auto
qed simp

section \<open>A supported diff is a migration\<close>

text \<open>
  What the generator relies on besides reporting nothing unsupported: the explicit renames go to new
  columns, no renamed column is covered by an index of the snapshot, and an added index does not take the
  name of a kept one.
\<close>

definition migratable :: "TableSchema \<Rightarrow> renames \<Rightarrow> TableDiff \<Rightarrow> bool" where
  "migratable snapshot renames diff \<longleftrightarrow>
     td_Unsupported diff = [] \<and> fresh_targets snapshot renames \<and>
     (\<forall>r \<in> set (td_Renamed diff). uncovered snapshot (cr_From r)) \<and>
     (\<forall>i \<in> set (td_AddedIndexes diff). \<forall>j \<in> set (ts_Indexes snapshot). ti_Name j = ti_Name i \<longrightarrow> ti_Name j \<in> set (td_RemovedIndexNames diff))"

text \<open>The parts of a supported diff, by the maps after its renames.\<close>

definition new_columns :: "TableSchema \<Rightarrow> diff_state \<Rightarrow> TableColumn list" where
  "new_columns current s = filter (\<lambda>c. ds_oldByKey s (to_lower (tc_Name c)) = None) (ts_Columns current)"

definition gone_keys :: "TableSchema \<Rightarrow> diff_state \<Rightarrow> string list" where
  "gone_keys current s = filter (\<lambda>k. k \<notin> set (keys_of (ts_Columns current))) (ds_oldOrder s)"

definition supported :: "TableSchema \<Rightarrow> TableSchema \<Rightarrow> diff_state \<Rightarrow> TableDiff \<Rightarrow> bool" where
  "supported current snapshot s diff \<longleftrightarrow>
     renamed_inv snapshot s \<and> td_Renamed diff = ds_renamed s \<and>
     td_Added diff = map spec_of (new_columns current s) \<and> (\<forall>c \<in> set (new_columns current s). tc_Nullable c) \<and>
     map (\<lambda>c. to_lower (cs_Name c)) (td_Removed diff) = gone_keys current s \<and>
     (\<forall>c \<in> set (ts_Columns current). \<forall>before. ds_oldByKey s (to_lower (tc_Name c)) = Some before \<longrightarrow>
        EqualFold (cs_StorageType before) (tc_StorageType c) \<and> cs_Nullable before = tc_Nullable c)"

lemma supportedI:
  assumes wf: "wf_schema current" "wf_schema snapshot" and d: "diff = DiffSchemas current (Some snapshot) renames declared"
    and m: "migratable snapshot renames diff"
  shows "supported current snapshot (rename_phase current snapshot renames declared) diff"
proof -
  let ?cur = "by_key (ts_Columns current)"
  define s where "s = rename_phase current snapshot renames declared"
  have parts: "td_Renamed diff = ds_renamed s" "td_Added diff = filter cs_Nullable (missing_columns current s)"
    "td_Removed diff = map (the_spec (ds_oldByKey s)) (filter (\<lambda>k. ?cur k = None) (ds_oldOrder s))"
    "filter (\<lambda>c. \<not> cs_Nullable c) (missing_columns current s) = []" "changed_columns current s = []"
    using m unfolding d by (simp_all add: migratable_def DiffSchemas_def Let_def s_def)
  have inv: "renamed_inv snapshot s"
    unfolding s_def using wf(2) m by (intro rename_phase_inv) (simp_all add: migratable_def)
  have "the_spec ?cur (to_lower (tc_Name c)) = spec_of c" if "c \<in> set (ts_Columns current)" for c
    using by_key_Some [of "ts_Columns current", OF _ that] wf(1) by (simp add: the_spec_def wf_schema_def)
  then have missing: "missing_columns current s = map spec_of (new_columns current s)"
    and unchanged: "\<forall>c \<in> set (ts_Columns current). \<forall>before. ds_oldByKey s (to_lower (tc_Name c)) = Some before \<longrightarrow>
        EqualFold (cs_StorageType before) (tc_StorageType c) \<and> cs_Nullable before = tc_Nullable c"
    using parts(5) by (auto simp: missing_columns_def new_columns_def changed_columns_def filter_empty_conv Let_def spec_of_def cong: map_cong)
  then have added: "td_Added diff = map spec_of (new_columns current s)" "\<forall>c \<in> set (new_columns current s). tc_Nullable c"
    using parts(2,4) by (auto simp: filter_empty_conv spec_of_def filter_True)
  have "to_lower (cs_Name (the_spec (ds_oldByKey s) k)) = k" if "k \<in> set (gone_keys current s)" for k
    using inv that by (auto simp: gone_keys_def renamed_inv_def the_spec_def split: option.splits)
  then have "map (\<lambda>k. to_lower (cs_Name (the_spec (ds_oldByKey s) k))) (gone_keys current s) = gone_keys current s"
    by (rule map_idI)
  then have "map (\<lambda>c. to_lower (cs_Name c)) (td_Removed diff) = gone_keys current s"
    by (simp add: parts(3) comp_def by_key_None gone_keys_def)
  then show ?thesis
    using inv parts(1) added unchanged by (simp add: supported_def s_def)
qed

text \<open>The columns once the renames and the additions have run.\<close>

definition grown :: "TableSchema \<Rightarrow> diff_state \<Rightarrow> string \<Rightarrow> (string \<times> bool) option" where
  "grown current s = abs_columns (ds_oldByKey s) ++ map_of (map (\<lambda>c. (to_lower (tc_Name c), to_lower (tc_StorageType c), True)) (new_columns current s))"

lemma distinct_new_columns: "wf_schema current \<Longrightarrow> distinct (map (\<lambda>c. to_lower (tc_Name c)) (new_columns current s))"
  unfolding new_columns_def by (intro distinct_map_filter) (simp add: wf_schema_def keys_of_def)

lemma run_grow:
  assumes wf: "wf_schema current" and s: "supported current snapshot s diff"
    and u: "\<forall>r \<in> set (td_Renamed diff). uncovered snapshot (cr_From r)"
  shows "run_ddls (map rename_ddl (td_Renamed diff) @ map (\<lambda>c. DdlAdd (cs_Name c) (cs_StorageType c) True) (td_Added diff)) (table_of snapshot) =
    Some \<lparr>tab_columns = grown current s, tab_indexes = ts_Indexes snapshot\<rparr>"
proof -
  let ?st = "\<lparr>tab_columns = abs_columns (ds_oldByKey s), tab_indexes = ts_Indexes snapshot\<rparr>"
  have "run_ddls (map rename_ddl (td_Renamed diff)) (table_of snapshot) = Some ?st"
    using s u by (simp add: supported_def renamed_inv_def)
  moreover have "run_ddls (map (\<lambda>c. DdlAdd (cs_Name c) (cs_StorageType c) True) (td_Added diff)) ?st =
      Some \<lparr>tab_columns = grown current s, tab_indexes = ts_Indexes snapshot\<rparr>"
    using s distinct_new_columns [OF wf, of s]
    by (subst run_adds) (auto simp: supported_def grown_def comp_def spec_of_def new_columns_def abs_columns_def)
  ultimately show ?thesis
    by (simp only: run_ddls_append option.case)
qed

lemma run_removals:
  assumes s: "supported current snapshot s diff"
  shows "run_ddls (map (\<lambda>c. DdlDrop (cs_Name c)) (td_Removed diff)) \<lparr>tab_columns = grown current s, tab_indexes = ts_Indexes snapshot\<rparr> =
    (if \<forall>c \<in> set (td_Removed diff). uncovered snapshot (cs_Name c)
     then Some \<lparr>tab_columns = grown current s |` (- set (gone_keys current s)), tab_indexes = ts_Indexes snapshot\<rparr> else None)"
proof -
  let ?st = "\<lparr>tab_columns = grown current s, tab_indexes = ts_Indexes snapshot\<rparr>"
  let ?ns = "map cs_Name (td_Removed diff)"
  have ns: "map to_lower ?ns = gone_keys current s"
    using s by (simp add: supported_def comp_def)
  have none: "run_ddls (map DdlDrop ns) st = None" if "\<exists>n \<in> set ns. \<exists>i \<in> set (tab_indexes st). to_lower n \<in> set (part_keys i)" for ns st
    using that
  proof (induction ns arbitrary: st)
    case (Cons n ns)
    show ?case
    proof (cases "run_ddl (DdlDrop n) st")
      case (Some st')
      then have "tab_indexes st' = tab_indexes st" "\<forall>i \<in> set (tab_indexes st). to_lower n \<notin> set (part_keys i)"
        by (auto split: if_splits)
      then have "run_ddls (map DdlDrop ns) st' = None"
        using Cons.prems by (intro Cons.IH) auto
      then show ?thesis
        using Some by simp
    qed simp
  qed simp
  have dom: "set (gone_keys current s) \<subseteq> dom (ds_oldByKey s)" "distinct (gone_keys current s)"
    using s by (auto simp: supported_def gone_keys_def renamed_inv_def)
  have "\<forall>n \<in> set ?ns. grown current s (to_lower n) \<noteq> None"
  proof
    fix n
    assume "n \<in> set ?ns"
    then have "to_lower n \<in> set (gone_keys current s)"
      unfolding ns [symmetric] by (simp only: set_map image_eqI)
    then show "grown current s (to_lower n) \<noteq> None"
      using dom(1) by (auto simp: grown_def abs_columns_def map_add_def split: option.splits)
  qed
  then have some: "run_ddls (map DdlDrop ?ns) ?st = Some (?st\<lparr>tab_columns := tab_columns ?st |` (- set (map to_lower ?ns))\<rparr>)"
    if "\<forall>c \<in> set (td_Removed diff). uncovered snapshot (cs_Name c)"
    using that dom(2) unfolding ns [symmetric] by (intro run_drops) (auto simp: uncovered_def)
  show ?thesis
  proof (cases "\<forall>c \<in> set (td_Removed diff). uncovered snapshot (cs_Name c)")
    case True
    then show ?thesis
      using some [OF True] unfolding ns by (simp add: comp_def)
  next
    case False
    then have "run_ddls (map DdlDrop ?ns) ?st = None"
      by (intro none) (auto simp: uncovered_def)
    then show ?thesis
      using False by (simp add: comp_def)
  qed
qed

lemma grown_columns:
  assumes wf: "wf_schema current" and s: "supported current snapshot s diff"
  shows "grown current s |` (- set (gone_keys current s)) = tab_columns (table_of current)"
proof
  fix k
  let ?new = "map_of (map (\<lambda>c. (to_lower (tc_Name c), to_lower (tc_StorageType c), True)) (new_columns current s))"
  show "(grown current s |` (- set (gone_keys current s))) k = tab_columns (table_of current) k"
  proof (cases "k \<in> set (keys_of (ts_Columns current))")
    case False
    then have "?new k = None"
      by (auto simp: map_of_eq_None_iff new_columns_def keys_of_def)
    moreover have "ds_oldByKey s k = None \<or> k \<in> set (gone_keys current s)"
      using False s by (auto simp: supported_def renamed_inv_def gone_keys_def)
    moreover have "by_key (ts_Columns current) k = None"
      using False by (simp add: by_key_None)
    ultimately show ?thesis
      by (auto simp: grown_def restrict_map_def map_add_def table_of_def abs_columns_def)
  next
    case True
    then obtain c where c: "c \<in> set (ts_Columns current)" "k = to_lower (tc_Name c)"
      by (auto simp: keys_of_def)
    have cur: "by_key (ts_Columns current) k = Some (spec_of c)" and kept: "k \<notin> set (gone_keys current s)"
      using by_key_Some c wf True by (auto simp: wf_schema_def gone_keys_def)
    show ?thesis
    proof (cases "ds_oldByKey s k")
      case None
      then have "c \<in> set (new_columns current s)"
        using c by (simp add: new_columns_def)
      then have "?new k = Some (to_lower (tc_StorageType c), True)"
        using distinct_new_columns [OF wf, of s] c(2) by (subst map_of_eq_Some_iff) (auto simp: comp_def)
      moreover have "tc_Nullable c"
        using s \<open>c \<in> set (new_columns current s)\<close> by (simp add: supported_def)
      ultimately show ?thesis
        using kept cur by (simp add: grown_def restrict_map_def table_of_def spec_of_def)
    next
      case (Some before)
      then have "?new k = None"
        by (auto simp: map_of_eq_None_iff new_columns_def)
      moreover have "EqualFold (cs_StorageType before) (tc_StorageType c)" "cs_Nullable before = tc_Nullable c"
        using s c Some by (auto simp: supported_def)
      ultimately show ?thesis
        using kept cur Some by (simp add: grown_def restrict_map_def map_add_def table_of_def abs_columns_def spec_of_def EqualFold_def)
    qed
  qed
qed

text \<open>The indexes: what is dropped and created leaves the current signatures.\<close>

lemma run_index_changes:
  assumes wf: "wf_schema current" "wf_schema snapshot" and d: "diff = DiffSchemas current (Some snapshot) renames declared"
    and m: "migratable snapshot renames diff"
  shows "\<exists>t. run_ddls (map DdlDropIndex (td_RemovedIndexNames diff) @ map DdlCreateIndex (td_AddedIndexes diff))
        \<lparr>tab_columns = tab_columns (table_of current), tab_indexes = ts_Indexes snapshot\<rparr> = Some t \<and>
      tab_columns t = tab_columns (table_of current) \<and> IndexSignature ` set (tab_indexes t) = IndexSignature ` set (ts_Indexes current)"
proof -
  let ?new = "IndexSignature ` set (ts_Indexes current)"
  let ?old = "IndexSignature ` set (ts_Indexes snapshot)"
  have names: "td_RemovedIndexNames diff = map ti_Name (filter (\<lambda>i. IndexSignature i \<notin> ?new) (ts_Indexes snapshot))"
    and added: "td_AddedIndexes diff = filter (\<lambda>i. IndexSignature i \<notin> ?old) (ts_Indexes current)"
    unfolding d by (simp_all add: DiffSchemas_def Let_def)
  have dn: "distinct (map ti_Name (ts_Indexes snapshot))" "distinct (map ti_Name (ts_Indexes current))"
    using wf by (simp_all add: wf_schema_def)
  let ?kept = "filter (\<lambda>j. ti_Name j \<notin> set (td_RemovedIndexNames diff)) (ts_Indexes snapshot)"
  have "ti_Name j \<in> set (td_RemovedIndexNames diff) \<longleftrightarrow> IndexSignature j \<notin> ?new" if "j \<in> set (ts_Indexes snapshot)" for j
    using that dn(1) unfolding names by (auto simp: distinct_map dest: inj_onD)
  then have kept: "?kept = filter (\<lambda>j. IndexSignature j \<in> ?new) (ts_Indexes snapshot)"
    by (intro filter_cong) auto
  let ?mid = "\<lparr>tab_columns = tab_columns (table_of current), tab_indexes = ?kept\<rparr>"
  have "run_ddls (map DdlDropIndex (td_RemovedIndexNames diff)) \<lparr>tab_columns = tab_columns (table_of current), tab_indexes = ts_Indexes snapshot\<rparr> = Some ?mid"
    using dn(1) unfolding names by (subst run_drop_indexes) (auto simp: distinct_map_filter)
  moreover have "run_ddls (map DdlCreateIndex (td_AddedIndexes diff)) ?mid = Some (?mid\<lparr>tab_indexes := tab_indexes ?mid @ td_AddedIndexes diff\<rparr>)"
  proof (rule run_create_indexes)
    show "distinct (map ti_Name (td_AddedIndexes diff))"
      using dn(2) unfolding added by (rule distinct_map_filter)
    show "\<forall>i \<in> set (td_AddedIndexes diff). \<forall>j \<in> set (tab_indexes ?mid). ti_Name j \<noteq> ti_Name i"
      using m unfolding migratable_def by auto
    have "\<forall>i \<in> set (ts_Indexes current). \<forall>k \<in> set (part_keys i). by_key (ts_Columns current) k \<noteq> None"
      using wf(1) by (simp add: wf_schema_def by_key_None)
    then show "\<forall>i \<in> set (td_AddedIndexes diff). \<forall>k \<in> set (part_keys i). tab_columns ?mid k \<noteq> None"
      unfolding added by (auto simp: table_of_def)
  qed
  ultimately have "run_ddls (map DdlDropIndex (td_RemovedIndexNames diff) @ map DdlCreateIndex (td_AddedIndexes diff))
      \<lparr>tab_columns = tab_columns (table_of current), tab_indexes = ts_Indexes snapshot\<rparr> = Some (?mid\<lparr>tab_indexes := tab_indexes ?mid @ td_AddedIndexes diff\<rparr>)"
    by (simp only: run_ddls_append option.case)
  moreover have "IndexSignature ` set (?kept @ td_AddedIndexes diff) = ?new"
  proof
    show "IndexSignature ` set (?kept @ td_AddedIndexes diff) \<subseteq> ?new"
      unfolding kept added by auto
    show "?new \<subseteq> IndexSignature ` set (?kept @ td_AddedIndexes diff)"
    proof
      fix sig
      assume sig: "sig \<in> ?new"
      show "sig \<in> IndexSignature ` set (?kept @ td_AddedIndexes diff)"
      proof (cases "sig \<in> ?old")
        case True
        then obtain j where "j \<in> set (ts_Indexes snapshot)" "sig = IndexSignature j"
          by blast
        then have "j \<in> set ?kept"
          using sig unfolding kept by simp
        then show ?thesis
          using \<open>sig = IndexSignature j\<close> by auto
      next
        case False
        then show ?thesis
          using sig unfolding added by auto
      qed
    qed
  qed
  ultimately show ?thesis
    by simp
qed

lemma ddls_of_step:
  "step_ddls diff = (map rename_ddl (td_Renamed diff) @ map (\<lambda>c. DdlAdd (cs_Name c) (cs_StorageType c) True) (td_Added diff)) @
     map (\<lambda>c. DdlDrop (cs_Name c)) (td_Removed diff) @ map DdlDropIndex (td_RemovedIndexNames diff) @ map DdlCreateIndex (td_AddedIndexes diff)"
  by (simp add: step_ddls_def rename_ddl_def)

text \<open>The step under the strict reading: it fails exactly when a removed column is under an index.\<close>

lemma run_step_ddls:
  assumes "wf_schema current" and "wf_schema snapshot" and d: "diff = DiffSchemas current (Some snapshot) renames declared"
    and m: "migratable snapshot renames diff"
  shows "case run_ddls (step_ddls diff) (table_of snapshot) of
       None \<Rightarrow> \<exists>c \<in> set (td_Removed diff). \<not> uncovered snapshot (cs_Name c)
     | Some t \<Rightarrow> (\<forall>c \<in> set (td_Removed diff). uncovered snapshot (cs_Name c)) \<and>
         tab_columns t = tab_columns (table_of current) \<and> IndexSignature ` set (tab_indexes t) = IndexSignature ` set (ts_Indexes current)"
proof -
  define s where "s = rename_phase current snapshot renames declared"
  have s: "supported current snapshot s diff"
    unfolding s_def by (rule supportedI [OF assms(1,2) d m])
  have u: "\<forall>r \<in> set (td_Renamed diff). uncovered snapshot (cr_From r)"
    using m by (simp add: migratable_def)
  have grow: "run_ddls (map rename_ddl (td_Renamed diff) @ map (\<lambda>c. DdlAdd (cs_Name c) (cs_StorageType c) True) (td_Added diff)) (table_of snapshot) =
      Some \<lparr>tab_columns = grown current s, tab_indexes = ts_Indexes snapshot\<rparr>"
    by (rule run_grow [OF assms(1) s u])
  show ?thesis
  proof (cases "\<forall>c \<in> set (td_Removed diff). uncovered snapshot (cs_Name c)")
    case True
    then have "run_ddls (step_ddls diff) (table_of snapshot) =
        run_ddls (map DdlDropIndex (td_RemovedIndexNames diff) @ map DdlCreateIndex (td_AddedIndexes diff))
          \<lparr>tab_columns = tab_columns (table_of current), tab_indexes = ts_Indexes snapshot\<rparr>"
      unfolding ddls_of_step run_ddls_append [of "_ @ _"] grow option.case
      by (simp only: run_ddls_append [of "map (\<lambda>c. DdlDrop (cs_Name c)) (td_Removed diff)"] run_removals [OF s] if_P [OF True] option.case grown_columns [OF assms(1) s])
    then show ?thesis
      using run_index_changes [OF assms(1,2) d m] True by auto
  next
    case False
    then have "run_ddls (step_ddls diff) (table_of snapshot) = None"
      unfolding ddls_of_step run_ddls_append [of "_ @ _"] grow option.case
      by (simp only: run_ddls_append [of "map (\<lambda>c. DdlDrop (cs_Name c)) (td_Removed diff)"] run_removals [OF s] if_not_P [OF False] if_False option.case)
    then show ?thesis
      using False by auto
  qed
qed

text \<open>
  C22: a diff with nothing unsupported is a correct migration of the snapshot to the model. The statements of
  the step generated from it are the renames, the additions, the removals of columns, the removals of
  indexes and the new indexes, in this order; run by any database that obeys the laws above on a table of the
  snapshot's shape they all succeed and leave a table with exactly the model's columns (storage types up
  to case, nullability) and the model's index signatures. The conditions: the model has a column; the
  explicit renames go to new columns, no two to one; no renamed and no removed column is under an index
  of the snapshot (a removed column is dropped before the index that goes with it); no added index takes
  the name of an index that stays; and nothing outside the table stands in the way of a statement.
\<close>

theorem DiffSchemas_migrates:
  assumes "wf_schema current" and "wf_schema snapshot" and "ts_Columns current \<noteq> []"
    and "migratable snapshot renames (DiffSchemas current (Some snapshot) renames declared)"
    and "\<forall>c \<in> set (td_Removed (DiffSchemas current (Some snapshot) renames declared)). uncovered snapshot (cs_Name c)"
    and "engine_laws exec shape free" and "\<forall>x \<in> set (step_ddls (DiffSchemas current (Some snapshot) renames declared)). free x"
    and "shape db = table_of snapshot"
  shows "map ms_SQL (table_build (table_actions m d (EmitTableStep m d (DiffSchemas current (Some snapshot) renames declared)))) =
      map (render_ddl d (RelationName m)) (step_ddls (DiffSchemas current (Some snapshot) renames declared)) \<and>
    (\<exists>db'. exec_all exec (step_ddls (DiffSchemas current (Some snapshot) renames declared)) db = Some db' \<and>
       tab_columns (shape db') = tab_columns (table_of current) \<and>
       IndexSignature ` set (tab_indexes (shape db')) = IndexSignature ` set (ts_Indexes current))"
proof
  define diff where "diff = DiffSchemas current (Some snapshot) renames declared"
  note hyps = assms(4,5,7) [folded diff_def]
  obtain t where t: "run_ddls (step_ddls diff) (shape db) = Some t" "tab_columns t = tab_columns (table_of current)"
      "IndexSignature ` set (tab_indexes t) = IndexSignature ` set (ts_Indexes current)"
    using run_step_ddls [OF assms(1,2) diff_def hyps(1)] hyps(2) assms(8) by (auto split: option.splits)
  define grow settle where "grow = map rename_ddl (td_Renamed diff) @ map (\<lambda>c. DdlAdd (cs_Name c) (cs_StorageType c) True) (td_Added diff)"
    and "settle = map DdlDropIndex (td_RemovedIndexNames diff) @ map DdlCreateIndex (td_AddedIndexes diff)"
  have steps: "step_ddls diff = grow @ map DdlDrop (map cs_Name (td_Removed diff)) @ settle"
    by (simp add: ddls_of_step grow_def settle_def comp_def)
  obtain k where "k \<in> set (keys_of (ts_Columns current))"
    using assms(3) by (cases "ts_Columns current") (auto simp: keys_of_def)
  then have "tab_columns t k \<noteq> None"
    unfolding t(2) by (simp add: table_of_def by_key_None)
  moreover have "\<forall>x \<in> set grow. harmless x" "\<forall>x \<in> set settle. on_indexes x"
    by (auto simp: grow_def settle_def rename_ddl_def)
  ultimately obtain db' where "exec_all exec (step_ddls diff) db = Some db'" "shape db' = t"
    using engine_runs [OF assms(6) hyps(3) [unfolded steps] t(1) [unfolded steps]] unfolding steps by blast
  then show "\<exists>db'. exec_all exec (step_ddls (DiffSchemas current (Some snapshot) renames declared)) db = Some db' \<and>
       tab_columns (shape db') = tab_columns (table_of current) \<and>
       IndexSignature ` set (tab_indexes (shape db')) = IndexSignature ` set (ts_Indexes current)"
    using t(2,3) unfolding diff_def by auto
qed (simp add: emitted_statements DiffSchemas_def Let_def)

text \<open>A small table: a column is renamed, one added, one dropped, and an index replaced.\<close>

definition sample_column :: "string \<Rightarrow> string \<Rightarrow> TableColumn" where
  "sample_column name ty = \<lparr>tc_Name = name, tc_StorageType = ty, tc_Nullable = True, tc_Key = False, tc_Generated = False\<rparr>"

definition sample_index :: "string \<Rightarrow> string \<Rightarrow> TableIndex" where
  "sample_index name column = \<lparr>ti_Name = name, ti_Columns = [\<lparr>ip_ColumnName = column, ip_Descending = False\<rparr>], ti_Unique = False\<rparr>"

definition sample_schema :: "string list \<Rightarrow> TableIndex list \<Rightarrow> TableSchema" where
  "sample_schema names indexes = \<lparr>ts_Name = ''orders'', ts_Dialect = [], ts_Columns = map (\<lambda>n. sample_column n ''TEXT'') names, ts_Indexes = indexes\<rparr>"

lemmas sample_schema_defs = sample_schema_def sample_column_def sample_index_def

theorem DiffSchemas_migrates_witness:
  "(\<exists>t. exec_all run_ddl [DdlRename ''name'' ''title'', DdlAdd ''added'' ''TEXT'' True, DdlDrop ''old'', DdlDropIndex ''ix'',
        DdlCreateIndex (sample_index ''ix2'' ''added'')] (table_of (sample_schema [''id'', ''name'', ''old''] [sample_index ''ix'' ''id''])) = Some t \<and>
      tab_columns t = tab_columns (table_of (sample_schema [''id'', ''title'', ''added''] [sample_index ''ix2'' ''added''])) \<and>
      IndexSignature ` set (tab_indexes t) = {''plain|added''}) \<and>
   (\<forall>d. map ms_SQL (table_build (table_actions sample_map d (EmitTableStep sample_map d
      (DiffSchemas (sample_schema [''id'', ''title'', ''added''] [sample_index ''ix2'' ''added''])
        (Some (sample_schema [''id'', ''name'', ''old''] [sample_index ''ix'' ''id''])) [(''name'', ''title'')] [])))) =
     [RenameColumnSQL d ''orders'' ''name'' ''title'', AddColumnSQL d ''orders'' ''added'' ''TEXT'' True [],
      DropColumnSQL d ''orders'' ''old'', DropIndexSQL d ''orders'' ''ix'', CreateIndexFromSchemaSQL d ''orders'' (sample_index ''ix2'' ''added'')])"
proof -
  let ?cur = "sample_schema [''id'', ''title'', ''added''] [sample_index ''ix2'' ''added'']"
  let ?snap = "sample_schema [''id'', ''name'', ''old''] [sample_index ''ix'' ''id'']"
  let ?diff = "DiffSchemas ?cur (Some ?snap) [(''name'', ''title'')] []"
  have wf: "wf_schema ?cur" "wf_schema ?snap" "ts_Columns ?cur \<noteq> []" "migratable ?snap [(''name'', ''title'')] ?diff"
      "\<forall>c \<in> set (td_Removed ?diff). uncovered ?snap (cs_Name c)"
    by code_simp+
  have steps: "step_ddls ?diff = [DdlRename ''name'' ''title'', DdlAdd ''added'' ''TEXT'' True, DdlDrop ''old'', DdlDropIndex ''ix'', DdlCreateIndex (sample_index ''ix2'' ''added'')]"
    by code_simp
  have sigs: "IndexSignature ` set (ts_Indexes ?cur) = {''plain|added''}"
    by code_simp
  have rel: "RelationName sample_map = ''orders''"
    by (simp add: sample_map_def)
  note main = DiffSchemas_migrates [OF wf run_ddl_engine, where db = "table_of ?snap" and m = sample_map, unfolded steps rel sigs]
  show ?thesis
    using main by simp
qed

text \<open>
  Two diffs the generator reports as supported although their step is not a migration: a rename to a column
  the snapshot already has fails when it runs, and a rename under an index, when the model declares that
  index on a new column of the old name, leaves the index on the renamed column.
\<close>

lemma rename_onto_existing:
  "td_Unsupported (DiffSchemas (sample_schema [''b''] []) (Some (sample_schema [''a'', ''b''] [])) [(''a'', ''b'')] []) = [] \<and>
   run_ddls (step_ddls (DiffSchemas (sample_schema [''b''] []) (Some (sample_schema [''a'', ''b''] [])) [(''a'', ''b'')] []))
     (table_of (sample_schema [''a'', ''b''] [])) = None"
  by code_simp

lemma rename_under_index:
  "td_Unsupported (DiffSchemas (sample_schema [''a'', ''b''] [sample_index ''ix'' ''a'']) (Some (sample_schema [''a''] [sample_index ''ix'' ''a''])) [(''a'', ''b'')] []) = [] \<and>
   map_option (\<lambda>t. map IndexSignature (tab_indexes t))
     (run_ddls (step_ddls (DiffSchemas (sample_schema [''a'', ''b''] [sample_index ''ix'' ''a'']) (Some (sample_schema [''a''] [sample_index ''ix'' ''a''])) [(''a'', ''b'')] []))
       (table_of (sample_schema [''a''] [sample_index ''ix'' ''a'']))) = Some [''plain|b'']"
  by code_simp

end
