(* ===== verification/Down_Deriver.thy ===== *)
theory Down_Deriver
  imports Schema_Diff
begin

text \<open>
  The rollback derived from the snapshots (\<open>down_deriver.go\<close>): a view's and a trigger's guarded restore, and a
  table's inverse renames, dropped indexes, restored and dropped columns and recreated indexes. The theorem
  says that the statements derived for a table bring the shape at a version back to the shape before it, on
  every database with the laws \<open>engine_laws\<close>.
\<close>

section \<open>Deriving\<close>

text \<open>A notice: the NOT NULL constraint of a restored column is not derivable.\<close>

datatype notice = RestoredNullable int string string

definition deriveViewDown :: "string \<Rightarrow> string \<Rightarrow> string option \<Rightarrow> Dialect \<Rightarrow> MigrationStatement list" where
  "deriveViewDown objectName ddlAt ddlBefore d =
     (let materialized = (case ViewParts ddlAt of None \<Rightarrow> False | Some (_, _, m) \<Rightarrow> m)
      in [view_guard (NormalizeDDL ddlAt) (''derived expect '' @ objectName) objectName,
          plain_statement (DropViewSQL d objectName materialized) (''derived drop '' @ objectName)] @
         (case ddlBefore of
            None \<Rightarrow> []
          | Some restore \<Rightarrow>
              [plain_statement (case ViewParts restore of
                   None \<Rightarrow> restore
                 | Some (_, body, previousMaterialized) \<Rightarrow> CreateViewFromBodySQL d objectName body previousMaterialized)
                 (''derived restore '' @ objectName)]))"

definition deriveTriggerDown :: "string \<Rightarrow> TriggerDeclaration \<Rightarrow> TriggerDeclaration option \<Rightarrow> Dialect \<Rightarrow> MigrationStatement list res" where
  "deriveTriggerDown objectName at' before d =
     bindR (triggerGuard d (tg_Relation at') (OnView at') (Definition (withName at' objectName)) (''derived expect '' @ objectName)) (\<lambda>guard.
       let statements = guard # map (\<lambda>sql. plain_statement sql (''derived drop '' @ objectName)) (DropTriggerSQL d (tg_Relation at') objectName)
       in case before of
            None \<Rightarrow> Inr statements
          | Some b \<Rightarrow>
              bindR (CreateTriggerSQL d (tg_Relation b) (OnView b) (Definition (withName b objectName))) (\<lambda>creates.
                Inr (statements @ map (\<lambda>sql. plain_statement sql (''derived restore '' @ objectName)) creates)))"

text \<open>A snapshot column with the name a message uses for it.\<close>

record namedColumn =
  nc_displayName :: string
  nc_column :: TableColumn

text \<open>Filled from the last rename to the first: the first rename of a name stays.\<close>

definition nameAtToBefore :: "ColumnRename list \<Rightarrow> string \<Rightarrow> string option" where
  "nameAtToBefore upRenames = map_of (map (\<lambda>r. (to_lower (cr_To r), cr_From r)) upRenames)"

definition before_key :: "ColumnRename list \<Rightarrow> TableColumn \<Rightarrow> string" where
  "before_key upRenames c =
     (case nameAtToBefore upRenames (to_lower (tc_Name c)) of Some renamed \<Rightarrow> to_lower renamed | None \<Rightarrow> to_lower (tc_Name c))"

definition display_name :: "ColumnRename list \<Rightarrow> TableColumn \<Rightarrow> string" where
  "display_name upRenames c = (case nameAtToBefore upRenames (to_lower (tc_Name c)) of Some renamed \<Rightarrow> renamed | None \<Rightarrow> tc_Name c)"

definition current_columns :: "ColumnRename list \<Rightarrow> TableColumn list \<Rightarrow> string \<Rightarrow> namedColumn option" where
  "current_columns upRenames cols =
     fold (\<lambda>c m. m(before_key upRenames c \<mapsto> \<lparr>nc_displayName = display_name upRenames c, nc_column = c\<rparr>)) cols Map.empty"

definition previous_columns :: "TableColumn list \<Rightarrow> string \<Rightarrow> namedColumn option" where
  "previous_columns cols = fold (\<lambda>c m. m(to_lower (tc_Name c) \<mapsto> \<lparr>nc_displayName = tc_Name c, nc_column = c\<rparr>)) cols Map.empty"

text \<open>The first column whose type or nullability changed at this version.\<close>

definition changed_column :: "ColumnRename list \<Rightarrow> TableSchema \<Rightarrow> TableSchema \<Rightarrow> TableColumn option" where
  "changed_column upRenames at' before =
     find (\<lambda>c. case (current_columns upRenames (ts_Columns at') (before_key upRenames c), previous_columns (ts_Columns before) (before_key upRenames c)) of
                 (Some now, Some then') \<Rightarrow>
                   \<not> EqualFold (tc_StorageType (nc_column now)) (tc_StorageType (nc_column then')) \<or>
                   tc_Nullable (nc_column now) \<noteq> tc_Nullable (nc_column then')
               | _ \<Rightarrow> False) (ts_Columns at')"

text \<open>\<open>strings.HasSuffix\<close>, \<open>strings.TrimSuffix\<close>, and \<open>strings.SplitN(s, "|", 2)\<close> when the separator occurs.\<close>

definition HasSuffix :: "string \<Rightarrow> string \<Rightarrow> bool" where
  "HasSuffix s suffix \<longleftrightarrow> length suffix \<le> length s \<and> drop (length s - length suffix) s = suffix"

definition TrimSuffix :: "string \<Rightarrow> string \<Rightarrow> string" where
  "TrimSuffix s suffix = (if HasSuffix s suffix then take (length s - length suffix) s else s)"

definition rename_part_text :: "(string \<Rightarrow> string option) \<Rightarrow> string \<Rightarrow> string" where
  "rename_part_text names part =
     (let descending = HasSuffix part '' desc'';
          column = (if descending then TrimSuffix part '' desc'' else part);
          column' = (case names column of Some renamed \<Rightarrow> to_lower renamed | None \<Rightarrow> column)
      in if descending then column' @ '' desc'' else column')"

text \<open>A signature of the later snapshot under the names the earlier one used.\<close>

definition applyRenames :: "ColumnRename list \<Rightarrow> string \<Rightarrow> string" where
  "applyRenames upRenames signature =
     (if upRenames = [] then signature
      else case dropWhile (\<lambda>c. c \<noteq> CHR ''|'') signature of
             [] \<Rightarrow> signature
           | bar # cols \<Rightarrow>
               takeWhile (\<lambda>c. c \<noteq> CHR ''|'') signature @ ''|'' @
               join '','' (map (rename_part_text (nameAtToBefore upRenames)) (Split (CHR '','') cols)))"

definition unmatched_at :: "ColumnRename list \<Rightarrow> TableSchema \<Rightarrow> TableSchema \<Rightarrow> TableIndex list" where
  "unmatched_at upRenames at' before =
     filter (\<lambda>i. \<not> list_ex (\<lambda>b. IndexSignature b = applyRenames upRenames (IndexSignature i)) (ts_Indexes before)) (ts_Indexes at')"

definition unmatched_before :: "ColumnRename list \<Rightarrow> TableSchema \<Rightarrow> TableSchema \<Rightarrow> TableIndex list" where
  "unmatched_before upRenames at' before =
     filter (\<lambda>i. \<not> list_ex (\<lambda>a. applyRenames upRenames (IndexSignature a) = IndexSignature i) (ts_Indexes at')) (ts_Indexes before)"

definition restored_columns :: "ColumnRename list \<Rightarrow> TableSchema \<Rightarrow> TableSchema \<Rightarrow> TableColumn list" where
  "restored_columns upRenames at' before =
     filter (\<lambda>c. current_columns upRenames (ts_Columns at') (to_lower (tc_Name c)) = None) (ts_Columns before)"

definition added_columns :: "ColumnRename list \<Rightarrow> TableSchema \<Rightarrow> TableSchema \<Rightarrow> TableColumn list" where
  "added_columns upRenames at' before =
     filter (\<lambda>c. previous_columns (ts_Columns before) (before_key upRenames c) = None) (ts_Columns at')"

definition deriveTableDown ::
  "string \<Rightarrow> int \<Rightarrow> TableSchema \<Rightarrow> TableSchema option \<Rightarrow> ColumnRename list \<Rightarrow> Dialect \<Rightarrow> (MigrationStatement list \<times> notice list) res" where
  "deriveTableDown objectName version at' before_opt upRenames d =
     (case before_opt of
        None \<Rightarrow> Inr ([plain_statement (DropTableSQL d objectName) (''derived drop '' @ objectName)], [])
      | Some before \<Rightarrow>
          (case changed_column upRenames at' before of
             Some c \<Rightarrow> Inl (OrmError ''MIG-020'' (version_label version @ '' '' @ objectName))
           | None \<Rightarrow>
               Inr (map (\<lambda>r. plain_statement (RenameColumnSQL d objectName (cr_To r) (cr_From r)) (''derived rename '' @ objectName)) (rev upRenames) @
                    map (\<lambda>i. plain_statement (DropIndexSQL d objectName (ti_Name i)) ''derived drop index'') (unmatched_at upRenames at' before) @
                    map (\<lambda>c. plain_statement (AddColumnSQL d objectName (tc_Name c) (tc_StorageType c) True []) (''derived add '' @ objectName))
                      (restored_columns upRenames at' before) @
                    map (\<lambda>c. plain_statement (DropColumnSQL d objectName
                          (case current_columns upRenames (ts_Columns at') (before_key upRenames c) of Some n \<Rightarrow> tc_Name (nc_column n) | None \<Rightarrow> []))
                        (''derived remove '' @ objectName)) (added_columns upRenames at' before) @
                    map (\<lambda>i. plain_statement (CreateIndexFromSchemaSQL d objectName i) ''derived add index'') (unmatched_before upRenames at' before),
                    map (\<lambda>c. RestoredNullable version objectName (tc_Name c)) (filter (\<lambda>c. \<not> tc_Nullable c) (restored_columns upRenames at' before)))))"

text \<open>
  \<open>DeriveDown\<close>: nothing when there is no snapshot at the version; the snapshots consulted must be of this
  dialect; then by the kind of the snapshot at the version. The fields of a snapshot of another kind read
  as absent: no table, no trigger, an empty definition.
\<close>

definition se_Table :: "SnapshotEntry \<Rightarrow> TableSchema option" where
  "se_Table e = (case se_Body e of SnapTable t \<Rightarrow> Some t | _ \<Rightarrow> None)"

definition se_DDL :: "SnapshotEntry \<Rightarrow> string" where
  "se_DDL e = (case se_Body e of SnapDDL s \<Rightarrow> s | _ \<Rightarrow> [])"

definition se_Trigger :: "SnapshotEntry \<Rightarrow> TriggerDeclaration option" where
  "se_Trigger e = (case se_Body e of SnapTrigger t \<Rightarrow> Some t | _ \<Rightarrow> None)"

definition DeriveDown ::
  "string \<Rightarrow> int \<Rightarrow> SnapshotSet \<Rightarrow> ColumnRename list \<Rightarrow> Dialect \<Rightarrow> (MigrationStatement list \<times> notice list) option res" where
  "DeriveDown objectName version snapshots upRenames d =
     (case SnapshotSet_At snapshots objectName version of
        None \<Rightarrow> Inr None
      | Some at' \<Rightarrow>
          (let before = LatestBefore snapshots objectName version
           in bindR (CheckSnapshotDialect (se_Dialect at') d (version_label version @ '' '' @ objectName)) (\<lambda>_.
              bindR (case before of
                       None \<Rightarrow> Inr ()
                     | Some b \<Rightarrow> CheckSnapshotDialect (se_Dialect b) d (objectName @ '' (snapshot before '' @ version_label version @ '')'')) (\<lambda>_.
                case se_Trigger at' of
                  Some trigger \<Rightarrow>
                    bindR (deriveTriggerDown objectName trigger (case before of None \<Rightarrow> None | Some b \<Rightarrow> se_Trigger b) d) (\<lambda>ss. Inr (Some (ss, [])))
                | None \<Rightarrow>
                    (case se_Table at' of
                       None \<Rightarrow> Inr (Some (deriveViewDown objectName (se_DDL at') (map_option se_DDL before) d, []))
                     | Some table \<Rightarrow>
                         bindR (deriveTableDown objectName version table (case before of None \<Rightarrow> None | Some b \<Rightarrow> se_Table b) upRenames d)
                           (\<lambda>r. Inr (Some r)))))))"

section \<open>Signatures under renames\<close>

lemma Split_none: "sep \<notin> set w \<Longrightarrow> Split sep w = [w]"
  by (induction w) auto

lemma Split_sep: "sep \<notin> set w \<Longrightarrow> Split sep (w @ sep # s) = w # Split sep s"
  by (induction w) auto

lemma Split_join: "ws \<noteq> [] \<Longrightarrow> \<forall>w \<in> set ws. sep \<notin> set w \<Longrightarrow> Split sep (join [sep] ws) = ws"
  by (induction ws rule: induct_list012) (auto simp: Split_none Split_sep)

text \<open>A column name whose signature can be read back: no separator in it, no direction suffix at its end.\<close>

definition plain_name :: "string \<Rightarrow> bool" where
  "plain_name n \<longleftrightarrow> CHR '','' \<notin> set n \<and> CHR ''|'' \<notin> set n \<and> \<not> HasSuffix (to_lower n) '' desc''"

definition plain_index :: "TableIndex \<Rightarrow> bool" where
  "plain_index i \<longleftrightarrow> ti_Columns i \<noteq> [] \<and> (\<forall>p \<in> set (ti_Columns i). plain_name (ip_ColumnName p))"

definition part_text :: "IndexPart \<Rightarrow> string" where
  "part_text p = to_lower (ip_ColumnName p) @ (if ip_Descending p then '' desc'' else [])"

lemma lower_char_sep: "lower_char c = CHR '','' \<longleftrightarrow> c = CHR '',''" "lower_char c = CHR ''|'' \<longleftrightarrow> c = CHR ''|''"
proof -
  have letters: "97 \<le> (of_char (lower_char c) :: nat)" "(of_char (lower_char c) :: nat) \<le> 122" if "lower_char c \<noteq> c"
    using that by (auto simp: lower_char_def Let_def of_char_of split: if_splits)
  have fixed: "lower_char (CHR '','') = CHR '',''" "lower_char (CHR ''|'') = CHR ''|''"
    by code_simp+
  show "lower_char c = CHR '','' \<longleftrightarrow> c = CHR '',''"
    using letters(1) fixed(1) by (cases "lower_char c = c") auto
  show "lower_char c = CHR ''|'' \<longleftrightarrow> c = CHR ''|''"
    using letters(2) fixed(2) by (cases "lower_char c = c") auto
qed

lemma to_lower_sep: "CHR '','' \<in> set (to_lower n) \<longleftrightarrow> CHR '','' \<in> set n" "CHR ''|'' \<in> set (to_lower n) \<longleftrightarrow> CHR ''|'' \<in> set n"
proof -
  have "x \<in> set (to_lower n) \<longleftrightarrow> (\<exists>c \<in> set n. lower_char c = x)" for x
    by (auto simp: to_lower_def)
  then show "CHR '','' \<in> set (to_lower n) \<longleftrightarrow> CHR '','' \<in> set n" "CHR ''|'' \<in> set (to_lower n) \<longleftrightarrow> CHR ''|'' \<in> set n"
    by (simp_all add: lower_char_sep)
qed

lemma part_text_sep: "plain_name (ip_ColumnName p) \<Longrightarrow> CHR '','' \<notin> set (part_text p) \<and> CHR ''|'' \<notin> set (part_text p)"
  by (auto simp: part_text_def plain_name_def to_lower_sep)

lemma IndexSignature_text:
  "IndexSignature i = (if ti_Unique i then ''unique'' else ''plain'') @ ''|'' @ join '','' (map part_text (ti_Columns i))"
  by (simp add: IndexSignature_def indexSignature_def part_text_def [abs_def] comp_def)

lemma signature_parts:
  "dropWhile (\<lambda>c. c \<noteq> CHR ''|'') (IndexSignature i) = CHR ''|'' # join '','' (map part_text (ti_Columns i))"
  "takeWhile (\<lambda>c. c \<noteq> CHR ''|'') (IndexSignature i) = (if ti_Unique i then ''unique'' else ''plain'')"
  by (auto simp: IndexSignature_text)

lemma signature_split: "plain_index i \<Longrightarrow> Split (CHR '','') (join '','' (map part_text (ti_Columns i))) = map part_text (ti_Columns i)"
  by (rule Split_join) (auto simp: plain_index_def dest: part_text_sep)

lemma HasSuffix_append: "HasSuffix (s @ t) t" "TrimSuffix (s @ t) t = s"
  by (simp_all add: HasSuffix_def TrimSuffix_def)

lemma part_text_trim: "plain_name (ip_ColumnName p) \<Longrightarrow> TrimSuffix (part_text p) '' desc'' = to_lower (ip_ColumnName p)"
  by (auto simp: part_text_def plain_name_def HasSuffix_append) (simp add: TrimSuffix_def)

text \<open>Equal signatures name the same columns.\<close>

lemma IndexSignature_part_keys:
  assumes "plain_index i" and "plain_index j" and "IndexSignature i = IndexSignature j"
  shows "part_keys i = part_keys j"
proof -
  have "map part_text (ti_Columns i) = map part_text (ti_Columns j)"
    using arg_cong [OF assms(3), of "dropWhile (\<lambda>c. c \<noteq> CHR ''|'')"] signature_split assms(1,2)
    unfolding signature_parts by (metis list.inject)
  then have "map (\<lambda>t. TrimSuffix t '' desc'') (map part_text (ti_Columns i)) = map (\<lambda>t. TrimSuffix t '' desc'') (map part_text (ti_Columns j))"
    by simp
  then show ?thesis
    using assms(1,2) by (simp add: plain_index_def part_keys_def part_text_trim comp_def cong: map_cong)
qed

definition renamed_name :: "ColumnRename list \<Rightarrow> string \<Rightarrow> string" where
  "renamed_name rs name = (case nameAtToBefore rs (to_lower name) of Some f \<Rightarrow> f | None \<Rightarrow> name)"

definition rename_all :: "ColumnRename list \<Rightarrow> TableIndex \<Rightarrow> TableIndex" where
  "rename_all rs i = i\<lparr>ti_Columns := map (\<lambda>p. p\<lparr>ip_ColumnName := renamed_name rs (ip_ColumnName p)\<rparr>) (ti_Columns i)\<rparr>"

lemma rename_all_simps [simp]: "ti_Unique (rename_all rs i) = ti_Unique i" "ti_Name (rename_all rs i) = ti_Name i"
  by (simp_all add: rename_all_def)

lemma rename_part_text_plain:
  assumes "plain_name (ip_ColumnName p)"
  shows "rename_part_text (nameAtToBefore rs) (part_text p) = part_text (p\<lparr>ip_ColumnName := renamed_name rs (ip_ColumnName p)\<rparr>)"
proof (cases "ip_Descending p")
  case True
  then show ?thesis
    by (simp add: rename_part_text_def part_text_def HasSuffix_append renamed_name_def split: option.split)
next
  case False
  then show ?thesis
    using assms by (simp add: rename_part_text_def part_text_def plain_name_def renamed_name_def split: option.split)
qed

lemma applyRenames_signature:
  assumes "plain_index i"
  shows "applyRenames rs (IndexSignature i) = IndexSignature (rename_all rs i)"
proof (cases "rs = []")
  case True
  then show ?thesis
    by (simp add: applyRenames_def rename_all_def renamed_name_def nameAtToBefore_def)
next
  case False
  have "map (rename_part_text (nameAtToBefore rs)) (map part_text (ti_Columns i)) = map part_text (ti_Columns (rename_all rs i))"
    using assms by (simp add: plain_index_def rename_all_def rename_part_text_plain)
  then have "join '','' (map (rename_part_text (nameAtToBefore rs)) (Split (CHR '','') (join '','' (map part_text (ti_Columns i))))) =
      join '','' (map part_text (ti_Columns (rename_all rs i)))"
    using signature_split [OF assms] by simp
  then show ?thesis
    using False unfolding applyRenames_def signature_parts list.case
    by (simp add: IndexSignature_text [of "rename_all rs i"])
qed

section \<open>Inverting the renames\<close>

text \<open>
  The declared renames took columns of the earlier shape to new names: no two from or to one column, no
  name of either side in use on the other.
\<close>

definition invertible :: "TableSchema \<Rightarrow> TableSchema \<Rightarrow> ColumnRename list \<Rightarrow> bool" where
  "invertible at' before rs \<longleftrightarrow>
     distinct (map (\<lambda>r. to_lower (cr_From r)) rs) \<and> distinct (map (\<lambda>r. to_lower (cr_To r)) rs) \<and>
     (\<forall>r \<in> set rs. to_lower (cr_To r) \<in> set (keys_of (ts_Columns at')) \<and> to_lower (cr_From r) \<notin> set (keys_of (ts_Columns at')) \<and>
        to_lower (cr_From r) \<in> set (keys_of (ts_Columns before)) \<and> to_lower (cr_To r) \<notin> set (keys_of (ts_Columns before)))"

definition apart :: "ColumnRename list \<Rightarrow> bool" where
  "apart rs \<longleftrightarrow> distinct (map (\<lambda>r. to_lower (cr_From r)) rs) \<and> distinct (map (\<lambda>r. to_lower (cr_To r)) rs) \<and>
     (\<forall>r \<in> set rs. \<forall>q \<in> set rs. to_lower (cr_From r) \<noteq> to_lower (cr_To q))"

lemma invertible_apart: "invertible at' before rs \<Longrightarrow> apart rs"
  unfolding invertible_def apart_def by (metis (no_types, lifting))

lemma nameAtToBefore_Cons: "nameAtToBefore (r # rs) = (nameAtToBefore rs)(to_lower (cr_To r) \<mapsto> cr_From r)"
  by (simp add: nameAtToBefore_def)

lemma nameAtToBefore_Some: "nameAtToBefore rs k = Some f \<Longrightarrow> \<exists>r \<in> set rs. k = to_lower (cr_To r) \<and> f = cr_From r"
  by (auto simp: nameAtToBefore_def dest!: map_of_SomeD)

lemma nameAtToBefore_None: "nameAtToBefore rs k = None \<longleftrightarrow> k \<notin> (\<lambda>r. to_lower (cr_To r)) ` set rs"
  by (simp add: nameAtToBefore_def map_of_eq_None_iff image_image)

lemma nameAtToBefore_mem: "apart rs \<Longrightarrow> r \<in> set rs \<Longrightarrow> nameAtToBefore rs (to_lower (cr_To r)) = Some (cr_From r)"
  unfolding nameAtToBefore_def by (subst map_of_eq_Some_iff) (auto simp: apart_def comp_def)

definition undo_rename :: "ColumnRename \<Rightarrow> ddl" where
  "undo_rename r = DdlRename (cr_To r) (cr_From r)"

definition undo_columns :: "ColumnRename list \<Rightarrow> (string \<Rightarrow> 'a option) \<Rightarrow> string \<Rightarrow> 'a option" where
  "undo_columns rs m k =
     (case map_of (map (\<lambda>r. (to_lower (cr_From r), to_lower (cr_To r))) rs) k of
        Some t \<Rightarrow> m t
      | None \<Rightarrow> if k \<in> (\<lambda>r. to_lower (cr_To r)) ` set rs then None else m k)"

lemma rename_all_Cons:
  assumes "apart (r # rs)"
  shows "rename_all (r # rs) i = rename_part (cr_To r) (cr_From r) (rename_all rs i)"
proof -
  have "renamed_name (r # rs) n = (if EqualFold (renamed_name rs n) (cr_To r) then cr_From r else renamed_name rs n)" for n
  proof (cases "to_lower n = to_lower (cr_To r)")
    case True
    then have "nameAtToBefore rs (to_lower n) = None"
      using assms by (auto simp: nameAtToBefore_None apart_def)
    then show ?thesis
      using True by (simp add: renamed_name_def nameAtToBefore_Cons EqualFold_def)
  next
    case False
    show ?thesis
    proof (cases "nameAtToBefore rs (to_lower n)")
      case None
      then show ?thesis
        using False by (simp add: renamed_name_def nameAtToBefore_Cons EqualFold_def)
    next
      case (Some f)
      then obtain q where "q \<in> set rs" "f = cr_From q"
        using nameAtToBefore_Some by blast
      then have "to_lower f \<noteq> to_lower (cr_To r)"
        using assms by (auto simp: apart_def)
      then show ?thesis
        using False Some by (simp add: renamed_name_def nameAtToBefore_Cons EqualFold_def)
    qed
  qed
  then show ?thesis
    by (auto simp: rename_all_def rename_part_def)
qed

lemma run_undo_renames:
  assumes "apart rs" and "\<forall>r \<in> set rs. m (to_lower (cr_To r)) \<noteq> None \<and> m (to_lower (cr_From r)) = None"
  shows "run_ddls (map undo_rename (rev rs)) \<lparr>tab_columns = m, tab_indexes = indexes\<rparr> =
    Some \<lparr>tab_columns = undo_columns rs m, tab_indexes = map (rename_all rs) indexes\<rparr>"
  using assms
proof (induction rs)
  case Nil
  then show ?case
    by (simp add: undo_columns_def rename_all_def renamed_name_def nameAtToBefore_def fun_eq_iff)
next
  case (Cons r rs)
  have apart: "apart rs"
    using Cons.prems(1) by (simp add: apart_def)
  let ?froms = "map_of (map (\<lambda>r. (to_lower (cr_From r), to_lower (cr_To r))) rs)"
  have new: "?froms (to_lower (cr_From r)) = None" "?froms (to_lower (cr_To r)) = None"
    "to_lower (cr_To r) \<notin> (\<lambda>r. to_lower (cr_To r)) ` set rs" "to_lower (cr_From r) \<notin> (\<lambda>r. to_lower (cr_To r)) ` set rs"
    using Cons.prems(1) by (auto simp: map_of_eq_None_iff apart_def)
  then have here: "undo_columns rs m (to_lower (cr_To r)) = m (to_lower (cr_To r))" "undo_columns rs m (to_lower (cr_From r)) = None"
    using Cons.prems(2) by (simp_all add: undo_columns_def)
  obtain c where c: "m (to_lower (cr_To r)) = Some c"
    using Cons.prems(2) by auto
  have step: "((undo_columns rs m)(to_lower (cr_To r) := None))(to_lower (cr_From r) \<mapsto> c) = undo_columns (r # rs) m"
  proof
    fix k
    show "(((undo_columns rs m)(to_lower (cr_To r) := None))(to_lower (cr_From r) \<mapsto> c)) k = undo_columns (r # rs) m k"
      using c new by (cases "?froms k") (auto simp: undo_columns_def)
  qed
  have "run_ddl (undo_rename r) \<lparr>tab_columns = undo_columns rs m, tab_indexes = map (rename_all rs) indexes\<rparr> =
      Some \<lparr>tab_columns = undo_columns (r # rs) m, tab_indexes = map (rename_all (r # rs)) indexes\<rparr>"
    using here c step rename_all_Cons [OF Cons.prems(1)] by (simp add: undo_rename_def)
  then show ?case
    using Cons.IH [OF apart] Cons.prems(2) by (simp add: run_ddls_append)
qed

section \<open>The derived rollback restores the shape\<close>

lemma fold_upd_dom: "dom (fold (\<lambda>c m. m(k c \<mapsto> v c)) cs m0) = dom m0 \<union> k ` set cs"
  by (induction cs arbitrary: m0) auto

lemma fold_upd_other: "x \<notin> k ` set cs \<Longrightarrow> fold (\<lambda>c m. m(k c \<mapsto> v c)) cs m0 x = m0 x"
  by (induction cs arbitrary: m0) auto

lemma fold_upd_mem: "distinct (map k cs) \<Longrightarrow> c \<in> set cs \<Longrightarrow> fold (\<lambda>c m. m(k c \<mapsto> v c)) cs m0 (k c) = Some (v c)"
proof (induction cs arbitrary: m0)
  case (Cons x cs)
  show ?case
  proof (cases "c \<in> set cs")
    case False
    then have "c = x"
      using Cons.prems(2) by simp
    then show ?thesis
      using Cons.prems(1) by (simp add: fold_upd_other fun_upd_same del: fun_upd_apply)
  qed (use Cons in simp)
qed simp

lemma current_columns_None: "current_columns rs cols k = None \<longleftrightarrow> k \<notin> before_key rs ` set cols"
  using fold_upd_dom [of "before_key rs" _ cols Map.empty] unfolding current_columns_def by (force simp: domIff)

lemma previous_columns_None: "previous_columns cols k = None \<longleftrightarrow> k \<notin> set (keys_of cols)"
  using fold_upd_dom [of "\<lambda>c. to_lower (tc_Name c)" _ cols Map.empty] unfolding previous_columns_def keys_of_def by (force simp: domIff)

lemma before_key_renamed: "before_key rs c = to_lower (renamed_name rs (tc_Name c))"
  by (simp add: before_key_def renamed_name_def split: option.split)

lemma renamed_cases:
  assumes "invertible at' before rs" and "c \<in> set (ts_Columns at')"
  obtains (renamed) r where "r \<in> set rs" and "to_lower (tc_Name c) = to_lower (cr_To r)" and "before_key rs c = to_lower (cr_From r)"
    | (kept) "before_key rs c = to_lower (tc_Name c)" and "to_lower (tc_Name c) \<notin> (\<lambda>r. to_lower (cr_To r)) ` set rs"
        and "to_lower (tc_Name c) \<notin> (\<lambda>r. to_lower (cr_From r)) ` set rs"
proof (cases "nameAtToBefore rs (to_lower (tc_Name c))")
  case None
  have "to_lower (tc_Name c) \<in> set (keys_of (ts_Columns at'))"
    using assms(2) by (simp add: keys_of_def)
  then have "to_lower (tc_Name c) \<notin> (\<lambda>r. to_lower (cr_From r)) ` set rs"
    using assms(1) by (auto simp: invertible_def)
  moreover have "before_key rs c = to_lower (tc_Name c)"
    using None by (simp add: before_key_def)
  moreover have "to_lower (tc_Name c) \<notin> (\<lambda>r. to_lower (cr_To r)) ` set rs"
    using None by (simp add: nameAtToBefore_None)
  ultimately show ?thesis
    using kept by blast
next
  case (Some f)
  then show ?thesis
    using nameAtToBefore_Some [OF Some] renamed by (auto simp: before_key_def)
qed

lemma distinct_before_keys:
  assumes "wf_schema at'" and "invertible at' before rs"
  shows "distinct (map (before_key rs) (ts_Columns at'))"
  unfolding distinct_map
proof
  have d: "distinct (keys_of (ts_Columns at'))"
    using assms(1) by (simp add: wf_schema_def)
  then show "distinct (ts_Columns at')"
    by (simp add: keys_of_def distinct_map)
  show "inj_on (before_key rs) (set (ts_Columns at'))"
  proof (rule inj_onI)
    fix c e
    assume c: "c \<in> set (ts_Columns at')" and e: "e \<in> set (ts_Columns at')" and eq: "before_key rs c = before_key rs e"
    have "to_lower (tc_Name c) = to_lower (tc_Name e)"
    proof (rule renamed_cases [OF assms(2) c]; rule renamed_cases [OF assms(2) e])
      fix r q
      assume r: "r \<in> set rs" "to_lower (tc_Name c) = to_lower (cr_To r)" "before_key rs c = to_lower (cr_From r)"
        and q: "q \<in> set rs" "to_lower (tc_Name e) = to_lower (cr_To q)" "before_key rs e = to_lower (cr_From q)"
      then have "to_lower (cr_From r) = to_lower (cr_From q)"
        using eq by simp
      then have "r = q"
        using assms(2) r(1) q(1) unfolding invertible_def distinct_map by (meson inj_onD)
      then show ?thesis
        using r(2) q(2) by simp
    qed (metis eq image_eqI)+
    then show "c = e"
      using d c e unfolding keys_of_def distinct_map by (meson inj_onD)
  qed
qed

text \<open>Once the renames are undone, the columns are the later ones under their earlier names.\<close>

lemma undo_columns_current:
  assumes wf: "wf_schema at'" and inv: "invertible at' before rs"
  shows "undo_columns rs (tab_columns (table_of at')) k =
    map_option (\<lambda>n. (to_lower (tc_StorageType (nc_column n)), tc_Nullable (nc_column n))) (current_columns rs (ts_Columns at') k)"
proof -
  let ?cols = "ts_Columns at'"
  have d: "distinct (keys_of ?cols)"
    using wf by (simp add: wf_schema_def)
  have at': "tab_columns (table_of at') (to_lower (tc_Name c)) = Some (to_lower (tc_StorageType c), tc_Nullable c)" if "c \<in> set ?cols" for c
    using by_key_Some [OF d that] by (simp add: table_of_def spec_of_def)
  have none: "tab_columns (table_of at') k = None" if "k \<notin> set (keys_of ?cols)" for k
    using that by (simp add: table_of_def by_key_None)
  have froms: "map_of (map (\<lambda>r. (to_lower (cr_From r), to_lower (cr_To r))) rs) (to_lower (cr_From r)) = Some (to_lower (cr_To r))" if "r \<in> set rs" for r
    using that inv by (subst map_of_eq_Some_iff) (auto simp: invertible_def comp_def)
  show ?thesis
  proof (cases "k \<in> before_key rs ` set ?cols")
    case True
    then obtain c where c: "c \<in> set ?cols" "k = before_key rs c"
      by blast
    have "current_columns rs ?cols k = Some \<lparr>nc_displayName = display_name rs c, nc_column = c\<rparr>"
      using fold_upd_mem [OF distinct_before_keys [OF wf inv] c(1), where v = "\<lambda>c. \<lparr>nc_displayName = display_name rs c, nc_column = c\<rparr>"]
      by (simp add: current_columns_def c(2))
    moreover have "undo_columns rs (tab_columns (table_of at')) k = Some (to_lower (tc_StorageType c), tc_Nullable c)"
    proof (rule renamed_cases [OF inv c(1)])
      fix r
      assume "r \<in> set rs" "to_lower (tc_Name c) = to_lower (cr_To r)" "before_key rs c = to_lower (cr_From r)"
      then show ?thesis
        using froms at' [OF c(1)] c(2) by (simp add: undo_columns_def)
    next
      assume "before_key rs c = to_lower (tc_Name c)" "to_lower (tc_Name c) \<notin> (\<lambda>r. to_lower (cr_To r)) ` set rs"
        "to_lower (tc_Name c) \<notin> (\<lambda>r. to_lower (cr_From r)) ` set rs"
      moreover from this have "map_of (map (\<lambda>r. (to_lower (cr_From r), to_lower (cr_To r))) rs) (to_lower (tc_Name c)) = None"
        by (simp add: map_of_eq_None_iff image_image)
      ultimately show ?thesis
        using at' [OF c(1)] c(2) by (simp add: undo_columns_def)
    qed
    ultimately show ?thesis
      by simp
  next
    case False
    then have "current_columns rs ?cols k = None"
      by (simp add: current_columns_None)
    moreover have "undo_columns rs (tab_columns (table_of at')) k = None"
    proof (cases "map_of (map (\<lambda>r. (to_lower (cr_From r), to_lower (cr_To r))) rs) k")
      case (Some t)
      then obtain r where r: "r \<in> set rs" "k = to_lower (cr_From r)" "t = to_lower (cr_To r)"
        by (auto dest!: map_of_SomeD)
      then obtain c where c: "c \<in> set ?cols" "to_lower (tc_Name c) = to_lower (cr_To r)"
        using inv by (force simp: invertible_def keys_of_def)
      have "before_key rs c = k"
        using nameAtToBefore_mem [OF invertible_apart [OF inv] r(1)] c(2) r(2) by (simp add: before_key_def)
      then show ?thesis
        using False c(1) by blast
    next
      case None
      show ?thesis
      proof (cases "k \<in> set (keys_of ?cols) \<and> k \<notin> (\<lambda>r. to_lower (cr_To r)) ` set rs")
        case True
        then obtain c where c: "c \<in> set ?cols" "to_lower (tc_Name c) = k"
          by (auto simp: keys_of_def)
        then have "before_key rs c = k"
          using True by (simp add: before_key_def nameAtToBefore_None [THEN iffD2])
        then show ?thesis
          using False c(1) by blast
      next
        case no: False
        then show ?thesis
          using None none by (auto simp: undo_columns_def)
      qed
    qed
    ultimately show ?thesis
      by simp
  qed
qed

text \<open>The statements' effects.\<close>

definition down_ddls :: "TableSchema \<Rightarrow> TableSchema \<Rightarrow> ColumnRename list \<Rightarrow> ddl list" where
  "down_ddls at' before rs =
     map undo_rename (rev rs) @
     map (\<lambda>i. DdlDropIndex (ti_Name i)) (unmatched_at rs at' before) @
     map (\<lambda>c. DdlAdd (tc_Name c) (tc_StorageType c) True) (restored_columns rs at' before) @
     map (\<lambda>c. DdlDrop (case current_columns rs (ts_Columns at') (before_key rs c) of Some n \<Rightarrow> tc_Name (nc_column n) | None \<Rightarrow> [])) (added_columns rs at' before) @
     map DdlCreateIndex (unmatched_before rs at' before)"

lemma deriveTableDown_statements:
  "deriveTableDown objectName version at' (Some before) rs d = Inr (ss, ns) \<Longrightarrow>
     map ms_SQL ss = map (render_ddl d objectName) (down_ddls at' before rs) \<and> changed_column rs at' before = None \<and>
     ns = map (\<lambda>c. RestoredNullable version objectName (tc_Name c)) (filter (\<lambda>c. \<not> tc_Nullable c) (restored_columns rs at' before))"
  by (auto simp: deriveTableDown_def down_ddls_def undo_rename_def split: option.splits)

text \<open>
  What the derivation relies on: invertible renames, index column names that a signature can carry, and no
  recreated index under the name of an index that stays.
\<close>

definition recoverable :: "TableSchema \<Rightarrow> TableSchema \<Rightarrow> ColumnRename list \<Rightarrow> bool" where
  "recoverable at' before rs \<longleftrightarrow>
     wf_schema at' \<and> wf_schema before \<and> invertible at' before rs \<and>
     (\<forall>i \<in> set (ts_Indexes at'). plain_index i \<and> plain_index (rename_all rs i)) \<and> (\<forall>i \<in> set (ts_Indexes before). plain_index i) \<and>
     (\<forall>i \<in> set (unmatched_before rs at' before). \<forall>j \<in> set (ts_Indexes at'). ti_Name j = ti_Name i \<longrightarrow> ti_Name j \<in> ti_Name ` set (unmatched_at rs at' before))"

definition kept_indexes :: "TableSchema \<Rightarrow> TableSchema \<Rightarrow> ColumnRename list \<Rightarrow> TableIndex list" where
  "kept_indexes at' before rs = map (rename_all rs) (filter (\<lambda>i. ti_Name i \<notin> ti_Name ` set (unmatched_at rs at' before)) (ts_Indexes at'))"

lemma unmatched_at_names:
  assumes "recoverable at' before rs" and "i \<in> set (ts_Indexes at')"
  shows "ti_Name i \<in> ti_Name ` set (unmatched_at rs at' before) \<longleftrightarrow> IndexSignature (rename_all rs i) \<notin> IndexSignature ` set (ts_Indexes before)"
proof -
  have "i \<in> set (unmatched_at rs at' before) \<longleftrightarrow> IndexSignature (rename_all rs i) \<notin> IndexSignature ` set (ts_Indexes before)"
  proof -
    have "applyRenames rs (IndexSignature i) = IndexSignature (rename_all rs i)"
      using assms applyRenames_signature [of i rs] by (simp add: recoverable_def)
    then have "i \<in> set (unmatched_at rs at' before) \<longleftrightarrow> (\<forall>b \<in> set (ts_Indexes before). IndexSignature b \<noteq> IndexSignature (rename_all rs i))"
      using assms(2) by (simp add: unmatched_at_def list_ex_iff)
    then show ?thesis
      by (metis image_iff)
  qed
  moreover have "inj_on ti_Name (set (ts_Indexes at'))"
    using assms(1) by (simp add: recoverable_def wf_schema_def distinct_map)
  moreover have "set (unmatched_at rs at' before) \<subseteq> set (ts_Indexes at')"
    by (auto simp: unmatched_at_def)
  ultimately show ?thesis
    using assms(2) inj_on_image_mem_iff [of ti_Name "set (ts_Indexes at')" i] by blast
qed

lemma kept_signatures:
  assumes "recoverable at' before rs"
  shows "IndexSignature ` set (kept_indexes at' before rs) \<subseteq> IndexSignature ` set (ts_Indexes before)"
    and "IndexSignature ` set (kept_indexes at' before rs @ unmatched_before rs at' before) = IndexSignature ` set (ts_Indexes before)"
proof -
  show sub: "IndexSignature ` set (kept_indexes at' before rs) \<subseteq> IndexSignature ` set (ts_Indexes before)"
  proof
    fix sig
    assume "sig \<in> IndexSignature ` set (kept_indexes at' before rs)"
    then obtain i where "i \<in> set (ts_Indexes at')" "ti_Name i \<notin> ti_Name ` set (unmatched_at rs at' before)" "sig = IndexSignature (rename_all rs i)"
      by (auto simp: kept_indexes_def)
    then show "sig \<in> IndexSignature ` set (ts_Indexes before)"
      using unmatched_at_names [OF assms] by blast
  qed
  have "IndexSignature b \<in> IndexSignature ` set (kept_indexes at' before rs)" if b: "b \<in> set (ts_Indexes before)" "b \<notin> set (unmatched_before rs at' before)" for b
  proof -
    obtain a where a: "a \<in> set (ts_Indexes at')" "applyRenames rs (IndexSignature a) = IndexSignature b"
      using b by (auto simp: unmatched_before_def list_ex_iff)
    have sig: "IndexSignature (rename_all rs a) = IndexSignature b"
      using a assms applyRenames_signature [of a rs] by (simp add: recoverable_def)
    then have "ti_Name a \<notin> ti_Name ` set (unmatched_at rs at' before)"
      using unmatched_at_names [OF assms a(1)] b(1) by auto
    then have "rename_all rs a \<in> set (kept_indexes at' before rs)"
      using a(1) by (auto simp: kept_indexes_def)
    then show ?thesis
      using sig by (metis image_eqI)
  qed
  moreover have "set (unmatched_before rs at' before) \<subseteq> set (ts_Indexes before)"
    by (auto simp: unmatched_before_def)
  ultimately show "IndexSignature ` set (kept_indexes at' before rs @ unmatched_before rs at' before) = IndexSignature ` set (ts_Indexes before)"
    using sub unfolding set_append image_Un by (intro equalityI subsetI) (blast, metis (no_types, lifting) Un_iff image_iff)
qed

text \<open>An index that stays covers columns of the earlier shape only.\<close>

lemma kept_part_keys:
  assumes "recoverable at' before rs" and "i \<in> set (kept_indexes at' before rs)" and "k \<in> set (part_keys i)"
  shows "k \<in> set (keys_of (ts_Columns before))"
proof -
  obtain b where b: "b \<in> set (ts_Indexes before)" "IndexSignature i = IndexSignature b"
    using kept_signatures(1) [OF assms(1)] assms(2) by (metis image_iff subsetD image_eqI)
  have "plain_index i" "plain_index b"
    using assms(1,2) b(1) by (auto simp: recoverable_def kept_indexes_def)
  then have "part_keys i = part_keys b"
    using b(2) by (rule IndexSignature_part_keys)
  then show ?thesis
    using assms(1,3) b(1) by (auto simp: recoverable_def wf_schema_def)
qed

definition restored_shape :: "ColumnRename list \<Rightarrow> TableSchema \<Rightarrow> TableSchema \<Rightarrow> string \<Rightarrow> (string \<times> bool) option" where
  "restored_shape rs at' before k =
     map_option (\<lambda>(ty, nullable). (ty, nullable \<or> k \<in> set (keys_of (restored_columns rs at' before)))) (tab_columns (table_of before) k)"

lemma run_down_indexes:
  assumes r: "recoverable at' before rs"
  shows "run_ddls (map undo_rename (rev rs) @ map (\<lambda>i. DdlDropIndex (ti_Name i)) (unmatched_at rs at' before)) (table_of at') =
    Some \<lparr>tab_columns = undo_columns rs (tab_columns (table_of at')), tab_indexes = kept_indexes at' before rs\<rparr>"
proof -
  have inv: "invertible at' before rs"
    using r by (simp add: recoverable_def)
  have at': "table_of at' = \<lparr>tab_columns = tab_columns (table_of at'), tab_indexes = ts_Indexes at'\<rparr>"
    by (simp add: table_of_def)
  have "\<forall>r \<in> set rs. tab_columns (table_of at') (to_lower (cr_To r)) \<noteq> None \<and> tab_columns (table_of at') (to_lower (cr_From r)) = None"
    using inv by (auto simp: invertible_def table_of_def by_key_None)
  then have renames: "run_ddls (map undo_rename (rev rs)) (table_of at') =
      Some \<lparr>tab_columns = undo_columns rs (tab_columns (table_of at')), tab_indexes = map (rename_all rs) (ts_Indexes at')\<rparr>"
    using run_undo_renames [OF invertible_apart [OF inv]] at' by metis
  have "distinct (map ti_Name (unmatched_at rs at' before))"
    using r by (auto simp: recoverable_def wf_schema_def unmatched_at_def intro: distinct_map_filter)
  moreover have "set (map ti_Name (unmatched_at rs at' before)) \<subseteq> ti_Name ` set (map (rename_all rs) (ts_Indexes at'))"
    by (auto simp: unmatched_at_def image_image)
  ultimately have "run_ddls (map DdlDropIndex (map ti_Name (unmatched_at rs at' before)))
        \<lparr>tab_columns = undo_columns rs (tab_columns (table_of at')), tab_indexes = map (rename_all rs) (ts_Indexes at')\<rparr> =
      Some \<lparr>tab_columns = undo_columns rs (tab_columns (table_of at')), tab_indexes = kept_indexes at' before rs\<rparr>"
    by (subst run_drop_indexes) (auto simp: kept_indexes_def filter_map comp_def)
  then show ?thesis
    using renames by (simp add: run_ddls_append comp_def)
qed

text \<open>The columns after the additions, and after the removals.\<close>

definition refilled :: "ColumnRename list \<Rightarrow> TableSchema \<Rightarrow> TableSchema \<Rightarrow> string \<Rightarrow> (string \<times> bool) option" where
  "refilled rs at' before =
     undo_columns rs (tab_columns (table_of at')) ++
     map_of (map (\<lambda>c. (to_lower (tc_Name c), to_lower (tc_StorageType c), True)) (restored_columns rs at' before))"

lemma restored_distinct: "wf_schema before \<Longrightarrow> distinct (map (\<lambda>c. to_lower (tc_Name c)) (restored_columns rs at' before))"
  unfolding restored_columns_def by (intro distinct_map_filter) (simp add: wf_schema_def keys_of_def)

lemma run_restore:
  assumes "wf_schema at'" and "wf_schema before" and "invertible at' before rs"
  shows "run_ddls (map (\<lambda>c. DdlAdd (tc_Name c) (tc_StorageType c) True) (restored_columns rs at' before))
      \<lparr>tab_columns = undo_columns rs (tab_columns (table_of at')), tab_indexes = indexes\<rparr> =
    Some \<lparr>tab_columns = refilled rs at' before, tab_indexes = indexes\<rparr>"
proof -
  have eq: "map (\<lambda>c. DdlAdd (tc_Name c) (tc_StorageType c) True) (restored_columns rs at' before) =
      map (\<lambda>c. DdlAdd (cs_Name c) (cs_StorageType c) True) (map spec_of (restored_columns rs at' before))"
    by (simp add: spec_of_def comp_def)
  have "\<forall>c \<in> set (map spec_of (restored_columns rs at' before)). undo_columns rs (tab_columns (table_of at')) (to_lower (cs_Name c)) = None"
    using undo_columns_current [OF assms(1,3)] by (auto simp: restored_columns_def spec_of_def)
  then show ?thesis
    unfolding eq using restored_distinct [OF assms(2), of rs at'] by (subst run_adds) (simp_all add: refilled_def spec_of_def comp_def)
qed

text \<open>A column this version added keeps its own name: a renamed one existed before.\<close>

lemma added_column:
  assumes "wf_schema at'" and "invertible at' before rs" and "c \<in> set (added_columns rs at' before)"
  shows "before_key rs c = to_lower (tc_Name c)" and "to_lower (tc_Name c) \<notin> set (keys_of (ts_Columns before))"
    and "current_columns rs (ts_Columns at') (before_key rs c) = Some \<lparr>nc_displayName = display_name rs c, nc_column = c\<rparr>"
proof -
  have c: "c \<in> set (ts_Columns at')" "before_key rs c \<notin> set (keys_of (ts_Columns before))"
    using assms(3) by (auto simp: added_columns_def previous_columns_None)
  show key: "before_key rs c = to_lower (tc_Name c)"
  proof (rule renamed_cases [OF assms(2) c(1)])
    fix r
    assume "r \<in> set rs" "before_key rs c = to_lower (cr_From r)"
    then show ?thesis
      using c(2) assms(2) by (simp add: invertible_def)
  qed
  then show "to_lower (tc_Name c) \<notin> set (keys_of (ts_Columns before))"
    using c(2) by simp
  show "current_columns rs (ts_Columns at') (before_key rs c) = Some \<lparr>nc_displayName = display_name rs c, nc_column = c\<rparr>"
    unfolding current_columns_def using distinct_before_keys [OF assms(1,2)] c(1) by (rule fold_upd_mem)
qed

lemma run_remove:
  assumes r: "recoverable at' before rs"
  shows "run_ddls (map (\<lambda>c. DdlDrop (case current_columns rs (ts_Columns at') (before_key rs c) of Some n \<Rightarrow> tc_Name (nc_column n) | None \<Rightarrow> [])) (added_columns rs at' before))
      \<lparr>tab_columns = refilled rs at' before, tab_indexes = kept_indexes at' before rs\<rparr> =
    Some \<lparr>tab_columns = refilled rs at' before |` (- set (keys_of (added_columns rs at' before))), tab_indexes = kept_indexes at' before rs\<rparr>"
proof -
  have wf: "wf_schema at'" "wf_schema before" "invertible at' before rs"
    using r by (simp_all add: recoverable_def)
  note added = added_column [OF wf(1,3)]
  have eq: "map (\<lambda>c. DdlDrop (case current_columns rs (ts_Columns at') (before_key rs c) of Some n \<Rightarrow> tc_Name (nc_column n) | None \<Rightarrow> [])) (added_columns rs at' before) =
      map DdlDrop (map tc_Name (added_columns rs at' before))"
    using added(3) by simp
  have "run_ddls (map DdlDrop (map tc_Name (added_columns rs at' before)))
        \<lparr>tab_columns = refilled rs at' before, tab_indexes = kept_indexes at' before rs\<rparr> =
      Some (\<lparr>tab_columns = refilled rs at' before, tab_indexes = kept_indexes at' before rs\<rparr>
        \<lparr>tab_columns := tab_columns \<lparr>tab_columns = refilled rs at' before, tab_indexes = kept_indexes at' before rs\<rparr> |` (- set (map to_lower (map tc_Name (added_columns rs at' before))))\<rparr>)"
  proof (rule run_drops)
    show "distinct (map to_lower (map tc_Name (added_columns rs at' before)))"
      using wf(1) by (simp add: comp_def added_columns_def distinct_map_filter wf_schema_def keys_of_def)
    have "undo_columns rs (tab_columns (table_of at')) (to_lower (tc_Name c)) \<noteq> None" if "c \<in> set (added_columns rs at' before)" for c
      using undo_columns_current [OF wf(1,3), of "before_key rs c"] added(1,3) [OF that] by simp
    then show "\<forall>n \<in> set (map tc_Name (added_columns rs at' before)).
        tab_columns \<lparr>tab_columns = refilled rs at' before, tab_indexes = kept_indexes at' before rs\<rparr> (to_lower n) \<noteq> None"
      by (fastforce simp: refilled_def map_add_def split: option.splits)
    show "\<forall>n \<in> set (map tc_Name (added_columns rs at' before)).
        \<forall>i \<in> set (tab_indexes \<lparr>tab_columns = refilled rs at' before, tab_indexes = kept_indexes at' before rs\<rparr>). to_lower n \<notin> set (part_keys i)"
      using kept_part_keys [OF r] added(2) by auto
  qed
  then show ?thesis
    unfolding eq by (simp add: keys_of_def comp_def)
qed

lemma refilled_shape:
  assumes wf: "wf_schema at'" "wf_schema before" "invertible at' before rs" and same: "changed_column rs at' before = None"
  shows "refilled rs at' before |` (- set (keys_of (added_columns rs at' before))) = restored_shape rs at' before"
proof
  fix k
  let ?new = "map_of (map (\<lambda>c. (to_lower (tc_Name c), to_lower (tc_StorageType c), True)) (restored_columns rs at' before))"
  have db: "distinct (keys_of (ts_Columns before))"
    using wf(2) by (simp add: wf_schema_def)
  note undo = undo_columns_current [OF wf(1,3), of k]
  show "(refilled rs at' before |` (- set (keys_of (added_columns rs at' before)))) k = restored_shape rs at' before k"
  proof (cases "k \<in> set (keys_of (ts_Columns before))")
    case False
    then have new: "?new k = None" and before: "tab_columns (table_of before) k = None"
      by (auto simp: map_of_eq_None_iff restored_columns_def keys_of_def table_of_def by_key_None)
    have "undo_columns rs (tab_columns (table_of at')) k = None \<or> k \<in> set (keys_of (added_columns rs at' before))"
    proof (cases "k \<in> before_key rs ` set (ts_Columns at')")
      case True
      then obtain c where c: "c \<in> set (ts_Columns at')" "k = before_key rs c"
        by blast
      then have "c \<in> set (added_columns rs at' before)"
        using False by (simp add: added_columns_def previous_columns_None)
      then show ?thesis
        using added_column(1) [OF wf(1,3)] c(2) by (auto simp: keys_of_def)
    next
      case no: False
      then show ?thesis
        using undo by (simp add: current_columns_None)
    qed
    then show ?thesis
      using new before by (auto simp: refilled_def restrict_map_def map_add_def restored_shape_def)
  next
    case True
    then obtain b where b: "b \<in> set (ts_Columns before)" "k = to_lower (tc_Name b)"
      by (auto simp: keys_of_def)
    have before: "tab_columns (table_of before) k = Some (to_lower (tc_StorageType b), tc_Nullable b)"
      using by_key_Some [OF db b(1)] b(2) by (simp add: table_of_def spec_of_def)
    have kept: "k \<notin> set (keys_of (added_columns rs at' before))"
    proof
      assume "k \<in> set (keys_of (added_columns rs at' before))"
      then obtain c where "c \<in> set (added_columns rs at' before)" "k = to_lower (tc_Name c)"
        by (auto simp: keys_of_def)
      then show False
        using added_column(2) [OF wf(1,3)] True by blast
    qed
    show ?thesis
    proof (cases "current_columns rs (ts_Columns at') k")
      case None
      then have restored: "b \<in> set (restored_columns rs at' before)"
        using b by (simp add: restored_columns_def)
      then have "?new k = Some (to_lower (tc_StorageType b), True)"
        using restored_distinct [OF wf(2), of rs at'] b(2) by (subst map_of_eq_Some_iff) (auto simp: comp_def)
      moreover have "k \<in> set (keys_of (restored_columns rs at' before))"
        using restored b(2) by (simp add: keys_of_def)
      ultimately show ?thesis
        using kept before by (simp add: refilled_def restrict_map_def restored_shape_def)
    next
      case (Some n)
      then have "k \<in> before_key rs ` set (ts_Columns at')"
        using current_columns_None by (metis option.distinct(1))
      then obtain c where c: "c \<in> set (ts_Columns at')" "k = before_key rs c"
        by blast
      have "current_columns rs (ts_Columns at') (before_key rs c) = Some \<lparr>nc_displayName = display_name rs c, nc_column = c\<rparr>"
        unfolding current_columns_def using distinct_before_keys [OF wf(1,3)] c(1) by (rule fold_upd_mem)
      then have "n = \<lparr>nc_displayName = display_name rs c, nc_column = c\<rparr>"
        using Some c(2) by simp
      then have n: "nc_column n = c"
        by simp
      have "previous_columns (ts_Columns before) k = Some \<lparr>nc_displayName = tc_Name b, nc_column = b\<rparr>"
        unfolding previous_columns_def b(2) using db b(1) unfolding keys_of_def by (rule fold_upd_mem)
      then have "EqualFold (tc_StorageType c) (tc_StorageType b)" "tc_Nullable c = tc_Nullable b"
        using same c Some n by (auto simp: changed_column_def find_None_iff)
      moreover have "?new k = None" "k \<notin> set (keys_of (restored_columns rs at' before))"
        using Some by (auto simp: map_of_eq_None_iff restored_columns_def keys_of_def)
      ultimately show ?thesis
        using kept before undo Some n by (simp add: refilled_def restrict_map_def map_add_def restored_shape_def EqualFold_def)
    qed
  qed
qed

text \<open>The derived statements under the strict reading.\<close>

lemma run_down_ddls:
  assumes r: "recoverable at' before rs" and None: "changed_column rs at' before = None"
  shows "run_ddls (down_ddls at' before rs) (table_of at') =
    Some \<lparr>tab_columns = restored_shape rs at' before, tab_indexes = kept_indexes at' before rs @ unmatched_before rs at' before\<rparr>"
proof -
  have wf: "wf_schema at'" "wf_schema before" "invertible at' before rs"
    using r by (simp_all add: recoverable_def)
  let ?mid = "\<lparr>tab_columns = restored_shape rs at' before, tab_indexes = kept_indexes at' before rs\<rparr>"
  have "run_ddls (map DdlCreateIndex (unmatched_before rs at' before)) ?mid = Some (?mid\<lparr>tab_indexes := tab_indexes ?mid @ unmatched_before rs at' before\<rparr>)"
  proof (rule run_create_indexes)
    show "distinct (map ti_Name (unmatched_before rs at' before))"
      using wf(2) unfolding unmatched_before_def by (intro distinct_map_filter) (simp add: wf_schema_def)
    show "\<forall>i \<in> set (unmatched_before rs at' before). \<forall>j \<in> set (tab_indexes ?mid). ti_Name j \<noteq> ti_Name i"
      using r by (auto simp: recoverable_def kept_indexes_def)
    have "\<forall>i \<in> set (unmatched_before rs at' before). \<forall>k \<in> set (part_keys i). k \<in> set (keys_of (ts_Columns before))"
      using wf(2) by (auto simp: unmatched_before_def wf_schema_def)
    then show "\<forall>i \<in> set (unmatched_before rs at' before). \<forall>k \<in> set (part_keys i). tab_columns ?mid k \<noteq> None"
      by (simp add: restored_shape_def table_of_def by_key_None)
  qed
  then show ?thesis
    unfolding down_ddls_def append_assoc [symmetric] run_ddls_append
    by (simp add: run_down_indexes [OF r, unfolded run_ddls_append] run_restore [OF wf] run_remove [OF r] refilled_shape [OF wf None])
qed

section \<open>The same column before and after\<close>

text \<open>
  Two columns of the shapes are one: the step renamed the earlier to the later, or the step renamed nothing to
  the later and they have one name up to case. A column of the shape before is lost when none of the later
  shape is the same.
\<close>

definition same_column :: "ColumnRename list \<Rightarrow> TableColumn \<Rightarrow> TableColumn \<Rightarrow> bool" where
  "same_column rs c b \<longleftrightarrow>
     (\<exists>r \<in> set rs. EqualFold (tc_Name c) (cr_To r) \<and> EqualFold (cr_From r) (tc_Name b)) \<or>
     (\<forall>r \<in> set rs. \<not> EqualFold (tc_Name c) (cr_To r)) \<and> EqualFold (tc_Name c) (tc_Name b)"

definition changed_between :: "ColumnRename list \<Rightarrow> TableSchema \<Rightarrow> TableSchema \<Rightarrow> bool" where
  "changed_between rs at' before \<longleftrightarrow>
     (\<exists>c \<in> set (ts_Columns at'). \<exists>b \<in> set (ts_Columns before). same_column rs c b \<and>
        (\<not> EqualFold (tc_StorageType c) (tc_StorageType b) \<or> tc_Nullable c \<noteq> tc_Nullable b))"

definition lost_column :: "ColumnRename list \<Rightarrow> TableSchema \<Rightarrow> TableColumn \<Rightarrow> bool" where
  "lost_column rs at' b \<longleftrightarrow> (\<forall>c \<in> set (ts_Columns at'). \<not> same_column rs c b)"

lemma same_column_key:
  assumes inv: "invertible at' before rs"
  shows "same_column rs c b \<longleftrightarrow> before_key rs c = to_lower (tc_Name b)"
proof (cases "nameAtToBefore rs (to_lower (tc_Name c))")
  case None
  then have "\<forall>r \<in> set rs. to_lower (tc_Name c) \<noteq> to_lower (cr_To r)"
    by (auto simp: nameAtToBefore_None)
  then show ?thesis
    using None by (auto simp: same_column_def before_key_def EqualFold_def)
next
  case (Some f)
  then obtain r where r: "r \<in> set rs" "to_lower (tc_Name c) = to_lower (cr_To r)" "f = cr_From r"
    using nameAtToBefore_Some by metis
  have "q = r" if "q \<in> set rs" "to_lower (tc_Name c) = to_lower (cr_To q)" for q
    using that r(1,2) inv unfolding invertible_def distinct_map by (metis inj_onD)
  then show ?thesis
    using Some r by (auto simp: same_column_def before_key_def EqualFold_def)
qed

lemma lost_column_restored:
  assumes "invertible at' before rs"
  shows "restored_columns rs at' before = filter (lost_column rs at') (ts_Columns before)"
  unfolding restored_columns_def by (rule filter_cong) (fastforce simp: current_columns_None lost_column_def same_column_key [OF assms] image_iff)+

lemma changed_column_between:
  assumes wf: "wf_schema at'" "wf_schema before" and inv: "invertible at' before rs"
  shows "changed_column rs at' before = None \<longleftrightarrow> \<not> changed_between rs at' before"
proof -
  let ?test = "\<lambda>c. case (current_columns rs (ts_Columns at') (before_key rs c), previous_columns (ts_Columns before) (before_key rs c)) of
                 (Some now, Some then') \<Rightarrow>
                   \<not> EqualFold (tc_StorageType (nc_column now)) (tc_StorageType (nc_column then')) \<or>
                   tc_Nullable (nc_column now) \<noteq> tc_Nullable (nc_column then')
               | _ \<Rightarrow> False"
  let ?differ = "\<lambda>c b. \<not> EqualFold (tc_StorageType c) (tc_StorageType b) \<or> tc_Nullable c \<noteq> tc_Nullable b"
  have db: "distinct (map (\<lambda>c. to_lower (tc_Name c)) (ts_Columns before))"
    using wf(2) by (simp add: wf_schema_def keys_of_def)
  have "?test c \<longleftrightarrow> (\<exists>b \<in> set (ts_Columns before). same_column rs c b \<and> ?differ c b)" if c: "c \<in> set (ts_Columns at')" for c
  proof -
    have now: "current_columns rs (ts_Columns at') (before_key rs c) = Some \<lparr>nc_displayName = display_name rs c, nc_column = c\<rparr>"
      unfolding current_columns_def using distinct_before_keys [OF wf(1) inv] c by (rule fold_upd_mem)
    show ?thesis
    proof (cases "before_key rs c \<in> set (keys_of (ts_Columns before))")
      case False
      then have "previous_columns (ts_Columns before) (before_key rs c) = None"
        by (simp add: previous_columns_None)
      moreover have "\<not> (\<exists>b \<in> set (ts_Columns before). same_column rs c b \<and> ?differ c b)"
        using False unfolding same_column_key [OF inv] by (auto simp: keys_of_def)
      ultimately show ?thesis
        by (simp add: now)
    next
      case True
      then obtain b where b: "b \<in> set (ts_Columns before)" "before_key rs c = to_lower (tc_Name b)"
        by (auto simp: keys_of_def)
      have then': "previous_columns (ts_Columns before) (before_key rs c) = Some \<lparr>nc_displayName = tc_Name b, nc_column = b\<rparr>"
        unfolding previous_columns_def b(2) using db b(1) by (rule fold_upd_mem)
      have "e = b" if "e \<in> set (ts_Columns before)" "same_column rs c e" for e
        using that b db unfolding same_column_key [OF inv] distinct_map by (metis inj_onD)
      moreover have "same_column rs c b"
        using b(2) by (simp add: same_column_key [OF inv])
      ultimately have "(\<exists>e \<in> set (ts_Columns before). same_column rs c e \<and> ?differ c e) \<longleftrightarrow> ?differ c b"
        using b(1) by blast
      then show ?thesis
        by (simp add: now then')
    qed
  qed
  then have "(\<exists>c \<in> set (ts_Columns at'). ?test c) \<longleftrightarrow> changed_between rs at' before"
    unfolding changed_between_def by blast
  then show ?thesis
    unfolding changed_column_def find_None_iff by blast
qed

text \<open>
  C23: the rollback derived for a table restores the previous shape. It is refused (MIG-020) exactly when some
  column of both shapes, the same one through the step's renames, changed its type (up to case) or nullability.
  Otherwise the derived statements, run by any database that obeys the laws above on a table of the shape the
  version left, all succeed and leave exactly the columns of the shape before, each with its type and
  nullability, only that a column the version had dropped comes back nullable; and exactly its index
  signatures. The notices name exactly the columns that were dropped and NOT NULL, so without a notice the
  columns are as they were. The conditions: the shape before has a column; the renames can be inverted
  one by one (each from a column of the shape before to one of the later shape, neither name in use on the
  other side, no two from or to one column, so no chain); index column names a signature can carry (no
  comma or bar in them, no direction at their end); no recreated index takes the name of one that stays; and
  nothing outside the table stands in the way of a statement.
\<close>

theorem deriveTableDown_restores:
  assumes "recoverable at' before rs" and "ts_Columns before \<noteq> []"
    and "engine_laws exec shape free" and "\<forall>x \<in> set (down_ddls at' before rs). free x" and "shape db = table_of at'"
  shows "case deriveTableDown objectName version at' (Some before) rs d of
       Inl e \<Rightarrow> HasCode e ''MIG-020'' \<and> changed_between rs at' before
     | Inr (ss, notices) \<Rightarrow>
         \<not> changed_between rs at' before \<and>
         map ms_SQL ss = map (render_ddl d objectName) (down_ddls at' before rs) \<and>
         (\<exists>db'. exec_all exec (down_ddls at' before rs) db = Some db' \<and>
            dom (tab_columns (shape db')) = set (keys_of (ts_Columns before)) \<and>
            (\<forall>b \<in> set (ts_Columns before). tab_columns (shape db') (to_lower (tc_Name b)) =
               Some (to_lower (tc_StorageType b), tc_Nullable b \<or> lost_column rs at' b)) \<and>
            IndexSignature ` set (tab_indexes (shape db')) = IndexSignature ` set (ts_Indexes before) \<and>
            (notices = [] \<longrightarrow> tab_columns (shape db') = tab_columns (table_of before))) \<and>
         notices = map (\<lambda>c. RestoredNullable version objectName (tc_Name c)) (filter (\<lambda>b. lost_column rs at' b \<and> \<not> tc_Nullable b) (ts_Columns before))"
proof -
  have wf: "wf_schema at'" "wf_schema before" and inv: "invertible at' before rs"
    using assms(1) by (simp_all add: recoverable_def)
  have d: "distinct (keys_of (ts_Columns before))"
    using wf(2) by (simp add: wf_schema_def)
  note same = changed_column_between [OF wf inv]
  show ?thesis
  proof (cases "changed_column rs at' before")
    case (Some c)
    then show ?thesis
      using same by (simp add: deriveTableDown_def)
  next
    case None
    obtain ss notices where derived: "deriveTableDown objectName version at' (Some before) rs d = Inr (ss, notices)"
      using None by (simp add: deriveTableDown_def)
    note statements = deriveTableDown_statements [OF derived]
    have notices: "notices = map (\<lambda>c. RestoredNullable version objectName (tc_Name c)) (filter (\<lambda>b. lost_column rs at' b \<and> \<not> tc_Nullable b) (ts_Columns before))"
      using statements unfolding lost_column_restored [OF inv] by (simp add: conj_commute)
    have cols: "restored_shape rs at' before (to_lower (tc_Name b)) = Some (to_lower (tc_StorageType b), tc_Nullable b \<or> lost_column rs at' b)"
      if b: "b \<in> set (ts_Columns before)" for b
    proof -
      have "to_lower (tc_Name b) \<in> set (keys_of (restored_columns rs at' before)) \<longleftrightarrow> lost_column rs at' b"
        using b d unfolding lost_column_restored [OF inv] keys_of_def distinct_map by (auto dest: inj_onD)
      then show ?thesis
        using by_key_Some [OF d b] by (simp add: restored_shape_def table_of_def spec_of_def)
    qed
    have dom: "dom (restored_shape rs at' before) = set (keys_of (ts_Columns before))"
      using dom_by_key [of "ts_Columns before"] by (auto simp: dom_def restored_shape_def table_of_def)
    have plain: "restored_shape rs at' before = tab_columns (table_of before)" if "notices = []"
    proof
      fix k
      show "restored_shape rs at' before k = tab_columns (table_of before) k"
      proof (cases "k \<in> set (keys_of (ts_Columns before))")
        case True
        then obtain b where b: "b \<in> set (ts_Columns before)" "k = to_lower (tc_Name b)"
          by (auto simp: keys_of_def)
        then have "tc_Nullable b \<or> \<not> lost_column rs at' b"
          using that notices by (auto simp: filter_empty_conv)
        then show ?thesis
          using cols [OF b(1)] by_key_Some [OF d b(1)] b(2) by (auto simp: table_of_def spec_of_def)
      qed (simp add: restored_shape_def table_of_def by_key_None [THEN iffD2])
    qed
    let ?t = "\<lparr>tab_columns = restored_shape rs at' before, tab_indexes = kept_indexes at' before rs @ unmatched_before rs at' before\<rparr>"
    define undo ns settle where "undo = map undo_rename (rev rs) @ map (\<lambda>i. DdlDropIndex (ti_Name i)) (unmatched_at rs at' before) @
        map (\<lambda>c. DdlAdd (tc_Name c) (tc_StorageType c) True) (restored_columns rs at' before)"
      and "ns = map (\<lambda>c. case current_columns rs (ts_Columns at') (before_key rs c) of Some n \<Rightarrow> tc_Name (nc_column n) | None \<Rightarrow> []) (added_columns rs at' before)"
      and "settle = map DdlCreateIndex (unmatched_before rs at' before)"
    have steps: "down_ddls at' before rs = undo @ map DdlDrop ns @ settle"
      by (simp add: down_ddls_def undo_def ns_def settle_def comp_def)
    obtain k where "k \<in> set (keys_of (ts_Columns before))"
      using assms(2) by (cases "ts_Columns before") (auto simp: keys_of_def)
    then have "tab_columns ?t k \<noteq> None"
      unfolding dom [symmetric] by (simp add: domIff)
    moreover have "\<forall>x \<in> set undo. harmless x" "\<forall>x \<in> set settle. on_indexes x"
      by (auto simp: undo_def settle_def undo_rename_def)
    ultimately obtain db' where "exec_all exec (down_ddls at' before rs) db = Some db'" "shape db' = ?t"
      using engine_runs [OF assms(3) assms(4) [unfolded steps] run_down_ddls [OF assms(1) None, folded assms(5), unfolded steps]] unfolding steps by blast
    then show ?thesis
      using statements None same notices cols dom plain kept_signatures(2) [OF assms(1)] by (simp add: derived)
  qed
qed

theorem deriveTableDown_restores_witness:
  "\<exists>t. exec_all run_ddl [DdlRename ''title'' ''name'', DdlDropIndex ''ix2'', DdlAdd ''old'' ''TEXT'' True, DdlDrop ''added'',
        DdlCreateIndex (sample_index ''ix'' ''id'')] (table_of (sample_schema [''id'', ''title'', ''added''] [sample_index ''ix2'' ''added''])) = Some t \<and>
    tab_columns t = tab_columns (table_of (sample_schema [''id'', ''name'', ''old''] [sample_index ''ix'' ''id''])) \<and>
    IndexSignature ` set (tab_indexes t) = {''plain|id''}"
proof -
  let ?later = "sample_schema [''id'', ''title'', ''added''] [sample_index ''ix2'' ''added'']"
  let ?before = "sample_schema [''id'', ''name'', ''old''] [sample_index ''ix'' ''id'']"
  let ?rs = "[\<lparr>cr_From = ''name'', cr_To = ''title''\<rparr>]"
  have hyps: "recoverable ?later ?before ?rs" "ts_Columns ?before \<noteq> []"
    by code_simp+
  have calm: "changed_column ?rs ?later ?before = None" "filter (\<lambda>b. lost_column ?rs ?later b \<and> \<not> tc_Nullable b) (ts_Columns ?before) = []"
      "IndexSignature ` set (ts_Indexes ?before) = {''plain|id''}"
    by code_simp+
  have steps: "down_ddls ?later ?before ?rs = [DdlRename ''title'' ''name'', DdlDropIndex ''ix2'', DdlAdd ''old'' ''TEXT'' True, DdlDrop ''added'', DdlCreateIndex (sample_index ''ix'' ''id'')]"
    by code_simp
  obtain ss notices where derived: "deriveTableDown ''orders'' 2 ?later (Some ?before) ?rs d = Inr (ss, notices)"
    using calm(1) by (simp add: deriveTableDown_def)
  show ?thesis
    using deriveTableDown_restores [OF hyps run_ddl_engine, where db = "table_of ?later" and objectName = "''orders''" and version = 2 and d = d]
    unfolding derived calm(2,3) steps by auto
qed

text \<open>
  Renames of one step that form a chain are not composed: the column that went from a through b to c is not
  recognised, the derived rollback adds a second column of its old name and fails.
\<close>

lemma chained_renames:
  "changed_column [\<lparr>cr_From = ''a'', cr_To = ''b''\<rparr>, \<lparr>cr_From = ''b'', cr_To = ''c''\<rparr>] (sample_schema [''c''] []) (sample_schema [''a''] []) = None \<and>
   run_ddls (map rename_ddl [\<lparr>cr_From = ''a'', cr_To = ''b''\<rparr>, \<lparr>cr_From = ''b'', cr_To = ''c''\<rparr>]) (table_of (sample_schema [''a''] [])) \<noteq> None \<and>
   run_ddls (down_ddls (sample_schema [''c''] []) (sample_schema [''a''] []) [\<lparr>cr_From = ''a'', cr_To = ''b''\<rparr>, \<lparr>cr_From = ''b'', cr_To = ''c''\<rparr>])
     (table_of (sample_schema [''c''] [])) = None"
  by code_simp

end
