(* ===== verification/Migration_Set.thy ===== *)
theory Migration_Set
  imports Down_Deriver "HOL-Library.Product_Lexorder"
begin

text \<open>
  A validated set of migration versions and its rendering (\<open>migration.go\<close>, \<open>migration_set.go\<close>): the names a root and
  a step carry, the structural checks of \<open>NewSet\<close>, and the rendered plan the runner applies. What a Go
  type implements is data: a step's action, rollback and hook methods are the calls they make, absent when
  the type has no such method. The metadata loader and the lookup of a trigger class's declaration are
  parameters.
\<close>

section \<open>Names\<close>

definition is_decimal_digit :: "char \<Rightarrow> bool" where
  "is_decimal_digit c \<longleftrightarrow> (let n = (of_char c :: nat) in 48 \<le> n \<and> n \<le> 57)"

text \<open>\<open>^V(\d+)$\<close> and \<open>^V(\d+)_(\w+)$\<close>.\<close>

definition rootNamePattern :: "string \<Rightarrow> string option" where
  "rootNamePattern name =
     (case name of
        [] \<Rightarrow> None
      | c # digits \<Rightarrow> if c = CHR ''V'' \<and> digits \<noteq> [] \<and> list_all is_decimal_digit digits then Some digits else None)"

definition stepNamePattern :: "string \<Rightarrow> (string \<times> string) option" where
  "stepNamePattern name =
     (case name of
        [] \<Rightarrow> None
      | c # rest \<Rightarrow>
          (let digits = takeWhile is_decimal_digit rest
           in case dropWhile is_decimal_digit rest of
                [] \<Rightarrow> None
              | u # description \<Rightarrow>
                  if c = CHR ''V'' \<and> digits \<noteq> [] \<and> u = CHR ''_'' \<and> description \<noteq> [] \<and> list_all is_word_char description
                  then Some (digits, description) else None))"

text \<open>\<open>strconv.ParseInt(s, 10, 64)\<close> on digits.\<close>

definition ParseInt_digits :: "string \<Rightarrow> int option" where
  "ParseInt_digits digits = (if digits_value digits < 2 ^ 63 then Some (int (digits_value digits)) else None)"

section \<open>Versions and steps\<close>

datatype stepKind = stepKindTable | stepKindView | stepKindTrigger | stepKindRaw

text \<open>The descriptor of a step; the fields of a data-driven step are empty for the others.\<close>

record stepDescriptor =
  sd_kind :: stepKind
  sd_entityType :: gotype
  sd_triggerType :: gotype
  sd_objectName :: string
  sd_up :: "string list"
  sd_down :: "string list"
  sd_renames :: "ColumnRename list"
  sd_expectDefinition :: string
  sd_trigger :: "TriggerDeclaration option"
  sd_expectTrigger :: "TriggerDeclaration option"

record step =
  st_typeName :: string
  st_described :: "(int \<times> string) option"
  st_describe :: stepDescriptor
  st_tableAction :: "table_op call list option"
  st_viewAction :: "view_op call list option"
  st_triggerAction :: "trigger_op call list option"
  st_tableDown :: "table_op call list option"
  st_viewDown :: "view_op call list option"
  st_triggerDown :: "trigger_op call list option"
  st_preDown :: "string list option"
  st_postDown :: "string list option"

record root_version =
  rv_typeName :: string
  rv_versioned :: "int option"
  rv_isDraft :: "bool option"
  rv_compose :: "step list"

definition isDraft :: "root_version \<Rightarrow> bool" where
  "isDraft v \<longleftrightarrow> rv_isDraft v = Some True"

definition rootVersionNumber :: "root_version \<Rightarrow> int res" where
  "rootVersionNumber v =
     (case rv_versioned v of
        Some n \<Rightarrow> Inr n
      | None \<Rightarrow>
          (case rootNamePattern (rv_typeName v) of
             None \<Rightarrow> Inl (OrmError ''MIG-001'' (rv_typeName v))
           | Some digits \<Rightarrow>
               (case ParseInt_digits digits of
                  None \<Rightarrow> Inl (OrmError ''MIG-001'' (rv_typeName v))
                | Some n \<Rightarrow> Inr n)))"

definition stepIdentity :: "step \<Rightarrow> (int \<times> string) res" where
  "stepIdentity s =
     (case st_described s of
        Some d \<Rightarrow> Inr d
      | None \<Rightarrow>
          (case stepNamePattern (st_typeName s) of
             None \<Rightarrow> Inl (OrmError ''MIG-001'' (st_typeName s))
           | Some (digits, description) \<Rightarrow>
               (case ParseInt_digits digits of
                  None \<Rightarrow> Inl (OrmError ''MIG-001'' (st_typeName s))
                | Some n \<Rightarrow> Inr (n, description))))"

definition checkActionShape :: "step \<Rightarrow> unit res" where
  "checkActionShape s =
     (case sd_kind (st_describe s) of
        stepKindTable \<Rightarrow> if st_tableAction s = None then Inl (OrmError ''MIG-001'' (st_typeName s)) else Inr ()
      | stepKindView \<Rightarrow> if st_viewAction s = None then Inl (OrmError ''MIG-001'' (st_typeName s)) else Inr ()
      | stepKindTrigger \<Rightarrow> if st_triggerAction s = None then Inl (OrmError ''MIG-001'' (st_typeName s)) else Inr ()
      | stepKindRaw \<Rightarrow> Inr ())"

section \<open>The set\<close>

type_synonym migration_set = "(root_version \<times> int) list"

fun number_versions :: "root_version list \<Rightarrow> int list \<Rightarrow> migration_set res" where
  "number_versions [] seenRoots = Inr []"
| "number_versions (v # vs) seenRoots =
     bindR (rootVersionNumber v) (\<lambda>number.
       if number \<in> set seenRoots then Inl (OrmError ''MIG-002'' (version_label number))
       else bindR (number_versions vs (number # seenRoots)) (\<lambda>rest. Inr ((v, number) # rest)))"

definition check_step :: "int \<Rightarrow> step \<Rightarrow> unit res" where
  "check_step number s =
     bindR (stepIdentity s) (\<lambda>(stepVersion, _).
       if stepVersion \<noteq> number then Inl (OrmError ''MIG-003'' (st_typeName s)) else checkActionShape s)"

fun check_steps :: "(int \<times> step) list \<Rightarrow> unit res" where
  "check_steps [] = Inr ()"
| "check_steps ((n, s) # rest) = bindR (check_step n s) (\<lambda>_. check_steps rest)"

definition NewSet :: "root_version list \<Rightarrow> migration_set res" where
  "NewSet versions =
     bindR (number_versions versions []) (\<lambda>numbered.
       let sorted = sort_key snd numbered
       in bindR (check_steps (concat (map (\<lambda>(v, n). map (Pair n) (rv_compose v)) sorted))) (\<lambda>_. Inr sorted))"

section \<open>Rendering\<close>

record DownPlan =
  dp_Pre :: "MigrationStatement list"
  dp_Core :: "MigrationStatement list"
  dp_Post :: "MigrationStatement list"

record RenderedStep =
  rs_Version :: int
  rs_ObjectName :: string
  rs_Description :: string
  rs_Up :: "MigrationStatement list"
  rs_Down :: DownPlan
  rs_Renames :: "ColumnRename list"
  rs_Trigger :: "TriggerDeclaration option"
  rs_TriggerDropped :: bool

record RenderedVersion =
  rdv_Version :: int
  rdv_Draft :: bool
  rdv_Steps :: "RenderedStep list"

record loader =
  ld_Load :: "gotype \<Rightarrow> EntityMap res"
  ld_TriggerDeclarationOf :: "gotype \<Rightarrow> TriggerDefinition option"

definition objectNameFor :: "loader \<Rightarrow> stepDescriptor \<Rightarrow> string res" where
  "objectNameFor l d =
     (case sd_kind d of
        stepKindRaw \<Rightarrow> Inr (sd_objectName d)
      | stepKindTrigger \<Rightarrow>
          (case ld_TriggerDeclarationOf l (sd_triggerType d) of
             None \<Rightarrow> Inl (OrmError ''MAP-029'' (sd_triggerType d))
           | Some declaration \<Rightarrow> Inr (TrimSpace (trg_Name declaration)))
      | _ \<Rightarrow> bindR (ld_Load l (sd_entityType d)) (\<lambda>m. Inr (RelationName m)))"

definition hook_sql :: "string \<Rightarrow> string list option \<Rightarrow> MigrationStatement list" where
  "hook_sql origin hook = (case hook of None \<Rightarrow> [] | Some statements \<Rightarrow> MigrationSQL_render origin statements)"

definition down_plan :: "step \<Rightarrow> MigrationStatement list \<Rightarrow> DownPlan" where
  "down_plan s core = \<lparr>dp_Pre = hook_sql ''pre-down'' (st_preDown s), dp_Core = core, dp_Post = hook_sql ''post-down'' (st_postDown s)\<rparr>"

definition calls_of :: "'a list option \<Rightarrow> 'a list" where
  "calls_of calls = (case calls of None \<Rightarrow> [] | Some cs \<Rightarrow> cs)"

definition renderTableStep :: "loader \<Rightarrow> Dialect \<Rightarrow> step \<Rightarrow> string \<Rightarrow> string \<Rightarrow> int \<Rightarrow> RenderedStep res" where
  "renderTableStep l d s objectName description number =
     bindR (ld_Load l (sd_entityType (st_describe s))) (\<lambda>m.
       if Kind m \<noteq> RelationTable then Inl (OrmError ''DDL-001'' (sd_entityType (st_describe s)))
       else case st_tableAction s of
              None \<Rightarrow> Inl (OrmError ''MIG-001'' (st_typeName s))
            | Some action \<Rightarrow>
                (let up = table_actions m d action; down = table_actions m d (calls_of (st_tableDown s))
                 in Inr \<lparr>rs_Version = number, rs_ObjectName = objectName, rs_Description = description, rs_Up = table_build up,
                         rs_Down = down_plan s (table_build down), rs_Renames = ta_columnRenames up, rs_Trigger = None, rs_TriggerDropped = False\<rparr>))"

definition renderViewStep :: "loader \<Rightarrow> Dialect \<Rightarrow> step \<Rightarrow> string \<Rightarrow> string \<Rightarrow> int \<Rightarrow> RenderedStep res" where
  "renderViewStep l d s objectName description number =
     bindR (ld_Load l (sd_entityType (st_describe s))) (\<lambda>m.
       if Kind m \<noteq> RelationView \<and> Kind m \<noteq> RelationMaterializedView then Inl (OrmError ''DDL-001'' (sd_entityType (st_describe s)))
       else if Kind m = RelationMaterializedView \<and> \<not> SupportsMaterializedViews d then Inl (OrmError ''DDL-002'' (sd_entityType (st_describe s)))
       else case st_viewAction s of
              None \<Rightarrow> Inl (OrmError ''MIG-001'' (st_typeName s))
            | Some action \<Rightarrow>
                Inr \<lparr>rs_Version = number, rs_ObjectName = objectName, rs_Description = description, rs_Up = view_build m d action,
                     rs_Down = down_plan s (view_build m d (calls_of (st_viewDown s))), rs_Renames = [], rs_Trigger = None, rs_TriggerDropped = False\<rparr>)"

definition renderTriggerStep :: "loader \<Rightarrow> Dialect \<Rightarrow> step \<Rightarrow> string \<Rightarrow> string \<Rightarrow> int \<Rightarrow> RenderedStep res" where
  "renderTriggerStep l d s objectName description number =
     bindR (ld_Load l (sd_entityType (st_describe s))) (\<lambda>m.
       if Kind m \<noteq> RelationTable \<and> Kind m \<noteq> RelationView then Inl (OrmError ''DDL-001'' (sd_entityType (st_describe s)))
       else case st_triggerAction s of
              None \<Rightarrow> Inl (OrmError ''MIG-001'' (st_typeName s))
            | Some action \<Rightarrow>
                (let linked = find (\<lambda>t. et_Type t = sd_triggerType (st_describe s)) (Triggers m);
                     up = fold trigger_call action (newTriggerActions m linked objectName d);
                     down = fold trigger_call (calls_of (st_triggerDown s)) (newTriggerActions m linked objectName d)
                 in bindR (trigger_build up) (\<lambda>upStatements.
                    bindR (trigger_build down) (\<lambda>downStatements.
                      Inr \<lparr>rs_Version = number, rs_ObjectName = objectName, rs_Description = description, rs_Up = upStatements,
                           rs_Down = down_plan s downStatements, rs_Renames = [], rs_Trigger = tra_declared up, rs_TriggerDropped = tra_dropped up\<rparr>))))"

text \<open>The declaration a data-driven step leaves behind.\<close>

definition rawTriggerDeclaration :: "stepDescriptor \<Rightarrow> string \<Rightarrow> TriggerDeclaration option" where
  "rawTriggerDeclaration desc objectName =
     map_option (\<lambda>t. let declaration = withName t objectName
                      in if tg_RelationKind declaration = [] then declaration\<lparr>tg_RelationKind := RelationKindTable\<rparr> else declaration)
       (sd_trigger desc)"

definition renderRawStep :: "Dialect \<Rightarrow> stepDescriptor \<Rightarrow> string \<Rightarrow> string \<Rightarrow> int \<Rightarrow> RenderedStep res" where
  "renderRawStep d desc objectName description number =
     (let expect_view = (if sd_expectDefinition desc = [] then []
            else [view_guard (NormalizeDDL (sd_expectDefinition desc)) (''expect '' @ objectName) objectName])
      in bindR (case sd_expectTrigger desc of
                  None \<Rightarrow> Inr []
                | Some t \<Rightarrow>
                    (let definition' = withName t objectName
                     in bindR (triggerGuard d (tg_Relation definition') (OnView definition') (Definition definition') (''expect '' @ objectName)) (\<lambda>g. Inr [g])))
           (\<lambda>expect_trigger.
         bindR (case sd_trigger desc of
                  None \<Rightarrow> Inr []
                | Some t \<Rightarrow>
                    (let definition' = withName t objectName
                     in bindR (CreateTriggerSQL d (tg_Relation definition') (OnView definition') (Definition definition')) (\<lambda>creates.
                          Inr (map (\<lambda>sql. plain_statement sql (''drop trigger '' @ objectName)) (DropTriggerSQL d (tg_Relation definition') objectName) @
                               map (\<lambda>sql. plain_statement sql (''create trigger '' @ objectName)) creates))))
           (\<lambda>trigger.
             Inr \<lparr>rs_Version = number, rs_ObjectName = objectName, rs_Description = description,
                  rs_Up = expect_view @ expect_trigger @ trigger @ map (\<lambda>sql. plain_statement sql (''sql '' @ objectName)) (sd_up desc),
                  rs_Down = \<lparr>dp_Pre = [], dp_Core = map (\<lambda>sql. plain_statement sql (''sql '' @ objectName)) (sd_down desc), dp_Post = []\<rparr>,
                  rs_Renames = sd_renames desc, rs_Trigger = rawTriggerDeclaration desc objectName, rs_TriggerDropped = False\<rparr>)))"

definition renderStep :: "loader \<Rightarrow> Dialect \<Rightarrow> step \<Rightarrow> string \<Rightarrow> int \<Rightarrow> RenderedStep res" where
  "renderStep l d s objectName number =
     bindR (stepIdentity s) (\<lambda>(_, description).
       case sd_kind (st_describe s) of
         stepKindTable \<Rightarrow> renderTableStep l d s objectName description number
       | stepKindView \<Rightarrow> renderViewStep l d s objectName description number
       | stepKindTrigger \<Rightarrow> renderTriggerStep l d s objectName description number
       | stepKindRaw \<Rightarrow> renderRawStep d (st_describe s) objectName description number)"

fun render_steps :: "loader \<Rightarrow> Dialect \<Rightarrow> int \<Rightarrow> step list \<Rightarrow> string list \<Rightarrow> RenderedStep list res" where
  "render_steps l d number [] seenObjects = Inr []"
| "render_steps l d number (s # ss) seenObjects =
     bindR (objectNameFor l (st_describe s)) (\<lambda>objectName.
       if objectName \<in> set seenObjects then Inl (OrmError ''MIG-002'' (version_label number @ '' '' @ objectName))
       else bindR (renderStep l d s objectName number) (\<lambda>rendered.
            bindR (render_steps l d number ss (objectName # seenObjects)) (\<lambda>rest. Inr (rendered # rest))))"

definition Render :: "loader \<Rightarrow> Dialect \<Rightarrow> migration_set \<Rightarrow> RenderedVersion list res" where
  "Render l d s =
     res_map (\<lambda>(v, number).
       bindR (render_steps l d number (rv_compose v) []) (\<lambda>steps.
         Inr \<lparr>rdv_Version = number, rdv_Draft = isDraft v, rdv_Steps = steps\<rparr>)) s"

section \<open>What a set guarantees\<close>

lemma number_versions_spec:
  "number_versions vs seen = Inr numbered \<longleftrightarrow>
     list_all2 (\<lambda>v p. fst p = v \<and> rootVersionNumber v = Inr (snd p)) vs numbered \<and> distinct (map snd numbered) \<and>
     (\<forall>p \<in> set numbered. snd p \<notin> set seen)"
proof (induction vs arbitrary: seen numbered)
  case (Cons v vs)
  show ?case
    by (auto simp: bindR_Inr_iff Cons.IH list_all2_Cons1 split: if_splits) blast+
qed auto

lemma check_steps_ok: "check_steps xs = Inr () \<longleftrightarrow> (\<forall>(n, s) \<in> set xs. check_step n s = Inr ())"
  by (induction xs rule: check_steps.induct) (auto simp: bindR_Inr_iff)

lemma renderStep_fields:
  assumes "renderStep l d s objectName number = Inr r"
  shows "rs_ObjectName r = objectName \<and> rs_Version r = number"
proof -
  obtain p where p: "(case sd_kind (st_describe s) of
         stepKindTable \<Rightarrow> renderTableStep l d s objectName p number
       | stepKindView \<Rightarrow> renderViewStep l d s objectName p number
       | stepKindTrigger \<Rightarrow> renderTriggerStep l d s objectName p number
       | stepKindRaw \<Rightarrow> renderRawStep d (st_describe s) objectName p number) = Inr r"
    using assms by (auto simp: renderStep_def bindR_Inr_iff)
  show ?thesis
  proof (cases "sd_kind (st_describe s)")
    case stepKindTable
    then show ?thesis
      using p by (auto simp: renderTableStep_def bindR_Inr_iff Let_def split: if_splits option.splits)
  next
    case stepKindView
    then show ?thesis
      using p by (auto simp: renderViewStep_def bindR_Inr_iff Let_def split: if_splits option.splits)
  next
    case stepKindTrigger
    then show ?thesis
      using p by (auto simp: renderTriggerStep_def bindR_Inr_iff Let_def split: if_splits option.splits)
  next
    case stepKindRaw
    then show ?thesis
      using p by (auto simp: renderRawStep_def bindR_Inr_iff Let_def)
  qed
qed

lemma render_steps_spec:
  "render_steps l d number ss seen = Inr rendered \<Longrightarrow>
     list_all2 (\<lambda>s r. objectNameFor l (st_describe s) = Inr (rs_ObjectName r) \<and> renderStep l d s (rs_ObjectName r) number = Inr r) ss rendered \<and>
     distinct (map rs_ObjectName rendered) \<and> (\<forall>r \<in> set rendered. rs_ObjectName r \<notin> set seen \<and> rs_Version r = number)"
proof (induction ss arbitrary: seen rendered)
  case (Cons s ss)
  obtain objectName r rest where step: "objectNameFor l (st_describe s) = Inr objectName" "objectName \<notin> set seen"
    "renderStep l d s objectName number = Inr r" "render_steps l d number ss (objectName # seen) = Inr rest" "rendered = r # rest"
    using Cons.prems by (auto simp: bindR_Inr_iff split: if_splits)
  have "rs_ObjectName r = objectName \<and> rs_Version r = number"
    using step(3) by (rule renderStep_fields)
  then show ?case
    using Cons.IH [OF step(4)] step by auto
qed simp

text \<open>A plan as the runner relies on it: versions strictly ascending, an object once in a version.\<close>

definition wf_plan :: "RenderedVersion list \<Rightarrow> bool" where
  "wf_plan plan \<longleftrightarrow> sorted_wrt (<) (map rdv_Version plan) \<and>
     (\<forall>v \<in> set plan. distinct (map rs_ObjectName (rdv_Steps v)) \<and> (\<forall>s \<in> set (rdv_Steps v). rs_Version s = rdv_Version v))"

definition valid_versions :: "root_version list \<Rightarrow> bool" where
  "valid_versions versions \<longleftrightarrow>
     list_all (\<lambda>v. is_ok (rootVersionNumber v)) versions \<and> distinct (map rootVersionNumber versions) \<and>
     list_all (\<lambda>v. list_all (\<lambda>s. rootVersionNumber v = map_sum id fst (stepIdentity s) \<and> checkActionShape s = Inr ()) (rv_compose v)) versions"

lemma sorted_wrt_less: "sorted xs \<Longrightarrow> distinct xs \<Longrightarrow> sorted_wrt (<) (xs :: int list)"
  by (induction xs) (auto simp: order_le_less)

lemma check_step_ok:
  "check_step n s = Inr () \<longleftrightarrow> map_sum id fst (stepIdentity s) = Inr n \<and> checkActionShape s = Inr ()"
  by (cases "stepIdentity s") (auto simp: check_step_def split: if_splits)

lemma number_versions_ok:
  "is_ok (number_versions vs []) \<longleftrightarrow> list_all (\<lambda>v. is_ok (rootVersionNumber v)) vs \<and> distinct (map rootVersionNumber vs)"
proof
  assume "is_ok (number_versions vs [])"
  then obtain numbered where n: "number_versions vs [] = Inr numbered"
    by (auto simp: is_ok_iff)
  then have "list_all2 (\<lambda>v p. rootVersionNumber v = Inr (snd p)) vs numbered" "distinct (map snd numbered)"
    by (auto simp: number_versions_spec elim: list_all2_mono)
  then have eq: "map rootVersionNumber vs = map Inr (map snd numbered)"
    by (induction rule: list_all2_induct) auto
  then have "distinct (map rootVersionNumber vs)"
    using \<open>distinct (map snd numbered)\<close> by (metis distinct_map inj_Inr inj_on_subset subset_UNIV)
  moreover have "list_all is_ok (map rootVersionNumber vs)"
    unfolding eq by (simp add: list_all_iff)
  ultimately show "list_all (\<lambda>v. is_ok (rootVersionNumber v)) vs \<and> distinct (map rootVersionNumber vs)"
    by (simp add: list_all_iff)
next
  assume a: "list_all (\<lambda>v. is_ok (rootVersionNumber v)) vs \<and> distinct (map rootVersionNumber vs)"
  define num where "num v = projr (rootVersionNumber v)" for v
  have num: "rootVersionNumber v = Inr (num v)" if "v \<in> set vs" for v
    using a that by (auto simp: num_def list_all_iff is_ok_iff)
  then have eq: "map rootVersionNumber vs = map Inr (map num vs)"
    by simp
  have "distinct (map rootVersionNumber vs)"
    using a by (rule conjunct2)
  then have "distinct (map (Inr :: int \<Rightarrow> int res) (map num vs))"
    unfolding eq .
  then have "distinct (map num vs)"
    by (simp only: distinct_map [of Inr])
  then have "number_versions vs [] = Inr (map (\<lambda>v. (v, num v)) vs)"
    using num by (auto simp: number_versions_spec comp_def list_all2_map2 list_all2_same)
  then show "is_ok (number_versions vs [])"
    by simp
qed

lemma number_versions_errors: "number_versions vs seen = Inl e \<Longrightarrow> HasCode e ''MIG-001'' \<or> HasCode e ''MIG-002''"
  by (induction vs arbitrary: seen)
    (auto simp: bindR_Inl_iff rootVersionNumber_def split: option.splits if_splits)

lemma check_steps_errors: "check_steps xs = Inl e \<Longrightarrow> HasCode e ''MIG-001'' \<or> HasCode e ''MIG-003''"
proof (induction xs rule: check_steps.induct)
  case (2 n s rest)
  have "HasCode e ''MIG-001'' \<or> HasCode e ''MIG-003''" if "check_step n s = Inl e"
    using that by (auto simp: check_step_def bindR_Inl_iff stepIdentity_def checkActionShape_def split: option.splits if_splits stepKind.splits)
  then show ?case
    using 2 by (auto simp: bindR_Inl_iff)
qed simp

text \<open>The set of a valid collection.\<close>

lemma NewSet_Inr:
  assumes "NewSet versions = Inr s"
  shows "mset (map fst s) = mset versions \<and> (\<forall>(v, n) \<in> set s. rootVersionNumber v = Inr n) \<and> sorted_wrt (<) (map snd s) \<and>
    (\<forall>(v, n) \<in> set s. \<forall>st \<in> set (rv_compose v). check_step n st = Inr ())"
proof -
  obtain numbered where n: "number_versions versions [] = Inr numbered" and s: "s = sort_key snd numbered"
    and c: "check_steps (concat (map (\<lambda>(v, n). map (Pair n) (rv_compose v)) s)) = Inr ()"
    using assms by (auto simp: NewSet_def bindR_Inr_iff Let_def)
  have all: "list_all2 (\<lambda>v p. fst p = v \<and> rootVersionNumber v = Inr (snd p)) versions numbered" "distinct (map snd numbered)"
    using n by (auto simp: number_versions_spec)
  then have fst: "map fst numbered = versions" and num: "\<forall>(v, n) \<in> set numbered. rootVersionNumber v = Inr n"
    by (induction rule: list_all2_induct) auto
  have "mset (map snd s) = mset (map snd numbered)"
    unfolding s by simp
  then have "distinct (map snd s)"
    using all(2) by (metis mset_eq_imp_distinct_iff)
  then have "sorted_wrt (<) (map snd s)"
    unfolding s using sorted_sort_key by (intro sorted_wrt_less) auto
  moreover have "mset (map fst s) = mset versions"
    unfolding s using arg_cong [OF fst, of mset] by simp
  moreover have "\<forall>(v, n) \<in> set s. \<forall>st \<in> set (rv_compose v). check_step n st = Inr ()"
    using c unfolding check_steps_ok by fastforce
  ultimately show ?thesis
    using num by (simp add: s)
qed

lemma NewSet_ok: "is_ok (NewSet versions) \<longleftrightarrow> valid_versions versions"
proof
  assume "is_ok (NewSet versions)"
  then obtain s where s: "NewSet versions = Inr s"
    by (auto simp: is_ok_iff)
  then have "is_ok (number_versions versions [])"
    by (auto simp: NewSet_def bindR_Inr_iff)
  moreover have "rootVersionNumber v = map_sum id fst (stepIdentity st) \<and> checkActionShape st = Inr ()" if "v \<in> set versions" "st \<in> set (rv_compose v)" for v st
  proof -
    have "v \<in> fst ` set s"
      using NewSet_Inr [OF s] that(1) by (metis list.set_map mset_eq_setD)
    then obtain n where "(v, n) \<in> set s"
      by auto
    then show ?thesis
      using NewSet_Inr [OF s] that(2) check_step_ok by fastforce
  qed
  ultimately show "valid_versions versions"
    by (auto simp: valid_versions_def number_versions_ok list_all_iff)
next
  assume v: "valid_versions versions"
  then have "is_ok (number_versions versions [])"
    by (simp add: valid_versions_def number_versions_ok)
  then obtain numbered where n: "number_versions versions [] = Inr numbered"
    by (auto simp: is_ok_iff)
  then have "list_all2 (\<lambda>v p. fst p = v \<and> rootVersionNumber v = Inr (snd p)) versions numbered"
    by (simp add: number_versions_spec)
  then have num: "\<forall>(w, n) \<in> set numbered. w \<in> set versions \<and> rootVersionNumber w = Inr n"
    by (induction rule: list_all2_induct) auto
  have "check_step n st = Inr ()" if "(w, n) \<in> set numbered" "st \<in> set (rv_compose w)" for w n st
    using v num that by (fastforce simp: valid_versions_def list_all_iff check_step_ok)
  then have "check_steps (concat (map (\<lambda>(v, n). map (Pair n) (rv_compose v)) (sort_key snd numbered))) = Inr ()"
    by (auto simp: check_steps_ok)
  then show "is_ok (NewSet versions)"
    by (simp add: NewSet_def n Let_def)
qed

lemma Render_Inr:
  assumes "Render l d s = Inr plan" and "sorted_wrt (<) (map snd s)"
  shows "wf_plan plan \<and> map rdv_Version plan = map snd s \<and> map rdv_Draft plan = map (isDraft \<circ> fst) s \<and>
    list_all2 (\<lambda>(v, n) r. list_all2 (\<lambda>st x. renderStep l d st (rs_ObjectName x) n = Inr x) (rv_compose v) (rdv_Steps r)) s plan"
proof -
  have "list_all2 (\<lambda>(v, n) r. rdv_Version r = n \<and> rdv_Draft r = isDraft v \<and>
      list_all2 (\<lambda>st x. renderStep l d st (rs_ObjectName x) n = Inr x) (rv_compose v) (rdv_Steps r) \<and>
      distinct (map rs_ObjectName (rdv_Steps r)) \<and> (\<forall>x \<in> set (rdv_Steps r). rs_Version x = rdv_Version r)) s plan"
    using assms(1) unfolding Render_def res_map_Inr_iff
    by (rule list_all2_mono) (fastforce simp: bindR_Inr_iff dest: render_steps_spec elim: list_all2_mono)
  then have "map rdv_Version plan = map snd s \<and> map rdv_Draft plan = map (isDraft \<circ> fst) s \<and>
      (\<forall>r \<in> set plan. distinct (map rs_ObjectName (rdv_Steps r)) \<and> (\<forall>x \<in> set (rdv_Steps r). rs_Version x = rdv_Version r)) \<and>
      list_all2 (\<lambda>(v, n) r. list_all2 (\<lambda>st x. renderStep l d st (rs_ObjectName x) n = Inr x) (rv_compose v) (rdv_Steps r)) s plan"
    by (induction rule: list_all2_induct) auto
  then show ?thesis
    using assms(2) by (auto simp: wf_plan_def)
qed

text \<open>
  C24: \<open>NewSet\<close> accepts exactly the well-formed collections of versions: every root's number parses, no two roots
  share one, every step carries the number of the root composing it and implements its action. The set then
  holds the given versions in strictly ascending order of their numbers. Rendering keeps that order and
  refuses a version that composes an object twice, so every plan has strictly ascending versions, each
  with the draft marker of its root and one step per object, in the composed order.
\<close>

theorem NewSet_Render_plan:
  "(is_ok (NewSet versions) \<longleftrightarrow> valid_versions versions) \<and>
   (case NewSet versions of
      Inl e \<Rightarrow> HasCode e ''MIG-001'' \<or> HasCode e ''MIG-002'' \<or> HasCode e ''MIG-003''
    | Inr s \<Rightarrow> mset (map fst s) = mset versions \<and> (\<forall>(v, n) \<in> set s. rootVersionNumber v = Inr n) \<and> sorted_wrt (<) (map snd s) \<and>
        (case Render l d s of
           Inl e \<Rightarrow> True
         | Inr plan \<Rightarrow> wf_plan plan \<and> map rdv_Version plan = map snd s \<and> map rdv_Draft plan = map (isDraft \<circ> fst) s \<and>
             list_all2 (\<lambda>(v, n) r. list_all2 (\<lambda>st x. renderStep l d st (rs_ObjectName x) n = Inr x) (rv_compose v) (rdv_Steps r)) s plan))"
proof -
  have "HasCode e ''MIG-001'' \<or> HasCode e ''MIG-002'' \<or> HasCode e ''MIG-003''" if "NewSet versions = Inl e" for e
    using that number_versions_errors check_steps_errors by (fastforce simp: NewSet_def bindR_Inl_iff Let_def)
  then show ?thesis
    using NewSet_ok NewSet_Inr Render_Inr by (fastforce split: sum.splits)
qed

definition sample_descriptor :: "string \<Rightarrow> stepDescriptor" where
  "sample_descriptor sql = \<lparr>sd_kind = stepKindRaw, sd_entityType = [], sd_triggerType = [], sd_objectName = ''orders'', sd_up = [sql], sd_down = [],
     sd_renames = [], sd_expectDefinition = [], sd_trigger = None, sd_expectTrigger = None\<rparr>"

definition sample_root :: "int \<Rightarrow> string \<Rightarrow> root_version" where
  "sample_root n sql = \<lparr>rv_typeName = ''SQLVersion'', rv_versioned = Some n, rv_isDraft = None,
     rv_compose = [\<lparr>st_typeName = ''rawStep'', st_described = Some (n, ''change''), st_describe = sample_descriptor sql, st_tableAction = None,
       st_viewAction = None, st_triggerAction = None, st_tableDown = None, st_viewDown = None, st_triggerDown = None, st_preDown = None, st_postDown = None\<rparr>]\<rparr>"

definition sample_loader :: loader where
  "sample_loader = \<lparr>ld_Load = (\<lambda>t. Inl (OrmError ''MAP-001'' t)), ld_TriggerDeclarationOf = (\<lambda>t. None)\<rparr>"

theorem NewSet_Render_plan_witness:
  "\<forall>d. \<exists>s plan. NewSet [sample_root 2 ''b'', sample_root 1 ''a''] = Inr s \<and> Render sample_loader d s = Inr plan \<and> wf_plan plan \<and>
     map rdv_Version plan = [1, 2]"
proof
  fix d
  let ?vs = "[sample_root 2 ''b'', sample_root 1 ''a'']" and ?s = "[(sample_root 1 ''a'', 1), (sample_root 2 ''b'', 2)]"
  have s: "NewSet ?vs = Inr ?s"
    by (simp add: NewSet_def sample_root_def rootVersionNumber_def check_step_def stepIdentity_def checkActionShape_def sample_descriptor_def)
  obtain plan where plan: "Render sample_loader d ?s = Inr plan"
    by (simp add: Render_def sample_root_def objectNameFor_def renderStep_def stepIdentity_def renderRawStep_def sample_descriptor_def)
  have "wf_plan plan \<and> map rdv_Version plan = map snd ?s"
    using conjunct2 [OF NewSet_Render_plan [of ?vs sample_loader d]] by (simp only: s plan sum.case)
  then show "\<exists>s plan. NewSet ?vs = Inr s \<and> Render sample_loader d s = Inr plan \<and> wf_plan plan \<and> map rdv_Version plan = [1, 2]"
    using s plan by auto
qed

end
