(* ===== verification/Trigger_Text.thy ===== *)
theory Trigger_Text
  imports Migration_Set
begin

text \<open>
  The neutral text of a trigger (\<open>internal/core/trigger.go\<close>): the tokens of timings and events, the scanner of
  the row tokens in a body, their expansion, and the normalized body the snapshots hold and the diff compares.
\<close>

section \<open>Collapsed text\<close>

text \<open>Collapsed text by its characters: single blanks, none at the ends; \<open>b\<close> says the character before was a blank or the start.\<close>

fun neat :: "bool \<Rightarrow> string \<Rightarrow> bool" where
  "neat b [] \<longleftrightarrow> \<not> b"
| "neat b (c # cs) \<longleftrightarrow> (if is_space c then \<not> b \<and> c = CHR '' '' \<and> neat True cs else neat False cs)"

lemma neat_words:
  "neat b s \<Longrightarrow> if b then \<exists>ws. ws \<noteq> [] \<and> (\<forall>w \<in> set ws. is_word w) \<and> s = join '' '' ws
     else \<exists>w ws. (\<forall>c \<in> set w. \<not> is_space c) \<and> (\<forall>w \<in> set ws. is_word w) \<and> s = join '' '' (w # ws)"
proof (induction b s rule: neat.induct)
  case (1 b)
  have "\<exists>w ws. (\<forall>c \<in> set w. \<not> is_space c) \<and> (\<forall>w \<in> set ws. is_word w) \<and> [] = join '' '' (w # ws)"
    by (rule exI [of _ "[]"], rule exI [of _ "[]"]) simp
  then show ?case
    using 1 by simp
next
  case (2 b c cs)
  show ?case
  proof (cases "is_space c")
    case True
    then obtain ws where ws: "ws \<noteq> []" "\<forall>w \<in> set ws. is_word w" "cs = join '' '' ws" and b: "\<not> b" "c = CHR '' ''"
      using 2 by auto
    then have "(\<forall>c \<in> set ([] :: string). \<not> is_space c) \<and> (\<forall>w \<in> set ws. is_word w) \<and> c # cs = join '' '' ([] # ws)"
      by (simp add: join_Cons)
    then show ?thesis
      using b by metis
  next
    case False
    then obtain w ws where ws: "\<forall>c \<in> set w. \<not> is_space c" "\<forall>w \<in> set ws. is_word w" "cs = join '' '' (w # ws)"
      using 2 by auto
    then have w: "is_word (c # w) \<and> c # cs = join '' '' ((c # w) # ws)"
      using False by (cases ws) (auto simp: is_word_def)
    then have "(c # w) # ws \<noteq> [] \<and> (\<forall>w \<in> set ((c # w) # ws). is_word w)"
      using ws(2) by simp
    moreover have "\<forall>d \<in> set (c # w). \<not> is_space d"
      using False ws(1) by simp
    ultimately show ?thesis
      using w ws(2) by metis
  qed
qed

lemma neat_word: "\<forall>c \<in> set w. \<not> is_space c \<Longrightarrow> neat b (w @ s) \<longleftrightarrow> (if w = [] then neat b s else neat False s)"
  by (induction w arbitrary: b) auto

lemma neat_join: "ws \<noteq> [] \<Longrightarrow> \<forall>w \<in> set ws. is_word w \<Longrightarrow> neat True (join '' '' ws)"
proof (induction ws rule: induct_list012)
  case (2 w)
  then have "neat True (w @ [])"
    by (subst neat_word) (auto simp: is_word_def)
  then show ?case
    by simp
next
  case (3 w w' ws)
  then have "neat True (w @ CHR '' '' # join '' '' (w' # ws))"
    by (subst neat_word) (auto simp: is_word_def)
  then show ?case
    by simp
qed simp

lemma collapse_fixed: "collapse s = s \<longleftrightarrow> s = [] \<or> neat True s"
proof
  assume c: "collapse s = s"
  show "s = [] \<or> neat True s"
  proof (cases "Fields s = []")
    case True
    then show ?thesis
      using c by (simp add: collapse_def)
  next
    case False
    then show ?thesis
      using c neat_join [OF False Fields_words] by (simp add: collapse_def)
  qed
next
  assume "s = [] \<or> neat True s"
  then show "collapse s = s"
  proof
    assume "neat True s"
    then show ?thesis
      using neat_words [of True s] by (auto simp: collapse_def Fields_join)
  qed (simp add: collapse_def)
qed

lemma lower_char_cases:
  "if 65 \<le> (of_char c :: nat) \<and> (of_char c :: nat) \<le> 90 then of_char (lower_char c) = (of_char c :: nat) + 32 else lower_char c = c"
  by (simp add: lower_char_def Let_def)

lemma is_space_lower: "is_space (lower_char c) \<longleftrightarrow> is_space c" "lower_char c = CHR '' '' \<longleftrightarrow> c = CHR '' ''"
  using lower_char_cases [of c] by (auto simp: is_space_def split: if_splits)

lemma neat_to_lower: "neat b (to_lower s @ t) \<longleftrightarrow> neat b (s @ t)"
proof (induction s arbitrary: b)
  case (Cons c s)
  then show ?case
    using is_space_lower [of c] by (simp add: to_lower_def)
qed (simp add: to_lower_def)

section \<open>Comparing trigger statements\<close>

lemma is_word_char_lower [simp]: "is_word_char (lower_char c) \<longleftrightarrow> is_word_char c"
proof (cases "65 \<le> (of_char c :: nat) \<and> (of_char c :: nat) \<le> 90")
  case True
  then have l: "of_char (lower_char c) = (of_char c :: nat) + 32"
    using lower_char_cases [of c] by (simp only: if_True)
  show ?thesis
    unfolding is_word_char_def Let_def l using True by linarith
next
  case False
  then show ?thesis
    using lower_char_cases [of c] by (simp only: if_False)
qed

lemma triggerCreatePrefix_lower: "triggerCreatePrefix (to_lower s) = triggerCreatePrefix s"
proof -
  have boundary: "(case drop k (to_lower s) of [] \<Rightarrow> True | c # cs \<Rightarrow> \<not> is_word_char c) = (case drop k s of [] \<Rightarrow> True | c # cs \<Rightarrow> \<not> is_word_char c)" for k
  proof -
    have eq: "drop k (to_lower s) = to_lower (drop k s)"
      by (simp add: to_lower_def drop_map)
    show ?thesis
      unfolding eq by (rule list.exhaust [of "drop k s"]) (simp_all add: to_lower_def)
  qed
  have "to_lower (take k (to_lower s)) = to_lower (take k s)" for k
    by (simp add: to_lower_def take_map comp_def)
  then show ?thesis
    unfolding triggerCreatePrefix_def by (simp only: boundary)
qed

lemma lower_prefix:
  "to_lower (take n (to_lower (take n c) @ drop n c)) = to_lower (take n c)" "drop n (to_lower (take n c) @ drop n c) = drop n c"
  by (cases "n \<le> length c"; simp add: to_lower_def comp_def take_map)+

lemma NormalizeTriggerDDL_idem [simp]: "NormalizeTriggerDDL (NormalizeTriggerDDL sql) = NormalizeTriggerDDL sql"
proof (cases "triggerCreatePrefix (collapse sql)")
  case None
  then show ?thesis
    by (simp add: NormalizeTriggerDDL_def)
next
  case (Some n)
  let ?c = "collapse sql" and ?r = "to_lower (take n (collapse sql)) @ drop n (collapse sql)"
  have "?c = [] \<or> neat True ?c"
    using collapse_fixed [of ?c] by simp
  then have "?r = [] \<or> neat True ?r"
    using neat_to_lower [of True "take n ?c" "drop n ?c"] by (auto simp: to_lower_def)
  then have r: "collapse ?r = ?r"
    by (simp add: collapse_fixed)
  have "to_lower ?r = to_lower ?c"
  proof -
    have "to_lower ?r = to_lower (take n ?c) @ to_lower (drop n ?c)"
      by (simp add: to_lower_def comp_def)
    also have "\<dots> = to_lower (take n ?c @ drop n ?c)"
      by (simp only: to_lower_def map_append)
    finally show ?thesis
      by (simp only: append_take_drop_id)
  qed
  then have "triggerCreatePrefix ?r = Some n"
    using Some triggerCreatePrefix_lower by metis
  then show ?thesis
    using Some r by (simp add: NormalizeTriggerDDL_def lower_prefix del: take_append drop_append)
qed

text \<open>An expectation is normalized once; comparing with it is comparing with the statements it came from.\<close>

lemma expected_matches: "TriggerStatementsMatch live (sort (map NormalizeTriggerDDL creates)) = TriggerStatementsMatch live creates"
  unfolding TriggerStatementsMatch_mset by (simp add: multiset.map_comp comp_def)

section \<open>Timings and events\<close>

fun Timing_Token :: "TriggerTiming \<Rightarrow> string" where
  "Timing_Token TimingBefore = ''before''"
| "Timing_Token TimingAfter = ''after''"
| "Timing_Token TimingInsteadOf = ''instead_of''"
| "Timing_Token TimingNone = []"

definition ParseTriggerTiming :: "string \<Rightarrow> TriggerTiming option" where
  "ParseTriggerTiming token =
     (if token = ''before'' then Some TimingBefore
      else if token = ''after'' then Some TimingAfter
      else if token = ''instead_of'' then Some TimingInsteadOf
      else None)"

definition triggerEventOrder :: "TriggerEvent list" where
  "triggerEventOrder = [EventInsert, EventUpdate, EventDelete]"

definition Events_List :: "TriggerEvent set \<Rightarrow> TriggerEvent list" where
  "Events_List events = filter (\<lambda>e. e \<in> events) triggerEventOrder"

fun Event_Token :: "TriggerEvent \<Rightarrow> string" where
  "Event_Token EventInsert = ''insert''"
| "Event_Token EventUpdate = ''update''"
| "Event_Token EventDelete = ''delete''"

definition Events_Tokens :: "TriggerEvent set \<Rightarrow> string list" where
  "Events_Tokens events = map Event_Token (Events_List events)"

fun parse_events :: "string list \<Rightarrow> TriggerEvent set \<Rightarrow> TriggerEvent set option" where
  "parse_events [] events = Some events"
| "parse_events (token # tokens) events =
     (case find (\<lambda>e. Event_Token e = token) triggerEventOrder of
        None \<Rightarrow> None
      | Some event \<Rightarrow> if event \<in> events then None else parse_events tokens (insert event events))"

definition ParseTriggerEvents :: "string list \<Rightarrow> TriggerEvent set option" where
  "ParseTriggerEvents tokens = parse_events tokens {}"

lemma Event_Token_inj [simp]: "Event_Token e = Event_Token f \<longleftrightarrow> e = f"
  by (cases e; cases f) simp_all

lemma set_triggerEventOrder [simp]: "e \<in> set triggerEventOrder"
  by (cases e) (simp_all add: triggerEventOrder_def)

lemma find_event: "find (\<lambda>f. Event_Token f = Event_Token e) triggerEventOrder = Some e"
  by (cases e) (simp_all add: triggerEventOrder_def)

lemma parse_events_tokens:
  "distinct es \<Longrightarrow> set es \<inter> events = {} \<Longrightarrow> parse_events (map Event_Token es) events = Some (set es \<union> events)"
  by (induction es arbitrary: events) (auto simp del: Event_Token_inj simp: find_event)

text \<open>The tokens of a set parse back to it.\<close>

lemma ParseTriggerEvents_tokens: "ParseTriggerEvents (Events_Tokens events) = Some events"
proof -
  have "distinct (Events_List events)"
    by (simp add: Events_List_def triggerEventOrder_def)
  moreover have "set (Events_List events) = events"
    by (auto simp: Events_List_def)
  ultimately show ?thesis
    by (simp add: ParseTriggerEvents_def Events_Tokens_def parse_events_tokens)
qed

section \<open>The tokens of a body\<close>

datatype TriggerTokenKind = TokenNew | TokenOld | TokenNow

record TriggerToken =
  tt_Kind :: TriggerTokenKind
  tt_Columns :: "string list"
  tt_Start :: nat
  tt_End :: nat

fun Canonical :: "TriggerTokenKind \<Rightarrow> string list \<Rightarrow> string" where
  "Canonical TokenNew columns = ''{new: '' @ join '', '' columns @ ''}''"
| "Canonical TokenOld columns = ''{old: '' @ join '', '' columns @ ''}''"
| "Canonical TokenNow columns = ''{now}''"

datatype token_problem = LineComment | NowWithColumns string | UnknownToken string | NoColumnList string | EmptyColumn string

definition is_brace :: "char \<Rightarrow> bool" where
  "is_brace c \<longleftrightarrow> c = CHR ''{'' \<or> c = CHR ''}''"

text \<open>The text between the braces: \<open>strings.Cut\<close> at the first colon, then the kind and the column list.\<close>

definition parseTriggerToken :: "string \<Rightarrow> (TriggerTokenKind \<times> string list) + token_problem" where
  "parseTriggerToken inner =
     (let name = to_lower (TrimSpace (takeWhile (\<lambda>c. c \<noteq> CHR '':'') inner));
          tail = dropWhile (\<lambda>c. c \<noteq> CHR '':'') inner;
          hasList = (tail \<noteq> []);
          spelled = ''{'' @ inner @ ''}'';
          columns = map TrimSpace (Split (CHR '','') (tl tail))
      in if name = ''now'' then (if hasList then Inr (NowWithColumns spelled) else Inl (TokenNow, []))
         else if name \<noteq> ''new'' \<and> name \<noteq> ''old'' then Inr (UnknownToken spelled)
         else if \<not> hasList then Inr (NoColumnList spelled)
         else if [] \<in> set columns then Inr (EmptyColumn spelled)
         else Inl (if name = ''new'' then TokenNew else TokenOld, columns))"

text \<open>How much of the text a single-quoted literal takes after its opening quote: a doubled quote is escaped.\<close>

fun skip_literal :: "string \<Rightarrow> nat" where
  "skip_literal [] = 0"
| "skip_literal [c] = 1"
| "skip_literal (c # c' # cs) =
     (if c = CHR 0x27 then (if c' = CHR 0x27 then 2 + skip_literal cs else 1) else Suc (skip_literal (c' # cs)))"

lemma skip_literal_le: "skip_literal cs \<le> length cs"
  by (induction cs rule: skip_literal.induct) auto

text \<open>
  The scan from position \<open>i\<close>, with whether a line comment was already reported: a literal is skipped, a brace that
  opens no token is text, a token ends at the first brace after it.
\<close>

function scan_tokens :: "nat \<Rightarrow> string \<Rightarrow> bool \<Rightarrow> TriggerToken list \<times> token_problem list" where
  "scan_tokens i [] lineComment = ([], [])"
| "scan_tokens i (c # cs) lineComment =
     (if c = CHR 0x27 then scan_tokens (i + 1 + skip_literal cs) (drop (skip_literal cs) cs) lineComment
      else if c = CHR ''-'' \<and> cs \<noteq> [] \<and> hd cs = CHR ''-'' then
        (let (tokens, problems) = scan_tokens (i + 1) cs True
         in (tokens, if lineComment then problems else LineComment # problems))
      else if c = CHR ''{'' then
        (let inner = takeWhile (\<lambda>x. \<not> is_brace x) cs; rest = dropWhile (\<lambda>x. \<not> is_brace x) cs
         in if rest = [] \<or> hd rest = CHR ''{'' then scan_tokens (i + 1) cs lineComment
            else (let end' = i + length inner + 2; (tokens, problems) = scan_tokens end' (tl rest) lineComment
                  in case parseTriggerToken inner of
                       Inr problem \<Rightarrow> (tokens, problem # problems)
                     | Inl (kind, columns) \<Rightarrow> (\<lparr>tt_Kind = kind, tt_Columns = columns, tt_Start = i, tt_End = end'\<rparr> # tokens, problems)))
      else scan_tokens (i + 1) cs lineComment)"
  by pat_completeness auto
termination
proof (relation "measure (\<lambda>(i, cs, lineComment). length cs)", goal_cases)
  case (5 i c cs lineComment inner rest end')
  have "length (dropWhile (\<lambda>x. \<not> is_brace x) cs) \<le> length cs"
    by (rule length_dropWhile_le)
  then have "length rest \<le> length cs"
    using 5 by simp
  then have "length (tl rest) < length (c # cs)"
    by (cases rest) auto
  then show ?case
    by simp
qed (auto simp: less_Suc_eq_le)

declare scan_tokens.simps [simp del]

definition ScanTriggerTokens :: "string \<Rightarrow> TriggerToken list \<times> token_problem list" where
  "ScanTriggerTokens body = scan_tokens 0 body False"

fun expand_from :: "(TriggerToken \<Rightarrow> string) \<Rightarrow> string \<Rightarrow> nat \<Rightarrow> TriggerToken list \<Rightarrow> string" where
  "expand_from expand body last' [] = drop last' body"
| "expand_from expand body last' (t # ts) =
     take (tt_Start t - last') (drop last' body) @ expand t @ expand_from expand body (tt_End t) ts"

definition ExpandTriggerTokens :: "string \<Rightarrow> (TriggerToken \<Rightarrow> string) \<Rightarrow> string" where
  "ExpandTriggerTokens body expand =
     (let tokens = fst (ScanTriggerTokens body) in if tokens = [] then body else expand_from expand body 0 tokens)"

definition RenderTriggerBody :: "string \<Rightarrow> string \<Rightarrow> (TriggerToken \<Rightarrow> string) \<Rightarrow> string res" where
  "RenderTriggerBody name body expand =
     (let trimmed = TrimSpace body
      in if snd (ScanTriggerTokens trimmed) \<noteq> [] then Inl (OrmError ''MAP-029'' name)
         else Inr (ExpandTriggerTokens trimmed expand))"

definition NormalizeTriggerBody :: "string \<Rightarrow> string" where
  "NormalizeTriggerBody body =
     (let collapsed = collapse body; (tokens, problems) = ScanTriggerTokens collapsed
      in if problems \<noteq> [] \<or> tokens = [] then collapsed
         else ExpandTriggerTokens collapsed (\<lambda>t. Canonical (tt_Kind t) (tt_Columns t)))"

text \<open>\<open>SameAs\<close>: how the diff compares two definitions.\<close>

definition SameAs :: "TriggerDefinition \<Rightarrow> TriggerDefinition \<Rightarrow> bool" where
  "SameAs d other \<longleftrightarrow>
     trg_Name d = trg_Name other \<and> trg_Timing d = trg_Timing other \<and> trg_Events d = trg_Events other \<and>
     trg_UpdateOf d = trg_UpdateOf other \<and> NormalizeTriggerBody (trg_SQL d) = NormalizeTriggerBody (trg_SQL other)"

end
