(* ===== verification/Dialect_Contract.thy ===== *)
theory Dialect_Contract
  imports Trigger_Text
begin

text \<open>
  What every dialect shares (\<open>internal/core/dialect.go\<close>): the text helpers its renderers use, and the
  contract between the DDL rendered from the metadata and the DDL rendered from a snapshot shape, which the
  migrations rely on. The dialects interpret it.
\<close>

section \<open>Text\<close>

definition nl :: string where
  "nl = [CHR 0x0A]"

definition quote :: string where
  "quote = [CHR 0x27]"

definition indent :: string where
  "indent = '','' @ nl @ ''    ''"

text \<open>Lines of a statement.\<close>

definition text_lines :: "string list \<Rightarrow> string" where
  "text_lines ls = join nl ls"

text \<open>\<open>strings.ReplaceAll\<close> of one character by its doubling.\<close>

definition double_char :: "char \<Rightarrow> string \<Rightarrow> string" where
  "double_char q s = concat (map (\<lambda>c. if c = q then [q, q] else [c]) s)"

definition to_upper :: "string \<Rightarrow> string" where
  "to_upper = map (\<lambda>c. if (97 :: nat) \<le> of_char c \<and> (of_char c :: nat) \<le> 122 then char_of ((of_char c :: nat) - 32) else c)"

text \<open>The column list of a create: every column on a line of its own, separated by commas, then the key clause.\<close>

definition column_block :: "string list \<Rightarrow> string" where
  "column_block columns = (if columns = [] then [] else nl @ ''    '' @ join indent columns)"

definition key_block :: "string list \<Rightarrow> string" where
  "key_block keys = indent @ ''primary key ('' @ join '', '' keys @ '')''"

section \<open>Column types\<close>

definition IsInteger :: "string \<Rightarrow> bool" where
  "IsInteger c \<longleftrightarrow> c \<in> {''int16'', ''int32'', ''int64''}"

definition IsTemporal :: "string \<Rightarrow> bool" where
  "IsTemporal c \<longleftrightarrow> c \<in> {''datetime'', ''datetimeoffset'', ''date'', ''time''}"

section \<open>The contract\<close>

text \<open>
  A table map as the loader accepts it: the key columns are generated exactly when the database generates the
  key, which then is a single not-null column; without a key strategy there is no key.
\<close>

definition keyed_map :: "EntityMap \<Rightarrow> bool" where
  "keyed_map m \<longleftrightarrow>
     (\<forall>p \<in> set (Properties m). IsKey p \<longrightarrow> (IsGenerated p \<longleftrightarrow> Strategy m = KeyDatabaseGenerated)) \<and>
     (Strategy m = KeyDatabaseGenerated \<longrightarrow> KeyProperties m \<noteq> []) \<and>
     (Strategy m = KeyNone \<longrightarrow> KeyProperties m = [])"

text \<open>The map whose create the shape renders: a client-generated key is a natural key in the shape.\<close>

definition natural_twin :: "EntityMap \<Rightarrow> EntityMap" where
  "natural_twin m = (if Strategy m = KeyClientGuid then m\<lparr>Strategy := KeyNatural\<rparr> else m)"

locale dialect_contract =
  fixes d :: Dialect
  assumes table_ddl: "keyed_map m \<Longrightarrow> CreateTableFromSchemaSQL d (FromMap m d) = CreateTableSQL d (natural_twin m)"
    and index_ddl: "CreateIndexSQL d m = map (CreateIndexFromSchemaSQL d (RelationName m)) (ts_Indexes (FromMap m d))"
    and view_ddl: "Kind m = RelationView \<or> SupportsMaterializedViews d \<Longrightarrow>
      CreateViewSQL d m = CreateViewFromBodySQL d (RelationName m) (DefiningSQL m) (Kind m = RelationMaterializedView)"
    and trigger_errors: "CreateTriggerSQL d relation onView t = Inl e \<Longrightarrow> HasCode e ''DDL-005'' \<or> HasCode e ''MAP-029''"
    and trigger_creates: "CreateTriggerSQL d relation onView t = Inr ss \<Longrightarrow> trg_Events t \<noteq> {} \<Longrightarrow> ss \<noteq> []"
    and trigger_drops: "DropTriggerSQL d relation name \<noteq> []"
begin

text \<open>
  The guard of a trigger step names the trigger and holds for exactly the live statements that are, normalized,
  the ones the create step sends, whatever their order.
\<close>

lemma guard_expects:
  assumes "triggerGuard d relation onView t origin = Inr g"
  shows "ms_GuardTrigger g = trg_Name t \<and> (\<exists>creates. CreateTriggerSQL d relation onView t = Inr creates \<and>
    (\<forall>live. TriggerStatementsMatch live (ms_Expected g) \<longleftrightarrow> mset (map NormalizeTriggerDDL live) = mset (map NormalizeTriggerDDL creates)))"
proof -
  obtain creates where c: "CreateTriggerSQL d relation onView t = Inr creates" and g: "ms_Expected g = sort (map NormalizeTriggerDDL creates)"
    "ms_GuardTrigger g = trg_Name t"
    using assms by (auto simp: triggerGuard_def bindR_Inr_iff Let_def)
  then show ?thesis
    using TriggerStatementsMatch_mset expected_matches by (simp only: simp_thms) blast
qed

text \<open>The statements that create the model's objects are those a snapshot of the model recreates them with.\<close>

lemma snapshot_ddl:
  assumes "keyed_map m"
  shows "CreateTableFromSchemaSQL d (FromMap m d) = CreateTableSQL d (natural_twin m) \<and>
    map (CreateIndexFromSchemaSQL d (RelationName m)) (ts_Indexes (FromMap m d)) = CreateIndexSQL d m"
  using assms table_ddl index_ddl by simp

end

section \<open>Columns and keys\<close>

text \<open>The three renderings of a column in the map and in the shape, and of the key, agree on a keyed map.\<close>

lemma column_agrees:
  assumes "keyed_map m" and "p \<in> set (Properties m)"
  shows "IsKey p \<and> IsGenerated p \<longleftrightarrow> Strategy m = KeyDatabaseGenerated \<and> IsKey p"
  using assms by (auto simp: keyed_map_def)

lemma FromMap_columns: "ts_Columns (FromMap m d) = map (\<lambda>p. \<lparr>tc_Name = ColumnName p, tc_StorageType = StorageType d m p,
    tc_Nullable = IsNullable p, tc_Key = IsKey p, tc_Generated = IsGenerated p\<rparr>) (Properties m)"
  by (simp add: FromMap_def)

lemma plain_keys:
  "keyed_map m \<Longrightarrow> filter (\<lambda>c. tc_Key c \<and> \<not> tc_Generated c) (ts_Columns (FromMap m d)) =
     (if Strategy m = KeyDatabaseGenerated then [] else filter tc_Key (ts_Columns (FromMap m d)))"
  by (auto simp: FromMap_columns keyed_map_def filter_empty_conv intro!: filter_cong)

lemma key_names: "map tc_Name (filter tc_Key (ts_Columns (FromMap m d))) = map ColumnName (KeyProperties m)"
  by (simp add: FromMap_columns KeyProperties_def filter_map comp_def)

lemma generated_key:
  "keyed_map m \<Longrightarrow> (\<exists>c \<in> set (ts_Columns (FromMap m d)). tc_Key c \<and> tc_Generated c) \<longleftrightarrow> Strategy m = KeyDatabaseGenerated"
  by (auto simp: FromMap_columns keyed_map_def KeyProperties_def filter_empty_conv)

lemma no_key: "keyed_map m \<Longrightarrow> Strategy m = KeyNone \<Longrightarrow> KeyProperties m = []"
  by (simp add: keyed_map_def)

lemma natural_twin_simps [simp]:
  "Properties (natural_twin m) = Properties m" "RelationName (natural_twin m) = RelationName m"
  "KeyProperties (natural_twin m) = KeyProperties m" "Indexes (natural_twin m) = Indexes m"
  "Strategy (natural_twin m) \<noteq> KeyClientGuid"
  "Strategy (natural_twin m) = KeyDatabaseGenerated \<longleftrightarrow> Strategy m = KeyDatabaseGenerated"
  by (simp_all add: natural_twin_def KeyProperties_def)

lemma columns_agree:
  assumes "keyed_map m"
    and "\<And>p. p \<in> set (Properties m) \<Longrightarrow> IsKey p \<and> IsGenerated p \<longleftrightarrow> Strategy (natural_twin m) = KeyDatabaseGenerated \<and> IsKey p \<Longrightarrow>
      g \<lparr>tc_Name = ColumnName p, tc_StorageType = StorageType d m p, tc_Nullable = IsNullable p, tc_Key = IsKey p, tc_Generated = IsGenerated p\<rparr> = f p"
  shows "map g (ts_Columns (FromMap m d)) = map f (Properties m)"
  using assms column_agrees [OF assms(1)] by (simp add: FromMap_columns)

lemma key_clause_agrees:
  assumes "keyed_map m"
  shows "(if map (\<lambda>c. q (tc_Name c)) (filter (\<lambda>c. tc_Key c \<and> \<not> tc_Generated c) (ts_Columns (FromMap m d))) \<noteq> [] \<and>
        \<not> (\<exists>c \<in> set (ts_Columns (FromMap m d)). tc_Key c \<and> tc_Generated c)
      then key_block (map (\<lambda>c. q (tc_Name c)) (filter (\<lambda>c. tc_Key c \<and> \<not> tc_Generated c) (ts_Columns (FromMap m d)))) else []) =
    (if Strategy (natural_twin m) = KeyNatural \<and> KeyProperties m \<noteq> [] then key_block (map (\<lambda>p. q (ColumnName p)) (KeyProperties m)) else [])"
proof -
  have "map q (map tc_Name (filter (\<lambda>c. tc_Key c \<and> \<not> tc_Generated c) (ts_Columns (FromMap m d)))) =
      (if Strategy m = KeyDatabaseGenerated then [] else map q (map ColumnName (KeyProperties m)))"
    using plain_keys [OF assms, of d] arg_cong [OF key_names [of m d], of "map q"] by simp
  then have keys: "map (\<lambda>c. q (tc_Name c)) (filter (\<lambda>c. tc_Key c \<and> \<not> tc_Generated c) (ts_Columns (FromMap m d))) =
      (if Strategy m = KeyDatabaseGenerated then [] else map (\<lambda>p. q (ColumnName p)) (KeyProperties m))"
    by (simp add: comp_def)
  show ?thesis
    unfolding keys generated_key [OF assms] using no_key [OF assms] by (cases "Strategy m") (simp_all add: natural_twin_def)
qed

end
