(* ===== verification/Sqlite_Dialect.thy ===== *)
theory Sqlite_Dialect
  imports Dialect_Contract
begin

text \<open>
  The SQLite dialect (\<open>sqlite/dialect.go\<close>, \<open>sqlite/trigger.go\<close>): its capabilities and the statements it renders.
  Opening connections and describing statements are the driver's.
\<close>

section \<open>Texts and capabilities\<close>

definition sqlite_QuoteIdentifier :: "string \<Rightarrow> string" where
  "sqlite_QuoteIdentifier identifier = identifier"

definition sqlite_LimitOffsetClause :: "string \<Rightarrow> string \<Rightarrow> string" where
  "sqlite_LimitOffsetClause limitParameter offsetParameter =
     (if limitParameter \<noteq> [] \<and> offsetParameter \<noteq> [] then ''limit '' @ limitParameter @ '' offset '' @ offsetParameter
      else if limitParameter \<noteq> [] then ''limit '' @ limitParameter
      else if offsetParameter \<noteq> [] then ''limit -1 offset '' @ offsetParameter
      else [])"

definition sqlite_ColumnsInfoSQL :: string where
  \<open>sqlite_ColumnsInfoSQL = text_lines
    [''select name, type, "notnull", pk,'',
     ''       case when pk = 1 and upper(type) = 'INTEGER'' @ quote,
     ''                 and (select count(*) from pragma_table_info(@relation) where pk > 0) = 1'',
     ''            then 1 else 0 end as generated'',
     ''from pragma_table_info(@relation)'']\<close>

definition sqlite_ViewDefinitionSQL :: string where
  "sqlite_ViewDefinitionSQL = ''select sql from sqlite_master where type = 'view' and name = @relation''"

definition sqlite_IndexesInfoSQL :: string where
  \<open>sqlite_IndexesInfoSQL = ''select il.name, il."unique", ii.seqno, ii.name, ii."desc" '' @
     ''from pragma_index_list(@relation) il, pragma_index_xinfo(il.name) ii '' @
     ''where il.origin = 'c' and ii.key = 1 order by il.name, ii.seqno''\<close>

definition sqlite_IsDeclaredTypeCompatible :: "string \<Rightarrow> string \<Rightarrow> bool" where
  "sqlite_IsDeclaredTypeCompatible declaredType columnType =
     (let declared = to_upper (TrimSpace declaredType)
      in if declared = [] \<or> declared = ''ANY'' then True
         else if columnType = ''enum_int'' then declared = ''INT'' \<or> declared = ''INTEGER''
         else if columnType = ''enum_text'' then declared = ''TEXT''
         else if declared = ''INT'' \<or> declared = ''INTEGER'' then IsInteger columnType \<or> columnType = ''bool''
         else if declared = ''REAL'' then columnType = ''double'' \<or> columnType = ''float''
         else if declared = ''BLOB'' then columnType = ''bytes'' \<or> columnType = ''guid''
         else if declared = ''TEXT'' then columnType = ''string'' \<or> columnType = ''decimal'' \<or> columnType = ''guid'' \<or> IsTemporal columnType
         else False)"

definition sqlite_VersionTableSQL :: string where
  "sqlite_VersionTableSQL = text_lines
    [''create table if not exists schema_version ('',
     ''    version      INTEGER NOT NULL,'',
     ''    object       TEXT NOT NULL,'',
     ''    description  TEXT NOT NULL,'',
     ''    checksum     TEXT NOT NULL,'',
     ''    applied_at   TEXT NOT NULL,'',
     ''    execution_ms INTEGER NOT NULL,'',
     ''    primary key (version, object)'',
     '') STRICT'']"

section \<open>Migration actions\<close>

definition sqlite_RenameTableSQL :: "string \<Rightarrow> string \<Rightarrow> string" where
  "sqlite_RenameTableSQL fromName toName = ''alter table '' @ fromName @ '' rename to '' @ toName"

definition sqlite_RenameColumnSQL :: "string \<Rightarrow> string \<Rightarrow> string \<Rightarrow> string" where
  "sqlite_RenameColumnSQL table fromName toName = ''alter table '' @ table @ '' rename column '' @ fromName @ '' to '' @ toName"

definition sqlite_AddColumnSQL :: "string \<Rightarrow> string \<Rightarrow> string \<Rightarrow> bool \<Rightarrow> string \<Rightarrow> string" where
  "sqlite_AddColumnSQL table column storageType nullable defaultSQL =
     ''alter table '' @ table @ '' add column '' @ column @ '' '' @ storageType @
     (if nullable then [] else '' not null'') @ (if defaultSQL = [] then [] else '' default '' @ defaultSQL)"

definition sqlite_DropColumnSQL :: "string \<Rightarrow> string \<Rightarrow> string" where
  "sqlite_DropColumnSQL table column = ''alter table '' @ table @ '' drop column '' @ column"

definition sqlite_DropTableSQL :: "string \<Rightarrow> string" where
  "sqlite_DropTableSQL table = ''drop table '' @ table"

definition sqlite_DropIndexSQL :: "string \<Rightarrow> string \<Rightarrow> string" where
  "sqlite_DropIndexSQL table index = ''drop index '' @ index"

section \<open>Objects from the metadata and from a shape\<close>

definition sqlite_StorageType :: "EntityMap \<Rightarrow> PropertyMap \<Rightarrow> string" where
  "sqlite_StorageType m property =
     (let t = ColumnType property
      in if t \<in> {''enum_int'', ''int16'', ''int32'', ''int64'', ''bool''} then ''INTEGER''
         else if t \<in> {''double'', ''float''} then ''REAL''
         else if t = ''bytes'' then ''BLOB''
         else ''TEXT'')"

definition sqlite_CreateViewSQL :: "EntityMap \<Rightarrow> string" where
  "sqlite_CreateViewSQL m = ''create view if not exists '' @ RelationName m @ '' as'' @ nl @ DefiningSQL m"

definition sqlite_CreateTableSQL :: "EntityMap \<Rightarrow> string" where
  "sqlite_CreateTableSQL m =
     ''create table if not exists '' @ RelationName m @ '' ('' @
     column_block (map (\<lambda>property. ColumnName property @ '' '' @
       (if Strategy m = KeyDatabaseGenerated \<and> IsKey property then ''INTEGER PRIMARY KEY''
        else sqlite_StorageType m property @ (if IsNullable property then [] else '' NOT NULL'') @
             (if Strategy m = KeyClientGuid \<and> IsKey property then '' PRIMARY KEY'' else []))) (Properties m)) @
     (if Strategy m = KeyNatural \<and> KeyProperties m \<noteq> [] then key_block (map ColumnName (KeyProperties m)) else []) @
     nl @ '') STRICT''"

definition sqlite_index_part :: "string \<Rightarrow> bool \<Rightarrow> string" where
  "sqlite_index_part column descending = column @ (if descending then '' desc'' else [])"

definition sqlite_CreateIndexSQL :: "EntityMap \<Rightarrow> string list" where
  "sqlite_CreateIndexSQL m =
     map (\<lambda>index. ''create '' @ (if ei_Unique index then ''unique '' else []) @ ''index if not exists '' @ ei_Name index @ '' on '' @
            RelationName m @ '' ('' @
            join '', '' (map (\<lambda>column. sqlite_index_part (ic_ColumnName column) (ic_Descending column)) (ei_Columns index)) @ '')'')
         (Indexes m)"

definition sqlite_CreateTableFromSchemaSQL :: "TableSchema \<Rightarrow> string" where
  "sqlite_CreateTableFromSchemaSQL schema =
     (let plainKeys = map tc_Name (filter (\<lambda>c. tc_Key c \<and> \<not> tc_Generated c) (ts_Columns schema));
          hasGeneratedKey = (\<exists>c \<in> set (ts_Columns schema). tc_Key c \<and> tc_Generated c)
      in ''create table if not exists '' @ ts_Name schema @ '' ('' @
         column_block (map (\<lambda>column. tc_Name column @ '' '' @
           (if tc_Key column \<and> tc_Generated column then ''INTEGER PRIMARY KEY''
            else tc_StorageType column @ (if tc_Nullable column then [] else '' NOT NULL''))) (ts_Columns schema)) @
         (if plainKeys \<noteq> [] \<and> \<not> hasGeneratedKey then key_block plainKeys else []) @
         nl @ '') STRICT'')"

definition sqlite_CreateIndexFromSchemaSQL :: "string \<Rightarrow> TableIndex \<Rightarrow> string" where
  "sqlite_CreateIndexFromSchemaSQL table index =
     ''create '' @ (if ti_Unique index then ''unique '' else []) @ ''index if not exists '' @ ti_Name index @ '' on '' @ table @ '' ('' @
     join '', '' (map (\<lambda>part. sqlite_index_part (ip_ColumnName part) (ip_Descending part)) (ti_Columns index)) @ '')''"

definition sqlite_CreateViewFromBodySQL :: "string \<Rightarrow> string \<Rightarrow> bool \<Rightarrow> string" where
  "sqlite_CreateViewFromBodySQL view body materialized = ''create view if not exists '' @ view @ '' as'' @ nl @ body"

definition sqlite_DropViewSQL :: "string \<Rightarrow> bool \<Rightarrow> string" where
  "sqlite_DropViewSQL view materialized = ''drop view if exists '' @ view"

section \<open>Rows\<close>

definition sqlite_keyPredicate :: "EntityMap \<Rightarrow> string" where
  "sqlite_keyPredicate m = join '' and '' (map (\<lambda>key. ColumnName key @ '' = @'' @ ColumnName key) (KeyProperties m))"

definition sqlite_version_check :: "PropertyMap option \<Rightarrow> string" where
  "sqlite_version_check version =
     (case version of None \<Rightarrow> [] | Some v \<Rightarrow> '' and '' @ ColumnName v @ '' = @'' @ ColumnName v)"

text \<open>A generated key that is not declared is an index out of range.\<close>

definition sqlite_InsertSQL :: "EntityMap \<Rightarrow> string res" where
  "sqlite_InsertSQL m =
     (let columns = map ColumnName (filter (\<lambda>p. \<not> IsGenerated p) (Properties m));
          sql = ''insert into '' @ RelationName m @ '' ('' @ join '', '' columns @ '') values ('' @ join '', '' (map (\<lambda>c. ''@'' @ c) columns) @ '')''
      in if Strategy m = KeyDatabaseGenerated
         then (case KeyProperties m of [] \<Rightarrow> Inl GoPanic | key # _ \<Rightarrow> Inr (sql @ '' returning '' @ ColumnName key))
         else Inr sql)"

definition sqlite_renderUpdate :: "EntityMap \<Rightarrow> PropertyMap list \<Rightarrow> string" where
  "sqlite_renderUpdate m set' =
     (let assignments = map (\<lambda>p. ColumnName p @ '' = @'' @ ColumnName p) set' @
            (case VersionProperty m of None \<Rightarrow> [] | Some v \<Rightarrow> [ColumnName v @ '' = '' @ ColumnName v @ '' + 1''])
      in ''update '' @ RelationName m @ '' set '' @ join '', '' assignments @ '' where '' @ sqlite_keyPredicate m @
         sqlite_version_check (VersionProperty m))"

definition sqlite_UpdateSQL :: "EntityMap \<Rightarrow> string" where
  "sqlite_UpdateSQL m = sqlite_renderUpdate m (filter (\<lambda>p. \<not> IsKey p \<and> \<not> IsVersion p \<and> \<not> IsGenerated p) (Properties m))"

definition sqlite_UpdateOnlySQL :: "EntityMap \<Rightarrow> PropertyMap list \<Rightarrow> string" where
  "sqlite_UpdateOnlySQL m properties = sqlite_renderUpdate m properties"

definition sqlite_DeleteSQL :: "EntityMap \<Rightarrow> bool \<Rightarrow> string" where
  "sqlite_DeleteSQL m checkVersion =
     ''delete from '' @ RelationName m @ '' where '' @ sqlite_keyPredicate m @
     (if checkVersion then sqlite_version_check (VersionProperty m) else [])"

section \<open>Triggers\<close>

definition sqliteNowExpansion :: string where
  "sqliteNowExpansion = ''strftime('%Y-%m-%dT%H:%M:%fZ', 'now')''"

definition sqlite_rowRelation :: "string \<Rightarrow> string list \<Rightarrow> string" where
  "sqlite_rowRelation row columns = ''(select '' @ join '', '' (map (\<lambda>column. row @ ''.'' @ column @ '' as '' @ column) columns) @ '')''"

definition expandSQLiteToken :: "TriggerToken \<Rightarrow> string" where
  "expandSQLiteToken token =
     (case tt_Kind token of
        TokenNew \<Rightarrow> sqlite_rowRelation ''new'' (tt_Columns token)
      | TokenOld \<Rightarrow> sqlite_rowRelation ''old'' (tt_Columns token)
      | TokenNow \<Rightarrow> sqliteNowExpansion)"

definition sqliteTimingWord :: "TriggerTiming \<Rightarrow> string" where
  "sqliteTimingWord timing = (if timing = TimingInsteadOf then ''instead of'' else Timing_Token timing)"

definition sqlite_trigger_name :: "string \<Rightarrow> TriggerEvent list \<Rightarrow> TriggerEvent \<Rightarrow> string" where
  "sqlite_trigger_name name events event = (if length events > 1 then name @ ''_'' @ Event_Token event else name)"

definition sqlite_CreateTriggerSQL :: "string \<Rightarrow> bool \<Rightarrow> TriggerDefinition \<Rightarrow> string list res" where
  "sqlite_CreateTriggerSQL relation onView trigger =
     (if trg_Timing trigger = TimingInsteadOf \<and> \<not> onView then Inl (OrmError ''DDL-005'' (trg_Name trigger))
      else bindR (RenderTriggerBody (trg_Name trigger) (trg_SQL trigger) expandSQLiteToken) (\<lambda>body.
        let events = Events_List (trg_Events trigger)
        in Inr (map (\<lambda>event.
             ''create trigger '' @ sqlite_QuoteIdentifier (sqlite_trigger_name (trg_Name trigger) events event) @ '' '' @
             sqliteTimingWord (trg_Timing trigger) @ '' '' @ Event_Token event @
             (if event = EventUpdate \<and> trg_UpdateOf trigger \<noteq> [] then '' of '' @ join '', '' (map sqlite_QuoteIdentifier (trg_UpdateOf trigger)) else []) @
             '' on '' @ sqlite_QuoteIdentifier relation @ '' for each row'' @ nl @ ''begin'' @ nl @ body @ nl @ ''end'') events)))"

definition sqlite_DropTriggerSQL :: "string \<Rightarrow> string \<Rightarrow> string list" where
  "sqlite_DropTriggerSQL relation name =
     (''drop trigger if exists '' @ sqlite_QuoteIdentifier name) #
     map (\<lambda>event. ''drop trigger if exists '' @ sqlite_QuoteIdentifier (name @ ''_'' @ Event_Token event)) [EventInsert, EventUpdate, EventDelete]"

definition sqlite_TriggerDefinitionSQL :: string where
  "sqlite_TriggerDefinitionSQL = text_lines
    [''select sql as definition from sqlite_master where type = 'trigger'' @ quote,
     ''and name in (@relation, @relation || '_insert', @relation || '_update', @relation || '_delete') order by name'']"

section \<open>The dialect\<close>

definition SqliteDialect :: Dialect where
  "SqliteDialect =
     \<lparr>DialectName = ''sqlite'', QuoteIdentifier = sqlite_QuoteIdentifier, CreateTableSQL = sqlite_CreateTableSQL,
      CreateIndexSQL = sqlite_CreateIndexSQL, CreateViewSQL = sqlite_CreateViewSQL,
      CreateIndexFromSchemaSQL = sqlite_CreateIndexFromSchemaSQL, CreateViewFromBodySQL = sqlite_CreateViewFromBodySQL,
      DropViewSQL = sqlite_DropViewSQL, ViewDefinitionIsVerbatim = True, SupportsMaterializedViews = False,
      StorageType = sqlite_StorageType, VersionTableSQL = sqlite_VersionTableSQL, RenameTableSQL = sqlite_RenameTableSQL,
      RenameColumnSQL = sqlite_RenameColumnSQL, AddColumnSQL = sqlite_AddColumnSQL, DropColumnSQL = sqlite_DropColumnSQL,
      DropTableSQL = sqlite_DropTableSQL, DropIndexSQL = sqlite_DropIndexSQL, CreateTriggerSQL = sqlite_CreateTriggerSQL,
      DropTriggerSQL = sqlite_DropTriggerSQL, CreateTableFromSchemaSQL = sqlite_CreateTableFromSchemaSQL,
      ColumnsInfoSQL = sqlite_ColumnsInfoSQL, ViewDefinitionSQL = sqlite_ViewDefinitionSQL,
      TriggerDefinitionSQL = sqlite_TriggerDefinitionSQL, IndexesInfoSQL = sqlite_IndexesInfoSQL,
      LimitOffsetClause = sqlite_LimitOffsetClause, PagingRequiresOrderBy = False, SupportsRowValueIn = True\<rparr>"

section \<open>The contract\<close>

lemma sqlite_table:
  assumes "keyed_map m"
  shows "sqlite_CreateTableFromSchemaSQL (FromMap m SqliteDialect) = sqlite_CreateTableSQL (natural_twin m)"
proof -
  have "map (\<lambda>column. tc_Name column @ '' '' @ (if tc_Key column \<and> tc_Generated column then ''INTEGER PRIMARY KEY''
        else tc_StorageType column @ (if tc_Nullable column then [] else '' NOT NULL''))) (ts_Columns (FromMap m SqliteDialect)) =
      map (\<lambda>p. ColumnName p @ '' '' @ (if Strategy (natural_twin m) = KeyDatabaseGenerated \<and> IsKey p then ''INTEGER PRIMARY KEY''
        else sqlite_StorageType (natural_twin m) p @ (if IsNullable p then [] else '' NOT NULL'') @
          (if Strategy (natural_twin m) = KeyClientGuid \<and> IsKey p then '' PRIMARY KEY'' else []))) (Properties m)"
    by (rule columns_agree [OF assms]) (simp add: SqliteDialect_def sqlite_StorageType_def)
  then show ?thesis
    using key_clause_agrees [OF assms, of "\<lambda>x. x" SqliteDialect]
    by (simp add: sqlite_CreateTableFromSchemaSQL_def sqlite_CreateTableSQL_def Let_def) (simp add: FromMap_def)
qed

lemma sqlite_trigger:
  "sqlite_CreateTriggerSQL relation onView t = Inl e \<Longrightarrow> HasCode e ''DDL-005'' \<or> HasCode e ''MAP-029''"
  "sqlite_CreateTriggerSQL relation onView t = Inr ss \<Longrightarrow> trg_Events t \<noteq> {} \<Longrightarrow> ss \<noteq> []"
  by (auto simp: sqlite_CreateTriggerSQL_def bindR_Inl_iff bindR_Inr_iff RenderTriggerBody_def Let_def Events_List_def filter_empty_conv
      split: if_splits)

interpretation sqlite: dialect_contract SqliteDialect
proof
  fix m :: EntityMap
  show "CreateIndexSQL SqliteDialect m = map (CreateIndexFromSchemaSQL SqliteDialect (RelationName m)) (ts_Indexes (FromMap m SqliteDialect))"
    by (simp add: SqliteDialect_def FromMap_def sqlite_CreateIndexSQL_def sqlite_CreateIndexFromSchemaSQL_def comp_def)
qed (use sqlite_table sqlite_trigger in \<open>auto simp: SqliteDialect_def sqlite_CreateViewSQL_def sqlite_CreateViewFromBodySQL_def sqlite_DropTriggerSQL_def\<close>)

text \<open>Whatever a declaration creates, its drop drops: the declared name for one event, the per-event names for several.\<close>

lemma sqlite_drop_covers:
  assumes "sqlite_CreateTriggerSQL relation onView t = Inr ss" and "s \<in> set ss"
  shows "\<exists>name rest. s = ''create trigger '' @ name @ '' '' @ rest \<and> (''drop trigger if exists '' @ name) \<in> set (sqlite_DropTriggerSQL relation (trg_Name t))"
proof -
  obtain event rest where s: "s = ''create trigger '' @ sqlite_trigger_name (trg_Name t) (Events_List (trg_Events t)) event @ '' '' @ rest"
    using assms by (auto simp: sqlite_CreateTriggerSQL_def bindR_Inr_iff sqlite_QuoteIdentifier_def Let_def split: if_splits)
  moreover have "(''drop trigger if exists '' @ sqlite_trigger_name (trg_Name t) (Events_List (trg_Events t)) event) \<in>
      set (sqlite_DropTriggerSQL relation (trg_Name t))"
    by (cases event) (simp_all add: sqlite_trigger_name_def sqlite_DropTriggerSQL_def sqlite_QuoteIdentifier_def)
  ultimately show ?thesis
    by blast
qed

end
