(* ===== verification/Postgres_Dialect.thy ===== *)
theory Postgres_Dialect
  imports Dialect_Contract
begin

text \<open>
  The PostgreSQL dialect (\<open>postgres/dialect.go\<close>, \<open>postgres/trigger.go\<close>): its capabilities and the statements it
  renders, every identifier quoted. Opening connections, the run lock and describing statements are the driver's.
\<close>

section \<open>Texts and capabilities\<close>

definition dquote :: char where
  "dquote = CHR 0x22"

definition pg_QuoteIdentifier :: "string \<Rightarrow> string" where
  "pg_QuoteIdentifier identifier = [dquote] @ double_char dquote identifier @ [dquote]"

definition pg_LimitOffsetClause :: "string \<Rightarrow> string \<Rightarrow> string" where
  "pg_LimitOffsetClause limitParameter offsetParameter =
     (if limitParameter \<noteq> [] \<and> offsetParameter \<noteq> [] then ''limit '' @ limitParameter @ '' offset '' @ offsetParameter
      else if limitParameter \<noteq> [] then ''limit '' @ limitParameter
      else if offsetParameter \<noteq> [] then ''offset '' @ offsetParameter
      else [])"

definition pg_IsMarkerlessTemporal :: "string \<Rightarrow> bool" where
  "pg_IsMarkerlessTemporal databaseTypeName \<longleftrightarrow>
     to_upper (TrimSpace databaseTypeName) \<in> {''TIMESTAMP'', ''TIMESTAMP WITHOUT TIME ZONE''}"

definition pg_ColumnsInfoSQL :: string where
  \<open>pg_ColumnsInfoSQL = text_lines
    [''select a.attname as name,'',
     ''       format_type(a.atttypid, a.atttypmod) as type,'',
     ''       (case when a.attnotnull then 1 else 0 end)::bigint as "notnull",'',
     ''       (case when exists ('',
     ''           select 1 from pg_index i'',
     ''           where i.indrelid = a.attrelid and i.indisprimary and a.attnum = any(i.indkey)'',
     ''       ) then 1 else 0 end)::bigint as pk,'',
     ''       (case when a.attidentity in ('a', 'd') then 1 else 0 end)::bigint as generated'',
     ''from pg_attribute a'',
     ''where a.attrelid = to_regclass(@relation) and a.attnum > 0 and not a.attisdropped'',
     ''order by a.attnum'']\<close>

definition pg_ViewDefinitionSQL :: string where
  \<open>pg_ViewDefinitionSQL = text_lines
    [''select pg_get_viewdef(c.oid, true) as definition from pg_class c'',
     ''where c.oid = to_regclass(@relation) and c.relkind in ('v', 'm')'']\<close>

definition pg_IndexesInfoSQL :: string where
  \<open>pg_IndexesInfoSQL = text_lines
    [''select ic.relname as index_name,'',
     ''       (case when i.indisunique then 1 else 0 end)::bigint as "unique",'',
     ''       k.n::bigint as seqno,'',
     ''       a.attname as "column",'',
     ''       (case when (i.indoption[k.n] & 1) <> 0 then 1 else 0 end)::bigint as "desc"'',
     ''from pg_index i'',
     ''join pg_class ic on ic.oid = i.indexrelid'',
     ''cross join lateral generate_series(0, i.indnkeyatts - 1) as k(n)'',
     ''join pg_attribute a on a.attrelid = i.indrelid and a.attnum = i.indkey[k.n]'',
     ''where i.indrelid = to_regclass(@relation)'',
     ''  and not i.indisprimary'',
     ''  and not exists (select 1 from pg_constraint con where con.conindid = i.indexrelid)'',
     ''order by ic.relname, k.n'']\<close>

text \<open>\<open>baseTypeName\<close>: everything in parentheses removed, at any depth, then the blanks collapsed.\<close>

fun drop_parenthesized :: "nat \<Rightarrow> string \<Rightarrow> string" where
  "drop_parenthesized depth [] = []"
| "drop_parenthesized depth (c # cs) =
     (if c = CHR ''('' then drop_parenthesized (Suc depth) cs
      else if c = CHR '')'' then drop_parenthesized (depth - 1) cs
      else if depth = 0 then c # drop_parenthesized depth cs
      else drop_parenthesized depth cs)"

definition pg_baseTypeName :: "string \<Rightarrow> string" where
  "pg_baseTypeName declaredType = collapse (drop_parenthesized 0 (to_lower (TrimSpace declaredType)))"

definition pg_IsDeclaredTypeCompatible :: "string \<Rightarrow> string \<Rightarrow> bool" where
  "pg_IsDeclaredTypeCompatible declaredType columnType =
     (let base = pg_baseTypeName declaredType
      in if base \<in> {''integer'', ''int4''} then columnType \<in> {''int32'', ''int64'', ''int16'', ''enum_int''}
         else if base \<in> {''bigint'', ''int8''} then columnType \<in> {''int64'', ''enum_int''}
         else if base \<in> {''smallint'', ''int2''} then columnType \<in> {''int16'', ''int32'', ''int64'', ''enum_int''}
         else if base \<in> {''boolean'', ''bool''} then columnType = ''bool''
         else if base \<in> {''numeric'', ''decimal'', ''money''} then columnType = ''decimal''
         else if base \<in> {''double precision'', ''float8''} then columnType = ''double''
         else if base \<in> {''real'', ''float4''} then columnType = ''float''
         else if base \<in> {''text'', ''character varying'', ''varchar'', ''character'', ''char''} then columnType \<in> {''string'', ''enum_text''}
         else if base = ''name'' then columnType = ''string''
         else if base = ''bytea'' then columnType = ''bytes''
         else if base = ''uuid'' then columnType = ''guid''
         else if base \<in> {''timestamp with time zone'', ''timestamptz''} then columnType \<in> {''datetime'', ''datetimeoffset''}
         else if base \<in> {''timestamp without time zone'', ''timestamp''} then columnType = ''datetime''
         else if base = ''date'' then columnType \<in> {''datetime'', ''date''}
         else if base \<in> {''time without time zone'', ''time''} then columnType = ''time''
         else False)"

definition pg_StorageType :: "EntityMap \<Rightarrow> PropertyMap \<Rightarrow> string" where
  "pg_StorageType m property =
     (let t = ColumnType property
      in if t = ''int16'' then ''smallint''
         else if t \<in> {''int32'', ''enum_int''} then ''integer''
         else if t = ''int64'' then ''bigint''
         else if t = ''bool'' then ''boolean''
         else if t = ''decimal'' then
           (if Precision property > 0 then ''numeric('' @ show_int (Precision property) @ '','' @ show_int (Scale property) @ '')'' else ''numeric'')
         else if t = ''double'' then ''double precision''
         else if t = ''float'' then ''real''
         else if t = ''guid'' then ''uuid''
         else if t = ''bytes'' then ''bytea''
         else if t \<in> {''datetime'', ''datetimeoffset''} then ''timestamp with time zone''
         else if t = ''date'' then ''date''
         else if t = ''time'' then ''time without time zone''
         else if t = ''string'' \<and> Length property > 0 then ''character varying('' @ show_int (Length property) @ '')''
         else ''text'')"

section \<open>Migration actions\<close>

definition pg_VersionTableSQL :: string where
  \<open>pg_VersionTableSQL = text_lines
    [''create table if not exists schema_version ('',
     ''    version      bigint not null,'',
     ''    object       text not null,'',
     ''    description  text not null,'',
     ''    checksum     text not null,'',
     ''    applied_at   text not null,'',
     ''    execution_ms bigint not null,'',
     ''    primary key (version, object)'',
     '')'']\<close>

definition pg_RenameTableSQL :: "string \<Rightarrow> string \<Rightarrow> string" where
  "pg_RenameTableSQL fromName toName = ''alter table '' @ pg_QuoteIdentifier fromName @ '' rename to '' @ pg_QuoteIdentifier toName"

definition pg_RenameColumnSQL :: "string \<Rightarrow> string \<Rightarrow> string \<Rightarrow> string" where
  "pg_RenameColumnSQL table fromName toName =
     ''alter table '' @ pg_QuoteIdentifier table @ '' rename column '' @ pg_QuoteIdentifier fromName @ '' to '' @ pg_QuoteIdentifier toName"

definition pg_AddColumnSQL :: "string \<Rightarrow> string \<Rightarrow> string \<Rightarrow> bool \<Rightarrow> string \<Rightarrow> string" where
  "pg_AddColumnSQL table column storageType nullable defaultSQL =
     ''alter table '' @ pg_QuoteIdentifier table @ '' add column '' @ pg_QuoteIdentifier column @ '' '' @ storageType @
     (if nullable then [] else '' not null'') @ (if defaultSQL = [] then [] else '' default '' @ defaultSQL)"

definition pg_DropColumnSQL :: "string \<Rightarrow> string \<Rightarrow> string" where
  "pg_DropColumnSQL table column = ''alter table '' @ pg_QuoteIdentifier table @ '' drop column '' @ pg_QuoteIdentifier column"

definition pg_DropTableSQL :: "string \<Rightarrow> string" where
  "pg_DropTableSQL table = ''drop table '' @ pg_QuoteIdentifier table"

definition pg_DropIndexSQL :: "string \<Rightarrow> string \<Rightarrow> string" where
  "pg_DropIndexSQL table index = ''drop index '' @ pg_QuoteIdentifier index"

section \<open>Objects from the metadata and from a shape\<close>

definition pg_CreateViewFromBodySQL :: "string \<Rightarrow> string \<Rightarrow> bool \<Rightarrow> string" where
  "pg_CreateViewFromBodySQL view body materialized =
     (if materialized then ''create materialized view if not exists '' @ pg_QuoteIdentifier view @ '' as'' @ nl @ body
      else ''create or replace view '' @ pg_QuoteIdentifier view @ '' as'' @ nl @ body)"

definition pg_CreateViewSQL :: "EntityMap \<Rightarrow> string" where
  "pg_CreateViewSQL m = pg_CreateViewFromBodySQL (RelationName m) (DefiningSQL m) (Kind m = RelationMaterializedView)"

definition pg_CreateTableSQL :: "EntityMap \<Rightarrow> string" where
  "pg_CreateTableSQL m =
     ''create table if not exists '' @ pg_QuoteIdentifier (RelationName m) @ '' ('' @
     column_block (map (\<lambda>property. pg_QuoteIdentifier (ColumnName property) @ '' '' @ pg_StorageType m property @
       (if Strategy m = KeyDatabaseGenerated \<and> IsKey property then '' generated by default as identity primary key''
        else (if IsNullable property then [] else '' not null'') @
             (if Strategy m = KeyClientGuid \<and> IsKey property then '' primary key'' else []))) (Properties m)) @
     (if Strategy m = KeyNatural \<and> KeyProperties m \<noteq> [] then key_block (map (\<lambda>p. pg_QuoteIdentifier (ColumnName p)) (KeyProperties m)) else []) @
     nl @ '')''"

definition pg_index_part :: "string \<Rightarrow> bool \<Rightarrow> string" where
  "pg_index_part column descending = pg_QuoteIdentifier column @ (if descending then '' desc'' else [])"

definition pg_CreateIndexSQL :: "EntityMap \<Rightarrow> string list" where
  "pg_CreateIndexSQL m =
     map (\<lambda>index. ''create '' @ (if ei_Unique index then ''unique '' else []) @ ''index if not exists '' @ pg_QuoteIdentifier (ei_Name index) @ '' on '' @
            pg_QuoteIdentifier (RelationName m) @ '' ('' @
            join '', '' (map (\<lambda>column. pg_index_part (ic_ColumnName column) (ic_Descending column)) (ei_Columns index)) @ '')'')
         (Indexes m)"

definition pg_CreateTableFromSchemaSQL :: "TableSchema \<Rightarrow> string" where
  "pg_CreateTableFromSchemaSQL schema =
     (let plainKeys = map (\<lambda>c. pg_QuoteIdentifier (tc_Name c)) (filter (\<lambda>c. tc_Key c \<and> \<not> tc_Generated c) (ts_Columns schema));
          hasGeneratedKey = (\<exists>c \<in> set (ts_Columns schema). tc_Key c \<and> tc_Generated c)
      in ''create table if not exists '' @ pg_QuoteIdentifier (ts_Name schema) @ '' ('' @
         column_block (map (\<lambda>column. pg_QuoteIdentifier (tc_Name column) @ '' '' @ tc_StorageType column @
           (if tc_Key column \<and> tc_Generated column then '' generated by default as identity primary key''
            else if tc_Nullable column then [] else '' not null'')) (ts_Columns schema)) @
         (if plainKeys \<noteq> [] \<and> \<not> hasGeneratedKey then key_block plainKeys else []) @
         nl @ '')'')"

definition pg_CreateIndexFromSchemaSQL :: "string \<Rightarrow> TableIndex \<Rightarrow> string" where
  "pg_CreateIndexFromSchemaSQL table index =
     ''create '' @ (if ti_Unique index then ''unique '' else []) @ ''index if not exists '' @ pg_QuoteIdentifier (ti_Name index) @ '' on '' @
     pg_QuoteIdentifier table @ '' ('' @
     join '', '' (map (\<lambda>part. pg_index_part (ip_ColumnName part) (ip_Descending part)) (ti_Columns index)) @ '')''"

definition pg_DropViewSQL :: "string \<Rightarrow> bool \<Rightarrow> string" where
  "pg_DropViewSQL view materialized =
     (if materialized then ''drop materialized view if exists '' @ pg_QuoteIdentifier view
      else ''drop view if exists '' @ pg_QuoteIdentifier view)"

section \<open>Rows\<close>

definition pg_keyPredicate :: "EntityMap \<Rightarrow> string" where
  "pg_keyPredicate m = join '' and '' (map (\<lambda>key. pg_QuoteIdentifier (ColumnName key) @ '' = @'' @ ColumnName key) (KeyProperties m))"

definition pg_version_check :: "PropertyMap option \<Rightarrow> string" where
  "pg_version_check version =
     (case version of None \<Rightarrow> [] | Some v \<Rightarrow> '' and '' @ pg_QuoteIdentifier (ColumnName v) @ '' = @'' @ ColumnName v)"

definition pg_InsertSQL :: "EntityMap \<Rightarrow> string res" where
  "pg_InsertSQL m =
     (let columns = map ColumnName (filter (\<lambda>p. \<not> IsGenerated p) (Properties m));
          sql = ''insert into '' @ pg_QuoteIdentifier (RelationName m) @ '' ('' @ join '', '' (map pg_QuoteIdentifier columns) @ '') values ('' @
            join '', '' (map (\<lambda>c. ''@'' @ c) columns) @ '')''
      in if Strategy m = KeyDatabaseGenerated
         then (case KeyProperties m of [] \<Rightarrow> Inl GoPanic | key # _ \<Rightarrow> Inr (sql @ '' returning '' @ pg_QuoteIdentifier (ColumnName key)))
         else Inr sql)"

definition pg_renderUpdate :: "EntityMap \<Rightarrow> PropertyMap list \<Rightarrow> string" where
  "pg_renderUpdate m set' =
     (let assignments = map (\<lambda>p. pg_QuoteIdentifier (ColumnName p) @ '' = @'' @ ColumnName p) set' @
            (case VersionProperty m of None \<Rightarrow> []
             | Some v \<Rightarrow> [pg_QuoteIdentifier (ColumnName v) @ '' = '' @ pg_QuoteIdentifier (ColumnName v) @ '' + 1''])
      in ''update '' @ pg_QuoteIdentifier (RelationName m) @ '' set '' @ join '', '' assignments @ '' where '' @ pg_keyPredicate m @
         pg_version_check (VersionProperty m))"

definition pg_UpdateSQL :: "EntityMap \<Rightarrow> string" where
  "pg_UpdateSQL m = pg_renderUpdate m (filter (\<lambda>p. \<not> IsKey p \<and> \<not> IsVersion p \<and> \<not> IsGenerated p) (Properties m))"

definition pg_UpdateOnlySQL :: "EntityMap \<Rightarrow> PropertyMap list \<Rightarrow> string" where
  "pg_UpdateOnlySQL m properties = pg_renderUpdate m properties"

definition pg_DeleteSQL :: "EntityMap \<Rightarrow> bool \<Rightarrow> string" where
  "pg_DeleteSQL m checkVersion =
     ''delete from '' @ pg_QuoteIdentifier (RelationName m) @ '' where '' @ pg_keyPredicate m @
     (if checkVersion then pg_version_check (VersionProperty m) else [])"

section \<open>Triggers\<close>

definition pgNowExpansion :: string where
  "pgNowExpansion = ''now()''"

definition pg_rowRelation :: "string \<Rightarrow> string list \<Rightarrow> string" where
  "pg_rowRelation row columns =
     ''(select '' @ join '', '' (map (\<lambda>column. row @ ''.'' @ pg_QuoteIdentifier column @ '' as '' @ pg_QuoteIdentifier column) columns) @ '')''"

definition pg_expandToken :: "TriggerToken \<Rightarrow> string" where
  "pg_expandToken token =
     (case tt_Kind token of
        TokenNew \<Rightarrow> pg_rowRelation ''new'' (tt_Columns token)
      | TokenOld \<Rightarrow> pg_rowRelation ''old'' (tt_Columns token)
      | TokenNow \<Rightarrow> pgNowExpansion)"

definition pg_trigger_function :: "string \<Rightarrow> string" where
  "pg_trigger_function name = pg_QuoteIdentifier (name @ ''_fn'')"

definition pg_trigger_tail :: "TriggerTiming \<Rightarrow> string" where
  "pg_trigger_tail timing =
     (if timing \<noteq> TimingAfter
      then nl @ ''    if tg_op = 'DELETE' then return old; end if;'' @ nl @ ''    return new;'' @ nl @ ''end'' @ nl
      else nl @ ''    return null;'' @ nl @ ''end'' @ nl)"

definition pg_CreateTriggerSQL :: "string \<Rightarrow> bool \<Rightarrow> TriggerDefinition \<Rightarrow> string list res" where
  "pg_CreateTriggerSQL relation onView trigger =
     (if trg_Timing trigger = TimingInsteadOf \<and> \<not> onView then Inl (OrmError ''DDL-005'' (trg_Name trigger))
      else bindR (RenderTriggerBody (trg_Name trigger) (trg_SQL trigger) pg_expandToken) (\<lambda>body.
        let events = map (\<lambda>event. Event_Token event @
              (if event = EventUpdate \<and> trg_UpdateOf trigger \<noteq> [] then '' of '' @ join '', '' (map pg_QuoteIdentifier (trg_UpdateOf trigger)) else []))
              (Events_List (trg_Events trigger));
            timing = (if trg_Timing trigger = TimingInsteadOf then ''instead of'' else Timing_Token (trg_Timing trigger))
        in Inr [''create or replace function '' @ pg_trigger_function (trg_Name trigger) @ ''() returns trigger language plpgsql as $$'' @ nl @
                  ''begin'' @ nl @ body @ pg_trigger_tail (trg_Timing trigger) @ ''$$'',
                ''create trigger '' @ pg_QuoteIdentifier (trg_Name trigger) @ '' '' @ timing @ '' '' @ join '' or '' events @
                  '' on '' @ pg_QuoteIdentifier relation @ '' for each row execute function '' @ pg_trigger_function (trg_Name trigger) @ ''()'']))"

definition pg_DropTriggerSQL :: "string \<Rightarrow> string \<Rightarrow> string list" where
  "pg_DropTriggerSQL relation name =
     [''drop trigger if exists '' @ pg_QuoteIdentifier name @ '' on '' @ pg_QuoteIdentifier relation,
      ''drop function if exists '' @ pg_trigger_function name @ ''()'']"

definition pg_TriggerDefinitionSQL :: string where
  \<open>pg_TriggerDefinitionSQL = text_lines
    [''select 'create or replace function "' || p.proname || '"() returns trigger language plpgsql as $$' || p.prosrc || '$$' as definition'',
     ''from pg_trigger t'',
     ''join pg_proc p on p.oid = t.tgfoid'',
     ''where t.tgname = @relation and not t.tgisinternal'',
     ''union all'',
     ''select 'create trigger "' || t.tgname || '" '' @ quote,
     ''    || case when (t.tgtype & 2) <> 0 then 'before' when (t.tgtype & 64) <> 0 then 'instead of' else 'after' end'',
     ''    || ' '' @ quote,
     ''    || array_to_string(array_remove(array['',
     ''           case when (t.tgtype & 4) <> 0 then 'insert' end,'',
     ''           case when (t.tgtype & 16) <> 0 then 'update' || coalesce(('',
     ''               select ' of ' || string_agg('"' || a.attname || '"', ', ' order by k.ord)'',
     ''               from unnest(t.tgattr::smallint[]) with ordinality as k(attnum, ord)'',
     ''               join pg_attribute a on a.attrelid = t.tgrelid and a.attnum = k.attnum), '' @ quote @ quote @ '') end,'',
     ''           case when (t.tgtype & 8) <> 0 then 'delete' end], null), ' or ')'',
     ''    || ' on "' || c.relname || '" for each row execute function "' || p.proname || '"()' as definition'',
     ''from pg_trigger t'',
     ''join pg_class c on c.oid = t.tgrelid'',
     ''join pg_proc p on p.oid = t.tgfoid'',
     ''where t.tgname = @relation and not t.tgisinternal'']\<close>

section \<open>The dialect\<close>

definition PostgresDialect :: Dialect where
  "PostgresDialect =
     \<lparr>DialectName = ''postgres'', QuoteIdentifier = pg_QuoteIdentifier, CreateTableSQL = pg_CreateTableSQL,
      CreateIndexSQL = pg_CreateIndexSQL, CreateViewSQL = pg_CreateViewSQL,
      CreateIndexFromSchemaSQL = pg_CreateIndexFromSchemaSQL, CreateViewFromBodySQL = pg_CreateViewFromBodySQL,
      DropViewSQL = pg_DropViewSQL, ViewDefinitionIsVerbatim = False, SupportsMaterializedViews = True,
      StorageType = pg_StorageType, VersionTableSQL = pg_VersionTableSQL, RenameTableSQL = pg_RenameTableSQL,
      RenameColumnSQL = pg_RenameColumnSQL, AddColumnSQL = pg_AddColumnSQL, DropColumnSQL = pg_DropColumnSQL,
      DropTableSQL = pg_DropTableSQL, DropIndexSQL = pg_DropIndexSQL, CreateTriggerSQL = pg_CreateTriggerSQL,
      DropTriggerSQL = pg_DropTriggerSQL, CreateTableFromSchemaSQL = pg_CreateTableFromSchemaSQL,
      ColumnsInfoSQL = pg_ColumnsInfoSQL, ViewDefinitionSQL = pg_ViewDefinitionSQL,
      TriggerDefinitionSQL = pg_TriggerDefinitionSQL, IndexesInfoSQL = pg_IndexesInfoSQL,
      LimitOffsetClause = pg_LimitOffsetClause, PagingRequiresOrderBy = False, SupportsRowValueIn = True\<rparr>"

section \<open>The contract\<close>

lemma pg_StorageType_twin: "pg_StorageType (natural_twin m) = pg_StorageType m"
  by (simp add: fun_eq_iff pg_StorageType_def)

lemma pg_table:
  assumes "keyed_map m"
  shows "pg_CreateTableFromSchemaSQL (FromMap m PostgresDialect) = pg_CreateTableSQL (natural_twin m)"
proof -
  have "map (\<lambda>column. pg_QuoteIdentifier (tc_Name column) @ '' '' @ tc_StorageType column @
        (if tc_Key column \<and> tc_Generated column then '' generated by default as identity primary key''
         else if tc_Nullable column then [] else '' not null'')) (ts_Columns (FromMap m PostgresDialect)) =
      map (\<lambda>p. pg_QuoteIdentifier (ColumnName p) @ '' '' @ pg_StorageType (natural_twin m) p @
        (if Strategy (natural_twin m) = KeyDatabaseGenerated \<and> IsKey p then '' generated by default as identity primary key''
         else (if IsNullable p then [] else '' not null'') @
              (if Strategy (natural_twin m) = KeyClientGuid \<and> IsKey p then '' primary key'' else []))) (Properties m)"
    by (rule columns_agree [OF assms]) (simp add: PostgresDialect_def pg_StorageType_twin)
  then show ?thesis
    using key_clause_agrees [OF assms, of pg_QuoteIdentifier PostgresDialect]
    by (simp add: pg_CreateTableFromSchemaSQL_def pg_CreateTableSQL_def Let_def) (simp add: FromMap_def)
qed

lemma pg_trigger:
  "pg_CreateTriggerSQL relation onView t = Inl e \<Longrightarrow> HasCode e ''DDL-005'' \<or> HasCode e ''MAP-029''"
  "pg_CreateTriggerSQL relation onView t = Inr ss \<Longrightarrow> ss \<noteq> []"
  by (auto simp: pg_CreateTriggerSQL_def bindR_Inl_iff bindR_Inr_iff RenderTriggerBody_def Let_def split: if_splits)

interpretation postgres: dialect_contract PostgresDialect
proof
  fix m :: EntityMap
  show "CreateIndexSQL PostgresDialect m = map (CreateIndexFromSchemaSQL PostgresDialect (RelationName m)) (ts_Indexes (FromMap m PostgresDialect))"
    by (simp add: PostgresDialect_def FromMap_def pg_CreateIndexSQL_def pg_CreateIndexFromSchemaSQL_def comp_def)
qed (use pg_table pg_trigger in \<open>auto simp: PostgresDialect_def pg_CreateViewSQL_def pg_DropTriggerSQL_def\<close>)

text \<open>A declaration creates its function and its trigger, and its drop drops both.\<close>

lemma pg_drop_covers:
  assumes "pg_CreateTriggerSQL relation onView t = Inr ss"
  shows "\<exists>body rest. ss = [''create or replace function '' @ pg_trigger_function (trg_Name t) @ ''()'' @ body,
      ''create trigger '' @ pg_QuoteIdentifier (trg_Name t) @ '' '' @ rest] \<and>
    pg_DropTriggerSQL relation (trg_Name t) = [''drop trigger if exists '' @ pg_QuoteIdentifier (trg_Name t) @ '' on '' @ pg_QuoteIdentifier relation,
      ''drop function if exists '' @ pg_trigger_function (trg_Name t) @ ''()'']"
  using assms by (auto simp: pg_CreateTriggerSQL_def pg_DropTriggerSQL_def bindR_Inr_iff Let_def split: if_splits)

end
