(* ===== verification/Sqlserver_Dialect.thy ===== *)
theory Sqlserver_Dialect
  imports Dialect_Contract
begin

text \<open>
  The SQL Server dialect (\<open>sqlserver/dialect.go\<close>, \<open>sqlserver/trigger.go\<close>): its capabilities and the statements it
  renders, identifiers bracketed, objects created under an existence guard. Opening connections, the run lock
  and describing statements are the driver's.
\<close>

section \<open>Texts and capabilities\<close>

definition ss_QuoteIdentifier :: "string \<Rightarrow> string" where
  "ss_QuoteIdentifier identifier = [CHR 0x5B] @ double_char (CHR 0x5D) identifier @ [CHR 0x5D]"

definition ss_LimitOffsetClause :: "string \<Rightarrow> string \<Rightarrow> string" where
  "ss_LimitOffsetClause limitParameter offsetParameter =
     (if limitParameter \<noteq> [] \<and> offsetParameter \<noteq> [] then ''offset '' @ offsetParameter @ '' rows fetch next '' @ limitParameter @ '' rows only''
      else if limitParameter \<noteq> [] then ''offset 0 rows fetch next '' @ limitParameter @ '' rows only''
      else if offsetParameter \<noteq> [] then ''offset '' @ offsetParameter @ '' rows''
      else [])"

definition ss_ColumnsInfoSQL :: string where
  \<open>ss_ColumnsInfoSQL = text_lines
    [''select c.name as [name],'',
     ''       case'',
     ''           when t.name in (N'decimal', N'numeric')'',
     ''               then t.name + N'(' + cast(c.precision as nvarchar(8)) + N',' + cast(c.scale as nvarchar(8)) + N')'' @ quote,
     ''           when t.name in (N'nvarchar', N'nchar')'',
     ''               then t.name + N'(' + case when c.max_length = -1 then N'max' else cast(c.max_length / 2 as nvarchar(8)) end + N')'' @ quote,
     ''           when t.name in (N'varchar', N'char', N'varbinary', N'binary')'',
     ''               then t.name + N'(' + case when c.max_length = -1 then N'max' else cast(c.max_length as nvarchar(8)) end + N')'' @ quote,
     ''           else t.name'',
     ''       end as [type],'',
     ''       cast(case when c.is_nullable = 1 then 0 else 1 end as bigint) as [notnull],'',
     ''       cast(isnull(pk.key_ordinal, 0) as bigint) as [pk],'',
     ''       cast(c.is_identity as bigint) as [generated]'',
     ''from sys.columns c'',
     ''join sys.types t on t.user_type_id = c.user_type_id'',
     ''left join ('',
     ''    select ic.object_id, ic.column_id, ic.key_ordinal'',
     ''    from sys.index_columns ic'',
     ''    join sys.indexes i on i.object_id = ic.object_id and i.index_id = ic.index_id'',
     ''    where i.is_primary_key = 1'',
     '') pk on pk.object_id = c.object_id and pk.column_id = c.column_id'',
     ''where c.object_id = object_id(@relation)'',
     ''order by c.column_id'']\<close>

definition ss_IndexesInfoSQL :: string where
  \<open>ss_IndexesInfoSQL = text_lines
    [''select i.name as [index_name], cast(i.is_unique as bigint) as [unique], cast(ic.key_ordinal - 1 as bigint) as [seqno],'',
     ''       c.name as [column], cast(ic.is_descending_key as bigint) as [desc]'',
     ''from sys.indexes i'',
     ''join sys.index_columns ic on ic.object_id = i.object_id and ic.index_id = i.index_id and ic.is_included_column = 0'',
     ''join sys.columns c on c.object_id = ic.object_id and c.column_id = ic.column_id'',
     ''where i.object_id = object_id(@relation) and i.type > 0 and i.is_primary_key = 0 and i.is_unique_constraint = 0'',
     ''order by i.name, ic.key_ordinal'']\<close>

definition ss_ViewDefinitionSQL :: string where
  \<open>ss_ViewDefinitionSQL = text_lines
    [''select m.definition as [definition] from sys.sql_modules m join sys.views v on v.object_id = m.object_id'',
     ''where v.object_id = object_id(@relation)'']\<close>

text \<open>\<open>baseTypeName\<close>: the text before the first parenthesis.\<close>

definition ss_baseTypeName :: "string \<Rightarrow> string" where
  "ss_baseTypeName declaredType =
     (let name = to_lower (TrimSpace declaredType)
      in if CHR ''('' \<in> set name then TrimSpace (takeWhile (\<lambda>c. c \<noteq> CHR ''('') name) else name)"

definition ss_IsDeclaredTypeCompatible :: "string \<Rightarrow> string \<Rightarrow> bool" where
  "ss_IsDeclaredTypeCompatible declaredType columnType =
     (let base = ss_baseTypeName declaredType
      in if base \<in> {''int'', ''tinyint''} then columnType \<in> {''int32'', ''int64'', ''int16'', ''enum_int''}
         else if base = ''bigint'' then columnType \<in> {''int64'', ''enum_int''}
         else if base = ''smallint'' then columnType \<in> {''int16'', ''int32'', ''int64'', ''enum_int''}
         else if base = ''bit'' then columnType = ''bool''
         else if base \<in> {''decimal'', ''numeric'', ''money'', ''smallmoney''} then columnType = ''decimal''
         else if base = ''float'' then columnType = ''double''
         else if base = ''real'' then columnType = ''float''
         else if base \<in> {''nvarchar'', ''varchar'', ''nchar'', ''char''} then columnType \<in> {''string'', ''enum_text''}
         else if base \<in> {''ntext'', ''text''} then columnType = ''string''
         else if base \<in> {''varbinary'', ''binary'', ''image''} then columnType = ''bytes''
         else if base = ''uniqueidentifier'' then columnType = ''guid''
         else if base \<in> {''datetime'', ''datetime2'', ''smalldatetime''} then columnType = ''datetime''
         else if base = ''datetimeoffset'' then columnType \<in> {''datetime'', ''datetimeoffset''}
         else if base = ''date'' then columnType \<in> {''datetime'', ''date''}
         else if base = ''time'' then columnType = ''time''
         else False)"

definition ss_IsMarkerlessTemporal :: "string \<Rightarrow> bool" where
  "ss_IsMarkerlessTemporal databaseTypeName \<longleftrightarrow>
     to_upper (TrimSpace databaseTypeName) \<in> {''DATETIME'', ''DATETIME2'', ''SMALLDATETIME''}"

definition isIndexable :: "EntityMap \<Rightarrow> PropertyMap \<Rightarrow> bool" where
  "isIndexable m property \<longleftrightarrow>
     IsKey property \<or> (\<exists>index \<in> set (Indexes m). \<exists>column \<in> set (ei_Columns index). ic_ColumnName column = ColumnName property)"

definition sizedType :: "string \<Rightarrow> PropertyMap \<Rightarrow> bool \<Rightarrow> string" where
  "sizedType name property indexable =
     (if Length property > 0 then name @ ''('' @ show_int (Length property) @ '')''
      else if indexable then name @ ''(450)''
      else name @ ''(max)'')"

definition ss_StorageType :: "EntityMap \<Rightarrow> PropertyMap \<Rightarrow> string" where
  "ss_StorageType m property =
     (let t = ColumnType property
      in if t = ''int16'' then ''smallint''
         else if t \<in> {''int32'', ''enum_int''} then ''int''
         else if t = ''int64'' then ''bigint''
         else if t = ''bool'' then ''bit''
         else if t = ''decimal'' then
           (if Precision property > 0 then ''decimal('' @ show_int (Precision property) @ '','' @ show_int (Scale property) @ '')'' else ''decimal(38,9)'')
         else if t = ''double'' then ''float''
         else if t = ''float'' then ''real''
         else if t = ''guid'' then ''uniqueidentifier''
         else if t = ''bytes'' then sizedType ''varbinary'' property (isIndexable m property)
         else if t \<in> {''datetime'', ''datetimeoffset''} then ''datetimeoffset''
         else if t = ''date'' then ''date''
         else if t = ''time'' then ''time''
         else if t = ''enum_text'' then ''nvarchar(100)''
         else sizedType ''nvarchar'' property (isIndexable m property))"

section \<open>Migration actions\<close>

definition ss_VersionTableSQL :: string where
  \<open>ss_VersionTableSQL = text_lines
    [''if object_id(N'schema_version', N'U') is null'',
     ''create table schema_version ('',
     ''    version      bigint        not null,'',
     ''    object       nvarchar(200) not null,'',
     ''    description  nvarchar(400) not null,'',
     ''    checksum     nvarchar(64)  not null,'',
     ''    applied_at   nvarchar(40)  not null,'',
     ''    execution_ms bigint        not null,'',
     ''    primary key (version, object)'',
     '')'']\<close>

definition nLiteral :: "string \<Rightarrow> string" where
  "nLiteral s = ''N'' @ quote @ double_char (CHR 0x27) s @ quote"

definition ss_RenameTableSQL :: "string \<Rightarrow> string \<Rightarrow> string" where
  "ss_RenameTableSQL fromName toName = ''exec sp_rename '' @ nLiteral fromName @ '', '' @ nLiteral toName"

definition ss_RenameColumnSQL :: "string \<Rightarrow> string \<Rightarrow> string \<Rightarrow> string" where
  "ss_RenameColumnSQL table fromName toName =
     ''exec sp_rename '' @ nLiteral (table @ ''.'' @ fromName) @ '', '' @ nLiteral toName @ '', 'COLUMN'' @ quote"

definition ss_AddColumnSQL :: "string \<Rightarrow> string \<Rightarrow> string \<Rightarrow> bool \<Rightarrow> string \<Rightarrow> string" where
  "ss_AddColumnSQL table column storageType nullable defaultSQL =
     ''alter table '' @ ss_QuoteIdentifier table @ '' add '' @ ss_QuoteIdentifier column @ '' '' @ storageType @
     (if nullable then [] else '' not null'') @ (if defaultSQL = [] then [] else '' default '' @ defaultSQL)"

definition ss_DropColumnSQL :: "string \<Rightarrow> string \<Rightarrow> string" where
  "ss_DropColumnSQL table column =
     ''declare @df sysname = (select dc.name from sys.default_constraints dc '' @
     ''join sys.columns c on c.object_id = dc.parent_object_id and c.column_id = dc.parent_column_id '' @
     ''where dc.parent_object_id = object_id('' @ nLiteral table @ '') and c.name = '' @ nLiteral column @ ''); '' @
     ''if @df is not null exec(N'alter table '' @ double_char (CHR 0x27) (ss_QuoteIdentifier table) @ '' drop constraint ' + quotename(@df)); '' @
     ''alter table '' @ ss_QuoteIdentifier table @ '' drop column '' @ ss_QuoteIdentifier column"

definition ss_DropTableSQL :: "string \<Rightarrow> string" where
  "ss_DropTableSQL table = ''drop table '' @ ss_QuoteIdentifier table"

definition ss_DropIndexSQL :: "string \<Rightarrow> string \<Rightarrow> string" where
  "ss_DropIndexSQL table index = ''drop index '' @ ss_QuoteIdentifier index @ '' on '' @ ss_QuoteIdentifier table"

section \<open>Objects from the metadata and from a shape\<close>

definition ss_CreateViewSQL :: "EntityMap \<Rightarrow> string" where
  "ss_CreateViewSQL m = ''create or alter view '' @ ss_QuoteIdentifier (RelationName m) @ '' as'' @ nl @ DefiningSQL m"

definition ss_CreateTableSQL :: "EntityMap \<Rightarrow> string" where
  "ss_CreateTableSQL m =
     ''if object_id('' @ nLiteral (RelationName m) @ '', N'U') is null'' @ nl @
     ''create table '' @ ss_QuoteIdentifier (RelationName m) @ '' ('' @
     column_block (map (\<lambda>property. ss_QuoteIdentifier (ColumnName property) @ '' '' @ ss_StorageType m property @
       (if Strategy m = KeyDatabaseGenerated \<and> IsKey property then '' identity(1,1) primary key''
        else (if IsNullable property then [] else '' not null'') @
             (if Strategy m = KeyClientGuid \<and> IsKey property then '' primary key'' else []))) (Properties m)) @
     (if Strategy m = KeyNatural \<and> KeyProperties m \<noteq> [] then key_block (map (\<lambda>p. ss_QuoteIdentifier (ColumnName p)) (KeyProperties m)) else []) @
     nl @ '')''"

definition ss_index_part :: "string \<Rightarrow> bool \<Rightarrow> string" where
  "ss_index_part column descending = ss_QuoteIdentifier column @ (if descending then '' desc'' else [])"

definition ss_index_guard :: "string \<Rightarrow> string \<Rightarrow> string" where
  "ss_index_guard index table =
     ''if not exists (select 1 from sys.indexes where name = '' @ nLiteral index @ '' and object_id = object_id('' @ nLiteral table @ ''))'' @ nl"

definition ss_CreateIndexSQL :: "EntityMap \<Rightarrow> string list" where
  "ss_CreateIndexSQL m =
     map (\<lambda>index. ss_index_guard (ei_Name index) (RelationName m) @
            ''create '' @ (if ei_Unique index then ''unique '' else []) @ ''index '' @ ss_QuoteIdentifier (ei_Name index) @ '' on '' @
            ss_QuoteIdentifier (RelationName m) @ '' ('' @
            join '', '' (map (\<lambda>column. ss_index_part (ic_ColumnName column) (ic_Descending column)) (ei_Columns index)) @ '')'')
         (Indexes m)"

definition ss_CreateTableFromSchemaSQL :: "TableSchema \<Rightarrow> string" where
  "ss_CreateTableFromSchemaSQL schema =
     (let plainKeys = map (\<lambda>c. ss_QuoteIdentifier (tc_Name c)) (filter (\<lambda>c. tc_Key c \<and> \<not> tc_Generated c) (ts_Columns schema));
          hasGeneratedKey = (\<exists>c \<in> set (ts_Columns schema). tc_Key c \<and> tc_Generated c)
      in ''if object_id('' @ nLiteral (ts_Name schema) @ '', N'U') is null'' @ nl @
         ''create table '' @ ss_QuoteIdentifier (ts_Name schema) @ '' ('' @
         column_block (map (\<lambda>column. ss_QuoteIdentifier (tc_Name column) @ '' '' @ tc_StorageType column @
           (if tc_Key column \<and> tc_Generated column then '' identity(1,1) primary key''
            else if tc_Nullable column then [] else '' not null'')) (ts_Columns schema)) @
         (if plainKeys \<noteq> [] \<and> \<not> hasGeneratedKey then key_block plainKeys else []) @
         nl @ '')'')"

definition ss_CreateIndexFromSchemaSQL :: "string \<Rightarrow> TableIndex \<Rightarrow> string" where
  "ss_CreateIndexFromSchemaSQL table index =
     ss_index_guard (ti_Name index) table @
     ''create '' @ (if ti_Unique index then ''unique '' else []) @ ''index '' @ ss_QuoteIdentifier (ti_Name index) @ '' on '' @
     ss_QuoteIdentifier table @ '' ('' @
     join '', '' (map (\<lambda>part. ss_index_part (ip_ColumnName part) (ip_Descending part)) (ti_Columns index)) @ '')''"

definition ss_CreateViewFromBodySQL :: "string \<Rightarrow> string \<Rightarrow> bool \<Rightarrow> string" where
  "ss_CreateViewFromBodySQL view body materialized = ''create or alter view '' @ ss_QuoteIdentifier view @ '' as'' @ nl @ body"

definition ss_DropViewSQL :: "string \<Rightarrow> bool \<Rightarrow> string" where
  "ss_DropViewSQL view materialized = ''drop view if exists '' @ ss_QuoteIdentifier view"

section \<open>Rows\<close>

definition ss_keyPredicate :: "EntityMap \<Rightarrow> string" where
  "ss_keyPredicate m = join '' and '' (map (\<lambda>key. ss_QuoteIdentifier (ColumnName key) @ '' = @'' @ ColumnName key) (KeyProperties m))"

definition ss_version_check :: "PropertyMap option \<Rightarrow> string" where
  "ss_version_check version =
     (case version of None \<Rightarrow> [] | Some v \<Rightarrow> '' and '' @ ss_QuoteIdentifier (ColumnName v) @ '' = @'' @ ColumnName v)"

definition ss_InsertSQL :: "EntityMap \<Rightarrow> string" where
  "ss_InsertSQL m =
     (let columns = map ColumnName (filter (\<lambda>p. \<not> IsGenerated p) (Properties m))
      in ''insert into '' @ ss_QuoteIdentifier (RelationName m) @ '' ('' @ join '', '' (map ss_QuoteIdentifier columns) @ '') values ('' @
         join '', '' (map (\<lambda>c. ''@'' @ c) columns) @ '')'' @
         (if Strategy m = KeyDatabaseGenerated then ''; select cast(scope_identity() as bigint)'' else []))"

definition reportingCount :: "string \<Rightarrow> string" where
  "reportingCount statement = ''set nocount on; '' @ statement @ ''; select @@rowcount; set nocount off''"

definition ss_renderUpdate :: "EntityMap \<Rightarrow> PropertyMap list \<Rightarrow> string" where
  "ss_renderUpdate m set' =
     (let assignments = map (\<lambda>p. ss_QuoteIdentifier (ColumnName p) @ '' = @'' @ ColumnName p) set' @
            (case VersionProperty m of None \<Rightarrow> []
             | Some v \<Rightarrow> [ss_QuoteIdentifier (ColumnName v) @ '' = '' @ ss_QuoteIdentifier (ColumnName v) @ '' + 1''])
      in ''update '' @ ss_QuoteIdentifier (RelationName m) @ '' set '' @ join '', '' assignments @ '' where '' @ ss_keyPredicate m @
         ss_version_check (VersionProperty m))"

definition ss_UpdateSQL :: "EntityMap \<Rightarrow> string" where
  "ss_UpdateSQL m = reportingCount (ss_renderUpdate m (filter (\<lambda>p. \<not> IsKey p \<and> \<not> IsVersion p \<and> \<not> IsGenerated p) (Properties m)))"

definition ss_UpdateOnlySQL :: "EntityMap \<Rightarrow> PropertyMap list \<Rightarrow> string" where
  "ss_UpdateOnlySQL m properties = reportingCount (ss_renderUpdate m properties)"

definition ss_DeleteSQL :: "EntityMap \<Rightarrow> bool \<Rightarrow> string" where
  "ss_DeleteSQL m checkVersion =
     reportingCount (''delete from '' @ ss_QuoteIdentifier (RelationName m) @ '' where '' @ ss_keyPredicate m @
       (if checkVersion then ss_version_check (VersionProperty m) else []))"

section \<open>Triggers\<close>

definition ss_expandToken :: "TriggerToken \<Rightarrow> string" where
  "ss_expandToken token =
     (case tt_Kind token of
        TokenNew \<Rightarrow> ''inserted''
      | TokenOld \<Rightarrow> ''deleted''
      | TokenNow \<Rightarrow> ''todatetimeoffset(sysutcdatetime(), 0)'')"

text \<open>The narrowing to columns: on a delete no column is updated, so a delete trigger applies it only when rows came in.\<close>

definition ss_prologue :: "TriggerDefinition \<Rightarrow> string" where
  "ss_prologue trigger =
     (if trg_UpdateOf trigger = [] then []
      else ''    if '' @ (if EventDelete \<in> trg_Events trigger then ''exists (select 1 from inserted) and '' else []) @
           ''not ('' @ join '' or '' (map (\<lambda>column. ''update('' @ ss_QuoteIdentifier column @ '')'') (trg_UpdateOf trigger)) @ '') return;'' @ nl)"

definition ss_CreateTriggerSQL :: "string \<Rightarrow> bool \<Rightarrow> TriggerDefinition \<Rightarrow> string list res" where
  "ss_CreateTriggerSQL relation onView trigger =
     (if trg_Timing trigger = TimingBefore then Inl (OrmError ''DDL-005'' (trg_Name trigger))
      else bindR (RenderTriggerBody (trg_Name trigger) (trg_SQL trigger) ss_expandToken) (\<lambda>body.
        Inr [''create trigger '' @ ss_QuoteIdentifier (trg_Name trigger) @ '' on '' @ ss_QuoteIdentifier relation @ '' '' @
             (if trg_Timing trigger = TimingInsteadOf then ''instead of'' else ''after'') @ '' '' @
             join '', '' (Events_Tokens (trg_Events trigger)) @ '' as'' @ nl @ ''begin'' @ nl @ ''    set nocount on;'' @ nl @
             ss_prologue trigger @ body @ nl @ ''end'']))"

definition ss_DropTriggerSQL :: "string \<Rightarrow> string \<Rightarrow> string list" where
  "ss_DropTriggerSQL relation name =
     [''if object_id('' @ nLiteral name @ '', N'TR') is not null drop trigger '' @ ss_QuoteIdentifier name]"

definition ss_TriggerDefinitionSQL :: string where
  \<open>ss_TriggerDefinitionSQL = text_lines
    [''select m.definition as [definition] from sys.sql_modules m join sys.triggers t on t.object_id = m.object_id'',
     ''where t.object_id = object_id(@relation)'']\<close>

section \<open>The dialect\<close>

definition SqlserverDialect :: Dialect where
  "SqlserverDialect =
     \<lparr>DialectName = ''sqlserver'', QuoteIdentifier = ss_QuoteIdentifier, CreateTableSQL = ss_CreateTableSQL,
      CreateIndexSQL = ss_CreateIndexSQL, CreateViewSQL = ss_CreateViewSQL,
      CreateIndexFromSchemaSQL = ss_CreateIndexFromSchemaSQL, CreateViewFromBodySQL = ss_CreateViewFromBodySQL,
      DropViewSQL = ss_DropViewSQL, ViewDefinitionIsVerbatim = True, SupportsMaterializedViews = False,
      StorageType = ss_StorageType, VersionTableSQL = ss_VersionTableSQL, RenameTableSQL = ss_RenameTableSQL,
      RenameColumnSQL = ss_RenameColumnSQL, AddColumnSQL = ss_AddColumnSQL, DropColumnSQL = ss_DropColumnSQL,
      DropTableSQL = ss_DropTableSQL, DropIndexSQL = ss_DropIndexSQL, CreateTriggerSQL = ss_CreateTriggerSQL,
      DropTriggerSQL = ss_DropTriggerSQL, CreateTableFromSchemaSQL = ss_CreateTableFromSchemaSQL,
      ColumnsInfoSQL = ss_ColumnsInfoSQL, ViewDefinitionSQL = ss_ViewDefinitionSQL,
      TriggerDefinitionSQL = ss_TriggerDefinitionSQL, IndexesInfoSQL = ss_IndexesInfoSQL,
      LimitOffsetClause = ss_LimitOffsetClause, PagingRequiresOrderBy = True, SupportsRowValueIn = False\<rparr>"

section \<open>The contract\<close>

lemma ss_StorageType_twin: "ss_StorageType (natural_twin m) = ss_StorageType m"
proof -
  have "isIndexable (natural_twin m) p = isIndexable m p" for p
    by (simp add: isIndexable_def)
  then show ?thesis
    by (simp only: fun_eq_iff ss_StorageType_def simp_thms)
qed

lemma ss_table:
  assumes "keyed_map m"
  shows "ss_CreateTableFromSchemaSQL (FromMap m SqlserverDialect) = ss_CreateTableSQL (natural_twin m)"
proof -
  have "map (\<lambda>column. ss_QuoteIdentifier (tc_Name column) @ '' '' @ tc_StorageType column @
        (if tc_Key column \<and> tc_Generated column then '' identity(1,1) primary key''
         else if tc_Nullable column then [] else '' not null'')) (ts_Columns (FromMap m SqlserverDialect)) =
      map (\<lambda>p. ss_QuoteIdentifier (ColumnName p) @ '' '' @ ss_StorageType (natural_twin m) p @
        (if Strategy (natural_twin m) = KeyDatabaseGenerated \<and> IsKey p then '' identity(1,1) primary key''
         else (if IsNullable p then [] else '' not null'') @
              (if Strategy (natural_twin m) = KeyClientGuid \<and> IsKey p then '' primary key'' else []))) (Properties m)"
    by (rule columns_agree [OF assms]) (simp add: SqlserverDialect_def ss_StorageType_twin)
  then show ?thesis
    using key_clause_agrees [OF assms, of ss_QuoteIdentifier SqlserverDialect]
    by (simp add: ss_CreateTableFromSchemaSQL_def ss_CreateTableSQL_def Let_def) (simp add: FromMap_def)
qed

lemma ss_trigger:
  "ss_CreateTriggerSQL relation onView t = Inl e \<Longrightarrow> HasCode e ''DDL-005'' \<or> HasCode e ''MAP-029''"
  "ss_CreateTriggerSQL relation onView t = Inr ss \<Longrightarrow> ss \<noteq> []"
  by (auto simp: ss_CreateTriggerSQL_def bindR_Inl_iff bindR_Inr_iff RenderTriggerBody_def Let_def split: if_splits)

interpretation sqlserver: dialect_contract SqlserverDialect
proof
  fix m :: EntityMap
  show "CreateIndexSQL SqlserverDialect m = map (CreateIndexFromSchemaSQL SqlserverDialect (RelationName m)) (ts_Indexes (FromMap m SqlserverDialect))"
    by (simp add: SqlserverDialect_def FromMap_def ss_CreateIndexSQL_def ss_CreateIndexFromSchemaSQL_def comp_def)
qed (use ss_table ss_trigger in \<open>auto simp: SqlserverDialect_def ss_CreateViewSQL_def ss_CreateViewFromBodySQL_def ss_DropTriggerSQL_def\<close>)

text \<open>The one trigger a declaration creates is the one its drop drops.\<close>

lemma ss_drop_covers:
  assumes "ss_CreateTriggerSQL relation onView t = Inr ss"
  shows "\<exists>rest. ss = [''create trigger '' @ ss_QuoteIdentifier (trg_Name t) @ '' on '' @ ss_QuoteIdentifier relation @ '' '' @ rest] \<and>
    ss_DropTriggerSQL relation (trg_Name t) =
      [''if object_id('' @ nLiteral (trg_Name t) @ '', N'TR') is not null drop trigger '' @ ss_QuoteIdentifier (trg_Name t)]"
  using assms by (auto simp: ss_CreateTriggerSQL_def ss_DropTriggerSQL_def bindR_Inr_iff Let_def split: if_splits)

end
