(* ===== verification/Trigger_Body.thy ===== *)
theory Trigger_Body
  imports Trigger_Text
begin

text \<open>
  The normalized body of a trigger keeps its meaning: every dialect renders it to what it renders the collapsed
  body to, and normalizing again changes nothing. The scanner's positions are abstracted to a recursion over
  the text.
\<close>

section \<open>Expansion as a recursion over the text\<close>

function expand_text :: "(TriggerTokenKind \<Rightarrow> string list \<Rightarrow> string) \<Rightarrow> string \<Rightarrow> string" where
  "expand_text f [] = []"
| "expand_text f (c # cs) =
     (if c = CHR 0x27 then c # take (skip_literal cs) cs @ expand_text f (drop (skip_literal cs) cs)
      else if c = CHR ''{'' \<and> find is_brace cs = Some (CHR ''}'') then
        (let inner = takeWhile (\<lambda>x. \<not> is_brace x) cs
         in (case parseTriggerToken inner of
               Inr problem \<Rightarrow> ''{'' @ inner @ ''}''
             | Inl (kind, columns) \<Rightarrow> f kind columns) @ expand_text f (drop (Suc (length inner)) cs))
      else c # expand_text f cs)"
  by pat_completeness auto
termination
  by (relation "measure (length \<circ> snd)") (auto simp: less_Suc_eq_le)

declare expand_text.simps [simp del]

lemma expand_text_Nil [simp]: "expand_text f [] = []"
  by (simp add: expand_text.simps)

lemma find_split: "find P xs = (case dropWhile (\<lambda>x. \<not> P x) xs of [] \<Rightarrow> None | y # ys \<Rightarrow> Some y)"
  by (induction xs) auto

lemma find_split_Some: "find P xs = Some y \<Longrightarrow> xs = takeWhile (\<lambda>x. \<not> P x) xs @ y # drop (Suc (length (takeWhile (\<lambda>x. \<not> P x) xs))) xs"
  by (induction xs) (auto split: if_splits)

lemma find_append': "find P (xs @ ys) = (case find P xs of None \<Rightarrow> find P ys | Some x \<Rightarrow> Some x)"
  by (induction xs) auto

lemma find_brace: "find is_brace s = Some c \<Longrightarrow> c = CHR ''{'' \<or> c = CHR ''}''"
  by (auto simp: find_Some_iff is_brace_def)

lemma scan_expand:
  assumes "last' \<le> i" and "length pre = i" and "body = pre @ s"
  shows "expand_from (\<lambda>t. f (tt_Kind t) (tt_Columns t)) body last' (fst (scan_tokens i s lineComment)) = drop last' pre @ expand_text f s"
  using assms
proof (induction i s lineComment arbitrary: last' pre rule: scan_tokens.induct)
  case (1 i lineComment)
  then show ?case
    by (simp add: scan_tokens.simps)
next
  case (2 i c cs lineComment)
  let ?k = "skip_literal cs" and ?inner = "takeWhile (\<lambda>x. \<not> is_brace x) cs"
    and ?rest = "dropWhile (\<lambda>x. \<not> is_brace x) cs"
  let ?go = "\<lambda>l toks. expand_from (\<lambda>t. f (tt_Kind t) (tt_Columns t)) body l toks"
  note len = "2.prems"(1,2) and body = "2.prems"(3)
  consider (literal) "c = CHR 0x27" | (dash) "c \<noteq> CHR 0x27" "c = CHR ''-'' \<and> cs \<noteq> [] \<and> hd cs = CHR ''-''"
    | (token) "c = CHR ''{''" "find is_brace cs = Some (CHR ''}'')"
    | (lone) "c = CHR ''{''" "find is_brace cs \<noteq> Some (CHR ''}'')"
    | (char) "c \<noteq> CHR 0x27" "\<not> (c = CHR ''-'' \<and> cs \<noteq> [] \<and> hd cs = CHR ''-'')" "c \<noteq> CHR ''{''"
    by blast
  then show ?case
  proof cases
    case literal
    have "?go last' (fst (scan_tokens (i + 1 + ?k) (drop ?k cs) lineComment)) = drop last' (pre @ c # take ?k cs) @ expand_text f (drop ?k cs)"
      using len body skip_literal_le [of cs] by (intro "2.IH"(1) literal) auto
    then show ?thesis
      using literal len by (simp add: scan_tokens.simps expand_text.simps)
  next
    case dash
    have "?go last' (fst (scan_tokens (i + 1) cs True)) = drop last' (pre @ [c]) @ expand_text f cs"
      using len body by (intro "2.IH"(2) dash) auto
    then show ?thesis
      using dash len by (simp add: scan_tokens.simps expand_text.simps split_beta)
  next
    case lone
    have rest: "?rest = [] \<or> hd ?rest = CHR ''{''"
      using lone(2) find_brace [of cs] by (cases ?rest) (auto simp: find_split)
    have "?go last' (fst (scan_tokens (i + 1) cs lineComment)) = drop last' (pre @ [c]) @ expand_text f cs"
      using len body lone(1) rest by (intro "2.IH"(3)) auto
    then show ?thesis
      using lone len rest by (simp add: scan_tokens.simps expand_text.simps)
  next
    case char
    have "?go last' (fst (scan_tokens (i + 1) cs lineComment)) = drop last' (pre @ [c]) @ expand_text f cs"
      using len body char by (intro "2.IH"(5)) auto
    then show ?thesis
      using char len by (simp add: scan_tokens.simps expand_text.simps del: de_Morgan_conj)
  next
    case token
    let ?tail = "drop (Suc (length ?inner)) cs" and ?stop = "i + length ?inner + 2"
    have cs: "cs = ?inner @ CHR ''}'' # ?tail"
      using find_split_Some [OF token(2)] .
    have drop: "?rest = CHR ''}'' # ?tail"
      using cs takeWhile_dropWhile_id [of "\<lambda>x. \<not> is_brace x" cs] by (metis same_append_eq)
    have IH: "?go l (fst (scan_tokens ?stop ?tail lineComment)) = drop l (pre @ c # ?inner @ ''}'') @ expand_text f ?tail" if "l \<le> ?stop" for l
    proof -
      have "?go l (fst (scan_tokens ?stop (tl ?rest) lineComment)) = drop l (pre @ c # ?inner @ ''}'') @ expand_text f (tl ?rest)"
        using len body token(1) drop cs that by (intro "2.IH"(4)) auto
      then show ?thesis
        by (simp add: drop)
    qed
    show ?thesis
    proof (cases "parseTriggerToken ?inner")
      case (Inr problem)
      then show ?thesis
        using IH [of last'] len token by (simp add: scan_tokens.simps expand_text.simps drop split_beta Let_def)
    next
      case (Inl p)
      then show ?thesis
        using IH [of ?stop] len body token by (cases p) (simp add: scan_tokens.simps expand_text.simps drop split_beta Let_def)
    qed
  qed
qed

lemma ExpandTriggerTokens_text: "ExpandTriggerTokens body (\<lambda>t. f (tt_Kind t) (tt_Columns t)) = expand_text f body"
proof -
  have "expand_from (\<lambda>t. f (tt_Kind t) (tt_Columns t)) body 0 (fst (ScanTriggerTokens body)) = expand_text f body"
    using scan_expand [of 0 0 "[]" body body f False] by (simp add: ScanTriggerTokens_def)
  then show ?thesis
    by (auto simp: ExpandTriggerTokens_def Let_def)
qed

section \<open>The canonical token\<close>

lemma Split_pieces: "w \<in> set (Split sep s) \<Longrightarrow> sep \<notin> set w \<and> (\<exists>p q. s = p @ w @ q)"
proof (induction s arbitrary: w)
  case (Cons c s)
  obtain v vs where split: "Split sep s = v # vs"
    using Split_nonempty [of sep s] by (cases "Split sep s") auto
  show ?case
  proof (cases "c = sep")
    case True
    then consider "w = []" | "w \<in> set (Split sep s)"
      using Cons.prems by auto
    then show ?thesis
    proof cases
      case 1
      then have "sep \<notin> set w \<and> c # s = [] @ w @ (c # s)"
        by simp
      then show ?thesis
        by blast
    next
      case 2
      then show ?thesis
        using Cons.IH [of w] by (metis append_Cons)
    qed
  next
    case False
    then consider "w = c # v" | "w \<in> set vs"
      using Cons.prems split by auto
    then show ?thesis
    proof cases
      case 1
      have "v \<in> set (Split sep s)" and "join [sep] (v # vs) = s"
        using split join_Split [of sep s] by simp_all
      then have "sep \<notin> set v" and "\<exists>q. s = v @ q"
        using Cons.IH by (auto, cases vs) auto
      then show ?thesis
        using 1 False by (metis append_Cons append_Nil set_ConsD)
    next
      case 2
      then show ?thesis
        using Cons.IH [of w] split by (metis append_Cons list.set_intros(2))
    qed
  qed
qed simp

lemma TrimSpace_infix: "\<exists>p q. s = p @ TrimSpace s @ q"
proof -
  let ?u = "dropWhile is_space s"
  have "s = takeWhile is_space s @ ?u"
    by simp
  moreover have "?u = TrimSpace s @ rev (takeWhile is_space (rev ?u))"
    unfolding TrimSpace_def by (metis rev_append rev_rev_ident takeWhile_dropWhile_id)
  ultimately show ?thesis
    by metis
qed

lemma TrimSpace_ends: "TrimSpace s \<noteq> [] \<Longrightarrow> \<not> is_space (hd (TrimSpace s)) \<and> \<not> is_space (last (TrimSpace s))"
proof -
  assume ne: "TrimSpace s \<noteq> []"
  let ?u = "dropWhile is_space s"
  have "?u = TrimSpace s @ rev (takeWhile is_space (rev ?u))"
    unfolding TrimSpace_def by (metis rev_append rev_rev_ident takeWhile_dropWhile_id)
  then have "hd ?u = hd (TrimSpace s)" "?u \<noteq> []"
    using ne by (metis hd_append2, metis append_is_Nil_conv)
  then have "\<not> is_space (hd (TrimSpace s))"
    using hd_dropWhile [of is_space s] by simp
  moreover have "\<not> is_space (last (TrimSpace s))"
    using ne hd_dropWhile [of is_space "rev ?u"] by (simp add: TrimSpace_def last_rev)
  ultimately show ?thesis
    by simp
qed

lemma TrimSpace_trimmed: "s = [] \<or> \<not> is_space (hd s) \<and> \<not> is_space (last s) \<Longrightarrow> TrimSpace s = s"
proof (cases "s = []")
  case False
  assume "s = [] \<or> \<not> is_space (hd s) \<and> \<not> is_space (last s)"
  then have "dropWhile is_space s = s" "dropWhile is_space (rev s) = rev s"
    using False by (simp_all add: dropWhile_eq_self_iff hd_rev)
  then show ?thesis
    by (simp add: TrimSpace_def)
qed (simp add: TrimSpace_def)

definition clean_column :: "string \<Rightarrow> bool" where
  "clean_column w \<longleftrightarrow> w \<noteq> [] \<and> CHR '','' \<notin> set w \<and> (\<forall>c \<in> set w. \<not> is_brace c) \<and> \<not> is_space (hd w) \<and> \<not> is_space (last w)"

lemma parse_columns:
  assumes "parseTriggerToken inner = Inl (kind, columns)" and "\<forall>c \<in> set inner. \<not> is_brace c"
  shows "(kind = TokenNow \<longrightarrow> columns = []) \<and> (kind \<noteq> TokenNow \<longrightarrow> columns \<noteq> []) \<and>
    (\<forall>w \<in> set columns. clean_column w \<and> (\<exists>p q. inner = p @ w @ q))"
proof (cases "kind = TokenNow")
  case True
  then show ?thesis
    using assms(1) by (auto simp: parseTriggerToken_def Let_def split: if_splits)
next
  case False
  let ?tail = "dropWhile (\<lambda>c. c \<noteq> CHR '':'') inner"
  have cols: "columns = map TrimSpace (Split (CHR '','') (tl ?tail))" "[] \<notin> set columns"
    using assms(1) False by (auto simp: parseTriggerToken_def Let_def split: if_splits)
  have "clean_column w \<and> (\<exists>p q. inner = p @ w @ q)" if w: "w \<in> set columns" for w
  proof -
    obtain v where v: "v \<in> set (Split (CHR '','') (tl ?tail))" "w = TrimSpace v"
      using w cols(1) by auto
    obtain p q where pq: "CHR '','' \<notin> set v" "tl ?tail = p @ v @ q"
      using Split_pieces [OF v(1)] by blast
    obtain p' q' where v': "v = p' @ w @ q'"
      using TrimSpace_infix [of v] v(2) by blast
    have "inner = takeWhile (\<lambda>c. c \<noteq> CHR '':'') inner @ ?tail"
      by simp
    then obtain r where "inner = r @ tl ?tail"
      by (cases ?tail) (auto, metis append.assoc append_Cons append_Nil)
    then have infix': "inner = (r @ p @ p') @ w @ (q' @ q)"
      using pq v' by simp
    then have "clean_column w"
      using pq(1) v' v(2) cols(2) w TrimSpace_ends [of v] assms(2) unfolding clean_column_def
      by (metis UnCI set_append)
    then show ?thesis
      using infix' by blast
  qed
  moreover have "columns \<noteq> []"
    using cols(1) Split_nonempty by simp
  ultimately show ?thesis
    using False by simp
qed

definition canonical_inner :: "TriggerTokenKind \<Rightarrow> string list \<Rightarrow> string" where
  "canonical_inner kind columns =
     (case kind of TokenNew \<Rightarrow> ''new: '' @ join '', '' columns | TokenOld \<Rightarrow> ''old: '' @ join '', '' columns | TokenNow \<Rightarrow> ''now'')"

lemma Canonical_inner: "Canonical kind columns = CHR ''{'' # canonical_inner kind columns @ ''}''"
  by (cases kind) (simp_all add: canonical_inner_def)

lemma join_comma: "columns \<noteq> [] \<Longrightarrow> CHR '' '' # join '', '' columns = join [CHR '',''] (map (\<lambda>c. CHR '' '' # c) columns)"
  by (induction columns rule: induct_list012) auto

lemma set_join: "set (join sep ws) \<subseteq> set sep \<union> (\<Union>w \<in> set ws. set w)"
  by (induction ws rule: induct_list012) auto

lemma canonical_no_brace: "\<forall>w \<in> set columns. clean_column w \<Longrightarrow> c \<in> set (canonical_inner kind columns) \<Longrightarrow> \<not> is_brace c"
  using set_join [of "'', ''" columns]
  by (cases kind) (auto simp: canonical_inner_def clean_column_def is_brace_def)

lemma TrimSpace_blank: "TrimSpace (CHR '' '' # w) = TrimSpace w"
  by (simp add: TrimSpace_def)

lemma parse_canonical:
  assumes "\<forall>w \<in> set columns. clean_column w" and "kind \<noteq> TokenNow \<Longrightarrow> columns \<noteq> []" and "kind = TokenNow \<Longrightarrow> columns = []"
  shows "parseTriggerToken (canonical_inner kind columns) = Inl (kind, columns)"
proof (cases "kind = TokenNow")
  case True
  then show ?thesis
    using assms(3) by (simp add: canonical_inner_def parseTriggerToken_def TrimSpace_def is_space_def to_lower_def lower_char_def)
next
  case False
  have "Split (CHR '','') (CHR '' '' # join '', '' columns) = map (\<lambda>c. CHR '' '' # c) columns"
    using False assms by (subst join_comma) (auto intro!: Split_join simp: clean_column_def)
  moreover have "map (TrimSpace \<circ> (\<lambda>c. CHR '' '' # c)) columns = columns"
    using assms(1) by (auto simp: TrimSpace_blank clean_column_def intro!: map_idI TrimSpace_trimmed)
  moreover have "[] \<notin> set columns"
    using assms(1) by (auto simp: clean_column_def)
  ultimately show ?thesis
    using False by (cases kind) (simp_all add: canonical_inner_def parseTriggerToken_def TrimSpace_def is_space_def to_lower_def lower_char_def)
qed

section \<open>Expanding the normalized text\<close>

lemma skip_literal_append:
  assumes "Y = [] \<longleftrightarrow> X = []" and "X \<noteq> [] \<Longrightarrow> hd Y = hd X" and "X = drop (skip_literal cs) cs"
  shows "skip_literal (take (skip_literal cs) cs @ Y) = skip_literal cs"
  using assms
proof (induction cs rule: skip_literal.induct)
  case (3 c c' cs)
  consider (plain) "c \<noteq> CHR 0x27" | (escaped) "c = CHR 0x27" "c' = CHR 0x27" | (closed) "c = CHR 0x27" "c' \<noteq> CHR 0x27"
    by blast
  then show ?case
  proof cases
    case plain
    have IH: "skip_literal (take (skip_literal (c' # cs)) (c' # cs) @ Y) = skip_literal (c' # cs)"
      using 3 plain by simp
    show ?thesis
    proof (cases "take (skip_literal (c' # cs)) (c' # cs) @ Y")
      case Nil
      then have "take (skip_literal (c' # cs)) (c' # cs) = []" "skip_literal (c' # cs) = 0"
        using IH by auto
      then show ?thesis
        using plain Nil by simp
    next
      case (Cons d ds)
      then show ?thesis
        using plain IH by simp
    qed
  next
    case escaped
    then show ?thesis
      using 3 by simp
  next
    case closed
    then have "X = c' # cs"
      using 3 by simp
    then have "Y \<noteq> [] \<and> hd Y = c'"
      using "3.prems"(1,2) by simp
    then obtain ds where "Y = c' # ds"
      by (metis list.collapse)
    then show ?thesis
      using closed by simp
  qed
qed (auto simp: neq_Nil_conv)

lemma expand_start:
  "(expand_text Canonical s = [] \<longleftrightarrow> s = []) \<and> (s \<noteq> [] \<longrightarrow> hd (expand_text Canonical s) = hd s)"
  by (cases s) (auto simp: expand_text.simps Canonical_inner Let_def split: sum.splits)

lemma expand_brace: "find is_brace (expand_text Canonical s) = find is_brace s"
proof (induction "Canonical :: TriggerTokenKind \<Rightarrow> string list \<Rightarrow> string" s rule: expand_text.induct)
  case (2 c cs)
  consider (literal) "c = CHR 0x27" | (token) "c = CHR ''{''" "find is_brace cs = Some (CHR ''}'')"
    | (char) "c \<noteq> CHR 0x27" "\<not> (c = CHR ''{'' \<and> find is_brace cs = Some (CHR ''}''))"
    by blast
  then show ?case
  proof cases
    case literal
    have "find is_brace cs = (case find is_brace (take (skip_literal cs) cs) of None \<Rightarrow> find is_brace (drop (skip_literal cs) cs) | Some x \<Rightarrow> Some x)"
      using find_append' [of is_brace "take (skip_literal cs) cs" "drop (skip_literal cs) cs"] by simp
    moreover have "\<not> is_brace (CHR 0x27)"
      by (simp add: is_brace_def)
    ultimately show ?thesis
      using 2(1) [OF literal] literal by (simp add: expand_text.simps find_append' split: option.splits)
  next
    case token
    then show ?thesis
      by (auto simp: expand_text.simps Canonical_inner is_brace_def Let_def split: sum.splits)
  next
    case char
    then have "expand_text Canonical (c # cs) = c # expand_text Canonical cs"
      by (auto simp: expand_text.simps)
    then show ?thesis
      using 2(3) [OF char] by simp
  qed
qed simp

text \<open>Whatever a dialect writes for a token, it writes for its canonical spelling.\<close>

lemma expand_canonical: "expand_text f (expand_text Canonical s) = expand_text f s"
proof (induction "Canonical :: TriggerTokenKind \<Rightarrow> string list \<Rightarrow> string" s rule: expand_text.induct)
  case (2 c cs)
  let ?k = "skip_literal cs" and ?inner = "takeWhile (\<lambda>x. \<not> is_brace x) cs"
  consider (literal) "c = CHR 0x27" | (token) "c = CHR ''{''" "find is_brace cs = Some (CHR ''}'')"
    | (char) "c \<noteq> CHR 0x27" "\<not> (c = CHR ''{'' \<and> find is_brace cs = Some (CHR ''}''))"
    by blast
  then show ?case
  proof cases
    case literal
    let ?Y = "expand_text Canonical (drop ?k cs)"
    have skip: "skip_literal (take ?k cs @ ?Y) = ?k"
      using expand_start [of "drop ?k cs"] by (intro skip_literal_append [OF _ _ refl]) auto
    have len: "length (take ?k cs) = ?k"
      using skip_literal_le [of cs] by simp
    have "expand_text f (c # take ?k cs @ ?Y) = c # take ?k cs @ expand_text f ?Y"
      using literal skip len by (simp add: expand_text.simps(2) [of f "CHR 0x27"])
    moreover have "expand_text g (c # cs) = c # take ?k cs @ expand_text g (drop ?k cs)" for g
      using literal by (simp add: expand_text.simps)
    ultimately show ?thesis
      using 2(1) [OF literal] by simp
  next
    case char
    have "expand_text g (c # X) = c # expand_text g X" if "find is_brace X = find is_brace cs" for g X
      using char that by (auto simp: expand_text.simps)
    then show ?thesis
      using 2(3) [OF char] expand_brace by simp
  next
    case token
    let ?rest = "drop (Suc (length ?inner)) cs"
    have IH: "expand_text f (expand_text Canonical ?rest) = expand_text f ?rest"
      using 2(2) token by simp
    have inner: "\<forall>x \<in> set ?inner. \<not> is_brace x"
      by (auto dest: set_takeWhileD)
    have step: "expand_text f (CHR ''{'' # w @ CHR ''}'' # r) =
        (case parseTriggerToken w of Inr problem \<Rightarrow> ''{'' @ w @ ''}'' | Inl (kind, columns) \<Rightarrow> f kind columns) @ expand_text f r"
      if "\<forall>x \<in> set w. \<not> is_brace x" for f w r
    proof -
      have "takeWhile (\<lambda>x. \<not> is_brace x) (w @ CHR ''}'' # r) = w"
        using that by (simp add: takeWhile_append2 is_brace_def)
      moreover have "find is_brace (w @ CHR ''}'' # r) = Some (CHR ''}'')"
      proof -
        have "find is_brace w = None"
          using that by (simp add: find_None_iff)
        then show ?thesis
          by (simp add: find_append' is_brace_def)
      qed
      ultimately show ?thesis
        by (simp add: expand_text.simps(2) [of f "CHR ''{''"])
    qed
    have cs: "c # cs = CHR ''{'' # ?inner @ CHR ''}'' # ?rest"
      using find_split_Some [OF token(2)] token(1) by simp
    show ?thesis
    proof (cases "parseTriggerToken ?inner")
      case (Inr problem)
      then show ?thesis
        unfolding cs using IH inner by (simp add: step)
    next
      case (Inl p)
      obtain kind columns where p: "p = (kind, columns)"
        by fastforce
      have cols: "(kind = TokenNow \<longrightarrow> columns = []) \<and> (kind \<noteq> TokenNow \<longrightarrow> columns \<noteq> [])" "\<forall>w \<in> set columns. clean_column w"
        using parse_columns [OF Inl [unfolded p] inner] by auto
      then have "parseTriggerToken (canonical_inner kind columns) = Inl (kind, columns)" "\<forall>x \<in> set (canonical_inner kind columns). \<not> is_brace x"
        using parse_canonical canonical_no_brace by auto
      then show ?thesis
        unfolding cs using IH inner Inl p by (simp add: step Canonical_inner)
    qed
  qed
qed simp

section \<open>Normalized text is collapsed\<close>

text \<open>The blanks of a piece of collapsed text: single, and none next to a blank before it.\<close>

fun loose :: "bool \<Rightarrow> string \<Rightarrow> bool" where
  "loose b [] \<longleftrightarrow> True"
| "loose b (c # cs) \<longleftrightarrow> (if is_space c then \<not> b \<and> c = CHR '' '' \<and> loose True cs else loose False cs)"

lemma neat_loose: "neat b s \<Longrightarrow> loose b s"
  by (induction b s rule: neat.induct) (auto split: if_splits)

lemma loose_False: "loose b s \<Longrightarrow> loose False s"
  by (cases s) (auto split: if_splits)

lemma loose_prefix: "loose b (w @ q) \<Longrightarrow> loose b w"
  by (induction w arbitrary: b) (auto split: if_splits)

lemma loose_infix: "loose b (p @ w @ q) \<Longrightarrow> loose False w"
proof (induction p arbitrary: b)
  case Nil
  then show ?case
    using loose_prefix loose_False by (metis append_Nil)
qed (auto split: if_splits)

lemma loose_neat: "loose b w \<Longrightarrow> w \<noteq> [] \<Longrightarrow> \<not> is_space (last w) \<Longrightarrow> neat b w"
  by (induction b w rule: loose.induct) (auto split: if_splits)

lemma clean_neat: "clean_column w \<Longrightarrow> loose False w \<Longrightarrow> neat True w"
  using loose_neat [of False w] by (cases w) (auto simp: clean_column_def split: if_splits)

lemma neat_append: "neat b (x @ y) \<Longrightarrow> (\<And>b'. neat b' y \<Longrightarrow> neat b' z) \<Longrightarrow> neat b (x @ z)"
  by (induction x arbitrary: b) (auto split: if_splits)

lemma neat_closed: "neat True w \<Longrightarrow> neat False s \<Longrightarrow> neat b (w @ s)"
proof -
  have step: "neat b w \<Longrightarrow> neat False s \<Longrightarrow> neat b (w @ s)" for b w
    by (induction w arbitrary: b) (auto split: if_splits)
  assume "neat True w" "neat False s"
  moreover have "neat b w"
    using \<open>neat True w\<close> by (cases w) (auto split: if_splits)
  ultimately show ?thesis
    by (rule_tac step)
qed

lemma neat_suffix: "neat b (x @ c # y) \<Longrightarrow> \<not> is_space c \<Longrightarrow> neat False y"
  by (induction x arbitrary: b) (auto split: if_splits)

lemma neat_columns:
  "\<forall>w \<in> set columns. clean_column w \<and> loose False w \<Longrightarrow> columns \<noteq> [] \<Longrightarrow> neat False s \<Longrightarrow>
   neat True (join '', '' columns @ CHR ''}'' # s)"
proof (induction columns rule: induct_list012)
  case (2 w)
  then have "neat True w" "\<not> is_space (hd w)"
    using clean_neat by (auto simp: clean_column_def)
  then show ?case
    using neat_closed [of w "CHR ''}'' # s"] 2 by (simp add: is_space_def)
next
  case (3 w w' ws)
  then have "neat True w" "\<not> is_space (hd w)"
    using clean_neat by (auto simp: clean_column_def)
  moreover have "neat False ('', '' @ join '', '' (w' # ws) @ CHR ''}'' # s)"
    using 3 by (simp add: is_space_def)
  ultimately show ?case
    using neat_closed [of w "'', '' @ join '', '' (w' # ws) @ CHR ''}'' # s"] by simp
qed simp

lemma expand_neat: "neat b s \<Longrightarrow> neat b (expand_text Canonical s)"
proof (induction "Canonical :: TriggerTokenKind \<Rightarrow> string list \<Rightarrow> string" s arbitrary: b rule: expand_text.induct)
  case (2 c cs)
  let ?k = "skip_literal cs" and ?inner = "takeWhile (\<lambda>x. \<not> is_brace x) cs"
  consider (literal) "c = CHR 0x27" | (token) "c = CHR ''{''" "find is_brace cs = Some (CHR ''}'')"
    | (char) "c \<noteq> CHR 0x27" "\<not> (c = CHR ''{'' \<and> find is_brace cs = Some (CHR ''}''))"
    by blast
  then show ?case
  proof cases
    case literal
    have "neat False (take ?k cs @ drop ?k cs)"
      using 2(4) literal by (simp add: is_space_def)
    then have "neat False (take ?k cs @ expand_text Canonical (drop ?k cs))"
      by (rule neat_append) (rule 2(1) [OF literal])
    then show ?thesis
      using literal by (simp add: expand_text.simps is_space_def)
  next
    case char
    then have "expand_text Canonical (c # cs) = c # expand_text Canonical cs"
      by (auto simp: expand_text.simps)
    then show ?thesis
      using 2(3) [OF char] 2(4) by (auto split: if_splits)
  next
    case token
    let ?rest = "drop (Suc (length ?inner)) cs"
    have cs: "cs = ?inner @ CHR ''}'' # ?rest"
      using find_split_Some [OF token(2)] .
    have inner: "\<forall>x \<in> set ?inner. \<not> is_brace x"
      by (auto dest: set_takeWhileD)
    have n: "neat False cs"
      using 2(4) token by (simp add: is_space_def)
    then have "neat False (?inner @ CHR ''}'' # ?rest)"
      using cs by simp
    then have "neat False ?rest"
      by (rule neat_suffix) (simp add: is_space_def)
    then have rest: "neat False (expand_text Canonical ?rest)"
      using 2(2) token by simp
    show ?thesis
    proof (cases "parseTriggerToken ?inner")
      case (Inr problem)
      have "neat False (?inner @ CHR ''}'' # expand_text Canonical ?rest)"
        by (rule neat_append [of False ?inner "CHR ''}'' # ?rest"]) (use n cs rest in \<open>auto simp: is_space_def\<close>)
      then show ?thesis
        using token Inr by (simp add: expand_text.simps Let_def is_space_def)
    next
      case (Inl p)
      obtain kind columns where p: "p = (kind, columns)"
        by fastforce
      have cols: "kind \<noteq> TokenNow \<longrightarrow> columns \<noteq> []" "\<forall>w \<in> set columns. clean_column w \<and> (\<exists>p q. ?inner = p @ w @ q)"
        using parse_columns [OF Inl [unfolded p] inner] by auto
      have "loose False ([] @ ?inner @ (CHR ''}'' # ?rest))"
        using neat_loose [OF n] cs by simp
      then have "loose False ?inner"
        by (rule loose_infix)
      then have "\<forall>w \<in> set columns. clean_column w \<and> loose False w"
        using cols(2) loose_infix by metis
      then have "neat b (Canonical kind columns @ expand_text Canonical ?rest)"
        using neat_columns [of columns "expand_text Canonical ?rest"] cols(1) rest by (cases kind) (simp_all add: is_space_def)
      then show ?thesis
        using token Inl p by (simp add: expand_text.simps Let_def)
    qed
  qed
qed simp

section \<open>The normalized body\<close>

text \<open>A text without a malformed token or a line comment.\<close>

definition well_formed_body :: "string \<Rightarrow> bool" where
  "well_formed_body body \<longleftrightarrow> snd (ScanTriggerTokens body) = []"

lemma NormalizeTriggerBody_text:
  "NormalizeTriggerBody body = (if well_formed_body (collapse body) then expand_text Canonical (collapse body) else collapse body)"
proof -
  have "expand_text Canonical (collapse body) = collapse body" if "fst (ScanTriggerTokens (collapse body)) = []"
    using that ExpandTriggerTokens_text [of "collapse body" Canonical] by (simp add: ExpandTriggerTokens_def)
  then show ?thesis
    using ExpandTriggerTokens_text [of "collapse body" Canonical]
    by (auto simp: NormalizeTriggerBody_def well_formed_body_def Let_def split_beta)
qed

text \<open>
  C25: The body the snapshots hold is canonical: two well-formed bodies are normalized to the same text exactly when
  every expansion of their tokens (so every dialect) renders the two, collapsed, to the same text - whatever the
  spelling of their tokens and their layout. A body with a malformed token or a line comment is only collapsed;
  normalizing again changes nothing and the result is collapsed.
\<close>

theorem NormalizeTriggerBody_canonical:
  "(well_formed_body (collapse body) \<and> well_formed_body (collapse other) \<longrightarrow>
     (NormalizeTriggerBody body = NormalizeTriggerBody other \<longleftrightarrow>
       (\<forall>expand. ExpandTriggerTokens (collapse body) (\<lambda>t. expand (tt_Kind t) (tt_Columns t)) =
         ExpandTriggerTokens (collapse other) (\<lambda>t. expand (tt_Kind t) (tt_Columns t))))) \<and>
   (\<not> well_formed_body (collapse body) \<longrightarrow> NormalizeTriggerBody body = collapse body) \<and>
   NormalizeTriggerBody (NormalizeTriggerBody body) = NormalizeTriggerBody body \<and>
   collapse (NormalizeTriggerBody body) = NormalizeTriggerBody body"
proof -
  let ?c = "collapse body" and ?r = "NormalizeTriggerBody body"
  have neat: "?c = [] \<or> neat True ?c"
    using collapse_fixed [of ?c] by simp
  then have "expand_text Canonical ?c = [] \<or> neat True (expand_text Canonical ?c)"
    using expand_neat by auto
  then have collapsed: "collapse ?r = ?r"
    using neat by (simp add: NormalizeTriggerBody_text collapse_fixed)
  have expanded: "expand_text f ?r = expand_text f ?c" for f
    by (simp add: NormalizeTriggerBody_text expand_canonical)
  have again: "NormalizeTriggerBody ?r = ?r"
    using expanded [of Canonical] by (simp add: NormalizeTriggerBody_text [of ?r] collapsed) (simp add: NormalizeTriggerBody_text)
  have "?r = NormalizeTriggerBody other \<longleftrightarrow> (\<forall>f. expand_text f ?c = expand_text f (collapse other))"
    if "well_formed_body ?c" "well_formed_body (collapse other)"
  proof
    assume "?r = NormalizeTriggerBody other"
    then have "expand_text f (expand_text Canonical ?c) = expand_text f (expand_text Canonical (collapse other))" for f
      using that by (simp add: NormalizeTriggerBody_text)
    then show "\<forall>f. expand_text f ?c = expand_text f (collapse other)"
      by (simp add: expand_canonical)
  qed (use that in \<open>simp add: NormalizeTriggerBody_text\<close>)
  then show ?thesis
    using collapsed again unfolding ExpandTriggerTokens_text by (auto simp: NormalizeTriggerBody_text)
qed

theorem NormalizeTriggerBody_canonical_witness:
  "NormalizeTriggerBody ''call log({NEW:a,b})'' = NormalizeTriggerBody ''call  log({ new : a, b })''"
proof -
  have layout: "collapse ''call log({NEW:a,b})'' = ''call log({NEW:a,b})''"
    "collapse ''call  log({ new : a, b })'' = ''call log({ new : a, b })''"
    by (simp_all add: collapse_def Fields.simps is_space_def)
  have "well_formed_body ''call log({NEW:a,b})''" "well_formed_body ''call log({ new : a, b })''"
    by code_simp+
  moreover have parsed: "parseTriggerToken ''NEW:a,b'' = Inl (TokenNew, [''a'', ''b''])"
    "parseTriggerToken '' new : a, b '' = Inl (TokenNew, [''a'', ''b''])"
    by code_simp+
  moreover have "expand_text f ''call log({NEW:a,b})'' = expand_text f ''call log({ new : a, b })''" for f
    by (simp add: expand_text.simps is_brace_def parsed)
  ultimately show ?thesis
    using NormalizeTriggerBody_canonical [of "''call log({NEW:a,b})''" "''call  log({ new : a, b })''"]
    unfolding layout ExpandTriggerTokens_text by blast
qed

text \<open>Blanks inside a quoted literal are collapsed like the layout, so two bodies that insert different texts compare equal.\<close>

lemma literal_blanks: "NormalizeTriggerBody ''select 'a  b' x'' = NormalizeTriggerBody ''select 'a b' x''"
proof -
  have "collapse ''select 'a  b' x'' = collapse ''select 'a b' x''"
    by (simp add: collapse_def Fields.simps is_space_def)
  then show ?thesis
    by (simp add: NormalizeTriggerBody_def)
qed

end
