(* ===== verification/Dialects.thy ===== *)
theory Dialects
  imports Sqlite_Dialect Postgres_Dialect Sqlserver_Dialect Trigger_Body
begin

text \<open>What the migrations rely on, for the three dialects.\<close>

definition dialects :: "Dialect set" where
  "dialects = {SqliteDialect, PostgresDialect, SqlserverDialect}"

text \<open>
  C26: In every dialect the statements that create a model's objects are, text for text, those rendered from the
  model's snapshot shape: the table, each index in declared order, and the view of a view map (materialized or
  not). The model is one the loader accepts, and its key is not client-generated: such a key is rendered inline in
  the model and as a trailing clause from the shape.
\<close>

theorem snapshot_renders_model:
  assumes "d \<in> dialects" and "keyed_map m" and "Strategy m \<noteq> KeyClientGuid"
  shows "CreateTableFromSchemaSQL d (FromMap m d) = CreateTableSQL d m \<and>
    map (CreateIndexFromSchemaSQL d (RelationName m)) (ts_Indexes (FromMap m d)) = CreateIndexSQL d m \<and>
    (Kind m = RelationView \<or> SupportsMaterializedViews d \<longrightarrow>
      CreateViewFromBodySQL d (RelationName m) (DefiningSQL m) (Kind m = RelationMaterializedView) = CreateViewSQL d m)"
  using assms sqlite.snapshot_ddl postgres.snapshot_ddl sqlserver.snapshot_ddl sqlite.view_ddl postgres.view_ddl sqlserver.view_ddl
  unfolding dialects_def by (auto simp: natural_twin_def)

theorem snapshot_renders_model_witness:
  "CreateTableFromSchemaSQL SqliteDialect (FromMap sample_map SqliteDialect) = CreateTableSQL SqliteDialect sample_map"
proof -
  have "keyed_map sample_map" "Strategy sample_map \<noteq> KeyClientGuid"
    by (simp_all add: sample_defs keyed_map_def KeyProperties_def)
  then show ?thesis
    using snapshot_renders_model [of SqliteDialect sample_map] unfolding dialects_def by blast
qed

text \<open>
  C27: Whatever a dialect creates for a declared trigger, its drop statements drop: on SQLite each create names the
  declared or the per-event name and that name is dropped; on PostgreSQL the function and the trigger are; on SQL
  Server the one trigger is. A declaration is refused only with DDL-005 or MAP-029.
\<close>

theorem trigger_drop_covers:
  "(case sqlite_CreateTriggerSQL relation onView t of
      Inl e \<Rightarrow> HasCode e ''DDL-005'' \<or> HasCode e ''MAP-029''
    | Inr ss \<Rightarrow> \<forall>s \<in> set ss. \<exists>name rest. s = ''create trigger '' @ name @ '' '' @ rest \<and>
        (''drop trigger if exists '' @ name) \<in> set (sqlite_DropTriggerSQL relation (trg_Name t))) \<and>
   (case pg_CreateTriggerSQL relation onView t of
      Inl e \<Rightarrow> HasCode e ''DDL-005'' \<or> HasCode e ''MAP-029''
    | Inr ss \<Rightarrow> \<exists>function trigger body rest.
        ss = [''create or replace function '' @ function @ ''()'' @ body, ''create trigger '' @ trigger @ '' '' @ rest] \<and>
        pg_DropTriggerSQL relation (trg_Name t) =
          [''drop trigger if exists '' @ trigger @ '' on '' @ pg_QuoteIdentifier relation, ''drop function if exists '' @ function @ ''()'']) \<and>
   (case ss_CreateTriggerSQL relation onView t of
      Inl e \<Rightarrow> HasCode e ''DDL-005'' \<or> HasCode e ''MAP-029''
    | Inr ss \<Rightarrow> \<exists>trigger rest. ss = [''create trigger '' @ trigger @ '' on '' @ ss_QuoteIdentifier relation @ '' '' @ rest] \<and>
        ss_DropTriggerSQL relation (trg_Name t) = [''if object_id('' @ nLiteral (trg_Name t) @ '', N'TR') is not null drop trigger '' @ trigger])"
proof -
  have "\<exists>name rest. s = ''create trigger '' @ name @ '' '' @ rest \<and> (''drop trigger if exists '' @ name) \<in> set (sqlite_DropTriggerSQL relation (trg_Name t))"
    if "sqlite_CreateTriggerSQL relation onView t = Inr ss" "s \<in> set ss" for ss s
    using sqlite_drop_covers [OF that] .
  moreover have "\<exists>function trigger body rest.
      ss = [''create or replace function '' @ function @ ''()'' @ body, ''create trigger '' @ trigger @ '' '' @ rest] \<and>
      pg_DropTriggerSQL relation (trg_Name t) =
        [''drop trigger if exists '' @ trigger @ '' on '' @ pg_QuoteIdentifier relation, ''drop function if exists '' @ function @ ''()'']"
    if "pg_CreateTriggerSQL relation onView t = Inr ss" for ss
    using pg_drop_covers [OF that] by blast
  moreover have "\<exists>trigger rest. ss = [''create trigger '' @ trigger @ '' on '' @ ss_QuoteIdentifier relation @ '' '' @ rest] \<and>
      ss_DropTriggerSQL relation (trg_Name t) = [''if object_id('' @ nLiteral (trg_Name t) @ '', N'TR') is not null drop trigger '' @ trigger]"
    if "ss_CreateTriggerSQL relation onView t = Inr ss" for ss
    using ss_drop_covers [OF that] by blast
  ultimately show ?thesis
    using sqlite_trigger(1) pg_trigger(1) ss_trigger(1) by (auto split: sum.splits)
qed

definition sample_trigger :: TriggerDefinition where
  "sample_trigger = \<lparr>trg_Name = ''audit'', trg_Timing = TimingAfter, trg_Events = {EventInsert, EventDelete}, trg_UpdateOf = [], trg_SQL = ''select 1;''\<rparr>"

theorem trigger_drop_covers_witness:
  "\<exists>ss. sqlite_CreateTriggerSQL ''orders'' False sample_trigger = Inr ss \<and> length ss = 2 \<and>
     (\<forall>s \<in> set ss. \<exists>name rest. s = ''create trigger '' @ name @ '' '' @ rest \<and>
        (''drop trigger if exists '' @ name) \<in> set (sqlite_DropTriggerSQL ''orders'' ''audit''))"
proof -
  have "ScanTriggerTokens ''select 1;'' = ([], [])" and "TrimSpace ''select 1;'' = ''select 1;''"
    by (simp_all add: ScanTriggerTokens_def scan_tokens.simps TrimSpace_def is_space_def)
  then have "is_ok (RenderTriggerBody ''audit'' ''select 1;'' expandSQLiteToken)"
    by (simp add: RenderTriggerBody_def)
  then obtain ss where ss: "sqlite_CreateTriggerSQL ''orders'' False sample_trigger = Inr ss" "length ss = 2"
    by (auto simp: is_ok_iff sqlite_CreateTriggerSQL_def sample_trigger_def Let_def Events_List_def triggerEventOrder_def)
  then show ?thesis
    using conjunct1 [OF trigger_drop_covers [where relation = "''orders''" and onView = False and t = sample_trigger]] by (simp add: sample_trigger_def)
qed

end
