(* ===== verification/Sha256.thy ===== *)
theory Sha256
  imports Main "HOL-Library.Word"
begin

text \<open>
  \<open>crypto/sha256\<close> and \<open>encoding/hex\<close> of the standard library, as FIPS 180-4 states them: the digest the migration
  checksums are.
\<close>

unbundle bit_operations_syntax

type_synonym w32 = "32 word"

definition sha_constants :: "w32 list" where
  "sha_constants =
    [0x428a2f98, 0x71374491, 0xb5c0fbcf, 0xe9b5dba5, 0x3956c25b, 0x59f111f1, 0x923f82a4, 0xab1c5ed5,
     0xd807aa98, 0x12835b01, 0x243185be, 0x550c7dc3, 0x72be5d74, 0x80deb1fe, 0x9bdc06a7, 0xc19bf174,
     0xe49b69c1, 0xefbe4786, 0x0fc19dc6, 0x240ca1cc, 0x2de92c6f, 0x4a7484aa, 0x5cb0a9dc, 0x76f988da,
     0x983e5152, 0xa831c66d, 0xb00327c8, 0xbf597fc7, 0xc6e00bf3, 0xd5a79147, 0x06ca6351, 0x14292967,
     0x27b70a85, 0x2e1b2138, 0x4d2c6dfc, 0x53380d13, 0x650a7354, 0x766a0abb, 0x81c2c92e, 0x92722c85,
     0xa2bfe8a1, 0xa81a664b, 0xc24b8b70, 0xc76c51a3, 0xd192e819, 0xd6990624, 0xf40e3585, 0x106aa070,
     0x19a4c116, 0x1e376c08, 0x2748774c, 0x34b0bcb5, 0x391c0cb3, 0x4ed8aa4a, 0x5b9cca4f, 0x682e6ff3,
     0x748f82ee, 0x78a5636f, 0x84c87814, 0x8cc70208, 0x90befffa, 0xa4506ceb, 0xbef9a3f7, 0xc67178f2]"

definition sha_initial :: "w32 list" where
  "sha_initial =
    [0x6a09e667, 0xbb67ae85, 0x3c6ef372, 0xa54ff53a, 0x510e527f, 0x9b05688c, 0x1f83d9ab, 0x5be0cd19]"

text \<open>The padded message: a one bit, zeros, and the length in bits on eight bytes; the whole a multiple of 64 bytes.\<close>

definition be_bytes :: "nat \<Rightarrow> nat \<Rightarrow> nat list" where
  "be_bytes width n = map (\<lambda>i. n div 256 ^ (width - 1 - i) mod 256) [0..<width]"

definition sha_pad :: "nat list \<Rightarrow> nat list" where
  "sha_pad bytes = bytes @ [128] @ replicate ((119 - length bytes mod 64) mod 64) 0 @ be_bytes 8 (8 * length bytes)"

fun words_of :: "nat list \<Rightarrow> w32 list" where
  "words_of (a # b # c # d # rest) = word_of_nat (((a * 256 + b) * 256 + c) * 256 + d) # words_of rest"
| "words_of _ = []"

text \<open>The message schedule, in reverse order while it grows.\<close>

definition sha_next :: "w32 list \<Rightarrow> w32" where
  "sha_next ws =
     (let w15 = ws ! 14; w2 = ws ! 1;
          s0 = word_rotr 7 w15 XOR word_rotr 18 w15 XOR drop_bit 3 w15;
          s1 = word_rotr 17 w2 XOR word_rotr 19 w2 XOR drop_bit 10 w2
      in ws ! 15 + s0 + ws ! 6 + s1)"

fun sha_extend :: "nat \<Rightarrow> w32 list \<Rightarrow> w32 list" where
  "sha_extend 0 ws = ws"
| "sha_extend (Suc n) ws = sha_extend n (sha_next ws # ws)"

definition sha_schedule :: "w32 list \<Rightarrow> w32 list" where
  "sha_schedule block = rev (sha_extend 48 (rev block))"

text \<open>One round: the words shift down, the first and the fifth are replaced.\<close>

definition sha_shift :: "w32 list \<Rightarrow> w32 \<Rightarrow> w32 \<Rightarrow> w32 list" where
  "sha_shift state t1 t2 = [t1 + t2, state ! 0, state ! 1, state ! 2, state ! 3 + t1, state ! 4, state ! 5, state ! 6]"

definition sha_round :: "w32 \<times> w32 \<Rightarrow> w32 list \<Rightarrow> w32 list" where
  "sha_round kw state =
     (let a = state ! 0; b = state ! 1; c = state ! 2; e = state ! 4; f = state ! 5; g = state ! 6
      in sha_shift state
           (state ! 7 + (word_rotr 6 e XOR word_rotr 11 e XOR word_rotr 25 e) + ((e AND f) XOR (NOT e AND g)) + fst kw + snd kw)
           ((word_rotr 2 a XOR word_rotr 13 a XOR word_rotr 22 a) + ((a AND b) XOR (a AND c) XOR (b AND c))))"

definition sha_block :: "w32 list \<Rightarrow> w32 list \<Rightarrow> w32 list" where
  "sha_block state block = map2 (+) state (fold sha_round (zip sha_constants (sha_schedule block)) state)"

function sha_blocks :: "w32 list \<Rightarrow> w32 list \<Rightarrow> w32 list" where
  "sha_blocks state ws = (if length ws < 16 then state else sha_blocks (sha_block state (take 16 ws)) (drop 16 ws))"
  by pat_completeness auto
termination
  by (relation "measure (length \<circ> snd)") auto

declare sha_blocks.simps [simp del]

definition hex_digit :: "nat \<Rightarrow> char" where
  "hex_digit n = char_of (if n < 10 then 48 + n else 87 + n)"

definition hex_bytes :: "nat list \<Rightarrow> string" where
  "hex_bytes bytes = concat (map (\<lambda>b. [hex_digit (b div 16), hex_digit (b mod 16)]) bytes)"

definition sha256_hex :: "string \<Rightarrow> string" where
  "sha256_hex text' = hex_bytes (concat (map (\<lambda>w. be_bytes 4 (unat w)) (sha_blocks sha_initial (words_of (sha_pad (map of_char text'))))))"

lemma length_be_bytes [simp]: "length (be_bytes width n) = width"
  by (simp add: be_bytes_def)

lemma sha_pad_blocks: "length (sha_pad bytes) mod 64 = 0"
proof -
  have "length (sha_pad bytes) = length bytes + 9 + (119 - length bytes mod 64) mod 64"
    by (simp add: sha_pad_def)
  moreover have "(n + 9 + (119 - n mod 64) mod 64) mod 64 = 0" for n :: nat
  proof -
    define q r where "q = n div 64" and "r = n mod 64"
    have n: "n = 64 * q + r" and r: "r < 64"
      by (simp_all add: q_def r_def)
    have "(119 - r) mod 64 = (if r \<le> 55 then 55 - r else 119 - r)"
      using r by (simp add: mod_if)
    then have "n + 9 + (119 - r) mod 64 = 64 * (if r \<le> 55 then q + 1 else q + 2)"
      using n r by simp
    then show ?thesis
      by (simp add: r_def del: mult_Suc_right)
  qed
  ultimately show ?thesis
    by simp
qed

text \<open>A digest is eight words, sixty-four hexadecimal digits.\<close>

lemma sha_round_length: "length (sha_round kw state) = 8"
  unfolding sha_round_def Let_def by (simp add: sha_shift_def)

lemma sha_fold_length: "length state = 8 \<Longrightarrow> length (fold sha_round kws state) = 8"
  by (induction kws arbitrary: state) (simp_all add: sha_round_length)

lemma sha_blocks_length: "length state = 8 \<Longrightarrow> length (sha_blocks state ws) = 8"
proof (induction state ws rule: sha_blocks.induct)
  case (1 state ws)
  have "length (sha_block state (take 16 ws)) = 8"
    using 1(2) sha_fold_length [of state] by (simp add: sha_block_def)
  then have "\<not> length ws < 16 \<Longrightarrow> length (sha_blocks (sha_block state (take 16 ws)) (drop 16 ws)) = 8"
    using 1(1) by blast
  then show ?case
    using 1(2) by (subst sha_blocks.simps) simp
qed

lemma sha256_hex_length: "length (sha256_hex text') = 64"
proof -
  let ?ws = "sha_blocks sha_initial (words_of (sha_pad (map of_char text')))"
  have "length ?ws = 8"
    by (rule sha_blocks_length) (simp add: sha_initial_def)
  moreover have "length (concat (map (\<lambda>w. be_bytes 4 (unat w)) ws)) = 4 * length ws" for ws :: "w32 list"
    by (induction ws) simp_all
  moreover have "length (hex_bytes bytes) = 2 * length bytes" for bytes
    by (induction bytes) (simp_all add: hex_bytes_def)
  ultimately show ?thesis
    by (simp add: sha256_hex_def)
qed

end
