(* ===== verification/Migration_Run.thy ===== *)
theory Migration_Run
  imports Dialects Program Sha256 "HOL-Library.AList" "HOL-Library.Product_Lexorder"
begin

text \<open>
  The migration runner (\<open>migration_runner.go\<close>): one run under the dialect's lock reads the recorded history,
  validates the whole plan against it, then applies or reverts versions. The database behind the driver, the
  clock and the random source are a state \<open>'d\<close> and operations on it, parameters of the model; what the runner
  sends is kept in order, as \<open>core.SendStatement\<close> reports it to the statement log.
\<close>

section \<open>The driver\<close>

datatype sql_value = SqlNull | SqlInt int | SqlText string

type_synonym sql_args = "(string \<times> sql_value) list"

record 'd migration_driver =
  md_Conn :: "('d, unit) prog"
  md_Close :: "'d \<Rightarrow> 'd"
  md_Lock :: "('d, unit) prog"
  md_Exec :: "string \<Rightarrow> sql_args \<Rightarrow> ('d, unit) prog"
  md_Query :: "string \<Rightarrow> sql_args \<Rightarrow> ('d, sql_value list list) prog"
  md_Commit :: "('d, unit) prog"
  md_Rollback :: "'d \<Rightarrow> 'd"
  md_Now :: "'d \<Rightarrow> int \<times> 'd"
  md_randomHex :: "nat \<Rightarrow> 'd \<Rightarrow> string \<times> 'd"
  md_FormatUTC :: "int \<Rightarrow> string"

text \<open>What \<open>options.Notify\<close> hears: the notices of the derived rollbacks, and a drift overridden by force.\<close>

datatype guarded = GuardedView | GuardedTrigger

datatype run_notice = DerivedNotice notice | DriftNotice guarded string bool

record 'd run_state =
  run_db :: 'd
  run_sent :: "(string \<times> sql_args) list"
  run_notices :: "run_notice list"

record RunOptions =
  AllowViewDrift :: bool
  Notify :: bool

record 'd Runner =
  rn_driver :: "'d migration_driver"
  rn_dialect :: Dialect
  rn_maps :: loader
  rn_set :: migration_set
  rn_snapshots :: SnapshotSet

type_synonym ('d, 'a) run = "('d run_state, 'a) prog"

definition on_db :: "('d, 'a) prog \<Rightarrow> ('d, 'a) run" where
  "on_db m s = (case m (run_db s) of (r, d) \<Rightarrow> (r, s\<lparr>run_db := d\<rparr>))"

definition SendStatement :: "string \<Rightarrow> sql_args \<Rightarrow> ('d, unit) run" where
  "SendStatement sql args = modifyP (\<lambda>s. s\<lparr>run_sent := run_sent s @ [(sql, args)]\<rparr>)"

definition exec_sent :: "'d migration_driver \<Rightarrow> string \<Rightarrow> sql_args \<Rightarrow> ('d, unit) run" where
  "exec_sent drv sql args = bindP (SendStatement sql args) (\<lambda>_. on_db (md_Exec drv sql args))"

definition query_sent :: "'d migration_driver \<Rightarrow> string \<Rightarrow> sql_args \<Rightarrow> ('d, sql_value list list) run" where
  "query_sent drv sql args = bindP (SendStatement sql args) (\<lambda>_. on_db (md_Query drv sql args))"

definition clock :: "'d migration_driver \<Rightarrow> ('d, int) run" where
  "clock drv = on_db (\<lambda>d. case md_Now drv d of (t, d') \<Rightarrow> (Inr t, d'))"

definition randomHex :: "'d migration_driver \<Rightarrow> nat \<Rightarrow> ('d, string) run" where
  "randomHex drv n = on_db (\<lambda>d. case md_randomHex drv n d of (h, d') \<Rightarrow> (Inr h, d'))"

definition notify :: "RunOptions \<Rightarrow> run_notice \<Rightarrow> ('d, unit) run" where
  "notify options n = (if Notify options then modifyP (\<lambda>s. s\<lparr>run_notices := run_notices s @ [n]\<rparr>) else retP ())"

text \<open>Running a part whose failure is handled, not returned.\<close>

definition attempt :: "('s, 'a) prog \<Rightarrow> ('s, 'a res) prog" where
  "attempt m s = (case m s of (r, s') \<Rightarrow> (Inr r, s'))"

section \<open>Reading rows\<close>

text \<open>\<open>Rows.Scan\<close> into an integer, a string and a nullable string.\<close>

definition ParseInt :: "string \<Rightarrow> int option" where
  "ParseInt s =
     (case s of
        [] \<Rightarrow> None
      | c # cs \<Rightarrow>
          (let (negative, digits) = (if c = CHR ''-'' then (True, cs) else if c = CHR ''+'' then (False, cs) else (False, s))
           in if digits = [] \<or> \<not> list_all is_decimal_digit digits then None
              else let n = (if negative then - int (digits_value digits) else int (digits_value digits))
                   in if - (2 ^ 63) \<le> n \<and> n < 2 ^ 63 then Some n else None))"

fun scan_int :: "sql_value \<Rightarrow> int res" where
  "scan_int (SqlInt i) = Inr i"
| "scan_int (SqlText s) = (case ParseInt s of Some i \<Rightarrow> Inr i | None \<Rightarrow> Inl (PlainError ''sql: Scan error''))"
| "scan_int SqlNull = Inl (PlainError ''sql: Scan error'')"

fun scan_text :: "sql_value \<Rightarrow> string res" where
  "scan_text (SqlText s) = Inr s"
| "scan_text (SqlInt i) = Inr (show_int i)"
| "scan_text SqlNull = Inl (PlainError ''sql: Scan error'')"

fun scan_null_text :: "sql_value \<Rightarrow> string option res" where
  "scan_null_text SqlNull = Inr None"
| "scan_null_text v = bindR (scan_text v) (\<lambda>s. Inr (Some s))"

text \<open>\<open>ReadViewDefinition\<close>: the first row's definition; no row, or a null, is an absent view.\<close>

definition ReadViewDefinition :: "'d migration_driver \<Rightarrow> Dialect \<Rightarrow> string \<Rightarrow> ('d, string option) run" where
  "ReadViewDefinition drv d view =
     bindP (query_sent drv (ViewDefinitionSQL d) [(''relation'', SqlText view)]) (\<lambda>rows.
       case rows of
         [] \<Rightarrow> retP None
       | [v] # _ \<Rightarrow> liftR (scan_null_text v)
       | _ # _ \<Rightarrow> failP (PlainError ''sql: Scan error''))"

definition ReadTriggerDefinitions :: "'d migration_driver \<Rightarrow> Dialect \<Rightarrow> string \<Rightarrow> ('d, string list) run" where
  "ReadTriggerDefinitions drv d name =
     bindP (query_sent drv (TriggerDefinitionSQL d) [(''relation'', SqlText name)]) (\<lambda>rows.
       bindP (liftR (res_map (\<lambda>row. case row of [v] \<Rightarrow> scan_null_text v | _ \<Rightarrow> Inl (PlainError ''sql: Scan error'')) rows)) (\<lambda>definitions.
         retP (List.map_filter id definitions)))"

record LiveColumn =
  lc_Name :: string
  lc_DeclaredType :: string
  lc_NotNull :: bool
  lc_PrimaryKey :: bool
  lc_Generated :: bool

fun scan_column :: "sql_value list \<Rightarrow> LiveColumn res" where
  "scan_column [n, t, nn, pk, g] =
     bindR (scan_text n) (\<lambda>name. bindR (scan_text t) (\<lambda>declaredType. bindR (scan_int nn) (\<lambda>notNull.
       bindR (scan_int pk) (\<lambda>key. bindR (scan_int g) (\<lambda>generated.
         Inr \<lparr>lc_Name = name, lc_DeclaredType = declaredType, lc_NotNull = (notNull \<noteq> 0), lc_PrimaryKey = (key \<noteq> 0), lc_Generated = (generated \<noteq> 0)\<rparr>)))))"
| "scan_column _ = Inl (PlainError ''sql: Scan error'')"

definition ReadLiveColumns :: "'d migration_driver \<Rightarrow> Dialect \<Rightarrow> string \<Rightarrow> ('d, (string \<times> LiveColumn) list) run" where
  "ReadLiveColumns drv d relation =
     bindP (query_sent drv (ColumnsInfoSQL d) [(''relation'', SqlText relation)]) (\<lambda>rows.
       bindP (liftR (res_map scan_column rows)) (\<lambda>columns.
         retP (fold (\<lambda>c. AList.update (to_lower (lc_Name c)) c) columns [])))"

section \<open>The recorded history\<close>

record recordedRow =
  rr_Description :: string
  rr_Checksum :: string

text \<open>The rows by version and object, and the recorded versions: a key appears once.\<close>

record recordedHistory =
  rh_rows :: "((int \<times> string) \<times> recordedRow) list"
  rh_versions :: "int list"

definition emptyHistory :: recordedHistory where
  "emptyHistory = \<lparr>rh_rows = [], rh_versions = []\<rparr>"

fun scan_history :: "sql_value list \<Rightarrow> (int \<times> string \<times> recordedRow) res" where
  "scan_history [v, ob, ds, ck] =
     bindR (scan_int v) (\<lambda>version. bindR (scan_text ob) (\<lambda>object'. bindR (scan_text ds) (\<lambda>description. bindR (scan_text ck) (\<lambda>checksum.
       Inr (version, object', \<lparr>rr_Description = description, rr_Checksum = checksum\<rparr>)))))"
| "scan_history _ = Inl (PlainError ''sql: Scan error'')"

definition add_recorded :: "int \<times> string \<times> recordedRow \<Rightarrow> recordedHistory \<Rightarrow> recordedHistory" where
  "add_recorded row h = (case row of (version, object', r) \<Rightarrow>
     \<lparr>rh_rows = AList.update (version, object') r (rh_rows h), rh_versions = List.insert version (rh_versions h)\<rparr>)"

definition selectHistory :: string where
  "selectHistory = ''select version, object, description, checksum from schema_version''"

definition readRecorded :: "'d migration_driver \<Rightarrow> ('d, recordedHistory) run" where
  "readRecorded drv =
     bindP (query_sent drv selectHistory []) (\<lambda>rows.
       bindP (liftR (res_map scan_history rows)) (\<lambda>scanned. retP (fold add_recorded scanned emptyHistory)))"

definition readRecordedIfPresent :: "'d migration_driver \<Rightarrow> Dialect \<Rightarrow> ('d, recordedHistory) run" where
  "readRecordedIfPresent drv d =
     bindP (ReadLiveColumns drv d ''schema_version'') (\<lambda>columns.
       if columns = [] then retP emptyHistory else readRecorded drv)"

definition computeChecksum :: "MigrationStatement list \<Rightarrow> string" where
  "computeChecksum statements = sha256_hex (join (nl @ '';'' @ nl) (map ms_SQL statements))"

section \<open>Validation\<close>

definition check_recorded :: "recordedHistory \<Rightarrow> int \<Rightarrow> RenderedStep \<Rightarrow> unit res" where
  "check_recorded recorded version step =
     (let target = version_label version @ '' '' @ rs_ObjectName step
      in case map_of (rh_rows recorded) (version, rs_ObjectName step) of
           None \<Rightarrow> Inl (OrmError ''MIG-010'' target)
         | Some row \<Rightarrow> if rr_Checksum row \<noteq> computeChecksum (rs_Up step) then Inl (OrmError ''MIG-010'' target) else Inr ())"

definition validateHistory :: "RenderedVersion list \<Rightarrow> recordedHistory \<Rightarrow> unit res" where
  "validateHistory plan recorded =
     bindR (res_fold (\<lambda>version _. if rdv_Version version \<notin> set (rh_versions recorded) then Inr ()
                                  else res_fold (\<lambda>step _. check_recorded recorded (rdv_Version version) step) (rdv_Steps version) ()) plan ()) (\<lambda>_.
       res_fold (\<lambda>key _. if fst key \<in> set (map rdv_Version plan) then Inr ()
                         else Inl (OrmError ''MIG-011'' (version_label (fst key) @ '' '' @ snd key)))
         (sort (map fst (rh_rows recorded))) ())"

definition refusePendingDrafts :: "RenderedVersion list \<Rightarrow> recordedHistory \<Rightarrow> (int \<Rightarrow> bool) \<Rightarrow> unit res" where
  "refusePendingDrafts plan recorded inScope =
     res_fold (\<lambda>version _. if \<not> rdv_Draft version \<or> rdv_Version version \<in> set (rh_versions recorded) \<or> \<not> inScope (rdv_Version version) then Inr ()
                           else Inl (OrmError ''MIG-013'' (version_label (rdv_Version version)))) plan ()"

section \<open>Statements\<close>

text \<open>\<open>execute\<close> wraps the driver's error as MIG-021.\<close>

definition mig021 :: "('d, 'a) run \<Rightarrow> ('d, 'a) run" where
  "mig021 m s = (case m s of (Inl e, s') \<Rightarrow> (Inl (OrmError ''MIG-021'' ''migration statement''), s') | r \<Rightarrow> r)"

definition execute :: "'d migration_driver \<Rightarrow> string \<Rightarrow> ('d, unit) run" where
  "execute drv statement = mig021 (exec_sent drv statement [])"

definition ensureVersionTable :: "'d migration_driver \<Rightarrow> Dialect \<Rightarrow> ('d, unit) run" where
  "ensureVersionTable drv d = execute drv (VersionTableSQL d)"

definition insertRecord :: string where
  "insertRecord = ''insert into schema_version (version, object, description, checksum, applied_at, execution_ms) '' @
     ''values (@version, @object, @description, @checksum, @applied_at, @execution_ms)''"

definition record_args :: "int \<Rightarrow> RenderedStep \<Rightarrow> string \<Rightarrow> int \<Rightarrow> sql_args" where
  "record_args version step applied_at execution_ms =
     [(''version'', SqlInt version), (''object'', SqlText (rs_ObjectName step)), (''description'', SqlText (rs_Description step)),
      (''checksum'', SqlText (computeChecksum (rs_Up step))), (''applied_at'', SqlText applied_at), (''execution_ms'', SqlInt execution_ms)]"

definition record_step :: "'d migration_driver \<Rightarrow> int \<Rightarrow> RenderedStep \<Rightarrow> int \<Rightarrow> ('d, unit) run" where
  "record_step drv version step executionMs =
     bindP (clock drv) (\<lambda>now. exec_sent drv insertRecord (record_args version step (md_FormatUTC drv now) executionMs))"

definition deleteRecord :: string where
  "deleteRecord = ''delete from schema_version where version = @version''"

definition deleteVersionRecord :: "'d migration_driver \<Rightarrow> int \<Rightarrow> ('d, unit) run" where
  "deleteVersionRecord drv version = mig021 (exec_sent drv deleteRecord [(''version'', SqlInt version)])"

definition Milliseconds :: "int \<Rightarrow> int" where
  "Milliseconds ns = (if ns < 0 then - ((- ns) div 1000000) else ns div 1000000)"

section \<open>Guards\<close>

definition savepoint :: string where
  "savepoint = ''simpleorm_probe''"

definition roll_back :: "'d migration_driver \<Rightarrow> ('d, unit) run" where
  "roll_back drv =
     bindP (attempt (on_db (md_Exec drv (''rollback to savepoint '' @ savepoint) []))) (\<lambda>_.
     bindP (attempt (on_db (md_Exec drv (''release savepoint '' @ savepoint) []))) (\<lambda>_. retP ()))"

definition viewMatchesExpectation :: "'d migration_driver \<Rightarrow> Dialect \<Rightarrow> MigrationStatement \<Rightarrow> ('d, string option \<times> bool) run" where
  "viewMatchesExpectation drv d statement =
     bindP (ReadViewDefinition drv d (ms_GuardView statement)) (\<lambda>live.
       case live of
         None \<Rightarrow> retP (None, False)
       | Some ddl \<Rightarrow>
           if ViewDefinitionIsVerbatim d then retP (live, NormalizeDDL ddl = ms_SQL statement)
           else case ViewParts (ms_SQL statement) of
             None \<Rightarrow> retP (live, NormalizeDDL ddl = ms_SQL statement)
           | Some (_, body, _) \<Rightarrow>
               bindP (randomHex drv 8) (\<lambda>hex.
               let probe = ''simpleorm_expect_'' @ hex in
               bindP (on_db (md_Exec drv (''savepoint '' @ savepoint) [])) (\<lambda>_.
               bindP (attempt (exec_sent drv (CreateViewFromBodySQL d probe body False) [])) (\<lambda>created.
                 case created of
                   Inl e \<Rightarrow> bindP (roll_back drv) (\<lambda>_. retP (live, False))
                 | Inr _ \<Rightarrow>
                     bindP (attempt (bindP (ReadViewDefinition drv d probe) (\<lambda>expected.
                              bindP (exec_sent drv (DropViewSQL d probe False) []) (\<lambda>_. retP expected)))) (\<lambda>read.
                       case read of
                         Inl e \<Rightarrow> bindP (roll_back drv) (\<lambda>_. retP (live, False))
                       | Inr expected \<Rightarrow>
                           bindP (on_db (md_Exec drv (''release savepoint '' @ savepoint) [])) (\<lambda>_.
                             retP (live, map_option TrimSpace expected = Some (TrimSpace ddl))))))))"

definition drift :: "RunOptions \<Rightarrow> guarded \<Rightarrow> string \<Rightarrow> bool \<Rightarrow> ('d, unit) run" where
  "drift options kind target absent =
     (if \<not> AllowViewDrift options then failP (OrmError ''MIG-012'' target) else notify options (DriftNotice kind target absent))"

definition applyTriggerGuard :: "'d migration_driver \<Rightarrow> Dialect \<Rightarrow> int \<Rightarrow> MigrationStatement \<Rightarrow> RunOptions \<Rightarrow> ('d, unit) run" where
  "applyTriggerGuard drv d version statement options =
     bindP (ReadTriggerDefinitions drv d (ms_GuardTrigger statement)) (\<lambda>live.
       if TriggerStatementsMatch live (ms_Expected statement) then retP ()
       else drift options GuardedTrigger (version_label version @ '' '' @ ms_GuardTrigger statement) (live = []))"

definition applyStatement :: "'d migration_driver \<Rightarrow> Dialect \<Rightarrow> int \<Rightarrow> MigrationStatement \<Rightarrow> RunOptions \<Rightarrow> ('d, unit) run" where
  "applyStatement drv d version statement options =
     (if ms_GuardTrigger statement \<noteq> [] then applyTriggerGuard drv d version statement options
      else if ms_GuardView statement = [] then execute drv (ms_SQL statement)
      else bindP (viewMatchesExpectation drv d statement) (\<lambda>(live, matches).
        if matches then retP ()
        else drift options GuardedView (version_label version @ '' '' @ ms_GuardView statement) (live = None)))"

section \<open>A run under the lock\<close>

text \<open>
  The two deferred calls of a run: the connection is closed however the run ends, and the transaction is rolled
  back unless it was committed.
\<close>

definition deferred :: "('d \<Rightarrow> 'd) \<Rightarrow> ('d, 'a) run \<Rightarrow> ('d, 'a) run" where
  "deferred f m s = (case m s of (r, t) \<Rightarrow> (r, t\<lparr>run_db := f (run_db t)\<rparr>))"

definition unless_returned :: "('d \<Rightarrow> 'd) \<Rightarrow> ('d, 'a) run \<Rightarrow> ('d, 'a) run" where
  "unless_returned f m s = (case m s of (Inl e, t) \<Rightarrow> (Inl e, t\<lparr>run_db := f (run_db t)\<rparr>) | r \<Rightarrow> r)"

definition in_run_lock :: "'d migration_driver \<Rightarrow> ('d, 'a) run \<Rightarrow> ('d, 'a) run" where
  "in_run_lock drv body =
     bindP (on_db (md_Conn drv)) (\<lambda>_. deferred (md_Close drv) (
       bindP (on_db (md_Lock drv)) (\<lambda>_. unless_returned (md_Rollback drv) (
         bindP body (\<lambda>x. bindP (on_db (md_Commit drv)) (\<lambda>_. retP x))))))"

definition openHistory :: "'d Runner \<Rightarrow> ('d, recordedHistory) run" where
  "openHistory r = bindP (ensureVersionTable (rn_driver r) (rn_dialect r)) (\<lambda>_. readRecorded (rn_driver r))"

definition is_recorded :: "recordedHistory \<Rightarrow> RenderedVersion \<Rightarrow> bool" where
  "is_recorded recorded version = (rdv_Version version \<in> set (rh_versions recorded))"

section \<open>Migrate\<close>

definition apply_step :: "'d Runner \<Rightarrow> RunOptions \<Rightarrow> int \<Rightarrow> RenderedStep \<Rightarrow> ('d, unit) run" where
  "apply_step r options version step =
     bindP (clock (rn_driver r)) (\<lambda>start.
     bindP (eachP (\<lambda>statement. applyStatement (rn_driver r) (rn_dialect r) version statement options) (rs_Up step)) (\<lambda>_.
     bindP (clock (rn_driver r)) (\<lambda>now. record_step (rn_driver r) version step (Milliseconds (now - start)))))"

fun migrate_versions :: "'d Runner \<Rightarrow> RunOptions \<Rightarrow> recordedHistory \<Rightarrow> RenderedVersion list \<Rightarrow> nat \<Rightarrow> ('d, nat) run" where
  "migrate_versions r options recorded [] applied = retP applied"
| "migrate_versions r options recorded (version # plan) applied =
     (if is_recorded recorded version then migrate_versions r options recorded plan applied
      else bindP (eachP (apply_step r options (rdv_Version version)) (rdv_Steps version)) (\<lambda>_.
             migrate_versions r options recorded plan (Suc applied)))"

definition Migrate :: "'d Runner \<Rightarrow> RunOptions \<Rightarrow> ('d, nat) run" where
  "Migrate r options =
     bindP (liftR (Render (rn_maps r) (rn_dialect r) (rn_set r))) (\<lambda>plan.
     in_run_lock (rn_driver r) (
       bindP (openHistory r) (\<lambda>recorded.
       bindP (liftR (validateHistory plan recorded)) (\<lambda>_.
       bindP (liftR (refusePendingDrafts plan recorded (\<lambda>_. True))) (\<lambda>_.
         migrate_versions r options recorded plan 0)))))"

section \<open>Migrate down\<close>

definition reverting_versions :: "RenderedVersion list \<Rightarrow> recordedHistory \<Rightarrow> int \<Rightarrow> RenderedVersion list" where
  "reverting_versions plan recorded targetVersion =
     rev (sort_key rdv_Version (filter (\<lambda>version. rdv_Version version > targetVersion \<and> is_recorded recorded version) plan))"

type_synonym derived_cores = "((int \<times> string) \<times> MigrationStatement list) list"

definition resolve_step ::
  "'d Runner \<Rightarrow> RenderedStep \<Rightarrow> derived_cores \<times> notice list \<Rightarrow> (derived_cores \<times> notice list) res" where
  "resolve_step r step acc =
     (if rs_Up step = [] \<or> dp_Core (rs_Down step) \<noteq> [] then Inr acc
      else bindR (DeriveDown (rs_ObjectName step) (rs_Version step) (rn_snapshots r) (rs_Renames step) (rn_dialect r)) (\<lambda>derived.
        case derived of
          None \<Rightarrow> Inl (OrmError ''MIG-020'' (version_label (rs_Version step) @ '' '' @ rs_ObjectName step))
        | Some (core, notices) \<Rightarrow>
            Inr (AList.update (rs_Version step, rs_ObjectName step) core (fst acc), snd acc @ notices)))"

definition resolve_rollbacks :: "'d Runner \<Rightarrow> RenderedVersion list \<Rightarrow> (derived_cores \<times> notice list) res" where
  "resolve_rollbacks r reverting =
     res_fold (\<lambda>version acc. res_fold (resolve_step r) (rdv_Steps version) acc) reverting ([], [])"

definition core_statements :: "derived_cores \<Rightarrow> RenderedStep \<Rightarrow> MigrationStatement list" where
  "core_statements derived step =
     (if dp_Core (rs_Down step) \<noteq> [] then dp_Core (rs_Down step)
      else case map_of derived (rs_Version step, rs_ObjectName step) of None \<Rightarrow> [] | Some core \<Rightarrow> core)"

definition down_statements :: "derived_cores \<Rightarrow> RenderedStep \<Rightarrow> MigrationStatement list" where
  "down_statements derived step = dp_Pre (rs_Down step) @ core_statements derived step @ dp_Post (rs_Down step)"

definition revert_version :: "'d Runner \<Rightarrow> RunOptions \<Rightarrow> derived_cores \<Rightarrow> RenderedVersion \<Rightarrow> ('d, unit) run" where
  "revert_version r options derived version =
     bindP (eachP (\<lambda>step. eachP (\<lambda>statement. applyStatement (rn_driver r) (rn_dialect r) (rdv_Version version) statement options)
                            (down_statements derived step)) (rev (rdv_Steps version))) (\<lambda>_.
       deleteVersionRecord (rn_driver r) (rdv_Version version))"

definition MigrateDown :: "'d Runner \<Rightarrow> int \<Rightarrow> RunOptions \<Rightarrow> ('d, nat) run" where
  "MigrateDown r targetVersion options =
     bindP (liftR (Render (rn_maps r) (rn_dialect r) (rn_set r))) (\<lambda>plan.
     in_run_lock (rn_driver r) (
       bindP (openHistory r) (\<lambda>recorded.
       bindP (liftR (validateHistory plan recorded)) (\<lambda>_.
       let reverting = reverting_versions plan recorded targetVersion in
       bindP (liftR (resolve_rollbacks r reverting)) (\<lambda>(derived, notices).
       bindP (eachP (\<lambda>n. notify options (DerivedNotice n)) notices) (\<lambda>_.
       bindP (eachP (revert_version r options derived) reverting) (\<lambda>_.
         retP (length reverting))))))))"

section \<open>Baseline\<close>

definition baseline_version :: "'d Runner \<Rightarrow> recordedHistory \<Rightarrow> int \<Rightarrow> RenderedVersion \<Rightarrow> ('d, unit) run" where
  "baseline_version r recorded version entry =
     (if rdv_Version entry > version \<or> is_recorded recorded entry then retP ()
      else eachP (\<lambda>step. record_step (rn_driver r) (rdv_Version entry) step 0) (rdv_Steps entry))"

definition Baseline :: "'d Runner \<Rightarrow> int \<Rightarrow> ('d, unit) run" where
  "Baseline r version =
     bindP (liftR (Render (rn_maps r) (rn_dialect r) (rn_set r))) (\<lambda>plan.
     in_run_lock (rn_driver r) (
       bindP (openHistory r) (\<lambda>recorded.
       bindP (liftR (refusePendingDrafts plan recorded (\<lambda>v. v \<le> version))) (\<lambda>_.
         eachP (baseline_version r recorded version) plan))))"

section \<open>Status\<close>

datatype MigrationState = Pending | Applied | Drifted | Unknown | Draft

record MigrationEntry =
  me_Version :: int
  me_ObjectName :: string
  me_Description :: string
  me_State :: MigrationState

definition step_state :: "recordedHistory \<Rightarrow> RenderedVersion \<Rightarrow> RenderedStep \<Rightarrow> MigrationState" where
  "step_state recorded version step =
     (case map_of (rh_rows recorded) (rdv_Version version, rs_ObjectName step) of
        Some row \<Rightarrow> if rr_Checksum row = computeChecksum (rs_Up step) then Applied else Drifted
      | None \<Rightarrow> if is_recorded recorded version then Drifted else if rdv_Draft version then Draft else Pending)"

definition plan_entries :: "RenderedVersion list \<Rightarrow> recordedHistory \<Rightarrow> MigrationEntry list" where
  "plan_entries plan recorded =
     List.maps (\<lambda>version. map (\<lambda>step. \<lparr>me_Version = rdv_Version version, me_ObjectName = rs_ObjectName step,
                                   me_Description = rs_Description step, me_State = step_state recorded version step\<rparr>) (rdv_Steps version)) plan"

text \<open>Whether the first version of the plan with the key's number composes the key's object.\<close>

definition composed :: "RenderedVersion list \<Rightarrow> int \<times> string \<Rightarrow> bool" where
  "composed plan key =
     (case find (\<lambda>version. rdv_Version version = fst key) plan of
        None \<Rightarrow> False
      | Some version \<Rightarrow> snd key \<in> set (map rs_ObjectName (rdv_Steps version)))"

definition unknown_entries :: "RenderedVersion list \<Rightarrow> recordedHistory \<Rightarrow> MigrationEntry list" where
  "unknown_entries plan recorded =
     map (\<lambda>(key, row). \<lparr>me_Version = fst key, me_ObjectName = snd key, me_Description = rr_Description row, me_State = Unknown\<rparr>)
       (filter (\<lambda>(key, row). \<not> composed plan key) (rh_rows recorded))"

definition status_entries :: "RenderedVersion list \<Rightarrow> recordedHistory \<Rightarrow> MigrationEntry list" where
  "status_entries plan recorded =
     sort_key (\<lambda>e. (me_Version e, me_ObjectName e)) (plan_entries plan recorded @ unknown_entries plan recorded)"

definition Status :: "'d Runner \<Rightarrow> ('d, MigrationEntry list) run" where
  "Status r =
     bindP (liftR (Render (rn_maps r) (rn_dialect r) (rn_set r))) (\<lambda>plan.
     bindP (on_db (md_Conn (rn_driver r))) (\<lambda>_. deferred (md_Close (rn_driver r)) (
       bindP (readRecordedIfPresent (rn_driver r) (rn_dialect r)) (\<lambda>recorded. retP (status_entries plan recorded)))))"

definition HasPending :: "'d Runner \<Rightarrow> ('d, bool) run" where
  "HasPending r =
     bindP (Status r) (\<lambda>entries. retP (list_ex (\<lambda>e. me_State e = Pending \<or> me_State e = Draft) entries))"

end
