(* ===== verification/Migration_History.thy ===== *)
theory Migration_History
  imports Migration_Run
begin

text \<open>
  The recorded history as the runner's abstract state: what a database promises of it, as laws of the driver,
  and what each part of a run does to it. A run is one transaction on that state: the triples follow the
  working history, the committed one stays as it was until the commit.
\<close>

section \<open>The database behind the driver\<close>

type_synonym history = "int \<times> string \<Rightarrow> recordedRow option"

record 'd database_view =
  committed :: "'d \<Rightarrow> history"
  working :: "'d \<Rightarrow> history option"

definition seen :: "'d database_view \<Rightarrow> 'd \<Rightarrow> history" where
  "seen V d = (case working V d of None \<Rightarrow> committed V d | Some h \<Rightarrow> h)"

definition same_view :: "'d database_view \<Rightarrow> 'd \<Rightarrow> 'd \<Rightarrow> bool" where
  "same_view V d d' \<longleftrightarrow> committed V d' = committed V d \<and> working V d' = working V d"

text \<open>A transaction sees its own changes; they become the committed ones when it commits, or are dropped.\<close>

definition transaction_laws :: "'d migration_driver \<Rightarrow> 'd database_view \<Rightarrow> bool" where
  "transaction_laws drv V \<longleftrightarrow>
     (\<forall>d. same_view V d (snd (md_Conn drv d)) \<and> same_view V d (md_Close drv d) \<and> same_view V d (snd (md_Now drv d)) \<and>
       (\<forall>n. same_view V d (snd (md_randomHex drv n d))) \<and>
       committed V (md_Rollback drv d) = committed V d \<and> working V (md_Rollback drv d) = None) \<and>
     (\<forall>d. working V d = None \<longrightarrow>
       (case md_Lock drv d of
          (Inl e, d') \<Rightarrow> same_view V d d'
        | (Inr _, d') \<Rightarrow> committed V d' = committed V d \<and> working V d' = Some (committed V d))) \<and>
     (\<forall>d h. working V d = Some h \<longrightarrow>
       (case md_Commit drv d of
          (Inl e, d') \<Rightarrow> committed V d' = committed V d
        | (Inr _, d') \<Rightarrow> committed V d' = h \<and> working V d' = None))"

definition recorded_row :: "RenderedStep \<Rightarrow> recordedRow" where
  "recorded_row step = \<lparr>rr_Description = rs_Description step, rr_Checksum = computeChecksum (rs_Up step)\<rparr>"

definition record_in :: "int \<Rightarrow> RenderedStep \<Rightarrow> history \<Rightarrow> history" where
  "record_in version step h = h((version, rs_ObjectName step) \<mapsto> recorded_row step)"

definition delete_in :: "int \<Rightarrow> history \<Rightarrow> history" where
  "delete_in version h = h |` {key. fst key \<noteq> version}"

definition history_rows :: "(int \<times> string \<times> recordedRow) list \<Rightarrow> history" where
  "history_rows rows = map_of (map (\<lambda>(version, object', row). ((version, object'), row)) rows)"

text \<open>
  Plain statements are those that leave the history and the transaction alone; the two bound statements write
  the history, and the select reads it.
\<close>

definition statement_laws :: "'d migration_driver \<Rightarrow> 'd database_view \<Rightarrow> (string \<Rightarrow> bool) \<Rightarrow> bool" where
  "statement_laws drv V plain \<longleftrightarrow>
     plain (''savepoint '' @ savepoint) \<and> plain (''rollback to savepoint '' @ savepoint) \<and> plain (''release savepoint '' @ savepoint) \<and>
     (\<forall>sql d. plain sql \<longrightarrow> same_view V d (snd (md_Exec drv sql [] d))) \<and>
     (\<forall>version step at' ms d. case md_Exec drv insertRecord (record_args version step at' ms) d of
          (Inl e, d') \<Rightarrow> same_view V d d'
        | (Inr _, d') \<Rightarrow> committed V d' = committed V d \<and> working V d' = map_option (record_in version step) (working V d)) \<and>
     (\<forall>version d. case md_Exec drv deleteRecord [(''version'', SqlInt version)] d of
          (Inl e, d') \<Rightarrow> same_view V d d'
        | (Inr _, d') \<Rightarrow> committed V d' = committed V d \<and> working V d' = map_option (delete_in version) (working V d))"

definition reading_laws :: "'d migration_driver \<Rightarrow> 'd database_view \<Rightarrow> bool" where
  "reading_laws drv V \<longleftrightarrow>
     (\<forall>sql args d. same_view V d (snd (md_Query drv sql args d))) \<and>
     (\<forall>d rows scanned. fst (md_Query drv selectHistory [] d) = Inr rows \<and> res_map scan_history rows = Inr scanned \<longrightarrow>
       distinct (map (\<lambda>(version, object', row). (version, object')) scanned) \<and> history_rows scanned = seen V d)"

definition history_laws :: "'d migration_driver \<Rightarrow> 'd database_view \<Rightarrow> (string \<Rightarrow> bool) \<Rightarrow> bool" where
  "history_laws drv V plain \<longleftrightarrow> transaction_laws drv V \<and> statement_laws drv V plain \<and> reading_laws drv V"

text \<open>The steps' own statements carry no arguments: those that do are the runner's.\<close>

definition all_plain :: "(string \<Rightarrow> bool) \<Rightarrow> (string \<times> sql_args) list \<Rightarrow> bool" where
  "all_plain plain sent \<longleftrightarrow> (\<forall>(sql, args) \<in> set sent. args = [] \<longrightarrow> plain sql)"

section \<open>Triples\<close>

text \<open>Where a run stands: if all it sent was plain, the committed history is \<open>c\<close>, its own is \<open>w\<close>, and \<open>\<phi>\<close> is known.\<close>

definition stands :: "'d database_view \<Rightarrow> (string \<Rightarrow> bool) \<Rightarrow> bool \<Rightarrow> history \<Rightarrow> history \<Rightarrow> 'd run_state \<Rightarrow> bool" where
  "stands V plain \<phi> c w s \<longleftrightarrow>
     (all_plain plain (run_sent s) \<longrightarrow> \<phi> \<and> committed V (run_db s) = c \<and> working V (run_db s) = Some w)"

definition stopped :: "'d database_view \<Rightarrow> (string \<Rightarrow> bool) \<Rightarrow> history \<Rightarrow> go_error \<Rightarrow> 'd run_state \<Rightarrow> bool" where
  "stopped V plain c e s \<longleftrightarrow> (all_plain plain (run_sent s) \<longrightarrow> committed V (run_db s) = c)"

lemma stands_stopped: "stands V plain \<phi> c w s \<Longrightarrow> stopped V plain c e s"
  by (simp add: stands_def stopped_def)

definition quiet :: "'d database_view \<Rightarrow> (string \<Rightarrow> bool) \<Rightarrow> ('d, 'a) run \<Rightarrow> bool" where
  "quiet V plain m \<longleftrightarrow> (\<forall>\<phi> c w. keeps (stands V plain \<phi> c w) m)"

lemma quietD: "quiet V plain m \<Longrightarrow> keeps (stands V plain \<phi> c w) m"
  by (simp add: quiet_def)

lemma quiet_intros:
  "quiet V plain (retP x)" "quiet V plain (failP e)" "quiet V plain (liftR r)" "quiet V plain (getP g)"
  "quiet V plain m \<Longrightarrow> (\<And>x. quiet V plain (f x)) \<Longrightarrow> quiet V plain (bindP m f)"
  "(\<And>y. y \<in> set ys \<Longrightarrow> quiet V plain (h y)) \<Longrightarrow> quiet V plain (eachP h ys)"
  by (auto simp: quiet_def intro: keeps_intros keeps_bind)

lemma quiet_case_prod: "(\<And>a b. quiet V plain (f a b)) \<Longrightarrow> quiet V plain (case p of (a, b) \<Rightarrow> f a b)"
  by (cases p) simp

lemma quiet_option: "quiet V plain m \<Longrightarrow> (\<And>y. quiet V plain (f y)) \<Longrightarrow> quiet V plain (case z of None \<Rightarrow> m | Some y \<Rightarrow> f y)"
  by (cases z) auto

lemma quiet_list: "quiet V plain m \<Longrightarrow> (\<And>y ys. quiet V plain (f y ys)) \<Longrightarrow> quiet V plain (case z of [] \<Rightarrow> m | y # ys \<Rightarrow> f y ys)"
  by (cases z) auto

lemma quiet_sum: "(\<And>e. quiet V plain (g e)) \<Longrightarrow> (\<And>y. quiet V plain (f y)) \<Longrightarrow> quiet V plain (case z of Inl e \<Rightarrow> g e | Inr y \<Rightarrow> f y)"
  by (cases z) auto

lemma quiet_if: "quiet V plain m \<Longrightarrow> quiet V plain m' \<Longrightarrow> quiet V plain (if b then m else m')"
  by simp

lemma quiet_on_db:
  assumes "\<And>d. same_view V d (snd (m d))"
  shows "quiet V plain (on_db m)"
  unfolding quiet_def keeps_def
proof (intro allI validI)
  fix \<phi> c w s t x e
  have *: "same_view V (run_db s) (run_db t) \<and> run_sent t = run_sent s" if "on_db m s = (r, t)" for r
    using that assms [of "run_db s"] by (auto simp: on_db_def split: prod.splits)
  show "stands V plain \<phi> c w s \<Longrightarrow> on_db m s = (Inr x, t) \<Longrightarrow> stands V plain \<phi> c w t"
    and "stands V plain \<phi> c w s \<Longrightarrow> on_db m s = (Inl e, t) \<Longrightarrow> stands V plain \<phi> c w t"
    using * by (auto simp: stands_def same_view_def)
qed

lemma quiet_attempt: "quiet V plain m \<Longrightarrow> quiet V plain (attempt m)"
  unfolding quiet_def keeps_def valid_def attempt_def by (fastforce split: prod.splits sum.splits)

lemma quiet_mig021: "quiet V plain m \<Longrightarrow> quiet V plain (mig021 m)"
  unfolding quiet_def keeps_def valid_def mig021_def by (fastforce split: prod.splits sum.splits)

lemma quiet_notify: "quiet V plain (notify options n)"
  by (simp add: quiet_def keeps_def valid_def notify_def prog_defs stands_def)

lemma all_plain_snoc: "all_plain plain (xs @ [(sql, args)]) \<longleftrightarrow> all_plain plain xs \<and> (args = [] \<longrightarrow> plain sql)"
  by (auto simp: all_plain_def)

lemma exec_sent_run:
  "exec_sent drv sql args s =
     (case md_Exec drv sql args (run_db s) of (r, d) \<Rightarrow> (r, s\<lparr>run_sent := run_sent s @ [(sql, args)], run_db := d\<rparr>))"
  by (simp add: exec_sent_def bindP_def SendStatement_def modifyP_def on_db_def)

lemma query_sent_run:
  "query_sent drv sql args s =
     (case md_Query drv sql args (run_db s) of (r, d) \<Rightarrow> (r, s\<lparr>run_sent := run_sent s @ [(sql, args)], run_db := d\<rparr>))"
  by (simp add: query_sent_def bindP_def SendStatement_def modifyP_def on_db_def)

section \<open>Under the laws\<close>

text \<open>What the read history says of the one it was read from.\<close>

definition reads :: "recordedHistory \<Rightarrow> history \<Rightarrow> bool" where
  "reads recorded h \<longleftrightarrow>
     map_of (rh_rows recorded) = h \<and> set (rh_versions recorded) = fst ` dom h \<and> distinct (map fst (rh_rows recorded))"

lemma dom_history_rows: "dom (history_rows xs) = set (map (\<lambda>(v, ob, row). (v, ob)) xs)"
  unfolding history_rows_def dom_map_of_conv_image_fst by (induction xs) (simp_all add: split_def)

lemma fold_add_recorded:
  "distinct (map (\<lambda>(v, ob, row). (v, ob)) xs) \<Longrightarrow> distinct (map fst (rh_rows h)) \<Longrightarrow>
   map_of (rh_rows (fold add_recorded xs h)) = map_of (rh_rows h) ++ history_rows xs \<and>
   set (rh_versions (fold add_recorded xs h)) = set (rh_versions h) \<union> fst ` set xs \<and>
   distinct (map fst (rh_rows (fold add_recorded xs h)))"
proof (induction xs arbitrary: h)
  case (Cons x xs)
  obtain v ob row where x: "x = (v, ob, row)"
    by (cases x)
  have "map_of (rh_rows (add_recorded x h)) = (map_of (rh_rows h))((v, ob) \<mapsto> row)"
    "set (rh_versions (add_recorded x h)) = insert v (set (rh_versions h))"
    "distinct (map fst (rh_rows (add_recorded x h)))"
    using Cons.prems by (simp_all add: x add_recorded_def update_conv' distinct_update)
  moreover have "(map_of (rh_rows h))((v, ob) \<mapsto> row) ++ history_rows xs = map_of (rh_rows h) ++ history_rows (x # xs)"
    using Cons.prems(1) by (simp add: map_add_upd_left dom_history_rows x) (simp add: history_rows_def)
  ultimately show ?case
    using Cons.IH [of "add_recorded x h"] Cons.prems(1) by (simp add: x del: fun_upd_apply)
qed (simp add: history_rows_def)

lemma reads_recorded:
  assumes "distinct (map (\<lambda>(v, ob, row). (v, ob)) xs)"
  shows "reads (fold add_recorded xs emptyHistory) (history_rows xs)"
  using fold_add_recorded [OF assms, of emptyHistory]
  by (auto simp: reads_def emptyHistory_def dom_history_rows image_image split_def)

lemma valid_each_fold:
  "(\<And>x w. x \<in> set xs \<Longrightarrow> valid (I w) (f x) (\<lambda>_. I (g x w)) E) \<Longrightarrow> valid (I w) (eachP f xs) (\<lambda>_. I (fold g xs w)) E"
proof (induction xs arbitrary: w)
  case (Cons x xs)
  have "valid (I w) (f x) (\<lambda>_. I (g x w)) E" and "valid (I (g x w)) (eachP f xs) (\<lambda>_. I (fold g xs (g x w))) E"
    using Cons by auto
  then show ?case
    by (auto intro: valid_bind)
qed (auto intro: valid_ret)

lemma valid_mig021: "valid P m Q (stopped V plain c) \<Longrightarrow> valid P (mig021 m) Q (stopped V plain c)"
  unfolding valid_def mig021_def by (fastforce simp: stopped_def split: prod.splits sum.splits)

text \<open>A driver that keeps the laws, and what each part of a run then does to the history.\<close>

locale migration_database =
  fixes drv :: "'d migration_driver" and V :: "'d database_view" and plain :: "string \<Rightarrow> bool"
  assumes history_laws: "history_laws drv V plain"
begin

lemma transaction_laws: "transaction_laws drv V" and statement_laws: "statement_laws drv V plain" and reading_laws: "reading_laws drv V"
  using history_laws by (simp_all add: history_laws_def)

lemma plain_exec: "plain sql \<Longrightarrow> same_view V d (snd (md_Exec drv sql [] d))"
  using statement_laws by (simp add: statement_laws_def)

lemma plain_exec_run: "plain sql \<Longrightarrow> md_Exec drv sql [] d = (r, d') \<Longrightarrow> committed V d' = committed V d \<and> working V d' = working V d"
  using plain_exec [of sql d] by (simp add: same_view_def)

lemma savepoint_plain: "plain (''savepoint '' @ savepoint)" "plain (''rollback to savepoint '' @ savepoint)" "plain (''release savepoint '' @ savepoint)"
  using statement_laws by (simp_all add: statement_laws_def)

lemma quiet_savepoint:
  "quiet V plain (on_db (md_Exec drv (''savepoint '' @ savepoint) []))"
  "quiet V plain (on_db (md_Exec drv (''rollback to savepoint '' @ savepoint) []))"
  "quiet V plain (on_db (md_Exec drv (''release savepoint '' @ savepoint) []))"
  using plain_exec savepoint_plain by (auto intro!: quiet_on_db)

lemma quiet_clock: "quiet V plain (clock drv)"
  unfolding clock_def by (rule quiet_on_db) (use transaction_laws in \<open>simp add: transaction_laws_def split_beta\<close>)

lemma quiet_randomHex: "quiet V plain (randomHex drv n)"
  unfolding randomHex_def by (rule quiet_on_db) (use transaction_laws in \<open>simp add: transaction_laws_def split_beta\<close>)

lemma quiet_exec_sent: "quiet V plain (exec_sent drv sql [])"
  unfolding quiet_def keeps_def
  by (intro allI validI; cases "plain sql")
     (auto simp: stands_def exec_sent_run all_plain_snoc dest: plain_exec_run split: prod.splits)

lemma quiet_query_sent: "quiet V plain (query_sent drv sql args)"
  unfolding quiet_def keeps_def
proof (intro allI validI)
  fix \<phi> c w s t x e
  have *: "same_view V d (snd (md_Query drv sql args d))" for d
    using reading_laws by (simp add: reading_laws_def)
  show "stands V plain \<phi> c w s \<Longrightarrow> query_sent drv sql args s = (Inr x, t) \<Longrightarrow> stands V plain \<phi> c w t"
    and "stands V plain \<phi> c w s \<Longrightarrow> query_sent drv sql args s = (Inl e, t) \<Longrightarrow> stands V plain \<phi> c w t"
    using * [of "run_db s"] by (auto simp: stands_def query_sent_run all_plain_snoc same_view_def split: prod.splits)
qed

lemmas quiet_db = quiet_savepoint quiet_clock quiet_randomHex quiet_exec_sent quiet_query_sent

lemma quiet_readers: "quiet V plain (ReadViewDefinition drv d view)" "quiet V plain (ReadTriggerDefinitions drv d name)"
  "quiet V plain (ReadLiveColumns drv d relation)" "quiet V plain (execute drv sql)" "quiet V plain (roll_back drv)"
  unfolding ReadViewDefinition_def ReadTriggerDefinitions_def ReadLiveColumns_def execute_def roll_back_def
  subgoal by (intro quiet_intros quiet_db quiet_list)
  subgoal by (intro quiet_intros quiet_db quiet_list)
  subgoal by (intro quiet_intros quiet_db quiet_list)
  subgoal by (intro quiet_mig021 quiet_db)
  subgoal by (intro quiet_intros quiet_db quiet_attempt)
  done

lemma quiet_viewMatches: "quiet V plain (viewMatchesExpectation drv d statement)"
  unfolding viewMatchesExpectation_def Let_def
  by (intro quiet_intros quiet_db quiet_readers quiet_attempt quiet_option quiet_if quiet_case_prod quiet_sum)

lemma quiet_applyStatement: "quiet V plain (applyStatement drv d version statement options)"
  unfolding applyStatement_def applyTriggerGuard_def drift_def
  by (intro quiet_if quiet_intros quiet_readers quiet_viewMatches quiet_case_prod quiet_notify)

lemma quiet_then:
  "quiet V plain m \<Longrightarrow> (\<And>x. valid (stands V plain \<phi> c w) (f x) Q (stopped V plain c)) \<Longrightarrow>
   valid (stands V plain \<phi> c w) (bindP m f) Q (stopped V plain c)"
  by (erule quietD [THEN keeps_then]) (auto intro: stands_stopped)

lemma quiet_valid: "quiet V plain m \<Longrightarrow> valid (stands V plain \<phi> c w) m (\<lambda>_. stands V plain \<phi> c w) (stopped V plain c)"
  by (erule quietD [unfolded keeps_def, THEN valid_weaken]) (auto intro: stands_stopped)

lemma insert_stands:
  "valid (stands V plain \<phi> c w) (exec_sent drv insertRecord (record_args version step at' ms))
     (\<lambda>_. stands V plain \<phi> c (record_in version step w)) (stopped V plain c)"
proof (rule validI)
  fix s t :: "'d run_state" and x e
  let ?e = "md_Exec drv insertRecord (record_args version step at' ms) (run_db s)"
  have *: "case ?e of (Inl e, d') \<Rightarrow> same_view V (run_db s) d'
      | (Inr _, d') \<Rightarrow> committed V d' = committed V (run_db s) \<and> working V d' = map_option (record_in version step) (working V (run_db s))"
    using statement_laws by (simp add: statement_laws_def)
  show "stands V plain \<phi> c w s \<Longrightarrow> exec_sent drv insertRecord (record_args version step at' ms) s = (Inr x, t) \<Longrightarrow>
      stands V plain \<phi> c (record_in version step w) t"
    and "stands V plain \<phi> c w s \<Longrightarrow> exec_sent drv insertRecord (record_args version step at' ms) s = (Inl e, t) \<Longrightarrow>
      stopped V plain c e t"
    using * by (auto simp: exec_sent_run stands_def stopped_def all_plain_snoc same_view_def split: prod.splits)
qed

lemma record_step_stands:
  "valid (stands V plain \<phi> c w) (record_step drv version step ms) (\<lambda>_. stands V plain \<phi> c (record_in version step w)) (stopped V plain c)"
  unfolding record_step_def by (rule quiet_then [OF quiet_clock]) (rule insert_stands)

lemma deleteVersionRecord_stands:
  "valid (stands V plain \<phi> c w) (deleteVersionRecord drv version) (\<lambda>_. stands V plain \<phi> c (delete_in version w)) (stopped V plain c)"
  unfolding deleteVersionRecord_def
proof (rule valid_mig021, rule validI)
  fix s t :: "'d run_state" and x e
  let ?a = "[(''version'', SqlInt version)]"
  have *: "case md_Exec drv deleteRecord ?a (run_db s) of (Inl e, d') \<Rightarrow> same_view V (run_db s) d'
      | (Inr _, d') \<Rightarrow> committed V d' = committed V (run_db s) \<and> working V d' = map_option (delete_in version) (working V (run_db s))"
    using statement_laws by (simp add: statement_laws_def)
  show "stands V plain \<phi> c w s \<Longrightarrow> exec_sent drv deleteRecord ?a s = (Inr x, t) \<Longrightarrow> stands V plain \<phi> c (delete_in version w) t"
    and "stands V plain \<phi> c w s \<Longrightarrow> exec_sent drv deleteRecord ?a s = (Inl e, t) \<Longrightarrow> stopped V plain c e t"
    using * by (auto simp: exec_sent_run stands_def stopped_def all_plain_snoc same_view_def split: prod.splits)
qed

lemma readRecorded_stands:
  "valid (stands V plain \<phi> c w) (readRecorded drv) (\<lambda>recorded. stands V plain (\<phi> \<and> reads recorded w) c w) (stopped V plain c)"
proof (rule validI)
  fix s t recorded e
  assume s: "stands V plain \<phi> c w s"
  have "stands V plain \<phi> c w t" if "readRecorded drv s = (r, t)" for r
    using that s quietD [of V plain "readRecorded drv" \<phi> c w] quiet_query_sent
    unfolding readRecorded_def keeps_def by (cases r) (blast dest: validD_Inl validD_Inr intro: quiet_intros)+
  moreover assume run: "readRecorded drv s = (Inr recorded, t)"
  moreover have "reads recorded w" if "all_plain plain (run_sent t)"
  proof -
    obtain rows scanned where rows: "fst (md_Query drv selectHistory [] (run_db s)) = Inr rows"
      and scanned: "res_map scan_history rows = Inr scanned" and recorded: "recorded = fold add_recorded scanned emptyHistory"
      and sent: "run_sent t = run_sent s @ [(selectHistory, [])]"
      using run by (auto simp: readRecorded_def bindP_Inr_iff query_sent_run prog_defs split: prod.splits)
    have "working V (run_db s) = Some w"
      using s that by (simp add: stands_def sent all_plain_snoc)
    then show ?thesis
      using reading_laws rows scanned reads_recorded [of scanned] unfolding reading_laws_def seen_def recorded by fastforce
  qed
  ultimately show "stands V plain (\<phi> \<and> reads recorded w) c w t"
    by (simp add: stands_def)
next
  fix s t e
  show "stands V plain \<phi> c w s \<Longrightarrow> readRecorded drv s = (Inl e, t) \<Longrightarrow> stopped V plain c e t"
    using quiet_valid [of "readRecorded drv" \<phi> c w] quiet_query_sent
    unfolding readRecorded_def by (blast dest: validD_Inl intro: quiet_intros)
qed

text \<open>A fact the program finds out without running anything.\<close>

lemma valid_know:
  "(\<psi> \<Longrightarrow> valid (stands V plain (\<phi> \<and> \<psi>) c w) m Q (stopped V plain c)) \<Longrightarrow> \<psi> \<Longrightarrow>
   valid (stands V plain \<phi> c w) m Q (stopped V plain c)"
  by (auto elim!: valid_weaken simp: stands_def)

lemma valid_check:
  "(\<And>x. r = Inr x \<Longrightarrow> valid (stands V plain \<phi> c w) (f x) Q (stopped V plain c)) \<Longrightarrow>
   valid (stands V plain \<phi> c w) (bindP (liftR r) f) Q (stopped V plain c)"
  by (cases r) (auto intro: valid_fail stands_stopped)

lemma valid_done:
  "(\<And>s. P s \<Longrightarrow> stands V plain \<phi> c w s) \<Longrightarrow> valid P (retP x) (\<lambda>_. stands V plain \<phi> c w) E"
  by (auto intro: valid_ret)

lemma openHistory_stands:
  "valid (stands V plain \<phi> c w) (openHistory r') (\<lambda>recorded. stands V plain (\<phi> \<and> reads recorded w) c w) (stopped V plain c)"
  if "rn_driver r' = drv"
  unfolding openHistory_def ensureVersionTable_def that by (rule quiet_then [OF quiet_readers(4)]) (rule readRecorded_stands)

text \<open>
  A body that stands somewhere when it returns: the run is committed there, or nothing is; and no transaction
  is left.
\<close>

lemma in_run_lock_commits:
  assumes body: "\<And>c. valid (stands V plain True c c) body (\<lambda>x. stands V plain (\<phi> c x) c (w c x)) (stopped V plain c)"
    and idle: "working V (run_db s) = None" and run: "in_run_lock drv body s = (res, t)"
    and plain: "all_plain plain (run_sent t)"
  shows "working V (run_db t) = None \<and>
    (case res of
       Inl e \<Rightarrow> committed V (run_db t) = committed V (run_db s)
     | Inr x \<Rightarrow> \<phi> (committed V (run_db s)) x \<and> committed V (run_db t) = w (committed V (run_db s)) x)"
proof -
  note laws = transaction_laws [unfolded transaction_laws_def]
  let ?c = "committed V (run_db s)"
  obtain r1 d1 where conn: "md_Conn drv (run_db s) = (r1, d1)"
    by fastforce
  have d1: "same_view V (run_db s) d1"
    using laws conn by (metis snd_conv)
  have close: "same_view V d (md_Close drv d)" for d
    using laws by simp
  show ?thesis
  proof (cases r1)
    case (Inl e)
    then show ?thesis
      using run conn d1 idle by (auto simp: in_run_lock_def bindP_def on_db_def same_view_def)
  next
    case connected: (Inr u)
    obtain r2 d2 where lock: "md_Lock drv d1 = (r2, d2)"
      by fastforce
    have idle1: "working V d1 = None"
      using d1 idle by (simp add: same_view_def)
    have d2: "case md_Lock drv d1 of (Inl e, d') \<Rightarrow> same_view V d1 d'
        | (Inr _, d') \<Rightarrow> committed V d' = committed V d1 \<and> working V d' = Some (committed V d1)"
      using laws idle1 by simp
    show ?thesis
    proof (cases r2)
      case (Inl e)
      then show ?thesis
        using run conn connected lock d2 d1 idle close [of d2] by (auto simp: in_run_lock_def bindP_def on_db_def deferred_def same_view_def)
    next
      case locked: (Inr u')
      let ?s2 = "s\<lparr>run_db := d2\<rparr>"
      obtain r3 s3 where ran: "body ?s2 = (r3, s3)"
        by fastforce
      have start: "stands V plain True ?c ?c ?s2"
        using d1 d2 lock locked by (simp add: stands_def same_view_def)
      have result: "case r3 of Inl e \<Rightarrow> stopped V plain ?c e s3 | Inr x \<Rightarrow> stands V plain (\<phi> ?c x) ?c (w ?c x) s3"
        using valid_run [OF body start ran] .
      have rolled: "committed V (md_Rollback drv d) = committed V d \<and> working V (md_Rollback drv d) = None" for d
        using laws by simp
      show ?thesis
      proof (cases r3)
        case (Inl e)
        then show ?thesis
          using run plain result conn connected lock locked ran close [of "md_Rollback drv (run_db s3)"] rolled [of "run_db s3"]
          by (auto simp: in_run_lock_def bindP_def on_db_def deferred_def unless_returned_def same_view_def stopped_def)
      next
        case returned: (Inr x)
        obtain r4 d4 where commit: "md_Commit drv (run_db s3) = (r4, d4)"
          by fastforce
        have sent: "run_sent t = run_sent s3"
          using run conn connected lock locked ran returned commit
          by (auto simp: in_run_lock_def bindP_def on_db_def deferred_def unless_returned_def prog_defs split: sum.splits)
        have at_commit: "\<phi> ?c x" "committed V (run_db s3) = ?c" "working V (run_db s3) = Some (w ?c x)"
          using result returned plain sent by (simp_all add: stands_def)
        have "case md_Commit drv (run_db s3) of (Inl e, d') \<Rightarrow> committed V d' = committed V (run_db s3)
            | (Inr _, d') \<Rightarrow> committed V d' = w ?c x \<and> working V d' = None"
          using laws at_commit(3) by simp
        then show ?thesis
          using run conn connected lock locked ran returned commit at_commit close [of d4] close [of "md_Rollback drv d4"] rolled [of d4]
          by (cases r4) (auto simp: in_run_lock_def bindP_def on_db_def deferred_def unless_returned_def same_view_def prog_defs)
      qed
    qed
  qed
qed

end

end
