(* ===== verification/Migration_Refines.thy ===== *)
theory Migration_Refines
  imports Migration_History
begin

text \<open>
  What a run does to the recorded history, against its specification: migrating records the versions that are
  not recorded, migrating down takes away those above the target, a baseline records without running; all of
  them or nothing.
\<close>

section \<open>The specification\<close>

definition unrecorded :: "history \<Rightarrow> RenderedVersion \<Rightarrow> bool" where
  "unrecorded c version \<longleftrightarrow> rdv_Version version \<notin> fst ` dom c"

text \<open>The recorded history agrees with the plan: every recorded version as rendered, and no version besides.\<close>

definition history_valid :: "RenderedVersion list \<Rightarrow> history \<Rightarrow> bool" where
  "history_valid plan c \<longleftrightarrow>
     (\<forall>version \<in> set plan. \<not> unrecorded c version \<longrightarrow>
       (\<forall>step \<in> set (rdv_Steps version). \<exists>row. c (rdv_Version version, rs_ObjectName step) = Some row \<and>
         rr_Checksum row = computeChecksum (rs_Up step))) \<and>
     fst ` dom c \<subseteq> rdv_Version ` set plan"

definition no_pending_draft :: "(int \<Rightarrow> bool) \<Rightarrow> RenderedVersion list \<Rightarrow> history \<Rightarrow> bool" where
  "no_pending_draft scope plan c \<longleftrightarrow> (\<forall>version \<in> set plan. rdv_Draft version \<and> scope (rdv_Version version) \<longrightarrow> \<not> unrecorded c version)"

definition version_rows :: "RenderedVersion \<Rightarrow> ((int \<times> string) \<times> recordedRow) list" where
  "version_rows version = map (\<lambda>step. ((rdv_Version version, rs_ObjectName step), recorded_row step)) (rdv_Steps version)"

definition planned_rows :: "RenderedVersion list \<Rightarrow> history" where
  "planned_rows plan = map_of (concat (map version_rows plan))"

lemma res_fold_unit: "res_fold (\<lambda>x _. f x) xs () = Inr () \<longleftrightarrow> (\<forall>x \<in> set xs. f x = Inr ())"
  by (induction xs) (auto split: sum.splits)

lemma res_fold_unit_error: "res_fold (\<lambda>x _. f x) xs () = Inl e \<Longrightarrow> \<exists>x \<in> set xs. f x = Inl e"
  by (induction xs) (auto split: sum.splits)

lemma is_recorded_iff: "reads recorded c \<Longrightarrow> is_recorded recorded version \<longleftrightarrow> \<not> unrecorded c version"
  by (simp add: is_recorded_def unrecorded_def reads_def)

lemma unit_res: "r = Inr () \<longleftrightarrow> is_ok r" for r :: "unit res"
  by (cases r) (auto simp: is_ok_iff)

lemma validateHistory_iff:
  assumes "reads recorded c"
  shows "validateHistory plan recorded = Inr () \<longleftrightarrow> history_valid plan c"
proof -
  have rows: "map_of (rh_rows recorded) = c" "fst ` set (rh_rows recorded) = dom c"
    using assms dom_map_of_conv_image_fst [of "rh_rows recorded"] by (simp_all add: reads_def)
  have step: "check_recorded recorded v st = Inr () \<longleftrightarrow> (\<exists>row. c (v, rs_ObjectName st) = Some row \<and> rr_Checksum row = computeChecksum (rs_Up st))" for v st
    by (auto simp: check_recorded_def rows Let_def split: option.splits)
  show ?thesis
    using is_recorded_iff [OF assms]
    by (auto simp: validateHistory_def history_valid_def bindR_Inr_iff res_fold_unit step is_recorded_def image_subset_iff rows)
qed

lemma refusePendingDrafts_iff:
  "reads recorded c \<Longrightarrow> refusePendingDrafts plan recorded scope = Inr () \<longleftrightarrow> no_pending_draft scope plan c"
  using is_recorded_iff [of recorded c] by (auto simp: refusePendingDrafts_def no_pending_draft_def res_fold_unit is_recorded_def)

section \<open>Recording\<close>

definition record_version :: "RenderedVersion \<Rightarrow> history \<Rightarrow> history" where
  "record_version version = fold (record_in (rdv_Version version)) (rdv_Steps version)"

lemma fold_update_distinct:
  "distinct (map fst xs) \<Longrightarrow> fold (\<lambda>(k, r) h. h(k \<mapsto> r)) xs h = h ++ map_of xs"
proof (induction xs arbitrary: h)
  case (Cons x xs)
  then have "fst x \<notin> dom (map_of xs)"
    by (simp add: dom_map_of_conv_image_fst)
  with Cons show ?case
    by (simp add: split_beta map_add_upd_left del: fun_upd_apply)
qed simp

lemma record_version_rows: "record_version version h = fold (\<lambda>(k, r) h. h(k \<mapsto> r)) (version_rows version) h"
  by (simp add: record_version_def version_rows_def fold_map record_in_def [abs_def] comp_def)

lemma record_versions_rows:
  "fold record_version plan h = fold (\<lambda>(k, r) h. h(k \<mapsto> r)) (concat (map version_rows plan)) h"
  by (induction plan arbitrary: h) (simp_all add: record_version_rows)

lemma distinct_rows:
  assumes "wf_plan plan"
  shows "distinct (map fst (concat (map version_rows plan)))"
proof -
  have "distinct (map rs_ObjectName (rdv_Steps version))" if "version \<in> set plan" for version
    using assms that by (simp add: wf_plan_def)
  moreover have "distinct (map rdv_Version plan)"
    using assms by (simp add: wf_plan_def strict_sorted_iff)
  ultimately show ?thesis
  proof (induction plan)
    case (Cons version plan)
    have "distinct (map fst (version_rows version))"
      using Cons.prems(1) by (auto simp: version_rows_def comp_def distinct_map intro: inj_onI dest: inj_onD)
    moreover have "fst ` set (version_rows version) \<inter> fst ` set (concat (map version_rows plan)) = {}"
      using Cons.prems(2) by (auto simp: version_rows_def) (metis imageI)
    ultimately show ?case
      using Cons by simp
  qed simp
qed

lemma wf_plan_filter: "wf_plan plan \<Longrightarrow> wf_plan (filter P plan)"
  by (auto simp: wf_plan_def sorted_wrt_map sorted_wrt_filter)

lemma record_pending: "wf_plan plan \<Longrightarrow> fold record_version (filter P plan) h = h ++ planned_rows (filter P plan)"
  unfolding record_versions_rows planned_rows_def by (rule fold_update_distinct [OF distinct_rows]) (rule wf_plan_filter)

lemma fold_if_filter: "fold (\<lambda>x. if P x then f x else id) xs = fold f (filter P xs)"
  by (induction xs) auto

section \<open>The runs\<close>

context migration_database
begin

lemma eachP_record:
  "(\<And>step w. step \<in> set steps \<Longrightarrow> valid (stands V plain \<phi> c w) (f step) (\<lambda>_. stands V plain \<phi> c (g step w)) (stopped V plain c)) \<Longrightarrow>
   valid (stands V plain \<phi> c w) (eachP f steps) (\<lambda>_. stands V plain \<phi> c (fold g steps w)) (stopped V plain c)"
  by (rule valid_each_fold [where I = "\<lambda>w. stands V plain \<phi> c w"])

lemma apply_step_stands:
  assumes "rn_driver r = drv"
  shows "valid (stands V plain \<phi> c w) (apply_step r options version step) (\<lambda>_. stands V plain \<phi> c (record_in version step w)) (stopped V plain c)"
  unfolding apply_step_def assms
  by (intro quiet_then [OF quiet_clock] quiet_then [OF quiet_intros(6)] quiet_applyStatement record_step_stands)

lemma migrate_versions_stands:
  assumes "rn_driver r = drv"
  shows "valid (stands V plain \<phi> c w) (migrate_versions r options recorded plan n)
    (\<lambda>m. stands V plain (\<phi> \<and> m = n + length (filter (\<lambda>v. \<not> is_recorded recorded v) plan)) c
       (fold record_version (filter (\<lambda>v. \<not> is_recorded recorded v) plan) w)) (stopped V plain c)"
proof (induction plan arbitrary: n w)
  case Nil
  show ?case
    by (auto intro: valid_ret)
next
  case (Cons version plan)
  show ?case
  proof (cases "is_recorded recorded version")
    case False
    have "valid (stands V plain \<phi> c w) (eachP (apply_step r options (rdv_Version version)) (rdv_Steps version))
        (\<lambda>_. stands V plain \<phi> c (record_version version w)) (stopped V plain c)"
      unfolding record_version_def by (intro eachP_record apply_step_stands assms)
    then show ?thesis
      using False Cons.IH [of "record_version version w" "Suc n"] by (auto intro: valid_bind)
  qed (use Cons.IH in auto)
qed

lemma Migrate_commits:
  assumes r: "rn_driver r = drv" and plan: "Render (rn_maps r) (rn_dialect r) (rn_set r) = Inr plan" and wf: "wf_plan plan"
    and idle: "working V (run_db s) = None" and run: "Migrate r options s = (res, t)" and plain: "all_plain plain (run_sent t)"
  defines "c \<equiv> committed V (run_db s)"
  shows "working V (run_db t) = None \<and>
    (case res of
       Inl e \<Rightarrow> committed V (run_db t) = c
     | Inr n \<Rightarrow> (history_valid plan c \<and> no_pending_draft (\<lambda>_. True) plan c \<and> n = length (filter (unrecorded c) plan)) \<and>
         committed V (run_db t) = c ++ planned_rows (filter (unrecorded c) plan))"
  unfolding c_def
proof (rule in_run_lock_commits [OF _ idle _ plain])
  show "in_run_lock drv (bindP (openHistory r) (\<lambda>recorded. bindP (liftR (validateHistory plan recorded)) (\<lambda>_.
      bindP (liftR (refusePendingDrafts plan recorded (\<lambda>_. True))) (\<lambda>_. migrate_versions r options recorded plan 0)))) s = (res, t)"
    using run by (simp add: Migrate_def plan r)
next
  fix c
  let ?spec = "\<lambda>n. history_valid plan c \<and> no_pending_draft (\<lambda>_. True) plan c \<and> n = length (filter (unrecorded c) plan)"
  let ?w = "c ++ planned_rows (filter (unrecorded c) plan)"
  show "valid (stands V plain True c c) (bindP (openHistory r) (\<lambda>recorded. bindP (liftR (validateHistory plan recorded)) (\<lambda>_.
      bindP (liftR (refusePendingDrafts plan recorded (\<lambda>_. True))) (\<lambda>_. migrate_versions r options recorded plan 0))))
      (\<lambda>n. stands V plain (?spec n) c ?w) (stopped V plain c)"
  proof (rule valid_bind [OF openHistory_stands [OF r]], intro valid_check)
    fix recorded u u'
    assume valid: "validateHistory plan recorded = Inr u" and drafts: "refusePendingDrafts plan recorded (\<lambda>_. True) = Inr u'"
    have "stands V plain (?spec n) c ?w s"
      if "stands V plain ((True \<and> reads recorded c) \<and> n = 0 + length (filter (\<lambda>v. \<not> is_recorded recorded v) plan)) c
        (fold record_version (filter (\<lambda>v. \<not> is_recorded recorded v) plan) c) s" for n s
      using that valid drafts wf
      by (auto simp: stands_def record_pending is_recorded_iff validateHistory_iff refusePendingDrafts_iff)
    then show "valid (stands V plain (True \<and> reads recorded c) c c) (migrate_versions r options recorded plan 0)
        (\<lambda>n. stands V plain (?spec n) c ?w) (stopped V plain c)"
      by (intro valid_weaken [OF migrate_versions_stands [OF r, where \<phi> = "True \<and> reads recorded c" and w = c and n = 0]])
  qed
qed

lemma revert_version_stands:
  assumes "rn_driver r = drv"
  shows "valid (stands V plain \<phi> c w) (revert_version r options derived version)
    (\<lambda>_. stands V plain \<phi> c (delete_in (rdv_Version version) w)) (stopped V plain c)"
  unfolding revert_version_def assms
  by (intro quiet_then [OF quiet_intros(6)] quiet_intros(6) quiet_applyStatement deleteVersionRecord_stands)

lemma fold_delete: "fold (\<lambda>version. delete_in (rdv_Version version)) vs h = h |` {key. fst key \<notin> rdv_Version ` set vs}"
  by (induction vs arbitrary: h) (auto simp: delete_in_def restrict_map_def fun_eq_iff)

lemma set_reverting: "set (reverting_versions plan recorded target) =
    {version \<in> set plan. target < rdv_Version version \<and> is_recorded recorded version}"
  by (simp add: reverting_versions_def)

lemma length_reverting:
  "length (reverting_versions plan recorded target) = length (filter (\<lambda>version. target < rdv_Version version \<and> is_recorded recorded version) plan)"
  by (simp add: reverting_versions_def)

text \<open>Taking away the recorded versions above the target leaves the rows up to it.\<close>

lemma reverted_history:
  assumes "reads recorded c" and "history_valid plan c"
  shows "c |` {key. fst key \<notin> rdv_Version ` set (reverting_versions plan recorded target)} = c |` {key. fst key \<le> target}"
proof (rule ext)
  fix key
  have "fst key \<in> rdv_Version ` set (reverting_versions plan recorded target) \<longleftrightarrow> target < fst key" if "key \<in> dom c"
  proof -
    obtain version where "version \<in> set plan" and "rdv_Version version = fst key"
      using assms(2) \<open>key \<in> dom c\<close> unfolding history_valid_def by (metis image_iff image_subset_iff)
    moreover have "is_recorded recorded version"
      using assms(1) that calculation(2) by (simp add: is_recorded_def reads_def)
    ultimately show ?thesis
      by (auto simp: set_reverting intro!: image_eqI [where x = version])
  qed
  then show "(c |` {key. fst key \<notin> rdv_Version ` set (reverting_versions plan recorded target)}) key = (c |` {key. fst key \<le> target}) key"
    by (cases "key \<in> dom c") (auto simp: restrict_map_def not_less domIff)
qed

lemma MigrateDown_commits:
  assumes r: "rn_driver r = drv" and plan: "Render (rn_maps r) (rn_dialect r) (rn_set r) = Inr plan"
    and idle: "working V (run_db s) = None" and run: "MigrateDown r target options s = (res, t)" and plain: "all_plain plain (run_sent t)"
  defines "c \<equiv> committed V (run_db s)"
  shows "working V (run_db t) = None \<and>
    (case res of
       Inl e \<Rightarrow> committed V (run_db t) = c
     | Inr n \<Rightarrow> (history_valid plan c \<and> n = length (filter (\<lambda>version. target < rdv_Version version \<and> \<not> unrecorded c version) plan)) \<and>
         committed V (run_db t) = c |` {key. fst key \<le> target})"
  unfolding c_def
proof (rule in_run_lock_commits [OF _ idle _ plain])
  let ?body = "bindP (openHistory r) (\<lambda>recorded. bindP (liftR (validateHistory plan recorded)) (\<lambda>_.
     let reverting = reverting_versions plan recorded target in
     bindP (liftR (resolve_rollbacks r reverting)) (\<lambda>(derived, notices).
     bindP (eachP (\<lambda>n. notify options (DerivedNotice n)) notices) (\<lambda>_.
     bindP (eachP (revert_version r options derived) reverting) (\<lambda>_. retP (length reverting))))))"
  show "in_run_lock drv ?body s = (res, t)"
    using run by (simp add: MigrateDown_def plan r)
  fix c
  let ?spec = "\<lambda>n. history_valid plan c \<and> n = length (filter (\<lambda>version. target < rdv_Version version \<and> \<not> unrecorded c version) plan)"
  let ?w = "c |` {key. fst key \<le> target}"
  show "valid (stands V plain True c c) ?body (\<lambda>n. stands V plain (?spec n) c ?w) (stopped V plain c)"
    unfolding Let_def
  proof (rule valid_bind [OF openHistory_stands [OF r]], intro valid_check)
    fix recorded u and resolved :: "derived_cores \<times> notice list"
    assume valid: "validateHistory plan recorded = Inr u"
    obtain derived notices where resolved: "resolved = (derived, notices)"
      by (cases resolved)
    let ?rev = "reverting_versions plan recorded target"
    have revert: "valid (stands V plain (True \<and> reads recorded c) c c) (bindP (eachP (revert_version r options derived) ?rev) (\<lambda>_. retP (length ?rev)))
        (\<lambda>n. stands V plain (?spec n) c ?w) (stopped V plain c)"
    proof (rule valid_bind [OF eachP_record [OF revert_version_stands [OF r]]], rule valid_ret)
      fix s
      assume "stands V plain (True \<and> reads recorded c) c (fold (\<lambda>version. delete_in (rdv_Version version)) ?rev c) s"
      then show "stands V plain (?spec (length ?rev)) c ?w s"
        using valid by (auto simp: stands_def fold_delete length_reverting is_recorded_iff validateHistory_iff reverted_history)
    qed
    show "valid (stands V plain (True \<and> reads recorded c) c c) (case resolved of (derived, notices) \<Rightarrow>
        bindP (eachP (\<lambda>n. notify options (DerivedNotice n)) notices) (\<lambda>_. bindP (eachP (revert_version r options derived) ?rev) (\<lambda>_. retP (length ?rev))))
        (\<lambda>n. stands V plain (?spec n) c ?w) (stopped V plain c)"
      unfolding resolved prod.case by (rule quiet_then [OF quiet_intros(6) revert]) (rule quiet_notify)
  qed
qed

lemma baseline_stands:
  assumes "rn_driver r = drv"
  shows "valid (stands V plain \<phi> c w) (eachP (baseline_version r recorded version) plan)
    (\<lambda>_. stands V plain \<phi> c (fold record_version (filter (\<lambda>v. \<not> (rdv_Version v > version \<or> is_recorded recorded v)) plan) w)) (stopped V plain c)"
proof -
  let ?skip = "\<lambda>v. rdv_Version v > version \<or> is_recorded recorded v"
  have "valid (stands V plain \<phi> c w) (baseline_version r recorded version v)
      (\<lambda>_. stands V plain \<phi> c ((if \<not> ?skip v then record_version v else id) w)) (stopped V plain c)" for v w
    unfolding baseline_version_def record_version_def assms
    by (cases "?skip v") (auto intro!: valid_ret eachP_record record_step_stands)
  then show ?thesis
    unfolding fold_if_filter [symmetric] by (rule eachP_record)
qed

lemma Baseline_commits:
  assumes r: "rn_driver r = drv" and plan: "Render (rn_maps r) (rn_dialect r) (rn_set r) = Inr plan" and wf: "wf_plan plan"
    and idle: "working V (run_db s) = None" and run: "Baseline r version s = (res, t)" and plain: "all_plain plain (run_sent t)"
  defines "c \<equiv> committed V (run_db s)"
  shows "working V (run_db t) = None \<and>
    (case res of
       Inl e \<Rightarrow> committed V (run_db t) = c
     | Inr _ \<Rightarrow> no_pending_draft (\<lambda>v. v \<le> version) plan c \<and>
         committed V (run_db t) = c ++ planned_rows (filter (\<lambda>v. rdv_Version v \<le> version \<and> unrecorded c v) plan))"
  unfolding c_def
proof (rule in_run_lock_commits [OF _ idle _ plain])
  let ?body = "bindP (openHistory r) (\<lambda>recorded. bindP (liftR (refusePendingDrafts plan recorded (\<lambda>v. v \<le> version))) (\<lambda>_.
      eachP (baseline_version r recorded version) plan))"
  show "in_run_lock drv ?body s = (res, t)"
    using run by (simp add: Baseline_def plan r)
  fix c
  let ?w = "c ++ planned_rows (filter (\<lambda>v. rdv_Version v \<le> version \<and> unrecorded c v) plan)"
  show "valid (stands V plain True c c) ?body (\<lambda>_. stands V plain (no_pending_draft (\<lambda>v. v \<le> version) plan c) c ?w) (stopped V plain c)"
  proof (rule valid_bind [OF openHistory_stands [OF r]], intro valid_check)
    fix recorded u
    assume drafts: "refusePendingDrafts plan recorded (\<lambda>v. v \<le> version) = Inr u"
    show "valid (stands V plain (True \<and> reads recorded c) c c) (eachP (baseline_version r recorded version) plan)
        (\<lambda>_. stands V plain (no_pending_draft (\<lambda>v. v \<le> version) plan c) c ?w) (stopped V plain c)"
      by (rule valid_weaken [OF baseline_stands [OF r, where \<phi> = "True \<and> reads recorded c" and w = c]])
        (use drafts wf in \<open>auto simp: stands_def record_pending is_recorded_iff refusePendingDrafts_iff not_less\<close>)
  qed
qed

end

end
