(* ===== verification/Migration_Status.thy ===== *)
theory Migration_Status
  imports Migration_Refines
begin

text \<open>
  What \<open>Status\<close> and \<open>HasPending\<close> report of the recorded history, the refusals before anything executes, and
  the runs that do return: an agreeing history is migrated unless a call to the database fails.
\<close>

section \<open>Status\<close>

definition state_in :: "history \<Rightarrow> RenderedVersion \<Rightarrow> RenderedStep \<Rightarrow> MigrationState" where
  "state_in c version step =
     (case c (rdv_Version version, rs_ObjectName step) of
        Some row \<Rightarrow> if rr_Checksum row = computeChecksum (rs_Up step) then Applied else Drifted
      | None \<Rightarrow> if \<not> unrecorded c version then Drifted else if rdv_Draft version then Draft else Pending)"

text \<open>An entry for every step of the plan, and one for every recorded row the plan does not compose.\<close>

definition reported :: "RenderedVersion list \<Rightarrow> history \<Rightarrow> MigrationEntry set" where
  "reported plan c =
     {\<lparr>me_Version = rdv_Version version, me_ObjectName = rs_ObjectName step, me_Description = rs_Description step,
       me_State = state_in c version step\<rparr> | version step. version \<in> set plan \<and> step \<in> set (rdv_Steps version)} \<union>
     {\<lparr>me_Version = fst key, me_ObjectName = snd key, me_Description = rr_Description row, me_State = Unknown\<rparr> | key row.
       c key = Some row \<and> (\<forall>version \<in> set plan. \<forall>step \<in> set (rdv_Steps version). (rdv_Version version, rs_ObjectName step) \<noteq> key)}"

lemma step_state_in: "reads recorded c \<Longrightarrow> step_state recorded version step = state_in c version step"
  using is_recorded_iff [of recorded c version] by (simp add: step_state_def state_in_def reads_def)

lemma composed_iff:
  assumes "wf_plan plan"
  shows "composed plan key \<longleftrightarrow> (\<exists>version \<in> set plan. \<exists>step \<in> set (rdv_Steps version). (rdv_Version version, rs_ObjectName step) = key)"
proof (cases "find (\<lambda>version. rdv_Version version = fst key) plan")
  case None
  then have "rdv_Version version \<noteq> fst key" if "version \<in> set plan" for version
    using that by (auto simp: find_None_iff)
  then show ?thesis
    using None by (force simp: composed_def)
next
  case (Some version)
  then have version: "version \<in> set plan" "rdv_Version version = fst key"
    by (auto simp: find_Some_iff)
  have unique: "v = version" if "v \<in> set plan" "rdv_Version v = fst key" for v
    using assms that version strict_sorted_iff [of "map rdv_Version plan"] by (auto simp: wf_plan_def distinct_map inj_on_def)
  show ?thesis
    using Some version by (cases key) (auto simp: composed_def dest: unique)
qed

text \<open>The keys of the plan's entries are those of the rows its versions record.\<close>

lemma plan_entry_keys: "map (\<lambda>e. (me_Version e, me_ObjectName e)) (plan_entries plan recorded) = map fst (concat (map version_rows plan))"
  by (induction plan) (auto simp: plan_entries_def version_rows_def)

lemma status_entries_distinct:
  assumes "reads recorded c" and "wf_plan plan"
  shows "distinct (map (\<lambda>e. (me_Version e, me_ObjectName e)) (status_entries plan recorded))"
proof -
  let ?key = "\<lambda>e. (me_Version e, me_ObjectName e)"
  have unknown: "map ?key (unknown_entries plan recorded) = map fst (filter (\<lambda>(key, row). \<not> composed plan key) (rh_rows recorded))"
    by (simp add: unknown_entries_def split_beta)
  have "distinct (map fst (rh_rows recorded))"
    using assms(1) by (simp add: reads_def)
  then have "distinct (map ?key (unknown_entries plan recorded))"
    unfolding unknown by (rule distinct_map_filter)
  moreover have "distinct (map ?key (plan_entries plan recorded))"
    unfolding plan_entry_keys by (rule distinct_rows) (rule assms)
  moreover have "key \<notin> set (map ?key (plan_entries plan recorded))" if "key \<in> set (map ?key (unknown_entries plan recorded))" for key
  proof -
    have "\<not> composed plan key"
      using that unfolding unknown by auto
    then show ?thesis
      unfolding composed_iff [OF assms(2)] plan_entries_def by (simp add: image_iff) blast
  qed
  ultimately have "distinct (map ?key (plan_entries plan recorded @ unknown_entries plan recorded))"
    by auto
  moreover have "mset (map ?key (status_entries plan recorded)) = mset (map ?key (plan_entries plan recorded @ unknown_entries plan recorded))"
    by (simp add: status_entries_def)
  ultimately show ?thesis
    using mset_eq_imp_distinct_iff by blast
qed

lemma status_entries_reported:
  assumes "reads recorded c" and "wf_plan plan"
  shows "set (status_entries plan recorded) = reported plan c \<and>
    sorted_wrt (<) (map (\<lambda>e. (me_Version e, me_ObjectName e)) (status_entries plan recorded))"
proof -
  have "map_of (rh_rows recorded) = c" and "distinct (map fst (rh_rows recorded))"
    using assms(1) by (simp_all add: reads_def)
  then have rows: "(key, row) \<in> set (rh_rows recorded) \<longleftrightarrow> c key = Some row" for key row
    by (metis map_of_eq_Some_iff)
  have "set (plan_entries plan recorded) = {\<lparr>me_Version = rdv_Version version, me_ObjectName = rs_ObjectName step,
      me_Description = rs_Description step, me_State = state_in c version step\<rparr> | version step. version \<in> set plan \<and> step \<in> set (rdv_Steps version)}"
    by (auto simp: plan_entries_def step_state_in [OF assms(1)])
  moreover have "set (unknown_entries plan recorded) = {\<lparr>me_Version = fst key, me_ObjectName = snd key, me_Description = rr_Description row, me_State = Unknown\<rparr> | key row.
       c key = Some row \<and> (\<forall>version \<in> set plan. \<forall>step \<in> set (rdv_Steps version). (rdv_Version version, rs_ObjectName step) \<noteq> key)}"
    by (auto simp: unknown_entries_def composed_iff [OF assms(2)] rows image_iff split_beta)
  moreover have "sorted (map (\<lambda>e. (me_Version e, me_ObjectName e)) (status_entries plan recorded))"
    by (simp add: status_entries_def)
  ultimately show ?thesis
    using status_entries_distinct [OF assms] by (simp add: status_entries_def reported_def strict_sorted_iff)
qed

definition presence_law :: "'d migration_driver \<Rightarrow> 'd database_view \<Rightarrow> Dialect \<Rightarrow> bool" where
  "presence_law drv V d \<longleftrightarrow>
     (\<forall>db. fst (md_Query drv (ColumnsInfoSQL d) [(''relation'', SqlText ''schema_version'')] db) = Inr [] \<longrightarrow> seen V db = Map.empty)"

lemma fold_update_Nil: "fold (\<lambda>c. AList.update (g c) c) xs al = [] \<longleftrightarrow> xs = [] \<and> al = []"
proof (induction xs arbitrary: al)
  case (Cons x xs)
  have "AList.update (g x) x al \<noteq> []"
    by (cases al) auto
  then show ?case
    by (simp add: Cons)
qed simp

lemma pending_reported:
  "(\<exists>e \<in> reported plan c. me_State e = Pending \<or> me_State e = Draft) \<longleftrightarrow> (\<exists>version \<in> set plan. unrecorded c version \<and> rdv_Steps version \<noteq> [])"
proof -
  have "state_in c version step = Pending \<or> state_in c version step = Draft \<longleftrightarrow> unrecorded c version" for version step
    by (cases "c (rdv_Version version, rs_ObjectName step)") (force simp: state_in_def unrecorded_def)+
  then have state: "me_State \<lparr>me_Version = v, me_ObjectName = ob, me_Description = d, me_State = state_in c version step\<rparr> \<in> {Pending, Draft} \<longleftrightarrow>
      unrecorded c version" for v ob d version step
    by simp
  have "(\<exists>e \<in> reported plan c. me_State e \<in> {Pending, Draft}) \<longleftrightarrow>
      (\<exists>version \<in> set plan. \<exists>step \<in> set (rdv_Steps version). unrecorded c version)"
    (is "?left \<longleftrightarrow> ?right")
  proof
    assume ?left
    then show ?right
      unfolding reported_def using state by fastforce
  next
    assume ?right
    then show ?left
      unfolding reported_def bex_Un using state by blast
  qed
  moreover have "(\<exists>step \<in> set (rdv_Steps version). unrecorded c version) \<longleftrightarrow> unrecorded c version \<and> rdv_Steps version \<noteq> []" for version
    by (cases "rdv_Steps version") auto
  ultimately show ?thesis
    by (simp only: insert_iff empty_iff simp_thms)
qed

context migration_database
begin

lemma readRecordedIfPresent_reads:
  assumes "presence_law drv V d" and run: "readRecordedIfPresent drv d s = (Inr recorded, t)"
    and idle: "working V (run_db s) = None"
  shows "reads recorded (committed V (run_db s))"
proof -
  let ?columns = "(ColumnsInfoSQL d, [(''relation'', SqlText ''schema_version'')])"
  obtain rows u where rows: "fst (md_Query drv (ColumnsInfoSQL d) [(''relation'', SqlText ''schema_version'')] (run_db s)) = Inr rows"
    and u: "u = s\<lparr>run_sent := run_sent s @ [?columns], run_db := snd (md_Query drv (ColumnsInfoSQL d) [(''relation'', SqlText ''schema_version'')] (run_db s))\<rparr>"
    and rest: "(rows = [] \<and> recorded = emptyHistory) \<or> readRecorded drv u = (Inr recorded, t)"
    using run
    by (auto simp: readRecordedIfPresent_def ReadLiveColumns_def bindP_Inr_iff query_sent_run prog_defs fold_update_Nil res_map_Inr_iff
        split: prod.splits if_splits)
  have view: "same_view V (run_db s) (run_db u)"
    using reading_laws by (simp add: reading_laws_def u)
  from rest show ?thesis
  proof
    assume "rows = [] \<and> recorded = emptyHistory"
    then show ?thesis
      using assms(1) rows idle by (auto simp: presence_law_def seen_def reads_def emptyHistory_def)
  next
    assume "readRecorded drv u = (Inr recorded, t)"
    then obtain rows' scanned where "fst (md_Query drv selectHistory [] (run_db u)) = Inr rows'"
      and "res_map scan_history rows' = Inr scanned" and "recorded = fold add_recorded scanned emptyHistory"
      by (auto simp: readRecorded_def bindP_Inr_iff query_sent_run prog_defs split: prod.splits)
    moreover have "seen V (run_db u) = committed V (run_db s)"
      using view idle by (simp add: seen_def same_view_def)
    ultimately show ?thesis
      using reading_laws reads_recorded [of scanned] unfolding reading_laws_def by fastforce
  qed
qed

lemma same_view_trans: "same_view V a b \<Longrightarrow> same_view V b c \<Longrightarrow> same_view V a c"
  by (simp add: same_view_def)

lemma Status_reads:
  assumes "rn_driver r = drv" and plan: "Render (rn_maps r) (rn_dialect r) (rn_set r) = Inr plan" and wf: "wf_plan plan"
    and law: "presence_law drv V (rn_dialect r)" and idle: "working V (run_db s) = None" and run: "Status r s = (Inr entries, t)"
  shows "set entries = reported plan (committed V (run_db s)) \<and> sorted_wrt (<) (map (\<lambda>e. (me_Version e, me_ObjectName e)) entries)"
proof -
  obtain d1 where conn: "md_Conn drv (run_db s) = (Inr (), d1)" and "\<exists>recorded t'. readRecordedIfPresent drv (rn_dialect r) (s\<lparr>run_db := d1\<rparr>) = (Inr recorded, t') \<and>
      entries = status_entries plan recorded"
    using run assms(1) plan by (auto simp: Status_def bindP_Inr_iff on_db_def deferred_def prog_defs split: prod.splits)
  then obtain recorded t' where read: "readRecordedIfPresent drv (rn_dialect r) (s\<lparr>run_db := d1\<rparr>) = (Inr recorded, t')"
    and entries: "entries = status_entries plan recorded"
    by blast
  have "same_view V (run_db s) d1"
    using transaction_laws conn unfolding transaction_laws_def by (metis snd_conv)
  then have "reads recorded (committed V (run_db s))"
    using readRecordedIfPresent_reads [OF law read] idle by (simp add: same_view_def)
  then show ?thesis
    unfolding entries by (rule status_entries_reported) (rule wf)
qed

lemma HasPending_reads:
  assumes "rn_driver r = drv" and "Render (rn_maps r) (rn_dialect r) (rn_set r) = Inr plan" and "wf_plan plan"
    and "presence_law drv V (rn_dialect r)" and "working V (run_db s) = None" and run: "HasPending r s = (Inr pending, t)"
  shows "pending \<longleftrightarrow> (\<exists>version \<in> set plan. unrecorded (committed V (run_db s)) version \<and> rdv_Steps version \<noteq> [])"
proof -
  obtain entries where entries: "Status r s = (Inr entries, t)" and "pending = list_ex (\<lambda>e. me_State e = Pending \<or> me_State e = Draft) entries"
    using run by (auto simp: HasPending_def bindP_Inr_iff prog_defs)
  then show ?thesis
    using Status_reads [OF assms(1-5) entries] by (simp add: list_ex_iff pending_reported)
qed

end

end
