(* ===== verification/Migration_Live.thy ===== *)
theory Migration_Live
  imports Migration_Status "HOL-Library.Sublist"
begin

text \<open>
  Refusals and progress. A history that disagrees, or a pending draft, is refused when only the version table
  was created and the history read; every other run fails only with a call to the database.
\<close>

section \<open>What the opening of a run sends\<close>

definition sent_opening :: "Dialect \<Rightarrow> (string \<times> sql_args) list" where
  "sent_opening d = [(VersionTableSQL d, []), (selectHistory, [])]"

lemma execute_sent: "execute drv sql s = (res, t) \<Longrightarrow> run_sent t = run_sent s @ [(sql, [])]"
  by (auto simp: execute_def mig021_def exec_sent_run split: prod.splits sum.splits)

lemma readRecorded_sent: "readRecorded drv s = (res, t) \<Longrightarrow> run_sent t = run_sent s @ [(selectHistory, [])]"
  by (auto simp: readRecorded_def bindP_def query_sent_run liftR_def retP_def split: prod.splits sum.splits)

lemma openHistory_sent:
  assumes "openHistory r u = (res, u')"
  shows "prefix (run_sent u') (run_sent u @ sent_opening (rn_dialect r))"
proof -
  obtain r1 u1 where first: "ensureVersionTable (rn_driver r) (rn_dialect r) u = (r1, u1)"
    by fastforce
  then have "run_sent u1 = run_sent u @ [(VersionTableSQL (rn_dialect r), [])]"
    by (simp add: ensureVersionTable_def execute_sent)
  moreover have "u' = u1 \<or> readRecorded (rn_driver r) u1 = (res, u')"
    using assms first by (cases r1) (auto simp: openHistory_def bindP_def)
  ultimately show ?thesis
    by (auto simp: sent_opening_def dest: readRecorded_sent)
qed

lemma all_plain_prefix: "prefix xs ys \<Longrightarrow> all_plain plain ys \<Longrightarrow> all_plain plain xs"
  unfolding all_plain_def using set_mono_prefix by blast

lemma all_plain_opening:
  "all_plain plain xs \<Longrightarrow> plain (VersionTableSQL d) \<Longrightarrow> plain selectHistory \<Longrightarrow> all_plain plain (xs @ sent_opening d)"
  by (auto simp: all_plain_def sent_opening_def)

section \<open>Runs that fail only with a call\<close>

text \<open>The driver with a flag beside the database that rises, and stays up, when a call fails.\<close>

definition watch :: "('d, 'a) prog \<Rightarrow> ('d \<times> bool, 'a) prog" where
  "watch m s = (case m (fst s) of (r, d) \<Rightarrow> (r, (d, snd s \<or> \<not> is_ok r)))"

definition watched :: "'d migration_driver \<Rightarrow> ('d \<times> bool) migration_driver" where
  "watched drv = \<lparr>md_Conn = watch (md_Conn drv), md_Close = map_prod (md_Close drv) id, md_Lock = watch (md_Lock drv),
     md_Exec = (\<lambda>sql args. watch (md_Exec drv sql args)), md_Query = (\<lambda>sql args. watch (md_Query drv sql args)),
     md_Commit = watch (md_Commit drv), md_Rollback = map_prod (md_Rollback drv) id,
     md_Now = (\<lambda>s. case md_Now drv (fst s) of (t, d) \<Rightarrow> (t, (d, snd s))),
     md_randomHex = (\<lambda>n s. case md_randomHex drv n (fst s) of (h, d) \<Rightarrow> (h, (d, snd s))), md_FormatUTC = md_FormatUTC drv\<rparr>"

definition watched_view :: "'d database_view \<Rightarrow> ('d \<times> bool) database_view" where
  "watched_view V = \<lparr>committed = committed V \<circ> fst, working = working V \<circ> fst\<rparr>"

lemma watched_simps [simp]:
  "md_Conn (watched drv) = watch (md_Conn drv)" "md_Close (watched drv) = map_prod (md_Close drv) id" "md_Lock (watched drv) = watch (md_Lock drv)"
  "md_Exec (watched drv) sql args = watch (md_Exec drv sql args)" "md_Query (watched drv) sql args = watch (md_Query drv sql args)"
  "md_Commit (watched drv) = watch (md_Commit drv)" "md_Rollback (watched drv) = map_prod (md_Rollback drv) id"
  "md_Now (watched drv) s = (case md_Now drv (fst s) of (t, d) \<Rightarrow> (t, (d, snd s)))"
  "md_randomHex (watched drv) n s = (case md_randomHex drv n (fst s) of (h, d) \<Rightarrow> (h, (d, snd s)))"
  "md_FormatUTC (watched drv) = md_FormatUTC drv"
  "committed (watched_view V) d = committed V (fst d)" "working (watched_view V) d = working V (fst d)"
  by (simp_all add: watched_def watched_view_def)

lemma watch_view: "same_view (watched_view V) s (snd (watch m s)) \<longleftrightarrow> same_view V (fst s) (snd (m (fst s)))"
  by (simp add: same_view_def watch_def split: prod.split)

text \<open>The flag changes nothing of what the database does.\<close>

lemma watched_laws:
  assumes "history_laws drv V plain"
  shows "history_laws (watched drv) (watched_view V) plain"
proof -
  have seen: "seen (watched_view V) s = seen V (fst s)" and fst_query: "fst (watch m s) = fst (m (fst s))"
    for s :: "'a \<times> bool" and m :: "('a, 'b) prog"
    by (simp_all add: seen_def watch_def split: prod.split option.split)
  have "transaction_laws (watched drv) (watched_view V)"
  proof -
    have laws: "transaction_laws drv V"
      using assms by (simp add: history_laws_def)
    have lock: "case watch (md_Lock drv) s of
        (Inl e, s') \<Rightarrow> same_view (watched_view V) s s'
      | (Inr _, s') \<Rightarrow> committed (watched_view V) s' = committed (watched_view V) s \<and> working (watched_view V) s' = Some (committed (watched_view V) s)"
      if "working V (fst s) = None" for s
    proof -
      have "case md_Lock drv (fst s) of (Inl e, d') \<Rightarrow> same_view V (fst s) d'
          | (Inr _, d') \<Rightarrow> committed V d' = committed V (fst s) \<and> working V d' = Some (committed V (fst s))"
        using laws that by (simp add: transaction_laws_def)
      then show ?thesis
        by (cases "md_Lock drv (fst s)", cases "fst (md_Lock drv (fst s))") (simp_all add: watch_def same_view_def)
    qed
    have commit: "case watch (md_Commit drv) s of
        (Inl e, s') \<Rightarrow> committed (watched_view V) s' = committed (watched_view V) s
      | (Inr _, s') \<Rightarrow> committed (watched_view V) s' = h \<and> working (watched_view V) s' = None"
      if "working V (fst s) = Some h" for s h
    proof -
      have "case md_Commit drv (fst s) of (Inl e, d') \<Rightarrow> committed V d' = committed V (fst s)
          | (Inr _, d') \<Rightarrow> committed V d' = h \<and> working V d' = None"
        using laws that by (simp add: transaction_laws_def)
      then show ?thesis
        by (cases "md_Commit drv (fst s)", cases "fst (md_Commit drv (fst s))") (simp_all add: watch_def)
    qed
    have rest: "same_view V d (snd (md_Conn drv d)) \<and> same_view V d (md_Close drv d) \<and> same_view V d (snd (md_Now drv d)) \<and>
        (\<forall>n. same_view V d (snd (md_randomHex drv n d))) \<and> committed V (md_Rollback drv d) = committed V d \<and> working V (md_Rollback drv d) = None" for d
      using laws by (simp add: transaction_laws_def)
    have now: "same_view (watched_view V) s (snd (md_Now (watched drv) s))" "same_view (watched_view V) s (snd (md_randomHex (watched drv) n s))"
      "same_view (watched_view V) s (map_prod (md_Close drv) id s)" for s n
      using rest [of "fst s"] by (simp_all add: same_view_def split_beta)
    show ?thesis
      unfolding transaction_laws_def
      by (intro conjI allI impI now) (use rest in \<open>simp_all add: watch_view lock commit now(3)\<close>)
  qed
  moreover have "statement_laws (watched drv) (watched_view V) plain"
  proof -
    have laws: "statement_laws drv V plain"
      using assms by (simp add: history_laws_def)
    have changes: "case watch m s of (Inl e, s') \<Rightarrow> same_view (watched_view V) s s'
        | (Inr _, s') \<Rightarrow> committed (watched_view V) s' = committed (watched_view V) s \<and> working (watched_view V) s' = map_option g (working (watched_view V) s)"
      if "case m (fst s) of (Inl e, d') \<Rightarrow> same_view V (fst s) d'
        | (Inr _, d') \<Rightarrow> committed V d' = committed V (fst s) \<and> working V d' = map_option g (working V (fst s))"
      for m :: "('a, unit) prog" and s g
      using that by (cases "m (fst s)", cases "fst (m (fst s))") (simp_all add: watch_def same_view_def)
    show ?thesis
      unfolding statement_laws_def watched_simps(4)
      by (intro conjI allI impI changes) (use laws in \<open>simp_all add: statement_laws_def watch_view\<close>)
  qed
  moreover have "reading_laws (watched drv) (watched_view V)"
    using assms by (simp add: history_laws_def reading_laws_def watch_view seen fst_query)
  ultimately show ?thesis
    by (simp add: history_laws_def)
qed

definition failed :: "('d \<times> bool) run_state \<Rightarrow> bool" where
  "failed s = snd (run_db s)"

text \<open>A program that fails only when a call does: the flag is never lowered, and an error leaves it up.\<close>

definition blames :: "('d \<times> bool, 'a) run \<Rightarrow> bool" where
  "blames m \<longleftrightarrow> (\<forall>s r t. m s = (r, t) \<longrightarrow> (failed s \<longrightarrow> failed t) \<and> (is_ok r \<or> failed t))"

lemma blamesI: "(\<And>s r t. m s = (r, t) \<Longrightarrow> (failed s \<longrightarrow> failed t) \<and> (is_ok r \<or> failed t)) \<Longrightarrow> blames m"
  by (simp add: blames_def)

lemma blamesD: "blames m \<Longrightarrow> m s = (r, t) \<Longrightarrow> (failed s \<longrightarrow> failed t) \<and> (is_ok r \<or> failed t)"
  by (simp add: blames_def)

lemma blames_ret: "blames (retP x)"
  by (simp add: blames_def retP_def)

lemma blames_ok: "is_ok r \<Longrightarrow> blames (liftR r)"
  by (auto simp: blames_def liftR_def retP_def is_ok_iff)

lemma blames_bind_at:
  assumes "blames m" and "\<And>x s'. m s = (Inr x, s') \<Longrightarrow> blames (f x)" and "bindP m f s = (r, t)"
  shows "(failed s \<longrightarrow> failed t) \<and> (is_ok r \<or> failed t)"
proof -
  obtain r1 s1 where first: "m s = (r1, s1)"
    by fastforce
  note one = blamesD [OF assms(1) first]
  show ?thesis
  proof (cases r1)
    case (Inl e)
    then show ?thesis
      using assms(3) first one by (auto simp: bindP_def)
  next
    case (Inr x)
    then have "f x s1 = (r, t)"
      using assms(3) first by (simp add: bindP_def)
    then show ?thesis
      using one blamesD [OF assms(2)] first Inr by blast
  qed
qed

lemma blames_bind: "blames m \<Longrightarrow> (\<And>x. blames (f x)) \<Longrightarrow> blames (bindP m f)"
  using blames_bind_at by (intro blamesI) blast

lemma blames_bind_after: "blames m \<Longrightarrow> (\<And>s x s'. m s = (Inr x, s') \<Longrightarrow> blames (f x)) \<Longrightarrow> blames (bindP m f)"
  using blames_bind_at by (intro blamesI) blast

lemma blames_each: "(\<And>y. blames (h y)) \<Longrightarrow> blames (eachP h ys)"
  by (induction ys) (auto intro: blames_bind blames_ret)

lemma blames_if: "blames m \<Longrightarrow> blames m' \<Longrightarrow> blames (if b then m else m')"
  by simp

lemma blames_attempt: "blames m \<Longrightarrow> blames (attempt m)"
  by (auto simp: blames_def attempt_def split: prod.splits)

lemma blames_mig021: "blames m \<Longrightarrow> blames (mig021 m)"
  unfolding blames_def mig021_def by (fastforce split: prod.splits sum.splits)

lemma blames_option: "blames m \<Longrightarrow> (\<And>y. blames (f y)) \<Longrightarrow> blames (case z of None \<Rightarrow> m | Some y \<Rightarrow> f y)"
  by (cases z) auto

lemma blames_sum: "(\<And>e. blames (g e)) \<Longrightarrow> (\<And>y. blames (f y)) \<Longrightarrow> blames (case z of Inl e \<Rightarrow> g e | Inr y \<Rightarrow> f y)"
  by (cases z) auto

lemma blames_prod: "(\<And>a b. blames (f a b)) \<Longrightarrow> blames (case p of (a, b) \<Rightarrow> f a b)"
  by (cases p) simp

lemma blames_watch: "blames (on_db (watch m))"
  by (auto simp: blames_def on_db_def watch_def failed_def split: prod.splits)

lemma blames_modify: "(\<And>s. run_db (f s) = run_db s) \<Longrightarrow> blames (modifyP f)"
  by (simp add: blames_def modifyP_def failed_def)

lemma blames_exec: "blames (exec_sent (watched drv) sql args)" "blames (query_sent (watched drv) sql args)"
  unfolding exec_sent_def query_sent_def SendStatement_def watched_simps
  by (auto intro!: blames_bind blames_modify blames_watch)

lemma blames_clock: "blames (clock (watched drv))" "blames (randomHex (watched drv) n)"
  by (auto simp: blames_def clock_def randomHex_def on_db_def failed_def split: prod.splits)

text \<open>
  What the reads return can be scanned: the version table's columns are the ones the runner created, and the
  catalogue queries of the dialect select one column.
\<close>

definition scannable :: "'d migration_driver \<Rightarrow> Dialect \<Rightarrow> bool" where
  "scannable drv d \<longleftrightarrow>
     (\<forall>db rows. fst (md_Query drv selectHistory [] db) = Inr rows \<longrightarrow> is_ok (res_map scan_history rows)) \<and>
     (\<forall>db sql args rows. sql \<in> {ViewDefinitionSQL d, TriggerDefinitionSQL d} \<and> fst (md_Query drv sql args db) = Inr rows \<longrightarrow>
       (\<forall>row \<in> set rows. length row = 1))"

lemma scan_null_text_ok: "is_ok (scan_null_text v)"
  by (cases v) auto

lemma query_returned: "query_sent (watched drv) sql args s = (Inr rows, t) \<Longrightarrow> fst (md_Query drv sql args (fst (run_db s))) = Inr rows"
  by (auto simp: query_sent_run watch_def split: prod.splits)

lemma blames_read:
  assumes "scannable drv d"
  shows "blames (ReadViewDefinition (watched drv) d view)" and "blames (ReadTriggerDefinitions (watched drv) d name)"
proof -
  let ?query = "\<lambda>sql. query_sent (watched drv) sql"
  have one: "\<forall>row \<in> set rows. length row = 1"
    if "?query sql args s = (Inr rows, t)" "sql \<in> {ViewDefinitionSQL d, TriggerDefinitionSQL d}" for sql args s rows t
    using assms that query_returned [OF that(1)] unfolding scannable_def by blast
  show "blames (ReadViewDefinition (watched drv) d view)"
    unfolding ReadViewDefinition_def
  proof (rule blames_bind_after [OF blames_exec(2)])
    fix s rows s'
    assume "query_sent (watched drv) (ViewDefinitionSQL d) [(''relation'', SqlText view)] s = (Inr rows, s')"
    then have "\<forall>row \<in> set rows. length row = 1"
      by (auto dest!: one)
    then show "blames (case rows of [] \<Rightarrow> retP None | [v] # _ \<Rightarrow> liftR (scan_null_text v) | _ # _ \<Rightarrow> failP (PlainError ''sql: Scan error''))"
      by (cases rows) (auto simp: length_Suc_conv intro!: blames_ret blames_ok scan_null_text_ok)
  qed
  show "blames (ReadTriggerDefinitions (watched drv) d name)"
    unfolding ReadTriggerDefinitions_def
  proof (rule blames_bind_after [OF blames_exec(2)])
    fix s rows s'
    assume "query_sent (watched drv) (TriggerDefinitionSQL d) [(''relation'', SqlText name)] s = (Inr rows, s')"
    then have "\<forall>row \<in> set rows. length row = 1"
      by (auto dest!: one)
    then have "is_ok (res_map (\<lambda>row. case row of [v] \<Rightarrow> scan_null_text v | _ \<Rightarrow> Inl (PlainError ''sql: Scan error'')) rows)"
      using scan_null_text_ok by (auto simp: res_map_ok_iff length_Suc_conv)
    then show "blames (bindP (liftR (res_map (\<lambda>row. case row of [v] \<Rightarrow> scan_null_text v | _ \<Rightarrow> Inl (PlainError ''sql: Scan error'')) rows)) (\<lambda>definitions. retP (List.map_filter id definitions)))"
      by (intro blames_bind blames_ok blames_ret)
  qed
qed

lemma blames_applyStatement:
  assumes "scannable drv d" and "AllowViewDrift options"
  shows "blames (applyStatement (watched drv) d version statement options)"
proof -
  note reads = blames_read [OF assms(1)]
  have roll_back: "blames (roll_back (watched drv))"
    unfolding roll_back_def watched_simps by (intro blames_bind blames_attempt blames_ret blames_watch)
  have notify: "blames (drift options kind target absent)" for kind target absent
    using assms(2) by (auto simp: drift_def notify_def intro: blames_ret blames_modify)
  have view: "blames (viewMatchesExpectation (watched drv) d statement)"
    unfolding viewMatchesExpectation_def Let_def watched_simps
    by (intro blames_bind blames_option blames_if blames_prod blames_sum blames_ret blames_attempt blames_clock roll_back
        blames_exec blames_watch reads)
  show ?thesis
    unfolding applyStatement_def applyTriggerGuard_def execute_def
    by (intro blames_if blames_bind blames_prod blames_ret blames_mig021 view notify blames_exec reads)
qed

lemma blames_migrate:
  assumes "rn_driver r = watched drv" and "scannable drv (rn_dialect r)" and "AllowViewDrift options"
  shows "blames (migrate_versions r options recorded plan n)"
proof (induction plan arbitrary: n)
  case (Cons version plan)
  then show ?case
    using assms(3) unfolding migrate_versions.simps apply_step_def record_step_def assms(1)
    by (intro blames_if blames_bind blames_each blames_clock blames_applyStatement [OF assms(2)] blames_exec)
qed (simp add: blames_ret)

lemma blames_opening:
  assumes "rn_driver r = watched drv" and "scannable drv (rn_dialect r)"
  shows "blames (openHistory r)"
proof -
  have "blames (readRecorded (watched drv))"
    unfolding readRecorded_def
  proof (rule blames_bind_after [OF blames_exec(2)])
    fix s rows s'
    assume "query_sent (watched drv) selectHistory [] s = (Inr rows, s')"
    from query_returned [OF this] have "is_ok (res_map scan_history rows)"
      using assms(2) unfolding scannable_def by blast
    then show "blames (bindP (liftR (res_map scan_history rows)) (\<lambda>scanned. retP (fold add_recorded scanned emptyHistory)))"
      by (intro blames_bind blames_ok blames_ret)
  qed
  then show ?thesis
    unfolding openHistory_def ensureVersionTable_def execute_def assms(1)
    by (intro blames_bind blames_mig021 blames_exec)
qed

context migration_database
begin

lemma locked_view:
  assumes "working V db = None" and "same_view V db d1" and "md_Lock drv d1 = (Inr u, d2)"
  shows "committed V d2 = committed V db \<and> working V d2 = Some (committed V db)"
proof -
  have "working V d1 = None"
    using assms by (simp add: same_view_def)
  then have "case md_Lock drv d1 of (Inl e, d') \<Rightarrow> same_view V d1 d'
      | (Inr _, d') \<Rightarrow> committed V d' = committed V d1 \<and> working V d' = Some (committed V d1)"
    using transaction_laws by (simp add: transaction_laws_def)
  then show ?thesis
    using assms by (simp add: same_view_def)
qed

lemma in_run_lock_body:
  assumes idle: "working V (run_db s) = None" and run: "in_run_lock drv body s = (res, t)"
  shows "run_sent t = run_sent s \<or>
    (\<exists>u r' u'. body u = (r', u') \<and> run_sent u = run_sent s \<and> run_sent t = run_sent u' \<and>
       committed V (run_db u) = committed V (run_db s) \<and> working V (run_db u) = Some (committed V (run_db s)))"
proof -
  obtain r1 d1 where conn: "md_Conn drv (run_db s) = (r1, d1)"
    by fastforce
  obtain r2 d2 where lock: "md_Lock drv d1 = (r2, d2)"
    by fastforce
  have d1: "same_view V (run_db s) d1"
    using transaction_laws conn unfolding transaction_laws_def by (metis snd_conv)
  show ?thesis
  proof (cases "\<exists>u v. r1 = Inr u \<and> r2 = Inr v")
    case False
    then show ?thesis
      using run conn lock by (auto simp: in_run_lock_def bindP_def on_db_def deferred_def split: sum.splits)
  next
    case True
    obtain r3 s3 where ran: "body (s\<lparr>run_db := d2\<rparr>) = (r3, s3)"
      by fastforce
    have "run_sent t = run_sent s3"
      using run conn lock True ran
      by (auto simp: in_run_lock_def bindP_def on_db_def deferred_def unless_returned_def prog_defs split: sum.splits prod.splits)
    moreover have "committed V d2 = committed V (run_db s) \<and> working V d2 = Some (committed V (run_db s))"
      using locked_view [OF idle d1] lock True by auto
    ultimately show ?thesis
      using ran by (intro disjI2 exI [where x = "s\<lparr>run_db := d2\<rparr>"] exI [where x = r3] exI [where x = s3]) simp
  qed
qed

text \<open>What was read when the opening of a run returns.\<close>

lemma opening_reads:
  assumes "rn_driver r = drv" and "all_plain plain (run_sent u)" and "plain (VersionTableSQL (rn_dialect r))" and "plain selectHistory"
    and "working V (run_db u) = Some (committed V (run_db u))" and "openHistory r u = (Inr recorded, u')"
  shows "reads recorded (committed V (run_db u))"
proof -
  let ?c = "committed V (run_db u)"
  have "stands V plain True ?c ?c u"
    using assms(5) by (simp add: stands_def)
  then have "stands V plain (True \<and> reads recorded ?c) ?c ?c u'"
    by (rule validD_Inr [OF openHistory_stands [OF assms(1)] _ assms(6)])
  moreover have "all_plain plain (run_sent u')"
    by (rule all_plain_prefix [OF openHistory_sent [OF assms(6)] all_plain_opening]) (rule assms)+
  ultimately show ?thesis
    by (simp add: stands_def)
qed

lemma Migrate_refuses:
  assumes r: "rn_driver r = drv" and plan: "Render (rn_maps r) (rn_dialect r) (rn_set r) = Inr plan"
    and idle: "working V (run_db s) = None" and plain: "all_plain plain (run_sent s)" "plain (VersionTableSQL (rn_dialect r))" "plain selectHistory"
    and bad: "\<not> (history_valid plan (committed V (run_db s)) \<and> no_pending_draft (\<lambda>_. True) plan (committed V (run_db s)))"
    and run: "Migrate r options s = (res, t)"
  shows "prefix (run_sent t) (run_sent s @ sent_opening (rn_dialect r))"
proof -
  let ?body = "bindP (openHistory r) (\<lambda>recorded. bindP (liftR (validateHistory plan recorded)) (\<lambda>_.
      bindP (liftR (refusePendingDrafts plan recorded (\<lambda>_. True))) (\<lambda>_. migrate_versions r options recorded plan 0)))"
  have "in_run_lock drv ?body s = (res, t)"
    using run by (simp add: Migrate_def plan r)
  from in_run_lock_body [OF idle this] show ?thesis
  proof (elim disjE exE conjE)
    fix u r' u'
    assume body: "?body u = (r', u')" and sent: "run_sent u = run_sent s" "run_sent t = run_sent u'"
      and view: "committed V (run_db u) = committed V (run_db s)" "working V (run_db u) = Some (committed V (run_db s))"
    obtain r1 u1 where opened: "openHistory r u = (r1, u1)"
      by fastforce
    have "u' = u1"
    proof (cases r1)
      case (Inl e)
      then show ?thesis
        using body opened by (simp add: bindP_def)
    next
      case (Inr recorded)
      have "reads recorded (committed V (run_db u))"
        using opening_reads [of r u recorded u1] r plain sent view opened Inr by simp
      then have "validateHistory plan recorded \<noteq> Inr () \<or> refusePendingDrafts plan recorded (\<lambda>_. True) \<noteq> Inr ()"
        using bad view by (auto simp: validateHistory_iff refusePendingDrafts_iff)
      then show ?thesis
        using body opened Inr by (cases "validateHistory plan recorded"; cases "refusePendingDrafts plan recorded (\<lambda>_. True)")
          (auto simp: bindP_def liftR_def failP_def)
    qed
    then show ?thesis
      using openHistory_sent [OF opened] sent by simp
  qed simp
qed

end

text \<open>
  A run under the lock whose body fails only with a call, started where a locked transaction stands, fails only with
  a call itself.
\<close>

lemma in_run_lock_blames:
  assumes laws: "history_laws drv V plain" and idle: "working V (fst (run_db s)) = None"
    and body: "\<And>u r' u'. run_sent u = run_sent s \<Longrightarrow> committed V (fst (run_db u)) = committed V (fst (run_db s)) \<Longrightarrow>
      working V (fst (run_db u)) = Some (committed V (fst (run_db s))) \<Longrightarrow> body u = (r', u') \<Longrightarrow>
      (failed u \<longrightarrow> failed u') \<and> (is_ok r' \<or> failed u')"
    and run: "in_run_lock (watched drv) body s = (res, t)"
  shows "is_ok res \<or> failed t"
proof -
  note database = migration_database.intro [OF watched_laws [OF laws]]
  have idle': "working (watched_view V) (run_db s) = None"
    using idle by simp
  obtain r1 d1 where conn: "watch (md_Conn drv) (run_db s) = (r1, d1)"
    by (cases "watch (md_Conn drv) (run_db s)")
  obtain r2 d2 where lock: "watch (md_Lock drv) d1 = (r2, d2)"
    by (cases "watch (md_Lock drv) d1")
  have d1: "same_view (watched_view V) (run_db s) d1"
    using migration_database.transaction_laws [OF database] conn unfolding transaction_laws_def watched_simps by (metis snd_conv)
  have flags: "snd d1 \<longleftrightarrow> snd (run_db s) \<or> \<not> is_ok r1" "snd d2 \<longleftrightarrow> snd d1 \<or> \<not> is_ok r2"
    using conn lock by (auto simp: watch_def split: prod.splits)
  show ?thesis
  proof (cases "\<exists>u v. r1 = Inr u \<and> r2 = Inr v")
    case False
    then show ?thesis
      using run conn lock flags
      by (auto simp: in_run_lock_def bindP_def on_db_def deferred_def failed_def split: sum.splits)
  next
    case True
    obtain r3 s3 where ran: "body (s\<lparr>run_db := d2\<rparr>) = (r3, s3)"
      by fastforce
    have "committed V (fst d2) = committed V (fst (run_db s)) \<and> working V (fst d2) = Some (committed V (fst (run_db s)))"
      using migration_database.locked_view [OF database idle' d1, of "()" d2] lock True by auto
    then have "is_ok r3 \<or> failed s3"
      using body [OF _ _ _ ran] by simp
    moreover obtain r4 d4 where commit: "watch (md_Commit drv) (run_db s3) = (r4, d4)" and "snd d4 \<longleftrightarrow> failed s3 \<or> \<not> is_ok r4"
      by (cases "watch (md_Commit drv) (run_db s3)") (auto simp: watch_def failed_def split: prod.splits)
    ultimately show ?thesis
      using run conn lock True ran
      by (cases r3; cases r4) (auto simp: in_run_lock_def bindP_def on_db_def deferred_def unless_returned_def failed_def prog_defs)
  qed
qed

lemma Migrate_blames:
  assumes laws: "history_laws drv V plain" and r: "rn_driver r = watched drv" and plan: "Render (rn_maps r) (rn_dialect r) (rn_set r) = Inr plan"
    and scan: "scannable drv (rn_dialect r)" and force: "AllowViewDrift options" and idle: "working V (fst (run_db s)) = None"
    and plain: "all_plain plain (run_sent s)" "plain (VersionTableSQL (rn_dialect r))" "plain selectHistory"
    and good: "history_valid plan (committed V (fst (run_db s)))" "no_pending_draft (\<lambda>_. True) plan (committed V (fst (run_db s)))"
    and run: "Migrate r options s = (res, t)"
  shows "is_ok res \<or> failed t"
proof -
  note database = migration_database.intro [OF watched_laws [OF laws]]
  let ?body = "bindP (openHistory r) (\<lambda>recorded. bindP (liftR (validateHistory plan recorded)) (\<lambda>_.
      bindP (liftR (refusePendingDrafts plan recorded (\<lambda>_. True))) (\<lambda>_. migrate_versions r options recorded plan 0)))"
  have body: "(failed u \<longrightarrow> failed u') \<and> (is_ok r' \<or> failed u')"
    if u: "run_sent u = run_sent s" "committed V (fst (run_db u)) = committed V (fst (run_db s))"
      "working V (fst (run_db u)) = Some (committed V (fst (run_db s)))" and ran: "?body u = (r', u')" for u r' u'
  proof (rule blames_bind_at [OF blames_opening [OF r scan] _ ran])
    fix recorded u1
    assume opened: "openHistory r u = (Inr recorded, u1)"
    have "reads recorded (committed V (fst (run_db u)))"
      using migration_database.opening_reads [OF database r _ plain(2,3) _ opened] plain(1) u by simp
    then have "validateHistory plan recorded = Inr () \<and> refusePendingDrafts plan recorded (\<lambda>_. True) = Inr ()"
      using good u by (simp add: validateHistory_iff refusePendingDrafts_iff)
    then show "blames (bindP (liftR (validateHistory plan recorded)) (\<lambda>_.
        bindP (liftR (refusePendingDrafts plan recorded (\<lambda>_. True))) (\<lambda>_. migrate_versions r options recorded plan 0)))"
      by (intro blames_bind blames_ok blames_migrate [OF r scan force]) simp_all
  qed
  show ?thesis
  proof (rule in_run_lock_blames [OF laws idle])
    show "in_run_lock (watched drv) ?body s = (res, t)"
      using run by (simp add: Migrate_def plan r)
  qed (rule body)
qed

end
