(* ===== verification/Memory_Database.thy ===== *)
theory Memory_Database
  imports Migration_Live
begin

text \<open>
  A database that keeps the laws of \<open>Migration_History\<close>: one version table in memory, with one transaction at a time.
\<close>

section \<open>A database in memory\<close>

type_synonym version_table = "((int \<times> string) \<times> recordedRow) list"

record memory_db =
  mem_table :: version_table
  mem_tx :: "version_table option"
  mem_log :: "string list"
  mem_broken :: "string list"

definition memory_rows :: "memory_db \<Rightarrow> version_table" where
  "memory_rows d = (case mem_tx d of None \<Rightarrow> mem_table d | Some rows \<Rightarrow> rows)"

definition on_tx :: "(version_table \<Rightarrow> version_table) \<Rightarrow> (memory_db, unit) prog" where
  "on_tx f d = (case mem_tx d of None \<Rightarrow> (Inl (PlainError ''no transaction''), d) | Some rows \<Rightarrow> (Inr (), d\<lparr>mem_tx := Some (f rows)\<rparr>))"

fun insert_row :: "sql_args \<Rightarrow> (memory_db, unit) prog" where
  "insert_row [(_, SqlInt v), (_, SqlText ob), (_, SqlText ds), (_, SqlText ck), _, _] d =
     (if (v, ob) \<in> fst ` set (memory_rows d) then (Inl (PlainError ''UNIQUE constraint failed''), d)
      else on_tx (\<lambda>rows. ((v, ob), \<lparr>rr_Description = ds, rr_Checksum = ck\<rparr>) # rows) d)"
| "insert_row _ d = (Inl (PlainError ''bad arguments''), d)"

fun delete_rows :: "sql_args \<Rightarrow> (memory_db, unit) prog" where
  "delete_rows [(_, SqlInt v)] d = on_tx (filter (\<lambda>(key, row). fst key \<noteq> v)) d"
| "delete_rows _ d = (Inl (PlainError ''bad arguments''), d)"

definition memory_exec :: "string \<Rightarrow> sql_args \<Rightarrow> (memory_db, unit) prog" where
  "memory_exec sql args d =
     (if sql \<in> set (mem_broken d) then (Inl (PlainError ''syntax error''), d)
      else if sql = insertRecord then insert_row args d
      else if sql = deleteRecord then delete_rows args d
      else (Inr (), d\<lparr>mem_log := mem_log d @ [sql]\<rparr>))"

definition memory_query :: "string \<Rightarrow> sql_args \<Rightarrow> (memory_db, sql_value list list) prog" where
  "memory_query sql args d =
     (if sql = selectHistory
      then (Inr (map (\<lambda>((v, ob), row). [SqlInt v, SqlText ob, SqlText (rr_Description row), SqlText (rr_Checksum row)])
              (AList.clearjunk (memory_rows d))), d)
      else if sql = ColumnsInfoSQL SqliteDialect \<and> args = [(''relation'', SqlText ''schema_version'')]
      then (Inr [[SqlText ''version'', SqlText ''integer'', SqlInt 1, SqlInt 1, SqlInt 0]], d)
      else (Inr [], d))"

definition memory_driver :: "memory_db migration_driver" where
  "memory_driver = \<lparr>md_Conn = retP (), md_Close = id, md_Lock = (\<lambda>d. (Inr (), d\<lparr>mem_tx := Some (mem_table d)\<rparr>)),
     md_Exec = memory_exec, md_Query = memory_query,
     md_Commit = (\<lambda>d. case mem_tx d of None \<Rightarrow> (Inr (), d) | Some rows \<Rightarrow> (Inr (), d\<lparr>mem_table := rows, mem_tx := None\<rparr>)),
     md_Rollback = (\<lambda>d. d\<lparr>mem_tx := None\<rparr>), md_Now = (\<lambda>d. (0, d)),
     md_randomHex = (\<lambda>n d. (replicate (2 * n) (CHR ''0''), d)), md_FormatUTC = show_int\<rparr>"

definition memory_view :: "memory_db database_view" where
  "memory_view = \<lparr>committed = (\<lambda>d. map_of (mem_table d)), working = (\<lambda>d. map_option map_of (mem_tx d))\<rparr>"

definition memory_plain :: "string \<Rightarrow> bool" where
  "memory_plain sql \<longleftrightarrow> sql \<noteq> insertRecord \<and> sql \<noteq> deleteRecord"

lemma memory_view_simps [simp]:
  "committed memory_view d = map_of (mem_table d)" "working memory_view d = map_option map_of (mem_tx d)"
  by (simp_all add: memory_view_def)

lemma memory_seen: "seen memory_view d = map_of (memory_rows d)"
  by (simp add: seen_def memory_rows_def split: option.splits)

lemma memory_transaction: "transaction_laws memory_driver memory_view"
  by (auto simp: transaction_laws_def memory_driver_def same_view_def retP_def split: option.splits)

lemma on_tx_view:
  "case on_tx f d of
     (Inl e, d') \<Rightarrow> same_view memory_view d d'
   | (Inr _, d') \<Rightarrow> committed memory_view d' = committed memory_view d \<and>
       working memory_view d' = map_option (map_of \<circ> f) (mem_tx d)"
  by (simp add: on_tx_def same_view_def split: option.splits)

lemma map_of_filter_version: "map_of (filter (\<lambda>(key, row). fst key \<noteq> v) rows) = delete_in v (map_of rows)"
  by (induction rows) (auto simp: delete_in_def restrict_map_def fun_eq_iff)

lemma memory_statements: "statement_laws memory_driver memory_view memory_plain"
proof -
  have "memory_plain (''savepoint '' @ savepoint)" "memory_plain (''rollback to savepoint '' @ savepoint)" "memory_plain (''release savepoint '' @ savepoint)"
    by (simp_all add: memory_plain_def insertRecord_def deleteRecord_def)
  moreover have "same_view memory_view d (snd (memory_exec sql [] d))" if "memory_plain sql" for sql d
    using that by (simp add: memory_exec_def memory_plain_def same_view_def)
  moreover have "case memory_exec insertRecord (record_args version step at' ms) d of
      (Inl e, d') \<Rightarrow> same_view memory_view d d'
    | (Inr _, d') \<Rightarrow> committed memory_view d' = committed memory_view d \<and>
        working memory_view d' = map_option (record_in version step) (working memory_view d)" for version step at' ms d
    by (auto simp: memory_exec_def record_args_def on_tx_def same_view_def record_in_def recorded_row_def split: option.splits)
  moreover have "case memory_exec deleteRecord [(''version'', SqlInt version)] d of
      (Inl e, d') \<Rightarrow> same_view memory_view d d'
    | (Inr _, d') \<Rightarrow> committed memory_view d' = committed memory_view d \<and>
        working memory_view d' = map_option (delete_in version) (working memory_view d)" for version d
    by (auto simp: memory_exec_def on_tx_def same_view_def map_of_filter_version insertRecord_def deleteRecord_def split: option.splits)
  ultimately show ?thesis
    by (simp add: statement_laws_def memory_driver_def)
qed

lemma memory_scan:
  "res_map scan_history (map (\<lambda>((v, ob), row). [SqlInt v, SqlText ob, SqlText (rr_Description row), SqlText (rr_Checksum row)]) rows) =
   Inr (map (\<lambda>((v, ob), row). (v, ob, row)) rows)"
  by (induction rows) auto

lemma memory_reading: "reading_laws memory_driver memory_view"
proof -
  have "distinct (map (\<lambda>(v, ob, row). (v, ob)) scanned) \<and> history_rows scanned = seen memory_view d"
    if "fst (memory_query selectHistory [] d) = Inr rows" and "res_map scan_history rows = Inr scanned" for d rows scanned
  proof -
    let ?rows = "AList.clearjunk (memory_rows d)"
    have scanned: "scanned = map (\<lambda>((v, ob), row). (v, ob, row)) ?rows"
      using that memory_scan [of ?rows] by (auto simp: memory_query_def)
    have "map (\<lambda>(v, ob, row). (v, ob)) scanned = map fst ?rows" and "history_rows scanned = map_of ?rows"
      by (auto simp: scanned history_rows_def comp_def split_beta)
    then show ?thesis
      using distinct_clearjunk [of "memory_rows d"] by (simp add: memory_seen map_of_clearjunk)
  qed
  moreover have "same_view memory_view d (snd (memory_query sql args d))" for sql args d
    by (simp add: memory_query_def same_view_def)
  ultimately show ?thesis
    unfolding reading_laws_def memory_driver_def migration_driver.simps by blast
qed

lemma memory_laws: "history_laws memory_driver memory_view memory_plain"
  by (simp add: history_laws_def memory_transaction memory_statements memory_reading)

interpretation memory: migration_database memory_driver memory_view memory_plain
  by unfold_locales (rule memory_laws)


end
