(* ===== verification/Migration_Runner.thy ===== *)
theory Migration_Runner
  imports Memory_Database
begin

text \<open>
  The runner's contract with any database that keeps the laws of \<open>Migration_History\<close>, and its runs on the one in memory.
\<close>

section \<open>The runner's contract\<close>

lemma rendered_wf: "NewSet versions = Inr (set' :: migration_set) \<Longrightarrow> Render maps d set' = Inr plan \<Longrightarrow> wf_plan plan"
  by (auto dest!: NewSet_Inr Render_Inr)

text \<open>
  C28: \<open>Migrate\<close> refines its specification on the recorded history, with any driver that keeps the laws: a run that fails,
  wherever it fails, leaves the committed history as it was; a run that returns found the history valid and no
  draft pending, and commits exactly the rows of the versions not yet recorded besides those that were
  there, returning how many versions that were. Either way no transaction is left open.
\<close>

theorem Migrate_refines:
  assumes "history_laws (rn_driver r) V plain" and "NewSet versions = Inr (rn_set r)"
    and "working V (run_db s) = None" and "Migrate r options s = (res, t)" and "all_plain plain (run_sent t)"
  shows "working V (run_db t) = None \<and>
    (case res of
       Inl e \<Rightarrow> committed V (run_db t) = committed V (run_db s)
     | Inr n \<Rightarrow> (\<exists>plan. Render (rn_maps r) (rn_dialect r) (rn_set r) = Inr plan \<and>
         history_valid plan (committed V (run_db s)) \<and> no_pending_draft (\<lambda>_. True) plan (committed V (run_db s)) \<and>
         n = length (filter (unrecorded (committed V (run_db s))) plan) \<and>
         committed V (run_db t) = committed V (run_db s) ++ planned_rows (filter (unrecorded (committed V (run_db s))) plan)))"
proof (cases "Render (rn_maps r) (rn_dialect r) (rn_set r)")
  case (Inl e)
  then show ?thesis
    using assms by (auto simp: Migrate_def prog_defs)
next
  case (Inr plan)
  then show ?thesis
    using migration_database.Migrate_commits [OF migration_database.intro [OF assms(1)] refl Inr rendered_wf [OF assms(2) Inr] assms(3-5)]
    by (auto split: sum.splits)
qed

text \<open>
  C29: \<open>MigrateDown\<close> refines its specification: when it returns, the committed history is the old one restricted to
  the versions up to the target, and the number returned counts the recorded versions of the plan above it; when
  it fails, because a rollback cannot be derived or a statement fails, the committed history is unchanged.
\<close>

theorem MigrateDown_refines:
  assumes "history_laws (rn_driver r) V plain" and "working V (run_db s) = None"
    and "MigrateDown r target options s = (res, t)" and "all_plain plain (run_sent t)"
  shows "working V (run_db t) = None \<and>
    (case res of
       Inl e \<Rightarrow> committed V (run_db t) = committed V (run_db s)
     | Inr n \<Rightarrow> (\<exists>plan. Render (rn_maps r) (rn_dialect r) (rn_set r) = Inr plan \<and> history_valid plan (committed V (run_db s)) \<and>
         n = length (filter (\<lambda>version. target < rdv_Version version \<and> \<not> unrecorded (committed V (run_db s)) version) plan) \<and>
         committed V (run_db t) = committed V (run_db s) |` {key. fst key \<le> target}))"
proof (cases "Render (rn_maps r) (rn_dialect r) (rn_set r)")
  case (Inl e)
  then show ?thesis
    using assms by (auto simp: MigrateDown_def prog_defs)
next
  case (Inr plan)
  then show ?thesis
    using migration_database.MigrateDown_commits [OF migration_database.intro [OF assms(1)] refl Inr assms(2-4)]
    by (auto split: sum.splits)
qed

text \<open>
  C30: \<open>Baseline\<close> records, without running them, exactly the unrecorded versions up to the given one, provided none of
  them is a draft; a failing one records nothing.
\<close>

theorem Baseline_refines:
  assumes "history_laws (rn_driver r) V plain" and "NewSet versions = Inr (rn_set r)"
    and "working V (run_db s) = None" and "Baseline r version s = (res, t)" and "all_plain plain (run_sent t)"
  shows "working V (run_db t) = None \<and>
    (case res of
       Inl e \<Rightarrow> committed V (run_db t) = committed V (run_db s)
     | Inr _ \<Rightarrow> (\<exists>plan. Render (rn_maps r) (rn_dialect r) (rn_set r) = Inr plan \<and>
         no_pending_draft (\<lambda>v. v \<le> version) plan (committed V (run_db s)) \<and>
         committed V (run_db t) = committed V (run_db s) ++
           planned_rows (filter (\<lambda>v. rdv_Version v \<le> version \<and> unrecorded (committed V (run_db s)) v) plan)))"
proof (cases "Render (rn_maps r) (rn_dialect r) (rn_set r)")
  case (Inl e)
  then show ?thesis
    using assms by (auto simp: Baseline_def prog_defs)
next
  case (Inr plan)
  then show ?thesis
    using migration_database.Baseline_commits [OF migration_database.intro [OF assms(1)] refl Inr rendered_wf [OF assms(2) Inr] assms(3-5)]
    by (auto split: sum.splits)
qed


text \<open>
  C31: When the recorded history disagrees with the plan, or a draft is pending, \<open>Migrate\<close> returns an error, and the
  most it has sent is the statement creating the version table and the one reading it: no statement of any
  migration runs, and the committed history is unchanged.
\<close>

theorem Migrate_refused:
  assumes "history_laws (rn_driver r) V plain" and "NewSet versions = Inr (rn_set r)"
    and "Render (rn_maps r) (rn_dialect r) (rn_set r) = Inr plan" and "working V (run_db s) = None"
    and "all_plain plain (run_sent s)" and "plain (VersionTableSQL (rn_dialect r))" and "plain selectHistory"
    and "\<not> (history_valid plan (committed V (run_db s)) \<and> no_pending_draft (\<lambda>_. True) plan (committed V (run_db s)))"
    and "Migrate r options s = (res, t)"
  shows "\<not> is_ok res \<and> prefix (run_sent t) (run_sent s @ [(VersionTableSQL (rn_dialect r), []), (selectHistory, [])]) \<and>
    committed V (run_db t) = committed V (run_db s)"
proof -
  note database = migration_database.intro [OF assms(1)]
  have sent: "prefix (run_sent t) (run_sent s @ sent_opening (rn_dialect r))"
    by (rule migration_database.Migrate_refuses [OF database refl assms(3-9)])
  then have "all_plain plain (run_sent t)"
    by (rule all_plain_prefix [OF _ all_plain_opening]) (rule assms)+
  from migration_database.Migrate_commits [OF database refl assms(3) rendered_wf [OF assms(2,3)] assms(4,9) this]
  show ?thesis
    using assms(8) sent by (auto simp: is_ok_iff sent_opening_def split: sum.splits)
qed

text \<open>
  C32: A \<open>Migrate\<close> that may override drift fails only with the database. On a history that agrees with the plan - every
  applied step with its checksum, every recorded row one the plan composes, no draft pending - a run during which
  no call to the driver failed (the flag beside the database, which changes nothing of what the driver does, is
  still down) returns. The driver keeps the laws of the recorded history, and what its reads return can be scanned.
\<close>

theorem Migrate_returns:
  assumes "history_laws drv V plain" and "scannable drv (rn_dialect r)" and "rn_driver r = watched drv" and "AllowViewDrift options"
    and "Render (rn_maps r) (rn_dialect r) (rn_set r) = Inr plan" and "working V (fst (run_db s)) = None"
    and "all_plain plain (run_sent s)" and "plain (VersionTableSQL (rn_dialect r))" and "plain selectHistory"
    and "history_valid plan (committed V (fst (run_db s)))" and "\<forall>key \<in> dom (committed V (fst (run_db s))). composed plan key"
    and "no_pending_draft (\<lambda>_. True) plan (committed V (fst (run_db s)))"
    and "Migrate r options s = (res, t)" and "\<not> failed t"
  shows "\<exists>n. res = Inr n"
  using Migrate_blames [OF assms(1,3,5,2,4,6-10,12,13)] assms(14) by (simp add: is_ok_iff)

text \<open>
  C33: \<open>Status\<close> reports, strictly ordered by version and object - so one entry each -, an entry for every step of the
  plan with its state against the recorded history and an Unknown entry for every recorded row the plan does not
  compose, and nothing else; and when every version composes a step, \<open>HasPending\<close> answers whether some version,
  draft or not, is not recorded.
\<close>

theorem Status_reports:
  assumes "history_laws (rn_driver r) V plain" and "presence_law (rn_driver r) V (rn_dialect r)" and "NewSet versions = Inr (rn_set r)"
    and "Render (rn_maps r) (rn_dialect r) (rn_set r) = Inr plan" and "working V (run_db s) = None"
    and "Status r s = (Inr entries, t)" and "HasPending r s = (Inr pending, t')"
  shows "set entries = reported plan (committed V (run_db s)) \<and> sorted_wrt (<) (map (\<lambda>e. (me_Version e, me_ObjectName e)) entries) \<and>
    ((\<forall>version \<in> set plan. rdv_Steps version \<noteq> []) \<longrightarrow>
      (pending \<longleftrightarrow> (\<exists>version \<in> set plan. unrecorded (committed V (run_db s)) version)))"
proof -
  note database = migration_database.intro [OF assms(1)] and wf = rendered_wf [OF assms(3,4)]
  show ?thesis
    using migration_database.Status_reads [OF database refl assms(4) wf assms(2,5,6)]
      migration_database.HasPending_reads [OF database refl assms(4) wf assms(2,5,7)] by blast
qed

lemma fst_dom_planned: "key \<in> fst ` dom (planned_rows plan) \<longleftrightarrow> (\<exists>version \<in> set plan. rdv_Steps version \<noteq> [] \<and> rdv_Version version = key)"
proof -
  have "fst ` fst ` set (version_rows version) = (if rdv_Steps version = [] then {} else {rdv_Version version})" for version
    by (cases "rdv_Steps version") (auto simp: version_rows_def image_image)
  then show ?thesis
    by (auto simp: planned_rows_def dom_map_of_conv_image_fst image_UN)
qed

lemma unrecorded_after:
  assumes "wf_plan plan" and "version \<in> set plan"
  shows "unrecorded (c ++ planned_rows (filter (unrecorded c) plan)) version \<longleftrightarrow> unrecorded c version \<and> rdv_Steps version = []"
proof -
  let ?P = "filter (unrecorded c) plan"
  have unique: "v = version" if "v \<in> set plan" and "rdv_Version v = rdv_Version version" for v
    using assms that strict_sorted_iff [of "map rdv_Version plan"] by (auto simp: wf_plan_def distinct_map inj_on_def)
  have "rdv_Version version \<in> fst ` dom (planned_rows ?P) \<longleftrightarrow> unrecorded c version \<and> rdv_Steps version \<noteq> []"
    unfolding fst_dom_planned using assms(2) by (auto dest: unique)
  moreover have "unrecorded (c ++ planned_rows ?P) version \<longleftrightarrow> unrecorded c version \<and> rdv_Version version \<notin> fst ` dom (planned_rows ?P)"
    unfolding unrecorded_def dom_map_add image_Un by blast
  ultimately show ?thesis
    by blast
qed

text \<open>
  After a \<open>Migrate\<close> that returned, a second one changes no record; the versions it counts again are those that compose
  no step, which are never recorded.
\<close>

lemma Migrate_recounts:
  assumes "history_laws (rn_driver r) V plain" and "wf_plan plan"
    and "Render (rn_maps r) (rn_dialect r) (rn_set r) = Inr plan" and "working V (run_db s) = None"
    and "Migrate r options s = (Inr n, t)" and "all_plain plain (run_sent t)"
    and "Migrate r options' t = (Inr m, u)" and "all_plain plain (run_sent u)"
  shows "working V (run_db t) = None \<and> committed V (run_db u) = committed V (run_db t) \<and>
    committed V (run_db t) = committed V (run_db s) ++ planned_rows (filter (unrecorded (committed V (run_db s))) plan) \<and>
    m = length (filter (\<lambda>version. unrecorded (committed V (run_db s)) version \<and> rdv_Steps version = []) plan)"
proof -
  note database = migration_database.intro [OF assms(1)] and wf = assms(2)
  let ?c = "committed V (run_db s)" and ?c' = "committed V (run_db t)"
  have idle: "working V (run_db t) = None" and c': "?c' = ?c ++ planned_rows (filter (unrecorded ?c) plan)"
    using migration_database.Migrate_commits [OF database refl assms(3) wf assms(4,5,6)] by simp_all
  have again: "filter (unrecorded ?c') plan = filter (\<lambda>version. unrecorded ?c version \<and> rdv_Steps version = []) plan"
    using unrecorded_after [OF wf] by (auto simp: c' intro!: filter_cong)
  have "planned_rows (filter (unrecorded ?c') plan) = Map.empty"
    unfolding again by (simp add: planned_rows_def concat_eq_Nil_conv version_rows_def)
  then show ?thesis
    using migration_database.Migrate_commits [OF database refl assms(3) wf idle assms(7,8)] again idle c' by simp
qed

text \<open>
  C34: After a \<open>Migrate\<close> that returned, nothing is pending: when every version composes a step, \<open>HasPending\<close> answers no,
  and migrating again applies no version and changes no record.
\<close>

theorem Migrate_settles:
  assumes "history_laws (rn_driver r) V plain" and "presence_law (rn_driver r) V (rn_dialect r)" and "NewSet versions = Inr (rn_set r)"
    and "Render (rn_maps r) (rn_dialect r) (rn_set r) = Inr plan" and "\<forall>version \<in> set plan. rdv_Steps version \<noteq> []"
    and "working V (run_db s) = None" and "Migrate r options s = (Inr n, t)" and "all_plain plain (run_sent t)"
    and "HasPending r t = (Inr pending, t')"
    and "Migrate r options' t = (Inr m, u)" and "all_plain plain (run_sent u)"
  shows "\<not> pending \<and> m = 0 \<and> committed V (run_db u) = committed V (run_db t)"
proof -
  note database = migration_database.intro [OF assms(1)] and wf = rendered_wf [OF assms(3,4)]
  note recount = Migrate_recounts [OF assms(1) wf assms(4,6,7,8,10,11)]
  have "\<not> pending"
    using migration_database.HasPending_reads [OF database refl assms(4) wf assms(2) _ assms(9)] recount unrecorded_after [OF wf] by auto
  moreover have "m = 0"
    using recount assms(5) by (auto simp: filter_empty_conv)
  ultimately show ?thesis
    using recount by blast
qed

section \<open>A run\<close>

definition memory_start :: "version_table \<Rightarrow> string list \<Rightarrow> memory_db run_state" where
  "memory_start rows broken = \<lparr>run_db = \<lparr>mem_table = rows, mem_tx = None, mem_log = [], mem_broken = broken\<rparr>, run_sent = [], run_notices = []\<rparr>"

definition memory_runner :: "migration_set \<Rightarrow> memory_db Runner" where
  "memory_runner s = \<lparr>rn_driver = memory_driver, rn_dialect = SqliteDialect, rn_maps = sample_loader, rn_set = s, rn_snapshots = newSnapshotSet\<rparr>"

definition forced :: RunOptions where
  "forced = \<lparr>AllowViewDrift = True, Notify = True\<rparr>"

definition table_root :: root_version where
  "table_root = \<lparr>rv_typeName = ''SQLVersion'', rv_versioned = Some 1, rv_isDraft = None,
     rv_compose = [\<lparr>st_typeName = ''rawStep'', st_described = Some (1, ''change''),
       st_describe = (sample_descriptor ''create table t (i)'')\<lparr>sd_down := [''drop table t'']\<rparr>, st_tableAction = None,
       st_viewAction = None, st_triggerAction = None, st_tableDown = None, st_viewDown = None, st_triggerDown = None, st_preDown = None, st_postDown = None\<rparr>]\<rparr>"

definition sample_set :: migration_set where
  "sample_set = [(table_root, 1)]"

definition sample_step :: RenderedStep where
  "sample_step = \<lparr>rs_Version = 1, rs_ObjectName = ''orders'', rs_Description = ''change'',
     rs_Up = [plain_statement ''create table t (i)'' ''sql orders''],
     rs_Down = \<lparr>dp_Pre = [], dp_Core = [plain_statement ''drop table t'' ''sql orders''], dp_Post = []\<rparr>, rs_Renames = [], rs_Trigger = None, rs_TriggerDropped = False\<rparr>"

definition sample_plan :: "RenderedVersion list" where
  "sample_plan = [\<lparr>rdv_Version = 1, rdv_Draft = False, rdv_Steps = [sample_step]\<rparr>]"

lemma sample_NewSet: "NewSet [table_root] = Inr sample_set"
  by (simp add: NewSet_def table_root_def rootVersionNumber_def check_step_def stepIdentity_def checkActionShape_def sample_descriptor_def sample_set_def)

lemma sample_Render: "Render sample_loader SqliteDialect sample_set = Inr sample_plan"
  by (simp add: Render_def sample_set_def table_root_def objectNameFor_def renderStep_def stepIdentity_def renderRawStep_def sample_descriptor_def isDraft_def
      rawTriggerDeclaration_def sample_plan_def sample_step_def)

lemma sample_statements: "memory_plain (VersionTableSQL SqliteDialect)" "memory_plain ''create table t (i)''" "memory_plain ''drop table t''" "memory_plain selectHistory"
  by (code_simp; simp)+

lemma memory_exec_simps:
  "mem_broken d = [] \<Longrightarrow> memory_plain sql \<Longrightarrow> memory_exec sql [] d = (Inr (), d\<lparr>mem_log := mem_log d @ [sql]\<rparr>)"
  "mem_broken d = [] \<Longrightarrow> memory_exec insertRecord args d = insert_row args d"
  "mem_broken d = [] \<Longrightarrow> memory_exec deleteRecord args d = delete_rows args d"
  by (simp_all add: memory_exec_def memory_plain_def) (simp add: insertRecord_def deleteRecord_def)

definition sample_rows :: version_table where
  "sample_rows = [((1, ''orders''), recorded_row sample_step)]"

definition read_rows :: "version_table \<Rightarrow> recordedHistory" where
  "read_rows rows = fold add_recorded (map (\<lambda>((v, ob), row). (v, ob, row)) (AList.clearjunk rows)) emptyHistory"

lemma memory_opening:
  assumes "mem_broken (run_db s) = []" and "mem_tx (run_db s) = Some rows"
  shows "openHistory (memory_runner set') s =
   (Inr (read_rows rows), s\<lparr>run_sent := run_sent s @ sent_opening SqliteDialect, run_db := (run_db s)\<lparr>mem_log := mem_log (run_db s) @ [VersionTableSQL SqliteDialect]\<rparr>\<rparr>)"
  using assms sample_statements memory_scan [of "AList.clearjunk rows"]
  by (simp add: openHistory_def ensureVersionTable_def execute_def mig021_def readRecorded_def bindP_def exec_sent_run query_sent_run memory_runner_def
      memory_driver_def memory_exec_simps memory_query_def memory_rows_def prog_defs sent_opening_def read_rows_def)

lemmas run_defs = in_run_lock_def bindP_def on_db_def deferred_def unless_returned_def prog_defs memory_opening

lemma memory_start_simps [simp]:
  "run_db (memory_start rows broken) = \<lparr>mem_table = rows, mem_tx = None, mem_log = [], mem_broken = broken\<rparr>"
  "run_sent (memory_start rows broken) = []"
  by (simp_all add: memory_start_def)

lemma memory_runner_simps [simp]:
  "rn_driver (memory_runner set') = memory_driver" "rn_dialect (memory_runner set') = SqliteDialect"
  "rn_maps (memory_runner set') = sample_loader" "rn_set (memory_runner set') = set'"
  by (simp_all add: memory_runner_def)

lemma read_sample: "read_rows [] = emptyHistory" "read_rows sample_rows = \<lparr>rh_rows = sample_rows, rh_versions = [1]\<rparr>"
  by (simp_all add: read_rows_def sample_rows_def add_recorded_def emptyHistory_def)

lemma memory_driver_simps [simp]:
  "md_Conn memory_driver = retP ()" "md_Close memory_driver = id" "md_Lock memory_driver d = (Inr (), d\<lparr>mem_tx := Some (mem_table d)\<rparr>)"
  "md_Exec memory_driver = memory_exec" "md_Query memory_driver = memory_query"
  "md_Commit memory_driver d = (case mem_tx d of None \<Rightarrow> (Inr (), d) | Some rows \<Rightarrow> (Inr (), d\<lparr>mem_table := rows, mem_tx := None\<rparr>))"
  "md_Rollback memory_driver d = d\<lparr>mem_tx := None\<rparr>" "md_Now memory_driver d = (0, d)" "md_FormatUTC memory_driver = show_int"
  by (simp_all add: memory_driver_def)

lemma memory_applyStatement:
  "mem_broken (run_db s) = [] \<Longrightarrow> memory_plain sql \<Longrightarrow> applyStatement memory_driver d version (plain_statement sql origin) options s =
   (Inr (), s\<lparr>run_sent := run_sent s @ [(sql, [])], run_db := (run_db s)\<lparr>mem_log := mem_log (run_db s) @ [sql]\<rparr>\<rparr>)"
  by (simp add: applyStatement_def plain_statement_def execute_def mig021_def exec_sent_run memory_exec_simps)

lemma memory_record_step:
  "mem_broken (run_db s) = [] \<Longrightarrow> mem_tx (run_db s) = Some rows \<Longrightarrow> (version, rs_ObjectName step) \<notin> fst ` set rows \<Longrightarrow>
   record_step memory_driver version step ms s =
   (Inr (), s\<lparr>run_sent := run_sent s @ [(insertRecord, record_args version step (show_int 0) ms)],
              run_db := (run_db s)\<lparr>mem_tx := Some (((version, rs_ObjectName step), recorded_row step) # rows)\<rparr>\<rparr>)"
  by (simp add: record_step_def clock_def bindP_def on_db_def exec_sent_run memory_exec_simps record_args_def memory_rows_def on_tx_def recorded_row_def)

lemma sample_step_simps [simp]:
  "rs_Up sample_step = [plain_statement ''create table t (i)'' ''sql orders'']" "rs_ObjectName sample_step = ''orders''" "rs_Version sample_step = 1"
  "rs_Down sample_step = \<lparr>dp_Pre = [], dp_Core = [plain_statement ''drop table t'' ''sql orders''], dp_Post = []\<rparr>"
  by (simp_all add: sample_step_def)

lemma bindP_run: "m s = (Inr x, t) \<Longrightarrow> bindP m f s = f x t"
  by (simp add: bindP_def)

lemma memory_in_run_lock:
  "body (s\<lparr>run_db := (run_db s)\<lparr>mem_tx := Some (mem_table (run_db s))\<rparr>\<rparr>) = (Inr x, t) \<Longrightarrow> mem_tx (run_db t) = Some rows \<Longrightarrow>
   in_run_lock memory_driver body s = (Inr x, t\<lparr>run_db := (run_db t)\<lparr>mem_table := rows, mem_tx := None\<rparr>\<rparr>)"
  by (simp add: in_run_lock_def bindP_def on_db_def deferred_def unless_returned_def retP_def)

lemma sample_migrate:
  "\<exists>t. Migrate (memory_runner sample_set) forced (memory_start [] []) = (Inr 1, t) \<and> all_plain memory_plain (run_sent t) \<and>
     run_db t = \<lparr>mem_table = sample_rows, mem_tx = None, mem_log = [VersionTableSQL SqliteDialect, ''create table t (i)''], mem_broken = []\<rparr>"
proof -
  let ?s = "memory_start [] []"
  let ?body = "bindP (openHistory (memory_runner sample_set)) (\<lambda>recorded. bindP (liftR (validateHistory sample_plan recorded)) (\<lambda>_.
      bindP (liftR (refusePendingDrafts sample_plan recorded (\<lambda>_. True))) (\<lambda>_. migrate_versions (memory_runner sample_set) forced recorded sample_plan 0)))"
  obtain t where body: "?body (?s\<lparr>run_db := (run_db ?s)\<lparr>mem_tx := Some (mem_table (run_db ?s))\<rparr>\<rparr>) = (Inr 1, t)"
    and t: "run_sent t = sent_opening SqliteDialect @ [(''create table t (i)'', []), (insertRecord, record_args 1 sample_step (show_int 0) 0)]"
      "run_db t = \<lparr>mem_table = [], mem_tx = Some sample_rows, mem_log = [VersionTableSQL SqliteDialect, ''create table t (i)''], mem_broken = []\<rparr>"
    using sample_statements
    by (simp add: bindP_def memory_opening read_sample validateHistory_def refusePendingDrafts_def sample_plan_def is_recorded_def emptyHistory_def
        apply_step_def clock_def on_db_def memory_applyStatement memory_record_step Milliseconds_def sample_rows_def prog_defs)
  show ?thesis
    using memory_in_run_lock [where s = ?s and body = ?body, OF body, of sample_rows] t sample_statements
    by (auto simp: Migrate_def sample_Render all_plain_def sent_opening_def record_args_def)
qed


lemma unrecorded_empty [simp]: "unrecorded Map.empty version"
  by (simp add: unrecorded_def)

lemma sample_plan_valid: "history_valid sample_plan (map_of sample_rows)" "no_pending_draft scope sample_plan c" "history_valid sample_plan Map.empty"
  by (auto simp: history_valid_def no_pending_draft_def sample_plan_def sample_rows_def recorded_row_def)

lemma sample_planned: "planned_rows sample_plan = map_of sample_rows" "filter (unrecorded Map.empty) sample_plan = sample_plan"
  "filter (unrecorded (map_of sample_rows)) sample_plan = []"
  by (simp_all add: planned_rows_def version_rows_def sample_plan_def sample_rows_def unrecorded_def)

lemma sample_checked:
  "validateHistory sample_plan \<lparr>rh_rows = sample_rows, rh_versions = [1]\<rparr> = Inr ()"
  "refusePendingDrafts sample_plan recorded scope = Inr ()"
  by (simp_all add: validateHistory_def check_recorded_def refusePendingDrafts_def sample_plan_def sample_rows_def recorded_row_def)

lemma sample_remigrate:
  assumes "run_db s = \<lparr>mem_table = sample_rows, mem_tx = None, mem_log = sent, mem_broken = []\<rparr>"
  shows "\<exists>u. Migrate (memory_runner sample_set) options s = (Inr 0, u) \<and> run_sent u = run_sent s @ sent_opening SqliteDialect"
proof -
  let ?body = "bindP (openHistory (memory_runner sample_set)) (\<lambda>recorded. bindP (liftR (validateHistory sample_plan recorded)) (\<lambda>_.
      bindP (liftR (refusePendingDrafts sample_plan recorded (\<lambda>_. True))) (\<lambda>_. migrate_versions (memory_runner sample_set) options recorded sample_plan 0)))"
  obtain t where body: "?body (s\<lparr>run_db := (run_db s)\<lparr>mem_tx := Some (mem_table (run_db s))\<rparr>\<rparr>) = (Inr 0, t)"
    and t: "run_sent t = run_sent s @ sent_opening SqliteDialect" "mem_tx (run_db t) = Some sample_rows"
    using assms by (simp add: bindP_def memory_opening read_sample sample_checked prog_defs) (simp add: sample_plan_def is_recorded_def retP_def)
  show ?thesis
    using memory_in_run_lock [where s = s and body = ?body, OF body t(2)] t by (simp add: Migrate_def sample_Render)
qed

lemma sample_catalogue: "ColumnsInfoSQL SqliteDialect \<noteq> selectHistory" "ViewDefinitionSQL SqliteDialect \<noteq> selectHistory"
  "TriggerDefinitionSQL SqliteDialect \<noteq> selectHistory" "ViewDefinitionSQL SqliteDialect \<noteq> ColumnsInfoSQL SqliteDialect"
  "TriggerDefinitionSQL SqliteDialect \<noteq> ColumnsInfoSQL SqliteDialect"
  by (code_simp; simp)+

lemma sample_status:
  assumes "run_db s = \<lparr>mem_table = sample_rows, mem_tx = None, mem_log = sent, mem_broken = []\<rparr>"
  shows "\<exists>t. Status (memory_runner sample_set) s =
    (Inr [\<lparr>me_Version = 1, me_ObjectName = ''orders'', me_Description = rs_Description sample_step, me_State = Applied\<rparr>], t)"
  using assms sample_catalogue
  by (simp add: Status_def sample_Render bindP_def on_db_def deferred_def readRecordedIfPresent_def ReadLiveColumns_def query_sent_run memory_query_def
      readRecorded_def memory_rows_def memory_scan prog_defs status_entries_def)
    (simp add: plan_entries_def unknown_entries_def sample_plan_def sample_rows_def add_recorded_def emptyHistory_def step_state_def recorded_row_def composed_def)

lemma memory_presence: "presence_law memory_driver memory_view SqliteDialect"
  using sample_catalogue by (simp add: presence_law_def memory_query_def)

theorem Migrate_refines_witness:
  "\<exists>t. Migrate (memory_runner sample_set) forced (memory_start [] []) = (Inr 1, t) \<and> committed memory_view (run_db t) = map_of sample_rows"
proof -
  obtain t where run: "Migrate (memory_runner sample_set) forced (memory_start [] []) = (Inr 1, t)" and sent: "all_plain memory_plain (run_sent t)"
    using sample_migrate by blast
  have "committed memory_view (run_db t) = map_of sample_rows"
    using Migrate_refines [of "memory_runner sample_set" memory_view memory_plain "[table_root]" "memory_start [] []" forced "Inr 1" t, simplified]
      memory_laws sample_NewSet run sent by (simp add: sample_Render sample_planned)
  then show ?thesis
    using run by blast
qed

theorem MigrateDown_refines_witness:
  "\<exists>t. MigrateDown (memory_runner sample_set) 0 forced (memory_start sample_rows []) = (Inr 1, t) \<and> committed memory_view (run_db t) = Map.empty"
proof -
  let ?s = "memory_start sample_rows []" and ?r = "memory_runner sample_set"
  let ?body = "bindP (openHistory ?r) (\<lambda>recorded. bindP (liftR (validateHistory sample_plan recorded)) (\<lambda>_.
     bindP (liftR (resolve_rollbacks ?r (reverting_versions sample_plan recorded 0))) (\<lambda>(derived, notices).
     bindP (eachP (\<lambda>n. notify forced (DerivedNotice n)) notices) (\<lambda>_.
     bindP (eachP (revert_version ?r forced derived) (reverting_versions sample_plan recorded 0)) (\<lambda>_.
       retP (length (reverting_versions sample_plan recorded 0)))))))"
  have reverting: "reverting_versions sample_plan \<lparr>rh_rows = sample_rows, rh_versions = [1]\<rparr> 0 = sample_plan"
    by (simp add: reverting_versions_def sample_plan_def is_recorded_def)
  have resolved: "resolve_rollbacks ?r sample_plan = Inr ([], [])"
    by (simp add: resolve_rollbacks_def sample_plan_def resolve_step_def)
  obtain t where body: "?body (?s\<lparr>run_db := (run_db ?s)\<lparr>mem_tx := Some (mem_table (run_db ?s))\<rparr>\<rparr>) = (Inr 1, t)"
    and t: "run_sent t = sent_opening SqliteDialect @ [(''drop table t'', []), (deleteRecord, [(''version'', SqlInt 1)])]" "mem_tx (run_db t) = Some []"
    using sample_statements
    by (simp add: bindP_def memory_opening read_sample sample_checked reverting resolved prog_defs)
      (simp add: sample_plan_def revert_version_def down_statements_def core_statements_def bindP_def memory_applyStatement deleteVersionRecord_def
        mig021_def exec_sent_run memory_exec_simps on_tx_def sample_rows_def prog_defs)
  have run: "MigrateDown ?r 0 forced ?s = (Inr 1, t\<lparr>run_db := (run_db t)\<lparr>mem_table := [], mem_tx := None\<rparr>\<rparr>)"
    using memory_in_run_lock [where s = ?s and body = ?body, OF body t(2)] by (simp add: MigrateDown_def sample_Render Let_def)
  have "all_plain memory_plain (run_sent t)"
    using t sample_statements by (simp add: all_plain_def sent_opening_def)
  then have "committed memory_view (run_db (t\<lparr>run_db := (run_db t)\<lparr>mem_table := [], mem_tx := None\<rparr>\<rparr>)) = map_of sample_rows |` {key. fst key \<le> 0}"
    using MigrateDown_refines [of ?r memory_view memory_plain ?s 0 forced "Inr 1", OF _ _ run] memory_laws by auto
  moreover have "map_of sample_rows |` {key. fst key \<le> 0} = Map.empty"
    by (auto simp: sample_rows_def restrict_map_def fun_eq_iff)
  ultimately show ?thesis
    using run by auto
qed

theorem Baseline_refines_witness:
  "\<exists>t. Baseline (memory_runner sample_set) 1 (memory_start [] []) = (Inr (), t) \<and> committed memory_view (run_db t) = map_of sample_rows"
proof -
  let ?s = "memory_start [] []" and ?r = "memory_runner sample_set"
  let ?body = "bindP (openHistory ?r) (\<lambda>recorded. bindP (liftR (refusePendingDrafts sample_plan recorded (\<lambda>v. v \<le> 1))) (\<lambda>_.
      eachP (baseline_version ?r recorded 1) sample_plan))"
  obtain t where body: "?body (?s\<lparr>run_db := (run_db ?s)\<lparr>mem_tx := Some (mem_table (run_db ?s))\<rparr>\<rparr>) = (Inr (), t)"
    and t: "run_sent t = sent_opening SqliteDialect @ [(insertRecord, record_args 1 sample_step (show_int 0) 0)]" "mem_tx (run_db t) = Some sample_rows"
    by (simp add: bindP_def memory_opening read_sample sample_checked prog_defs)
      (simp add: sample_plan_def baseline_version_def is_recorded_def emptyHistory_def bindP_def memory_record_step sample_rows_def prog_defs)
  have run: "Baseline ?r 1 ?s = (Inr (), t\<lparr>run_db := (run_db t)\<lparr>mem_table := sample_rows, mem_tx := None\<rparr>\<rparr>)"
    using memory_in_run_lock [where s = ?s and body = ?body, OF body t(2)] by (simp add: Baseline_def sample_Render)
  have "all_plain memory_plain (run_sent t)"
    using t sample_statements by (simp add: all_plain_def sent_opening_def record_args_def)
  then have "committed memory_view (run_db (t\<lparr>run_db := (run_db t)\<lparr>mem_table := sample_rows, mem_tx := None\<rparr>\<rparr>)) =
      planned_rows (filter (\<lambda>v. rdv_Version v \<le> 1 \<and> unrecorded Map.empty v) sample_plan)"
    using Baseline_refines [of ?r memory_view memory_plain "[table_root]" ?s 1 "Inr ()", OF _ _ _ run] memory_laws sample_NewSet
    by (simp add: sample_Render)
  moreover have "filter (\<lambda>v. rdv_Version v \<le> 1 \<and> unrecorded Map.empty v) sample_plan = sample_plan"
    by (simp add: sample_plan_def)
  ultimately show ?thesis
    using run by (simp add: sample_planned)
qed

text \<open>A version recorded in the database that the code does not have.\<close>

theorem Migrate_refused_witness:
  "\<exists>e t. Migrate (memory_runner sample_set) forced (memory_start [((2, ''orders''), recorded_row sample_step)] []) = (Inl e, t) \<and>
     prefix (run_sent t) [(VersionTableSQL SqliteDialect, []), (selectHistory, [])]"
proof -
  let ?s = "memory_start [((2, ''orders''), recorded_row sample_step)] []"
  obtain res t where run: "Migrate (memory_runner sample_set) forced ?s = (res, t)"
    by fastforce
  have "\<not> history_valid sample_plan (map_of [((2, ''orders''), recorded_row sample_step)])"
    by (simp add: history_valid_def sample_plan_def)
  then have "\<not> is_ok res \<and> prefix (run_sent t) [(VersionTableSQL SqliteDialect, []), (selectHistory, [])]"
    using Migrate_refused [of "memory_runner sample_set" memory_view memory_plain "[table_root]" sample_plan ?s forced res t]
      memory_laws sample_NewSet sample_Render sample_statements run by (simp add: all_plain_def)
  then show ?thesis
    using run by (cases res) (auto simp: is_ok_iff)
qed

theorem Status_reports_witness:
  "\<exists>t t'. Status (memory_runner sample_set) (memory_start sample_rows []) =
       (Inr [\<lparr>me_Version = 1, me_ObjectName = ''orders'', me_Description = rs_Description sample_step, me_State = Applied\<rparr>], t) \<and>
     HasPending (memory_runner sample_set) (memory_start sample_rows []) = (Inr False, t') \<and>
     {\<lparr>me_Version = 1, me_ObjectName = ''orders'', me_Description = rs_Description sample_step, me_State = Applied\<rparr>} =
       reported sample_plan (map_of sample_rows)"
proof -
  let ?s = "memory_start sample_rows []" and ?e = "\<lparr>me_Version = 1, me_ObjectName = ''orders'', me_Description = rs_Description sample_step, me_State = Applied\<rparr>"
  obtain t where status: "Status (memory_runner sample_set) ?s = (Inr [?e], t)"
    using sample_status [of ?s] by auto
  then have pending: "HasPending (memory_runner sample_set) ?s = (Inr False, t)"
    by (simp add: HasPending_def bindP_def retP_def)
  have "{?e} = reported sample_plan (map_of sample_rows)"
    using Status_reports [of "memory_runner sample_set" memory_view memory_plain "[table_root]" sample_plan ?s "[?e]" t False t]
      memory_laws memory_presence sample_NewSet sample_Render status pending by simp
  then show ?thesis
    using status pending by blast
qed

theorem Migrate_settles_witness:
  "\<exists>t u. Migrate (memory_runner sample_set) forced (memory_start [] []) = (Inr 1, t) \<and> Migrate (memory_runner sample_set) forced t = (Inr 0, u) \<and>
     committed memory_view (run_db u) = map_of sample_rows"
proof -
  obtain t where run: "Migrate (memory_runner sample_set) forced (memory_start [] []) = (Inr 1, t)" and sent: "all_plain memory_plain (run_sent t)"
    and t: "run_db t = \<lparr>mem_table = sample_rows, mem_tx = None, mem_log = [VersionTableSQL SqliteDialect, ''create table t (i)''], mem_broken = []\<rparr>"
    using sample_migrate by blast
  obtain u where again: "Migrate (memory_runner sample_set) forced t = (Inr 0, u)" and u: "run_sent u = run_sent t @ sent_opening SqliteDialect"
    using sample_remigrate [OF t] by blast
  obtain t' where "Status (memory_runner sample_set) t =
      (Inr [\<lparr>me_Version = 1, me_ObjectName = ''orders'', me_Description = rs_Description sample_step, me_State = Applied\<rparr>], t')"
    using sample_status [OF t] by blast
  then have pending: "HasPending (memory_runner sample_set) t = (Inr False, t')"
    by (simp add: HasPending_def bindP_def retP_def)
  have "all_plain memory_plain (run_sent u)"
    using sent sample_statements by (simp add: u all_plain_opening)
  then have "committed memory_view (run_db u) = committed memory_view (run_db t)"
    using Migrate_settles [of "memory_runner sample_set" memory_view memory_plain "[table_root]" sample_plan "memory_start [] []" forced 1 t False t' forced 0 u]
      memory_laws memory_presence sample_NewSet sample_Render run sent pending again by (simp add: sample_plan_def)
  then show ?thesis
    using run again t by auto
qed

section \<open>A run that is watched\<close>

definition watched_runner :: "migration_set \<Rightarrow> (memory_db \<times> bool) Runner" where
  "watched_runner s = \<lparr>rn_driver = watched memory_driver, rn_dialect = SqliteDialect, rn_maps = sample_loader, rn_set = s, rn_snapshots = newSnapshotSet\<rparr>"

definition watched_start :: "(memory_db \<times> bool) run_state" where
  "watched_start = \<lparr>run_db = (run_db (memory_start [] []), False), run_sent = [], run_notices = []\<rparr>"

lemma memory_scannable: "scannable memory_driver SqliteDialect"
proof -
  have "is_ok (res_map scan_history rows)" if "fst (memory_query selectHistory [] db) = Inr rows" for db rows
    using that memory_scan by (auto simp: memory_query_def is_ok_iff)
  moreover have "rows = []" if "sql \<in> {ViewDefinitionSQL SqliteDialect, TriggerDefinitionSQL SqliteDialect}"
    "fst (memory_query sql args db) = Inr rows" for sql args db rows
    using that sample_catalogue by (auto simp: memory_query_def)
  ultimately show ?thesis
    unfolding scannable_def memory_driver_simps by (metis empty_iff empty_set)
qed

lemma watched_migrate: "\<exists>n t. Migrate (watched_runner sample_set) forced watched_start = (n, t) \<and> \<not> failed t"
proof -
  let ?s = "watched_start" and ?r = "watched_runner sample_set"
  have "\<exists>n t. in_run_lock (watched memory_driver) (bindP (openHistory ?r) (\<lambda>recorded. bindP (liftR (validateHistory sample_plan recorded)) (\<lambda>_.
      bindP (liftR (refusePendingDrafts sample_plan recorded (\<lambda>_. True))) (\<lambda>_. migrate_versions ?r forced recorded sample_plan 0)))) ?s = (n, t) \<and> \<not> failed t"
    using sample_statements memory_scan [of "[]"]
    by (simp add: in_run_lock_def bindP_def on_db_def deferred_def unless_returned_def watch_def openHistory_def ensureVersionTable_def execute_def mig021_def
        readRecorded_def exec_sent_run query_sent_run memory_exec_simps memory_query_def memory_rows_def prog_defs watched_runner_def watched_start_def
        validateHistory_def refusePendingDrafts_def sample_plan_def is_recorded_def emptyHistory_def
        apply_step_def clock_def applyStatement_def plain_statement_def record_step_def record_args_def on_tx_def Milliseconds_def failed_def)
  then show ?thesis
    by (simp add: Migrate_def watched_runner_def sample_Render)
qed

theorem Migrate_returns_witness:
  "\<exists>n t. Migrate (watched_runner sample_set) forced watched_start = (Inr n, t) \<and> \<not> failed t"
proof -
  obtain res t where run: "Migrate (watched_runner sample_set) forced watched_start = (res, t)" and t: "\<not> failed t"
    using watched_migrate by blast
  have "\<exists>n. res = Inr n"
    using Migrate_returns [of memory_driver memory_view memory_plain "watched_runner sample_set" forced sample_plan watched_start res t]
      memory_laws memory_scannable sample_Render sample_statements sample_plan_valid run t
    by (simp add: forced_def all_plain_def watched_runner_def watched_start_def)
  then show ?thesis
    using run t by blast
qed

end
