(* ===== verification/Placeholders.thy ===== *)
theory Placeholders
  imports Ddl_Text
begin

text \<open>
  The one scanner of \<open>@name\<close> placeholders (\<open>internal/core/sql_placeholders.go\<close>): the mask of literals and comments, the
  matches on it, and the three questions asked of them. The reference is \<open>pieces\<close>: the text read once, cut
  into plain bytes and placeholders.
\<close>

section \<open>The mask\<close>

text \<open>Where the loop of \<open>maskSQL\<close> stands: outside, in a string literal, a line comment or a block comment.\<close>

datatype mask_mode = Outside | InLiteral | InLine | InBlock

abbreviation apostrophe :: char where "apostrophe \<equiv> CHR 0x27"

abbreviation newline :: char where "newline \<equiv> CHR 0x0A"

fun mask_from :: "mask_mode \<Rightarrow> string \<Rightarrow> string" where
  "mask_from mode [] = []"
| "mask_from Outside (c # s) =
     (if c = apostrophe then CHR '' '' # mask_from InLiteral s
      else if c = CHR ''-'' \<and> take 1 s = ''-'' then CHR '' '' # mask_from InLine s
      else if c = CHR ''/'' \<and> take 1 s = ''*'' then ''  '' @ mask_from InBlock (tl s)
      else c # mask_from Outside s)"
| "mask_from InLiteral (c # s) =
     (if c = apostrophe then (if take 1 s = [apostrophe] then ''  '' @ mask_from InLiteral (tl s) else CHR '' '' # mask_from Outside s)
      else CHR '' '' # mask_from InLiteral s)"
| "mask_from InLine (c # s) = (if c = newline then c # mask_from Outside s else CHR '' '' # mask_from InLine s)"
| "mask_from InBlock (c # s) =
     (if s = [] then '' ''
      else if c = CHR ''*'' \<and> take 1 s = ''/'' then ''  '' @ mask_from Outside (tl s)
      else CHR '' '' # mask_from InBlock s)"

definition maskSQL :: "string \<Rightarrow> string" where
  "maskSQL sql = mask_from Outside sql"

section \<open>The matches\<close>

text \<open>\<open>placeholderPattern\<close>, an at sign and an identifier: the matches with their index and name, leftmost first.\<close>

definition is_name_start :: "char \<Rightarrow> bool" where
  "is_name_start c \<longleftrightarrow> is_word_char c \<and> \<not> (48 \<le> (of_char c :: nat) \<and> (of_char c :: nat) \<le> 57)"

lemma dropWhile_shorter [termination_simp]: "length (dropWhile P s) < Suc (length s)"
  by (simp add: length_dropWhile_le le_imp_less_Suc)

fun find_matches :: "nat \<Rightarrow> string \<Rightarrow> (nat \<times> string) list" where
  "find_matches i [] = []"
| "find_matches i (c # s) =
     (if c = CHR ''@'' \<and> s \<noteq> [] \<and> is_name_start (hd s)
      then (i, takeWhile is_word_char s) # find_matches (i + 1 + length (takeWhile is_word_char s)) (dropWhile is_word_char s)
      else find_matches (i + 1) s)"

definition placeholderMatches :: "string \<Rightarrow> (nat \<times> string) list" where
  "placeholderMatches masked = filter (\<lambda>(i, name). \<not> (0 < i \<and> masked ! (i - 1) = CHR ''@'')) (find_matches 0 masked)"

definition FindPlaceholders :: "string \<Rightarrow> string list" where
  "FindPlaceholders sql = first_seen [] (map snd (placeholderMatches (maskSQL sql)))"

record PlaceholderSpan =
  ps_Index :: nat
  ps_Length :: nat

definition span_of :: "nat \<times> string \<Rightarrow> PlaceholderSpan" where
  "span_of m = \<lparr>ps_Index = fst m, ps_Length = 1 + length (snd m)\<rparr>"

definition PlaceholderOccurrences :: "string \<Rightarrow> string \<Rightarrow> PlaceholderSpan list" where
  "PlaceholderOccurrences sql placeholder =
     map span_of (filter (\<lambda>(i, name). EqualFold name placeholder) (placeholderMatches (maskSQL sql)))"

definition PlaceholderSpans :: "string \<Rightarrow> (string \<times> PlaceholderSpan) list" where
  "PlaceholderSpans sql = map (\<lambda>m. (snd m, span_of m)) (placeholderMatches (maskSQL sql))"

section \<open>The pieces of a text\<close>

datatype piece = Raw char | Hole string

text \<open>The flag says that the byte before is an at sign: a second one begins a system function, not a placeholder.\<close>

function pieces :: "mask_mode \<Rightarrow> bool \<Rightarrow> string \<Rightarrow> piece list" where
  "pieces mode after [] = []"
| "pieces Outside after (c # s) =
     (if c = apostrophe then Raw c # pieces InLiteral False s
      else if c = CHR ''-'' \<and> take 1 s = ''-'' then Raw c # pieces InLine False s
      else if c = CHR ''/'' \<and> take 1 s = ''*'' then Raw c # Raw (hd s) # pieces InBlock False (tl s)
      else if c = CHR ''@'' \<and> s \<noteq> [] \<and> is_name_start (hd s)
      then (if after then map Raw (c # takeWhile is_word_char s) else [Hole (takeWhile is_word_char s)]) @
           pieces Outside False (dropWhile is_word_char s)
      else Raw c # pieces Outside (c = CHR ''@'') s)"
| "pieces InLiteral after (c # s) =
     (if c = apostrophe then (if take 1 s = [apostrophe] then Raw c # Raw (hd s) # pieces InLiteral False (tl s) else Raw c # pieces Outside False s)
      else Raw c # pieces InLiteral False s)"
| "pieces InLine after (c # s) = Raw c # (if c = newline then pieces Outside False s else pieces InLine False s)"
| "pieces InBlock after (c # s) =
     (if s = [] then [Raw c]
      else if c = CHR ''*'' \<and> take 1 s = ''/'' then Raw c # Raw (hd s) # pieces Outside False (tl s)
      else Raw c # pieces InBlock False s)"
  by pat_completeness auto
termination
  by (relation "measure (\<lambda>(mode, after, s). length s)") (auto simp: le_imp_less_Suc length_dropWhile_le)

fun piece_text :: "piece \<Rightarrow> string" where
  "piece_text (Raw c) = [c]"
| "piece_text (Hole name) = CHR ''@'' # name"

definition text_of :: "piece list \<Rightarrow> string" where
  "text_of ps = concat (map piece_text ps)"

fun holes :: "nat \<Rightarrow> piece list \<Rightarrow> (nat \<times> string) list" where
  "holes i [] = []"
| "holes i (Raw c # ps) = holes (i + 1) ps"
| "holes i (Hole name # ps) = (i, name) # holes (i + 1 + length name) ps"

text \<open>Where a text ends: a text that closes its literals and block comments can be followed by another.\<close>

function ends_in :: "mask_mode \<Rightarrow> string \<Rightarrow> mask_mode" where
  "ends_in mode [] = mode"
| "ends_in Outside (c # s) =
     (if c = apostrophe then ends_in InLiteral s
      else if c = CHR ''-'' \<and> take 1 s = ''-'' then ends_in InLine s
      else if c = CHR ''/'' \<and> take 1 s = ''*'' then ends_in InBlock (tl s)
      else ends_in Outside s)"
| "ends_in InLiteral (c # s) =
     (if c = apostrophe then (if take 1 s = [apostrophe] then ends_in InLiteral (tl s) else ends_in Outside s) else ends_in InLiteral s)"
| "ends_in InLine (c # s) = (if c = newline then ends_in Outside s else ends_in InLine s)"
| "ends_in InBlock (c # s) =
     (if s = [] then InBlock else if c = CHR ''*'' \<and> take 1 s = ''/'' then ends_in Outside (tl s) else ends_in InBlock s)"
  by pat_completeness auto
termination
  by (relation "measure (\<lambda>(mode, s). length s)") auto

section \<open>The scanner reads the pieces\<close>

lemma is_name_start_word: "is_name_start c \<Longrightarrow> is_word_char c"
  by (simp add: is_name_start_def)

lemma word_chars: "\<not> is_word_char apostrophe" "\<not> is_word_char (CHR ''-'')" "\<not> is_word_char (CHR ''/'')" "\<not> is_word_char (CHR ''@'')"
  "\<not> is_word_char (CHR '' '')" "\<not> is_word_char newline" "\<not> is_word_char (CHR '';'')" "\<not> is_word_char (CHR ''*'')"
  by (simp_all add: is_word_char_def)

lemma take_one [simp]: "take (Suc 0) s = [c] \<longleftrightarrow> (\<exists>t. s = c # t)"
  by (cases s) auto

lemma span_append: "\<forall>x \<in> set xs. P x \<Longrightarrow> ys = [] \<or> \<not> P (hd ys) \<Longrightarrow> takeWhile P (xs @ ys) = xs \<and> dropWhile P (xs @ ys) = ys"
  by (cases ys) (auto simp: takeWhile_append dropWhile_append)

lemma mask_word: "mask_from Outside (takeWhile is_word_char s @ t) = takeWhile is_word_char s @ mask_from Outside t"
  by (induction s) (auto simp: word_chars)

lemma mask_length: "length (mask_from mode s) = length s"
  by (induction mode s rule: mask_from.induct) auto

lemma mask_head: "s \<noteq> [] \<Longrightarrow> mask_from Outside s \<noteq> [] \<and> (is_word_char (hd (mask_from Outside s)) \<longleftrightarrow> is_word_char (hd s)) \<and>
    (is_word_char (hd s) \<longrightarrow> hd (mask_from Outside s) = hd s)"
  by (cases s) (auto simp: word_chars)

lemma mask_takeWhile: "takeWhile is_word_char (mask_from Outside s) = takeWhile is_word_char s"
  and mask_dropWhile: "dropWhile is_word_char (mask_from Outside s) = mask_from Outside (dropWhile is_word_char s)"
proof -
  have "dropWhile is_word_char s = [] \<or> \<not> is_word_char (hd (dropWhile is_word_char s))"
    using hd_dropWhile [of is_word_char s] by auto
  then have "mask_from Outside (dropWhile is_word_char s) = [] \<or> \<not> is_word_char (hd (mask_from Outside (dropWhile is_word_char s)))"
    by (metis mask_from.simps(1) mask_head)
  then have "takeWhile is_word_char (takeWhile is_word_char s @ mask_from Outside (dropWhile is_word_char s)) = takeWhile is_word_char s \<and>
      dropWhile is_word_char (takeWhile is_word_char s @ mask_from Outside (dropWhile is_word_char s)) = mask_from Outside (dropWhile is_word_char s)"
    by (intro span_append) (auto dest: set_takeWhileD)
  then show "takeWhile is_word_char (mask_from Outside s) = takeWhile is_word_char s"
    and "dropWhile is_word_char (mask_from Outside s) = mask_from Outside (dropWhile is_word_char s)"
    using mask_word [of s "dropWhile is_word_char s"] by simp_all
qed


text \<open>The matches of the mask that are kept are the holes.\<close>

definition kept :: "string \<Rightarrow> (nat \<times> string) list \<Rightarrow> (nat \<times> string) list" where
  "kept masked ms = filter (\<lambda>(i, name). \<not> (0 < i \<and> masked ! (i - 1) = CHR ''@'')) ms"

lemma holes_raw: "holes i (map Raw xs @ ps) = holes (i + length xs) ps"
  by (induction xs arbitrary: i) auto

lemma kept_holes:
  "masked = pre @ mask_from mode s \<Longrightarrow> (mode = Outside \<Longrightarrow> after \<longleftrightarrow> pre \<noteq> [] \<and> last pre = CHR ''@'') \<Longrightarrow>
   kept masked (find_matches (length pre) (mask_from mode s)) = holes (length pre) (pieces mode after s)"
proof (induction mode after s arbitrary: pre rule: pieces.induct)
  case (1 mode after)
  then show ?case
    by (simp add: kept_def)
next
  case (2 after c s)
  consider (literal) "c = apostrophe" | (line) "c = CHR ''-''" "take 1 s = ''-''" | (block) "c = CHR ''/''" "take 1 s = ''*''"
    | (hole) "c = CHR ''@''" "s \<noteq> []" "is_name_start (hd s)"
    | (raw) "c \<noteq> apostrophe" "\<not> (c = CHR ''-'' \<and> take 1 s = ''-'')" "\<not> (c = CHR ''/'' \<and> take 1 s = ''*'')"
        "\<not> (c = CHR ''@'' \<and> s \<noteq> [] \<and> is_name_start (hd s))"
    by blast
  then show ?case
  proof cases
    case literal
    then show ?thesis
      using "2.IH"(1) [of "pre @ '' ''"] "2.prems" by simp
  next
    case line
    then show ?thesis
      using "2.IH"(2) [of "pre @ '' ''"] "2.prems" by simp
  next
    case block
    then show ?thesis
      using "2.IH"(3) [of "pre @ ''  ''"] "2.prems" by simp
  next
    case hole
    let ?name = "takeWhile is_word_char s"
    have masked: "masked = (pre @ CHR ''@'' # ?name) @ mask_from Outside (dropWhile is_word_char s)"
      using "2.prems"(1) hole mask_word [of s "dropWhile is_word_char s"] by simp
    have "?name \<noteq> []"
      using hole is_name_start_word by (cases s) auto
    then have "last (pre @ CHR ''@'' # ?name) \<noteq> CHR ''@''"
      using word_chars(4) last_in_set set_takeWhileD by fastforce
    then have IH: "kept masked (find_matches (length pre + 1 + length ?name) (mask_from Outside (dropWhile is_word_char s))) =
        holes (length pre + 1 + length ?name) (pieces Outside False (dropWhile is_word_char s))"
      using "2.IH"(4) [OF _ _ _ _ masked] hole by simp
    have head: "mask_from Outside s \<noteq> []" "is_name_start (hd (mask_from Outside s))"
      using hole mask_head [of s] is_name_start_word by (auto simp: is_name_start_def)
    have find: "find_matches (length pre) (mask_from Outside (c # s)) =
        (length pre, ?name) # find_matches (length pre + 1 + length ?name) (mask_from Outside (dropWhile is_word_char s))"
      using hole head by (simp add: mask_takeWhile mask_dropWhile)
    have "(0 < length pre \<and> masked ! (length pre - 1) = CHR ''@'') \<longleftrightarrow> after"
      using "2.prems" by (cases pre rule: rev_cases) (auto simp: nth_append)
    then show ?thesis
      unfolding find using hole IH
      by (auto simp: kept_def holes_raw [of _ "CHR ''@'' # _", simplified])
  next
    case raw
    have "s \<noteq> [] \<and> is_name_start (hd s) \<longleftrightarrow> mask_from Outside s \<noteq> [] \<and> is_name_start (hd (mask_from Outside s))"
      using mask_head [of s] mask_length [of Outside s] by (cases "s = []") (auto simp: is_name_start_def)
    then have find: "find_matches (length pre) (mask_from Outside (c # s)) = find_matches (length (pre @ [c])) (mask_from Outside s)"
      using raw by (simp del: take_one) blast
    have masked: "masked = (pre @ [c]) @ mask_from Outside s"
      using "2.prems"(1) raw by (simp del: take_one)
    have "kept masked (find_matches (length (pre @ [c])) (mask_from Outside s)) = holes (length (pre @ [c])) (pieces Outside (c = CHR ''@'') s)"
      using raw by (intro "2.IH"(5) masked) auto
    moreover have "pieces Outside after (c # s) = Raw c # pieces Outside (c = CHR ''@'') s"
      using raw by (simp del: take_one) blast
    ultimately show ?thesis
      unfolding find by simp
  qed
next
  case (3 after c s)
  show ?case
  proof (cases "c = apostrophe \<and> take 1 s = [apostrophe]")
    case True
    then show ?thesis
      using "3.IH"(1) [of "pre @ ''  ''"] "3.prems" by simp
  next
    case False
    then show ?thesis
      using "3.IH"(2) [of "pre @ '' ''"] "3.IH"(3) [of "pre @ '' ''"] "3.prems" by (cases "c = apostrophe") auto
  qed
next
  case (4 after c s)
  then show ?case
    using "4.IH"(1) [of "pre @ [newline]"] "4.IH"(2) [of "pre @ '' ''"] by auto
next
  case (5 after c s)
  show ?case
  proof (cases "s = []")
    case True
    then show ?thesis
      by (simp add: kept_def)
  next
    case False
    then show ?thesis
      using "5.IH"(1) [of "pre @ ''  ''"] "5.IH"(2) [of "pre @ '' ''"] "5.prems" by (cases "c = CHR ''*'' \<and> take 1 s = ''/''") auto
  qed
qed

theorem placeholderMatches_holes: "placeholderMatches (maskSQL sql) = holes 0 (pieces Outside False sql)"
  using kept_holes [of "maskSQL sql" "[]" Outside sql False] by (simp add: placeholderMatches_def maskSQL_def kept_def)

lemma text_of_pieces: "text_of (pieces mode after s) = s"
proof (induction mode after s rule: pieces.induct)
  case (2 after c s)
  then show ?case
    by (auto simp: text_of_def comp_def)
qed (auto simp: text_of_def)

end
