(* ===== verification/Wire_Text.thy ===== *)
theory Wire_Text
  imports Placeholders Write_Path "HOL-Library.AList"
begin

text \<open>
  What goes over the wire for a statement with placeholders: on PostgreSQL the names become positions
  (\<open>postgres/driver.go\<close>), on SQL Server a message's statements are renamed apart and joined
  (\<open>sqlserver/batch.go\<close>). Both cut the text at the spans of the scanner.
\<close>

section \<open>Cutting a text at its spans\<close>

text \<open>The common loop: the text up to the span, the replacement, on from the span's end.\<close>

fun splice :: "string \<Rightarrow> nat \<Rightarrow> (PlaceholderSpan \<times> string) list \<Rightarrow> string" where
  "splice sql last' [] = drop last' sql"
| "splice sql last' ((sp, replacement) # rest) =
     take (ps_Index sp - last') (drop last' sql) @ replacement @ splice sql (ps_Index sp + ps_Length sp) rest"

fun render_piece :: "(string \<Rightarrow> string) \<Rightarrow> piece \<Rightarrow> string" where
  "render_piece f (Raw c) = [c]"
| "render_piece f (Hole name) = f name"

definition rendered :: "(string \<Rightarrow> string) \<Rightarrow> string \<Rightarrow> string" where
  "rendered f sql = concat (map (render_piece f) (pieces Outside False sql))"

fun hole_names :: "piece list \<Rightarrow> string list" where
  "hole_names [] = []"
| "hole_names (Raw c # ps) = hole_names ps"
| "hole_names (Hole name # ps) = name # hole_names ps"

lemma hole_names_append [simp]: "hole_names (ps @ qs) = hole_names ps @ hole_names qs"
  by (induction ps rule: hole_names.induct) auto

lemma hole_names_raw [simp]: "hole_names (map Raw s) = []"
  by (induction s) auto

lemma holes_names: "map snd (holes i ps) = hole_names ps"
  by (induction i ps rule: holes.induct) auto

lemma splice_holes:
  "splice (pre @ mid @ text_of ps) (length pre) (map (\<lambda>m. (span_of m, f (snd m))) (holes (length pre + length mid) ps)) =
   mid @ concat (map (render_piece f) ps)"
proof (induction ps arbitrary: pre mid)
  case (Cons p ps)
  show ?case
  proof (cases p)
    case (Raw c)
    then show ?thesis
      using Cons.IH [of pre "mid @ [c]"] by (simp add: text_of_def)
  next
    case (Hole name)
    then show ?thesis
      using Cons.IH [of "pre @ mid @ CHR ''@'' # name" "[]"] by (simp add: text_of_def span_of_def add.assoc)
  qed
qed (simp add: text_of_def)

lemma splice_matches:
  "splice sql 0 (map (\<lambda>m. (span_of m, f (snd m))) (placeholderMatches (maskSQL sql))) = rendered f sql"
  using splice_holes [of "[]" "[]" "pieces Outside False sql" f] by (simp add: placeholderMatches_holes text_of_pieces rendered_def)

lemma FindPlaceholders_names: "FindPlaceholders sql = first_seen [] (hole_names (pieces Outside False sql))"
  by (simp add: FindPlaceholders_def placeholderMatches_holes holes_names)

section \<open>PostgreSQL: names to positions\<close>

record rewritten =
  rw_sql :: string
  rw_names :: "string list"

text \<open>The loop over the spans: the names so far, the ordinals by name, and the text written.\<close>

fun rewrite_spans :: "(string \<times> PlaceholderSpan) list \<Rightarrow> string list \<Rightarrow> (string \<times> nat) list \<Rightarrow> (PlaceholderSpan \<times> string) list \<times> string list" where
  "rewrite_spans [] names ordinal = ([], names)"
| "rewrite_spans ((name, sp) # spans) names ordinal =
     (let key = to_lower name in
      case map_of ordinal key of
        Some n \<Rightarrow> (case rewrite_spans spans names ordinal of (out, names') \<Rightarrow> ((sp, ''$'' @ show_nat n) # out, names'))
      | None \<Rightarrow> (let n = length names + 1 in
          case rewrite_spans spans (names @ [key]) ((key, n) # ordinal) of (out, names') \<Rightarrow> ((sp, ''$'' @ show_nat n) # out, names')))"

definition rewritePlaceholders :: "string \<Rightarrow> rewritten" where
  "rewritePlaceholders sqlText =
     (let spans = PlaceholderSpans sqlText in
      if spans = [] then \<lparr>rw_sql = sqlText, rw_names = []\<rparr>
      else case rewrite_spans spans [] [] of (out, names) \<Rightarrow> \<lparr>rw_sql = splice sqlText 0 out, rw_names = names\<rparr>)"

record 'v NamedValue =
  nv_Name :: string
  nv_Ordinal :: nat
  nv_Value :: 'v

fun by_name :: "'v NamedValue list \<Rightarrow> (string \<times> 'v) list \<Rightarrow> (string \<times> 'v) list res" where
  "by_name [] acc = Inr acc"
| "by_name (arg # args) acc =
     (if nv_Name arg = [] then Inl (PlainError ''postgres: positional argument'')
      else by_name args (AList.update (to_lower (nv_Name arg)) (nv_Value arg) acc))"

fun arrange_names :: "string list \<Rightarrow> nat \<Rightarrow> (string \<times> 'v) list \<Rightarrow> ('v NamedValue list \<times> (string \<times> 'v) list) res" where
  "arrange_names [] i byName = Inr ([], byName)"
| "arrange_names (name # names) i byName =
     (case map_of byName name of
        None \<Rightarrow> Inl (PlainError ''postgres: no bound argument'')
      | Some value \<Rightarrow> bindR (arrange_names names (i + 1) (AList.delete name byName)) (\<lambda>(arranged, rest).
          Inr (\<lparr>nv_Name = [], nv_Ordinal = i + 1, nv_Value = value\<rparr> # arranged, rest)))"

definition arrange :: "rewritten \<Rightarrow> 'v NamedValue list \<Rightarrow> 'v NamedValue list res" where
  "arrange r args =
     (if rw_names r = [] then Inr args
      else bindR (by_name args []) (\<lambda>byName. bindR (arrange_names (rw_names r) 0 byName) (\<lambda>(arranged, rest).
        if rest \<noteq> [] then Inl (PlainError ''postgres: no placeholder in the statement'') else Inr arranged)))"

text \<open>The ordinal of a name: its place among the names, counted from one.\<close>

fun place :: "string list \<Rightarrow> string \<Rightarrow> nat" where
  "place [] key = 0"
| "place (name # names) key = (if name = key then 1 else Suc (place names key))"

lemma place_append: "key \<in> set names \<Longrightarrow> place (names @ ys) key = place names key"
  by (induction names) auto

lemma place_new: "key \<notin> set names \<Longrightarrow> place (names @ [key]) key = length names + 1"
  by (induction names) auto

lemma place_nth: "key \<in> set names \<Longrightarrow> 0 < place names key \<and> place names key \<le> length names \<and> names ! (place names key - 1) = key"
  by (induction names) (auto simp: nth_Cons')

lemma first_seen_append: "\<exists>ys. first_seen acc xs = acc @ ys"
proof (induction xs arbitrary: acc)
  case (Cons x xs)
  then show ?case
    using Cons.IH [of "acc @ [x]"] by auto
qed simp

lemma rewrite_spans_places:
  assumes "\<forall>key. map_of ordinal key = (if key \<in> set names then Some (place names key) else None)"
  shows "rewrite_spans (map (\<lambda>m. (snd m, span_of m)) ms) names ordinal =
    (let all' = first_seen names (map (\<lambda>m. to_lower (snd m)) ms) in (map (\<lambda>m. (span_of m, ''$'' @ show_nat (place all' (to_lower (snd m))))) ms, all'))"
  using assms
proof (induction ms arbitrary: names ordinal)
  case (Cons m ms)
  let ?key = "to_lower (snd m)"
  show ?case
  proof (cases "?key \<in> set names")
    case True
    obtain ys where "first_seen names (map (\<lambda>m. to_lower (snd m)) ms) = names @ ys"
      using first_seen_append by blast
    then show ?thesis
      using True Cons.prems Cons.IH [OF Cons.prems] by (simp add: Let_def place_append)
  next
    case False
    let ?names = "names @ [?key]" and ?ordinal = "(?key, length names + 1) # ordinal"
    obtain ys where ys: "first_seen ?names (map (\<lambda>m. to_lower (snd m)) ms) = ?names @ ys"
      using first_seen_append by blast
    have "\<forall>key. map_of ?ordinal key = (if key \<in> set ?names then Some (place ?names key) else None)"
      using Cons.prems False by (auto simp: place_new place_append)
    from Cons.IH [OF this] show ?thesis
      using False Cons.prems ys place_append [of ?key ?names ys] by (simp add: Let_def place_new)
  qed
qed (simp add: Let_def)

lemma rewritePlaceholders_rendered:
  "rewritePlaceholders sql =
    (let names = first_seen [] (map to_lower (hole_names (pieces Outside False sql)))
     in \<lparr>rw_sql = rendered (\<lambda>name. ''$'' @ show_nat (place names (to_lower name))) sql, rw_names = names\<rparr>)"
proof -
  let ?ms = "placeholderMatches (maskSQL sql)"
  have names: "map (\<lambda>m. to_lower (snd m)) ?ms = map to_lower (hole_names (pieces Outside False sql))"
    by (simp add: placeholderMatches_holes flip: holes_names [of 0])
  show ?thesis
    using rewrite_spans_places [of "[]" "[]" ?ms] splice_matches [where sql = sql]
    by (auto simp: rewritePlaceholders_def PlaceholderSpans_def Let_def names comp_def)
qed


lemma AList_update_map_of: "map_of (AList.update k v m) = (map_of m)(k \<mapsto> v)"
  by (rule update_conv')

definition bound_names :: "'v NamedValue list \<Rightarrow> (string \<times> 'v) list" where
  "bound_names args = map (\<lambda>a. (to_lower (nv_Name a), nv_Value a)) args"

lemma by_name_map:
  "by_name args acc = Inr m \<Longrightarrow> distinct (map fst acc) \<Longrightarrow>
   map_of m = map_of acc ++ map_of (rev (bound_names args)) \<and> distinct (map fst m) \<and> (\<forall>a \<in> set args. nv_Name a \<noteq> [])"
proof (induction args arbitrary: acc)
  case (Cons a args)
  then have "map_of m = map_of (AList.update (to_lower (nv_Name a)) (nv_Value a) acc) ++ map_of (rev (bound_names args)) \<and>
      distinct (map fst m) \<and> (\<forall>a \<in> set args. nv_Name a \<noteq> [])"
    by (auto simp: distinct_update split: if_splits)
  then show ?case
    using Cons.prems(1) by (auto simp: bound_names_def update_conv' map_add_def fun_eq_iff split: option.splits if_splits)
qed (simp add: bound_names_def)

lemma by_name_error: "by_name args acc = Inl e \<Longrightarrow> \<exists>a \<in> set args. nv_Name a = []"
  by (induction args arbitrary: acc) (auto split: if_splits)

lemma arrange_names_Inr:
  "arrange_names names i m = Inr (arranged, rest) \<Longrightarrow> distinct names \<Longrightarrow> distinct (map fst m) \<Longrightarrow>
   length arranged = length names \<and> set names \<subseteq> dom (map_of m) \<and> fst ` set rest = dom (map_of m) - set names \<and>
   (\<forall>k < length names. nv_Ordinal (arranged ! k) = i + k + 1 \<and> Some (nv_Value (arranged ! k)) = map_of m (names ! k))"
proof (induction names arbitrary: i m arranged)
  case Nil
  then show ?case
    by (auto simp: dom_map_of_conv_image_fst)
next
  case (Cons name names)
  then obtain value' arranged' where v: "map_of m name = Some value'"
    and step: "arrange_names names (i + 1) (AList.delete name m) = Inr (arranged', rest)"
    and arranged: "arranged = \<lparr>nv_Name = [], nv_Ordinal = i + 1, nv_Value = value'\<rparr> # arranged'"
    by (auto simp: bindR_Inr_iff split: option.splits)
  have deleted: "map_of (AList.delete name m) = (map_of m)(name := None)" "distinct (map fst (AList.delete name m))"
    using Cons.prems(3) by (simp_all add: delete_conv' distinct_delete)
  note IH = Cons.IH [OF step _ deleted(2), unfolded deleted(1)]
  have "Some (nv_Value (arranged' ! k)) = map_of m (names ! k)" if "k < length names" for k
    using IH that Cons.prems(2) by (auto simp: nth_mem)
  then show ?case
    using IH Cons.prems(2) v by (auto simp: arranged less_Suc_eq_0_disj nth_Cons' split: if_splits)
qed

lemma arrange_names_Inl:
  "arrange_names names i m = Inl e \<Longrightarrow> distinct names \<Longrightarrow> \<exists>name \<in> set names. map_of m name = None"
proof (induction names arbitrary: i m)
  case (Cons name names)
  then show ?case
    by (force simp: bindR_Inl_iff delete_conv' split: option.splits prod.splits if_splits)
qed simp

text \<open>
  C35: On PostgreSQL the rewritten statement binds every placeholder to the value of its name: each real occurrence of
  \<open>@name\<close> becomes \<open>$n\<close>, and nothing else of the text changes; the arguments are accepted exactly when every one is
  named and their names are those of the statement, in any case; and then the argument at position \<open>n\<close> is
  the one bound to the name the \<open>$n\<close> stands for.
\<close>

theorem rewritten_binding:
  fixes args :: "'v NamedValue list"
  defines "names sql \<equiv> rw_names (rewritePlaceholders sql)" and "ordinal sql name \<equiv> place (rw_names (rewritePlaceholders sql)) (to_lower name)"
  shows "rw_sql (rewritePlaceholders sql) = rendered (\<lambda>name. ''$'' @ show_nat (ordinal sql name)) sql \<and>
    distinct (names sql) \<and> set (names sql) = to_lower ` set (FindPlaceholders sql) \<and>
    (FindPlaceholders sql \<noteq> [] \<longrightarrow>
     (case arrange (rewritePlaceholders sql) args of
        Inl e \<Rightarrow> (\<exists>a \<in> set args. nv_Name a = []) \<or> (to_lower \<circ> nv_Name) ` set args \<noteq> set (names sql)
      | Inr arranged \<Rightarrow>
          (\<forall>a \<in> set args. nv_Name a \<noteq> []) \<and> (to_lower \<circ> nv_Name) ` set args = set (names sql) \<and>
          length arranged = length (names sql) \<and>
          (\<forall>name \<in> set (FindPlaceholders sql).
             0 < ordinal sql name \<and> ordinal sql name \<le> length arranged \<and>
             nv_Ordinal (arranged ! (ordinal sql name - 1)) = ordinal sql name \<and>
             map_of (rev (bound_names args)) (to_lower name) = Some (nv_Value (arranged ! (ordinal sql name - 1))))))"
proof -
  let ?r = "rewritePlaceholders sql"
  have distinct: "distinct (names sql)" and keys: "set (names sql) = to_lower ` set (FindPlaceholders sql)"
    by (simp_all add: names_def rewritePlaceholders_rendered FindPlaceholders_names Let_def distinct_first_seen)
  have bound: "fst ` set (bound_names args) = (to_lower \<circ> nv_Name) ` set args"
    by (force simp: bound_names_def)
  have "case arrange ?r args of
        Inl e \<Rightarrow> (\<exists>a \<in> set args. nv_Name a = []) \<or> (to_lower \<circ> nv_Name) ` set args \<noteq> set (names sql)
      | Inr arranged \<Rightarrow>
          (\<forall>a \<in> set args. nv_Name a \<noteq> []) \<and> (to_lower \<circ> nv_Name) ` set args = set (names sql) \<and>
          length arranged = length (names sql) \<and>
          (\<forall>k < length (names sql). nv_Ordinal (arranged ! k) = k + 1 \<and> map_of (rev (bound_names args)) (names sql ! k) = Some (nv_Value (arranged ! k)))"
    if "FindPlaceholders sql \<noteq> []"
  proof (cases "by_name args []")
    case (Inl e)
    have "rw_names ?r \<noteq> []"
      using that keys unfolding names_def by auto
    then show ?thesis
      using Inl by_name_error [OF Inl] by (simp add: arrange_def)
  next
    case (Inr m)
    have "rw_names ?r \<noteq> []"
      using that keys unfolding names_def by auto
    moreover have m: "map_of m = map_of (rev (bound_names args))" "distinct (map fst m)" "\<forall>a \<in> set args. nv_Name a \<noteq> []"
      using by_name_map [OF Inr] by simp_all
    moreover have dom: "dom (map_of m) = (to_lower \<circ> nv_Name) ` set args"
      unfolding m(1) dom_map_of_conv_image_fst set_rev bound ..
    ultimately have run: "arrange ?r args = bindR (arrange_names (names sql) 0 m) (\<lambda>(arranged, rest).
        if rest \<noteq> [] then Inl (PlainError ''postgres: no placeholder in the statement'') else Inr arranged)"
      using Inr by (simp add: arrange_def names_def)
    show ?thesis
    proof (cases "arrange_names (names sql) 0 m")
      case (Inl e)
      then obtain name where "name \<in> set (names sql)" and "name \<notin> dom (map_of m)"
        using arrange_names_Inl [OF Inl distinct] by (auto simp: domIff)
      then show ?thesis
        using Inl unfolding run dom by auto
    next
      case (Inr p)
      obtain arranged rest where p: "p = (arranged, rest)"
        by (cases p)
      note spec = arrange_names_Inr [OF Inr [unfolded p] distinct m(2), unfolded dom]
      have "rest = [] \<longleftrightarrow> (to_lower \<circ> nv_Name) ` set args = set (names sql)"
        using spec by auto
      then show ?thesis
        using spec m(1,3) Inr unfolding run p by auto
    qed
  qed
  moreover have place: "\<exists>k < length (names sql). ordinal sql name = Suc k \<and> to_lower name = names sql ! k"
    if "name \<in> set (FindPlaceholders sql)" for name
    using place_nth [of "to_lower name" "names sql"] keys that
    by (intro exI [where x = "ordinal sql name - 1"]) (auto simp: ordinal_def names_def)
  moreover have "rw_sql ?r = rendered (\<lambda>name. ''$'' @ show_nat (ordinal sql name)) sql"
    by (simp add: ordinal_def rewritePlaceholders_rendered Let_def)
  ultimately show ?thesis
    using distinct keys by (cases "arrange ?r args") (auto dest!: place)
qed


theorem rewritten_binding_witness:
  "rw_sql (rewritePlaceholders (''f(@a, @B, '' @ [apostrophe] @ ''@c'' @ [apostrophe] @ '', @A)'')) = ''f($1, $2, '' @ [apostrophe] @ ''@c'' @ [apostrophe] @ '', $1)'' \<and>
   (\<exists>arranged. arrange (rewritePlaceholders ''f(@a, @B)'')
      [\<lparr>nv_Name = ''b'', nv_Ordinal = 1, nv_Value = (20::int)\<rparr>, \<lparr>nv_Name = ''A'', nv_Ordinal = 2, nv_Value = 10\<rparr>] = Inr arranged \<and>
      nv_Value (arranged ! 0) = 10 \<and> nv_Value (arranged ! 1) = 20)"
proof -
  let ?sql = "''f(@a, @B)''"
    and ?args = "[\<lparr>nv_Name = ''b'', nv_Ordinal = 1, nv_Value = (20::int)\<rparr>, \<lparr>nv_Name = ''A'', nv_Ordinal = 2, nv_Value = 10\<rparr>]"
  have out: "rw_sql (rewritePlaceholders (''f(@a, @B, '' @ [apostrophe] @ ''@c'' @ [apostrophe] @ '', @A)'')) =
      ''f($1, $2, '' @ [apostrophe] @ ''@c'' @ [apostrophe] @ '', $1)''"
    by code_simp
  have eval: "FindPlaceholders ?sql = [''a'', ''B'']" "rw_names (rewritePlaceholders ?sql) = [''a'', ''b'']" "to_lower ''B'' = ''b''" "to_lower ''a'' = ''a''"
      "to_lower ''A'' = ''a''" "to_lower ''b'' = ''b''"
    by code_simp+
  show ?thesis
    using out rewritten_binding [of ?sql ?args] by (auto simp: eval bound_names_def split: sum.splits)
qed

end
