(* ===== verification/Message_Text.thy ===== *)
theory Message_Text
  imports Wire_Text Trigger_Text
begin

text \<open>
  A planned message on SQL Server (\<open>sqlserver/batch.go\<close>): each statement's parameters are renamed apart, the
  statements are joined into one text, and the scalar results are read back in order.
\<close>

datatype 'v db_arg = NamedArg string 'v | PositionalArg 'v

definition message_prefix :: "nat \<Rightarrow> string" where
  "message_prefix i = ''p'' @ show_nat i @ ''_''"

text \<open>The occurrences of the distinct names, in any spelling, by their place in the text.\<close>

definition rename_occurrences :: "string \<Rightarrow> (PlaceholderSpan \<times> string) list" where
  "rename_occurrences sqlText =
     sort_key (ps_Index \<circ> fst)
       (concat (map (\<lambda>name. map (\<lambda>sp. (sp, name)) (PlaceholderOccurrences sqlText name)) (first_seen [] (map to_lower (FindPlaceholders sqlText)))))"

fun rename_arg :: "string \<Rightarrow> 'v db_arg \<Rightarrow> 'v db_arg res" where
  "rename_arg prefix' (NamedArg name v) = Inr (NamedArg (prefix' @ to_lower name) v)"
| "rename_arg prefix' (PositionalArg v) = Inl (PlainError ''sqlserver: positional argument'')"

definition renameApart :: "nat \<Rightarrow> string \<Rightarrow> 'v db_arg list \<Rightarrow> (string \<times> 'v db_arg list) res" where
  "renameApart index sqlText args =
     (let prefix' = message_prefix index;
          text' = splice sqlText 0 (map (\<lambda>(sp, name). (sp, ''@'' @ prefix' @ name)) (rename_occurrences sqlText))
      in bindR (res_map (rename_arg prefix') args) (\<lambda>renamed. Inr (text', renamed)))"

definition renameMessage :: "(string \<times> 'v db_arg list) list \<Rightarrow> (string \<times> 'v db_arg list) list res" where
  "renameMessage statements = res_map (\<lambda>(i, sql, args). renameApart i sql args) (enumerate 0 statements)"

definition joinMessage :: "(string \<times> 'v db_arg list) list \<Rightarrow> (string \<times> 'v db_arg list) res" where
  "joinMessage statements =
     bindR (renameMessage statements) (\<lambda>parts. Inr (join ('';'' @ [newline]) (map fst parts), concat (map snd parts)))"

section \<open>One scan or a scan per name\<close>

lemma holes_bounds: "m \<in> set (holes i ps) \<Longrightarrow> i \<le> fst m"
  by (induction i ps rule: holes.induct) force+

lemma holes_sorted: "sorted_wrt (<) (map fst (holes i ps))"
  by (induction i ps rule: holes.induct) (auto dest!: holes_bounds)

lemma mset_by_key:
  assumes "distinct ks" and "g ` set ms \<subseteq> set ks"
  shows "mset (concat (map (\<lambda>k. filter (\<lambda>m. g m = k) ms) ks)) = mset ms"
  using assms
proof (induction ks arbitrary: ms)
  case (Cons k ks)
  let ?ms = "filter (\<lambda>m. g m \<noteq> k) ms"
  have "filter (\<lambda>m. g m = k') ?ms = filter (\<lambda>m. g m = k') ms" if "k' \<in> set ks" for k'
    using Cons.prems(1) that by (auto intro!: filter_cong)
  then have "concat (map (\<lambda>k'. filter (\<lambda>m. g m = k') ms) ks) = concat (map (\<lambda>k'. filter (\<lambda>m. g m = k') ?ms) ks)"
    by (simp cong: map_cong)
  moreover have "mset (concat (map (\<lambda>k'. filter (\<lambda>m. g m = k') ?ms) ks)) = mset ?ms"
    using Cons.prems by (intro Cons.IH) auto
  ultimately show ?case
    by (simp flip: multiset_partition)
qed simp

lemma rename_occurrences_matches:
  "rename_occurrences sql = map (\<lambda>m. (span_of m, to_lower (snd m))) (placeholderMatches (maskSQL sql))"
proof -
  let ?ms = "placeholderMatches (maskSQL sql)" and ?f = "\<lambda>m. (span_of m, to_lower (snd m))"
  let ?ks = "first_seen [] (map to_lower (FindPlaceholders sql))"
  have "map (\<lambda>sp. (sp, k)) (PlaceholderOccurrences sql k) = map ?f (filter (\<lambda>m. to_lower (snd m) = k) ?ms)" if "k \<in> set ?ks" for k
  proof -
    have "to_lower k = k"
      using that by auto
    then have "PlaceholderOccurrences sql k = map span_of (filter (\<lambda>m. to_lower (snd m) = k) ?ms)"
      by (simp add: PlaceholderOccurrences_def EqualFold_def split_def)
    then show ?thesis
      by simp
  qed
  then have "map (\<lambda>k. map (\<lambda>sp. (sp, k)) (PlaceholderOccurrences sql k)) ?ks = map (\<lambda>k. map ?f (filter (\<lambda>m. to_lower (snd m) = k) ?ms)) ?ks"
    by (intro map_cong refl)
  then have "concat (map (\<lambda>k. map (\<lambda>sp. (sp, k)) (PlaceholderOccurrences sql k)) ?ks) =
      map ?f (concat (map (\<lambda>k. filter (\<lambda>m. to_lower (snd m) = k) ?ms) ?ks))"
    by (simp only: map_concat map_map comp_def)
  moreover have "mset (concat (map (\<lambda>k. filter (\<lambda>m. to_lower (snd m) = k) ?ms) ?ks)) = mset ?ms"
    by (rule mset_by_key) (auto simp: distinct_first_seen FindPlaceholders_def)
  ultimately have perm: "mset (concat (map (\<lambda>k. map (\<lambda>sp. (sp, k)) (PlaceholderOccurrences sql k)) ?ks)) = mset (map ?f ?ms)"
    by simp
  have sorted: "sorted_wrt (<) (map (ps_Index \<circ> fst) (map ?f ?ms))"
    using holes_sorted [of 0 "pieces Outside False sql"] by (simp add: placeholderMatches_holes comp_def span_of_def)
  then have "inj_on (ps_Index \<circ> fst) (set (map ?f ?ms))"
    using strict_sorted_iff [of "map (ps_Index \<circ> fst) (map ?f ?ms)"] distinct_map by blast
  then show ?thesis
    unfolding rename_occurrences_def using sorted mset_eq_setD [OF perm]
    by (intro sort_key_inj_key_eq [OF perm]) (simp_all only: strict_sorted_iff)
qed

lemma renameApart_Inr:
  "renameApart i sql args = Inr (text', renamed) \<longleftrightarrow>
   text' = rendered (\<lambda>name. ''@'' @ message_prefix i @ to_lower name) sql \<and> res_map (rename_arg (message_prefix i)) args = Inr renamed"
  using splice_matches [of sql "\<lambda>name. ''@'' @ message_prefix i @ to_lower name"]
  by (auto simp: renameApart_def Let_def rename_occurrences_matches comp_def bindR_Inr_iff)

section \<open>Scanning a renamed text\<close>

fun rename_piece :: "(string \<Rightarrow> string) \<Rightarrow> piece \<Rightarrow> piece" where
  "rename_piece g (Raw c) = Raw c"
| "rename_piece g (Hole name) = Hole (g name)"

definition is_name :: "string \<Rightarrow> bool" where
  "is_name s \<longleftrightarrow> s \<noteq> [] \<and> is_name_start (hd s) \<and> list_all is_word_char s"

abbreviation rename_text :: "(string \<Rightarrow> string) \<Rightarrow> piece list \<Rightarrow> string" where
  "rename_text g ps \<equiv> concat (map (render_piece (\<lambda>name. ''@'' @ g name)) ps)"

lemma rename_text_raw [simp]: "rename_text g (map Raw s) = s"
  by (induction s) auto

lemma rename_head: "\<exists>t. rename_text g (pieces mode after (c # s)) = c # t"
  by (cases mode) (simp_all del: take_one)

lemma take_rename: "take (Suc 0) (rename_text g (pieces mode after s)) = take (Suc 0) s"
  using rename_head [of g mode after] by (cases s) (force, metis take_Suc_Cons take0)

lemma rename_Nil: "rename_text g (pieces mode after s) = [] \<longleftrightarrow> s = []"
proof (cases s)
  case (Cons c s')
  then show ?thesis
    using rename_head [of g mode after c s'] by (metis list.distinct(1))
qed simp

lemma hd_rename: "s \<noteq> [] \<Longrightarrow> hd (rename_text g (pieces mode after s)) = hd s"
  using rename_head [of g mode after "hd s" "tl s"] by auto

lemma pieces_plain:
  assumes "c \<noteq> apostrophe" and "\<not> (c = CHR ''-'' \<and> take 1 s = ''-'')" and "\<not> (c = CHR ''/'' \<and> take 1 s = ''*'')"
    and "\<not> (c = CHR ''@'' \<and> s \<noteq> [] \<and> is_name_start (hd s))"
  shows "pieces Outside after (c # s) = Raw c # pieces Outside (c = CHR ''@'') s"
  using assms by (simp del: take_one) blast

lemma pieces_block:
  assumes "s \<noteq> []" and "\<not> (c = CHR ''*'' \<and> take 1 s = ''/'')"
  shows "pieces InBlock after (c # s) = Raw c # pieces InBlock False s"
  using assms by (simp del: take_one) blast

lemma span_rename:
  "takeWhile is_word_char (w @ rename_text g (pieces Outside False (dropWhile is_word_char s))) = w \<and>
   dropWhile is_word_char (w @ rename_text g (pieces Outside False (dropWhile is_word_char s))) = rename_text g (pieces Outside False (dropWhile is_word_char s))"
  if "list_all is_word_char w"
proof (rule span_append)
  show "rename_text g (pieces Outside False (dropWhile is_word_char s)) = [] \<or>
      \<not> is_word_char (hd (rename_text g (pieces Outside False (dropWhile is_word_char s))))"
    using rename_Nil [of g Outside False "dropWhile is_word_char s"] hd_rename [of "dropWhile is_word_char s" g Outside False]
      hd_dropWhile [of is_word_char s] by metis
qed (use that in \<open>auto simp: list_all_iff\<close>)

lemma pieces_rename:
  assumes "\<And>name. list_all is_word_char name \<Longrightarrow> is_name (g name)"
  shows "pieces mode after (rename_text g (pieces mode after s)) = map (rename_piece g) (pieces mode after s)"
proof (induction mode after s rule: pieces.induct)
  case (2 after c s)
  consider (literal) "c = apostrophe" | (line) "c = CHR ''-''" "take 1 s = ''-''" | (block) t where "c = CHR ''/''" "s = CHR ''*'' # t"
    | (hole) "c = CHR ''@''" "s \<noteq> []" "is_name_start (hd s)"
    | (raw) "c \<noteq> apostrophe" "\<not> (c = CHR ''-'' \<and> take 1 s = ''-'')" "\<not> (c = CHR ''/'' \<and> take 1 s = ''*'')"
        "\<not> (c = CHR ''@'' \<and> s \<noteq> [] \<and> is_name_start (hd s))"
    by (auto simp: neq_Nil_conv)
  then show ?case
  proof cases
    case literal
    then show ?thesis
      using "2.IH"(1) by simp
  next
    case line
    then show ?thesis
      using "2.IH"(2) take_rename [of g InLine False s] by (simp del: take_one)
  next
    case block
    then show ?thesis
      using "2.IH"(3) by simp
  next
    case hole
    let ?rest = "rename_text g (pieces Outside False (dropWhile is_word_char s))" and ?name = "takeWhile is_word_char s"
    have IH: "pieces Outside False ?rest = map (rename_piece g) (pieces Outside False (dropWhile is_word_char s))"
      using "2.IH"(4) hole by simp
    have name: "list_all is_word_char ?name" "?name \<noteq> []" "hd ?name = hd s"
      using hole is_name_start_word by (auto simp: list_all_iff dest: set_takeWhileD) (cases s; auto)+
    have g: "list_all is_word_char (g ?name)" "g ?name \<noteq> []" "is_name_start (hd (g ?name))"
      using assms [OF name(1)] by (simp_all add: is_name_def)
    show ?thesis
      using hole IH name g span_rename [OF name(1), of g s] span_rename [OF g(1), of g s] by (auto simp: comp_def)
  next
    case raw
    have IH: "pieces Outside (c = CHR ''@'') (rename_text g (pieces Outside (c = CHR ''@'') s)) = map (rename_piece g) (pieces Outside (c = CHR ''@'') s)"
      using "2.IH"(5) raw by (simp del: take_one)
    have first: "take 1 (rename_text g (pieces Outside (c = CHR ''@'') s)) = take 1 s" "rename_text g (pieces Outside (c = CHR ''@'') s) = [] \<longleftrightarrow> s = []"
        "s \<noteq> [] \<longrightarrow> hd (rename_text g (pieces Outside (c = CHR ''@'') s)) = hd s"
      using take_rename rename_Nil hd_rename by auto
    have one: "pieces Outside after (c # s) = Raw c # pieces Outside (c = CHR ''@'') s"
      by (rule pieces_plain) (use raw in blast)+
    have "pieces Outside after (c # rename_text g (pieces Outside (c = CHR ''@'') s)) =
        Raw c # pieces Outside (c = CHR ''@'') (rename_text g (pieces Outside (c = CHR ''@'') s))"
      using raw first by (intro pieces_plain) metis+
    then show ?thesis
      unfolding one using IH by simp
  qed
next
  case (3 after c s)
  show ?case
  proof (cases "c = apostrophe \<and> take 1 s = [apostrophe]")
    case True
    then show ?thesis
      using "3.IH"(1) by auto
  next
    case False
    then show ?thesis
      using "3.IH"(2,3) take_rename [of g Outside False s] by (simp del: take_one)
  qed
next
  case (4 after c s)
  then show ?case
    by simp
next
  case (5 after c s)
  show ?case
  proof (cases "s \<noteq> [] \<and> c = CHR ''*'' \<and> take 1 s = ''/''")
    case True
    then show ?thesis
      using "5.IH"(1) by auto
  next
    case False
    show ?thesis
    proof (cases "s = []")
      case nonempty: False
      let ?s = "rename_text g (pieces InBlock False s)"
      have "take 1 ?s = take 1 s" "?s \<noteq> []"
        using take_rename rename_Nil nonempty by auto
      then have "pieces InBlock after (c # ?s) = Raw c # pieces InBlock False ?s"
        using False nonempty by (intro pieces_block) metis+
      moreover have "pieces InBlock after (c # s) = Raw c # pieces InBlock False s"
        using False nonempty by (intro pieces_block) blast+
      ultimately show ?thesis
        using "5.IH"(2) False nonempty by simp
    qed simp
  qed
qed simp


section \<open>Joining texts\<close>

text \<open>A statement may be followed by another in the message when it closes its literals and block comments.\<close>

definition self_contained :: "string \<Rightarrow> bool" where
  "self_contained sql \<longleftrightarrow> ends_in Outside sql \<in> {Outside, InLine}"

lemma ends_word: "list_all is_word_char w \<Longrightarrow> ends_in Outside (w @ s) = ends_in Outside s"
  by (induction w) (auto simp: word_chars)

lemma ends_plain:
  assumes "c \<noteq> apostrophe" and "\<not> (c = CHR ''-'' \<and> take 1 s = ''-'')" and "\<not> (c = CHR ''/'' \<and> take 1 s = ''*'')"
  shows "ends_in Outside (c # s) = ends_in Outside s"
  using assms by (simp del: take_one) blast

lemma ends_block:
  assumes "s \<noteq> []" and "\<not> (c = CHR ''*'' \<and> take 1 s = ''/'')"
  shows "ends_in InBlock (c # s) = ends_in InBlock s"
  using assms by (simp del: take_one) blast

lemma ends_rename:
  assumes "\<And>name. list_all is_word_char name \<Longrightarrow> is_name (g name)"
  shows "ends_in mode (rename_text g (pieces mode after s)) = ends_in mode s"
proof (induction mode after s rule: pieces.induct)
  case (2 after c s)
  consider (literal) "c = apostrophe" | (line) "c = CHR ''-''" "take 1 s = ''-''" | (block) t where "c = CHR ''/''" "s = CHR ''*'' # t"
    | (hole) "c = CHR ''@''" "s \<noteq> []" "is_name_start (hd s)"
    | (raw) "c \<noteq> apostrophe" "\<not> (c = CHR ''-'' \<and> take 1 s = ''-'')" "\<not> (c = CHR ''/'' \<and> take 1 s = ''*'')"
        "\<not> (c = CHR ''@'' \<and> s \<noteq> [] \<and> is_name_start (hd s))"
    by (auto simp: neq_Nil_conv)
  then show ?case
  proof cases
    case literal
    then show ?thesis
      using "2.IH"(1) by simp
  next
    case line
    then show ?thesis
      using "2.IH"(2) take_rename [of g InLine False s] by (simp del: take_one)
  next
    case block
    then show ?thesis
      using "2.IH"(3) by simp
  next
    case hole
    have "list_all is_word_char (takeWhile is_word_char s)"
      by (auto simp: list_all_iff dest: set_takeWhileD)
    then have words: "list_all is_word_char (takeWhile is_word_char s)" "list_all is_word_char (g (takeWhile is_word_char s))"
      using assms by (auto simp: is_name_def)
    have "ends_in Outside (c # s) = ends_in Outside (dropWhile is_word_char s)"
      using hole ends_word [OF words(1), of "dropWhile is_word_char s"] by simp
    moreover have "ends_in Outside (rename_text g (pieces Outside False (dropWhile is_word_char s))) = ends_in Outside (dropWhile is_word_char s)"
      using "2.IH"(4) hole by simp
    ultimately show ?thesis
      using hole ends_word [OF words(1)] ends_word [OF words(2)] by (auto simp: comp_def)
  next
    case raw
    let ?s = "rename_text g (pieces Outside (c = CHR ''@'') s)"
    have "take 1 ?s = take 1 s"
      using take_rename by auto
    then have "ends_in Outside (c # ?s) = ends_in Outside ?s"
      using raw by (intro ends_plain) metis+
    moreover have "ends_in Outside ?s = ends_in Outside s"
      using "2.IH"(5) raw by (simp del: take_one)
    moreover have "pieces Outside after (c # s) = Raw c # pieces Outside (c = CHR ''@'') s" and "ends_in Outside (c # s) = ends_in Outside s"
      by (intro pieces_plain ends_plain; use raw in blast)+
    ultimately show ?thesis
      by simp
  qed
next
  case (3 after c s)
  show ?case
  proof (cases "c = apostrophe \<and> take 1 s = [apostrophe]")
    case True
    then show ?thesis
      using "3.IH"(1) by auto
  next
    case False
    then show ?thesis
      using "3.IH"(2,3) take_rename [of g Outside False s] by (simp del: take_one)
  qed
next
  case (5 after c s)
  show ?case
  proof (cases "s \<noteq> [] \<and> c = CHR ''*'' \<and> take 1 s = ''/''")
    case True
    then show ?thesis
      using "5.IH"(1) by auto
  next
    case False
    show ?thesis
    proof (cases "s = []")
      case nonempty: False
      let ?s = "rename_text g (pieces InBlock False s)"
      have "take 1 ?s = take 1 s" "?s \<noteq> []"
        using take_rename rename_Nil nonempty by auto
      then have "ends_in InBlock (c # ?s) = ends_in InBlock ?s"
        using False nonempty by (intro ends_block) metis+
      moreover have "pieces InBlock after (c # s) = Raw c # pieces InBlock False s" and "ends_in InBlock (c # s) = ends_in InBlock s"
        using False nonempty by (intro pieces_block ends_block; blast)+
      ultimately show ?thesis
        using "5.IH"(2) False nonempty by simp
    qed simp
  qed
qed simp_all

lemma pieces_append:
  "ends_in mode s \<in> {Outside, InLine} \<Longrightarrow>
   pieces mode after (s @ CHR '';'' # newline # t) = pieces mode after s @ Raw (CHR '';'') # Raw newline # pieces Outside False t"
proof (induction mode after s rule: pieces.induct)
  case (1 mode after)
  then show ?case
    by auto
next
  case (2 after c s)
  let ?t = "CHR '';'' # newline # t"
  consider (literal) "c = apostrophe" | (line) "c = CHR ''-''" "take 1 s = ''-''" | (block) u where "c = CHR ''/''" "s = CHR ''*'' # u"
    | (hole) "c = CHR ''@''" "s \<noteq> []" "is_name_start (hd s)"
    | (raw) "c \<noteq> apostrophe" "\<not> (c = CHR ''-'' \<and> take 1 s = ''-'')" "\<not> (c = CHR ''/'' \<and> take 1 s = ''*'')"
        "\<not> (c = CHR ''@'' \<and> s \<noteq> [] \<and> is_name_start (hd s))"
    by (auto simp: neq_Nil_conv)
  then show ?case
  proof cases
    case literal
    then show ?thesis
      using "2.IH"(1) "2.prems" by simp
  next
    case line
    then show ?thesis
      using "2.IH"(2) "2.prems" by auto
  next
    case block
    then show ?thesis
      using "2.IH"(3) "2.prems" by simp
  next
    case hole
    have words: "list_all is_word_char (takeWhile is_word_char s)"
      by (auto simp: list_all_iff dest: set_takeWhileD)
    have "ends_in Outside (c # s) = ends_in Outside (dropWhile is_word_char s)"
      using hole ends_word [OF words, of "dropWhile is_word_char s"] by simp
    then have IH: "pieces Outside False (dropWhile is_word_char s @ ?t) = pieces Outside False (dropWhile is_word_char s) @ Raw (CHR '';'') # Raw newline # pieces Outside False t"
      using "2.IH"(4) "2.prems" hole by simp
    have "takeWhile is_word_char (s @ ?t) = takeWhile is_word_char s" "dropWhile is_word_char (s @ ?t) = dropWhile is_word_char s @ ?t"
      by (auto simp: takeWhile_append dropWhile_append word_chars) (metis takeWhile_eq_all_conv)
    then show ?thesis
      using hole IH by simp
  next
    case raw
    have s: "take 1 (s @ ?t) = (if s = [] then '';'' else take 1 s)" "hd (s @ ?t) = (if s = [] then CHR '';'' else hd s)"
      by (cases s; simp)+
    have "pieces Outside after (c # s @ ?t) = Raw c # pieces Outside (c = CHR ''@'') (s @ ?t)"
      using raw s by (intro pieces_plain) (auto simp: is_name_start_def word_chars simp del: take_one split: if_splits)
    moreover have "pieces Outside after (c # s) = Raw c # pieces Outside (c = CHR ''@'') s" and "ends_in Outside (c # s) = ends_in Outside s"
      by (intro pieces_plain ends_plain; use raw in blast)+
    moreover have "pieces Outside (c = CHR ''@'') (s @ ?t) = pieces Outside (c = CHR ''@'') s @ Raw (CHR '';'') # Raw newline # pieces Outside False t"
      using "2.IH"(5) raw "2.prems" calculation(3) by (simp del: take_one)
    ultimately show ?thesis
      by simp
  qed
next
  case (3 after c s)
  let ?t = "CHR '';'' # newline # t"
  show ?case
  proof (cases "c = apostrophe \<and> take 1 s = [apostrophe]")
    case True
    then obtain u where "s = apostrophe # u" and "c = apostrophe"
      by auto
    then show ?thesis
      using "3.IH"(1) "3.prems" by simp
  next
    case False
    have "take 1 (s @ ?t) = [apostrophe] \<longleftrightarrow> take 1 s = [apostrophe]"
      by (cases s) simp_all
    then show ?thesis
      using "3.IH"(2,3) "3.prems" False by (cases "c = apostrophe") (simp_all del: take_one)
  qed
next
  case (4 after c s)
  then show ?case
    by (auto split: if_splits)
next
  case (5 after c s)
  let ?t = "CHR '';'' # newline # t"
  have s: "s \<noteq> []"
    using "5.prems" by (cases s) auto
  show ?case
  proof (cases "c = CHR ''*'' \<and> take 1 s = ''/''")
    case True
    then obtain u where "s = CHR ''/'' # u" and "c = CHR ''*''"
      by auto
    then show ?thesis
      using "5.IH"(1) "5.prems" by simp
  next
    case False
    have "take 1 (s @ ?t) = ''/'' \<longleftrightarrow> take 1 s = ''/''"
      using s by (cases s) simp_all
    then have "pieces InBlock after (c # s @ ?t) = Raw c # pieces InBlock False (s @ ?t)"
      using s False by (intro pieces_block) auto
    moreover have "pieces InBlock after (c # s) = Raw c # pieces InBlock False s" and "ends_in InBlock (c # s) = ends_in InBlock s"
      using s False by (intro pieces_block ends_block; blast)+
    ultimately show ?thesis
      using "5.IH"(2) "5.prems" s False by simp
  qed
qed


section \<open>Messages\<close>

definition prefixed :: "nat \<Rightarrow> string \<Rightarrow> string" where
  "prefixed i name = message_prefix i @ to_lower name"

lemma show_nat_digits: "list_all is_word_char (show_nat n)"
proof (induction n rule: show_nat.induct)
  case (1 n)
  have "is_word_char (digit_char d)" if "d < 10" for d
    using that by (simp add: is_word_char_def digit_char_def)
  then show ?case
    using 1 by (subst show_nat.simps) auto
qed

lemma digits_no_underscore: "CHR ''_'' \<notin> set (show_nat n)"
proof (induction n rule: show_nat.induct)
  case (1 n)
  have "digit_char d \<noteq> CHR ''_''" if "d < 10" for d
    using that by (auto simp: digit_char_def dest!: arg_cong [where f = "of_char :: char \<Rightarrow> nat"])
  then show ?case
    using 1 by (cases "n < 10") (subst show_nat.simps; simp; metis mod_less_divisor zero_less_numeral)+
qed

lemma prefixed_inject: "prefixed i a = prefixed j b \<longleftrightarrow> i = j \<and> to_lower a = to_lower b"
proof -
  have head: "takeWhile (\<lambda>c. c \<noteq> CHR ''_'') (show_nat n @ CHR ''_'' # s) = show_nat n" for n s
    using digits_no_underscore [of n] by (simp add: takeWhile_append)
  have "i = j" if "prefixed i a = prefixed j b"
    using that head [of i "to_lower a"] head [of j "to_lower b"] by (simp add: prefixed_def message_prefix_def)
  then show ?thesis
    by (auto simp: prefixed_def)
qed

lemma prefixed_name: "list_all is_word_char name \<Longrightarrow> is_name (prefixed i name)"
  using show_nat_digits [of i]
  by (auto simp: is_name_def prefixed_def message_prefix_def is_name_start_def is_word_char_def [of "CHR ''p''"] is_word_char_def [of "CHR ''_''"] to_lower_def list_all_iff)


fun arg_name :: "'v db_arg \<Rightarrow> string" where
  "arg_name (NamedArg name v) = name"
| "arg_name (PositionalArg v) = []"

fun arg_value :: "'v db_arg \<Rightarrow> 'v" where
  "arg_value (NamedArg name v) = v"
| "arg_value (PositionalArg v) = v"

lemma rename_args: "res_map (rename_arg prefix') args = Inr renamed \<Longrightarrow>
    renamed = map (\<lambda>a. NamedArg (prefix' @ to_lower (arg_name a)) (arg_value a)) args"
proof (induction args arbitrary: renamed)
  case (Cons a args)
  then show ?case
    by (cases a) (auto split: sum.splits)
qed simp

lemma hole_names_rename: "hole_names (map (rename_piece g) ps) = map g (hole_names ps)"
  by (induction ps rule: hole_names.induct) auto

lemma renamed_text:
  fixes sql :: string and i :: nat
  defines "out \<equiv> rendered (\<lambda>name. CHR ''@'' # prefixed i name) sql"
  shows "hole_names (pieces Outside False out) = map (prefixed i) (hole_names (pieces Outside False sql))" and "self_contained out = self_contained sql"
  using pieces_rename [where g = "prefixed i", OF prefixed_name, where mode = Outside and after = False and s = sql]
    ends_rename [where g = "prefixed i", OF prefixed_name, where mode = Outside and after = False and s = sql]
  by (simp_all add: out_def rendered_def hole_names_rename self_contained_def)

lemma join_names:
  "list_all self_contained ts \<Longrightarrow> hole_names (pieces Outside False (join ('';'' @ [newline]) ts)) = concat (map (\<lambda>t. hole_names (pieces Outside False t)) ts)"
proof (induction "'';'' @ [newline]" ts rule: join.induct)
  case (3 x y xs)
  then show ?case
    using pieces_append [of Outside x False "join ('';'' @ [newline]) (y # xs)"] by (simp add: self_contained_def)
qed simp_all

lemma enumerate_map: "map (\<lambda>(i, x). h i x) (enumerate n xs) = map (\<lambda>i. h (n + i) (xs ! i)) [0..<length xs]"
  by (rule nth_equalityI) (simp_all add: nth_enumerate_eq)

lemma joinMessage_Inr:
  assumes "joinMessage statements = Inr (out, args)"
  shows "out = join ('';'' @ [newline]) (map (\<lambda>i. rendered (\<lambda>name. CHR ''@'' # prefixed i name) (fst (statements ! i))) [0..<length statements]) \<and>
    args = concat (map (\<lambda>i. map (\<lambda>a. NamedArg (prefixed i (arg_name a)) (arg_value a)) (snd (statements ! i))) [0..<length statements])"
proof -
  obtain parts where parts: "renameMessage statements = Inr parts" and out: "out = join ('';'' @ [newline]) (map fst parts)" and args: "args = concat (map snd parts)"
    using assms by (auto simp: joinMessage_def bindR_Inr_iff)
  have "list_all2 (\<lambda>(i, sql, args) part. renameApart i sql args = Inr part) (enumerate 0 statements) parts"
    using parts unfolding renameMessage_def res_map_Inr_iff by (auto elim!: list_all2_mono)
  then have "list_all2 (\<lambda>(i, sql, args) part. fst part = rendered (\<lambda>name. CHR ''@'' # prefixed i name) sql \<and>
      snd part = map (\<lambda>a. NamedArg (prefixed i (arg_name a)) (arg_value a)) args) (enumerate 0 statements) parts"
    by (rule list_all2_mono) (auto simp: renameApart_Inr prefixed_def comp_def dest: rename_args)
  then have "map fst parts = map (\<lambda>(i, sql, args). rendered (\<lambda>name. CHR ''@'' # prefixed i name) sql) (enumerate 0 statements) \<and>
      map snd parts = map (\<lambda>(i, sql, args). map (\<lambda>a. NamedArg (prefixed i (arg_name a)) (arg_value a)) args) (enumerate 0 statements)"
    by (induction rule: list_all2_induct) auto
  then show ?thesis
    using enumerate_map [of "\<lambda>i st. rendered (\<lambda>name. CHR ''@'' # prefixed i name) (fst st)" 0 statements]
      enumerate_map [of "\<lambda>i st. map (\<lambda>a. NamedArg (prefixed i (arg_name a)) (arg_value a)) (snd st)" 0 statements]
    by (simp add: out args comp_def split_def)
qed

lemma distinct_concat_map:
  "(\<And>i. i < n \<Longrightarrow> distinct (f i)) \<Longrightarrow> (\<And>i j. i \<noteq> j \<Longrightarrow> set (f i) \<inter> set (f j) = {}) \<Longrightarrow> distinct (concat (map f [0..<n]))"
proof (induction n)
  case (Suc n)
  have "set (f i) \<inter> set (f n) = {}" if "i < n" for i
    using that by (intro Suc.prems(2)) simp
  moreover have "distinct (concat (map f [0..<n]))" and "distinct (f n)"
    using Suc.IH Suc.prems by simp_all
  ultimately show ?case
    by (auto simp: disjoint_iff)
qed simp

text \<open>
  C36: A SQL Server message keeps its statements apart. The message is the statements' texts, each placeholder
  renamed to its lower-cased name under the prefix of its own statement, and the arguments follow in order, each
  with its value under that prefix, so that no two statements share a name. When every statement closes its
  literals and block comments, the scanner finds exactly those placeholders; when moreover each statement's
  arguments are its placeholders, in any case, each bound once, the names of the message are its placeholders,
  each bound once, and every statement reads the very values it was bound with.
\<close>

theorem message_apart:
  assumes "joinMessage statements = Inr (out, args)" and self_contained: "list_all (\<lambda>st. self_contained (fst st)) statements"
  shows "out = join ('';'' @ [newline]) (map (\<lambda>i. rendered (\<lambda>name. CHR ''@'' # prefixed i name) (fst (statements ! i))) [0..<length statements]) \<and>
    map (\<lambda>a. (arg_name a, arg_value a)) args =
      concat (map (\<lambda>i. map (\<lambda>a. (prefixed i (arg_name a), arg_value a)) (snd (statements ! i))) [0..<length statements]) \<and>
    set (FindPlaceholders out) = (\<Union>i<length statements. prefixed i ` set (FindPlaceholders (fst (statements ! i)))) \<and>
    (\<forall>i j. i \<noteq> j \<longrightarrow> prefixed i ` A \<inter> prefixed j ` B = {}) \<and>
    ((\<forall>st \<in> set statements. distinct (map (to_lower \<circ> arg_name) (snd st)) \<and>
        (to_lower \<circ> arg_name) ` set (snd st) = to_lower ` set (FindPlaceholders (fst st))) \<longrightarrow>
      distinct (map arg_name args) \<and> set (map arg_name args) = set (FindPlaceholders out) \<and>
      (\<forall>i < length statements. \<forall>a \<in> set (snd (statements ! i)).
        map_of (map (\<lambda>a. (arg_name a, arg_value a)) args) (prefixed i (arg_name a)) = Some (arg_value a)))"
proof -
  let ?n = "length statements" and ?sql = "\<lambda>i. fst (statements ! i)" and ?args = "\<lambda>i. snd (statements ! i)"
  note spec = joinMessage_Inr [OF assms(1)]
  have names: "set (FindPlaceholders out) = (\<Union>i<?n. prefixed i ` set (FindPlaceholders (?sql i)))"
    using self_contained join_names [of "map (\<lambda>i. rendered (\<lambda>name. CHR ''@'' # prefixed i name) (?sql i)) [0..<?n]"]
    by (simp add: spec FindPlaceholders_names renamed_text list_all_iff atLeast0LessThan comp_def)
  have pairs: "map (\<lambda>a. (arg_name a, arg_value a)) args = concat (map (\<lambda>i. map (\<lambda>a. (prefixed i (arg_name a), arg_value a)) (?args i)) [0..<?n])"
    using spec by (simp add: map_concat comp_def)
  have bound: "distinct (map arg_name args) \<and> set (map arg_name args) = set (FindPlaceholders out)"
    if each: "\<forall>st \<in> set statements. distinct (map (to_lower \<circ> arg_name) (snd st)) \<and> (to_lower \<circ> arg_name) ` set (snd st) = to_lower ` set (FindPlaceholders (fst st))"
  proof
    have one: "distinct (map (to_lower \<circ> arg_name) (?args i))" "(to_lower \<circ> arg_name) ` set (?args i) = to_lower ` set (FindPlaceholders (?sql i))" if "i < ?n" for i
      using each that by simp_all
    have lower: "prefixed i = (\<lambda>s. message_prefix i @ s) \<circ> to_lower" for i
      by (auto simp: prefixed_def)
    have arg_names: "map arg_name args = concat (map (\<lambda>i. map (prefixed i \<circ> arg_name) (?args i)) [0..<?n])"
      using spec by (simp add: map_concat comp_def)
    show "set (map arg_name args) = set (FindPlaceholders out)"
      using one(2) unfolding names arg_names lower by (fastforce simp: image_comp [symmetric])
    have "distinct (map (prefixed i \<circ> arg_name) (?args i))" if "i < ?n" for i
      using one(1) [OF that] by (simp add: distinct_map comp_inj_on_iff prefixed_inject inj_on_def)
    then show "distinct (map arg_name args)"
      unfolding arg_names by (intro distinct_concat_map) (auto simp: prefixed_inject)
  qed
  have reads: "map_of (map (\<lambda>a. (arg_name a, arg_value a)) args) (prefixed i (arg_name a)) = Some (arg_value a)"
    if "distinct (map arg_name args)" "i < ?n" "a \<in> set (?args i)" for i a
    using that by (intro map_of_is_SomeI) (simp add: comp_def, auto simp: pairs)
  have "\<forall>i j. i \<noteq> j \<longrightarrow> prefixed i ` A \<inter> prefixed j ` B = {}"
    using prefixed_inject by blast
  then show ?thesis
    by (intro conjI impI allI ballI conjunct1 [OF spec] pairs names)
      (use bound reads in \<open>simp_all only: simp_thms\<close>)
qed

theorem message_apart_witness:
  "\<exists>args. joinMessage [(''f(@id)'', [NamedArg ''Id'' (1::int)]), (''g(@ID, @x)'', [NamedArg ''x'' 2, NamedArg ''id'' 3])] =
      Inr (''f(@p0_id);'' @ [newline] @ ''g(@p1_id, @p1_x)'', args) \<and>
    map_of (map (\<lambda>a. (arg_name a, arg_value a)) args) (prefixed 1 ''id'') = Some 3 \<and>
    set (map arg_name args) = {''p0_id'', ''p1_id'', ''p1_x''}"
proof -
  let ?statements = "[(''f(@id)'', [NamedArg ''Id'' (1::int)]), (''g(@ID, @x)'', [NamedArg ''x'' 2, NamedArg ''id'' 3])]"
    and ?out = "''f(@p0_id);'' @ [newline] @ ''g(@p1_id, @p1_x)''" and ?args = "[NamedArg ''p0_id'' (1::int), NamedArg ''p1_x'' 2, NamedArg ''p1_id'' 3]"
  have run: "joinMessage ?statements = Inr (?out, ?args)"
    by code_simp
  have eval: "FindPlaceholders ''f(@id)'' = [''id'']" "FindPlaceholders ''g(@ID, @x)'' = [''ID'', ''x'']" "self_contained ''f(@id)''" "self_contained ''g(@ID, @x)''"
    "FindPlaceholders ?out = [''p0_id'', ''p1_id'', ''p1_x'']" "to_lower ''Id'' = ''id''" "to_lower ''ID'' = ''id''" "to_lower ''id'' = ''id''" "to_lower ''x'' = ''x''"
    by code_simp+
  have "list_all (\<lambda>st. self_contained (fst st)) ?statements"
    by (simp add: eval)
  note apart = message_apart [OF run this, of "{}" "{}"]
  have "\<forall>st \<in> set ?statements. distinct (map (to_lower \<circ> arg_name) (snd st)) \<and>
      (to_lower \<circ> arg_name) ` set (snd st) = to_lower ` set (FindPlaceholders (fst st))"
    by (simp add: eval insert_commute)
  then have names: "set (map arg_name ?args) = set (FindPlaceholders ?out)" and
    bound: "\<forall>i < length ?statements. \<forall>a \<in> set (snd (?statements ! i)).
      map_of (map (\<lambda>a. (arg_name a, arg_value a)) ?args) (prefixed i (arg_name a)) = Some (arg_value a)"
    using apart by blast+
  have "map_of (map (\<lambda>a. (arg_name a, arg_value a)) ?args) (prefixed 1 ''id'') = Some 3"
    using bound [rule_format, of 1 "NamedArg ''id'' 3"] by simp
  with run names show ?thesis
    unfolding eval by (intro exI [of _ ?args]) simp
qed

section \<open>Sending a message and reading its results\<close>

text \<open>
  A response: its result sets, each the rows of one column as \<open>Scan\<close> gives them, and the error the reader meets when
  the sets are through. The executor of the call is a parameter.
\<close>

record response =
  rp_sets :: "gvalue res list list"
  rp_error :: "go_error option"

record 'd executor =
  mx_Exec :: "string \<Rightarrow> args \<Rightarrow> 'd \<Rightarrow> int res res \<times> 'd"
  mx_Query :: "string \<Rightarrow> args \<Rightarrow> 'd \<Rightarrow> response res \<times> 'd"

record MessageResult =
  mr_Key :: int
  mr_Affected :: int

definition noResult :: MessageResult where
  "noResult = \<lparr>mr_Key = 0, mr_Affected = 0\<rparr>"

definition returnsScalar :: "MessageStatement \<Rightarrow> bool" where
  "returnsScalar statement \<longleftrightarrow> mst_result statement = ResultKey \<or> mst_result statement = ResultReportedCount"

definition readsAnyResult :: "MessageStatement list \<Rightarrow> bool" where
  "readsAnyResult statements = list_ex returnsScalar statements"

fun integerOf :: "gvalue \<Rightarrow> int res" where
  "integerOf (VInt t i) = (if t \<in> {Int64, Int32, Int16, IntWord} then Inr i else Inl (PlainError ''the scalar result is not an integer''))"
| "integerOf (VUint t n) = (if t = Uint8 then Inr (int n) else Inl (PlainError ''the scalar result is not an integer''))"
| "integerOf (VBytes s) = parseCount s"
| "integerOf (VString s) = parseCount s"
| "integerOf VNil = Inl (PlainError ''the scalar result is NULL'')"
| "integerOf v = Inl (PlainError ''the scalar result is not an integer'')"

definition scalar_result :: "MessageStatement \<Rightarrow> int \<Rightarrow> MessageResult" where
  "scalar_result statement scalar =
     (if mst_result statement = ResultKey then noResult\<lparr>mr_Key := scalar\<rparr> else noResult\<lparr>mr_Affected := scalar\<rparr>)"

text \<open>The loop of \<open>readScalars\<close>: the sets from the current one on; the first statement that returns a scalar reads the first set.\<close>

fun read_scalars :: "bool \<Rightarrow> MessageStatement list \<Rightarrow> gvalue res list list \<Rightarrow> go_error option \<Rightarrow> MessageResult list res" where
  "read_scalars first [] sets err = (case err of Some e \<Rightarrow> Inl e | None \<Rightarrow> Inr [])"
| "read_scalars first (statement # statements) sets err =
     (if \<not> returnsScalar statement
      then bindR (read_scalars first statements sets err) (\<lambda>results. Inr (noResult # results))
      else if \<not> first \<and> length sets \<le> 1 then Inl (case err of Some e \<Rightarrow> e | None \<Rightarrow> PlainError ''sqlserver: the message returned no result for a statement'')
      else let current = (if first then sets else tl sets) in
        (case current of
           (value' # _) # _ \<Rightarrow>
             bindR value' (\<lambda>v. bindR (integerOf v) (\<lambda>scalar.
               bindR (read_scalars False statements current err) (\<lambda>results. Inr (scalar_result statement scalar # results))))
         | _ \<Rightarrow> Inl (case err of Some e \<Rightarrow> e | None \<Rightarrow> PlainError ''sqlserver: a statement returned no row'')))"

definition readScalars :: "response \<Rightarrow> MessageStatement list \<Rightarrow> MessageResult list res" where
  "readScalars rows statements = read_scalars True statements (rp_sets rows) (rp_error rows)"

definition named_args :: "args \<Rightarrow> gvalue db_arg list" where
  "named_args args = map (\<lambda>(name, v). NamedArg name v) args"

definition sent_args :: "gvalue db_arg list \<Rightarrow> args" where
  "sent_args args = map (\<lambda>a. (arg_name a, arg_value a)) args"

definition sendText :: "'d executor \<Rightarrow> MessageStatement list \<Rightarrow> 'd \<Rightarrow> MessageResult list res \<times> 'd" where
  "sendText exec statements d =
     (case joinMessage (map (\<lambda>st. (mst_sql st, named_args (mst_args st))) statements) of
        Inl e \<Rightarrow> (Inl e, d)
      | Inr (out, args) \<Rightarrow>
          if \<not> readsAnyResult statements
          then (case mx_Exec exec out (sent_args args) d of
                  (Inl e, d') \<Rightarrow> (Inl e, d')
                | (Inr _, d') \<Rightarrow> (Inr (map (\<lambda>_. noResult) statements), d'))
          else (case mx_Query exec out (sent_args args) d of
                  (Inl e, d') \<Rightarrow> (Inl e, d')
                | (Inr rows, d') \<Rightarrow> (readScalars rows statements, d')))"

definition joins :: "MessageStatement \<Rightarrow> bool" where
  "joins statement \<longleftrightarrow> mst_result statement \<noteq> ResultDriverCount"

function SendMessage_texts :: "'d executor \<Rightarrow> MessageStatement list \<Rightarrow> 'd \<Rightarrow> MessageResult list res \<times> 'd" where
  "SendMessage_texts exec [] d = (Inr [], d)"
| "SendMessage_texts exec (statement # statements) d =
     (if joins statement
      then (case sendText exec (takeWhile joins (statement # statements)) d of
              (Inl e, d') \<Rightarrow> (Inl e, d')
            | (Inr results, d') \<Rightarrow>
                (case SendMessage_texts exec (dropWhile joins (statement # statements)) d' of
                   (Inl e, d'') \<Rightarrow> (Inl e, d'')
                 | (Inr rest, d'') \<Rightarrow> (Inr (results @ rest), d'')))
      else (case mx_Exec exec (mst_sql statement) (mst_args statement) d of
              (Inl e, d') \<Rightarrow> (Inl e, d')
            | (Inr (Inl e), d') \<Rightarrow> (Inl e, d')
            | (Inr (Inr affected), d') \<Rightarrow>
                (case SendMessage_texts exec statements d' of
                   (Inl e, d'') \<Rightarrow> (Inl e, d'')
                 | (Inr rest, d'') \<Rightarrow> (Inr (noResult\<lparr>mr_Affected := affected\<rparr> # rest), d''))))"
  by pat_completeness auto
termination
  by (relation "measure (\<lambda>(exec, statements, d). length statements)") (auto simp: less_Suc_eq_le length_dropWhile_le)

text \<open>A response with one one-row set for each statement that returns a scalar is read in statement order, a set to a statement.\<close>

lemma read_scalars_in_order:
  "list_all (\<lambda>v. is_ok (integerOf v)) vs \<Longrightarrow> length vs = length (filter returnsScalar statements) \<Longrightarrow>
   \<exists>results. read_scalars first statements ((if first then [] else [used]) @ map (\<lambda>v. [Inr v]) vs) None = Inr results \<and>
     length results = length statements \<and>
     map fst (filter (\<lambda>(r, st). returnsScalar st) (zip results statements)) =
       map2 (\<lambda>st v. scalar_result st (case integerOf v of Inr i \<Rightarrow> i | Inl e \<Rightarrow> 0)) (filter returnsScalar statements) vs"
proof (induction statements arbitrary: vs first used)
  case (Cons statement statements)
  show ?case
  proof (cases "returnsScalar statement")
    case False
    then show ?thesis
      using Cons.IH [of vs first used] Cons.prems by auto
  next
    case True
    then obtain v vs' where vs: "vs = v # vs'"
      using Cons.prems(2) by (cases vs) auto
    obtain i where "integerOf v = Inr i"
      using Cons.prems(1) vs by (auto simp: is_ok_iff)
    then show ?thesis
      using Cons.IH [of vs' False "[Inr v]"] Cons.prems True by (auto simp: vs)
  qed
qed simp

lemma read_scalars_length: "read_scalars first statements sets err = Inr results \<Longrightarrow> length results = length statements"
  by (induction first statements sets err arbitrary: results rule: read_scalars.induct)
    (auto simp: Let_def bindR_Inr_iff split: if_splits list.splits option.splits)

lemma sendText_length: "sendText exec statements d = (Inr results, d') \<Longrightarrow> length results = length statements"
  by (auto simp: sendText_def readScalars_def dest: read_scalars_length split: sum.splits prod.splits if_splits)

lemma SendMessage_texts_length: "SendMessage_texts exec statements d = (Inr results, d') \<Longrightarrow> length results = length statements"
proof (induction exec statements d arbitrary: results d' rule: SendMessage_texts.induct)
  case (2 exec statement statements d)
  show ?case
  proof (cases "joins statement")
    case True
    then obtain r1 d1 r2 where "sendText exec (takeWhile joins (statement # statements)) d = (Inr r1, d1)"
      and "SendMessage_texts exec (dropWhile joins (statement # statements)) d1 = (Inr r2, d')" and "results = r1 @ r2"
      using "2.prems" by (auto split: prod.splits sum.splits)
    moreover have "length r1 = length (takeWhile joins (statement # statements))"
      using calculation(1) by (rule sendText_length)
    moreover have "length r2 = length (dropWhile joins (statement # statements))"
      using "2.IH"(1) [OF True calculation(1) [symmetric] refl calculation(2)] .
    ultimately show ?thesis
      by (metis length_append takeWhile_dropWhile_id)
  next
    case False
    then show ?thesis
      using "2.IH"(2) "2.prems" by (fastforce split: prod.splits sum.splits)
  qed
qed simp

end
