(* ===== verification/Query_Ast.thy ===== *)
theory Query_Ast
  imports Dialects Program
begin

text \<open>
  The criteria query as data (\<open>internal/core/query_ast.go\<close>) and its rendering
  (\<open>internal/render/ansi_select_renderer.go\<close>): explicit columns, predicates, joins, orderings and paging, every
  value bound through a callback that answers with its placeholder. The callback is a program over the state the
  caller gives it; the criteria chain and the loaders give it the list of the arguments bound so far
  (\<open>renderAndRunSelect\<close> of \<open>db.go\<close>).
\<close>

section \<open>The query\<close>

datatype SortOrder = Asc | Desc

definition SortOrder_Token :: "SortOrder \<Rightarrow> string" where
  "SortOrder_Token order = (if order = Desc then ''desc'' else ''asc'')"

record Ordering =
  or_Property :: string
  or_Order :: SortOrder

record JoinPair =
  jp_ParentProperty :: string
  jp_TargetProperty :: string

record SelectJoin =
  sj_Target :: EntityMap
  sj_Alias :: string
  sj_ParentAlias :: string
  sj_On :: "JoinPair list"
  sj_Project :: bool

text \<open>A nil interface value among the criteria is the case no factory builds.\<close>

datatype criteria =
    Comparison string string gvalue
  | InList string "gvalue list"
  | NullCheck string bool
  | Composite string "criteria list"
  | Negation criteria
  | SubqueryMembership "string list" SelectAst
  | NilCriteria
and SelectAst =
  SelectAst (ast_Map: EntityMap) (ast_Where: "criteria list") (ast_Orderings: "Ordering list") (ast_Limit: "int option")
    (ast_Offset: "int option") (ast_Projection: "PropertyMap list option") (ast_Joins: "SelectJoin list")

text \<open>The factories. A value of another type than the property's is the converter's to refuse.\<close>

definition InSelect :: "string list \<Rightarrow> SelectAst \<Rightarrow> criteria" where "InSelect properties subquery = SubqueryMembership properties subquery"

definition Eq :: "string \<Rightarrow> gvalue \<Rightarrow> criteria" where "Eq property v = Comparison property ''='' v"

definition Ne :: "string \<Rightarrow> gvalue \<Rightarrow> criteria" where "Ne property v = Comparison property ''<>'' v"

definition Gt :: "string \<Rightarrow> gvalue \<Rightarrow> criteria" where "Gt property v = Comparison property ''>'' v"

definition Ge :: "string \<Rightarrow> gvalue \<Rightarrow> criteria" where "Ge property v = Comparison property ''>='' v"

definition Lt :: "string \<Rightarrow> gvalue \<Rightarrow> criteria" where "Lt property v = Comparison property ''<'' v"

definition Le :: "string \<Rightarrow> gvalue \<Rightarrow> criteria" where "Le property v = Comparison property ''<='' v"

definition Like :: "string \<Rightarrow> string \<Rightarrow> criteria" where "Like property pattern = Comparison property ''like'' (VString pattern)"

definition In_values :: "string \<Rightarrow> gvalue list \<Rightarrow> criteria" where "In_values property vs = InList property vs"

definition IsNull :: "string \<Rightarrow> criteria" where "IsNull property = NullCheck property False"

definition IsNotNull :: "string \<Rightarrow> criteria" where "IsNotNull property = NullCheck property True"

definition And_all :: "criteria list \<Rightarrow> criteria" where "And_all cs = Composite ''and'' cs"

definition Or_any :: "criteria list \<Rightarrow> criteria" where "Or_any cs = Composite ''or'' cs"

definition Not_criteria :: "criteria \<Rightarrow> criteria" where "Not_criteria c = Negation c"

section \<open>Rendering\<close>

text \<open>\<open>Resolve\<close>: the exact name, else the one name that fits in another case.\<close>

definition Resolve :: "EntityMap \<Rightarrow> string \<Rightarrow> string \<Rightarrow> PropertyMap res" where
  "Resolve m property queryName =
     (case find (\<lambda>p. PropertyName p = property) (Properties m) of
        Some p \<Rightarrow> Inr p
      | None \<Rightarrow>
          (case filter (\<lambda>p. EqualFold (PropertyName p) property) (Properties m) of
             [p] \<Rightarrow> Inr p
           | _ \<Rightarrow> Inl (OrmError ''QRY-006'' queryName)))"

definition aliasQualifiedColumn :: "Dialect \<Rightarrow> string \<Rightarrow> string \<Rightarrow> string" where
  "aliasQualifiedColumn d alias columnName =
     (if alias = [] then QuoteIdentifier d columnName else alias @ ''.'' @ QuoteIdentifier d columnName)"

definition column :: "EntityMap \<Rightarrow> string \<Rightarrow> string \<Rightarrow> Dialect \<Rightarrow> string \<Rightarrow> string res" where
  "column m property queryName d rootAlias =
     bindR (Resolve m property queryName) (\<lambda>p. Inr (aliasQualifiedColumn d rootAlias (ColumnName p)))"

fun requiresExistsRewriteNode :: "Dialect \<Rightarrow> criteria \<Rightarrow> bool" where
  "requiresExistsRewriteNode d (SubqueryMembership properties subquery) \<longleftrightarrow> length properties > 1 \<and> \<not> SupportsRowValueIn d"
| "requiresExistsRewriteNode d (Composite operator children) \<longleftrightarrow> (\<exists>c \<in> set children. requiresExistsRewriteNode d c)"
| "requiresExistsRewriteNode d (Negation inner) \<longleftrightarrow> requiresExistsRewriteNode d inner"
| "requiresExistsRewriteNode d c \<longleftrightarrow> False"

definition requiresExistsRewrite :: "criteria list \<Rightarrow> Dialect \<Rightarrow> bool" where
  "requiresExistsRewrite where' d \<longleftrightarrow> (\<exists>c \<in> set where'. requiresExistsRewriteNode d c)"

text \<open>The alias a join's parent goes by, and its map: the root, or the last join declared under that alias.\<close>

definition join_parent :: "SelectAst \<Rightarrow> SelectJoin \<Rightarrow> (string \<times> EntityMap) option" where
  "join_parent ast j =
     (if sj_ParentAlias j = [] then Some (''t'', ast_Map ast)
      else map_option (\<lambda>m. (sj_ParentAlias j, m)) (map_of (rev (map (\<lambda>j. (sj_Alias j, sj_Target j)) (ast_Joins ast))) (sj_ParentAlias j)))"

definition render_pair :: "Dialect \<Rightarrow> string \<Rightarrow> SelectJoin \<Rightarrow> string \<Rightarrow> EntityMap \<Rightarrow> JoinPair \<Rightarrow> string res" where
  "render_pair d queryName j parentAlias parentMap pair =
     bindR (Resolve parentMap (jp_ParentProperty pair) queryName) (\<lambda>parentProperty.
     bindR (Resolve (sj_Target j) (jp_TargetProperty pair) queryName) (\<lambda>targetProperty.
       Inr (sj_Alias j @ ''.'' @ QuoteIdentifier d (ColumnName targetProperty) @ '' = '' @ parentAlias @ ''.'' @ QuoteIdentifier d (ColumnName parentProperty))))"

definition render_join :: "Dialect \<Rightarrow> string \<Rightarrow> SelectAst \<Rightarrow> SelectJoin \<Rightarrow> string res" where
  "render_join d queryName ast j =
     (case join_parent ast j of
        None \<Rightarrow> Inl (OrmError ''QRY-006'' queryName)
      | Some (parentAlias, parentMap) \<Rightarrow>
          bindR (res_map (render_pair d queryName j parentAlias parentMap) (sj_On j)) (\<lambda>pairs.
            Inr (QuoteIdentifier d (RelationName (sj_Target j)) @ '' '' @ sj_Alias j @ '' on '' @ join '' and '' pairs)))"

definition renderJoins :: "SelectAst \<Rightarrow> Dialect \<Rightarrow> string \<Rightarrow> string list res" where
  "renderJoins ast d queryName = res_map (render_join d queryName ast) (ast_Joins ast)"

definition query_name :: "EntityMap \<Rightarrow> string" where
  "query_name m = EntityName m @ '' criteria''"

definition root_alias :: "Dialect \<Rightarrow> SelectAst \<Rightarrow> string" where
  "root_alias d ast = (if ast_Joins ast \<noteq> [] \<or> requiresExistsRewrite (ast_Where ast) d then ''t'' else [])"

definition projected_properties :: "SelectAst \<Rightarrow> PropertyMap list" where
  "projected_properties ast = (case ast_Projection ast of Some ps \<Rightarrow> ps | None \<Rightarrow> Properties (ast_Map ast))"

definition select_columns :: "Dialect \<Rightarrow> SelectAst \<Rightarrow> string list" where
  "select_columns d ast =
     map (\<lambda>p. aliasQualifiedColumn d (root_alias d ast) (ColumnName p) @
            (if ast_Joins ast \<noteq> [] then '' as '' @ QuoteIdentifier d (root_alias d ast @ ''_'' @ ColumnName p) else []))
       (projected_properties ast) @
     concat (map (\<lambda>j. if sj_Project j
                      then map (\<lambda>p. sj_Alias j @ ''.'' @ QuoteIdentifier d (ColumnName p) @ '' as '' @ QuoteIdentifier d (sj_Alias j @ ''_'' @ ColumnName p))
                             (Properties (sj_Target j))
                      else []) (ast_Joins ast))"

definition select_head :: "Dialect \<Rightarrow> SelectAst \<Rightarrow> string" where
  "select_head d ast =
     ''select '' @ join '', '' (select_columns d ast) @ '' from '' @ QuoteIdentifier d (RelationName (ast_Map ast)) @
     (if root_alias d ast \<noteq> [] then '' '' @ root_alias d ast else [])"

definition select_joins :: "Dialect \<Rightarrow> SelectAst \<Rightarrow> string res" where
  "select_joins d ast =
     (if ast_Joins ast = [] then Inr []
      else bindR (renderJoins ast d (query_name (ast_Map ast))) (\<lambda>clauses. Inr (concat (map (\<lambda>c. '' left join '' @ c) clauses))))"

definition render_ordering :: "Dialect \<Rightarrow> SelectAst \<Rightarrow> Ordering \<Rightarrow> string res" where
  "render_ordering d ast o' =
     bindR (Resolve (ast_Map ast) (or_Property o') (query_name (ast_Map ast))) (\<lambda>property.
       Inr (aliasQualifiedColumn d (root_alias d ast) (ColumnName property) @ (if or_Order o' = Desc then '' desc'' else [])))"

definition select_orderings :: "Dialect \<Rightarrow> SelectAst \<Rightarrow> string res" where
  "select_orderings d ast =
     (if ast_Orderings ast = [] then Inr []
      else bindR (res_map (render_ordering d ast) (ast_Orderings ast)) (\<lambda>parts. Inr ('' order by '' @ join '', '' parts)))"

section \<open>Binding\<close>

text \<open>\<open>BindCriteriaParameter\<close>: a program over the binder's own state.\<close>

type_synonym 's bind_fn = "gvalue \<Rightarrow> PropertyMap option \<Rightarrow> ('s, string) prog"

fun mapP :: "('a \<Rightarrow> ('s, 'b) prog) \<Rightarrow> 'a list \<Rightarrow> ('s, 'b list) prog" where
  "mapP f [] = retP []"
| "mapP f (x # xs) = bindP (f x) (\<lambda>y. bindP (mapP f xs) (\<lambda>ys. retP (y # ys)))"

lemma mapP_cong [fundef_cong]: "xs = ys \<Longrightarrow> (\<And>x. x \<in> set ys \<Longrightarrow> f x = g x) \<Longrightarrow> mapP f xs = mapP g ys"
  by (induction ys arbitrary: xs) auto

definition bind_paging :: "'s bind_fn \<Rightarrow> int option \<Rightarrow> ('s, string) prog" where
  "bind_paging bind n = (case n of None \<Rightarrow> retP [] | Some i \<Rightarrow> bind (VInt Int64 i) None)"

definition select_paging :: "Dialect \<Rightarrow> 's bind_fn \<Rightarrow> SelectAst \<Rightarrow> ('s, string) prog" where
  "select_paging d bind ast =
     (if ast_Limit ast = None \<and> ast_Offset ast = None then retP []
      else bindP (bind_paging bind (ast_Limit ast)) (\<lambda>limitParameter.
           bindP (bind_paging bind (ast_Offset ast)) (\<lambda>offsetParameter.
             let clause = LimitOffsetClause d limitParameter offsetParameter in
             retP ((if ast_Orderings ast = [] \<and> PagingRequiresOrderBy d then '' order by (select null)'' else []) @
                   (if clause \<noteq> [] then '' '' @ clause else [])))))"

text \<open>The subquery of a membership: an unpaged one drops its orderings where they need paging.\<close>

definition unordered_subquery :: "Dialect \<Rightarrow> SelectAst \<Rightarrow> SelectAst" where
  "unordered_subquery d ast =
     (if PagingRequiresOrderBy d \<and> ast_Limit ast = None \<and> ast_Offset ast = None \<and> ast_Orderings ast \<noteq> []
      then SelectAst (ast_Map ast) (ast_Where ast) [] (ast_Limit ast) (ast_Offset ast) (ast_Projection ast) (ast_Joins ast)
      else ast)"

definition membership_text :: "Dialect \<Rightarrow> string \<Rightarrow> string \<Rightarrow> PropertyMap list \<Rightarrow> SelectAst \<Rightarrow> string \<Rightarrow> string res" where
  "membership_text d queryName rootAlias properties subquery subquerySQL =
     (let columns = map (\<lambda>p. aliasQualifiedColumn d rootAlias (ColumnName p)) properties;
          alias = (if rootAlias = [] then ''t'' else rootAlias);
          projected = projected_properties subquery
      in case columns of
           [c] \<Rightarrow> Inr (c @ '' in ('' @ subquerySQL @ '')'')
         | _ \<Rightarrow>
             if SupportsRowValueIn d then Inr (''('' @ join '', '' columns @ '') in ('' @ subquerySQL @ '')'')
             else if length projected \<noteq> length properties then Inl (OrmError ''QRY-006'' queryName)
             else Inr (''exists (select 1 from ('' @ subquerySQL @ '') s where '' @
                    join '' and '' (map (\<lambda>(q, p). ''s.'' @ QuoteIdentifier d (ColumnName q) @ '' = '' @ alias @ ''.'' @ QuoteIdentifier d (ColumnName p))
                      (zip projected properties)) @ '')''))"

definition negative :: "int option \<Rightarrow> bool" where
  "negative n = (case n of Some i \<Rightarrow> i < 0 | None \<Rightarrow> False)"

text \<open>A list with one predicate renders it bare; a longer one is a conjunction.\<close>

definition where_predicate :: "criteria list \<Rightarrow> criteria" where
  "where_predicate cs = (case cs of [c] \<Rightarrow> c | _ \<Rightarrow> And_all cs)"

text \<open>A query is larger than the predicate its where list renders as.\<close>

lemma size_unordered [simp]: "size (unordered_subquery d ast) = size ast"
  by (cases ast) (simp add: unordered_subquery_def)

lemma size_where_predicate: "ast_Where ast \<noteq> [] \<Longrightarrow> size (where_predicate (ast_Where ast)) \<le> size ast"
  by (cases ast) (auto simp: where_predicate_def And_all_def split: list.splits)

lemma size_child: "c \<in> set cs \<Longrightarrow> size c < size (Composite operator cs)"
  by (induction cs) (auto simp: less_Suc_eq_le)

function renderCriteria :: "Dialect \<Rightarrow> 's bind_fn \<Rightarrow> EntityMap \<Rightarrow> string \<Rightarrow> string \<Rightarrow> criteria \<Rightarrow> ('s, string) prog"
  and SelectSQL :: "Dialect \<Rightarrow> 's bind_fn \<Rightarrow> SelectAst \<Rightarrow> ('s, string) prog" where
  "renderCriteria d bind m queryName rootAlias (Comparison name operator v) =
     (if v = VNil
      then bindP (liftR (column m name queryName d rootAlias)) (\<lambda>col.
             if operator = ''='' then retP (col @ '' is null'')
             else if operator = ''<>'' then retP (col @ '' is not null'')
             else failP (OrmError ''QRY-007'' queryName))
      else bindP (liftR (Resolve m name queryName)) (\<lambda>property.
           bindP (liftR (column m name queryName d rootAlias)) (\<lambda>col.
           bindP (bind v (Some property)) (\<lambda>placeholder.
             retP (col @ '' '' @ operator @ '' '' @ placeholder)))))"
| "renderCriteria d bind m queryName rootAlias (InList name vs) =
     (if vs = [] then bindP (liftR (Resolve m name queryName)) (\<lambda>_. retP ''1 = 0'')
      else if VNil \<in> set vs then failP (OrmError ''QRY-007'' queryName)
      else bindP (liftR (Resolve m name queryName)) (\<lambda>property.
           bindP (liftR (column m name queryName d rootAlias)) (\<lambda>col.
           bindP (mapP (\<lambda>v. bind v (Some property)) vs) (\<lambda>placeholders.
             retP (col @ '' in ('' @ join '', '' placeholders @ '')'')))))"
| "renderCriteria d bind m queryName rootAlias (NullCheck name negated) =
     bindP (liftR (column m name queryName d rootAlias)) (\<lambda>col.
       retP (col @ (if negated then '' is not null'' else '' is null'')))"
| "renderCriteria d bind m queryName rootAlias (Composite operator children) =
     (if children = [] then retP (if operator = ''and'' then ''1 = 1'' else ''1 = 0'')
      else bindP (mapP (\<lambda>c. renderCriteria d bind m queryName rootAlias c) children) (\<lambda>parts.
             retP (''('' @ join ('' '' @ operator @ '' '') parts @ '')'')))"
| "renderCriteria d bind m queryName rootAlias (Negation inner) =
     bindP (renderCriteria d bind m queryName rootAlias inner) (\<lambda>s. retP (''not '' @ s))"
| "renderCriteria d bind m queryName rootAlias (SubqueryMembership names subquery) =
     bindP (liftR (res_map (\<lambda>name. Resolve m name queryName) names)) (\<lambda>properties.
     bindP (SelectSQL d bind (unordered_subquery d subquery)) (\<lambda>subquerySQL.
       liftR (membership_text d queryName rootAlias properties subquery subquerySQL)))"
| "renderCriteria d bind m queryName rootAlias NilCriteria = failP (OrmError ''QRY-006'' queryName)"
| "SelectSQL d bind ast =
     (if negative (ast_Limit ast) \<or> negative (ast_Offset ast)
      then failP (OrmError ''QRY-008'' (query_name (ast_Map ast)))
      else bindP (liftR (select_joins d ast)) (\<lambda>joins.
           bindP (if ast_Where ast = [] then retP []
                  else bindP (renderCriteria d bind (ast_Map ast) (query_name (ast_Map ast)) (root_alias d ast) (where_predicate (ast_Where ast)))
                         (\<lambda>s. retP ('' where '' @ s))) (\<lambda>predicate.
           bindP (liftR (select_orderings d ast)) (\<lambda>orderings.
           bindP (select_paging d bind ast) (\<lambda>paging.
             retP (select_head d ast @ joins @ predicate @ orderings @ paging))))))"
  by pat_completeness auto

termination
  by (relation "measure (\<lambda>x. case x of Inl (d, bind, m, queryName, rootAlias, c) \<Rightarrow> 2 * size c | Inr (d, bind, ast) \<Rightarrow> 2 * size ast + 1)")
    (auto dest: size_child [where operator = "[]"] simp: size_where_predicate less_Suc_eq_le)

declare SelectSQL.simps [simp del]

end
