(* ===== verification/Query_Text.thy ===== *)
theory Query_Text
  imports Query_Ast Message_Text
begin

text \<open>
  The text of a rendered query: which placeholders the scanner finds in it. A text is \<open>quiet\<close> when the scanner
  reads it as it stands; \<open>spells\<close> says of a fragment that it adds just the given placeholders wherever it is
  followed by no character of a name.
\<close>

section \<open>Fragments\<close>

fun quiet :: "string \<Rightarrow> bool" where
  "quiet [] = True"
| "quiet (c # s) \<longleftrightarrow> c \<notin> {apostrophe, CHR ''@'', CHR ''/''} \<and> (c = CHR ''-'' \<longrightarrow> s \<noteq> [] \<and> hd s \<noteq> CHR ''-'') \<and> quiet s"

definition ends_name :: "string \<Rightarrow> bool" where
  "ends_name t \<longleftrightarrow> t = [] \<or> \<not> is_word_char (hd t)"

lemma ends_name_simps [simp]: "ends_name []" "ends_name (c # s) \<longleftrightarrow> \<not> is_word_char c"
  by (simp_all add: ends_name_def)

lemma not_word: "\<not> is_word_char (CHR '' '')" "\<not> is_word_char (CHR '')'')" "\<not> is_word_char (CHR '','')"
  by (simp_all add: is_word_char_def)

definition spells :: "string \<Rightarrow> string set \<Rightarrow> bool" where
  "spells s names \<longleftrightarrow>
     (\<forall>t. ends_name t \<longrightarrow>
        set (hole_names (pieces Outside False (s @ t))) = names \<union> set (hole_names (pieces Outside False t)) \<and>
        ends_in Outside (s @ t) = ends_in Outside t)"

lemma quiet_append: "quiet s \<Longrightarrow> quiet t \<Longrightarrow> quiet (s @ t)"
  by (induction s) auto

lemma quiet_pieces: "quiet s \<Longrightarrow> pieces Outside False (s @ t) = map Raw s @ pieces Outside False t"
  by (induction s) (auto simp: neq_Nil_conv)

lemma quiet_ends: "quiet s \<Longrightarrow> ends_in Outside (s @ t) = ends_in Outside t"
  by (induction s) (auto simp: neq_Nil_conv)

lemma spells_quiet_append: "quiet s \<Longrightarrow> spells s' names \<Longrightarrow> spells (s @ s') names"
  by (simp add: spells_def quiet_pieces quiet_ends)

lemma spells_quiet: "quiet s \<Longrightarrow> spells s {}"
  by (simp add: spells_def quiet_pieces quiet_ends)

lemma ends_name_append: "ends_name s \<Longrightarrow> ends_name t \<Longrightarrow> ends_name (s @ t)"
  by (cases s) (auto simp: ends_name_def)

lemma ends_name_concat: "\<forall>s \<in> set ss. ends_name s \<Longrightarrow> ends_name (concat ss)"
  by (induction ss) (auto intro!: ends_name_append)

lemma spells_Nil: "spells [] names \<longleftrightarrow> names = {}"
  by (auto simp: spells_def dest: spec [of _ "[]"])

lemma spells_append:
  assumes "spells s names" and "spells s' names'" and "ends_name s'"
  shows "spells (s @ s') (names \<union> names')"
  using assms ends_name_append [OF assms(3)] by (simp add: spells_def Un_assoc)

lemma spells_char: "c \<notin> {apostrophe, CHR ''@'', CHR ''/'', CHR ''-''} \<Longrightarrow> spells s names \<Longrightarrow> spells (c # s) names"
  using spells_quiet_append [of "[c]" s names] by simp

lemma spells_dash: "quiet [c] \<Longrightarrow> spells s names \<Longrightarrow> spells (CHR ''-'' # c # s) names"
  using spells_quiet_append [of "[CHR ''-'', c]" s names] by simp

lemma spells_placeholder:
  assumes "list_all is_word_char (c # name)" and "is_name_start c"
  shows "spells (CHR ''@'' # c # name) {c # name}"
proof -
  have "takeWhile is_word_char (name @ t) = name \<and> dropWhile is_word_char (name @ t) = t" if "ends_name t" for t
    using that assms(1) by (intro span_append) (auto simp: ends_name_def list_all_iff)
  then have "pieces Outside False (CHR ''@'' # c # name @ t) = Hole (c # name) # pieces Outside False t" if "ends_name t" for t
    using that assms by simp
  moreover have "ends_in Outside (CHR ''@'' # c # name @ t) = ends_in Outside t" for t
    using ends_word [OF assms(1), of t] by simp
  ultimately show ?thesis
    by (simp add: spells_def)
qed

lemma join_step: "join sep (x # xs) = (if xs = [] then x else x @ sep @ join sep xs)"
  by (cases xs) simp_all

lemma quiet_join: "quiet sep \<Longrightarrow> \<forall>s \<in> set ss. quiet s \<Longrightarrow> quiet (join sep ss)"
  by (induction ss) (auto simp: join_step intro!: quiet_append)

lemma quiet_concat: "\<forall>s \<in> set ss. quiet s \<Longrightarrow> quiet (concat ss)"
  by (induction ss) (auto intro!: quiet_append)

lemma spells_join:
  "list_all2 spells ss nss \<Longrightarrow> quiet sep \<Longrightarrow> ends_name sep \<Longrightarrow> sep \<noteq> [] \<Longrightarrow> spells (join sep ss) (\<Union> (set nss))"
proof (induction ss nss rule: list_all2_induct)
  case Nil
  show ?case
    by (simp add: spells_def)
next
  case (Cons s ss ns nss)
  show ?case
  proof (cases "ss = []")
    case True
    then show ?thesis
      using Cons by (auto simp: join_step)
  next
    case False
    have "spells (s @ sep @ join sep ss) (ns \<union> \<Union> (set nss))"
      using Cons by (intro spells_append spells_quiet_append) (auto simp: ends_name_def)
    then show ?thesis
      using False by (simp add: join_step)
  qed
qed

text \<open>The whole text: its placeholders, and that another statement can follow it.\<close>

lemma spells_text: "spells s names \<Longrightarrow> set (FindPlaceholders s) = names \<and> self_contained s"
  unfolding spells_def by (drule spec [of _ "[]"]) (simp add: ends_name_def FindPlaceholders_names self_contained_def)

end
