(* ===== verification/Query_Binding.thy ===== *)
theory Query_Binding
  imports Query_Text
begin

text \<open>
  How a query is bound and sent (\<open>renderAndRunSelect\<close> of \<open>db.go\<close>): its values become the parameters \<open>c0\<close>, \<open>c1\<close>, and so on,
  in render order, whatever the nesting of subqueries; nothing of a value reaches the text. \<open>query_dialect\<close> is
  what the renderer needs of a dialect for that: quoting keeps a name free of literals, comments and
  placeholders, and the paging clause names its parameters; the three dialects provide it.
\<close>

section \<open>The bind callback\<close>

definition criteriaName :: "nat \<Rightarrow> string" where
  "criteriaName i = ''c'' @ show_nat i"

definition criteriaPlaceholder :: "nat \<Rightarrow> string" where
  "criteriaPlaceholder i = ''@'' @ criteriaName i"

definition criteria_bind :: "to_database \<Rightarrow> string \<Rightarrow> args bind_fn" where
  "criteria_bind conv queryName v property b =
     (let name = criteriaName (length b);
          columnType = (case property of Some p \<Rightarrow> ColumnType p | None \<Rightarrow> [])
      in case conv v columnType (queryName @ '' @'' @ name) of
           Inl e \<Rightarrow> (Inl e, b)
         | Inr converted \<Rightarrow> (Inr (criteriaPlaceholder (length b)), b @ [(name, converted)]))"

definition renderAndRunSelect ::
  "Dialect \<Rightarrow> to_database \<Rightarrow> (string \<Rightarrow> args \<Rightarrow> 'd \<Rightarrow> 'r res \<times> 'd) \<Rightarrow> SelectAst \<Rightarrow> string \<Rightarrow> 'd \<Rightarrow> 'r res \<times> 'd" where
  "renderAndRunSelect d conv query ast queryName s =
     (case SelectSQL d (criteria_bind conv queryName) ast [] of
        (Inl e, b) \<Rightarrow> (Inl e, s)
      | (Inr sqlText, b) \<Rightarrow> query sqlText b s)"

section \<open>The values of a query\<close>

text \<open>The values a query binds, each with the column type it is converted for.\<close>

definition type_of_property :: "EntityMap \<Rightarrow> string \<Rightarrow> string" where
  "type_of_property m name = (case Resolve m name [] of Inr p \<Rightarrow> ColumnType p | Inl e \<Rightarrow> [])"

fun criteria_values :: "EntityMap \<Rightarrow> criteria \<Rightarrow> (gvalue \<times> string) list" and ast_values :: "SelectAst \<Rightarrow> (gvalue \<times> string) list" where
  "criteria_values m (Comparison name operator v) = (if v = VNil then [] else [(v, type_of_property m name)])"
| "criteria_values m (InList name vs) = map (\<lambda>v. (v, type_of_property m name)) vs"
| "criteria_values m (NullCheck name negated) = []"
| "criteria_values m (Composite operator children) = concat (map (criteria_values m) children)"
| "criteria_values m (Negation inner) = criteria_values m inner"
| "criteria_values m (SubqueryMembership names subquery) = ast_values subquery"
| "criteria_values m NilCriteria = []"
| "ast_values (SelectAst m cs orderings limit offset projection js) =
     concat (map (criteria_values m) cs) @ map (\<lambda>n. (VInt Int64 n, [])) (case limit of Some n \<Rightarrow> [n] | None \<Rightarrow> []) @
     map (\<lambda>n. (VInt Int64 n, [])) (case offset of Some n \<Rightarrow> [n] | None \<Rightarrow> [])"

text \<open>A query whose names and operators are plain: no apostrophe, at sign, slash or double dash in them.\<close>

definition plain_map :: "EntityMap \<Rightarrow> bool" where
  "plain_map m \<longleftrightarrow> quiet (RelationName m) \<and> (\<forall>p \<in> set (Properties m). quiet (ColumnName p))"

definition plain_join :: "SelectJoin \<Rightarrow> bool" where
  "plain_join j \<longleftrightarrow> plain_map (sj_Target j) \<and> quiet (sj_Alias j)"

fun plain_criteria :: "criteria \<Rightarrow> bool" and plain_ast :: "SelectAst \<Rightarrow> bool" where
  "plain_criteria (Comparison name operator v) \<longleftrightarrow> quiet operator"
| "plain_criteria (Composite operator children) \<longleftrightarrow> quiet operator \<and> (\<forall>c \<in> set children. plain_criteria c)"
| "plain_criteria (Negation inner) \<longleftrightarrow> plain_criteria inner"
| "plain_criteria (SubqueryMembership names subquery) \<longleftrightarrow> plain_ast subquery"
| "plain_criteria c \<longleftrightarrow> True"
| "plain_ast (SelectAst m cs orderings limit offset projection js) \<longleftrightarrow>
     plain_map m \<and> (\<forall>c \<in> set cs. plain_criteria c) \<and>
     (\<forall>p \<in> set (case projection of Some ps \<Rightarrow> ps | None \<Rightarrow> []). quiet (ColumnName p)) \<and> (\<forall>j \<in> set js. plain_join j)"

section \<open>What a fragment binds\<close>

definition converted_by :: "to_database \<Rightarrow> gvalue \<times> string \<Rightarrow> string \<times> gvalue \<Rightarrow> bool" where
  "converted_by conv v arg \<longleftrightarrow> (\<exists>label. conv (fst v) (snd v) label = Inr (snd arg))"

definition binds :: "to_database \<Rightarrow> (gvalue \<times> string) list \<Rightarrow> args \<Rightarrow> args \<Rightarrow> string set \<Rightarrow> bool" where
  "binds conv vs b b' names \<longleftrightarrow>
     (\<exists>args. b' = b @ args \<and> map fst args = map criteriaName [length b..<length b'] \<and>
        list_all2 (converted_by conv) vs args \<and> names = set (map fst args))"

lemma binds_none: "binds conv [] b b {}"
  by (simp add: binds_def)

lemma binds_append:
  assumes "binds conv vs b b' names" and "binds conv vs' b' b'' names'"
  shows "binds conv (vs @ vs') b b'' (names \<union> names')"
proof -
  obtain args where args: "b' = b @ args" "map fst args = map criteriaName [length b..<length b']" "list_all2 (converted_by conv) vs args" "names = set (map fst args)"
    using assms(1) unfolding binds_def by (elim exE conjE) (rule that)
  obtain args' where args': "b'' = b' @ args'" "map fst args' = map criteriaName [length b'..<length b'']" "list_all2 (converted_by conv) vs' args'" "names' = set (map fst args')"
    using assms(2) unfolding binds_def by (elim exE conjE) (rule that)
  have "[length b..<length b''] = [length b..<length b'] @ [length b'..<length b'']"
    using upt_add_eq_append [of "length b" "length b'" "length args'"] by (simp add: args(1) args'(1) add.assoc)
  then have "map fst (args @ args') = map criteriaName [length b..<length b'']"
    by (simp only: map_append args(2) args'(2))
  moreover have "b'' = b @ (args @ args')" "names \<union> names' = set (map fst (args @ args'))"
    by (simp_all only: args(1,4) args'(1,4) append_assoc map_append set_append)
  moreover note list_all2_appendI [OF args(3) args'(3)]
  ultimately show ?thesis
    unfolding binds_def by blast
qed

lemma criteria_bind_binds:
  assumes "criteria_bind conv q v property b = (Inr s, b')"
  shows "\<exists>names. binds conv [(v, case property of Some p \<Rightarrow> ColumnType p | None \<Rightarrow> [])] b b' names \<and> spells s names"
proof -
  have "list_all is_word_char (criteriaName i)" for i
    by (simp add: criteriaName_def show_nat_digits) (simp add: is_word_char_def)
  then have "spells (criteriaPlaceholder (length b)) {criteriaName (length b)}"
    unfolding criteriaPlaceholder_def criteriaName_def append_Cons append_Nil
    by (intro spells_placeholder) (simp_all add: is_name_start_def)
  then show ?thesis
    using assms
    by (intro exI [where x = "{criteriaName (length b)}"]) (auto simp: criteria_bind_def binds_def converted_by_def Let_def split: sum.splits)
qed

lemma mapP_binds:
  assumes "mapP f xs b = (Inr ss, b')"
    and "\<And>x s b b'. x \<in> set xs \<Longrightarrow> f x b = (Inr s, b') \<Longrightarrow> \<exists>names. binds conv (vals x) b b' names \<and> spells s names"
  shows "\<exists>nss. binds conv (concat (map vals xs)) b b' (\<Union> (set nss)) \<and> list_all2 spells ss nss"
  using assms
proof (induction xs arbitrary: b ss)
  case Nil
  then show ?case
    by (auto simp: prog_defs binds_none intro: exI [where x = "[]"])
next
  case (Cons x xs)
  obtain s b1 ss' where s: "f x b = (Inr s, b1)" and ss': "mapP f xs b1 = (Inr ss', b')" and ss: "ss = s # ss'"
    using Cons.prems(1) by (auto simp: bindP_Inr_iff prog_defs)
  obtain names where names: "binds conv (vals x) b b1 names" "spells s names"
    using Cons.prems(2) [OF _ s] by auto
  obtain nss where "binds conv (concat (map vals xs)) b1 b' (\<Union> (set nss))" "list_all2 spells ss' nss"
    using Cons.IH [OF ss'] Cons.prems(2) by (metis list.set_intros(2))
  then show ?case
    using names binds_append [of conv "vals x" b b1 names] ss by (intro exI [where x = "names # nss"]) auto
qed

section \<open>The dialects\<close>

text \<open>A parameter of the paging clause: absent, or a text with its own placeholders.\<close>

definition paging_parameter :: "string \<Rightarrow> string set \<Rightarrow> bool" where
  "paging_parameter s names \<longleftrightarrow> spells s names \<and> (s = [] \<longrightarrow> names = {})"

locale query_dialect =
  fixes d :: Dialect
  assumes quoted: "quiet name \<Longrightarrow> quiet (QuoteIdentifier d name)"
    and paging: "paging_parameter l ls \<Longrightarrow> paging_parameter f fs \<Longrightarrow> spells (LimitOffsetClause d l f) (ls \<union> fs)"
begin

lemma quiet_qualified: "quiet al \<Longrightarrow> quiet name \<Longrightarrow> quiet (aliasQualifiedColumn d al name)"
  by (auto simp: aliasQualifiedColumn_def quoted intro!: quiet_append)

lemma quiet_root: "quiet (root_alias d ast)"
  by (simp add: root_alias_def)

lemma Resolve_mapped: "Resolve m name q = Inr p \<Longrightarrow> p \<in> set (Properties m)"
  by (auto simp: Resolve_def find_Some_iff split: option.splits list.splits) (metis filter_is_subset list.set_intros(1) subsetD)

lemma quiet_column: "plain_map m \<Longrightarrow> quiet al \<Longrightarrow> column m name q d al = Inr col \<Longrightarrow> quiet col"
  by (auto simp: column_def bindR_Inr_iff plain_map_def dest: Resolve_mapped intro!: quiet_qualified)

lemma plain_ast_simp: "plain_ast ast \<longleftrightarrow> plain_map (ast_Map ast) \<and> (\<forall>c \<in> set (ast_Where ast). plain_criteria c) \<and>
    (\<forall>p \<in> set (projected_properties ast). quiet (ColumnName p)) \<and> (\<forall>j \<in> set (ast_Joins ast). plain_join j)"
  by (cases ast) (auto simp: projected_properties_def plain_map_def split: option.splits)

lemma quiet_head: "plain_ast ast \<Longrightarrow> quiet (select_head d ast)"
  unfolding select_head_def select_columns_def plain_ast_simp plain_map_def plain_join_def
  by (auto intro!: quiet_append quiet_join quiet_qualified quoted quiet_root split: if_splits)

lemma quiet_res_map:
  assumes "res_map f xs = Inr ss" and "\<And>x s. x \<in> set xs \<Longrightarrow> f x = Inr s \<Longrightarrow> quiet s"
  shows "\<forall>s \<in> set ss. quiet s"
  using assms(2) assms(1) [unfolded res_map_Inr_iff list_all2_conv_all_nth] by (metis in_set_conv_nth)

lemma quiet_pair:
  assumes "plain_map parentMap" and "plain_join j" and "quiet parentAlias" and "render_pair d q j parentAlias parentMap pair = Inr s"
  shows "quiet s"
  using assms by (auto simp: render_pair_def bindR_Inr_iff plain_map_def plain_join_def dest!: Resolve_mapped intro!: quiet_append quoted)

lemma join_parent_plain: "plain_ast ast \<Longrightarrow> join_parent ast j = Some (al, m) \<Longrightarrow> quiet al \<and> plain_map m"
  by (auto simp: join_parent_def plain_ast_simp plain_join_def split: if_splits dest!: map_of_SomeD)

lemma quiet_joins:
  assumes "plain_ast ast" and "select_joins d ast = Inr s"
  shows "quiet s \<and> ends_name s"
proof -
  have one: "quiet s" if j: "j \<in> set (ast_Joins ast)" and run: "render_join d q ast j = Inr s" for j s q
  proof -
    have "plain_join j"
      using assms(1) j by (simp add: plain_ast_simp)
    moreover obtain parentAlias parentMap where parent: "join_parent ast j = Some (parentAlias, parentMap)"
      using run by (auto simp: render_join_def split: option.splits)
    moreover obtain pairs where "res_map (render_pair d q j parentAlias parentMap) (sj_On j) = Inr pairs"
        and s: "s = QuoteIdentifier d (RelationName (sj_Target j)) @ '' '' @ sj_Alias j @ '' on '' @ join '' and '' pairs"
      using run parent by (auto simp: render_join_def bindR_Inr_iff)
    ultimately have "\<forall>p \<in> set pairs. quiet p"
      using quiet_pair join_parent_plain [OF assms(1) parent] by (intro quiet_res_map) blast+
    with \<open>plain_join j\<close> show ?thesis
      unfolding s by (auto simp: plain_join_def plain_map_def intro!: quiet_append quiet_join quoted)
  qed
  show ?thesis
    using assms(2) one
    by (auto simp: select_joins_def renderJoins_def bindR_Inr_iff not_word
      dest!: quiet_res_map intro!: quiet_concat quiet_append ends_name_concat split: if_splits)
qed

lemma quiet_orderings:
  assumes "plain_ast ast" and "select_orderings d ast = Inr s"
  shows "quiet s \<and> ends_name s"
proof -
  have "quiet s" if "render_ordering d ast o' = Inr s" for o' s
    using that assms(1)
    by (auto simp: render_ordering_def bindR_Inr_iff plain_ast_simp plain_map_def dest!: Resolve_mapped intro!: quiet_append quiet_qualified quiet_root)
  then show ?thesis
    using assms(2)
    by (auto simp: select_orderings_def bindR_Inr_iff not_word dest!: quiet_res_map intro!: quiet_append quiet_join split: if_splits)
qed

lemma bind_paging_binds:
  assumes "bind_paging (criteria_bind conv q) n b = (Inr s, b')"
  shows "\<exists>names. binds conv (map (\<lambda>n. (VInt Int64 n, [])) (case n of Some n \<Rightarrow> [n] | None \<Rightarrow> [])) b b' names \<and> paging_parameter s names"
proof (cases n)
  case None
  then show ?thesis
    using assms binds_none by (auto simp: bind_paging_def prog_defs paging_parameter_def spells_Nil)
next
  case (Some i)
  then have run: "criteria_bind conv q (VInt Int64 i) None b = (Inr s, b')"
    using assms by (simp add: bind_paging_def)
  then have "s \<noteq> []"
    by (auto simp: criteria_bind_def criteriaPlaceholder_def Let_def split: sum.splits)
  then show ?thesis
    using criteria_bind_binds [OF run] Some by (auto simp: paging_parameter_def)
qed

lemma paging_binds:
  assumes "select_paging d (criteria_bind conv q) ast b = (Inr s, b')"
  shows "\<exists>names. binds conv (map (\<lambda>n. (VInt Int64 n, [])) (case ast_Limit ast of Some n \<Rightarrow> [n] | None \<Rightarrow> []) @
     map (\<lambda>n. (VInt Int64 n, [])) (case ast_Offset ast of Some n \<Rightarrow> [n] | None \<Rightarrow> [])) b b' names \<and> spells s names \<and> ends_name s"
proof (cases "ast_Limit ast = None \<and> ast_Offset ast = None")
  case True
  then show ?thesis
    using assms binds_none by (auto simp: select_paging_def prog_defs spells_Nil)
next
  case False
  then obtain l b1 f where l: "bind_paging (criteria_bind conv q) (ast_Limit ast) b = (Inr l, b1)"
      and f: "bind_paging (criteria_bind conv q) (ast_Offset ast) b1 = (Inr f, b')"
      and s: "s = (if ast_Orderings ast = [] \<and> PagingRequiresOrderBy d then '' order by (select null)'' else []) @
        (if LimitOffsetClause d l f \<noteq> [] then '' '' @ LimitOffsetClause d l f else [])"
    using assms by (auto simp: select_paging_def bindP_Inr_iff prog_defs Let_def split: if_splits)
  obtain ls fs where names: "binds conv (map (\<lambda>n. (VInt Int64 n, [])) (case ast_Limit ast of Some n \<Rightarrow> [n] | None \<Rightarrow> [])) b b1 ls" "paging_parameter l ls"
      "binds conv (map (\<lambda>n. (VInt Int64 n, [])) (case ast_Offset ast of Some n \<Rightarrow> [n] | None \<Rightarrow> [])) b1 b' fs" "paging_parameter f fs"
    using bind_paging_binds [OF l] bind_paging_binds [OF f] by blast
  have "spells (if LimitOffsetClause d l f \<noteq> [] then '' '' @ LimitOffsetClause d l f else []) (ls \<union> fs)"
    using paging [OF names(2,4)] by (auto intro: spells_char)
  then have "spells s (ls \<union> fs) \<and> ends_name s"
    unfolding s by (intro conjI spells_quiet_append ends_name_append) (simp_all add: not_word)
  then show ?thesis
    using binds_append [OF names(1,3)] by blast
qed

lemma where_values: "ast_Where ast \<noteq> [] \<Longrightarrow> criteria_values m (where_predicate (ast_Where ast)) = concat (map (criteria_values m) (ast_Where ast))"
  by (auto simp: where_predicate_def And_all_def split: list.splits)

lemma where_plain: "ast_Where ast \<noteq> [] \<Longrightarrow> \<forall>c \<in> set (ast_Where ast). plain_criteria c \<Longrightarrow> plain_criteria (where_predicate (ast_Where ast))"
  by (auto simp: where_predicate_def And_all_def split: list.splits)

lemma unordered_plain: "plain_ast (unordered_subquery d ast) = plain_ast ast" "ast_values (unordered_subquery d ast) = ast_values ast"
  by (cases ast; simp add: unordered_subquery_def)+

lemma ast_values_simp: "ast_values ast = concat (map (criteria_values (ast_Map ast)) (ast_Where ast)) @
    map (\<lambda>n. (VInt Int64 n, [])) (case ast_Limit ast of Some n \<Rightarrow> [n] | None \<Rightarrow> []) @ map (\<lambda>n. (VInt Int64 n, [])) (case ast_Offset ast of Some n \<Rightarrow> [n] | None \<Rightarrow> [])"
  by (cases ast) simp

lemma Resolve_query: "Resolve m name q = Inr p \<Longrightarrow> type_of_property m name = ColumnType p"
  by (auto simp: Resolve_def type_of_property_def split: option.splits list.splits)

lemma membership_spells:
  assumes "membership_text d q al properties subquery subquerySQL = Inr s" and "spells subquerySQL ns"
    and "\<forall>p \<in> set properties. quiet (ColumnName p)" and "plain_ast subquery" and "quiet al"
  shows "spells s ns"
proof -
  have around: "spells (u @ subquerySQL @ w) ns" if "quiet u" and "quiet w" and "ends_name w" for u w
    using spells_quiet_append [OF that(1) spells_append [OF assms(2) spells_quiet [OF that(2)] that(3)]] by simp
  let ?columns = "map (\<lambda>p. aliasQualifiedColumn d al (ColumnName p)) properties"
    and ?root = "if al = [] then ''t'' else al" and ?projected = "projected_properties subquery"
  let ?pairs = "map (\<lambda>(q, p). ''s.'' @ QuoteIdentifier d (ColumnName q) @ '' = '' @ ?root @ ''.'' @ QuoteIdentifier d (ColumnName p)) (zip ?projected properties)"
  have columns: "\<forall>c \<in> set ?columns. quiet c"
    using assms(3,5) by (auto intro: quiet_qualified)
  have "quiet (ColumnName q) \<and> quiet (ColumnName p)" if "(q, p) \<in> set (zip ?projected properties)" for q p
    using set_zip_leftD [OF that] set_zip_rightD [OF that] assms(3,4) by (simp add: plain_ast_simp)
  then have pairs: "\<forall>c \<in> set ?pairs. quiet c"
    using assms(5) by (auto intro!: quiet_append quoted)
  consider (single) c where "?columns = [c]" "s = (c @ '' in ('') @ subquerySQL @ '')''"
    | (row) "s = (''('' @ join '', '' ?columns @ '') in ('') @ subquerySQL @ '')''"
    | (exists') "s = ''exists (select 1 from ('' @ subquerySQL @ ('') s where '' @ join '' and '' ?pairs @ '')'')"
    using assms(1) by (auto simp: membership_text_def Let_def split: list.splits if_splits)
  then show ?thesis
  proof cases
    case single
    show ?thesis
      unfolding single(2) using columns single(1) by (intro around quiet_append) (auto simp: not_word)
  next
    case row
    show ?thesis
      unfolding row using columns by (intro around) (auto simp: not_word intro!: quiet_append quiet_join)
  next
    case exists'
    show ?thesis
      unfolding exists' using pairs by (intro around quiet_append quiet_join) (simp_all add: not_word)
  qed
qed

lemma select_steps:
  "bindP (liftR j) (\<lambda>joins. bindP w (\<lambda>predicate. bindP (liftR r) (\<lambda>orderings. bindP pg (\<lambda>paging. retP (h @ joins @ predicate @ orderings @ paging))))) b
     = (Inr s, b') \<Longrightarrow>
   \<exists>joins predicate b1 orderings paging. j = Inr joins \<and> w b = (Inr predicate, b1) \<and> r = Inr orderings \<and> pg b1 = (Inr paging, b') \<and>
     s = h @ joins @ predicate @ orderings @ paging"
  by (auto simp: bindP_Inr_iff prog_defs)

text \<open>Every fragment binds its values in order and names just their parameters.\<close>

lemma render_binds:
  "renderCriteria d' bind m q al c b = (Inr s, b') \<Longrightarrow> d' = d \<Longrightarrow> bind = criteria_bind conv query \<Longrightarrow> plain_map m \<Longrightarrow> quiet al \<Longrightarrow> plain_criteria c \<Longrightarrow>
    \<exists>names. binds conv (criteria_values m c) b b' names \<and> spells s names"
  "SelectSQL d' bind ast b = (Inr s, b') \<Longrightarrow> d' = d \<Longrightarrow> bind = criteria_bind conv query \<Longrightarrow> plain_ast ast \<Longrightarrow>
    \<exists>names. binds conv (ast_values ast) b b' names \<and> spells s names"
proof (induction d' bind m q al c and d' bind ast arbitrary: b s b' and b s b' rule: renderCriteria_SelectSQL.induct)
  case (1 d' bind m q al name operator v)
  note prems = "1.prems"
  show ?case
  proof (cases "v = VNil")
    case True
    then show ?thesis
      using prems
      by (auto simp: bindP_Inr_iff prog_defs binds_none intro!: exI [where x = "{}"] spells_quiet quiet_append dest: quiet_column split: if_splits)
  next
    case False
    then obtain property col placeholder where run: "Resolve m name q = Inr property" "column m name q d al = Inr col"
        "criteria_bind conv query v (Some property) b = (Inr placeholder, b')" and s: "s = col @ '' '' @ operator @ '' '' @ placeholder"
      using prems by (auto simp: bindP_Inr_iff prog_defs)
    obtain names where "binds conv [(v, ColumnType property)] b b' names" "spells placeholder names"
      using criteria_bind_binds [OF run(3)] by auto
    then show ?thesis
      using False prems quiet_column [OF _ _ run(2)] Resolve_query [OF run(1)]
      by (auto simp: s intro!: spells_quiet_append spells_char)
  qed
next
  case (2 d' bind m q al name vs)
  note prems = "2.prems"
  show ?case
  proof (cases "vs = []")
    case True
    then show ?thesis
      using prems by (auto simp: bindP_Inr_iff prog_defs binds_none intro!: exI [where x = "{}"] spells_quiet)
  next
    case False
    then obtain property col placeholders where run: "Resolve m name q = Inr property" "column m name q d al = Inr col"
        "mapP (\<lambda>v. criteria_bind conv query v (Some property)) vs b = (Inr placeholders, b')" and s: "s = col @ '' in ('' @ join '', '' placeholders @ '')''"
      using prems by (auto simp: bindP_Inr_iff prog_defs split: if_splits)
    obtain nss where nss: "binds conv (concat (map (\<lambda>v. [(v, ColumnType property)]) vs)) b b' (\<Union> (set nss))" "list_all2 spells placeholders nss"
      using mapP_binds [OF run(3), where vals = "\<lambda>v. [(v, ColumnType property)]" and conv = conv] criteria_bind_binds by fastforce
    have "spells s (\<Union> (set nss) \<union> {})"
      unfolding s using prems quiet_column [OF _ _ run(2)] nss(2)
      by (intro spells_quiet_append [where s = col] spells_quiet_append [where s = "'' in (''"] spells_append spells_join) (simp_all add: not_word spells_quiet)
    then show ?thesis
      using nss(1) Resolve_query [OF run(1)] by (auto simp: concat_map_singleton)
  qed
next
  case (3 d' bind m q al name negated)
  then show ?case
    by (auto simp: bindP_Inr_iff prog_defs binds_none intro!: exI [where x = "{}"] spells_quiet quiet_append dest: quiet_column)
next
  case (4 d' bind m q al operator children)
  note prems = "4.prems"
  show ?case
  proof (cases "children = []")
    case True
    then show ?thesis
      using prems by (auto simp: prog_defs binds_none intro!: exI [where x = "{}"] spells_quiet)
  next
    case False
    then obtain parts where run: "mapP (renderCriteria d bind m q al) children b = (Inr parts, b')"
        and s: "s = ''('' @ join ('' '' @ operator @ '' '') parts @ '')''"
      using prems by (auto simp: bindP_Inr_iff prog_defs)
    have "\<exists>names. binds conv (criteria_values m c) b b' names \<and> spells s names"
      if "c \<in> set children" and "renderCriteria d bind m q al c b = (Inr s, b')" for c s b b'
      using "4.IH" [OF False that(1), of b s b'] that prems by simp
    then obtain nss where nss: "binds conv (concat (map (criteria_values m) children)) b b' (\<Union> (set nss))" "list_all2 spells parts nss"
      using mapP_binds [OF run] by blast
    have "spells s (\<Union> (set nss) \<union> {})"
      unfolding s using prems nss(2)
      by (intro spells_quiet_append [where s = "''(''"] spells_append spells_join) (auto simp: not_word spells_quiet intro!: quiet_append)
    then show ?thesis
      using nss(1) by auto
  qed
next
  case (5 d' bind m q al inner)
  obtain inner' where "renderCriteria d bind m q al inner b = (Inr inner', b')" and s: "s = ''not '' @ inner'"
    using "5.prems" by (auto simp: bindP_Inr_iff prog_defs)
  then obtain names where "binds conv (criteria_values m inner) b b' names" "spells inner' names"
    using "5.IH" [of b inner' b'] "5.prems" by auto
  then show ?case
    unfolding s using spells_quiet_append [of "''not ''" inner' names] by auto
next
  case (6 d' bind m q al names subquery)
  obtain properties subquerySQL where run: "res_map (\<lambda>name. Resolve m name q) names = Inr properties"
      "SelectSQL d bind (unordered_subquery d subquery) b = (Inr subquerySQL, b')" "membership_text d q al properties subquery subquerySQL = Inr s"
    using "6.prems" by (auto simp: bindP_Inr_iff prog_defs)
  obtain ns where ns: "binds conv (ast_values subquery) b b' ns" "spells subquerySQL ns"
    using "6.IH" [of b subquerySQL b'] run(2) "6.prems" by (auto simp: unordered_plain)
  have "set properties \<subseteq> set (Properties m)"
    using run(1) by (auto simp: res_map_Inr_iff list_all2_conv_all_nth in_set_conv_nth [of _ properties]) (metis Resolve_mapped)
  then have mapped: "\<forall>p \<in> set properties. quiet (ColumnName p)"
    using "6.prems" by (auto simp: plain_map_def)
  have "spells s ns"
    using membership_spells [OF run(3)] ns(2) mapped "6.prems" by auto
  then show ?case
    using ns(1) by auto
next
  case (7 d' bind m q al)
  then show ?case
    by (simp add: prog_defs)
next
  case (8 d' bind ast)
  note prems = "8.prems"
  have plain: "plain_map (ast_Map ast)" "\<forall>c \<in> set (ast_Where ast). plain_criteria c"
    using prems by (auto simp: plain_ast_simp)
  have nonneg: "\<not> (negative (ast_Limit ast) \<or> negative (ast_Offset ast))"
    using prems by (auto simp: SelectSQL.simps prog_defs)
  note steps = prems(1) [unfolded SelectSQL.simps [of d' bind ast] if_not_P [OF nonneg]]
  obtain clauses predicate b1 orderings paging' where run: "select_joins d ast = Inr clauses"
      "(if ast_Where ast = [] then retP []
        else bindP (renderCriteria d bind (ast_Map ast) (query_name (ast_Map ast)) (root_alias d ast) (where_predicate (ast_Where ast))) (\<lambda>s. retP ('' where '' @ s))) b
       = (Inr predicate, b1)"
      "select_orderings d ast = Inr orderings" "select_paging d bind ast b1 = (Inr paging', b')"
      and s: "s = select_head d ast @ clauses @ predicate @ orderings @ paging'"
    using select_steps [OF steps [unfolded prems(2)]] by blast
  have "\<exists>ns. binds conv (concat (map (criteria_values (ast_Map ast)) (ast_Where ast))) b b1 ns \<and> spells predicate ns \<and> ends_name predicate"
  proof (cases "ast_Where ast = []")
    case True
    then show ?thesis
      using run(2) by (auto simp: prog_defs binds_none spells_Nil)
  next
    case False
    then obtain p where p: "renderCriteria d bind (ast_Map ast) (query_name (ast_Map ast)) (root_alias d ast) (where_predicate (ast_Where ast)) b = (Inr p, b1)"
        and predicate: "predicate = '' where '' @ p"
      using run(2) by (auto simp: bindP_Inr_iff prog_defs)
    then obtain ns where "binds conv (concat (map (criteria_values (ast_Map ast)) (ast_Where ast))) b b1 ns" "spells p ns"
      using "8.IH" [OF nonneg False, of b p b1] prems plain where_plain [OF False] by (auto simp: quiet_root where_values [OF False])
    then show ?thesis
      unfolding predicate using spells_quiet_append [of "'' where ''" p ns] by (intro exI [where x = ns]) (simp add: not_word)
  qed
  then obtain ns where ns: "binds conv (concat (map (criteria_values (ast_Map ast)) (ast_Where ast))) b b1 ns" "spells predicate ns" "ends_name predicate"
    by blast
  obtain ps where ps: "binds conv (map (\<lambda>n. (VInt Int64 n, [])) (case ast_Limit ast of Some n \<Rightarrow> [n] | None \<Rightarrow> []) @
      map (\<lambda>n. (VInt Int64 n, [])) (case ast_Offset ast of Some n \<Rightarrow> [n] | None \<Rightarrow> [])) b1 b' ps" "spells paging' ps" "ends_name paging'"
    using paging_binds run(4) prems by blast
  have "spells s (ns \<union> ps)"
    unfolding s using ns(2,3) ps(2,3) quiet_head quiet_joins [OF _ run(1)] quiet_orderings [OF _ run(3)] prems
    by (intro spells_quiet_append [where s = "select_head d ast"] spells_quiet_append [where s = clauses] spells_append
        spells_quiet_append [where s = orderings] ends_name_append) auto
  then show ?case
    using binds_append [OF ns(1) ps(1)] by (auto simp: ast_values_simp)
qed

end

lemma double_char_simps: "double_char c [] = []" "double_char c (x # s) = (if x = c then [c, c] else [x]) @ double_char c s"
  by (simp_all add: double_char_def)

lemma hd_double_char: "s \<noteq> [] \<Longrightarrow> double_char c s \<noteq> [] \<and> hd (double_char c s) = hd s"
  by (cases s) (simp_all add: double_char_simps)

lemma quiet_double: "c \<notin> {apostrophe, CHR ''@'', CHR ''/'', CHR ''-''} \<Longrightarrow> quiet s \<Longrightarrow> quiet (double_char c s)"
  by (induction s) (simp_all add: double_char_simps hd_double_char)

interpretation sqlite_query: query_dialect SqliteDialect
proof unfold_locales
  show "quiet (QuoteIdentifier SqliteDialect name)" if "quiet name" for name
    using that by (simp add: SqliteDialect_def sqlite_QuoteIdentifier_def)
  show "spells (LimitOffsetClause SqliteDialect l f) (ls \<union> fs)" if "paging_parameter l ls" and "paging_parameter f fs" for l ls f fs
    using that by (auto simp: SqliteDialect_def sqlite_LimitOffsetClause_def paging_parameter_def not_word spells_quiet intro!: spells_char spells_dash spells_append)
qed

interpretation postgres_query: query_dialect PostgresDialect
proof unfold_locales
  show "quiet (QuoteIdentifier PostgresDialect name)" if "quiet name" for name
    using that by (auto simp: PostgresDialect_def pg_QuoteIdentifier_def dquote_def intro!: quiet_append quiet_double)
  show "spells (LimitOffsetClause PostgresDialect l f) (ls \<union> fs)" if "paging_parameter l ls" and "paging_parameter f fs" for l ls f fs
    using that by (auto simp: PostgresDialect_def pg_LimitOffsetClause_def paging_parameter_def not_word spells_quiet intro!: spells_char spells_dash spells_append)
qed

interpretation sqlserver_query: query_dialect SqlserverDialect
proof unfold_locales
  show "quiet (QuoteIdentifier SqlserverDialect name)" if "quiet name" for name
    using that by (auto simp: SqlserverDialect_def ss_QuoteIdentifier_def intro!: quiet_append quiet_double)
  show "spells (LimitOffsetClause SqlserverDialect l f) (ls \<union> fs)" if "paging_parameter l ls" and "paging_parameter f fs" for l ls f fs
  proof -
    have rows: "spells (s @ '' rows'' @ t) (names \<union> names')" if "spells s names" and "spells t names'" and "ends_name t" for s t names names'
      using that by (intro spells_append spells_quiet_append) (simp_all add: not_word)
    have "spells ('' rows fetch next '' @ l @ '' rows'' @ '' only'') (ls \<union> {})"
      using that by (intro spells_quiet_append [OF _ rows]) (simp_all add: paging_parameter_def not_word spells_quiet)
    moreover have "spells (f @ '' rows'' @ []) (fs \<union> {})"
      using that by (intro rows) (simp_all add: paging_parameter_def not_word spells_quiet)
    moreover from calculation(1) have "spells (f @ ('' rows fetch next '' @ l @ '' rows'' @ '' only'')) (fs \<union> (ls \<union> {}))"
      using that by (intro spells_append [where s = f]) (simp_all add: paging_parameter_def not_word)
    ultimately show ?thesis
      using that by (auto simp: SqlserverDialect_def ss_LimitOffsetClause_def paging_parameter_def spells_quiet Un_commute intro!: spells_char)
  qed
qed

lemma criteriaName_inject: "criteriaName i = criteriaName j \<longleftrightarrow> i = j"
  by (simp add: criteriaName_def)

lemma bound_names:
  assumes "query_dialect d" and "SelectSQL d (criteria_bind conv queryName) ast [] = (Inr sqlText, args)" and "plain_ast ast"
  shows "set (FindPlaceholders sqlText) = set (map fst args)" and "self_contained sqlText" and "distinct (map fst args)"
    and "list_all2 (converted_by conv) (ast_values ast) args"
proof -
  obtain names where names: "binds conv (ast_values ast) [] args names" "spells sqlText names"
    using query_dialect.render_binds(2) [OF assms(1,2) refl refl assms(3)] by blast
  have "map fst args = map criteriaName [0..<length args]" and set: "names = set (map fst args)"
    using names(1) unfolding binds_def append_Nil list.size(3) by blast+
  then show "distinct (map fst args)"
    by (metis criteriaName_inject distinct_map distinct_upt inj_onI)
  show "set (FindPlaceholders sqlText) = set (map fst args)" "self_contained sqlText"
    using spells_text [OF names(2)] set by blast+
  show "list_all2 (converted_by conv) (ast_values ast) args"
    using names(1) unfolding binds_def by auto
qed

text \<open>
  C39: The values of a query never reach its text. When a query renders, in each dialect, its values (those of the
  predicates in order, subqueries in place, then limit and offset) are exactly the arguments sent, in that order,
  each converted for its column, under distinct names; and the placeholders of the text, for every scanner of the
  library, are exactly those names, the text closing its literals and comments. Names and operators must be free of
  apostrophes, at signs, slashes and double dashes.
\<close>

theorem query_binds_values:
  assumes "d \<in> {SqliteDialect, PostgresDialect, SqlserverDialect}" and "plain_ast ast"
    and "SelectSQL d (criteria_bind conv queryName) ast [] = (Inr sqlText, args)"
  shows "set (FindPlaceholders sqlText) = set (map fst args) \<and> distinct (map fst args) \<and> self_contained sqlText \<and>
    list_all2 (\<lambda>(v, columnType) (name, converted). \<exists>label. conv v columnType label = Inr converted) (ast_values ast) args"
proof -
  have "query_dialect d"
    using assms(1) sqlite_query.query_dialect_axioms postgres_query.query_dialect_axioms sqlserver_query.query_dialect_axioms by blast
  from bound_names [OF this assms(3,2)] show ?thesis
    unfolding converted_by_def by (simp add: case_prod_unfold)
qed

definition sample_query :: SelectAst where
  "sample_query =
     SelectAst sample_map
       [Or_any [Gt ''Total'' (VInt Int64 5),
                InSelect [''Id'', ''Total''] (SelectAst sample_map [In_values ''Id'' [VInt Int64 1, VInt Int64 2]] [] None None None [])]]
       [\<lparr>or_Property = ''id'', or_Order = Desc\<rparr>] (Some 10) None None []"

theorem query_binds_values_witness:
  "\<exists>sqlText. SelectSQL SqlserverDialect (criteria_bind (\<lambda>v _ _. Inr v) ''q'') sample_query [] =
      (Inr sqlText, [(''c0'', VInt Int64 5), (''c1'', VInt Int64 1), (''c2'', VInt Int64 2), (''c3'', VInt Int64 10)]) \<and>
    set (FindPlaceholders sqlText) = {''c0'', ''c1'', ''c2'', ''c3''}"
proof -
  let ?text = "''select t.[id], t.[total] from [orders] t where (t.[total] > @c0 or exists (select 1 from (select [id], [total] from [orders] where [id] in (@c1, @c2)) s where s.[id] = t.[id] and s.[total] = t.[total])) order by t.[id] desc offset 0 rows fetch next @c3 rows only''"
  have run: "SelectSQL SqlserverDialect (criteria_bind (\<lambda>v _ _. Inr v) ''q'') sample_query [] =
      (Inr ?text, [(''c0'', VInt Int64 5), (''c1'', VInt Int64 1), (''c2'', VInt Int64 2), (''c3'', VInt Int64 10)])"
    by code_simp
  have "plain_ast sample_query"
    by code_simp
  then show ?thesis
    using run query_binds_values [OF _ _ run] by (intro exI [where x = ?text] conjI run) simp
qed

end
