(* ===== verification/Query_Refusal.thy ===== *)
theory Query_Refusal
  imports Query_Binding
begin

text \<open>
  Which queries render. \<open>well_formed_ast\<close> says without rendering which ones the renderer accepts;
  \<open>spec_ast\<close> says which ones \<open>spec/query-ast.md\<close> accepts. The renderer is laxer in three ways, which
  \<open>orderly_ast\<close> excludes: a repeated join alias, a parent declared by a later join, and a membership of another
  arity where it is not rewritten as a correlated subquery.
\<close>

section \<open>Well-formed queries\<close>

definition mapped_name :: "EntityMap \<Rightarrow> string \<Rightarrow> bool" where
  "mapped_name m name \<longleftrightarrow>
     name \<in> PropertyName ` set (Properties m) \<or> length (filter (\<lambda>p. EqualFold (PropertyName p) name) (Properties m)) = 1"

definition well_formed_join :: "SelectAst \<Rightarrow> SelectJoin \<Rightarrow> bool" where
  "well_formed_join ast j \<longleftrightarrow>
     (case join_parent ast j of
        None \<Rightarrow> False
      | Some (a, m) \<Rightarrow> \<forall>pair \<in> set (sj_On j). mapped_name m (jp_ParentProperty pair) \<and> mapped_name (sj_Target j) (jp_TargetProperty pair))"

lemma size_where_member: "c \<in> set (ast_Where ast) \<Longrightarrow> size c < size ast"
  by (cases ast) (auto dest: size_child [where operator = "[]"] simp: less_Suc_eq_le)

function well_formed :: "Dialect \<Rightarrow> EntityMap \<Rightarrow> criteria \<Rightarrow> bool" and well_formed_ast :: "Dialect \<Rightarrow> SelectAst \<Rightarrow> bool" where
  "well_formed d m (Comparison name operator v) \<longleftrightarrow> mapped_name m name \<and> (v = VNil \<longrightarrow> operator \<in> {''='', ''<>''})"
| "well_formed d m (InList name vs) \<longleftrightarrow> mapped_name m name \<and> VNil \<notin> set vs"
| "well_formed d m (NullCheck name negated) \<longleftrightarrow> mapped_name m name"
| "well_formed d m (Composite operator children) \<longleftrightarrow> (\<forall>c \<in> set children. well_formed d m c)"
| "well_formed d m (Negation inner) \<longleftrightarrow> well_formed d m inner"
| "well_formed d m (SubqueryMembership names subquery) \<longleftrightarrow>
     (\<forall>name \<in> set names. mapped_name m name) \<and> well_formed_ast d (unordered_subquery d subquery) \<and>
     (length names = 1 \<or> SupportsRowValueIn d \<or> length (projected_properties subquery) = length names)"
| "well_formed d m NilCriteria \<longleftrightarrow> False"
| "well_formed_ast d ast \<longleftrightarrow>
     \<not> negative (ast_Limit ast) \<and> \<not> negative (ast_Offset ast) \<and> (\<forall>j \<in> set (ast_Joins ast). well_formed_join ast j) \<and>
     (\<forall>c \<in> set (ast_Where ast). well_formed d (ast_Map ast) c) \<and> (\<forall>o' \<in> set (ast_Orderings ast). mapped_name (ast_Map ast) (or_Property o'))"
  by pat_completeness auto

termination
  by (relation "measure (\<lambda>x. case x of Inl (d, m, c) \<Rightarrow> 2 * size c | Inr (d, ast) \<Rightarrow> 2 * size ast + 1)")
    (auto dest: size_child [where operator = "[]"] size_where_member simp: less_Suc_eq_le)

declare well_formed_ast.simps [simp del]

section \<open>The queries of the specification\<close>

text \<open>A join's parent map: the root's without an alias, else that of the earlier join which declares it.\<close>

definition declared_parent :: "EntityMap \<Rightarrow> SelectJoin list \<Rightarrow> SelectJoin \<Rightarrow> EntityMap option" where
  "declared_parent rootMap earlier j =
     (if sj_ParentAlias j = [] then Some rootMap
      else map_option sj_Target (find (\<lambda>i. sj_Alias i = sj_ParentAlias j) earlier))"

definition spec_pairs :: "SelectJoin \<Rightarrow> EntityMap \<Rightarrow> bool" where
  "spec_pairs j m \<longleftrightarrow> (\<forall>pair \<in> set (sj_On j). mapped_name m (jp_ParentProperty pair) \<and> mapped_name (sj_Target j) (jp_TargetProperty pair))"

fun spec_joins :: "EntityMap \<Rightarrow> SelectJoin list \<Rightarrow> SelectJoin list \<Rightarrow> bool" where
  "spec_joins rootMap earlier [] \<longleftrightarrow> True"
| "spec_joins rootMap earlier (j # js) \<longleftrightarrow>
     sj_Alias j \<noteq> ''t'' \<and> sj_Alias j \<notin> sj_Alias ` set earlier \<and>
     (case declared_parent rootMap earlier j of None \<Rightarrow> False | Some m \<Rightarrow> spec_pairs j m) \<and>
     spec_joins rootMap (earlier @ [j]) js"

function spec_criteria :: "Dialect \<Rightarrow> EntityMap \<Rightarrow> criteria \<Rightarrow> bool" and spec_ast :: "Dialect \<Rightarrow> SelectAst \<Rightarrow> bool" where
  "spec_criteria d m (Comparison name operator v) \<longleftrightarrow> mapped_name m name \<and> (v = VNil \<longrightarrow> operator \<in> {''='', ''<>''})"
| "spec_criteria d m (InList name vs) \<longleftrightarrow> mapped_name m name \<and> VNil \<notin> set vs"
| "spec_criteria d m (NullCheck name negated) \<longleftrightarrow> mapped_name m name"
| "spec_criteria d m (Composite operator children) \<longleftrightarrow> (\<forall>c \<in> set children. spec_criteria d m c)"
| "spec_criteria d m (Negation inner) \<longleftrightarrow> spec_criteria d m inner"
| "spec_criteria d m (SubqueryMembership names subquery) \<longleftrightarrow>
     (\<forall>name \<in> set names. mapped_name m name) \<and> spec_ast d (unordered_subquery d subquery) \<and>
     length (projected_properties subquery) = length names"
| "spec_criteria d m NilCriteria \<longleftrightarrow> False"
| "spec_ast d ast \<longleftrightarrow>
     \<not> negative (ast_Limit ast) \<and> \<not> negative (ast_Offset ast) \<and> spec_joins (ast_Map ast) [] (ast_Joins ast) \<and>
     (\<forall>c \<in> set (ast_Where ast). spec_criteria d (ast_Map ast) c) \<and> (\<forall>o' \<in> set (ast_Orderings ast). mapped_name (ast_Map ast) (or_Property o'))"
  by pat_completeness auto

termination
  by (relation "measure (\<lambda>x. case x of Inl (d, m, c) \<Rightarrow> 2 * size c | Inr (d, ast) \<Rightarrow> 2 * size ast + 1)")
    (auto dest: size_child [where operator = "[]"] size_where_member simp: less_Suc_eq_le)

declare spec_ast.simps [simp del]

text \<open>The aliases are distinct and none is the root's; a parent that some join declares is declared by an earlier one.\<close>

fun orderly_joins :: "SelectJoin list \<Rightarrow> SelectJoin list \<Rightarrow> bool" where
  "orderly_joins earlier [] \<longleftrightarrow> True"
| "orderly_joins earlier (j # js) \<longleftrightarrow>
     sj_Alias j \<noteq> ''t'' \<and> sj_Alias j \<notin> sj_Alias ` set earlier \<and>
     (sj_ParentAlias j \<in> sj_Alias ` set (j # js) \<longrightarrow> sj_ParentAlias j \<in> sj_Alias ` set earlier) \<and>
     orderly_joins (earlier @ [j]) js"

function orderly :: "Dialect \<Rightarrow> criteria \<Rightarrow> bool" and orderly_ast :: "Dialect \<Rightarrow> SelectAst \<Rightarrow> bool" where
  "orderly d (Comparison name operator v) \<longleftrightarrow> True"
| "orderly d (InList name vs) \<longleftrightarrow> True"
| "orderly d (NullCheck name negated) \<longleftrightarrow> True"
| "orderly d (Composite operator children) \<longleftrightarrow> (\<forall>c \<in> set children. orderly d c)"
| "orderly d (Negation inner) \<longleftrightarrow> orderly d inner"
| "orderly d (SubqueryMembership names subquery) \<longleftrightarrow>
     orderly_ast d (unordered_subquery d subquery) \<and>
     (length names = 1 \<or> SupportsRowValueIn d \<longrightarrow> length (projected_properties subquery) = length names)"
| "orderly d NilCriteria \<longleftrightarrow> True"
| "orderly_ast d ast \<longleftrightarrow> orderly_joins [] (ast_Joins ast) \<and> (\<forall>c \<in> set (ast_Where ast). orderly d c)"
  by pat_completeness auto

termination
  by (relation "measure (\<lambda>x. case x of Inl (d, c) \<Rightarrow> 2 * size c | Inr (d, ast) \<Rightarrow> 2 * size ast + 1)")
    (auto dest: size_child [where operator = "[]"] size_where_member simp: less_Suc_eq_le)

declare orderly_ast.simps [simp del]

text \<open>On orderly queries the renderer accepts what the specification does.\<close>

lemma orderly_distinct: "orderly_joins earlier js \<Longrightarrow> distinct (map sj_Alias earlier) \<Longrightarrow> distinct (map sj_Alias (earlier @ js))"
  by (induction earlier js rule: orderly_joins.induct) simp_all

lemma map_of_rev_distinct: "distinct (map fst xs) \<Longrightarrow> map_of (rev xs) = map_of xs"
  by (induction xs) (auto simp: map_add_upd_left dom_map_of_conv_image_fst)

lemma orderly_parent:
  assumes "orderly_joins earlier (j # js)" and "distinct (map sj_Alias earlier)" and "ast_Joins ast = earlier @ j # js"
  shows "map_option snd (join_parent ast j) = declared_parent (ast_Map ast) earlier j"
proof -
  let ?all = "earlier @ j # js" and ?pair = "\<lambda>j. (sj_Alias j, sj_Target j)"
  have "distinct (map sj_Alias ?all)"
    using orderly_distinct [OF assms(1,2)] .
  then have maps: "map_of (rev (map ?pair ?all)) = map_of (map ?pair ?all)"
    by (intro map_of_rev_distinct) (simp_all add: comp_def)
  have find: "map_of (map ?pair xs) k = map_option sj_Target (find (\<lambda>i. sj_Alias i = k) xs)" for xs k
    by (induction xs) auto
  have later: "find (\<lambda>i. sj_Alias i = sj_ParentAlias j) ?all = find (\<lambda>i. sj_Alias i = sj_ParentAlias j) earlier"
  proof (cases "find (\<lambda>i. sj_Alias i = sj_ParentAlias j) earlier")
    case None
    then have "sj_ParentAlias j \<notin> sj_Alias ` set earlier"
      by (auto simp: find_None_iff)
    then have "sj_ParentAlias j \<notin> sj_Alias ` set ?all"
      using assms(1) by auto
    then have "find (\<lambda>i. sj_Alias i = sj_ParentAlias j) ?all = None"
      unfolding find_None_iff by (metis imageI)
    then show ?thesis
      using None by simp
  next
    case (Some x)
    moreover have "find P (xs @ ys) = find P xs" if "find P xs = Some x" for P :: "SelectJoin \<Rightarrow> bool" and xs ys
      using that by (induction xs) auto
    ultimately show ?thesis
      by auto
  qed
  show ?thesis
    unfolding join_parent_def declared_parent_def assms(3) maps
    by (simp only: find later) (simp add: option.map_comp comp_def)
qed

lemma orderly_join:
  assumes "orderly_joins earlier (j # js)" and "distinct (map sj_Alias earlier)" and "ast_Joins ast = earlier @ j # js"
  shows "well_formed_join ast j \<longleftrightarrow> (case declared_parent (ast_Map ast) earlier j of None \<Rightarrow> False | Some m \<Rightarrow> spec_pairs j m)"
  unfolding orderly_parent [OF assms, symmetric]
  by (simp add: well_formed_join_def spec_pairs_def split: option.split)

lemma orderly_spec_joins:
  "orderly_joins earlier js \<Longrightarrow> distinct (map sj_Alias earlier) \<Longrightarrow> ast_Joins ast = earlier @ js \<Longrightarrow>
   spec_joins (ast_Map ast) earlier js \<longleftrightarrow> (\<forall>j \<in> set js. well_formed_join ast j)"
proof (induction earlier js rule: orderly_joins.induct)
  case (2 earlier j js)
  have "spec_joins (ast_Map ast) (earlier @ [j]) js \<longleftrightarrow> (\<forall>j \<in> set js. well_formed_join ast j)"
    using "2.prems" by (intro "2.IH") auto
  then show ?case
    using "2.prems" orderly_join [OF "2.prems"] by simp
qed simp

lemma orderly_spec:
  "orderly d c \<Longrightarrow> spec_criteria d m c \<longleftrightarrow> well_formed d m c"
  "orderly_ast d ast \<Longrightarrow> spec_ast d ast \<longleftrightarrow> well_formed_ast d ast"
proof (induction d m c and d ast rule: well_formed_well_formed_ast.induct)
  case (8 d ast)
  have "spec_joins (ast_Map ast) [] (ast_Joins ast) \<longleftrightarrow> (\<forall>j \<in> set (ast_Joins ast). well_formed_join ast j)"
    using "8.prems" by (intro orderly_spec_joins) (simp_all add: orderly_ast.simps)
  moreover have "(\<forall>c \<in> set (ast_Where ast). spec_criteria d (ast_Map ast) c) \<longleftrightarrow> (\<forall>c \<in> set (ast_Where ast). well_formed d (ast_Map ast) c)"
    using "8.IH" "8.prems" by (auto simp: orderly_ast.simps)
  ultimately show ?case
    by (simp add: spec_ast.simps well_formed_ast.simps)
qed auto

section \<open>Programs that fail exactly when\<close>

definition refusal :: "go_error \<Rightarrow> bool" where
  "refusal e \<longleftrightarrow> HasCode e ''QRY-006'' \<or> HasCode e ''QRY-007'' \<or> HasCode e ''QRY-008''"

definition decided :: "('s, 'a) prog \<Rightarrow> bool \<Rightarrow> bool" where
  "decided m ok \<longleftrightarrow> (\<forall>s. case fst (m s) of Inl e \<Rightarrow> \<not> ok \<and> refusal e | Inr x \<Rightarrow> ok)"

lemma decided_ret: "decided (retP x) True"
  by (simp add: decided_def prog_defs)

lemma decided_fail: "refusal e \<Longrightarrow> decided (failP e) False"
  by (simp add: decided_def prog_defs)

lemma decided_lift: "(case r of Inl e \<Rightarrow> \<not> ok \<and> refusal e | Inr x \<Rightarrow> ok) \<Longrightarrow> decided (liftR r) ok"
  by (simp add: decided_def prog_defs)

lemma decided_bind:
  assumes "decided m a" and "\<And>s x t. m s = (Inr x, t) \<Longrightarrow> decided (f x) b"
  shows "decided (bindP m f) (a \<and> b)"
  unfolding decided_def
proof
  fix s
  show "case fst (bindP m f s) of Inl e \<Rightarrow> \<not> (a \<and> b) \<and> refusal e | Inr x \<Rightarrow> a \<and> b"
  proof (cases "m s")
    case (Pair r t)
    show ?thesis
    proof (cases r)
      case (Inl e)
      then show ?thesis
        using assms(1) Pair by (auto simp: decided_def bindP_def dest: spec [of _ s])
    next
      case (Inr x)
      then have "decided (f x) b" and "a" and "bindP m f s = f x t"
        using assms Pair by (auto simp: decided_def bindP_def dest: spec [of _ s])
      moreover from this(1) have "case fst (f x t) of Inl e \<Rightarrow> \<not> b \<and> refusal e | Inr x \<Rightarrow> b"
        unfolding decided_def by (rule spec)
      ultimately show ?thesis
        by (cases "fst (f x t)") auto
    qed
  qed
qed

lemma decided_ret_after: "decided m a \<Longrightarrow> decided (bindP m (\<lambda>x. retP (f x))) a"
  using decided_bind [of m a "\<lambda>x. retP (f x)" True] by (simp add: decided_ret)

lemma decided_map: "(\<And>x. x \<in> set xs \<Longrightarrow> decided (f x) (P x)) \<Longrightarrow> decided (mapP f xs) (\<forall>x \<in> set xs. P x)"
proof (induction xs)
  case (Cons x xs)
  have "decided (mapP f (x # xs)) (P x \<and> (\<forall>x \<in> set xs. P x))"
    unfolding mapP.simps using Cons by (intro decided_bind decided_ret_after) auto
  then show ?case
    by simp
qed (simp add: decided_ret)

lemma decided_res_map:
  assumes "\<And>x. x \<in> set xs \<Longrightarrow> case f x of Inl e \<Rightarrow> \<not> P x \<and> refusal e | Inr y \<Rightarrow> P x"
  shows "case res_map f xs of Inl e \<Rightarrow> \<not> (\<forall>x \<in> set xs. P x) \<and> refusal e | Inr ys \<Rightarrow> \<forall>x \<in> set xs. P x"
  using assms by (induction xs) (fastforce split: sum.splits)+

lemma decided_Resolve: "case Resolve m name q of Inl e \<Rightarrow> \<not> mapped_name m name \<and> refusal e | Inr p \<Rightarrow> mapped_name m name"
  by (auto simp: Resolve_def mapped_name_def refusal_def find_None_iff find_Some_iff image_iff split: option.splits list.splits)

lemma decided_column: "case column m name q d al of Inl e \<Rightarrow> \<not> mapped_name m name \<and> refusal e | Inr c \<Rightarrow> mapped_name m name"
  using decided_Resolve [of m name q] by (auto simp: column_def split: sum.splits)

lemma decided_pairs:
  "case render_pair d q j a m pair of
     Inl e \<Rightarrow> \<not> (mapped_name m (jp_ParentProperty pair) \<and> mapped_name (sj_Target j) (jp_TargetProperty pair)) \<and> refusal e
   | Inr s \<Rightarrow> mapped_name m (jp_ParentProperty pair) \<and> mapped_name (sj_Target j) (jp_TargetProperty pair)"
  using decided_Resolve [of m "jp_ParentProperty pair" q] decided_Resolve [of "sj_Target j" "jp_TargetProperty pair" q]
  by (auto simp: render_pair_def split: sum.splits)

lemma decided_join: "case render_join d q ast j of Inl e \<Rightarrow> \<not> well_formed_join ast j \<and> refusal e | Inr s \<Rightarrow> well_formed_join ast j"
proof (cases "join_parent ast j")
  case None
  then show ?thesis
    by (simp add: render_join_def well_formed_join_def refusal_def)
next
  case (Some am)
  then show ?thesis
    using decided_res_map [where f = "render_pair d q j (fst am) (snd am)" and xs = "sj_On j", OF decided_pairs]
    by (auto simp: render_join_def well_formed_join_def split: sum.splits prod.splits)
qed

lemma decided_joins:
  "case select_joins d ast of Inl e \<Rightarrow> \<not> (\<forall>j \<in> set (ast_Joins ast). well_formed_join ast j) \<and> refusal e | Inr s \<Rightarrow> \<forall>j \<in> set (ast_Joins ast). well_formed_join ast j"
  using decided_res_map [where f = "render_join d (query_name (ast_Map ast)) ast" and xs = "ast_Joins ast", OF decided_join]
  by (auto simp: select_joins_def renderJoins_def split: sum.splits)

lemma decided_orderings:
  "case select_orderings d ast of
     Inl e \<Rightarrow> \<not> (\<forall>o' \<in> set (ast_Orderings ast). mapped_name (ast_Map ast) (or_Property o')) \<and> refusal e
   | Inr s \<Rightarrow> \<forall>o' \<in> set (ast_Orderings ast). mapped_name (ast_Map ast) (or_Property o')"
proof -
  have "case render_ordering d ast o' of Inl e \<Rightarrow> \<not> mapped_name (ast_Map ast) (or_Property o') \<and> refusal e
      | Inr s \<Rightarrow> mapped_name (ast_Map ast) (or_Property o')" for o'
    using decided_Resolve [of "ast_Map ast" "or_Property o'" "query_name (ast_Map ast)"] by (auto simp: render_ordering_def split: sum.splits)
  from decided_res_map [where f = "render_ordering d ast" and xs = "ast_Orderings ast", OF this] show ?thesis
    by (auto simp: select_orderings_def split: sum.splits)
qed

section \<open>Rendering\<close>

definition never_fails :: "'s bind_fn \<Rightarrow> bool" where
  "never_fails bind \<longleftrightarrow> (\<forall>v property. decided (bind v property) True)"

lemma decided_paging: "never_fails bind \<Longrightarrow> decided (select_paging d bind ast) True"
proof -
  assume bind: "never_fails bind"
  have one: "decided (bind_paging bind n) True" for n
    using bind by (cases n) (simp_all add: bind_paging_def never_fails_def decided_ret)
  have "decided (bindP (bind_paging bind l) (\<lambda>x. bindP (bind_paging bind f) (\<lambda>y. retP (g x y)))) True" for l f and g :: "string \<Rightarrow> string \<Rightarrow> string"
    using decided_bind [OF one decided_ret_after [OF one], of l "\<lambda>x. f" g] by simp
  then show ?thesis
    by (simp add: select_paging_def decided_ret Let_def)
qed

lemma decided_cong: "decided m a \<Longrightarrow> a = b \<Longrightarrow> decided m b"
  by simp

lemma well_formed_where: "ast_Where ast \<noteq> [] \<Longrightarrow> well_formed d m (where_predicate (ast_Where ast)) \<longleftrightarrow> (\<forall>c \<in> set (ast_Where ast). well_formed d m c)"
  by (auto simp: where_predicate_def And_all_def split: list.splits)

lemma decided_render:
  "never_fails bind \<Longrightarrow> decided (renderCriteria d bind m q al c) (well_formed d m c)"
  "never_fails bind \<Longrightarrow> decided (SelectSQL d bind ast) (well_formed_ast d ast)"
proof (induction d bind m q al c and d bind ast rule: renderCriteria_SelectSQL.induct)
  case (1 d bind m q al name operator v)
  show ?case
  proof (cases "v = VNil")
    case True
    have "decided (if operator = ''='' then retP (col @ '' is null'') else if operator = ''<>'' then retP (col @ '' is not null'') else failP (OrmError ''QRY-007'' q))
        (operator \<in> {''='', ''<>''})" for col
      by (simp add: decided_ret decided_fail refusal_def)
    then have "decided (bindP (liftR (column m name q d al)) (\<lambda>col. if operator = ''='' then retP (col @ '' is null'') else if operator = ''<>'' then retP (col @ '' is not null'')
        else failP (OrmError ''QRY-007'' q))) (mapped_name m name \<and> operator \<in> {''='', ''<>''})"
      by (intro decided_bind decided_lift decided_column)
    then show ?thesis
      using True by simp
  next
    case False
    have "decided (bindP (liftR (Resolve m name q)) (\<lambda>property. bindP (liftR (column m name q d al)) (\<lambda>col.
        bindP (bind v (Some property)) (\<lambda>placeholder. retP (col @ '' '' @ operator @ '' '' @ placeholder)))))
      (mapped_name m name \<and> mapped_name m name \<and> True)"
      using "1" by (intro decided_bind decided_lift decided_Resolve decided_column decided_ret_after) (simp_all add: never_fails_def)
    then show ?thesis
      using False by simp
  qed
next
  case (2 d bind m q al name vs)
  have "decided (bindP (liftR (Resolve m name q)) (\<lambda>property. bindP (liftR (column m name q d al)) (\<lambda>col.
      bindP (mapP (\<lambda>v. bind v (Some property)) vs) (\<lambda>placeholders. retP (col @ '' in ('' @ join '', '' placeholders @ '')'')))))
    (mapped_name m name \<and> mapped_name m name \<and> (\<forall>v \<in> set vs. True))"
    using "2" by (intro decided_bind decided_lift decided_Resolve decided_column decided_ret_after decided_map) (simp_all add: never_fails_def)
  moreover have "decided (bindP (liftR (Resolve m name q)) (\<lambda>_. retP ''1 = 0'')) (mapped_name m name)"
    by (intro decided_ret_after decided_lift decided_Resolve)
  ultimately show ?case
    by (auto simp: decided_fail refusal_def)
next
  case (3 d bind m q al name negated)
  show ?case
    unfolding renderCriteria.simps well_formed.simps by (intro decided_ret_after decided_lift decided_column)
next
  case (4 d bind m q al operator children)
  show ?case
    using decided_ret decided_ret_after [OF decided_map [OF "4.IH"]] "4.prems" by auto
next
  case (5 d bind m q al inner)
  show ?case
    using decided_ret_after [OF "5.IH"] "5.prems" by simp
next
  case (6 d bind m q al names subquery)
  have "decided (liftR (membership_text d q al properties subquery s)) (length names = 1 \<or> SupportsRowValueIn d \<or> length (projected_properties subquery) = length names)"
    if "length properties = length names" for properties s
    using that by (intro decided_lift) (auto simp: membership_text_def Let_def refusal_def split: list.splits)
  then have "decided (bindP (SelectSQL d bind (unordered_subquery d subquery)) (\<lambda>s. liftR (membership_text d q al properties subquery s)))
      (well_formed_ast d (unordered_subquery d subquery) \<and>
       (length names = 1 \<or> SupportsRowValueIn d \<or> length (projected_properties subquery) = length names))"
    if "length properties = length names" for properties
    using that "6.prems" by (intro decided_bind "6.IH")
  then show ?case
    unfolding renderCriteria.simps well_formed.simps
    by (rule decided_bind [OF decided_lift [OF decided_res_map [OF decided_Resolve]]]) (auto simp: prog_defs dest: res_map_length)
next
  case (7 d bind m q al)
  then show ?case
    by (simp add: decided_fail refusal_def)
next
  case (8 d bind ast)
  show ?case
  proof (cases "negative (ast_Limit ast) \<or> negative (ast_Offset ast)")
    case True
    then show ?thesis
      by (auto simp: SelectSQL.simps well_formed_ast.simps decided_fail refusal_def)
  next
    case False
    let ?where = "if ast_Where ast = [] then retP []
       else bindP (renderCriteria d bind (ast_Map ast) (query_name (ast_Map ast)) (root_alias d ast) (where_predicate (ast_Where ast))) (\<lambda>s. retP ('' where '' @ s))"
    have "decided ?where (\<forall>c \<in> set (ast_Where ast). well_formed d (ast_Map ast) c)"
    proof (cases "ast_Where ast = []")
      case nonempty: False
      show ?thesis
        unfolding if_not_P [OF nonempty] well_formed_where [OF nonempty, symmetric]
        by (rule decided_ret_after [OF "8.IH" [OF False nonempty "8.prems"]])
    qed (simp add: decided_ret)
    then have "decided (bindP (liftR (select_joins d ast)) (\<lambda>joins. bindP ?where (\<lambda>predicate. bindP (liftR (select_orderings d ast)) (\<lambda>orderings.
        bindP (select_paging d bind ast) (\<lambda>paging. retP (select_head d ast @ joins @ predicate @ orderings @ paging))))))
      ((\<forall>j \<in> set (ast_Joins ast). well_formed_join ast j) \<and> (\<forall>c \<in> set (ast_Where ast). well_formed d (ast_Map ast) c) \<and>
       (\<forall>o' \<in> set (ast_Orderings ast). mapped_name (ast_Map ast) (or_Property o')) \<and> True)"
      using "8.prems" by (intro decided_bind decided_lift decided_joins decided_orderings decided_ret_after decided_paging)
    then show ?thesis
      using False by (simp add: SelectSQL.simps well_formed_ast.simps)
  qed
qed

lemma criteria_bind_never_fails: "(\<And>v t l. is_ok (conv v t l)) \<Longrightarrow> never_fails (criteria_bind conv q)"
  by (simp add: never_fails_def decided_def criteria_bind_def Let_def is_ok_iff split: sum.splits) (metis sum.distinct(1))


text \<open>A query with a join to an undeclared parent beside the sample query.\<close>

definition stray_query :: SelectAst where
  "stray_query = SelectAst sample_map [] [] None None None
     [\<lparr>sj_Target = sample_map, sj_Alias = ''j0'', sj_ParentAlias = ''l0'', sj_On = [], sj_Project = True\<rparr>]"


end
