(* ===== verification/Loading.thy ===== *)
theory Loading
  imports Query_Refusal Write_Path
begin

text \<open>
  Loading navigations (\<open>db_eager.go\<close>, \<open>loading_keys.go\<close>, \<open>internal/core/loading.go\<close>): the owners' keys are collected, the targets
  queried through the criteria pipeline by key list or by subquery, put in the order of their keys by value, and
  attached. A key of one builtin integer type takes a path of its own that reads integers and correlates through
  a map.

  The reader is a parameter: what the database, its driver and the result mapper answer to a query of an entity, its
  rows as field values with the error the reading ends in; and whether a collection field holds pointers.
\<close>

datatype FetchMode = FetchMultiQuery | FetchSubSelect | FetchJoin

fun FetchMode_Token :: "FetchMode \<Rightarrow> string" where
  "FetchMode_Token FetchSubSelect = ''SubSelect''"
| "FetchMode_Token FetchJoin = ''Join''"
| "FetchMode_Token FetchMultiQuery = ''MultiQuery''"

definition LoadChunkSize :: nat where
  "LoadChunkSize = 500"

type_synonym row = "string \<Rightarrow> gvalue"

record 'd reader =
  ld_dialect :: Dialect
  ld_query :: "EntityMap \<Rightarrow> string \<Rightarrow> args \<Rightarrow> 'd \<Rightarrow> (row list \<times> go_error option) res \<times> 'd"
  ld_pointerElem :: "gotype \<Rightarrow> string \<Rightarrow> bool"

section \<open>Declared navigations\<close>

definition relationshipNamed :: "EntityMap \<Rightarrow> string \<Rightarrow> RelationshipMap option" where
  "relationshipNamed m navigation = find (\<lambda>r. RelName r = navigation) (Relationships m)"

definition unknownNavigationError :: "EntityMap \<Rightarrow> string \<Rightarrow> go_error" where
  "unknownNavigationError m navigation = OrmError ''REL-001'' (EntityName m @ ''.'' @ navigation)"

definition resolveProperties :: "EntityMap \<Rightarrow> string list \<Rightarrow> string \<Rightarrow> PropertyMap list res" where
  "resolveProperties m names navigationTarget =
     res_map (\<lambda>name. case Property m name of None \<Rightarrow> Inl (OrmError ''REL-003'' navigationTarget) | Some p \<Rightarrow> Inr p) names"

definition checkArity :: "string \<Rightarrow> nat \<Rightarrow> nat \<Rightarrow> unit res" where
  "checkArity navigationTarget have' want = (if have' \<noteq> want then Inl (OrmError ''REL-003'' navigationTarget) else Inr ())"

section \<open>Key tuples\<close>

definition extractTuple :: "memory \<Rightarrow> PropertyMap list \<Rightarrow> ptr \<Rightarrow> KeyTuple" where
  "extractTuple mem properties e = map (\<lambda>p. Get mem p e) properties"

definition propertyNames :: "PropertyMap list \<Rightarrow> string list" where
  "propertyNames properties = map PropertyName properties"

fun distinct_loop :: "KeyTuple list \<Rightarrow> KeyTuple list \<Rightarrow> KeyTuple list" where
  "distinct_loop result [] = result"
| "distinct_loop result (t # ts) =
     (if \<exists>existing \<in> set result. KeyTuple_Equal existing t then distinct_loop result ts else distinct_loop (result @ [t]) ts)"

definition distinctTuples :: "KeyTuple list \<Rightarrow> KeyTuple list" where
  "distinctTuples tuples = distinct_loop [] tuples"

definition correlate :: "memory \<Rightarrow> ptr list \<Rightarrow> PropertyMap list \<Rightarrow> bool \<Rightarrow> KeyTuple option list \<times> KeyTuple list" where
  "correlate mem entities properties needDistinct =
     (let owners = map (\<lambda>e. let t = extractTuple mem properties e in if HasNull t then None else Some t) entities
      in (owners, if needDistinct then distinctTuples (List.map_filter id owners) else []))"

function chunkTuples :: "nat \<Rightarrow> 'a list \<Rightarrow> 'a list list" where
  "chunkTuples n xs = (if xs = [] \<or> n = 0 then [] else take n xs # chunkTuples n (drop n xs))"
  by pat_completeness auto

termination
  by (relation "measure (\<lambda>(n, xs). length xs)") auto

declare chunkTuples.simps [simp del]

text \<open>A tuple of a single-property key has that one part.\<close>

definition membershipCriteria :: "string list \<Rightarrow> KeyTuple list \<Rightarrow> criteria" where
  "membershipCriteria names tuples =
     (case names of
        [name] \<Rightarrow> InList name (map hd tuples)
      | _ \<Rightarrow> Or_any (map (\<lambda>t. And_all (map (\<lambda>(name, v). Eq name v) (zip names t))) tuples))"

section \<open>Integer keys\<close>

definition integerKeyTypes :: "go_kind set" where
  "integerKeyTypes = {KInt IntWord, KInt Int8, KInt Int16, KInt Int32, KInt Int64, KUint Uint8, KUint Uint16, KUint Uint32}"

definition integerKey :: "PropertyMap list \<Rightarrow> bool" where
  "integerKey properties = (case properties of [p] \<Rightarrow> Owner p = None \<and> ValueType p \<in> integerKeyTypes | _ \<Rightarrow> False)"

definition sameIntegerKey :: "PropertyMap list \<Rightarrow> PropertyMap list \<Rightarrow> bool" where
  "sameIntegerKey left right \<longleftrightarrow> integerKey left \<and> integerKey right \<and> ValueType (hd left) = ValueType (hd right)"

fun read_integer :: "gvalue \<Rightarrow> int option" where
  "read_integer (VInt t i) = Some i"
| "read_integer (VUint t n) = (if t \<in> {Uint8, Uint16, Uint32} then Some (int n) else None)"
| "read_integer v = None"

definition readIntegerKey :: "memory \<Rightarrow> PropertyMap \<Rightarrow> ptr \<Rightarrow> int option" where
  "readIntegerKey mem p e = read_integer (Get mem p e)"

fun integer_distinct :: "memory \<Rightarrow> PropertyMap \<Rightarrow> int list \<Rightarrow> ptr list \<Rightarrow> KeyTuple list" where
  "integer_distinct mem p seen [] = []"
| "integer_distinct mem p seen (e # es) =
     (case readIntegerKey mem p e of
        None \<Rightarrow> integer_distinct mem p seen es
      | Some key \<Rightarrow> if key \<in> set seen then integer_distinct mem p seen es else [Get mem p e] # integer_distinct mem p (key # seen) es)"

definition integerOwners :: "memory \<Rightarrow> ptr list \<Rightarrow> PropertyMap \<Rightarrow> bool \<Rightarrow> int option list \<times> KeyTuple list" where
  "integerOwners mem entities p needDistinct =
     (map (readIntegerKey mem p) entities, if needDistinct then integer_distinct mem p [] entities else [])"

definition exactNumericStorage :: "string set" where
  "exactNumericStorage = {''integer'', ''bigint'', ''int'', ''smallint'', ''tinyint'', ''numeric'', ''decimal''}"

definition key_storage :: "string \<Rightarrow> string" where
  "key_storage storageType =
     (let storage = to_lower (TrimSpace storageType)
      in if CHR ''('' \<in> set storage then TrimSpace (takeWhile (\<lambda>c. c \<noteq> CHR ''('') storage) else storage)"

definition keyOrderIsValueOrder :: "Dialect \<Rightarrow> EntityMap \<Rightarrow> PropertyMap list \<Rightarrow> bool" where
  "keyOrderIsValueOrder d m properties \<longleftrightarrow>
     properties \<noteq> [] \<and>
     (\<forall>p \<in> set properties. Owner p = None \<and> (ValueType p \<in> integerKeyTypes \<or> ValueType p = KDecimal) \<and>
        key_storage (StorageType d m p) \<in> exactNumericStorage)"

section \<open>Sorting\<close>

text \<open>
  \<open>slices.SortStableFunc\<close>: equal elements keep their order, which leaves one sorted permutation for a comparison that
  is an order. A pair that does not compare is a panic of the sort.
\<close>

fun insert_by :: "('a \<Rightarrow> 'a \<Rightarrow> int res) \<Rightarrow> 'a \<Rightarrow> 'a list \<Rightarrow> 'a list" where
  "insert_by cmp x [] = [x]"
| "insert_by cmp x (y # ys) = (case cmp x y of Inr c \<Rightarrow> if c \<le> 0 then x # y # ys else y # insert_by cmp x ys | Inl e \<Rightarrow> x # y # ys)"

definition SortStableFunc :: "('a \<Rightarrow> 'a \<Rightarrow> int res) \<Rightarrow> 'a list \<Rightarrow> 'a list res" where
  "SortStableFunc cmp xs =
     (if \<forall>x \<in> set xs. \<forall>y \<in> set xs. is_ok (cmp x y) then Inr (foldr (insert_by cmp) xs []) else Inl GoPanic)"

definition sortByProperties :: "memory \<Rightarrow> PropertyMap list \<Rightarrow> ptr list \<Rightarrow> ptr list res" where
  "sortByProperties mem properties vs =
     (if integerKey properties \<and> (\<forall>v \<in> set vs. readIntegerKey mem (hd properties) v \<noteq> None)
      then SortStableFunc (\<lambda>a b. Inr (compareOrdered (the (readIntegerKey mem (hd properties) a)) (the (readIntegerKey mem (hd properties) b)))) vs
      else SortStableFunc (\<lambda>a b. KeyTuple_Compare (extractTuple mem properties a) (extractTuple mem properties b)) vs)"

section \<open>Querying the targets\<close>

definition read_row :: "EntityMap \<Rightarrow> row \<Rightarrow> ('d world, ptr) prog" where
  "read_row m r w =
     (let (fresh, mem) = materialize (w_mem w) r
      in if \<not> tracking (w_db w) m then (Inr fresh, w\<lparr>w_mem := mem\<rparr>)
         else case resolveRow mem (w_db w) m True fresh of
                Inl e \<Rightarrow> (Inl e, w\<lparr>w_mem := mem\<rparr>)
              | Inr (p, db) \<Rightarrow> (Inr p, w\<lparr>w_mem := mem, w_db := db\<rparr>))"

text \<open>The rows already resolved when the reading fails stay registered.\<close>

definition read_rows :: "EntityMap \<Rightarrow> row list \<times> go_error option \<Rightarrow> ('d world, ptr list) prog" where
  "read_rows m = (\<lambda>(rows, err). bindP (mapP (read_row m) rows) (\<lambda>ps. case err of Some e \<Rightarrow> failP e | None \<Rightarrow> retP ps))"

definition selectRows :: "'d reader \<Rightarrow> SelectAst \<Rightarrow> string \<Rightarrow> ('d world, ptr list) prog" where
  "selectRows rd ast queryName =
     bindP (\<lambda>w. case renderAndRunSelect (ld_dialect rd) (db_conv (w_db w)) (ld_query rd (ast_Map ast)) ast queryName (w_ext w) of
                  (r, d) \<Rightarrow> (r, w\<lparr>w_ext := d\<rparr>))
       (read_rows (ast_Map ast))"

definition with_projection :: "SelectAst \<Rightarrow> PropertyMap list option \<Rightarrow> SelectAst" where
  "with_projection ast projection =
     SelectAst (ast_Map ast) (ast_Where ast) (ast_Orderings ast) (ast_Limit ast) (ast_Offset ast) projection (ast_Joins ast)"

definition sort_targets :: "PropertyMap list \<Rightarrow> ptr list \<Rightarrow> ('d world, ptr list) prog" where
  "sort_targets properties targets = bindP (getP (\<lambda>w. sortByProperties (w_mem w) properties targets)) liftR"

definition key_list_query :: "EntityMap \<Rightarrow> string list \<Rightarrow> PropertyMap list \<Rightarrow> KeyTuple list \<Rightarrow> SelectAst" where
  "key_list_query m names orderProperties chunk =
     SelectAst m [membershipCriteria names chunk] (map (\<lambda>p. \<lparr>or_Property = PropertyName p, or_Order = Asc\<rparr>) orderProperties) None None None []"

definition queryMembership ::
  "'d reader \<Rightarrow> EntityMap \<Rightarrow> string list \<Rightarrow> KeyTuple list \<Rightarrow> SelectAst option \<Rightarrow> PropertyMap list option \<Rightarrow> PropertyMap list \<Rightarrow> string \<Rightarrow>
    ('d world, ptr list) prog" where
  "queryMembership rd m names tuples ownerSubquery subqueryProjection orderProperties queryName =
     (case ownerSubquery of
        Some sub \<Rightarrow>
          bindP (selectRows rd (SelectAst m [InSelect names (with_projection sub subqueryProjection)]
              (map (\<lambda>p. \<lparr>or_Property = PropertyName p, or_Order = Asc\<rparr>) orderProperties) None None None []) queryName) (\<lambda>targets.
            if orderProperties \<noteq> [] \<and> \<not> keyOrderIsValueOrder (ld_dialect rd) m orderProperties then sort_targets orderProperties targets
            else retP targets)
      | None \<Rightarrow>
          if tuples = [] then retP []
          else let chunks = chunkTuples LoadChunkSize tuples in
            bindP (mapP (\<lambda>chunk. selectRows rd (key_list_query m names orderProperties chunk) queryName) chunks) (\<lambda>found.
              let targets = concat found in
              if orderProperties \<noteq> [] \<and> (length chunks > 1 \<or> \<not> keyOrderIsValueOrder (ld_dialect rd) m orderProperties)
              then sort_targets orderProperties targets else retP targets))"

section \<open>Attaching\<close>

definition findByTuple :: "memory \<Rightarrow> ptr list \<Rightarrow> PropertyMap list \<Rightarrow> KeyTuple \<Rightarrow> ptr option" where
  "findByTuple mem vs properties tuple = find (\<lambda>v. KeyTuple_Equal (extractTuple mem properties v) tuple) vs"

definition set_navigation :: "ptr \<Rightarrow> string \<Rightarrow> nav_field \<Rightarrow> memory \<Rightarrow> memory" where
  "set_navigation e name v mem = mem\<lparr>navs := (navs mem)(e := (navs mem e)(name := v))\<rparr>"

definition setPointerField :: "ptr \<Rightarrow> string \<Rightarrow> ptr option \<Rightarrow> memory \<Rightarrow> memory" where
  "setPointerField e name target = set_navigation e name (PointerField target)"

definition setSliceField :: "ptr \<Rightarrow> string \<Rightarrow> ptr list \<Rightarrow> memory \<Rightarrow> memory" where
  "setSliceField e name elems = set_navigation e name (SliceField (Some (map Some elems)))"

text \<open>A slice of values holds copies, at addresses of its own.\<close>

definition copy_instance :: "ptr \<Rightarrow> memory \<Rightarrow> memory" where
  "copy_instance target mem =
     mem\<lparr>fvals := (fvals mem)(hsize mem := fvals mem target), navs := (navs mem)(hsize mem := navs mem target), hsize := Suc (hsize mem)\<rparr>"

fun append_targets :: "bool \<Rightarrow> ptr list \<Rightarrow> ptr list \<times> memory \<Rightarrow> ptr list \<times> memory" where
  "append_targets pointerElem [] (slice, mem) = (slice, mem)"
| "append_targets pointerElem (target # targets) (slice, mem) =
     append_targets pointerElem targets
       (if pointerElem then (slice @ [target], mem) else (slice @ [hsize mem], copy_instance target mem))"

definition attach_slice :: "bool \<Rightarrow> string \<Rightarrow> ptr \<Rightarrow> ptr list \<Rightarrow> memory \<Rightarrow> memory" where
  "attach_slice pointerElem name e targets mem =
     (let (slice, mem') = append_targets pointerElem targets ([], mem) in setSliceField e name slice mem')"

text \<open>Every owner gets its target, or its targets.\<close>

definition attach_pointers :: "string \<Rightarrow> (ptr \<times> ptr option) list \<Rightarrow> memory \<Rightarrow> memory" where
  "attach_pointers name pairs mem = foldl (\<lambda>mem (e, target). setPointerField e name target mem) mem pairs"

definition attach_slices :: "bool \<Rightarrow> string \<Rightarrow> (ptr \<times> ptr list) list \<Rightarrow> memory \<Rightarrow> memory" where
  "attach_slices pointerElem name pairs mem = foldl (\<lambda>mem (e, targets). attach_slice pointerElem name e targets mem) mem pairs"

end
