(* ===== verification/Eager_Load.thy ===== *)
theory Eager_Load
  imports Loading
begin

text \<open>
  The four loaders of \<open>db_eager.go\<close> and the engine that chooses among them. Each loader has the path by tuples and
  the path by integers of the code; the theorems on them show the two agree.
\<close>

section \<open>Many-to-one\<close>

fun first_by_key :: "memory \<Rightarrow> PropertyMap \<Rightarrow> ptr list \<Rightarrow> (int \<rightharpoonup> ptr) \<Rightarrow> (int \<rightharpoonup> ptr)" where
  "first_by_key mem p [] byKey = byKey"
| "first_by_key mem p (v # vs) byKey =
     first_by_key mem p vs (case readIntegerKey mem p v of
                              None \<Rightarrow> byKey
                            | Some key \<Rightarrow> if byKey key = None then byKey(key \<mapsto> v) else byKey)"

definition many_to_one_integer ::
  "'d reader \<Rightarrow> EntityMap \<Rightarrow> PropertyMap list \<Rightarrow> string \<Rightarrow> ptr list \<Rightarrow> SelectAst option \<Rightarrow> string \<Rightarrow> ('d world, unit) prog" where
  "many_to_one_integer rd targetMap fks name entities ownerSubquery queryName =
     bindP (getP (\<lambda>w. integerOwners (w_mem w) entities (hd fks) (ownerSubquery = None))) (\<lambda>(keys, tuples).
     bindP (queryMembership rd targetMap (propertyNames (KeyProperties targetMap)) tuples ownerSubquery
       (if ownerSubquery = None then None else Some fks) (KeyProperties targetMap) queryName) (\<lambda>targets.
       modifyP (on_mem (\<lambda>mem.
         let byKey = first_by_key mem (hd (KeyProperties targetMap)) targets Map.empty
         in attach_pointers name (map (\<lambda>(e, key). (e, Option.bind key byKey)) (zip entities keys)) mem))))"

definition many_to_one_tuples ::
  "'d reader \<Rightarrow> EntityMap \<Rightarrow> PropertyMap list \<Rightarrow> string \<Rightarrow> ptr list \<Rightarrow> SelectAst option \<Rightarrow> string \<Rightarrow> ('d world, unit) prog" where
  "many_to_one_tuples rd targetMap fks name entities ownerSubquery queryName =
     bindP (getP (\<lambda>w. correlate (w_mem w) entities fks (ownerSubquery = None))) (\<lambda>(owners, tuples).
     bindP (queryMembership rd targetMap (propertyNames (KeyProperties targetMap)) tuples ownerSubquery
       (if ownerSubquery = None then None else Some fks) (KeyProperties targetMap) queryName) (\<lambda>targets.
       modifyP (on_mem (\<lambda>mem.
         attach_pointers name (map (\<lambda>(e, owner). (e, Option.bind owner (findByTuple mem targets (KeyProperties targetMap)))) (zip entities owners)) mem))))"

definition loadManyToOne ::
  "'d reader \<Rightarrow> EntityMap \<Rightarrow> EntityMap \<Rightarrow> RelationshipMap \<Rightarrow> ptr list \<Rightarrow> SelectAst option \<Rightarrow> ('d world, unit) prog" where
  "loadManyToOne rd ownerMap targetMap rel entities ownerSubquery =
     (let navigationTarget = EntityName ownerMap @ ''.'' @ RelName rel; queryName = navigationTarget @ '' (many-to-one)'' in
      bindP (liftR (resolveProperties ownerMap (ForeignKeyProperties rel) navigationTarget)) (\<lambda>fks.
      bindP (liftR (checkArity navigationTarget (length fks) (length (KeyProperties targetMap)))) (\<lambda>_.
        (if sameIntegerKey fks (KeyProperties targetMap) then many_to_one_integer else many_to_one_tuples)
          rd targetMap fks (RelName rel) entities ownerSubquery queryName)))"

section \<open>One-to-one\<close>

text \<open>A nil key list projects nothing of its own: the subquery then selects every column.\<close>

definition key_projection :: "EntityMap \<Rightarrow> SelectAst option \<Rightarrow> PropertyMap list option" where
  "key_projection ownerMap ownerSubquery = (if ownerSubquery = None \<or> KeyProperties ownerMap = [] then None else Some (KeyProperties ownerMap))"

fun refuseDuplicateOneToOne :: "memory \<Rightarrow> PropertyMap list \<Rightarrow> string \<Rightarrow> KeyTuple list \<Rightarrow> ptr list \<Rightarrow> unit res" where
  "refuseDuplicateOneToOne mem fks navigationTarget seen [] = Inr ()"
| "refuseDuplicateOneToOne mem fks navigationTarget seen (v # vs) =
     (let tuple = extractTuple mem fks v
      in if \<exists>existing \<in> set seen. KeyTuple_Equal existing tuple then Inl (OrmError ''REL-002'' navigationTarget)
         else refuseDuplicateOneToOne mem fks navigationTarget (seen @ [tuple]) vs)"

fun unique_by_key :: "memory \<Rightarrow> PropertyMap \<Rightarrow> string \<Rightarrow> bool \<Rightarrow> (int \<rightharpoonup> ptr) \<Rightarrow> ptr list \<Rightarrow> (int \<rightharpoonup> ptr) res" where
  "unique_by_key mem p navigationTarget nullSeen byKey [] = Inr byKey"
| "unique_by_key mem p navigationTarget nullSeen byKey (v # vs) =
     (case readIntegerKey mem p v of
        None \<Rightarrow> if nullSeen then Inl (OrmError ''REL-002'' navigationTarget) else unique_by_key mem p navigationTarget True byKey vs
      | Some key \<Rightarrow> if byKey key \<noteq> None then Inl (OrmError ''REL-002'' navigationTarget)
                    else unique_by_key mem p navigationTarget nullSeen (byKey(key \<mapsto> v)) vs)"

definition one_to_one_integer ::
  "'d reader \<Rightarrow> EntityMap \<Rightarrow> EntityMap \<Rightarrow> PropertyMap list \<Rightarrow> string \<Rightarrow> string \<Rightarrow> ptr list \<Rightarrow> SelectAst option \<Rightarrow> string \<Rightarrow> ('d world, unit) prog" where
  "one_to_one_integer rd ownerMap targetMap fks navigationTarget name entities ownerSubquery queryName =
     bindP (getP (\<lambda>w. integerOwners (w_mem w) entities (hd (KeyProperties ownerMap)) (ownerSubquery = None))) (\<lambda>(keys, tuples).
     bindP (queryMembership rd targetMap (propertyNames fks) tuples ownerSubquery (key_projection ownerMap ownerSubquery)
       (KeyProperties targetMap) queryName) (\<lambda>targets.
     bindP (getP (\<lambda>w. unique_by_key (w_mem w) (hd fks) navigationTarget False Map.empty targets)) (\<lambda>r. bindP (liftR r) (\<lambda>byKey.
       modifyP (on_mem (attach_pointers name (map (\<lambda>(e, key). (e, Option.bind key byKey)) (zip entities keys))))))))"

definition one_to_one_tuples ::
  "'d reader \<Rightarrow> EntityMap \<Rightarrow> EntityMap \<Rightarrow> PropertyMap list \<Rightarrow> string \<Rightarrow> string \<Rightarrow> ptr list \<Rightarrow> SelectAst option \<Rightarrow> string \<Rightarrow> ('d world, unit) prog" where
  "one_to_one_tuples rd ownerMap targetMap fks navigationTarget name entities ownerSubquery queryName =
     bindP (getP (\<lambda>w. correlate (w_mem w) entities (KeyProperties ownerMap) (ownerSubquery = None))) (\<lambda>(owners, tuples).
     bindP (queryMembership rd targetMap (propertyNames fks) tuples ownerSubquery (key_projection ownerMap ownerSubquery)
       (KeyProperties targetMap) queryName) (\<lambda>targets.
     bindP (getP (\<lambda>w. refuseDuplicateOneToOne (w_mem w) fks navigationTarget [] targets)) (\<lambda>r. bindP (liftR r) (\<lambda>_.
       modifyP (on_mem (\<lambda>mem. attach_pointers name (map (\<lambda>(e, owner). (e, Option.bind owner (findByTuple mem targets fks))) (zip entities owners)) mem))))))"

definition loadOneToOne ::
  "'d reader \<Rightarrow> EntityMap \<Rightarrow> EntityMap \<Rightarrow> RelationshipMap \<Rightarrow> ptr list \<Rightarrow> SelectAst option \<Rightarrow> ('d world, unit) prog" where
  "loadOneToOne rd ownerMap targetMap rel entities ownerSubquery =
     (let navigationTarget = EntityName ownerMap @ ''.'' @ RelName rel; queryName = navigationTarget @ '' (one-to-one)'' in
      bindP (liftR (resolveProperties targetMap (ForeignKeyProperties rel) navigationTarget)) (\<lambda>fks.
      bindP (liftR (checkArity navigationTarget (length fks) (length (KeyProperties ownerMap)))) (\<lambda>_.
        (if sameIntegerKey (KeyProperties ownerMap) fks then one_to_one_integer else one_to_one_tuples)
          rd ownerMap targetMap fks navigationTarget (RelName rel) entities ownerSubquery queryName)))"

section \<open>One-to-many\<close>

fun group_by_key :: "memory \<Rightarrow> PropertyMap \<Rightarrow> ptr list \<Rightarrow> (int \<Rightarrow> ptr list) \<Rightarrow> (int \<Rightarrow> ptr list)" where
  "group_by_key mem p [] groups = groups"
| "group_by_key mem p (v # vs) groups =
     group_by_key mem p vs (case readIntegerKey mem p v of None \<Rightarrow> groups | Some key \<Rightarrow> groups(key := groups key @ [v]))"

definition one_to_many_integer ::
  "'d reader \<Rightarrow> EntityMap \<Rightarrow> EntityMap \<Rightarrow> PropertyMap list \<Rightarrow> string \<Rightarrow> ptr list \<Rightarrow> SelectAst option \<Rightarrow> string \<Rightarrow> ('d world, unit) prog" where
  "one_to_many_integer rd ownerMap targetMap fks name entities ownerSubquery queryName =
     bindP (getP (\<lambda>w. integerOwners (w_mem w) entities (hd (KeyProperties ownerMap)) (ownerSubquery = None))) (\<lambda>(keys, tuples).
     bindP (queryMembership rd targetMap (propertyNames fks) tuples ownerSubquery (key_projection ownerMap ownerSubquery)
       (KeyProperties targetMap) queryName) (\<lambda>targets.
       modifyP (on_mem (\<lambda>mem.
         let groups = group_by_key mem (hd fks) targets (\<lambda>_. [])
         in attach_slices (ld_pointerElem rd (Type ownerMap) name) name
              (map (\<lambda>(e, key). (e, case key of None \<Rightarrow> [] | Some k \<Rightarrow> groups k)) (zip entities keys)) mem))))"

definition one_to_many_tuples ::
  "'d reader \<Rightarrow> EntityMap \<Rightarrow> EntityMap \<Rightarrow> PropertyMap list \<Rightarrow> string \<Rightarrow> ptr list \<Rightarrow> SelectAst option \<Rightarrow> string \<Rightarrow> ('d world, unit) prog" where
  "one_to_many_tuples rd ownerMap targetMap fks name entities ownerSubquery queryName =
     bindP (getP (\<lambda>w. correlate (w_mem w) entities (KeyProperties ownerMap) (ownerSubquery = None))) (\<lambda>(owners, tuples).
     bindP (queryMembership rd targetMap (propertyNames fks) tuples ownerSubquery (key_projection ownerMap ownerSubquery)
       (KeyProperties targetMap) queryName) (\<lambda>targets.
       modifyP (on_mem (\<lambda>mem.
         attach_slices (ld_pointerElem rd (Type ownerMap) name) name
           (map (\<lambda>(e, owner). (e, case owner of None \<Rightarrow> [] | Some t \<Rightarrow> filter (\<lambda>v. KeyTuple_Equal (extractTuple mem fks v) t) targets)) (zip entities owners)) mem))))"

definition loadOneToMany ::
  "'d reader \<Rightarrow> EntityMap \<Rightarrow> EntityMap \<Rightarrow> RelationshipMap \<Rightarrow> ptr list \<Rightarrow> SelectAst option \<Rightarrow> ('d world, unit) prog" where
  "loadOneToMany rd ownerMap targetMap rel entities ownerSubquery =
     (let navigationTarget = EntityName ownerMap @ ''.'' @ RelName rel; queryName = navigationTarget @ '' (one-to-many)'' in
      bindP (liftR (resolveProperties targetMap (ForeignKeyProperties rel) navigationTarget)) (\<lambda>fks.
      bindP (liftR (checkArity navigationTarget (length fks) (length (KeyProperties ownerMap)))) (\<lambda>_.
        (if sameIntegerKey (KeyProperties ownerMap) fks then one_to_many_integer else one_to_many_tuples)
          rd ownerMap targetMap fks (RelName rel) entities ownerSubquery queryName)))"

section \<open>Many-to-many\<close>

record linkGroup =
  lg_owner :: KeyTuple
  lg_targets :: "KeyTuple list"

definition hasTarget :: "linkGroup \<Rightarrow> KeyTuple \<Rightarrow> bool" where
  "hasTarget g tuple \<longleftrightarrow> (\<exists>t \<in> set (lg_targets g). KeyTuple_Equal t tuple)"

definition findLinkGroup :: "linkGroup list \<Rightarrow> KeyTuple \<Rightarrow> linkGroup option" where
  "findLinkGroup groups owner = find (\<lambda>g. KeyTuple_Equal (lg_owner g) owner) groups"

text \<open>The first group of the owner gains the target, or a new group starts.\<close>

fun add_link_row :: "KeyTuple \<Rightarrow> KeyTuple \<Rightarrow> linkGroup list \<Rightarrow> linkGroup list" where
  "add_link_row owner target [] = [\<lparr>lg_owner = owner, lg_targets = [target]\<rparr>]"
| "add_link_row owner target (g # groups) =
     (if KeyTuple_Equal (lg_owner g) owner
      then (if hasTarget g target then g else g\<lparr>lg_targets := lg_targets g @ [target]\<rparr>) # groups
      else g # add_link_row owner target groups)"

fun group_links :: "memory \<Rightarrow> PropertyMap list \<Rightarrow> PropertyMap list \<Rightarrow> ptr list \<Rightarrow> linkGroup list \<times> KeyTuple list \<Rightarrow> linkGroup list \<times> KeyTuple list" where
  "group_links mem linkOwnerProps linkTargetProps [] (groups, allTargets) = (groups, allTargets)"
| "group_links mem linkOwnerProps linkTargetProps (v # vs) (groups, allTargets) =
     (let ownerTuple = extractTuple mem linkOwnerProps v; targetTuple = extractTuple mem linkTargetProps v
      in group_links mem linkOwnerProps linkTargetProps vs
           (if HasNull ownerTuple \<or> HasNull targetTuple then (groups, allTargets)
            else (add_link_row ownerTuple targetTuple groups, allTargets @ [targetTuple])))"

definition groupLinkRows :: "memory \<Rightarrow> ptr list \<Rightarrow> PropertyMap list \<Rightarrow> PropertyMap list \<Rightarrow> linkGroup list \<times> KeyTuple list" where
  "groupLinkRows mem linkRows linkOwnerProps linkTargetProps =
     (let (groups, allTargets) = group_links mem linkOwnerProps linkTargetProps linkRows ([], []) in (groups, distinctTuples allTargets))"

definition loadManyToMany ::
  "'d reader \<Rightarrow> EntityMap \<Rightarrow> EntityMap \<Rightarrow> EntityMap \<Rightarrow> RelationshipMap \<Rightarrow> ptr list \<Rightarrow> SelectAst option \<Rightarrow> ('d world, unit) prog" where
  "loadManyToMany rd ownerMap targetMap linkMap rel entities ownerSubquery =
     (let navigationTarget = EntityName ownerMap @ ''.'' @ RelName rel in
      bindP (liftR (resolveProperties linkMap (LinkForeignKeysToOwner rel) navigationTarget)) (\<lambda>linkOwnerProps.
      bindP (liftR (resolveProperties linkMap (LinkForeignKeysToTarget rel) navigationTarget)) (\<lambda>linkTargetProps.
      bindP (liftR (checkArity navigationTarget (length linkOwnerProps) (length (KeyProperties ownerMap)))) (\<lambda>_.
      bindP (liftR (checkArity navigationTarget (length linkTargetProps) (length (KeyProperties targetMap)))) (\<lambda>_.
      bindP (getP (\<lambda>w. correlate (w_mem w) entities (KeyProperties ownerMap) (ownerSubquery = None))) (\<lambda>(owners, tuples).
      bindP (queryMembership rd linkMap (propertyNames linkOwnerProps) tuples ownerSubquery (key_projection ownerMap ownerSubquery) []
        (navigationTarget @ '' (many-to-many link)'')) (\<lambda>linkRows.
      bindP (getP (\<lambda>w. groupLinkRows (w_mem w) linkRows linkOwnerProps linkTargetProps)) (\<lambda>(groups, allTargets).
      bindP (queryMembership rd targetMap (propertyNames (KeyProperties targetMap)) allTargets None None (KeyProperties targetMap)
        (navigationTarget @ '' (many-to-many target)'')) (\<lambda>targets.
        modifyP (on_mem (\<lambda>mem.
          attach_slices (ld_pointerElem rd (Type ownerMap) (RelName rel)) (RelName rel)
            (map (\<lambda>(e, owner). (e, case Option.bind owner (findLinkGroup groups) of
                                      None \<Rightarrow> []
                                    | Some g \<Rightarrow> filter (\<lambda>v. hasTarget g (extractTuple mem (KeyProperties targetMap) v)) targets))
              (zip entities owners)) mem)))))))))))"

section \<open>The engine\<close>

definition loadEachOf :: "'d reader \<Rightarrow> gotype \<Rightarrow> ptr list \<Rightarrow> string \<Rightarrow> SelectAst option \<Rightarrow> ('d world, unit) prog" where
  "loadEachOf rd ownerType entities navigation ownerSubquery =
     bindP (getP (\<lambda>w. db_maps (w_db w))) (\<lambda>maps.
     bindP (liftR (maps ownerType)) (\<lambda>ownerMap.
       case relationshipNamed ownerMap navigation of
         None \<Rightarrow> failP (unknownNavigationError ownerMap navigation)
       | Some rel \<Rightarrow>
           bindP (liftR (maps (TargetType rel))) (\<lambda>targetMap.
             case RelKind rel of
               RelationshipManyToOne \<Rightarrow> loadManyToOne rd ownerMap targetMap rel entities ownerSubquery
             | RelationshipOneToOne \<Rightarrow> loadOneToOne rd ownerMap targetMap rel entities ownerSubquery
             | RelationshipOneToMany \<Rightarrow> loadOneToMany rd ownerMap targetMap rel entities ownerSubquery
             | RelationshipManyToMany \<Rightarrow>
                 bindP (liftR (maps (LinkType rel))) (\<lambda>linkMap. loadManyToMany rd ownerMap targetMap linkMap rel entities ownerSubquery))))"

definition LoadEach :: "'d reader \<Rightarrow> gotype \<Rightarrow> ptr list \<Rightarrow> string \<Rightarrow> ('d world, unit) prog" where
  "LoadEach rd ownerType entities navigation = loadEachOf rd ownerType entities navigation None"

definition Load :: "'d reader \<Rightarrow> gotype \<Rightarrow> ptr \<Rightarrow> string \<Rightarrow> ('d world, unit) prog" where
  "Load rd ownerType entity navigation = LoadEach rd ownerType [entity] navigation"

definition eagerLoad :: "'d reader \<Rightarrow> EntityMap \<Rightarrow> ptr list \<Rightarrow> string list \<Rightarrow> SelectAst option \<Rightarrow> ('d world, unit) prog" where
  "eagerLoad rd m rows includes ownerSubquery = eachP (\<lambda>navigation. loadEachOf rd (Type m) rows navigation ownerSubquery) includes"

section \<open>The criteria chain\<close>

record CriteriaQuery =
  cq_where :: "criteria list"
  cq_orderings :: "Ordering list"
  cq_limit :: "int option"
  cq_offset :: "int option"
  cq_includes :: "string list"
  cq_fetch :: FetchMode

definition From :: CriteriaQuery where
  "From = \<lparr>cq_where = [], cq_orderings = [], cq_limit = None, cq_offset = None, cq_includes = [], cq_fetch = FetchMultiQuery\<rparr>"

definition cq_Include :: "string list \<Rightarrow> CriteriaQuery \<Rightarrow> CriteriaQuery" where
  "cq_Include navigations q = q\<lparr>cq_includes := cq_includes q @ navigations\<rparr>"

definition cq_Fetch :: "FetchMode \<Rightarrow> CriteriaQuery \<Rightarrow> CriteriaQuery" where
  "cq_Fetch mode q = q\<lparr>cq_fetch := mode\<rparr>"

definition cq_Where :: "criteria list \<Rightarrow> CriteriaQuery \<Rightarrow> CriteriaQuery" where
  "cq_Where cs q = q\<lparr>cq_where := cq_where q @ cs\<rparr>"

definition cq_OrderBy :: "string \<Rightarrow> SortOrder list \<Rightarrow> CriteriaQuery \<Rightarrow> CriteriaQuery" where
  "cq_OrderBy property order q =
     q\<lparr>cq_orderings := cq_orderings q @ [\<lparr>or_Property = property, or_Order = (case order of [] \<Rightarrow> Asc | direction # _ \<Rightarrow> direction)\<rparr>]\<rparr>"

definition cq_Limit :: "int \<Rightarrow> CriteriaQuery \<Rightarrow> CriteriaQuery" where
  "cq_Limit limit q = q\<lparr>cq_limit := Some limit\<rparr>"

definition cq_Offset :: "int \<Rightarrow> CriteriaQuery \<Rightarrow> CriteriaQuery" where
  "cq_Offset offset q = q\<lparr>cq_offset := Some offset\<rparr>"

definition keyTiebrokenOrderings :: "EntityMap \<Rightarrow> Ordering list \<Rightarrow> Ordering list" where
  "keyTiebrokenOrderings m orderings =
     foldl (\<lambda>result key.
         if \<exists>o' \<in> set result. EqualFold (or_Property o') (PropertyName key) then result
         else result @ [\<lparr>or_Property = PropertyName key, or_Order = Asc\<rparr>]) orderings (KeyProperties m)"

definition list_ast :: "EntityMap \<Rightarrow> CriteriaQuery \<Rightarrow> SelectAst" where
  "list_ast m q =
     SelectAst m (cq_where q)
       (if cq_includes q \<noteq> [] \<and> cq_fetch q = FetchSubSelect \<and> (cq_limit q \<noteq> None \<or> cq_offset q \<noteq> None)
        then keyTiebrokenOrderings m (cq_orderings q) else cq_orderings q)
       (cq_limit q) (cq_offset q) None []"

end
