(* ===== verification/Loading_Paths.thy ===== *)
theory Loading_Paths
  imports Eager_Load
begin

text \<open>
  The integer paths of the loaders are optimisations: on fields that hold values of their declared types they query the
  same keys, refuse the same duplicates and attach the same targets as the paths by tuples.
\<close>

section \<open>Integer keys and tuples\<close>

definition integer_typed :: "go_kind \<Rightarrow> gvalue \<Rightarrow> bool" where
  "integer_typed k v \<longleftrightarrow> v = VNil \<or> kind_of v = k"

lemma field_integer_typed: "field_typed p v \<Longrightarrow> integer_typed (ValueType p) v"
  by (auto simp: field_typed_def integer_typed_def split: if_splits)

lemma integer_typed_cases:
  assumes "k \<in> integerKeyTypes" and "integer_typed k v"
  obtains "v = VNil" | t i where "v = VInt t i" "k = KInt t" | t n where "v = VUint t n" "k = KUint t" "t \<in> {Uint8, Uint16, Uint32}"
  using assms by (cases v) (auto simp: integer_typed_def integerKeyTypes_def)

lemma read_integer_None: "k \<in> integerKeyTypes \<Longrightarrow> integer_typed k v \<Longrightarrow> read_integer v = None \<longleftrightarrow> v = VNil"
  by (elim integer_typed_cases) auto

lemma read_integer_inject:
  "k \<in> integerKeyTypes \<Longrightarrow> integer_typed k v \<Longrightarrow> integer_typed k u \<Longrightarrow> read_integer v = read_integer u \<longleftrightarrow> v = u"
  by (cases v; cases u) (auto simp: integer_typed_def integerKeyTypes_def split: if_splits)

lemma integer_tuple_equal:
  "k \<in> integerKeyTypes \<Longrightarrow> integer_typed k v \<Longrightarrow> integer_typed k u \<Longrightarrow> KeyTuple_Equal [v] [u] \<longleftrightarrow> read_integer v = read_integer u"
  by (auto simp: KeyTuple_Equal_def Keys.DeepEqual_def read_integer_inject elim: integer_typed_cases)

lemma integer_tuple_some:
  "k \<in> integerKeyTypes \<Longrightarrow> integer_typed k v \<Longrightarrow> integer_typed k u \<Longrightarrow> read_integer u = Some i \<Longrightarrow> KeyTuple_Equal [v] [u] \<longleftrightarrow> read_integer v = Some i"
  by (simp add: integer_tuple_equal)

section \<open>The owners\<close>

lemma integer_distinct_loop:
  assumes "k \<in> integerKeyTypes" and "\<forall>e \<in> set es. integer_typed k (Get mem p e)"
    and "\<forall>t \<in> set acc. \<exists>v. t = [v] \<and> integer_typed k v" and "\<forall>i. i \<in> set seen \<longleftrightarrow> (\<exists>v. [v] \<in> set acc \<and> read_integer v = Some i)"
  shows "distinct_loop acc (List.map_filter id (map (\<lambda>e. if Get mem p e = VNil then None else Some [Get mem p e]) es)) = acc @ integer_distinct mem p seen es"
  using assms(2-)
proof (induction es arbitrary: acc seen)
  case Nil
  then show ?case
    by (simp add: map_filter_simps)
next
  case (Cons e es)
  have typed: "integer_typed k (Get mem p e)"
    using Cons.prems(1) by simp
  show ?case
  proof (cases "Get mem p e = VNil")
    case True
    then show ?thesis
      using Cons by (simp add: map_filter_simps readIntegerKey_def)
  next
    case False
    then obtain i where i: "read_integer (Get mem p e) = Some i"
      using read_integer_None [OF assms(1) typed] by auto
    have found: "(\<exists>existing \<in> set acc. KeyTuple_Equal existing [Get mem p e]) \<longleftrightarrow> i \<in> set seen"
      using Cons.prems(2,3) integer_tuple_some [OF assms(1) _ typed i] by fastforce
    show ?thesis
    proof (cases "i \<in> set seen")
      case True
      then show ?thesis
        using Cons found False i by (simp add: map_filter_simps readIntegerKey_def)
    next
      case False
      have "\<forall>t \<in> set (acc @ [[Get mem p e]]). \<exists>v. t = [v] \<and> integer_typed k v"
          "\<forall>j. j \<in> set (i # seen) \<longleftrightarrow> (\<exists>v. [v] \<in> set (acc @ [[Get mem p e]]) \<and> read_integer v = Some j)"
        using Cons.prems(2,3) typed i by auto
      from Cons.IH [OF _ this] show ?thesis
        using Cons.prems(1) False found \<open>Get mem p e \<noteq> VNil\<close> i by (simp add: map_filter_simps readIntegerKey_def)
    qed
  qed
qed

lemma correlate_integer:
  assumes "ValueType p \<in> integerKeyTypes" and "\<forall>e \<in> set es. integer_typed (ValueType p) (Get mem p e)"
  shows "correlate mem es [p] need = (map (\<lambda>e. if Get mem p e = VNil then None else Some [Get mem p e]) es, snd (integerOwners mem es p need))"
proof -
  have "(if HasNull [v] then None else Some [v]) = (if v = VNil then None else Some [v])" for v
    by (auto simp: HasNull_def)
  then show ?thesis
    using integer_distinct_loop [OF assms, where acc = "[]" and seen = "[]"]
    by (simp add: correlate_def integerOwners_def extractTuple_def distinctTuples_def Let_def)
qed


section \<open>The targets\<close>

lemma first_by_key_find:
  "first_by_key mem p vs byKey k = (case byKey k of Some v \<Rightarrow> Some v | None \<Rightarrow> find (\<lambda>v. readIntegerKey mem p v = Some k) vs)"
  by (induction vs arbitrary: byKey) (auto split: option.splits)

lemma group_by_key_filter: "group_by_key mem p vs groups k = groups k @ filter (\<lambda>v. readIntegerKey mem p v = Some k) vs"
  by (induction vs arbitrary: groups) (auto split: option.splits)

lemma unique_by_key_refuse:
  assumes "k \<in> integerKeyTypes" and "\<forall>v \<in> set vs. integer_typed k (Get mem p v)"
    and "\<forall>t \<in> set seen. \<exists>v. t = [v] \<and> integer_typed k v" and "nullSeen \<longleftrightarrow> [VNil] \<in> set seen"
    and "\<forall>i. byKey i \<noteq> None \<longleftrightarrow> (\<exists>v. [v] \<in> set seen \<and> read_integer v = Some i)"
  shows "case refuseDuplicateOneToOne mem [p] target seen vs of
      Inl e \<Rightarrow> unique_by_key mem p target nullSeen byKey vs = Inl e
    | Inr u \<Rightarrow> \<exists>m. unique_by_key mem p target nullSeen byKey vs = Inr m \<and>
        (\<forall>i. m i = (case byKey i of Some v \<Rightarrow> Some v | None \<Rightarrow> find (\<lambda>v. readIntegerKey mem p v = Some i) vs))"
  using assms(2-)
proof (induction vs arbitrary: seen nullSeen byKey)
  case Nil
  then show ?case
    by (auto split: option.splits)
next
  case (Cons v vs)
  have typed: "integer_typed k (Get mem p v)"
    using Cons.prems(1) by simp
  have tuple: "extractTuple mem [p] v = [Get mem p v]"
    by (simp add: extractTuple_def)
  have found: "(\<exists>existing \<in> set seen. KeyTuple_Equal existing [Get mem p v]) \<longleftrightarrow> (\<exists>u. [u] \<in> set seen \<and> read_integer u = read_integer (Get mem p v))"
    using Cons.prems(2) integer_tuple_equal [OF assms(1) _ typed] by fastforce
  show ?case
  proof (cases "read_integer (Get mem p v)")
    case None
    then have nil: "Get mem p v = VNil"
      using read_integer_None [OF assms(1) typed] by simp
    have "(\<exists>u. [u] \<in> set seen \<and> read_integer u = None) \<longleftrightarrow> nullSeen"
      using Cons.prems(2,3) read_integer_None [OF assms(1)] by force
    moreover have "case refuseDuplicateOneToOne mem [p] target (seen @ [[VNil]]) vs of
        Inl e \<Rightarrow> unique_by_key mem p target True byKey vs = Inl e
      | Inr u \<Rightarrow> \<exists>m. unique_by_key mem p target True byKey vs = Inr m \<and>
          (\<forall>j. m j = (case byKey j of Some v \<Rightarrow> Some v | None \<Rightarrow> find (\<lambda>v. readIntegerKey mem p v = Some j) vs))"
      using Cons.prems(1,2,4) by (intro Cons.IH) (auto simp: integer_typed_def)
    ultimately show ?thesis
      using None nil found by (cases "refuseDuplicateOneToOne mem [p] target (seen @ [[VNil]]) vs") (auto simp: tuple Let_def readIntegerKey_def cong: option.case_cong)
  next
    case (Some i)
    then have "Get mem p v \<noteq> VNil"
      by auto
    moreover have "\<forall>t \<in> set (seen @ [[Get mem p v]]). \<exists>v. t = [v] \<and> integer_typed k v"
        "\<forall>j. (byKey(i \<mapsto> v)) j \<noteq> None \<longleftrightarrow> (\<exists>u. [u] \<in> set (seen @ [[Get mem p v]]) \<and> read_integer u = Some j)"
      using Cons.prems(2,4) typed Some by auto
    moreover from calculation(1) have "nullSeen \<longleftrightarrow> [VNil] \<in> set (seen @ [[Get mem p v]])"
      using Cons.prems(3) by auto
    ultimately have IH: "case refuseDuplicateOneToOne mem [p] target (seen @ [[Get mem p v]]) vs of
        Inl e \<Rightarrow> unique_by_key mem p target nullSeen (byKey(i \<mapsto> v)) vs = Inl e
      | Inr u \<Rightarrow> \<exists>m. unique_by_key mem p target nullSeen (byKey(i \<mapsto> v)) vs = Inr m \<and>
          (\<forall>j. m j = (case (byKey(i \<mapsto> v)) j of Some v \<Rightarrow> Some v | None \<Rightarrow> find (\<lambda>v. readIntegerKey mem p v = Some j) vs))"
      using Cons.prems(1) by (intro Cons.IH) simp_all
    show ?thesis
    proof (cases "byKey i")
      case None
      then have "\<not> (\<exists>existing \<in> set seen. KeyTuple_Equal existing [Get mem p v])"
        using found spec [OF Cons.prems(4), of i] Some by simp
      then show ?thesis
        using IH None Some
        by (auto simp: tuple Let_def readIntegerKey_def split: sum.splits option.splits if_splits)
    next
      case held: (Some u)
      then show ?thesis
        using found Cons.prems(4) Some by (auto simp: tuple Let_def readIntegerKey_def)
    qed
  qed
qed

section \<open>The paths agree\<close>

text \<open>An owner or a target field holds a value of its type.\<close>

definition typed_fields :: "memory \<Rightarrow> PropertyMap \<Rightarrow> ptr list \<Rightarrow> bool" where
  "typed_fields mem p es \<longleftrightarrow> (\<forall>e \<in> set es. field_typed p (Get mem p e))"

lemma typed_integer: "typed_fields mem p es \<Longrightarrow> \<forall>e \<in> set es. integer_typed (ValueType p) (Get mem p e)"
  by (auto simp: typed_fields_def field_integer_typed)

lemma integerKey_single: "integerKey ps \<Longrightarrow> \<exists>p. ps = [p] \<and> ValueType p \<in> integerKeyTypes"
  by (auto simp: integerKey_def split: list.splits)

lemma correlate_keys:
  assumes "ValueType p \<in> integerKeyTypes" and "typed_fields mem p es"
  shows "correlate mem es [p] need = (map (\<lambda>e. if Get mem p e = VNil then None else Some [Get mem p e]) es, snd (integerOwners mem es p need))"
  by (rule correlate_integer [OF assms(1) typed_integer [OF assms(2)]])

lemma attach_keys:
  assumes "ValueType p \<in> integerKeyTypes" and "typed_fields mem p es"
    and "f None = g None" and "\<And>v i. integer_typed (ValueType p) v \<Longrightarrow> read_integer v = Some i \<Longrightarrow> f (Some i) = g (Some [v])"
  shows "map (\<lambda>(e, key). (e, f key)) (zip es (map (readIntegerKey mem p) es)) =
    map (\<lambda>(e, owner). (e, g owner)) (zip es (map (\<lambda>e. if Get mem p e = VNil then None else Some [Get mem p e]) es))"
proof -
  have "f (readIntegerKey mem p e) = g (if Get mem p e = VNil then None else Some [Get mem p e])" if "e \<in> set es" for e
  proof (cases "readIntegerKey mem p e")
    case None
    then show ?thesis
      using typed_integer [OF assms(2)] that read_integer_None [OF assms(1)] assms(3) by (auto simp: readIntegerKey_def)
  next
    case (Some i)
    then show ?thesis
      using typed_integer [OF assms(2)] that assms(4) by (auto simp: readIntegerKey_def)
  qed
  then show ?thesis
    by (auto simp: zip_map2 zip_same_conv_map)
qed

lemma bind_getP_cong: "f (g w) w = h (k w) w \<Longrightarrow> bindP (getP g) f w = bindP (getP k) h w"
  by (simp add: bindP_def prog_defs)

lemma bindP_cong_at: "(\<And>x w'. m w = (Inr x, w') \<Longrightarrow> f x w' = h x w') \<Longrightarrow> bindP m f w = bindP m h w"
  by (auto simp: bindP_def split: prod.splits sum.splits)

lemma find_same: "(\<And>v. v \<in> set vs \<Longrightarrow> P v \<longleftrightarrow> Q v) \<Longrightarrow> find P vs = find Q vs"
  by (induction vs) auto

lemma find_by_integer:
  assumes "ValueType q \<in> integerKeyTypes" and "typed_fields mem q vs" and "integer_typed (ValueType q) u" and "read_integer u = Some i"
  shows "find (\<lambda>v. readIntegerKey mem q v = Some i) vs = findByTuple mem vs [q] [u]"
    and "filter (\<lambda>v. readIntegerKey mem q v = Some i) vs = filter (\<lambda>v. KeyTuple_Equal (extractTuple mem [q] v) [u]) vs"
proof -
  have "KeyTuple_Equal (extractTuple mem [q] v) [u] \<longleftrightarrow> readIntegerKey mem q v = Some i" if "v \<in> set vs" for v
    using typed_integer [OF assms(2)] that integer_tuple_some [OF assms(1) _ assms(3,4)] by (simp add: extractTuple_def readIntegerKey_def)
  then show "find (\<lambda>v. readIntegerKey mem q v = Some i) vs = findByTuple mem vs [q] [u]"
    "filter (\<lambda>v. readIntegerKey mem q v = Some i) vs = filter (\<lambda>v. KeyTuple_Equal (extractTuple mem [q] v) [u]) vs"
    by (auto simp: findByTuple_def intro: find_same filter_cong)
qed

text \<open>The targets a query answers have fields of their types, in the memory the query leaves.\<close>

definition typed_answers :: "('d world, ptr list) prog \<Rightarrow> PropertyMap \<Rightarrow> 'd world \<Rightarrow> bool" where
  "typed_answers query q w \<longleftrightarrow> (\<forall>targets w'. query w = (Inr targets, w') \<longrightarrow> typed_fields (w_mem w') q targets)"

lemma many_to_one_paths:
  assumes "sameIntegerKey fks (KeyProperties targetMap)" and "typed_fields (w_mem w) (hd fks) entities"
    and "typed_answers (queryMembership rd targetMap (propertyNames (KeyProperties targetMap)) (snd (correlate (w_mem w) entities fks (sub = None))) sub
      (if sub = None then None else Some fks) (KeyProperties targetMap) q) (hd (KeyProperties targetMap)) w"
  shows "many_to_one_integer rd targetMap fks name entities sub q w = many_to_one_tuples rd targetMap fks name entities sub q w"
proof -
  obtain p k where p: "fks = [p]" "KeyProperties targetMap = [k]" "ValueType p \<in> integerKeyTypes" "ValueType k = ValueType p"
    using assms(1) by (auto simp: sameIntegerKey_def dest!: integerKey_single)
  have typed: "typed_fields (w_mem w) p entities"
    using assms(2) p(1) by simp
  show ?thesis
    unfolding many_to_one_integer_def many_to_one_tuples_def p(1)
  proof (rule bind_getP_cong, unfold correlate_keys [OF p(3) typed] prod.case list.sel integerOwners_def prod.sel, rule bindP_cong_at)
    fix targets w'
    assume "queryMembership rd targetMap (propertyNames (KeyProperties targetMap)) (if sub = None then integer_distinct (w_mem w) p [] entities else []) sub
      (if sub = None then None else Some [p]) (KeyProperties targetMap) q w = (Inr targets, w')"
    then have "typed_fields (w_mem w') k targets"
      using assms(3) by (simp add: typed_answers_def p correlate_keys [OF p(3) typed] integerOwners_def cong: if_cong)
    then have "map (\<lambda>(e, key). (e, Option.bind key (first_by_key (w_mem w') k targets Map.empty))) (zip entities (map (readIntegerKey (w_mem w) p) entities)) =
       map (\<lambda>(e, owner). (e, Option.bind owner (findByTuple (w_mem w') targets [k])))
         (zip entities (map (\<lambda>e. if Get (w_mem w) p e = VNil then None else Some [Get (w_mem w) p e]) entities))"
      using p(3,4) by (intro attach_keys [OF p(3) typed]) (simp_all add: first_by_key_find find_by_integer(1))
    then show "modifyP (on_mem (\<lambda>mem. let byKey = first_by_key mem (hd (KeyProperties targetMap)) targets Map.empty
          in attach_pointers name (map (\<lambda>(e, key). (e, Option.bind key byKey)) (zip entities (map (readIntegerKey (w_mem w) p) entities))) mem)) w' =
        modifyP (on_mem (\<lambda>mem. attach_pointers name
          (map (\<lambda>(e, owner). (e, Option.bind owner (findByTuple mem targets (KeyProperties targetMap))))
            (zip entities (map (\<lambda>e. if Get (w_mem w) p e = VNil then None else Some [Get (w_mem w) p e]) entities))) mem)) w'"
      by (simp add: p(2) prog_defs on_mem_def Let_def)
  qed
qed

lemma one_to_one_paths:
  assumes "sameIntegerKey (KeyProperties ownerMap) fks" and "typed_fields (w_mem w) (hd (KeyProperties ownerMap)) entities"
    and "typed_answers (queryMembership rd targetMap (propertyNames fks) (snd (correlate (w_mem w) entities (KeyProperties ownerMap) (sub = None))) sub
      (key_projection ownerMap sub) (KeyProperties targetMap) q) (hd fks) w"
  shows "one_to_one_integer rd ownerMap targetMap fks target name entities sub q w = one_to_one_tuples rd ownerMap targetMap fks target name entities sub q w"
proof -
  obtain p k where p: "KeyProperties ownerMap = [p]" "fks = [k]" "ValueType p \<in> integerKeyTypes" "ValueType k = ValueType p"
    using assms(1) by (auto simp: sameIntegerKey_def dest!: integerKey_single)
  have typed: "typed_fields (w_mem w) p entities"
    using assms(2) p(1) by simp
  let ?keys = "map (readIntegerKey (w_mem w) p) entities"
    and ?owners = "map (\<lambda>e. if Get (w_mem w) p e = VNil then None else Some [Get (w_mem w) p e]) entities"
  show ?thesis
    unfolding one_to_one_integer_def one_to_one_tuples_def p(1,2)
  proof (rule bind_getP_cong, unfold correlate_keys [OF p(3) typed] prod.case list.sel integerOwners_def prod.sel, rule bindP_cong_at)
    fix targets w'
    assume "queryMembership rd targetMap (propertyNames [k]) (if sub = None then integer_distinct (w_mem w) p [] entities else []) sub
      (key_projection ownerMap sub) (KeyProperties targetMap) q w = (Inr targets, w')"
    then have answers: "typed_fields (w_mem w') k targets"
      using assms(3) by (simp add: typed_answers_def p correlate_keys [OF p(3) typed] integerOwners_def cong: if_cong)
    have unique: "case refuseDuplicateOneToOne (w_mem w') [k] target [] targets of
        Inl e \<Rightarrow> unique_by_key (w_mem w') k target False Map.empty targets = Inl e
      | Inr u \<Rightarrow> \<exists>m. unique_by_key (w_mem w') k target False Map.empty targets = Inr m \<and>
          (\<forall>i. m i = find (\<lambda>v. readIntegerKey (w_mem w') k v = Some i) targets)"
      using unique_by_key_refuse [OF _ typed_integer [OF answers], where seen = "[]" and nullSeen = False and byKey = Map.empty] p(3,4) by (simp cong: sum.case_cong)
    have attach: "map (\<lambda>(e, key). (e, Option.bind key m)) (zip entities ?keys) =
        map (\<lambda>(e, owner). (e, Option.bind owner (findByTuple (w_mem w') targets [k]))) (zip entities ?owners)"
      if "\<forall>i. m i = find (\<lambda>v. readIntegerKey (w_mem w') k v = Some i) targets" for m
      using answers p(3,4) that by (intro attach_keys [OF p(3) typed]) (simp_all add: find_by_integer(1))
    show "bindP (getP (\<lambda>w. unique_by_key (w_mem w) k target False Map.empty targets)) (\<lambda>r. bindP (liftR r) (\<lambda>byKey.
          modifyP (on_mem (attach_pointers name (map (\<lambda>(e, key). (e, Option.bind key byKey)) (zip entities ?keys)))))) w' =
        bindP (getP (\<lambda>w. refuseDuplicateOneToOne (w_mem w) [k] target [] targets)) (\<lambda>r. bindP (liftR r) (\<lambda>_.
          modifyP (on_mem (\<lambda>mem. attach_pointers name (map (\<lambda>(e, owner). (e, Option.bind owner (findByTuple mem targets [k]))) (zip entities ?owners)) mem)))) w'"
      using unique attach by (auto simp: bindP_def prog_defs on_mem_def split: sum.splits)
  qed
qed

lemma one_to_many_paths:
  assumes "sameIntegerKey (KeyProperties ownerMap) fks" and "typed_fields (w_mem w) (hd (KeyProperties ownerMap)) entities"
    and "typed_answers (queryMembership rd targetMap (propertyNames fks) (snd (correlate (w_mem w) entities (KeyProperties ownerMap) (sub = None))) sub
      (key_projection ownerMap sub) (KeyProperties targetMap) q) (hd fks) w"
  shows "one_to_many_integer rd ownerMap targetMap fks name entities sub q w = one_to_many_tuples rd ownerMap targetMap fks name entities sub q w"
proof -
  obtain p k where p: "KeyProperties ownerMap = [p]" "fks = [k]" "ValueType p \<in> integerKeyTypes" "ValueType k = ValueType p"
    using assms(1) by (auto simp: sameIntegerKey_def dest!: integerKey_single)
  have typed: "typed_fields (w_mem w) p entities"
    using assms(2) p(1) by simp
  let ?keys = "map (readIntegerKey (w_mem w) p) entities"
    and ?owners = "map (\<lambda>e. if Get (w_mem w) p e = VNil then None else Some [Get (w_mem w) p e]) entities"
  show ?thesis
    unfolding one_to_many_integer_def one_to_many_tuples_def p(1,2)
  proof (rule bind_getP_cong, unfold correlate_keys [OF p(3) typed] prod.case list.sel integerOwners_def prod.sel, rule bindP_cong_at)
    fix targets w'
    assume "queryMembership rd targetMap (propertyNames [k]) (if sub = None then integer_distinct (w_mem w) p [] entities else []) sub
      (key_projection ownerMap sub) (KeyProperties targetMap) q w = (Inr targets, w')"
    then have "typed_fields (w_mem w') k targets"
      using assms(3) by (simp add: typed_answers_def p correlate_keys [OF p(3) typed] integerOwners_def cong: if_cong)
    then have "map (\<lambda>(e, key). (e, case key of None \<Rightarrow> [] | Some i \<Rightarrow> group_by_key (w_mem w') k targets (\<lambda>_. []) i)) (zip entities ?keys) =
        map (\<lambda>(e, owner). (e, case owner of None \<Rightarrow> [] | Some t \<Rightarrow> filter (\<lambda>v. KeyTuple_Equal (extractTuple (w_mem w') [k] v) t) targets)) (zip entities ?owners)"
      using p(3,4) by (intro attach_keys [OF p(3) typed]) (simp_all add: group_by_key_filter find_by_integer(2))
    then show "modifyP (on_mem (\<lambda>mem. let groups = group_by_key mem k targets (\<lambda>_. [])
          in attach_slices (ld_pointerElem rd (Type ownerMap) name) name
               (map (\<lambda>(e, key). (e, case key of None \<Rightarrow> [] | Some i \<Rightarrow> groups i)) (zip entities ?keys)) mem)) w' =
        modifyP (on_mem (\<lambda>mem. attach_slices (ld_pointerElem rd (Type ownerMap) name) name
          (map (\<lambda>(e, owner). (e, case owner of None \<Rightarrow> [] | Some t \<Rightarrow> filter (\<lambda>v. KeyTuple_Equal (extractTuple mem [k] v) t) targets)) (zip entities ?owners)) mem)) w'"
      by (simp add: prog_defs on_mem_def Let_def)
  qed
qed

end
