(* ===== verification/Loading_Rows.thy ===== *)
theory Loading_Rows
  imports Loading_Paths
begin

text \<open>
  What the reading of targets gives: fresh instances holding the rows, chunk after chunk, and a stable sort that
  permutes them into the order of their keys.
\<close>

section \<open>Reading rows\<close>

text \<open>The memory after rows were read into fresh instances.\<close>

definition reads :: "memory \<Rightarrow> row list \<Rightarrow> memory \<Rightarrow> bool" where
  "reads mem rows mem' \<longleftrightarrow>
     hsize mem' = hsize mem + length rows \<and> (\<forall>p < hsize mem. fvals mem' p = fvals mem p \<and> navs mem' p = navs mem p) \<and>
     map (fvals mem') [hsize mem..<hsize mem'] = rows"

lemma reads_none: "reads mem [] mem"
  by (simp add: reads_def)

lemma reads_append:
  assumes "reads mem rows mem'" and "reads mem' rows' mem''"
  shows "reads mem (rows @ rows') mem''"
proof -
  have sizes: "hsize mem \<le> hsize mem'" "hsize mem' \<le> hsize mem''"
    using assms by (simp_all add: reads_def)
  have "map (fvals mem'') [hsize mem..<hsize mem'] = rows"
    using assms by (auto simp: reads_def)
  moreover have "map (fvals mem'') [hsize mem'..<hsize mem''] = rows'"
    using assms(2) unfolding reads_def by blast
  ultimately have "map (fvals mem'') ([hsize mem..<hsize mem'] @ [hsize mem'..<hsize mem'']) = rows @ rows'"
    by (simp only: map_append)
  moreover have "[hsize mem..<hsize mem'] @ [hsize mem'..<hsize mem''] = [hsize mem..<hsize mem'']"
    using upt_add_eq_append [OF sizes(1), of "hsize mem'' - hsize mem'"] sizes by simp
  ultimately show ?thesis
    using assms by (simp add: reads_def)
qed

lemma reads_row: "reads mem [r] (snd (materialize mem r))"
  by (simp add: reads_def materialize_def)

lemma read_row_untracked:
  assumes "db_tracker (w_db w) = None"
  shows "read_row m r w = (Inr (hsize (w_mem w)), w\<lparr>w_mem := snd (materialize (w_mem w) r)\<rparr>)"
  using assms by (simp add: read_row_def tracking_def materialize_def Let_def)

lemma map_rows_untracked:
  assumes "db_tracker (w_db w) = None"
  shows "\<exists>mem. mapP (read_row m) rows w = (Inr [hsize (w_mem w)..<hsize mem], w\<lparr>w_mem := mem\<rparr>) \<and> reads (w_mem w) rows mem"
  using assms
proof (induction rows arbitrary: w)
  case Nil
  then show ?case
    by (intro exI [where x = "w_mem w"]) (simp add: prog_defs reads_none)
next
  case (Cons r rows)
  let ?w = "w\<lparr>w_mem := snd (materialize (w_mem w) r)\<rparr>"
  obtain mem where mem: "mapP (read_row m) rows ?w = (Inr [hsize (w_mem ?w)..<hsize mem], ?w\<lparr>w_mem := mem\<rparr>)" "reads (w_mem ?w) rows mem"
    using Cons.IH [of ?w] Cons.prems by auto
  have "reads (w_mem w) ([r] @ rows) mem"
    using reads_append [OF reads_row] mem(2) by simp
  moreover from this have "[hsize (w_mem w)..<hsize mem] = hsize (w_mem w) # [Suc (hsize (w_mem w))..<hsize mem]"
    by (simp add: reads_def upt_rec)
  moreover have "hsize (w_mem ?w) = Suc (hsize (w_mem w))"
    by (simp add: materialize_def)
  ultimately show ?case
    using mem(1) by (intro exI [where x = mem]) (simp add: bindP_def prog_defs read_row_untracked [OF Cons.prems])
qed

text \<open>One query that answers rows, from a session that tracks nothing.\<close>

definition answers_rows :: "'d reader \<Rightarrow> to_database \<Rightarrow> SelectAst \<Rightarrow> string \<Rightarrow> 'd \<Rightarrow> row list \<Rightarrow> bool" where
  "answers_rows rd conv ast q d rows \<longleftrightarrow>
     renderAndRunSelect (ld_dialect rd) conv (ld_query rd (ast_Map ast)) ast q d = (Inr (rows, None), d)"

lemma selectRows_untracked:
  assumes "db_tracker (w_db w) = None" and "answers_rows rd (db_conv (w_db w)) ast q (w_ext w) rows"
  shows "\<exists>mem. selectRows rd ast q w = (Inr [hsize (w_mem w)..<hsize mem], w\<lparr>w_mem := mem\<rparr>) \<and> reads (w_mem w) rows mem"
proof -
  have "w\<lparr>w_ext := w_ext w\<rparr> = w"
    by simp
  then show ?thesis
    using map_rows_untracked [OF assms(1), of "ast_Map ast" rows] assms(2)
    by (auto simp: selectRows_def read_rows_def answers_rows_def bindP_def prog_defs)
qed

lemma map_queries_untracked:
  assumes "db_tracker (w_db w) = None"
    and "list_all2 (\<lambda>ast rows. answers_rows rd conv ast q d rows) asts rowss" and "db_conv (w_db w) = conv" and "w_ext w = d"
  shows "\<exists>found mem. mapP (\<lambda>ast. selectRows rd ast q) asts w = (Inr found, w\<lparr>w_mem := mem\<rparr>) \<and>
    concat found = [hsize (w_mem w)..<hsize mem] \<and> reads (w_mem w) (concat rowss) mem"
  using assms(2,1,3,4)
proof (induction asts rowss arbitrary: w rule: list_all2_induct)
  case Nil
  then show ?case
    by (intro exI [where x = "[]"] exI [where x = "w_mem w"]) (simp add: prog_defs reads_none)
next
  case (Cons ast asts rows rowss)
  obtain mem where mem: "selectRows rd ast q w = (Inr [hsize (w_mem w)..<hsize mem], w\<lparr>w_mem := mem\<rparr>)" "reads (w_mem w) rows mem"
    using selectRows_untracked [OF Cons.prems(1)] Cons.hyps(1) Cons.prems(2,3) by blast
  obtain found mem' where rest: "mapP (\<lambda>ast. selectRows rd ast q) asts (w\<lparr>w_mem := mem\<rparr>) = (Inr found, w\<lparr>w_mem := mem'\<rparr>)"
      "concat found = [hsize mem..<hsize mem']" "reads mem (concat rowss) mem'"
    using Cons.IH [of "w\<lparr>w_mem := mem\<rparr>"] Cons.prems by auto
  have sizes: "hsize (w_mem w) \<le> hsize mem" "hsize mem \<le> hsize mem'"
    using mem(2) rest(3) by (simp_all add: reads_def)
  have "[hsize (w_mem w)..<hsize mem] @ [hsize mem..<hsize mem'] = [hsize (w_mem w)..<hsize mem']"
    using upt_add_eq_append [OF sizes(1), of "hsize mem' - hsize mem"] sizes by simp
  then show ?case
    using mem rest reads_append [OF mem(2) rest(3)]
    by (intro exI [where x = "[hsize (w_mem w)..<hsize mem] # found"] exI [where x = mem']) (simp add: bindP_def prog_defs)
qed

lemma mapP_map: "mapP f (map g xs) = mapP (\<lambda>x. f (g x)) xs"
  by (induction xs) simp_all

section \<open>Chunks\<close>

lemma concat_chunkTuples: "0 < n \<Longrightarrow> concat (chunkTuples n xs) = xs"
proof (induction n xs rule: chunkTuples.induct)
  case (1 n xs)
  then show ?case
    by (subst chunkTuples.simps) auto
qed

lemma chunkTuples_bounds: "0 < n \<Longrightarrow> c \<in> set (chunkTuples n xs) \<Longrightarrow> c \<noteq> [] \<and> length c \<le> n \<and> set c \<subseteq> set xs"
proof (induction n xs rule: chunkTuples.induct)
  case (1 n xs)
  show ?case
  proof (cases "xs = []")
    case True
    then show ?thesis
      using "1.prems" by (subst (asm) chunkTuples.simps) simp
  next
    case False
    then have "c = take n xs \<or> c \<in> set (chunkTuples n (drop n xs))"
      using "1.prems" by (subst (asm) chunkTuples.simps) auto
    then show ?thesis
      using "1.IH" "1.prems"(1) False set_drop_subset [of n xs] set_take_subset [of n xs] by auto
  qed
qed

lemma single_chunk: "length (chunkTuples n xs) \<le> 1 \<Longrightarrow> xs \<noteq> [] \<Longrightarrow> 0 < n \<Longrightarrow> chunkTuples n xs = [xs]"
  using concat_chunkTuples [of n xs] by (cases "chunkTuples n xs") auto

section \<open>Sorting\<close>

definition sorted_by :: "('a \<Rightarrow> 'a \<Rightarrow> int res) \<Rightarrow> 'a list \<Rightarrow> bool" where
  "sorted_by cmp xs \<longleftrightarrow> sorted_wrt (\<lambda>x y. \<exists>c \<le> 0. cmp x y = Inr c) xs"

lemma mset_insert_by: "mset (insert_by cmp x xs) = add_mset x (mset xs)"
  by (induction xs) (auto split: sum.splits)

lemma set_insert_by [simp]: "set (insert_by cmp x xs) = insert x (set xs)"
  by (metis mset_insert_by set_mset_add_mset_insert set_mset_mset)

context key_compare
begin

lemma insert_by_sorted:
  assumes "ok x" and "\<forall>y \<in> set xs. ok y" and "sorted_by cmp xs"
  shows "sorted_by cmp (insert_by cmp x xs)"
  using assms(2,3)
proof (induction xs)
  case Nil
  then show ?case
    by (simp add: sorted_by_def)
next
  case (Cons y ys)
  obtain c where c: "cmp x y = Inr c"
    using cmp_total [OF assms(1), of y] Cons.prems(1) by auto
  show ?case
  proof (cases "c \<le> 0")
    case True
    then show ?thesis
      using Cons.prems c assms(1) by (auto simp: sorted_by_def intro: cmp_trans)
  next
    case False
    then have "\<exists>c \<le> 0. cmp y x = Inr c"
      using cmp_flip [OF assms(1) _ c] Cons.prems(1) by (intro exI [where x = "- c"]) auto
    then show ?thesis
      using Cons c False by (auto simp: sorted_by_def)
  qed
qed

lemma insertion_sorted: "\<forall>y \<in> set xs. ok y \<Longrightarrow> sorted_by cmp (foldr (insert_by cmp) xs []) \<and> mset (foldr (insert_by cmp) xs []) = mset xs"
proof (induction xs)
  case (Cons x xs)
  have "set (foldr (insert_by cmp) xs []) = set xs"
    using Cons by (metis list.set_intros(2) set_mset_mset)
  then show ?case
    using Cons insert_by_sorted [of x "foldr (insert_by cmp) xs []"] by (simp add: mset_insert_by)
qed (simp add: sorted_by_def)

lemma SortStable_sorts:
  assumes "\<forall>y \<in> set xs. ok y"
  shows "\<exists>ys. SortStableFunc cmp xs = Inr ys \<and> mset ys = mset xs \<and> sorted_by cmp ys"
  using insertion_sorted [OF assms] assms cmp_total by (fastforce simp: SortStableFunc_def is_ok_iff)

end

text \<open>Sorting by a view of the elements.\<close>

lemma insert_by_image: "map f (insert_by (\<lambda>a b. cmp (f a) (f b)) x xs) = insert_by cmp (f x) (map f xs)"
  by (induction xs) (auto split: sum.splits)

lemma insertion_image: "map f (foldr (insert_by (\<lambda>a b. cmp (f a) (f b))) xs []) = foldr (insert_by cmp) (map f xs) []"
  by (induction xs) (simp_all add: insert_by_image)

lemma mset_insertion: "mset (foldr (insert_by cmp) xs []) = mset xs"
  by (induction xs) (simp_all add: mset_insert_by)

lemma SortStable_by:
  assumes "key_compare ok cmp" and "\<forall>x \<in> set xs. ok (f x)"
  shows "\<exists>ys. SortStableFunc (\<lambda>a b. cmp (f a) (f b)) xs = Inr ys \<and> mset ys = mset xs \<and> sorted_by (\<lambda>a b. cmp (f a) (f b)) ys"
proof -
  let ?ys = "foldr (insert_by (\<lambda>a b. cmp (f a) (f b))) xs []"
  have "sorted_by cmp (map f ?ys)"
    unfolding insertion_image using key_compare.insertion_sorted [OF assms(1)] assms(2) by simp
  then have "sorted_by (\<lambda>a b. cmp (f a) (f b)) ?ys"
    by (simp add: sorted_by_def sorted_wrt_map)
  moreover have "SortStableFunc (\<lambda>a b. cmp (f a) (f b)) xs = Inr ?ys"
    using assms key_compare.cmp_total [OF assms(1)] by (fastforce simp: SortStableFunc_def is_ok_iff)
  ultimately show ?thesis
    by (simp add: mset_insertion)
qed

text \<open>The integer comparison is the tuples' own.\<close>

lemma compare_integer:
  assumes "k \<in> integerKeyTypes" and "integer_typed k v" and "integer_typed k u" and "read_integer v = Some i" and "read_integer u = Some j"
  shows "KeyTuple_Compare [v] [u] = Inr (compareOrdered i j)"
  using assms by (cases v; cases u) (auto simp: compareOrdered_def integer_typed_def integerKeyTypes_def split: if_splits)

lemma SortStable_cong:
  assumes "\<And>a b. a \<in> set xs \<Longrightarrow> b \<in> set xs \<Longrightarrow> cmp a b = cmp' a b"
  shows "SortStableFunc cmp xs = SortStableFunc cmp' xs"
proof -
  have insert: "insert_by cmp x ys = insert_by cmp' x ys" if "\<And>y. y \<in> set ys \<Longrightarrow> cmp x y = cmp' x y" for x ys
    using that by (induction ys) (auto split: sum.splits)
  have "foldr (insert_by cmp) xs [] = foldr (insert_by cmp') xs []"
    using assms
  proof (induction xs)
    case (Cons x xs)
    have "set (foldr (insert_by cmp') xs []) = set xs"
      by (metis mset_insertion set_mset_mset)
    then show ?case
      using Cons insert [of "foldr (insert_by cmp') xs []" x] by simp
  qed simp
  then show ?thesis
    using assms by (simp add: SortStableFunc_def)
qed

lemma sortByProperties_tuples:
  assumes "\<forall>v \<in> set vs. \<forall>p \<in> set ps. field_typed p (Get mem p v)"
  shows "sortByProperties mem ps vs = SortStableFunc (\<lambda>a b. KeyTuple_Compare (extractTuple mem ps a) (extractTuple mem ps b)) vs"
proof (cases "integerKey ps \<and> (\<forall>v \<in> set vs. readIntegerKey mem (hd ps) v \<noteq> None)")
  case True
  then obtain p where p: "ps = [p]" "ValueType p \<in> integerKeyTypes"
    using integerKey_single by blast
  have "Inr (compareOrdered (the (readIntegerKey mem p a)) (the (readIntegerKey mem p b))) = KeyTuple_Compare (extractTuple mem [p] a) (extractTuple mem [p] b)"
    if ab: "a \<in> set vs" "b \<in> set vs" for a b
  proof -
    have "field_typed p (Get mem p a)" "field_typed p (Get mem p b)"
      using assms p(1) ab by simp_all
    moreover obtain i j where "read_integer (Get mem p a) = Some i" "read_integer (Get mem p b) = Some j"
      using True p(1) ab by (force simp: readIntegerKey_def)
    ultimately show ?thesis
      using compare_integer [OF p(2) field_integer_typed field_integer_typed, of "Get mem p a" "Get mem p b" i j]
      by (simp add: readIntegerKey_def extractTuple_def del: KeyTuple_Compare.simps)
  qed
  then show ?thesis
    unfolding sortByProperties_def p(1) list.sel if_P [OF True [unfolded p(1) list.sel]] by (intro SortStable_cong) simp
next
  case False
  then show ?thesis
    by (simp only: sortByProperties_def if_False)
qed

end
