(* ===== verification/Loading_Correct.thy ===== *)
theory Loading_Correct
  imports Loading_Rows
begin

text \<open>
  What a load gives the caller: in a session that tracks nothing, over a database that answers a key list with the
  rows of those keys, every owner of a one-to-many navigation holds exactly its rows, in key order, however the
  keys are chunked and whichever path the keys take.
\<close>

section \<open>Tuples of rows\<close>

definition row_tuple :: "PropertyMap list \<Rightarrow> row \<Rightarrow> KeyTuple" where
  "row_tuple ps r = map (\<lambda>p. r (PropertyName p)) ps"

lemma extract_row: "extractTuple mem ps v = row_tuple ps (fvals mem v)"
  by (simp add: extractTuple_def row_tuple_def Get_def)

lemma Equal_eq: "KeyTuple_Equal a b \<Longrightarrow> a = b"
  by (auto simp: KeyTuple_Equal_def Keys.DeepEqual_def list_all2_conv_all_nth list_eq_iff_nth_eq)

definition pairwise_unequal :: "KeyTuple list \<Rightarrow> bool" where
  "pairwise_unequal ts \<longleftrightarrow> sorted_wrt (\<lambda>a b. \<not> KeyTuple_Equal a b) ts"

lemma distinct_loop_spec:
  "pairwise_unequal acc \<Longrightarrow> pairwise_unequal (distinct_loop acc ts) \<and> set acc \<subseteq> set (distinct_loop acc ts) \<and> set (distinct_loop acc ts) \<subseteq> set acc \<union> set ts \<and>
   (\<forall>t \<in> set ts. KeyTuple_Equal t t \<longrightarrow> t \<in> set (distinct_loop acc ts))"
proof (induction ts arbitrary: acc)
  case (Cons t ts)
  show ?case
  proof (cases "\<exists>existing \<in> set acc. KeyTuple_Equal existing t")
    case True
    then have "t \<in> set acc"
      using Equal_eq by auto
    then show ?thesis
      using Cons True by auto
  next
    case False
    then have "pairwise_unequal (acc @ [t])"
      using Cons.prems by (auto simp: pairwise_unequal_def sorted_wrt_append)
    then show ?thesis
      using Cons.IH [of "acc @ [t]"] False by auto
  qed
qed simp

definition matches :: "PropertyMap list \<Rightarrow> KeyTuple list \<Rightarrow> row \<Rightarrow> bool" where
  "matches ps ts r \<longleftrightarrow> (\<exists>t \<in> set ts. KeyTuple_Equal (row_tuple ps r) t)"

lemma chunked_rows:
  "list_all2 (\<lambda>chunk rows. mset rows = filter_mset (matches ps chunk) table) chunks rowss \<Longrightarrow> pairwise_unequal (concat chunks) \<Longrightarrow>
   mset (concat rowss) = filter_mset (matches ps (concat chunks)) table"
proof (induction chunks rowss rule: list_all2_induct)
  case Nil
  show ?case
    by (simp add: matches_def)
next
  case (Cons chunk chunks rows rowss)
  have apart: "\<not> (matches ps chunk r \<and> matches ps (concat chunks) r)" for r
  proof
    assume "matches ps chunk r \<and> matches ps (concat chunks) r"
    then obtain t u where "t \<in> set chunk" "KeyTuple_Equal (row_tuple ps r) t" "u \<in> set (concat chunks)" "KeyTuple_Equal (row_tuple ps r) u"
      by (auto simp: matches_def)
    then show False
      using Cons.prems Equal_eq by (fastforce simp: pairwise_unequal_def sorted_wrt_append)
  qed
  have "filter_mset (matches ps (chunk @ concat chunks)) table = filter_mset (matches ps chunk) table + filter_mset (matches ps (concat chunks)) table"
    using apart by (induction table) (auto simp: matches_def)
  then show ?case
    using Cons by (simp add: pairwise_unequal_def sorted_wrt_append)
qed

section \<open>The database\<close>

definition row_compare :: "PropertyMap list \<Rightarrow> row \<Rightarrow> row \<Rightarrow> int res" where
  "row_compare ps a b = KeyTuple_Compare (row_tuple ps a) (row_tuple ps b)"

text \<open>
  A database with a table of the entity: a key-list query answers the rows whose values are one of the listed tuples,
  in the order of their keys where the dialect stores them so that the engine orders them by value.
\<close>

definition answers_keys :: "'d reader \<Rightarrow> to_database \<Rightarrow> EntityMap \<Rightarrow> PropertyMap list \<Rightarrow> row list \<Rightarrow> 'd \<Rightarrow> bool" where
  "answers_keys rd conv m ps table d \<longleftrightarrow>
     (\<forall>chunk q sqlText args. chunk \<noteq> [] \<and> (\<forall>t \<in> set chunk. length t = length ps \<and> \<not> HasNull t) \<and>
        SelectSQL (ld_dialect rd) (criteria_bind conv q) (key_list_query m (propertyNames ps) (KeyProperties m) chunk) [] = (Inr sqlText, args) \<longrightarrow>
        (\<exists>rows. ld_query rd m sqlText args d = (Inr (rows, None), d) \<and> mset rows = filter_mset (matches ps chunk) (mset table) \<and>
           (keyOrderIsValueOrder (ld_dialect rd) m (KeyProperties m) \<longrightarrow> sorted_by (row_compare (KeyProperties m)) rows)))"

text \<open>The rows of a table: values of the declared types, and keys with a place in the order.\<close>

definition table_typed :: "EntityMap \<Rightarrow> row list \<Rightarrow> bool" where
  "table_typed m table \<longleftrightarrow>
     (\<forall>r \<in> set table. \<forall>p \<in> set (Properties m). field_typed p (r (PropertyName p))) \<and>
     (\<exists>ks. \<forall>r \<in> set table. key_typed ks (row_tuple (KeyProperties m) r))"

lemma membership_well_formed:
  assumes "set ps \<subseteq> set (Properties m)" and "\<forall>t \<in> set chunk. length t = length ps \<and> \<not> HasNull t"
  shows "well_formed_ast d (key_list_query m (propertyNames ps) (KeyProperties m) chunk)"
proof -
  have named: "mapped_name m (PropertyName p)" if "p \<in> set (Properties m)" for p
    using that by (simp add: mapped_name_def)
  have keys: "set (KeyProperties m) \<subseteq> set (Properties m)"
    by (auto simp: KeyProperties_def)
  have "well_formed d m (membershipCriteria (propertyNames ps) chunk)"
  proof (cases "\<exists>p. ps = [p]")
    case True
    then show ?thesis
      using assms named by (fastforce simp: membershipCriteria_def propertyNames_def HasNull_def length_Suc_conv)
  next
    case False
    then have "membershipCriteria (propertyNames ps) chunk = Or_any (map (\<lambda>t. And_all (map (\<lambda>(name, v). Eq name v) (zip (propertyNames ps) t))) chunk)"
      by (auto simp: membershipCriteria_def propertyNames_def split: list.splits)
    then show ?thesis
      using assms(1) named by (auto simp: Or_any_def And_all_def Eq_def propertyNames_def subset_iff dest!: set_zip_leftD)
  qed
  then show ?thesis
    using keys named by (auto simp: key_list_query_def well_formed_ast.simps negative_def)
qed

lemma answers_chunk:
  assumes "answers_keys rd conv m ps table d" and "set ps \<subseteq> set (Properties m)" and "\<And>v t l. is_ok (conv v t l)"
    and "chunk \<noteq> []" and "\<forall>t \<in> set chunk. length t = length ps \<and> \<not> HasNull t"
  shows "\<exists>rows. answers_rows rd conv (key_list_query m (propertyNames ps) (KeyProperties m) chunk) q d rows \<and>
    mset rows = filter_mset (matches ps chunk) (mset table) \<and>
    (keyOrderIsValueOrder (ld_dialect rd) m (KeyProperties m) \<longrightarrow> sorted_by (row_compare (KeyProperties m)) rows)"
proof -
  let ?ast = "key_list_query m (propertyNames ps) (KeyProperties m) chunk"
  have "decided (SelectSQL (ld_dialect rd) (criteria_bind conv q) ?ast) True"
    using decided_render(2) [where d = "ld_dialect rd" and ast = ?ast, OF criteria_bind_never_fails [where conv = conv and q = q, OF assms(3)]] membership_well_formed [OF assms(2,5)] by simp
  then have "is_ok (fst (SelectSQL (ld_dialect rd) (criteria_bind conv q) ?ast []))"
    by (cases "fst (SelectSQL (ld_dialect rd) (criteria_bind conv q) ?ast [])") (auto simp: decided_def dest!: spec [of _ "[]"])
  then obtain sqlText args where run: "SelectSQL (ld_dialect rd) (criteria_bind conv q) ?ast [] = (Inr sqlText, args)"
    by (cases "SelectSQL (ld_dialect rd) (criteria_bind conv q) ?ast []") (auto simp: is_ok_iff)
  have "ast_Map ?ast = m"
    by (simp add: key_list_query_def)
  then show ?thesis
    using assms(1,4,5) run by (auto simp: answers_keys_def answers_rows_def renderAndRunSelect_def)
qed

lemma answers_chunks:
  assumes "answers_keys rd conv m ps table d" and "set ps \<subseteq> set (Properties m)" and "\<And>v t l. is_ok (conv v t l)"
    and "\<forall>chunk \<in> set chunks. chunk \<noteq> [] \<and> (\<forall>t \<in> set chunk. length t = length ps \<and> \<not> HasNull t)"
  shows "\<exists>rowss. list_all2 (\<lambda>chunk rows. answers_rows rd conv (key_list_query m (propertyNames ps) (KeyProperties m) chunk) q d rows \<and>
    mset rows = filter_mset (matches ps chunk) (mset table) \<and>
    (keyOrderIsValueOrder (ld_dialect rd) m (KeyProperties m) \<longrightarrow> sorted_by (row_compare (KeyProperties m)) rows)) chunks rowss"
  using assms(4)
proof (induction chunks)
  case (Cons chunk chunks)
  then show ?case
    using answers_chunk [OF assms(1-3), of chunk q] by (auto simp: list_all2_Cons1)
qed (auto intro: exI [where x = "[]"])

section \<open>The query of the targets\<close>

lemma reads_values:
  assumes "reads mem rows mem'"
  shows "image_mset (fvals mem') (mset [hsize mem..<hsize mem']) = mset rows" and "set rows = fvals mem' ` set [hsize mem..<hsize mem']"
proof -
  have "rows = map (fvals mem') [hsize mem..<hsize mem']"
    using assms unfolding reads_def by (elim conjE) (rule sym)
  then show "image_mset (fvals mem') (mset [hsize mem..<hsize mem']) = mset rows" "set rows = fvals mem' ` set [hsize mem..<hsize mem']"
    by (simp_all only: mset_map set_map)
qed

lemma sorted_reads:
  assumes "reads mem rows mem'" and "sorted_by (row_compare ps) rows"
  shows "sorted_by (\<lambda>a b. row_compare ps (fvals mem' a) (fvals mem' b)) [hsize mem..<hsize mem']"
proof -
  have "sorted_by (row_compare ps) (map (fvals mem') [hsize mem..<hsize mem'])"
    using assms unfolding reads_def by metis
  then show ?thesis
    by (simp add: sorted_by_def sorted_wrt_map)
qed

lemma queryMembership_answers:
  fixes w :: "'d world"
  assumes untracked: "db_tracker (w_db w) = None" and answers: "answers_keys rd (db_conv (w_db w)) m ps table (w_ext w)"
    and mapped: "set ps \<subseteq> set (Properties m)" and conv: "\<And>v t l. is_ok (db_conv (w_db w) v t l)"
    and tuples: "\<forall>t \<in> set tuples. length t = length ps \<and> \<not> HasNull t" "pairwise_unequal tuples" and typed: "table_typed m table"
  shows "\<exists>targets mem. queryMembership rd m (propertyNames ps) tuples None projection (KeyProperties m) q w = (Inr targets, w\<lparr>w_mem := mem\<rparr>) \<and>
    (\<forall>p < hsize (w_mem w). fvals mem p = fvals (w_mem w) p \<and> navs mem p = navs (w_mem w) p) \<and>
    image_mset (fvals mem) (mset targets) = filter_mset (matches ps tuples) (mset table) \<and>
    sorted_by (\<lambda>a b. row_compare (KeyProperties m) (fvals mem a) (fvals mem b)) targets"
proof (cases "tuples = []")
  case True
  then show ?thesis
    by (intro exI [where x = "[]"] exI [where x = "w_mem w"]) (simp add: queryMembership_def prog_defs matches_def sorted_by_def)
next
  case False
  let ?chunks = "chunkTuples LoadChunkSize tuples" and ?keys = "KeyProperties m"
  have positive: "0 < LoadChunkSize"
    by (simp add: LoadChunkSize_def)
  have chunks: "\<forall>chunk \<in> set ?chunks. chunk \<noteq> [] \<and> (\<forall>t \<in> set chunk. length t = length ps \<and> \<not> HasNull t)"
    using chunkTuples_bounds [OF positive] tuples(1) by blast
  obtain rowss where rowss: "list_all2 (\<lambda>chunk rows. answers_rows rd (db_conv (w_db w)) (key_list_query m (propertyNames ps) ?keys chunk) q (w_ext w) rows \<and>
      mset rows = filter_mset (matches ps chunk) (mset table) \<and> (keyOrderIsValueOrder (ld_dialect rd) m ?keys \<longrightarrow> sorted_by (row_compare ?keys) rows)) ?chunks rowss"
    using answers_chunks [OF answers mapped conv chunks] by blast
  then have "list_all2 (\<lambda>ast rows. answers_rows rd (db_conv (w_db w)) ast q (w_ext w) rows) (map (key_list_query m (propertyNames ps) ?keys) ?chunks) rowss"
    by (auto simp: list_all2_map1 elim: list_all2_mono)
  from map_queries_untracked [OF untracked this refl refl] obtain found mem where
    found: "mapP (\<lambda>ast. selectRows rd ast q) (map (key_list_query m (propertyNames ps) ?keys) ?chunks) w = (Inr found, w\<lparr>w_mem := mem\<rparr>)"
      "concat found = [hsize (w_mem w)..<hsize mem]" "reads (w_mem w) (concat rowss) mem"
    by blast
  have run: "mapP (\<lambda>chunk. selectRows rd (key_list_query m (propertyNames ps) ?keys chunk) q) ?chunks w = (Inr found, w\<lparr>w_mem := mem\<rparr>)"
    using found(1) by (simp add: mapP_map)
  have rows: "mset (concat rowss) = filter_mset (matches ps tuples) (mset table)"
    using chunked_rows [of ps "mset table" ?chunks rowss] list_all2_mono [OF rowss] concat_chunkTuples [OF positive, of tuples] tuples(2)
    by auto
  let ?targets = "[hsize (w_mem w)..<hsize mem]"
  have kept: "\<forall>p < hsize (w_mem w). fvals mem p = fvals (w_mem w) p \<and> navs mem p = navs (w_mem w) p"
    using found(3) by (simp add: reads_def)
  have values': "image_mset (fvals mem) (mset ?targets) = filter_mset (matches ps tuples) (mset table)"
    using reads_values(1) [OF found(3)] rows by simp
  have in_table: "fvals mem v \<in> set table" if "v \<in> set ?targets" for v
  proof -
    have "fvals mem v \<in> set (concat rowss)"
      using that reads_values(2) [OF found(3)] by blast
    then show ?thesis
      using arg_cong [OF rows, of set_mset] by auto
  qed
  show ?thesis
  proof (cases "?keys \<noteq> [] \<and> (length ?chunks > 1 \<or> \<not> keyOrderIsValueOrder (ld_dialect rd) m ?keys)")
    case True
    obtain ks where ks: "\<forall>r \<in> set table. key_typed ks (row_tuple ?keys r)"
      using typed by (auto simp: table_typed_def)
    have fields: "\<forall>v \<in> set ?targets. \<forall>p \<in> set ?keys. field_typed p (Get mem p v)"
      using in_table typed by (auto simp: table_typed_def Get_def KeyProperties_def simp del: set_upt)
    obtain ys where "SortStableFunc (\<lambda>a b. KeyTuple_Compare (row_tuple ?keys (fvals mem a)) (row_tuple ?keys (fvals mem b))) ?targets = Inr ys"
        "mset ys = mset ?targets" "sorted_by (\<lambda>a b. KeyTuple_Compare (row_tuple ?keys (fvals mem a)) (row_tuple ?keys (fvals mem b))) ys"
      using SortStable_by [OF kt.key_compare_axioms, of ?targets ks "\<lambda>v. row_tuple ?keys (fvals mem v)"] in_table ks by blast
    then show ?thesis
      using run found(2) False True kept values'
      by (intro exI [where x = ys] exI [where x = mem])
        (simp add: queryMembership_def bindP_def prog_defs Let_def sort_targets_def sortByProperties_tuples [OF fields] extract_row row_compare_def [abs_def])
  next
    case skip: False
    have "sorted_by (\<lambda>a b. row_compare ?keys (fvals mem a) (fvals mem b)) ?targets"
    proof (cases "?keys = []")
      case True
      then show ?thesis
        by (simp add: sorted_by_def row_compare_def row_tuple_def sorted_wrt_iff_nth_less)
    next
      case keys: False
      then have single: "?chunks = [tuples]" and ordered: "keyOrderIsValueOrder (ld_dialect rd) m ?keys"
        using skip single_chunk [OF _ False positive] by auto
      then obtain rows where "rowss = [rows]" "sorted_by (row_compare ?keys) rows"
        using rowss by (auto simp: list_all2_Cons1)
      then show ?thesis
        using sorted_reads [OF found(3)] by simp
    qed
    moreover have "queryMembership rd m (propertyNames ps) tuples None projection ?keys q w = (Inr ?targets, w\<lparr>w_mem := mem\<rparr>)"
      using run found(2) False skip by (auto simp: queryMembership_def bindP_def prog_defs Let_def)
    ultimately show ?thesis
      using kept values' by blast
  qed
qed

section \<open>Attaching\<close>

lemma attach_pointer_slices:
  "fvals (attach_slices True name (map (\<lambda>e. (e, f e)) es) mem) = fvals mem \<and> hsize (attach_slices True name (map (\<lambda>e. (e, f e)) es) mem) = hsize mem \<and>
   navs (attach_slices True name (map (\<lambda>e. (e, f e)) es) mem) p n = (if p \<in> set es \<and> n = name then SliceField (Some (map Some (f p))) else navs mem p n)"
proof (induction es arbitrary: mem)
  case Nil
  show ?case
    by (simp add: attach_slices_def)
next
  case (Cons e es)
  have appended: "append_targets True ts (slice, mem) = (slice @ ts, mem)" for ts slice mem
    by (induction ts arbitrary: slice) simp_all
  have "attach_slices True name (map (\<lambda>e. (e, f e)) (e # es)) mem = attach_slices True name (map (\<lambda>e. (e, f e)) es) (setSliceField e name (f e) mem)"
    by (simp add: attach_slices_def attach_slice_def appended)
  then show ?case
    using Cons.IH [of "setSliceField e name (f e) mem"] by (auto simp: setSliceField_def set_navigation_def)
qed

lemma correlate_spec:
  "correlate mem es ps True = (map (\<lambda>e. if HasNull (extractTuple mem ps e) then None else Some (extractTuple mem ps e)) es,
     distinctTuples (map (extractTuple mem ps) (filter (\<lambda>e. \<not> HasNull (extractTuple mem ps e)) es)))"
proof -
  have "List.map_filter id (map (\<lambda>e. if HasNull (extractTuple mem ps e) then None else Some (extractTuple mem ps e)) es) =
      map (extractTuple mem ps) (filter (\<lambda>e. \<not> HasNull (extractTuple mem ps e)) es)"
    by (induction es) (simp_all add: map_filter_simps)
  then show ?thesis
    by (simp add: correlate_def Let_def)
qed

lemma resolved_properties:
  assumes "resolveProperties m names target = Inr ps"
  shows "set ps \<subseteq> set (Properties m)"
proof
  fix p
  assume "p \<in> set ps"
  moreover have "(case Property m name of None \<Rightarrow> Inl (OrmError ''REL-003'' target) | Some p \<Rightarrow> Inr p) = Inr q \<longleftrightarrow> Property m name = Some q" for name q
    by (auto split: option.splits)
  ultimately obtain name where "Property m name = Some p"
    using assms by (auto simp: resolveProperties_def res_map_Inr_iff list_all2_conv_all_nth in_set_conv_nth)
  then show "p \<in> set (Properties m)"
    by (auto simp: Property_def find_Some_iff)
qed

text \<open>The rows of one owner among the rows of all.\<close>

lemma owner_rows:
  assumes "image_mset f (mset targets) = filter_mset (matches ps ts) M" and "KeyTuple_Equal t t \<longrightarrow> t \<in> set ts"
  shows "image_mset f (mset (filter (\<lambda>v. KeyTuple_Equal (row_tuple ps (f v)) t) targets)) = filter_mset (\<lambda>r. KeyTuple_Equal (row_tuple ps r) t) M"
proof -
  have "image_mset f (mset (filter (\<lambda>v. KeyTuple_Equal (row_tuple ps (f v)) t) targets)) = filter_mset (\<lambda>r. KeyTuple_Equal (row_tuple ps r) t) (image_mset f (mset targets))"
    by (induction targets) simp_all
  also have "\<dots> = filter_mset (\<lambda>r. KeyTuple_Equal (row_tuple ps r) t) M"
    unfolding assms(1) filter_filter_mset
    using assms(2) Equal_eq by (intro filter_mset_cong) (auto simp: matches_def)
  finally show ?thesis .
qed

lemma one_to_many_tuples_loads:
  fixes w :: "'d world"
  assumes untracked: "db_tracker (w_db w) = None" and answers: "answers_keys rd (db_conv (w_db w)) targetMap fks table (w_ext w)"
    and mapped: "set fks \<subseteq> set (Properties targetMap)" and conv: "\<And>v t l. is_ok (db_conv (w_db w) v t l)"
    and arity: "length fks = length (KeyProperties ownerMap)" and typed: "table_typed targetMap table"
    and pointers: "ld_pointerElem rd (Type ownerMap) name"
  shows "\<exists>w'. one_to_many_tuples rd ownerMap targetMap fks name entities None q w = (Inr (), w') \<and>
    (\<forall>p < hsize (w_mem w). fvals (w_mem w') p = fvals (w_mem w) p \<and> (\<forall>n. p \<notin> set entities \<or> n \<noteq> name \<longrightarrow> navs (w_mem w') p n = navs (w_mem w) p n)) \<and>
    (\<forall>e \<in> set entities. \<exists>targets. navs (w_mem w') e name = SliceField (Some (map Some targets)) \<and>
       sorted_by (\<lambda>a b. row_compare (KeyProperties targetMap) (fvals (w_mem w') a) (fvals (w_mem w') b)) targets \<and>
       image_mset (fvals (w_mem w')) (mset targets) =
         (let key = extractTuple (w_mem w) (KeyProperties ownerMap) e
          in if HasNull key then {#} else filter_mset (\<lambda>r. KeyTuple_Equal (row_tuple fks r) key) (mset table)))"
proof -
  let ?keys = "KeyProperties ownerMap" and ?mem = "w_mem w"
  let ?nonnull = "map (extractTuple ?mem ?keys) (filter (\<lambda>e. \<not> HasNull (extractTuple ?mem ?keys e)) entities)"
  let ?tuples = "distinctTuples ?nonnull"
  have tuples: "pairwise_unequal ?tuples" "set ?tuples \<subseteq> set ?nonnull" "\<forall>t \<in> set ?nonnull. KeyTuple_Equal t t \<longrightarrow> t \<in> set ?tuples"
    using distinct_loop_spec [of "[]" ?nonnull] by (simp_all add: distinctTuples_def pairwise_unequal_def)
  have parts: "\<forall>t \<in> set ?tuples. length t = length fks \<and> \<not> HasNull t"
    using tuples(2) arity by (auto simp: extractTuple_def)
  obtain targets mem where query: "queryMembership rd targetMap (propertyNames fks) ?tuples None (key_projection ownerMap None) (KeyProperties targetMap) q w =
        (Inr targets, w\<lparr>w_mem := mem\<rparr>)"
      "\<forall>p < hsize ?mem. fvals mem p = fvals ?mem p \<and> navs mem p = navs ?mem p"
      "image_mset (fvals mem) (mset targets) = filter_mset (matches fks ?tuples) (mset table)"
      "sorted_by (\<lambda>a b. row_compare (KeyProperties targetMap) (fvals mem a) (fvals mem b)) targets"
    using queryMembership_answers [OF untracked answers mapped conv parts tuples(1) typed] by blast
  define f where "f e = (if HasNull (extractTuple ?mem ?keys e) then []
    else filter (\<lambda>v. KeyTuple_Equal (row_tuple fks (fvals mem v)) (extractTuple ?mem ?keys e)) targets)" for e
  let ?mem' = "attach_slices True name (map (\<lambda>e. (e, f e)) entities) mem"
  have "map (\<lambda>(e, owner). (e, case owner of None \<Rightarrow> [] | Some t \<Rightarrow> filter (\<lambda>v. KeyTuple_Equal (extractTuple mem fks v) t) targets))
      (zip entities (map (\<lambda>e. if HasNull (extractTuple ?mem ?keys e) then None else Some (extractTuple ?mem ?keys e)) entities)) = map (\<lambda>e. (e, f e)) entities"
    by (auto simp: zip_map2 zip_same_conv_map f_def extract_row)
  then have run: "one_to_many_tuples rd ownerMap targetMap fks name entities None q w = (Inr (), w\<lparr>w_mem := ?mem'\<rparr>)"
    using query(1) pointers by (simp add: one_to_many_tuples_def bindP_def prog_defs correlate_spec on_mem_def cong: option.case_cong)
  have sorted: "sorted_by (\<lambda>a b. row_compare (KeyProperties targetMap) (fvals mem a) (fvals mem b)) (f e)" for e
    using query(4) by (auto simp: f_def sorted_by_def sorted_wrt_filter)
  have rows: "image_mset (fvals mem) (mset (f e)) = (let key = extractTuple ?mem ?keys e
      in if HasNull key then {#} else filter_mset (\<lambda>r. KeyTuple_Equal (row_tuple fks r) key) (mset table))" if "e \<in> set entities" for e
    using owner_rows [OF query(3), of "extractTuple ?mem ?keys e"] tuples(3) that by (auto simp: f_def Let_def)
  show ?thesis
    by (intro exI [where x = "w\<lparr>w_mem := ?mem'\<rparr>"] conjI run) (use sorted rows query(2) in \<open>auto simp: attach_pointer_slices\<close>)
qed

end
