(* ===== verification/Loading_Theorems.thy ===== *)
theory Loading_Theorems
  imports Loading_Correct
begin

text \<open>
  What the loaders promise: with an integer key or with tuples, a load leaves every owner with the rows of the database
  whose foreign keys equal its key, in the order of their keys by value.
\<close>

section \<open>One-to-many on either path\<close>

lemma typed_membership:
  fixes w :: "'d world"
  assumes untracked: "db_tracker (w_db w) = None" and answers: "answers_keys rd (db_conv (w_db w)) m ps table (w_ext w)"
    and mapped: "set ps \<subseteq> set (Properties m)" and conv: "\<And>v t l. is_ok (db_conv (w_db w) v t l)"
    and tuples: "\<forall>t \<in> set tuples. length t = length ps \<and> \<not> HasNull t" "pairwise_unequal tuples" and typed: "table_typed m table"
    and p: "p \<in> set ps"
  shows "typed_answers (queryMembership rd m (propertyNames ps) tuples None projection (KeyProperties m) q) p w"
proof -
  obtain targets mem where query: "queryMembership rd m (propertyNames ps) tuples None projection (KeyProperties m) q w = (Inr targets, w\<lparr>w_mem := mem\<rparr>)"
      "image_mset (fvals mem) (mset targets) = filter_mset (matches ps tuples) (mset table)"
    using queryMembership_answers [OF untracked answers mapped conv tuples typed] by blast
  have "fvals mem v \<in> set table" if "v \<in> set targets" for v
    using that arg_cong [OF query(2), of set_mset] by auto
  then have "typed_fields mem p targets"
    using typed p mapped by (auto simp: typed_fields_def table_typed_def Get_def)
  then show ?thesis
    using query(1) by (simp add: typed_answers_def)
qed

lemma correlate_tuples:
  assumes "correlate mem es ps True = (owners, tuples)"
  shows "\<forall>t \<in> set tuples. length t = length ps \<and> \<not> HasNull t" and "pairwise_unequal tuples"
proof -
  let ?nonnull = "map (extractTuple mem ps) (filter (\<lambda>e. \<not> HasNull (extractTuple mem ps e)) es)"
  have "pairwise_unequal (distinctTuples ?nonnull)" "set (distinctTuples ?nonnull) \<subseteq> set ?nonnull"
    using distinct_loop_spec [of "[]" ?nonnull] by (simp_all add: distinctTuples_def pairwise_unequal_def)
  then show "\<forall>t \<in> set tuples. length t = length ps \<and> \<not> HasNull t" "pairwise_unequal tuples"
    using assms by (auto simp: correlate_spec extractTuple_def)
qed

text \<open>A load by either path, where the owners' keys hold values of their types.\<close>

lemma one_to_many_path:
  fixes w :: "'d world"
  assumes untracked: "db_tracker (w_db w) = None" and answers: "answers_keys rd (db_conv (w_db w)) targetMap fks table (w_ext w)"
    and mapped: "set fks \<subseteq> set (Properties targetMap)" and conv: "\<And>v t l. is_ok (db_conv (w_db w) v t l)"
    and arity: "length fks = length (KeyProperties ownerMap)" and typed: "table_typed targetMap table"
    and owners: "\<forall>p \<in> set (KeyProperties ownerMap). typed_fields (w_mem w) p entities"
  shows "(if sameIntegerKey (KeyProperties ownerMap) fks then one_to_many_integer else one_to_many_tuples) rd ownerMap targetMap fks name entities None q w =
    one_to_many_tuples rd ownerMap targetMap fks name entities None q w"
proof (cases "sameIntegerKey (KeyProperties ownerMap) fks")
  case True
  then obtain p k where p: "KeyProperties ownerMap = [p]" "fks = [k]"
    by (auto simp: sameIntegerKey_def dest!: integerKey_single)
  obtain os tuples where correlated: "correlate (w_mem w) entities (KeyProperties ownerMap) True = (os, tuples)"
    by (cases "correlate (w_mem w) entities (KeyProperties ownerMap) True")
  have "typed_answers (queryMembership rd targetMap (propertyNames fks) tuples None (key_projection ownerMap None) (KeyProperties targetMap) q) (hd fks) w"
    using correlate_tuples [OF correlated] arity p(2) by (intro typed_membership [OF untracked answers mapped conv _ _ typed]) simp_all
  then show ?thesis
    using True owners p(1) correlated by (simp add: one_to_many_paths)
qed simp

section \<open>Properties\<close>

text \<open>
  C37: \<open>LoadEach\<close> of a one-to-many navigation is right: against a database whose key-list queries answer the rows of a
  table of the targets, in a session without tracking, the load succeeds; every owner's collection then holds exactly
  the rows of the table whose foreign keys equal its key (none for an owner whose key is null), in the order of their
  own keys by value; and nothing else of the memory changes. This holds on the integer path and on the tuple path.
\<close>

theorem LoadEach_one_to_many:
  fixes w :: "'d world"
  assumes "db_maps (w_db w) ownerType = Inr ownerMap" and "relationshipNamed ownerMap navigation = Some rel" and "RelKind rel = RelationshipOneToMany"
    and "db_maps (w_db w) (TargetType rel) = Inr targetMap"
    and "resolveProperties targetMap (ForeignKeyProperties rel) (EntityName ownerMap @ ''.'' @ navigation) = Inr fks"
    and "length fks = length (KeyProperties ownerMap)"
    and "db_tracker (w_db w) = None" and "answers_keys rd (db_conv (w_db w)) targetMap fks table (w_ext w)"
    and "\<forall>v t l. is_ok (db_conv (w_db w) v t l)" and "table_typed targetMap table"
    and "\<forall>p \<in> set (KeyProperties ownerMap). typed_fields (w_mem w) p entities" and "ld_pointerElem rd (Type ownerMap) navigation"
  shows "\<exists>w'. LoadEach rd ownerType entities navigation w = (Inr (), w') \<and>
    (\<forall>e \<in> set entities. \<exists>targets. navs (w_mem w') e navigation = SliceField (Some (map Some targets)) \<and>
       sorted_by (\<lambda>a b. row_compare (KeyProperties targetMap) (fvals (w_mem w') a) (fvals (w_mem w') b)) targets \<and>
       image_mset (fvals (w_mem w')) (mset targets) =
         (let key = extractTuple (w_mem w) (KeyProperties ownerMap) e
          in if HasNull key then {#} else filter_mset (\<lambda>r. KeyTuple_Equal (row_tuple fks r) key) (mset table))) \<and>
    (\<forall>p < hsize (w_mem w). fvals (w_mem w') p = fvals (w_mem w) p \<and>
       (\<forall>n. p \<notin> set entities \<or> n \<noteq> navigation \<longrightarrow> navs (w_mem w') p n = navs (w_mem w) p n))"
proof -
  have name: "RelName rel = navigation"
    using assms(2) by (auto simp: relationshipNamed_def find_Some_iff)
  have mapped: "set fks \<subseteq> set (Properties targetMap)"
    by (rule resolved_properties [OF assms(5)])
  have conv: "is_ok (db_conv (w_db w) v t l)" for v t l
    using assms(9) by blast
  have "LoadEach rd ownerType entities navigation w =
      one_to_many_tuples rd ownerMap targetMap fks navigation entities None (EntityName ownerMap @ ''.'' @ navigation @ '' (one-to-many)'') w"
    using assms(1-6) one_to_many_path [OF assms(7,8) mapped conv assms(6,10,11)]
    by (simp add: LoadEach_def loadEachOf_def loadOneToMany_def name bindP_def prog_defs checkArity_def Let_def)
  then show ?thesis
    using one_to_many_tuples_loads [OF assms(7,8) mapped conv assms(6,10,12)] by simp blast
qed

text \<open>Orders with lines, the foreign key of a line in its \<open>Total\<close>.\<close>

definition order_lines :: RelationshipMap where
  "order_lines = \<lparr>RelName = ''Lines'', RelKind = RelationshipOneToMany, TargetType = ''Line'', ForeignKeyProperties = [''Total''],
     LinkType = [], LinkForeignKeysToOwner = [], LinkForeignKeysToTarget = [], Cascade = {}\<rparr>"

definition order_map :: EntityMap where
  "order_map = sample_map\<lparr>Relationships := [order_lines]\<rparr>"

definition line_map :: EntityMap where
  "line_map = sample_map\<lparr>Type := ''Line'', RelationName := ''lines''\<rparr>"

definition order_db :: Db where
  "order_db = \<lparr>db_tracker = None, db_uow = None, db_maps = (\<lambda>t. Inr (if t = ''Order'' then order_map else line_map)), db_conv = sample_conv\<rparr>"

definition line_row :: "int \<Rightarrow> int \<Rightarrow> row" where
  "line_row i owner = (\<lambda>f. if f = ''Id'' then VInt Int64 i else VInt Int64 owner)"

definition line_table :: "row list" where
  "line_table = [line_row 1 6, line_row 2 7, line_row 3 6]"

definition line_reader :: "nat reader" where
  "line_reader = \<lparr>ld_dialect = SqliteDialect,
     ld_query = (\<lambda>m sql args d. (Inr (filter (\<lambda>r. r ''Total'' \<in> set (map snd args)) line_table, None), d)),
     ld_pointerElem = (\<lambda>_ _. True)\<rparr>"

lemma integer_equal: "KeyTuple_Equal [VInt k i] t \<longleftrightarrow> t = [VInt k i]"
  by (cases t) (auto simp: KeyTuple_Equal_def Keys.DeepEqual_def)

lemma line_answers: "answers_keys line_reader sample_conv line_map [sample_property ''Total'' False] line_table d"
proof -
  let ?p = "sample_property ''Total'' False"
  have rows: "\<exists>rows. ld_query line_reader line_map sqlText args d = (Inr (rows, None), d) \<and> mset rows = filter_mset (matches [?p] chunk) (mset line_table) \<and>
      sorted_by (row_compare (KeyProperties line_map)) rows"
    if chunk: "chunk \<noteq> []" "\<forall>t \<in> set chunk. length t = length [?p] \<and> \<not> HasNull t"
      and run: "SelectSQL (ld_dialect line_reader) (criteria_bind sample_conv q) (key_list_query line_map (propertyNames [?p]) (KeyProperties line_map) chunk) [] = (Inr sqlText, args)"
    for chunk q sqlText args
  proof -
    let ?ast = "key_list_query line_map (propertyNames [?p]) (KeyProperties line_map) chunk"
    have "quiet (to_lower ''Id'')" "quiet (to_lower ''Total'')"
      by code_simp+
    then have "plain_ast ?ast"
      by (simp add: key_list_query_def membershipCriteria_def propertyNames_def plain_map_def line_map_def sample_defs)
    then have "list_all2 (converted_by sample_conv) (ast_values ?ast) args"
      using bound_names(4) [OF sqlite_query.query_dialect_axioms] run by (simp add: line_reader_def)
    then have args: "map snd args = map hd chunk"
      by (simp add: key_list_query_def membershipCriteria_def propertyNames_def list_all2_conv_all_nth converted_by_def sample_conv_def sample_property_def list_eq_iff_nth_eq)
    have "r ''Total'' \<in> set (map hd chunk) \<longleftrightarrow> matches [?p] chunk r" if "r \<in> set line_table" for r
    proof -
      have "r ''Total'' = VInt Int64 6 \<or> r ''Total'' = VInt Int64 7"
        using that by (auto simp: line_table_def line_row_def)
      then obtain i where "r ''Total'' = VInt Int64 i"
        by blast
      then have "matches [?p] chunk r \<longleftrightarrow> [VInt Int64 i] \<in> set chunk"
        by (simp add: matches_def row_tuple_def sample_property_def integer_equal)
      moreover have "t = [VInt Int64 i] \<longleftrightarrow> hd t = VInt Int64 i" if "t \<in> set chunk" for t
        using that chunk(2) by (auto simp: length_Suc_conv)
      ultimately show ?thesis
        using \<open>r ''Total'' = VInt Int64 i\<close> by (force simp: image_iff)
    qed
    then have "mset (filter (\<lambda>r. r ''Total'' \<in> set (map snd args)) line_table) = filter_mset (matches [?p] chunk) (mset line_table)"
      unfolding args mset_filter by (intro filter_mset_cong) simp_all
    moreover have "sorted_by (row_compare (KeyProperties line_map)) line_table"
      by (simp add: line_table_def sorted_by_def row_compare_def row_tuple_def line_map_def sample_defs KeyProperties_def line_row_def compareOrdered_def bindR_def)
    ultimately show ?thesis
      by (simp add: line_reader_def sorted_by_def sorted_wrt_filter)
  qed
  then show ?thesis
    unfolding answers_keys_def by blast
qed

definition order_world :: "nat world" where
  "order_world = \<lparr>w_mem = sample_memory 5, w_db = order_db, w_tx = False, w_journal = None, w_ext = 0\<rparr>"

theorem LoadEach_one_to_many_witness:
  "\<exists>w'. LoadEach line_reader ''Order'' [6, 7, 8] ''Lines'' order_world = (Inr (), w') \<and>
    (\<exists>targets. navs (w_mem w') 6 ''Lines'' = SliceField (Some (map Some targets)) \<and>
       image_mset (fvals (w_mem w')) (mset targets) = {#line_row 1 6, line_row 3 6#}) \<and> navs (w_mem w') 8 ''Lines'' = SliceField (Some [])"
proof -
  let ?fk = "sample_property ''Total'' False"
  have maps: "db_maps (w_db order_world) ''Order'' = Inr order_map" "db_maps (w_db order_world) (TargetType order_lines) = Inr line_map"
      "db_tracker (w_db order_world) = None" "\<forall>v t l. is_ok (db_conv (w_db order_world) v t l)"
    by (simp_all add: order_world_def order_db_def order_lines_def sample_conv_def is_ok_iff)
  have navigation: "relationshipNamed order_map ''Lines'' = Some order_lines" "RelKind order_lines = RelationshipOneToMany" "ld_pointerElem line_reader (Type order_map) ''Lines''"
    by (simp_all add: relationshipNamed_def order_map_def order_lines_def line_reader_def)
  have keys: "resolveProperties line_map (ForeignKeyProperties order_lines) (EntityName order_map @ ''.'' @ ''Lines'') = Inr [?fk]"
      "length [?fk] = length (KeyProperties order_map)"
    by code_simp+
  have answers: "answers_keys line_reader (db_conv (w_db order_world)) line_map [?fk] line_table (w_ext order_world)"
    using line_answers by (simp add: order_world_def order_db_def)
  have "table_typed line_map line_table"
    unfolding table_typed_def
    by (intro conjI exI [where x = "[KInt Int64]"])
      (simp_all add: line_table_def line_row_def line_map_def sample_defs KeyProperties_def row_tuple_def field_typed_def key_typed_def)
  moreover have "\<forall>p \<in> set (KeyProperties order_map). typed_fields (w_mem order_world) p [6, 7, 8]"
    by (auto simp: typed_fields_def order_world_def order_map_def sample_defs KeyProperties_def Get_def field_typed_def)
  ultimately obtain w' where load: "LoadEach line_reader ''Order'' [6, 7, 8] ''Lines'' order_world = (Inr (), w')"
    and loaded: "\<forall>e \<in> set [6, 7, 8]. \<exists>targets. navs (w_mem w') e ''Lines'' = SliceField (Some (map Some targets)) \<and>
       image_mset (fvals (w_mem w')) (mset targets) =
         (let key = extractTuple (w_mem order_world) (KeyProperties order_map) e
          in if HasNull key then {#} else filter_mset (\<lambda>r. KeyTuple_Equal (row_tuple [?fk] r) key) (mset line_table))"
    using LoadEach_one_to_many [OF maps(1) navigation(1,2) maps(2) keys maps(3) answers maps(4) _ _ navigation(3)] by meson
  have key: "extractTuple (w_mem order_world) (KeyProperties order_map) e = [VInt Int64 (int e)]" for e
    by (simp add: extractTuple_def order_world_def order_map_def sample_defs KeyProperties_def Get_def)
  have rows: "(let key = extractTuple (w_mem order_world) (KeyProperties order_map) e
      in if HasNull key then {#} else filter_mset (\<lambda>r. KeyTuple_Equal (row_tuple [?fk] r) key) (mset line_table)) =
      filter_mset (\<lambda>r. r ''Total'' = VInt Int64 (int e)) (mset line_table)" for e
    by (simp add: key HasNull_def row_tuple_def sample_property_def KeyTuple_Equal_def Keys.DeepEqual_def cong: conj_cong)
  show ?thesis
    using load loaded by (intro exI [where x = w'] conjI) (auto simp: rows line_table_def line_row_def)
qed

end
