(* ===== verification/Loading_Agree.thy ===== *)
theory Loading_Agree
  imports Loading_Theorems
begin

text \<open>
  The integer paths against the tuple paths as a property of the loaders, and what makes the targets they read typed: a
  reader that answers typed rows to an untracked session.
\<close>

definition typed_rows :: "PropertyMap \<Rightarrow> row list \<Rightarrow> bool" where
  "typed_rows p rows \<longleftrightarrow> (\<forall>r \<in> set rows. field_typed p (r (PropertyName p)))"

text \<open>Every query of the entity's rows answers targets whose field has a value of its type.\<close>

definition typed_reads :: "'d reader \<Rightarrow> 'd world \<Rightarrow> EntityMap \<Rightarrow> PropertyMap \<Rightarrow> bool" where
  "typed_reads rd w m p \<longleftrightarrow>
     (\<forall>names tuples sub projection orderProperties q. typed_answers (queryMembership rd m names tuples sub projection orderProperties q) p w)"

definition fresh_typed :: "PropertyMap \<Rightarrow> 'd world \<Rightarrow> ptr list \<Rightarrow> 'd world \<Rightarrow> bool" where
  "fresh_typed p w targets w' \<longleftrightarrow> w_db w' = w_db w \<and>
     (\<exists>rows. reads (w_mem w) rows (w_mem w') \<and> typed_rows p rows \<and> targets = [hsize (w_mem w)..<hsize (w_mem w')])"

lemma fresh_typed_fields:
  assumes "fresh_typed p w targets w'"
  shows "typed_fields (w_mem w') p targets"
proof -
  obtain rows where rows: "reads (w_mem w) rows (w_mem w')" "typed_rows p rows" "targets = [hsize (w_mem w)..<hsize (w_mem w')]"
    using assms by (auto simp: fresh_typed_def)
  then have "set rows = fvals (w_mem w') ` set targets"
    using reads_values(2) by blast
  then show ?thesis
    using rows(2) by (auto simp: typed_rows_def typed_fields_def Get_def)
qed

lemma fresh_typed_append:
  assumes "fresh_typed p w xs w'" and "fresh_typed p w' ys w''"
  shows "fresh_typed p w (xs @ ys) w''"
proof -
  obtain rows rows' where rows: "reads (w_mem w) rows (w_mem w')" "typed_rows p rows" "xs = [hsize (w_mem w)..<hsize (w_mem w')]"
      "reads (w_mem w') rows' (w_mem w'')" "typed_rows p rows'" "ys = [hsize (w_mem w')..<hsize (w_mem w'')]"
    using assms by (auto simp: fresh_typed_def)
  have "hsize (w_mem w) \<le> hsize (w_mem w')" "hsize (w_mem w') \<le> hsize (w_mem w'')"
    using rows(1,4) by (simp_all add: reads_def)
  then have "xs @ ys = [hsize (w_mem w)..<hsize (w_mem w'')]"
    using upt_add_eq_append [of "hsize (w_mem w)" "hsize (w_mem w')" "hsize (w_mem w'') - hsize (w_mem w')"] rows(3,6) by simp
  then show ?thesis
    using assms reads_append [OF rows(1,4)] rows(2,5) unfolding fresh_typed_def typed_rows_def
    by (intro conjI exI [where x = "rows @ rows'"]) auto
qed

text \<open>A reader of typed rows.\<close>

definition reader_typed :: "'d reader \<Rightarrow> EntityMap \<Rightarrow> PropertyMap \<Rightarrow> bool" where
  "reader_typed rd m p \<longleftrightarrow> (\<forall>sqlText args d rows err d'. ld_query rd m sqlText args d = (Inr (rows, err), d') \<longrightarrow> typed_rows p rows)"

lemma selectRows_typed:
  assumes "db_tracker (w_db w) = None" and "reader_typed rd (ast_Map ast) p" and "selectRows rd ast q w = (Inr targets, w')"
  shows "fresh_typed p w targets w'"
proof -
  obtain rows err d where query: "renderAndRunSelect (ld_dialect rd) (db_conv (w_db w)) (ld_query rd (ast_Map ast)) ast q (w_ext w) = (Inr (rows, err), d)"
      "read_rows (ast_Map ast) (rows, err) (w\<lparr>w_ext := d\<rparr>) = (Inr targets, w')"
    using assms(3) by (auto simp: selectRows_def bindP_def split: prod.splits sum.splits)
  have "typed_rows p rows"
    using query(1) assms(2) by (fastforce simp: renderAndRunSelect_def reader_typed_def split: prod.splits sum.splits)
  moreover obtain mem where "mapP (read_row (ast_Map ast)) rows (w\<lparr>w_ext := d\<rparr>) = (Inr [hsize (w_mem w)..<hsize mem], w\<lparr>w_ext := d, w_mem := mem\<rparr>)"
      "reads (w_mem w) rows mem"
    using map_rows_untracked [where w = "w\<lparr>w_ext := d\<rparr>" and m = "ast_Map ast" and rows = rows] assms(1) by auto
  ultimately show ?thesis
    using query(2) by (cases err) (auto simp: fresh_typed_def read_rows_def bindP_def prog_defs)
qed

lemma map_queries_typed:
  assumes "db_tracker (w_db w) = None" and "\<forall>chunk \<in> set chunks. reader_typed rd (ast_Map (query chunk)) p"
    and "mapP (\<lambda>chunk. selectRows rd (query chunk) q) chunks w = (Inr found, w')"
  shows "fresh_typed p w (concat found) w'"
  using assms
proof (induction chunks arbitrary: w found)
  case Nil
  then show ?case
    by (auto simp: prog_defs fresh_typed_def typed_rows_def intro: exI [where x = "[]"] reads_none)
next
  case (Cons chunk chunks)
  obtain targets v rest where split: "selectRows rd (query chunk) q w = (Inr targets, v)"
      "mapP (\<lambda>chunk. selectRows rd (query chunk) q) chunks v = (Inr rest, w')" "found = targets # rest"
    using Cons.prems(3) by (auto simp: bindP_def prog_defs split: prod.splits sum.splits)
  have first: "fresh_typed p w targets v"
    using selectRows_typed [OF Cons.prems(1) _ split(1)] Cons.prems(2) by simp
  then have "fresh_typed p v (concat rest) w'"
    using Cons.IH [OF _ _ split(2)] Cons.prems by (simp add: fresh_typed_def)
  then show ?case
    using fresh_typed_append [OF first] split(3) by simp
qed

lemma sort_targets_keeps:
  assumes "sort_targets ps targets w = (Inr sorted', w')"
  shows "w' = w \<and> set sorted' = set targets"
proof -
  have "set (foldr (insert_by cmp) xs []) = set xs" for cmp :: "ptr \<Rightarrow> ptr \<Rightarrow> int res" and xs
    by (induction xs) simp_all
  then show ?thesis
    using assms by (auto simp: sort_targets_def sortByProperties_def SortStableFunc_def bindP_def prog_defs split: if_splits)
qed

lemma reader_typed_reads:
  assumes "db_tracker (w_db w) = None" and "reader_typed rd m p"
  shows "typed_reads rd w m p"
proof -
  have sorted: "typed_fields (w_mem w') p sorted'"
    if "fresh_typed p w targets v" and "(if c then sort_targets ps targets else retP targets) v = (Inr sorted', w')" for targets v c ps sorted' w'
    using that(2) fresh_typed_fields [OF that(1)] by (auto simp: typed_fields_def prog_defs dest: sort_targets_keeps split: if_splits)
  have "typed_fields (w_mem w') p targets"
    if run: "queryMembership rd m names tuples sub projection ps q w = (Inr targets, w')" for names tuples sub projection ps q targets w'
  proof (cases sub)
    case (Some s)
    let ?ast = "SelectAst m [InSelect names (with_projection s projection)] (map (\<lambda>p. \<lparr>or_Property = PropertyName p, or_Order = Asc\<rparr>) ps) None None None []"
    obtain found v where found: "selectRows rd ?ast q w = (Inr found, v)"
        and kept: "(if ps \<noteq> [] \<and> \<not> keyOrderIsValueOrder (ld_dialect rd) m ps then sort_targets ps found else retP found) v = (Inr targets, w')"
      using run Some by (auto simp: queryMembership_def bindP_def split: prod.splits sum.splits)
    have "fresh_typed p w found v"
      by (rule selectRows_typed [OF assms(1) _ found]) (simp add: assms(2))
    then show ?thesis
      using kept by (rule sorted)
  next
    case None
    show ?thesis
    proof (cases "tuples = []")
      case True
      then show ?thesis
        using run None by (auto simp: queryMembership_def prog_defs typed_fields_def)
    next
      case False
      obtain found v c where found: "mapP (\<lambda>chunk. selectRows rd (key_list_query m names ps chunk) q) (chunkTuples LoadChunkSize tuples) w = (Inr found, v)"
          and kept: "(if c then sort_targets ps (concat found) else retP (concat found)) v = (Inr targets, w')"
        using run None False by (auto simp: queryMembership_def bindP_def Let_def split: prod.splits sum.splits)
      have "fresh_typed p w (concat found) v"
        by (rule map_queries_typed [OF assms(1) _ found]) (simp add: assms(2) key_list_query_def)
      then show ?thesis
        using kept by (rule sorted)
    qed
  qed
  then show ?thesis
    by (simp add: typed_reads_def typed_answers_def)
qed

section \<open>Properties\<close>

text \<open>
  C38: The integer paths of the loaders are the tuple paths. Where the owners' fields and the rows read hold values of
  their declared types, loading by integers (a map from keys) and by tuples (deep equality of the parts) is the same
  computation for many-to-one, one-to-one and one-to-many: the same queries, the same refusal of a duplicate, the same
  navigations, on every outcome of the database, with keys listed or by subquery, in tracked and untracked sessions.
\<close>

theorem integer_paths_agree:
  assumes "\<forall>p \<in> set (Properties ownerMap). typed_fields (w_mem w) p entities" and "\<forall>p \<in> set (Properties targetMap). typed_reads rd w targetMap p"
  shows "(set fks \<subseteq> set (Properties ownerMap) \<and> sameIntegerKey fks (KeyProperties targetMap) \<longrightarrow>
      many_to_one_integer rd targetMap fks name entities sub q w = many_to_one_tuples rd targetMap fks name entities sub q w) \<and>
    (set fks \<subseteq> set (Properties targetMap) \<and> sameIntegerKey (KeyProperties ownerMap) fks \<longrightarrow>
      one_to_one_integer rd ownerMap targetMap fks target name entities sub q w = one_to_one_tuples rd ownerMap targetMap fks target name entities sub q w \<and>
      one_to_many_integer rd ownerMap targetMap fks name entities sub q w = one_to_many_tuples rd ownerMap targetMap fks name entities sub q w)"
proof -
  have hd: "sameIntegerKey a b \<Longrightarrow> hd a \<in> set a \<and> hd b \<in> set b" for a b
    by (auto simp: sameIntegerKey_def dest!: integerKey_single)
  have keys: "set (KeyProperties m) \<subseteq> set (Properties m)" for m
    by (auto simp: KeyProperties_def)
  have read: "p \<in> set (Properties targetMap) \<Longrightarrow> typed_answers (queryMembership rd targetMap names tuples sub projection ps q) p w" for p names tuples projection ps
    using assms(2) by (auto simp: typed_reads_def)
  show ?thesis
    using assms(1) hd keys
    by (intro conjI impI many_to_one_paths one_to_one_paths one_to_many_paths read) (blast | simp add: subset_iff)+
qed

theorem integer_paths_agree_witness:
  "many_to_one_integer line_reader line_map [sample_property ''Total'' False] ''Line'' [6, 7] None ''q'' order_world =
     many_to_one_tuples line_reader line_map [sample_property ''Total'' False] ''Line'' [6, 7] None ''q'' order_world \<and>
   one_to_one_integer line_reader order_map line_map [sample_property ''Total'' False] ''Order.Line'' ''Line'' [6, 7] None ''q'' order_world =
     one_to_one_tuples line_reader order_map line_map [sample_property ''Total'' False] ''Order.Line'' ''Line'' [6, 7] None ''q'' order_world"
proof -
  have "\<forall>p \<in> set (Properties order_map). typed_fields (w_mem order_world) p [6, 7]"
    by (auto simp: typed_fields_def order_world_def order_map_def sample_defs Get_def field_typed_def)
  moreover have "reader_typed line_reader line_map p" if "p \<in> set (Properties line_map)" for p
    using that by (auto simp: reader_typed_def typed_rows_def line_reader_def line_table_def line_row_def line_map_def sample_defs field_typed_def)
  then have "\<forall>p \<in> set (Properties line_map). typed_reads line_reader order_world line_map p"
    using reader_typed_reads [of order_world line_reader line_map] by (simp add: order_world_def order_db_def)
  moreover have "set [sample_property ''Total'' False] \<subseteq> set (Properties order_map) \<and> sameIntegerKey [sample_property ''Total'' False] (KeyProperties line_map)"
      "set [sample_property ''Total'' False] \<subseteq> set (Properties line_map) \<and> sameIntegerKey (KeyProperties order_map) [sample_property ''Total'' False]"
    by (auto simp: order_map_def line_map_def sample_defs KeyProperties_def sameIntegerKey_def integerKey_def integerKeyTypes_def)
  ultimately show ?thesis
    using integer_paths_agree [of order_map order_world "[6, 7]" line_map line_reader "[sample_property ''Total'' False]"] by blast
qed

end
