(* ===== verification/Spec2Isabelle.thy ===== *)
theory Spec2Isabelle
  imports Flush_Undo Decimals Cascade_Text Dialects Migration_Runner Message_Text Loading_Agree
begin

text \<open>
  A verification development of the Go implementation of SimpleOrm (\<open>src/go/orm/\<close>), an object-relational
  mapper: a session with an identity map and a unit of work, generated statements sent in batches over a
  dialect, criteria queries and eager loading, and versioned schema migrations. File names below are relative
  to \<open>src/go/orm/\<close>.

  How the program is modelled. A fallible function returns \<open>'a res\<close>: an error with its stable code and target, or a
  value; the prose of messages is left out. A run-time panic is the error \<open>GoPanic\<close>. What mutates in place and may
  fail half way is a program over an explicit state (\<open>Program\<close>): what was changed before an error stays changed.
  Go structs are records, tagged unions datatypes, pointers to entities addresses of a store (\<open>memory\<close>) that holds
  their fields and navigations, which stands for reflection; maps are functions to options, or association lists
  where the code's iteration order matters. Go integers are integers kept in the range of their declared type
  (\<open>in_range\<close>), the hash works on 32-bit words.

  Parts and theories.

  Foundations. \<open>Prelude\<close>: errors (\<open>internal/core/errors.go\<close>), loops, strings, the lemmas everything shares.
  \<open>Program\<close>: programs and their triples. \<open>Metadata\<close>: property, relationship and entity maps
  (\<open>internal/core/metadata.go\<close>, \<open>cascade.go\<close>) and the store. \<open>Cascade_Text\<close>: the text of cascade declarations.
  \<open>Keys\<close>: \<open>internal/core/compare_values.go\<close>, \<open>key_tuple.go\<close>. \<open>Decimals\<close>: \<open>internal/core/decimal.go\<close>.
  \<open>Key_Validation\<close>: the validation of key arguments in \<open>db_crud.go\<close>.

  The session. \<open>Tracker\<close> (\<open>tracker.go\<close>) is the identity map: entries per type sorted by key, an index by pointer,
  snapshots; \<open>Identity_Map\<close> is its invariant and its contract as a map from keys to instances. \<open>Session\<close>
  (\<open>tracking.go\<close>, \<open>db_detach_merge.go\<close>) resolves rows, gates writes, merges and detaches. \<open>Unit_Of_Work\<close>
  (\<open>unit_of_work.go\<close>) schedules: \<open>Cascade_Walk\<close> is the walk both cascades make, as a locale, \<open>Cancel_Inserts\<close> the
  fixpoint of a cancellation, \<open>Scheduling\<close> the theorems on \<open>Persist\<close> and \<open>Remove\<close>.

  Writing. \<open>Write_Path\<close> (\<open>db_crud.go\<close>, \<open>db_write.go\<close>, \<open>db_hooks.go\<close>, \<open>generated_sql.go\<close>) prepares a statement, judges its
  result and records what to undo. \<open>Batch_Plan\<close> (\<open>batching.go\<close>, \<open>batch.go\<close>) collects statements into messages;
  \<open>Batch_Rules\<close> is its invariant. \<open>Flush\<close> (\<open>flush.go\<close>) plans with \<open>Go_Heap\<close> (Go's \<open>container/heap\<close>),
  \<open>Dependency_Order\<close> and \<open>Type_Rank\<close>, and executes; \<open>Flush_Order\<close> says in which order. \<open>Undo\<close>, \<open>Undo_Programs\<close> and
  \<open>Flush_Undo\<close> carry the invariant of the undo journal through every program of the write path.

  Dialects and text. \<open>Dialect_Contract\<close> is the \<open>Dialect\<close> record (\<open>internal/core/dialect.go\<close>) and what every dialect
  shares, as a locale that \<open>Sqlite_Dialect\<close>, \<open>Postgres_Dialect\<close> and \<open>Sqlserver_Dialect\<close> interpret; \<open>Dialects\<close> has the
  theorems over the three. \<open>Ddl_Text\<close> compares definitions, \<open>Trigger_Text\<close> and \<open>Trigger_Body\<close> render and normalize
  triggers (\<open>internal/core/trigger.go\<close>, \<open>migrations/trigger_declaration.go\<close>). \<open>Placeholders\<close> is the scanner of \<open>@name\<close>
  (\<open>internal/core/sql_placeholders.go\<close>), \<open>Wire_Text\<close> the rewriting of names to ordinals (\<open>postgres/driver.go\<close>),
  \<open>Message_Text\<close> the joining of a message (\<open>sqlserver/batch.go\<close>).

  Reading. \<open>Query_Ast\<close> (\<open>internal/core/query_ast.go\<close>, \<open>internal/render/ansi_select_renderer.go\<close>,
  \<open>criteria_query.go\<close>) renders a query; \<open>Query_Text\<close> and \<open>Query_Binding\<close> say that its values travel as arguments only, over
  the locale \<open>query_dialect\<close>; \<open>Query_Refusal\<close> compares what is refused with \<open>spec/query-ast.md\<close>. \<open>Loading\<close> and
  \<open>Eager_Load\<close> (\<open>db_eager.go\<close>, \<open>db_loading.go\<close>, \<open>loading_keys.go\<close>) are the four loaders, \<open>Loading_Paths\<close>,
  \<open>Loading_Rows\<close>, \<open>Loading_Correct\<close>, \<open>Loading_Theorems\<close> and \<open>Loading_Agree\<close> what they give.

  Migrations. \<open>Schema\<close> and \<open>Table_Actions\<close> (\<open>internal/core/table_schema.go\<close>, \<open>migrations/migration.go\<close>) are shapes
  and steps, \<open>Schema_Diff\<close> (\<open>migrations/migration_generator.go\<close>) and \<open>Down_Deriver\<close> (\<open>migrations/down_deriver.go\<close>) derive steps
  from shapes, \<open>Migration_Set\<close> (\<open>migrations/migration_set.go\<close>) validates and renders the plan. \<open>Migration_Run\<close> is the runner
  (\<open>migrations/migration_runner.go\<close>, with \<open>Sha256\<close> for its checksums), \<open>Migration_History\<close> the locale
  \<open>migration_database\<close> with the laws of the recorded history, interpreted by \<open>Memory_Database\<close>;
  \<open>Migration_Refines\<close>, \<open>Migration_Status\<close>, \<open>Migration_Live\<close> and \<open>Migration_Runner\<close> prove what a run does to that history.

  What the groups of properties show. C1: a flush that fails restores the session. C2, C19, C20: the order of
  statements. C3 to C7: what \<open>Persist\<close> and \<open>Remove\<close> schedule, cancel and refuse. C8 to C16: the identity map, row
  identity, merge, dirty checks, and the order and validation of keys. C17, C18: the rules of messages.
  C21, C25 to C27: definitions and triggers in canonical form, and dialects that agree with themselves. C22 to C24:
  generated migrations, derived rollbacks, and plans. C28 to C34: the runner refines the recorded history.
  C35, C36: parameters on the wire. C37, C38: loading. C39, C40: queries.

  Parameters and hypotheses. Code that is not in the repository is an argument. The outside of a flush (converters,
  hooks, the driver's answer to a message) is a record of functions, constrained only by what a
  property assumes of it. The driver of the migrations is a record of functions; \<open>migration_database\<close> says that a
  transaction sees its own rows, that commit keeps and rollback drops them, that a plain statement leaves the version
  table alone; the database in memory has all the laws. C32 runs against a driver that also raises a flag when a call
  fails. The database of C22 and C23 executes statements on a table whose shape is read off it; \<open>engine_laws\<close> are what
  the manuals of the three engines document of a statement with nothing in its way, and say nothing of
  others. The reader of C37 answers a key list with the rows of those keys. Each property with a hypothesis has a
  witness that instantiates it.

  Bounds. The cascade walks take the fuel \<open>Suc (hsize mem)\<close>: each level enters an instance not yet
  visited, so \<open>OutOfFuel\<close> is never the answer (C4, C7). The strongly connected components of the types take
  \<open>Suc (length discovered)\<close>, each level being a type not yet numbered. The discovery of the types takes a depth that is
  an argument of the model: the types of a program are finite, but the map loader that names them is a parameter;
  the properties of a flush hold for every depth. The passes of a cancellation and the ready loop of the dependency
  order end by their measures, as all other recursions do.

  Where the model is coarser than Go. Letters are folded and blanks recognised on ASCII text, where Go's functions
  know Unicode. A byte slice compared with a value of another kind panics here and is compared by its formatted text
  in Go; a nil slice and an empty one are one value. \<open>tracker_resnapshot\<close> answers an error without the
  snapshots already moved; the write path uses \<open>resnapshotP\<close>, which keeps them.

  What is not modelled. Opening, options, logging, timeouts and retries (\<open>db_open.go\<close>, \<open>db_options.go\<close>,
  \<open>statement_log.go\<close>): clocks, contexts and I/O. The metadata loaders, type handlers, parameter binders and result
  mappers (\<open>internal/metadata\<close>, \<open>internal/mapping\<close>, \<open>internal/params\<close>): reflection over Go types. The join mode of eager
  loading (\<open>db_eager_join.go\<close>), the finders, the registry of queries. The start-up check of a live schema
  (\<open>schema_guard.go\<close>), shadow databases, snapshot files and generated source (\<open>migrations/shadow.go\<close>,
  \<open>diff_command.go\<close>, \<open>trigger_generator.go\<close>). The drivers' connections and cursors. The command line and the samples.
\<close>

end
